(* ===== verification/Prelude.thy ===== *)
theory Prelude
  imports Main "HOL-Library.Word"
begin

text \<open>
  Shared ground of the imud development: names for the C integer types, the byte lists that
  stand for buffers, the collections of simplification rules that several components add to,
  and list lemmas that are not specific to any component.
\<close>

unbundle bit_operations_syntax

type_synonym u8 = "8 word"
type_synonym u16 = "16 word"
type_synonym u32 = "32 word"
type_synonym u64 = "64 word"

text \<open>
  A C \<open>float\<close> that is only stored, copied and moved over the wire is its 32-bit
  pattern: the code reads it with \<open>memcpy\<close> into a \<open>uint32_t\<close>.
\<close>

type_synonym f32 = "32 word"
type_synonym bytes = "8 word list"

named_theorems wire_simps \<open>encoders and decoders of wire.h undo each other\<close>
named_theorems len_simps \<open>lengths of encoded fields\<close>

section \<open>Lists\<close>

lemma take_append_exact [simp]: "n = length xs \<Longrightarrow> take n (xs @ ys) = xs"
  by simp

lemma drop_append_exact [simp]: "n = length xs \<Longrightarrow> drop n (xs @ ys) = ys"
  by simp

lemma nth_append_shift: "length xs = n \<Longrightarrow> (xs @ ys) ! (n + k) = ys ! k"
  by (simp add: nth_append)

text \<open>The newest \<open>n\<close> elements of a list, and what an overwriting queue of that size drops.\<close>

definition last_n :: "nat \<Rightarrow> 'a list \<Rightarrow> 'a list" where
  "last_n n xs = drop (length xs - n) xs"

lemma length_last_n [simp]: "length (last_n n xs) = min n (length xs)"
  by (simp add: last_n_def)

lemma last_n_all [simp]: "length xs \<le> n \<Longrightarrow> last_n n xs = xs"
  by (simp add: last_n_def)

lemma last_n_last_n [simp]: "m \<le> n \<Longrightarrow> last_n m (last_n n xs) = last_n m xs"
  by (rule nth_equalityI) (auto simp: last_n_def min_def intro!: arg_cong [of _ _ "(!) xs"])

lemma last_n_append_last_n: "last_n n (last_n n xs @ ys) = last_n n (xs @ ys)"
  by (cases "n \<le> length xs") (auto simp: last_n_def min_def add.commute)

section \<open>Flag bits\<close>

lemma flag_set_iff: "x AND push_bit n 1 \<noteq> 0 \<longleftrightarrow> bit (x :: 'a::len word) n"
  by (simp add: push_bit_of_1 and_exp_eq_0_iff_not_bit)

end
