(* ===== verification/Wire.thy ===== *)
theory Wire
  imports Prelude
begin

text \<open>
  include/wire.h: the little-endian scalar accessors. A store returns the bytes it writes at
  \<open>p\<close>, a load reads them from the front of the list that stands for \<open>p\<close>; both go through
  shifts on the value, as in the source.
\<close>

definition wire_put_u8 :: "u8 \<Rightarrow> bytes" where
  "wire_put_u8 v = [v]"

definition wire_put_u16 :: "u16 \<Rightarrow> bytes" where
  "wire_put_u16 v = [ucast v, ucast (drop_bit 8 v)]"

definition wire_put_u32 :: "u32 \<Rightarrow> bytes" where
  "wire_put_u32 v = [ucast v, ucast (drop_bit 8 v), ucast (drop_bit 16 v), ucast (drop_bit 24 v)]"

definition wire_put_u64 :: "u64 \<Rightarrow> bytes" where
  "wire_put_u64 v =
     [ucast v, ucast (drop_bit 8 v), ucast (drop_bit 16 v), ucast (drop_bit 24 v),
      ucast (drop_bit 32 v), ucast (drop_bit 40 v), ucast (drop_bit 48 v), ucast (drop_bit 56 v)]"

definition wire_put_f32 :: "f32 \<Rightarrow> bytes" where
  "wire_put_f32 v = wire_put_u32 v"

definition wire_get_u8 :: "bytes \<Rightarrow> u8" where
  "wire_get_u8 p = p ! 0"

definition wire_get_u16 :: "bytes \<Rightarrow> u16" where
  "wire_get_u16 p = ucast (p ! 0) OR push_bit 8 (ucast (p ! 1))"

definition wire_get_u32 :: "bytes \<Rightarrow> u32" where
  "wire_get_u32 p =
     ucast (p ! 0) OR push_bit 8 (ucast (p ! 1)) OR push_bit 16 (ucast (p ! 2)) OR
     push_bit 24 (ucast (p ! 3))"

definition wire_get_u64 :: "bytes \<Rightarrow> u64" where
  "wire_get_u64 p =
     ucast (p ! 0) OR push_bit 8 (ucast (p ! 1)) OR push_bit 16 (ucast (p ! 2)) OR
     push_bit 24 (ucast (p ! 3)) OR push_bit 32 (ucast (p ! 4)) OR push_bit 40 (ucast (p ! 5)) OR
     push_bit 48 (ucast (p ! 6)) OR push_bit 56 (ucast (p ! 7))"

definition wire_get_f32 :: "bytes \<Rightarrow> f32" where
  "wire_get_f32 p = wire_get_u32 p"

section \<open>Lengths\<close>

lemma length_wire_put [simp, len_simps]:
  "length (wire_put_u8 a) = 1" "length (wire_put_u16 b) = 2"
  "length (wire_put_u32 c) = 4" "length (wire_put_u64 d) = 8" "length (wire_put_f32 e) = 4"
  by (simp_all add: wire_put_u8_def wire_put_u16_def wire_put_u32_def wire_put_u64_def
      wire_put_f32_def)

section \<open>A load after a store\<close>

text \<open>Adding one more byte to the low end of a word that is already assembled.\<close>

lemma byte_join:
  fixes v :: "'a::len word"
  shows "take_bit k v OR push_bit k (take_bit 8 (drop_bit k v)) = take_bit (k + 8) v"
  by (rule bit_word_eqI) (auto simp: bit_simps)

lemma byte_first:
  fixes v :: "'a::len word"
  shows "ucast (ucast v :: u8) = take_bit 8 v"
  by (rule bit_word_eqI) (auto simp: bit_simps)

lemma byte_joins:
  fixes v :: "'a::len word"
  shows "take_bit 8 v OR push_bit 8 (take_bit 8 (drop_bit 8 v)) = take_bit 16 v"
    "take_bit 16 v OR push_bit 16 (take_bit 8 (drop_bit 16 v)) = take_bit 24 v"
    "take_bit 24 v OR push_bit 24 (take_bit 8 (drop_bit 24 v)) = take_bit 32 v"
    "take_bit 32 v OR push_bit 32 (take_bit 8 (drop_bit 32 v)) = take_bit 40 v"
    "take_bit 40 v OR push_bit 40 (take_bit 8 (drop_bit 40 v)) = take_bit 48 v"
    "take_bit 48 v OR push_bit 48 (take_bit 8 (drop_bit 48 v)) = take_bit 56 v"
    "take_bit 56 v OR push_bit 56 (take_bit 8 (drop_bit 56 v)) = take_bit 64 v"
  using byte_join [of 8 v] byte_join [of 16 v] byte_join [of 24 v] byte_join [of 32 v]
    byte_join [of 40 v] byte_join [of 48 v] byte_join [of 56 v] by simp_all

lemma take_bit_full:
  fixes v :: u16 and w :: u32 and x :: u64
  shows "take_bit 16 v = v" "take_bit 32 w = w" "take_bit 64 x = x"
  by (rule bit_word_eqI, simp add: bit_simps)+

lemmas load_simps = byte_first or.assoc [symmetric] byte_joins take_bit_full

lemma wire_get_put_u8 [wire_simps]: "wire_get_u8 (wire_put_u8 v @ r) = v"
  by (simp add: wire_get_u8_def wire_put_u8_def)

lemma wire_get_put_u16 [wire_simps]: "wire_get_u16 (wire_put_u16 v @ r) = v"
  by (simp add: wire_get_u16_def wire_put_u16_def load_simps)

lemma wire_get_put_u32 [wire_simps]: "wire_get_u32 (wire_put_u32 v @ r) = v"
  by (simp add: wire_get_u32_def wire_put_u32_def load_simps)

lemma wire_get_put_u64 [wire_simps]: "wire_get_u64 (wire_put_u64 v @ r) = v"
  by (simp add: wire_get_u64_def wire_put_u64_def load_simps)

lemma wire_get_put_f32 [wire_simps]: "wire_get_f32 (wire_put_f32 v @ r) = v"
  by (simp add: wire_get_f32_def wire_put_f32_def wire_get_put_u32)

lemmas wire_get_put_nil [wire_simps] =
  wire_get_put_u8 [of _ "[]", simplified] wire_get_put_u16 [of _ "[]", simplified]
  wire_get_put_u32 [of _ "[]", simplified] wire_get_put_u64 [of _ "[]", simplified]
  wire_get_put_f32 [of _ "[]", simplified]

section \<open>A store after a load\<close>

lemma wire_put_get_u32_list: "wire_put_u32 (wire_get_u32 [a, b, c, d]) = [a, b, c, d]"
proof -
  have "ucast (wire_get_u32 [a, b, c, d]) = a"
    unfolding wire_get_u32_def by (rule bit_word_eqI) (auto simp: bit_simps)
  moreover have "ucast (drop_bit 8 (wire_get_u32 [a, b, c, d])) = b"
    unfolding wire_get_u32_def by (rule bit_word_eqI) (auto simp: bit_simps dest: bit_imp_le_length)
  moreover have "ucast (drop_bit 16 (wire_get_u32 [a, b, c, d])) = c"
    unfolding wire_get_u32_def by (rule bit_word_eqI) (auto simp: bit_simps dest: bit_imp_le_length)
  moreover have "ucast (drop_bit 24 (wire_get_u32 [a, b, c, d])) = d"
    unfolding wire_get_u32_def by (rule bit_word_eqI) (auto simp: bit_simps dest: bit_imp_le_length)
  ultimately show ?thesis by (simp add: wire_put_u32_def)
qed

lemma wire_put_get_u32: "length p = 4 \<Longrightarrow> wire_put_u32 (wire_get_u32 p) = p"
  by (auto simp: wire_put_get_u32_list numeral_eq_Suc length_Suc_conv)

lemma wire_put_get_u16_list: "wire_put_u16 (wire_get_u16 [a, b]) = [a, b]"
proof -
  have "ucast (wire_get_u16 [a, b]) = a"
    unfolding wire_get_u16_def by (rule bit_word_eqI) (auto simp: bit_simps)
  moreover have "ucast (drop_bit 8 (wire_get_u16 [a, b])) = b"
    unfolding wire_get_u16_def by (rule bit_word_eqI) (auto simp: bit_simps dest: bit_imp_le_length)
  ultimately show ?thesis by (simp add: wire_put_u16_def)
qed

text \<open>A 64-bit word is its two 32-bit halves, low half first.\<close>

lemma wire_put_u64_halves:
  "wire_put_u64 v = wire_put_u32 (ucast v) @ wire_put_u32 (ucast (drop_bit 32 v))"
proof -
  have "ucast (drop_bit k (ucast v :: u32)) = (ucast (drop_bit k v) :: u8)" if "k \<le> 24" for k
    using that by (intro bit_word_eqI) (auto simp: bit_simps)
  then show ?thesis
    by (simp add: wire_put_u64_def wire_put_u32_def) (simp add: bit_simps bit_eq_iff)
qed

lemma ucast_push_byte:
  "k \<le> 24 \<Longrightarrow> ucast (push_bit k (ucast (b :: u8)) :: u32) = (push_bit k (ucast b) :: u64)"
  by (rule bit_word_eqI) (auto simp: bit_simps dest: bit_imp_le_length)

lemma ucast_byte: "ucast (ucast (b :: u8) :: u32) = (ucast b :: u64)"
  using ucast_push_byte [of 0 b] by simp

lemma wire_get_u64_join:
  "length p = 8 \<Longrightarrow>
     wire_get_u64 p = ucast (wire_get_u32 p) OR push_bit 32 (ucast (wire_get_u32 (drop 4 p)))"
  by (simp add: wire_get_u64_def wire_get_u32_def unsigned_or_eq push_bit_or ucast_push_byte
      ucast_byte or.assoc)

lemma bit_beyond: "\<not> bit (x :: u32) (32 + n)"
  by (auto dest: bit_imp_le_length)

lemma join_halves:
  fixes x y :: u32
  shows "ucast (ucast x OR push_bit 32 (ucast y) :: u64) = x"
    and "ucast (drop_bit 32 (ucast x OR push_bit 32 (ucast y) :: u64)) = y"
  by (auto intro!: bit_word_eqI simp: bit_simps bit_beyond)

lemma wire_get_u64_halves:
  "length p = 8 \<Longrightarrow> ucast (wire_get_u64 p) = wire_get_u32 p \<and>
     ucast (drop_bit 32 (wire_get_u64 p)) = wire_get_u32 (drop 4 p)"
  by (simp only: wire_get_u64_join join_halves)

lemma wire_put_get_u64: "length p = 8 \<Longrightarrow> wire_put_u64 (wire_get_u64 p) = p"
proof -
  assume l: "length p = 8"
  have "wire_get_u32 p = wire_get_u32 (take 4 p)" by (simp add: wire_get_u32_def)
  then have "wire_put_u64 (wire_get_u64 p) = take 4 p @ drop 4 p"
    using l by (simp add: wire_put_u64_halves wire_get_u64_halves wire_put_get_u32)
  then show ?thesis by simp
qed

lemma put_get_u16: "2 \<le> length p \<Longrightarrow> wire_put_u16 (wire_get_u16 p) = take 2 p"
  by (cases p; cases "tl p") (auto simp: wire_put_get_u16_list wire_get_u16_def
      intro!: wire_put_get_u16_list [unfolded wire_get_u16_def, simplified])

lemma put_get_u64: "8 \<le> length p \<Longrightarrow> wire_put_u64 (wire_get_u64 p) = take 8 p"
  using wire_put_get_u64 [of "take 8 p"] by (simp add: wire_get_u64_def)

end
