(* ===== verification/Crc32.thy ===== *)
theory Crc32
  imports Wire
begin

text \<open>
  include/crc32.h: the bitwise reflected CRC over polynomial 0xEDB88320. The inner loop body is
  \<open>crc32_bit\<close>, the outer loop body \<open>crc32_byte\<close>. The register is a linear function of
  its input that loses nothing, which is why a damaged stretch of at most four bytes always
  changes the checksum, wherever it lies and also when it reaches into the stored checksum.
\<close>

definition CRC32_INIT :: u32 where
  "CRC32_INIT = 0xFFFFFFFF"

definition crc32_bit :: "u32 \<Rightarrow> u32" where
  "crc32_bit crc = drop_bit 1 crc XOR (0xEDB88320 AND - (crc AND 1))"

definition crc32_byte :: "u32 \<Rightarrow> u8 \<Rightarrow> u32" where
  "crc32_byte crc d = (crc32_bit ^^ 8) (crc XOR ucast d)"

definition crc32_ieee_update :: "u32 \<Rightarrow> bytes \<Rightarrow> u32" where
  "crc32_ieee_update crc data = foldl crc32_byte crc data"

definition crc32_ieee_final :: "u32 \<Rightarrow> u32" where
  "crc32_ieee_final crc = crc XOR 0xFFFFFFFF"

definition crc32_ieee :: "bytes \<Rightarrow> u32" where
  "crc32_ieee data = crc32_ieee_final (crc32_ieee_update CRC32_INIT data)"

section \<open>Feeding a checksum in chunks\<close>

lemma crc_update_append [simp]:
  "crc32_ieee_update c (xs @ ys) = crc32_ieee_update (crc32_ieee_update c xs) ys"
  by (simp add: crc32_ieee_update_def)

lemma crc_update_nil [simp]: "crc32_ieee_update c [] = c"
  by (simp add: crc32_ieee_update_def)

lemma crc_update_cons [simp]:
  "crc32_ieee_update c (x # xs) = crc32_ieee_update (crc32_byte c x) xs"
  by (simp add: crc32_ieee_update_def)

section \<open>One bit of the register\<close>

lemma crc32_bit_alt:
  "crc32_bit c = drop_bit 1 c XOR (if bit c 0 then 0xEDB88320 else 0)"
proof (cases "bit c 0")
  case True
  then have "c AND 1 = 1" by (simp add: and_one_eq odd_iff_mod_2_eq_one bit_0)
  then show ?thesis using True by (simp add: crc32_bit_def)
next
  case False
  then have "c AND 1 = 0" by (simp add: and_one_eq even_iff_mod_2_eq_zero bit_0)
  then show ?thesis using False by (simp add: crc32_bit_def)
qed

lemma drop_bit_xor_word: "drop_bit n (x XOR y) = drop_bit n x XOR drop_bit n (y :: u32)"
  by (rule bit_word_eqI) (simp add: bit_simps)

lemma crc32_bit_xor: "crc32_bit (x XOR y) = crc32_bit x XOR crc32_bit y"
  by (rule bit_word_eqI) (auto simp: crc32_bit_alt bit_simps)

lemma crc32_bit_eq_0: "crc32_bit x = 0 \<longleftrightarrow> x = 0"
proof
  assume z: "crc32_bit x = 0"
  have b0: "\<not> bit x 0"
  proof
    assume "bit x 0"
    then have "bit (crc32_bit x) 31"
      by (auto simp: crc32_bit_alt bit_simps dest: bit_imp_le_length)
    with z show False by simp
  qed
  with z have d: "drop_bit 1 x = 0" by (simp add: crc32_bit_alt)
  have s: "\<not> bit x (Suc n)" for n
  proof -
    have "bit (drop_bit 1 x) n = bit x (Suc n)" by (simp only: bit_drop_bit_eq o_apply plus_1_eq_Suc)
    then show ?thesis unfolding d by simp
  qed
  show "x = 0"
  proof (rule bit_word_eqI)
    fix n show "bit x n = bit (0 :: u32) n" using b0 s by (cases n) simp_all
  qed
qed (simp add: crc32_bit_alt)

lemma crc32_bits_xor: "(crc32_bit ^^ n) (x XOR y) = (crc32_bit ^^ n) x XOR (crc32_bit ^^ n) y"
  by (induction n) (simp_all add: crc32_bit_xor)

lemma crc32_bits_eq_0: "(crc32_bit ^^ n) x = 0 \<longleftrightarrow> x = 0"
  by (induction n) (simp_all add: crc32_bit_eq_0)

lemma crc32_bits_inject: "(crc32_bit ^^ n) x = (crc32_bit ^^ n) y \<longleftrightarrow> x = y"
  by (metis crc32_bits_eq_0 crc32_bits_xor xor_self_eq bit.xor_left_self xor.right_neutral)

text \<open>As long as the low bits are clear, a step is a plain shift.\<close>

lemma crc32_bits_shift: "take_bit n x = 0 \<Longrightarrow> (crc32_bit ^^ n) x = drop_bit n x"
proof (induction n)
  case 0
  then show ?case by simp
next
  case (Suc n)
  have b: "\<not> bit x k" if "k \<le> n" for k
  proof
    assume "bit x k"
    with that have "bit (take_bit (Suc n) x) k" by (simp add: bit_take_bit_iff)
    with Suc.prems show False by simp
  qed
  have "take_bit n x = 0"
    by (rule bit_word_eqI) (auto simp: bit_take_bit_iff dest: b [OF less_imp_le])
  with Suc.IH have "(crc32_bit ^^ Suc n) x = crc32_bit (drop_bit n x)" by simp
  also have "\<dots> = drop_bit (Suc n) x"
    using b [of n] by (simp add: crc32_bit_alt bit_drop_bit_eq)
  finally show ?case .
qed

lemma crc32_bits_byte:
  assumes "m + 8 \<le> 32"
  shows "(crc32_bit ^^ m) (push_bit m (ucast (b :: u8))) = (ucast b :: u32)"
proof -
  have "take_bit m (push_bit m (ucast b :: u32)) = 0"
    by (rule bit_word_eqI) (simp add: bit_simps)
  then have "(crc32_bit ^^ m) (push_bit m (ucast b)) = drop_bit m (push_bit m (ucast b :: u32))"
    by (rule crc32_bits_shift)
  also have "\<dots> = ucast b"
    using assms by (intro bit_word_eqI) (auto simp: bit_simps dest: bit_imp_le_length)
  finally show ?thesis .
qed

section \<open>Bytes and stretches of bytes\<close>

lemma crc32_byte_inject_crc: "crc32_byte c d = crc32_byte c' d \<longleftrightarrow> c = c'"
  by (simp add: crc32_byte_def crc32_bits_inject)
    (metis bit.xor_left_self xor.commute)

lemma crc_update_inject: "crc32_ieee_update c xs = crc32_ieee_update c' xs \<longleftrightarrow> c = c'"
  by (induction xs arbitrary: c c') (simp_all add: crc32_byte_inject_crc)

text \<open>Four bytes are absorbed as one little-endian word.\<close>

lemma crc_update_word:
  "crc32_ieee_update c [a, b, d, e] = (crc32_bit ^^ 32) (c XOR wire_get_u32 [a, b, d, e])"
proof -
  let ?T = "\<lambda>n. crc32_bit ^^ n"
  have T: "?T m (?T n x) = ?T (m + n) x" for m n x by (simp add: funpow_add)
  have w: "wire_get_u32 [a, b, d, e] =
      ucast a XOR push_bit 8 (ucast b) XOR push_bit 16 (ucast d) XOR push_bit 24 (ucast e)"
    unfolding wire_get_u32_def
    by (rule bit_word_eqI) (auto simp: bit_simps dest: bit_imp_le_length)
  have "crc32_ieee_update c [a, b, d, e] =
      ?T 8 (?T 8 (?T 8 (?T 8 (c XOR ucast a) XOR ucast b) XOR ucast d) XOR ucast e)"
    by (simp add: crc32_byte_def)
  also have "\<dots> = ?T 32 (c XOR ucast a) XOR ?T 24 (ucast b) XOR ?T 16 (ucast d) XOR ?T 8 (ucast e)"
    by (simp only: crc32_bits_xor T) (simp add: xor.assoc)
  also have "?T 24 (ucast b) = ?T 32 (push_bit 8 (ucast b))"
    using crc32_bits_byte [of 8 b] T [of 24 8 "push_bit 8 (ucast b)"] by simp
  also have "?T 16 (ucast d) = ?T 32 (push_bit 16 (ucast d))"
    using crc32_bits_byte [of 16 d] T [of 16 16 "push_bit 16 (ucast d)"] by simp
  also have "?T 8 (ucast e) = ?T 32 (push_bit 24 (ucast e))"
    using crc32_bits_byte [of 24 e] T [of 8 24 "push_bit 24 (ucast e)"] by simp
  finally show ?thesis by (simp only: w crc32_bits_xor xor.assoc)
qed

lemma wire_get_u32_inject:
  "length p = 4 \<Longrightarrow> length q = 4 \<Longrightarrow> wire_get_u32 p = wire_get_u32 q \<longleftrightarrow> p = q"
  by (metis wire_put_get_u32)

lemma crc_update_4_inject:
  assumes "length p = 4" "length q = 4"
  shows "crc32_ieee_update c p = crc32_ieee_update c q \<longleftrightarrow> p = q"
proof -
  from assms obtain a b d e a' b' d' e'
    where pq: "p = [a, b, d, e]" "q = [a', b', d', e']"
    by (auto simp: numeral_eq_Suc length_Suc_conv)
  have "crc32_ieee_update c p = crc32_ieee_update c q \<longleftrightarrow> wire_get_u32 p = wire_get_u32 q"
    unfolding pq crc_update_word crc32_bits_inject by (metis bit.xor_left_self)
  then show ?thesis using assms by (simp add: wire_get_u32_inject)
qed

text \<open>A shorter stretch is padded with equal bytes.\<close>

lemma crc_update_short_inject:
  assumes "length p = length q" "length p \<le> 4"
  shows "crc32_ieee_update c p = crc32_ieee_update c q \<longleftrightarrow> p = q"
proof -
  let ?z = "replicate (4 - length p) 0"
  have "crc32_ieee_update c (p @ ?z) = crc32_ieee_update c (q @ ?z) \<longleftrightarrow> p @ ?z = q @ ?z"
    using assms by (intro crc_update_4_inject) simp_all
  then show ?thesis by (simp only: crc_update_append crc_update_inject) simp
qed

lemma crc_burst:
  assumes "length p = length q" "length p \<le> 4"
  shows "crc32_ieee_update c (pre @ p @ post) = crc32_ieee_update c (pre @ q @ post) \<longleftrightarrow> p = q"
  using assms by (simp add: crc_update_inject crc_update_short_inject)

section \<open>Data followed by its own checksum\<close>

text \<open>
  Storing the checksum behind the data it covers leaves the register in one fixed state, and
  no other four bytes do: checking a stored checksum is checking for that residue.
\<close>

definition crc_residue :: u32 where
  "crc_residue = (crc32_bit ^^ 32) 0xFFFFFFFF"

lemma crc_stored_iff:
  assumes "length t = 4"
  shows "crc32_ieee_final (crc32_ieee_update c d) = wire_get_u32 t \<longleftrightarrow>
         crc32_ieee_update c (d @ t) = crc_residue"
proof -
  from assms obtain a b f e where t: "t = [a, b, f, e]"
    by (auto simp: numeral_eq_Suc length_Suc_conv)
  let ?s = "crc32_ieee_update c d"
  have "crc32_ieee_update c (d @ t) = (crc32_bit ^^ 32) (?s XOR wire_get_u32 t)"
    by (simp add: t crc_update_word del: crc_update_cons)
  then have "crc32_ieee_update c (d @ t) = crc_residue \<longleftrightarrow> ?s XOR wire_get_u32 t = 0xFFFFFFFF"
    by (simp add: crc_residue_def crc32_bits_inject)
  also have "\<dots> \<longleftrightarrow> ?s XOR 0xFFFFFFFF = wire_get_u32 t"
    by (metis bit.xor_left_self xor.commute)
  finally show ?thesis by (simp add: crc32_ieee_final_def)
qed

text \<open>So one damaged stretch of at most four bytes, anywhere in data or checksum, is seen.\<close>

lemma crc_stored_burst:
  assumes "crc32_ieee_final (crc32_ieee_update c d) = wire_get_u32 t" "length t = 4" "length t' = 4"
    and "d @ t = pre @ p @ post" "d' @ t' = pre @ q @ post"
    and "length p = length q" "length p \<le> 4" "p \<noteq> q"
  shows "crc32_ieee_final (crc32_ieee_update c d') \<noteq> wire_get_u32 t'"
proof -
  have "crc32_ieee_update c (pre @ p @ post) = crc_residue"
    using assms by (simp only: crc_stored_iff)
  moreover have "crc32_ieee_update c (pre @ p @ post) \<noteq> crc32_ieee_update c (pre @ q @ post)"
    using assms crc_burst by blast
  ultimately have "crc32_ieee_update c (d' @ t') \<noteq> crc_residue"
    unfolding \<open>d' @ t' = pre @ q @ post\<close> by metis
  then show ?thesis using assms(3) by (simp only: crc_stored_iff) simp
qed

section \<open>Evaluation on concrete bytes\<close>

lemma crc32_byte_unfold:
  "crc32_byte c d = crc32_bit (crc32_bit (crc32_bit (crc32_bit (crc32_bit (crc32_bit
     (crc32_bit (crc32_bit (c XOR ucast d))))))))"
  by (simp add: crc32_byte_def eval_nat_numeral)

lemmas crc32_eval = crc32_bit_def [of "numeral n" for n] crc32_byte_unfold [of "numeral c" for c]

section \<open>Properties\<close>

text \<open>
  The published check value of this CRC, the checksum of the nine bytes of
  ''123456789'', comes out of the bitwise loop.
\<close>


theorem crc32_check_value:
  "crc32_ieee [0x31, 0x32, 0x33, 0x34, 0x35, 0x36, 0x37, 0x38, 0x39] = 0xCBF43926"
  by (simp add: crc32_ieee_def CRC32_INIT_def crc32_eval crc32_ieee_final_def)

text \<open>
  two messages of one length that differ only inside a stretch of at most four bytes never
  have the same checksum.
\<close>

theorem crc32_burst_detected:
  assumes "length p = length q" "length p \<le> 4" "p \<noteq> q"
  shows "crc32_ieee (pre @ p @ post) \<noteq> crc32_ieee (pre @ q @ post)"
  unfolding crc32_ieee_def crc32_ieee_final_def
  using crc_burst [OF assms(1,2)] assms(3) by (metis bit.xor_left_self xor.commute)

theorem crc32_burst_detected_witness:
  "crc32_ieee ([7] @ [1, 2, 3, 4] @ [9]) \<noteq> crc32_ieee ([7] @ [1, 2, 3, 5] @ [9])"
  by (rule crc32_burst_detected) simp_all

end
