(* ===== verification/Types.thy ===== *)
theory Types
  imports Prelude
begin

text \<open>
  include/types.h: the samples, the fused state, the packet constants and the flag bits shared by
  all threads. C arrays of fixed size are lists, with the size as a well-formedness predicate;
  a C float is its bit pattern here, because none of the code over these records computes with
  it. Record fields carry a prefix per struct, since selectors are global in HOL.
\<close>

definition IMUD_MAGIC :: u32 where
  "IMUD_MAGIC = 0x494D5544"

definition IMUD_PACKET_BYTES :: nat where
  "IMUD_PACKET_BYTES = 288"

definition IMUD_VERSION :: u16 where
  "IMUD_VERSION = 18"

definition FLAG_MAG_VALID :: u16 where "FLAG_MAG_VALID = push_bit 0 1"
definition FLAG_MAG_SET_RESET :: u16 where "FLAG_MAG_SET_RESET = push_bit 1 1"
definition FLAG_FUSION_CONVERGED :: u16 where "FLAG_FUSION_CONVERGED = push_bit 2 1"
definition FLAG_ACCEL_CAL :: u16 where "FLAG_ACCEL_CAL = push_bit 3 1"
definition FLAG_GYRO_CAL :: u16 where "FLAG_GYRO_CAL = push_bit 4 1"
definition FLAG_MAG_CAL :: u16 where "FLAG_MAG_CAL = push_bit 5 1"
definition FLAG_MOTION :: u16 where "FLAG_MOTION = push_bit 6 1"
definition FLAG_FIFO_OVERFLOW :: u16 where "FLAG_FIFO_OVERFLOW = push_bit 7 1"
definition FLAG_STARTUP :: u16 where "FLAG_STARTUP = push_bit 8 1"
definition FLAG_SHUTDOWN :: u16 where "FLAG_SHUTDOWN = push_bit 9 1"
definition FLAG_DECLINATION_VALID :: u16 where "FLAG_DECLINATION_VALID = push_bit 10 1"
definition FLAG_HEAVE_VALID :: u16 where "FLAG_HEAVE_VALID = push_bit 11 1"
definition FLAG_WAVE_VALID :: u16 where "FLAG_WAVE_VALID = push_bit 12 1"
definition FLAG_ENGINE_ON :: u16 where "FLAG_ENGINE_ON = push_bit 13 1"
definition FLAG_STATE_RESET :: u16 where "FLAG_STATE_RESET = push_bit 14 1"
definition FLAG_MAG_UNCAL :: u16 where "FLAG_MAG_UNCAL = push_bit 15 1"

lemmas flag_defs =
  FLAG_MAG_VALID_def FLAG_MAG_SET_RESET_def FLAG_FUSION_CONVERGED_def FLAG_ACCEL_CAL_def
  FLAG_GYRO_CAL_def FLAG_MAG_CAL_def FLAG_MOTION_def FLAG_FIFO_OVERFLOW_def FLAG_STARTUP_def
  FLAG_SHUTDOWN_def FLAG_DECLINATION_VALID_def FLAG_HEAVE_VALID_def FLAG_WAVE_VALID_def
  FLAG_ENGINE_ON_def FLAG_STATE_RESET_def FLAG_MAG_UNCAL_def

lemma flag_tests:
  "x AND FLAG_MAG_VALID \<noteq> 0 \<longleftrightarrow> bit x 0" "x AND FLAG_FUSION_CONVERGED \<noteq> 0 \<longleftrightarrow> bit x 2"
  "x AND FLAG_DECLINATION_VALID \<noteq> 0 \<longleftrightarrow> bit x 10" "x AND FLAG_MAG_UNCAL \<noteq> 0 \<longleftrightarrow> bit x 15"
  unfolding flag_defs flag_set_iff by (rule refl)+

record imu_sample =
  is_accel :: "f32 list"
  is_accel_raw :: "f32 list"
  is_gyro :: "f32 list"
  is_temp_c :: f32
  is_chip_ts :: u32
  is_seq :: u32
  is_read_done_ns :: u64
  is_host_done_ns :: u64

record mag_sample =
  ms_field :: "f32 list"
  ms_field_raw :: "f32 list"
  ms_wall_ns :: u64
  ms_valid :: bool
  ms_calibrated :: bool

definition imu_sample_wf :: "imu_sample \<Rightarrow> bool" where
  "imu_sample_wf s \<longleftrightarrow>
     length (is_accel s) = 3 \<and> length (is_accel_raw s) = 3 \<and> length (is_gyro s) = 3"

definition mag_sample_wf :: "mag_sample \<Rightarrow> bool" where
  "mag_sample_wf m \<longleftrightarrow> length (ms_field m) = 3 \<and> length (ms_field_raw m) = 3"

record fused_state =
  fs_q :: "f32 list"
  fs_bias_gyro :: "f32 list"
  fs_cov :: "f32 list"
  fs_pitch :: f32
  fs_roll :: f32
  fs_yaw :: f32
  fs_heading_deg :: f32
  fs_declination_deg :: f32
  fs_rate_of_turn :: f32
  fs_heave_m :: f32
  fs_heave_rate :: f32
  fs_bias_gyro_var :: "f32 list"
  fs_quiescence :: f32
  fs_wave_height_m :: f32
  fs_wave_period_s :: f32
  fs_roll_period_s :: f32
  fs_roll_amplitude :: f32
  fs_pitch_period_s :: f32
  fs_pitch_amplitude :: f32
  fs_mag_anomaly :: f32
  fs_mag_residual :: f32
  fs_innov_weight :: f32
  fs_innov_reject :: f32
  fs_nis_accel :: f32
  fs_nis_mag :: f32
  fs_flags :: u16
  fs_flags_ext :: u32
  fs_imu_seq :: u32
  fs_ts_wall_ns :: u64
  fs_ts_tai_ns :: u64
  fs_ts_chip_ticks :: u32
  fs_anchor_gen :: u32
end
