(* ===== verification/Packet.thy ===== *)
theory Packet
  imports Types Crc32
begin

text \<open>
  src/packet.c and the wire packet of include/types.h: \<open>packet_build\<close> fills the host-order
  struct, \<open>packet_encode\<close> and \<open>packet_decode\<close> convert it to and from the 288 wire bytes,
  field by field in wire order. An encoder's \<open>p += n\<close> is list append; a decoder's is a read
  that returns the value and the rest of the buffer.
\<close>

record imu_packet =
  pkt_magic :: u32
  pkt_version :: u16
  pkt_flags :: u16
  pkt_ts_wall_ns :: u64
  pkt_ts_tai_ns :: u64
  pkt_ts_chip_ticks :: u32
  pkt_anchor_gen :: u32
  pkt_accel_x :: f32
  pkt_accel_y :: f32
  pkt_accel_z :: f32
  pkt_accel_raw_x :: f32
  pkt_accel_raw_y :: f32
  pkt_accel_raw_z :: f32
  pkt_gyro_x :: f32
  pkt_gyro_y :: f32
  pkt_gyro_z :: f32
  pkt_gyro_raw_x :: f32
  pkt_gyro_raw_y :: f32
  pkt_gyro_raw_z :: f32
  pkt_mag_x :: f32
  pkt_mag_y :: f32
  pkt_mag_z :: f32
  pkt_mag_raw_x :: f32
  pkt_mag_raw_y :: f32
  pkt_mag_raw_z :: f32
  pkt_quat_w :: f32
  pkt_quat_x :: f32
  pkt_quat_y :: f32
  pkt_quat_z :: f32
  pkt_pitch :: f32
  pkt_roll :: f32
  pkt_yaw :: f32
  pkt_heading_deg :: f32
  pkt_rate_of_turn :: f32
  pkt_temp_c :: f32
  pkt_cov :: "f32 list"
  pkt_imu_seq :: u32
  pkt_declination_deg :: f32
  pkt_heave_m :: f32
  pkt_gyro_bias_x :: f32
  pkt_gyro_bias_y :: f32
  pkt_gyro_bias_z :: f32
  pkt_gyro_bias_var_x :: f32
  pkt_gyro_bias_var_y :: f32
  pkt_gyro_bias_var_z :: f32
  pkt_heave_rate :: f32
  pkt_accel_quiescence :: f32
  pkt_wave_height_m :: f32
  pkt_wave_period_s :: f32
  pkt_roll_period_s :: f32
  pkt_roll_amplitude :: f32
  pkt_pitch_period_s :: f32
  pkt_pitch_amplitude :: f32
  pkt_mag_anomaly :: f32
  pkt_mag_residual :: f32
  pkt_innov_weight :: f32
  pkt_innov_reject :: f32
  pkt_nis_accel :: f32
  pkt_nis_mag :: f32
  pkt_flags_ext :: u32
  pkt_reserved :: bytes
  pkt_crc32 :: u32

definition packet_wf :: "imu_packet \<Rightarrow> bool" where
  "packet_wf p \<longleftrightarrow> length (pkt_cov p) = 9 \<and> length (pkt_reserved p) = 8"

text \<open>Offset of the crc32 field: everything in front of it is covered by the checksum.\<close>

definition PACKET_CRC_OFFSET :: nat where
  "PACKET_CRC_OFFSET = 284"

section \<open>packet_build\<close>

definition packet_build ::
    "fused_state \<Rightarrow> mag_sample \<Rightarrow> imu_sample \<Rightarrow> imu_sample \<Rightarrow> imu_packet" where
  "packet_build state mag imu raw_imu =
    \<lparr>pkt_magic = IMUD_MAGIC,
      pkt_version = IMUD_VERSION,
      pkt_flags = fs_flags state,
      pkt_ts_wall_ns = fs_ts_wall_ns state,
      pkt_ts_tai_ns = fs_ts_tai_ns state,
      pkt_ts_chip_ticks = fs_ts_chip_ticks state,
      pkt_anchor_gen = fs_anchor_gen state,
      pkt_accel_x = is_accel imu ! 0,
      pkt_accel_y = is_accel imu ! 1,
      pkt_accel_z = is_accel imu ! 2,
      pkt_accel_raw_x = is_accel_raw raw_imu ! 0,
      pkt_accel_raw_y = is_accel_raw raw_imu ! 1,
      pkt_accel_raw_z = is_accel_raw raw_imu ! 2,
      pkt_gyro_x = is_gyro imu ! 0,
      pkt_gyro_y = is_gyro imu ! 1,
      pkt_gyro_z = is_gyro imu ! 2,
      pkt_gyro_raw_x = is_gyro raw_imu ! 0,
      pkt_gyro_raw_y = is_gyro raw_imu ! 1,
      pkt_gyro_raw_z = is_gyro raw_imu ! 2,
      pkt_mag_x = ms_field mag ! 0,
      pkt_mag_y = ms_field mag ! 1,
      pkt_mag_z = ms_field mag ! 2,
      pkt_mag_raw_x = ms_field_raw mag ! 0,
      pkt_mag_raw_y = ms_field_raw mag ! 1,
      pkt_mag_raw_z = ms_field_raw mag ! 2,
      pkt_quat_w = fs_q state ! 0,
      pkt_quat_x = fs_q state ! 1,
      pkt_quat_y = fs_q state ! 2,
      pkt_quat_z = fs_q state ! 3,
      pkt_pitch = fs_pitch state,
      pkt_roll = fs_roll state,
      pkt_yaw = fs_yaw state,
      pkt_heading_deg = fs_heading_deg state,
      pkt_rate_of_turn = fs_rate_of_turn state,
      pkt_temp_c = is_temp_c imu,
      pkt_cov = fs_cov state,
      pkt_imu_seq = fs_imu_seq state,
      pkt_declination_deg = (if fs_flags state AND FLAG_DECLINATION_VALID \<noteq> 0
                              then fs_declination_deg state else 0),
      pkt_heave_m = fs_heave_m state,
      pkt_gyro_bias_x = fs_bias_gyro state ! 0,
      pkt_gyro_bias_y = fs_bias_gyro state ! 1,
      pkt_gyro_bias_z = fs_bias_gyro state ! 2,
      pkt_gyro_bias_var_x = fs_bias_gyro_var state ! 0,
      pkt_gyro_bias_var_y = fs_bias_gyro_var state ! 1,
      pkt_gyro_bias_var_z = fs_bias_gyro_var state ! 2,
      pkt_heave_rate = fs_heave_rate state,
      pkt_accel_quiescence = fs_quiescence state,
      pkt_wave_height_m = fs_wave_height_m state,
      pkt_wave_period_s = fs_wave_period_s state,
      pkt_roll_period_s = fs_roll_period_s state,
      pkt_roll_amplitude = fs_roll_amplitude state,
      pkt_pitch_period_s = fs_pitch_period_s state,
      pkt_pitch_amplitude = fs_pitch_amplitude state,
      pkt_mag_anomaly = fs_mag_anomaly state,
      pkt_mag_residual = fs_mag_residual state,
      pkt_innov_weight = fs_innov_weight state,
      pkt_innov_reject = fs_innov_reject state,
      pkt_nis_accel = fs_nis_accel state,
      pkt_nis_mag = fs_nis_mag state,
      pkt_flags_ext = fs_flags_ext state,
      pkt_reserved = replicate 8 0,
      pkt_crc32 = 0\<rparr>"

section \<open>packet_encode\<close>

definition packet_body :: "imu_packet \<Rightarrow> bytes" where
  "packet_body pkt =
     wire_put_u32 (pkt_magic pkt) @
     wire_put_u16 (pkt_version pkt) @
     wire_put_u16 (pkt_flags pkt) @
     wire_put_u64 (pkt_ts_wall_ns pkt) @
     wire_put_u64 (pkt_ts_tai_ns pkt) @
     wire_put_u32 (pkt_ts_chip_ticks pkt) @
     wire_put_u32 (pkt_anchor_gen pkt) @
     wire_put_f32 (pkt_accel_x pkt) @
     wire_put_f32 (pkt_accel_y pkt) @
     wire_put_f32 (pkt_accel_z pkt) @
     wire_put_f32 (pkt_accel_raw_x pkt) @
     wire_put_f32 (pkt_accel_raw_y pkt) @
     wire_put_f32 (pkt_accel_raw_z pkt) @
     wire_put_f32 (pkt_gyro_x pkt) @
     wire_put_f32 (pkt_gyro_y pkt) @
     wire_put_f32 (pkt_gyro_z pkt) @
     wire_put_f32 (pkt_gyro_raw_x pkt) @
     wire_put_f32 (pkt_gyro_raw_y pkt) @
     wire_put_f32 (pkt_gyro_raw_z pkt) @
     wire_put_f32 (pkt_mag_x pkt) @
     wire_put_f32 (pkt_mag_y pkt) @
     wire_put_f32 (pkt_mag_z pkt) @
     wire_put_f32 (pkt_mag_raw_x pkt) @
     wire_put_f32 (pkt_mag_raw_y pkt) @
     wire_put_f32 (pkt_mag_raw_z pkt) @
     wire_put_f32 (pkt_quat_w pkt) @
     wire_put_f32 (pkt_quat_x pkt) @
     wire_put_f32 (pkt_quat_y pkt) @
     wire_put_f32 (pkt_quat_z pkt) @
     wire_put_f32 (pkt_pitch pkt) @
     wire_put_f32 (pkt_roll pkt) @
     wire_put_f32 (pkt_yaw pkt) @
     wire_put_f32 (pkt_heading_deg pkt) @
     wire_put_f32 (pkt_rate_of_turn pkt) @
     wire_put_f32 (pkt_temp_c pkt) @
     concat (map wire_put_f32 (pkt_cov pkt)) @
     wire_put_u32 (pkt_imu_seq pkt) @
     wire_put_f32 (pkt_declination_deg pkt) @
     wire_put_f32 (pkt_heave_m pkt) @
     wire_put_f32 (pkt_gyro_bias_x pkt) @
     wire_put_f32 (pkt_gyro_bias_y pkt) @
     wire_put_f32 (pkt_gyro_bias_z pkt) @
     wire_put_f32 (pkt_gyro_bias_var_x pkt) @
     wire_put_f32 (pkt_gyro_bias_var_y pkt) @
     wire_put_f32 (pkt_gyro_bias_var_z pkt) @
     wire_put_f32 (pkt_heave_rate pkt) @
     wire_put_f32 (pkt_accel_quiescence pkt) @
     wire_put_f32 (pkt_wave_height_m pkt) @
     wire_put_f32 (pkt_wave_period_s pkt) @
     wire_put_f32 (pkt_roll_period_s pkt) @
     wire_put_f32 (pkt_roll_amplitude pkt) @
     wire_put_f32 (pkt_pitch_period_s pkt) @
     wire_put_f32 (pkt_pitch_amplitude pkt) @
     wire_put_f32 (pkt_mag_anomaly pkt) @
     wire_put_f32 (pkt_mag_residual pkt) @
     wire_put_f32 (pkt_innov_weight pkt) @
     wire_put_f32 (pkt_innov_reject pkt) @
     wire_put_f32 (pkt_nis_accel pkt) @
     wire_put_f32 (pkt_nis_mag pkt) @
     wire_put_u32 (pkt_flags_ext pkt) @
     pkt_reserved pkt"

definition packet_encode :: "imu_packet \<Rightarrow> bytes \<times> u32" where
  "packet_encode pkt =
     (let out = packet_body pkt;
          crc = crc32_ieee (take PACKET_CRC_OFFSET out)
      in (out @ wire_put_u32 crc, crc))"

section \<open>packet_decode\<close>

definition rd_u16 :: "bytes \<Rightarrow> u16 \<times> bytes" where
  "rd_u16 p = (wire_get_u16 p, drop 2 p)"

definition rd_u32 :: "bytes \<Rightarrow> u32 \<times> bytes" where
  "rd_u32 p = (wire_get_u32 p, drop 4 p)"

definition rd_u64 :: "bytes \<Rightarrow> u64 \<times> bytes" where
  "rd_u64 p = (wire_get_u64 p, drop 8 p)"

definition rd_f32 :: "bytes \<Rightarrow> f32 \<times> bytes" where
  "rd_f32 p = (wire_get_f32 p, drop 4 p)"

fun rd_f32s :: "nat \<Rightarrow> bytes \<Rightarrow> f32 list \<times> bytes" where
  "rd_f32s 0 p = ([], p)"
| "rd_f32s (Suc n) p =
     (let (v, p) = rd_f32 p; (vs, p) = rd_f32s n p in (v # vs, p))"

definition rd_mem :: "nat \<Rightarrow> bytes \<Rightarrow> bytes \<times> bytes" where
  "rd_mem n p = (take n p, drop n p)"

definition packet_decode :: "bytes \<Rightarrow> imu_packet" where
  "packet_decode p =
     (let (magic, p) = rd_u32 p;
          (version, p) = rd_u16 p;
          (flags, p) = rd_u16 p;
          (ts_wall_ns, p) = rd_u64 p;
          (ts_tai_ns, p) = rd_u64 p;
          (ts_chip_ticks, p) = rd_u32 p;
          (anchor_gen, p) = rd_u32 p;
          (accel_x, p) = rd_f32 p;
          (accel_y, p) = rd_f32 p;
          (accel_z, p) = rd_f32 p;
          (accel_raw_x, p) = rd_f32 p;
          (accel_raw_y, p) = rd_f32 p;
          (accel_raw_z, p) = rd_f32 p;
          (gyro_x, p) = rd_f32 p;
          (gyro_y, p) = rd_f32 p;
          (gyro_z, p) = rd_f32 p;
          (gyro_raw_x, p) = rd_f32 p;
          (gyro_raw_y, p) = rd_f32 p;
          (gyro_raw_z, p) = rd_f32 p;
          (mag_x, p) = rd_f32 p;
          (mag_y, p) = rd_f32 p;
          (mag_z, p) = rd_f32 p;
          (mag_raw_x, p) = rd_f32 p;
          (mag_raw_y, p) = rd_f32 p;
          (mag_raw_z, p) = rd_f32 p;
          (quat_w, p) = rd_f32 p;
          (quat_x, p) = rd_f32 p;
          (quat_y, p) = rd_f32 p;
          (quat_z, p) = rd_f32 p;
          (pitch, p) = rd_f32 p;
          (roll, p) = rd_f32 p;
          (yaw, p) = rd_f32 p;
          (heading_deg, p) = rd_f32 p;
          (rate_of_turn, p) = rd_f32 p;
          (temp_c, p) = rd_f32 p;
          (cov, p) = rd_f32s 9 p;
          (imu_seq, p) = rd_u32 p;
          (declination_deg, p) = rd_f32 p;
          (heave_m, p) = rd_f32 p;
          (gyro_bias_x, p) = rd_f32 p;
          (gyro_bias_y, p) = rd_f32 p;
          (gyro_bias_z, p) = rd_f32 p;
          (gyro_bias_var_x, p) = rd_f32 p;
          (gyro_bias_var_y, p) = rd_f32 p;
          (gyro_bias_var_z, p) = rd_f32 p;
          (heave_rate, p) = rd_f32 p;
          (accel_quiescence, p) = rd_f32 p;
          (wave_height_m, p) = rd_f32 p;
          (wave_period_s, p) = rd_f32 p;
          (roll_period_s, p) = rd_f32 p;
          (roll_amplitude, p) = rd_f32 p;
          (pitch_period_s, p) = rd_f32 p;
          (pitch_amplitude, p) = rd_f32 p;
          (mag_anomaly, p) = rd_f32 p;
          (mag_residual, p) = rd_f32 p;
          (innov_weight, p) = rd_f32 p;
          (innov_reject, p) = rd_f32 p;
          (nis_accel, p) = rd_f32 p;
          (nis_mag, p) = rd_f32 p;
          (flags_ext, p) = rd_u32 p;
          (reserved, p) = rd_mem 8 p;
          (crc32, p) = rd_u32 p
      in \<lparr>pkt_magic = magic, pkt_version = version, pkt_flags = flags, pkt_ts_wall_ns =
         ts_wall_ns, pkt_ts_tai_ns = ts_tai_ns, pkt_ts_chip_ticks = ts_chip_ticks,
         pkt_anchor_gen = anchor_gen, pkt_accel_x = accel_x, pkt_accel_y = accel_y,
         pkt_accel_z = accel_z, pkt_accel_raw_x = accel_raw_x, pkt_accel_raw_y = accel_raw_y,
         pkt_accel_raw_z = accel_raw_z, pkt_gyro_x = gyro_x, pkt_gyro_y = gyro_y, pkt_gyro_z
         = gyro_z, pkt_gyro_raw_x = gyro_raw_x, pkt_gyro_raw_y = gyro_raw_y, pkt_gyro_raw_z =
         gyro_raw_z, pkt_mag_x = mag_x, pkt_mag_y = mag_y, pkt_mag_z = mag_z, pkt_mag_raw_x =
         mag_raw_x, pkt_mag_raw_y = mag_raw_y, pkt_mag_raw_z = mag_raw_z, pkt_quat_w =
         quat_w, pkt_quat_x = quat_x, pkt_quat_y = quat_y, pkt_quat_z = quat_z, pkt_pitch =
         pitch, pkt_roll = roll, pkt_yaw = yaw, pkt_heading_deg = heading_deg,
         pkt_rate_of_turn = rate_of_turn, pkt_temp_c = temp_c, pkt_cov = cov, pkt_imu_seq =
         imu_seq, pkt_declination_deg = declination_deg, pkt_heave_m = heave_m,
         pkt_gyro_bias_x = gyro_bias_x, pkt_gyro_bias_y = gyro_bias_y, pkt_gyro_bias_z =
         gyro_bias_z, pkt_gyro_bias_var_x = gyro_bias_var_x, pkt_gyro_bias_var_y =
         gyro_bias_var_y, pkt_gyro_bias_var_z = gyro_bias_var_z, pkt_heave_rate = heave_rate,
         pkt_accel_quiescence = accel_quiescence, pkt_wave_height_m = wave_height_m,
         pkt_wave_period_s = wave_period_s, pkt_roll_period_s = roll_period_s,
         pkt_roll_amplitude = roll_amplitude, pkt_pitch_period_s = pitch_period_s,
         pkt_pitch_amplitude = pitch_amplitude, pkt_mag_anomaly = mag_anomaly,
         pkt_mag_residual = mag_residual, pkt_innov_weight = innov_weight, pkt_innov_reject =
         innov_reject, pkt_nis_accel = nis_accel, pkt_nis_mag = nis_mag, pkt_flags_ext =
         flags_ext, pkt_reserved = reserved, pkt_crc32 = crc32\<rparr>)"

section \<open>A decoder run on what the encoder wrote\<close>

lemma rd_put [wire_simps]:
  "rd_u16 (wire_put_u16 a @ r) = (a, r)" "rd_u32 (wire_put_u32 b @ r) = (b, r)"
  "rd_u64 (wire_put_u64 c @ r) = (c, r)" "rd_f32 (wire_put_f32 d @ r) = (d, r)"
  by (simp_all add: rd_u16_def rd_u32_def rd_u64_def rd_f32_def wire_simps)

lemma rd_put_nil [wire_simps]: "rd_u32 (wire_put_u32 b) = (b, [])"
  using rd_put(2) [of b "[]"] by simp

lemma rd_mem_append [wire_simps]: "length m = n \<Longrightarrow> rd_mem n (m @ r) = (m, r)"
  by (simp add: rd_mem_def)

lemma rd_f32s_put [wire_simps]:
  "length vs = n \<Longrightarrow> rd_f32s n (concat (map wire_put_f32 vs) @ r) = (vs, r)"
  by (induction vs arbitrary: n) (auto simp: wire_simps)

lemma length_put_f32s [simp, len_simps]:
  "length (concat (map wire_put_f32 vs)) = 4 * length vs"
  by (induction vs) simp_all

lemma length_packet_body [simp]: "packet_wf p \<Longrightarrow> length (packet_body p) = PACKET_CRC_OFFSET"
  by (simp add: packet_body_def packet_wf_def PACKET_CRC_OFFSET_def)

lemma length_packet_encode: "packet_wf p \<Longrightarrow> length (fst (packet_encode p)) = IMUD_PACKET_BYTES"
  by (simp add: packet_encode_def Let_def PACKET_CRC_OFFSET_def IMUD_PACKET_BYTES_def)

lemma packet_decode_body:
  "packet_wf p \<Longrightarrow> packet_decode (packet_body p @ wire_put_u32 c) = p\<lparr>pkt_crc32 := c\<rparr>"
  by (simp add: packet_decode_def packet_body_def packet_wf_def wire_simps)

section \<open>The encoder run on what a decoder read\<close>

lemma put_get_f32: "4 \<le> length p \<Longrightarrow> wire_put_f32 (wire_get_f32 p) = take 4 p"
proof -
  assume "4 \<le> length p"
  then have "wire_put_u32 (wire_get_u32 (take 4 p)) = take 4 p"
    by (intro wire_put_get_u32) simp
  moreover have "wire_get_u32 (take 4 p) = wire_get_u32 p"
    by (simp add: wire_get_u32_def)
  ultimately show ?thesis by (simp add: wire_put_f32_def wire_get_f32_def)
qed

lemma put_get_u32: "4 \<le> length p \<Longrightarrow> wire_put_u32 (wire_get_u32 p) = take 4 p"
  using put_get_f32 [of p] by (simp add: wire_put_f32_def wire_get_f32_def)

text \<open>A decoded field put back in front of the bytes that followed it.\<close>

lemma take_glue: "j = k + n \<Longrightarrow> j \<le> length p \<Longrightarrow> take n (drop k p) @ take m (drop j p) = take (n + m) (drop k p)"
  by (simp only: take_add drop_drop add.commute [of n k])

lemma put_get_glue:
  assumes "j = k + n" "j \<le> length p"
  shows "n = 4 \<Longrightarrow> wire_put_f32 (wire_get_f32 (drop k p)) @ take m (drop j p) = take (n + m) (drop k p)"
    and "n = 4 \<Longrightarrow> wire_put_u32 (wire_get_u32 (drop k p)) @ take m (drop j p) = take (n + m) (drop k p)"
    and "n = 2 \<Longrightarrow> wire_put_u16 (wire_get_u16 (drop k p)) @ take m (drop j p) = take (n + m) (drop k p)"
    and "n = 8 \<Longrightarrow> wire_put_u64 (wire_get_u64 (drop k p)) @ take m (drop j p) = take (n + m) (drop k p)"
  using assms take_glue [OF assms, of m]
  by (simp_all add: put_get_f32 put_get_u32 put_get_u16 put_get_u64)

lemma rd_f32s_snd: "snd (rd_f32s n p) = drop (4 * n) p"
  by (induction n arbitrary: p) (simp_all add: rd_f32_def split_beta Let_def add.commute)

lemma length_rd_f32s: "length (fst (rd_f32s n p)) = n"
  by (induction n arbitrary: p) (simp_all add: rd_f32_def split_beta Let_def)

lemma put_rd_f32s:
  "4 * n \<le> length p \<Longrightarrow> concat (map wire_put_f32 (fst (rd_f32s n p))) = take (4 * n) p"
proof (induction n arbitrary: p)
  case (Suc n)
  then show ?case
    by (simp add: rd_f32_def split_beta Let_def put_get_f32)
      (simp add: take_add)
qed simp

lemma case_rd_f32s:
  "(case rd_f32s n p of (vs, q) \<Rightarrow> f vs q) = f (fst (rd_f32s n p)) (drop (4 * n) p)"
  by (simp add: split_beta rd_f32s_snd)

lemmas put_get_first = put_get_glue [where k = 0, simplified]

lemma packet_body_decode:
  "length p = IMUD_PACKET_BYTES \<Longrightarrow> packet_body (packet_decode p) = take PACKET_CRC_OFFSET p"
  by (simp add: packet_body_def packet_decode_def rd_u16_def rd_u32_def rd_u64_def rd_f32_def
      rd_mem_def case_rd_f32s put_rd_f32s take_glue put_get_glue put_get_first
      IMUD_PACKET_BYTES_def PACKET_CRC_OFFSET_def)

lemma packet_wf_decode: "length p = IMUD_PACKET_BYTES \<Longrightarrow> packet_wf (packet_decode p)"
  by (simp add: packet_wf_def packet_decode_def rd_u16_def rd_u32_def rd_u64_def rd_f32_def
      rd_mem_def case_rd_f32s length_rd_f32s IMUD_PACKET_BYTES_def)

section \<open>A concrete state, for closed instances\<close>

definition zero_imu :: imu_sample where
  "zero_imu = \<lparr>is_accel = [0, 0, 0], is_accel_raw = [0, 0, 0], is_gyro = [0, 0, 0], is_temp_c = 0,
     is_chip_ts = 0, is_seq = 0, is_read_done_ns = 0, is_host_done_ns = 0\<rparr>"

definition zero_mag :: mag_sample where
  "zero_mag = \<lparr>ms_field = [0, 0, 0], ms_field_raw = [0, 0, 0], ms_wall_ns = 0, ms_valid = False,
     ms_calibrated = False\<rparr>"

definition level_state :: fused_state where
  "level_state = \<lparr>fs_q = [0x3F800000, 0, 0, 0], fs_bias_gyro = [0, 0, 0],
     fs_cov = replicate 9 0, fs_pitch = 0, fs_roll = 0, fs_yaw = 0, fs_heading_deg = 0,
     fs_declination_deg = 0x40A00000, fs_rate_of_turn = 0, fs_heave_m = 0, fs_heave_rate = 0,
     fs_bias_gyro_var = [0, 0, 0], fs_quiescence = 0, fs_wave_height_m = 0, fs_wave_period_s = 0,
     fs_roll_period_s = 0, fs_roll_amplitude = 0, fs_pitch_period_s = 0, fs_pitch_amplitude = 0,
     fs_mag_anomaly = 0, fs_mag_residual = 0, fs_innov_weight = 0, fs_innov_reject = 0,
     fs_nis_accel = 0, fs_nis_mag = 0, fs_flags = 1, fs_flags_ext = 0, fs_imu_seq = 7,
     fs_ts_wall_ns = 5, fs_ts_tai_ns = 6, fs_ts_chip_ticks = 8, fs_anchor_gen = 1\<rparr>"

lemma packet_wf_build:
  "length (fs_cov state) = 9 \<Longrightarrow> packet_wf (packet_build state mag imu raw)"
  by (simp add: packet_wf_def packet_build_def)

section \<open>Properties\<close>

text \<open>
  C2: what \<open>packet_encode\<close> writes is 288 bytes, and \<open>packet_decode\<close> reads every field back,
  with the crc32 field set to the checksum the encoder returned.
\<close>

theorem packet_roundtrip:
  assumes "packet_wf p"
  shows "length (fst (packet_encode p)) = 288 \<and>
         packet_decode (fst (packet_encode p)) = p\<lparr>pkt_crc32 := snd (packet_encode p)\<rparr>"
  using assms length_packet_encode [OF assms]
  by (simp add: packet_encode_def Let_def packet_decode_body IMUD_PACKET_BYTES_def)

theorem packet_roundtrip_witness:
  "packet_decode (fst (packet_encode (packet_build level_state zero_mag zero_imu zero_imu))) =
     (packet_build level_state zero_mag zero_imu zero_imu)
       \<lparr>pkt_crc32 := snd (packet_encode (packet_build level_state zero_mag zero_imu zero_imu))\<rparr>"
  using packet_roundtrip [OF packet_wf_build [of level_state zero_mag zero_imu zero_imu]]
  by (simp add: level_state_def)

text \<open>
  The other direction. Any 288 bytes whose last four are the checksum of the rest are what
  \<open>packet_encode\<close> writes for the packet \<open>packet_decode\<close> reads out of them, so the codec is a
  bijection, the reserved bytes included.
\<close>

theorem packet_encode_decode:
  assumes "length b = 288" "wire_get_u32 (drop 284 b) = crc32_ieee (take 284 b)"
  shows "fst (packet_encode (packet_decode b)) = b"
  using assms put_get_u32 [of "drop 284 b"]
  by (simp add: packet_encode_def Let_def packet_body_decode IMUD_PACKET_BYTES_def
      PACKET_CRC_OFFSET_def)

theorem packet_encode_decode_witness:
  "fst (packet_encode (packet_decode
     (replicate 284 0 @ wire_put_u32 (crc32_ieee (replicate 284 0))))) =
     replicate 284 0 @ wire_put_u32 (crc32_ieee (replicate 284 0))"
  by (rule packet_encode_decode) (simp_all add: wire_simps)

text \<open>
  \<open>packet_build\<close> takes the sample's calibrated vectors from the corrected sample and the
  raw ones from the raw sample, and publishes a declination only under its flag; the reserved
  bytes and the crc field are zero.
\<close>

theorem packet_build_fields:
  "pkt_magic (packet_build s m i r) = IMUD_MAGIC \<and> pkt_version (packet_build s m i r) = 18 \<and>
   pkt_flags (packet_build s m i r) = fs_flags s \<and>
   pkt_gyro_z (packet_build s m i r) = is_gyro i ! 2 \<and>
   pkt_gyro_raw_z (packet_build s m i r) = is_gyro r ! 2 \<and>
   pkt_accel_raw_z (packet_build s m i r) = is_accel_raw r ! 2 \<and>
   pkt_declination_deg (packet_build s m i r) =
     (if bit (fs_flags s) 10 then fs_declination_deg s else 0) \<and>
   pkt_reserved (packet_build s m i r) = replicate 8 0 \<and> pkt_crc32 (packet_build s m i r) = 0"
  by (simp add: packet_build_def IMUD_VERSION_def flag_tests)

end
