(* ===== verification/Client.thy ===== *)
theory Client
  imports Packet
begin

text \<open>
  lib/imud_client.h (loads, decoder) and lib/libimud.c: packet validation, the data view and
  \<open>imud_read\<close>, the loop that reassembles frames from a byte stream or takes datagrams one by
  one. The kernel is an explicit list of \<open>io\<close> outcomes, one per pass of the loop, and the
  bytes still in flight are an argument; a read delivers at most the room the code asks for.
\<close>

section \<open>Loads and decoder of the client header\<close>

definition imud_ld16 :: "bytes \<Rightarrow> u16" where
  "imud_ld16 p = ucast (p ! 0) OR push_bit 8 (ucast (p ! 1))"

definition imud_ld32 :: "bytes \<Rightarrow> u32" where
  "imud_ld32 p =
     ucast (p ! 0) OR push_bit 8 (ucast (p ! 1)) OR push_bit 16 (ucast (p ! 2)) OR
     push_bit 24 (ucast (p ! 3))"

definition imud_ld64 :: "bytes \<Rightarrow> u64" where
  "imud_ld64 p =
     ucast (p ! 0) OR push_bit 8 (ucast (p ! 1)) OR push_bit 16 (ucast (p ! 2)) OR
     push_bit 24 (ucast (p ! 3)) OR push_bit 32 (ucast (p ! 4)) OR push_bit 40 (ucast (p ! 5)) OR
     push_bit 48 (ucast (p ! 6)) OR push_bit 56 (ucast (p ! 7))"

definition imud_ldf :: "bytes \<Rightarrow> f32" where
  "imud_ldf p = imud_ld32 p"

definition ld_16 :: "bytes \<Rightarrow> u16 \<times> bytes" where "ld_16 p = (imud_ld16 p, drop 2 p)"
definition ld_32 :: "bytes \<Rightarrow> u32 \<times> bytes" where "ld_32 p = (imud_ld32 p, drop 4 p)"
definition ld_64 :: "bytes \<Rightarrow> u64 \<times> bytes" where "ld_64 p = (imud_ld64 p, drop 8 p)"
definition ld_f :: "bytes \<Rightarrow> f32 \<times> bytes" where "ld_f p = (imud_ldf p, drop 4 p)"

fun ld_fs :: "nat \<Rightarrow> bytes \<Rightarrow> f32 list \<times> bytes" where
  "ld_fs 0 p = ([], p)"
| "ld_fs (Suc n) p = (let (v, p) = ld_f p; (vs, p) = ld_fs n p in (v # vs, p))"

definition ld_mem :: "nat \<Rightarrow> bytes \<Rightarrow> bytes \<times> bytes" where
  "ld_mem n p = (map (\<lambda>i. p ! i) [0..<n], drop n p)"

definition imud_packet_decode :: "bytes \<Rightarrow> imu_packet" where
  "imud_packet_decode p =
     (let (magic, p) = ld_32 p;
          (version, p) = ld_16 p;
          (flags, p) = ld_16 p;
          (ts_wall_ns, p) = ld_64 p;
          (ts_tai_ns, p) = ld_64 p;
          (ts_chip_ticks, p) = ld_32 p;
          (anchor_gen, p) = ld_32 p;
          (accel_x, p) = ld_f p;
          (accel_y, p) = ld_f p;
          (accel_z, p) = ld_f p;
          (accel_raw_x, p) = ld_f p;
          (accel_raw_y, p) = ld_f p;
          (accel_raw_z, p) = ld_f p;
          (gyro_x, p) = ld_f p;
          (gyro_y, p) = ld_f p;
          (gyro_z, p) = ld_f p;
          (gyro_raw_x, p) = ld_f p;
          (gyro_raw_y, p) = ld_f p;
          (gyro_raw_z, p) = ld_f p;
          (mag_x, p) = ld_f p;
          (mag_y, p) = ld_f p;
          (mag_z, p) = ld_f p;
          (mag_raw_x, p) = ld_f p;
          (mag_raw_y, p) = ld_f p;
          (mag_raw_z, p) = ld_f p;
          (quat_w, p) = ld_f p;
          (quat_x, p) = ld_f p;
          (quat_y, p) = ld_f p;
          (quat_z, p) = ld_f p;
          (pitch, p) = ld_f p;
          (roll, p) = ld_f p;
          (yaw, p) = ld_f p;
          (heading_deg, p) = ld_f p;
          (rate_of_turn, p) = ld_f p;
          (temp_c, p) = ld_f p;
          (cov, p) = ld_fs 9 p;
          (imu_seq, p) = ld_32 p;
          (declination_deg, p) = ld_f p;
          (heave_m, p) = ld_f p;
          (gyro_bias_x, p) = ld_f p;
          (gyro_bias_y, p) = ld_f p;
          (gyro_bias_z, p) = ld_f p;
          (gyro_bias_var_x, p) = ld_f p;
          (gyro_bias_var_y, p) = ld_f p;
          (gyro_bias_var_z, p) = ld_f p;
          (heave_rate, p) = ld_f p;
          (accel_quiescence, p) = ld_f p;
          (wave_height_m, p) = ld_f p;
          (wave_period_s, p) = ld_f p;
          (roll_period_s, p) = ld_f p;
          (roll_amplitude, p) = ld_f p;
          (pitch_period_s, p) = ld_f p;
          (pitch_amplitude, p) = ld_f p;
          (mag_anomaly, p) = ld_f p;
          (mag_residual, p) = ld_f p;
          (innov_weight, p) = ld_f p;
          (innov_reject, p) = ld_f p;
          (nis_accel, p) = ld_f p;
          (nis_mag, p) = ld_f p;
          (flags_ext, p) = ld_32 p;
          (reserved, p) = ld_mem 8 p;
          (crc32, p) = ld_32 p
      in \<lparr>pkt_magic = magic, pkt_version = version, pkt_flags = flags, pkt_ts_wall_ns =
         ts_wall_ns, pkt_ts_tai_ns = ts_tai_ns, pkt_ts_chip_ticks = ts_chip_ticks,
         pkt_anchor_gen = anchor_gen, pkt_accel_x = accel_x, pkt_accel_y = accel_y,
         pkt_accel_z = accel_z, pkt_accel_raw_x = accel_raw_x, pkt_accel_raw_y = accel_raw_y,
         pkt_accel_raw_z = accel_raw_z, pkt_gyro_x = gyro_x, pkt_gyro_y = gyro_y, pkt_gyro_z
         = gyro_z, pkt_gyro_raw_x = gyro_raw_x, pkt_gyro_raw_y = gyro_raw_y, pkt_gyro_raw_z =
         gyro_raw_z, pkt_mag_x = mag_x, pkt_mag_y = mag_y, pkt_mag_z = mag_z, pkt_mag_raw_x =
         mag_raw_x, pkt_mag_raw_y = mag_raw_y, pkt_mag_raw_z = mag_raw_z, pkt_quat_w =
         quat_w, pkt_quat_x = quat_x, pkt_quat_y = quat_y, pkt_quat_z = quat_z, pkt_pitch =
         pitch, pkt_roll = roll, pkt_yaw = yaw, pkt_heading_deg = heading_deg,
         pkt_rate_of_turn = rate_of_turn, pkt_temp_c = temp_c, pkt_cov = cov, pkt_imu_seq =
         imu_seq, pkt_declination_deg = declination_deg, pkt_heave_m = heave_m,
         pkt_gyro_bias_x = gyro_bias_x, pkt_gyro_bias_y = gyro_bias_y, pkt_gyro_bias_z =
         gyro_bias_z, pkt_gyro_bias_var_x = gyro_bias_var_x, pkt_gyro_bias_var_y =
         gyro_bias_var_y, pkt_gyro_bias_var_z = gyro_bias_var_z, pkt_heave_rate = heave_rate,
         pkt_accel_quiescence = accel_quiescence, pkt_wave_height_m = wave_height_m,
         pkt_wave_period_s = wave_period_s, pkt_roll_period_s = roll_period_s,
         pkt_roll_amplitude = roll_amplitude, pkt_pitch_period_s = pitch_period_s,
         pkt_pitch_amplitude = pitch_amplitude, pkt_mag_anomaly = mag_anomaly,
         pkt_mag_residual = mag_residual, pkt_innov_weight = innov_weight, pkt_innov_reject =
         innov_reject, pkt_nis_accel = nis_accel, pkt_nis_mag = nis_mag, pkt_flags_ext =
         flags_ext, pkt_reserved = reserved, pkt_crc32 = crc32\<rparr>)"

lemma ld_eq_wire:
  "imud_ld16 = wire_get_u16" "imud_ld32 = wire_get_u32" "imud_ld64 = wire_get_u64"
  "imud_ldf = wire_get_f32"
  by (auto simp: fun_eq_iff imud_ld16_def imud_ld32_def imud_ld64_def imud_ldf_def
      wire_get_u16_def wire_get_u32_def wire_get_u64_def wire_get_f32_def)

lemma ld_eq_rd: "ld_16 = rd_u16" "ld_32 = rd_u32" "ld_64 = rd_u64" "ld_f = rd_f32"
  by (auto simp: fun_eq_iff ld_16_def ld_32_def ld_64_def ld_f_def ld_eq_wire
      rd_u16_def rd_u32_def rd_u64_def rd_f32_def)

lemma ld_fs_eq: "ld_fs n = rd_f32s n"
proof (rule ext)
  show "ld_fs n p = rd_f32s n p" for p
    by (induction n arbitrary: p) (simp_all add: ld_eq_rd)
qed

lemma ld_mem_eq: "n \<le> length p \<Longrightarrow> ld_mem n p = rd_mem n p"
  by (auto simp: ld_mem_def rd_mem_def intro!: nth_equalityI)

lemma case_ld_mem: "(case ld_mem n p of (vs, q) \<Rightarrow> f vs q) = f (map ((!) p) [0..<n]) (drop n p)"
  by (simp add: ld_mem_def)

lemma case_rd_mem: "(case rd_mem n p of (vs, q) \<Rightarrow> f vs q) = f (take n p) (drop n p)"
  by (simp add: rd_mem_def)

lemma take_as_map: "n \<le> length p \<Longrightarrow> map ((!) p) [0..<n] = take n p"
  by (auto intro!: nth_equalityI)

text \<open>The client's decoder and the daemon's are the same function on a whole packet.\<close>

lemma imud_packet_decode_eq:
  "length p = IMUD_PACKET_BYTES \<Longrightarrow> imud_packet_decode p = packet_decode p"
  unfolding imud_packet_decode_def packet_decode_def ld_eq_rd ld_fs_eq
  by (simp add: rd_u16_def rd_u32_def rd_u64_def rd_f32_def case_rd_f32s case_rd_mem case_ld_mem
      take_as_map IMUD_PACKET_BYTES_def Let_def)

section \<open>packet_ok\<close>

definition packet_ok :: "bytes \<Rightarrow> bool" where
  "packet_ok buf \<longleftrightarrow>
     (if length buf \<noteq> IMUD_PACKET_BYTES then False
      else if imud_ld32 buf \<noteq> IMUD_MAGIC then False
      else if imud_ld16 (drop 4 buf) \<noteq> IMUD_VERSION then False
      else crc32_ieee (take PACKET_CRC_OFFSET buf) = imud_ld32 (drop PACKET_CRC_OFFSET buf))"

section \<open>fill_data\<close>

text \<open>
  The append-only view handed to callers. \<open>imud_true_heading\<close> adds and wraps floats; the
  view only stores its result, so it is an argument here.
\<close>

record imud_data =
  dt_ts_wall_ns :: u64
  dt_ts_tai_ns :: u64
  dt_ts_chip_ticks :: u32
  dt_anchor_gen :: u32
  dt_flags :: u32
  dt_imu_seq :: u32
  dt_accel :: "f32 list"
  dt_accel_raw :: "f32 list"
  dt_gyro :: "f32 list"
  dt_gyro_raw :: "f32 list"
  dt_mag :: "f32 list"
  dt_mag_raw :: "f32 list"
  dt_quat :: "f32 list"
  dt_pitch :: f32
  dt_roll :: f32
  dt_yaw :: f32
  dt_heading_deg :: f32
  dt_heading_true_deg :: f32
  dt_rate_of_turn :: f32
  dt_temp_c :: f32
  dt_cov :: "f32 list"
  dt_declination_deg :: f32
  dt_heave_m :: f32
  dt_heave_rate :: f32
  dt_gyro_bias :: "f32 list"
  dt_gyro_bias_var :: "f32 list"
  dt_accel_quiescence :: f32
  dt_wave_height_m :: f32
  dt_wave_period_s :: f32
  dt_roll_period_s :: f32
  dt_roll_amplitude :: f32
  dt_pitch_period_s :: f32
  dt_pitch_amplitude :: f32
  dt_mag_anomaly :: f32
  dt_mag_residual :: f32
  dt_innov_weight :: f32
  dt_innov_reject :: f32
  dt_nis_accel :: f32
  dt_nis_mag :: f32
  dt_flags_ext :: u32

definition fill_data :: "(imu_packet \<Rightarrow> f32) \<Rightarrow> imu_packet \<Rightarrow> imud_data" where
  "fill_data imud_true_heading p =
    \<lparr>dt_ts_wall_ns = pkt_ts_wall_ns p,
      dt_ts_tai_ns = pkt_ts_tai_ns p,
      dt_ts_chip_ticks = pkt_ts_chip_ticks p,
      dt_anchor_gen = pkt_anchor_gen p,
      dt_flags = ucast (pkt_flags p),
      dt_imu_seq = pkt_imu_seq p,
      dt_accel = [pkt_accel_x p, pkt_accel_y p, pkt_accel_z p],
      dt_accel_raw = [pkt_accel_raw_x p, pkt_accel_raw_y p, pkt_accel_raw_z p],
      dt_gyro = [pkt_gyro_x p, pkt_gyro_y p, pkt_gyro_z p],
      dt_gyro_raw = [pkt_gyro_raw_x p, pkt_gyro_raw_y p, pkt_gyro_raw_z p],
      dt_mag = [pkt_mag_x p, pkt_mag_y p, pkt_mag_z p],
      dt_mag_raw = [pkt_mag_raw_x p, pkt_mag_raw_y p, pkt_mag_raw_z p],
      dt_quat = [pkt_quat_w p, pkt_quat_x p, pkt_quat_y p, pkt_quat_z p],
      dt_pitch = pkt_pitch p,
      dt_roll = pkt_roll p,
      dt_yaw = pkt_yaw p,
      dt_heading_deg = pkt_heading_deg p,
      dt_heading_true_deg = imud_true_heading p,
      dt_rate_of_turn = pkt_rate_of_turn p,
      dt_temp_c = pkt_temp_c p,
      dt_cov = pkt_cov p,
      dt_declination_deg = pkt_declination_deg p,
      dt_heave_m = pkt_heave_m p,
      dt_heave_rate = pkt_heave_rate p,
      dt_gyro_bias = [pkt_gyro_bias_x p, pkt_gyro_bias_y p, pkt_gyro_bias_z p],
      dt_gyro_bias_var = [pkt_gyro_bias_var_x p, pkt_gyro_bias_var_y p, pkt_gyro_bias_var_z p],
      dt_accel_quiescence = pkt_accel_quiescence p,
      dt_wave_height_m = pkt_wave_height_m p,
      dt_wave_period_s = pkt_wave_period_s p,
      dt_roll_period_s = pkt_roll_period_s p,
      dt_roll_amplitude = pkt_roll_amplitude p,
      dt_pitch_period_s = pkt_pitch_period_s p,
      dt_pitch_amplitude = pkt_pitch_amplitude p,
      dt_mag_anomaly = pkt_mag_anomaly p,
      dt_mag_residual = pkt_mag_residual p,
      dt_innov_weight = pkt_innov_weight p,
      dt_innov_reject = pkt_innov_reject p,
      dt_nis_accel = pkt_nis_accel p,
      dt_nis_mag = pkt_nis_mag p,
      dt_flags_ext = pkt_flags_ext p\<rparr>"

section \<open>The handle and one pass of the read loop\<close>

datatype imud_kind = IMUD_KIND_STREAM | IMUD_KIND_UDP | IMUD_KIND_TCP

record imud_handle =
  h_kind :: imud_kind
  h_fd :: int
  h_rx :: bytes
  h_rx_got :: nat
  h_wire :: imu_packet
  h_data :: imud_data
  h_wire_version :: u16
  h_have :: bool

text \<open>
  Outcomes of one pass: \<open>poll\<close> times out, is interrupted or fails; or it reports input and the
  read fails, asks to be retried, ends the stream, hands over up to \<open>n + 1\<close> bytes of the
  stream, or hands over one datagram.
\<close>

datatype io =
    PollTimeout | PollEintr | PollFail
  | RecvFail | RecvRetry | RecvEof
  | RecvBytes nat
  | RecvDgram bytes

definition deliver :: "(imu_packet \<Rightarrow> f32) \<Rightarrow> imud_handle \<Rightarrow> bytes \<Rightarrow> imud_handle" where
  "deliver th h buf =
     (let wire = imud_packet_decode buf
      in h\<lparr>h_wire := wire, h_data := fill_data th wire, h_wire_version := pkt_version wire,
            h_have := True\<rparr>)"

text \<open>\<open>read(fd, rx + rx_got, PACKET - rx_got)\<close> stores at the write position.\<close>

definition rx_store :: "imud_handle \<Rightarrow> bytes \<Rightarrow> imud_handle" where
  "rx_store h chunk =
     h\<lparr>h_rx := take (h_rx_got h) (h_rx h) @ chunk @ drop (h_rx_got h + length chunk) (h_rx h),
       h_rx_got := h_rx_got h + length chunk\<rparr>"

definition read_count :: "imud_handle \<Rightarrow> bytes \<Rightarrow> nat \<Rightarrow> nat" where
  "read_count h sock n = min (Suc n) (min (IMUD_PACKET_BYTES - h_rx_got h) (length sock))"

text \<open>One pass of \<open>for (;;)\<close>: the result is \<open>None\<close> for \<open>continue\<close>.\<close>

fun imud_read_pass ::
    "(imu_packet \<Rightarrow> f32) \<Rightarrow> imud_handle \<Rightarrow> bytes \<Rightarrow> io \<Rightarrow> int option \<times> imud_handle \<times> bytes" where
  "imud_read_pass th h sock PollTimeout = (Some 1, h, sock)"
| "imud_read_pass th h sock PollEintr = (Some 1, h, sock)"
| "imud_read_pass th h sock PollFail = (Some (-1), h, sock)"
| "imud_read_pass th h sock RecvFail = (Some (-1), h, sock)"
| "imud_read_pass th h sock RecvRetry = (None, h, sock)"
| "imud_read_pass th h sock RecvEof =
     (if h_kind h = IMUD_KIND_UDP then (None, h, sock) else (Some (-1), h, sock))"
| "imud_read_pass th h sock (RecvBytes n) =
     (if h_kind h = IMUD_KIND_UDP \<or> sock = [] then (None, h, sock)
      else let k = read_count h sock n;
               h = rx_store h (take k sock);
               sock = drop k sock
           in if h_rx_got h < IMUD_PACKET_BYTES then (None, h, sock)
              else let h = h\<lparr>h_rx_got := 0\<rparr>
                   in if \<not> packet_ok (h_rx h) then (None, h, sock)
                      else (Some 0, deliver th h (h_rx h), sock))"
| "imud_read_pass th h sock (RecvDgram d) =
     (if h_kind h \<noteq> IMUD_KIND_UDP then (None, h, sock)
      else let buf = take (IMUD_PACKET_BYTES + 1) d
           in if \<not> packet_ok buf then (None, h, sock)
              else (Some 0, deliver th h buf, sock))"

fun imud_read_loop ::
    "(imu_packet \<Rightarrow> f32) \<Rightarrow> imud_handle \<Rightarrow> bytes \<Rightarrow> io list \<Rightarrow>
     int option \<times> imud_handle \<times> bytes \<times> io list" where
  "imud_read_loop th h sock [] = (None, h, sock, [])"
| "imud_read_loop th h sock (e # es) =
     (case imud_read_pass th h sock e of
        (None, h', sock') \<Rightarrow> imud_read_loop th h' sock' es
      | (Some rc, h', sock') \<Rightarrow> (Some rc, h', sock', es))"

text \<open>\<open>imud_read\<close> itself: \<open>None\<close> says the call is still waiting when the outcomes run out.\<close>

definition imud_read ::
    "(imu_packet \<Rightarrow> f32) \<Rightarrow> imud_handle \<Rightarrow> bytes \<Rightarrow> io list \<Rightarrow>
     int option \<times> imud_handle \<times> bytes \<times> io list" where
  "imud_read th h sock es =
     (if h_fd h < 0 then (Some (-1), h, sock, es) else imud_read_loop th h sock es)"

section \<open>Dialling again\<close>

text \<open>
  \<open>imud_reconnect\<close> closes the old descriptor and \<open>dial\<close>s; the descriptor a dial
  yields (negative when it fails) is what the system hands over.
\<close>

definition dial :: "int \<Rightarrow> imud_handle \<Rightarrow> int \<times> imud_handle" where
  "dial newfd h = (let h = h\<lparr>h_rx_got := 0, h_fd := newfd\<rparr> in (if h_fd h < 0 then -1 else 0, h))"

definition imud_reconnect :: "int \<Rightarrow> imud_handle \<Rightarrow> int \<times> imud_handle" where
  "imud_reconnect newfd h =
     (let h = (if h_fd h \<ge> 0 then h\<lparr>h_fd := -1\<rparr> else h) in dial newfd h)"

section \<open>A client that reads until it is told to stop\<close>

text \<open>
  Calls \<open>imud_read\<close> again after every packet and every timeout, and collects the packets;
  a result of -1 ends it.
\<close>

function recv_all ::
    "(imu_packet \<Rightarrow> f32) \<Rightarrow> imud_handle \<Rightarrow> bytes \<Rightarrow> io list \<Rightarrow>
     imu_packet list \<times> imud_handle \<times> bytes" where
  "recv_all th h sock es =
     (case imud_read th h sock es of
        (None, h', sock', es') \<Rightarrow> ([], h', sock')
      | (Some rc, h', sock', es') \<Rightarrow>
          if length es' < length es then
            if rc = 0 then
              (let (ps, h'', sock'') = recv_all th h' sock' es' in (h_wire h' # ps, h'', sock''))
            else if rc = 1 then recv_all th h' sock' es'
            else ([], h', sock')
          else ([], h', sock'))"
  by pat_completeness auto
termination
  by (relation "measure (\<lambda>(th, h, sock, es). length es)") auto

declare recv_all.simps [simp del]

section \<open>What the loop keeps\<close>

definition handle_inv :: "imud_handle \<Rightarrow> bool" where
  "handle_inv h \<longleftrightarrow> length (h_rx h) = IMUD_PACKET_BYTES \<and> h_rx_got h < IMUD_PACKET_BYTES"

text \<open>The part of the stream a handle still has to turn into frames.\<close>

definition in_flight :: "imud_handle \<Rightarrow> bytes \<Rightarrow> bytes" where
  "in_flight h sock = take (h_rx_got h) (h_rx h) @ sock"

text \<open>The specification: cut the stream into frames and keep the valid ones.\<close>

function frames :: "bytes \<Rightarrow> bytes list" where
  "frames xs =
     (if length xs < IMUD_PACKET_BYTES then []
      else take IMUD_PACKET_BYTES xs # frames (drop IMUD_PACKET_BYTES xs))"
  by pat_completeness auto
termination
  by (relation "measure length") (auto simp: IMUD_PACKET_BYTES_def)

declare frames.simps [simp del]

definition packets_of :: "bytes \<Rightarrow> imu_packet list" where
  "packets_of xs = map packet_decode (filter packet_ok (frames xs))"

lemma frames_short: "length xs < IMUD_PACKET_BYTES \<Longrightarrow> frames xs = []"
  by (simp add: frames.simps)

lemma frames_cons: "length f = IMUD_PACKET_BYTES \<Longrightarrow> frames (f @ xs) = f # frames xs"
  by (subst frames.simps) simp

lemma packets_of_cons:
  "length f = IMUD_PACKET_BYTES \<Longrightarrow>
     packets_of (f @ xs) = (if packet_ok f then packet_decode f # packets_of xs else packets_of xs)"
  by (simp add: packets_of_def frames_cons)

text \<open>
  One pass on a stream socket: the invariant is kept, and the packets still owed are those
  owed before less the one just delivered.
\<close>

definition pass_delivers :: "int option \<times> imud_handle \<times> bytes \<Rightarrow> imu_packet list" where
  "pass_delivers r = (case r of (Some rc, h, _) \<Rightarrow> if rc = 0 then [h_wire h] else [] | _ \<Rightarrow> [])"

lemma rx_store_in_flight:
  assumes "handle_inv h" "k = read_count h sock n"
  shows "length (h_rx (rx_store h (take k sock))) = IMUD_PACKET_BYTES"
    and "h_rx_got (rx_store h (take k sock)) = h_rx_got h + k"
    and "h_rx_got h + k \<le> IMUD_PACKET_BYTES"
    and "take (h_rx_got h + k) (h_rx (rx_store h (take k sock))) @ drop k sock = in_flight h sock"
  using assms by (auto simp: rx_store_def read_count_def handle_inv_def in_flight_def min_def)

lemma read_pass_stream:
  assumes "handle_inv h" "h_kind h \<noteq> IMUD_KIND_UDP"
    and "imud_read_pass th h sock e = (r, h', sock')"
  shows "handle_inv h' \<and> h_kind h' = h_kind h \<and> h_fd h' = h_fd h \<and>
         packets_of (in_flight h sock) =
           pass_delivers (r, h', sock') @ packets_of (in_flight h' sock')"
proof (cases e)
  case (RecvBytes n)
  show ?thesis
  proof (cases "sock = []")
    case True
    with RecvBytes assms show ?thesis by (auto simp: pass_delivers_def)
  next
    case ne: False
    define k where "k = read_count h sock n"
    define g where "g = rx_store h (take k sock)"
    note st = rx_store_in_flight [OF assms(1) k_def, folded g_def]
    have k2: "h_kind g = h_kind h" "h_fd g = h_fd h" by (simp_all add: g_def rx_store_def)
    show ?thesis
    proof (cases "h_rx_got g < IMUD_PACKET_BYTES")
      case True
      with assms ne RecvBytes have "r = None" "h' = g" "sock' = drop k sock"
        by (auto simp: Let_def k_def g_def)
      with True st k2 show ?thesis
        by (simp add: handle_inv_def in_flight_def pass_delivers_def)
    next
      case False
      with st have full: "h_rx_got h + k = IMUD_PACKET_BYTES" by simp
      with st have fl: "in_flight h sock = h_rx g @ drop k sock" by simp
      show ?thesis
      proof (cases "packet_ok (h_rx g)")
        case True
        with False assms ne RecvBytes
        have "r = Some 0" "h' = deliver th (g\<lparr>h_rx_got := 0\<rparr>) (h_rx g)" "sock' = drop k sock"
          by (auto simp: Let_def k_def g_def)
        with True st k2 fl show ?thesis
          by (simp add: handle_inv_def in_flight_def pass_delivers_def deliver_def Let_def
              packets_of_cons imud_packet_decode_eq IMUD_PACKET_BYTES_def)
      next
        case bad: False
        with False assms ne RecvBytes
        have "r = None" "h' = g\<lparr>h_rx_got := 0\<rparr>" "sock' = drop k sock"
          by (auto simp: Let_def k_def g_def)
        with bad st k2 fl show ?thesis
          by (simp add: handle_inv_def in_flight_def pass_delivers_def packets_of_cons
              IMUD_PACKET_BYTES_def)
      qed
    qed
  qed
qed (use assms in \<open>auto simp: pass_delivers_def\<close>)

lemma read_loop_stream:
  assumes "handle_inv h" "h_kind h \<noteq> IMUD_KIND_UDP"
    and "imud_read_loop th h sock es = (r, h', sock', es')"
  shows "handle_inv h' \<and> h_kind h' = h_kind h \<and> h_fd h' = h_fd h \<and>
         packets_of (in_flight h sock) =
           pass_delivers (r, h', sock') @ packets_of (in_flight h' sock') \<and>
         (r \<noteq> None \<longrightarrow> length es' < length es)"
  using assms
proof (induction es arbitrary: h sock)
  case Nil
  then show ?case by (auto simp: pass_delivers_def)
next
  case (Cons e es)
  obtain r1 h1 s1 where p: "imud_read_pass th h sock e = (r1, h1, s1)"
    by (metis prod_cases3)
  note st = read_pass_stream [OF Cons.prems(1,2) p]
  show ?case
  proof (cases r1)
    case None
    with Cons.prems(3) p have "imud_read_loop th h1 s1 es = (r, h', sock', es')" by simp
    with Cons.IH [of h1 s1] st Cons.prems(2) None show ?thesis
      by (auto simp: pass_delivers_def)
  next
    case (Some rc)
    with Cons.prems(3) p st show ?thesis by auto
  qed
qed

text \<open>
  A whole session on a stream socket delivers the valid frames of the stream, in order,
  whatever the sizes of the reads were.
\<close>

lemma recv_all_stream:
  assumes "handle_inv h" "h_kind h \<noteq> IMUD_KIND_UDP"
    and "recv_all th h sock es = (ps, h', sock')"
  shows "handle_inv h' \<and>
         packets_of (in_flight h sock) = ps @ packets_of (in_flight h' sock')"
  using assms
proof (induction th h sock es arbitrary: ps h' sock' rule: recv_all.induct)
  case (1 th h sock es)
  obtain r h1 s1 es1 where rd: "imud_read th h sock es = (r, h1, s1, es1)"
    by (metis prod_cases4)
  have st: "handle_inv h1" "h_kind h1 \<noteq> IMUD_KIND_UDP"
      "packets_of (in_flight h sock) = pass_delivers (r, h1, s1) @ packets_of (in_flight h1 s1)"
      "length es1 < length es \<or> r = Some (-1) \<or> r = None"
    using rd "1.prems"(1,2) read_loop_stream [of h th sock es r h1 s1 es1]
    by (auto simp: imud_read_def pass_delivers_def split: if_splits)
  note eq = "1.prems"(3) [unfolded recv_all.simps [of th h sock es] rd]
  show ?case
  proof (cases "length es1 < length es \<and> (r = Some 0 \<or> r = Some 1)")
    case False
    with eq st show ?thesis by (auto simp: pass_delivers_def split: option.splits if_splits)
  next
    case True
    obtain ps2 h2 s2 where r2: "recv_all th h1 s1 es1 = (ps2, h2, s2)"
      by (metis prod_cases3)
    from True eq r2 have ps: "ps = pass_delivers (r, h1, s1) @ ps2" "h' = h2" "sock' = s2"
      by (auto simp: pass_delivers_def)
    have "handle_inv h2 \<and> packets_of (in_flight h1 s1) = ps2 @ packets_of (in_flight h2 s2)"
    proof (cases "r = Some 0")
      case r0: True
      show ?thesis
        by (rule "1.IH"(1) [OF rd [symmetric] r0 refl refl _ refl st(1,2) r2]) (use True in simp)
    next
      case False
      with True have r1: "r = Some 1" by simp
      show ?thesis
        by (rule "1.IH"(2) [OF rd [symmetric] r1 refl refl _ _ _ st(1,2) r2]) (use True in simp_all)
    qed
    with st(3) ps show ?thesis by simp
  qed
qed

text \<open>Nothing is owed once the socket has been drained.\<close>

lemma packets_of_drained: "handle_inv h \<Longrightarrow> packets_of (in_flight h []) = []"
  by (simp add: packets_of_def in_flight_def handle_inv_def frames_short)

section \<open>Enough reads drain the socket\<close>

fun is_bytes :: "io \<Rightarrow> bool" where
  "is_bytes (RecvBytes n) = True"
| "is_bytes e = False"

definition link_alive :: "io list \<Rightarrow> bool" where
  "link_alive es \<longleftrightarrow> PollFail \<notin> set es \<and> RecvFail \<notin> set es \<and> RecvEof \<notin> set es"

definition reads :: "io list \<Rightarrow> nat" where
  "reads es = length (filter is_bytes es)"

lemma read_pass_progress:
  assumes "handle_inv h" "h_kind h \<noteq> IMUD_KIND_UDP" "link_alive [e]"
    and "imud_read_pass th h sock e = (r, h', sock')" "length sock \<le> reads (e # es)"
  shows "length sock' \<le> reads es \<and> r \<noteq> Some (-1)"
  using assms
  by (cases e) (auto simp: reads_def link_alive_def Let_def read_count_def handle_inv_def
      split: if_splits)

lemma read_loop_progress:
  assumes "handle_inv h" "h_kind h \<noteq> IMUD_KIND_UDP" "link_alive es"
    and "imud_read_loop th h sock es = (r, h', sock', es')" "length sock \<le> reads es"
  shows "length sock' \<le> reads es' \<and> r \<noteq> Some (-1) \<and> link_alive es' \<and> (r = None \<longrightarrow> es' = [])"
  using assms
proof (induction es arbitrary: h sock)
  case Nil
  then show ?case by auto
next
  case (Cons e es)
  obtain r1 h1 s1 where p: "imud_read_pass th h sock e = (r1, h1, s1)"
    by (metis prod_cases3)
  have al: "link_alive [e]" "link_alive es" using Cons.prems(3) by (auto simp: link_alive_def)
  note st = read_pass_stream [OF Cons.prems(1,2) p]
    read_pass_progress [OF Cons.prems(1,2) al(1) p Cons.prems(5)]
  show ?case
  proof (cases r1)
    case None
    with Cons.prems(4) p have "imud_read_loop th h1 s1 es = (r, h', sock', es')" by simp
    with Cons.IH [of h1 s1] st Cons.prems(2) al show ?thesis by simp
  next
    case (Some rc)
    with Cons.prems(4) p st al show ?thesis by auto
  qed
qed

lemma read_pass_result: "fst (imud_read_pass th h sock e) \<in> {None, Some 0, Some 1, Some (-1)}"
  by (cases e) (auto simp: Let_def)

lemma read_loop_result:
  "imud_read_loop th h sock es = (r, h', sock', es') \<Longrightarrow> r \<in> {None, Some 0, Some 1, Some (-1)}"
proof (induction es arbitrary: h sock)
  case (Cons e es)
  then show ?case using read_pass_result [of th h sock e]
    by (auto split: prod.splits option.splits)
qed simp

lemma recv_all_drains:
  assumes "handle_inv h" "h_kind h \<noteq> IMUD_KIND_UDP" "0 \<le> h_fd h" "link_alive es"
    and "length sock \<le> reads es" "recv_all th h sock es = (ps, h', sock')"
  shows "sock' = []"
  using assms
proof (induction th h sock es arbitrary: ps h' sock' rule: recv_all.induct)
  case (1 th h sock es)
  obtain r h1 s1 es1 where rd: "imud_read th h sock es = (r, h1, s1, es1)"
    by (metis prod_cases4)
  then have lp: "imud_read_loop th h sock es = (r, h1, s1, es1)"
    using "1.prems"(3) by (simp add: imud_read_def)
  note st = read_loop_stream [OF "1.prems"(1,2) lp]
    read_loop_progress [OF "1.prems"(1,2,4) lp "1.prems"(5)] read_loop_result [OF lp]
  then have st1: "handle_inv h1" "h_kind h1 \<noteq> IMUD_KIND_UDP" "0 \<le> h_fd h1" "link_alive es1"
      "length s1 \<le> reads es1"
    using "1.prems"(2,3) by auto
  note eq = "1.prems"(6) [unfolded recv_all.simps [of th h sock es] rd]
  show ?case
  proof (cases "r = None")
    case True
    with eq st show ?thesis by (auto simp: reads_def)
  next
    case False
    with st have le: "length es1 < length es" and r01: "r = Some 0 \<or> r = Some 1" by auto
    obtain ps2 h2 s2 where r2: "recv_all th h1 s1 es1 = (ps2, h2, s2)"
      by (metis prod_cases3)
    from le r01 eq r2 have "sock' = s2" by auto
    moreover have "s2 = []"
    proof (cases "r = Some 0")
      case r0: True
      show ?thesis by (rule "1.IH"(1) [OF rd [symmetric] r0 refl refl le refl st1 r2])
    next
      case False
      with r01 have r1: "r = Some 1" by simp
      show ?thesis by (rule "1.IH"(2) [OF rd [symmetric] r1 refl refl le _ refl st1 r2]) simp
    qed
    ultimately show ?thesis by simp
  qed
qed

section \<open>Packets of the daemon as seen by the client\<close>

definition sendable :: "imu_packet \<Rightarrow> bool" where
  "sendable p \<longleftrightarrow> packet_wf p \<and> pkt_magic p = IMUD_MAGIC \<and> pkt_version p = IMUD_VERSION"

definition on_wire :: "imu_packet \<Rightarrow> bytes" where
  "on_wire p = fst (packet_encode p)"

text \<open>A packet as it comes back: unchanged but for the checksum field.\<close>

definition with_crc :: "imu_packet \<Rightarrow> imu_packet" where
  "with_crc p = p\<lparr>pkt_crc32 := snd (packet_encode p)\<rparr>"

lemma length_on_wire: "packet_wf p \<Longrightarrow> length (on_wire p) = IMUD_PACKET_BYTES"
  by (simp add: on_wire_def length_packet_encode)

lemma on_wire_split:
  "packet_wf p \<Longrightarrow> on_wire p = packet_body p @ wire_put_u32 (crc32_ieee (packet_body p))"
  by (simp add: on_wire_def packet_encode_def Let_def)

lemma decode_on_wire: "packet_wf p \<Longrightarrow> packet_decode (on_wire p) = with_crc p"
  by (simp add: on_wire_split packet_decode_body with_crc_def packet_encode_def Let_def)

lemma body_header:
  "imud_ld32 (packet_body p @ r) = pkt_magic p" "imud_ld16 (drop 4 (packet_body p @ r)) = pkt_version p"
  by (simp_all add: ld_eq_wire packet_body_def wire_simps)

lemma packet_ok_on_wire:
  assumes "sendable p"
  shows "packet_ok (on_wire p)"
proof -
  have wf: "packet_wf p" and hd: "pkt_magic p = IMUD_MAGIC" "pkt_version p = IMUD_VERSION"
    using assms by (simp_all add: sendable_def)
  have "length (on_wire p) = IMUD_PACKET_BYTES" using wf by (rule length_on_wire)
  then show ?thesis
    unfolding packet_ok_def on_wire_split [OF wf] body_header hd
    using wf by (simp add: ld_eq_wire wire_simps)
qed

lemma packets_of_on_wire:
  "\<forall>p \<in> set ps. sendable p \<Longrightarrow> packets_of (concat (map on_wire ps) @ r) = map with_crc ps @ packets_of r"
  by (induction ps)
    (simp_all add: packets_of_cons length_on_wire packet_ok_on_wire decode_on_wire sendable_def)

text \<open>One damaged stretch of at most four bytes is always noticed.\<close>

lemma packet_ok_crc:
  assumes "packet_ok b"
  shows "crc32_ieee_final (crc32_ieee_update CRC32_INIT (take PACKET_CRC_OFFSET b)) =
           wire_get_u32 (drop PACKET_CRC_OFFSET b)"
    and "length (drop PACKET_CRC_OFFSET b) = 4"
  using assms by (auto simp: packet_ok_def crc32_ieee_def ld_eq_wire PACKET_CRC_OFFSET_def
      IMUD_PACKET_BYTES_def split: if_splits)

lemma packet_ok_burst:
  assumes "packet_ok (pre @ p @ post)" "length p = length q" "length p \<le> 4" "p \<noteq> q"
  shows "\<not> packet_ok (pre @ q @ post)"
proof
  assume ok: "packet_ok (pre @ q @ post)"
  let ?b = "pre @ p @ post" and ?c = "pre @ q @ post"
  have "crc32_ieee_final (crc32_ieee_update CRC32_INIT (take PACKET_CRC_OFFSET ?c)) \<noteq>
      wire_get_u32 (drop PACKET_CRC_OFFSET ?c)"
    by (rule crc_stored_burst [OF packet_ok_crc [OF assms(1)] packet_ok_crc(2) [OF ok] _ _ assms(2-4)])
      (rule append_take_drop_id)+
  with packet_ok_crc(1) [OF ok] show False by simp
qed

section \<open>A connected handle, for closed instances\<close>

definition fresh_handle :: imud_handle where
  "fresh_handle = \<lparr>h_kind = IMUD_KIND_STREAM, h_fd = 3, h_rx = replicate 288 0, h_rx_got = 0,
     h_wire = packet_decode (replicate 288 0),
     h_data = fill_data (\<lambda>_. 0) (packet_decode (replicate 288 0)),
     h_wire_version = 0, h_have = False\<rparr>"

definition level_packet :: imu_packet where
  "level_packet = packet_build level_state zero_mag zero_imu zero_imu"

lemma sendable_level: "sendable level_packet"
  by (simp add: sendable_def level_packet_def packet_wf_build)
    (simp add: packet_build_def level_state_def packet_wf_def)

lemma fresh_facts: "handle_inv fresh_handle" "h_kind fresh_handle \<noteq> IMUD_KIND_UDP"
    "0 \<le> h_fd fresh_handle" "h_rx_got fresh_handle = 0"
  by (simp_all add: fresh_handle_def handle_inv_def IMUD_PACKET_BYTES_def)

lemma reads_facts: "link_alive (replicate n (RecvBytes k))" "reads (replicate n (RecvBytes k)) = n"
  by (simp_all add: link_alive_def reads_def filter_replicate)

lemma in_flight_empty: "h_rx_got h = 0 \<Longrightarrow> in_flight h sock = sock"
  by (simp add: in_flight_def)

lemma recv_all_all:
  assumes "handle_inv h" "h_kind h \<noteq> IMUD_KIND_UDP" "0 \<le> h_fd h" "link_alive es"
    and "length sock \<le> reads es"
  shows "fst (recv_all th h sock es) = packets_of (in_flight h sock)"
proof -
  obtain ps h' s' where r: "recv_all th h sock es = (ps, h', s')" by (metis prod_cases3)
  from recv_all_drains [OF assms r] have "s' = []" .
  with recv_all_stream [OF assms(1,2) r] r show ?thesis by (simp add: packets_of_drained)
qed

section \<open>Properties\<close>

text \<open>
  On a stream or TCP handle the packets a client receives are the valid 288-byte frames of
  the byte stream, in order, whatever chunks the reads return and wherever timeouts and retries
  fall, as long as the link stays up and enough reads happen.
\<close>

theorem client_reassembles_stream:
  assumes "length (h_rx h) = 288" "h_rx_got h < 288" "h_kind h \<noteq> IMUD_KIND_UDP" "0 \<le> h_fd h"
    and "link_alive es" "length sock \<le> reads es"
  shows "fst (recv_all th h sock es) = packets_of (take (h_rx_got h) (h_rx h) @ sock)"
  using recv_all_all [of h es sock th] assms
  by (simp add: handle_inv_def IMUD_PACKET_BYTES_def in_flight_def)

theorem client_reassembles_stream_witness:
  "fst (recv_all (\<lambda>_. 0) fresh_handle (replicate 40 1) (replicate 40 (RecvBytes 6))) = []"
  using client_reassembles_stream [of fresh_handle "replicate 40 (RecvBytes 6)" "replicate 40 1" "\<lambda>_. 0"]
  by (simp add: reads_facts fresh_handle_def packets_of_def frames_short IMUD_PACKET_BYTES_def)

text \<open>
  C1: daemon to client. Packets the daemon encodes and writes to the stream reach the client
  complete, in order and field for field, through any fragmentation of the stream.
\<close>

theorem stream_end_to_end:
  assumes "\<forall>p \<in> set ps. sendable p"
    and "handle_inv h" "h_rx_got h = 0" "h_kind h \<noteq> IMUD_KIND_UDP" "0 \<le> h_fd h"
    and "link_alive es" "length (concat (map on_wire ps)) \<le> reads es"
  shows "fst (recv_all th h (concat (map on_wire ps)) es) = map with_crc ps"
  using recv_all_all [OF assms(2,4,5,6,7), of th] packets_of_on_wire [OF assms(1), of "[]"] assms(3)
  by (simp add: in_flight_empty) (simp add: packets_of_def frames_short IMUD_PACKET_BYTES_def)

theorem stream_end_to_end_witness:
  "fst (recv_all (\<lambda>_. 0) fresh_handle (concat (map on_wire [level_packet]))
     (replicate 288 (RecvBytes 99))) = map with_crc [level_packet]"
  by (rule stream_end_to_end)
    (simp_all add: sendable_level fresh_facts reads_facts length_on_wire IMUD_PACKET_BYTES_def
      sendable_level [unfolded sendable_def])

text \<open>
  a frame that fails validation is dropped and framing survives it: everything before and
  after it is delivered.
\<close>

theorem corrupt_frame_dropped:
  assumes "\<forall>p \<in> set (ps @ qs). sendable p" "length bad = 288" "\<not> packet_ok bad"
    and "handle_inv h" "h_rx_got h = 0" "h_kind h \<noteq> IMUD_KIND_UDP" "0 \<le> h_fd h"
    and "link_alive es"
    and "length (concat (map on_wire ps) @ bad @ concat (map on_wire qs)) \<le> reads es"
  shows "fst (recv_all th h (concat (map on_wire ps) @ bad @ concat (map on_wire qs)) es) =
         map with_crc (ps @ qs)"
proof -
  have "packets_of (concat (map on_wire qs)) = map with_crc qs"
    using packets_of_on_wire [of qs "[]"] assms(1)
    by (simp add: packets_of_def frames_short IMUD_PACKET_BYTES_def)
  then show ?thesis
    using recv_all_all [OF assms(4,6,7,8,9), of th] assms
    by (simp add: in_flight_empty packets_of_on_wire packets_of_cons IMUD_PACKET_BYTES_def)
qed

theorem corrupt_frame_dropped_witness:
  "fst (recv_all (\<lambda>_. 0) fresh_handle
     (concat (map on_wire []) @ replicate 288 0 @ concat (map on_wire [level_packet]))
     (replicate 576 (RecvBytes 1))) = map with_crc ([] @ [level_packet])"
  by (rule corrupt_frame_dropped)
    (simp_all add: sendable_level fresh_facts reads_facts length_on_wire IMUD_PACKET_BYTES_def
      packet_ok_def ld_eq_wire wire_get_u32_def IMUD_MAGIC_def
      sendable_level [unfolded sendable_def])

text \<open>
  A packet the client accepts is no longer accepted once any stretch of at most four bytes
  of it has been changed, also where the stretch reaches into the stored checksum.
\<close>

theorem packet_burst_rejected:
  assumes "packet_ok (pre @ p @ post)" "length p = length q" "length p \<le> 4" "p \<noteq> q"
  shows "\<not> packet_ok (pre @ q @ post)"
  using assms by (rule packet_ok_burst)

theorem packet_burst_rejected_witness:
  "\<not> packet_ok (take 100 (on_wire level_packet) @ [on_wire level_packet ! 100 XOR 1] @
       drop 101 (on_wire level_packet))"
proof -
  let ?b = "on_wire level_packet"
  have "length ?b = 288"
    using sendable_level by (simp add: length_on_wire sendable_def IMUD_PACKET_BYTES_def)
  then have "?b = take 100 ?b @ [?b ! 100] @ drop 101 ?b"
    using id_take_nth_drop [of 100 ?b] by simp
  then have ok: "packet_ok (take 100 ?b @ [?b ! 100] @ drop 101 ?b)"
    using packet_ok_on_wire [OF sendable_level] by metis
  have "x \<noteq> x XOR 1" for x :: u8
    by (metis xor_self_eq bit.xor_left_self xor.right_neutral one_neq_zero)
  then show ?thesis by (intro packet_burst_rejected [OF ok]) auto
qed

text \<open>
  The decoder of the client header and the daemon's decoder agree on every packet.
\<close>

theorem client_decoder_agrees:
  assumes "length b = 288"
  shows "imud_packet_decode b = packet_decode b"
  using imud_packet_decode_eq [of b] assms by (simp add: IMUD_PACKET_BYTES_def)

theorem client_decoder_agrees_witness:
  "imud_packet_decode (replicate 288 5) = packet_decode (replicate 288 5)"
  by (rule client_decoder_agrees) simp

end
