(* ===== verification/Ring.thy ===== *)
theory Ring
  imports Types "HOL-Library.Sublist"
begin

text \<open>
  src/ring.c (imu_ring_t, mag_ring_t) and the tap ring of src/capture.c. The rings are modelled
  with the masked unsigned indices of the source; what their users rely on is stated as two
  interfaces, a queue that overwrites its oldest entries and one that refuses the newest, and
  each ring is an interpretation.
\<close>

lemma subseq_last_n: "subseq (last_n n xs) xs"
  by (simp add: last_n_def suffix_imp_subseq suffix_drop)

section \<open>Queue interfaces\<close>

datatype 'a op = Produce "'a list" | Consume

fun produced :: "'a op list \<Rightarrow> 'a list" where
  "produced [] = []"
| "produced (Produce xs # os) = xs @ produced os"
| "produced (Consume # os) = produced os"

text \<open>A queue read from its old end.\<close>

locale fifo =
  fixes inv :: "'q \<Rightarrow> bool" and contents :: "'q \<Rightarrow> 'a list" and cap :: nat
    and pop :: "'q \<Rightarrow> ('a \<times> 'q) option"
  assumes bounded: "inv q \<Longrightarrow> length (contents q) \<le> cap"
    and pop_nil: "inv q \<Longrightarrow> contents q = [] \<Longrightarrow> pop q = None"
    and pop_cons: "inv q \<Longrightarrow> contents q = x # xs \<Longrightarrow>
      \<exists>q'. pop q = Some (x, q') \<and> inv q' \<and> contents q' = xs"
begin

fun pop_many :: "nat \<Rightarrow> 'q \<Rightarrow> 'a list \<times> 'q" where
  "pop_many 0 q = ([], q)"
| "pop_many (Suc n) q =
     (case pop q of None \<Rightarrow> ([], q)
      | Some (x, q') \<Rightarrow> (let (xs, q'') = pop_many n q' in (x # xs, q'')))"

lemma pop_many_takes:
  "inv q \<Longrightarrow> \<exists>q'. pop_many n q = (take n (contents q), q') \<and> inv q' \<and> contents q' = drop n (contents q)"
proof (induction n arbitrary: q)
  case (Suc n)
  show ?case
  proof (cases "contents q")
    case Nil
    with Suc.prems show ?thesis by (simp add: pop_nil)
  next
    case (Cons x xs)
    then obtain q1 where q1: "pop q = Some (x, q1)" "inv q1" "contents q1 = xs"
      using pop_cons [OF Suc.prems] by blast
    from Suc.IH [OF q1(2)] q1 Cons show ?thesis by auto
  qed
qed simp

end

text \<open>The overwriting policy: a push always stores, and the oldest entries give way.\<close>

locale overwriting_fifo = fifo inv contents cap pop
  for inv :: "'q \<Rightarrow> bool" and contents :: "'q \<Rightarrow> 'a list" and cap :: nat
    and pop :: "'q \<Rightarrow> ('a \<times> 'q) option" +
  fixes push :: "'a \<Rightarrow> 'q \<Rightarrow> bool \<times> 'q"
  assumes cap_pos: "0 < cap"
    and push_inv: "inv q \<Longrightarrow> inv (snd (push x q))"
    and push_contents: "inv q \<Longrightarrow> contents (snd (push x q)) = last_n cap (contents q @ [x])"
    and push_flag: "inv q \<Longrightarrow> fst (push x q) \<longleftrightarrow> length (contents q) = cap"
begin

fun push_many :: "'a list \<Rightarrow> 'q \<Rightarrow> nat \<times> 'q" where
  "push_many [] q = (0, q)"
| "push_many (x # xs) q =
     (let (d, q') = push x q; (n, q'') = push_many xs q' in (of_bool d + n, q''))"

lemma push_many_keeps_newest:
  "inv q \<Longrightarrow> inv (snd (push_many xs q)) \<and>
     contents (snd (push_many xs q)) = last_n cap (contents q @ xs) \<and>
     fst (push_many xs q) + length (contents (snd (push_many xs q))) = length (contents q) + length xs"
proof (induction xs arbitrary: q)
  case Nil
  then show ?case by (simp add: bounded)
next
  case (Cons x xs)
  obtain d q' where p: "push x q = (d, q')" by fastforce
  have q': "inv q'" "contents q' = last_n cap (contents q @ [x])" "d \<longleftrightarrow> length (contents q) = cap"
    using push_inv [OF Cons.prems, of x] push_contents [OF Cons.prems, of x]
      push_flag [OF Cons.prems, of x] p by simp_all
  have "of_bool d + length (contents q') = Suc (length (contents q))"
    using q' bounded [OF Cons.prems] by auto
  with Cons.IH [OF q'(1)] p q'(2) show ?case
    using last_n_append_last_n [of cap "contents q @ [x]" xs] by (auto split: prod.splits)
qed

text \<open>Reader and writer interleaved at will; the results are the pushes dropped and the entries read.\<close>

fun run_ops :: "'a op list \<Rightarrow> 'q \<Rightarrow> nat \<times> 'a list \<times> 'q" where
  "run_ops [] q = (0, [], q)"
| "run_ops (Produce xs # os) q =
     (let (d, q') = push_many xs q; (n, ys, q'') = run_ops os q' in (d + n, ys, q''))"
| "run_ops (Consume # os) q =
     (case pop q of None \<Rightarrow> run_ops os q
      | Some (x, q') \<Rightarrow> (let (n, ys, q'') = run_ops os q' in (n, x # ys, q'')))"

lemma run_ops_in_order:
  "inv q \<Longrightarrow> (case run_ops os q of (n, ys, q') \<Rightarrow> inv q' \<and>
     subseq (ys @ contents q') (contents q @ produced os) \<and>
     n + length ys + length (contents q') = length (contents q) + length (produced os))"
proof (induction os arbitrary: q)
  case (Cons o1 os)
  show ?case
  proof (cases o1)
    case (Produce xs)
    obtain d q1 where p: "push_many xs q = (d, q1)" by fastforce
    have q1: "inv q1" "contents q1 = last_n cap (contents q @ xs)"
        "d + length (contents q1) = length (contents q) + length xs"
      using push_many_keeps_newest [OF Cons.prems, of xs, unfolded p fst_conv snd_conv] by blast+
    have "subseq (contents q1 @ produced os) ((contents q @ xs) @ produced os)"
      unfolding q1(2) by (intro list_emb_append_mono subseq_last_n) simp
    with Cons.IH [OF q1(1)] Produce p q1(3) show ?thesis
      by (auto split: prod.splits intro: subseq_order.order_trans)
  next
    case Consume
    show ?thesis
    proof (cases "contents q")
      case Nil
      with pop_nil [OF Cons.prems Nil] Cons.IH [OF Cons.prems] Consume show ?thesis by simp
    next
      case Cx: (Cons x xs)
      then obtain q1 where "pop q = Some (x, q1)" "inv q1" "contents q1 = xs"
        using pop_cons [OF Cons.prems] by blast
      with Cons.IH [of q1] Consume Cx show ?thesis by (auto split: prod.splits)
    qed
  qed
qed simp

end

text \<open>The refusing policy: what is stored stays, and a push to a full queue is dropped.\<close>

locale refusing_fifo = fifo inv contents cap pop
  for inv :: "'q \<Rightarrow> bool" and contents :: "'q \<Rightarrow> 'a list" and cap :: nat
    and pop :: "'q \<Rightarrow> ('a \<times> 'q) option" +
  fixes push :: "'a \<Rightarrow> 'q \<Rightarrow> bool \<times> 'q"
  assumes push_inv: "inv q \<Longrightarrow> inv (snd (push x q))"
    and push_contents: "inv q \<Longrightarrow> contents (snd (push x q)) =
      (if length (contents q) = cap then contents q else contents q @ [x])"
    and push_flag: "inv q \<Longrightarrow> fst (push x q) \<longleftrightarrow> length (contents q) = cap"
begin

fun push_many :: "'a list \<Rightarrow> 'q \<Rightarrow> nat \<times> 'q" where
  "push_many [] q = (0, q)"
| "push_many (x # xs) q =
     (let (d, q') = push x q; (n, q'') = push_many xs q' in (of_bool d + n, q''))"

lemma push_many_keeps_oldest:
  "inv q \<Longrightarrow> inv (snd (push_many xs q)) \<and>
     contents (snd (push_many xs q)) = take cap (contents q @ xs) \<and>
     fst (push_many xs q) + length (contents (snd (push_many xs q))) = length (contents q) + length xs"
proof (induction xs arbitrary: q)
  case Nil
  then show ?case by (simp add: bounded)
next
  case (Cons x xs)
  obtain d q' where p: "push x q = (d, q')" by fastforce
  have q': "inv q'" "d \<longleftrightarrow> length (contents q) = cap"
      "contents q' = (if length (contents q) = cap then contents q else contents q @ [x])"
    using push_inv [OF Cons.prems, of x] push_contents [OF Cons.prems, of x]
      push_flag [OF Cons.prems, of x] p by simp_all
  with Cons.IH [OF q'(1)] p bounded [OF Cons.prems] show ?case
    by (cases "length (contents q) = cap") (auto split: prod.splits)
qed

end

section \<open>Circular storage\<close>

text \<open>The \<open>c\<close> entries from index \<open>t\<close> on, in a buffer of \<open>n\<close> slots.\<close>

definition ring_list :: "nat \<Rightarrow> 'a list \<Rightarrow> nat \<Rightarrow> nat \<Rightarrow> 'a list" where
  "ring_list n buf t c = map (\<lambda>i. buf ! ((t + i) mod n)) [0..<c]"

lemma length_ring_list [simp]: "length (ring_list n buf t c) = c"
  by (simp add: ring_list_def)

lemma ring_list_0 [simp]: "ring_list n buf t 0 = []"
  by (simp add: ring_list_def)

lemma ring_slots_differ: "i < c \<Longrightarrow> c < n \<Longrightarrow> (t + i) mod n \<noteq> (t + c) mod (n :: nat)"
proof
  assume a: "i < c" "c < n" "(t + i) mod n = (t + c) mod n"
  then have "n dvd (t + c) - (t + i)" by (intro mod_eq_dvd_iff_nat [THEN iffD1]) auto
  with a show False by (auto dest: dvd_imp_le)
qed

lemma ring_list_put:
  assumes "c < n" "length buf = n"
  shows "ring_list n (buf[(t + c) mod n := x]) t (Suc c) = ring_list n buf t c @ [x]"
proof -
  have "(buf[(t + c) mod n := x]) ! ((t + i) mod n) = buf ! ((t + i) mod n)" if "i < c" for i
    using ring_slots_differ [OF that assms(1)] by (metis nth_list_update_neq)
  then show ?thesis using assms by (simp add: ring_list_def)
qed

lemma ring_list_take:
  assumes "0 < c"
  shows "ring_list n buf t c = buf ! (t mod n) # ring_list n buf ((t + 1) mod n) (c - 1)"
proof -
  obtain k where k: "c = Suc k" using assms by (cases c) auto
  have "((t + 1) mod n + i) mod n = (t + Suc i) mod n" for i by (simp add: mod_add_left_eq)
  then show ?thesis
    by (simp add: k ring_list_def upt_conv_Cons map_Suc_upt [symmetric] del: upt_Suc)
qed

text \<open>Overwriting the oldest entry of a full ring.\<close>

lemma ring_list_overwrite:
  assumes "0 < n" "length buf = n"
  shows "ring_list n (buf[t mod n := x]) ((t + 1) mod n) n = tl (ring_list n buf t n) @ [x]"
proof -
  obtain m where m: "n = Suc m" using assms(1) by (cases n) auto
  have "((t + 1) mod n + m) mod n = t mod n"
    by (simp add: m mod_add_left_eq) (metis add_Suc_right mod_add_self2)
  then show ?thesis
    using ring_list_put [of m n buf "(t + 1) mod n" x] ring_list_take [of n n buf t] assms m by simp
qed

section \<open>The rings of src/ring.c\<close>

record 'a ring =
  rg_buf :: "'a list"
  rg_head :: u32
  rg_tail :: u32
  rg_count :: u32

definition IMU_RING_LEN :: u32 where "IMU_RING_LEN = 256"
definition MAG_RING_LEN :: u32 where "MAG_RING_LEN = 32"

text \<open>The body of the push loop and the tail of the pops; \<open>len\<close> is the ring's length macro.\<close>

definition ring_store :: "u32 \<Rightarrow> 'a \<Rightarrow> 'a ring \<Rightarrow> bool \<times> 'a ring" where
  "ring_store len x r =
     (let (dropped, r) =
            (if rg_count r = len
             then (True, r\<lparr>rg_tail := (rg_tail r + 1) AND (len - 1)\<rparr>)
             else (False, r\<lparr>rg_count := rg_count r + 1\<rparr>));
          r = r\<lparr>rg_buf := (rg_buf r)[unat (rg_head r) := x]\<rparr>
      in (dropped, r\<lparr>rg_head := (rg_head r + 1) AND (len - 1)\<rparr>))"

definition ring_fetch :: "u32 \<Rightarrow> 'a ring \<Rightarrow> ('a \<times> 'a ring) option" where
  "ring_fetch len r =
     (if rg_count r = 0 then None
      else Some (rg_buf r ! unat (rg_tail r),
                 r\<lparr>rg_tail := (rg_tail r + 1) AND (len - 1), rg_count := rg_count r - 1\<rparr>))"

definition imu_ring_init :: "'a \<Rightarrow> 'a ring" where
  "imu_ring_init z = \<lparr>rg_buf = replicate (unat IMU_RING_LEN) z, rg_head = 0, rg_tail = 0, rg_count = 0\<rparr>"

fun imu_ring_push :: "'a ring \<Rightarrow> 'a list \<Rightarrow> nat \<times> 'a ring" where
  "imu_ring_push r [] = (0, r)"
| "imu_ring_push r (x # s) =
     (let (d, r) = ring_store IMU_RING_LEN x r;
          (dropped, r) = imu_ring_push r s
      in (of_bool d + dropped, r))"

text \<open>
  \<open>imu_ring_pop\<close> may sleep several times: every return of the wait is the deadline passing or
  a wake-up, with the ring as it is when the lock is held again and, for a wake-up, the stop
  flag. \<open>None\<close> says that the thread is still asleep when the events run out.
\<close>

datatype 'r wake = TimedOut 'r | Woken 'r bool

fun imu_ring_pop ::
    "'a ring \<Rightarrow> bool \<Rightarrow> 'a ring wake list \<Rightarrow> (int \<times> 'a option \<times> 'a ring) option" where
  "imu_ring_pop r stop ws =
     (if rg_count r = 0 \<and> \<not> stop
      then (case ws of [] \<Rightarrow> None
            | TimedOut r' # _ \<Rightarrow> Some (-1, None, r')
            | Woken r' stop' # ws' \<Rightarrow> imu_ring_pop r' stop' ws')
      else if rg_count r = 0 then Some (-1, None, r)
      else Some (0, Some (rg_buf r ! unat (rg_tail r)),
                 r\<lparr>rg_tail := (rg_tail r + 1) AND (IMU_RING_LEN - 1), rg_count := rg_count r - 1\<rparr>))"

declare imu_ring_pop.simps [simp del]

fun wake_ring :: "'r wake \<Rightarrow> 'r" where
  "wake_ring (TimedOut r) = r"
| "wake_ring (Woken r stop) = r"

definition imu_ring_count :: "'a ring \<Rightarrow> int" where
  "imu_ring_count r = sint (rg_count r)"

definition mag_ring_init :: "'a \<Rightarrow> 'a ring" where
  "mag_ring_init z = \<lparr>rg_buf = replicate (unat MAG_RING_LEN) z, rg_head = 0, rg_tail = 0, rg_count = 0\<rparr>"

definition mag_ring_push :: "'a ring \<Rightarrow> 'a \<Rightarrow> 'a ring" where
  "mag_ring_push r x = snd (ring_store MAG_RING_LEN x r)"

definition mag_ring_try_pop :: "'a ring \<Rightarrow> int \<times> 'a option \<times> 'a ring" where
  "mag_ring_try_pop r =
     (case ring_fetch MAG_RING_LEN r of None \<Rightarrow> (-1, None, r) | Some (x, r') \<Rightarrow> (0, Some x, r'))"

section \<open>Indices stay in the ring\<close>

definition ring_inv :: "u32 \<Rightarrow> 'a ring \<Rightarrow> bool" where
  "ring_inv len r \<longleftrightarrow>
     length (rg_buf r) = unat len \<and> unat (rg_tail r) < unat len \<and> unat (rg_count r) \<le> unat len \<and>
     unat (rg_head r) = (unat (rg_tail r) + unat (rg_count r)) mod unat len"

definition ring_contents :: "u32 \<Rightarrow> 'a ring \<Rightarrow> 'a list" where
  "ring_contents len r = ring_list (unat len) (rg_buf r) (unat (rg_tail r)) (unat (rg_count r))"

lemma unat_2_pow_u32: "k < 32 \<Longrightarrow> unat (2 ^ k :: u32) = 2 ^ k"
  using unat_of_nat [where ?'a = 32, of "2 ^ k"] power_strict_increasing [of k 32 "2 :: nat"] by simp

lemma unat_next_index:
  assumes "k < 32"
  shows "unat ((w + 1) AND (2 ^ k - 1) :: u32) = (unat w + 1) mod 2 ^ k"
proof -
  have "(w + 1) AND (2 ^ k - 1) = take_bit k (w + 1)"
    by (simp only: take_bit_eq_mask mask_eq_exp_minus_1)
  then have "unat ((w + 1) AND (2 ^ k - 1)) = unat (take_bit k (w + 1))"
    by (simp only:)
  also have "\<dots> = unat (w + 1) mod 2 ^ k"
    by (subst unsigned_take_bit_eq) (simp only: take_bit_eq_mod)
  also have "\<dots> = (unat w + 1) mod 2 ^ 32 mod 2 ^ k"
    by (simp add: unat_word_ariths)
  also have "\<dots> = (unat w + 1) mod 2 ^ k"
    using le_imp_power_dvd [of k 32 "2 :: nat"] assms by (intro mod_mod_cancel) simp
  finally show ?thesis .
qed

lemma ring_store_ok:
  fixes len :: u32
  assumes "ring_inv len r" "len = 2 ^ k" "k < 32"
  shows "ring_inv len (snd (ring_store len x r))"
    and "ring_contents len (snd (ring_store len x r)) = last_n (unat len) (ring_contents len r @ [x])"
    and "fst (ring_store len x r) \<longleftrightarrow> length (ring_contents len r) = unat len"
proof -
  let ?n = "unat len" and ?t = "unat (rg_tail r)" and ?c = "unat (rg_count r)"
  have n: "?n = 2 ^ k" using assms(2,3) by (simp add: unat_2_pow_u32)
  then have pos: "0 < ?n" by simp
  have nx: "unat ((w + 1) AND (len - 1)) = (unat w + 1) mod ?n" for w
    using unat_next_index [OF assms(3), of w] assms(2) n by simp
  have full: "rg_count r = len \<longleftrightarrow> ?c = ?n" by (simp add: word_unat_eq_iff)
  note iv = assms(1) [unfolded ring_inv_def]
  show "fst (ring_store len x r) \<longleftrightarrow> length (ring_contents len r) = unat len"
    by (simp add: ring_store_def ring_contents_def full Let_def)
  have "ring_inv len (snd (ring_store len x r)) \<and>
      ring_contents len (snd (ring_store len x r)) = last_n (unat len) (ring_contents len r @ [x])"
  proof (cases "?c = ?n")
    case True
    with iv have h: "unat (rg_head r) = ?t" by simp
    have "last_n ?n (ring_contents len r @ [x]) = tl (ring_contents len r) @ [x]"
      using True pos by (simp add: ring_contents_def last_n_def drop_Suc)
    then show ?thesis
      using True iv h pos ring_list_overwrite [OF pos, of "rg_buf r" ?t x]
      by (simp add: ring_store_def ring_inv_def ring_contents_def full nx)
  next
    case False
    with iv have lt: "?c < ?n" by simp
    moreover have "?n < 2 ^ 32" using unsigned_less [of len] by simp
    ultimately have "?c + 1 < 2 ^ 32" by linarith
    then have c1: "unat (rg_count r + 1) = ?c + 1" by (simp add: unat_word_ariths)
    have "((?t + ?c) mod ?n + 1) mod ?n = (?t + (?c + 1)) mod ?n"
      by (metis add.assoc mod_add_left_eq)
    then show ?thesis
      using iv lt c1 False ring_list_put [OF lt, of "rg_buf r" ?t x]
      by (simp add: ring_store_def ring_inv_def ring_contents_def full nx)
  qed
  then show "ring_inv len (snd (ring_store len x r))"
    and "ring_contents len (snd (ring_store len x r)) = last_n (unat len) (ring_contents len r @ [x])"
    by simp_all
qed

lemma ring_fetch_ok:
  fixes len :: u32
  assumes "ring_inv len r" "len = 2 ^ k" "k < 32"
  shows "ring_contents len r = [] \<Longrightarrow> ring_fetch len r = None"
    and "ring_contents len r = x # xs \<Longrightarrow>
      \<exists>r'. ring_fetch len r = Some (x, r') \<and> ring_inv len r' \<and> ring_contents len r' = xs"
proof -
  let ?n = "unat len" and ?t = "unat (rg_tail r)" and ?c = "unat (rg_count r)"
  have n: "?n = 2 ^ k" using assms(2,3) by (simp add: unat_2_pow_u32)
  have nx: "unat ((w + 1) AND (len - 1)) = (unat w + 1) mod ?n" for w
    using unat_next_index [OF assms(3), of w] assms(2) n by simp
  note iv = assms(1) [unfolded ring_inv_def]
  show "ring_fetch len r = None" if "ring_contents len r = []"
    using that by (simp add: ring_contents_def ring_list_def ring_fetch_def unat_eq_zero)
  assume c: "ring_contents len r = x # xs"
  then have pos: "0 < ?c" by (cases ?c) (auto simp: ring_contents_def)
  then have c1: "unat (rg_count r - 1) = ?c - 1" by (metis unat_minus_one unat_eq_zero neq0_conv)
  have "((?t + 1) mod ?n + (?c - 1)) mod ?n = (?t + ?c) mod ?n"
    using pos by (metis mod_add_left_eq add.assoc le_add_diff_inverse One_nat_def Suc_leI)
  with c pos c1 iv n ring_list_take [OF pos, of ?n "rg_buf r" ?t]
  show "\<exists>r'. ring_fetch len r = Some (x, r') \<and> ring_inv len r' \<and> ring_contents len r' = xs"
    by (auto simp: ring_fetch_def ring_contents_def ring_inv_def nx unat_eq_zero)
qed

lemma ring_len_pow: "IMU_RING_LEN = 2 ^ 8" "MAG_RING_LEN = 2 ^ 5"
    "unat IMU_RING_LEN = 256" "unat MAG_RING_LEN = 32"
  by (simp_all add: IMU_RING_LEN_def MAG_RING_LEN_def)

lemma ring_contents_le: "ring_inv len r \<Longrightarrow> length (ring_contents len r) \<le> unat len"
  by (simp add: ring_inv_def ring_contents_def)

lemmas imu_ring_facts = ring_store_ok [OF _ ring_len_pow(1), unfolded ring_len_pow(3), simplified]
  ring_fetch_ok [OF _ ring_len_pow(1), unfolded ring_len_pow(3), simplified]
  ring_contents_le [of IMU_RING_LEN, unfolded ring_len_pow(3)]

lemmas mag_ring_facts = ring_store_ok [OF _ ring_len_pow(2), unfolded ring_len_pow(4), simplified]
  ring_fetch_ok [OF _ ring_len_pow(2), unfolded ring_len_pow(4), simplified]
  ring_contents_le [of MAG_RING_LEN, unfolded ring_len_pow(4)]

interpretation imuq: overwriting_fifo "ring_inv IMU_RING_LEN" "ring_contents IMU_RING_LEN" 256
  "ring_fetch IMU_RING_LEN" "ring_store IMU_RING_LEN"
  by unfold_locales (simp_all add: imu_ring_facts)

interpretation magq: overwriting_fifo "ring_inv MAG_RING_LEN" "ring_contents MAG_RING_LEN" 32
  "ring_fetch MAG_RING_LEN" "ring_store MAG_RING_LEN"
  by unfold_locales (simp_all add: mag_ring_facts)


text \<open>The rings of the source, as the queues.\<close>

lemma imu_ring_push_many: "imu_ring_push r xs = imuq.push_many xs r"
  by (induction xs arbitrary: r) (simp_all add: Let_def split: prod.splits)

lemma imu_ring_pop_fetch:
  "imu_ring_pop r stop ws =
     (case ring_fetch IMU_RING_LEN r of
        Some (x, r') \<Rightarrow> Some (0, Some x, r')
      | None \<Rightarrow> if stop then Some (-1, None, r)
          else (case ws of [] \<Rightarrow> None
                | TimedOut r' # _ \<Rightarrow> Some (-1, None, r')
                | Woken r' stop' # ws' \<Rightarrow> imu_ring_pop r' stop' ws'))"
  by (subst imu_ring_pop.simps) (auto simp: ring_fetch_def)

lemma ring_fetch_cases:
  assumes "ring_inv IMU_RING_LEN r"
  shows "case ring_fetch IMU_RING_LEN r of
      None \<Rightarrow> ring_contents IMU_RING_LEN r = []
    | Some (x, r') \<Rightarrow> ring_inv IMU_RING_LEN r' \<and>
        ring_contents IMU_RING_LEN r = x # ring_contents IMU_RING_LEN r'"
  using imuq.pop_nil [OF assms] imuq.pop_cons [OF assms]
  by (cases "ring_contents IMU_RING_LEN r") auto

lemma ring_init_inv [simp]:
  "ring_inv IMU_RING_LEN (imu_ring_init z)" "ring_contents IMU_RING_LEN (imu_ring_init z) = []"
  "ring_inv MAG_RING_LEN (mag_ring_init z)" "ring_contents MAG_RING_LEN (mag_ring_init z) = []"
  by (simp_all add: ring_inv_def ring_contents_def imu_ring_init_def mag_ring_init_def ring_len_pow)

text \<open>The loop \<open>while (mag_ring_try_pop(...) == 0)\<close> of the fusion thread.\<close>

function mag_ring_drain :: "'a ring \<Rightarrow> 'a list \<times> 'a ring" where
  "mag_ring_drain r =
     (case mag_ring_try_pop r of
        (rc, Some x, r') \<Rightarrow> (let (xs, r'') = mag_ring_drain r' in (x # xs, r''))
      | (rc, None, r') \<Rightarrow> ([], r'))"
  by pat_completeness auto
termination
  by (relation "measure (\<lambda>r. unat (rg_count r))")
    (auto simp: mag_ring_try_pop_def ring_fetch_def unat_minus_one unat_gt_0 split: if_splits)

declare mag_ring_drain.simps [simp del]

lemma mag_ring_drain_contents:
  "ring_inv MAG_RING_LEN r \<Longrightarrow>
     fst (mag_ring_drain r) = ring_contents MAG_RING_LEN r \<and>
     ring_inv MAG_RING_LEN (snd (mag_ring_drain r)) \<and>
     ring_contents MAG_RING_LEN (snd (mag_ring_drain r)) = []"
proof (induction r rule: mag_ring_drain.induct)
  case (1 r)
  show ?case
  proof (cases "ring_contents MAG_RING_LEN r")
    case Nil
    with magq.pop_nil [OF 1(2)] 1(2) show ?thesis
      by (simp add: mag_ring_drain.simps [of r] mag_ring_try_pop_def)
  next
    case (Cons x xs)
    then obtain r1 where r1: "ring_fetch MAG_RING_LEN r = Some (x, r1)" "ring_inv MAG_RING_LEN r1"
        "ring_contents MAG_RING_LEN r1 = xs"
      using magq.pop_cons [OF 1(2)] by blast
    then have "mag_ring_try_pop r = (0, Some x, r1)" by (simp add: mag_ring_try_pop_def)
    then have "mag_ring_drain r = (let (ys, r'') = mag_ring_drain r1 in (x # ys, r''))"
      by (subst mag_ring_drain.simps) simp
    with 1(1) [OF \<open>mag_ring_try_pop r = (0, Some x, r1)\<close> [symmetric] refl refl r1(2)] r1 Cons
    show ?thesis by (simp split: prod.splits)
  qed
qed

section \<open>What the readers and writers of the rings rely on\<close>

text \<open>pushing a drain of samples into the IMU ring keeps the ring well formed and leaves
  exactly the newest 256 of what was stored and what was pushed, in order; the returned count is
  the number of samples that were lost.\<close>

theorem imu_ring_push_newest:
  assumes "ring_inv IMU_RING_LEN r" and "imu_ring_push r xs = (dropped, r')"
  shows "ring_inv IMU_RING_LEN r' \<and>
    ring_contents IMU_RING_LEN r' = last_n 256 (ring_contents IMU_RING_LEN r @ xs) \<and>
    dropped + length (ring_contents IMU_RING_LEN r') = length (ring_contents IMU_RING_LEN r) + length xs"
  using imuq.push_many_keeps_newest [OF assms(1), of xs, folded imu_ring_push_many, unfolded assms(2)
    fst_conv snd_conv] .

lemma imu_ring_push_newest_witness:
  "\<exists>r. imu_ring_push (imu_ring_init (0 :: int)) [1, 2, 3] = (0, r) \<and> ring_contents IMU_RING_LEN r = [1, 2, 3]"
proof -
  obtain d r where p: "imu_ring_push (imu_ring_init (0 :: int)) [1, 2, 3] = (d, r)" by fastforce
  from imu_ring_push_newest [OF ring_init_inv(1) p] p show ?thesis
    by (auto simp del: imu_ring_push.simps)
qed

text \<open>A pop of the IMU ring, whatever happens while it sleeps, returns 0 with the oldest
  sample of the ring it found and leaves the rest, or -1 with nothing taken, and that only when
  the wait timed out or the stop flag was set on an empty ring. A timeout among the events is
  enough for it to return.\<close>

theorem imu_ring_pop_oldest:
  assumes "ring_inv IMU_RING_LEN r" and "\<forall>w \<in> set ws. ring_inv IMU_RING_LEN (wake_ring w)"
  shows "case imu_ring_pop r stop ws of
      None \<Rightarrow> \<forall>q. TimedOut q \<notin> set ws
    | Some (rc, out, r') \<Rightarrow> ring_inv IMU_RING_LEN r' \<and>
       (case out of
          Some x \<Rightarrow> rc = 0 \<and> (\<exists>q \<in> insert r (wake_ring ` set ws).
            ring_contents IMU_RING_LEN q = x # ring_contents IMU_RING_LEN r')
        | None \<Rightarrow> rc = -1 \<and> (TimedOut r' \<in> set ws \<or>
            ring_contents IMU_RING_LEN r' = [] \<and> (stop \<and> r' = r \<or> Woken r' True \<in> set ws)))"
  using assms
proof (induction ws arbitrary: r stop)
  case Nil
  then show ?case using ring_fetch_cases [OF Nil(1)]
    by (auto simp: imu_ring_pop_fetch [of r] split: option.splits)
next
  case (Cons w ws)
  show ?case
  proof (cases "ring_fetch IMU_RING_LEN r")
    case None
    note f = None
    show ?thesis
    proof (cases "stop \<or> (\<exists>q. w = TimedOut q)")
      case True
      with f ring_fetch_cases [OF Cons.prems(1)] Cons.prems show ?thesis
        by (auto simp: imu_ring_pop_fetch [of r] split: option.splits)
    next
      case False
      then obtain q b where w: "w = Woken q b" by (cases w) auto
      then have e: "imu_ring_pop r stop (w # ws) = imu_ring_pop q b ws"
        using f False by (simp add: imu_ring_pop_fetch [of r])
      have "ring_inv IMU_RING_LEN q" using Cons.prems(2) w by simp
      from Cons.IH [OF this, of b] Cons.prems(2) show ?thesis unfolding e using w
        by (auto split: option.splits)
    qed
  next
    case (Some p)
    with ring_fetch_cases [OF Cons.prems(1)] show ?thesis
      by (auto simp: imu_ring_pop_fetch [of r])
  qed
qed

lemma imu_ring_pop_oldest_witness:
  "case imu_ring_pop (imu_ring_init (0 :: int)) False [TimedOut (imu_ring_init 7)] of
     None \<Rightarrow> False | Some (rc, out, r') \<Rightarrow> out = None \<longrightarrow> rc = -1"
  using imu_ring_pop_oldest [of "imu_ring_init (0 :: int)" "[TimedOut (imu_ring_init 7)]" False]
  by (auto split: option.splits prod.splits)

text \<open>The reader thread and the fusion thread taking turns on the IMU ring.\<close>

fun imu_ring_turns :: "'a op list \<Rightarrow> 'a ring \<Rightarrow> nat \<times> 'a list \<times> 'a ring" where
  "imu_ring_turns [] r = (0, [], r)"
| "imu_ring_turns (Produce xs # os) r =
     (let (d, r) = imu_ring_push r xs; (n, ys, r) = imu_ring_turns os r in (d + n, ys, r))"
| "imu_ring_turns (Consume # os) r =
     (case imu_ring_pop r False [TimedOut r] of
        Some (rc, Some x, r) \<Rightarrow> (let (n, ys, r) = imu_ring_turns os r in (n, x # ys, r))
      | Some (rc, None, r) \<Rightarrow> imu_ring_turns os r
      | None \<Rightarrow> (0, [], r))"

lemma imu_ring_turns_run: "imu_ring_turns os r = imuq.run_ops os r"
  by (induction os r rule: imu_ring_turns.induct)
    (simp_all add: imu_ring_push_many imu_ring_pop_fetch split: option.splits prod.splits)

text \<open>C3: the reader thread and the fusion thread take turns on the IMU ring in any order. What
  comes out, followed by what is still stored, is what went in with nothing reordered or
  duplicated, and the samples missing from it are exactly the ones counted as dropped.\<close>

theorem imu_ring_keeps_order:
  "case imu_ring_turns os (imu_ring_init z) of (dropped, out, r) \<Rightarrow>
     subseq (out @ ring_contents IMU_RING_LEN r) (produced os) \<and>
     dropped + length (out @ ring_contents IMU_RING_LEN r) = length (produced os)"
  using imuq.run_ops_in_order [OF ring_init_inv(1) [of z], of os]
  by (simp add: imu_ring_turns_run split: prod.splits)

fun mag_ring_fill :: "'a ring \<Rightarrow> 'a list \<Rightarrow> 'a ring" where
  "mag_ring_fill r [] = r"
| "mag_ring_fill r (x # xs) = mag_ring_fill (mag_ring_push r x) xs"

lemma mag_ring_fill_many: "mag_ring_fill r xs = snd (magq.push_many xs r)"
  by (induction xs arbitrary: r) (simp_all add: mag_ring_push_def split: prod.splits)

text \<open>whatever the magnetometer thread has pushed since the last drain, the fusion thread's
  drain loop ends and delivers the newest 32 of it, oldest first, leaving the ring empty.\<close>

theorem mag_ring_drain_newest:
  "case mag_ring_drain (mag_ring_fill (mag_ring_init z) xs) of (ys, r) \<Rightarrow>
     ys = last_n 32 xs \<and> ring_inv MAG_RING_LEN r \<and> ring_contents MAG_RING_LEN r = []"
  using magq.push_many_keeps_newest [OF ring_init_inv(3) [of z], of xs]
    mag_ring_drain_contents [of "mag_ring_fill (mag_ring_init z) xs"]
  by (auto simp: mag_ring_fill_many)

end
