(* ===== verification/Capture.thy ===== *)
theory Capture
  imports Types Wire Crc32
begin

text \<open>
  The capture file of src/capture.c: the on-disk structs with their encoders and decoders, the
  writer, and the reader. A stream that is written is the bytes it has accepted, with the number
  of bytes each \<open>fwrite\<close> takes decided by a parameter; a stream that is read is its
  bytes and a position, with an optional offset from which reads fail.
\<close>

section \<open>The structs of the file\<close>

definition CAP_MAGIC :: bytes where
  "CAP_MAGIC = [0x49, 0x4D, 0x55, 0x43, 0x41, 0x50, 0x31, 0]"

definition CAP_FMT_VERSION :: u16 where "CAP_FMT_VERSION = 1"
definition CAP_HF_CRC32 :: u16 where "CAP_HF_CRC32 = 0x0001"
definition CAP_REC_IMU :: u8 where "CAP_REC_IMU = 1"
definition CAP_REC_MAG :: u8 where "CAP_REC_MAG = 2"
definition CAP_REC_MARK :: u8 where "CAP_REC_MARK = 3"
definition CAP_MAGF_VALID :: u8 where "CAP_MAGF_VALID = 0x01"
definition CAP_F_CRC32 :: u8 where "CAP_F_CRC32 = 0x80"

lemmas cap_consts = CAP_REC_IMU_def CAP_REC_MAG_def CAP_REC_MARK_def CAP_FMT_VERSION_def
  CAP_HF_CRC32_def CAP_MAGF_VALID_def CAP_F_CRC32_def

record cap_header =
  hd_magic :: bytes
  hd_version :: u16
  hd_hdr_len :: u16
  hd_imu_odr_hz :: u32
  hd_imu_driver :: bytes
  hd_mag_driver :: bytes
  hd_imud_version :: bytes
  hd_t0_wall_ns :: u64
  hd_t0_mono_ns :: u64
  hd_imu_odr_mhz :: u32
  hd_file_flags :: u16
  hd_reserved :: bytes

record cap_frame =
  fr_type :: u8
  fr_flags :: u8
  fr_len :: u16
  fr_mono_ns :: u64

record cap_imu_rec =
  ir_accel :: "f32 list"
  ir_gyro :: "f32 list"
  ir_temp_c :: f32
  ir_chip_ts :: u32
  ir_seq :: u32

record cap_mag_rec =
  mr_field :: "f32 list"
  mr_wall_ns :: u64

definition hdr_encode :: "cap_header \<Rightarrow> bytes" where
  "hdr_encode h =
     take 8 (hd_magic h) @ wire_put_u16 (hd_version h) @ wire_put_u16 (hd_hdr_len h) @
     wire_put_u32 (hd_imu_odr_hz h) @ take 16 (hd_imu_driver h) @ take 16 (hd_mag_driver h) @
     take 16 (hd_imud_version h) @ wire_put_u64 (hd_t0_wall_ns h) @ wire_put_u64 (hd_t0_mono_ns h) @
     wire_put_u32 (hd_imu_odr_mhz h) @ wire_put_u16 (hd_file_flags h) @ replicate 18 0"

definition hdr_decode :: "bytes \<Rightarrow> cap_header" where
  "hdr_decode b =
     \<lparr>hd_magic = take 8 b,
      hd_version = wire_get_u16 (drop 8 b),
      hd_hdr_len = wire_get_u16 (drop 10 b),
      hd_imu_odr_hz = wire_get_u32 (drop 12 b),
      hd_imu_driver = take 16 (drop 16 b),
      hd_mag_driver = take 16 (drop 32 b),
      hd_imud_version = take 16 (drop 48 b),
      hd_t0_wall_ns = wire_get_u64 (drop 64 b),
      hd_t0_mono_ns = wire_get_u64 (drop 72 b),
      hd_imu_odr_mhz = wire_get_u32 (drop 80 b),
      hd_file_flags = wire_get_u16 (drop 84 b),
      hd_reserved = replicate 18 0\<rparr>"

definition frame_encode :: "cap_frame \<Rightarrow> bytes" where
  "frame_encode f =
     wire_put_u8 (fr_type f) @ wire_put_u8 (fr_flags f) @ wire_put_u16 (fr_len f) @
     wire_put_u64 (fr_mono_ns f)"

definition frame_decode :: "bytes \<Rightarrow> cap_frame" where
  "frame_decode b =
     \<lparr>fr_type = wire_get_u8 b, fr_flags = wire_get_u8 (drop 1 b),
      fr_len = wire_get_u16 (drop 2 b), fr_mono_ns = wire_get_u64 (drop 4 b)\<rparr>"

definition imu_rec_encode :: "cap_imu_rec \<Rightarrow> bytes" where
  "imu_rec_encode r =
     concat (map (\<lambda>i. wire_put_f32 (ir_accel r ! i)) [0..<3]) @
     concat (map (\<lambda>i. wire_put_f32 (ir_gyro r ! i)) [0..<3]) @
     wire_put_f32 (ir_temp_c r) @ wire_put_u32 (ir_chip_ts r) @ wire_put_u32 (ir_seq r)"

definition imu_rec_decode :: "bytes \<Rightarrow> cap_imu_rec" where
  "imu_rec_decode b =
     \<lparr>ir_accel = map (\<lambda>i. wire_get_f32 (drop (0 + 4 * i) b)) [0..<3],
      ir_gyro = map (\<lambda>i. wire_get_f32 (drop (12 + 4 * i) b)) [0..<3],
      ir_temp_c = wire_get_f32 (drop 24 b), ir_chip_ts = wire_get_u32 (drop 28 b),
      ir_seq = wire_get_u32 (drop 32 b)\<rparr>"

definition mag_rec_encode :: "cap_mag_rec \<Rightarrow> bytes" where
  "mag_rec_encode r =
     concat (map (\<lambda>i. wire_put_f32 (mr_field r ! i)) [0..<3]) @ wire_put_u64 (mr_wall_ns r)"

definition mag_rec_decode :: "bytes \<Rightarrow> cap_mag_rec" where
  "mag_rec_decode b =
     \<lparr>mr_field = map (\<lambda>i. wire_get_f32 (drop (4 * i) b)) [0..<3], mr_wall_ns = wire_get_u64 (drop 12 b)\<rparr>"

section \<open>The writer\<close>

text \<open>
  \<open>cw_f\<close> is \<open>None\<close> for a null stream. A parameter \<open>acc\<close> of the operations says
  how many of the bytes handed over an \<open>fwrite\<close> accepts, given what the stream holds.
\<close>

record cap_writer =
  cw_f :: "bytes option"
  cw_bytes :: u64
  cw_n_imu :: u64
  cw_n_mag :: u64

type_synonym acc = "bytes \<Rightarrow> bytes \<Rightarrow> nat"

definition fwrite :: "acc \<Rightarrow> bytes \<Rightarrow> bytes \<Rightarrow> bool \<times> bytes" where
  "fwrite acc buf f = (let k = min (acc f buf) (length buf) in (k = length buf, f @ take k buf))"

text \<open>\<open>snprintf(dst, n, "%s", s)\<close> into a zeroed array of \<open>n\<close> chars.\<close>

definition put_str :: "nat \<Rightarrow> bytes option \<Rightarrow> bytes" where
  "put_str n s =
     (let t = take (n - 1) (takeWhile (\<lambda>c. c \<noteq> 0) (case s of None \<Rightarrow> [] | Some s \<Rightarrow> s))
      in t @ replicate (n - length t) 0)"

definition cap_new_header ::
    "u32 \<Rightarrow> u32 \<Rightarrow> bytes option \<Rightarrow> bytes option \<Rightarrow> bytes option \<Rightarrow> u64 \<Rightarrow> u64 \<Rightarrow> cap_header" where
  "cap_new_header imu_odr_hz imu_odr_mhz imu_driver mag_driver imud_version t0_wall_ns t0_mono_ns =
     \<lparr>hd_magic = CAP_MAGIC, hd_version = CAP_FMT_VERSION, hd_hdr_len = 104,
      hd_imu_odr_hz = imu_odr_hz, hd_imu_driver = put_str 16 imu_driver,
      hd_mag_driver = put_str 16 mag_driver, hd_imud_version = put_str 16 imud_version,
      hd_t0_wall_ns = t0_wall_ns, hd_t0_mono_ns = t0_mono_ns, hd_imu_odr_mhz = imu_odr_mhz,
      hd_file_flags = CAP_HF_CRC32, hd_reserved = replicate 18 0\<rparr>"

definition cap_writer_zero :: cap_writer where
  "cap_writer_zero = \<lparr>cw_f = None, cw_bytes = 0, cw_n_imu = 0, cw_n_mag = 0\<rparr>"

definition cap_writer_open ::
    "acc \<Rightarrow> bool \<Rightarrow> u32 \<Rightarrow> u32 \<Rightarrow> bytes option \<Rightarrow> bytes option \<Rightarrow> bytes option \<Rightarrow> u64 \<Rightarrow> u64 \<Rightarrow>
     int \<times> cap_writer" where
  "cap_writer_open acc created imu_odr_hz imu_odr_mhz imu_driver mag_driver imud_version
       t0_wall_ns t0_mono_ns =
     (if \<not> created then (-1, cap_writer_zero)
      else let hdr = cap_new_header imu_odr_hz imu_odr_mhz imu_driver mag_driver imud_version
                       t0_wall_ns t0_mono_ns;
               (ok, f) = fwrite acc (hdr_encode hdr) []
           in if \<not> ok then (-1, cap_writer_zero)
              else (0, cap_writer_zero\<lparr>cw_f := Some f, cw_bytes := 104\<rparr>))"

definition cap_write_rec ::
    "acc \<Rightarrow> cap_writer \<Rightarrow> u8 \<Rightarrow> u8 \<Rightarrow> bytes \<Rightarrow> u16 \<Rightarrow> u64 \<Rightarrow> int \<times> cap_writer" where
  "cap_write_rec acc w type flags payload len mono_ns =
     (case cw_f w of
        None \<Rightarrow> (-1, w)
      | Some f \<Rightarrow>
          (let fr = \<lparr>fr_type = type, fr_flags = flags OR CAP_F_CRC32, fr_len = len + 4,
                     fr_mono_ns = mono_ns\<rparr>;
               fb = frame_encode fr;
               crc = crc32_ieee_update CRC32_INIT fb;
               crc = crc32_ieee_update crc (take (unat len) payload);
               tb = wire_put_u32 (crc32_ieee_final crc);
               (ok, f) = fwrite acc fb f
           in if \<not> ok then (-1, w\<lparr>cw_f := Some f\<rparr>)
              else let (ok, f) = (if len \<noteq> 0 then fwrite acc (take (unat len) payload) f else (True, f))
                   in if \<not> ok then (-1, w\<lparr>cw_f := Some f\<rparr>)
                      else let (ok, f) = fwrite acc tb f
                           in if \<not> ok then (-1, w\<lparr>cw_f := Some f\<rparr>)
                              else (0, w\<lparr>cw_f := Some f,
                                         cw_bytes := cw_bytes w + 12 + ucast (fr_len fr)\<rparr>)))"

definition cap_writer_imu :: "acc \<Rightarrow> cap_writer \<Rightarrow> imu_sample \<Rightarrow> u64 \<Rightarrow> int \<times> cap_writer" where
  "cap_writer_imu acc w s mono_ns =
     (let rc = \<lparr>ir_accel = map (\<lambda>i. is_accel s ! i) [0..<3], ir_gyro = map (\<lambda>i. is_gyro s ! i) [0..<3],
                ir_temp_c = is_temp_c s, ir_chip_ts = is_chip_ts s, ir_seq = is_seq s\<rparr>;
          rb = imu_rec_encode rc;
          (r, w) = cap_write_rec acc w CAP_REC_IMU 0 rb 36 mono_ns
      in if r \<noteq> 0 then (-1, w) else (0, w\<lparr>cw_n_imu := cw_n_imu w + 1\<rparr>))"

definition cap_writer_mag :: "acc \<Rightarrow> cap_writer \<Rightarrow> mag_sample \<Rightarrow> u64 \<Rightarrow> int \<times> cap_writer" where
  "cap_writer_mag acc w m mono_ns =
     (let rc = \<lparr>mr_field = map (\<lambda>i. ms_field m ! i) [0..<3], mr_wall_ns = ms_wall_ns m\<rparr>;
          rb = mag_rec_encode rc;
          flags = (if ms_valid m then CAP_MAGF_VALID else 0);
          (r, w) = cap_write_rec acc w CAP_REC_MAG flags rb 20 mono_ns
      in if r \<noteq> 0 then (-1, w) else (0, w\<lparr>cw_n_mag := cw_n_mag w + 1\<rparr>))"

definition cap_writer_mark :: "acc \<Rightarrow> cap_writer \<Rightarrow> u32 \<Rightarrow> u64 \<Rightarrow> int \<times> cap_writer" where
  "cap_writer_mark acc w code mono_ns =
     cap_write_rec acc w CAP_REC_MARK 0 (wire_put_u32 code) 4 mono_ns"

definition cap_writer_flush :: "bool \<Rightarrow> cap_writer \<Rightarrow> int" where
  "cap_writer_flush flushed w = (if cw_f w = None then -1 else if flushed then 0 else -1)"

definition cap_writer_close :: "cap_writer \<Rightarrow> cap_writer" where
  "cap_writer_close w = (case cw_f w of Some f \<Rightarrow> w\<lparr>cw_f := None\<rparr> | None \<Rightarrow> w)"

section \<open>The stream that is read\<close>

record cap_file =
  cf_bytes :: bytes
  cf_pos :: nat
  cf_bad :: "nat option"
  cf_seekable :: bool
  cf_error :: bool

definition cf_limit :: "cap_file \<Rightarrow> nat" where
  "cf_limit f = (case cf_bad f of None \<Rightarrow> length (cf_bytes f) | Some b \<Rightarrow> min b (length (cf_bytes f)))"

text \<open>\<open>fread(buf, n, 1, f)\<close>, with \<open>Some\<close> for a result of 1.\<close>

definition fread :: "nat \<Rightarrow> cap_file \<Rightarrow> bytes option \<times> cap_file" where
  "fread n f =
     (if cf_pos f + n \<le> cf_limit f
      then (Some (take n (drop (cf_pos f) (cf_bytes f))), f\<lparr>cf_pos := cf_pos f + n\<rparr>)
      else (None, f\<lparr>cf_pos := max (cf_pos f) (cf_limit f),
                    cf_error := cf_error f \<or> cf_limit f < length (cf_bytes f) \<and> cf_pos f < length (cf_bytes f)\<rparr>))"

definition fseek_set :: "nat \<Rightarrow> cap_file \<Rightarrow> bool \<times> cap_file" where
  "fseek_set off f = (if cf_seekable f then (True, f\<lparr>cf_pos := off\<rparr>) else (False, f))"

definition fseek_cur :: "nat \<Rightarrow> cap_file \<Rightarrow> bool \<times> cap_file" where
  "fseek_cur off f = (if cf_seekable f then (True, f\<lparr>cf_pos := cf_pos f + off\<rparr>) else (False, f))"

section \<open>The reader\<close>

record cap_reader =
  rd_f :: "cap_file option"
  rd_hdr :: cap_header

record cap_record =
  rec_type :: u8
  rec_mono_ns :: u64
  rec_imu :: imu_sample
  rec_mag :: mag_sample
  rec_mark :: u32

definition CAP_ERR_IO :: int where "CAP_ERR_IO = -1"
definition CAP_ERR_FORMAT :: int where "CAP_ERR_FORMAT = -2"
definition CAP_ERR_CRC :: int where "CAP_ERR_CRC = -3"

definition cap_header_zero :: cap_header where
  "cap_header_zero =
     \<lparr>hd_magic = replicate 8 0, hd_version = 0, hd_hdr_len = 0, hd_imu_odr_hz = 0,
      hd_imu_driver = replicate 16 0, hd_mag_driver = replicate 16 0, hd_imud_version = replicate 16 0,
      hd_t0_wall_ns = 0, hd_t0_mono_ns = 0, hd_imu_odr_mhz = 0, hd_file_flags = 0,
      hd_reserved = replicate 18 0\<rparr>"

text \<open>The argument is what \<open>fopen\<close> gave.\<close>

definition cap_reader_open :: "cap_file option \<Rightarrow> int \<times> cap_reader" where
  "cap_reader_open fo =
     (case fo of
        None \<Rightarrow> (CAP_ERR_IO, \<lparr>rd_f = None, rd_hdr = cap_header_zero\<rparr>)
      | Some f \<Rightarrow>
          (case fread 104 f of
             (None, f) \<Rightarrow> (CAP_ERR_FORMAT, \<lparr>rd_f = None, rd_hdr = cap_header_zero\<rparr>)
           | (Some hb, f) \<Rightarrow>
               (let hdr = hdr_decode hb
                in if hd_magic hdr \<noteq> CAP_MAGIC \<or> hd_version hdr \<noteq> CAP_FMT_VERSION \<or> hd_hdr_len hdr < 104
                   then (CAP_ERR_FORMAT, \<lparr>rd_f = None, rd_hdr = hdr\<rparr>)
                   else (case fseek_set (unat (hd_hdr_len hdr)) f of
                           (False, f) \<Rightarrow> (CAP_ERR_IO, \<lparr>rd_f = None, rd_hdr = hdr\<rparr>)
                         | (True, f) \<Rightarrow> (0, \<lparr>rd_f = Some f, rd_hdr = hdr\<rparr>)))))"

definition short_rc :: "cap_file \<Rightarrow> int" where
  "short_rc f = (if cf_error f then -1 else 0)"

definition read_payload :: "bytes \<Rightarrow> u16 \<Rightarrow> cap_file \<Rightarrow> int \<times> bytes \<times> cap_file" where
  "read_payload dst len f =
     (let want = (if unat len < length dst then unat len else length dst)
      in case (if want \<noteq> 0 then fread want f else (Some [], f)) of
           (None, f) \<Rightarrow> (short_rc f, dst, f)
         | (Some s, f) \<Rightarrow>
             (let dst = s @ drop want dst
              in if unat len > want
                 then (case fseek_cur (unat len - want) f of
                         (False, f) \<Rightarrow> (short_rc f, dst, f) | (True, f) \<Rightarrow> (1, dst, f))
                 else (1, dst, f)))"

text \<open>
  The loop of \<open>read_payload_crc\<close>, 128 bytes at a time; a chunk is copied to the
  destination as long as there is room.
\<close>

definition dst_fill :: "bytes \<Rightarrow> nat \<Rightarrow> bytes \<Rightarrow> bytes \<times> nat" where
  "dst_fill d got scratch =
     (if got < length d
      then let tk = (if length d - got < length scratch then length d - got else length scratch)
           in (take got d @ take tk scratch @ drop (got + tk) d, got + tk)
      else (d, got))"

function read_crc_body ::
    "nat \<Rightarrow> u32 \<Rightarrow> bytes \<Rightarrow> nat \<Rightarrow> cap_file \<Rightarrow> u32 option \<times> bytes \<times> cap_file" where
  "read_crc_body body crc d got f =
     (if body = 0 then (Some crc, d, f)
      else let chunk = (if body < 128 then body else 128)
           in case fread chunk f of
                (None, f) \<Rightarrow> (None, d, f)
              | (Some scratch, f) \<Rightarrow>
                  read_crc_body (body - chunk) (crc32_ieee_update crc scratch)
                    (fst (dst_fill d got scratch)) (snd (dst_fill d got scratch)) f)"
  by pat_completeness auto
termination by (relation "measure fst") auto

declare read_crc_body.simps [simp del]

lemma read_crc_body_0 [simp]: "read_crc_body 0 crc d got f = (Some crc, d, f)"
  by (subst read_crc_body.simps) simp

definition read_payload_crc :: "bytes \<Rightarrow> u16 \<Rightarrow> bytes \<Rightarrow> cap_file \<Rightarrow> int \<times> bytes \<times> cap_file" where
  "read_payload_crc dst len fb f =
     (let body = unat (ucast len - 4 :: u32);
          crc = crc32_ieee_update CRC32_INIT (take 12 fb)
      in case read_crc_body body crc dst 0 f of
           (None, dst, f) \<Rightarrow> (short_rc f, dst, f)
         | (Some crc, dst, f) \<Rightarrow>
             (case fread 4 f of
                (None, f) \<Rightarrow> (short_rc f, dst, f)
              | (Some tb, f) \<Rightarrow>
                  (if crc32_ieee_final crc = wire_get_u32 tb then 1 else -2, dst, f)))"

definition cap_read_payload ::
    "cap_header \<Rightarrow> bytes \<Rightarrow> cap_frame \<Rightarrow> bytes \<Rightarrow> cap_file \<Rightarrow> int \<times> bytes \<times> cap_file" where
  "cap_read_payload hdr fb fr dst f =
     (let crc = (fr_flags fr AND CAP_F_CRC32 \<noteq> 0);
          min_len = length dst + (if crc then 4 else 0)
      in if \<not> crc \<and> hd_file_flags hdr AND CAP_HF_CRC32 \<noteq> 0 then (-2, dst, f)
         else if unat (fr_len fr) < min_len then (0, dst, f)
         else if crc then read_payload_crc dst (fr_len fr) fb f
         else read_payload dst (fr_len fr) f)"

definition rc_to_err :: "int \<Rightarrow> int" where
  "rc_to_err rc = (if rc = -2 then CAP_ERR_CRC else if rc < 0 then CAP_ERR_IO else 0)"

definition imu_zero :: imu_sample where
  "imu_zero = \<lparr>is_accel = [0, 0, 0], is_accel_raw = [0, 0, 0], is_gyro = [0, 0, 0], is_temp_c = 0,
     is_chip_ts = 0, is_seq = 0, is_read_done_ns = 0, is_host_done_ns = 0\<rparr>"

definition mag_zero :: mag_sample where
  "mag_zero = \<lparr>ms_field = [0, 0, 0], ms_field_raw = [0, 0, 0], ms_wall_ns = 0, ms_valid = False,
     ms_calibrated = False\<rparr>"

text \<open>One turn of the loop of \<open>cap_reader_next\<close>; \<open>None\<close> for a record that is skipped.\<close>

definition cap_next_step ::
    "cap_header \<Rightarrow> cap_file \<Rightarrow> cap_record \<Rightarrow> int option \<times> cap_record \<times> cap_file" where
  "cap_next_step hdr f out =
     (case fread 12 f of
        (None, f) \<Rightarrow> (Some (if cf_error f then CAP_ERR_IO else 0), out, f)
      | (Some fb, f) \<Rightarrow>
          (let fr = frame_decode fb;
               out = \<lparr>rec_type = fr_type fr, rec_mono_ns = fr_mono_ns fr, rec_imu = imu_zero,
                      rec_mag = mag_zero, rec_mark = 0\<rparr>
           in if fr_type fr = CAP_REC_IMU
              then (case cap_read_payload hdr fb fr (replicate 36 0) f of (rc, rb, f) \<Rightarrow>
                      if rc \<le> 0 then (Some (rc_to_err rc), out, f)
                      else let r = imu_rec_decode rb
                           in (Some 1,
                               out\<lparr>rec_imu := imu_zero\<lparr>is_accel := ir_accel r, is_gyro := ir_gyro r,
                                 is_temp_c := ir_temp_c r, is_chip_ts := ir_chip_ts r, is_seq := ir_seq r\<rparr>\<rparr>, f))
              else if fr_type fr = CAP_REC_MAG
              then (case cap_read_payload hdr fb fr (replicate 20 0) f of (rc, rb, f) \<Rightarrow>
                      if rc \<le> 0 then (Some (rc_to_err rc), out, f)
                      else let r = mag_rec_decode rb
                           in (Some 1,
                               out\<lparr>rec_mag := mag_zero\<lparr>ms_field := mr_field r, ms_wall_ns := mr_wall_ns r,
                                 ms_valid := (fr_flags fr AND CAP_MAGF_VALID \<noteq> 0), ms_calibrated := False\<rparr>\<rparr>, f))
              else if fr_type fr = CAP_REC_MARK
              then (case cap_read_payload hdr fb fr (replicate 4 0) f of (rc, rb, f) \<Rightarrow>
                      if rc \<le> 0 then (Some (rc_to_err rc), out, f)
                      else (Some 1, out\<lparr>rec_mark := wire_get_u32 rb\<rparr>, f))
              else (case cap_read_payload hdr fb fr [] f of (rc, rb, f) \<Rightarrow>
                      if rc \<le> 0 then (Some (rc_to_err rc), out, f) else (None, out, f))))"

text \<open>The stream only ever moves forward, so the reading loops end.\<close>

definition forward :: "cap_file \<Rightarrow> cap_file \<Rightarrow> bool" where
  "forward f f' \<longleftrightarrow> cf_bytes f' = cf_bytes f \<and> cf_pos f \<le> cf_pos f'"

lemma forward_refl [simp]: "forward f f"
  by (simp add: forward_def)

lemma forward_trans: "forward f g \<Longrightarrow> forward g h \<Longrightarrow> forward f h"
  by (simp add: forward_def)

lemma fread_cases:
  assumes "fread n f = (r, f')"
  shows "forward f f'" and "r = Some s \<Longrightarrow> cf_pos f' = cf_pos f + n \<and> cf_pos f' \<le> length (cf_bytes f)"
  using assms by (auto simp: fread_def forward_def cf_limit_def split: if_splits option.splits)

lemma fseek_forward: "fseek_cur off f = (r, f') \<Longrightarrow> forward f f'"
  by (auto simp: fseek_cur_def forward_def split: if_splits)

lemma read_payload_forward:
  assumes "read_payload dst len f = (rc, d, f')"
  shows "forward f f'"
proof -
  let ?want = "if unat len < length dst then unat len else length dst"
  obtain r f1 where r: "(if ?want \<noteq> 0 then fread ?want f else (Some [], f)) = (r, f1)" by fastforce
  then have f1: "forward f f1" by (auto split: if_split_asm dest: fread_cases)
  show ?thesis
  proof (cases r)
    case None
    with assms r f1 show ?thesis by (simp add: read_payload_def del: if_cancel split del: if_split)
  next
    case (Some s)
    obtain b f2 where k: "fseek_cur (unat len - ?want) f1 = (b, f2)" by fastforce
    from assms r Some k have "f' = f1 \<or> f' = f2"
      by (auto simp add: read_payload_def Let_def simp del: if_cancel split: if_split_asm bool.split_asm)
    with f1 fseek_forward [OF k] show ?thesis by (auto dest: forward_trans)
  qed
qed

lemma read_crc_body_forward: "read_crc_body body crc d got f = (c, d', f') \<Longrightarrow> forward f f'"
proof (induction body crc d got f rule: read_crc_body.induct)
  case (1 body crc d got f)
  let ?chunk = "if body < 128 then body else 128"
  obtain s f1 where r: "fread ?chunk f = (s, f1)" by fastforce
  show ?case
  proof (cases "body = 0 \<or> s = None")
    case True
    with 1(2) r fread_cases(1) [OF r] show ?thesis
      by (cases "body = 0") (auto simp: read_crc_body.simps [of body] Let_def)
  next
    case False
    then obtain x where x: "s = Some x" "body \<noteq> 0" by auto
    with 1(2) r have "read_crc_body (body - ?chunk) (crc32_ieee_update crc x)
        (fst (dst_fill d got x)) (snd (dst_fill d got x)) f1 = (c, d', f')"
      by (simp add: read_crc_body.simps [of body] Let_def)
    from 1(1) [OF x(2) refl r [symmetric] x(1) this] fread_cases(1) [OF r]
    show ?thesis by (rule forward_trans [rotated])
  qed
qed

lemma cap_read_payload_forward:
  assumes "cap_read_payload hdr fb fr dst f = (rc, d, f')"
  shows "forward f f'"
  using assms fread_cases(1) read_crc_body_forward read_payload_forward
  by (fastforce simp: cap_read_payload_def read_payload_crc_def Let_def
      split: if_splits prod.splits option.splits intro: forward_trans)

definition left :: "cap_file \<Rightarrow> nat" where
  "left f = length (cf_bytes f) - cf_pos f"

lemma cap_next_step_left:
  assumes "cap_next_step hdr f out = (r, out', f')"
  shows "forward f f'" and "r = None \<or> r = Some 1 \<Longrightarrow> left f' < left f"
proof -
  obtain s f1 where r: "fread 12 f = (s, f1)" by fastforce
  note f1 = fread_cases [OF r]
  have "forward f1 f'" if "s = Some fb" for fb
    using assms r that
    by (auto simp: cap_next_step_def Let_def split: if_splits prod.splits dest: cap_read_payload_forward)
  moreover have "f' = f1 \<and> r \<noteq> None \<and> r \<noteq> Some 1" if "s = None"
    using assms r that by (auto simp: cap_next_step_def CAP_ERR_IO_def split: if_splits)
  ultimately show "forward f f'" "r = None \<or> r = Some 1 \<Longrightarrow> left f' < left f"
    using f1 by (cases s; force simp: forward_def left_def)+
qed

function cap_next_loop :: "cap_header \<Rightarrow> cap_file \<Rightarrow> cap_record \<Rightarrow> int \<times> cap_record \<times> cap_file" where
  "cap_next_loop hdr f out =
     (case cap_next_step hdr f out of
        (Some rc, out, f) \<Rightarrow> (rc, out, f)
      | (None, out, f) \<Rightarrow> cap_next_loop hdr f out)"
  by pat_completeness auto
termination
  by (relation "measure (\<lambda>(hdr, f, out). left f)") (auto dest: cap_next_step_left(2) [OF sym])

declare cap_next_loop.simps [simp del]

lemma cap_next_loop_left:
  "cap_next_loop hdr f out = (rc, out', f') \<Longrightarrow> forward f f' \<and> (rc = 1 \<longrightarrow> left f' < left f)"
proof (induction hdr f out rule: cap_next_loop.induct)
  case (1 hdr f out)
  obtain r out1 f1 where r: "cap_next_step hdr f out = (r, out1, f1)" by (metis prod_cases3)
  note st = cap_next_step_left [OF r]
  show ?case
  proof (cases r)
    case None
    with 1(2) r have "cap_next_loop hdr f1 out1 = (rc, out', f')"
      by (simp add: cap_next_loop.simps [of hdr f])
    from 1(1) [OF r [symmetric] None refl this] st None show ?thesis
      by (auto dest: forward_trans)
  next
    case (Some k)
    with 1(2) r st show ?thesis by (simp add: cap_next_loop.simps [of hdr f])
  qed
qed

definition cap_reader_next :: "cap_reader \<Rightarrow> cap_record \<Rightarrow> int \<times> cap_record \<times> cap_reader" where
  "cap_reader_next r out =
     (case rd_f r of
        None \<Rightarrow> (CAP_ERR_IO, out, r)
      | Some f \<Rightarrow> (case cap_next_loop (rd_hdr r) f out of
                    (rc, out, f) \<Rightarrow> (rc, out, r\<lparr>rd_f := Some f\<rparr>)))"

definition cap_reader_rewind :: "cap_reader \<Rightarrow> int \<times> cap_reader" where
  "cap_reader_rewind r =
     (case rd_f r of
        None \<Rightarrow> (-1, r)
      | Some f \<Rightarrow> (case fseek_set (unat (hd_hdr_len (rd_hdr r))) f of
                    (ok, f) \<Rightarrow> (if ok then 0 else -1, r\<lparr>rd_f := Some f\<rparr>)))"

definition cap_reader_close :: "cap_reader \<Rightarrow> cap_reader" where
  "cap_reader_close r = (case rd_f r of Some f \<Rightarrow> r\<lparr>rd_f := None\<rparr> | None \<Rightarrow> r)"

end
