(* ===== verification/CaptureProps.thy ===== *)
theory CaptureProps
  imports Capture "HOL-Library.Sublist"
begin

text \<open>
  What the capture format promises: what was written is read back, an interrupted writer costs
  only the record it was in, records of newer writers are skipped, and damage inside a record
  is reported.
\<close>

section \<open>The structs read back\<close>

lemma wire_get_prefix:
  "wire_get_u16 (a # b # r) = wire_get_u16 [a, b]"
  "wire_get_u32 (a # b # c # d # r) = wire_get_u32 [a, b, c, d]"
  by (simp_all add: wire_get_u16_def wire_get_u32_def)

lemma length_hdr_encode [simp]:
  assumes "length (hd_magic h) = 8" "length (hd_imu_driver h) = 16" "length (hd_mag_driver h) = 16"
    "length (hd_imud_version h) = 16"
  shows "length (hdr_encode h) = 104"
  using assms by (simp add: hdr_encode_def)

lemma hdr_decode_encode:
  assumes "length (hd_magic h) = 8" "length (hd_imu_driver h) = 16" "length (hd_mag_driver h) = 16"
    "length (hd_imud_version h) = 16"
  shows "hdr_decode (hdr_encode h) = h\<lparr>hd_reserved := replicate 18 0\<rparr>"
  using assms by (simp add: hdr_decode_def hdr_encode_def wire_simps)

lemma length_put_str [simp]: "0 < n \<Longrightarrow> length (put_str n s) = n"
  by (simp add: put_str_def Let_def)

lemma length_frame_encode [simp]: "length (frame_encode f) = 12"
  by (simp add: frame_encode_def)

lemma frame_decode_encode [simp]: "frame_decode (frame_encode f) = f"
  by (simp add: frame_decode_def frame_encode_def wire_simps)

lemma upt_3: "[0..<3] = [0, 1, 2]"
  by (simp add: upt_rec)

lemma list_3: "length xs = 3 \<Longrightarrow> [xs ! 0, xs ! Suc 0, xs ! 2] = xs"
  by (auto simp: numeral_3_eq_3 length_Suc_conv)

lemma length_imu_rec_encode [simp]: "length (imu_rec_encode r) = 36"
  by (simp add: imu_rec_encode_def upt_3)

lemma imu_rec_decode_encode:
  "imu_rec_decode (imu_rec_encode r) =
     r\<lparr>ir_accel := map ((!) (ir_accel r)) [0..<3], ir_gyro := map ((!) (ir_gyro r)) [0..<3]\<rparr>"
  by (simp add: imu_rec_decode_def imu_rec_encode_def upt_3 wire_simps)

lemma length_mag_rec_encode [simp]: "length (mag_rec_encode r) = 20"
  by (simp add: mag_rec_encode_def upt_3)

lemma mag_rec_decode_encode:
  "mag_rec_decode (mag_rec_encode r) = r\<lparr>mr_field := map ((!) (mr_field r)) [0..<3]\<rparr>"
  by (simp add: mag_rec_decode_def mag_rec_encode_def upt_3 wire_simps)

section \<open>Reading from where the stream stands\<close>

definition at :: "cap_file \<Rightarrow> bytes \<Rightarrow> bool" where
  "at f ys \<longleftrightarrow> cf_bad f = None \<and> \<not> cf_error f \<and> cf_pos f \<le> length (cf_bytes f) \<and>
     drop (cf_pos f) (cf_bytes f) = ys"

lemma fread_at: "at f (xs @ ys) \<Longrightarrow> n = length xs \<Longrightarrow> \<exists>f'. fread n f = (Some xs, f') \<and> at f' ys"
proof -
  assume a: "at f (xs @ ys)" "n = length xs"
  then have l: "length (cf_bytes f) - cf_pos f = length xs + length ys"
    by (metis at_def length_append length_drop)
  have "drop (n + cf_pos f) (cf_bytes f) = ys"
    using a by (simp add: at_def flip: drop_drop)
  with a l show ?thesis by (auto simp: fread_def cf_limit_def at_def add.commute)
qed

lemma fread_short: "at f ys \<Longrightarrow> length ys < n \<Longrightarrow> \<exists>f'. fread n f = (None, f') \<and> at f' []"
  by (auto simp: fread_def cf_limit_def at_def)

lemma dst_fill_list:
  assumes "got \<le> length d"
  shows "fst (dst_fill d got s) = take got d @ take (length d - got) s @ drop (got + length s) d"
    and "snd (dst_fill d got s) = min (got + length s) (length d)"
  using assms by (auto simp: dst_fill_def Let_def)

lemma dst_fill_twice:
  assumes "got \<le> length d"
  shows "take (snd (dst_fill d got a)) (fst (dst_fill d got a)) @
      take (length (fst (dst_fill d got a)) - snd (dst_fill d got a)) b @
      drop (snd (dst_fill d got a) + length b) (fst (dst_fill d got a)) =
    take got d @ take (length d - got) (a @ b) @ drop (got + length (a @ b)) d"
proof (cases "got + length a \<le> length d")
  case True
  moreover have "a = [] \<or> got < length d" using True by (cases a) auto
  ultimately show ?thesis using assms by (auto simp: dst_fill_list min_def ac_simps)
next
  case False
  with assms show ?thesis by (auto simp: dst_fill_list min_def intro: diff_le_mono)
qed

lemma read_crc_body_at:
  assumes "at f (bs @ ys)" "got \<le> length d"
  shows "\<exists>f'. read_crc_body (length bs) crc d got f =
      (Some (crc32_ieee_update crc bs), take got d @ take (length d - got) bs @ drop (got + length bs) d, f')
    \<and> at f' ys"
  using assms
proof (induction "length bs" arbitrary: bs crc d got f rule: less_induct)
  case less
  show ?case
  proof (cases "bs = []")
    case True
    with less.prems show ?thesis by simp
  next
    case False
    let ?k = "if length bs < 128 then length bs else 128"
    let ?a = "take ?k bs" and ?b = "drop ?k bs"
    have k: "length ?a = ?k" "0 < ?k" "?k \<le> length bs" using False by auto
    have "at f (?a @ ?b @ ys)" using less.prems(1) by (metis append.assoc append_take_drop_id)
    from fread_at [OF this k(1) [symmetric]]
    obtain f1 where f1: "fread ?k f = (Some ?a, f1)" "at f1 (?b @ ys)" by blast
    let ?d = "fst (dst_fill d got ?a)" and ?g = "snd (dst_fill d got ?a)"
    have g: "?g \<le> length ?d" using less.prems(2) by (auto simp: dst_fill_list)
    have "length ?b < length bs" using k by simp
    from less.hyps [OF this f1(2) g, of "crc32_ieee_update crc ?a"]
    obtain f' where f': "read_crc_body (length ?b) (crc32_ieee_update crc ?a) ?d ?g f1 =
        (Some (crc32_ieee_update (crc32_ieee_update crc ?a) ?b),
         take ?g ?d @ take (length ?d - ?g) ?b @ drop (?g + length ?b) ?d, f')" "at f' ys"
      by blast
    have d: "take ?g ?d @ take (length ?d - ?g) ?b @ drop (?g + length ?b) ?d =
        take got d @ take (length d - got) bs @ drop (got + length bs) d"
      using dst_fill_twice [OF less.prems(2), of ?a ?b] by simp
    have "crc32_ieee_update (crc32_ieee_update crc ?a) ?b = crc32_ieee_update crc bs"
      by (simp flip: crc_update_append)
    with f' f1 d k False show ?thesis
      by (subst read_crc_body.simps) (simp add: Let_def)
  qed
qed

lemma read_crc_body_short:
  "at f ys \<Longrightarrow> length ys < body \<Longrightarrow> \<exists>d' f'. read_crc_body body crc d got f = (None, d', f') \<and> at f' []"
proof (induction body arbitrary: ys crc d got f rule: less_induct)
  case (less body)
  let ?k = "if body < 128 then body else 128"
  show ?case
  proof (cases "length ys < ?k")
    case True
    with fread_short [OF less.prems(1) True] less.prems(2) show ?thesis
      by (subst read_crc_body.simps) (auto simp: Let_def)
  next
    case False
    then have "at f (take ?k ys @ drop ?k ys)" "?k = length (take ?k ys)" using less.prems by auto
    from fread_at [OF this] obtain f1 where f1: "fread ?k f = (Some (take ?k ys), f1)" "at f1 (drop ?k ys)"
      by blast
    have "body - ?k < body" "length (drop ?k ys) < body - ?k" "body \<noteq> 0"
      using less.prems(2) False by auto
    with less.IH [OF this(1) f1(2) this(2)] f1 show ?thesis
      by (subst read_crc_body.simps) (simp add: Let_def)
  qed
qed

text \<open>
  One record as the reader sees it: 12 bytes of frame, the payload and the stored checksum.
\<close>

lemma at_not_error: "at f ys \<Longrightarrow> short_rc f = 0"
  by (simp add: at_def short_rc_def)

lemma body_length: "unat (ucast (of_nat (n + 4) :: u16) - 4 :: u32) = n" if "n + 4 < 2 ^ 16"
proof -
  have w: "(ucast (of_nat m :: u16) :: u32) = of_nat m" if "m < 2 ^ 16" for m
    using that by (simp add: unsigned_of_nat take_bit_nat_eq_self)
  have "(ucast (of_nat (n + 4) :: u16) - 4 :: u32) = of_nat n" unfolding w [OF that] by simp
  then show ?thesis using that by (simp add: unsigned_of_nat take_bit_nat_eq_self)
qed

lemma read_payload_crc_at:
  assumes "at f (body @ tb @ ys)" "length tb = 4" "length body + 4 < 2 ^ 16" "length dst \<le> length body"
    "length fb = 12" "len = of_nat (length body + 4)"
  shows "\<exists>f'. read_payload_crc dst len fb f =
      (if crc32_ieee_final (crc32_ieee_update CRC32_INIT (fb @ body)) = wire_get_u32 tb then 1 else -2,
       take (length dst) body, f') \<and> at f' ys"
proof -
  from read_crc_body_at [OF assms(1), of 0 dst "crc32_ieee_update CRC32_INIT fb"]
  obtain f1 where f1: "read_crc_body (length body) (crc32_ieee_update CRC32_INIT fb) dst 0 f =
      (Some (crc32_ieee_update CRC32_INIT (fb @ body)), take (length dst) body, f1)" "at f1 (tb @ ys)"
    using assms(4) by auto
  from fread_at [OF f1(2) assms(2) [symmetric]] f1(1) assms(5) body_length [OF assms(3)]
  show ?thesis by (auto simp: read_payload_crc_def assms(6))
qed

lemma read_payload_crc_short:
  assumes "at f ys" "length ys < n + 4" "n + 4 < 2 ^ 16"
  shows "\<exists>d f'. read_payload_crc dst (of_nat (n + 4)) fb f = (0, d, f')"
proof (cases "length ys < n")
  case True
  from read_crc_body_short [OF assms(1) True, of "crc32_ieee_update CRC32_INIT (take 12 fb)" dst 0]
  show ?thesis
    unfolding read_payload_crc_def body_length [OF assms(3)]
    by (auto simp: Let_def at_not_error)
next
  case False
  then have a: "at f (take n ys @ drop n ys)" and l: "length (take n ys) = n" using assms(1) by auto
  have "length (drop n ys) < 4" using assms(2) False by simp
  with read_crc_body_at [OF a, of 0 dst "crc32_ieee_update CRC32_INIT (take 12 fb)"] fread_short [of _ "drop n ys" 4]
  show ?thesis unfolding read_payload_crc_def body_length [OF assms(3)] l
    by (fastforce simp: Let_def at_not_error)
qed

section \<open>Records in a file\<close>

text \<open>The bytes of a record: what \<open>cap_write_rec\<close> puts into the file.\<close>

definition rec_frame :: "u8 \<Rightarrow> u8 \<Rightarrow> nat \<Rightarrow> u64 \<Rightarrow> cap_frame" where
  "rec_frame type flags n mono_ns =
     \<lparr>fr_type = type, fr_flags = flags OR CAP_F_CRC32, fr_len = of_nat (n + 4), fr_mono_ns = mono_ns\<rparr>"

definition rec_crc :: "bytes \<Rightarrow> u32" where
  "rec_crc d = crc32_ieee_final (crc32_ieee_update CRC32_INIT d)"

definition rec_bytes :: "u8 \<Rightarrow> u8 \<Rightarrow> bytes \<Rightarrow> u64 \<Rightarrow> bytes" where
  "rec_bytes type flags payload mono_ns =
     (let fb = frame_encode (rec_frame type flags (length payload) mono_ns)
      in fb @ payload @ wire_put_u32 (rec_crc (fb @ payload)))"

lemma length_rec_bytes [simp]: "length (rec_bytes type flags payload mono_ns) = 16 + length payload"
  by (simp add: rec_bytes_def Let_def)

lemma crc_flag_set: "(flags OR CAP_F_CRC32) AND CAP_F_CRC32 \<noteq> (0 :: u8)"
proof -
  have "bit ((flags OR CAP_F_CRC32) AND CAP_F_CRC32) 7"
    by (simp add: bit_simps CAP_F_CRC32_def)
  then show ?thesis by (metis bit_0_eq bot_apply bot_bool_def)
qed

text \<open>The size of the struct the reader wants for a type.\<close>

definition rec_want :: "u8 \<Rightarrow> nat" where
  "rec_want t = (if t = CAP_REC_IMU then 36 else if t = CAP_REC_MAG then 20
                 else if t = CAP_REC_MARK then 4 else 0)"

text \<open>What a turn of the loop makes of a payload that was read.\<close>

definition rec_result :: "cap_frame \<Rightarrow> bytes \<Rightarrow> int option \<times> cap_record" where
  "rec_result fr rb =
     (let out = \<lparr>rec_type = fr_type fr, rec_mono_ns = fr_mono_ns fr, rec_imu = imu_zero,
                 rec_mag = mag_zero, rec_mark = 0\<rparr>
      in if fr_type fr = CAP_REC_IMU
         then (let r = imu_rec_decode rb in (Some 1, out\<lparr>rec_imu :=
                 imu_zero\<lparr>is_accel := ir_accel r, is_gyro := ir_gyro r, is_temp_c := ir_temp_c r,
                   is_chip_ts := ir_chip_ts r, is_seq := ir_seq r\<rparr>\<rparr>))
         else if fr_type fr = CAP_REC_MAG
         then (let r = mag_rec_decode rb in (Some 1, out\<lparr>rec_mag :=
                 mag_zero\<lparr>ms_field := mr_field r, ms_wall_ns := mr_wall_ns r,
                   ms_valid := (fr_flags fr AND CAP_MAGF_VALID \<noteq> 0), ms_calibrated := False\<rparr>\<rparr>))
         else if fr_type fr = CAP_REC_MARK then (Some 1, out\<lparr>rec_mark := wire_get_u32 rb\<rparr>)
         else (None, out))"

lemma cap_next_step_frame:
  assumes "fread 12 f = (Some fb, f1)" "fr = frame_decode fb"
    "cap_read_payload hdr fb fr (replicate (rec_want (fr_type fr)) 0) f1 = (rc, rb, f2)"
  shows "\<exists>out'. cap_next_step hdr f out =
    (if rc \<le> 0 then (Some (rc_to_err rc), out', f2)
     else (fst (rec_result fr rb), snd (rec_result fr rb), f2))"
  using assms
  by (auto simp: cap_next_step_def rec_want_def rec_result_def Let_def cap_consts)

text \<open>
  A record in the file, cut at the places the reader cuts it: the length in its frame is right and
  covers the struct its type asks for.
\<close>

definition rec_shape :: "bytes \<Rightarrow> bytes \<Rightarrow> bytes \<Rightarrow> bool" where
  "rec_shape fb body tb \<longleftrightarrow> length fb = 12 \<and> length tb = 4 \<and> length body + 4 < 2 ^ 16 \<and>
     fr_len (frame_decode fb) = of_nat (length body + 4) \<and>
     rec_want (fr_type (frame_decode fb)) \<le> length body"

definition crc_flagged :: "bytes \<Rightarrow> bool" where
  "crc_flagged fb \<longleftrightarrow> fr_flags (frame_decode fb) AND CAP_F_CRC32 \<noteq> 0"

lemma rec_shape_len:
  "rec_shape fb body tb \<Longrightarrow> unat (fr_len (frame_decode fb)) = length body + 4"
  by (simp add: rec_shape_def unsigned_of_nat take_bit_nat_eq_self del: of_nat_add)

lemma cap_read_payload_flagged:
  "rec_shape fb body tb \<Longrightarrow> crc_flagged fb \<Longrightarrow> fr = frame_decode fb \<Longrightarrow>
     cap_read_payload hdr fb fr (replicate (rec_want (fr_type fr)) 0) f =
     read_payload_crc (replicate (rec_want (fr_type fr)) 0) (fr_len fr) fb f"
  using rec_shape_len [of fb body tb] by (simp add: cap_read_payload_def crc_flagged_def rec_shape_def)

lemma cap_next_step_good:
  assumes "at f (fb @ body @ tb @ ys)" "rec_shape fb body tb" "crc_flagged fb"
    and "rec_crc (fb @ body) = wire_get_u32 tb" "fr = frame_decode fb"
  shows "\<exists>f'. cap_next_step hdr f out =
     (fst (rec_result fr (take (rec_want (fr_type fr)) body)),
      snd (rec_result fr (take (rec_want (fr_type fr)) body)), f') \<and> at f' ys"
proof -
  have l: "length fb = 12" "length tb = 4" "length body + 4 < 2 ^ 16"
      "length (replicate (rec_want (fr_type fr)) 0 :: bytes) \<le> length body" "fr_len fr = of_nat (length body + 4)"
    using assms(2) by (simp_all add: rec_shape_def assms(5))
  from fread_at [OF assms(1) l(1) [symmetric]]
  obtain f1 where f1: "fread 12 f = (Some fb, f1)" "at f1 (body @ tb @ ys)" by blast
  from read_payload_crc_at [OF f1(2) l(2,3,4,1,5)] assms(4)
  obtain f2 where f2: "cap_read_payload hdr fb fr (replicate (rec_want (fr_type fr)) 0) f1 =
      (1, take (rec_want (fr_type fr)) body, f2)" "at f2 ys"
    unfolding cap_read_payload_flagged [OF assms(2,3,5)] by (auto simp: rec_crc_def)
  from cap_next_step_frame [OF f1(1) assms(5) f2(1), of out] f2(2) show ?thesis by simp
qed

text \<open>Damage: a wrong checksum, or a record that has lost the flag its file promises.\<close>

lemma cap_next_step_damaged:
  assumes "at f (fb @ body @ tb @ ys)" "rec_shape fb body tb"
    and "hd_file_flags hdr AND CAP_HF_CRC32 \<noteq> 0" "rec_crc (fb @ body) \<noteq> wire_get_u32 tb"
  shows "\<exists>out' f'. cap_next_step hdr f out = (Some CAP_ERR_CRC, out', f')"
proof -
  define fr where "fr = frame_decode fb"
  let ?dst = "replicate (rec_want (fr_type fr)) 0 :: bytes"
  have l: "length fb = 12" "length tb = 4" "length body + 4 < 2 ^ 16"
      "length ?dst \<le> length body" "fr_len fr = of_nat (length body + 4)"
    using assms(2) by (simp_all add: rec_shape_def fr_def)
  from fread_at [OF assms(1) l(1) [symmetric]]
  obtain f1 where f1: "fread 12 f = (Some fb, f1)" "at f1 (body @ tb @ ys)" by blast
  have "\<exists>d f2. cap_read_payload hdr fb fr ?dst f1 = (-2, d, f2)"
  proof (cases "crc_flagged fb")
    case True
    from read_payload_crc_at [OF f1(2) l(2,3,4,1,5)] assms(4) show ?thesis
      unfolding cap_read_payload_flagged [OF assms(2) True fr_def] by (auto simp: rec_crc_def)
  next
    case False
    with assms(3) show ?thesis by (simp add: cap_read_payload_def crc_flagged_def fr_def)
  qed
  then obtain d f2 where "cap_read_payload hdr fb fr ?dst f1 = (-2, d, f2)" by blast
  from cap_next_step_frame [OF f1(1) fr_def this, of out] show ?thesis by (auto simp: rc_to_err_def)
qed

text \<open>The same without the struct: a damaged type may ask for more than the record holds, and then the reader stops
  without an error, if the record still says that it carries a checksum.\<close>

lemma cap_next_step_refused:
  assumes "at f (fb @ body @ tb @ ys)" "length fb = 12" "length tb = 4" "length body + 4 < 2 ^ 16"
    and "fr_len (frame_decode fb) = of_nat (length body + 4)"
    and "hd_file_flags hdr AND CAP_HF_CRC32 \<noteq> 0" "rec_crc (fb @ body) \<noteq> wire_get_u32 tb"
  shows "\<exists>out' f'. cap_next_step hdr f out =
    (Some (if crc_flagged fb \<and> length body < rec_want (fr_type (frame_decode fb)) then 0 else CAP_ERR_CRC), out', f')"
proof (cases "rec_want (fr_type (frame_decode fb)) \<le> length body")
  case True
  then have "rec_shape fb body tb" using assms(2-5) by (simp add: rec_shape_def)
  from cap_next_step_damaged [OF assms(1) this assms(6,7)] True show ?thesis by simp
next
  case False
  define fr where "fr = frame_decode fb"
  let ?dst = "replicate (rec_want (fr_type fr)) 0 :: bytes"
  from fread_at [OF assms(1) assms(2) [symmetric]]
  obtain f1 where f1: "fread 12 f = (Some fb, f1)" by blast
  have l: "unat (fr_len fr) = length body + 4"
    unfolding fr_def assms(5) using assms(4) by (simp add: unsigned_of_nat take_bit_nat_eq_self del: of_nat_add)
  have "cap_read_payload hdr fb fr ?dst f1 = (if crc_flagged fb then 0 else -2, ?dst, f1)"
    using False assms(6) l by (simp add: cap_read_payload_def crc_flagged_def fr_def Let_def)
  from cap_next_step_frame [OF f1 fr_def this, of out] show ?thesis
    using False by (auto simp: rc_to_err_def)
qed

text \<open>A record cut off by the end of the file ends the stream cleanly.\<close>

lemma cap_next_step_torn:
  assumes "at f ys" "rec_shape fb body tb" "crc_flagged fb"
    and "strict_prefix ys (fb @ body @ tb)"
  shows "\<exists>out' f'. cap_next_step hdr f out = (Some 0, out', f')"
proof (cases "length ys < 12")
  case True
  from fread_short [OF assms(1) True] show ?thesis by (auto simp: cap_next_step_def at_def)
next
  case False
  define fr where "fr = frame_decode fb"
  have l: "length fb = 12" "length tb = 4" "length body + 4 < 2 ^ 16" "fr_len fr = of_nat (length body + 4)"
    using assms(2) by (simp_all add: rec_shape_def fr_def)
  have "length ys < 12 + (length body + 4)" using prefix_length_less [OF assms(4)] l by simp
  then have r: "length (drop 12 ys) < length body + 4" using False by simp
  from assms(4) obtain zs where "fb @ body @ tb = ys @ zs" by (auto simp: strict_prefix_def prefix_def)
  then have "take 12 ys = fb" using l False
    by (metis append_eq_append_conv_if length_take min.absorb2 not_less take_append_exact append_take_drop_id)
  then have "at f (fb @ drop 12 ys)" using assms(1) by (metis append_take_drop_id)
  from fread_at [OF this l(1) [symmetric]]
  obtain f1 where f1: "fread 12 f = (Some fb, f1)" "at f1 (drop 12 ys)" by blast
  let ?dst = "replicate (rec_want (fr_type fr)) 0 :: bytes"
  from read_payload_crc_short [OF f1(2) r l(3), of ?dst fb]
  obtain d f2 where f2: "cap_read_payload hdr fb fr ?dst f1 = (0, d, f2)"
    unfolding cap_read_payload_flagged [OF assms(2,3) fr_def] l(4) by blast
  from cap_next_step_frame [OF f1(1) fr_def f2, of out] show ?thesis by (auto simp: rc_to_err_def)
qed

section \<open>Items\<close>

text \<open>
  What a capture holds. The extension bytes are fields a newer writer appends to a payload;
  this version of the writer appends none and writes no other types.
\<close>

datatype cap_item =
    Imu_item imu_sample u64 bytes
  | Mag_item mag_sample u64 bytes
  | Mark_item u32 u64 bytes
  | Other_item u8 u8 u64 bytes

fun item_wf :: "cap_item \<Rightarrow> bool" where
  "item_wf (Imu_item s t e) \<longleftrightarrow> imu_sample_wf s \<and> length e \<le> 65000"
| "item_wf (Mag_item m t e) \<longleftrightarrow> mag_sample_wf m \<and> length e \<le> 65000"
| "item_wf (Mark_item c t e) \<longleftrightarrow> length e \<le> 65000"
| "item_wf (Other_item k fl t e) \<longleftrightarrow> k \<notin> {CAP_REC_IMU, CAP_REC_MAG, CAP_REC_MARK} \<and> length e \<le> 65000"

fun item_type :: "cap_item \<Rightarrow> u8" where
  "item_type (Imu_item s t e) = CAP_REC_IMU"
| "item_type (Mag_item m t e) = CAP_REC_MAG"
| "item_type (Mark_item c t e) = CAP_REC_MARK"
| "item_type (Other_item k fl t e) = k"

fun item_flags :: "cap_item \<Rightarrow> u8" where
  "item_flags (Mag_item m t e) = (if ms_valid m then CAP_MAGF_VALID else 0)"
| "item_flags (Other_item k fl t e) = fl"
| "item_flags _ = 0"

fun item_payload :: "cap_item \<Rightarrow> bytes" where
  "item_payload (Imu_item s t e) =
     imu_rec_encode \<lparr>ir_accel = is_accel s, ir_gyro = is_gyro s, ir_temp_c = is_temp_c s,
       ir_chip_ts = is_chip_ts s, ir_seq = is_seq s\<rparr> @ e"
| "item_payload (Mag_item m t e) =
     mag_rec_encode \<lparr>mr_field = ms_field m, mr_wall_ns = ms_wall_ns m\<rparr> @ e"
| "item_payload (Mark_item c t e) = wire_put_u32 c @ e"
| "item_payload (Other_item k fl t e) = e"

fun item_mono :: "cap_item \<Rightarrow> u64" where
  "item_mono (Imu_item s t e) = t" | "item_mono (Mag_item m t e) = t"
| "item_mono (Mark_item c t e) = t" | "item_mono (Other_item k fl t e) = t"

definition item_fb :: "cap_item \<Rightarrow> bytes" where
  "item_fb i = frame_encode (rec_frame (item_type i) (item_flags i) (length (item_payload i)) (item_mono i))"

definition item_tb :: "cap_item \<Rightarrow> bytes" where
  "item_tb i = wire_put_u32 (rec_crc (item_fb i @ item_payload i))"

definition item_bytes :: "cap_item \<Rightarrow> bytes" where
  "item_bytes i = item_fb i @ item_payload i @ item_tb i"

text \<open>What the reader makes of an item: the fields the driver delivered, everything else zero.\<close>

fun item_record :: "cap_item \<Rightarrow> cap_record option" where
  "item_record (Imu_item s t e) =
     Some \<lparr>rec_type = CAP_REC_IMU, rec_mono_ns = t,
       rec_imu = s\<lparr>is_accel_raw := [0, 0, 0], is_read_done_ns := 0, is_host_done_ns := 0\<rparr>,
       rec_mag = mag_zero, rec_mark = 0\<rparr>"
| "item_record (Mag_item m t e) =
     Some \<lparr>rec_type = CAP_REC_MAG, rec_mono_ns = t, rec_imu = imu_zero,
       rec_mag = m\<lparr>ms_field_raw := [0, 0, 0], ms_calibrated := False\<rparr>, rec_mark = 0\<rparr>"
| "item_record (Mark_item c t e) =
     Some \<lparr>rec_type = CAP_REC_MARK, rec_mono_ns = t, rec_imu = imu_zero, rec_mag = mag_zero,
       rec_mark = c\<rparr>"
| "item_record (Other_item k fl t e) = None"

lemma item_shape:
  assumes "item_wf i"
  shows "rec_shape (item_fb i) (item_payload i) (item_tb i)" "crc_flagged (item_fb i)"
    "rec_crc (item_fb i @ item_payload i) = wire_get_u32 (item_tb i)"
  using assms
  by (cases i; simp add: rec_shape_def item_fb_def item_tb_def rec_frame_def rec_want_def cap_consts
      crc_flagged_def crc_flag_set [unfolded cap_consts] wire_simps)+

lemma valid_flag: "((if v then CAP_MAGF_VALID else 0) OR CAP_F_CRC32) AND CAP_MAGF_VALID \<noteq> 0 \<longleftrightarrow> v"
  by (cases v) (simp_all add: cap_consts)

lemma cap_types_distinct [simp]:
  "CAP_REC_IMU \<noteq> CAP_REC_MAG" "CAP_REC_MAG \<noteq> CAP_REC_IMU" "CAP_REC_IMU \<noteq> CAP_REC_MARK"
  "CAP_REC_MARK \<noteq> CAP_REC_IMU" "CAP_REC_MAG \<noteq> CAP_REC_MARK" "CAP_REC_MARK \<noteq> CAP_REC_MAG"
  by (simp_all add: cap_consts)

lemma item_result:
  assumes "item_wf i"
  shows "rec_result (frame_decode (item_fb i)) (take (rec_want (item_type i)) (item_payload i)) =
    (case item_record i of Some r \<Rightarrow> (Some 1, r)
     | None \<Rightarrow> (None, snd (rec_result (frame_decode (item_fb i)) [])))"
proof (cases i)
  case (Imu_item s t e)
  with assms show ?thesis
    by (cases s) (simp add: item_fb_def rec_result_def rec_want_def rec_frame_def Let_def
        imu_rec_decode_encode imu_sample_wf_def imu_zero_def upt_3 list_3)
next
  case (Mag_item m t e)
  with assms show ?thesis
    by (cases m) (simp add: item_fb_def rec_result_def rec_want_def rec_frame_def Let_def
        mag_rec_decode_encode mag_sample_wf_def mag_zero_def upt_3 list_3 valid_flag)
next
  case (Mark_item c t e)
  then show ?thesis
    by (simp add: item_fb_def rec_result_def rec_want_def rec_frame_def Let_def cap_consts wire_simps)
next
  case (Other_item k fl t e)
  with assms show ?thesis by (simp add: item_fb_def rec_result_def rec_want_def rec_frame_def Let_def)
qed

lemma item_type_decode [simp]: "fr_type (frame_decode (item_fb i)) = item_type i"
  by (simp add: item_fb_def rec_frame_def)

section \<open>Reading a whole file\<close>

definition rec_zero :: cap_record where
  "rec_zero = \<lparr>rec_type = 0, rec_mono_ns = 0, rec_imu = imu_zero, rec_mag = mag_zero, rec_mark = 0\<rparr>"

text \<open>A caller that asks for records until it is told there are none, and the code that ended it.\<close>

function cap_read_all :: "cap_header \<Rightarrow> cap_file \<Rightarrow> cap_record list \<times> int" where
  "cap_read_all hdr f =
     (case cap_next_loop hdr f rec_zero of
        (rc, out, f) \<Rightarrow> if rc = 1 then (let (rs, rc) = cap_read_all hdr f in (out # rs, rc)) else ([], rc))"
  by pat_completeness auto
termination
  by (relation "measure (\<lambda>(hdr, f). left f)") (auto dest: cap_next_loop_left [OF sym])

declare cap_read_all.simps [simp del]

text \<open>The \<open>out\<close> buffer a loop starts with does not matter to a record that is delivered.\<close>

lemma cap_next_step_out:
  "cap_next_step hdr f out = (Some rc, r, f') \<Longrightarrow> rc \<noteq> 1 \<Longrightarrow> \<exists>r'. cap_next_step hdr f out2 = (Some rc, r', f')"
  "cap_next_step hdr f out = (Some 1, r, f') \<Longrightarrow> cap_next_step hdr f out2 = (Some 1, r, f')"
  "cap_next_step hdr f out = (None, r, f') \<Longrightarrow> cap_next_step hdr f out2 = (None, r, f')"
proof -
  have 1: "fst (fread 12 f) \<noteq> None \<Longrightarrow> cap_next_step hdr f out = cap_next_step hdr f out2"
    by (auto simp: cap_next_step_def split: prod.splits)
  have 2: "fst (fread 12 f) = None \<Longrightarrow> \<exists>k f1. (k = 0 \<or> k = -1) \<and>
      cap_next_step hdr f out = (Some k, out, f1) \<and> cap_next_step hdr f out2 = (Some k, out2, f1)"
    by (auto simp: cap_next_step_def CAP_ERR_IO_def split: prod.splits)
  show "cap_next_step hdr f out = (Some rc, r, f') \<Longrightarrow> rc \<noteq> 1 \<Longrightarrow>
      \<exists>r'. cap_next_step hdr f out2 = (Some rc, r', f')"
    using 1 2 by (cases "fst (fread 12 f)") force+
  show "cap_next_step hdr f out = (Some 1, r, f') \<Longrightarrow> cap_next_step hdr f out2 = (Some 1, r, f')"
    using 1 2 by (cases "fst (fread 12 f)") force+
  show "cap_next_step hdr f out = (None, r, f') \<Longrightarrow> cap_next_step hdr f out2 = (None, r, f')"
    using 1 2 by (cases "fst (fread 12 f)") force+
qed

lemma cap_read_all_done:
  assumes "cap_next_step hdr f rec_zero = (Some rc, r, f')" "rc \<noteq> 1"
  shows "cap_read_all hdr f = ([], rc)"
  using assms by (simp add: cap_read_all.simps [of hdr f] cap_next_loop.simps [of hdr f])

lemma cap_read_all_item:
  assumes "cap_next_step hdr f rec_zero = (Some 1, r, f')"
  shows "cap_read_all hdr f = (r # fst (cap_read_all hdr f'), snd (cap_read_all hdr f'))"
  using assms
  by (simp add: cap_read_all.simps [of hdr f] cap_next_loop.simps [of hdr f] split: prod.splits)

lemma cap_read_all_skip:
  assumes "cap_next_step hdr f rec_zero = (None, r, f')"
  shows "cap_read_all hdr f = cap_read_all hdr f'"
proof -
  have n: "cap_next_loop hdr f rec_zero = cap_next_loop hdr f' r"
    using assms by (simp add: cap_next_loop.simps [of hdr f])
  obtain s r1 f1 where st: "cap_next_step hdr f' r = (s, r1, f1)" by (metis prod_cases3)
  have "fst (cap_next_loop hdr f' r) = fst (cap_next_loop hdr f' rec_zero) \<and>
      (fst (cap_next_loop hdr f' r) = 1 \<longrightarrow> cap_next_loop hdr f' r = cap_next_loop hdr f' rec_zero)"
  proof (cases s)
    case None
    with st cap_next_step_out(3) [of hdr f' r r1 f1 rec_zero] show ?thesis
      by (simp add: cap_next_loop.simps [of hdr f'])
  next
    case (Some rc)
    with st cap_next_step_out(1) [of hdr f' r rc r1 f1 rec_zero] cap_next_step_out(2) [of hdr f' r r1 f1 rec_zero]
    show ?thesis by (cases "rc = 1") (auto simp: cap_next_loop.simps [of hdr f'])
  qed
  then show ?thesis
    by (cases "fst (cap_next_loop hdr f' r) = 1")
      (auto simp: cap_read_all.simps [of hdr f] cap_read_all.simps [of hdr f'] n split: prod.splits)
qed

definition item_records :: "cap_item list \<Rightarrow> cap_record list" where
  "item_records is = List.map_filter item_record is"

lemma item_records_simps [simp]:
  "item_records [] = []"
  "item_records (i # is) = (case item_record i of Some r \<Rightarrow> r # item_records is | None \<Rightarrow> item_records is)"
  by (simp_all add: item_records_def List.map_filter_def split: option.split)

lemma cap_read_all_items:
  assumes "at f (concat (map item_bytes is) @ ys)" "\<forall>i \<in> set is. item_wf i"
  shows "\<exists>f'. at f' ys \<and> cap_read_all hdr f =
    (item_records is @ fst (cap_read_all hdr f'), snd (cap_read_all hdr f'))"
  using assms
proof (induction "is" arbitrary: f)
  case (Cons i "is")
  then have "at f (item_bytes i @ concat (map item_bytes is) @ ys)" and w: "item_wf i" by simp_all
  from cap_next_step_good [OF this(1) [unfolded item_bytes_def [of i] append.assoc] item_shape [OF w] refl,
      of hdr rec_zero]
  obtain f1 where f1: "at f1 (concat (map item_bytes is) @ ys)"
    "cap_next_step hdr f rec_zero =
       (fst (rec_result (frame_decode (item_fb i)) (take (rec_want (item_type i)) (item_payload i))),
        snd (rec_result (frame_decode (item_fb i)) (take (rec_want (item_type i)) (item_payload i))), f1)"
    by auto
  from Cons.IH [OF f1(1)] Cons.prems(2) obtain f' where f': "at f' ys"
    "cap_read_all hdr f1 = (item_records is @ fst (cap_read_all hdr f'), snd (cap_read_all hdr f'))" by auto
  show ?case
  proof (cases "item_record i")
    case None
    with f1(2) have "cap_read_all hdr f = cap_read_all hdr f1"
      unfolding item_result [OF w] by (intro cap_read_all_skip) simp
    with f' None show ?thesis by auto
  next
    case (Some r)
    with f1(2) have "cap_next_step hdr f rec_zero = (Some 1, r, f1)"
      unfolding item_result [OF w] by simp
    from cap_read_all_item [OF this] f' Some show ?thesis by auto
  qed
qed auto

lemma cap_read_all_end: "at f [] \<Longrightarrow> cap_read_all hdr f = ([], 0)"
  using fread_short [of f "[]" 12]
  by (auto intro!: cap_read_all_done [of hdr f 0 rec_zero "snd (fread 12 f)"] simp: cap_next_step_def at_def)

section \<open>What the writer leaves behind\<close>

text \<open>
  However few bytes the system accepts, a record is a prefix of its bytes in the file, the whole
  of them exactly when the write reports success.
\<close>

definition extends :: "bytes \<Rightarrow> int \<times> cap_writer \<Rightarrow> bytes \<Rightarrow> bool" where
  "extends bs res new \<longleftrightarrow> (\<exists>ys. prefix ys new \<and> cw_f (snd res) = Some (bs @ ys) \<and>
     (fst res = 0 \<longrightarrow> ys = new) \<and> (fst res \<noteq> 0 \<longrightarrow> strict_prefix ys new))"

lemma fwrite_cases:
  assumes "fwrite acc buf f = (ok, f')"
  shows "\<exists>ys. prefix ys buf \<and> f' = f @ ys \<and> (ok \<longleftrightarrow> ys = buf)"
  using assms
  by (auto simp: fwrite_def Let_def min_def take_is_prefix intro!: exI [of _ "take (min (acc f buf) (length buf)) buf"]
      split: if_splits)

lemma strict_prefix_extend: "prefix ys a \<Longrightarrow> ys \<noteq> a \<Longrightarrow> strict_prefix ys (a @ b)"
  by (auto simp: strict_prefix_def prefix_def)

lemma strict_prefix_same: "prefix ys b \<Longrightarrow> ys \<noteq> b \<Longrightarrow> strict_prefix (a @ ys) (a @ b)"
  by (auto simp: strict_prefix_def)

lemma strict_prefix_mid: "prefix ys b \<Longrightarrow> ys \<noteq> b \<Longrightarrow> strict_prefix (a @ ys) (a @ b @ c)"
  by (auto simp: strict_prefix_def prefix_def)

lemma cap_write_rec_extends:
  assumes "cw_f w = Some bs" "length payload + 4 < 2 ^ 16"
  shows "extends bs (cap_write_rec acc w k fl payload (of_nat (length payload)) t) (rec_bytes k fl payload t)"
proof -
  let ?fb = "frame_encode (rec_frame k fl (length payload) t)"
  let ?tb = "wire_put_u32 (rec_crc (?fb @ payload))"
  have n: "unat (of_nat (length payload) :: u16) = length payload"
    using assms(2) by (simp add: unsigned_of_nat take_bit_nat_eq_self)
  have z: "(of_nat (length payload) :: u16) = 0 \<longleftrightarrow> payload = []"
    using n by (metis length_0_conv unat_eq_zero)
  have fb: "frame_encode \<lparr>fr_type = k, fr_flags = fl OR CAP_F_CRC32,
      fr_len = of_nat (length payload) + 4, fr_mono_ns = t\<rparr> = ?fb"
    by (simp add: rec_frame_def)
  have tb: "wire_put_u32 (crc32_ieee_final (crc32_ieee_update (crc32_ieee_update CRC32_INIT ?fb) payload)) = ?tb"
    by (simp add: rec_crc_def)
  have rb: "rec_bytes k fl payload t = ?fb @ payload @ ?tb" by (simp add: rec_bytes_def Let_def)
  obtain ok1 f1 where w1: "fwrite acc ?fb bs = (ok1, f1)" by fastforce
  obtain ok2 f2 where w2: "(if (of_nat (length payload) :: u16) \<noteq> 0 then fwrite acc payload f1 else (True, f1)) = (ok2, f2)"
    by fastforce
  obtain ok3 f3 where w3: "fwrite acc ?tb f2 = (ok3, f3)" by fastforce
  have eq: "cap_write_rec acc w k fl payload (of_nat (length payload)) t =
     (if \<not> ok1 then (-1, w\<lparr>cw_f := Some f1\<rparr>) else if \<not> ok2 then (-1, w\<lparr>cw_f := Some f2\<rparr>)
      else if \<not> ok3 then (-1, w\<lparr>cw_f := Some f3\<rparr>)
      else (0, w\<lparr>cw_f := Some f3, cw_bytes := cw_bytes w + 12 + ucast (of_nat (length payload) + 4 :: u16)\<rparr>))"
    by (simp only: cap_write_rec_def assms(1) Let_def n take_all [OF order_refl] fb tb w1 w2 w3
        option.case prod.case cap_frame.simps)
  obtain y1 where y1: "prefix y1 ?fb" "f1 = bs @ y1" "ok1 \<longleftrightarrow> y1 = ?fb" using fwrite_cases [OF w1] by blast
  obtain y2 where y2: "prefix y2 payload" "f2 = f1 @ y2" "ok2 \<longleftrightarrow> y2 = payload"
    using w2 fwrite_cases [of acc payload f1 ok2 f2] unfolding z by (cases "payload = []") auto
  obtain y3 where y3: "prefix y3 ?tb" "f3 = f2 @ y3" "ok3 \<longleftrightarrow> y3 = ?tb" using fwrite_cases [OF w3] by blast
  consider "\<not> ok1" | "ok1" "\<not> ok2" | "ok1" "ok2" "\<not> ok3" | "ok1" "ok2" "ok3" by blast
  then show ?thesis
  proof cases
    case 1
    with y1 show ?thesis unfolding extends_def eq rb
      by (intro exI [of _ y1]) (simp add: strict_prefix_extend)
  next
    case 2
    with y1 y2 show ?thesis unfolding extends_def eq rb
      by (intro exI [of _ "?fb @ y2"]) (simp add: strict_prefix_mid)
  next
    case 3
    with y1 y2 y3 show ?thesis unfolding extends_def eq rb
      by (intro exI [of _ "?fb @ payload @ y3"]) (simp add: strict_prefix_same)
  next
    case 4
    with y1 y2 y3 show ?thesis unfolding extends_def eq rb
      by (intro exI [of _ "?fb @ payload @ ?tb"]) simp
  qed
qed

text \<open>The three append calls of the writer, and a run of them that stops at the first failure.\<close>

fun writable :: "cap_item \<Rightarrow> bool" where
  "writable (Imu_item s t e) \<longleftrightarrow> e = []"
| "writable (Mag_item m t e) \<longleftrightarrow> e = []"
| "writable (Mark_item c t e) \<longleftrightarrow> e = []"
| "writable (Other_item k fl t e) \<longleftrightarrow> False"

fun cap_write_item :: "acc \<Rightarrow> cap_writer \<Rightarrow> cap_item \<Rightarrow> int \<times> cap_writer" where
  "cap_write_item acc w (Imu_item s t e) = cap_writer_imu acc w s t"
| "cap_write_item acc w (Mag_item m t e) = cap_writer_mag acc w m t"
| "cap_write_item acc w (Mark_item c t e) = cap_writer_mark acc w c t"
| "cap_write_item acc w (Other_item k fl t e) = (0, w)"

fun cap_write_all :: "acc \<Rightarrow> cap_writer \<Rightarrow> cap_item list \<Rightarrow> int \<times> cap_writer" where
  "cap_write_all acc w [] = (0, w)"
| "cap_write_all acc w (i # is) =
     (case cap_write_item acc w i of (rc, w) \<Rightarrow> if rc = 0 then cap_write_all acc w is else (rc, w))"

lemma item_bytes_rec: "item_bytes i = rec_bytes (item_type i) (item_flags i) (item_payload i) (item_mono i)"
  by (simp add: item_bytes_def rec_bytes_def item_fb_def item_tb_def Let_def)

lemma extends_cong:
  "extends bs res new \<Longrightarrow> cw_f (snd res') = cw_f (snd res) \<Longrightarrow> fst res' = 0 \<longleftrightarrow> fst res = 0 \<Longrightarrow>
     extends bs res' new"
  by (auto simp: extends_def)

lemma cap_write_item_extends:
  assumes "item_wf i" "writable i" "cw_f w = Some bs"
  shows "extends bs (cap_write_item acc w i) (item_bytes i)"
proof -
  have l: "length (item_payload i) + 4 < 2 ^ 16" using assms(1) by (cases i) auto
  note ext = cap_write_rec_extends [OF assms(3) l, of acc "item_type i" "item_flags i" "item_mono i",
      folded item_bytes_rec]
  show ?thesis
  proof (cases i)
    case (Imu_item s t e)
    with assms(1,2) have "map ((!) (is_accel s)) [0..<3] = is_accel s" "map ((!) (is_gyro s)) [0..<3] = is_gyro s"
      by (simp_all add: imu_sample_wf_def upt_3 list_3)
    with ext Imu_item assms(2) show ?thesis
      by (auto elim!: extends_cong simp: cap_writer_imu_def Let_def split: prod.splits)
  next
    case (Mag_item m t e)
    with assms(1,2) have "map ((!) (ms_field m)) [0..<3] = ms_field m"
      by (simp_all add: mag_sample_wf_def upt_3 list_3)
    with ext Mag_item assms(2) show ?thesis
      by (auto elim!: extends_cong simp: cap_writer_mag_def Let_def split: prod.splits)
  next
    case (Mark_item c t e)
    with ext assms(2) show ?thesis by (simp add: cap_writer_mark_def)
  qed (use assms(2) in simp)
qed

definition partial :: "cap_item list \<Rightarrow> nat \<Rightarrow> bytes \<Rightarrow> bool" where
  "partial is j ys \<longleftrightarrow>
     j < length is \<and> strict_prefix ys (item_bytes (is ! j)) \<or> j = length is \<and> ys = []"

lemma cap_write_all_bytes:
  assumes "\<forall>i \<in> set is. item_wf i \<and> writable i" "cw_f w = Some bs" "cap_write_all acc w is = (rc, w')"
  shows "\<exists>j ys. partial is j ys \<and> cw_f w' = Some (bs @ concat (map item_bytes (take j is)) @ ys) \<and>
    (rc = 0 \<longrightarrow> j = length is)"
  using assms
proof (induction "is" arbitrary: w bs)
  case (Cons i "is")
  obtain rc1 w1 where w1: "cap_write_item acc w i = (rc1, w1)" by fastforce
  have e: "extends bs (rc1, w1) (item_bytes i)"
    using cap_write_item_extends [of i w bs acc] Cons.prems w1 by simp
  show ?case
  proof (cases "rc1 = 0")
    case True
    with e have "cw_f w1 = Some (bs @ item_bytes i)" by (auto simp: extends_def)
    from Cons.IH [OF _ this] Cons.prems w1 True
    obtain j ys where "partial is j ys" "cw_f w' = Some ((bs @ item_bytes i) @ concat (map item_bytes (take j is)) @ ys)"
      "rc = 0 \<longrightarrow> j = length is"
      by auto
    then show ?thesis by (intro exI [of _ "Suc j"] exI [of _ ys]) (auto simp: partial_def)
  next
    case False
    with e w1 Cons.prems(3) show ?thesis by (auto simp: extends_def partial_def intro!: exI [of _ 0])
  qed
qed (simp add: partial_def)

section \<open>A file that is read as a whole\<close>

definition file_of :: "bytes \<Rightarrow> cap_file" where
  "file_of bs = \<lparr>cf_bytes = bs, cf_pos = 0, cf_bad = None, cf_seekable = True, cf_error = False\<rparr>"

text \<open>Open, then \<open>cap_reader_next\<close> until it does not return 1.\<close>

function cap_drain :: "cap_reader \<Rightarrow> cap_record list \<times> int" where
  "cap_drain r =
     (case cap_reader_next r rec_zero of
        (rc, out, r) \<Rightarrow> if rc = 1 then (let (rs, rc) = cap_drain r in (out # rs, rc)) else ([], rc))"
  by pat_completeness auto
termination
  by (relation "measure (\<lambda>r. case rd_f r of None \<Rightarrow> 0 | Some f \<Rightarrow> left f)")
    (auto simp: cap_reader_next_def CAP_ERR_IO_def dest: cap_next_loop_left split: option.splits prod.splits)

declare cap_drain.simps [simp del]

lemma cap_drain_all: "rd_f r = Some f \<Longrightarrow> cap_drain r = cap_read_all (rd_hdr r) f"
proof (induction r arbitrary: f rule: cap_drain.induct)
  case (1 r)
  obtain rc out f1 where n: "cap_next_loop (rd_hdr r) f rec_zero = (rc, out, f1)" by (metis prod_cases3)
  then have c: "cap_reader_next r rec_zero = (rc, out, r\<lparr>rd_f := Some f1\<rparr>)"
    using 1(2) by (simp add: cap_reader_next_def)
  show ?case
  proof (cases "rc = 1")
    case True
    from 1(1) [OF c [symmetric] refl True, of f1] c n True show ?thesis
      by (simp add: cap_drain.simps [of r] cap_read_all.simps [of _ f])
  next
    case False
    with c n show ?thesis by (simp add: cap_drain.simps [of r] cap_read_all.simps [of _ f])
  qed
qed

definition cap_load :: "bytes \<Rightarrow> int \<times> cap_header \<times> cap_record list \<times> int" where
  "cap_load bs = (case cap_reader_open (Some (file_of bs)) of
     (rc, r) \<Rightarrow> (rc, rd_hdr r, if rc = 0 then cap_drain r else ([], rc)))"

definition hdr_wf :: "cap_header \<Rightarrow> bool" where
  "hdr_wf h \<longleftrightarrow> hd_magic h = CAP_MAGIC \<and> hd_version h = CAP_FMT_VERSION \<and> 104 \<le> hd_hdr_len h \<and>
     length (hd_imu_driver h) = 16 \<and> length (hd_mag_driver h) = 16 \<and> length (hd_imud_version h) = 16 \<and>
     hd_reserved h = replicate 18 0"

lemma cap_load_header:
  assumes "hdr_wf h" "unat (hd_hdr_len h) = 104 + length hext"
  shows "\<exists>f. at f ys \<and> cap_load (hdr_encode h @ hext @ ys) = (0, h, cap_read_all h f)"
proof -
  have m: "length (hd_magic h) = 8" using assms(1) by (simp add: hdr_wf_def CAP_MAGIC_def)
  have l: "length (hdr_encode h) = 104" using assms(1) m by (simp add: hdr_wf_def)
  have d: "hdr_decode (hdr_encode h) = h" using assms(1) m by (simp add: hdr_wf_def hdr_decode_encode)
  let ?bs = "hdr_encode h @ hext @ ys"
  have "at (file_of ?bs) (hdr_encode h @ hext @ ys)" by (simp add: at_def file_of_def)
  then have f: "fread 104 (file_of ?bs) = (Some (hdr_encode h), (file_of ?bs)\<lparr>cf_pos := 104\<rparr>)"
    using l by (simp add: fread_def cf_limit_def file_of_def)
  let ?f = "(file_of ?bs)\<lparr>cf_pos := unat (hd_hdr_len h)\<rparr>"
  have "cap_reader_open (Some (file_of ?bs)) = (0, \<lparr>rd_f = Some ?f, rd_hdr = h\<rparr>)"
    using assms(1) d f by (simp add: cap_reader_open_def fseek_set_def hdr_wf_def file_of_def not_less)
  then have "cap_load ?bs = (0, h, cap_read_all h ?f)"
    by (simp add: cap_load_def cap_drain_all)
  moreover have "at ?f ys" using assms(2) l by (simp add: at_def file_of_def)
  ultimately show ?thesis by blast
qed

lemma hdr_wf_new: "hdr_wf (cap_new_header a b c d e f g)" "hd_hdr_len (cap_new_header a b c d e f g) = 104"
  by (simp_all add: hdr_wf_def cap_new_header_def)

text \<open>Cutting a file somewhere in its records: whole records, then a part of one.\<close>

lemma take_items:
  assumes "partial is j ys"
  shows "\<exists>k zs. partial is k zs \<and>
    take n (concat (map item_bytes (take j is)) @ ys) = concat (map item_bytes (take k is)) @ zs \<and>
    (length (concat (map item_bytes (take j is)) @ ys) \<le> n \<longrightarrow> k = j)"
  using assms
proof (induction "is" arbitrary: n j)
  case Nil
  then show ?case by (simp add: partial_def)
next
  case (Cons i0 "is")
  show ?case
  proof (cases j)
    case 0
    with Cons.prems have "strict_prefix (take n ys) (item_bytes i0)"
      by (auto simp: partial_def intro: prefix_order.le_less_trans take_is_prefix)
    with 0 show ?thesis by (intro exI [of _ 0] exI [of _ "take n ys"]) (simp add: partial_def)
  next
    case (Suc j')
    show ?thesis
    proof (cases "n < length (item_bytes i0)")
      case True
      then have "strict_prefix (take n (item_bytes i0)) (item_bytes i0)"
        by (auto simp: strict_prefix_def take_is_prefix)
      with True Suc show ?thesis
        by (intro exI [of _ 0] exI [of _ "take n (item_bytes i0)"]) (simp add: partial_def)
    next
      case False
      have "partial is j' ys" using Cons.prems Suc by (simp add: partial_def)
      from Cons.IH [OF this, of "n - length (item_bytes i0)"] obtain k zs where "partial is k zs"
        "take (n - length (item_bytes i0)) (concat (map item_bytes (take j' is)) @ ys) =
           concat (map item_bytes (take k is)) @ zs"
        "length (concat (map item_bytes (take j' is)) @ ys) \<le> n - length (item_bytes i0) \<longrightarrow> k = j'" by blast
      with False Suc show ?thesis
        by (intro exI [of _ "Suc k"] exI [of _ zs]) (auto simp: partial_def)
    qed
  qed
qed

lemma cap_read_all_torn:
  assumes "at f ys" "strict_prefix ys (item_bytes i)" "item_wf i"
  shows "cap_read_all hdr f = ([], 0)"
  using cap_next_step_torn [OF assms(1) item_shape(1,2) [OF assms(3)]] assms(2)
  by (metis cap_read_all_done item_bytes_def zero_neq_one)

section \<open>Properties\<close>

text \<open>
  C5: a reader of this version gets every record it knows out of a file that may come from a newer
  writer: a longer header, records of types it does not know between the others, and payloads with
  fields appended. It ends with a clean end of file.
\<close>

theorem capture_roundtrip:
  assumes "hdr_wf h" "unat (hd_hdr_len h) = 104 + length hext" "\<forall>i \<in> set is. item_wf i"
  shows "cap_load (hdr_encode h @ hext @ concat (map item_bytes is)) = (0, h, item_records is, 0)"
proof -
  from cap_load_header [OF assms(1,2), of "concat (map item_bytes is) @ []"]
  obtain f where f: "at f (concat (map item_bytes is) @ [])"
    "cap_load (hdr_encode h @ hext @ concat (map item_bytes is)) = (0, h, cap_read_all h f)" by auto
  from cap_read_all_items [OF f(1) assms(3), of h] f(2) cap_read_all_end show ?thesis by auto
qed

lemma capture_roundtrip_witness:
  "cap_load (hdr_encode (cap_new_header 833 833000 None None None 1 2) @ [] @
      concat (map item_bytes [Imu_item imu_zero 5 [], Other_item 9 0 6 [1, 2, 3], Mark_item 7 8 [4]])) =
     (0, cap_new_header 833 833000 None None None 1 2,
      item_records [Imu_item imu_zero 5 [], Other_item 9 0 6 [1, 2, 3], Mark_item 7 8 [4]], 0)"
  by (rule capture_roundtrip) (simp_all add: hdr_wf_new imu_sample_wf_def imu_zero_def cap_consts)

text \<open>
  C4: whatever the system does to the writer -- accept only a part of any write, stop the file at
  any length after the header -- the file opens and reads as the first \<open>k\<close> of the
  records that were written and then ends cleanly. These are all the records that are in the file
  as a whole: when every write succeeded and nothing was cut off, all of them.
\<close>

theorem capture_torn_tail:
  assumes "cap_writer_open acc True hz mhz imu mag ver t0 t1 = (0, w0)"
    and "\<forall>i \<in> set is. item_wf i \<and> writable i" "cap_write_all acc w0 is = (rc, w)" "cw_f w = Some bs"
    and "104 \<le> n"
  shows "\<exists>k \<le> length is.
      cap_load (take n bs) = (0, cap_new_header hz mhz imu mag ver t0 t1, item_records (take k is), 0) \<and>
      (k < length is \<longrightarrow> length (take n bs) < 104 + length (concat (map item_bytes (take (Suc k) is)))) \<and>
      (rc = 0 \<and> length bs \<le> n \<longrightarrow> k = length is)"
proof -
  let ?h = "cap_new_header hz mhz imu mag ver t0 t1"
  have "length (hd_magic ?h) = 8" "length (hd_imu_driver ?h) = 16" "length (hd_mag_driver ?h) = 16"
    "length (hd_imud_version ?h) = 16" by (simp_all add: cap_new_header_def CAP_MAGIC_def)
  then have l: "length (hdr_encode ?h) = 104" by simp
  have "cw_f w0 = Some (hdr_encode ?h)"
    using assms(1) fwrite_cases [of acc "hdr_encode ?h" "[]"]
    by (auto simp: cap_writer_open_def Let_def cap_writer_zero_def split: prod.splits if_splits)
  from cap_write_all_bytes [OF assms(2) this assms(3)] assms(4)
  obtain j ys where j: "partial is j ys" "bs = hdr_encode ?h @ concat (map item_bytes (take j is)) @ ys"
    "rc = 0 \<longrightarrow> j = length is" by auto
  from take_items [OF j(1), of "n - 104"] obtain k zs where k: "partial is k zs"
    "take (n - 104) (concat (map item_bytes (take j is)) @ ys) = concat (map item_bytes (take k is)) @ zs"
    "length (concat (map item_bytes (take j is)) @ ys) \<le> n - 104 \<longrightarrow> k = j" by blast
  then have t: "take n bs = hdr_encode ?h @ [] @ concat (map item_bytes (take k is)) @ zs"
    using j(2) l assms(5) by simp
  have kl: "k \<le> length is" using k(1) by (auto simp: partial_def)
  obtain f where f: "at f (concat (map item_bytes (take k is)) @ zs)" "cap_load (take n bs) = (0, ?h, cap_read_all ?h f)"
    unfolding t using cap_load_header [of ?h "[]" "concat (map item_bytes (take k is)) @ zs"] hdr_wf_new by auto
  have "\<forall>i \<in> set (take k is). item_wf i" using assms(2) by (meson in_set_takeD)
  from cap_read_all_items [OF f(1) this, of ?h] obtain f' where f': "at f' zs"
    "cap_read_all ?h f = (item_records (take k is) @ fst (cap_read_all ?h f'), snd (cap_read_all ?h f'))" by blast
  have "cap_read_all ?h f' = ([], 0)"
    using k(1) assms(2) cap_read_all_torn [OF f'(1)] cap_read_all_end f'(1) by (auto simp: partial_def)
  with f f' have "cap_load (take n bs) = (0, ?h, item_records (take k is), 0)" by simp
  moreover have "k < length is \<longrightarrow> length (take n bs) < 104 + length (concat (map item_bytes (take (Suc k) is)))"
    using k(1) l unfolding t by (auto simp: partial_def take_Suc_conv_app_nth dest: prefix_length_less)
  moreover have "rc = 0 \<and> length bs \<le> n \<longrightarrow> k = length is" using k(3) j l by auto
  ultimately show ?thesis using kl by blast
qed

lemma capture_torn_tail_witness:
  "\<exists>k \<le> 1. snd (snd (cap_load (take 120 (hdr_encode (cap_new_header 1 2 None None None 3 4) @ item_bytes (Mark_item 5 6 []))))) =
     (item_records (take k [Mark_item 5 6 []]), 0)"
proof -
  let ?acc = "\<lambda>f b. length b" and ?h = "cap_new_header 1 2 None None None 3 4"
  have o: "cap_writer_open ?acc True 1 2 None None None 3 4 =
      (0, cap_writer_zero\<lparr>cw_f := Some (hdr_encode ?h), cw_bytes := 104\<rparr>)"
    by (simp add: cap_writer_open_def fwrite_def Let_def)
  obtain rc w where w: "cap_write_all ?acc (cap_writer_zero\<lparr>cw_f := Some (hdr_encode ?h), cw_bytes := 104\<rparr>)
      [Mark_item 5 6 []] = (rc, w)" by fastforce
  then have "cw_f w = Some (hdr_encode ?h @ item_bytes (Mark_item 5 6 []))"
    by (auto simp: cap_writer_mark_def cap_write_rec_def fwrite_def Let_def item_bytes_rec rec_bytes_def
        rec_frame_def rec_crc_def)
  from capture_torn_tail [OF o _ w this, of 120] show ?thesis by auto
qed

text \<open>
  C6: damage inside a record that leaves its length field alone, a burst of at most four bytes, is never read as data,
  whatever the damage is -- also when it hits the type or takes away the bit that says there is a checksum. The records
  before it come out, and then the reader reports a checksum error, with one exception: when the damaged type asks for
  a struct larger than the record and the bit is still there, the reader stops as if the file ended there.
\<close>

theorem capture_damage_refused:
  assumes "hdr_wf h" "unat (hd_hdr_len h) = 104 + length hext" "hd_file_flags h AND CAP_HF_CRC32 \<noteq> 0"
    and "\<forall>i \<in> set is. item_wf i" "item_wf i"
    and "item_bytes i = pre @ p @ post" "bad = pre @ q @ post" "length p = length q" "length p \<le> 4" "p \<noteq> q"
    and "bad ! 2 = item_bytes i ! 2" "bad ! 3 = item_bytes i ! 3"
  shows "cap_load (hdr_encode h @ hext @ concat (map item_bytes is) @ bad @ rest) =
    (0, h, item_records is, if crc_flagged (take 12 bad) \<and> length bad < rec_want (bad ! 0) + 16 then 0 else CAP_ERR_CRC)"
proof -
  let ?n = "length (item_payload i)"
  define fb where "fb = take 12 bad"
  define body where "body = take ?n (drop 12 bad)"
  define tb where "tb = drop (12 + ?n) bad"
  have lb: "length bad = 16 + ?n"
    using assms(6,7,8) length_rec_bytes by (metis item_bytes_rec length_append)
  have b: "bad = fb @ body @ tb"
    by (simp add: fb_def body_def tb_def) (metis append_take_drop_id drop_drop add.commute)
  have l: "length fb = 12" "length body = ?n" "length tb = 4" using lb by (simp_all add: fb_def body_def tb_def)
  have it: "item_bytes i = item_fb i @ item_payload i @ item_tb i" "length (item_fb i) = 12" "length (item_tb i) = 4"
    by (simp_all add: item_bytes_def item_fb_def item_tb_def)
  have "fr_len (frame_decode fb) = fr_len (frame_decode (item_fb i))"
    using assms(11,12) l it(2) unfolding b it(1)
    by (simp add: frame_decode_def wire_get_u16_def nth_append)
  moreover have "fr_type (frame_decode fb) = bad ! 0"
    using l by (simp add: b frame_decode_def wire_get_u8_def nth_append)
  ultimately have sh: "fr_len (frame_decode fb) = of_nat (length body + 4)" "length body + 4 < 2 ^ 16"
    "fr_type (frame_decode fb) = bad ! 0"
    using item_shape(1) [OF assms(5)] l lb by (simp_all add: rec_shape_def)
  have "rec_crc (fb @ body) \<noteq> wire_get_u32 tb"
    unfolding rec_crc_def
  proof (rule crc_stored_burst)
    show "crc32_ieee_final (crc32_ieee_update CRC32_INIT (item_fb i @ item_payload i)) = wire_get_u32 (item_tb i)"
      using item_shape(3) [OF assms(5)] by (simp add: rec_crc_def)
    show "(item_fb i @ item_payload i) @ item_tb i = pre @ p @ post" using assms(6) it(1) by simp
    show "(fb @ body) @ tb = pre @ q @ post" using assms(7) b by simp
  qed (use it l assms in simp_all)
  note crc = this
  from cap_load_header [OF assms(1,2), of "concat (map item_bytes is) @ bad @ rest"]
  obtain f where f: "at f (concat (map item_bytes is) @ bad @ rest)"
    "cap_load (hdr_encode h @ hext @ concat (map item_bytes is) @ bad @ rest) = (0, h, cap_read_all h f)" by blast
  from cap_read_all_items [OF f(1) assms(4), of h] obtain f' where f': "at f' (fb @ body @ tb @ rest)"
    "cap_read_all h f = (item_records is @ fst (cap_read_all h f'), snd (cap_read_all h f'))" by (auto simp: b)
  have short: "length body < rec_want (bad ! 0) \<longleftrightarrow> length bad < rec_want (bad ! 0) + 16" using l lb by simp
  from cap_next_step_refused [OF f'(1) l(1,3) sh(2,1) assms(3) crc, of rec_zero, unfolded sh(3) short]
  have "cap_read_all h f' = ([], if crc_flagged fb \<and> length bad < rec_want (bad ! 0) + 16 then 0 else CAP_ERR_CRC)"
    by (auto intro: cap_read_all_done simp: CAP_ERR_CRC_def)
  with f f' show ?thesis by (simp add: fb_def)
qed

lemma capture_damage_refused_witness:
  "cap_load (hdr_encode (cap_new_header 1 2 None None None 3 4) @ [] @
      concat (map item_bytes [Mark_item 7 1 []]) @
      (item_fb (Mark_item 5 6 []) @ [4, 0, 0, 0] @ item_tb (Mark_item 5 6 [])) @ [1, 2]) =
    (0, cap_new_header 1 2 None None None 3 4, item_records [Mark_item 7 1 []], CAP_ERR_CRC)"
proof -
  let ?bad = "item_fb (Mark_item 5 6 []) @ [4, 0, 0, 0] @ item_tb (Mark_item 5 6 [])"
  have l: "length (item_fb (Mark_item 5 6 [])) = 12" "length (item_tb (Mark_item 5 6 [])) = 4"
    by (simp_all add: item_fb_def item_tb_def)
  have "?bad ! 0 = CAP_REC_MARK"
    using l by (simp add: nth_append) (simp add: item_fb_def frame_encode_def wire_put_u8_def rec_frame_def)
  then have whole: "\<not> length ?bad < rec_want (?bad ! 0) + 16" using l by (simp add: rec_want_def cap_consts)
  have "item_bytes (Mark_item 5 6 []) = item_fb (Mark_item 5 6 []) @ [5, 0, 0, 0] @ item_tb (Mark_item 5 6 [])"
    by (simp add: item_bytes_def wire_put_u32_def)
  moreover have "?bad ! 2 = item_bytes (Mark_item 5 6 []) ! 2" "?bad ! 3 = item_bytes (Mark_item 5 6 []) ! 3"
    using l by (simp_all add: item_bytes_def nth_append)
  moreover have "hd_file_flags (cap_new_header 1 2 None None None 3 4) AND CAP_HF_CRC32 \<noteq> 0"
    by (simp add: cap_new_header_def CAP_HF_CRC32_def)
  ultimately show ?thesis
    using capture_damage_refused [of "cap_new_header 1 2 None None None 3 4" "[]" "[Mark_item 7 1 []]" "Mark_item 5 6 []"
        "item_fb (Mark_item 5 6 [])" "[5, 0, 0, 0]" "item_tb (Mark_item 5 6 [])" ?bad "[4, 0, 0, 0]" "[1, 2]"] whole
    by (simp add: hdr_wf_new)
qed

text \<open>
  Damage that does reach the length field can go unreported: a frame whose length is too small
  for the struct of its type ends the file as if it had been complete, so every record behind it
  is lost without an error.
\<close>

theorem capture_short_length_is_silent:
  assumes "hdr_wf h" "unat (hd_hdr_len h) = 104 + length hext" "\<forall>i \<in> set is. item_wf i"
    and "length fb = 12" "crc_flagged fb"
    and "unat (fr_len (frame_decode fb)) < rec_want (fr_type (frame_decode fb)) + 4"
  shows "cap_load (hdr_encode h @ hext @ concat (map item_bytes is) @ fb @ rest) = (0, h, item_records is, 0)"
proof -
  from cap_load_header [OF assms(1,2), of "concat (map item_bytes is) @ fb @ rest"]
  obtain f where f: "at f (concat (map item_bytes is) @ fb @ rest)"
    "cap_load (hdr_encode h @ hext @ concat (map item_bytes is) @ fb @ rest) = (0, h, cap_read_all h f)" by blast
  from cap_read_all_items [OF f(1) assms(3), of h] obtain f' where f': "at f' (fb @ rest)"
    "cap_read_all h f = (item_records is @ fst (cap_read_all h f'), snd (cap_read_all h f'))" by blast
  define fr where "fr = frame_decode fb"
  from fread_at [OF f'(1) assms(4) [symmetric]] obtain f1 where f1: "fread 12 f' = (Some fb, f1)" by blast
  have "cap_read_payload h fb fr (replicate (rec_want (fr_type fr)) 0) f1 =
      (0, replicate (rec_want (fr_type fr)) 0, f1)"
    using assms(5,6) by (simp add: cap_read_payload_def crc_flagged_def fr_def)
  from cap_next_step_frame [OF f1 fr_def this, of rec_zero] have "cap_read_all h f' = ([], 0)"
    by (auto intro: cap_read_all_done simp: rc_to_err_def)
  with f f' show ?thesis by simp
qed

lemma capture_short_length_is_silent_witness:
  "cap_load (hdr_encode (cap_new_header 1 2 None None None 3 4) @ [] @ concat (map item_bytes [Mark_item 7 1 []]) @
      frame_encode (rec_frame CAP_REC_IMU 0 4 9) @
      (drop 12 (item_bytes (Imu_item imu_zero 9 [])) @ item_bytes (Mark_item 8 2 []))) =
    (0, cap_new_header 1 2 None None None 3 4, item_records [Mark_item 7 1 []], 0)"
  by (rule capture_short_length_is_silent)
    (simp_all add: hdr_wf_new crc_flagged_def rec_frame_def rec_want_def CAP_F_CRC32_def)

end
