(* ===== verification/Tap.thy ===== *)
theory Tap
  imports Ring Capture
begin

text \<open>
  The tap ring of src/capture.c, between the reader threads and the capture writer. It refuses
  the newest record when it is full and counts the refusals; it is an interpretation of the
  refusing queue of Ring.
\<close>

definition CAP_RING_LEN :: int where "CAP_RING_LEN = 1024"

text \<open>A record of the ring: its type and the member of the union that type selects.\<close>

datatype cap_ring_rec =
    Tap_imu u64 imu_sample
  | Tap_mag u64 mag_sample
  | Tap_other u8 u64

record cap_ring =
  cr_buf :: "cap_ring_rec list"
  cr_head :: int
  cr_tail :: int
  cr_count :: int
  cr_dropped :: u64

definition cap_ring_init :: cap_ring where
  "cap_ring_init = \<lparr>cr_buf = replicate 1024 (Tap_other 0 0), cr_head = 0, cr_tail = 0, cr_count = 0,
     cr_dropped = 0\<rparr>"

definition ring_push :: "cap_ring_rec \<Rightarrow> cap_ring \<Rightarrow> int \<times> cap_ring" where
  "ring_push rc r =
     (if cr_count r = CAP_RING_LEN then (1, r\<lparr>cr_dropped := cr_dropped r + 1\<rparr>)
      else (0, r\<lparr>cr_buf := (cr_buf r)[nat (cr_head r) := rc],
                 cr_head := (cr_head r + 1) mod CAP_RING_LEN, cr_count := cr_count r + 1\<rparr>))"

definition cap_ring_push_imu :: "cap_ring \<Rightarrow> imu_sample \<Rightarrow> u64 \<Rightarrow> int \<times> cap_ring" where
  "cap_ring_push_imu r s mono_ns = ring_push (Tap_imu mono_ns s) r"

definition cap_ring_push_mag :: "cap_ring \<Rightarrow> mag_sample \<Rightarrow> u64 \<Rightarrow> int \<times> cap_ring" where
  "cap_ring_push_mag r m mono_ns = ring_push (Tap_mag mono_ns m) r"

text \<open>The loop of the pop, with the room that is left in the caller's buffer.\<close>

fun cap_ring_pop :: "nat \<Rightarrow> cap_ring \<Rightarrow> cap_ring_rec list \<times> cap_ring" where
  "cap_ring_pop 0 r = ([], r)"
| "cap_ring_pop (Suc room) r =
     (if cr_count r > 0
      then (let x = cr_buf r ! nat (cr_tail r);
                r = r\<lparr>cr_tail := (cr_tail r + 1) mod CAP_RING_LEN, cr_count := cr_count r - 1\<rparr>;
                (xs, r) = cap_ring_pop room r
            in (x # xs, r))
      else ([], r))"

definition cap_ring_dropped :: "cap_ring \<Rightarrow> u64" where
  "cap_ring_dropped r = cr_dropped r"

section \<open>The ring as a queue\<close>

definition tap_inv :: "cap_ring \<Rightarrow> bool" where
  "tap_inv r \<longleftrightarrow> length (cr_buf r) = 1024 \<and> 0 \<le> cr_tail r \<and> cr_tail r < 1024 \<and>
     0 \<le> cr_count r \<and> cr_count r \<le> 1024 \<and> cr_head r = (cr_tail r + cr_count r) mod 1024"

definition tap_contents :: "cap_ring \<Rightarrow> cap_ring_rec list" where
  "tap_contents r = ring_list 1024 (cr_buf r) (nat (cr_tail r)) (nat (cr_count r))"

text \<open>One turn of the pop loop, and a push with its result as a flag.\<close>

definition tap_fetch :: "cap_ring \<Rightarrow> (cap_ring_rec \<times> cap_ring) option" where
  "tap_fetch r =
     (if cr_count r > 0
      then Some (cr_buf r ! nat (cr_tail r),
                 r\<lparr>cr_tail := (cr_tail r + 1) mod CAP_RING_LEN, cr_count := cr_count r - 1\<rparr>)
      else None)"

definition tap_store :: "cap_ring_rec \<Rightarrow> cap_ring \<Rightarrow> bool \<times> cap_ring" where
  "tap_store x r = (fst (ring_push x r) = 1, snd (ring_push x r))"

lemma tap_store_ok:
  assumes "tap_inv r"
  shows "tap_inv (snd (tap_store x r))"
    and "tap_contents (snd (tap_store x r)) =
      (if length (tap_contents r) = 1024 then tap_contents r else tap_contents r @ [x])"
    and "fst (tap_store x r) \<longleftrightarrow> length (tap_contents r) = 1024"
proof -
  note iv = assms [unfolded tap_inv_def]
  have full: "length (tap_contents r) = 1024 \<longleftrightarrow> cr_count r = 1024"
    using iv by (auto simp: tap_contents_def)
  show "fst (tap_store x r) \<longleftrightarrow> length (tap_contents r) = 1024"
    unfolding full by (simp add: tap_store_def ring_push_def CAP_RING_LEN_def)
  show "tap_inv (snd (tap_store x r))"
    using iv by (auto simp: tap_store_def ring_push_def CAP_RING_LEN_def tap_inv_def mod_simps add.assoc)
  show "tap_contents (snd (tap_store x r)) =
      (if length (tap_contents r) = 1024 then tap_contents r else tap_contents r @ [x])"
  proof (cases "cr_count r = 1024")
    case True
    then show ?thesis unfolding full by (simp add: tap_store_def ring_push_def CAP_RING_LEN_def tap_contents_def)
  next
    case False
    with iv have lt: "nat (cr_count r) < 1024" by linarith
    have h: "nat (cr_head r) = (nat (cr_tail r) + nat (cr_count r)) mod 1024"
      using iv by (simp add: nat_mod_distrib nat_add_distrib)
    have c: "nat (cr_count r + 1) = Suc (nat (cr_count r))" using iv by linarith
    show ?thesis unfolding full
      using ring_list_put [OF lt, of "cr_buf r" "nat (cr_tail r)" x] iv False h
      by (simp add: tap_store_def ring_push_def CAP_RING_LEN_def tap_contents_def c)
  qed
qed

lemma tap_fetch_ok:
  assumes "tap_inv r"
  shows "tap_contents r = [] \<Longrightarrow> tap_fetch r = None"
    and "tap_contents r = x # xs \<Longrightarrow> \<exists>r'. tap_fetch r = Some (x, r') \<and> tap_inv r' \<and> tap_contents r' = xs"
proof -
  note iv = assms [unfolded tap_inv_def]
  show "tap_fetch r = None" if "tap_contents r = []"
    using that iv by (simp add: tap_contents_def tap_fetch_def ring_list_def)
  assume c: "tap_contents r = x # xs"
  then have pos: "0 < nat (cr_count r)" by (cases "nat (cr_count r)") (auto simp: tap_contents_def)
  have t: "nat ((cr_tail r + 1) mod 1024) = (nat (cr_tail r) + 1) mod 1024"
    using iv by (simp add: nat_mod_distrib nat_add_distrib)
  have e: "nat (cr_tail r) mod 1024 = nat (cr_tail r)" using iv by (intro mod_less) linarith
  have n: "nat (cr_count r - 1) = nat (cr_count r) - 1" by simp
  have m: "((cr_tail r + 1) mod 1024 + (cr_count r - 1)) mod 1024 = (cr_tail r + cr_count r) mod 1024"
    by (simp add: mod_simps)
  show "\<exists>r'. tap_fetch r = Some (x, r') \<and> tap_inv r' \<and> tap_contents r' = xs"
    using c pos iv t n m ring_list_take [OF pos, of 1024 "cr_buf r" "nat (cr_tail r)", unfolded e]
    by (auto simp: tap_fetch_def tap_contents_def tap_inv_def CAP_RING_LEN_def)
qed

lemma tap_contents_le: "tap_inv r \<Longrightarrow> length (tap_contents r) \<le> 1024"
  by (auto simp: tap_inv_def tap_contents_def)

interpretation tapq: refusing_fifo tap_inv tap_contents 1024 tap_fetch tap_store
  by unfold_locales (simp_all add: tap_store_ok tap_fetch_ok tap_contents_le)

lemma tap_pop_many: "cap_ring_pop n r = tapq.pop_many n r"
  by (induction n arbitrary: r) (simp_all add: tap_fetch_def Let_def split: prod.splits)

fun tap_fill :: "cap_ring \<Rightarrow> cap_ring_rec list \<Rightarrow> nat \<times> cap_ring" where
  "tap_fill r [] = (0, r)"
| "tap_fill r (x # xs) =
     (let (d, r) = ring_push x r; (n, r) = tap_fill r xs in (nat d + n, r))"

lemma tap_fill_many: "tap_fill r xs = tapq.push_many xs r"
  by (induction xs arbitrary: r)
    (auto simp: tap_store_def Let_def ring_push_def split: prod.splits)

lemma tap_fill_dropped: "tap_fill r xs = (n, r') \<Longrightarrow> cr_dropped r' = cr_dropped r + of_nat n"
  by (induction xs arbitrary: r n r') (auto simp: Let_def ring_push_def split: prod.splits if_splits)

text \<open>
  a stalled writer loses the newest records and never a stored one: after any run of pushes the
  ring holds the oldest 1024 of what it held and what came, the drop counter has grown by exactly
  the number of records that are missing, and a pop of any size takes them out in order.
\<close>

theorem tap_keeps_history:
  assumes "tap_inv r" and "tap_fill r xs = (n, r')"
  shows "tap_inv r' \<and> fst (cap_ring_pop m r') = take m (take 1024 (tap_contents r @ xs)) \<and>
    tap_contents (snd (cap_ring_pop m r')) = drop m (take 1024 (tap_contents r @ xs)) \<and>
    cap_ring_dropped r' = cap_ring_dropped r + of_nat (length (tap_contents r @ xs) - 1024)"
proof -
  note k = tapq.push_many_keeps_oldest [OF assms(1), of xs, folded tap_fill_many, unfolded assms(2) fst_conv snd_conv]
  then have iv: "tap_inv r'" and c: "tap_contents r' = take 1024 (tap_contents r @ xs)" by blast+
  have "n + length (tap_contents r') = length (tap_contents r) + length xs" using k by blast
  then have "n = length (tap_contents r @ xs) - 1024" unfolding c by (simp add: min_def split: if_splits)
  with tap_fill_dropped [OF assms(2)] tapq.pop_many_takes [OF iv, of m] c iv show ?thesis
    by (auto simp: cap_ring_dropped_def tap_pop_many)
qed

lemma tap_init [simp]: "tap_inv cap_ring_init" "tap_contents cap_ring_init = []"
  by (simp_all add: cap_ring_init_def tap_inv_def tap_contents_def)

lemma tap_keeps_history_witness:
  "\<exists>n r. tap_fill cap_ring_init [Tap_imu 1 imu_zero, Tap_mag 2 mag_zero, Tap_other 7 3] = (n, r) \<and>
     fst (cap_ring_pop 2 r) = [Tap_imu 1 imu_zero, Tap_mag 2 mag_zero] \<and> cap_ring_dropped r = 0"
proof -
  obtain n r where f: "tap_fill cap_ring_init [Tap_imu 1 imu_zero, Tap_mag 2 mag_zero, Tap_other 7 3] = (n, r)"
    by fastforce
  from tap_keeps_history [OF tap_init(1) f, of 2] f show ?thesis
    by (auto simp: cap_ring_dropped_def simp del: tap_fill.simps) (simp add: cap_ring_init_def)
qed

end
