(* ===== verification/Rotator.thy ===== *)
theory Rotator
  imports Tap "HOL-Library.List_Lexorder" "HOL-Library.Char_ord"
begin

text \<open>
  The rotating black-box writer of src/capture.c. The directory is the list of its entries in the order
  \<open>readdir\<close> gives them; a capture file that is open is the stream of its writer. Names are compared the
  way \<open>strcmp\<close> compares them, which is the order of their characters.
\<close>

section \<open>UTC stamps\<close>

text \<open>\<open>gmtime_r\<close> by counting days; a day is at most the last of its month.\<close>

definition leap_year :: "nat \<Rightarrow> bool" where
  "leap_year y \<longleftrightarrow> y mod 4 = 0 \<and> (y mod 100 \<noteq> 0 \<or> y mod 400 = 0)"

definition month_days :: "nat \<Rightarrow> nat \<Rightarrow> nat" where
  "month_days y m = (if m = 2 then (if leap_year y then 29 else 28) else if m \<in> {4, 6, 9, 11} then 30 else 31)"

fun next_day :: "nat \<times> nat \<times> nat \<Rightarrow> nat \<times> nat \<times> nat" where
  "next_day (y, m, d) =
     (if d < month_days y m then (y, m, d + 1) else if m < 12 then (y, m + 1, 1) else (y + 1, 1, 1))"

definition utc_date :: "nat \<Rightarrow> nat \<times> nat \<times> nat" where
  "utc_date days = (next_day ^^ days) (1970, 1, 1)"

text \<open>A number in a fixed number of decimal digits.\<close>

definition digit :: "nat \<Rightarrow> char" where
  "digit n = char_of (48 + n mod 10)"

fun digits :: "nat \<Rightarrow> nat \<Rightarrow> string" where
  "digits 0 n = []"
| "digits (Suc w) n = digits w (n div 10) @ [digit n]"

text \<open>\<open>strftime(..., "%Y%m%d-%H%M%S", gmtime_r(&t))\<close> for years of four digits.\<close>

definition utc_stamp :: "nat \<Rightarrow> string" where
  "utc_stamp t =
     (case utc_date (t div 86400) of (y, m, d) \<Rightarrow>
        digits 4 y @ digits 2 m @ digits 2 d @ ''-'' @
        digits 2 (t mod 86400 div 3600) @ digits 2 (t mod 3600 div 60) @ digits 2 (t mod 60))"

section \<open>The rotator\<close>

definition CAP_FILE_PREFIX :: string where "CAP_FILE_PREFIX = ''imud-''"
definition CAP_FILE_SUFFIX :: string where "CAP_FILE_SUFFIX = ''.imucap''"

definition is_capture_name :: "string \<Rightarrow> bool" where
  "is_capture_name name =
     (let n = length name; p = length CAP_FILE_PREFIX; s = length CAP_FILE_SUFFIX
      in n > p + s \<and> take p name = CAP_FILE_PREFIX \<and> drop (n - s) name = CAP_FILE_SUFFIX)"

definition capture_name :: "nat \<Rightarrow> string" where
  "capture_name t = CAP_FILE_PREFIX @ utc_stamp t @ CAP_FILE_SUFFIX"

record cap_rotator =
  rt_max_mb :: u32
  rt_max_files :: u32
  rt_imu_odr_hz :: u32
  rt_imu_odr_mhz :: u32
  rt_imu_driver :: "bytes option"
  rt_mag_driver :: "bytes option"
  rt_imud_version :: "bytes option"
  rt_w :: cap_writer
  rt_open :: bool
  rt_cur :: string
  rt_last_stamp :: nat

text \<open>
  The names an \<open>opendir\<close> of the directory sees (\<open>None\<close> when it fails). The loop collects at most 256
  capture names; \<open>n - (int) max_files\<close> is computed in \<open>int\<close>. An \<open>unlink\<close> that fails is ignored.
\<close>

definition prune_names :: "string list \<Rightarrow> string list" where
  "prune_names entries = take 256 (filter is_capture_name entries)"

definition cap_rot_prune :: "cap_rotator \<Rightarrow> bool \<Rightarrow> (string \<Rightarrow> bool) \<Rightarrow> string list \<Rightarrow> string list" where
  "cap_rot_prune rt dir_ok unlink_ok entries =
     (if rt_max_files rt = 0 \<or> \<not> dir_ok then entries
      else let names = sort (prune_names entries);
               n = int (length names);
               gone = {names ! i | i. i < length names \<and> int i < n - sint (rt_max_files rt) \<and> names ! i \<noteq> rt_cur rt}
           in filter (\<lambda>e. \<not> (e \<in> gone \<and> unlink_ok e)) entries)"

text \<open>The search for a free stamp: the first free one of 600, or the last one tried.\<close>

fun free_stamp :: "nat \<Rightarrow> string list \<Rightarrow> nat \<Rightarrow> string \<times> nat" where
  "free_stamp 0 entries t = (capture_name t, t)"
| "free_stamp (Suc 0) entries t = (capture_name t, if capture_name t \<in> set entries then t + 1 else t)"
| "free_stamp (Suc (Suc bumps)) entries t =
     (if capture_name t \<in> set entries then free_stamp (Suc bumps) entries (t + 1) else (capture_name t, t))"

text \<open>What the system says while a file is opened.\<close>

record open_env =
  oe_time :: nat
  oe_created :: bool
  oe_acc :: acc
  oe_wall :: u64
  oe_mono :: u64
  oe_dir_ok :: bool
  oe_unlink_ok :: "string \<Rightarrow> bool"

definition cap_rot_open_file :: "open_env \<Rightarrow> string list \<Rightarrow> cap_rotator \<Rightarrow> int \<times> cap_rotator \<times> string list" where
  "cap_rot_open_file env entries rt =
     (let t = (if oe_time env \<le> rt_last_stamp rt then rt_last_stamp rt + 1 else oe_time env);
          (cur, t) = free_stamp 600 entries t;
          rt = rt\<lparr>rt_cur := cur, rt_last_stamp := t\<rparr>;
          (rc, w) = cap_writer_open (oe_acc env) (oe_created env) (rt_imu_odr_hz rt) (rt_imu_odr_mhz rt)
                      (rt_imu_driver rt) (rt_mag_driver rt) (rt_imud_version rt) (oe_wall env) (oe_mono env);
          rt = rt\<lparr>rt_w := w\<rparr>;
          entries = (if oe_created env \<and> cur \<notin> set entries then entries @ [cur] else entries)
      in if rc \<noteq> 0 then (-1, rt, entries)
         else let rt = rt\<lparr>rt_open := True\<rparr> in (0, rt, cap_rot_prune rt (oe_dir_ok env) (oe_unlink_ok env) entries))"

definition cap_rot_open ::
    "open_env \<Rightarrow> string list \<Rightarrow> u32 \<Rightarrow> u32 \<Rightarrow> u32 \<Rightarrow> u32 \<Rightarrow> bytes option \<Rightarrow> bytes option \<Rightarrow> bytes option \<Rightarrow>
     int \<times> cap_rotator \<times> string list" where
  "cap_rot_open env entries max_mb max_files imu_odr_hz imu_odr_mhz imu_driver mag_driver imud_version =
     cap_rot_open_file env entries
       \<lparr>rt_max_mb = max_mb, rt_max_files = max_files, rt_imu_odr_hz = imu_odr_hz,
        rt_imu_odr_mhz = imu_odr_mhz, rt_imu_driver = Some (put_str 16 imu_driver),
        rt_mag_driver = Some (put_str 16 mag_driver), rt_imud_version = Some (put_str 16 imud_version),
        rt_w = cap_writer_zero, rt_open = False, rt_cur = [], rt_last_stamp = 0\<rparr>"

definition cap_rot_write ::
    "open_env \<Rightarrow> string list \<Rightarrow> cap_rotator \<Rightarrow> cap_ring_rec \<Rightarrow> int \<times> cap_rotator \<times> string list" where
  "cap_rot_write env entries rt rc =
     (if \<not> rt_open rt then (-1, rt, entries)
      else let (ok, rt, entries) =
             (if rt_max_mb rt > 0 \<and> cw_bytes (rt_w rt) \<ge> ucast (rt_max_mb rt) * 1024 * 1024
              then cap_rot_open_file env entries (rt\<lparr>rt_w := cap_writer_close (rt_w rt), rt_open := False\<rparr>)
              else (0, rt, entries))
           in if ok \<noteq> 0 then (-1, rt, entries)
              else case rc of
                     Tap_imu t s \<Rightarrow> (case cap_writer_imu (oe_acc env) (rt_w rt) s t of (r, w) \<Rightarrow> (r, rt\<lparr>rt_w := w\<rparr>, entries))
                   | Tap_mag t m \<Rightarrow> (case cap_writer_mag (oe_acc env) (rt_w rt) m t of (r, w) \<Rightarrow> (r, rt\<lparr>rt_w := w\<rparr>, entries))
                   | Tap_other k t \<Rightarrow> (0, rt, entries))"

definition cap_rot_flush :: "bool \<Rightarrow> cap_rotator \<Rightarrow> int" where
  "cap_rot_flush flushed rt = (if rt_open rt then cap_writer_flush flushed (rt_w rt) else -1)"

definition cap_rot_close :: "cap_rotator \<Rightarrow> cap_rotator" where
  "cap_rot_close rt = (if rt_open rt then rt\<lparr>rt_w := cap_writer_close (rt_w rt), rt_open := False\<rparr> else rt)"

definition cap_rot_path :: "cap_rotator \<Rightarrow> string" where
  "cap_rot_path rt = (if rt_open rt then rt_cur rt else [])"

definition cap_rot_bytes :: "cap_rotator \<Rightarrow> u64" where
  "cap_rot_bytes rt = (if rt_open rt then cw_bytes (rt_w rt) else 0)"

section \<open>Names in the order of their stamps\<close>

lemma less_append_same_length:
  "length a = length c \<Longrightarrow> (a @ b < c @ d) = (a < c \<or> a = c \<and> b < (d :: 'a :: linorder list))"
  by (induction a c rule: list_induct2) auto

lemma digit_less: "m mod 10 < n mod 10 \<Longrightarrow> digit m < digit n"
  by (simp add: digit_def less_char_def)

lemma length_digits [simp]: "length (digits w n) = w"
  by (induction w arbitrary: n) simp_all

lemma digits_mono: "m < n \<Longrightarrow> n < 10 ^ w \<Longrightarrow> digits w m < digits w n"
proof (induction w arbitrary: m n)
  case (Suc w)
  show ?case
  proof (cases "m div 10 < n div 10")
    case True
    with Suc.IH [OF this] Suc.prems(2) show ?thesis by (auto simp: less_append_same_length)
  next
    case False
    then have e: "m div 10 = n div 10" using Suc.prems(1) by (simp add: div_le_mono le_antisym)
    then have "m mod 10 < n mod 10" using Suc.prems(1) by (metis div_mult_mod_eq nat_add_left_cancel_less)
    with e show ?thesis by (simp add: less_append_same_length digit_less)
  qed
qed simp

lemma digits_append: "y < 10 ^ b \<Longrightarrow> digits (a + b) (x * 10 ^ b + y) = digits a x @ digits b y"
proof (induction b arbitrary: y)
  case (Suc b)
  have "(x * 10 ^ Suc b + y) div 10 = x * 10 ^ b + y div 10" by simp
  moreover have "x * 10 ^ Suc b + y = y + x * 10 ^ b * 10" by simp
  then have "digit (x * 10 ^ Suc b + y) = digit y" by (simp only: digit_def mod_mult_self1)
  ultimately show ?case using Suc.IH [of "y div 10"] Suc.prems by simp
qed simp

definition valid_date :: "nat \<times> nat \<times> nat \<Rightarrow> bool" where
  "valid_date x \<longleftrightarrow> (case x of (y, m, d) \<Rightarrow> 1 \<le> m \<and> m \<le> 12 \<and> 1 \<le> d \<and> d \<le> 31)"

definition date_key :: "nat \<times> nat \<times> nat \<Rightarrow> nat" where
  "date_key x = (case x of (y, m, d) \<Rightarrow> (y * 10 ^ 2 + m) * 10 ^ 2 + d)"

lemma next_day_valid: "valid_date x \<Longrightarrow> valid_date (next_day x)"
  by (cases x) (auto simp: valid_date_def month_days_def split: if_splits)

lemma next_day_key: "valid_date x \<Longrightarrow> date_key x < date_key (next_day x)"
  by (cases x) (auto simp: valid_date_def date_key_def)

lemma utc_date_valid: "valid_date (utc_date n)"
proof (induction n)
  case 0
  show ?case by (simp add: utc_date_def valid_date_def)
qed (simp add: utc_date_def next_day_valid)

lemma date_key_mono: "m < n \<Longrightarrow> date_key (utc_date m) < date_key (utc_date n)"
proof (induction n)
  case (Suc n)
  have "date_key (utc_date n) < date_key (utc_date (Suc n))"
    using next_day_key [OF utc_date_valid [of n]] by (simp add: utc_date_def)
  with Suc show ?case by (cases "m = n") auto
qed simp

lemma utc_year_mono: "m \<le> n \<Longrightarrow> fst (utc_date m) \<le> fst (utc_date n)"
proof (induction n)
  case (Suc n)
  have "fst (utc_date n) \<le> fst (utc_date (Suc n))"
    by (cases "utc_date n") (auto simp: utc_date_def)
  with Suc show ?case by (cases "m = Suc n") auto
qed simp

definition time_key :: "nat \<Rightarrow> nat" where
  "time_key s = (s div 3600 * 10 ^ 2 + s mod 3600 div 60) * 10 ^ 2 + s mod 60"

lemma clock_order:
  fixes h1 m1 s1 h2 m2 s2 :: nat
  assumes "m1 < 60" "s1 < 60" "m2 < 60" "s2 < 60"
    and "h1 * 3600 + m1 * 60 + s1 < h2 * 3600 + m2 * 60 + s2"
  shows "(h1 * 10 ^ 2 + m1) * 10 ^ 2 + s1 < (h2 * 10 ^ 2 + m2) * 10 ^ 2 + s2"
proof (cases h1 h2 rule: linorder_cases)
  case less
  with assms show ?thesis by simp
next
  case equal
  with assms show ?thesis by (cases m1 m2 rule: linorder_cases) simp_all
next
  case greater
  with assms show ?thesis by simp
qed

lemma time_key_mono:
  assumes "a < b"
  shows "time_key a < time_key b"
proof -
  have d: "x mod 3600 div 60 < 60" "x mod 60 < 60" for x :: nat
    by (simp_all add: less_mult_imp_div_less)
  have x: "x = x div 3600 * 3600 + x mod 3600 div 60 * 60 + x mod 60" for x :: nat
  proof -
    have "x mod 3600 mod 60 = x mod 60" by (simp add: mod_mod_cancel)
    then show ?thesis by (metis add.assoc div_mult_mod_eq)
  qed
  have "a div 3600 * 3600 + a mod 3600 div 60 * 60 + a mod 60 < b div 3600 * 3600 + b mod 3600 div 60 * 60 + b mod 60"
    using assms x [of a] x [of b] by metis
  from clock_order [OF d d this] show ?thesis by (simp only: time_key_def)
qed

lemma utc_stamp_digits:
  "utc_stamp t = digits 8 (date_key (utc_date (t div 86400))) @ ''-'' @ digits 6 (time_key (t mod 86400))"
proof -
  obtain y m d where u: "utc_date (t div 86400) = (y, m, d)" by (metis prod_cases3)
  then have v: "m < 10 ^ 2" "d < 10 ^ 2" using utc_date_valid [of "t div 86400"] by (auto simp: valid_date_def)
  have t: "t mod 86400 mod 3600 = t mod 3600" "t mod 86400 mod 60 = t mod 60" by (simp_all add: mod_mod_cancel)
  have b: "t mod 3600 div 60 < 10 ^ 2" "t mod 60 < 10 ^ 2" by (simp_all add: less_mult_imp_div_less order_less_trans [of _ 60])
  show ?thesis
    using digits_append [OF v(2), of 6 "y * 10 ^ 2 + m"] digits_append [OF v(1), of 4 y]
      digits_append [OF b(2), of 4 "t mod 86400 div 3600 * 10 ^ 2 + t mod 3600 div 60"]
      digits_append [OF b(1), of 2 "t mod 86400 div 3600"]
    by (simp only: utc_stamp_def u prod.case date_key_def time_key_def t append.assoc) simp
qed

text \<open>While years have four digits, a later file sorts behind an earlier one.\<close>

lemma utc_stamp_mono:
  assumes "t1 < t2" "fst (utc_date (t2 div 86400)) \<le> 9999"
  shows "utc_stamp t1 < utc_stamp t2"
proof -
  have k: "date_key (utc_date (t2 div 86400)) < 10 ^ 8"
    using assms(2) utc_date_valid [of "t2 div 86400"]
    by (cases "utc_date (t2 div 86400)") (auto simp: date_key_def valid_date_def)
  have tk: "time_key (t2 mod 86400) < 10 ^ 6"
    using time_key_mono [of "t2 mod 86400" 86400] by (simp add: time_key_def)
  show ?thesis
  proof (cases "t1 div 86400 < t2 div 86400")
    case True
    from digits_mono [OF date_key_mono [OF True] k] show ?thesis
      by (simp add: utc_stamp_digits less_append_same_length)
  next
    case False
    then have e: "t1 div 86400 = t2 div 86400" using assms(1) by (simp add: div_le_mono le_antisym)
    then have "t1 mod 86400 < t2 mod 86400" using assms(1) by (metis div_mult_mod_eq nat_add_left_cancel_less)
    from digits_mono [OF time_key_mono [OF this] tk] e show ?thesis
      by (simp add: utc_stamp_digits less_append_same_length)
  qed
qed

lemma capture_name_mono:
  "t1 < t2 \<Longrightarrow> fst (utc_date (t2 div 86400)) \<le> 9999 \<Longrightarrow> capture_name t1 < capture_name t2"
  using utc_stamp_mono [of t1 t2]
  by (simp add: capture_name_def less_append_same_length utc_stamp_digits)

lemma length_capture_name: "length (capture_name t) = 27"
  by (simp add: capture_name_def utc_stamp_digits CAP_FILE_PREFIX_def CAP_FILE_SUFFIX_def)

lemma is_capture_name_stamp: "is_capture_name (capture_name t)"
proof -
  have "length (utc_stamp t) = 15" by (simp add: utc_stamp_digits)
  then show ?thesis
    by (simp add: is_capture_name_def capture_name_def CAP_FILE_PREFIX_def CAP_FILE_SUFFIX_def Let_def)
qed

lemma free_stamp_range:
  "free_stamp (Suc n) entries t = (cur, t') \<Longrightarrow> \<exists>s. t \<le> s \<and> s \<le> t' \<and> t' \<le> s + 1 \<and> cur = capture_name s"
proof (induction n arbitrary: t)
  case (Suc n)
  show ?case
  proof (cases "capture_name t \<in> set entries")
    case True
    with Suc.prems have "free_stamp (Suc n) entries (t + 1) = (cur, t')" by simp
    from Suc.IH [OF this] obtain s where "t + 1 \<le> s" "s \<le> t'" "t' \<le> s + 1" "cur = capture_name s" by blast
    then show ?thesis by (intro exI [of _ s]) simp
  next
    case False
    with Suc.prems have "cur = capture_name t" "t' = t" by auto
    then show ?thesis by (intro exI [of _ t]) simp
  qed
next
  case 0
  then have "cur = capture_name t" "t' = t \<or> t' = t + 1" by (simp_all split: if_splits)
  then show ?case by (intro exI [of _ t]) auto
qed

section \<open>Properties\<close>

lemma cap_rot_open_file_name:
  assumes "cap_rot_open_file env entries rt = (rc, rt', entries')"
  shows "\<exists>s. rt_last_stamp rt < s \<and> s \<le> rt_last_stamp rt' \<and> rt_cur rt' = capture_name s"
proof -
  let ?t = "if oe_time env \<le> rt_last_stamp rt then rt_last_stamp rt + 1 else oe_time env"
  obtain cur t where f: "free_stamp 600 entries ?t = (cur, t)" by fastforce
  then have c: "rt_cur rt' = cur" "rt_last_stamp rt' = t"
    using assms by (auto simp: cap_rot_open_file_def Let_def split: prod.splits if_splits)
  have "free_stamp (Suc 599) entries ?t = (cur, t)" using f by simp
  from free_stamp_range [OF this] obtain s where "?t \<le> s" "s \<le> t" "cur = capture_name s" by blast
  moreover have "rt_last_stamp rt < ?t" by simp
  ultimately have "rt_last_stamp rt < s" by linarith
  with \<open>s \<le> t\<close> \<open>cur = capture_name s\<close> show ?thesis using c by auto
qed

text \<open>
  whatever the clock says -- it may stand still or go back between two rotations -- the file a
  rotation starts has a name that sorts behind the names of all stamps the rotator has used, as long as
  years have four digits, so the order of the names is the order in which the files were started.
\<close>

theorem capture_names_increase:
  assumes "cap_rot_open_file env entries rt = (rc, rt', entries')"
    and "fst (utc_date (rt_last_stamp rt' div 86400)) \<le> 9999"
  shows "rt_last_stamp rt < rt_last_stamp rt' \<and> is_capture_name (rt_cur rt') \<and>
    (\<forall>t \<le> rt_last_stamp rt. capture_name t < rt_cur rt') \<and>
    (\<exists>s \<le> rt_last_stamp rt'. rt_cur rt' = capture_name s)"
proof -
  from cap_rot_open_file_name [OF assms(1)]
  obtain s where s: "rt_last_stamp rt < s" "s \<le> rt_last_stamp rt'" "rt_cur rt' = capture_name s" by blast
  have "fst (utc_date (s div 86400)) \<le> 9999"
    using utc_year_mono [of "s div 86400" "rt_last_stamp rt' div 86400"] s(2) assms(2) by (simp add: div_le_mono)
  then have "\<forall>t \<le> rt_last_stamp rt. capture_name t < rt_cur rt'"
    using s capture_name_mono by (auto intro: capture_name_mono)
  with s is_capture_name_stamp show ?thesis by auto
qed

definition rot_env :: open_env where
  "rot_env = \<lparr>oe_time = 5, oe_created = True, oe_acc = (\<lambda>f b. length b), oe_wall = 1, oe_mono = 2,
     oe_dir_ok = True, oe_unlink_ok = (\<lambda>_. True)\<rparr>"

definition rot_zero :: cap_rotator where
  "rot_zero = \<lparr>rt_max_mb = 64, rt_max_files = 2, rt_imu_odr_hz = 833, rt_imu_odr_mhz = 833000,
     rt_imu_driver = None, rt_mag_driver = None, rt_imud_version = None, rt_w = cap_writer_zero,
     rt_open = False, rt_cur = [], rt_last_stamp = 7\<rparr>"

lemma capture_names_increase_witness:
  "case cap_rot_open_file rot_env [] rot_zero of (rc, rt, es) \<Rightarrow> capture_name 6 < rt_cur rt"
proof -
  obtain rc rt es where o: "cap_rot_open_file rot_env [] rot_zero = (rc, rt, es)" by (metis prod_cases3)
  have "free_stamp 600 [] 8 = (capture_name 8, 8)"
    using free_stamp.simps(3) [of 598 "[]" 8] by simp
  with o have "rt_last_stamp rt = 8"
    by (auto simp: cap_rot_open_file_def Let_def rot_env_def rot_zero_def split: prod.splits if_splits)
  then have "fst (utc_date (rt_last_stamp rt div 86400)) \<le> 9999" by (simp add: utc_date_def)
  from capture_names_increase [OF o this] have "capture_name 6 < rt_cur rt" by (auto simp: rot_zero_def)
  with o show ?thesis by simp
qed

lemma prune_gone:
  "{names ! i | i. i < length names \<and> int i < int (length names) - int k \<and> names ! i \<noteq> cur} =
     set (take (length names - k) names) - {cur}"
proof -
  have "i < length names \<and> int i < int (length names) - int k \<longleftrightarrow> i < length names - k" for i by auto
  then have "{names ! i | i. i < length names \<and> int i < int (length names) - int k \<and> names ! i \<noteq> cur} =
      {names ! i | i. i < length names - k} - {cur}" by blast
  also have "{names ! i | i. i < length names - k} = set (take (length names - k) names)"
    by (auto simp: nth_image [symmetric])
  finally show ?thesis .
qed

text \<open>
  C8: pruning leaves of the captures in the directory the newest \<open>max_files\<close> by name and the file that is
  being written, and nothing else, and it touches no other entry, provided every \<open>unlink\<close> works and the
  directory holds at most 256 captures. When the file being written has the newest name that is exactly
  \<open>max_files\<close> captures; otherwise it can be one more.
\<close>

theorem prune_keeps_newest:
  assumes "distinct entries" "length (filter is_capture_name entries) \<le> 256"
    and "rt_max_files rt \<noteq> 0" "unat (rt_max_files rt) < 2 ^ 31"
    and "rt_cur rt \<in> set entries" "is_capture_name (rt_cur rt)"
  shows "case cap_rot_prune rt True (\<lambda>_. True) entries of kept \<Rightarrow>
    filter (\<lambda>e. \<not> is_capture_name e) kept = filter (\<lambda>e. \<not> is_capture_name e) entries \<and>
    {e \<in> set kept. is_capture_name e} =
      insert (rt_cur rt) (set (last_n (unat (rt_max_files rt)) (sort (filter is_capture_name entries))))"
proof -
  define names where "names = sort (filter is_capture_name entries)"
  define k where "k = unat (rt_max_files rt)"
  have pn: "prune_names entries = filter is_capture_name entries"
    using assms(2) by (simp add: prune_names_def)
  have "sint (rt_max_files rt) = int k"
    using assms(4) by (simp add: k_def sint_uint signed_take_bit_int_eq_self uint_nat del: of_nat_unat)
  then have kept: "cap_rot_prune rt True (\<lambda>_. True) entries =
      filter (\<lambda>e. e \<notin> set (take (length names - k) names) - {rt_cur rt}) entries"
    using assms(3) unfolding cap_rot_prune_def Let_def pn names_def [symmetric]
    by (simp only: prune_gone) simp
  have sub: "set names = {e \<in> set entries. is_capture_name e}" by (simp add: names_def)
  have d: "set (take (length names - k) names) \<inter> set (drop (length names - k) names) = {}"
    using assms(1) by (intro set_take_disj_set_drop_if_distinct) (simp_all add: names_def)
  have u: "set names = set (take (length names - k) names) \<union> set (drop (length names - k) names)"
    by (metis append_take_drop_id set_append)
  have "{e \<in> set (cap_rot_prune rt True (\<lambda>_. True) entries). is_capture_name e} =
      set names - (set (take (length names - k) names) - {rt_cur rt})"
    unfolding kept sub by auto
  also have "\<dots> = insert (rt_cur rt) (set (drop (length names - k) names))"
    using u d assms(5,6) sub by auto
  finally have 1: "{e \<in> set (cap_rot_prune rt True (\<lambda>_. True) entries). is_capture_name e} =
      insert (rt_cur rt) (set (last_n k names))" by (simp add: last_n_def)
  have "set (take (length names - k) names) \<subseteq> {e. is_capture_name e}"
    using sub set_take_subset by fastforce
  then have "filter (\<lambda>e. \<not> is_capture_name e) (cap_rot_prune rt True (\<lambda>_. True) entries) =
      filter (\<lambda>e. \<not> is_capture_name e) entries"
    unfolding kept by (auto intro: filter_cong simp: filter_filter)
  with 1 show ?thesis by (simp add: names_def k_def)
qed

lemma prune_keeps_newest_witness:
  "{e \<in> set (cap_rot_prune (rot_zero\<lparr>rt_cur := capture_name 3\<rparr>) True (\<lambda>_. True) [capture_name 1, ''x'', capture_name 3]).
      is_capture_name e} =
    insert (capture_name 3) (set (last_n 2 (sort (filter is_capture_name [capture_name 1, ''x'', capture_name 3]))))"
proof -
  have "fst (utc_date (3 div 86400)) \<le> 9999" by (simp add: utc_date_def)
  then have "capture_name 1 < capture_name 3" by (intro capture_name_mono) simp_all
  moreover have "capture_name t \<noteq> ''x''" for t using length_capture_name [of t] by auto
  ultimately have "distinct [capture_name 1, ''x'', capture_name 3]" by (auto dest: sym)
  from prune_keeps_newest [OF this, of "rot_zero\<lparr>rt_cur := capture_name 3\<rparr>"] show ?thesis
    by (simp add: rot_zero_def is_capture_name_stamp)
qed

end
