(* ===== verification/ConfigText.thy ===== *)
theory ConfigText
  imports Complex_Main Prelude "HOL-Library.Char_ord"
begin

text \<open>
  The text helpers of src/config.c: stripping, comments, strings with a leading tilde, booleans, integers
  and floating-point numbers, number arrays, with what they use of the C library (isspace, strtol, strtod,
  fgets). A C string is a list of characters without NUL. A finite double is the rational number it stands
  for, after rounding to nearest even; the sign of a zero is not kept.
\<close>

section \<open>Characters\<close>

definition isspace :: "char \<Rightarrow> bool" where
  "isspace c \<longleftrightarrow> c \<in> {CHR '' '', CHR 0x09, CHR 0x0A, CHR 0x0B, CHR 0x0C, CHR 0x0D}"

definition tolower :: "char \<Rightarrow> char" where
  "tolower c = (let n = of_char c :: nat in if 65 \<le> n \<and> n \<le> 90 then char_of (n + 32) else c)"

definition strcaseeq :: "string \<Rightarrow> string \<Rightarrow> bool" where
  "strcaseeq s t \<longleftrightarrow> map tolower s = map tolower t"

section \<open>Stripping\<close>

definition lstrip :: "string \<Rightarrow> string" where
  "lstrip s = dropWhile isspace s"

definition rstrip :: "string \<Rightarrow> string" where
  "rstrip s = rev (dropWhile isspace (rev s))"

text \<open>The loop of \<open>strip_comment\<close>, with whether it is inside quotes.\<close>

fun strip_comment_from :: "bool \<Rightarrow> string \<Rightarrow> string" where
  "strip_comment_from in_q [] = []"
| "strip_comment_from in_q (c # cs) =
     (let in_q = (if c = CHR 0x22 then \<not> in_q else in_q)
      in if \<not> in_q \<and> c = CHR ''#'' then [] else c # strip_comment_from in_q cs)"

definition strip_comment :: "string \<Rightarrow> string" where
  "strip_comment s = strip_comment_from False s"

section \<open>Strings\<close>

definition expand_tilde :: "string option \<Rightarrow> string \<Rightarrow> nat \<Rightarrow> string" where
  "expand_tilde home buf bufsz =
     (if take 2 buf \<noteq> ''~/'' then buf
      else case home of None \<Rightarrow> buf
           | Some h \<Rightarrow> if length h + length (drop 1 buf) \<ge> bufsz then buf else h @ drop 1 buf)"

datatype copy_rc = COPY_OK string | COPY_TOO_LONG | COPY_TILDE_TOO_LONG

definition copy_str :: "string option \<Rightarrow> string \<Rightarrow> nat \<Rightarrow> copy_rc" where
  "copy_str home val outsz =
     (let s = (if take 1 val = [CHR 0x22]
               then (let s = drop 1 val in if s \<noteq> [] \<and> last s = CHR 0x22 then butlast s else s)
               else val)
      in if length s \<ge> outsz then COPY_TOO_LONG
         else if take 2 s = ''~/'' \<and> (case home of None \<Rightarrow> False | Some h \<Rightarrow> length h + (length s - 1) \<ge> outsz)
         then COPY_TILDE_TOO_LONG
         else COPY_OK (expand_tilde home s outsz))"

definition parse_bool :: "string \<Rightarrow> bool option" where
  "parse_bool val = (if val = ''true'' then Some True else if val = ''false'' then Some False else None)"

section \<open>Integers\<close>

definition digit_val :: "char \<Rightarrow> nat option" where
  "digit_val c =
     (let n = of_char (tolower c) :: nat
      in if 48 \<le> n \<and> n \<le> 57 then Some (n - 48) else if 97 \<le> n \<and> n \<le> 122 then Some (n - 87) else None)"

definition is_digit :: "nat \<Rightarrow> char \<Rightarrow> bool" where
  "is_digit base c \<longleftrightarrow> (case digit_val c of Some d \<Rightarrow> d < base | None \<Rightarrow> False)"

definition digits_val :: "nat \<Rightarrow> string \<Rightarrow> nat" where
  "digits_val base s = foldl (\<lambda>n c. n * base + the (digit_val c)) 0 s"

definition split_sign :: "string \<Rightarrow> bool \<times> string" where
  "split_sign s = (case s of c # r \<Rightarrow> if c = CHR ''-'' then (True, r) else if c = CHR ''+'' then (False, r) else (False, s)
                   | [] \<Rightarrow> (False, s))"

definition hex_prefix :: "string \<Rightarrow> bool" where
  "hex_prefix s \<longleftrightarrow> length s \<ge> 2 \<and> s ! 0 = CHR ''0'' \<and> tolower (s ! 1) = CHR ''x''"

text \<open>\<open>strtol\<close> with base 0 and a 64-bit \<open>long\<close>: the value, whether it was out of range, and the rest; \<open>None\<close>
  when there is no number.\<close>

definition strtol0 :: "string \<Rightarrow> (int \<times> bool \<times> string) option" where
  "strtol0 s =
     (case split_sign (dropWhile isspace s) of (neg, r) \<Rightarrow>
        let hex = (hex_prefix r \<and> drop 2 r \<noteq> [] \<and> is_digit 16 (hd (drop 2 r)));
            base = (if hex then 16 else if take 1 r = ''0'' then 8 else 10);
            r = (if hex then drop 2 r else r);
            ds = takeWhile (is_digit base) r;
            v = (if neg then - int (digits_val base ds) else int (digits_val base ds))
        in if ds = [] then None
           else if v < - (2 ^ 63) then Some (- (2 ^ 63), True, drop (length ds) r)
           else if v > 2 ^ 63 - 1 then Some (2 ^ 63 - 1, True, drop (length ds) r)
           else Some (v, False, drop (length ds) r))"

datatype parse_int_rc = INT_OK int | INT_MALFORMED | INT_UNREPRESENTABLE

definition parse_int :: "string \<Rightarrow> parse_int_rc" where
  "parse_int val =
     (case strtol0 val of
        None \<Rightarrow> INT_MALFORMED
      | Some (v, erange, rest) \<Rightarrow>
          if rest \<noteq> [] then INT_MALFORMED
          else if erange then INT_UNREPRESENTABLE
          else if v < - (2 ^ 31) \<or> v > 2 ^ 31 - 1 then INT_UNREPRESENTABLE
          else INT_OK v)"

section \<open>Floating point\<close>

fun nat_bits :: "nat \<Rightarrow> nat" where
  "nat_bits n = (if n = 0 then 0 else Suc (nat_bits (n div 2)))"

declare nat_bits.simps [simp del]

definition round_even :: "rat \<Rightarrow> int" where
  "round_even q =
     (let f = \<lfloor>q\<rfloor>; d = q - of_int f
      in if d < 1 / 2 then f else if d > 1 / 2 then f + 1 else if even f then f else f + 1)"

text \<open>Rounding to a binary format of \<open>prec\<close> bits, least exponent \<open>emin\<close> and values below \<open>2 ^ emax\<close>; \<open>None\<close>
  is an infinity.\<close>

definition fp_round :: "int \<Rightarrow> int \<Rightarrow> int \<Rightarrow> rat \<Rightarrow> rat option" where
  "fp_round prec emin emax x =
     (if x = 0 then Some 0
      else let (a, b) = quotient_of \<bar>x\<bar>;
               k = int (nat_bits (nat a)) - int (nat_bits (nat b));
               l = (if 2 powi k \<le> \<bar>x\<bar> then k else k - 1);
               e = max emin (l - (prec - 1));
               y = of_int (round_even (\<bar>x\<bar> / 2 powi e)) * 2 powi e
           in if y \<ge> 2 powi emax then None else Some (sgn x * y))"

definition to_double :: "rat \<Rightarrow> rat option" where "to_double = fp_round 53 (-1074) 1024"
definition to_float :: "rat \<Rightarrow> rat option" where "to_float = fp_round 24 (-149) 128"

text \<open>The digits of a number around an optional point, and the power of the base that the last stands for.\<close>

definition scan_digits :: "nat \<Rightarrow> string \<Rightarrow> (nat \<times> nat \<times> string) option" where
  "scan_digits base s =
     (let ip = takeWhile (is_digit base) s;
          r = drop (length ip) s;
          fp = (if take 1 r = ''.'' then takeWhile (is_digit base) (drop 1 r) else []);
          r = (if take 1 r = ''.'' then drop (1 + length fp) r else r)
      in if ip @ fp = [] then None else Some (digits_val base (ip @ fp), length fp, r))"

text \<open>An exponent counts only when it has a digit.\<close>

definition scan_exp :: "char \<Rightarrow> string \<Rightarrow> int \<times> string" where
  "scan_exp mark s =
     (case s of c # t \<Rightarrow>
        if tolower c = mark
        then (case split_sign t of (neg, r) \<Rightarrow>
                let ds = takeWhile (is_digit 10) r; v = int (digits_val 10 ds)
                in if ds = [] then (0, s) else (if neg then - v else v, drop (length ds) r))
        else (0, s)
      | [] \<Rightarrow> (0, s))"

datatype dbl = Finite rat | NonFinite

definition dbl_of :: "rat \<Rightarrow> dbl" where
  "dbl_of q = (case to_double q of Some v \<Rightarrow> Finite v | None \<Rightarrow> NonFinite)"

text \<open>The words for the values that are not numbers: the longer infinity first, a NaN with its optional
  character sequence.\<close>

definition scan_word :: "string \<Rightarrow> string option" where
  "scan_word s =
     (if strcaseeq (take 8 s) ''infinity'' then Some (drop 8 s)
      else if strcaseeq (take 3 s) ''inf'' then Some (drop 3 s)
      else if strcaseeq (take 3 s) ''nan''
      then (let r = drop 3 s; w = takeWhile (\<lambda>c. digit_val c \<noteq> None \<or> c = CHR ''_'') (drop 1 r)
            in if take 1 r = ''('' \<and> take 1 (drop (1 + length w) r) = '')'' then Some (drop (2 + length w) r) else Some r)
      else None)"

definition strtod :: "string \<Rightarrow> (dbl \<times> string) option" where
  "strtod s =
     (case split_sign (dropWhile isspace s) of (neg, r) \<Rightarrow>
        let sg = (if neg then -1 else 1) :: rat
        in case scan_word r of
             Some rest \<Rightarrow> Some (NonFinite, rest)
           | None \<Rightarrow>
               (case (if hex_prefix r then scan_digits 16 (drop 2 r) else None) of
                  Some (m, k, r) \<Rightarrow>
                    (case scan_exp (CHR ''p'') r of (e, rest) \<Rightarrow>
                       Some (dbl_of (sg * of_nat m / 16 ^ k * 2 powi e), rest))
                | None \<Rightarrow>
                    (case scan_digits 10 r of
                       None \<Rightarrow> None
                     | Some (m, k, r) \<Rightarrow>
                         (case scan_exp (CHR ''e'') r of (e, rest) \<Rightarrow>
                            Some (dbl_of (sg * of_nat m / 10 ^ k * 10 powi e), rest)))))"

definition parse_double :: "string \<Rightarrow> rat option" where
  "parse_double val =
     (case strtod val of Some (Finite v, []) \<Rightarrow> Some v | _ \<Rightarrow> None)"

text \<open>A constant of the source, or a result the code computes, as the double it is.\<close>

definition dconst :: "rat \<Rightarrow> rat" where
  "dconst q = the (to_double q)"

lemma nat_bits_bounds: "0 < n \<Longrightarrow> 2 ^ nat_bits n \<le> 2 * n \<and> n < 2 ^ nat_bits n"
proof (induction n rule: nat_bits.induct)
  case (1 n)
  show ?case
  proof (cases "n = 1")
    case True
    then show ?thesis by (simp add: nat_bits.simps)
  next
    case False
    with 1 have "0 < n div 2" "n \<noteq> 0" by auto
    with 1(1) have "2 ^ nat_bits (n div 2) \<le> 2 * (n div 2)" "n div 2 < 2 ^ nat_bits (n div 2)" by auto
    moreover have "2 * (n div 2) \<le> n" "n < 2 * (n div 2 + 1)" by auto
    ultimately have "2 ^ nat_bits (n div 2) \<le> n" "n < 2 * 2 ^ nat_bits (n div 2)" by linarith+
    then show ?thesis using \<open>n \<noteq> 0\<close> by (simp add: nat_bits.simps [of n])
  qed
qed

lemma round_even_close: "of_int (round_even q) \<le> q + 1 / 2" "q - 1 / 2 \<le> of_int (round_even q)"
proof -
  have f: "of_int \<lfloor>q\<rfloor> \<le> q" "q < of_int \<lfloor>q\<rfloor> + 1" by linarith+
  consider "q - of_int \<lfloor>q\<rfloor> < 1 / 2" | "q - of_int \<lfloor>q\<rfloor> > 1 / 2" | "q - of_int \<lfloor>q\<rfloor> = 1 / 2" by linarith
  then have "of_int (round_even q) \<le> q + 1 / 2 \<and> q - 1 / 2 \<le> of_int (round_even q)"
  proof cases
    case 1
    then have "(of_int (round_even q) :: rat) = of_int \<lfloor>q\<rfloor>" by (simp add: round_even_def)
    then show ?thesis using f 1 by linarith
  next
    case 2
    then have "(of_int (round_even q) :: rat) = of_int \<lfloor>q\<rfloor> + 1" by (simp add: round_even_def)
    then show ?thesis using f 2 by linarith
  next
    case 3
    then have "round_even q = \<lfloor>q\<rfloor> \<or> round_even q = \<lfloor>q\<rfloor> + 1" by (simp add: round_even_def Let_def)
    then show ?thesis using 3 by auto
  qed
  then show "of_int (round_even q) \<le> q + 1 / 2" "q - 1 / 2 \<le> of_int (round_even q)" by simp_all
qed

lemma round_even_between: "of_int m \<le> q \<Longrightarrow> q \<le> of_int n \<Longrightarrow> m \<le> round_even q \<and> round_even q \<le> n"
proof -
  assume "of_int m \<le> q" "q \<le> of_int n"
  with round_even_close [of q] have "of_int m - 1 / 2 \<le> (of_int (round_even q) :: rat)"
    "(of_int (round_even q) :: rat) \<le> of_int n + 1 / 2" by linarith+
  then have "(of_int m :: rat) < of_int (round_even q + 1)" "(of_int (round_even q) :: rat) < of_int (n + 1)" by auto
  then show ?thesis unfolding of_int_less_iff by simp
qed

lemma binade_unique:
  fixes x :: rat
  assumes "2 powi l \<le> x" "x < 2 powi (l + 1)" "2 powi l' \<le> x" "x < 2 powi (l' + 1)"
  shows "l = l'"
proof -
  have "(2 :: rat) powi l < 2 powi (l' + 1)" "(2 :: rat) powi l' < 2 powi (l + 1)" using assms by linarith+
  then have "\<not> l' + 1 \<le> l" "\<not> l + 1 \<le> l'"
    using power_int_increasing [of "l' + 1" l "2 :: rat"] power_int_increasing [of "l + 1" l' "2 :: rat"] by linarith+
  then show ?thesis by simp
qed

lemma binade_of:
  assumes "0 < x" "quotient_of x = (a, b)" "k = int (nat_bits (nat a)) - int (nat_bits (nat b))"
    and "l = (if 2 powi k \<le> x then k else k - 1)"
  shows "2 powi l \<le> x \<and> x < 2 powi (l + 1)"
proof -
  have x: "x = of_int a / of_int b" and b: "0 < b"
    using assms(2) quotient_of_div quotient_of_denom_pos by blast+
  then have a: "0 < a" using assms(1) by (simp add: zero_less_divide_iff)
  let ?A = "nat_bits (nat a)" and ?B = "nat_bits (nat b)"
  have bits: "int (2 ^ ?A) \<le> int (2 * nat a)" "int (nat a) < int (2 ^ ?A)"
    "int (2 ^ ?B) \<le> int (2 * nat b)" "int (nat b) < int (2 ^ ?B)"
    using nat_bits_bounds [of "nat a"] nat_bits_bounds [of "nat b"] a b unfolding of_nat_le_iff of_nat_less_iff by auto
  have i: "2 ^ ?A \<le> 2 * a" "a < 2 ^ ?A" "2 ^ ?B \<le> 2 * b" "b < 2 ^ ?B" using bits a b by simp_all
  have r: "(2 :: rat) ^ ?A \<le> 2 * of_int a" "(of_int a :: rat) < 2 ^ ?A" "(2 :: rat) ^ ?B \<le> 2 * of_int b" "(of_int b :: rat) < 2 ^ ?B"
    using i(1,3) [THEN iffD2 [OF of_int_le_iff [where 'a = rat]]] i(2,4) [THEN iffD2 [OF of_int_less_iff [where 'a = rat]]] by simp_all
  have k: "(2 :: rat) powi k = 2 ^ ?A / 2 ^ ?B" unfolding assms(3) by (simp add: power_int_diff)
  have bp: "(0 :: rat) < of_int b" using b by simp
  have up: "x < 2 powi (k + 1)"
  proof -
    have "(of_int a :: rat) * 2 ^ ?B < 2 ^ ?A * 2 ^ ?B" using r(2) by simp
    also have "\<dots> \<le> 2 ^ ?A * (2 * (of_int b :: rat))" using r(3) by simp
    finally have "of_int a / of_int b < 2 * (2 ^ ?A / 2 ^ ?B :: rat)" using bp by (simp add: field_simps)
    then show ?thesis unfolding x using k by (simp add: power_int_add mult.commute)
  qed
  have lo: "2 powi (k - 1) \<le> x"
  proof -
    have "2 ^ ?A * of_int b \<le> 2 * of_int a * (2 ^ ?B :: rat)"
      using mult_mono [OF r(1) less_imp_le [OF r(4)]] a bp by simp
    then have "(2 ^ ?A / 2 ^ ?B) / 2 \<le> (of_int a / of_int b :: rat)" using bp by (simp add: field_simps)
    then show ?thesis unfolding x using k by (simp add: power_int_diff)
  qed
  from up lo show ?thesis unfolding assms(4) by auto
qed

lemma fp_round_fits:
  assumes "0 < x" "quotient_of x = (a, b)" "k = int (nat_bits (nat a)) - int (nat_bits (nat b))"
    and "l = (if 2 powi k \<le> x then k else k - 1)" "e = max emin (l - (prec - 1))"
    and "y = of_int (round_even (x / 2 powi e)) * 2 powi e" "\<not> 2 powi emax \<le> y"
  shows "fp_round prec emin emax x = Some y"
proof -
  have "\<bar>x\<bar> = x" "(x = 0) = False" "sgn x * y = y" using assms(1) by simp_all
  then show ?thesis
    using assms(7) unfolding fp_round_def
    by (simp only: assms(2) Let_def prod.case assms(3) [symmetric] assms(4) [symmetric] assms(5) [symmetric]
        assms(6) [symmetric] if_False)
qed

text \<open>Rounding stays within the powers of two around a number in the normal range.\<close>

lemma to_double_binade:
  assumes "2 powi l \<le> x" "x < 2 powi (l + 1)" "- 1022 \<le> l" "l < 1023"
  shows "to_double x = Some (dconst x) \<and> 2 powi l \<le> dconst x \<and> dconst x \<le> 2 powi (l + 1)"
proof -
  have x: "0 < x" using assms(1) by (rule less_le_trans [rotated]) simp
  obtain a b where q: "quotient_of x = (a, b)" by fastforce
  let ?k = "int (nat_bits (nat a)) - int (nat_bits (nat b))"
  have l: "(if 2 powi ?k \<le> x then ?k else ?k - 1) = l"
    using binade_unique [OF _ _ assms(1,2)] binade_of [OF x q refl refl] by blast
  have e: "max (- 1074) (l - 52) = l - 52" using assms(3) by simp
  let ?m = "round_even (x / 2 powi (l - 52))"
  have p: "(2 :: rat) powi l = 2 ^ 52 * 2 powi (l - 52)" "(2 :: rat) powi (l + 1) = 2 ^ 53 * 2 powi (l - 52)"
    by (simp_all add: power_int_diff power_int_add)
  have "of_int (2 ^ 52) \<le> x / 2 powi (l - 52)" "x / 2 powi (l - 52) \<le> of_int (2 ^ 53)"
    using assms(1,2) unfolding p by (simp_all add: field_simps)
  from round_even_between [OF this] have "2 ^ 52 \<le> ?m" "?m \<le> 2 ^ 53" by simp_all
  then have "of_int (2 ^ 52) \<le> (of_int ?m :: rat)" "(of_int ?m :: rat) \<le> of_int (2 ^ 53)" unfolding of_int_le_iff by simp_all
  then have y: "2 powi l \<le> of_int ?m * (2 :: rat) powi (l - 52)" "of_int ?m * (2 :: rat) powi (l - 52) \<le> 2 powi (l + 1)"
    unfolding p by (simp_all add: mult_right_mono)
  have "(2 :: rat) powi (l + 1) < 2 powi 1024" using assms(4) by (intro power_int_strict_increasing) simp_all
  with y(2) have "\<not> 2 powi 1024 \<le> of_int ?m * (2 :: rat) powi (l - 52)" by linarith
  then have "to_double x = Some (of_int ?m * 2 powi (l - 52))"
    unfolding to_double_def fp_round_def Let_def using x by (simp add: q l e del: max_def)
  with y show ?thesis by (simp add: dconst_def)
qed

text \<open>Rounding a number up to an integer bound does not pass the bound.\<close>

lemma to_double_le_int:
  assumes "0 < x" "x \<le> of_int m" "x < 2 ^ 53"
  shows "to_double x = Some (dconst x) \<and> 0 \<le> dconst x \<and> dconst x \<le> of_int m"
proof -
  obtain a b where q: "quotient_of x = (a, b)" by fastforce
  define k where "k = int (nat_bits (nat a)) - int (nat_bits (nat b))"
  define l where "l = (if 2 powi k \<le> x then k else k - 1)"
  define e where "e = max (- 1074) (l - (53 - 1))"
  have l: "2 powi l \<le> x" using binade_of [OF assms(1) q k_def l_def] by simp
  have "\<not> 53 \<le> l"
  proof
    assume "53 \<le> l"
    then have "(2 :: rat) powi 53 \<le> 2 powi l" by (intro power_int_increasing) simp_all
    with l assms(3) show False by simp
  qed
  then have e: "e \<le> 0" by (simp add: e_def)
  let ?r = "round_even (x / 2 powi e)"
  have p: "(2 :: rat) powi e * 2 ^ nat (- e) = 1" using e by (simp add: power_int_def power_one_over)
  have pos: "(0 :: rat) < 2 powi e" by simp
  have "x / 2 powi e \<le> of_int m * 2 ^ nat (- e)"
  proof -
    have "x = x * (2 powi e * 2 ^ nat (- e))" using p by simp
    also have "\<dots> \<le> of_int m * (2 powi e * 2 ^ nat (- e))" using assms(2) p by simp
    finally show ?thesis using pos by (simp add: field_simps)
  qed
  then have "of_int 0 \<le> x / 2 powi e" "x / 2 powi e \<le> of_int (m * 2 ^ nat (- e))" using assms(1) by simp_all
  from round_even_between [OF this] have "0 \<le> ?r" "?r \<le> m * 2 ^ nat (- e)" by simp_all
  then have "0 \<le> (of_int ?r :: rat)" "(of_int ?r :: rat) \<le> of_int (m * 2 ^ nat (- e))" unfolding of_int_le_iff by simp_all
  then have y: "0 \<le> of_int ?r * (2 :: rat) powi e" "of_int ?r * (2 :: rat) powi e \<le> of_int m"
    using pos p mult_right_mono [of "of_int ?r" "of_int (m * 2 ^ nat (- e))" "(2 :: rat) powi e"]
    by (simp_all add: mult.assoc mult.commute [of "2 ^ nat (- e)"])
  have "?r \<le> 2 ^ 53 * 2 ^ nat (- e)"
  proof -
    have "x / 2 powi e \<le> of_int (2 ^ 53 * 2 ^ nat (- e))"
    proof -
      have "x * (2 powi e * 2 ^ nat (- e)) \<le> 2 ^ 53 * (2 powi e * 2 ^ nat (- e))" using assms(3) p by simp
      then show ?thesis using pos p by (simp add: field_simps)
    qed
    with round_even_between [of 0 "x / 2 powi e"] assms(1) show ?thesis by simp
  qed
  then have "(of_int ?r :: rat) \<le> of_int (2 ^ 53 * 2 ^ nat (- e))" unfolding of_int_le_iff .
  then have "of_int ?r * (2 :: rat) powi e \<le> 2 ^ 53"
    using pos p mult_right_mono [of "of_int ?r" "of_int (2 ^ 53 * 2 ^ nat (- e))" "(2 :: rat) powi e"]
    by (simp add: mult.assoc mult.commute [of "2 ^ nat (- e)"])
  moreover have "(2 :: rat) ^ 53 < 2 powi 1024" by (simp add: power_int_def)
  ultimately have "\<not> 2 powi 1024 \<le> of_int ?r * (2 :: rat) powi e" by linarith
  then have "to_double x = Some (of_int ?r * 2 powi e)"
    unfolding to_double_def by (rule fp_round_fits [OF assms(1) q k_def l_def e_def refl])
  with y show ?thesis by (simp add: dconst_def)
qed

section \<open>Arrays\<close>

definition is_sep :: "char \<Rightarrow> bool" where
  "is_sep c \<longleftrightarrow> isspace c \<or> c = CHR '',''"

lemma split_sign_length: "split_sign s = (neg, r) \<Longrightarrow> length r \<le> length s"
  by (cases s) (auto simp: split_sign_def split: if_splits)

lemma scan_word_shorter: "scan_word s = Some r \<Longrightarrow> length r < length s"
proof -
  have l: "strcaseeq (take n s) t \<Longrightarrow> 0 < length t \<Longrightarrow> length (drop k s) < length s" if "0 < k" for n t k
    using that by (cases s) (auto simp: strcaseeq_def dest: map_eq_imp_length_eq)
  have m: "length (drop k (drop 3 s)) \<le> length (drop 3 s)" for k by simp
  assume "scan_word s = Some r"
  then show ?thesis using l [of 8 8 "''infinity''"] l [of 3 3 "''inf''"] l [of 3 3 "''nan''"]
    by (auto simp: scan_word_def Let_def split: if_splits)
qed

lemma scan_digits_shorter:
  assumes "scan_digits base s = Some (m, k, r)"
  shows "length r < length s"
proof -
  define ip where "ip = takeWhile (is_digit base) s"
  have ip: "length ip \<le> length s" unfolding ip_def by (rule length_takeWhile_le)
  show ?thesis
  proof (cases "take 1 (drop (length ip) s) = ''.''")
    case True
    then have "drop (length ip) s \<noteq> []" by auto
    then have "length ip < length s" by simp
    with assms True show ?thesis unfolding ip_def [symmetric] scan_digits_def Let_def by (auto split: if_splits)
  next
    case False
    with assms ip show ?thesis unfolding scan_digits_def Let_def ip_def [symmetric]
      by (cases ip) (auto split: if_splits)
  qed
qed

lemma scan_exp_length: "scan_exp c s = (e, r) \<Longrightarrow> length r \<le> length s"
  by (cases s) (auto simp: scan_exp_def Let_def split: if_splits prod.splits dest: split_sign_length)

lemma hex_prefix_drop: "length (drop 2 s) \<le> length s" by simp

lemma strtod_shorter:
  assumes "strtod s = Some (v, rest)"
  shows "length rest < length s"
proof -
  obtain neg r where sg: "split_sign (dropWhile isspace s) = (neg, r)" by fastforce
  have "length r \<le> length s"
    using split_sign_length [OF sg] length_dropWhile_le [of isspace s] by simp
  moreover have "length rest < length r"
    using assms sg
    by (auto simp: strtod_def Let_def split: option.splits prod.splits if_splits
        dest!: scan_word_shorter scan_digits_shorter scan_exp_length)
  ultimately show ?thesis by simp
qed

text \<open>The loop of \<open>parse_float_array\<close>, from behind the bracket: all numbers up to the closing one.\<close>

function array_loop :: "string \<Rightarrow> rat list option" where
  "array_loop p =
     (if p = [] \<or> hd p = CHR '']'' then Some []
      else let p = dropWhile is_sep p
           in if p = [] \<or> hd p = CHR '']'' then Some []
              else case strtod p of
                     Some (Finite v, rest) \<Rightarrow> map_option (\<lambda>vs. v # vs) (array_loop rest)
                   | _ \<Rightarrow> None)"
  by pat_completeness auto
termination
  by (relation "measure length")
    (auto dest!: strtod_shorter intro: less_le_trans length_dropWhile_le)

declare array_loop.simps [simp del]

definition parse_float_array :: "string \<Rightarrow> nat \<Rightarrow> rat list option" where
  "parse_float_array val n =
     (case dropWhile (\<lambda>c. c \<noteq> CHR ''['') val of
        [] \<Rightarrow> None
      | _ # p \<Rightarrow> (case array_loop p of None \<Rightarrow> None | Some vs \<Rightarrow> if length vs = n then Some vs else None))"

section \<open>Lines\<close>

text \<open>\<open>fgets\<close> with a buffer of 512: at most 511 characters, up to and with a newline. A NUL in the file
  ends the C string.\<close>

definition line_span :: "string \<Rightarrow> nat" where
  "line_span s = (let l = length (takeWhile (\<lambda>c. c \<noteq> CHR 0x0A) s) in min 511 (if l < length s then l + 1 else l))"

lemma line_span_pos: "s \<noteq> [] \<Longrightarrow> 0 < line_span s"
  by (cases s) (auto simp: line_span_def Let_def)

function fgets_lines :: "string \<Rightarrow> string list" where
  "fgets_lines s =
     (if s = [] then []
      else takeWhile (\<lambda>c. c \<noteq> CHR 0x00) (take (line_span s) s) # fgets_lines (drop (line_span s) s))"
  by pat_completeness auto
termination by (relation "measure length") (auto simp: line_span_pos)

declare fgets_lines.simps [simp del]

section \<open>Facts\<close>

lemma lstrip_no_space: "s \<noteq> [] \<Longrightarrow> \<not> isspace (hd s) \<Longrightarrow> lstrip s = s"
  by (cases s) (simp_all add: lstrip_def)

lemma rstrip_no_space: "s \<noteq> [] \<Longrightarrow> \<not> isspace (last s) \<Longrightarrow> rstrip s = s"
  by (cases s rule: rev_cases) (simp_all add: rstrip_def)

lemma rstrip_append_space: "list_all isspace w \<Longrightarrow> rstrip (s @ w) = rstrip s"
  using dropWhile_append2 [of "rev w" isspace "rev s"] by (simp add: rstrip_def list_all_iff)

lemma strip_comment_from_plain:
  "CHR 0x22 \<notin> set s \<Longrightarrow> CHR ''#'' \<notin> set s \<Longrightarrow> strip_comment_from b (s @ t) = s @ strip_comment_from b t"
  by (induction s) auto

lemma strip_comment_from_quoted:
  "CHR 0x22 \<notin> set s \<Longrightarrow> strip_comment_from True (s @ t) = s @ strip_comment_from True t"
  by (induction s) auto

lemma copy_str_fits:
  assumes "copy_str home val n = COPY_OK s"
  shows "length s < n"
  using assms by (auto simp: copy_str_def expand_tilde_def Let_def split: if_splits option.splits)

lemma parse_int_range: "parse_int val = INT_OK v \<Longrightarrow> - (2 ^ 31) \<le> v \<and> v < 2 ^ 31"
  by (auto simp: parse_int_def split: option.splits prod.splits if_splits)

end
