(* ===== verification/Config.thy ===== *)
theory Config
  imports ConfigText "HOL-Library.Word"
begin

text \<open>
  src/config.c and include/config.h: the configuration file. A configuration is a function from the names of
  the fields of imud_config_t to values; the chains of key comparisons in apply_kv are tables, one per
  section, in the order of the code. Paths of the build and the environment (HOME, whether a file is there)
  are inputs; log messages are left out. The matrices are over the real numbers.
\<close>

datatype bus_kind = BUS_I2C | BUS_SPI

text \<open>A \<open>float\<close> that overflowed is \<open>Flt None\<close>.\<close>

datatype cval =
    Str string
  | Num int
  | Bool bool
  | Dbl rat
  | Flt "rat option"
  | Bus bus_kind
  | Vec "rat list"
  | Mat "real list list"

type_synonym config = "string \<Rightarrow> cval"

section \<open>Defaults\<close>

definition IMUD_STATEDIR :: string where "IMUD_STATEDIR = ''/var/lib/imud''"
definition IMUD_CAL_FILE :: string where "IMUD_CAL_FILE = ''/etc/imud/cal.json''"
definition IMUD_STREAM_SOCK :: string where "IMUD_STREAM_SOCK = ''/run/imud/imud-stream.sock''"
definition IMUD_WMM_ETC :: string where "IMUD_WMM_ETC = ''/etc/imud/WMM.COF''"
definition IMUD_WMM_DATA :: string where "IMUD_WMM_DATA = ''/usr/local/share/imud/WMM.COF''"

definition defaults_device :: "(string \<times> cval) list" where
  "defaults_device =
    [(''i2c_bus'', Str ''/dev/i2c-1''),
     (''gpio_chip'', Str ''gpiochip0''),
     (''sim_file'', Str []),
     (''sim_loop'', Bool False),
     (''sim_speed'', Flt (Some 1))]"

definition defaults_runtime :: "(string \<times> cval) list" where
  "defaults_runtime =
    [(''pid_file'', Str []),
     (''status_socket'', Str [])]"

definition defaults_capture :: "(string \<times> cval) list" where
  "defaults_capture =
    [(''capture_enabled'', Bool False),
     (''capture_dir'', Str IMUD_STATEDIR),
     (''capture_max_mb'', Num 256),
     (''capture_max_files'', Num 8),
     (''capture_flush_s'', Num 5)]"

definition defaults_imu :: "(string \<times> cval) list" where
  "defaults_imu =
    [(''imu_driver'', Str ''ism330dhcx''),
     (''imu_bus_kind'', Bus BUS_I2C),
     (''imu_spi_dev'', Str []),
     (''imu_spi_speed_hz'', Num 0),
     (''imu_addr'', Num 0x6B),
     (''imu_int_gpio'', Num 17),
     (''imu_odr_mhz'', Num 833000),
     (''imu_accel_g'', Num 8),
     (''imu_gyro_dps'', Num 2000),
     (''imu_fifo_wm'', Num 64),
     (''imu_int_grace'', Num 2),
     (''imu_poll_ms'', Num 0)]"

definition defaults_mag :: "(string \<times> cval) list" where
  "defaults_mag =
    [(''mag_driver'', Str ''mmc5983ma''),
     (''mag_bus_kind'', Bus BUS_I2C),
     (''mag_spi_dev'', Str []),
     (''mag_spi_speed_hz'', Num 0),
     (''mag_addr'', Num 0x30),
     (''mag_int_gpio'', Num 27),
     (''mag_odr_mhz'', Num 100000),
     (''mag_int_grace'', Num 2),
     (''mag_poll_ms'', Num 0),
     (''mag_set_period_s'', Flt (Some 5))]"

definition defaults_fusion :: "(string \<times> cval) list" where
  "defaults_fusion =
    [(''mag_yaw_only'', Bool True),
     (''mag_fuse_uncal'', Bool True),
     (''mag_uncal_reject_frac'', Dbl (dconst (2 / 5))),
     (''heave_tau_s'', Flt (Some 12)),
     (''wave_tau_s'', Flt (Some 120)),
     (''mekf_gyro_noise'', Dbl (dconst (7 / 1000))),
     (''mekf_gyro_bias'', Dbl (dconst (3 / 20000))),
     (''mekf_accel_noise'', Dbl (dconst (11 / 5000))),
     (''mekf_mag_noise'', Dbl (dconst (1 / 2500))),
     (''mekf_wave_accel'', Dbl (dconst (4 / 5))),
     (''mekf_wave_accel_tau_s'', Dbl (dconst (1 / 2))),
     (''mekf_mag_dip_sigma_deg'', Dbl 1),
     (''mag_reject_gauss'', Dbl (dconst (1 / 20))),
     (''accel_skip_thresh'', Dbl (dconst (1 / 20))),
     (''engine_vibration_g2'', Dbl 0),
     (''engine_accel_skip_thresh'', Dbl (dconst (1 / 5)))]"

definition defaults_calibration :: "(string \<times> cval) list" where
  "defaults_calibration =
    [(''cal_file'', Str IMUD_CAL_FILE),
     (''startup_settle_sec'', Dbl 5),
     (''gyro_bias_sec'', Dbl 2),
     (''align_window_sec'', Dbl 5)]"

definition defaults_nmea :: "(string \<times> cval) list" where
  "defaults_nmea =
    [(''nmea_enabled'', Bool False),
     (''nmea_rate_hz'', Num 10),
     (''nmea_dest_addr'', Str ''255.255.255.255''),
     (''nmea_dest_port'', Num 10110),
     (''nmea_tcp_enabled'', Bool False),
     (''nmea_tcp_bind_addr'', Str ''0.0.0.0''),
     (''nmea_tcp_port'', Num 10110)]"

definition defaults_highrate :: "(string \<times> cval) list" where
  "defaults_highrate =
    [(''highrate_enabled'', Bool False),
     (''highrate_rate_hz'', Num 500),
     (''highrate_dest_addr'', Str ''239.255.0.1''),
     (''highrate_dest_port'', Num 10111),
     (''highrate_coord_frame'', Str ''NED'')]"

definition defaults_stream :: "(string \<times> cval) list" where
  "defaults_stream =
    [(''stream_enabled'', Bool True),
     (''stream_socket'', Str IMUD_STREAM_SOCK),
     (''stream_rate_hz'', Num 100),
     (''stream_tcp_enabled'', Bool False),
     (''stream_tcp_bind_addr'', Str ''0.0.0.0''),
     (''stream_tcp_port'', Num 10112)]"

definition defaults_signalk :: "(string \<times> cval) list" where
  "defaults_signalk =
    [(''sk_enabled'', Bool False),
     (''sk_udp_enabled'', Bool False),
     (''sk_dest_addr'', Str ''127.0.0.1''),
     (''sk_dest_port'', Num 10113),
     (''sk_rate_hz'', Num 10),
     (''sk_source_label'', Str ''imud''),
     (''sk_tcp_enabled'', Bool False),
     (''sk_tcp_bind_addr'', Str ''0.0.0.0''),
     (''sk_tcp_port'', Num 10113)]"

definition defaults_shared :: "(string \<times> cval) list" where
  "defaults_shared =
    [(''publish_heave'', Bool True)]"

definition defaults_mqtt :: "(string \<times> cval) list" where
  "defaults_mqtt =
    [(''mqtt_enabled'', Bool False),
     (''mqtt_broker_enabled'', Bool False),
     (''mqtt_broker_addr'', Str ''127.0.0.1''),
     (''mqtt_broker_port'', Num 1883),
     (''mqtt_client_id'', Str ''imud''),
     (''mqtt_topic_prefix'', Str ''imud''),
     (''mqtt_rate_hz'', Num 5),
     (''mqtt_qos'', Num 0),
     (''mqtt_retain'', Bool True),
     (''mqtt_units'', Str ''deg''),
     (''mqtt_username'', Str []),
     (''mqtt_password'', Str []),
     (''mqtt_tls'', Bool False),
     (''mqtt_tls_cafile'', Str []),
     (''mqtt_keepalive_s'', Num 30),
     (''mqtt_ha_discovery'', Bool True),
     (''mqtt_ha_prefix'', Str ''homeassistant'')]"

definition defaults_influx :: "(string \<times> cval) list" where
  "defaults_influx =
    [(''influx_enabled'', Bool False),
     (''influx_transport'', Str []),
     (''influx_rate_hz'', Num 10),
     (''influx_measurement'', Str ''imud''),
     (''influx_source_label'', Str ''imud''),
     (''influx_units'', Str ''deg''),
     (''influx_detail'', Str ''health''),
     (''influx_udp_enabled'', Bool False),
     (''influx_udp_addr'', Str ''127.0.0.1''),
     (''influx_udp_port'', Num 8089),
     (''influx_http_enabled'', Bool False),
     (''influx_http_host'', Str ''127.0.0.1''),
     (''influx_http_port'', Num 8086),
     (''influx_http_path'', Str ''/write?db=imud&precision=ns''),
     (''influx_http_token'', Str [])]"

definition defaults_prom :: "(string \<times> cval) list" where
  "defaults_prom =
    [(''prom_enabled'', Bool False),
     (''prom_http_enabled'', Bool False),
     (''prom_listen_addr'', Str ''127.0.0.1''),
     (''prom_listen_port'', Num 9815)]"

definition defaults_mavlink :: "(string \<times> cval) list" where
  "defaults_mavlink =
    [(''mav_enabled'', Bool False),
     (''mav_version'', Num 2),
     (''mav_system_id'', Num 1),
     (''mav_component_id'', Num 1),
     (''mav_rate_hz'', Num 10),
     (''mav_send_attitude'', Bool True),
     (''mav_send_attitude_quaternion'', Bool True),
     (''mav_udp_enabled'', Bool False),
     (''mav_udp_addr'', Str ''127.0.0.1''),
     (''mav_udp_port'', Num 14550),
     (''mav_serial_enabled'', Bool False),
     (''mav_serial_device'', Str ''/dev/serial0''),
     (''mav_serial_baud'', Num 57600),
     (''mav_tcp_enabled'', Bool False),
     (''mav_tcp_bind_addr'', Str ''0.0.0.0''),
     (''mav_tcp_port'', Num 5760)]"

definition defaults_position :: "(string \<times> cval) list" where
  "defaults_position =
    [(''pos_declination_deg'', Flt (Some 0)),
     (''pos_declination_valid'', Bool False),
     (''pos_lat_deg'', Dbl 0),
     (''pos_lon_deg'', Dbl 0),
     (''pos_wmm_file'', Str []),
     (''pos_gpsd_enabled'', Bool False),
     (''pos_gpsd_host'', Str ''localhost''),
     (''pos_gpsd_port'', Num 2947),
     (''pos_signalk_enabled'', Bool False),
     (''pos_signalk_host'', Str ''localhost''),
     (''pos_signalk_port'', Num 3000),
     (''pos_signalk_path'', Str ''/signalk/v1/api/vessels/self/navigation/position''),
     (''pos_fix_max_age_h'', Flt (Some 24))]"

definition defaults_logging :: "(string \<times> cval) list" where
  "defaults_logging =
    [(''log_level'', Str ''warn''),
     (''log_file'', Str []),
     (''log_stats_hz'', Num 1)]"

text \<open>What \<open>memset\<close> leaves in the fields without a default of their own.\<close>

definition defaults_zero :: "(string \<times> cval) list" where
  "defaults_zero =
    [(''pos_mref_h_gauss'', Flt (Some 0)),
     (''pos_mref_z_gauss'', Flt (Some 0)),
     (''pos_mref_valid'', Bool False),
     (''pos_speed_mps'', Flt (Some 0)),
     (''pos_speed_valid'', Bool False),
     (''mount_set'', Bool False),
     (''mount_euler_deg'', Vec [0, 0, 0]),
     (''mount_rot'', Mat [[0, 0, 0], [0, 0, 0], [0, 0, 0]]),
     (''mount_preset'', Str [])]"

definition config_defaults :: config where
  "config_defaults f =
     (case map_of (concat [defaults_device, defaults_runtime, defaults_capture, defaults_imu, defaults_mag,
        defaults_fusion, defaults_calibration, defaults_nmea, defaults_highrate, defaults_stream, defaults_signalk,
        defaults_shared, defaults_mqtt, defaults_influx, defaults_prom, defaults_mavlink, defaults_position,
        defaults_logging, defaults_zero]) f of
        Some v \<Rightarrow> v | None \<Rightarrow> Str [])"

section \<open>Values\<close>

text \<open>The NEED macros of apply_kv, with the size of a string field or the bounds of a number.\<close>

datatype need =
    NEED_STR nat
  | NEED_TOPIC nat
  | NEED_FRAME nat
  | NEED_BOOL
  | NEED_INT
  | NEED_POS_INT
  | NEED_RANGE_INT int int
  | NEED_I2C_ADDR
  | NEED_POS_MHZ
  | NEED_FLT
  | NEED_DBL
  | NEED_POS_DBL
  | NEED_RANGE_DBL rat rat
  | NEED_BUS_KIND
  | NEED_DECL

type_synonym kv_row = "string \<times> string \<times> need"

text \<open>The milli-Hertz of a rate: \<open>(int) (dv * 1000.0 + 0.5)\<close>, each step rounded, truncated at the end.\<close>

definition mhz_of :: "rat \<Rightarrow> int" where
  "mhz_of dv = \<lfloor>dconst (dconst (dv * 1000) + 1 / 2)\<rfloor>"

definition need_int :: "string \<Rightarrow> (int \<Rightarrow> bool) \<Rightarrow> string \<Rightarrow> bool \<times> (string \<times> cval) list" where
  "need_int f ok val =
     (case parse_int val of INT_OK iv \<Rightarrow> if ok iv then (True, [(f, Num iv)]) else (False, []) | _ \<Rightarrow> (False, []))"

definition need_dbl :: "string \<Rightarrow> (rat \<Rightarrow> bool) \<Rightarrow> string \<Rightarrow> bool \<times> (string \<times> cval) list" where
  "need_dbl f ok val =
     (case parse_double val of Some dv \<Rightarrow> if ok dv then (True, [(f, Dbl dv)]) else (False, []) | None \<Rightarrow> (False, []))"

definition need_str :: "string option \<Rightarrow> string \<Rightarrow> nat \<Rightarrow> string \<Rightarrow> bool \<times> (string \<times> cval) list" where
  "need_str home f n val = (case copy_str home val n of COPY_OK s \<Rightarrow> (True, [(f, Str s)]) | _ \<Rightarrow> (False, []))"

text \<open>Whether a value is taken, and the fields it sets either way.\<close>

fun need_apply :: "string option \<Rightarrow> string \<Rightarrow> need \<Rightarrow> string \<Rightarrow> bool \<times> (string \<times> cval) list" where
  "need_apply home f (NEED_STR n) val = need_str home f n val"
| "need_apply home f (NEED_TOPIC n) val =
     (if CHR ''+'' \<in> set val \<or> CHR ''#'' \<in> set val then (False, []) else need_str home f n val)"
| "need_apply home f (NEED_FRAME n) val =
     (case copy_str home val 8 of COPY_OK s \<Rightarrow> if s = ''NED'' then (True, [(f, Str (take (n - 1) s))]) else (False, [])
      | _ \<Rightarrow> (False, []))"
| "need_apply home f NEED_BOOL val = (case parse_bool val of Some b \<Rightarrow> (True, [(f, Bool b)]) | None \<Rightarrow> (False, []))"
| "need_apply home f NEED_INT val = need_int f (\<lambda>_. True) val"
| "need_apply home f NEED_POS_INT val = need_int f (\<lambda>iv. \<not> iv \<le> 0) val"
| "need_apply home f (NEED_RANGE_INT lo hi) val = need_int f (\<lambda>iv. \<not> (iv < lo \<or> iv > hi)) val"
| "need_apply home f NEED_I2C_ADDR val = need_int f (\<lambda>iv. \<not> (iv < 0 \<or> iv > 0x7F)) val"
| "need_apply home f NEED_POS_MHZ val =
     (case parse_double val of
        None \<Rightarrow> (False, [])
      | Some dv \<Rightarrow> if \<not> dv > 0 then (False, [])
                   else if dv > 2000000 then (False, [])
                   else let mhz = mhz_of dv in (\<not> mhz \<le> 0, [(f, Num mhz)]))"
| "need_apply home f NEED_FLT val =
     (case parse_double val of Some dv \<Rightarrow> (True, [(f, Flt (to_float dv))]) | None \<Rightarrow> (False, []))"
| "need_apply home f NEED_DBL val = need_dbl f (\<lambda>_. True) val"
| "need_apply home f NEED_POS_DBL val = need_dbl f (\<lambda>dv. dv > 0) val"
| "need_apply home f (NEED_RANGE_DBL lo hi) val = need_dbl f (\<lambda>dv. \<not> (dv < lo \<or> dv > hi)) val"
| "need_apply home f NEED_BUS_KIND val =
     (case copy_str home val 8 of
        COPY_OK s \<Rightarrow> if s \<noteq> ''i2c'' \<and> s \<noteq> ''spi'' then (False, [])
                     else (True, [(f, Bus (if s = ''spi'' then BUS_SPI else BUS_I2C))])
      | _ \<Rightarrow> (False, []))"
| "need_apply home f NEED_DECL val =
     (case parse_double val of
        Some dv \<Rightarrow> (True, [(f, Flt (to_float dv)), (''pos_declination_valid'', Bool (to_float dv \<noteq> Some 0))])
      | None \<Rightarrow> (False, []))"

fun set_fields :: "(string \<times> cval) list \<Rightarrow> config \<Rightarrow> config" where
  "set_fields [] cfg = cfg"
| "set_fields ((f, v) # us) cfg = set_fields us (cfg(f := v))"

section \<open>The keys of each section\<close>

definition kv_device :: "kv_row list" where
  "kv_device =
    [(''i2c_bus'', ''i2c_bus'', NEED_STR 64),
     (''gpio_chip'', ''gpio_chip'', NEED_STR 32),
     (''sim_file'', ''sim_file'', NEED_STR 256),
     (''sim_loop'', ''sim_loop'', NEED_BOOL),
     (''sim_speed'', ''sim_speed'', NEED_FLT)]"

definition kv_runtime :: "kv_row list" where
  "kv_runtime =
    [(''pid_file'', ''pid_file'', NEED_STR 256),
     (''status_socket'', ''status_socket'', NEED_STR 108)]"

definition kv_capture :: "kv_row list" where
  "kv_capture =
    [(''enabled'', ''capture_enabled'', NEED_BOOL),
     (''dir'', ''capture_dir'', NEED_STR 256),
     (''max_mb'', ''capture_max_mb'', NEED_INT),
     (''max_files'', ''capture_max_files'', NEED_INT),
     (''flush_s'', ''capture_flush_s'', NEED_INT)]"

definition kv_imu :: "kv_row list" where
  "kv_imu =
    [(''driver'', ''imu_driver'', NEED_STR 32),
     (''bus'', ''imu_bus_kind'', NEED_BUS_KIND),
     (''spi_dev'', ''imu_spi_dev'', NEED_STR 64),
     (''spi_speed_hz'', ''imu_spi_speed_hz'', NEED_INT),
     (''i2c_addr'', ''imu_addr'', NEED_I2C_ADDR),
     (''int_gpio'', ''imu_int_gpio'', NEED_RANGE_INT 0 255),
     (''odr_hz'', ''imu_odr_mhz'', NEED_POS_MHZ),
     (''accel_g'', ''imu_accel_g'', NEED_INT),
     (''gyro_dps'', ''imu_gyro_dps'', NEED_INT),
     (''fifo_wm'', ''imu_fifo_wm'', NEED_RANGE_INT 1 511),
     (''int_grace'', ''imu_int_grace'', NEED_POS_INT),
     (''poll_ms'', ''imu_poll_ms'', NEED_INT)]"

definition kv_mag :: "kv_row list" where
  "kv_mag =
    [(''driver'', ''mag_driver'', NEED_STR 32),
     (''bus'', ''mag_bus_kind'', NEED_BUS_KIND),
     (''spi_dev'', ''mag_spi_dev'', NEED_STR 64),
     (''spi_speed_hz'', ''mag_spi_speed_hz'', NEED_INT),
     (''i2c_addr'', ''mag_addr'', NEED_I2C_ADDR),
     (''int_gpio'', ''mag_int_gpio'', NEED_RANGE_INT 0 255),
     (''int_grace'', ''mag_int_grace'', NEED_POS_INT),
     (''poll_ms'', ''mag_poll_ms'', NEED_INT),
     (''odr_hz'', ''mag_odr_mhz'', NEED_POS_MHZ),
     (''set_period_s'', ''mag_set_period_s'', NEED_FLT)]"

definition kv_fusion :: "kv_row list" where
  "kv_fusion =
    [(''mag_yaw_only'', ''mag_yaw_only'', NEED_BOOL),
     (''mag_fuse_uncal'', ''mag_fuse_uncal'', NEED_BOOL),
     (''mag_uncal_reject_frac'', ''mag_uncal_reject_frac'', NEED_RANGE_DBL 0 1),
     (''heave_tau_s'', ''heave_tau_s'', NEED_FLT),
     (''wave_tau_s'', ''wave_tau_s'', NEED_FLT),
     (''mekf_gyro_noise'', ''mekf_gyro_noise'', NEED_POS_DBL),
     (''mekf_gyro_bias'', ''mekf_gyro_bias'', NEED_POS_DBL),
     (''mekf_accel_noise'', ''mekf_accel_noise'', NEED_POS_DBL),
     (''mekf_mag_noise'', ''mekf_mag_noise'', NEED_POS_DBL),
     (''mekf_wave_accel'', ''mekf_wave_accel'', NEED_DBL),
     (''mekf_wave_accel_tau_s'', ''mekf_wave_accel_tau_s'', NEED_DBL),
     (''mekf_mag_dip_sigma_deg'', ''mekf_mag_dip_sigma_deg'', NEED_DBL),
     (''mag_reject_gauss'', ''mag_reject_gauss'', NEED_DBL),
     (''accel_skip_thresh'', ''accel_skip_thresh'', NEED_RANGE_DBL (dconst (1 / 1000)) 1),
     (''engine_vibration_g2'', ''engine_vibration_g2'', NEED_DBL),
     (''engine_accel_skip_thresh'', ''engine_accel_skip_thresh'', NEED_RANGE_DBL (dconst (1 / 1000)) 1)]"

definition kv_calibration :: "kv_row list" where
  "kv_calibration =
    [(''file'', ''cal_file'', NEED_STR 256),
     (''startup_settle_sec'', ''startup_settle_sec'', NEED_DBL),
     (''gyro_bias_sec'', ''gyro_bias_sec'', NEED_DBL),
     (''align_window_sec'', ''align_window_sec'', NEED_DBL)]"

definition kv_nmea :: "kv_row list" where
  "kv_nmea =
    [(''enabled'', ''nmea_enabled'', NEED_BOOL),
     (''rate_hz'', ''nmea_rate_hz'', NEED_RANGE_INT 1 32000),
     (''dest_addr'', ''nmea_dest_addr'', NEED_STR 64),
     (''dest_port'', ''nmea_dest_port'', NEED_RANGE_INT 1 65535),
     (''tcp_enabled'', ''nmea_tcp_enabled'', NEED_BOOL),
     (''tcp_bind_addr'', ''nmea_tcp_bind_addr'', NEED_STR 64),
     (''tcp_port'', ''nmea_tcp_port'', NEED_RANGE_INT 1 65535)]"

definition kv_highrate :: "kv_row list" where
  "kv_highrate =
    [(''enabled'', ''highrate_enabled'', NEED_BOOL),
     (''rate_hz'', ''highrate_rate_hz'', NEED_RANGE_INT 1 32000),
     (''dest_addr'', ''highrate_dest_addr'', NEED_STR 64),
     (''dest_port'', ''highrate_dest_port'', NEED_RANGE_INT 1 65535),
     (''coord_frame'', ''highrate_coord_frame'', NEED_FRAME 8)]"

definition kv_stream :: "kv_row list" where
  "kv_stream =
    [(''enabled'', ''stream_enabled'', NEED_BOOL),
     (''socket'', ''stream_socket'', NEED_STR 108),
     (''rate_hz'', ''stream_rate_hz'', NEED_RANGE_INT 1 32000),
     (''tcp_enabled'', ''stream_tcp_enabled'', NEED_BOOL),
     (''tcp_bind_addr'', ''stream_tcp_bind_addr'', NEED_STR 64),
     (''tcp_port'', ''stream_tcp_port'', NEED_RANGE_INT 1 65535)]"

definition kv_signalk :: "kv_row list" where
  "kv_signalk =
    [(''enabled'', ''sk_enabled'', NEED_BOOL),
     (''udp_enabled'', ''sk_udp_enabled'', NEED_BOOL),
     (''socket'', ''stream_socket'', NEED_STR 108),
     (''dest_addr'', ''sk_dest_addr'', NEED_STR 64),
     (''dest_port'', ''sk_dest_port'', NEED_RANGE_INT 1 65535),
     (''rate_hz'', ''sk_rate_hz'', NEED_RANGE_INT 1 32000),
     (''source_label'', ''sk_source_label'', NEED_STR 32),
     (''publish_heave'', ''publish_heave'', NEED_BOOL),
     (''tcp_enabled'', ''sk_tcp_enabled'', NEED_BOOL),
     (''tcp_bind_addr'', ''sk_tcp_bind_addr'', NEED_STR 64),
     (''tcp_port'', ''sk_tcp_port'', NEED_RANGE_INT 1 65535)]"

definition kv_mqtt :: "kv_row list" where
  "kv_mqtt =
    [(''enabled'', ''mqtt_enabled'', NEED_BOOL),
     (''broker_enabled'', ''mqtt_broker_enabled'', NEED_BOOL),
     (''socket'', ''stream_socket'', NEED_STR 108),
     (''broker_addr'', ''mqtt_broker_addr'', NEED_STR 64),
     (''broker_port'', ''mqtt_broker_port'', NEED_RANGE_INT 1 65535),
     (''client_id'', ''mqtt_client_id'', NEED_STR 64),
     (''topic_prefix'', ''mqtt_topic_prefix'', NEED_TOPIC 64),
     (''rate_hz'', ''mqtt_rate_hz'', NEED_RANGE_INT 1 32000),
     (''qos'', ''mqtt_qos'', NEED_RANGE_INT 0 2),
     (''retain'', ''mqtt_retain'', NEED_BOOL),
     (''units'', ''mqtt_units'', NEED_STR 8),
     (''publish_heave'', ''publish_heave'', NEED_BOOL),
     (''username'', ''mqtt_username'', NEED_STR 64),
     (''password'', ''mqtt_password'', NEED_STR 128),
     (''tls'', ''mqtt_tls'', NEED_BOOL),
     (''tls_cafile'', ''mqtt_tls_cafile'', NEED_STR 256),
     (''keepalive_s'', ''mqtt_keepalive_s'', NEED_INT),
     (''ha_discovery'', ''mqtt_ha_discovery'', NEED_BOOL),
     (''ha_prefix'', ''mqtt_ha_prefix'', NEED_TOPIC 64)]"

definition kv_influx :: "kv_row list" where
  "kv_influx =
    [(''enabled'', ''influx_enabled'', NEED_BOOL),
     (''socket'', ''stream_socket'', NEED_STR 108),
     (''transport'', ''influx_transport'', NEED_STR 8),
     (''rate_hz'', ''influx_rate_hz'', NEED_RANGE_INT 1 32000),
     (''measurement'', ''influx_measurement'', NEED_STR 32),
     (''source_label'', ''influx_source_label'', NEED_STR 32),
     (''units'', ''influx_units'', NEED_STR 8),
     (''detail'', ''influx_detail'', NEED_STR 16),
     (''publish_heave'', ''publish_heave'', NEED_BOOL),
     (''udp_enabled'', ''influx_udp_enabled'', NEED_BOOL),
     (''udp_addr'', ''influx_udp_addr'', NEED_STR 64),
     (''udp_port'', ''influx_udp_port'', NEED_RANGE_INT 1 65535),
     (''http_enabled'', ''influx_http_enabled'', NEED_BOOL),
     (''http_host'', ''influx_http_host'', NEED_STR 64),
     (''http_port'', ''influx_http_port'', NEED_RANGE_INT 1 65535),
     (''http_path'', ''influx_http_path'', NEED_STR 192),
     (''http_token'', ''influx_http_token'', NEED_STR 128)]"

definition kv_prom :: "kv_row list" where
  "kv_prom =
    [(''enabled'', ''prom_enabled'', NEED_BOOL),
     (''http_enabled'', ''prom_http_enabled'', NEED_BOOL),
     (''socket'', ''stream_socket'', NEED_STR 108),
     (''listen_addr'', ''prom_listen_addr'', NEED_STR 64),
     (''listen_port'', ''prom_listen_port'', NEED_RANGE_INT 1 65535)]"

definition kv_mavlink :: "kv_row list" where
  "kv_mavlink =
    [(''enabled'', ''mav_enabled'', NEED_BOOL),
     (''socket'', ''stream_socket'', NEED_STR 108),
     (''version'', ''mav_version'', NEED_INT),
     (''system_id'', ''mav_system_id'', NEED_RANGE_INT 1 255),
     (''component_id'', ''mav_component_id'', NEED_RANGE_INT 1 255),
     (''rate_hz'', ''mav_rate_hz'', NEED_RANGE_INT 1 32000),
     (''send_attitude'', ''mav_send_attitude'', NEED_BOOL),
     (''send_attitude_quaternion'', ''mav_send_attitude_quaternion'', NEED_BOOL),
     (''udp_enabled'', ''mav_udp_enabled'', NEED_BOOL),
     (''udp_addr'', ''mav_udp_addr'', NEED_STR 64),
     (''udp_port'', ''mav_udp_port'', NEED_RANGE_INT 1 65535),
     (''serial_enabled'', ''mav_serial_enabled'', NEED_BOOL),
     (''serial_device'', ''mav_serial_device'', NEED_STR 64),
     (''serial_baud'', ''mav_serial_baud'', NEED_INT),
     (''tcp_enabled'', ''mav_tcp_enabled'', NEED_BOOL),
     (''tcp_bind_addr'', ''mav_tcp_bind_addr'', NEED_STR 64),
     (''tcp_port'', ''mav_tcp_port'', NEED_RANGE_INT 1 65535)]"

definition kv_logging :: "kv_row list" where
  "kv_logging =
    [(''level'', ''log_level'', NEED_STR 16),
     (''file'', ''log_file'', NEED_STR 256),
     (''stats_hz'', ''log_stats_hz'', NEED_RANGE_INT 1 100)]"

definition kv_position :: "kv_row list" where
  "kv_position =
    [(''declination_deg'', ''pos_declination_deg'', NEED_DECL),
     (''lat_deg'', ''pos_lat_deg'', NEED_RANGE_DBL (-90) 90),
     (''lon_deg'', ''pos_lon_deg'', NEED_RANGE_DBL (-180) 180),
     (''wmm_file'', ''pos_wmm_file'', NEED_STR 256),
     (''gpsd_enabled'', ''pos_gpsd_enabled'', NEED_BOOL),
     (''gpsd_host'', ''pos_gpsd_host'', NEED_STR 64),
     (''gpsd_port'', ''pos_gpsd_port'', NEED_RANGE_INT 1 65535),
     (''signalk_enabled'', ''pos_signalk_enabled'', NEED_BOOL),
     (''signalk_host'', ''pos_signalk_host'', NEED_STR 64),
     (''signalk_port'', ''pos_signalk_port'', NEED_RANGE_INT 1 65535),
     (''signalk_path'', ''pos_signalk_path'', NEED_STR 128),
     (''fix_max_age_h'', ''pos_fix_max_age_h'', NEED_FLT)]"

section \<open>Mount rotations\<close>

definition mat_mul3 :: "real list list \<Rightarrow> real list list \<Rightarrow> real list list" where
  "mat_mul3 A B = map (\<lambda>i. map (\<lambda>j. \<Sum>k\<leftarrow>[0..<3]. A ! i ! k * B ! k ! j) [0..<3]) [0..<3]"

text \<open>The error that \<open>validate_rotation\<close> sums up: the squared distance of the product with the transpose from
  the identity.\<close>

definition rotation_err :: "real list list \<Rightarrow> real" where
  "rotation_err R =
     (\<Sum>i\<leftarrow>[0..<3]. \<Sum>j\<leftarrow>[0..<3].
        ((\<Sum>k\<leftarrow>[0..<3]. R ! k ! i * R ! k ! j) - (if i = j then 1 else 0))\<^sup>2)"

definition det3 :: "real list list \<Rightarrow> real" where
  "det3 R =
     R!0!0 * (R!1!1 * R!2!2 - R!1!2 * R!2!1)
     - R!0!1 * (R!1!0 * R!2!2 - R!1!2 * R!2!0)
     + R!0!2 * (R!1!0 * R!2!1 - R!1!1 * R!2!0)"

definition validate_rotation :: "real list list \<Rightarrow> bool" where
  "validate_rotation R \<longleftrightarrow> \<not> sqrt (rotation_err R) > 1 / 10 ^ 6 \<and> \<not> det3 R < 0"

definition euler_deg_to_rot :: "rat list \<Rightarrow> real list list" where
  "euler_deg_to_rot euler =
     (let roll = of_rat (euler ! 0) * (pi / 180);
          pitch = of_rat (euler ! 1) * (pi / 180);
          yaw = of_rat (euler ! 2) * (pi / 180);
          cr = cos roll; sr = sin roll;
          cp = cos pitch; sp = sin pitch;
          cy = cos yaw; sy = sin yaw;
          Rx = [[1, 0, 0], [0, cr, - sr], [0, sr, cr]];
          Ry = [[cp, 0, sp], [0, 1, 0], [- sp, 0, cp]];
          Rz = [[cy, - sy, 0], [sy, cy, 0], [0, 0, 1]]
      in mat_mul3 Rz (mat_mul3 Ry Rx))"

definition mount_presets :: "(string \<times> rat list) list" where
  "mount_presets =
    [(''identity'', [0, 0, 0]), (''board_forward'', [0, 0, 0]),
     (''yaw_90'', [0, 0, 90]), (''rot_z_90'', [0, 0, 90]),
     (''yaw_180'', [0, 0, 180]), (''rot_z_180'', [0, 0, 180]),
     (''yaw_270'', [0, 0, 270]), (''rot_z_270'', [0, 0, 270]),
     (''roll_90'', [90, 0, 0]), (''rot_x_90'', [90, 0, 0]),
     (''roll_270'', [270, 0, 0]), (''rot_x_270'', [270, 0, 0]),
     (''pitch_90'', [0, 90, 0]), (''rot_y_90'', [0, 90, 0]),
     (''pitch_270'', [0, 270, 0]), (''rot_y_270'', [0, 270, 0])]"

definition preset_euler :: "string \<Rightarrow> rat list option" where
  "preset_euler name = map_option snd (find (\<lambda>(n, _). strcaseeq name n) mount_presets)"

definition rot_of_array :: "rat list \<Rightarrow> real list list" where
  "rot_of_array m = map (\<lambda>i. map (\<lambda>j. of_rat (m ! (i * 3 + j))) [0..<3]) [0..<3]"

text \<open>The keys of the mount section: whether the key is taken, and the fields it sets.\<close>

definition apply_mount :: "string option \<Rightarrow> string \<Rightarrow> string \<Rightarrow> bool \<times> (string \<times> cval) list" where
  "apply_mount home key val =
     (if key = ''rotation_euler_deg''
      then (case parse_float_array val 3 of
              None \<Rightarrow> (False, [])
            | Some angs \<Rightarrow>
                (True, [(''mount_set'', Bool True), (''mount_euler_deg'', Vec angs),
                        (''mount_rot'', Mat (euler_deg_to_rot angs))]))
      else if key = ''rotation_matrix''
      then (case parse_float_array val 9 of
              None \<Rightarrow> (False, [])
            | Some m \<Rightarrow>
                (let R = rot_of_array m
                 in if \<not> validate_rotation R then (False, [])
                    else (True, [(''mount_set'', Bool True), (''mount_rot'', Mat R), (''mount_euler_deg'', Vec [0, 0, 0])])))
      else if key = ''preset''
      then (case copy_str home val 32 of
              COPY_OK preset \<Rightarrow>
                (case preset_euler preset of
                   None \<Rightarrow> (False, [])
                 | Some e \<Rightarrow>
                     (True, [(''mount_preset'', Str preset), (''mount_set'', Bool True), (''mount_euler_deg'', Vec e),
                             (''mount_rot'', Mat (euler_deg_to_rot e))]))
            | _ \<Rightarrow> (False, []))
      else (True, []))"

section \<open>Sections and lines\<close>

datatype section_t =
    SEC_NONE | SEC_UNKNOWN | SEC_MOUNT | SEC_DEVICE | SEC_RUNTIME | SEC_CAPTURE | SEC_IMU | SEC_MAG | SEC_FUSION
  | SEC_CALIBRATION | SEC_NMEA | SEC_HIGHRATE | SEC_STREAM | SEC_SIGNALK | SEC_MQTT | SEC_INFLUX | SEC_PROM
  | SEC_MAVLINK | SEC_LOGGING | SEC_POSITION

definition section_names :: "(string \<times> section_t) list" where
  "section_names =
    [(''[mount]'', SEC_MOUNT), (''[device]'', SEC_DEVICE), (''[runtime]'', SEC_RUNTIME), (''[capture]'', SEC_CAPTURE),
     (''[imu]'', SEC_IMU), (''[mag]'', SEC_MAG), (''[fusion]'', SEC_FUSION), (''[calibration]'', SEC_CALIBRATION),
     (''[nmea]'', SEC_NMEA), (''[highrate]'', SEC_HIGHRATE), (''[stream]'', SEC_STREAM),
     (''[imud-signalk]'', SEC_SIGNALK), (''[imud-mqtt]'', SEC_MQTT), (''[imud-influxdb]'', SEC_INFLUX),
     (''[imud-prometheus]'', SEC_PROM), (''[imud-mavlink]'', SEC_MAVLINK), (''[logging]'', SEC_LOGGING),
     (''[position]'', SEC_POSITION)]"

definition parse_section :: "string \<Rightarrow> section_t" where
  "parse_section s = (case map_of section_names s of Some sec \<Rightarrow> sec | None \<Rightarrow> SEC_UNKNOWN)"

fun kv_rows :: "section_t \<Rightarrow> kv_row list" where
  "kv_rows SEC_DEVICE = kv_device"
| "kv_rows SEC_RUNTIME = kv_runtime"
| "kv_rows SEC_CAPTURE = kv_capture"
| "kv_rows SEC_IMU = kv_imu"
| "kv_rows SEC_MAG = kv_mag"
| "kv_rows SEC_FUSION = kv_fusion"
| "kv_rows SEC_CALIBRATION = kv_calibration"
| "kv_rows SEC_NMEA = kv_nmea"
| "kv_rows SEC_HIGHRATE = kv_highrate"
| "kv_rows SEC_STREAM = kv_stream"
| "kv_rows SEC_SIGNALK = kv_signalk"
| "kv_rows SEC_MQTT = kv_mqtt"
| "kv_rows SEC_INFLUX = kv_influx"
| "kv_rows SEC_PROM = kv_prom"
| "kv_rows SEC_MAVLINK = kv_mavlink"
| "kv_rows SEC_LOGGING = kv_logging"
| "kv_rows SEC_POSITION = kv_position"
| "kv_rows SEC_NONE = []"
| "kv_rows SEC_UNKNOWN = []"
| "kv_rows SEC_MOUNT = []"

text \<open>What the code decides for one key: whether it is taken, and the fields it sets. An unknown key is
  taken and sets nothing.\<close>

definition kv_effect :: "string option \<Rightarrow> section_t \<Rightarrow> string \<Rightarrow> string \<Rightarrow> bool \<times> (string \<times> cval) list" where
  "kv_effect home sec key val =
     (if sec = SEC_MOUNT then apply_mount home key val
      else case map_of (kv_rows sec) key of
             None \<Rightarrow> (True, [])
           | Some (f, need) \<Rightarrow> need_apply home f need val)"

definition apply_kv :: "string option \<Rightarrow> config \<Rightarrow> section_t \<Rightarrow> string \<Rightarrow> string \<Rightarrow> bool \<times> config" where
  "apply_kv home cfg sec key val = (case kv_effect home sec key val of (ok, us) \<Rightarrow> (ok, set_fields us cfg))"

text \<open>The body of the loop of \<open>config_load\<close>: the section, the configuration and whether a value was bad.\<close>

definition config_line :: "string option \<Rightarrow> string \<Rightarrow> section_t \<times> config \<times> bool \<Rightarrow> section_t \<times> config \<times> bool" where
  "config_line home line st =
     (case st of (sec, cfg, bad) \<Rightarrow>
        let p = rstrip (lstrip line)
        in if p = [] \<or> hd p = CHR ''#'' then st
           else let q = rstrip (strip_comment p)
                in if hd p = CHR ''['' then (parse_section q, cfg, bad)
                   else if CHR ''='' \<notin> set q then st
                   else let key = lstrip (rstrip (takeWhile (\<lambda>c. c \<noteq> CHR ''='') q));
                            val = rstrip (lstrip (drop 1 (dropWhile (\<lambda>c. c \<noteq> CHR ''='') q)))
                        in if key = [] then st
                           else case apply_kv home cfg sec key val of
                                  (ok, cfg) \<Rightarrow> (sec, cfg, bad \<or> \<not> ok))"

section \<open>Loading\<close>

definition CONFIG_ERR_OPEN :: int where "CONFIG_ERR_OPEN = -1"
definition CONFIG_ERR_PARSE :: int where "CONFIG_ERR_PARSE = -2"
definition CONFIG_ERR_PERM :: int where "CONFIG_ERR_PERM = -3"

text \<open>The argument says whether the file in the configuration directory can be read.\<close>

definition resolve_wmm_file :: "bool \<Rightarrow> config \<Rightarrow> config" where
  "resolve_wmm_file etc cfg =
     (if cfg ''pos_wmm_file'' \<noteq> Str [] then cfg
      else if etc then cfg(''pos_wmm_file'' := Str (take 255 IMUD_WMM_ETC))
      else cfg(''pos_wmm_file'' := Str (take 255 IMUD_WMM_DATA)))"

definition IMUD_SPI_MAG_SAFE_HZ :: int where "IMUD_SPI_MAG_SAFE_HZ = 2500000"

fun cstr :: "cval \<Rightarrow> string" where "cstr (Str s) = s" | "cstr _ = []"
fun cint :: "cval \<Rightarrow> int" where "cint (Num i) = i" | "cint _ = 0"
fun cbool :: "cval \<Rightarrow> bool" where "cbool (Bool b) = b" | "cbool _ = False"

text \<open>The part of a string before its last full stop.\<close>

definition before_dot :: "string \<Rightarrow> string option" where
  "before_dot s = (if CHR ''.'' \<in> set s then Some (rev (drop 1 (dropWhile (\<lambda>c. c \<noteq> CHR ''.'') (rev s)))) else None)"

definition bus_spi_same_controller :: "string \<Rightarrow> string \<Rightarrow> bool" where
  "bus_spi_same_controller a b =
     (if take 5 a = ''ftdi:'' \<and> take 5 b = ''ftdi:''
      then takeWhile (\<lambda>c. c \<notin> {CHR ''@'', CHR ''/''}) (drop 5 a) = takeWhile (\<lambda>c. c \<notin> {CHR ''@'', CHR ''/''}) (drop 5 b)
      else case (before_dot a, before_dot b) of (Some da, Some db) \<Rightarrow> da = db | _ \<Rightarrow> False)"

definition config_spi_mag_clock_risk :: "config \<Rightarrow> bool" where
  "config_spi_mag_clock_risk cfg =
     (if cfg ''imu_bus_kind'' \<noteq> Bus BUS_SPI \<or> cfg ''mag_bus_kind'' \<noteq> Bus BUS_SPI then False
      else if cint (cfg ''imu_spi_speed_hz'') \<le> 0 then False
      else if cint (cfg ''imu_spi_speed_hz'') \<ge> IMUD_SPI_MAG_SAFE_HZ then False
      else bus_spi_same_controller (cstr (cfg ''imu_spi_dev'')) (cstr (cfg ''mag_spi_dev'')))"

definition validate_bus :: "config \<Rightarrow> int" where
  "validate_bus cfg =
     (let rc = 0;
          rc = (if cfg ''imu_bus_kind'' = Bus BUS_SPI \<and> cstr (cfg ''imu_spi_dev'') = [] then CONFIG_ERR_PARSE else rc);
          rc = (if cfg ''mag_bus_kind'' = Bus BUS_SPI \<and> cstr (cfg ''mag_spi_dev'') = [] then CONFIG_ERR_PARSE else rc);
          rc = (if cint (cfg ''imu_spi_speed_hz'') < 0 \<or> cint (cfg ''mag_spi_speed_hz'') < 0 then CONFIG_ERR_PARSE else rc)
      in rc)"

text \<open>What opening the file gives.\<close>

datatype fopened = Opened string | NoEntry | Unreadable

definition config_load :: "string option \<Rightarrow> bool \<Rightarrow> fopened \<Rightarrow> config \<Rightarrow> int \<times> config" where
  "config_load home etc file cfg =
     (case file of
        NoEntry \<Rightarrow> (CONFIG_ERR_OPEN, resolve_wmm_file etc cfg)
      | Unreadable \<Rightarrow> (CONFIG_ERR_PERM, resolve_wmm_file etc cfg)
      | Opened txt \<Rightarrow>
          (case fold (config_line home) (fgets_lines txt) (SEC_NONE, cfg, False) of
             (sec, cfg, bad) \<Rightarrow>
               let rc = (if bad then CONFIG_ERR_PARSE else 0);
                   cfg = resolve_wmm_file etc cfg;
                   rc = (if validate_bus cfg \<noteq> 0 then CONFIG_ERR_PARSE else rc)
               in (rc, cfg)))"

text \<open>The fallback to the user's own file. The file system is a function from paths.\<close>

definition config_load_resolved ::
  "string option \<Rightarrow> bool \<Rightarrow> (string \<Rightarrow> fopened) \<Rightarrow> string \<Rightarrow> string option \<Rightarrow> config \<Rightarrow> nat \<Rightarrow> int \<times> config \<times> string" where
  "config_load_resolved home etc fs sys_path explicit_path cfg loaded_sz =
     (case explicit_path of
        Some path \<Rightarrow> (case config_load home etc (fs path) cfg of (rc, cfg) \<Rightarrow> (rc, cfg, take (loaded_sz - 1) path))
      | None \<Rightarrow>
          (case config_load home etc (fs sys_path) cfg of
             (rc, cfg) \<Rightarrow>
               if rc \<noteq> CONFIG_ERR_OPEN then (rc, cfg, take (loaded_sz - 1) sys_path)
               else let alt = take 255 (case home of Some h \<Rightarrow> h @ ''/.config/imud/imud.conf'' | None \<Rightarrow> sys_path)
                    in if sys_path = alt then (CONFIG_ERR_OPEN, cfg, take (loaded_sz - 1) sys_path)
                       else case config_load home etc (fs alt) cfg of
                              (alt_rc, cfg) \<Rightarrow>
                                if alt_rc = CONFIG_ERR_OPEN then (CONFIG_ERR_OPEN, cfg, take (loaded_sz - 1) sys_path)
                                else (alt_rc, cfg, take (loaded_sz - 1) alt)))"

section \<open>Users of a configuration\<close>

record bus_spec =
  kind :: bus_kind
  node :: string
  i2c_addr :: "8 word"
  spi_hz :: "32 word"

fun cbus :: "cval \<Rightarrow> bus_kind" where "cbus (Bus k) = k" | "cbus _ = BUS_I2C"

definition config_imu_bus_spec :: "config \<Rightarrow> bus_spec" where
  "config_imu_bus_spec cfg =
     \<lparr> kind = cbus (cfg ''imu_bus_kind''),
       node = cstr (cfg (if cfg ''imu_bus_kind'' = Bus BUS_SPI then ''imu_spi_dev'' else ''i2c_bus'')),
       i2c_addr = word_of_int (cint (cfg ''imu_addr'')),
       spi_hz = word_of_int (cint (cfg ''imu_spi_speed_hz'')) \<rparr>"

definition config_mag_bus_spec :: "config \<Rightarrow> bus_spec" where
  "config_mag_bus_spec cfg =
     \<lparr> kind = cbus (cfg ''mag_bus_kind''),
       node = cstr (cfg (if cfg ''mag_bus_kind'' = Bus BUS_SPI then ''mag_spi_dev'' else ''i2c_bus'')),
       i2c_addr = word_of_int (cint (cfg ''mag_addr'')),
       spi_hz = word_of_int (cint (cfg ''mag_spi_speed_hz'')) \<rparr>"

definition config_apply_influx_transport_compat :: "config \<Rightarrow> bool \<times> config" where
  "config_apply_influx_transport_compat cfg =
     (if cbool (cfg ''influx_udp_enabled'') \<or> cbool (cfg ''influx_http_enabled'') then (False, cfg)
      else if cstr (cfg ''influx_transport'') = ''http'' then (True, cfg(''influx_http_enabled'' := Bool True))
      else if cstr (cfg ''influx_transport'') = ''udp'' then (True, cfg(''influx_udp_enabled'' := Bool True))
      else (False, cfg))"

text \<open>The fields \<open>config_apply_hot\<close> assigns one by one; \<open>snprintf\<close> between fields of one size copies.\<close>

definition hot_fields :: "string list" where
  "hot_fields =
    [''nmea_rate_hz'', ''highrate_rate_hz'', ''stream_rate_hz'', ''log_stats_hz'', ''log_level'',
     ''mag_yaw_only'', ''mag_fuse_uncal'', ''mag_uncal_reject_frac'', ''heave_tau_s'', ''wave_tau_s'',
     ''mekf_gyro_noise'', ''mekf_gyro_bias'', ''mekf_accel_noise'', ''mekf_mag_noise'', ''mekf_wave_accel'',
     ''mekf_wave_accel_tau_s'', ''mekf_mag_dip_sigma_deg'', ''mag_reject_gauss'', ''accel_skip_thresh'',
     ''engine_vibration_g2'', ''engine_accel_skip_thresh'', ''pos_wmm_file'', ''pos_declination_deg'',
     ''pos_declination_valid'', ''pos_mref_h_gauss'', ''pos_mref_z_gauss'', ''pos_mref_valid'']"

definition config_apply_hot :: "config \<Rightarrow> config \<Rightarrow> config" where
  "config_apply_hot dst src = fold (\<lambda>f d. d(f := src f)) hot_fields dst"

end
