(* ===== verification/CaptureThread.thy ===== *)
theory CaptureThread
  imports Rotator Tap CaptureProps Config "HOL-Library.Signed_Division"
begin

text \<open>
  capture_thread of src/imu.c: it takes the records of the tap ring and writes them into the rotating files, stops
  at the first write that fails, and publishes what it does. Beside the state of the thread stand the directory, which is
  the list of its entries, the contents of the captures in it that the thread has written, by name, and the names of the
  captures it has started.
\<close>

section \<open>The thread\<close>

record cap_thread =
  ct_rot :: cap_rotator
  ct_entries :: "string list"
  ct_disk :: "string \<rightharpoonup> bytes"
  ct_names :: "string list"
  ct_ring :: cap_ring
  ct_flush_ns :: u64
  ct_last_flush :: u64
  ct_last_drops :: u64
  ct_prev_path :: string
  ct_failed :: bool
  ct_path :: string
  ct_bytes :: u64
  ct_drops :: u64
  ct_active :: bool
  ct_drop_log :: "u64 list"

text \<open>The contents by name after the rotator was called: an entry that was removed has none, the file that is open has what
  its writer has written, if it still has a name, and the others have what they had.\<close>

definition disk_sync :: "cap_rotator \<Rightarrow> string list \<Rightarrow> (string \<rightharpoonup> bytes) \<Rightarrow> (string \<rightharpoonup> bytes)" where
  "disk_sync rt entries disk =
     (\<lambda>n. if n \<notin> set entries then None else if n = rt_cur rt \<and> cw_f (rt_w rt) \<noteq> None then cw_f (rt_w rt) else disk n)"

text \<open>The names of the captures started, the newest first.\<close>

definition names_sync :: "cap_rotator \<Rightarrow> string list \<Rightarrow> string list" where
  "names_sync rt ns = (if cw_f (rt_w rt) = None \<or> ns \<noteq> [] \<and> hd ns = rt_cur rt then ns else rt_cur rt # ns)"

definition positive_u32 :: "int \<Rightarrow> u32" where
  "positive_u32 v = word_of_int (if v > 0 then v else 0)"

definition ct_open ::
  "open_env \<Rightarrow> string list \<Rightarrow> config \<Rightarrow> int \<Rightarrow> bytes \<Rightarrow> bytes option \<Rightarrow> bytes \<Rightarrow> u64 \<Rightarrow> cap_ring \<Rightarrow> cap_thread option" where
  "ct_open env entries cfg actual_odr_mhz imu_name mag_name version now ring =
     (case cap_rot_open env entries (positive_u32 (cint (cfg ''capture_max_mb'')))
             (positive_u32 (cint (cfg ''capture_max_files'')))
             (word_of_int ((actual_odr_mhz + 500) sdiv 1000)) (word_of_int actual_odr_mhz)
             (Some imu_name) (Some (case mag_name of Some n \<Rightarrow> n | None \<Rightarrow> map (\<lambda>c. of_char c) ''none'')) (Some version) of
        (rc, rot, entries) \<Rightarrow>
          if rc \<noteq> 0 then None
          else Some \<lparr>ct_rot = rot, ct_entries = entries, ct_disk = disk_sync rot entries Map.empty,
                 ct_names = names_sync rot [], ct_ring = ring,
                 ct_flush_ns = word_of_int (if cint (cfg ''capture_flush_s'') > 0 then cint (cfg ''capture_flush_s'') else 5)
                   * 1000000000,
                 ct_last_flush = now, ct_last_drops = 0, ct_prev_path = take 319 (cap_rot_path rot), ct_failed = False,
                 ct_path = [], ct_bytes = 0, ct_drops = 0, ct_active = False, ct_drop_log = []\<rparr>)"

text \<open>The loop over a batch; \<open>envs i\<close> is what the system does at the \<open>i\<close>-th write.\<close>

fun ct_writes :: "(nat \<Rightarrow> open_env) \<Rightarrow> nat \<Rightarrow> cap_ring_rec list \<Rightarrow> cap_thread \<Rightarrow> cap_thread" where
  "ct_writes envs i [] s = s"
| "ct_writes envs i (r # rs) s =
     (case cap_rot_write (envs i) (ct_entries s) (ct_rot s) r of
        (rc, rot, entries) \<Rightarrow>
          let s = s\<lparr>ct_rot := rot, ct_entries := entries, ct_disk := disk_sync rot entries (ct_disk s),
                     ct_names := names_sync rot (ct_names s)\<rparr>
          in if rc \<noteq> 0 then s\<lparr>ct_failed := True\<rparr> else ct_writes envs (i + 1) rs s)"

text \<open>What happens around a pass: the readers push before the pop and again before the drops are read.\<close>

record ct_in =
  ci_pushes :: "cap_ring_rec list"
  ci_late :: "cap_ring_rec list"
  ci_envs :: "nat \<Rightarrow> open_env"
  ci_flushed :: bool
  ci_now :: u64

definition ct_pass :: "ct_in \<Rightarrow> cap_thread \<Rightarrow> cap_thread" where
  "ct_pass inp s =
     (let s = s\<lparr>ct_ring := snd (tap_fill (ct_ring s) (ci_pushes inp))\<rparr>;
          (recs, ring) = cap_ring_pop 64 (ct_ring s);
          s = ct_writes (ci_envs inp) 0 recs (s\<lparr>ct_ring := ring\<rparr>);
          s = (if \<not> ct_failed s \<and> ci_now inp - ct_last_flush s \<ge> ct_flush_ns s
               then (let rc = cap_rot_flush (ci_flushed inp) (ct_rot s) in s\<lparr>ct_last_flush := ci_now inp\<rparr>) else s);
          s = (if ct_prev_path s \<noteq> cap_rot_path (ct_rot s)
               then s\<lparr>ct_prev_path := take 319 (cap_rot_path (ct_rot s))\<rparr> else s);
          s = s\<lparr>ct_ring := snd (tap_fill (ct_ring s) (ci_late inp))\<rparr>;
          drops = cap_ring_dropped (ct_ring s);
          s = (if drops \<noteq> ct_last_drops s
               then s\<lparr>ct_drop_log := ct_drop_log s @ [drops - ct_last_drops s], ct_last_drops := drops\<rparr> else s)
      in s\<lparr>ct_path := take 319 (cap_rot_path (ct_rot s)), ct_bytes := cap_rot_bytes (ct_rot s), ct_drops := drops,
           ct_active := \<not> ct_failed s\<rparr>)"

text \<open>The loop: it ends with the inputs, when the stop flag is set, or when a write has failed.\<close>

fun ct_loop :: "ct_in list \<Rightarrow> cap_thread \<Rightarrow> cap_thread" where
  "ct_loop [] s = s"
| "ct_loop (inp # inps) s = (if ct_failed s then s else ct_loop inps (ct_pass inp s))"

lemma ct_writes_ring [simp]: "ct_ring (ct_writes envs i rs s) = ct_ring s"
  by (induction envs i rs s rule: ct_writes.induct) (auto simp: Let_def split: prod.splits)

lemma cap_ring_pop_count: "cap_ring_pop n r = (xs, r') \<Longrightarrow> xs = [] \<and> r' = r \<or> nat (cr_count r') < nat (cr_count r)"
proof (induction n arbitrary: r xs r')
  case (Suc n)
  show ?case
  proof (cases "cr_count r > 0")
    case True
    let ?r = "r\<lparr>cr_tail := (cr_tail r + 1) mod CAP_RING_LEN, cr_count := cr_count r - 1\<rparr>"
    obtain ys where "cap_ring_pop n ?r = (ys, r')" using Suc.prems True by (auto simp: Let_def split: prod.splits)
    from Suc.IH [OF this] True show ?thesis by auto
  qed (use Suc.prems in auto)
qed auto

text \<open>The drain after the loop.\<close>

function ct_drain :: "(nat \<Rightarrow> nat \<Rightarrow> open_env) \<Rightarrow> nat \<Rightarrow> cap_thread \<Rightarrow> cap_thread" where
  "ct_drain envs k s =
     (if ct_failed s then s
      else case cap_ring_pop 64 (ct_ring s) of
             (recs, ring) \<Rightarrow>
               if recs = [] then s\<lparr>ct_ring := ring\<rparr>
               else ct_drain envs (k + 1) (ct_writes (envs k) 0 recs (s\<lparr>ct_ring := ring\<rparr>)))"
  by pat_completeness auto
termination
  by (relation "measure (\<lambda>(envs, k, s). nat (cr_count (ct_ring s)))") (auto dest: cap_ring_pop_count [OF sym])

declare ct_drain.simps [simp del]

definition ct_finish :: "(nat \<Rightarrow> nat \<Rightarrow> open_env) \<Rightarrow> cap_thread \<Rightarrow> cap_thread" where
  "ct_finish envs s =
     (let s = (if \<not> ct_failed s then ct_drain envs 0 s else s)
      in s\<lparr>ct_rot := cap_rot_close (ct_rot s), ct_active := False\<rparr>)"

definition capture_thread :: "(nat \<Rightarrow> nat \<Rightarrow> open_env) \<Rightarrow> ct_in list \<Rightarrow> cap_thread \<Rightarrow> cap_thread" where
  "capture_thread envs inps s = ct_finish envs (ct_loop inps s)"

definition imu_get_capture_status :: "nat \<Rightarrow> cap_thread \<Rightarrow> string \<times> u64 \<times> u64 \<times> bool" where
  "imu_get_capture_status path_sz s = (take (path_sz - 1) (ct_path s), ct_bytes s, ct_drops s, ct_active s)"

section \<open>What the files hold\<close>

fun tap_items :: "cap_ring_rec \<Rightarrow> cap_item list" where
  "tap_items (Tap_imu t s) = [Imu_item s t []]"
| "tap_items (Tap_mag t m) = [Mag_item m t []]"
| "tap_items (Tap_other k t) = []"

definition items_of :: "cap_ring_rec list \<Rightarrow> cap_item list" where
  "items_of rs = concat (map tap_items rs)"

definition tap_wf :: "cap_ring_rec \<Rightarrow> bool" where
  "tap_wf r \<longleftrightarrow> (\<forall>i \<in> set (tap_items r). item_wf i)"

lemma items_of_simps [simp]: "items_of [] = []" "items_of (r # rs) = tap_items r @ items_of rs"
  "items_of (rs @ rs') = items_of rs @ items_of rs'"
  by (simp_all add: items_of_def)

lemma items_wf: "\<forall>r \<in> set rs. tap_wf r \<Longrightarrow> i \<in> set (items_of rs) \<Longrightarrow> item_wf i"
  by (auto simp: items_of_def tap_wf_def)

lemma tap_items_writable: "i \<in> set (tap_items r) \<Longrightarrow> writable i"
  by (cases r) auto

text \<open>A header of the writer and whole records, perhaps with a part of one more.\<close>

definition file_holds :: "bytes \<Rightarrow> cap_item list \<Rightarrow> bytes \<Rightarrow> bool" where
  "file_holds bs is tail \<longleftrightarrow>
     (\<exists>a b c d e t0 t1. bs = hdr_encode (cap_new_header a b c d e t0 t1) @ concat (map item_bytes is) @ tail)"

definition file_torn :: "bytes \<Rightarrow> cap_item list \<Rightarrow> bool" where
  "file_torn bs is \<longleftrightarrow> (\<exists>tail. file_holds bs is tail \<and> (tail = [] \<or> (\<exists>i. item_wf i \<and> strict_prefix tail (item_bytes i))))"

lemma file_torn_reads:
  assumes "file_torn bs is" "\<forall>i \<in> set is. item_wf i"
  shows "\<exists>h. cap_load bs = (0, h, item_records is, 0)"
proof -
  from assms(1) obtain a b c d e t0 t1 tail
    where bs: "bs = hdr_encode (cap_new_header a b c d e t0 t1) @ [] @ concat (map item_bytes is) @ tail"
      and tail: "tail = [] \<or> (\<exists>i. item_wf i \<and> strict_prefix tail (item_bytes i))"
    unfolding file_torn_def file_holds_def append_Nil by blast
  let ?h = "cap_new_header a b c d e t0 t1"
  obtain f where f: "CaptureProps.at f (concat (map item_bytes is) @ tail)" "cap_load bs = (0, ?h, cap_read_all ?h f)"
    unfolding bs using cap_load_header [of ?h "[]" "concat (map item_bytes is) @ tail"] hdr_wf_new by auto
  from cap_read_all_items [OF f(1) assms(2), of ?h] obtain f' where f': "CaptureProps.at f' tail"
    "cap_read_all ?h f = (item_records is @ fst (cap_read_all ?h f'), snd (cap_read_all ?h f'))" by blast
  have "cap_read_all ?h f' = ([], 0)"
    using tail f'(1) cap_read_all_torn cap_read_all_end by blast
  with f f' show ?thesis by simp
qed

text \<open>Each file in \<open>ns\<close> that is still in the directory holds its part.\<close>

definition held :: "string list \<Rightarrow> (string \<rightharpoonup> bytes) \<Rightarrow> string list \<Rightarrow> cap_item list list \<Rightarrow> bool" where
  "held es disk ns parts \<longleftrightarrow> list_all2 (\<lambda>n is. n \<in> set es \<longrightarrow> (\<exists>bs. disk n = Some bs \<and> file_torn bs is)) ns parts"

lemma held_mono:
  "held es disk ns parts \<Longrightarrow> (\<And>n. n \<in> set ns \<Longrightarrow> n \<in> set es' \<Longrightarrow> n \<in> set es \<and> disk' n = disk n) \<Longrightarrow> held es' disk' ns parts"
  unfolding held_def by (erule list.rel_mono_strong) auto

section \<open>What pruning leaves of the thread's own captures\<close>

text \<open>Years have four digits so far.\<close>

definition dated :: "cap_rotator \<Rightarrow> bool" where
  "dated rt \<longleftrightarrow> fst (utc_date (rt_last_stamp rt div 86400)) \<le> 9999"

definition later :: "cap_rotator \<Rightarrow> cap_rotator \<Rightarrow> bool" where
  "later rt rt' \<longleftrightarrow> rt_last_stamp rt \<le> rt_last_stamp rt' \<and> rt_max_files rt' = rt_max_files rt"

lemma later_refl [simp]: "later rt rt"
  by (simp add: later_def)

lemma later_trans: "later a b \<Longrightarrow> later b c \<Longrightarrow> later a c"
  by (simp add: later_def)

lemma later_dated: "later rt rt' \<Longrightarrow> dated rt' \<Longrightarrow> dated rt"
  unfolding later_def dated_def by (meson div_le_mono order_trans utc_year_mono)

text \<open>How many of the captures \<open>ns\<close> are to be kept.\<close>

definition keep_count :: "cap_rotator \<Rightarrow> string list \<Rightarrow> nat" where
  "keep_count rt ns = (if rt_max_files rt = 0 then length ns else unat (rt_max_files rt))"

text \<open>The captures started sort by their age, and the file being written is there; if the directory was \<open>neat\<close> at the
  start, with no capture in it that is newer, so are the newest of them.\<close>

definition safe :: "bool \<Rightarrow> cap_rotator \<Rightarrow> string list \<Rightarrow> string list \<Rightarrow> bool" where
  "safe neat rt es ns \<longleftrightarrow> sorted_wrt (>) ns \<and> ns \<noteq> [] \<and> hd ns \<in> set es \<and>
     (neat \<longrightarrow> set (take (keep_count rt ns) ns) \<subseteq> set es)"

definition tidy :: "bool \<Rightarrow> cap_rotator \<Rightarrow> string list \<Rightarrow> string list \<Rightarrow> bool" where
  "tidy neat rt es ns \<longleftrightarrow> safe neat rt es ns \<and> (\<forall>n \<in> set ns. \<exists>t \<le> rt_last_stamp rt. n = capture_name t) \<and>
     (neat \<longrightarrow> distinct es \<and> unat (rt_max_files rt) < 2 ^ 31 \<and>
        (\<forall>e \<in> set es. is_capture_name e \<longrightarrow> e \<in> set ns \<or> e < last ns))"

lemma tidy_writer: "tidy neat (rt\<lparr>rt_w := w\<rparr>) es ns = tidy neat rt es ns"
  by (simp add: tidy_def safe_def keep_count_def)

lemma sorted_desc_last: "sorted_wrt (>) ns \<Longrightarrow> x \<in> set ns \<Longrightarrow> last ns \<le> (x :: string)"
  by (induction ns) (auto intro: less_imp_le)

lemma sorted_desc_above:
  assumes "sorted_wrt (>) ns" "x \<in> set (take k ns)"
  shows "card {y \<in> set ns. (x :: string) < y} < k"
proof -
  obtain j where j: "j < length ns" "j < k" "x = ns ! j" using assms(2) by (auto simp: in_set_conv_nth)
  have "{y \<in> set ns. x < y} \<subseteq> set (take j ns)"
  proof
    fix y assume "y \<in> {y \<in> set ns. x < y}"
    then obtain i where i: "i < length ns" "y = ns ! i" "ns ! j < ns ! i" by (auto simp: in_set_conv_nth j(3))
    then have "\<not> j < i" using sorted_wrt_nth_less [OF assms(1), of j i] by auto
    then have "i < j" using i(3) by (cases "i = j") auto
    then show "y \<in> set (take j ns)" using i(1,2) by (auto simp: in_set_conv_nth intro!: exI [of _ i])
  qed
  then have "card {y \<in> set ns. x < y} \<le> card (set (take j ns))" by (intro card_mono) auto
  also have "\<dots> \<le> j" using card_length [of "take j ns"] by simp
  finally show ?thesis using j(2) by simp
qed

text \<open>Whatever else is in the directory, a prune leaves the newest of the thread's own, however the system behaves.\<close>

lemma prune_keeps_own:
  assumes "distinct es" "sorted_wrt (>) ns" "unat (rt_max_files rt) < 2 ^ 31"
    and own: "\<forall>e \<in> set es. is_capture_name e \<longrightarrow> e \<in> set ns \<or> e < last ns"
    and x: "x \<in> set (take (keep_count rt ns) ns)" "x \<in> set es"
  shows "x \<in> set (cap_rot_prune rt dir_ok unlink_ok es)"
proof (cases "rt_max_files rt = 0 \<or> \<not> dir_ok")
  case False
  define names where "names = sort (prune_names es)"
  define k where "k = unat (rt_max_files rt)"
  have k: "sint (rt_max_files rt) = int k" "keep_count rt ns = k"
    using assms(3) False by (simp_all add: k_def sint_uint signed_take_bit_int_eq_self uint_nat keep_count_def del: of_nat_unat)
  have n: "distinct names" "sorted names" "set names \<subseteq> {e \<in> set es. is_capture_name e}"
    using assms(1) by (auto simp: names_def prune_names_def dest: in_set_takeD)
  have "x \<notin> set (take (length names - k) names)"
  proof
    assume "x \<in> set (take (length names - k) names)"
    then obtain i where i: "i < length names - k" "names ! i = x" by (auto simp: in_set_conv_nth)
    have "set (drop (Suc i) names) \<subseteq> {y \<in> set ns. x < y}"
    proof
      fix y assume y: "y \<in> set (drop (Suc i) names)"
      then obtain m where m: "m < length names - Suc i" "y = names ! (Suc i + m)" by (auto simp: in_set_conv_nth)
      define j where "j = Suc i + m"
      have j: "i < j" "j < length names" "y = names ! j" using m by (simp_all add: j_def)
      from j have "x \<le> y" "x \<noteq> y" using n(1,2) i by (auto simp: sorted_iff_nth_mono nth_eq_iff_index_eq)
      then have "x < y" by simp
      moreover have "last ns \<le> x" using sorted_desc_last [OF assms(2)] x(1) by (auto dest: in_set_takeD)
      moreover have "y \<in> set es" "is_capture_name y" using n(3) nth_mem [OF j(2)] unfolding j(3) [symmetric] by auto
      ultimately show "y \<in> {y \<in> set ns. x < y}" using own by force
    qed
    then have "card (set (drop (Suc i) names)) \<le> card {y \<in> set ns. x < y}" by (intro card_mono) auto
    moreover have "card (set (drop (Suc i) names)) = length names - Suc i" using distinct_card [OF distinct_drop [OF n(1)], of "Suc i"] by simp
    moreover have "card {y \<in> set ns. x < y} < k" using sorted_desc_above [OF assms(2) x(1)] k(2) by simp
    ultimately show False using i(1) by linarith
  qed
  then show ?thesis
    using x(2) False unfolding cap_rot_prune_def Let_def names_def [symmetric] k(1) prune_gone by simp
qed (use x in \<open>auto simp: cap_rot_prune_def\<close>)

lemma prune_keeps_current: "rt_cur rt \<in> set es \<Longrightarrow> rt_cur rt \<in> set (cap_rot_prune rt dir_ok unlink_ok es)"
  by (auto simp: cap_rot_prune_def Let_def)

lemma prune_subset: "set (cap_rot_prune rt dir_ok unlink_ok es) \<subseteq> set es" "distinct es \<Longrightarrow> distinct (cap_rot_prune rt dir_ok unlink_ok es)"
  by (auto simp: cap_rot_prune_def Let_def)

text \<open>One record onto an open file.\<close>

definition rot_item :: "acc \<Rightarrow> cap_rotator \<Rightarrow> string list \<Rightarrow> cap_ring_rec \<Rightarrow> int \<times> cap_rotator \<times> string list" where
  "rot_item acc rt es r =
     (case r of Tap_imu t x \<Rightarrow> (case cap_writer_imu acc (rt_w rt) x t of (k, v) \<Rightarrow> (k, rt\<lparr>rt_w := v\<rparr>, es))
      | Tap_mag t m \<Rightarrow> (case cap_writer_mag acc (rt_w rt) m t of (k, v) \<Rightarrow> (k, rt\<lparr>rt_w := v\<rparr>, es))
      | Tap_other k t \<Rightarrow> (0, rt, es))"

lemma rot_write_item:
  assumes rc: "rot_item acc rt es r = (rc, rt', es')" and w: "cw_f (rt_w rt) = Some bs" and wf: "tap_wf r"
  shows "\<exists>w' tail. rt' = rt\<lparr>rt_w := w'\<rparr> \<and> cw_f w' = Some (bs @ tail) \<and>
    (rc = 0 \<longrightarrow> tail = concat (map item_bytes (tap_items r))) \<and>
    (rc \<noteq> 0 \<longrightarrow> (\<exists>i. item_wf i \<and> strict_prefix tail (item_bytes i)))"
proof -
  have ext: "\<exists>tail. cw_f v = Some (bs @ tail) \<and> (k = 0 \<longrightarrow> tail = item_bytes i) \<and>
      (k \<noteq> 0 \<longrightarrow> (\<exists>i. item_wf i \<and> strict_prefix tail (item_bytes i)))"
    if "cap_write_item acc (rt_w rt) i = (k, v)" "item_wf i" "writable i" for i k v
    using cap_write_item_extends [OF that(2,3) w, of acc] that(1,2) by (auto simp: extends_def)
  show ?thesis
  proof (cases r)
    case (Tap_imu t x)
    obtain k v where "cap_writer_imu acc (rt_w rt) x t = (k, v)" by fastforce
    with ext [of "Imu_item x t []" k v] rc wf Tap_imu show ?thesis
      by (intro exI [of _ v]) (simp add: tap_wf_def rot_item_def)
  next
    case (Tap_mag t m)
    obtain k v where "cap_writer_mag acc (rt_w rt) m t = (k, v)" by fastforce
    with ext [of "Mag_item m t []" k v] rc wf Tap_mag show ?thesis
      by (intro exI [of _ v]) (simp add: tap_wf_def rot_item_def)
  next
    case Tap_other
    then show ?thesis using rc w by (intro exI [of _ "rt_w rt"] exI [of _ "[]"]) (simp add: rot_item_def)
  qed
qed

lemma open_file_cases:
  assumes "cap_rot_open_file env es rt = (rc, rt', es')"
  shows "later rt rt' \<and>
    (if rc = 0 then rt_open rt' \<and> (\<exists>bs. cw_f (rt_w rt') = Some bs \<and> file_holds bs [] [])
     else rc = -1 \<and> cw_f (rt_w rt') = None)"
proof -
  have "rt_last_stamp rt < rt_last_stamp rt'" using cap_rot_open_file_name [OF assms] by auto
  moreover have "rt_max_files rt' = rt_max_files rt"
    using assms by (auto simp: cap_rot_open_file_def Let_def split: prod.splits if_splits)
  moreover have "cap_writer_open a b c d e f g t0 t1 = (0, w) \<Longrightarrow> \<exists>bs. cw_f w = Some bs \<and> file_holds bs [] []" for a b c d e f g t0 t1 w
    using fwrite_cases [of a "hdr_encode (cap_new_header c d e f g t0 t1)" "[]"]
    by (fastforce simp: cap_writer_open_def cap_writer_zero_def file_holds_def Let_def split: prod.splits if_splits)
  moreover have "cap_writer_open a b c d e f g t0 t1 = (k, w) \<Longrightarrow> k \<noteq> 0 \<Longrightarrow> cw_f w = None" for a b c d e f g t0 t1 w k
    by (auto simp: cap_writer_open_def cap_writer_zero_def Let_def split: prod.splits if_splits)
  ultimately show ?thesis using assms by (auto simp: cap_rot_open_file_def later_def Let_def split: prod.splits if_splits)
qed

text \<open>The directory after a file was opened: with the new file, and pruned, or perhaps with the rest of a failed one.\<close>

lemma open_file_dir:
  assumes "cap_rot_open_file env es rt = (rc, rt', es')"
  shows "\<exists>base. base = (if oe_created env \<and> rt_cur rt' \<notin> set es then es @ [rt_cur rt'] else es) \<and>
    (if rc = 0 then oe_created env \<and> es' = cap_rot_prune rt' (oe_dir_ok env) (oe_unlink_ok env) base else es' = base)"
proof -
  have "cap_writer_open a b c d e f g t0 t1 = (0, w) \<Longrightarrow> b" for a b c d e f g t0 t1 w
    by (simp add: cap_writer_open_def split: if_splits)
  with assms show ?thesis by (auto simp: cap_rot_open_file_def Let_def split: prod.splits if_splits)
qed

lemma open_tidy:
  assumes op: "cap_rot_open_file env es rt = (0, rt', es')" and rt': "dated rt'"
    and ns: "sorted_wrt (>) ns" "\<forall>n \<in> set ns. \<exists>t \<le> rt_last_stamp rt. n = capture_name t"
    and neat: "neat \<Longrightarrow> unat (rt_max_files rt) < 2 ^ 31" "neat \<Longrightarrow> distinct es" "neat \<Longrightarrow> set (take (keep_count rt ns) ns) \<subseteq> set es"
      "neat \<Longrightarrow> \<forall>e \<in> set es. is_capture_name e \<longrightarrow> e \<in> set ns \<or> e < last (rt_cur rt' # ns)"
  shows "tidy neat rt' es' (rt_cur rt' # ns) \<and> set es' \<subseteq> insert (rt_cur rt') (set es)"
proof -
  note new = capture_names_increase [OF op rt'(1) [unfolded dated_def]]
  have mf: "rt_max_files rt' = rt_max_files rt" using open_file_cases [OF op] by (simp add: later_def)
  have above: "\<forall>n \<in> set ns. n < rt_cur rt'" using new ns(2) by auto
  then have sorted: "sorted_wrt (>) (rt_cur rt' # ns)" using ns(1) by simp
  define base where "base = (if rt_cur rt' \<notin> set es then es @ [rt_cur rt'] else es)"
  with open_file_dir [OF op] have es': "es' = cap_rot_prune rt' (oe_dir_ok env) (oe_unlink_ok env) base" by auto
  have base: "rt_cur rt' \<in> set base" "set base \<subseteq> insert (rt_cur rt') (set es)" by (auto simp: base_def)
  have sub: "set es' \<subseteq> set base" unfolding es' by (rule prune_subset(1))
  have "set (take (keep_count rt' (rt_cur rt' # ns)) (rt_cur rt' # ns)) \<subseteq> set es' \<and> distinct es' \<and>
      (\<forall>e \<in> set es'. is_capture_name e \<longrightarrow> e \<in> set (rt_cur rt' # ns) \<or> e < last (rt_cur rt' # ns))" if neat
  proof -
    note n = neat [OF that]
    have "rt_cur rt' \<notin> set es"
    proof
      assume "rt_cur rt' \<in> set es"
      with n(4) new above have "rt_cur rt' < last (rt_cur rt' # ns)" by blast
      with sorted_desc_last [OF sorted, of "rt_cur rt'"] show False by simp
    qed
    then have d: "distinct base" using n(2) by (simp add: base_def)
    have own: "\<forall>e \<in> set base. is_capture_name e \<longrightarrow> e \<in> set (rt_cur rt' # ns) \<or> e < last (rt_cur rt' # ns)"
      using n(4) base(2) by auto
    have "x \<in> set es'" if "x \<in> set (take (keep_count rt' (rt_cur rt' # ns)) (rt_cur rt' # ns))" for x
    proof -
      have "x = rt_cur rt' \<or> x \<in> set (take (keep_count rt ns) ns)"
        using that mf set_take_subset_set_take [of "unat (rt_max_files rt) - 1" "unat (rt_max_files rt)" ns]
        by (auto simp: keep_count_def take_Cons' split: if_splits)
      with n(3) base(1) have "x \<in> set base" by (auto simp: base_def)
      from prune_keeps_own [OF d sorted _ own that this] n(1) mf show ?thesis unfolding es' by simp
    qed
    moreover have "distinct es'" unfolding es' by (rule prune_subset(2) [OF d])
    ultimately show ?thesis using own sub by blast
  qed
  moreover have "rt_cur rt' \<in> set es'" unfolding es' using prune_keeps_current [OF base(1)] .
  moreover have "\<forall>n \<in> set (rt_cur rt' # ns). \<exists>t \<le> rt_last_stamp rt'. n = capture_name t"
    using ns(2) new by (metis less_imp_le_nat order_trans set_ConsD)
  ultimately show ?thesis using sorted sub base(2) neat(1) mf unfolding tidy_def safe_def by (auto simp del: last.simps)
qed

section \<open>What the state of the thread says\<close>

text \<open>While it writes: the newest file is the open one and holds the last part, the others hold the parts before.\<close>

definition ct_whole :: "bool \<Rightarrow> cap_thread \<Rightarrow> cap_item list \<Rightarrow> bool" where
  "ct_whole neat s is \<longleftrightarrow> rt_open (ct_rot s) \<and> tidy neat (ct_rot s) (ct_entries s) (ct_names s) \<and>
     (\<exists>bs older part parts. ct_names s = rt_cur (ct_rot s) # older \<and> cw_f (rt_w (ct_rot s)) = Some bs \<and>
        ct_disk s (rt_cur (ct_rot s)) = Some bs \<and> file_holds bs part [] \<and>
        held (ct_entries s) (ct_disk s) older parts \<and> is = concat (rev parts) @ part)"

text \<open>After a failure: the files hold a beginning.\<close>

definition ct_begun :: "bool \<Rightarrow> cap_thread \<Rightarrow> cap_item list \<Rightarrow> bool" where
  "ct_begun neat s is \<longleftrightarrow> safe neat (ct_rot s) (ct_entries s) (ct_names s) \<and>
     (\<exists>parts. held (ct_entries s) (ct_disk s) (ct_names s) parts \<and> prefix (concat (rev parts)) is)"

lemma file_holds_torn: "file_holds bs is [] \<Longrightarrow> file_torn bs is"
  by (auto simp: file_torn_def)

lemma ct_whole_parts:
  "ct_whole neat s is \<Longrightarrow> \<exists>parts. held (ct_entries s) (ct_disk s) (ct_names s) parts \<and> is = concat (rev parts)"
proof -
  assume "ct_whole neat s is"
  then obtain bs older part parts where "ct_names s = rt_cur (ct_rot s) # older" "ct_disk s (rt_cur (ct_rot s)) = Some bs"
    "file_holds bs part []" "held (ct_entries s) (ct_disk s) older parts" "is = concat (rev parts) @ part"
    by (auto simp: ct_whole_def)
  then show ?thesis by (intro exI [of _ "part # parts"]) (simp add: held_def file_holds_torn)
qed

text \<open>The files after a record has gone to an open file.\<close>

lemma holds_more: "file_holds bs is [] \<Longrightarrow> file_holds (bs @ concat (map item_bytes is')) (is @ is') []"
  by (auto simp: file_holds_def)

lemma holds_tail: "file_holds bs is [] \<Longrightarrow> file_holds (bs @ tail) is tail"
  by (auto simp: file_holds_def)

lemma torn_tail: "file_holds bs is [] \<Longrightarrow> item_wf i \<Longrightarrow> strict_prefix tail (item_bytes i) \<Longrightarrow> file_torn (bs @ tail) is"
  using holds_tail by (auto simp: file_torn_def)

lemma rot_item_onto:
  assumes "rot_item acc rt es r = (rc, rot, es')" "tap_wf r" "rt_open rt" "cw_f (rt_w rt) = Some bs" "file_holds bs part []"
    and tidy: "tidy neat rt es (rt_cur rt # older)"
    and older: "\<And>n. n \<in> set older \<Longrightarrow> n \<in> set es \<Longrightarrow> n \<in> set es0" "held es0 disk older parts"
    and ns: "ns = older \<or> ns = rt_cur rt # older"
    and s: "ct_rot s = rot" "ct_entries s = es'" "ct_disk s = disk_sync rot es' disk" "ct_names s = names_sync rot ns"
  shows "if rc = 0 then ct_whole neat s (concat (rev parts) @ part @ tap_items r) else ct_begun neat s (concat (rev parts) @ part)"
proof -
  from rot_write_item [OF assms(1,4,2)] obtain w' tail where w: "rot = rt\<lparr>rt_w := w'\<rparr>" "cw_f w' = Some (bs @ tail)"
    "rc = 0 \<longrightarrow> tail = concat (map item_bytes (tap_items r))"
    "rc \<noteq> 0 \<longrightarrow> (\<exists>i. item_wf i \<and> strict_prefix tail (item_bytes i))" by blast
  have es: "es' = es" using assms(1) by (auto simp: rot_item_def split: cap_ring_rec.splits prod.splits)
  from tidy have cur: "rt_cur rt \<notin> set older" "rt_cur rt \<in> set es"
    by (auto simp: tidy_def safe_def)
  have names: "ct_names s = rt_cur rt # older"
    using ns cur(1) s(4) w(1,2) by (cases older) (auto simp: names_sync_def)
  have t: "tidy neat rot es (rt_cur rt # older)" using tidy unfolding w(1) tidy_writer .
  have disk: "ct_disk s (rt_cur rt) = Some (bs @ tail)" "held es (ct_disk s) older parts"
    using cur w(1,2) s(3) es older(1) by (auto simp: disk_sync_def intro!: held_mono [OF older(2)])
  show ?thesis
  proof (cases "rc = 0")
    case True
    then have "file_holds (bs @ tail) (part @ tap_items r) []" using w(3) holds_more [OF assms(5)] by simp
    with True names t disk assms(3) s es w(1,2) show ?thesis by (force simp: ct_whole_def)
  next
    case False
    then have "file_torn (bs @ tail) part" using w(4) torn_tail [OF assms(5)] by blast
    then have "held es (ct_disk s) (ct_names s) (part # parts)" using disk names by (simp add: held_def)
    with False t names s es show ?thesis by (auto simp: ct_begun_def tidy_def intro!: exI [of _ "part # parts"])
  qed
qed

lemma cap_rot_write_later:
  "cap_rot_write env es rt r = (rc, rot, es') \<Longrightarrow> later rt rot"
proof -
  have item: "rot_item acc rt es r = (rc, rot, es') \<Longrightarrow> later rt rot" for acc rt es rc rot es'
    by (auto simp: rot_item_def later_def split: cap_ring_rec.splits prod.splits)
  have op: "cap_rot_open_file env es (rt\<lparr>rt_w := w, rt_open := False\<rparr>) = (k, rt1, es1) \<Longrightarrow> later rt rt1" for w k rt1 es1
    using open_file_cases [of env es "rt\<lparr>rt_w := w, rt_open := False\<rparr>"] by (simp add: later_def)
  assume w: "cap_rot_write env es rt r = (rc, rot, es')"
  obtain k rt1 es1 where o: "cap_rot_open_file env es (rt\<lparr>rt_w := cap_writer_close (rt_w rt), rt_open := False\<rparr>) = (k, rt1, es1)"
    by (rule prod_cases3)
  from w consider "rot = rt" | "rot_item (oe_acc env) rt es r = (rc, rot, es')" | "rot = rt1"
    | "rot_item (oe_acc env) rt1 es1 r = (rc, rot, es')"
    unfolding cap_rot_write_def rot_item_def o by (simp split: if_splits add: Let_def)
  then show ?thesis
    by cases (use item op [OF o] later_trans in \<open>blast intro: later_refl\<close>)+
qed

lemma write_step:
  assumes "ct_whole neat s is" "tap_wf r" "cap_rot_write env (ct_entries s) (ct_rot s) r = (rc, rot, es)" "dated rot"
    and s': "ct_rot s' = rot" "ct_entries s' = es" "ct_disk s' = disk_sync rot es (ct_disk s)" "ct_names s' = names_sync rot (ct_names s)"
  shows "if rc = 0 then ct_whole neat s' (is @ tap_items r) else ct_begun neat s' is"
proof -
  let ?rt = "ct_rot s"
  obtain bs older part parts where o: "rt_open ?rt" and t: "tidy neat ?rt (ct_entries s) (ct_names s)"
    and n: "ct_names s = rt_cur ?rt # older"
    and b: "cw_f (rt_w ?rt) = Some bs" and h: "file_holds bs part []" "held (ct_entries s) (ct_disk s) older parts"
    and "is": "is = concat (rev parts) @ part"
    and d: "ct_disk s (rt_cur ?rt) = Some bs"
    using assms(1) by (auto simp: ct_whole_def)
  define full where "full \<longleftrightarrow> rt_max_mb ?rt > 0 \<and> cw_bytes (rt_w ?rt) \<ge> ucast (rt_max_mb ?rt) * 1024 * 1024"
  show ?thesis
  proof (cases full)
    case False
    then have r: "rot_item (oe_acc env) ?rt (ct_entries s) r = (rc, rot, es)"
      using assms(3) o unfolding cap_rot_write_def full_def [symmetric] rot_item_def by simp
    from rot_item_onto [OF r assms(2) o b h(1) t [unfolded n] _ h(2) disjI2 [OF n] s'] show ?thesis by (simp add: "is")
  next
    case True
    obtain k rt1 es1 where op: "cap_rot_open_file env (ct_entries s) (?rt\<lparr>rt_w := cap_writer_close (rt_w ?rt), rt_open := False\<rparr>) = (k, rt1, es1)"
      (is "cap_rot_open_file _ _ ?closed = _") by (rule prod_cases3)
    from open_file_cases [OF op] have k: "if k = 0 then rt_open rt1 \<and> (\<exists>bs. cw_f (rt_w rt1) = Some bs \<and> file_holds bs [] [])
        else k = -1 \<and> cw_f (rt_w rt1) = None" and l: "later ?rt rt1"
      by (auto simp: later_def)
    have below: "\<forall>n \<in> set (ct_names s). n < rt_cur rt1" if "dated rt1"
      using t capture_names_increase [OF op that [unfolded dated_def]] by (auto simp: tidy_def)
    have all: "held (ct_entries s) (ct_disk s) (ct_names s) (part # parts)"
      using n d h by (simp add: held_def file_holds_torn)
    show ?thesis
    proof (cases "k = 0")
      case False
      then have r: "rc = -1" "rot = rt1" "es = es1" using assms(3) o True op unfolding cap_rot_write_def full_def by auto
      from False open_file_dir [OF op] have e: "set (ct_entries s) \<subseteq> set es1" "set es1 \<subseteq> insert (rt_cur rt1) (set (ct_entries s))"
        by auto
      have u: "ct_names s' = ct_names s" "ct_disk s' = (\<lambda>n. if n \<notin> set es1 then None else ct_disk s n)"
        using False k r s' by (auto simp: names_sync_def disk_sync_def)
      have "held es1 (ct_disk s') (ct_names s') (part # parts)"
        unfolding u by (rule held_mono [OF all]) (use e(2) below assms(4) r(2) in auto)
      moreover have "safe neat rt1 es1 (ct_names s')"
        using t e(1) l u by (auto simp: tidy_def safe_def keep_count_def later_def)
      ultimately show ?thesis using r s' by (auto simp: ct_begun_def "is" intro!: exI [of _ "part # parts"])
    next
      case True': True
      with k obtain bs1 where f: "rt_open rt1" "cw_f (rt_w rt1) = Some bs1" "file_holds bs1 [] []" by auto
      have r: "rot_item (oe_acc env) rt1 es1 r = (rc, rot, es)"
        using assms(3) o True op True' unfolding cap_rot_write_def full_def [symmetric] rot_item_def by simp
      have d1: "dated rt1" using rot_write_item [OF r f(2) assms(2)] assms(4) by (auto simp: dated_def)
      have c: "keep_count ?closed ns = keep_count ?rt ns" "rt_max_files ?closed = rt_max_files ?rt"
          "rt_last_stamp ?closed = rt_last_stamp ?rt" "last (rt_cur rt1 # ct_names s) = last (ct_names s)" for ns
        using n by (simp_all add: keep_count_def)
      have u: "tidy neat rt1 es1 (rt_cur rt1 # ct_names s) \<and> set es1 \<subseteq> insert (rt_cur rt1) (set (ct_entries s))"
        by (rule open_tidy [OF op [unfolded True'] d1]) (use t in \<open>simp only: c tidy_def safe_def; blast\<close>)+
      from u have b: "\<forall>n \<in> set (ct_names s). n < rt_cur rt1" by (simp add: tidy_def safe_def)
      have e: "n \<in> set (ct_entries s)" if "n \<in> set (ct_names s)" "n \<in> set es1" for n
        using u b that by auto
      show ?thesis
        using rot_item_onto [OF r assms(2) f u [THEN conjunct1] e all disjI1 [OF refl] s'] by (simp add: "is" split: if_splits)
    qed
  qed
qed

section \<open>Runs of the thread\<close>

definition ct_holds :: "bool \<Rightarrow> cap_thread \<Rightarrow> cap_item list \<Rightarrow> bool" where
  "ct_holds neat s is \<longleftrightarrow> (if ct_failed s then ct_begun neat s is else ct_whole neat s is)"

lemma ct_writes_later: "later (ct_rot s) (ct_rot (ct_writes envs i rs s))"
proof (induction envs i rs s rule: ct_writes.induct)
  case (2 envs i r rs s)
  obtain rc rot es where w: "cap_rot_write (envs i) (ct_entries s) (ct_rot s) r = (rc, rot, es)" by (rule prod_cases3)
  from cap_rot_write_later [OF w] "2.IH" [OF w [symmetric] refl refl] show ?case
    by (auto simp: w Let_def elim: later_trans)
qed simp

lemma ct_writes_hold:
  assumes "ct_whole neat s is" "\<not> ct_failed s" "\<forall>r \<in> set rs. tap_wf r" "dated (ct_rot (ct_writes envs i rs s))"
  shows "ct_holds neat (ct_writes envs i rs s) (is @ items_of rs)"
  using assms
proof (induction rs arbitrary: i s "is")
  case (Cons r rs)
  obtain rc rot es where w: "cap_rot_write (envs i) (ct_entries s) (ct_rot s) r = (rc, rot, es)" by (rule prod_cases3)
  let ?s = "s\<lparr>ct_rot := rot, ct_entries := es, ct_disk := disk_sync rot es (ct_disk s), ct_names := names_sync rot (ct_names s)\<rparr>"
  have d: "dated rot"
    using Cons.prems(4) ct_writes_later [of ?s envs "i + 1" rs] by (auto simp: w Let_def intro: later_dated split: if_splits)
  have step: "if rc = 0 then ct_whole neat ?s (is @ tap_items r) else ct_begun neat ?s is"
    by (rule write_step [OF Cons.prems(1) _ w d]) (use Cons.prems(3) in simp_all)
  show ?case
  proof (cases "rc = 0")
    case True
    with Cons.IH [of ?s "is @ tap_items r" "i + 1"] step Cons.prems(2,3,4) show ?thesis by (simp add: w)
  next
    case False
    then have "ct_begun neat (?s\<lparr>ct_failed := True\<rparr>) (is @ tap_items r @ items_of rs)"
      using step by (auto simp: ct_begun_def intro: prefix_prefix)
    with False show ?thesis by (simp add: w ct_holds_def)
  qed
qed (simp add: ct_holds_def)

text \<open>The part of pushed records that a tap ring takes.\<close>

definition tap_accepted :: "cap_ring \<Rightarrow> cap_ring_rec list \<Rightarrow> cap_ring_rec list" where
  "tap_accepted r xs = take (1024 - length (tap_contents r)) xs"

lemma tap_fill_facts:
  assumes "tap_inv r"
  shows "tap_inv (snd (tap_fill r xs)) \<and> tap_contents (snd (tap_fill r xs)) = tap_contents r @ tap_accepted r xs"
  using tapq.push_many_keeps_oldest [OF assms, of xs, folded tap_fill_many] tap_contents_le [OF assms]
  by (simp add: tap_accepted_def)

lemma tap_pop_facts:
  assumes "tap_inv r" "cap_ring_pop n r = (xs, r')"
  shows "tap_inv r' \<and> tap_contents r = xs @ tap_contents r' \<and> (xs = [] \<longrightarrow> n = 0 \<or> tap_contents r = [])"
  using tapq.pop_many_takes [OF assms(1), of n] assms(2) by (auto simp: tap_pop_many)

fun ct_accepted :: "ct_in list \<Rightarrow> cap_thread \<Rightarrow> cap_ring_rec list" where
  "ct_accepted [] s = []"
| "ct_accepted (inp # inps) s =
     (if ct_failed s then []
      else let ring = snd (tap_fill (ct_ring s) (ci_pushes inp))
           in tap_accepted (ct_ring s) (ci_pushes inp) @
              tap_accepted (snd (cap_ring_pop 64 ring)) (ci_late inp) @ ct_accepted inps (ct_pass inp s))"

text \<open>Everything accepted so far is in the files or still in the ring.\<close>

definition ct_inv :: "bool \<Rightarrow> cap_ring_rec list \<Rightarrow> cap_thread \<Rightarrow> bool" where
  "ct_inv neat rs s \<longleftrightarrow> tap_inv (ct_ring s) \<and>
     (if ct_failed s then ct_begun neat s (items_of rs)
      else \<exists>gone. rs = gone @ tap_contents (ct_ring s) \<and> ct_whole neat s (items_of gone))"

text \<open>The rest of a pass changes neither the files nor the rotator.\<close>

lemma ct_pass_shape:
  assumes "cap_ring_pop 64 (snd (tap_fill (ct_ring s) (ci_pushes inp))) = (recs, ring)"
    and "s1 = ct_writes (ci_envs inp) 0 recs (s\<lparr>ct_ring := ring\<rparr>)"
  shows "ct_entries (ct_pass inp s) = ct_entries s1 \<and> ct_disk (ct_pass inp s) = ct_disk s1 \<and>
    ct_names (ct_pass inp s) = ct_names s1 \<and> ct_rot (ct_pass inp s) = ct_rot s1 \<and>
    ct_failed (ct_pass inp s) = ct_failed s1 \<and> ct_ring (ct_pass inp s) = snd (tap_fill ring (ci_late inp))"
  using assms by (simp add: ct_pass_def Let_def)

lemma ct_holds_cong:
  "ct_holds neat s is \<Longrightarrow> ct_entries s' = ct_entries s \<Longrightarrow> ct_disk s' = ct_disk s \<Longrightarrow> ct_names s' = ct_names s \<Longrightarrow>
     ct_rot s' = ct_rot s \<Longrightarrow> ct_failed s' = ct_failed s \<Longrightarrow> ct_holds neat s' is"
  by (cases "ct_failed s") (simp_all add: ct_holds_def ct_whole_def ct_begun_def)

lemma ct_holds_more: "ct_failed s \<Longrightarrow> ct_holds neat s is \<Longrightarrow> ct_holds neat s (is @ is')"
  by (auto simp: ct_holds_def ct_begun_def intro: prefix_prefix)

lemma ct_pass_later: "later (ct_rot s) (ct_rot (ct_pass inp s))"
proof -
  obtain recs ring where p: "cap_ring_pop 64 (snd (tap_fill (ct_ring s) (ci_pushes inp))) = (recs, ring)" by fastforce
  from ct_pass_shape [OF p refl] ct_writes_later [of "s\<lparr>ct_ring := ring\<rparr>"] show ?thesis by simp
qed

lemma ct_loop_later: "later (ct_rot s) (ct_rot (ct_loop inps s))"
proof (induction inps arbitrary: s)
  case (Cons inp inps)
  from later_trans [OF ct_pass_later Cons.IH] show ?case by simp
qed simp

lemma ct_drain_later: "later (ct_rot s) (ct_rot (ct_drain envs k s))"
proof (induction envs k s rule: ct_drain.induct)
  case (1 envs k s)
  obtain recs ring where p: "cap_ring_pop 64 (ct_ring s) = (recs, ring)" by fastforce
  from ct_writes_later [of "s\<lparr>ct_ring := ring\<rparr>" "envs k" 0 recs] "1.IH" [OF _ p [symmetric]]
  show ?case by (auto simp: ct_drain.simps [of envs k s] p elim: later_trans)
qed

lemma ct_pass_inv:
  assumes "ct_inv neat rs s" "\<not> ct_failed s" "\<forall>r \<in> set (rs @ ci_pushes inp @ ci_late inp). tap_wf r"
    and "dated (ct_rot (ct_pass inp s))"
  shows "ct_inv neat (rs @ tap_accepted (ct_ring s) (ci_pushes inp) @
      tap_accepted (snd (cap_ring_pop 64 (snd (tap_fill (ct_ring s) (ci_pushes inp))))) (ci_late inp)) (ct_pass inp s)"
proof -
  let ?a = "tap_accepted (ct_ring s) (ci_pushes inp)"
  obtain gone where iv: "tap_inv (ct_ring s)" and d: "rs = gone @ tap_contents (ct_ring s)" "ct_whole neat s (items_of gone)"
    using assms(1,2) by (auto simp: ct_inv_def)
  obtain recs ring where p: "cap_ring_pop 64 (snd (tap_fill (ct_ring s) (ci_pushes inp))) = (recs, ring)" by fastforce
  let ?b = "tap_accepted ring (ci_late inp)"
  note f = tap_fill_facts [OF iv, of "ci_pushes inp"]
  from tap_pop_facts [OF _ p] f have r: "tap_inv ring" "tap_contents (ct_ring s) @ ?a = recs @ tap_contents ring" by auto
  define s1 where "s1 = ct_writes (ci_envs inp) 0 recs (s\<lparr>ct_ring := ring\<rparr>)"
  have "set recs \<subseteq> set (tap_contents (ct_ring s) @ ?a)" unfolding r(2) by simp
  also have "\<dots> \<subseteq> set (rs @ ci_pushes inp)" using d(1) by (auto simp: tap_accepted_def dest: in_set_takeD)
  finally have wf: "\<forall>r \<in> set recs. tap_wf r" using assms(3) by auto
  have w: "ct_whole neat (s\<lparr>ct_ring := ring\<rparr>) (items_of gone)" using d(2) by (simp add: ct_whole_def)
  have h: "ct_holds neat s1 (items_of gone @ items_of recs)"
    unfolding s1_def by (rule ct_writes_hold [OF w _ wf]) (use assms(2,4) ct_pass_shape [OF p refl] in simp_all)
  note sh = ct_pass_shape [OF p s1_def]
  note g = tap_fill_facts [OF r(1), of "ci_late inp"]
  have rs: "rs @ ?a @ ?b = (gone @ recs) @ tap_contents ring @ ?b" using r(2) d(1) by simp
  have "ct_holds neat (ct_pass inp s) (items_of (gone @ recs))" using ct_holds_cong [OF h] sh by simp
  then show ?thesis
    unfolding p snd_conv rs ct_inv_def using g sh ct_holds_more [of "ct_pass inp s" neat "items_of (gone @ recs)"]
    by (auto simp: ct_holds_def)
qed

lemma ct_loop_inv:
  assumes "ct_inv neat rs s" "\<forall>r \<in> set rs. tap_wf r" "\<forall>inp \<in> set inps. \<forall>r \<in> set (ci_pushes inp @ ci_late inp). tap_wf r"
    and "dated (ct_rot (ct_loop inps s))"
  shows "ct_inv neat (rs @ ct_accepted inps s) (ct_loop inps s)"
  using assms
proof (induction inps arbitrary: rs s)
  case (Cons inp inps)
  show ?case
  proof (cases "ct_failed s")
    case False
    let ?more = "tap_accepted (ct_ring s) (ci_pushes inp) @
      tap_accepted (snd (cap_ring_pop 64 (snd (tap_fill (ct_ring s) (ci_pushes inp))))) (ci_late inp)"
    have "dated (ct_rot (ct_pass inp s))"
      using later_dated [OF ct_loop_later] Cons.prems(4) False by simp
    then have iv: "ct_inv neat (rs @ ?more) (ct_pass inp s)" by (intro ct_pass_inv) (use Cons.prems False in auto)
    have "\<forall>r \<in> set (rs @ ?more). tap_wf r"
      using Cons.prems(2,3) by (auto simp: tap_accepted_def dest: in_set_takeD)
    from Cons.IH [OF iv this] Cons.prems(3,4) False show ?thesis by (simp add: Let_def)
  qed (use Cons.prems in simp)
qed simp

lemma ct_drain_inv:
  "ct_inv neat rs s \<Longrightarrow> \<forall>r \<in> set rs. tap_wf r \<Longrightarrow> dated (ct_rot (ct_drain envs k s)) \<Longrightarrow>
     ct_inv neat rs (ct_drain envs k s) \<and> (\<not> ct_failed (ct_drain envs k s) \<longrightarrow> tap_contents (ct_ring (ct_drain envs k s)) = [])"
proof (induction envs k s rule: ct_drain.induct)
  case (1 envs k s)
  show ?case
  proof (cases "ct_failed s")
    case False
    with "1.prems"(1) obtain gone where iv: "tap_inv (ct_ring s)" and d: "rs = gone @ tap_contents (ct_ring s)"
      "ct_whole neat s (items_of gone)" by (auto simp: ct_inv_def)
    obtain recs ring where p: "cap_ring_pop 64 (ct_ring s) = (recs, ring)" by fastforce
    note r = tap_pop_facts [OF iv p]
    show ?thesis
    proof (cases "recs = []")
      case True
      with r have "tap_contents ring = []" "tap_inv ring" "rs = gone" using d(1) by auto
      with True p d(2) False show ?thesis by (simp add: ct_drain.simps [of envs k s] ct_inv_def ct_whole_def)
    next
      case nonempty: False
      define s1 where "s1 = ct_writes (envs k) 0 recs (s\<lparr>ct_ring := ring\<rparr>)"
      have wf: "\<forall>r \<in> set recs. tap_wf r" using "1.prems"(2) d(1) r by auto
      have w: "ct_whole neat (s\<lparr>ct_ring := ring\<rparr>) (items_of gone)" using d(2) by (simp add: ct_whole_def)
      have d1: "dated (ct_rot (ct_writes (envs k) 0 recs (s\<lparr>ct_ring := ring\<rparr>)))"
        using "1.prems"(3) False nonempty p later_dated [OF ct_drain_later]
        by (simp add: ct_drain.simps [of envs k s])
      have "ct_holds neat s1 (items_of (gone @ recs))"
        unfolding s1_def using ct_writes_hold [OF w _ wf] False d1 by simp
      then have "ct_inv neat rs s1" using r d(1) ct_holds_more [of s1 neat "items_of (gone @ recs)"]
        by (auto simp: ct_inv_def ct_holds_def s1_def)
      from "1.IH" [OF False p [symmetric] nonempty] this "1.prems"(2,3)
      show ?thesis using False nonempty p by (simp add: ct_drain.simps [of envs k s] s1_def)
    qed
  qed (use "1.prems" in \<open>simp add: ct_drain.simps [of envs k s]\<close>)
qed

lemma ct_open_inv:
  assumes "ct_open env es cfg odr imu mag ver now ring = Some s" "tap_inv ring" "dated (ct_rot s)"
    and neat: "neat \<longleftrightarrow> distinct es \<and> (\<forall>e \<in> set es. is_capture_name e \<longrightarrow> e < rt_cur (ct_rot s)) \<and>
      cint (cfg ''capture_max_files'') < 2 ^ 31"
  shows "ct_inv neat (tap_contents ring) s \<and> \<not> ct_failed s \<and>
    (neat \<longrightarrow> unat (rt_max_files (ct_rot s)) = nat (cint (cfg ''capture_max_files'')))"
proof -
  obtain rc rot es' where o: "cap_rot_open env es (positive_u32 (cint (cfg ''capture_max_mb'')))
      (positive_u32 (cint (cfg ''capture_max_files''))) (word_of_int ((odr + 500) sdiv 1000)) (word_of_int odr)
      (Some imu) (Some (case mag of Some n \<Rightarrow> n | None \<Rightarrow> map (\<lambda>c. of_char c) ''none'')) (Some ver) = (rc, rot, es')"
    by (rule prod_cases3)
  with assms(1) have rc: "rc = 0" and s: "ct_rot s = rot" "ct_entries s = es'" "ct_disk s = disk_sync rot es' Map.empty"
    "ct_names s = names_sync rot []" "ct_ring s = ring" "\<not> ct_failed s"
    by (auto simp: ct_open_def split: if_splits)
  have mf: "unat (positive_u32 (cint (cfg ''capture_max_files''))) = nat (cint (cfg ''capture_max_files''))" if neat
    using that neat by (simp add: positive_u32_def unat_eq_nat_uint uint_word_of_int)
  note op = o [unfolded cap_rot_open_def rc]
  from open_file_cases [OF op] obtain bs where b: "rt_open rot" "cw_f (rt_w rot) = Some bs" "file_holds bs [] []"
    and l: "rt_max_files rot = positive_u32 (cint (cfg ''capture_max_files''))" by (auto simp: later_def)
  have n: "neat \<Longrightarrow> nat (cint (cfg ''capture_max_files'')) < 2 ^ 31" "neat \<Longrightarrow> distinct es"
    "neat \<Longrightarrow> \<forall>e \<in> set es. is_capture_name e \<longrightarrow> e < rt_cur rot" using neat s(1) by auto
  have "tidy neat rot es' [rt_cur rot] \<and> set es' \<subseteq> insert (rt_cur rot) (set es)"
    by (rule open_tidy [OF op]) (use n assms(3) s(1) mf in simp_all)
  note t = this [THEN conjunct1]
  then have "rt_cur rot \<in> set es'" by (simp add: tidy_def safe_def)
  then have "ct_whole neat s []"
    using s b t by (auto simp: ct_whole_def names_sync_def disk_sync_def held_def intro!: exI [of _ "[]"])
  with s assms(2) mf l show ?thesis by (auto simp: ct_inv_def)
qed

text \<open>C7: Whatever the readers push and the system does to the files, the captures the thread has started are in the order
  of their names, each that is still in the directory loads without an error as the records of its part, and
  the parts together are a beginning of the records the tap ring accepted, in order over all rotations; unless a write
  failed they are all of them. A file whose header could not be written is not one of them. No prune deletes the file being written: the last
  one started is in the directory.
  Of those before it the prunes delete only the oldest: as many of the newest as capture_max_files
  says (all when it says nothing) are in the directory, when the captures that were there before sort before the first
  one started and no name was listed twice. At the end the file is closed and the capture is no longer
  reported as active. The years of the stamps have four digits.\<close>

theorem capture_thread_keeps:
  assumes "ct_open env es cfg odr imu mag ver now ring = Some s0" "tap_inv ring"
    and "\<forall>r \<in> set (tap_contents ring). tap_wf r"
    and "\<forall>inp \<in> set inps. \<forall>r \<in> set (ci_pushes inp @ ci_late inp). tap_wf r"
    and "s = capture_thread envs inps s0" "taken = tap_contents ring @ ct_accepted inps s0"
    and "fst (utc_date (rt_last_stamp (ct_rot s) div 86400)) \<le> 9999"
  shows "\<not> ct_active s \<and> \<not> rt_open (ct_rot s) \<and>
    (\<exists>parts. list_all2 (\<lambda>n is. n \<in> set (ct_entries s) \<longrightarrow>
           (\<exists>bs h. ct_disk s n = Some bs \<and> cap_load bs = (0, h, item_records is, 0))) (ct_names s) parts \<and>
       prefix (concat (rev parts)) (items_of taken) \<and>
       (ct_failed s \<or> concat (rev parts) = items_of taken)) \<and>
    sorted_wrt (>) (ct_names s) \<and> ct_names s \<noteq> [] \<and> hd (ct_names s) \<in> set (ct_entries s) \<and>
    (distinct es \<and> (\<forall>e \<in> set es. is_capture_name e \<longrightarrow> e < rt_cur (ct_rot s0)) \<and> cint (cfg ''capture_max_files'') < 2 ^ 31 \<longrightarrow>
       set (take (if cint (cfg ''capture_max_files'') > 0 then nat (cint (cfg ''capture_max_files'')) else length (ct_names s))
              (ct_names s)) \<subseteq> set (ct_entries s))"
proof -
  define neat where "neat \<longleftrightarrow> distinct es \<and> (\<forall>e \<in> set es. is_capture_name e \<longrightarrow> e < rt_cur (ct_rot s0)) \<and>
    cint (cfg ''capture_max_files'') < 2 ^ 31"
  let ?l = "ct_loop inps s0"
  define d where "d = (if \<not> ct_failed ?l then ct_drain envs 0 ?l else ?l)"
  have s: "s = d\<lparr>ct_rot := cap_rot_close (ct_rot d), ct_active := False\<rparr>"
    unfolding assms(5) capture_thread_def ct_finish_def d_def Let_def ..
  have ld: "later (ct_rot s0) (ct_rot ?l)" "later (ct_rot ?l) (ct_rot d)"
    using ct_drain_later by (simp_all add: d_def ct_loop_later)
  have dd: "dated (ct_rot d)" using assms(7) by (simp add: s dated_def cap_rot_close_def split: if_splits)
  note dl = later_dated [OF ld(2) dd]
  note start = ct_open_inv [OF assms(1,2) later_dated [OF ld(1) dl] neat_def]
  have loop: "ct_inv neat taken ?l" unfolding assms(6) by (rule ct_loop_inv) (use start assms(3,4) dl in auto)
  have wf: "\<forall>r \<in> set taken. tap_wf r"
  proof -
    have "set (ct_accepted inps t) \<subseteq> (\<Union>inp \<in> set inps. set (ci_pushes inp @ ci_late inp))" for t
      by (induction inps t rule: ct_accepted.induct) (auto simp: Let_def tap_accepted_def dest: in_set_takeD)
    with assms(3,4) show ?thesis unfolding assms(6) by fastforce
  qed
  have d: "ct_inv neat taken d" "\<not> ct_failed d \<Longrightarrow> tap_contents (ct_ring d) = []"
    using loop ct_drain_inv [OF loop wf] dd by (auto simp: d_def)
  obtain parts where p: "held (ct_entries d) (ct_disk d) (ct_names d) parts" "prefix (concat (rev parts)) (items_of taken)"
    "ct_failed d \<or> concat (rev parts) = items_of taken" and safe: "safe neat (ct_rot d) (ct_entries d) (ct_names d)"
  proof (cases "ct_failed d")
    case True
    with d(1) that show ?thesis by (auto simp: ct_inv_def ct_begun_def)
  next
    case False
    with d have w: "ct_whole neat d (items_of taken)" by (auto simp: ct_inv_def)
    then have "safe neat (ct_rot d) (ct_entries d) (ct_names d)" by (simp add: ct_whole_def tidy_def)
    with ct_whole_parts [OF w] that show ?thesis by auto
  qed
  have pw: "\<forall>is \<in> set parts. \<forall>i \<in> set is. item_wf i"
    using set_mono_prefix [OF p(2)] items_wf [OF wf] by auto
  have "list_all2 (\<lambda>n is. n \<in> set (ct_entries d) \<longrightarrow>
      (\<exists>bs h. ct_disk d n = Some bs \<and> cap_load bs = (0, h, item_records is, 0))) (ct_names d) parts"
    using p(1) unfolding held_def by (rule list.rel_mono_strong) (use pw file_torn_reads in blast)
  moreover have "keep_count (ct_rot d) (ct_names d) =
      (if cint (cfg ''capture_max_files'') > 0 then nat (cint (cfg ''capture_max_files'')) else length (ct_names d))" if neat
    using ld start that by (auto simp: keep_count_def later_def unat_eq_zero [symmetric])
  ultimately show ?thesis using p(2,3) safe unfolding neat_def [symmetric] by (auto simp: s cap_rot_close_def safe_def)
qed

text \<open>
  A run with a rotation: one megabyte to a file, one file to keep, an older capture and another file in the directory,
  and 21000 passes with a sample each, of which 20164 fit in the first file.
\<close>

definition ct_example_env :: open_env where
  "ct_example_env = \<lparr>oe_time = 1000, oe_created = True, oe_acc = (\<lambda>f b. length b), oe_wall = 1, oe_mono = 2,
     oe_dir_ok = True, oe_unlink_ok = (\<lambda>_. True)\<rparr>"

definition ct_example_cfg :: config where
  "ct_example_cfg n = (if n = ''capture_max_mb'' \<or> n = ''capture_max_files'' then Num 1 else Num 0)"

definition ct_example_rec :: cap_ring_rec where
  "ct_example_rec = Tap_imu 5 imu_zero"

definition ct_example_in :: ct_in where
  "ct_example_in = \<lparr>ci_pushes = [ct_example_rec], ci_late = [], ci_envs = (\<lambda>_. ct_example_env), ci_flushed = True, ci_now = 7\<rparr>"

definition ct_example_entries :: "string list" where
  "ct_example_entries = [capture_name 5, ''notes'']"

definition ct_example_start :: cap_thread where
  "ct_example_start = the (ct_open ct_example_env ct_example_entries ct_example_cfg 833000 [] None [] 0 cap_ring_init)"

definition ct_example_run :: cap_thread where
  "ct_example_run = capture_thread (\<lambda>_ _. ct_example_env) (replicate 21000 ct_example_in) ct_example_start"

lemma utc_year_le: "fst (utc_date n) \<le> 1970 + n"
proof (induction n)
  case (Suc n)
  then show ?case by (cases "utc_date n") (auto simp: utc_date_def)
qed (simp add: utc_date_def)

lemma dated_early: "rt_last_stamp rt \<le> 600000000 \<Longrightarrow> dated rt"
  using utc_year_le [of "rt_last_stamp rt div 86400"] by (simp add: dated_def)

lemma free_stamp_bound: "snd (free_stamp k es t) \<le> t + k"
  by (induction k es t rule: free_stamp.induct) (auto simp: le_Suc_eq)

text \<open>What a file that was opened is, when the system refuses nothing.\<close>

lemma open_example:
  assumes "cap_rot_open_file ct_example_env es rt = (rc, rt', es')"
  shows "rc = 0 \<and> rt_open rt' \<and> rt_max_mb rt' = rt_max_mb rt \<and> cw_f (rt_w rt') \<noteq> None \<and>
     rt_last_stamp rt' \<le> max 1000 (rt_last_stamp rt + 1) + 600"
proof -
  let ?t = "if oe_time ct_example_env \<le> rt_last_stamp rt then rt_last_stamp rt + 1 else oe_time ct_example_env"
  obtain cur t where f: "free_stamp 600 es ?t = (cur, t)" by fastforce
  have "t \<le> ?t + 600" using free_stamp_bound [of 600 es ?t] f by simp
  also have "?t \<le> max 1000 (rt_last_stamp rt + 1)" by (simp add: ct_example_env_def)
  finally have "t \<le> max 1000 (rt_last_stamp rt + 1) + 600" by simp
  moreover have "rc = 0 \<and> rt_last_stamp rt' = t \<and> rt_open rt' \<and> rt_max_mb rt' = rt_max_mb rt \<and> cw_f (rt_w rt') \<noteq> None"
    using assms unfolding cap_rot_open_file_def Let_def f prod.case
    by (auto simp: cap_writer_open_def fwrite_def ct_example_env_def Let_def)
  ultimately show ?thesis by simp
qed

lemma write_example:
  "cw_f w \<noteq> None \<Longrightarrow> cap_writer_imu (oe_acc ct_example_env) w imu_zero t = (rc, w') \<Longrightarrow>
     rc = 0 \<and> cw_f w' \<noteq> None \<and> cw_bytes w' = cw_bytes w + 52"
  by (auto simp: cap_writer_imu_def cap_write_rec_def fwrite_def ct_example_env_def Let_def)

text \<open>After \<open>n\<close> passes nothing has failed, and there was a rotation or the first file holds all of them.\<close>

definition ct_example_at :: "nat \<Rightarrow> cap_thread \<Rightarrow> bool" where
  "ct_example_at n s \<longleftrightarrow> \<not> ct_failed s \<and> tap_inv (ct_ring s) \<and> tap_contents (ct_ring s) = [] \<and>
     rt_open (ct_rot s) \<and> rt_max_mb (ct_rot s) = 1 \<and> cw_f (rt_w (ct_rot s)) \<noteq> None \<and>
     rt_last_stamp (ct_rot s) \<le> 2000 + 1000 * n \<and>
     (\<exists>t \<le> rt_last_stamp (ct_rot s). rt_cur (ct_rot s) = capture_name t) \<and>
     ct_names s \<noteq> [] \<and> hd (ct_names s) = rt_cur (ct_rot s) \<and>
     (2 \<le> length (ct_names s) \<or> n \<le> 20164 \<and> cw_bytes (rt_w (ct_rot s)) = of_nat (104 + 52 * n))"

lemma ct_example_write:
  assumes at: "ct_example_at n s" "n < 21000"
    and w: "cap_rot_write ct_example_env (ct_entries s) (ct_rot s) ct_example_rec = (rc, rot, es)"
    and s': "s' = s\<lparr>ct_rot := rot, ct_entries := es, ct_disk := d, ct_names := names_sync rot (ct_names s)\<rparr>"
  shows "rc = 0 \<and> ct_example_at (Suc n) s'"
proof -
  let ?rt = "ct_rot s"
  let ?closed = "?rt\<lparr>rt_w := cap_writer_close (rt_w ?rt), rt_open := False\<rparr>"
  define full where "full \<longleftrightarrow> rt_max_mb ?rt > 0 \<and> cw_bytes (rt_w ?rt) \<ge> ucast (rt_max_mb ?rt) * 1024 * 1024"
  show ?thesis
  proof (cases full)
    case False
    obtain k w' where i: "cap_writer_imu (oe_acc ct_example_env) (rt_w ?rt) imu_zero 5 = (k, w')" by fastforce
    have "rc = k" "rot = ?rt\<lparr>rt_w := w'\<rparr>"
      using w at(1) False i unfolding cap_rot_write_def full_def [symmetric] by (simp_all add: ct_example_rec_def ct_example_at_def)
    moreover have "Suc n \<le> 20164" if "cw_bytes (rt_w ?rt) = of_nat (104 + 52 * n)"
    proof -
      have "(of_nat (104 + 52 * n) :: u64) < 1048576" using False at(1) that by (simp add: full_def ct_example_at_def not_le)
      moreover have "unat (of_nat (104 + 52 * n) :: u64) = 104 + 52 * n"
        using at(2) take_bit_nat_eq_self [of "104 + 52 * n" 64] by (simp del: of_nat_add of_nat_mult add: unsigned_of_nat)
      ultimately show ?thesis unfolding word_less_nat_alt by simp
    qed
    ultimately show ?thesis using write_example [OF _ i] at(1) by (auto simp: ct_example_at_def s' names_sync_def)
  next
    case True
    obtain k1 rt1 es1 where o': "cap_rot_open_file ct_example_env (ct_entries s) ?closed = (k1, rt1, es1)" by (rule prod_cases3)
    note r1 = open_example [OF o']
    from o' r1 have o: "cap_rot_open_file ct_example_env (ct_entries s) ?closed = (0, rt1, es1)" by simp
    obtain k w' where i: "cap_writer_imu (oe_acc ct_example_env) (rt_w rt1) imu_zero 5 = (k, w')" by fastforce
    have r: "rc = k" "rot = rt1\<lparr>rt_w := w'\<rparr>"
      using w at(1) True o i unfolding cap_rot_write_def full_def [symmetric] by (simp_all add: ct_example_rec_def ct_example_at_def)
    have t: "rt_last_stamp rt1 \<le> 2000 + 1000 * Suc n" using r1 at(1) by (auto simp: ct_example_at_def max_def split: if_splits)
    then have "dated rt1" using at(2) by (intro dated_early) simp
    from capture_names_increase [OF o this [unfolded dated_def]] at(1) r1
    have "rt_cur rt1 \<noteq> rt_cur ?rt" "\<exists>t' \<le> rt_last_stamp rt1. rt_cur rt1 = capture_name t'" by (auto simp: ct_example_at_def)
    with write_example [OF _ i] at(1) r r1 t show ?thesis
      by (cases "ct_names s") (auto simp: ct_example_at_def s' names_sync_def)
  qed
qed

lemma ct_example_pass:
  assumes "ct_example_at n s" "n < 21000"
  shows "ct_example_at (Suc n) (ct_pass ct_example_in s)"
    "ct_accepted (ct_example_in # inps) s = ct_example_rec # ct_accepted inps (ct_pass ct_example_in s)"
proof -
  have iv: "tap_inv (ct_ring s)" "tap_contents (ct_ring s) = []" using assms(1) by (simp_all add: ct_example_at_def)
  obtain recs ring where p: "cap_ring_pop 64 (snd (tap_fill (ct_ring s) (ci_pushes ct_example_in))) = (recs, ring)" by fastforce
  have acc: "tap_accepted (ct_ring s) (ci_pushes ct_example_in) = [ct_example_rec]"
    using iv by (simp add: tap_accepted_def ct_example_in_def)
  from tap_pop_facts [OF _ p] tap_fill_facts [OF iv(1), of "ci_pushes ct_example_in"] acc iv(2)
  have r: "tap_inv ring" "recs = [ct_example_rec]" "tap_contents ring = []" by (auto simp: append_eq_Cons_conv Cons_eq_append_conv)
  obtain rc rot es where w: "cap_rot_write ct_example_env (ct_entries s) (ct_rot s) ct_example_rec = (rc, rot, es)"
    by (rule prod_cases3)
  note at = ct_example_write [OF assms w refl, of "disk_sync rot es (ct_disk s)"]
  have "ct_writes (ci_envs ct_example_in) 0 recs (s\<lparr>ct_ring := ring\<rparr>) =
      s\<lparr>ct_ring := ring, ct_rot := rot, ct_entries := es, ct_disk := disk_sync rot es (ct_disk s),
        ct_names := names_sync rot (ct_names s)\<rparr>"
    using w at r(2) by (simp add: ct_example_in_def)
  with ct_pass_shape [OF p refl] at tap_fill_facts [OF r(1), of "ci_late ct_example_in"] r(3)
  show "ct_example_at (Suc n) (ct_pass ct_example_in s)" by (simp add: ct_example_at_def ct_example_in_def tap_accepted_def)
  show "ct_accepted (ct_example_in # inps) s = ct_example_rec # ct_accepted inps (ct_pass ct_example_in s)"
    using assms(1) acc by (simp add: ct_example_at_def ct_example_in_def tap_accepted_def)
qed

lemma ct_example_passes:
  "ct_example_at n s \<Longrightarrow> n + m \<le> 21000 \<Longrightarrow>
     ct_example_at (n + m) (ct_loop (replicate m ct_example_in) s) \<and>
     ct_accepted (replicate m ct_example_in) s = replicate m ct_example_rec"
proof (induction m arbitrary: n s)
  case (Suc m)
  have f: "\<not> ct_failed s" using Suc.prems(1) by (simp add: ct_example_at_def)
  note step = ct_example_pass [OF Suc.prems(1)]
  from Suc.IH [OF step(1)] step(2) Suc.prems(2) f show ?case by (simp del: ct_accepted.simps)
qed simp

lemma ct_example_opens:
  "ct_open ct_example_env ct_example_entries ct_example_cfg 833000 [] None [] 0 cap_ring_init = Some ct_example_start"
  "ct_example_at 0 ct_example_start" "rt_cur (ct_rot ct_example_start) = capture_name 1000"
proof -
  have "capture_name 5 < capture_name 1000" by (rule capture_name_mono) (simp_all add: utc_date_def)
  then have f: "free_stamp 600 ct_example_entries 1000 = (capture_name 1000, 1000)"
    using free_stamp.simps(3) [of 598 ct_example_entries 1000] length_capture_name [of 1000]
    by (auto simp: ct_example_entries_def)
  show "ct_open ct_example_env ct_example_entries ct_example_cfg 833000 [] None [] 0 cap_ring_init = Some ct_example_start"
    "ct_example_at 0 ct_example_start" "rt_cur (ct_rot ct_example_start) = capture_name 1000"
    by (auto simp: ct_example_start_def ct_open_def cap_rot_open_def cap_rot_open_file_def ct_example_env_def f
        ct_example_cfg_def positive_u32_def cap_writer_open_def fwrite_def names_sync_def ct_example_at_def Let_def)
qed

lemma capture_thread_keeps_witness:
  "2 \<le> length (ct_names ct_example_run) \<and> set (take 1 (ct_names ct_example_run)) \<subseteq> set (ct_entries ct_example_run) \<and>
   (\<exists>parts. list_all2 (\<lambda>n is. n \<in> set (ct_entries ct_example_run) \<longrightarrow>
         (\<exists>bs h. ct_disk ct_example_run n = Some bs \<and> cap_load bs = (0, h, item_records is, 0))) (ct_names ct_example_run) parts \<and>
      concat (rev parts) = items_of (replicate 21000 ct_example_rec))"
proof -
  let ?l = "ct_loop (replicate 21000 ct_example_in) ct_example_start"
  have l: "ct_example_at 21000 ?l" "ct_accepted (replicate 21000 ct_example_in) ct_example_start = replicate 21000 ct_example_rec"
    using ct_example_passes [OF ct_example_opens(2), of 21000] by simp_all
  obtain recs ring where p: "cap_ring_pop 64 (ct_ring ?l) = (recs, ring)" by fastforce
  from tap_pop_facts [OF _ p] l(1) have "recs = []" by (simp add: ct_example_at_def)
  then have "ct_drain (\<lambda>_ _. ct_example_env) 0 ?l = ?l\<lparr>ct_ring := ring\<rparr>"
    using l(1) by (simp add: ct_drain.simps [of _ 0 ?l] p ct_example_at_def)
  then have run: "ct_example_run = ?l\<lparr>ct_ring := ring, ct_rot := cap_rot_close (ct_rot ?l), ct_active := False\<rparr>"
    using l(1) by (simp add: ct_example_run_def capture_thread_def ct_finish_def ct_example_at_def)
  have names: "2 \<le> length (ct_names ct_example_run)" "\<not> ct_failed ct_example_run"
    and stamp: "rt_last_stamp (ct_rot ct_example_run) \<le> 600000000"
    using l(1) by (simp_all add: run ct_example_at_def cap_rot_close_def)
  have wf: "tap_wf ct_example_rec" by (simp add: ct_example_rec_def tap_wf_def imu_sample_wf_def imu_zero_def)
  have older: "capture_name 5 < capture_name 1000" by (rule capture_name_mono) (simp_all add: utc_date_def)
  note keeps = capture_thread_keeps [OF ct_example_opens(1) _ _ _ ct_example_run_def refl
      dated_early [OF stamp, unfolded dated_def], unfolded l(2)]
  have "\<not> is_capture_name ''notes''" "''notes'' \<noteq> capture_name 5" 
    using length_capture_name [of 5] by (auto simp: is_capture_name_def CAP_FILE_PREFIX_def CAP_FILE_SUFFIX_def Let_def dest: sym)
  with keeps names wf older show ?thesis
    by (auto simp: ct_example_in_def ct_example_entries_def ct_example_cfg_def ct_example_opens(3))
qed

text \<open>The drops that were logged add up to the number that is published.\<close>

lemma ct_writes_drops [simp]: "ct_drop_log (ct_writes envs i rs s) = ct_drop_log s" "ct_last_drops (ct_writes envs i rs s) = ct_last_drops s"
  by (induction envs i rs s rule: ct_writes.induct) (auto simp: Let_def split: prod.splits)

lemma ct_drops_logged:
  "sum_list (ct_drop_log s) = ct_last_drops s \<Longrightarrow> sum_list (ct_drop_log (ct_pass inp s)) = ct_drops (ct_pass inp s) \<and>
     ct_last_drops (ct_pass inp s) = ct_drops (ct_pass inp s)"
  by (auto simp: ct_pass_def Let_def split: prod.splits)

end
