(* ===== verification/Anchor.thy ===== *)
theory Anchor
  imports Prelude "HOL-Library.Signed_Division"
begin

text \<open>
  The time base of src/imu_math.c: the anchor that pairs a chip counter with the host clocks and
  measures the period of its ticks, the conversion of a counter value to wall time, and the rate
  measurement for parts without a counter. All of it is integer arithmetic at its C width.
\<close>

section \<open>The anchor\<close>

record ts_anchor =
  an_wall_ns :: u64
  an_tai_ns :: u64
  an_mono_ns :: u64
  an_chip_ticks :: u32
  an_gen :: u32
  an_tick_q16 :: u64
  an_have_mono :: bool

definition ts_ns :: "int \<Rightarrow> int \<Rightarrow> u64" where
  "ts_ns tv_sec tv_nsec = of_int tv_sec * 1000000000 + of_int tv_nsec"

definition ANCHOR_MIN_INTERVAL_NS :: u64 where "ANCHOR_MIN_INTERVAL_NS = 20000000000"
definition ANCHOR_MIN_TICKS :: u32 where "ANCHOR_MIN_TICKS = 1000"
definition ANCHOR_TOL_PCT :: u64 where "ANCHOR_TOL_PCT = 10"

text \<open>A quarter of the way to a new measurement, in \<open>int64_t\<close>, as both filters do.\<close>

definition quarter_step :: "u64 \<Rightarrow> u64 \<Rightarrow> int" where
  "quarter_step old meas = (let err = sint meas - sint old in sint old + err sdiv 4)"

definition anchor_measure :: "ts_anchor \<Rightarrow> u32 \<Rightarrow> u64 \<Rightarrow> u32 \<Rightarrow> u64" where
  "anchor_measure a chip_ts mono_ns nominal_tick_ns =
     (if an_have_mono a \<and> nominal_tick_ns \<noteq> 0 \<and> mono_ns > an_mono_ns a
      then let dticks = chip_ts - an_chip_ticks a;
               dmono = mono_ns - an_mono_ns a
           in if dticks \<ge> ANCHOR_MIN_TICKS \<and> dmono \<ge> ANCHOR_MIN_INTERVAL_NS
              then let meas = push_bit 16 dmono div ucast dticks;
                       nom = push_bit 16 (ucast nominal_tick_ns);
                       lo = nom * (100 - ANCHOR_TOL_PCT) div 100;
                       hi = nom * (100 + ANCHOR_TOL_PCT) div 100
                   in if meas \<ge> lo \<and> meas \<le> hi
                      then (if an_tick_q16 a = 0 then meas
                            else of_int (quarter_step (an_tick_q16 a) meas))
                      else an_tick_q16 a
              else an_tick_q16 a
      else an_tick_q16 a)"

definition anchor_update :: "ts_anchor \<Rightarrow> u32 \<Rightarrow> u64 \<Rightarrow> u64 \<Rightarrow> u64 \<Rightarrow> u32 \<Rightarrow> ts_anchor" where
  "anchor_update a chip_ts wall_ns tai_ns mono_ns nominal_tick_ns =
     \<lparr>an_wall_ns = wall_ns, an_tai_ns = tai_ns, an_mono_ns = mono_ns, an_chip_ticks = chip_ts,
      an_gen = an_gen a + 1, an_tick_q16 = anchor_measure a chip_ts mono_ns nominal_tick_ns,
      an_have_mono = True\<rparr>"

definition anchor_wall_ns :: "u64 \<Rightarrow> u64 \<Rightarrow> bool \<Rightarrow> u64" where
  "anchor_wall_ns t_before_ns t_after_ns ts_is_sample_instant =
     (if ts_is_sample_instant then t_before_ns else drop_bit 1 t_before_ns + drop_bit 1 t_after_ns)"

definition anchor_tai_ns :: "u64 \<Rightarrow> u64 \<Rightarrow> u64 \<Rightarrow> u64" where
  "anchor_tai_ns wall_at_ns realtime_ns tai_ns = wall_at_ns + (tai_ns - realtime_ns)"

definition chip_to_wall :: "ts_anchor \<Rightarrow> u32 \<Rightarrow> u32 \<Rightarrow> u64 \<times> u64 \<times> u32" where
  "chip_to_wall a chip_ts tick_ns =
     (let dticks = sint (chip_ts - an_chip_ticks a);
          before = dticks < 0;
          mag = (if before then of_int (- dticks) else of_int dticks) :: u64;
          offset = (if an_tick_q16 a \<noteq> 0 then drop_bit 16 (mag * an_tick_q16 a) else mag * ucast tick_ns)
      in (if before then an_wall_ns a - offset else an_wall_ns a + offset,
          if before then an_tai_ns a - offset else an_tai_ns a + offset,
          an_gen a))"

section \<open>The measured period stays plausible\<close>

text \<open>\<open>sdiv\<close> truncates towards zero, so a quarter step never passes its target.\<close>

lemma quarter_between:
  fixes a b :: int
  shows "min a b \<le> a + (b - a) sdiv 4 \<and> a + (b - a) sdiv 4 \<le> max a b"
proof (cases "a \<le> b")
  case True
  then have "(b - a) sdiv 4 = (b - a) div 4" by (simp add: signed_divide_int_def sgn_if)
  with True show ?thesis by (simp add: min_def max_def) linarith
next
  case False
  then have "(b - a) sdiv 4 = - ((a - b) div 4)" by (simp add: signed_divide_int_def sgn_if)
  with False show ?thesis by (simp add: min_def max_def) linarith
qed

lemma sint_small: "uint (w :: u64) < 2 ^ 63 \<Longrightarrow> sint w = uint w"
  by (subst sint_uint, rule signed_take_bit_int_eq_self) (auto intro: order_trans [OF _ uint_ge_0])

lemma uint_of_small: "0 \<le> k \<Longrightarrow> k < 2 ^ 64 \<Longrightarrow> uint (of_int k :: u64) = k"
  by (simp add: unsigned_of_int take_bit_int_eq_self)

lemma quarter_step_between:
  assumes "lo \<le> uint old" "uint old \<le> hi" "lo \<le> uint meas" "uint meas \<le> hi" "hi < 2 ^ 63"
  shows "lo \<le> uint (of_int (quarter_step old meas) :: u64) \<and> uint (of_int (quarter_step old meas) :: u64) \<le> hi"
proof -
  have s: "sint old = uint old" "sint meas = uint meas" using assms by (auto intro: sint_small)
  have b: "lo \<le> quarter_step old meas" "quarter_step old meas \<le> hi"
    using quarter_between [of "uint old" "uint meas"] assms(1-4) by (auto simp: quarter_step_def s Let_def)
  moreover have "0 \<le> quarter_step old meas"
    using quarter_between [of "uint old" "uint meas"] by (auto simp: quarter_step_def s Let_def min_def split: if_splits
        intro: order_trans [OF uint_ge_0])
  ultimately show ?thesis using assms(5) by (simp add: uint_of_small)
qed

text \<open>The band around the declared period, in 1/65536 ns.\<close>

definition tick_lo :: "u32 \<Rightarrow> int" where "tick_lo n = uint n * 65536 * 90 div 100"
definition tick_hi :: "u32 \<Rightarrow> int" where "tick_hi n = uint n * 65536 * 110 div 100"

definition tick_ok :: "u32 \<Rightarrow> ts_anchor \<Rightarrow> bool" where
  "tick_ok n a \<longleftrightarrow> an_tick_q16 a = 0 \<or> tick_lo n \<le> uint (an_tick_q16 a) \<and> uint (an_tick_q16 a) \<le> tick_hi n"

lemma uint_u32_bound: "uint (n :: u32) < 4294967296"
  using uint_lt2p [of n] by simp

lemma uint_nom: "uint (push_bit 16 (ucast (n :: u32)) :: u64) = uint n * 65536"
  using uint_u32_bound [of n] by (simp add: push_bit_eq_mult uint_word_ariths unsigned_ucast_eq take_bit_int_eq_self)

lemma uint_nom_pct:
  assumes "k < 200"
  shows "uint (push_bit 16 (ucast (n :: u32)) * of_nat k div 100 :: u64) = uint n * 65536 * int k div 100"
proof -
  have "uint n * 65536 * int k < 2 ^ 64"
    using uint_u32_bound [of n] assms mult_mono [of "uint n * 65536" "4294967296 * 65536" "int k" 200] by simp
  moreover have "uint (of_nat k :: u64) = int k" using assms by (simp add: unsigned_of_nat take_bit_nat_eq_self)
  ultimately have "uint (push_bit 16 (ucast n :: u64) * of_nat k) = uint n * 65536 * int k"
    by (simp add: uint_word_ariths uint_nom)
  then show ?thesis by (simp add: uint_div)
qed

lemma tick_hi_bound: "tick_hi n < 2 ^ 63"
  using uint_u32_bound [of n] by (simp add: tick_hi_def)

lemma anchor_update_tick_ok:
  assumes "tick_ok n a"
  shows "tick_ok n (anchor_update a chip_ts wall tai now n)"
proof -
  let ?lo = "push_bit 16 (ucast n) * (100 - ANCHOR_TOL_PCT) div 100 :: u64"
  let ?hi = "push_bit 16 (ucast n) * (100 + ANCHOR_TOL_PCT) div 100 :: u64"
  have lo: "uint ?lo = tick_lo n" using uint_nom_pct [of 90 n] by (simp add: ANCHOR_TOL_PCT_def tick_lo_def)
  have hi: "uint ?hi = tick_hi n" using uint_nom_pct [of 110 n] by (simp add: ANCHOR_TOL_PCT_def tick_hi_def)
  have "t = an_tick_q16 a \<or> tick_lo n \<le> uint t \<and> uint t \<le> tick_hi n"
    if t: "t = anchor_measure a chip_ts now n" for t
  proof -
    let ?meas = "push_bit 16 (now - an_mono_ns a) div ucast (chip_ts - an_chip_ticks a) :: u64"
    consider "t = an_tick_q16 a" | "?lo \<le> ?meas" "?meas \<le> ?hi" "an_tick_q16 a = 0" "t = ?meas"
      | "?lo \<le> ?meas" "?meas \<le> ?hi" "an_tick_q16 a \<noteq> 0" "t = of_int (quarter_step (an_tick_q16 a) ?meas)"
      using t by (auto simp: anchor_measure_def Let_def split: if_splits)
    then show ?thesis
    proof cases
      case 2
      then show ?thesis by (simp add: word_le_def lo hi)
    next
      case 3
      with assms show ?thesis
        using quarter_step_between [of "tick_lo n" "an_tick_q16 a" "tick_hi n" ?meas] tick_hi_bound [of n]
        by (simp add: word_le_def lo hi tick_ok_def)
    qed simp
  qed
  with assms show ?thesis by (auto simp: tick_ok_def anchor_update_def)
qed

section \<open>Counter values on the wall clock\<close>

text \<open>The distance of a counter value from the anchor, and the period in use, in 1/65536 ns.\<close>

definition ticks_from :: "ts_anchor \<Rightarrow> u32 \<Rightarrow> int" where
  "ticks_from a c = sint (c - an_chip_ticks a)"

definition period_q16 :: "ts_anchor \<Rightarrow> u32 \<Rightarrow> int" where
  "period_q16 a n = (if an_tick_q16 a \<noteq> 0 then uint (an_tick_q16 a) else uint n * 65536)"

definition time_from :: "int \<Rightarrow> int \<Rightarrow> int" where
  "time_from p d = (if d < 0 then - (- d * p div 65536) else d * p div 65536)"

lemma ticks_bound: "- (2 ^ 31) \<le> ticks_from a c" "ticks_from a c < 2 ^ 31"
  using sint_greater_eq [of "c - an_chip_ticks a"] sint_less [of "c - an_chip_ticks a"]
  by (simp_all add: ticks_from_def)

lemma period_bound:
  assumes "tick_ok n a" "uint n \<le> 100000"
  shows "0 \<le> period_q16 a n" "period_q16 a n < 2 ^ 33"
  using assms by (auto simp: tick_ok_def period_q16_def tick_hi_def)

lemma time_from_bound:
  assumes "0 \<le> p" "p < 2 ^ 33" "- (2 ^ 31) \<le> d" "d < 2 ^ 31"
  shows "\<bar>time_from p d\<bar> \<le> 2 ^ 48"
proof -
  have "\<bar>d\<bar> * p \<le> 2 ^ 31 * 2 ^ 33" using assms by (intro mult_mono) auto
  then have "\<bar>d\<bar> * p div 65536 \<le> 2 ^ 48" by simp
  moreover have "0 \<le> \<bar>d\<bar> * p div 65536" using assms by (intro pos_imp_zdiv_nonneg_iff [THEN iffD2]) auto
  ultimately show ?thesis by (auto simp: time_from_def abs_if)
qed

lemma time_from_mono:
  assumes "0 \<le> p" "d1 \<le> d2"
  shows "time_from p d1 \<le> time_from p d2"
proof -
  have m: "x \<le> y \<Longrightarrow> x * p div 65536 \<le> y * p div 65536" for x y
    using assms(1) by (intro zdiv_mono1 mult_right_mono) auto
  have "0 \<le> x \<Longrightarrow> 0 \<le> x * p div 65536" for x using assms(1) by (simp add: pos_imp_zdiv_nonneg_iff)
  from this [of "- d1"] this [of d2] show ?thesis
    using m [of "- d2" "- d1"] m [of d1 d2] assms(2) by (auto simp: time_from_def)
qed

lemma time_from_error: "0 \<le> 65536 + time_from p d * 65536 - d * p" "time_from p d * 65536 - d * p \<le> 65536"
proof -
  have "(x div 65536) * 65536 \<le> x \<and> x < (x div 65536) * 65536 + 65536" for x :: int by presburger
  from this [of "d * p"] this [of "- d * p"]
  show "0 \<le> 65536 + time_from p d * 65536 - d * p" "time_from p d * 65536 - d * p \<le> 65536"
    by (auto simp: time_from_def)
qed

lemma chip_to_wall_time:
  assumes "tick_ok n a" "uint n \<le> 100000" "2 ^ 48 \<le> uint (an_wall_ns a)" "uint (an_wall_ns a) < 2 ^ 64 - 2 ^ 48"
  shows "uint (fst (chip_to_wall a c n)) = uint (an_wall_ns a) + time_from (period_q16 a n) (ticks_from a c)"
proof -
  let ?d = "ticks_from a c" and ?p = "period_q16 a n"
  define m where "m = (if ?d < 0 then - ?d else ?d)"
  note pb = period_bound [OF assms(1,2)] and db = ticks_bound [of a c]
  have mb: "0 \<le> m" "m \<le> 2 ^ 31" using db by (auto simp: m_def)
  then have um: "uint (of_int m :: u64) = m" by (intro uint_of_small) auto
  have mp: "m * ?p < 2 ^ 64"
  proof -
    have "m * ?p \<le> 2 ^ 31 * (2 ^ 33 - 1)" using mb pb by (intro mult_mono) auto
    then show ?thesis by simp
  qed
  define off where "off = (if an_tick_q16 a \<noteq> 0 then drop_bit 16 (of_int m * an_tick_q16 a) else of_int m * ucast n)"
  have uoff: "uint off = m * ?p div 65536"
  proof (cases "an_tick_q16 a = 0")
    case True
    have un: "uint (ucast n :: u64) = uint n" using uint_u32_bound [of n]
      by (simp add: unsigned_ucast_eq take_bit_int_eq_self)
    have "m * uint n \<le> m * ?p" using True mb by (intro mult_left_mono) (auto simp: period_q16_def)
    then have "m * uint n < 2 ^ 64" using mp by simp
    moreover have "0 \<le> m * uint n" using mb by simp
    ultimately show ?thesis using True um un by (simp add: off_def uint_word_ariths period_q16_def)
  next
    case False
    then have "0 \<le> m * uint (an_tick_q16 a)" "m * uint (an_tick_q16 a) < 2 ^ 64"
      using mb mp by (simp_all add: period_q16_def)
    then have "uint (of_int m * an_tick_q16 a) = m * uint (an_tick_q16 a)" by (simp add: uint_word_ariths um)
    with False show ?thesis
      by (simp add: off_def period_q16_def drop_bit_eq_div uint_div)
  qed
  have tb: "\<bar>time_from ?p ?d\<bar> \<le> 2 ^ 48" by (rule time_from_bound [OF pb db])
  show ?thesis
  proof (cases "?d < 0")
    case True
    then have t: "time_from ?p ?d = - uint off" by (simp add: time_from_def uoff m_def)
    have "fst (chip_to_wall a c n) = an_wall_ns a - off"
      using True by (simp add: chip_to_wall_def Let_def off_def m_def ticks_from_def)
    moreover have "uint (an_wall_ns a - off) = uint (an_wall_ns a) - uint off"
      using tb t assms(3) by (subst uint_sub_lem [symmetric]) simp
    ultimately show ?thesis using t by simp
  next
    case False
    then have t: "time_from ?p ?d = uint off" by (simp add: time_from_def uoff m_def)
    have "fst (chip_to_wall a c n) = an_wall_ns a + off"
      using False by (simp add: chip_to_wall_def Let_def off_def m_def ticks_from_def)
    moreover have "uint (an_wall_ns a + off) = uint (an_wall_ns a) + uint off"
      using tb t assms(4) by (subst uint_add_lem [symmetric]) simp
    ultimately show ?thesis using t by simp
  qed
qed

section \<open>The rate of a part without a counter\<close>

record rate_meas =
  rm_open :: bool
  rm_t0_ns :: u64
  rm_n :: u64
  rm_period_ns :: u32

definition RATE_MEAS_WINDOW_NS :: u64 where "RATE_MEAS_WINDOW_NS = 30000000000"
definition RATE_MEAS_TOL_PCT :: u64 where "RATE_MEAS_TOL_PCT = 10"

definition rate_quarter :: "u32 \<Rightarrow> u64 \<Rightarrow> int" where
  "rate_quarter old meas = (let err = sint meas - uint old in uint old + err sdiv 4)"

text \<open>The end of a window: its measurement is checked and taken over, whole or filtered.\<close>

definition rate_close :: "rate_meas \<Rightarrow> u64 \<Rightarrow> u32 \<Rightarrow> bool \<times> rate_meas" where
  "rate_close r meas nominal_ns =
     (let lo = ucast nominal_ns * (100 - RATE_MEAS_TOL_PCT) div 100;
          hi = ucast nominal_ns * (100 + RATE_MEAS_TOL_PCT) div 100
      in if meas < lo \<or> meas > hi then (False, r)
         else if rm_period_ns r = 0 then (True, r\<lparr>rm_period_ns := ucast meas\<rparr>)
         else (True, r\<lparr>rm_period_ns := of_int (rate_quarter (rm_period_ns r) meas)\<rparr>))"

definition rate_meas_step :: "rate_meas \<Rightarrow> int \<Rightarrow> bool \<Rightarrow> u64 \<Rightarrow> u32 \<Rightarrow> bool \<times> rate_meas" where
  "rate_meas_step r n overflow mono_ns nominal_ns =
     (if overflow then (False, r\<lparr>rm_open := False\<rparr>)
      else if n \<le> 0 \<or> nominal_ns = 0 then (False, r)
      else if \<not> rm_open r \<or> mono_ns \<le> rm_t0_ns r
      then (False, r\<lparr>rm_open := True, rm_t0_ns := mono_ns, rm_n := 0\<rparr>)
      else let r = r\<lparr>rm_n := rm_n r + of_int n\<rparr>;
               elapsed = mono_ns - rm_t0_ns r
           in if elapsed < RATE_MEAS_WINDOW_NS then (False, r)
              else rate_close (r\<lparr>rm_t0_ns := mono_ns, rm_n := 0\<rparr>) (elapsed div rm_n r) nominal_ns)"

definition rate_lo :: "u32 \<Rightarrow> int" where "rate_lo n = uint n * 90 div 100"
definition rate_hi :: "u32 \<Rightarrow> int" where "rate_hi n = uint n * 110 div 100"

definition rate_ok :: "u32 \<Rightarrow> rate_meas \<Rightarrow> bool" where
  "rate_ok n r \<longleftrightarrow> rm_period_ns r = 0 \<or>
     rate_lo n \<le> uint (rm_period_ns r) \<and> uint (rm_period_ns r) \<le> rate_hi n"

lemma uint_rate_pct:
  assumes "k < 200"
  shows "uint (ucast (n :: u32) * of_nat k div 100 :: u64) = uint n * int k div 100"
proof -
  have "uint n * int k < 2 ^ 64"
    using uint_u32_bound [of n] assms mult_mono [of "uint n" "4294967296" "int k" 200] by simp
  moreover have "uint (of_nat k :: u64) = int k" using assms by (simp add: unsigned_of_nat take_bit_nat_eq_self)
  moreover have "uint (ucast n :: u64) = uint n" using uint_u32_bound [of n]
    by (simp add: unsigned_ucast_eq take_bit_int_eq_self)
  ultimately have "uint (ucast n * of_nat k :: u64) = uint n * int k" by (simp add: uint_word_ariths)
  then show ?thesis by (simp add: uint_div)
qed

lemma rate_close_ok:
  assumes "rate_ok n r" "rate_hi n < 2 ^ 32"
  shows "rate_ok n (snd (rate_close r meas n))"
proof -
  let ?lo = "ucast n * (100 - RATE_MEAS_TOL_PCT) div 100 :: u64"
  let ?hi = "ucast n * (100 + RATE_MEAS_TOL_PCT) div 100 :: u64"
  have lo: "uint ?lo = rate_lo n" using uint_rate_pct [of 90 n] by (simp add: RATE_MEAS_TOL_PCT_def rate_lo_def)
  have hi: "uint ?hi = rate_hi n" using uint_rate_pct [of 110 n] by (simp add: RATE_MEAS_TOL_PCT_def rate_hi_def)
  show ?thesis
  proof (cases "meas < ?lo \<or> meas > ?hi")
    case True
    with assms show ?thesis by (simp add: rate_close_def Let_def)
  next
    case False
    then have b: "rate_lo n \<le> uint meas" "uint meas \<le> rate_hi n" by (auto simp: not_less word_le_def lo hi)
    show ?thesis
    proof (cases "rm_period_ns r = 0")
      case True
      have "uint (ucast meas :: u32) = uint meas" using assms(2) b(2)
        by (simp add: unsigned_ucast_eq take_bit_int_eq_self)
      with True False b show ?thesis by (simp add: rate_close_def Let_def rate_ok_def)
    next
      case nz: False
      have s: "sint meas = uint meas" using assms(2) b by (intro sint_small) simp
      have p: "rate_lo n \<le> uint (rm_period_ns r)" "uint (rm_period_ns r) \<le> rate_hi n"
        using assms(1) nz by (simp_all add: rate_ok_def)
      note q = quarter_between [of "uint (rm_period_ns r)" "uint meas"]
      then have "0 \<le> rate_quarter (rm_period_ns r) meas"
        by (auto simp: rate_quarter_def s min_def split: if_splits intro: order_trans [OF uint_ge_0])
      moreover have "rate_lo n \<le> rate_quarter (rm_period_ns r) meas" "rate_quarter (rm_period_ns r) meas \<le> rate_hi n"
        using q b p by (auto simp: rate_quarter_def s min_def max_def split: if_splits)
      ultimately show ?thesis using assms(2) nz False
        by (simp add: rate_close_def Let_def rate_ok_def unsigned_of_int take_bit_int_eq_self)
    qed
  qed
qed

lemma rate_meas_step_ok:
  assumes "rate_ok n r" "rate_hi n < 2 ^ 32"
  shows "rate_ok n (snd (rate_meas_step r k overflow t n))"
proof -
  have "rate_ok n (r\<lparr>rm_open := c, rm_t0_ns := b, rm_n := a\<rparr>)" "rate_ok n (r\<lparr>rm_n := a\<rparr>)"
    "rate_ok n (r\<lparr>rm_open := c\<rparr>)" "rate_ok n (r\<lparr>rm_t0_ns := b, rm_n := a\<rparr>)" for a b c
    using assms(1) by (simp_all add: rate_ok_def)
  with assms rate_close_ok [OF _ assms(2)] show ?thesis
    by (simp add: rate_meas_step_def Let_def)
qed

section \<open>Properties\<close>

definition zero_anchor :: ts_anchor where
  "zero_anchor = \<lparr>an_wall_ns = 0, an_tai_ns = 0, an_mono_ns = 0, an_chip_ticks = 0, an_gen = 0,
     an_tick_q16 = 0, an_have_mono = False\<rparr>"

fun anchor_run :: "u32 \<Rightarrow> ts_anchor \<Rightarrow> (u32 \<times> u64 \<times> u64 \<times> u64) list \<Rightarrow> ts_anchor" where
  "anchor_run n a [] = a"
| "anchor_run n a ((chip_ts, wall, tai, mo) # us) = anchor_run n (anchor_update a chip_ts wall tai mo n) us"

lemma anchor_run_tick_ok: "tick_ok n a \<Longrightarrow> tick_ok n (anchor_run n a us)"
  by (induction n a us rule: anchor_run.induct) (simp_all add: anchor_update_tick_ok)

text \<open>
  whatever a driver's counter does between anchors -- resets, wraps, stalls -- the measured tick
  period of the anchor is absent or within ten percent of the declared one, in 1/65536 ns, and the
  filter that follows the oscillator never leaves that band.
\<close>

theorem anchor_period_in_band:
  "case anchor_run n zero_anchor us of a \<Rightarrow> an_tick_q16 a = 0 \<or>
     uint n * 65536 * 90 div 100 \<le> uint (an_tick_q16 a) \<and> uint (an_tick_q16 a) \<le> uint n * 65536 * 110 div 100"
  using anchor_run_tick_ok [of n zero_anchor us]
  by (simp add: tick_ok_def tick_lo_def tick_hi_def zero_anchor_def)

text \<open>
  C9: counter values become wall-clock times in their own order, across the wrap of the 32-bit
  counter and on both sides of the anchor: a sample the counter puts later is never timed earlier,
  and two samples are apart by their tick distance times the measured period to within two
  nanoseconds. The anchor must hold a plausible period of at most 100 us, and a wall time that is
  at least \<open>2 ^ 48\<close> ns away from either end of the range.
\<close>

theorem chip_to_wall_order:
  assumes "tick_ok n a" "uint n \<le> 100000" "2 ^ 48 \<le> uint (an_wall_ns a)" "uint (an_wall_ns a) < 2 ^ 64 - 2 ^ 48"
    and "ticks_from a c1 \<le> ticks_from a c2"
  shows "uint (fst (chip_to_wall a c1 n)) \<le> uint (fst (chip_to_wall a c2 n)) \<and>
    \<bar>(uint (fst (chip_to_wall a c2 n)) - uint (fst (chip_to_wall a c1 n))) * 65536 -
      (ticks_from a c2 - ticks_from a c1) * period_q16 a n\<bar> \<le> 2 * 65536"
  using time_from_mono [OF period_bound(1) [OF assms(1,2)] assms(5)]
    time_from_error [of "period_q16 a n" "ticks_from a c1"] time_from_error [of "period_q16 a n" "ticks_from a c2"]
  unfolding chip_to_wall_time [OF assms(1-4)] by (simp add: algebra_simps)

lemma chip_to_wall_order_witness:
  "uint (fst (chip_to_wall (zero_anchor\<lparr>an_wall_ns := 1700000000000000000, an_chip_ticks := 5\<rparr>) (- 3) 25000)) \<le>
   uint (fst (chip_to_wall (zero_anchor\<lparr>an_wall_ns := 1700000000000000000, an_chip_ticks := 5\<rparr>) 9 25000))"
  using chip_to_wall_order [of 25000 "zero_anchor\<lparr>an_wall_ns := 1700000000000000000, an_chip_ticks := 5\<rparr>" "- 3" 9]
  by (simp add: tick_ok_def zero_anchor_def ticks_from_def)

fun rate_run :: "u32 \<Rightarrow> rate_meas \<Rightarrow> (int \<times> bool \<times> u64) list \<Rightarrow> rate_meas" where
  "rate_run nominal r [] = r"
| "rate_run nominal r ((n, overflow, mo) # ds) = rate_run nominal (snd (rate_meas_step r n overflow mo nominal)) ds"

lemma rate_run_ok: "rate_ok n r \<Longrightarrow> rate_hi n < 2 ^ 32 \<Longrightarrow> rate_ok n (rate_run n r ds)"
  by (induction n r ds rule: rate_run.induct) (simp_all add: rate_meas_step_ok)

definition zero_rate :: rate_meas where
  "zero_rate = \<lparr>rm_open = False, rm_t0_ns = 0, rm_n = 0, rm_period_ns = 0\<rparr>"

text \<open>
  The sample period measured for a part without a counter is absent or within ten percent of the
  configured one, through any sequence of drains, overflows and clock readings; the only condition is
  that the band fits the 32 bits the period is kept in.
\<close>

theorem rate_period_in_band:
  assumes "uint nominal * 110 div 100 < 2 ^ 32"
  shows "case rate_run nominal zero_rate ds of r \<Rightarrow> rm_period_ns r = 0 \<or>
    uint nominal * 90 div 100 \<le> uint (rm_period_ns r) \<and> uint (rm_period_ns r) \<le> uint nominal * 110 div 100"
  using rate_run_ok [of nominal zero_rate ds] assms
  by (simp add: rate_ok_def rate_lo_def rate_hi_def zero_rate_def)

lemma rate_period_in_band_witness:
  "case rate_run 10000000 zero_rate [(64, False, 5), (3000, False, 30500000005)] of r \<Rightarrow>
     rm_period_ns r = 0 \<or> 9000000 \<le> uint (rm_period_ns r) \<and> uint (rm_period_ns r) \<le> 11000000"
  using rate_period_in_band [of 10000000 "[(64, False, 5), (3000, False, 30500000005)]"] by simp

text \<open>Drains inside a window only add their samples.\<close>

lemma rate_run_in_window:
  assumes "rm_open r" "nominal \<noteq> 0"
    and "\<forall>(n, ov, t) \<in> set ds. 0 < n \<and> \<not> ov \<and> rm_t0_ns r < t \<and> t - rm_t0_ns r < RATE_MEAS_WINDOW_NS"
  shows "rate_run nominal r ds = r\<lparr>rm_n := rm_n r + of_int (sum_list (map fst ds))\<rparr>"
  using assms
proof (induction ds arbitrary: r)
  case (Cons d ds)
  obtain n ov t where d: "d = (n, ov, t)" by (metis prod_cases3)
  with Cons.prems have "\<not> t \<le> rm_t0_ns r" "t - rm_t0_ns r < RATE_MEAS_WINDOW_NS" "\<not> n \<le> 0" "\<not> ov" by auto
  then have "snd (rate_meas_step r n ov t nominal) = r\<lparr>rm_n := rm_n r + of_int n\<rparr>"
    using Cons.prems(1,2) by (simp add: rate_meas_step_def Let_def)
  with Cons.IH [of "r\<lparr>rm_n := rm_n r + of_int n\<rparr>"] Cons.prems d show ?case by (simp add: add.assoc)
qed simp

text \<open>
  The first window measures what it says: opened by one drain, which contributes no samples, fed
  by any number of drains and closed by the first one that is at least 30 s after its opening, it
  yields the elapsed time divided by the samples the drains behind the opening one delivered.
\<close>

theorem rate_window_exact:
  assumes "nominal \<noteq> 0" "0 < n0" "0 < n" "rm_open r = False" "rm_period_ns r = 0"
    and "\<forall>(k, ov, t) \<in> set ds. 0 < k \<and> \<not> ov \<and> t0 < t \<and> t - t0 < RATE_MEAS_WINDOW_NS"
    and "t0 < t1" "RATE_MEAS_WINDOW_NS \<le> t1 - t0"
    and "meas = (t1 - t0) div (of_int (sum_list (map fst ds)) + of_int n)"
    and "ucast nominal * 90 div 100 \<le> meas" "meas \<le> ucast nominal * 110 div 100"
  shows "rm_period_ns (rate_run nominal r ((n0, False, t0) # ds @ [(n, False, t1)])) = ucast meas"
proof -
  let ?r1 = "r\<lparr>rm_open := True, rm_t0_ns := t0, rm_n := 0\<rparr>"
  have app: "rate_run nominal q (xs @ ys) = rate_run nominal (rate_run nominal q xs) ys" for q xs ys
    by (induction nominal q xs rule: rate_run.induct) simp_all
  have "snd (rate_meas_step r n0 False t0 nominal) = ?r1"
    using assms(1,2,4) by (simp add: rate_meas_step_def)
  moreover have "rate_run nominal ?r1 ds = ?r1\<lparr>rm_n := of_int (sum_list (map fst ds))\<rparr>"
    using rate_run_in_window [of ?r1 nominal ds] assms(1,6) by simp
  moreover have "rm_period_ns (snd (rate_meas_step (?r1\<lparr>rm_n := of_int (sum_list (map fst ds))\<rparr>) n False t1 nominal)) = ucast meas"
  proof -
    have "\<not> t1 \<le> t0" "\<not> t1 - t0 < RATE_MEAS_WINDOW_NS" "\<not> meas < ucast nominal * 90 div 100"
        "\<not> ucast nominal * 110 div 100 < meas"
      using assms(7,8,10,11) by auto
    then show ?thesis using assms(1,3,5) unfolding assms(9)
      by (simp add: rate_meas_step_def Let_def rate_close_def RATE_MEAS_TOL_PCT_def)
  qed
  ultimately show ?thesis by (simp add: app)
qed

lemma rate_window_exact_witness:
  "rm_period_ns (rate_run 10000000 zero_rate ((64, False, 5) # [(1000, False, 10000000005)] @ [(2050, False, 30500000005)])) = 10000000"
proof -
  have "rm_period_ns (rate_run 10000000 zero_rate ((64, False, 5) # [(1000, False, 10000000005)] @ [(2050, False, 30500000005)])) = ucast (10000000 :: u64)"
    by (rule rate_window_exact) (simp_all add: zero_rate_def RATE_MEAS_WINDOW_NS_def)
  then show ?thesis by simp
qed

end
