(* ===== verification/Latency.thy ===== *)
theory Latency
  imports Prelude Complex_Main
begin

text \<open>
  The rest of src/imu_math.c that computes with numbers: the latency histograms and what is published
  of them, the sample-gap latch, the choice of an output data rate, and the waiting times derived from
  it. C doubles are rationals here: the quotients that are rounded are at least \<open>1 / (2 * odr)\<close> away from
  a half or equal to it, far more than the error of a double.
\<close>

section \<open>Histograms\<close>

definition LAT_BUCKETS :: nat where "LAT_BUCKETS = 20"

record lat_hist =
  lh_bucket :: "u32 list"
  lh_count :: u64
  lh_max_ns :: u64
  lh_max_ever_ns :: u64

function lat_bucket_loop :: "u64 \<Rightarrow> nat \<Rightarrow> nat" where
  "lat_bucket_loop us k =
     (if us > 1 \<and> k < LAT_BUCKETS - 1 then lat_bucket_loop (drop_bit 1 us) (k + 1) else k)"
  by pat_completeness auto
termination by (relation "measure (\<lambda>(us, k). LAT_BUCKETS - k)") auto

declare lat_bucket_loop.simps [simp del]

definition lat_bucket :: "u64 \<Rightarrow> nat" where
  "lat_bucket ns = (let us = ns div 1000 in lat_bucket_loop us 0)"

definition lat_record :: "lat_hist \<Rightarrow> u64 \<Rightarrow> lat_hist" where
  "lat_record h ns =
     (let k = lat_bucket ns;
          h = h\<lparr>lh_bucket := (lh_bucket h)[k := lh_bucket h ! k + 1], lh_count := lh_count h + 1\<rparr>;
          h = (if ns > lh_max_ns h then h\<lparr>lh_max_ns := ns\<rparr> else h)
      in if ns > lh_max_ever_ns h then h\<lparr>lh_max_ever_ns := ns\<rparr> else h)"

text \<open>The loop of \<open>lat_percentile\<close> over the buckets from \<open>k\<close> on.\<close>

fun lat_seek :: "u32 list \<Rightarrow> nat \<Rightarrow> u64 \<Rightarrow> u64 \<Rightarrow> u64" where
  "lat_seek [] k seen want = push_bit LAT_BUCKETS 1000"
| "lat_seek (b # bs) k seen want =
     (let seen = seen + ucast b in if seen \<ge> want then push_bit (k + 1) 1000 else lat_seek bs (k + 1) seen want)"

definition lat_want :: "u64 \<Rightarrow> rat \<Rightarrow> u64" where
  "lat_want count p =
     (let p = (if p < 0 then 0 else p); p = (if p > 1 then 1 else p);
          want = of_int \<lfloor>of_int (uint count) * p + 999999 / 1000000\<rfloor>
      in if want = 0 then 1 else want)"

definition lat_percentile :: "lat_hist \<Rightarrow> rat \<Rightarrow> u64" where
  "lat_percentile h p =
     (if lh_count h = 0 then 0 else lat_seek (lh_bucket h) 0 0 (lat_want (lh_count h) p))"

definition lat_reset_window :: "lat_hist \<Rightarrow> lat_hist" where
  "lat_reset_window h = h\<lparr>lh_bucket := replicate LAT_BUCKETS 0, lh_count := 0, lh_max_ns := 0\<rparr>"

record lat_pub =
  lp_p50 :: u64
  lp_p99 :: u64
  lp_max_ever :: u64
  lp_valid :: bool

definition lat_pub_if_ready :: "lat_hist \<Rightarrow> u64 \<Rightarrow> lat_pub \<Rightarrow> lat_hist \<times> lat_pub" where
  "lat_pub_if_ready h need out =
     (let out = out\<lparr>lp_valid := (need > 0 \<and> lh_count h \<ge> need)\<rparr>
      in if \<not> lp_valid out then (h, out)
         else (lat_reset_window h,
               out\<lparr>lp_p50 := lat_percentile h (1 / 2), lp_p99 := lat_percentile h (99 / 100),
                   lp_max_ever := lh_max_ever_ns h\<rparr>))"

definition lat_step ::
    "lat_hist \<Rightarrow> lat_hist \<Rightarrow> u64 \<Rightarrow> u64 \<Rightarrow> u64 \<Rightarrow> u64 \<Rightarrow> u64 \<Rightarrow> lat_pub \<Rightarrow> lat_pub \<Rightarrow>
     lat_hist \<times> lat_hist \<times> lat_pub \<times> lat_pub" where
  "lat_step fifo pipe need wall_ns fifo_end_ns pipe_start_ns now_ns out_fifo out_pipe =
     (let fifo = (if fifo_end_ns > wall_ns then lat_record fifo (fifo_end_ns - wall_ns) else fifo);
          pipe = (if now_ns > pipe_start_ns then lat_record pipe (now_ns - pipe_start_ns) else pipe);
          (fifo, out_fifo) = lat_pub_if_ready fifo need out_fifo;
          (pipe, out_pipe) = lat_pub_if_ready pipe need out_pipe
      in (fifo, pipe, out_fifo, out_pipe))"

section \<open>The sample-gap latch\<close>

definition OVF_LATCH_S :: rat where "OVF_LATCH_S = 2"

record ovf_latch =
  ol_prev_count :: u64
  ol_age_s :: rat

definition ovf_latch_step :: "ovf_latch \<Rightarrow> u64 \<Rightarrow> rat \<Rightarrow> bool \<times> ovf_latch" where
  "ovf_latch_step l count dt =
     (let l = (if count \<noteq> ol_prev_count l then l\<lparr>ol_prev_count := count, ol_age_s := 0\<rparr>
               else if ol_age_s l < OVF_LATCH_S then l\<lparr>ol_age_s := ol_age_s l + dt\<rparr> else l)
      in (ol_age_s l < OVF_LATCH_S, l))"

section \<open>Rates and waiting times\<close>

text \<open>The tables are zero-terminated in C; here the list ends where the zero is.\<close>

fun nearest_loop :: "int \<Rightarrow> int \<Rightarrow> int \<Rightarrow> int list \<Rightarrow> int" where
  "nearest_loop requested best best_diff [] = best"
| "nearest_loop requested best best_diff (s # ss) =
     (let d = \<bar>s - requested\<bar>
      in if d < best_diff then nearest_loop requested s d ss else nearest_loop requested best best_diff ss)"

fun nearest_odr :: "int list \<Rightarrow> int \<Rightarrow> int" where
  "nearest_odr [] requested = 0"
| "nearest_odr (s # ss) requested = nearest_loop requested s \<bar>s - requested\<bar> ss"

fun snap_loop :: "int \<Rightarrow> int \<Rightarrow> int list \<Rightarrow> int" where
  "snap_loop requested lst [] = lst"
| "snap_loop requested lst (s # ss) = (if s \<ge> requested then s else snap_loop requested s ss)"

definition snap_odr_up :: "int list \<Rightarrow> int \<Rightarrow> int" where
  "snap_odr_up supported requested =
     snap_loop requested (case supported of [] \<Rightarrow> 0 | s # _ \<Rightarrow> s) supported"

text \<open>\<open>(long)(ms + 0.5)\<close> of a period that is not negative.\<close>

definition round_ms :: "rat \<Rightarrow> int" where
  "round_ms ms = \<lfloor>ms + 1 / 2\<rfloor>"

definition imu_int_fallback_ms :: "int \<Rightarrow> int \<Rightarrow> int \<Rightarrow> int" where
  "imu_int_fallback_ms odr_mhz depth grace_samples =
     (let depth = (if depth < 1 then 1 else depth);
          grace_samples = (if grace_samples < 1 then 1 else grace_samples)
      in if odr_mhz \<le> 0 then 20
         else let ms = 1000000 * of_int (depth + grace_samples) / of_int odr_mhz;
                  ms = (if ms > 600000 then 600000 else ms);
                  out = round_ms ms
              in if out < 1 then 1 else out)"

definition imu_poll_interval_ms :: "int \<Rightarrow> int \<Rightarrow> int" where
  "imu_poll_interval_ms odr_mhz depth =
     (let depth = (if depth < 1 then 1 else depth)
      in if odr_mhz \<le> 0 then 20
         else let ms = 500000 * of_int depth / of_int odr_mhz;
                  ms = (if ms > 600000 then 600000 else ms);
                  out = round_ms ms
              in if out < 1 then 1 else out)"

definition imu_mag_stall_ms :: "int \<Rightarrow> int" where
  "imu_mag_stall_ms odr_mhz =
     (if odr_mhz \<le> 0 then 2000
      else let ms = 1000000 * 10 / of_int odr_mhz;
               ms = (if ms < 2000 then 2000 else ms);
               ms = (if ms > 600000 then 600000 else ms)
           in round_ms ms)"

text \<open>A driver may answer for its own grid of rates.\<close>

definition odr_actual :: "(int \<Rightarrow> int) option \<Rightarrow> int list \<Rightarrow> int \<Rightarrow> int" where
  "odr_actual actual supported req_mhz =
     (case actual of Some f \<Rightarrow> f req_mhz | None \<Rightarrow> snap_odr_up supported req_mhz)"

definition imu_align_window_samples :: "rat \<Rightarrow> rat \<Rightarrow> int \<Rightarrow> int" where
  "imu_align_window_samples window_s rate_hz floor_n =
     (let window_s = (if \<not> window_s > 0 then 1 else window_s)
      in if \<not> rate_hz > 0 then (if floor_n > 0 then floor_n else 1)
         else let n = window_s * rate_hz;
                  n = (if n > 1000000000 then 1000000000 else n);
                  out = \<lfloor>n\<rfloor>;
                  out = (if out < floor_n then floor_n else out)
              in if out < 1 then 1 else out)"

section \<open>Buckets\<close>

lemma unat_drop_bit_1: "unat (drop_bit (Suc 0) (w :: u64)) = unat w div 2"
  by (simp add: drop_bit_eq_div unat_div)

lemma lat_bucket_loop_range:
  assumes "k \<le> 19"
  shows "k \<le> lat_bucket_loop us k \<and> lat_bucket_loop us k \<le> 19 \<and>
    (lat_bucket_loop us k < 19 \<longrightarrow> unat us < 2 ^ (lat_bucket_loop us k - k + 1)) \<and>
    (k < lat_bucket_loop us k \<longrightarrow> 2 ^ (lat_bucket_loop us k - k) \<le> unat us)"
  using assms
proof (induction us k rule: lat_bucket_loop.induct)
  case (1 us k)
  have small: "\<not> us > 1 \<longleftrightarrow> unat us < 2"
    by (auto simp: not_less word_le_nat_alt)
  show ?case
  proof (cases "us > 1 \<and> k < 19")
    case True
    then have e: "lat_bucket_loop us k = lat_bucket_loop (drop_bit 1 us) (k + 1)"
      by (simp add: lat_bucket_loop.simps [of us k] LAT_BUCKETS_def)
    let ?j = "lat_bucket_loop (drop_bit 1 us) (k + 1)"
    from 1 True have ih: "k + 1 \<le> ?j" "?j \<le> 19" "?j < 19 \<longrightarrow> unat us div 2 < 2 ^ (?j - (k + 1) + 1)"
      "k + 1 < ?j \<longrightarrow> 2 ^ (?j - (k + 1)) \<le> unat us div 2"
      by (simp_all add: LAT_BUCKETS_def unat_drop_bit_1)
    obtain m where m: "?j = k + 1 + m" using ih(1) by (metis le_Suc_ex)
    have "2 \<le> unat us" using True small by auto
    with ih show ?thesis unfolding e m by (cases "m = 0") auto
  next
    case False
    with 1(2) small show ?thesis by (auto simp: lat_bucket_loop.simps [of us k] LAT_BUCKETS_def)
  qed
qed

lemma lat_bucket_range: "lat_bucket ns < 20"
  using lat_bucket_loop_range [of 0 "ns div 1000"] by (simp add: lat_bucket_def Let_def)

text \<open>A bucket holds the durations from half its upper edge up; the top one holds all that are longer.\<close>

lemma lat_bucket_edges:
  "lat_bucket ns < 19 \<Longrightarrow> unat ns < 1000 * 2 ^ (lat_bucket ns + 1)"
  "0 < lat_bucket ns \<Longrightarrow> 1000 * 2 ^ lat_bucket ns \<le> unat ns"
proof -
  have u: "unat (ns div 1000) = unat ns div 1000" by (simp add: unat_div)
  note r = lat_bucket_loop_range [of 0 "ns div 1000", unfolded u]
  show "lat_bucket ns < 19 \<Longrightarrow> unat ns < 1000 * 2 ^ (lat_bucket ns + 1)"
    using r by (auto simp: lat_bucket_def Let_def)
  show "0 < lat_bucket ns \<Longrightarrow> 1000 * 2 ^ lat_bucket ns \<le> unat ns"
    using r by (auto simp: lat_bucket_def Let_def)
qed

section \<open>What a window holds\<close>

definition lat_empty :: lat_hist where
  "lat_empty = \<lparr>lh_bucket = replicate LAT_BUCKETS 0, lh_count = 0, lh_max_ns = 0, lh_max_ever_ns = 0\<rparr>"

definition lat_window :: "u64 list \<Rightarrow> lat_hist" where
  "lat_window xs = foldl lat_record lat_empty xs"

definition in_bucket :: "u64 list \<Rightarrow> nat \<Rightarrow> nat" where
  "in_bucket xs k = length (filter (\<lambda>ns. lat_bucket ns = k) xs)"

definition below_bucket :: "u64 list \<Rightarrow> nat \<Rightarrow> nat" where
  "below_bucket xs k = length (filter (\<lambda>ns. lat_bucket ns < k) xs)"

lemma below_bucket_simps:
  "below_bucket xs 0 = 0" "below_bucket xs (Suc k) = below_bucket xs k + in_bucket xs k"
  "below_bucket xs 20 = length xs"
proof -
  show "below_bucket xs (Suc k) = below_bucket xs k + in_bucket xs k"
    by (induction xs) (auto simp: below_bucket_def in_bucket_def less_Suc_eq)
  show "below_bucket xs 20 = length xs" by (simp add: below_bucket_def lat_bucket_range)
qed (simp add: below_bucket_def)

lemma below_bucket_le: "below_bucket xs k \<le> length xs"
  by (simp add: below_bucket_def)

lemma lat_window_bucket:
  "length (lh_bucket (lat_window xs)) = 20 \<and> lh_count (lat_window xs) = of_nat (length xs) \<and>
     (\<forall>k < 20. lh_bucket (lat_window xs) ! k = of_nat (in_bucket xs k))"
proof (induction xs rule: rev_induct)
  case Nil
  then show ?case by (simp add: lat_window_def lat_empty_def LAT_BUCKETS_def in_bucket_def)
next
  case (snoc ns xs)
  have "lat_window (xs @ [ns]) = lat_record (lat_window xs) ns" by (simp add: lat_window_def)
  with snoc lat_bucket_range [of ns] show ?case
    by (auto simp: lat_record_def Let_def in_bucket_def nth_list_update add.commute)
qed

lemma lat_seek_first:
  assumes "length xs < 2 ^ 32" "want \<le> of_nat (length xs)" "0 < want" "k \<le> 20" "seen = of_nat (below_bucket xs k)"
    and "below_bucket xs k < unat want"
  shows "\<exists>j < 20. lat_seek (map (\<lambda>i. of_nat (in_bucket xs i)) [k..<20]) k seen want = push_bit (j + 1) 1000 \<and>
    unat want \<le> below_bucket xs (j + 1) \<and> below_bucket xs j < unat want"
  using assms(4-)
proof (induction "20 - k" arbitrary: k seen)
  case 0
  have "unat want \<le> length xs"
    using assms(1,2) by (simp add: word_le_nat_alt unsigned_of_nat take_bit_nat_eq_self)
  with 0 below_bucket_simps(3) [of xs] show ?case by simp
next
  case (Suc m)
  then have k: "k < 20" by simp
  have c: "(ucast (of_nat (in_bucket xs k) :: u32) :: u64) = of_nat (in_bucket xs k)"
    using assms(1) le_less_trans [OF length_filter_le, of xs "2 ^ 32"]
    by (simp add: in_bucket_def unsigned_of_nat take_bit_nat_eq_self)
  let ?s = "of_nat (below_bucket xs (k + 1)) :: u64"
  have us: "unat ?s = below_bucket xs (k + 1)"
    using below_bucket_le [of xs "k + 1"] assms(1) by (simp add: unsigned_of_nat take_bit_nat_eq_self)
  have st: "lat_seek (map (\<lambda>i. of_nat (in_bucket xs i)) [k..<20]) k seen want =
      (if ?s \<ge> want then push_bit (k + 1) 1000
       else lat_seek (map (\<lambda>i. of_nat (in_bucket xs i)) [k + 1..<20]) (k + 1) ?s want)"
    using k Suc.prems(2) c by (simp add: upt_conv_Cons below_bucket_simps(2) Let_def)
  show ?case
  proof (cases "?s \<ge> want")
    case True
    with st us k Suc.prems(3) show ?thesis by (intro exI [of _ k]) (simp add: word_le_nat_alt)
  next
    case False
    then have "below_bucket xs (k + 1) < unat want" using us by (simp add: not_le word_less_nat_alt)
    with Suc.hyps(1) [of "k + 1" ?s] Suc.hyps(2) k st False show ?thesis by simp
  qed
qed

lemma lat_want_range:
  assumes "0 < n" "n < 2 ^ 32" "0 \<le> p" "p \<le> 1"
  shows "1 \<le> unat (lat_want (of_nat n) p)" "unat (lat_want (of_nat n) p) \<le> n"
    and "of_nat n * p - 1 / 1000000 < of_nat (unat (lat_want (of_nat n) p))"
proof -
  define w where "w = \<lfloor>of_nat n * p + 999999 / 1000000\<rfloor>"
  have "of_nat n * p \<le> of_nat n" using assms(4) by (simp add: mult_left_le)
  then have "of_nat n * p + 999999 / 1000000 < of_nat n + 1" by simp
  then have wn: "w \<le> int n" unfolding w_def by (simp add: floor_le_iff)
  have w0: "0 \<le> w" unfolding w_def using assms(3) by simp
  have un: "uint (of_nat n :: u64) = int n" using assms(2) by (simp add: unsigned_of_nat take_bit_nat_eq_self)
  have lw: "lat_want (of_nat n) p = (if (of_int w :: u64) = 0 then 1 else of_int w)"
    using assms(3,4) un by (simp add: lat_want_def Let_def w_def)
  have uw: "unat (of_int w :: u64) = nat w"
    using wn w0 assms(2) by (simp add: unsigned_of_int take_bit_int_eq_self flip: nat_uint_eq)
  then have u: "unat (lat_want (of_nat n) p) = (if w = 0 then 1 else nat w)"
    using w0 by (auto simp: lw simp flip: unat_eq_zero)
  show "1 \<le> unat (lat_want (of_nat n) p)" "unat (lat_want (of_nat n) p) \<le> n"
    unfolding u using wn w0 assms(1) by auto
  have "of_nat n * p + 999999 / 1000000 < of_int w + 1" unfolding w_def by linarith
  moreover have "of_int w \<le> (of_nat (unat (lat_want (of_nat n) p)) :: rat)"
    unfolding u using w0 by (auto simp: of_nat_nat)
  ultimately show "of_nat n * p - 1 / 1000000 < of_nat (unat (lat_want (of_nat n) p))" by linarith
qed

text \<open>
  a percentile that is published is an upper bound of the sample it names, and at most twice the
  sample: of a window of durations, at least the share \<open>p\<close> lies below the returned edge (unless it is
  the edge of the top bucket, which also holds everything longer), and less than that lies below half
  of it (unless it is the edge of the bottom bucket).
\<close>

theorem lat_percentile_bounds:
  assumes "xs \<noteq> []" "length xs < 2 ^ 32" "0 \<le> p" "p \<le> 1"
    and "v = unat (lat_percentile (lat_window xs) p)" "want = unat (lat_want (of_nat (length xs)) p)"
  shows "1 \<le> want \<and> want \<le> length xs \<and> of_nat (length xs) * p - 1 / 1000000 < of_nat want \<and>
    (v < 1000 * 2 ^ 20 \<longrightarrow> want \<le> length (filter (\<lambda>ns. unat ns < v) xs)) \<and>
    (2000 < v \<longrightarrow> length (filter (\<lambda>ns. 2 * unat ns < v) xs) < want)"
proof -
  have n: "0 < length xs" using assms(1) by simp
  let ?w = "lat_want (of_nat (length xs)) p"
  note r = lat_want_range [OF n assms(2-4)]
  have "?w \<le> of_nat (length xs)" "0 < ?w" using r assms(2)
    by (auto simp: word_le_nat_alt word_less_nat_alt unsigned_of_nat take_bit_nat_eq_self)
  from lat_seek_first [OF assms(2) this, of 0 0] r(1)
  obtain j where j: "j < 20" "lat_seek (map (\<lambda>i. of_nat (in_bucket xs i)) [0..<20]) 0 0 ?w = push_bit (j + 1) 1000"
    "want \<le> below_bucket xs (j + 1)" "below_bucket xs j < want"
    by (auto simp: below_bucket_simps(1) assms(6))
  have b: "lh_bucket (lat_window xs) = map (\<lambda>i. of_nat (in_bucket xs i)) [0..<20]"
    using lat_window_bucket [of xs] by (intro nth_equalityI) auto
  have c: "lh_count (lat_window xs) = of_nat (length xs)" using lat_window_bucket [of xs] by simp
  then have "lh_count (lat_window xs) \<noteq> 0" using n assms(2)
    by (simp flip: unat_eq_zero add: unsigned_of_nat take_bit_nat_eq_self)
  then have v: "v = unat (push_bit (j + 1) 1000 :: u64)"
    using j(2) b c by (simp add: assms(5) lat_percentile_def)
  have "(2 :: nat) ^ (j + 1) \<le> 2 ^ 20" using j(1) by (intro power_increasing) auto
  then have "(1000 :: nat) * 2 ^ (j + 1) < 2 ^ 64" by simp
  then have v: "v = 1000 * 2 ^ (j + 1)" unfolding v
    by (subst unsigned_push_bit_eq) (simp add: push_bit_eq_mult take_bit_nat_eq_self mult.commute)
  have "want \<le> length (filter (\<lambda>ns. unat ns < v) xs)" if "v < 1000 * 2 ^ 20"
  proof -
    have "j < 19"
    proof (rule ccontr)
      assume "\<not> j < 19"
      with j(1) have "j = 19" by simp
      with that v show False by simp
    qed
    then have "lat_bucket ns < j + 1 \<Longrightarrow> unat ns < v" for ns
      using lat_bucket_edges(1) [of ns] power_increasing [of "lat_bucket ns + 1" "j + 1" "2 :: nat"] unfolding v
      by (simp add: less_le_trans)
    then have "below_bucket xs (j + 1) \<le> length (filter (\<lambda>ns. unat ns < v) xs)"
      unfolding below_bucket_def by (induction xs) auto
    with j(3) show ?thesis by simp
  qed
  moreover have "length (filter (\<lambda>ns. 2 * unat ns < v) xs) < want" if "2000 < v"
  proof -
    have "0 < j" using that v by (cases j) auto
    have "lat_bucket ns < j" if "2 * unat ns < v" for ns
    proof (rule ccontr)
      assume "\<not> lat_bucket ns < j"
      then have jb: "j \<le> lat_bucket ns" by simp
      then have "(2 :: nat) ^ j \<le> 2 ^ lat_bucket ns" by (intro power_increasing) auto
      with lat_bucket_edges(2) [of ns] jb \<open>0 < j\<close> that show False unfolding v by simp
    qed
    then have "length (filter (\<lambda>ns. 2 * unat ns < v) xs) \<le> below_bucket xs j"
      unfolding below_bucket_def by (induction xs) auto
    with j(4) show ?thesis by simp
  qed
  ultimately show ?thesis using r unfolding assms(6) by simp
qed

lemma lat_percentile_bounds_witness:
  "1 \<le> unat (lat_want (of_nat (length [3000, 5000000, 4000 :: u64])) (1 / 2)) \<and>
   unat (lat_want (of_nat (length [3000, 5000000, 4000 :: u64])) (1 / 2)) \<le> length [3000, 5000000, 4000 :: u64]"
  using lat_percentile_bounds [of "[3000, 5000000, 4000]" "1 / 2", OF _ _ _ _ refl refl] by simp

section \<open>Choosing a rate\<close>

lemma nearest_loop_best:
  assumes "best_diff = \<bar>best - requested\<bar>"
  shows "nearest_loop requested best best_diff ss \<in> insert best (set ss) \<and>
    (\<forall>s \<in> insert best (set ss). \<bar>nearest_loop requested best best_diff ss - requested\<bar> \<le> \<bar>s - requested\<bar>)"
  using assms
proof (induction ss arbitrary: best best_diff)
  case (Cons s ss)
  show ?case
  proof (cases "\<bar>s - requested\<bar> < best_diff")
    case True
    with Cons.IH [of "\<bar>s - requested\<bar>" s] Cons.prems show ?thesis by (auto simp: Let_def)
  next
    case False
    with Cons.IH [OF Cons.prems] Cons.prems show ?thesis by (fastforce simp: Let_def)
  qed
qed simp

lemma snap_loop_least:
  assumes "sorted ss"
  shows "snap_loop requested lst ss = (if filter (\<lambda>s. s \<ge> requested) ss = [] then (if ss = [] then lst else last ss)
    else hd (filter (\<lambda>s. s \<ge> requested) ss))"
  using assms by (induction ss arbitrary: lst) auto

text \<open>
  For a driver with a table of rates in ascending order, the rate the daemon programs is one of the
  table, never below the requested one unless the table has nothing that high, and then the highest;
  no other rate of the table lies between the request and the choice.
\<close>

theorem odr_actual_snaps_up:
  assumes "sorted supported" "supported \<noteq> []"
  shows "odr_actual None supported req \<in> set supported \<and>
    (\<forall>s \<in> set supported. if req \<le> s then req \<le> odr_actual None supported req \<and> odr_actual None supported req \<le> s
       else odr_actual None supported req < req \<longrightarrow> s \<le> odr_actual None supported req)"
proof -
  let ?f = "filter (\<lambda>s. s \<ge> req) supported"
  have e: "odr_actual None supported req = (if ?f = [] then last supported else hd ?f)"
    using snap_loop_least [OF assms(1)] assms(2) by (simp add: odr_actual_def snap_odr_up_def)
  show ?thesis
  proof (cases "?f = []")
    case True
    then have "\<forall>s \<in> set supported. s < req" by (auto simp: filter_empty_conv not_le)
    moreover have "\<forall>s \<in> set supported. s \<le> last supported"
      using assms by (metis append_butlast_last_id in_set_conv_decomp_last last_in_set le_less set_ConsD
          sorted_append sorted_wrt_append UnE set_append empty_iff empty_set insert_iff list.simps(15))
    ultimately show ?thesis using True assms(2) e by auto
  next
    case False
    then have h: "hd ?f \<in> set ?f" by (rule hd_in_set)
    have "sorted ?f" using assms(1) by (rule sorted_wrt_filter)
    then have "\<forall>s \<in> set ?f. hd ?f \<le> s" using False by (cases ?f) auto
    with h False e show ?thesis by auto
  qed
qed

lemma odr_actual_snaps_up_witness:
  "odr_actual None [12500, 26000, 104000] 20000 = 26000 \<and> odr_actual None [12500, 26000, 104000] 500000 = 104000"
  using odr_actual_snaps_up [of "[12500, 26000, 104000]" 20000] odr_actual_snaps_up [of "[12500, 26000, 104000]" 500000]
  by (auto simp: odr_actual_def snap_odr_up_def)

text \<open>
  The reader of an interrupt line waits for at least the samples the line is waiting for: unless it is
  cut off at ten minutes, the fallback is within half a millisecond of \<open>depth + grace\<close> sample periods,
  and it always lies between 1 ms and 10 min.
\<close>

theorem fallback_covers_watermark:
  assumes "0 < odr" "1 \<le> depth" "1 \<le> grace"
  shows "1 \<le> imu_int_fallback_ms odr depth grace \<and> imu_int_fallback_ms odr depth grace \<le> 600000 \<and>
    (imu_int_fallback_ms odr depth grace < 600000 \<longrightarrow>
       2000000 * (depth + grace) - odr \<le> 2 * odr * imu_int_fallback_ms odr depth grace) \<and>
    (1 < imu_int_fallback_ms odr depth grace \<longrightarrow>
       2 * odr * imu_int_fallback_ms odr depth grace \<le> 2000000 * (depth + grace) + odr)"
proof -
  define ms :: rat where "ms = 1000000 * of_int (depth + grace) / of_int odr"
  define c where "c = (if ms > 600000 then 600000 else ms)"
  have e: "imu_int_fallback_ms odr depth grace = (if round_ms c < 1 then 1 else round_ms c)"
    using assms by (simp add: imu_int_fallback_ms_def Let_def c_def ms_def)
  have r: "of_int (round_ms c) \<le> c + 1 / 2" "c - 1 / 2 < of_int (round_ms c)"
    unfolding round_ms_def by linarith+
  have odr: "ms * of_int odr = 1000000 * of_int (depth + grace)" using assms by (simp add: ms_def)
  have "c \<le> 600000" by (simp add: c_def)
  then have up: "round_ms c \<le> 600000" using r(1) by linarith
  have lo: "2000000 * (depth + grace) - odr \<le> 2 * odr * round_ms c" if "round_ms c < 600000"
  proof -
    have "c = ms" using that r(2) by (auto simp: c_def split: if_splits)
    then have "(ms - 1 / 2) * of_int odr \<le> of_int (round_ms c) * of_int odr"
      using r assms(1) by (intro mult_right_mono) auto
    then have "(of_int (2000000 * (depth + grace) - odr) :: rat) \<le> of_int (2 * odr * round_ms c)"
      using odr by (simp add: algebra_simps)
    then show ?thesis unfolding of_int_le_iff .
  qed
  have hi: "2 * odr * round_ms c \<le> 2000000 * (depth + grace) + odr"
  proof -
    have "of_int (round_ms c) * of_int odr \<le> (c + 1 / 2) * of_int odr"
      using r assms(1) by (intro mult_right_mono) auto
    also have "\<dots> \<le> (ms + 1 / 2) * of_int odr"
      using assms(1) by (intro mult_right_mono) (auto simp: c_def)
    finally have "(of_int (2 * odr * round_ms c) :: rat) \<le> of_int (2000000 * (depth + grace) + odr)"
      using odr by (simp add: algebra_simps)
    then show ?thesis unfolding of_int_le_iff .
  qed
  have "2000000 * (depth + grace) - odr \<le> 2 * odr * 1" if "round_ms c < 1"
  proof -
    have "2 * odr * round_ms c \<le> 0" using that assms(1) by (simp add: mult_nonneg_nonpos)
    with lo that assms(1) show ?thesis by simp
  qed
  with up lo hi show ?thesis unfolding e by auto
qed

lemma fallback_covers_watermark_witness:
  "1 \<le> imu_int_fallback_ms 833000 64 16 \<and> 2000000 * (64 + 16) - 833000 \<le> 2 * 833000 * imu_int_fallback_ms 833000 64 16"
  using fallback_covers_watermark [of 833000 64 16]
  by (simp add: imu_int_fallback_ms_def round_ms_def Let_def)

end
