(* ===== verification/Reader.thy ===== *)
theory Reader
  imports Rotator Anchor Latency
begin

text \<open>
  The reader threads of src/imu.c. A pass of a thread's loop is a function of what the system and the
  driver hand it; a thread is the fold of its passes. The float arithmetic of calibration, mount rotation
  and vibration is a parameter. Clock readings are nanoseconds; the differences the code forms in
  \<open>double\<close> seconds are compared in nanoseconds.
\<close>

section \<open>ism_reader_thread\<close>

datatype flow = Go | Again | Quit

text \<open>What does not change during a run.\<close>

record ism_conf =
  ic_line :: bool
  ic_replaying :: bool
  ic_has_hw_timestamp :: bool
  ic_ts_tick_ns :: u32
  ic_nominal_period_ns :: u32

text \<open>What one pass finds: stop flags, the edge wait, the clocks, the drain, and the recovery calls.\<close>

record ism_in =
  ii_stop :: bool
  ii_gpio :: int
  ii_stop_mid :: bool
  ii_capture :: bool
  ii_before :: u64
  ii_after :: u64
  ii_tai :: u64
  ii_rc :: int
  ii_buf :: "imu_sample list"
  ii_reset_ok :: bool
  ii_init_ok :: bool
  ii_tap_mono :: u64
  ii_now :: u64
  ii_timebase :: "(u64 \<times> u64) option"

record 'v ism_state =
  rs_consec_errors :: nat
  rs_reset_failures :: nat
  rs_anchor_valid :: bool
  rs_anchor_last :: u64
  rs_tick_measured :: bool
  rs_pend_hw :: u64
  rs_pend_drop :: u64
  rs_last_gap_log :: u64
  rs_rate :: rate_meas
  rs_got_burst :: bool
  rs_anchor :: ts_anchor
  rs_imu_ring :: "imu_sample ring"
  rs_cap_ring :: cap_ring
  rs_imu_error_count :: u64
  rs_fifo_overflow_count :: u64
  rs_imu_sample_count :: u64
  rs_drains_edge :: u64
  rs_drains_timeout :: u64
  rs_drain_samples :: u64
  rs_drain_max :: u64
  rs_sample_period_ns :: u32
  rs_vib :: 'v
  rs_gap_log :: "(u64 \<times> u64 \<times> u64) list"
  rs_killed :: bool

definition ism_wait :: "ism_conf \<Rightarrow> ism_in \<Rightarrow> 'v ism_state \<Rightarrow> flow \<times> 'v ism_state" where
  "ism_wait c i s =
     (if ic_line c
      then (if ii_gpio i < 0 then (if ii_stop_mid i then Quit else Again, s)
            else (Go, if ii_gpio i > 0 then s\<lparr>rs_drains_edge := rs_drains_edge s + 1\<rparr>
                      else s\<lparr>rs_drains_timeout := rs_drains_timeout s + 1\<rparr>))
      else if \<not> ic_replaying c
      then (if ii_stop_mid i then (Quit, s) else (Go, s\<lparr>rs_drains_timeout := rs_drains_timeout s + 1\<rparr>))
      else (if ii_stop_mid i then Quit else Go, s))"

text \<open>A drain that failed: count it, and reset the chip after ten in a row.\<close>

definition ism_error :: "('v \<Rightarrow> 'v) \<Rightarrow> ism_in \<Rightarrow> 'v ism_state \<Rightarrow> flow \<times> 'v ism_state" where
  "ism_error vib_clear i s =
     (let s = s\<lparr>rs_imu_error_count := rs_imu_error_count s + 1, rs_consec_errors := rs_consec_errors s + 1\<rparr>
      in if rs_consec_errors s \<ge> 10
         then let rok = ii_reset_ok i \<and> ii_init_ok i;
                  s = s\<lparr>rs_consec_errors := 0\<rparr>
              in if \<not> rok
                 then let s = s\<lparr>rs_reset_failures := rs_reset_failures s + 1\<rparr>
                      in if rs_reset_failures s \<ge> 3 then (Quit, s\<lparr>rs_killed := True\<rparr>) else (Again, s)
                 else (Again, s\<lparr>rs_reset_failures := 0, rs_vib := vib_clear (rs_vib s)\<rparr>)
         else (Again, s))"

fun cap_push_burst :: "u64 \<Rightarrow> imu_sample list \<Rightarrow> cap_ring \<Rightarrow> cap_ring" where
  "cap_push_burst t [] r = r"
| "cap_push_burst t (x # xs) r = cap_push_burst t xs (snd (cap_ring_push_imu r x t))"

text \<open>The anchor of a burst: on the first one, on every one without a hardware timer, and after 25 s or,
  once the tick is measured, 60 s.\<close>

definition ism_anchor :: "ism_conf \<Rightarrow> ism_in \<Rightarrow> u32 \<Rightarrow> u64 \<Rightarrow> 'v ism_state \<Rightarrow> 'v ism_state" where
  "ism_anchor c i chip_ts now s =
     (let want = (if rs_tick_measured s then 60 else 25) * 1000000000 :: int;
          do_anchor = (\<not> rs_anchor_valid s \<or> \<not> ic_has_hw_timestamp c
                       \<or> uint now - uint (rs_anchor_last s) \<ge> want)
      in if \<not> do_anchor then s
         else let wall_at = (case ii_timebase i of Some (w, m) \<Rightarrow> w
                             | None \<Rightarrow> anchor_wall_ns (ii_before i) (ii_after i) (ic_has_hw_timestamp c));
                  tai_at = (case ii_timebase i of Some (w, m) \<Rightarrow> w
                            | None \<Rightarrow> anchor_tai_ns wall_at (ii_after i) (ii_tai i));
                  s = s\<lparr>rs_anchor := anchor_update (rs_anchor s) chip_ts wall_at tai_at now
                                      (if ic_has_hw_timestamp c then ic_ts_tick_ns c else 0),
                        rs_anchor_last := now, rs_anchor_valid := True\<rparr>
              in if \<not> rs_tick_measured s \<and> ic_has_hw_timestamp c
                    \<and> an_tick_q16 (rs_anchor s) > 0 \<and> ic_ts_tick_ns c > 0
                 then s\<lparr>rs_tick_measured := True\<rparr> else s)"

definition ism_gap_log :: "u64 \<Rightarrow> 'v ism_state \<Rightarrow> 'v ism_state" where
  "ism_gap_log tnow s =
     (if (rs_pend_hw s \<noteq> 0 \<or> rs_pend_drop s \<noteq> 0) \<and>
         (rs_last_gap_log s = 0 \<or> tnow - rs_last_gap_log s \<ge> 1000000000)
      then s\<lparr>rs_gap_log := rs_gap_log s @ [(tnow, rs_pend_hw s, rs_pend_drop s)],
             rs_pend_hw := 0, rs_pend_drop := 0, rs_last_gap_log := tnow\<rparr>
      else s)"

text \<open>The stages of a burst that was delivered, with at least one sample.\<close>

definition ism_tap :: "ism_conf \<Rightarrow> ism_in \<Rightarrow> 'v ism_state \<Rightarrow> 'v ism_state" where
  "ism_tap c i s =
     (let s = (if ic_replaying c then s\<lparr>rs_drains_timeout := rs_drains_timeout s + 1\<rparr> else s)
      in if ii_capture i
         then s\<lparr>rs_cap_ring := cap_push_burst (ii_tap_mono i) (ii_buf i) (rs_cap_ring s)\<rparr> else s)"

definition ism_samples :: "(imu_sample \<Rightarrow> imu_sample) \<Rightarrow> ism_in \<Rightarrow> imu_sample list" where
  "ism_samples finalise i =
     (let read_done = (case ii_timebase i of Some (w, m) \<Rightarrow> w | None \<Rightarrow> ii_after i)
      in map (\<lambda>x. finalise (x\<lparr>is_read_done_ns := read_done, is_host_done_ns := ii_after i\<rparr>)) (ii_buf i))"

definition ism_now :: "ism_in \<Rightarrow> u64" where
  "ism_now i = (case ii_timebase i of Some (w, m) \<Rightarrow> m | None \<Rightarrow> ii_now i)"

definition ism_rate :: "ism_conf \<Rightarrow> ism_in \<Rightarrow> 'v ism_state \<Rightarrow> 'v ism_state" where
  "ism_rate c i s =
     (if ic_has_hw_timestamp c then s
      else case rate_meas_step (rs_rate s) (int (length (ii_buf i))) (ii_rc i = 1) (ism_now i) (ic_nominal_period_ns c) of
             (accepted, r) \<Rightarrow> if accepted then s\<lparr>rs_rate := r, rs_sample_period_ns := rm_period_ns r\<rparr>
                              else s\<lparr>rs_rate := r\<rparr>)"

definition ism_store :: "imu_sample list \<Rightarrow> 'v ism_state \<Rightarrow> 'v ism_state" where
  "ism_store buf s =
     (let (dropped, ring) = imu_ring_push (rs_imu_ring s) buf
      in s\<lparr>rs_imu_ring := ring,
           rs_fifo_overflow_count := rs_fifo_overflow_count s + of_nat dropped,
           rs_imu_sample_count := rs_imu_sample_count s + of_nat (length buf),
           rs_pend_drop := rs_pend_drop s + of_nat dropped\<rparr>)"

definition ism_burst ::
    "(imu_sample \<Rightarrow> imu_sample) \<Rightarrow> (imu_sample list \<Rightarrow> 'v \<Rightarrow> 'v) \<Rightarrow> ism_conf \<Rightarrow> ism_in \<Rightarrow> 'v ism_state \<Rightarrow> 'v ism_state" where
  "ism_burst finalise vib_step c i s =
     (let buf = ism_samples finalise i;
          s = ism_tap c i s;
          s = ism_anchor c i (is_chip_ts (buf ! (length buf - 1))) (ism_now i) s;
          s = ism_rate c i s;
          s = s\<lparr>rs_vib := vib_step buf (rs_vib s)\<rparr>;
          s = ism_store buf s
      in ism_gap_log (ism_now i) s)"

definition ism_drained :: "ism_in \<Rightarrow> 'v ism_state \<Rightarrow> 'v ism_state" where
  "ism_drained i s =
     (let n = length (ii_buf i);
          s = s\<lparr>rs_consec_errors := 0, rs_drain_samples := rs_drain_samples s + of_nat n,
                rs_drain_max := (if of_nat n > rs_drain_max s then of_nat n else rs_drain_max s),
                rs_got_burst := n > 0\<rparr>
      in if ii_rc i = 1
         then s\<lparr>rs_rate := (rs_rate s)\<lparr>rm_open := False\<rparr>,
                rs_fifo_overflow_count := rs_fifo_overflow_count s + 1, rs_pend_hw := rs_pend_hw s + 1\<rparr>
         else s)"

definition ism_pass ::
    "(imu_sample \<Rightarrow> imu_sample) \<Rightarrow> (imu_sample list \<Rightarrow> 'v \<Rightarrow> 'v) \<Rightarrow> ('v \<Rightarrow> 'v) \<Rightarrow> ism_conf \<Rightarrow> ism_in \<Rightarrow>
     'v ism_state \<Rightarrow> bool \<times> 'v ism_state" where
  "ism_pass finalise vib_step vib_clear c i s =
     (if ii_stop i then (False, s)
      else case ism_wait c i s of
             (Quit, s) \<Rightarrow> (False, s)
           | (Again, s) \<Rightarrow> (True, s)
           | (Go, s) \<Rightarrow>
               if ii_rc i < 0 then (case ism_error vib_clear i s of (fl, s) \<Rightarrow> (fl \<noteq> Quit, s))
               else let s = ism_drained i s
                    in if ii_buf i = [] then (True, s) else (True, ism_burst finalise vib_step c i s))"

fun ism_reader_thread ::
    "(imu_sample \<Rightarrow> imu_sample) \<Rightarrow> (imu_sample list \<Rightarrow> 'v \<Rightarrow> 'v) \<Rightarrow> ('v \<Rightarrow> 'v) \<Rightarrow> ism_conf \<Rightarrow> ism_in list \<Rightarrow>
     'v ism_state \<Rightarrow> bool \<times> 'v ism_state" where
  "ism_reader_thread finalise vib_step vib_clear c [] s = (True, s)"
| "ism_reader_thread finalise vib_step vib_clear c (i # is) s =
     (case ism_pass finalise vib_step vib_clear c i s of
        (True, s) \<Rightarrow> ism_reader_thread finalise vib_step vib_clear c is s
      | (False, s) \<Rightarrow> (False, s))"

definition ism_start :: "'v \<Rightarrow> imu_sample \<Rightarrow> 'v ism_state" where
  "ism_start v z =
     \<lparr>rs_consec_errors = 0, rs_reset_failures = 0, rs_anchor_valid = False, rs_anchor_last = 0,
      rs_tick_measured = False, rs_pend_hw = 0, rs_pend_drop = 0, rs_last_gap_log = 0, rs_rate = zero_rate,
      rs_got_burst = True, rs_anchor = zero_anchor, rs_imu_ring = imu_ring_init z, rs_cap_ring = cap_ring_init,
      rs_imu_error_count = 0, rs_fifo_overflow_count = 0, rs_imu_sample_count = 0, rs_drains_edge = 0,
      rs_drains_timeout = 0, rs_drain_samples = 0, rs_drain_max = 0, rs_sample_period_ns = 0, rs_vib = v,
      rs_gap_log = [], rs_killed = False\<rparr>"

section \<open>What the stages leave alone\<close>

named_theorems ism_frame

lemma ism_tap_frame [ism_frame]:
  "rs_imu_ring (ism_tap c i s) = rs_imu_ring s" "rs_fifo_overflow_count (ism_tap c i s) = rs_fifo_overflow_count s"
  "rs_pend_hw (ism_tap c i s) = rs_pend_hw s" "rs_pend_drop (ism_tap c i s) = rs_pend_drop s"
  "rs_gap_log (ism_tap c i s) = rs_gap_log s" "rs_last_gap_log (ism_tap c i s) = rs_last_gap_log s"
  "rs_imu_sample_count (ism_tap c i s) = rs_imu_sample_count s" "rs_consec_errors (ism_tap c i s) = rs_consec_errors s"
  "rs_reset_failures (ism_tap c i s) = rs_reset_failures s" "rs_killed (ism_tap c i s) = rs_killed s"
  "rs_anchor (ism_tap c i s) = rs_anchor s" "rs_rate (ism_tap c i s) = rs_rate s"
  by (simp_all add: ism_tap_def Let_def)

lemma ism_anchor_frame [ism_frame]:
  "rs_imu_ring (ism_anchor c i x t s) = rs_imu_ring s"
  "rs_fifo_overflow_count (ism_anchor c i x t s) = rs_fifo_overflow_count s"
  "rs_pend_hw (ism_anchor c i x t s) = rs_pend_hw s" "rs_pend_drop (ism_anchor c i x t s) = rs_pend_drop s"
  "rs_gap_log (ism_anchor c i x t s) = rs_gap_log s" "rs_last_gap_log (ism_anchor c i x t s) = rs_last_gap_log s"
  "rs_imu_sample_count (ism_anchor c i x t s) = rs_imu_sample_count s"
  "rs_consec_errors (ism_anchor c i x t s) = rs_consec_errors s"
  "rs_reset_failures (ism_anchor c i x t s) = rs_reset_failures s" "rs_killed (ism_anchor c i x t s) = rs_killed s"
  "rs_cap_ring (ism_anchor c i x t s) = rs_cap_ring s" "rs_rate (ism_anchor c i x t s) = rs_rate s"
  by (simp_all add: ism_anchor_def Let_def)

lemma ism_rate_frame [ism_frame]:
  "rs_imu_ring (ism_rate c i s) = rs_imu_ring s" "rs_fifo_overflow_count (ism_rate c i s) = rs_fifo_overflow_count s"
  "rs_pend_hw (ism_rate c i s) = rs_pend_hw s" "rs_pend_drop (ism_rate c i s) = rs_pend_drop s"
  "rs_gap_log (ism_rate c i s) = rs_gap_log s" "rs_last_gap_log (ism_rate c i s) = rs_last_gap_log s"
  "rs_imu_sample_count (ism_rate c i s) = rs_imu_sample_count s" "rs_consec_errors (ism_rate c i s) = rs_consec_errors s"
  "rs_reset_failures (ism_rate c i s) = rs_reset_failures s" "rs_killed (ism_rate c i s) = rs_killed s"
  "rs_cap_ring (ism_rate c i s) = rs_cap_ring s" "rs_anchor (ism_rate c i s) = rs_anchor s"
  by (simp_all add: ism_rate_def split: prod.split)

lemma ism_store_frame [ism_frame]:
  "rs_pend_hw (ism_store buf s) = rs_pend_hw s" "rs_gap_log (ism_store buf s) = rs_gap_log s"
  "rs_last_gap_log (ism_store buf s) = rs_last_gap_log s" "rs_consec_errors (ism_store buf s) = rs_consec_errors s"
  "rs_reset_failures (ism_store buf s) = rs_reset_failures s" "rs_killed (ism_store buf s) = rs_killed s"
  "rs_cap_ring (ism_store buf s) = rs_cap_ring s" "rs_anchor (ism_store buf s) = rs_anchor s"
  "rs_imu_ring (ism_store buf s) = snd (imu_ring_push (rs_imu_ring s) buf)"
  "rs_fifo_overflow_count (ism_store buf s) = rs_fifo_overflow_count s + of_nat (fst (imu_ring_push (rs_imu_ring s) buf))"
  "rs_pend_drop (ism_store buf s) = rs_pend_drop s + of_nat (fst (imu_ring_push (rs_imu_ring s) buf))"
  "rs_imu_sample_count (ism_store buf s) = rs_imu_sample_count s + of_nat (length buf)"
  by (simp_all add: ism_store_def split: prod.split)

lemma ism_gap_log_frame [ism_frame]:
  "rs_imu_ring (ism_gap_log t s) = rs_imu_ring s" "rs_cap_ring (ism_gap_log t s) = rs_cap_ring s"
  "rs_fifo_overflow_count (ism_gap_log t s) = rs_fifo_overflow_count s"
  "rs_imu_sample_count (ism_gap_log t s) = rs_imu_sample_count s" "rs_killed (ism_gap_log t s) = rs_killed s"
  "rs_consec_errors (ism_gap_log t s) = rs_consec_errors s" "rs_reset_failures (ism_gap_log t s) = rs_reset_failures s"
  "rs_anchor (ism_gap_log t s) = rs_anchor s"
  by (simp_all add: ism_gap_log_def)

lemma ism_drained_frame [ism_frame]:
  "rs_imu_ring (ism_drained i s) = rs_imu_ring s" "rs_cap_ring (ism_drained i s) = rs_cap_ring s"
  "rs_pend_drop (ism_drained i s) = rs_pend_drop s" "rs_gap_log (ism_drained i s) = rs_gap_log s"
  "rs_last_gap_log (ism_drained i s) = rs_last_gap_log s" "rs_reset_failures (ism_drained i s) = rs_reset_failures s"
  "rs_killed (ism_drained i s) = rs_killed s" "rs_consec_errors (ism_drained i s) = 0"
  "rs_imu_sample_count (ism_drained i s) = rs_imu_sample_count s" "rs_anchor (ism_drained i s) = rs_anchor s"
  "rs_fifo_overflow_count (ism_drained i s) = rs_fifo_overflow_count s + of_bool (ii_rc i = 1)"
  "rs_pend_hw (ism_drained i s) = rs_pend_hw s + of_bool (ii_rc i = 1)"
  by (simp_all add: ism_drained_def Let_def)

lemma ism_wait_frame:
  assumes "ism_wait c i s = (fl, s')"
  shows "\<exists>e t. s' = s\<lparr>rs_drains_edge := e, rs_drains_timeout := t\<rparr>"
proof -
  have "s' = s\<lparr>rs_drains_edge := rs_drains_edge s', rs_drains_timeout := rs_drains_timeout s'\<rparr>"
    using assms by (auto simp: ism_wait_def split: if_splits)
  then show ?thesis by blast
qed

section \<open>Every gap is reported, at most once a second\<close>

definition gap_inv :: "'v ism_state \<Rightarrow> bool" where
  "gap_inv s \<longleftrightarrow>
     rs_fifo_overflow_count s = sum_list (map (\<lambda>(t, h, d). h + d) (rs_gap_log s)) + rs_pend_hw s + rs_pend_drop s \<and>
     rs_last_gap_log s = (if rs_gap_log s = [] then 0 else fst (last (rs_gap_log s))) \<and>
     (\<forall>k. Suc k < length (rs_gap_log s) \<longrightarrow> fst (rs_gap_log s ! k) = 0 \<or>
        1000000000 \<le> fst (rs_gap_log s ! Suc k) - fst (rs_gap_log s ! k))"

lemma gap_inv_log:
  assumes "gap_inv s"
  shows "gap_inv (ism_gap_log t s)"
proof (cases "(rs_pend_hw s \<noteq> 0 \<or> rs_pend_drop s \<noteq> 0) \<and> (rs_last_gap_log s = 0 \<or> t - rs_last_gap_log s \<ge> 1000000000)")
  case True
  have "fst ((rs_gap_log s @ [x]) ! k) = 0 \<or> 1000000000 \<le> fst ((rs_gap_log s @ [x]) ! Suc k) - fst ((rs_gap_log s @ [x]) ! k)"
    if "k < length (rs_gap_log s)" "fst x = t" for k x
  proof (cases "Suc k < length (rs_gap_log s)")
    case False
    with that have l: "length (rs_gap_log s) = Suc k" by simp
    then have "rs_gap_log s \<noteq> []" by auto
    from last_conv_nth [OF this] l have "rs_gap_log s ! k = last (rs_gap_log s)" by simp
    with that \<open>rs_gap_log s \<noteq> []\<close> True assms show ?thesis by (auto simp: gap_inv_def nth_append)
  qed (use assms in \<open>simp add: gap_inv_def nth_append\<close>)
  with True assms show ?thesis by (simp add: gap_inv_def ism_gap_log_def add.assoc)
next
  case False
  then have "ism_gap_log t s = s" unfolding ism_gap_log_def by (rule if_not_P)
  with assms show ?thesis by simp
qed

lemma gap_inv_cong:
  assumes "gap_inv s" "rs_gap_log s' = rs_gap_log s" "rs_last_gap_log s' = rs_last_gap_log s"
    and "rs_pend_hw s' = rs_pend_hw s + a" "rs_pend_drop s' = rs_pend_drop s + b"
    and "rs_fifo_overflow_count s' = rs_fifo_overflow_count s + (a + b)"
  shows "gap_inv s'"
  using assms by (simp add: gap_inv_def add.assoc add.left_commute)

lemma gap_inv_pass:
  assumes "gap_inv s"
  shows "gap_inv (snd (ism_pass finalise vib_step vib_clear c i s))"
proof -
  obtain fl s1 where w: "ism_wait c i s = (fl, s1)" by fastforce
  obtain e t where "s1 = s\<lparr>rs_drains_edge := e, rs_drains_timeout := t\<rparr>" using ism_wait_frame [OF w] by blast
  then have s1: "gap_inv s1" using assms by (auto intro: gap_inv_cong [of s _ 0 0])
  have e: "gap_inv (snd (ism_error vib_clear i s1))"
    using s1 by (auto simp: ism_error_def Let_def intro: gap_inv_cong [of s1 _ 0 0])
  have d: "gap_inv (ism_drained i s1)"
    using s1 by (auto simp: ism_frame intro: gap_inv_cong [of s1 _ "of_bool (ii_rc i = 1)" 0])
  have "gap_inv (ism_burst finalise vib_step c i (ism_drained i s1))"
    unfolding ism_burst_def Let_def
    by (intro gap_inv_log gap_inv_cong [OF d, of _ 0]) (simp_all add: ism_frame)
  with w s1 e d assms show ?thesis by (auto simp: ism_pass_def Let_def split: flow.splits prod.splits)
qed

lemma gap_inv_thread:
  "gap_inv s \<Longrightarrow> gap_inv (snd (ism_reader_thread finalise vib_step vib_clear c is s))"
proof (induction "is" arbitrary: s)
  case (Cons i "is")
  from gap_inv_pass [OF Cons.prems, of finalise vib_step vib_clear c i] Cons.IH show ?case
    by (auto split: prod.splits bool.splits)
qed simp

text \<open>
  the reader thread never loses track of lost samples: at any point of any run the published overflow
  counter is what the log lines so far reported, FIFO overflows and ring drops together, plus what is
  pending for the next line, and two log lines are at least a second apart on the clock of the drains.
\<close>

theorem reader_reports_every_gap:
  "case ism_reader_thread finalise vib_step vib_clear c is (ism_start v z) of (running, s) \<Rightarrow>
     rs_fifo_overflow_count s = sum_list (map (\<lambda>(t, hw, drop). hw + drop) (rs_gap_log s)) + rs_pend_hw s + rs_pend_drop s \<and>
     (\<forall>k. Suc k < length (rs_gap_log s) \<longrightarrow> fst (rs_gap_log s ! k) = 0 \<or>
        1000000000 \<le> fst (rs_gap_log s ! Suc k) - fst (rs_gap_log s ! k))"
proof -
  have "gap_inv (ism_start v z)" by (simp add: gap_inv_def ism_start_def)
  from gap_inv_thread [OF this, of finalise vib_step vib_clear c "is"] show ?thesis
    by (auto simp: gap_inv_def split: prod.splits)
qed

section \<open>Giving up\<close>

text \<open>A pass in which the read fails and so would a reset.\<close>

definition hopeless :: "ism_in \<Rightarrow> bool" where
  "hopeless i \<longleftrightarrow> \<not> ii_stop i \<and> \<not> ii_stop_mid i \<and> 0 \<le> ii_gpio i \<and> ii_rc i < 0 \<and> \<not> (ii_reset_ok i \<and> ii_init_ok i)"

definition err_inv :: "nat \<Rightarrow> 'v ism_state \<Rightarrow> bool" where
  "err_inv k s \<longleftrightarrow> 10 * rs_reset_failures s + rs_consec_errors s \<le> k \<and> rs_reset_failures s < 3 \<and> \<not> rs_killed s"

lemma err_inv_pass:
  assumes "err_inv k s" "ism_pass finalise vib_step vib_clear c i s = (running, s')"
  shows "if running then err_inv (k + of_bool (ii_rc i < 0)) s'
    else rs_killed s' \<longrightarrow> ii_rc i < 0 \<and> 30 \<le> k + 1"
proof -
  obtain fl s1 where w: "ism_wait c i s = (fl, s1)" by fastforce
  obtain e t where s1: "s1 = s\<lparr>rs_drains_edge := e, rs_drains_timeout := t\<rparr>" using ism_wait_frame [OF w] by blast
  have b: "err_inv (k + m) (ism_burst finalise vib_step c i (ism_drained i s1))" "err_inv (k + m) (ism_drained i s1)" for m
    using assms(1) s1 by (simp_all add: err_inv_def ism_burst_def ism_frame Let_def)
  show ?thesis
  proof (cases "\<not> ii_stop i \<and> fl = Go \<and> ii_rc i < 0")
    case False
    with assms w s1 b [of 0] show ?thesis
      by (auto simp: ism_pass_def Let_def err_inv_def split: flow.splits if_splits)
  next
    case True
    with assms(2) w have "(case ism_error vib_clear i s1 of (fl, s) \<Rightarrow> (fl \<noteq> Quit, s)) = (running, s')"
      by (simp add: ism_pass_def)
    with True assms(1) s1 show ?thesis
      by (auto simp: ism_error_def Let_def err_inv_def split: if_splits)
  qed
qed

lemma reader_killed_late:
  assumes "err_inv k s" "ism_reader_thread finalise vib_step vib_clear c is s = (running, s')" "rs_killed s'"
  shows "30 \<le> k + length (filter (\<lambda>i. ii_rc i < 0) is)"
  using assms
proof (induction "is" arbitrary: k s)
  case (Cons i "is")
  obtain r1 s1 where p: "ism_pass finalise vib_step vib_clear c i s = (r1, s1)" by fastforce
  note e = err_inv_pass [OF Cons.prems(1) p]
  show ?case
  proof (cases r1)
    case True
    with Cons.IH [of "k + of_bool (ii_rc i < 0)" s1] Cons.prems p e show ?thesis
      by (cases "ii_rc i < 0") simp_all
  next
    case False
    with Cons.prems p e show ?thesis by auto
  qed
qed (simp add: err_inv_def)

lemma hopeless_pass:
  assumes "hopeless i" "10 * rs_reset_failures s + rs_consec_errors s = k" "rs_reset_failures s < 3" "rs_consec_errors s < 10"
    and "\<not> rs_killed s"
  shows "case ism_pass finalise vib_step vib_clear c i s of (running, s') \<Rightarrow>
    if k + 1 = 30 then \<not> running \<and> rs_killed s'
    else running \<and> 10 * rs_reset_failures s' + rs_consec_errors s' = k + 1 \<and> rs_reset_failures s' < 3 \<and>
      rs_consec_errors s' < 10 \<and> \<not> rs_killed s'"
proof -
  obtain fl s1 where w: "ism_wait c i s = (fl, s1)" by fastforce
  obtain e t where s1: "s1 = s\<lparr>rs_drains_edge := e, rs_drains_timeout := t\<rparr>" using ism_wait_frame [OF w] by blast
  have fl: "fl = Go" using w assms(1) by (auto simp: ism_wait_def hopeless_def split: if_splits)
  have e: "ism_pass finalise vib_step vib_clear c i s = (case ism_error vib_clear i s1 of (fl, s) \<Rightarrow> (fl \<noteq> Quit, s))"
    using w fl assms(1) by (simp add: ism_pass_def hopeless_def)
  show ?thesis unfolding e using assms s1
    by (auto simp: ism_error_def Let_def hopeless_def)
qed

lemma hopeless_run:
  assumes "\<forall>i \<in> set is. hopeless i" "10 * rs_reset_failures s + rs_consec_errors s = k" "rs_reset_failures s < 3"
    and "rs_consec_errors s < 10" "\<not> rs_killed s" "k + length is \<ge> 30"
  shows "\<not> fst (ism_reader_thread finalise vib_step vib_clear c is s) \<and>
    rs_killed (snd (ism_reader_thread finalise vib_step vib_clear c is s))"
  using assms
proof (induction "is" arbitrary: s k)
  case Nil
  then show ?case by simp
next
  case (Cons i "is")
  obtain r1 s1 where p: "ism_pass finalise vib_step vib_clear c i s = (r1, s1)" by fastforce
  have "hopeless i" using Cons.prems(1) by simp
  note h = hopeless_pass [OF this Cons.prems(2-5), of finalise vib_step vib_clear c, unfolded p prod.case]
  show ?case
  proof (cases "k + 1 = 30")
    case True
    with h p show ?thesis by simp
  next
    case False
    with h have r: r1 "10 * rs_reset_failures s1 + rs_consec_errors s1 = k + 1" "rs_reset_failures s1 < 3"
      "rs_consec_errors s1 < 10" "\<not> rs_killed s1" by auto
    have "k + 1 + length is \<ge> 30" "\<forall>i \<in> set is. hopeless i" using Cons.prems by auto
    from Cons.IH [OF this(2) r(2-5) this(1)] r(1) p show ?thesis by simp
  qed
qed

text \<open>
  C11: a dead part takes the daemon down and a flaky one does not: the reader asks for shutdown only after at
  least thirty failed reads, and when every read fails and no reset helps, it does so at the thirtieth and
  ends its loop.
\<close>

theorem reader_shutdown:
  assumes "ism_reader_thread finalise vib_step vib_clear c is (ism_start v z) = (running, s)"
  shows "(rs_killed s \<longrightarrow> 30 \<le> length (filter (\<lambda>i. ii_rc i < 0) is)) \<and>
    ((\<forall>i \<in> set is. hopeless i) \<and> 30 \<le> length is \<longrightarrow> \<not> running \<and> rs_killed s)"
proof -
  have "err_inv 0 (ism_start v z)" by (simp add: err_inv_def ism_start_def)
  from reader_killed_late [OF this assms] hopeless_run [of "is" "ism_start v z" 0 finalise vib_step vib_clear c] assms
  show ?thesis by (auto simp: ism_start_def)
qed

definition dead_in :: ism_in where
  "dead_in = \<lparr>ii_stop = False, ii_gpio = 1, ii_stop_mid = False, ii_capture = False, ii_before = 0, ii_after = 0,
     ii_tai = 0, ii_rc = -1, ii_buf = [], ii_reset_ok = False, ii_init_ok = False, ii_tap_mono = 0, ii_now = 0,
     ii_timebase = None\<rparr>"

definition line_conf :: ism_conf where
  "line_conf = \<lparr>ic_line = True, ic_replaying = False, ic_has_hw_timestamp = True, ic_ts_tick_ns = 25000,
     ic_nominal_period_ns = 1200480\<rparr>"

lemma reader_reports_every_gap_witness:
  "case ism_reader_thread id (\<lambda>b v. v) id line_conf [dead_in\<lparr>ii_rc := 1\<rparr>, dead_in] (ism_start () imu_zero) of
     (running, s) \<Rightarrow> rs_fifo_overflow_count s =
        sum_list (map (\<lambda>(t, hw, drop). hw + drop) (rs_gap_log s)) + rs_pend_hw s + rs_pend_drop s"
  using reader_reports_every_gap [of id "\<lambda>b v. v" id line_conf "[dead_in\<lparr>ii_rc := 1\<rparr>, dead_in]" "()" imu_zero]
  by (simp split: prod.splits)

lemma reader_shutdown_witness:
  "case ism_reader_thread id (\<lambda>b v. v) id line_conf (replicate 30 dead_in) (ism_start () imu_zero) of
     (running, s) \<Rightarrow> \<not> running \<and> rs_killed s"
proof -
  obtain r s where t: "ism_reader_thread id (\<lambda>b v. v) id line_conf (replicate 30 dead_in) (ism_start () imu_zero) = (r, s)"
    by fastforce
  from reader_shutdown [OF t] t show ?thesis by (simp add: hopeless_def dead_in_def)
qed

section \<open>What is delivered\<close>

lemma cap_push_burst_fill: "cap_push_burst t xs r = snd (tap_fill r (map (Tap_imu t) xs))"
  by (induction t xs r rule: cap_push_burst.induct) (simp_all add: cap_ring_push_imu_def Let_def split: prod.splits)

text \<open>
  C10: what a drain delivers reaches its two readers: the fusion thread's ring holds the newest 256 of what it
  had and the whole burst, each sample stamped with the end of the read and then calibrated, and the black box,
  when it is on, holds the oldest 1024 of what it had and the burst exactly as the driver gave it. A failed or
  empty drain changes neither.
\<close>

theorem reader_delivers:
  assumes "ring_inv IMU_RING_LEN (rs_imu_ring s)" "tap_inv (rs_cap_ring s)"
    and "\<not> ii_stop i" "\<not> ii_stop_mid i" "0 \<le> ii_gpio i"
    and "ism_pass finalise vib_step vib_clear c i s = (running, s')"
  shows "ring_contents IMU_RING_LEN (rs_imu_ring s') =
      (if ii_rc i < 0 \<or> ii_buf i = [] then ring_contents IMU_RING_LEN (rs_imu_ring s)
       else last_n 256 (ring_contents IMU_RING_LEN (rs_imu_ring s) @ ism_samples finalise i)) \<and>
    tap_contents (rs_cap_ring s') =
      (if ii_rc i < 0 \<or> ii_buf i = [] \<or> \<not> ii_capture i then tap_contents (rs_cap_ring s)
       else take 1024 (tap_contents (rs_cap_ring s) @ map (Tap_imu (ii_tap_mono i)) (ii_buf i)))"
proof -
  obtain fl s1 where w: "ism_wait c i s = (fl, s1)" by fastforce
  obtain e t where "s1 = s\<lparr>rs_drains_edge := e, rs_drains_timeout := t\<rparr>" using ism_wait_frame [OF w] by blast
  then have s1: "rs_imu_ring s1 = rs_imu_ring s" "rs_cap_ring s1 = rs_cap_ring s" by simp_all
  have fl: "fl = Go" using w assms(4,5) by (auto simp: ism_wait_def split: if_splits)
  have p: "(running, s') = (if ii_rc i < 0 then (case ism_error vib_clear i s1 of (fl, s) \<Rightarrow> (fl \<noteq> Quit, s))
      else let s = ism_drained i s1
           in if ii_buf i = [] then (True, s) else (True, ism_burst finalise vib_step c i s))"
    using assms(3,6) w fl by (simp add: ism_pass_def)
  show ?thesis
  proof (cases "ii_rc i < 0 \<or> ii_buf i = []")
    case True
    with p s1 show ?thesis
      by (auto simp: ism_error_def ism_frame Let_def split: if_splits prod.splits)
  next
    case False
    then have s': "s' = ism_burst finalise vib_step c i (ism_drained i s1)" using p by simp
    have r: "rs_imu_ring s' = snd (imu_ring_push (rs_imu_ring s) (ism_samples finalise i))"
      unfolding s' ism_burst_def Let_def by (simp add: ism_frame s1)
    have cr: "rs_cap_ring s' = (if ii_capture i then cap_push_burst (ii_tap_mono i) (ii_buf i) (rs_cap_ring s) else rs_cap_ring s)"
      unfolding s' ism_burst_def Let_def by (simp add: ism_frame) (simp add: ism_tap_def Let_def ism_frame s1)
    have "ring_contents IMU_RING_LEN (rs_imu_ring s') =
        last_n 256 (ring_contents IMU_RING_LEN (rs_imu_ring s) @ ism_samples finalise i)"
      unfolding r imu_ring_push_many using imuq.push_many_keeps_newest [OF assms(1)] by blast
    moreover have "tap_contents (cap_push_burst (ii_tap_mono i) (ii_buf i) (rs_cap_ring s)) =
        take 1024 (tap_contents (rs_cap_ring s) @ map (Tap_imu (ii_tap_mono i)) (ii_buf i))"
      unfolding cap_push_burst_fill tap_fill_many using tapq.push_many_keeps_oldest [OF assms(2)] by blast
    ultimately show ?thesis using False cr by simp
  qed
qed

lemma reader_delivers_witness:
  "case ism_pass (\<lambda>x. x\<lparr>is_temp_c := 7\<rparr>) (\<lambda>b v. v) id line_conf (dead_in\<lparr>ii_rc := 0, ii_buf := [imu_zero], ii_capture := True\<rparr>)
      (ism_start () imu_zero) of (running, s) \<Rightarrow> tap_contents (rs_cap_ring s) = [Tap_imu 0 imu_zero]"
proof -
  obtain r s where t: "ism_pass (\<lambda>x. x\<lparr>is_temp_c := 7\<rparr>) (\<lambda>b v. v) id line_conf
      (dead_in\<lparr>ii_rc := 0, ii_buf := [imu_zero], ii_capture := True\<rparr>) (ism_start () imu_zero) = (r, s)" by fastforce
  have "ring_inv IMU_RING_LEN (rs_imu_ring (ism_start () imu_zero))" "tap_inv (rs_cap_ring (ism_start () imu_zero))"
    by (simp_all add: ism_start_def)
  from reader_delivers [OF this _ _ _ t] t show ?thesis by (simp add: dead_in_def) (simp add: ism_start_def)
qed

section \<open>mag_reader_thread\<close>

record mag_conf =
  mc_line :: bool
  mc_replaying :: bool
  mc_has_set_reset :: bool
  mc_odr_mhz :: int
  mc_has_mag_cal :: bool

record mag_in =
  mi_stop :: bool
  mi_gpio :: int
  mi_stop_mid :: bool
  mi_capture :: bool
  mi_set_period_ns :: int
  mi_now :: int
  mi_rc :: int
  mi_sample :: mag_sample
  mi_reset_ok :: bool
  mi_init_ok :: bool
  mi_tap_mono :: u64

datatype mag_log = Stalled int | Delivering | Resetting

record mag_state =
  gs_consec_errors :: nat
  gs_reset_failures :: nat
  gs_last_set :: int
  gs_last_good :: int
  gs_stall_warned :: bool
  gs_got_sample :: bool
  gs_set_flag :: bool
  gs_set_pulses :: nat
  gs_mag_ring :: "mag_sample ring"
  gs_cap_ring :: cap_ring
  gs_mag_error_count :: u64
  gs_mag_sample_count :: u64
  gs_log :: "mag_log list"
  gs_killed :: bool

definition mag_wait :: "mag_conf \<Rightarrow> mag_in \<Rightarrow> flow" where
  "mag_wait c i =
     (if mc_line c then (if mi_gpio i < 0 then (if mi_stop_mid i then Quit else Again) else Go)
      else if mi_stop_mid i then Quit else Go)"

text \<open>The degauss that is due; the period is zero or negative when it is switched off.\<close>

definition mag_set_due :: "mag_conf \<Rightarrow> mag_in \<Rightarrow> mag_state \<Rightarrow> bool" where
  "mag_set_due c i s \<longleftrightarrow>
     mi_set_period_ns i > 0 \<and> mc_has_set_reset c \<and> mi_now i - gs_last_set s \<ge> mi_set_period_ns i"

text \<open>A read without a new measurement: nothing is pushed, and an outage is reported once.\<close>

definition mag_idle :: "mag_conf \<Rightarrow> mag_in \<Rightarrow> mag_state \<Rightarrow> mag_state" where
  "mag_idle c i s =
     (if \<not> gs_stall_warned s
      then let ms = (mi_now i div 1000000000 - gs_last_good s div 1000000000) * 1000
                    + (mi_now i mod 1000000000 - gs_last_good s mod 1000000000) sdiv 1000000
           in if ms \<ge> imu_mag_stall_ms (mc_odr_mhz c)
              then s\<lparr>gs_stall_warned := True, gs_log := gs_log s @ [Stalled ms]\<rparr> else s
      else s)"

definition mag_error :: "mag_in \<Rightarrow> mag_state \<Rightarrow> flow \<times> mag_state" where
  "mag_error i s =
     (let s = s\<lparr>gs_mag_error_count := gs_mag_error_count s + 1, gs_consec_errors := gs_consec_errors s + 1\<rparr>
      in if gs_consec_errors s \<ge> 10
         then let rok = mi_reset_ok i \<and> mi_init_ok i;
                  s = s\<lparr>gs_consec_errors := 0, gs_log := gs_log s @ [Resetting]\<rparr>
              in if \<not> rok
                 then let s = s\<lparr>gs_reset_failures := gs_reset_failures s + 1\<rparr>
                      in if gs_reset_failures s \<ge> 3 then (Quit, s\<lparr>gs_killed := True\<rparr>) else (Again, s)
                 else (Again, s\<lparr>gs_reset_failures := 0\<rparr>)
         else (Again, s))"

definition mag_deliver :: "(mag_sample \<Rightarrow> mag_sample) \<Rightarrow> mag_conf \<Rightarrow> mag_in \<Rightarrow> mag_state \<Rightarrow> mag_state" where
  "mag_deliver finalise c i s =
     (let s = s\<lparr>gs_consec_errors := 0\<rparr>;
          s = (if mi_capture i
               then s\<lparr>gs_cap_ring := snd (cap_ring_push_mag (gs_cap_ring s) (mi_sample i) (mi_tap_mono i))\<rparr> else s);
          m = (finalise (mi_sample i))\<lparr>ms_calibrated := mc_has_mag_cal c\<rparr>
      in s\<lparr>gs_mag_ring := mag_ring_push (gs_mag_ring s) m, gs_mag_sample_count := gs_mag_sample_count s + 1\<rparr>)"

definition mag_pass ::
    "(mag_sample \<Rightarrow> mag_sample) \<Rightarrow> mag_conf \<Rightarrow> mag_in \<Rightarrow> mag_state \<Rightarrow> bool \<times> mag_state" where
  "mag_pass finalise c i s =
     (if mi_stop i then (False, s)
      else case mag_wait c i of
             Quit \<Rightarrow> (False, s)
           | Again \<Rightarrow> (True, s)
           | Go \<Rightarrow>
               if mag_set_due c i s
               then (True, s\<lparr>gs_set_pulses := gs_set_pulses s + 1, gs_set_flag := True, gs_last_set := mi_now i\<rparr>)
               else let s = s\<lparr>gs_got_sample := (mi_rc i = 0)\<rparr>
                    in if mi_rc i > 0 then (True, mag_idle c i s)
                       else let s = (if gs_stall_warned s
                                     then s\<lparr>gs_log := gs_log s @ [Delivering], gs_stall_warned := False\<rparr> else s);
                                s = s\<lparr>gs_last_good := mi_now i\<rparr>
                            in if mi_rc i < 0 then (case mag_error i s of (fl, s) \<Rightarrow> (fl \<noteq> Quit, s))
                               else (True, mag_deliver finalise c i s))"

text \<open>
  The outage report of the magnetometer thread ends on a read error as it does on a sample: with an
  outage reported, a read that fails is logged as the magnetometer delivering again, and the clock of the
  stall watch starts over although nothing was delivered.
\<close>

theorem mag_error_ends_outage:
  assumes "\<not> mi_stop i" "mag_wait c i = Go" "\<not> mag_set_due c i s" "mi_rc i < 0" "gs_stall_warned s"
    and "mag_pass finalise c i s = (running, s')"
  shows "prefix (gs_log s @ [Delivering]) (gs_log s') \<and> \<not> gs_stall_warned s' \<and> gs_last_good s' = mi_now i \<and>
    gs_mag_ring s' = gs_mag_ring s \<and> gs_mag_sample_count s' = gs_mag_sample_count s"
  using assms
  by (auto simp: mag_pass_def mag_error_def Let_def split: if_splits)

definition mag_still :: mag_state where
  "mag_still = \<lparr>gs_consec_errors = 0, gs_reset_failures = 0, gs_last_set = 0, gs_last_good = 0, gs_stall_warned = True,
     gs_got_sample = False, gs_set_flag = False, gs_set_pulses = 0, gs_mag_ring = mag_ring_init mag_zero,
     gs_cap_ring = cap_ring_init, gs_mag_error_count = 0, gs_mag_sample_count = 0, gs_log = [Stalled 2000], gs_killed = False\<rparr>"

definition mag_fail_in :: mag_in where
  "mag_fail_in = \<lparr>mi_stop = False, mi_gpio = 0, mi_stop_mid = False, mi_capture = True, mi_set_period_ns = 0, mi_now = 9,
     mi_rc = -1, mi_sample = mag_zero, mi_reset_ok = False, mi_init_ok = False, mi_tap_mono = 0\<rparr>"

lemma mag_error_ends_outage_witness:
  "case mag_pass id \<lparr>mc_line = True, mc_replaying = False, mc_has_set_reset = True, mc_odr_mhz = 100000, mc_has_mag_cal = True\<rparr>
      mag_fail_in mag_still of (running, s) \<Rightarrow> prefix [Stalled 2000, Delivering] (gs_log s) \<and> gs_mag_sample_count s = 0"
proof -
  let ?c = "\<lparr>mc_line = True, mc_replaying = False, mc_has_set_reset = True, mc_odr_mhz = 100000, mc_has_mag_cal = True\<rparr>"
  obtain r s where p: "mag_pass id ?c mag_fail_in mag_still = (r, s)" by fastforce
  from mag_error_ends_outage [OF _ _ _ _ _ p] p show ?thesis
    by (simp add: mag_fail_in_def mag_still_def mag_wait_def mag_set_due_def)
qed

text \<open>
  A pass of the magnetometer thread delivers exactly when the driver read a new sample: then the ring of
  the fusion thread holds the newest 32 of what it had and the calibrated sample, marked with whether a
  calibration was applied; a degauss, a read without news and an error leave the ring alone. A degauss pulse
  is never followed by a read in the same pass.
\<close>

theorem mag_reader_delivers:
  assumes "ring_inv MAG_RING_LEN (gs_mag_ring s)" "mag_pass finalise c i s = (running, s')"
  shows "ring_inv MAG_RING_LEN (gs_mag_ring s') \<and>
    ring_contents MAG_RING_LEN (gs_mag_ring s') =
      (if \<not> mi_stop i \<and> mag_wait c i = Go \<and> \<not> mag_set_due c i s \<and> mi_rc i = 0
       then last_n 32 (ring_contents MAG_RING_LEN (gs_mag_ring s) @ [(finalise (mi_sample i))\<lparr>ms_calibrated := mc_has_mag_cal c\<rparr>])
       else ring_contents MAG_RING_LEN (gs_mag_ring s)) \<and>
    (gs_set_pulses s' \<noteq> gs_set_pulses s \<longrightarrow> gs_mag_ring s' = gs_mag_ring s \<and> gs_set_flag s' \<and> gs_last_set s' = mi_now i)"
  using assms magq.push_inv [OF assms(1)] magq.push_contents [OF assms(1)]
  by (auto simp: mag_pass_def mag_error_def mag_idle_def mag_deliver_def Let_def mag_ring_push_def
      split: flow.splits if_splits)

lemma mag_reader_delivers_witness:
  "case mag_pass id \<lparr>mc_line = True, mc_replaying = False, mc_has_set_reset = True, mc_odr_mhz = 100000, mc_has_mag_cal = True\<rparr>
      (mag_fail_in\<lparr>mi_rc := 0\<rparr>) mag_still of (running, s) \<Rightarrow>
     ring_contents MAG_RING_LEN (gs_mag_ring s) = [mag_zero\<lparr>ms_calibrated := True\<rparr>]"
proof -
  let ?c = "\<lparr>mc_line = True, mc_replaying = False, mc_has_set_reset = True, mc_odr_mhz = 100000, mc_has_mag_cal = True\<rparr>"
  obtain r s where p: "mag_pass id ?c (mag_fail_in\<lparr>mi_rc := 0\<rparr>) mag_still = (r, s)" by fastforce
  have "ring_inv MAG_RING_LEN (gs_mag_ring mag_still)" by (simp add: mag_still_def)
  from mag_reader_delivers [OF this p] p show ?thesis
    by (simp add: mag_fail_in_def mag_still_def mag_wait_def mag_set_due_def)
qed

end
