(* ===== verification/Netserv.thy ===== *)
theory Netserv
  imports Prelude Client "HOL-Library.Multiset"
begin

text \<open>
  src/netserv.c and include/netserv.h: the broadcast server of the daemon and of the bridges. A system
  call's outcome is an input; what a socket's peer has been handed is a byte list per descriptor. The two
  arrays and the swap-remove are as in the code; log lines and the log tag are left out.
\<close>

definition NETSRV_MAX_CLIENTS :: nat where "NETSRV_MAX_CLIENTS = 8"
definition NETSRV_STALL_NS :: u64 where "NETSRV_STALL_NS = 30000000000"

record netserv =
  ns_listen_fd :: int
  ns_clients :: "int list"
  ns_taken_ns :: "u64 list"
  ns_nclients :: nat
  ns_port :: int

text \<open>\<open>send\<close>: the bytes taken, a full socket buffer, or any other error.\<close>

datatype send_rc = Took nat | Full | Broken

section \<open>The operations\<close>

definition netserv_init :: netserv where
  "netserv_init = \<lparr>ns_listen_fd = -1, ns_clients = replicate NETSRV_MAX_CLIENTS 0,
     ns_taken_ns = replicate NETSRV_MAX_CLIENTS 0, ns_nclients = 0, ns_port = 0\<rparr>"

text \<open>What the calls of \<open>netserv_open\<close> return; \<open>getsockname\<close> may fail.\<close>

record open_calls =
  oc_addr_ok :: bool
  oc_fd :: int
  oc_reuse_ok :: bool
  oc_bind_ok :: bool
  oc_listen_ok :: bool
  oc_bound_port :: "u16 option"

definition netserv_open :: "open_calls \<Rightarrow> int \<Rightarrow> int \<times> netserv \<times> int list" where
  "netserv_open e port =
     (let s = netserv_init; fd = oc_fd e
      in if \<not> oc_addr_ok e then (-1, s, [])
         else if fd < 0 then (-1, s, [])
         else if \<not> oc_reuse_ok e then (-1, s, [fd])
         else if \<not> oc_bind_ok e then (-1, s, [fd])
         else if \<not> oc_listen_ok e then (-1, s, [fd])
         else let s = s\<lparr>ns_port := (case oc_bound_port e of Some p \<Rightarrow> uint p | None \<Rightarrow> port)\<rparr>
              in (0, s\<lparr>ns_listen_fd := fd\<rparr>, []))"

text \<open>The accept loop over the pending connections, each with the clock at its turn; the last
  component is the descriptors closed. The daemon's own stream has the same loop over its arrays.\<close>

fun accept_loop ::
    "nat \<Rightarrow> (int \<times> u64) list \<Rightarrow> nat \<Rightarrow> int list \<Rightarrow> u64 list \<Rightarrow> nat \<times> int list \<times> u64 list \<times> int list" where
  "accept_loop max_clients [] n fds taken = (n, fds, taken, [])"
| "accept_loop max_clients ((c, now) # cs) n fds taken =
     (if n \<ge> max_clients
      then (case accept_loop max_clients cs n fds taken of (n, fds, taken, closed) \<Rightarrow> (n, fds, taken, c # closed))
      else accept_loop max_clients cs (n + 1) (fds[n := c]) (taken[n := now]))"

definition netserv_accept :: "(int \<times> u64) list \<Rightarrow> netserv \<Rightarrow> netserv \<times> int list" where
  "netserv_accept pending s =
     (if ns_listen_fd s < 0 then (s, [])
      else case accept_loop NETSRV_MAX_CLIENTS pending (ns_nclients s) (ns_clients s) (ns_taken_ns s) of
             (n, fds, taken, closed) \<Rightarrow>
               (s\<lparr>ns_clients := fds, ns_taken_ns := taken, ns_nclients := n\<rparr>, closed))"

text \<open>
  The loop of \<open>netserv_send_each\<close>. \<open>out fd\<close> is the outcome of the one \<open>send\<close> to that descriptor.
\<close>

function send_loop ::
    "(int \<Rightarrow> send_rc) \<Rightarrow> u64 \<Rightarrow> nat \<Rightarrow> nat \<Rightarrow> nat \<Rightarrow> int list \<Rightarrow> u64 list \<Rightarrow> int list \<Rightarrow>
     nat \<times> int list \<times> u64 list \<times> int list" where
  "send_loop out now len i n fds taken closed =
     (if i < n
      then let sent = out (fds ! i)
           in if sent = Took len then send_loop out now len (i + 1) n fds (taken[i := now]) closed
              else let full = (sent = Full)
                   in if full \<and> now - taken ! i < NETSRV_STALL_NS
                      then send_loop out now len (i + 1) n fds taken closed
                      else let c = fds ! i; n = n - 1
                           in send_loop out now len i n (fds[i := fds ! n]) (taken[i := taken ! n]) (closed @ [c])
      else (n, fds, taken, closed))"
  by pat_completeness auto
termination by (relation "measure (\<lambda>(out, now, len, i, n, fds, taken, closed). n - i)") auto

declare send_loop.simps [simp del]

definition netserv_send_each ::
    "(int \<Rightarrow> send_rc) \<Rightarrow> u64 \<Rightarrow> bytes \<Rightarrow> int list \<Rightarrow> u64 list \<Rightarrow> nat \<Rightarrow> nat \<times> int list \<times> u64 list \<times> int list" where
  "netserv_send_each out now buf fds taken n = send_loop out now (length buf) 0 n fds taken []"

definition netserv_broadcast :: "(int \<Rightarrow> send_rc) \<Rightarrow> u64 \<Rightarrow> bytes \<Rightarrow> netserv \<Rightarrow> netserv \<times> int list" where
  "netserv_broadcast out now buf s =
     (if ns_listen_fd s < 0 \<or> buf = [] then (s, [])
      else case netserv_send_each out now buf (ns_clients s) (ns_taken_ns s) (ns_nclients s) of
             (n, fds, taken, closed) \<Rightarrow>
               (s\<lparr>ns_clients := fds, ns_taken_ns := taken, ns_nclients := n\<rparr>, closed))"

definition netserv_nclients :: "netserv \<Rightarrow> nat" where
  "netserv_nclients s = (if ns_listen_fd s < 0 then 0 else ns_nclients s)"

definition netserv_close :: "netserv \<Rightarrow> netserv \<times> int list" where
  "netserv_close s =
     (if ns_listen_fd s < 0 then (s, [])
      else (s\<lparr>ns_nclients := 0, ns_listen_fd := -1\<rparr>, take (ns_nclients s) (ns_clients s) @ [ns_listen_fd s]))"

section \<open>The slow-client policy\<close>

text \<open>The clients as pairs of a descriptor and the time of its last whole payload.\<close>

definition subscribers :: "nat \<Rightarrow> int list \<Rightarrow> u64 list \<Rightarrow> (int \<times> u64) list" where
  "subscribers n fds taken = zip (take n fds) (take n taken)"

definition kept :: "(int \<Rightarrow> send_rc) \<Rightarrow> u64 \<Rightarrow> nat \<Rightarrow> int \<times> u64 \<Rightarrow> bool" where
  "kept out now len c \<longleftrightarrow> out (fst c) = Took len \<or> (out (fst c) = Full \<and> now - snd c < NETSRV_STALL_NS)"

definition restamp :: "(int \<Rightarrow> send_rc) \<Rightarrow> u64 \<Rightarrow> nat \<Rightarrow> int \<times> u64 \<Rightarrow> int \<times> u64" where
  "restamp out now len c = (fst c, if out (fst c) = Took len then now else snd c)"

lemma subscribers_drop_Suc:
  assumes "i < n" "n \<le> length fds" "length taken = length fds"
  shows "drop i (subscribers n fds taken) = (fds ! i, taken ! i) # drop (Suc i) (subscribers n fds taken)"
proof -
  have "i < length (subscribers n fds taken)" using assms by (simp add: subscribers_def)
  from Cons_nth_drop_Suc [OF this] assms show ?thesis by (simp add: subscribers_def)
qed

lemma subscribers_tail_cong:
  assumes "\<And>k. i \<le> k \<Longrightarrow> k < n \<Longrightarrow> fds' ! k = fds ! k \<and> taken' ! k = taken ! k"
    and "n \<le> length fds" "length fds' = length fds" "length taken = length fds" "length taken' = length fds"
  shows "drop i (subscribers n fds' taken') = drop i (subscribers n fds taken)"
  by (rule nth_equalityI) (use assms in \<open>auto simp: subscribers_def\<close>)

lemma subscribers_swap_remove:
  assumes "i < n" "n \<le> length fds" "length taken = length fds"
  shows "mset (drop i (subscribers (n - 1) (fds[i := fds ! (n - 1)]) (taken[i := taken ! (n - 1)]))) =
    mset (drop (Suc i) (subscribers n fds taken))"
proof (cases "Suc i = n")
  case True
  with assms show ?thesis by (auto simp: subscribers_def)
next
  case False
  let ?f = "fds[i := fds ! (n - 1)]" and ?t = "taken[i := taken ! (n - 1)]"
  have "drop i (subscribers (n - 1) ?f ?t) = (?f ! i, ?t ! i) # drop (Suc i) (subscribers (n - 1) ?f ?t)"
    using False assms by (intro subscribers_drop_Suc) auto
  also have "drop (Suc i) (subscribers (n - 1) ?f ?t) = drop (Suc i) (subscribers (n - 1) fds taken)"
    using assms by (intro subscribers_tail_cong) auto
  finally have l: "drop i (subscribers (n - 1) ?f ?t) =
      (fds ! (n - 1), taken ! (n - 1)) # drop (Suc i) (subscribers (n - 1) fds taken)"
    using assms by simp
  have "subscribers n fds taken = subscribers (n - 1) fds taken @ [(fds ! (n - 1), taken ! (n - 1))]"
    using assms take_Suc_conv_app_nth [of "n - 1" fds] take_Suc_conv_app_nth [of "n - 1" taken]
    by (simp add: subscribers_def)
  with l False assms show ?thesis by (simp add: subscribers_def)
qed

lemma send_loop_spec:
  assumes "send_loop out now len i n fds taken closed = (n', fds', taken', closed')"
    and "i \<le> n" "n \<le> length fds" "length taken = length fds"
  shows "length fds' = length fds \<and> length taken' = length fds \<and> i \<le> n' \<and> n' \<le> n \<and>
    take i fds' = take i fds \<and> take i taken' = take i taken \<and>
    mset (drop i (subscribers n' fds' taken')) =
      mset (map (restamp out now len) (filter (kept out now len) (drop i (subscribers n fds taken)))) \<and>
    mset closed' = mset closed + mset (map fst (filter (\<lambda>c. \<not> kept out now len c) (drop i (subscribers n fds taken))))"
  using assms
proof (induction out now len i n fds taken closed rule: send_loop.induct)
  case (1 out now len i n fds taken closed)
  let ?c = "(fds ! i, taken ! i)"
  note eq = "1.prems"(1) [unfolded send_loop.simps [of out now len i n]]
  show ?case
  proof (cases "i < n")
    case False
    with eq "1.prems" show ?thesis by (auto simp: subscribers_def)
  next
    case i: True
    note head = subscribers_drop_Suc [OF i "1.prems"(3,4)]
    show ?thesis
    proof (cases "kept out now len ?c")
      case True
      let ?t = "if out (fds ! i) = Took len then taken[i := now] else taken"
      have step: "send_loop out now len (i + 1) n fds ?t closed = (n', fds', taken', closed')"
        using eq i True by (auto simp: kept_def Let_def split: if_splits)
      have ih: "length fds' = length fds \<and> length taken' = length fds \<and> i + 1 \<le> n' \<and> n' \<le> n \<and>
          take (i + 1) fds' = take (i + 1) fds \<and> take (i + 1) taken' = take (i + 1) ?t \<and>
          mset (drop (i + 1) (subscribers n' fds' taken')) =
            mset (map (restamp out now len) (filter (kept out now len) (drop (i + 1) (subscribers n fds ?t)))) \<and>
          mset closed' = mset closed + mset (map fst (filter (\<lambda>c. \<not> kept out now len c) (drop (i + 1) (subscribers n fds ?t))))"
        using "1.IH"(1,2) i True step "1.prems"(3,4) by (auto simp: kept_def split: if_splits)
      have same: "drop (i + 1) (subscribers n fds ?t) = drop (i + 1) (subscribers n fds taken)"
        using "1.prems" by (intro subscribers_tail_cong) auto
      have pre: "take i taken' = take i taken"
        using arg_cong [OF conjunct1 [OF conjunct2 [OF conjunct2 [OF conjunct2 [OF conjunct2 [OF conjunct2 [OF ih]]]]]], of "take i"]
        by (simp split: if_splits)
      have nth: "fds' ! i = fds ! i" "taken' ! i = ?t ! i"
        using ih nth_take [of i "i + 1"] by (metis less_add_one)+
      have "drop i (subscribers n' fds' taken') = restamp out now len ?c # drop (i + 1) (subscribers n' fds' taken')"
        using subscribers_drop_Suc [of i n' fds' taken'] ih nth i "1.prems"(3,4) by (auto simp: restamp_def)
      moreover have "take i fds' = take i fds"
        using arg_cong [OF conjunct1 [OF conjunct2 [OF conjunct2 [OF conjunct2 [OF conjunct2 [OF ih]]]]], of "take i"]
        by simp
      ultimately show ?thesis using ih pre True head same by simp
    next
      case False
      let ?f = "fds[i := fds ! (n - 1)]" and ?t = "taken[i := taken ! (n - 1)]"
      have step: "send_loop out now len i (n - 1) ?f ?t (closed @ [fds ! i]) = (n', fds', taken', closed')"
        using eq i False by (auto simp: kept_def Let_def split: if_splits)
      have "length fds' = length fds \<and> length taken' = length fds \<and> i \<le> n' \<and> n' \<le> n - 1 \<and>
          take i fds' = take i ?f \<and> take i taken' = take i ?t \<and>
          mset (drop i (subscribers n' fds' taken')) =
            mset (map (restamp out now len) (filter (kept out now len) (drop i (subscribers (n - 1) ?f ?t)))) \<and>
          mset closed' = mset (closed @ [fds ! i]) +
            mset (map fst (filter (\<lambda>c. \<not> kept out now len c) (drop i (subscribers (n - 1) ?f ?t))))"
        using "1.IH"(3) i False step "1.prems"(3,4) by (auto simp: kept_def)
      moreover note subscribers_swap_remove [OF i "1.prems"(3,4)]
      moreover have "n - 1 \<le> n" by simp
      ultimately show ?thesis using False head by (simp add: le_trans [OF _ \<open>n - 1 \<le> n\<close>])
    qed
  qed
qed

lemma map_fst_subscribers: "length fds = length taken \<Longrightarrow> map fst (subscribers n fds taken) = take n fds"
  by (simp add: subscribers_def)

text \<open>Accepting fills the arrays up to their size and closes the rest.\<close>

lemma accept_loop_spec:
  assumes "accept_loop m pending n fds taken = (n', fds', taken', closed)"
    and "n \<le> m" "length fds = m" "length taken = m"
  shows "n' \<le> m \<and> length fds' = m \<and> length taken' = m \<and>
    subscribers n' fds' taken' = subscribers n fds taken @ take (m - n) pending \<and>
    closed = map fst (drop (m - n) pending)"
  using assms
proof (induction m pending n fds taken arbitrary: n' fds' taken' closed rule: accept_loop.induct)
  case (2 m c now cs n fds taken)
  show ?case
  proof (cases "n \<ge> m")
    case True
    with "2.prems" obtain cl where "accept_loop m cs n fds taken = (n', fds', taken', cl)" "closed = c # cl"
      by (auto split: prod.splits)
    with "2.IH"(1) [OF True] True "2.prems" show ?thesis by simp
  next
    case False
    with "2.prems" have e: "accept_loop m cs (n + 1) (fds[n := c]) (taken[n := now]) = (n', fds', taken', closed)"
      by simp
    have "subscribers (n + 1) (fds[n := c]) (taken[n := now]) = subscribers n fds taken @ [(c, now)]"
      using False "2.prems" by (simp add: subscribers_def take_Suc_conv_app_nth)
    with "2.IH"(2) [OF False e] False "2.prems" show ?thesis
      by (simp add: Suc_diff_Suc [symmetric] not_le)
  qed
qed (simp add: subscribers_def)

lemma accept_loop_fds:
  assumes "accept_loop m pending n fds taken = (n', fds', taken', closed)"
    and "n \<le> m" "length fds = m" "length taken = m"
  shows "take n' fds' = take n fds @ take (m - n) (map fst pending)"
  using accept_loop_spec [OF assms] map_fst_subscribers [of fds' taken' n'] map_fst_subscribers [of fds taken n] assms(3,4)
  by (simp add: take_map)

text \<open>The descriptors a broadcast leaves in the array.\<close>

lemma send_each_fds:
  assumes "netserv_send_each out now buf fds taken n = (n', fds', taken', closed)"
    and "n \<le> length fds" "length taken = length fds"
  shows "mset (take n' fds') + mset closed = mset (take n fds)"
    and "fd \<in> set (take n' fds') \<Longrightarrow> fd \<in> set (take n fds) \<and> (out fd = Took (length buf) \<or> out fd = Full)"
    and "distinct (take n fds) \<Longrightarrow> distinct (take n' fds')"
    and "n' \<le> n \<and> length fds' = length fds \<and> length taken' = length fds"
proof -
  let ?v = "subscribers n fds taken" and ?k = "kept out now (length buf)"
  have s: "mset (subscribers n' fds' taken') = mset (map (restamp out now (length buf)) (filter ?k ?v))"
    and c: "mset closed = mset (map fst (filter (\<lambda>c. \<not> ?k c) ?v))"
    and l: "n' \<le> n" "length fds' = length fds" "length taken' = length fds"
    using send_loop_spec [OF assms(1) [unfolded netserv_send_each_def] _ assms(2,3)] by simp_all
  have f: "map fst ?v = take n fds" "map fst (subscribers n' fds' taken') = take n' fds'"
    using map_fst_subscribers l assms(3) by simp_all
  have r: "fst \<circ> restamp out now (length buf) = fst" by (auto simp: restamp_def)
  have k: "mset (take n' fds') = mset (map fst (filter ?k ?v))"
    using arg_cong [OF s, of "image_mset fst"] r unfolding f(2) [symmetric] by (simp add: multiset.map_comp)
  show "mset (take n' fds') + mset closed = mset (take n fds)"
    unfolding k c f(1) [symmetric] by (simp flip: image_mset_union)
  show "distinct (take n fds) \<Longrightarrow> distinct (take n' fds')"
    unfolding mset_eq_imp_distinct_iff [OF k] f(1) [symmetric] by (rule distinct_map_filter)
  show "fd \<in> set (take n' fds') \<Longrightarrow> fd \<in> set (take n fds) \<and> (out fd = Took (length buf) \<or> out fd = Full)"
    unfolding mset_eq_setD [OF k] f(1) [symmetric] by (auto simp: kept_def)
  show "n' \<le> n \<and> length fds' = length fds \<and> length taken' = length fds" using l by simp
qed

text \<open>
  C13: the slow-client policy. A broadcast keeps exactly the clients that took the whole payload, noting the
  time, and those whose buffer is full but that took one less than thirty seconds ago; every other client is
  closed, once, and nobody is lost or served twice by the swap-remove.
\<close>

theorem broadcast_policy:
  assumes "netserv_send_each out now buf fds taken n = (n', fds', taken', closed)"
    and "n \<le> length fds" "length taken = length fds"
  shows "mset (subscribers n' fds' taken') =
      mset (map (restamp out now (length buf)) (filter (kept out now (length buf)) (subscribers n fds taken))) \<and>
    mset closed = mset (map fst (filter (\<lambda>c. \<not> kept out now (length buf) c) (subscribers n fds taken))) \<and>
    n' \<le> n \<and> length fds' = length fds \<and> length taken' = length fds"
  using send_loop_spec [OF assms(1) [unfolded netserv_send_each_def] _ assms(2,3)] by simp

lemma broadcast_policy_witness:
  "case netserv_send_each (\<lambda>fd. if fd = 5 then Took 1 else if fd = 6 then Took 2 else Full) 40000000000 [9, 9]
      [5, 6, 7, 8] [0, 0, 0, 20000000000] 4 of
     (n, fds, taken, closed) \<Rightarrow>
       mset (subscribers n fds taken) = {#(6, 40000000000), (8, 20000000000)#} \<and> mset closed = {#5, 7#}"
proof -
  let ?out = "\<lambda>fd :: int. if fd = 5 then Took 1 else if fd = 6 then Took 2 else Full"
  obtain n fds taken closed where
    e: "netserv_send_each ?out 40000000000 [9, 9] [5, 6, 7, 8] [0, 0, 0, 20000000000] 4 = (n, fds, taken, closed)"
    by (rule prod_cases4)
  have v: "subscribers 4 [5, 6, 7, 8] [0, 0, 0, 20000000000] = [(5, 0), (6, 0), (7, 0), (8, 20000000000 :: u64)]"
    by (simp add: subscribers_def)
  have k: "kept ?out 40000000000 2 (5, 0) = False" "kept ?out 40000000000 2 (6, 0) = True"
    "kept ?out 40000000000 2 (7, 0) = False" "kept ?out 40000000000 2 (8, 20000000000) = True"
    by (simp_all add: kept_def NETSRV_STALL_NS_def)
  have r: "restamp ?out 40000000000 2 (6, 0) = (6, 40000000000)"
    "restamp ?out 40000000000 2 (8, 20000000000) = (8, 20000000000)"
    by (simp_all add: restamp_def)
  have l: "length [9 :: u8, 9] = 2" by simp
  from broadcast_policy [OF e] show ?thesis unfolding e prod.case v l
    by (simp only: filter.simps k r if_True if_False simp_thms list.map fst_conv mset.simps list.size)
qed

end
