(* ===== verification/Timing.thy ===== *)
theory Timing
  imports Prelude "HOL-Library.Signed_Division"
begin

text \<open>
  Deadlines: \<open>ts_add_ns\<close> of include/imu_math.h, \<open>align_next\<close> of src/output.c and the emit ticks of
  src/bridge.c. A \<open>struct timespec\<close> is a pair of seconds and nanoseconds; \<open>long\<close> and \<open>time_t\<close> have 64
  bits and clock readings are far from their limits, so they are integers here.
\<close>

type_synonym timespec = "int \<times> int"

definition tv :: "timespec \<Rightarrow> int" where
  "tv t = fst t * 1000000000 + snd t"

definition tv_ok :: "timespec \<Rightarrow> bool" where
  "tv_ok t \<longleftrightarrow> 0 \<le> snd t \<and> snd t < 1000000000"

lemma tv_less: "tv_ok s \<Longrightarrow> tv_ok t \<Longrightarrow> tv s < tv t \<longleftrightarrow> fst s < fst t \<or> fst s = fst t \<and> snd s < snd t"
  by (cases s; cases t) (auto simp: tv_def tv_ok_def)

lemma tv_le: "tv_ok s \<Longrightarrow> tv_ok t \<Longrightarrow> tv s \<le> tv t \<longleftrightarrow> fst s < fst t \<or> fst s = fst t \<and> snd s \<le> snd t"
  by (cases s; cases t) (auto simp: tv_def tv_ok_def)

section \<open>Carrying nanoseconds\<close>

function carry_ns :: "timespec \<Rightarrow> timespec" where
  "carry_ns (sec, nsec) = (if nsec \<ge> 1000000000 then carry_ns (sec + 1, nsec - 1000000000) else (sec, nsec))"
  by pat_completeness auto
termination by (relation "measure (\<lambda>(sec, nsec). nat nsec)") auto

declare carry_ns.simps [simp del]

lemma carry_ns_ok: "0 \<le> snd t \<Longrightarrow> tv_ok (carry_ns t) \<and> tv (carry_ns t) = tv t"
proof (induction t rule: carry_ns.induct)
  case (1 sec nsec)
  then show ?case
    by (subst (1 2) carry_ns.simps) (auto simp: tv_ok_def tv_def)
qed

definition ts_add_ns :: "timespec \<Rightarrow> int \<Rightarrow> timespec" where
  "ts_add_ns ts ns = carry_ns (fst ts, snd ts + ns)"

lemma ts_add_ns_ok:
  "tv_ok ts \<Longrightarrow> 0 \<le> ns \<Longrightarrow> tv_ok (ts_add_ns ts ns) \<and> tv (ts_add_ns ts ns) = tv ts + ns"
  using carry_ns_ok [of "(fst ts, snd ts + ns)"] by (simp add: ts_add_ns_def tv_ok_def tv_def)

section \<open>The output threads\<close>

definition align_next :: "timespec \<Rightarrow> int \<Rightarrow> timespec" where
  "align_next now period_ns = carry_ns (fst now, (snd now div period_ns + 1) * period_ns)"

text \<open>The period of an output, with the fallback a thread uses for a rate that is not positive.\<close>

definition out_period_ns :: "int \<Rightarrow> int \<Rightarrow> int" where
  "out_period_ns fallback rate_hz = (if rate_hz > 0 then 1000000000 div rate_hz else fallback)"

lemma out_period_pos: "0 < fallback \<Longrightarrow> rate_hz \<le> 1000000000 \<Longrightarrow> 0 < out_period_ns fallback rate_hz"
  by (simp add: out_period_ns_def pos_imp_zdiv_pos_iff)

lemma align_next_ok:
  assumes "tv_ok now" "0 < period_ns"
  shows "tv_ok (align_next now period_ns) \<and> tv now < tv (align_next now period_ns) \<and>
    tv (align_next now period_ns) \<le> tv now + period_ns \<and>
    period_ns dvd (tv (align_next now period_ns) - fst now * 1000000000)"
proof -
  let ?t = "(fst now, (snd now div period_ns + 1) * period_ns)"
  have d: "(snd now div period_ns) * period_ns = snd now - snd now mod period_ns"
    by (simp add: minus_mod_eq_div_mult)
  have "0 \<le> snd ?t" using assms by (simp add: tv_ok_def pos_imp_zdiv_nonneg_iff)
  from carry_ns_ok [OF this] have c: "tv_ok (align_next now period_ns)" "tv (align_next now period_ns) = tv ?t"
    by (simp_all add: align_next_def)
  have m: "0 \<le> snd now mod period_ns" "snd now mod period_ns < period_ns" using assms(2) by auto
  have "tv ?t = fst now * 1000000000 + (snd now - snd now mod period_ns) + period_ns"
    using d by (simp add: tv_def distrib_right)
  then have "tv ?t = tv now - snd now mod period_ns + period_ns" by (simp add: tv_def)
  moreover have "period_ns dvd (tv ?t - fst now * 1000000000)" by (simp add: tv_def)
  ultimately show ?thesis using c m by simp
qed

text \<open>The deadlines of an output thread, with the rates it read at its ticks.\<close>

fun deadlines :: "int \<Rightarrow> timespec \<Rightarrow> int list \<Rightarrow> timespec list" where
  "deadlines fallback next [] = []"
| "deadlines fallback next (rate_hz # rates) =
     next # deadlines fallback (ts_add_ns next (out_period_ns fallback rate_hz)) rates"

lemma deadlines_at:
  assumes "tv_ok next" "0 < fallback" "\<forall>r \<in> set rates. r \<le> 1000000000" "k < length rates"
  shows "tv_ok (deadlines fallback next rates ! k) \<and>
    tv (deadlines fallback next rates ! k) = tv next + sum_list (map (out_period_ns fallback) (take k rates))"
  using assms
proof (induction rates arbitrary: "next" k)
  case (Cons r rates)
  have p: "0 \<le> out_period_ns fallback r" using out_period_pos [of fallback r] Cons.prems(2,3) by simp
  from ts_add_ns_ok [OF Cons.prems(1) p] Cons.IH [of "ts_add_ns next (out_period_ns fallback r)" "k - 1"] Cons.prems
  show ?case by (cases k) simp_all
qed simp

text \<open>
  The outputs keep their grid. The first deadline of an output thread lies after its start, at most
  a period away and on a whole number of periods into the second; every later one is exactly the periods
  read so far behind it, however late the thread wakes up, so no tick is lost or doubled.
\<close>

theorem output_deadlines:
  assumes "tv_ok now" "0 < fallback" "r0 \<le> 1000000000" "\<forall>r \<in> set rates. r \<le> 1000000000" "k < length rates"
  shows "tv_ok (deadlines fallback (align_next now (out_period_ns fallback r0)) rates ! k) \<and>
    (let first = tv (align_next now (out_period_ns fallback r0))
     in tv now < first \<and> first \<le> tv now + out_period_ns fallback r0 \<and>
        out_period_ns fallback r0 dvd (first - fst now * 1000000000) \<and>
        tv (deadlines fallback (align_next now (out_period_ns fallback r0)) rates ! k) =
          first + sum_list (map (out_period_ns fallback) (take k rates)))"
  using align_next_ok [OF assms(1) out_period_pos [OF assms(2,3)]]
    deadlines_at [of "align_next now (out_period_ns fallback r0)" fallback rates k] assms
  by (simp add: Let_def)

lemma output_deadlines_witness:
  "tv (deadlines 100000000 (align_next (7, 990000001) (out_period_ns 100000000 10)) [10, 10, 20] ! 2) =
     8200000000"
proof -
  have a: "tv (align_next (7, 990000001) (out_period_ns 100000000 10)) = 8000000000"
    by (simp add: align_next_def out_period_ns_def tv_def carry_ns.simps)
  from output_deadlines [of "(7, 990000001)" 100000000 10 "[10, 10, 20]" 2] a show ?thesis
    by (simp add: tv_ok_def Let_def out_period_ns_def)
qed

section \<open>The bridges\<close>

definition bridge_period_ns :: "int \<Rightarrow> int \<Rightarrow> int" where
  "bridge_period_ns rate_hz fallback_ns = (if rate_hz > 0 then 1000000000 div rate_hz else fallback_ns)"

text \<open>The result is narrowed to \<open>int\<close>.\<close>

definition bridge_wait_ms :: "timespec \<Rightarrow> timespec \<Rightarrow> int" where
  "bridge_wait_ms now next =
     (let wait_ns = (fst next - fst now) * 1000000000 + (snd next - snd now);
          wait_ns = (if wait_ns < 0 then 0 else wait_ns)
      in sint (of_int ((wait_ns + 999999) sdiv 1000000) :: 32 word))"

definition bridge_due :: "timespec \<Rightarrow> timespec \<Rightarrow> bool" where
  "bridge_due now next \<longleftrightarrow> fst now > fst next \<or> fst now = fst next \<and> snd now \<ge> snd next"

text \<open>The loop need not end for a period that is not positive, so it is partial.\<close>

partial_function (option) bridge_advance :: "timespec \<Rightarrow> timespec \<Rightarrow> int \<Rightarrow> timespec option" where
  "bridge_advance next now period_ns =
     (let next = carry_ns (fst next, snd next + period_ns)
      in if fst next < fst now \<or> fst next = fst now \<and> snd next \<le> snd now
         then bridge_advance next now period_ns else Some next)"

definition bridge_earlier :: "timespec \<Rightarrow> timespec \<Rightarrow> timespec" where
  "bridge_earlier a b = (if fst a < fst b \<or> fst a = fst b \<and> snd a < snd b then a else b)"

lemma bridge_advance_steps:
  assumes "tv_ok now" "tv_ok next" "0 < period_ns" "d = nat (tv now - tv next)"
  shows "\<exists>next' k. bridge_advance next now period_ns = Some next' \<and> tv_ok next' \<and> 1 \<le> k \<and>
    tv next' = tv next + k * period_ns \<and> tv now < tv next' \<and> (k = 1 \<or> tv next' \<le> tv now + period_ns)"
  using assms
proof (induction d arbitrary: "next" rule: less_induct)
  case (less d)
  let ?n = "carry_ns (fst next, snd next + period_ns)"
  have n: "tv_ok ?n" "tv ?n = tv next + period_ns"
    using ts_add_ns_ok [OF less.prems(2), of period_ns] less.prems(3) by (simp_all add: ts_add_ns_def)
  show ?case
  proof (cases "tv ?n \<le> tv now")
    case False
    with tv_le [OF n(1) less.prems(1)] have "bridge_advance next now period_ns = Some ?n"
      by (subst bridge_advance.simps) (auto simp: Let_def)
    with False n show ?thesis by (intro exI [of _ ?n] exI [of _ 1]) simp
  next
    case True
    with tv_le [OF n(1) less.prems(1)] have e: "bridge_advance next now period_ns = bridge_advance ?n now period_ns"
      by (subst bridge_advance.simps) (auto simp: Let_def)
    have "nat (tv now - tv ?n) < d" using True n(2) less.prems(3,4) by simp
    from less.IH [OF this less.prems(1) n(1) less.prems(3) refl] obtain n' k where
      i: "bridge_advance ?n now period_ns = Some n'" "tv_ok n'" "1 \<le> k" "tv n' = tv ?n + k * period_ns"
        "tv now < tv n'" "k = 1 \<or> tv n' \<le> tv now + period_ns" by blast
    have "tv n' \<le> tv now + period_ns" using i(4,6) True by auto
    with i e n(2) show ?thesis
      by (intro exI [of _ n'] exI [of _ "k + 1"]) (simp add: distrib_right)
  qed
qed

text \<open>
  C14: the emit tick of a bridge. Waiting the time it computes makes the tick due and a tick that is due
  waits nothing; and advancing a tick that is due always ends, at the first later instant of the same grid
  that lies ahead, so a stall skips the missed ticks instead of sending them in a burst.
\<close>

theorem bridge_tick:
  assumes "tv_ok now" "tv_ok next" "0 < period_ns" "tv next - tv now \<le> 2000000000000000"
  shows "bridge_due now next = (bridge_wait_ms now next = 0) \<and>
    tv next \<le> tv now + bridge_wait_ms now next * 1000000 \<and>
    (bridge_due now next \<longrightarrow> (\<exists>next' k. bridge_advance next now period_ns = Some next' \<and> tv_ok next' \<and>
       1 \<le> k \<and> tv next' = tv next + k * period_ns \<and> tv now < tv next' \<and> tv next' \<le> tv now + period_ns))"
proof -
  have due: "bridge_due now next = (tv next \<le> tv now)"
    using tv_le [OF assms(2,1)] by (auto simp: bridge_due_def)
  let ?w = "max 0 (tv next - tv now)"
  have q: "(w + 999999) sdiv 1000000 = (w + 999999) div 1000000" if "0 \<le> w" for w :: int
    using that by (simp add: signed_divide_int_def sgn_if)
  have t: "(fst next - fst now) * 1000000000 + (snd next - snd now) = tv next - tv now"
    by (simp add: tv_def algebra_simps)
  have "bridge_wait_ms now next = sint (of_int ((?w + 999999) div 1000000) :: 32 word)"
    unfolding bridge_wait_ms_def Let_def t by (simp add: q max_def)
  also have "\<dots> = (?w + 999999) div 1000000"
  proof -
    have "0 \<le> (?w + 999999) div 1000000" "(?w + 999999) div 1000000 < 2 ^ 31" using assms(4) by (auto simp: max_def)
    then show ?thesis by (simp add: signed_of_int signed_take_bit_int_eq_self)
  qed
  finally have w: "bridge_wait_ms now next = (?w + 999999) div 1000000" .
  have up: "w \<le> (w + 999999) div 1000000 * 1000000" for w :: int by linarith
  have zero: "((w + 999999) div 1000000 = 0) = (w = 0)" if "0 \<le> w" for w :: int
    using that by (auto simp: div_eq_0_iff)
  from up [of ?w] have "tv next \<le> tv now + bridge_wait_ms now next * 1000000" unfolding w by linarith
  moreover from zero [of ?w] have "bridge_due now next = (bridge_wait_ms now next = 0)" unfolding w due by auto
  moreover have "\<exists>next' k. bridge_advance next now period_ns = Some next' \<and> tv_ok next' \<and> 1 \<le> k \<and>
      tv next' = tv next + k * period_ns \<and> tv now < tv next' \<and> tv next' \<le> tv now + period_ns"
    if d: "bridge_due now next"
  proof -
    obtain n' k where b: "bridge_advance next now period_ns = Some n'" "tv_ok n'" "1 \<le> k" "tv n' = tv next + k * period_ns"
        "tv now < tv n'" "k = 1 \<or> tv n' \<le> tv now + period_ns"
      using bridge_advance_steps [OF assms(1-3) refl] by blast
    then have "tv n' \<le> tv now + period_ns" using d due by auto
    with b show ?thesis by blast
  qed
  ultimately show ?thesis by blast
qed

lemma bridge_tick_witness:
  "bridge_due (12, 3) (10, 900000000) \<and> (\<exists>next' k. bridge_advance (10, 900000000) (12, 3) 100000000 = Some next' \<and>
     tv next' = 10900000000 + k * 100000000 \<and> 12000000003 < tv next' \<and> tv next' \<le> 12100000003)"
proof -
  have d: "bridge_due (12, 3) (10, 900000000)" by (simp add: bridge_due_def)
  with bridge_tick [of "(12, 3)" "(10, 900000000)" 100000000] show ?thesis
    by (auto simp: tv_ok_def tv_def)
qed

end
