(* ===== verification/Output.thy ===== *)
theory Output
  imports Netserv Timing "HOL-Library.Sublist"
begin

text \<open>
  src/output.c: the subscription stream of the daemon over its AF_UNIX socket and its TCP listener, from
  accepting a subscriber to the final packet, and the UDP output. A pass of a thread's loop is a function
  of what the system hands it: pending connections, clocks, what \<open>imu_get_state\<close> returns and what each
  \<open>send\<close> does. The state also records what the thread has done so far: the packets it encoded, the bytes
  each socket took since its connection began, and the descriptors it accepted and closed.
\<close>

definition STREAM_MAX_CLIENTS :: nat where "STREAM_MAX_CLIENTS = 8"

section \<open>stream_out_thread\<close>

record stream_out =
  so_fd :: int
  so_clients :: "int list"
  so_taken_ns :: "u64 list"
  so_nclients :: nat
  so_tcp :: netserv
  so_next :: timespec
  so_sent :: "imu_packet list"
  so_peer :: "int \<Rightarrow> bytes"
  so_accepted :: "int list"
  so_closed :: "int list"

record stream_tick =
  tk_rate_hz :: int
  tk_pending :: "(int \<times> u64) list"
  tk_tcp_pending :: "(int \<times> u64) list"
  tk_settled :: bool
  tk_state :: fused_state
  tk_mag :: mag_sample
  tk_imu :: imu_sample
  tk_raw_imu :: imu_sample
  tk_out :: "int \<Rightarrow> send_rc"
  tk_now :: u64
  tk_tcp_out :: "int \<Rightarrow> send_rc"
  tk_tcp_now :: u64

text \<open>What the peers of sockets have been handed: nothing when a connection is new, and what a \<open>send\<close>
  took of the buffer after it.\<close>

definition new_peers :: "(int \<times> u64) list \<Rightarrow> (int \<Rightarrow> bytes) \<Rightarrow> int \<Rightarrow> bytes" where
  "new_peers pending peer fd = (if fd \<in> fst ` set pending then [] else peer fd)"

definition give :: "send_rc \<Rightarrow> bytes \<Rightarrow> bytes \<Rightarrow> bytes" where
  "give rc buf b = (case rc of Took k \<Rightarrow> b @ take k buf | Full \<Rightarrow> b | Broken \<Rightarrow> b)"

definition handed :: "(int \<Rightarrow> send_rc) \<Rightarrow> bytes \<Rightarrow> int list \<Rightarrow> (int \<Rightarrow> bytes) \<Rightarrow> int \<Rightarrow> bytes" where
  "handed out buf fds peer fd = (if fd \<in> set fds then give (out fd) buf (peer fd) else peer fd)"

definition stream_accept :: "(int \<times> u64) list \<Rightarrow> stream_out \<Rightarrow> stream_out" where
  "stream_accept pending s =
     (if so_fd s \<ge> 0
      then case accept_loop STREAM_MAX_CLIENTS pending (so_nclients s) (so_clients s) (so_taken_ns s) of
             (n, fds, taken, closed) \<Rightarrow>
               s\<lparr>so_clients := fds, so_taken_ns := taken, so_nclients := n, so_peer := new_peers pending (so_peer s),
                 so_accepted := so_accepted s @ map fst pending, so_closed := so_closed s @ closed\<rparr>
      else s)"

definition stream_tcp_accept :: "(int \<times> u64) list \<Rightarrow> stream_out \<Rightarrow> stream_out" where
  "stream_tcp_accept pending s =
     (case netserv_accept pending (so_tcp s) of (tcp, closed) \<Rightarrow>
        let pending = (if ns_listen_fd (so_tcp s) < 0 then [] else pending)
        in s\<lparr>so_tcp := tcp, so_peer := new_peers pending (so_peer s),
             so_accepted := so_accepted s @ map fst pending, so_closed := so_closed s @ closed\<rparr>)"

definition stream_send :: "(int \<Rightarrow> send_rc) \<Rightarrow> u64 \<Rightarrow> bytes \<Rightarrow> stream_out \<Rightarrow> stream_out" where
  "stream_send out now buf s =
     (case netserv_send_each out now buf (so_clients s) (so_taken_ns s) (so_nclients s) of
        (n, fds, taken, closed) \<Rightarrow>
          s\<lparr>so_clients := fds, so_taken_ns := taken, so_nclients := n,
            so_peer := handed out buf (take (so_nclients s) (so_clients s)) (so_peer s),
            so_closed := so_closed s @ closed\<rparr>)"

definition stream_tcp_send :: "(int \<Rightarrow> send_rc) \<Rightarrow> u64 \<Rightarrow> bytes \<Rightarrow> stream_out \<Rightarrow> stream_out" where
  "stream_tcp_send out now buf s =
     (case netserv_broadcast out now buf (so_tcp s) of (tcp, closed) \<Rightarrow>
        s\<lparr>so_tcp := tcp,
          so_peer := handed out buf (take (netserv_nclients (so_tcp s)) (ns_clients (so_tcp s))) (so_peer s),
          so_closed := so_closed s @ closed\<rparr>)"

definition stream_emit :: "stream_tick \<Rightarrow> imu_packet \<Rightarrow> stream_out \<Rightarrow> stream_out" where
  "stream_emit t pkt s =
     (let wire = fst (packet_encode pkt);
          s = s\<lparr>so_sent := so_sent s @ [pkt]\<rparr>;
          s = stream_send (tk_out t) (tk_now t) wire s
      in stream_tcp_send (tk_tcp_out t) (tk_tcp_now t) wire s)"

definition stream_accepts :: "stream_tick \<Rightarrow> stream_out \<Rightarrow> stream_out" where
  "stream_accepts t s =
     (let s = s\<lparr>so_next := ts_add_ns (so_next s) (out_period_ns 10000000 (tk_rate_hz t))\<rparr>;
          s = stream_accept (tk_pending t) s
      in stream_tcp_accept (tk_tcp_pending t) s)"

definition stream_pass :: "stream_tick \<Rightarrow> stream_out \<Rightarrow> stream_out" where
  "stream_pass t s =
     (let s = stream_accepts t s
      in if \<not> tk_settled t then s
         else if so_nclients s = 0 \<and> netserv_nclients (so_tcp s) = 0 then s
         else stream_emit t (packet_build (tk_state t) (tk_mag t) (tk_imu t) (tk_raw_imu t)) s)"

text \<open>After the loop: the last packet, flagged, to everyone who is connected, and then all is closed. The
  plain \<open>send\<close> to the AF_UNIX subscribers drops nobody.\<close>

definition stream_last :: "stream_tick \<Rightarrow> stream_out \<Rightarrow> stream_out" where
  "stream_last t s =
     (if so_nclients s > 0 \<or> netserv_nclients (so_tcp s) > 0
      then let state = (tk_state t)\<lparr>fs_flags := fs_flags (tk_state t) OR FLAG_SHUTDOWN\<rparr>;
               pkt = packet_build state (tk_mag t) (tk_imu t) (tk_raw_imu t);
               wire = fst (packet_encode pkt);
               s = s\<lparr>so_sent := so_sent s @ [pkt],
                     so_peer := handed (tk_out t) wire (take (so_nclients s) (so_clients s)) (so_peer s)\<rparr>
           in stream_tcp_send (tk_tcp_out t) (tk_tcp_now t) wire s
      else s)"

definition stream_finish :: "stream_tick \<Rightarrow> stream_out \<Rightarrow> stream_out" where
  "stream_finish t s =
     (let s = stream_last t s;
          s = s\<lparr>so_closed := so_closed s @ take (so_nclients s) (so_clients s), so_nclients := 0\<rparr>
      in case netserv_close (so_tcp s) of (tcp, closed) \<Rightarrow> s\<lparr>so_tcp := tcp, so_closed := so_closed s @ closed\<rparr>)"

definition stream_start :: "int \<Rightarrow> netserv \<Rightarrow> timespec \<Rightarrow> stream_out" where
  "stream_start fd tcp next =
     \<lparr>so_fd = fd, so_clients = replicate STREAM_MAX_CLIENTS 0, so_taken_ns = replicate STREAM_MAX_CLIENTS 0,
      so_nclients = 0, so_tcp = tcp, so_next = next, so_sent = [], so_peer = (\<lambda>_. []), so_accepted = [], so_closed = []\<rparr>"

section \<open>Reachable states\<close>

definition open_fds :: "stream_out \<Rightarrow> int list" where
  "open_fds s = take (so_nclients s) (so_clients s) @ take (ns_nclients (so_tcp s)) (ns_clients (so_tcp s))"

text \<open>The kernel does not hand out a descriptor that is open; the covariance of a state is an array of nine.\<close>

definition tick_ok :: "stream_tick \<Rightarrow> stream_out \<Rightarrow> bool" where
  "tick_ok t s \<longleftrightarrow> distinct (open_fds (stream_accepts t s)) \<and> length (fs_cov (tk_state t)) = 9"

inductive stream_reach :: "stream_out \<Rightarrow> bool" where
  reach_start: "stream_reach (stream_start fd netserv_init next)"
| reach_start_tcp: "netserv_open e port = (0, tcp, []) \<Longrightarrow> stream_reach (stream_start fd tcp next)"
| reach_pass: "stream_reach s \<Longrightarrow> tick_ok t s \<Longrightarrow> stream_reach (stream_pass t s)"

text \<open>The bytes of a socket are whole packets, in order, out of those encoded; a socket that is no longer
  served may hold an unfinished one behind them.\<close>

definition fed :: "imu_packet list \<Rightarrow> bytes \<Rightarrow> bool \<Rightarrow> bool" where
  "fed sent b whole \<longleftrightarrow> (\<exists>ps r. subseq ps sent \<and> b = concat (map on_wire ps) @ r \<and>
     (if whole then r = [] else length r < IMUD_PACKET_BYTES))"

lemma fed_nil: "fed sent [] whole"
  unfolding fed_def by (intro exI [of _ "[]"]) (simp add: IMUD_PACKET_BYTES_def)

lemma fed_mono: "fed sent b whole \<Longrightarrow> (whole' \<longrightarrow> whole) \<Longrightarrow> fed (sent @ ps) b whole'"
  unfolding fed_def by (metis IMUD_PACKET_BYTES_def list.size(3) list_emb_prefix zero_less_numeral)

lemma fed_give:
  assumes "fed sent b True" "packet_wf p" "whole \<longrightarrow> rc = Took IMUD_PACKET_BYTES \<or> rc = Full"
  shows "fed (sent @ [p]) (give rc (on_wire p) b) whole"
proof -
  obtain ps where ps: "subseq ps sent" "b = concat (map on_wire ps)" using assms(1) by (auto simp: fed_def)
  have keep: "fed (sent @ [p]) b whole" using assms(1) by (rule fed_mono) simp
  show ?thesis
  proof (cases "\<exists>k. rc = Took k")
    case True
    then obtain k where k: "rc = Took k" ..
    show ?thesis
    proof (cases "IMUD_PACKET_BYTES \<le> k")
      case True
      then have "give rc (on_wire p) b = concat (map on_wire (ps @ [p])) @ []"
        using k ps(2) assms(2) by (simp add: give_def length_on_wire)
      moreover have "subseq (ps @ [p]) (sent @ [p])" using ps(1) by simp
      ultimately show ?thesis unfolding fed_def by (metis IMUD_PACKET_BYTES_def list.size(3) zero_less_numeral)
    next
      case False
      then have "\<not> whole" using k assms(3) by auto
      moreover have "give rc (on_wire p) b = concat (map on_wire ps) @ take k (on_wire p)"
        using k ps(2) by (simp add: give_def)
      moreover have "subseq ps (sent @ [p])" using ps(1) by (rule list_emb_prefix)
      moreover have "length (take k (on_wire p)) < IMUD_PACKET_BYTES" using False by simp
      ultimately show ?thesis unfolding fed_def by metis
    qed
  next
    case False
    with keep show ?thesis by (cases rc) (auto simp: give_def)
  qed
qed

section \<open>The invariant\<close>

definition stream_inv :: "stream_out \<Rightarrow> bool" where
  "stream_inv s \<longleftrightarrow>
     so_nclients s \<le> 8 \<and> length (so_clients s) = 8 \<and> length (so_taken_ns s) = 8 \<and>
     ns_nclients (so_tcp s) \<le> 8 \<and> length (ns_clients (so_tcp s)) = 8 \<and> length (ns_taken_ns (so_tcp s)) = 8 \<and>
     (ns_listen_fd (so_tcp s) < 0 \<longrightarrow> ns_nclients (so_tcp s) = 0) \<and>
     distinct (open_fds s) \<and> (\<forall>p \<in> set (so_sent s). sendable p) \<and>
     (\<forall>fd. fed (so_sent s) (so_peer s fd) (fd \<in> set (open_fds s))) \<and>
     mset (open_fds s) + mset (so_closed s) = mset (so_accepted s)"

lemma stream_inv_start:
  "ns_nclients tcp = 0 \<Longrightarrow> length (ns_clients tcp) = 8 \<Longrightarrow> length (ns_taken_ns tcp) = 8 \<Longrightarrow>
     stream_inv (stream_start fd tcp next)"
  by (simp add: stream_inv_def stream_start_def open_fds_def fed_nil STREAM_MAX_CLIENTS_def)

lemma mset_take_drop: "mset (take k xs) + mset (drop k xs) = mset xs"
  by (metis append_take_drop_id mset_append)

lemma fed_new_peers:
  assumes "fed sent (peer fd) (fd \<in> A)" "B \<subseteq> A \<union> fst ` set pending"
  shows "fed sent (new_peers pending peer fd) (fd \<in> B)"
  using fed_mono [OF assms(1), of "fd \<in> B" "[]"] assms(2) by (auto simp: new_peers_def fed_nil)

lemma stream_accept_inv:
  assumes "stream_inv s" "distinct (open_fds (stream_accept pending s))"
  shows "stream_inv (stream_accept pending s)"
proof (cases "so_fd s \<ge> 0")
  case False
  with assms show ?thesis by (simp add: stream_accept_def)
next
  case True
  obtain n fds taken closed where
    a: "accept_loop 8 pending (so_nclients s) (so_clients s) (so_taken_ns s) = (n, fds, taken, closed)"
    by (rule prod_cases4)
  have pre: "so_nclients s \<le> 8" "length (so_clients s) = 8" "length (so_taken_ns s) = 8"
    using assms(1) by (simp_all add: stream_inv_def)
  note sp = accept_loop_spec [OF a pre] and fd = accept_loop_fds [OF a pre]
  let ?k = "8 - so_nclients s"
  have new: "open_fds (stream_accept pending s) = take (so_nclients s) (so_clients s) @ take ?k (map fst pending) @
      take (ns_nclients (so_tcp s)) (ns_clients (so_tcp s))"
    using True a fd by (simp add: stream_accept_def STREAM_MAX_CLIENTS_def open_fds_def)
  have "set (take ?k (map fst pending)) \<subseteq> fst ` set pending" by (metis set_map set_take_subset)
  then have "fed (so_sent s) (new_peers pending (so_peer s) fd) (fd \<in> set (open_fds (stream_accept pending s)))" for fd
    using assms(1) unfolding new stream_inv_def
    by (intro fed_new_peers [where A = "set (open_fds s)"]) (auto simp: open_fds_def)
  moreover have "mset (open_fds (stream_accept pending s)) + (mset (so_closed s) + mset closed) =
      mset (so_accepted s) + mset (map fst pending)"
    using assms(1) mset_take_drop [of ?k "map fst pending"] sp unfolding new
    by (simp add: stream_inv_def open_fds_def drop_map ac_simps)
  ultimately show ?thesis
    using True a sp assms unfolding stream_inv_def by (simp add: stream_accept_def STREAM_MAX_CLIENTS_def)
qed

lemma stream_tcp_accept_inv:
  assumes "stream_inv s" "distinct (open_fds (stream_tcp_accept pending s))"
  shows "stream_inv (stream_tcp_accept pending s)"
proof (cases "ns_listen_fd (so_tcp s) < 0")
  case True
  then have "stream_tcp_accept pending s = s"
    by (cases s) (simp add: stream_tcp_accept_def netserv_accept_def new_peers_def fun_eq_iff)
  with assms show ?thesis by simp
next
  case False
  let ?t = "so_tcp s"
  obtain n fds taken closed where
    a: "accept_loop 8 pending (ns_nclients ?t) (ns_clients ?t) (ns_taken_ns ?t) = (n, fds, taken, closed)"
    by (rule prod_cases4)
  have pre: "ns_nclients ?t \<le> 8" "length (ns_clients ?t) = 8" "length (ns_taken_ns ?t) = 8"
    using assms(1) by (simp_all add: stream_inv_def)
  note sp = accept_loop_spec [OF a pre] and fd = accept_loop_fds [OF a pre]
  let ?k = "8 - ns_nclients ?t"
  have new: "open_fds (stream_tcp_accept pending s) = take (so_nclients s) (so_clients s) @
      take (ns_nclients ?t) (ns_clients ?t) @ take ?k (map fst pending)"
    using False a fd by (simp add: stream_tcp_accept_def netserv_accept_def NETSRV_MAX_CLIENTS_def open_fds_def)
  have "set (take ?k (map fst pending)) \<subseteq> fst ` set pending" by (metis set_map set_take_subset)
  then have "fed (so_sent s) (new_peers pending (so_peer s) fd) (fd \<in> set (open_fds (stream_tcp_accept pending s)))" for fd
    using assms(1) unfolding new stream_inv_def
    by (intro fed_new_peers [where A = "set (open_fds s)"]) (auto simp: open_fds_def)
  moreover have "mset (open_fds (stream_tcp_accept pending s)) + (mset (so_closed s) + mset closed) =
      mset (so_accepted s) + mset (map fst pending)"
    using assms(1) mset_take_drop [of ?k "map fst pending"] sp unfolding new
    by (simp add: stream_inv_def open_fds_def drop_map ac_simps)
  ultimately show ?thesis
    using False a sp assms unfolding stream_inv_def
    by (simp add: stream_tcp_accept_def netserv_accept_def NETSRV_MAX_CLIENTS_def)
qed

lemma stream_tcp_accept_open:
  assumes "ns_nclients (so_tcp s) \<le> 8" "length (ns_clients (so_tcp s)) = 8" "length (ns_taken_ns (so_tcp s)) = 8"
  shows "\<exists>new. open_fds (stream_tcp_accept pending s) = open_fds s @ new"
proof -
  let ?t = "so_tcp s"
  obtain n fds taken closed where
    a: "accept_loop 8 pending (ns_nclients ?t) (ns_clients ?t) (ns_taken_ns ?t) = (n, fds, taken, closed)"
    by (rule prod_cases4)
  from accept_loop_fds [OF a assms] a show ?thesis
    by (simp add: stream_tcp_accept_def netserv_accept_def NETSRV_MAX_CLIENTS_def open_fds_def)
qed

lemma stream_accepts_inv:
  assumes "stream_inv s" "tick_ok t s"
  shows "stream_inv (stream_accepts t s)"
proof -
  let ?s = "stream_accept (tk_pending t) (s\<lparr>so_next := ts_add_ns (so_next s) (out_period_ns 10000000 (tk_rate_hz t))\<rparr>)"
  have a: "stream_accepts t s = stream_tcp_accept (tk_tcp_pending t) ?s" by (simp add: stream_accepts_def)
  have i: "stream_inv (s\<lparr>so_next := x\<rparr>)" for x
    using assms(1) by (simp add: stream_inv_def open_fds_def)
  have "so_tcp ?s = so_tcp s" by (simp add: stream_accept_def split: prod.splits)
  then obtain new where "open_fds (stream_accepts t s) = open_fds ?s @ new"
    using stream_tcp_accept_open [of ?s "tk_tcp_pending t"] assms(1) by (auto simp: a stream_inv_def)
  with assms(2) have "distinct (open_fds ?s)" by (simp add: tick_ok_def)
  from stream_tcp_accept_inv [OF stream_accept_inv [OF i this]] assms(2) show ?thesis
    by (simp add: a tick_ok_def)
qed

text \<open>What sending to one array of clients does.\<close>

definition served :: "(int \<Rightarrow> send_rc) \<Rightarrow> nat \<Rightarrow> int list \<Rightarrow> int list \<Rightarrow> int list \<Rightarrow> bool" where
  "served out len old new closed \<longleftrightarrow> mset new + mset closed = mset old \<and>
     (\<forall>fd \<in> set new. fd \<in> set old \<and> (out fd = Took len \<or> out fd = Full))"

lemma stream_send_served:
  assumes "stream_inv s"
  shows "\<exists>n fds taken closed. stream_send out now buf s =
      s\<lparr>so_clients := fds, so_taken_ns := taken, so_nclients := n,
        so_peer := handed out buf (take (so_nclients s) (so_clients s)) (so_peer s), so_closed := so_closed s @ closed\<rparr> \<and>
    n \<le> 8 \<and> length fds = 8 \<and> length taken = 8 \<and>
    served out (length buf) (take (so_nclients s) (so_clients s)) (take n fds) closed"
proof -
  obtain n fds taken closed where
    e: "netserv_send_each out now buf (so_clients s) (so_taken_ns s) (so_nclients s) = (n, fds, taken, closed)"
    by (rule prod_cases4)
  have pre: "so_nclients s \<le> length (so_clients s)" "length (so_taken_ns s) = length (so_clients s)"
    "length (so_clients s) = 8" using assms by (simp_all add: stream_inv_def)
  note f = send_each_fds [OF e pre(1,2)]
  have "served out (length buf) (take (so_nclients s) (so_clients s)) (take n fds) closed"
    using f(1,2) by (simp add: served_def)
  moreover have "n \<le> 8 \<and> length fds = 8 \<and> length taken = 8" using f(4) pre by simp
  ultimately show ?thesis using e by (auto simp: stream_send_def)
qed

lemma stream_tcp_send_served:
  assumes "ns_nclients (so_tcp s) \<le> 8" "length (ns_clients (so_tcp s)) = 8" "length (ns_taken_ns (so_tcp s)) = 8"
    and "ns_listen_fd (so_tcp s) < 0 \<longrightarrow> ns_nclients (so_tcp s) = 0" "buf \<noteq> []"
  shows "\<exists>tcp closed. stream_tcp_send out now buf s =
      s\<lparr>so_tcp := tcp, so_peer := handed out buf (take (ns_nclients (so_tcp s)) (ns_clients (so_tcp s))) (so_peer s),
        so_closed := so_closed s @ closed\<rparr> \<and>
    ns_nclients tcp \<le> 8 \<and> length (ns_clients tcp) = 8 \<and> length (ns_taken_ns tcp) = 8 \<and>
    ns_listen_fd tcp = ns_listen_fd (so_tcp s) \<and> (ns_listen_fd tcp < 0 \<longrightarrow> ns_nclients tcp = 0) \<and>
    served out (length buf) (take (ns_nclients (so_tcp s)) (ns_clients (so_tcp s))) (take (ns_nclients tcp) (ns_clients tcp)) closed"
proof (cases "ns_listen_fd (so_tcp s) < 0")
  case True
  with assms show ?thesis
    by (intro exI [of _ "so_tcp s"] exI [of _ "[]"])
      (simp add: stream_tcp_send_def netserv_broadcast_def netserv_nclients_def served_def handed_def)
next
  case False
  let ?t = "so_tcp s"
  obtain n fds taken closed where
    e: "netserv_send_each out now buf (ns_clients ?t) (ns_taken_ns ?t) (ns_nclients ?t) = (n, fds, taken, closed)"
    by (rule prod_cases4)
  have pre: "ns_nclients ?t \<le> length (ns_clients ?t)" "length (ns_taken_ns ?t) = length (ns_clients ?t)"
    "length (ns_clients ?t) = 8" using assms by simp_all
  note f = send_each_fds [OF e pre(1,2)]
  have "served out (length buf) (take (ns_nclients ?t) (ns_clients ?t)) (take n fds) closed"
    using f(1,2) by (simp add: served_def)
  moreover have "n \<le> 8 \<and> length fds = 8 \<and> length taken = 8" using f(4) pre by simp
  ultimately show ?thesis using e False assms(5)
    by (intro exI [of _ "?t\<lparr>ns_clients := fds, ns_taken_ns := taken, ns_nclients := n\<rparr>"] exI [of _ closed])
      (simp add: stream_tcp_send_def netserv_broadcast_def netserv_nclients_def)
qed

lemma fed_handed:
  assumes "\<forall>fd. fed sent (peer fd) (fd \<in> set (A @ B))" "sendable p" "distinct (A @ B)"
    and "served out IMUD_PACKET_BYTES A A' closed" "served out2 IMUD_PACKET_BYTES B B' closed2"
  shows "fed (sent @ [p]) (handed out2 (on_wire p) B (handed out (on_wire p) A peer) fd) (fd \<in> set (A' @ B'))"
proof -
  have wf: "packet_wf p" using assms(2) by (simp add: sendable_def)
  have sub: "set A' \<subseteq> set A" "set B' \<subseteq> set B" "set A \<inter> set B = {}"
    using assms(3,4,5) by (auto simp: served_def)
  consider "fd \<in> set A" "fd \<notin> set B" | "fd \<in> set B" "fd \<notin> set A" | "fd \<notin> set A" "fd \<notin> set B"
    using sub by blast
  then show ?thesis
  proof cases
    case 1
    then have "fed sent (peer fd) True" using assms(1) by (metis UnI1 set_append)
    then have "fed (sent @ [p]) (give (out fd) (on_wire p) (peer fd)) (fd \<in> set (A' @ B'))"
      using 1 sub assms(4) by (intro fed_give [OF _ wf]) (auto simp: served_def)
    with 1 show ?thesis by (simp add: handed_def)
  next
    case 2
    then have "fed sent (peer fd) True" using assms(1) by (metis UnI2 set_append)
    then have "fed (sent @ [p]) (give (out2 fd) (on_wire p) (peer fd)) (fd \<in> set (A' @ B'))"
      using 2 sub assms(5) by (intro fed_give [OF _ wf]) (auto simp: served_def)
    with 2 show ?thesis by (simp add: handed_def)
  next
    case 3
    then have "fed sent (peer fd) False" using assms(1) by (metis Un_iff set_append)
    moreover from 3 sub have "fd \<notin> set (A' @ B')" by auto
    ultimately show ?thesis using 3 fed_mono [of sent "peer fd" False False "[p]"] by (simp add: handed_def)
  qed
qed

lemma stream_inv_sent:
  assumes "stream_inv s" "sendable p"
  shows "stream_inv (s\<lparr>so_sent := so_sent s @ [p]\<rparr>)"
  using assms by (auto simp: stream_inv_def open_fds_def intro: fed_mono)

lemma served_distinct: "served out len old new closed \<Longrightarrow> distinct old \<Longrightarrow> distinct new"
  unfolding served_def by (metis distinct_append mset_append mset_eq_imp_distinct_iff)

text \<open>One packet: who is still served afterwards, and what every peer has.\<close>

lemma stream_emit_served:
  assumes "stream_inv s" "sendable p"
  shows "stream_inv (stream_emit t p s)"
    and "so_sent (stream_emit t p s) = so_sent s @ [p]"
    and "so_peer (stream_emit t p s) = handed (tk_tcp_out t) (on_wire p) (take (ns_nclients (so_tcp s)) (ns_clients (so_tcp s)))
      (handed (tk_out t) (on_wire p) (take (so_nclients s) (so_clients s)) (so_peer s))"
proof -
  let ?s = "s\<lparr>so_sent := so_sent s @ [p]\<rparr>" and ?w = "on_wire p"
  let ?A = "take (so_nclients s) (so_clients s)" and ?B = "take (ns_nclients (so_tcp s)) (ns_clients (so_tcp s))"
  have len: "length ?w = IMUD_PACKET_BYTES" using assms(2) by (simp add: sendable_def length_on_wire)
  obtain n fds taken closed where u: "stream_send (tk_out t) (tk_now t) ?w ?s =
      ?s\<lparr>so_clients := fds, so_taken_ns := taken, so_nclients := n, so_peer := handed (tk_out t) ?w ?A (so_peer s),
         so_closed := so_closed s @ closed\<rparr>" "n \<le> 8" "length fds = 8" "length taken = 8"
      "served (tk_out t) IMUD_PACKET_BYTES ?A (take n fds) closed"
    using stream_send_served [OF stream_inv_sent [OF assms], of "tk_out t" "tk_now t" ?w] len by auto
  let ?u = "stream_send (tk_out t) (tk_now t) ?w ?s"
  have ne: "?w \<noteq> []" using len by (auto simp: IMUD_PACKET_BYTES_def)
  have shape: "ns_nclients (so_tcp ?u) \<le> 8" "length (ns_clients (so_tcp ?u)) = 8" "length (ns_taken_ns (so_tcp ?u)) = 8"
    "ns_listen_fd (so_tcp ?u) < 0 \<longrightarrow> ns_nclients (so_tcp ?u) = 0"
    using assms(1) by (simp_all add: u(1) stream_inv_def)
  obtain tcp closed2 where v: "stream_tcp_send (tk_tcp_out t) (tk_tcp_now t) ?w ?u =
      ?u\<lparr>so_tcp := tcp, so_peer := handed (tk_tcp_out t) ?w ?B (so_peer ?u), so_closed := so_closed ?u @ closed2\<rparr>"
      "ns_nclients tcp \<le> 8" "length (ns_clients tcp) = 8" "length (ns_taken_ns tcp) = 8"
      "ns_listen_fd tcp < 0 \<longrightarrow> ns_nclients tcp = 0"
      "served (tk_tcp_out t) IMUD_PACKET_BYTES ?B (take (ns_nclients tcp) (ns_clients tcp)) closed2"
    using stream_tcp_send_served [OF shape ne, of "tk_tcp_out t" "tk_tcp_now t"] len u(1) by auto
  have e: "stream_emit t p s = ?u\<lparr>so_tcp := tcp, so_peer := handed (tk_tcp_out t) ?w ?B (so_peer ?u),
      so_closed := so_closed ?u @ closed2\<rparr>"
    unfolding stream_emit_def Let_def on_wire_def [symmetric] using v(1) by simp
  have o: "open_fds s = ?A @ ?B" "open_fds (stream_emit t p s) = take n fds @ take (ns_nclients tcp) (ns_clients tcp)"
    by (simp_all add: open_fds_def e u(1))
  have inv: "distinct (?A @ ?B)" "\<forall>fd. fed (so_sent s) (so_peer s fd) (fd \<in> set (?A @ ?B))"
    "mset ?A + mset ?B + mset (so_closed s) = mset (so_accepted s)"
    using assms(1) unfolding stream_inv_def o by simp_all
  have "served (tk_out t) IMUD_PACKET_BYTES ?A (take n fds) closed" by (rule u(5))
  then have d: "distinct (take n fds @ take (ns_nclients tcp) (ns_clients tcp))"
    using inv(1) served_distinct [OF u(5)] served_distinct [OF v(6)] u(5) v(6) by (auto simp: served_def)
  have m: "mset (take n fds) + mset closed = mset ?A" "mset (take (ns_nclients tcp) (ns_clients tcp)) + mset closed2 = mset ?B"
    using u(5) v(6) by (simp_all add: served_def)
  show "so_sent (stream_emit t p s) = so_sent s @ [p]" by (simp add: e u(1))
  show "so_peer (stream_emit t p s) = handed (tk_tcp_out t) ?w ?B (handed (tk_out t) ?w ?A (so_peer s))"
    by (simp add: e u(1))
  have "fed (so_sent s @ [p]) (handed (tk_tcp_out t) ?w ?B (handed (tk_out t) ?w ?A (so_peer s)) fd)
      (fd \<in> set (take n fds @ take (ns_nclients tcp) (ns_clients tcp)))" for fd
    by (rule fed_handed [OF inv(2) assms(2) inv(1) u(5) v(6)])
  moreover have "mset (take n fds) + mset (take (ns_nclients tcp) (ns_clients tcp)) + (mset (so_closed s) + mset closed + mset closed2)
      = mset (so_accepted s)"
    unfolding inv(3) [symmetric] m [symmetric] by (simp add: ac_simps)
  moreover have "\<forall>p \<in> set (so_sent s). sendable p" using assms(1) by (simp add: stream_inv_def)
  ultimately show "stream_inv (stream_emit t p s)"
    unfolding stream_inv_def o(2) using u(2-4) v(2-5) d assms(2) by (simp add: e u(1) add.assoc)
qed

lemma stream_inv_pass:
  assumes "stream_inv s" "tick_ok t s"
  shows "stream_inv (stream_pass t s)"
proof -
  have "sendable (packet_build (tk_state t) (tk_mag t) (tk_imu t) (tk_raw_imu t))"
    using assms(2) packet_wf_build [of "tk_state t"] by (simp add: sendable_def tick_ok_def) (simp add: packet_build_def)
  with stream_emit_served(1) [OF stream_accepts_inv [OF assms]] stream_accepts_inv [OF assms] show ?thesis
    by (simp add: stream_pass_def Let_def)
qed

lemma netserv_open_shape:
  "netserv_open e port = (0, tcp, closed) \<Longrightarrow>
     ns_nclients tcp = 0 \<and> length (ns_clients tcp) = 8 \<and> length (ns_taken_ns tcp) = 8"
  by (auto simp: netserv_open_def netserv_init_def NETSRV_MAX_CLIENTS_def Let_def split: if_splits)

lemma stream_reach_inv: "stream_reach s \<Longrightarrow> stream_inv s"
proof (induction rule: stream_reach.induct)
  case (reach_start fd "next")
  then show ?case by (intro stream_inv_start) (simp_all add: netserv_init_def NETSRV_MAX_CLIENTS_def)
next
  case (reach_start_tcp e port tcp fd "next")
  then show ?case using netserv_open_shape by (intro stream_inv_start) auto
next
  case (reach_pass s t)
  then show ?case using stream_inv_pass by blast
qed

lemma fed_packets:
  assumes "fed sent b whole" "\<forall>p \<in> set sent. sendable p"
  shows "\<exists>ps. subseq ps sent \<and> packets_of b = map with_crc ps \<and> (whole \<longrightarrow> b = concat (map on_wire ps))"
proof -
  obtain ps r where f: "subseq ps sent" "b = concat (map on_wire ps) @ r"
      "if whole then r = [] else length r < IMUD_PACKET_BYTES" using assms(1) by (auto simp: fed_def)
  then have "\<forall>p \<in> set ps. sendable p" using assms(2) list_emb_set [OF f(1)] by blast
  moreover have "packets_of r = []" using f(3) by (auto simp: packets_of_def frames_short IMUD_PACKET_BYTES_def split: if_splits)
  ultimately have "packets_of b = map with_crc ps" using f(2) packets_of_on_wire [of ps r] by simp
  with f show ?thesis by auto
qed

section \<open>Properties\<close>

text \<open>
  C12: what a subscriber of the stream receives. Whatever connections come and go, whatever the sockets take
  and whenever clients are dropped, a client that reads what its socket was handed gets packets the daemon
  encoded, in order, none twice and none damaged; a client that is still connected has whole packets only.
\<close>

theorem subscriber_receives:
  assumes "stream_reach s"
    and "handle_inv h" "h_rx_got h = 0" "h_kind h \<noteq> IMUD_KIND_UDP" "0 \<le> h_fd h"
    and "link_alive es" "length (so_peer s fd) \<le> reads es"
  shows "\<exists>ps. subseq ps (so_sent s) \<and> fst (recv_all th h (so_peer s fd) es) = map with_crc ps \<and>
    (fd \<in> set (open_fds s) \<longrightarrow> so_peer s fd = concat (map on_wire ps))"
proof -
  have i: "stream_inv s" using assms(1) by (rule stream_reach_inv)
  then have "fed (so_sent s) (so_peer s fd) (fd \<in> set (open_fds s))" "\<forall>p \<in> set (so_sent s). sendable p"
    by (simp_all add: stream_inv_def)
  from fed_packets [OF this] recv_all_all [OF assms(2,4,5,6,7), of th] assms(3) show ?thesis
    by (simp add: in_flight_empty)
qed

text \<open>
  No descriptor is lost. In every reachable state the connections accepted so far are exactly those that
  are still served and those that were closed, each once, and never more than eight of either kind are served.
\<close>

theorem stream_descriptors:
  assumes "stream_reach s"
  shows "mset (open_fds s) + mset (so_closed s) = mset (so_accepted s) \<and> distinct (open_fds s) \<and>
    so_nclients s \<le> 8 \<and> ns_nclients (so_tcp s) \<le> 8"
  using stream_reach_inv [OF assms] by (simp add: stream_inv_def)

text \<open>One subscriber on the socket, one packet.\<close>

definition first_tick :: stream_tick where
  "first_tick = \<lparr>tk_rate_hz = 100, tk_pending = [(5, 0)], tk_tcp_pending = [(6, 0)], tk_settled = True,
     tk_state = level_state, tk_mag = zero_mag, tk_imu = zero_imu, tk_raw_imu = zero_imu,
     tk_out = (\<lambda>_. Took 288), tk_now = 1, tk_tcp_out = (\<lambda>_. Took 288), tk_tcp_now = 1\<rparr>"

lemma accept_first:
  "stream_accepts first_tick (stream_start 3 netserv_init (0, 0)) =
     (stream_start 3 netserv_init (0, 0))\<lparr>so_next := ts_add_ns (0, 0) (out_period_ns 10000000 100),
       so_clients := [5, 0, 0, 0, 0, 0, 0, 0], so_nclients := 1, so_accepted := [5],
       so_peer := new_peers [] (new_peers [(5, 0)] (\<lambda>_. []))\<rparr>"
  by (simp add: stream_accepts_def first_tick_def stream_start_def stream_accept_def stream_tcp_accept_def netserv_accept_def
      netserv_init_def NETSRV_MAX_CLIENTS_def STREAM_MAX_CLIENTS_def Let_def numeral_nat)

lemma reach_first: "stream_reach (stream_pass first_tick (stream_start 3 netserv_init (0, 0)))"
proof (rule reach_pass [OF reach_start])
  show "tick_ok first_tick (stream_start 3 netserv_init (0, 0))"
    unfolding tick_ok_def accept_first
    by (simp add: open_fds_def stream_start_def netserv_init_def) (simp add: first_tick_def level_state_def)
qed

lemma subscriber_receives_witness:
  "\<exists>ps. subseq ps [level_packet] \<and>
     fst (recv_all (\<lambda>_. 0) fresh_handle (on_wire level_packet) (replicate 288 (RecvBytes 100))) = map with_crc ps \<and>
     on_wire level_packet = concat (map on_wire ps)"
proof -
  let ?acc = "stream_accepts first_tick (stream_start 3 netserv_init (0, 0))"
  let ?s = "stream_pass first_tick (stream_start 3 netserv_init (0, 0))"
  have p: "packet_build (tk_state first_tick) (tk_mag first_tick) (tk_imu first_tick) (tk_raw_imu first_tick) = level_packet"
    by (simp add: first_tick_def level_packet_def)
  have e: "?s = stream_emit first_tick level_packet ?acc"
    unfolding stream_pass_def Let_def p accept_first by (simp add: stream_start_def netserv_init_def) (simp add: first_tick_def)
  have i: "stream_inv ?acc"
  proof (rule stream_accepts_inv)
    show "stream_inv (stream_start 3 netserv_init (0, 0))" by (rule stream_reach_inv [OF reach_start])
    show "tick_ok first_tick (stream_start 3 netserv_init (0, 0))"
      unfolding tick_ok_def accept_first
      by (simp add: open_fds_def stream_start_def netserv_init_def) (simp add: first_tick_def level_state_def)
  qed
  note em = stream_emit_served [OF i sendable_level, of first_tick]
  have len: "length (on_wire level_packet) = 288"
    using sendable_level by (simp add: length_on_wire sendable_def IMUD_PACKET_BYTES_def)
  have peer: "so_peer ?s 5 = on_wire level_packet" "so_sent ?s = [level_packet]"
    unfolding e em(2,3) unfolding accept_first
    by (simp_all add: stream_start_def netserv_init_def handed_def give_def first_tick_def new_peers_def len)
  have sl: "send_loop (\<lambda>_. Took 288) now 288 0 (Suc 0) fds taken cl = (Suc 0, fds, taken[0 := now], cl)" for now fds taken cl
    by (subst send_loop.simps, simp) (subst send_loop.simps, simp)
  have em': "stream_emit first_tick level_packet ?acc =
      stream_tcp_send (\<lambda>_. Took 288) 1 (on_wire level_packet)
        (stream_send (\<lambda>_. Took 288) 1 (on_wire level_packet) (?acc\<lparr>so_sent := so_sent ?acc @ [level_packet]\<rparr>))"
    by (simp add: stream_emit_def Let_def on_wire_def first_tick_def)
  have "5 \<in> set (open_fds ?s)"
    unfolding e em' unfolding accept_first
    by (simp add: stream_send_def netserv_send_each_def len sl stream_tcp_send_def netserv_broadcast_def stream_start_def
        netserv_init_def open_fds_def)
  with subscriber_receives [OF reach_first fresh_facts(1,4,2,3) reads_facts(1) [of 288 100], of 5 "\<lambda>_. 0"] len
  show ?thesis unfolding peer reads_facts(2) by simp
qed

lemma stream_descriptors_witness:
  "mset (open_fds (stream_pass first_tick (stream_start 3 netserv_init (0, 0)))) +
     mset (so_closed (stream_pass first_tick (stream_start 3 netserv_init (0, 0)))) =
   mset (so_accepted (stream_pass first_tick (stream_start 3 netserv_init (0, 0))))"
  using stream_descriptors [OF reach_first] by simp

text \<open>
  the end of the stream. When the thread leaves its loop, every subscriber whose socket takes it gets one
  more whole packet and that packet carries the shutdown flag, nobody else gets anything but the beginning of
  it, and every connection that was ever accepted has been closed once, the TCP listener too.
\<close>

theorem stream_shutdown:
  assumes "stream_reach s" "length (fs_cov (tk_state t)) = 9"
  shows "open_fds (stream_finish t s) = [] \<and>
    mset (so_closed (stream_finish t s)) =
      mset (so_accepted s) + (if ns_listen_fd (so_tcp s) < 0 then {#} else {#ns_listen_fd (so_tcp s)#}) \<and>
    (open_fds s \<noteq> [] \<longrightarrow> (\<exists>p. so_sent (stream_finish t s) = so_sent s @ [p] \<and> bit (pkt_flags p) 9 \<and> sendable p \<and>
       (\<forall>fd. so_peer (stream_finish t s) fd =
          (if fd \<in> set (take (so_nclients s) (so_clients s)) then give (tk_out t fd) (on_wire p) (so_peer s fd)
           else if fd \<in> set (open_fds s) then give (tk_tcp_out t fd) (on_wire p) (so_peer s fd) else so_peer s fd))))"
proof -
  have inv: "stream_inv s" using assms(1) by (rule stream_reach_inv)
  let ?A = "take (so_nclients s) (so_clients s)" and ?B = "take (ns_nclients (so_tcp s)) (ns_clients (so_tcp s))"
  let ?p = "packet_build ((tk_state t)\<lparr>fs_flags := fs_flags (tk_state t) OR FLAG_SHUTDOWN\<rparr>) (tk_mag t) (tk_imu t) (tk_raw_imu t)"
  have sp: "sendable ?p"
    using assms(2) packet_wf_build [of "(tk_state t)\<lparr>fs_flags := fs_flags (tk_state t) OR FLAG_SHUTDOWN\<rparr>"]
    by (simp add: sendable_def) (simp add: packet_build_def)
  have fl: "bit (pkt_flags ?p) 9" by (simp add: packet_build_def FLAG_SHUTDOWN_def bit_simps)
  have o: "open_fds s = ?A @ ?B" by (simp add: open_fds_def)
  have m: "mset ?A + mset ?B + mset (so_closed s) = mset (so_accepted s)" and d: "distinct (?A @ ?B)"
    using inv unfolding stream_inv_def o by simp_all
  have shut: "(so_nclients s > 0 \<or> netserv_nclients (so_tcp s) > 0) = (open_fds s \<noteq> [])"
    using inv by (auto simp: stream_inv_def o netserv_nclients_def)
  show ?thesis
  proof (cases "open_fds s = []")
    case True
    with shut have l: "stream_last t s = s" by (simp add: stream_last_def)
    from True have "?A = []" "?B = []" by (simp_all add: o)
    with m show ?thesis unfolding stream_finish_def l Let_def
      by (auto simp: netserv_close_def open_fds_def)
  next
    case False
    let ?s = "s\<lparr>so_sent := so_sent s @ [?p], so_peer := handed (tk_out t) (on_wire ?p) ?A (so_peer s)\<rparr>"
    have len: "length (on_wire ?p) = IMUD_PACKET_BYTES" using sp by (simp add: sendable_def length_on_wire)
    then have ne: "on_wire ?p \<noteq> []" by (auto simp: IMUD_PACKET_BYTES_def)
    have shape: "ns_nclients (so_tcp ?s) \<le> 8" "length (ns_clients (so_tcp ?s)) = 8" "length (ns_taken_ns (so_tcp ?s)) = 8"
      "ns_listen_fd (so_tcp ?s) < 0 \<longrightarrow> ns_nclients (so_tcp ?s) = 0" using inv by (simp_all add: stream_inv_def)
    obtain tcp closed where v: "stream_tcp_send (tk_tcp_out t) (tk_tcp_now t) (on_wire ?p) ?s =
        ?s\<lparr>so_tcp := tcp, so_peer := handed (tk_tcp_out t) (on_wire ?p) ?B (so_peer ?s), so_closed := so_closed ?s @ closed\<rparr>"
        "ns_listen_fd tcp = ns_listen_fd (so_tcp s)" "ns_listen_fd tcp < 0 \<longrightarrow> ns_nclients tcp = 0"
        "served (tk_tcp_out t) IMUD_PACKET_BYTES ?B (take (ns_nclients tcp) (ns_clients tcp)) closed"
      using stream_tcp_send_served [OF shape ne, of "tk_tcp_out t" "tk_tcp_now t"] len by auto
    have l: "stream_last t s = stream_tcp_send (tk_tcp_out t) (tk_tcp_now t) (on_wire ?p) ?s"
      using False shut unfolding stream_last_def Let_def on_wire_def by simp
    have m2: "mset (take (ns_nclients tcp) (ns_clients tcp)) + mset closed = mset ?B" using v(4) by (simp add: served_def)
    have "mset (so_closed s) + mset closed + mset ?A + mset (take (ns_nclients tcp) (ns_clients tcp)) = mset (so_accepted s)"
      unfolding m [symmetric] m2 [symmetric] by (simp add: ac_simps)
    then have c: "mset (so_closed (stream_finish t s)) =
        mset (so_accepted s) + (if ns_listen_fd (so_tcp s) < 0 then {#} else {#ns_listen_fd (so_tcp s)#})"
      using v(2,3) unfolding stream_finish_def l v(1) Let_def
      by (cases "ns_listen_fd (so_tcp s) < 0") (simp_all add: netserv_close_def ac_simps)
    have o': "open_fds (stream_finish t s) = []"
      using v(3) unfolding stream_finish_def l v(1) Let_def by (simp add: netserv_close_def open_fds_def)
    have f: "so_sent (stream_finish t s) = so_sent s @ [?p]" "so_peer (stream_finish t s) =
        handed (tk_tcp_out t) (on_wire ?p) ?B (handed (tk_out t) (on_wire ?p) ?A (so_peer s))"
      unfolding stream_finish_def l v(1) Let_def by (simp_all split: prod.split)
    have "so_peer (stream_finish t s) fd = (if fd \<in> set ?A then give (tk_out t fd) (on_wire ?p) (so_peer s fd)
        else if fd \<in> set (open_fds s) then give (tk_tcp_out t fd) (on_wire ?p) (so_peer s fd) else so_peer s fd)" for fd
      using d unfolding f o handed_def by auto
    with sp fl f(1) c o' show ?thesis by blast
  qed
qed

lemma stream_shutdown_witness:
  "open_fds (stream_finish first_tick (stream_pass first_tick (stream_start 3 netserv_init (0, 0)))) = []"
  using stream_shutdown [OF reach_first, of first_tick] by (simp add: first_tick_def level_state_def)

end
