(* ===== verification/OutputCtx.thy ===== *)
theory OutputCtx
  imports Output
begin

text \<open>
  The rest of src/output.c: open_result and releasing the outputs, the UDP packet output and its final packet,
  and the reload of the rates. Descriptors are the resource: every function returns those it obtained and
  those it closed, and the socket paths it removed.
\<close>

record fd_log =
  fl_opened :: "int list"
  fl_closed :: "int list"
  fl_unlinked :: nat

definition fd_none :: fd_log where
  "fd_none = \<lparr>fl_opened = [], fl_closed = [], fl_unlinked = 0\<rparr>"

definition fd_open :: "int \<Rightarrow> fd_log \<Rightarrow> fd_log" where
  "fd_open fd l = (if fd < 0 then l else l\<lparr>fl_opened := fl_opened l @ [fd]\<rparr>)"

definition fd_close :: "int list \<Rightarrow> fd_log \<Rightarrow> fd_log" where
  "fd_close fds l = l\<lparr>fl_closed := fl_closed l @ fds\<rparr>"

definition fd_unlink :: "fd_log \<Rightarrow> fd_log" where
  "fd_unlink l = l\<lparr>fl_unlinked := fl_unlinked l + 1\<rparr>"

lemmas fd_log_defs = fd_open_def fd_close_def fd_unlink_def

section \<open>Opening sockets\<close>

record udp_calls =
  uc_addr_ok :: bool
  uc_multicast :: bool
  uc_fd :: int
  uc_ttl_ok :: bool
  uc_loop_ok :: bool
  uc_broadcast_ok :: bool

definition open_udp_out :: "udp_calls \<Rightarrow> fd_log \<Rightarrow> int \<times> fd_log" where
  "open_udp_out e l =
     (if \<not> uc_addr_ok e then (-1, l)
      else let fd = uc_fd e; l = fd_open fd l
           in if fd < 0 then (-1, l)
              else if uc_multicast e
                   then (if \<not> uc_ttl_ok e then (-1, fd_close [fd] l)
                         else if \<not> uc_loop_ok e then (-1, fd_close [fd] l) else (fd, l))
                   else (if \<not> uc_broadcast_ok e then (-1, fd_close [fd] l) else (fd, l)))"

record listener_calls =
  lc_path_len :: nat
  lc_sun_path :: nat
  lc_fd :: int
  lc_bind_ok :: bool
  lc_listen_ok :: bool

definition open_stream_listener :: "listener_calls \<Rightarrow> fd_log \<Rightarrow> int \<times> fd_log" where
  "open_stream_listener e l =
     (if lc_path_len e \<ge> lc_sun_path e then (-1, l)
      else let fd = lc_fd e; l = fd_open fd l
           in if fd < 0 then (-1, l)
              else let l = fd_unlink l
                   in if \<not> lc_bind_ok e then (-1, fd_close [fd] l)
                      else if \<not> lc_listen_ok e then (-1, fd_unlink (fd_close [fd] l)) else (fd, l))"

text \<open>\<open>netserv_open\<close> with its descriptor accounted for.\<close>

definition open_tcp :: "open_calls \<Rightarrow> int \<Rightarrow> fd_log \<Rightarrow> int \<times> netserv \<times> fd_log" where
  "open_tcp e port l =
     (case netserv_open e port of (rc, s, closed) \<Rightarrow>
        (rc, s, fd_close closed (if oc_addr_ok e then fd_open (oc_fd e) l else l)))"

section \<open>The context\<close>

record out_conf =
  of_nmea_enabled :: bool
  of_nmea_tcp_enabled :: bool
  of_nmea_tcp_port :: int
  of_highrate_enabled :: bool
  of_stream_enabled :: bool
  of_stream_tcp_enabled :: bool
  of_stream_tcp_port :: int
  of_nmea_rate_hz :: int
  of_highrate_rate_hz :: int
  of_stream_rate_hz :: int

record out_calls =
  ok_calloc :: bool
  ok_nmea :: udp_calls
  ok_nmea_tcp :: open_calls
  ok_hirate :: udp_calls
  ok_stream :: listener_calls
  ok_stream_tcp :: open_calls

record out_ctx =
  ox_nmea_fd :: int
  ox_hirate_fd :: int
  ox_stream_fd :: int
  ox_nmea_tcp :: netserv
  ox_bin_tcp :: netserv
  ox_nmea_rate_hz :: int
  ox_highrate_rate_hz :: int
  ox_stream_rate_hz :: int
  ox_hirate_errors :: u64
  ox_stop :: bool

definition close_if_open :: "int \<Rightarrow> fd_log \<Rightarrow> fd_log" where
  "close_if_open fd l = (if fd \<ge> 0 then fd_close [fd] l else l)"

definition out_ctx_release :: "out_ctx \<Rightarrow> fd_log \<Rightarrow> fd_log" where
  "out_ctx_release ctx l =
     (let l = close_if_open (ox_nmea_fd ctx) l;
          l = close_if_open (ox_hirate_fd ctx) l;
          l = (if ox_stream_fd ctx \<ge> 0 then fd_unlink (fd_close [ox_stream_fd ctx] l) else l);
          l = fd_close (snd (netserv_close (ox_nmea_tcp ctx))) l
      in fd_close (snd (netserv_close (ox_bin_tcp ctx))) l)"

definition out_ctx_new :: "out_conf \<Rightarrow> out_ctx" where
  "out_ctx_new cfg = \<lparr>ox_nmea_fd = -1, ox_hirate_fd = -1, ox_stream_fd = -1, ox_nmea_tcp = netserv_init,
     ox_bin_tcp = netserv_init, ox_nmea_rate_hz = of_nmea_rate_hz cfg, ox_highrate_rate_hz = of_highrate_rate_hz cfg,
     ox_stream_rate_hz = of_stream_rate_hz cfg, ox_hirate_errors = 0, ox_stop = False\<rparr>"

text \<open>One optional output of \<open>out_ctx_open\<close>: \<open>Inl\<close> is the jump to \<open>fail\<close>.\<close>

type_synonym open_result = "out_ctx \<times> fd_log + out_ctx \<times> fd_log"

definition open_nmea :: "out_conf \<Rightarrow> udp_calls \<Rightarrow> out_ctx \<times> fd_log \<Rightarrow> open_result" where
  "open_nmea cfg e = (\<lambda>(ctx, l).
     if of_nmea_enabled cfg
     then (case open_udp_out e l of (fd, l) \<Rightarrow>
             let ctx = ctx\<lparr>ox_nmea_fd := fd\<rparr> in if fd < 0 then Inl (ctx, l) else Inr (ctx, l))
     else Inr (ctx, l))"

definition open_nmea_tcp :: "out_conf \<Rightarrow> open_calls \<Rightarrow> out_ctx \<times> fd_log \<Rightarrow> open_result" where
  "open_nmea_tcp cfg e = (\<lambda>(ctx, l).
     if of_nmea_tcp_enabled cfg
     then (case open_tcp e (of_nmea_tcp_port cfg) l of (rc, s, l) \<Rightarrow>
             let ctx = ctx\<lparr>ox_nmea_tcp := s\<rparr> in if rc < 0 then Inl (ctx, l) else Inr (ctx, l))
     else Inr (ctx, l))"

definition open_hirate :: "out_conf \<Rightarrow> udp_calls \<Rightarrow> out_ctx \<times> fd_log \<Rightarrow> open_result" where
  "open_hirate cfg e = (\<lambda>(ctx, l).
     if of_highrate_enabled cfg
     then (case open_udp_out e l of (fd, l) \<Rightarrow>
             let ctx = ctx\<lparr>ox_hirate_fd := fd\<rparr> in if fd < 0 then Inl (ctx, l) else Inr (ctx, l))
     else Inr (ctx, l))"

definition open_stream :: "out_conf \<Rightarrow> listener_calls \<Rightarrow> out_ctx \<times> fd_log \<Rightarrow> open_result" where
  "open_stream cfg e = (\<lambda>(ctx, l).
     if of_stream_enabled cfg
     then (case open_stream_listener e l of (fd, l) \<Rightarrow>
             let ctx = ctx\<lparr>ox_stream_fd := fd\<rparr> in if fd < 0 then Inl (ctx, l) else Inr (ctx, l))
     else Inr (ctx, l))"

definition open_stream_tcp :: "out_conf \<Rightarrow> open_calls \<Rightarrow> out_ctx \<times> fd_log \<Rightarrow> open_result" where
  "open_stream_tcp cfg e = (\<lambda>(ctx, l).
     if of_stream_tcp_enabled cfg
     then (case open_tcp e (of_stream_tcp_port cfg) l of (rc, s, l) \<Rightarrow>
             let ctx = ctx\<lparr>ox_bin_tcp := s\<rparr> in if rc < 0 then Inl (ctx, l) else Inr (ctx, l))
     else Inr (ctx, l))"

fun open_seq :: "(out_ctx \<times> fd_log \<Rightarrow> open_result) list \<Rightarrow> out_ctx \<times> fd_log \<Rightarrow> open_result" where
  "open_seq [] c = Inr c"
| "open_seq (f # fs) c = (case f c of Inl c \<Rightarrow> Inl c | Inr c \<Rightarrow> open_seq fs c)"

definition out_ctx_open :: "out_conf \<Rightarrow> out_calls \<Rightarrow> int \<times> out_ctx option \<times> fd_log" where
  "out_ctx_open cfg e =
     (if \<not> ok_calloc e then (-1, None, fd_none)
      else case open_seq [open_nmea cfg (ok_nmea e), open_nmea_tcp cfg (ok_nmea_tcp e), open_hirate cfg (ok_hirate e),
                          open_stream cfg (ok_stream e), open_stream_tcp cfg (ok_stream_tcp e)] (out_ctx_new cfg, fd_none) of
             Inr (ctx, l) \<Rightarrow> (0, Some ctx, l)
           | Inl (ctx, l) \<Rightarrow> (-1, None, out_ctx_release ctx l))"

definition out_ctx_free :: "out_ctx option \<Rightarrow> fd_log \<Rightarrow> fd_log" where
  "out_ctx_free ctx l = (case ctx of None \<Rightarrow> l | Some ctx \<Rightarrow> out_ctx_release ctx l)"

definition out_ctx_stop :: "out_ctx option \<Rightarrow> out_ctx option" where
  "out_ctx_stop ctx = map_option (\<lambda>ctx. ctx\<lparr>ox_stop := True\<rparr>) ctx"

definition out_ctx_reload :: "out_ctx option \<Rightarrow> out_conf \<Rightarrow> out_ctx option" where
  "out_ctx_reload ctx cfg = map_option (\<lambda>ctx. ctx\<lparr>ox_nmea_rate_hz := of_nmea_rate_hz cfg,
     ox_highrate_rate_hz := of_highrate_rate_hz cfg, ox_stream_rate_hz := of_stream_rate_hz cfg\<rparr>) ctx"

definition out_ctx_disable_nmea :: "out_ctx option \<Rightarrow> fd_log \<Rightarrow> out_ctx option \<times> fd_log" where
  "out_ctx_disable_nmea ctx l =
     (case ctx of None \<Rightarrow> (None, l)
      | Some ctx \<Rightarrow>
          let l = close_if_open (ox_nmea_fd ctx) l;
              ctx = (if ox_nmea_fd ctx \<ge> 0 then ctx\<lparr>ox_nmea_fd := -1\<rparr> else ctx)
          in case netserv_close (ox_nmea_tcp ctx) of (s, closed) \<Rightarrow> (Some (ctx\<lparr>ox_nmea_tcp := s\<rparr>), fd_close closed l))"

definition out_ctx_disable_hirate :: "out_ctx option \<Rightarrow> fd_log \<Rightarrow> out_ctx option \<times> fd_log" where
  "out_ctx_disable_hirate ctx l =
     (case ctx of None \<Rightarrow> (None, l)
      | Some ctx \<Rightarrow>
          if ox_hirate_fd ctx \<ge> 0 then (Some (ctx\<lparr>ox_hirate_fd := -1\<rparr>), fd_close [ox_hirate_fd ctx] l)
          else (Some ctx, l))"

section \<open>The packet output over UDP\<close>

text \<open>A pass sends one datagram when the filter is settled; a failed \<open>sendto\<close> is counted.\<close>

record hirate_tick =
  ht_rate_hz :: int
  ht_settled :: bool
  ht_state :: fused_state
  ht_mag :: mag_sample
  ht_imu :: imu_sample
  ht_raw_imu :: imu_sample
  ht_sent_ok :: bool

definition hirate_pass :: "hirate_tick \<Rightarrow> timespec \<times> bytes list \<times> u64 \<Rightarrow> timespec \<times> bytes list \<times> u64" where
  "hirate_pass t = (\<lambda>(next, sent, errors).
     (let next = ts_add_ns next (out_period_ns 2000000 (ht_rate_hz t))
      in if \<not> ht_settled t then (next, sent, errors)
         else let pkt = packet_build (ht_state t) (ht_mag t) (ht_imu t) (ht_raw_imu t);
                  wire = fst (packet_encode pkt)
              in if \<not> ht_sent_ok t then (next, sent, errors + 1) else (next, sent @ [wire], errors)))"

definition out_ctx_send_shutdown :: "out_ctx option \<Rightarrow> hirate_tick \<Rightarrow> bytes list \<Rightarrow> bytes list" where
  "out_ctx_send_shutdown ctx t sent =
     (case ctx of None \<Rightarrow> sent
      | Some ctx \<Rightarrow>
          if ox_hirate_fd ctx < 0 then sent
          else let state = (ht_state t)\<lparr>fs_flags := fs_flags (ht_state t) OR FLAG_SHUTDOWN\<rparr>;
                   wire = fst (packet_encode (packet_build state (ht_mag t) (ht_imu t) (ht_raw_imu t)))
               in if ht_sent_ok t then sent @ [wire] else sent)"

section \<open>No descriptor is leaked\<close>

text \<open>The descriptors a context holds: the three plain ones and the two listeners, which have no clients yet.\<close>

definition one_fd :: "int \<Rightarrow> int multiset" where
  "one_fd fd = (if fd < 0 then {#} else {#fd#})"

definition held :: "out_ctx \<Rightarrow> int multiset" where
  "held ctx = one_fd (ox_nmea_fd ctx) + one_fd (ox_hirate_fd ctx) + one_fd (ox_stream_fd ctx) +
     one_fd (ns_listen_fd (ox_nmea_tcp ctx)) + one_fd (ns_listen_fd (ox_bin_tcp ctx))"

definition balanced :: "out_ctx \<times> fd_log \<Rightarrow> bool" where
  "balanced = (\<lambda>(ctx, l). mset (fl_opened l) = mset (fl_closed l) + held ctx \<and>
     ns_nclients (ox_nmea_tcp ctx) = 0 \<and> ns_nclients (ox_bin_tcp ctx) = 0)"

lemma open_udp_out_log:
  assumes "open_udp_out e l = (fd, l')"
  shows "mset (fl_opened l') + mset (fl_closed l) = mset (fl_opened l) + mset (fl_closed l') + one_fd fd"
  using assms by (auto simp: open_udp_out_def fd_log_defs one_fd_def Let_def split: if_splits)

lemma open_stream_listener_log:
  assumes "open_stream_listener e l = (fd, l')"
  shows "mset (fl_opened l') + mset (fl_closed l) = mset (fl_opened l) + mset (fl_closed l') + one_fd fd"
  using assms by (auto simp: open_stream_listener_def fd_log_defs one_fd_def Let_def split: if_splits)

lemma open_tcp_log:
  assumes "open_tcp e port l = (rc, s, l')"
  shows "mset (fl_opened l') + mset (fl_closed l) =
      mset (fl_opened l) + mset (fl_closed l') + one_fd (ns_listen_fd s) \<and> ns_nclients s = 0"
  using assms by (auto simp: open_tcp_def netserv_open_def netserv_init_def fd_log_defs one_fd_def Let_def split: if_splits)

lemma multiset_balance:
  fixes opened :: "'a multiset"
  assumes "opened' + closed = opened + closed' + x" "opened = closed + h"
  shows "opened' = closed' + (h + x)"
proof -
  have "closed + opened' = closed + (closed' + (h + x))" using assms by (simp add: ac_simps)
  then show ?thesis by simp
qed

text \<open>A step opens one descriptor, whose slot was empty, and keeps the account.\<close>

definition outcome :: "open_result \<Rightarrow> out_ctx \<times> fd_log" where
  "outcome r = (case r of Inl c \<Rightarrow> c | Inr c \<Rightarrow> c)"

lemma open_nmea_balanced:
  assumes "balanced (ctx, l)" "ox_nmea_fd ctx < 0"
  shows "balanced (outcome (open_nmea cfg e (ctx, l))) \<and>
    (\<exists>x. fst (outcome (open_nmea cfg e (ctx, l))) = ctx\<lparr>ox_nmea_fd := x\<rparr>)"
proof (cases "of_nmea_enabled cfg")
  case True
  obtain fd l' where e: "open_udp_out e l = (fd, l')" by fastforce
  have "mset (fl_opened l) = mset (fl_closed l) + held ctx" using assms(1) by (simp add: balanced_def)
  note b = multiset_balance [OF open_udp_out_log [OF e] this]
  have "outcome (open_nmea cfg e (ctx, l)) = (ctx\<lparr>ox_nmea_fd := fd\<rparr>, l')"
    using True e by (simp add: open_nmea_def outcome_def Let_def)
  moreover have "held (ctx\<lparr>ox_nmea_fd := fd\<rparr>) = held ctx + one_fd fd"
    using assms(2) by (simp add: held_def one_fd_def)
  ultimately show ?thesis using b assms(1) by (auto simp: balanced_def)
next
  case False
  with assms(1) show ?thesis by (cases ctx) (auto simp: open_nmea_def outcome_def)
qed

lemma open_hirate_balanced:
  assumes "balanced (ctx, l)" "ox_hirate_fd ctx < 0"
  shows "balanced (outcome (open_hirate cfg e (ctx, l))) \<and>
    (\<exists>x. fst (outcome (open_hirate cfg e (ctx, l))) = ctx\<lparr>ox_hirate_fd := x\<rparr>)"
proof (cases "of_highrate_enabled cfg")
  case True
  obtain fd l' where e: "open_udp_out e l = (fd, l')" by fastforce
  have "mset (fl_opened l) = mset (fl_closed l) + held ctx" using assms(1) by (simp add: balanced_def)
  note b = multiset_balance [OF open_udp_out_log [OF e] this]
  have "outcome (open_hirate cfg e (ctx, l)) = (ctx\<lparr>ox_hirate_fd := fd\<rparr>, l')"
    using True e by (simp add: open_hirate_def outcome_def Let_def)
  moreover have "held (ctx\<lparr>ox_hirate_fd := fd\<rparr>) = held ctx + one_fd fd"
    using assms(2) by (simp add: held_def one_fd_def)
  ultimately show ?thesis using b assms(1) by (auto simp: balanced_def)
next
  case False
  with assms(1) show ?thesis by (cases ctx) (auto simp: open_hirate_def outcome_def)
qed

lemma open_stream_balanced:
  assumes "balanced (ctx, l)" "ox_stream_fd ctx < 0"
  shows "balanced (outcome (open_stream cfg e (ctx, l))) \<and>
    (\<exists>x. fst (outcome (open_stream cfg e (ctx, l))) = ctx\<lparr>ox_stream_fd := x\<rparr>)"
proof (cases "of_stream_enabled cfg")
  case True
  obtain fd l' where e: "open_stream_listener e l = (fd, l')" by fastforce
  have "mset (fl_opened l) = mset (fl_closed l) + held ctx" using assms(1) by (simp add: balanced_def)
  note b = multiset_balance [OF open_stream_listener_log [OF e] this]
  have "outcome (open_stream cfg e (ctx, l)) = (ctx\<lparr>ox_stream_fd := fd\<rparr>, l')"
    using True e by (simp add: open_stream_def outcome_def Let_def)
  moreover have "held (ctx\<lparr>ox_stream_fd := fd\<rparr>) = held ctx + one_fd fd"
    using assms(2) by (simp add: held_def one_fd_def)
  ultimately show ?thesis using b assms(1) by (auto simp: balanced_def)
next
  case False
  with assms(1) show ?thesis by (cases ctx) (auto simp: open_stream_def outcome_def)
qed

lemma open_nmea_tcp_balanced:
  assumes "balanced (ctx, l)" "ns_listen_fd (ox_nmea_tcp ctx) < 0"
  shows "balanced (outcome (open_nmea_tcp cfg e (ctx, l))) \<and>
    (\<exists>x. fst (outcome (open_nmea_tcp cfg e (ctx, l))) = ctx\<lparr>ox_nmea_tcp := x\<rparr>)"
proof (cases "of_nmea_tcp_enabled cfg")
  case True
  obtain rc s l' where e: "open_tcp e (of_nmea_tcp_port cfg) l = (rc, s, l')" by (rule prod_cases3)
  have "mset (fl_opened l) = mset (fl_closed l) + held ctx" using assms(1) by (simp add: balanced_def)
  note b = multiset_balance [OF conjunct1 [OF open_tcp_log [OF e]] this] conjunct2 [OF open_tcp_log [OF e]]
  have "outcome (open_nmea_tcp cfg e (ctx, l)) = (ctx\<lparr>ox_nmea_tcp := s\<rparr>, l')"
    using True e by (simp add: open_nmea_tcp_def outcome_def Let_def)
  moreover have "held (ctx\<lparr>ox_nmea_tcp := s\<rparr>) = held ctx + one_fd (ns_listen_fd s)"
    using assms(2) by (simp add: held_def one_fd_def)
  ultimately show ?thesis using b assms(1) by (auto simp: balanced_def)
next
  case False
  with assms(1) show ?thesis by (cases ctx) (auto simp: open_nmea_tcp_def outcome_def)
qed

lemma open_stream_tcp_balanced:
  assumes "balanced (ctx, l)" "ns_listen_fd (ox_bin_tcp ctx) < 0"
  shows "balanced (outcome (open_stream_tcp cfg e (ctx, l))) \<and>
    (\<exists>x. fst (outcome (open_stream_tcp cfg e (ctx, l))) = ctx\<lparr>ox_bin_tcp := x\<rparr>)"
proof (cases "of_stream_tcp_enabled cfg")
  case True
  obtain rc s l' where e: "open_tcp e (of_stream_tcp_port cfg) l = (rc, s, l')" by (rule prod_cases3)
  have "mset (fl_opened l) = mset (fl_closed l) + held ctx" using assms(1) by (simp add: balanced_def)
  note b = multiset_balance [OF conjunct1 [OF open_tcp_log [OF e]] this] conjunct2 [OF open_tcp_log [OF e]]
  have "outcome (open_stream_tcp cfg e (ctx, l)) = (ctx\<lparr>ox_bin_tcp := s\<rparr>, l')"
    using True e by (simp add: open_stream_tcp_def outcome_def Let_def)
  moreover have "held (ctx\<lparr>ox_bin_tcp := s\<rparr>) = held ctx + one_fd (ns_listen_fd s)"
    using assms(2) by (simp add: held_def one_fd_def)
  ultimately show ?thesis using b assms(1) by (auto simp: balanced_def)
next
  case False
  with assms(1) show ?thesis by (cases ctx) (auto simp: open_stream_tcp_def outcome_def)
qed

lemma open_seq_step:
  assumes "balanced (outcome (f c)) \<and> Q (fst (outcome (f c)))"
    and "\<And>ctx l. balanced (ctx, l) \<Longrightarrow> Q ctx \<Longrightarrow> balanced (outcome (open_seq fs (ctx, l)))"
  shows "balanced (outcome (open_seq (f # fs) c))"
proof (cases "f c")
  case (Inl c')
  with assms(1) show ?thesis by (simp add: outcome_def)
next
  case (Inr c')
  with assms(1) have "balanced (fst c', snd c')" "Q (fst c')" by (simp_all add: outcome_def)
  from assms(2) [OF this] Inr show ?thesis by simp
qed

definition slot_empty :: "out_ctx \<Rightarrow> bool list" where
  "slot_empty ctx = [ns_listen_fd (ox_nmea_tcp ctx) < 0, ox_hirate_fd ctx < 0, ox_stream_fd ctx < 0,
     ns_listen_fd (ox_bin_tcp ctx) < 0]"

lemma open_all_balanced:
  "balanced (outcome (open_seq [open_nmea cfg a, open_nmea_tcp cfg b, open_hirate cfg c, open_stream cfg d, open_stream_tcp cfg e]
     (out_ctx_new cfg, fd_none)))"
proof (rule open_seq_step [where Q = "\<lambda>ctx. list_all id (slot_empty ctx)"])
  have "balanced (out_ctx_new cfg, fd_none)" "ox_nmea_fd (out_ctx_new cfg) < 0" "list_all id (slot_empty (out_ctx_new cfg))"
    by (simp_all add: balanced_def out_ctx_new_def fd_none_def held_def one_fd_def netserv_init_def slot_empty_def)
  with open_nmea_balanced [of "out_ctx_new cfg" fd_none cfg a]
  show "balanced (outcome (open_nmea cfg a (out_ctx_new cfg, fd_none))) \<and>
      list_all id (slot_empty (fst (outcome (open_nmea cfg a (out_ctx_new cfg, fd_none)))))"
    by (auto simp: slot_empty_def)
next
  fix ctx l assume i: "balanced (ctx, l)" "list_all id (slot_empty ctx)"
  show "balanced (outcome (open_seq [open_nmea_tcp cfg b, open_hirate cfg c, open_stream cfg d, open_stream_tcp cfg e] (ctx, l)))"
  proof (rule open_seq_step [where Q = "\<lambda>ctx. list_all id (drop 1 (slot_empty ctx))"])
    show "balanced (outcome (open_nmea_tcp cfg b (ctx, l))) \<and>
        list_all id (drop 1 (slot_empty (fst (outcome (open_nmea_tcp cfg b (ctx, l))))))"
      using open_nmea_tcp_balanced [OF i(1), of cfg b] i(2) by (auto simp: slot_empty_def)
  next
    fix ctx l assume i: "balanced (ctx, l)" "list_all id (drop 1 (slot_empty ctx))"
    show "balanced (outcome (open_seq [open_hirate cfg c, open_stream cfg d, open_stream_tcp cfg e] (ctx, l)))"
    proof (rule open_seq_step [where Q = "\<lambda>ctx. list_all id (drop 2 (slot_empty ctx))"])
      show "balanced (outcome (open_hirate cfg c (ctx, l))) \<and>
          list_all id (drop 2 (slot_empty (fst (outcome (open_hirate cfg c (ctx, l))))))"
        using open_hirate_balanced [OF i(1), of cfg c] i(2) by (auto simp: slot_empty_def)
    next
      fix ctx l assume i: "balanced (ctx, l)" "list_all id (drop 2 (slot_empty ctx))"
      show "balanced (outcome (open_seq [open_stream cfg d, open_stream_tcp cfg e] (ctx, l)))"
      proof (rule open_seq_step [where Q = "\<lambda>ctx. list_all id (drop 3 (slot_empty ctx))"])
        show "balanced (outcome (open_stream cfg d (ctx, l))) \<and>
            list_all id (drop 3 (slot_empty (fst (outcome (open_stream cfg d (ctx, l))))))"
          using open_stream_balanced [OF i(1), of cfg d] i(2) by (auto simp: slot_empty_def)
      next
        fix ctx l assume i: "balanced (ctx, l)" "list_all id (drop 3 (slot_empty ctx))"
        show "balanced (outcome (open_seq [open_stream_tcp cfg e] (ctx, l)))"
          using open_stream_tcp_balanced [OF i(1), of cfg e] i(2)
          by (auto simp: slot_empty_def outcome_def split: sum.splits)
      qed
    qed
  qed
qed

lemma release_log:
  assumes "ns_nclients (ox_nmea_tcp ctx) = 0" "ns_nclients (ox_bin_tcp ctx) = 0"
  shows "fl_opened (out_ctx_release ctx l) = fl_opened l"
    and "mset (fl_closed (out_ctx_release ctx l)) = mset (fl_closed l) + held ctx"
  using assms by (auto simp: out_ctx_release_def close_if_open_def fd_log_defs netserv_close_def held_def one_fd_def Let_def)

text \<open>
  opening the outputs either works or leaves nothing behind. Whichever of the calls fails, when
  \<open>out_ctx_open\<close> returns -1 every descriptor it obtained has been closed once; when it returns 0 the context
  holds exactly those not closed, and \<open>out_ctx_free\<close> closes them once each.
\<close>

theorem out_ctx_no_leak:
  "case out_ctx_open cfg e of (rc, ctx, l) \<Rightarrow>
     if rc = 0 then mset (fl_closed (out_ctx_free ctx l)) = mset (fl_opened l) \<and> ctx \<noteq> None
     else rc = -1 \<and> ctx = None \<and> mset (fl_closed l) = mset (fl_opened l)"
proof (cases "ok_calloc e")
  case False
  then show ?thesis by (simp add: out_ctx_open_def fd_none_def)
next
  case True
  let ?r = "open_seq [open_nmea cfg (ok_nmea e), open_nmea_tcp cfg (ok_nmea_tcp e), open_hirate cfg (ok_hirate e),
      open_stream cfg (ok_stream e), open_stream_tcp cfg (ok_stream_tcp e)] (out_ctx_new cfg, fd_none)"
  obtain ctx l where o: "outcome ?r = (ctx, l)" by fastforce
  with open_all_balanced have "balanced (ctx, l)" by metis
  then have b: "mset (fl_opened l) = mset (fl_closed l) + held ctx"
    "ns_nclients (ox_nmea_tcp ctx) = 0" "ns_nclients (ox_bin_tcp ctx) = 0" by (simp_all add: balanced_def)
  note r = release_log [OF b(2,3)]
  show ?thesis
  proof (cases ?r)
    case (Inl c)
    with o have "?r = Inl (ctx, l)" by (simp add: outcome_def)
    then show ?thesis unfolding out_ctx_open_def using True r b(1) by simp
  next
    case (Inr c)
    with o have "?r = Inr (ctx, l)" by (simp add: outcome_def)
    then show ?thesis unfolding out_ctx_open_def using True r b(1) by (simp add: out_ctx_free_def)
  qed
qed

end
