(* ===== verification/ConfigTables.thy ===== *)
theory ConfigTables
  imports Config
begin

text \<open>
  Facts about the tables of src/config.c: the bounds that go with each field, the same in every section that
  sets it, and the defaults, which are within them.
\<close>

section \<open>Fields and their bounds\<close>

lemmas kv_tables = kv_device_def kv_runtime_def kv_capture_def kv_imu_def kv_mag_def kv_fusion_def
  kv_calibration_def kv_nmea_def kv_highrate_def kv_stream_def kv_signalk_def kv_mqtt_def kv_influx_def kv_prom_def
  kv_mavlink_def kv_logging_def kv_position_def

definition first_word :: "string \<Rightarrow> string" where
  "first_word f = takeWhile (\<lambda>c. c \<noteq> CHR ''_'') f"

text \<open>The rows of a field, found by the first word of its name.\<close>

definition rows_of_word :: "string \<Rightarrow> kv_row list" where
  "rows_of_word w =
     (if w = ''imu'' then kv_imu else if w = ''nmea'' then kv_nmea else if w = ''highrate'' then kv_highrate
      else if w = ''stream'' then kv_stream else if w = ''sk'' \<or> w = ''publish'' then kv_signalk else if w = ''mqtt'' then kv_mqtt
      else if w = ''influx'' then kv_influx else if w = ''prom'' then kv_prom else if w = ''mav'' then kv_mavlink
      else if w = ''pos'' then kv_position else if w = ''log'' then kv_logging else if w = ''capture'' then kv_capture
      else if w = ''pid'' \<or> w = ''status'' then kv_runtime
      else if w = ''i2c'' \<or> w = ''gpio'' \<or> w = ''sim'' then kv_device
      else if w = ''cal'' \<or> w = ''startup'' \<or> w = ''gyro'' \<or> w = ''align'' then kv_calibration
      else kv_mag @ kv_fusion)"

definition need_of :: "string \<Rightarrow> need option" where
  "need_of f = map_of (map snd (rows_of_word (first_word f))) f"

text \<open>A field set from two sections has the same bounds in both.\<close>

lemma need_of_rows: "list_all (\<lambda>(_, f, n). need_of f = Some n) (kv_rows sec)"
  by (induct sec; unfold kv_rows.simps kv_tables list.pred_inject prod.case; intro conjI list.pred_inject(1);
      simp add: need_of_def first_word_def rows_of_word_def kv_tables)

text \<open>What a field holds once its key has been accepted. \<close>

fun holds :: "need \<Rightarrow> cval \<Rightarrow> bool" where
  "holds (NEED_STR n) v = (case v of Str s \<Rightarrow> length s < n | _ \<Rightarrow> False)"
| "holds (NEED_TOPIC n) v = (case v of Str s \<Rightarrow> length s < n | _ \<Rightarrow> False)"
| "holds (NEED_FRAME n) v = (v = Str (take (n - 1) ''NED''))"
| "holds NEED_BOOL v = (case v of Bool b \<Rightarrow> True | _ \<Rightarrow> False)"
| "holds NEED_INT v = (case v of Num i \<Rightarrow> - (2 ^ 31) \<le> i \<and> i < 2 ^ 31 | _ \<Rightarrow> False)"
| "holds NEED_POS_INT v = (case v of Num i \<Rightarrow> 0 < i \<and> i < 2 ^ 31 | _ \<Rightarrow> False)"
| "holds (NEED_RANGE_INT lo hi) v = (case v of Num i \<Rightarrow> lo \<le> i \<and> i \<le> hi | _ \<Rightarrow> False)"
| "holds NEED_I2C_ADDR v = (case v of Num i \<Rightarrow> 0 \<le> i \<and> i \<le> 0x7F | _ \<Rightarrow> False)"
| "holds NEED_POS_MHZ v = (case v of Num i \<Rightarrow> 0 < i \<and> i < 2 ^ 31 | _ \<Rightarrow> False)"
| "holds NEED_FLT v = (case v of Flt x \<Rightarrow> True | _ \<Rightarrow> False)"
| "holds NEED_DBL v = (case v of Dbl x \<Rightarrow> True | _ \<Rightarrow> False)"
| "holds NEED_POS_DBL v = (case v of Dbl x \<Rightarrow> 0 < x | _ \<Rightarrow> False)"
| "holds (NEED_RANGE_DBL lo hi) v = (case v of Dbl x \<Rightarrow> lo \<le> x \<and> x \<le> hi | _ \<Rightarrow> False)"
| "holds NEED_BUS_KIND v = (case v of Bus k \<Rightarrow> True | _ \<Rightarrow> False)"
| "holds NEED_DECL v = (case v of Flt x \<Rightarrow> True | _ \<Rightarrow> False)"

text \<open>A rate that rounds to zero is stored before it is refused.\<close>

definition field_ok :: "bool \<Rightarrow> need \<Rightarrow> cval \<Rightarrow> bool" where
  "field_ok bad n v \<longleftrightarrow> holds n v \<or> bad \<and> n = NEED_POS_MHZ \<and> v = Num 0"

definition config_ok :: "bool \<Rightarrow> config \<Rightarrow> bool" where
  "config_ok bad cfg \<longleftrightarrow> (\<forall>sec. list_all (\<lambda>(_, f, n). field_ok bad n (cfg f)) (kv_rows sec))"

lemma dconst_binade: "2 powi l \<le> x \<Longrightarrow> x < 2 powi (l + 1) \<Longrightarrow> - 1022 \<le> l \<Longrightarrow> l < 1023 \<Longrightarrow>
    2 powi l \<le> dconst x \<and> dconst x \<le> 2 powi (l + 1)"
  using to_double_binade by blast

lemma dconst_defaults:
  "0 < dconst (7 / 1000)" "0 < dconst (3 / 20000)" "0 < dconst (11 / 5000)" "0 < dconst (1 / 2500)"
  "0 \<le> dconst (2 / 5)" "dconst (2 / 5) \<le> 1" "dconst (1 / 1000) \<le> dconst (1 / 20)" "dconst (1 / 20) \<le> 1"
  "dconst (1 / 1000) \<le> dconst (1 / 5)" "dconst (1 / 5) \<le> 1"
  using dconst_binade [of "-8" "7 / 1000"] dconst_binade [of "-13" "3 / 20000"] dconst_binade [of "-9" "11 / 5000"]
    dconst_binade [of "-12" "1 / 2500"] dconst_binade [of "-2" "2 / 5"] dconst_binade [of "-10" "1 / 1000"]
    dconst_binade [of "-5" "1 / 20"] dconst_binade [of "-3" "1 / 5"]
  by (simp_all add: power_int_def power_one_over)

lemma mhz_of_range:
  assumes "0 < dv" "dv \<le> 2000000"
  shows "0 \<le> mhz_of dv \<and> mhz_of dv < 2 ^ 31"
proof -
  define a where "a = dconst (dv * 1000)"
  have a: "0 \<le> a" "a \<le> 2000000000"
    using to_double_le_int [of "dv * 1000" 2000000000] assms by (simp_all add: a_def)
  have "0 \<le> dconst (a + 1 / 2) \<and> dconst (a + 1 / 2) \<le> 2000000001"
    using to_double_le_int [of "a + 1 / 2" 2000000001] a by simp
  then show ?thesis by (auto simp: mhz_of_def a_def [symmetric] floor_less_iff)
qed

fun first_of :: "(string \<times> cval) list list \<Rightarrow> string \<Rightarrow> cval" where
  "first_of [] f = Str []"
| "first_of (t # ts) f = (case map_of t f of Some v \<Rightarrow> v | None \<Rightarrow> first_of ts f)"

lemma first_of_concat: "(case map_of (concat ts) f of Some v \<Rightarrow> v | None \<Rightarrow> Str []) = first_of ts f"
  by (induction ts) (auto simp: map_add_def split: option.splits)

lemma config_defaults_lookup:
  "config_defaults f = first_of [defaults_device, defaults_runtime, defaults_capture, defaults_imu, defaults_mag,
     defaults_fusion, defaults_calibration, defaults_nmea, defaults_highrate, defaults_stream, defaults_signalk,
     defaults_shared, defaults_mqtt, defaults_influx, defaults_prom, defaults_mavlink, defaults_position,
     defaults_logging, defaults_zero] f"
  unfolding config_defaults_def first_of_concat ..

lemmas defaults_tables = defaults_device_def defaults_runtime_def defaults_capture_def defaults_imu_def
  defaults_mag_def defaults_fusion_def defaults_calibration_def defaults_nmea_def defaults_highrate_def
  defaults_stream_def defaults_signalk_def defaults_shared_def defaults_mqtt_def defaults_influx_def
  defaults_prom_def defaults_mavlink_def defaults_position_def defaults_logging_def defaults_zero_def

definition words_of_table :: "(string \<times> cval) list \<Rightarrow> string set" where
  "words_of_table t = set (map (\<lambda>(g, v). first_word g) t)"

lemma words_of_tables:
  "words_of_table defaults_device = {''i2c'', ''gpio'', ''sim''}"
  "words_of_table defaults_runtime = {''pid'', ''status''}"
  "words_of_table defaults_capture = {''capture''}"
  "words_of_table defaults_imu = {''imu''}"
  "words_of_table defaults_mag = {''mag''}"
  "words_of_table defaults_fusion = {''mag'', ''heave'', ''wave'', ''mekf'', ''accel'', ''engine''}"
  "words_of_table defaults_calibration = {''cal'', ''startup'', ''gyro'', ''align''}"
  "words_of_table defaults_nmea = {''nmea''}"
  "words_of_table defaults_highrate = {''highrate''}"
  "words_of_table defaults_stream = {''stream''}"
  "words_of_table defaults_signalk = {''sk''}"
  "words_of_table defaults_shared = {''publish''}"
  "words_of_table defaults_mqtt = {''mqtt''}"
  "words_of_table defaults_influx = {''influx''}"
  "words_of_table defaults_prom = {''prom''}"
  "words_of_table defaults_mavlink = {''mav''}"
  "words_of_table defaults_position = {''pos''}"
  "words_of_table defaults_logging = {''log''}"
  "words_of_table defaults_zero = {''pos'', ''mount''}"
  unfolding defaults_tables words_of_table_def first_word_def by (simp_all add: insert_commute)

lemma word_elsewhere: "first_word f \<notin> words_of_table t \<Longrightarrow> map_of t f = None"
  by (force simp: map_of_eq_None_iff words_of_table_def)

lemma first_of_filter: "first_of ts f = first_of (filter (\<lambda>t. first_word f \<in> words_of_table t) ts) f"
  by (induction ts) (auto simp: word_elsewhere split: option.split)

lemma field_ok_default: "field_ok bad n (first_of (filter (\<lambda>t. first_word f \<in> words_of_table t) ts) f) \<Longrightarrow>
    config_defaults f = first_of ts f \<Longrightarrow> field_ok bad n (config_defaults f)"
  by (simp only: first_of_filter [of ts])

lemma config_ok_defaults: "list_all (\<lambda>(_, f, n). field_ok bad n (config_defaults f)) (kv_rows sec)"
  by (induct sec; unfold kv_rows.simps kv_tables list.pred_inject prod.case; intro conjI list.pred_inject(1);
      rule field_ok_default [OF _ config_defaults_lookup]; simp add: words_of_tables first_word_def;
      simp add: defaults_tables field_ok_def dconst_defaults IMUD_STATEDIR_def IMUD_CAL_FILE_def IMUD_STREAM_SOCK_def)

end
