(* ===== verification/ConfigProps.thy ===== *)
theory ConfigProps
  imports ConfigTables
begin

text \<open>
  What loading a configuration guarantees: every field is within the bounds of its key, a bad value leaves the
  rest of the file alone, quoted values are read back as they were written, the bus descriptions are those
  of the file, and mount angles give rotations.
\<close>

section \<open>Bounds\<close>

lemma need_of_row: "(key, f, n) \<in> set (kv_rows sec) \<Longrightarrow> need_of f = Some n"
  using need_of_rows [of sec] by (fastforce simp: list_all_iff)

lemma config_ok_row: "config_ok bad cfg \<Longrightarrow> (key, f, n) \<in> set (kv_rows sec) \<Longrightarrow> field_ok bad n (cfg f)"
  unfolding config_ok_def list_all_iff by fastforce

lemma config_okI: "(\<And>sec key f n. (key, f, n) \<in> set (kv_rows sec) \<Longrightarrow> field_ok bad n (cfg f)) \<Longrightarrow> config_ok bad cfg"
  unfolding config_ok_def list_all_iff by auto

lemma config_ok_start: "config_ok bad config_defaults"
  unfolding config_ok_def using config_ok_defaults by blast

lemma field_ok_later: "field_ok bad n v \<Longrightarrow> field_ok (bad \<or> b) n v"
  by (auto simp: field_ok_def)

lemma config_ok_later: "config_ok bad cfg \<Longrightarrow> config_ok (bad \<or> b) cfg"
  by (rule config_okI) (blast intro: field_ok_later config_ok_row)

text \<open>An assignment that keeps the bounds of its field.\<close>

definition update_ok :: "bool \<Rightarrow> string \<times> cval \<Rightarrow> bool" where
  "update_ok bad u = (case u of (f, v) \<Rightarrow> \<forall>n. need_of f = Some n \<longrightarrow> field_ok bad n v)"

lemma config_ok_set_field: "config_ok bad cfg \<Longrightarrow> update_ok bad (f, v) \<Longrightarrow> config_ok bad (cfg(f := v))"
  by (rule config_okI) (auto simp: update_ok_def config_ok_row need_of_row)

lemma config_ok_set_fields: "config_ok bad cfg \<Longrightarrow> list_all (update_ok bad) us \<Longrightarrow> config_ok bad (set_fields us cfg)"
  by (induction us cfg rule: set_fields.induct) (auto intro: config_ok_set_field)

lemma no_need: "need_of ''mount_set'' = None" "need_of ''mount_euler_deg'' = None" "need_of ''mount_rot'' = None"
  "need_of ''mount_preset'' = None" "need_of ''pos_declination_valid'' = None"
  by (simp_all add: need_of_def first_word_def rows_of_word_def kv_mag_def kv_fusion_def kv_position_def)

lemma need_str_ok:
  "need_str home f k val = (ok, us) \<Longrightarrow> us = [] \<or> (\<exists>s. us = [(f, Str s)] \<and> length s < k)"
  by (auto simp: need_str_def split: copy_rc.splits dest: copy_str_fits)

lemma need_int_ok:
  "need_int f P val = (ok, us) \<Longrightarrow> us = [] \<or> (\<exists>i. us = [(f, Num i)] \<and> P i \<and> - (2 ^ 31) \<le> i \<and> i < 2 ^ 31)"
  by (auto simp: need_int_def split: parse_int_rc.splits if_splits dest: parse_int_range)

lemma need_dbl_ok: "need_dbl f P val = (ok, us) \<Longrightarrow> us = [] \<or> (\<exists>x. us = [(f, Dbl x)] \<and> P x)"
  by (auto simp: need_dbl_def split: option.splits if_splits)

text \<open>What one key may assign: its own field, within its bounds unless it is refused.\<close>

lemma need_apply_ok:
  assumes "need_apply home f n val = (ok, us)" "need_of f = Some n"
  shows "list_all (update_ok (bad \<or> \<not> ok)) us"
proof (cases n)
  case NEED_POS_MHZ
  show ?thesis
  proof (cases "us = []")
    case False
    with assms NEED_POS_MHZ obtain dv where dv: "0 < dv" "dv \<le> 2000000"
      "us = [(f, Num (mhz_of dv))]" "ok = (\<not> mhz_of dv \<le> 0)"
      by (auto simp: Let_def split: option.splits if_splits)
    with mhz_of_range [OF dv(1,2)] assms(2) NEED_POS_MHZ show ?thesis by (auto simp: update_ok_def field_ok_def)
  qed simp
next
  case (NEED_TOPIC k)
  then show ?thesis using assms
    by (auto simp: update_ok_def field_ok_def dest!: need_str_ok split: if_splits)
next
  case NEED_DECL
  then show ?thesis using assms by (auto simp: update_ok_def field_ok_def no_need split: option.splits)
qed (use assms in \<open>auto simp: update_ok_def field_ok_def dest!: need_str_ok need_int_ok need_dbl_ok
      split: option.splits if_splits copy_rc.splits\<close>)

lemma kv_effect_ok:
  assumes "kv_effect home sec key val = (ok, us)"
  shows "list_all (update_ok (bad \<or> \<not> ok)) us"
proof (cases "sec = SEC_MOUNT")
  case True
  with assms show ?thesis
    by (auto simp: kv_effect_def apply_mount_def update_ok_def no_need Let_def split: if_splits option.splits copy_rc.splits)
next
  case False
  with assms show ?thesis
    by (auto simp: kv_effect_def split: option.splits dest!: map_of_SomeD intro: need_apply_ok need_of_row)
qed

lemma apply_kv_ok: "config_ok bad cfg \<Longrightarrow> apply_kv home cfg sec key val = (ok, cfg') \<Longrightarrow> config_ok (bad \<or> \<not> ok) cfg'"
  by (auto simp: apply_kv_def split: prod.splits intro: config_ok_set_fields config_ok_later kv_effect_ok)

lemma config_line_ok: "config_ok bad cfg \<Longrightarrow> config_line home l (sec, cfg, bad) = (sec', cfg', bad') \<Longrightarrow> config_ok bad' cfg'"
  by (auto simp: config_line_def Let_def split: if_splits prod.splits dest: apply_kv_ok)

lemma config_lines_ok:
  "config_ok bad cfg \<Longrightarrow> fold (config_line home) ls (sec, cfg, bad) = (sec', cfg', bad') \<Longrightarrow> config_ok bad' cfg'"
proof (induction ls arbitrary: sec cfg bad)
  case (Cons l ls)
  obtain s c b where "config_line home l (sec, cfg, bad) = (s, c, b)" by (rule prod_cases3)
  with Cons config_line_ok show ?case by fastforce
qed simp

lemma need_wmm: "need_of ''pos_wmm_file'' = Some (NEED_STR 256)"
  by (simp add: need_of_def first_word_def rows_of_word_def kv_position_def)

lemma resolve_wmm_ok: "config_ok bad cfg \<Longrightarrow> config_ok bad (resolve_wmm_file etc cfg)"
  unfolding resolve_wmm_file_def
  by (auto intro!: config_ok_set_field simp: update_ok_def need_wmm field_ok_def)

lemmas config_rcs = CONFIG_ERR_OPEN_def CONFIG_ERR_PARSE_def CONFIG_ERR_PERM_def

lemma config_load_ok:
  assumes "config_ok False cfg0" "config_load home etc fo cfg0 = (rc, cfg)"
  shows "config_ok (rc = CONFIG_ERR_PARSE) cfg"
proof (cases fo)
  case (Opened s)
  obtain sec c bad where f: "fold (config_line home) (fgets_lines s) (SEC_NONE, cfg0, False) = (sec, c, bad)"
    by (rule prod_cases3)
  from config_lines_ok [OF assms(1) f] have "config_ok bad (resolve_wmm_file etc c)" by (rule resolve_wmm_ok)
  with f assms(2) Opened show ?thesis
    using config_ok_later [of bad _ True] by (auto simp: config_load_def Let_def config_rcs split: if_splits)
next
  case NoEntry
  with assms show ?thesis
    using resolve_wmm_ok [of False cfg0 etc] by (auto simp: config_load_def config_rcs)
next
  case Unreadable
  with assms show ?thesis
    using resolve_wmm_ok [of False cfg0 etc] by (auto simp: config_load_def config_rcs)
qed

lemma config_load_open: "config_load home etc fo cfg = (CONFIG_ERR_OPEN, cfg') \<Longrightarrow> cfg' = resolve_wmm_file etc cfg"
  by (auto simp: config_load_def config_rcs Let_def
      split: fopened.splits prod.splits if_splits)

lemma config_load_resolved_ok:
  assumes "config_ok False cfg0" "config_load_resolved home etc fs sys explicit cfg0 n = (rc, cfg, loaded)"
  shows "config_ok (rc = CONFIG_ERR_PARSE) cfg"
proof (cases explicit)
  case (Some path)
  with assms show ?thesis
    by (auto simp: config_load_resolved_def split: prod.splits intro: config_load_ok)
next
  case None
  obtain rc1 c1 where l: "config_load home etc (fs sys) cfg0 = (rc1, c1)" by fastforce
  have ok1: "config_ok (rc1 = CONFIG_ERR_PARSE) c1" by (rule config_load_ok [OF assms(1) l])
  show ?thesis
  proof (cases "rc1 = CONFIG_ERR_OPEN")
    case False
    with None l assms(2) ok1 show ?thesis by (auto simp: config_load_resolved_def)
  next
    case True
    then have ok: "config_ok False c1" using ok1 by (simp add: config_rcs)
    have later: "config_ok b c1" for b using config_ok_later [OF ok, of b] by simp
    show ?thesis
      using None l True assms(2) later
      by (auto simp: config_load_resolved_def Let_def config_rcs
          split: prod.splits if_splits dest!: config_load_ok [OF ok])
  qed
qed

text \<open>C15: However a configuration was found and read, starting from the defaults, every field that a key can
  set is within the bounds of that key: a string fits, a port is 1 to 65535, a rate is positive, a noise
  density is greater than zero. The one exception is a sample rate that rounds to zero milli-Hertz: it is stored
  although its key is refused, and then the result is a parse error.\<close>

theorem config_load_in_bounds:
  assumes "(key, f, need) \<in> set (kv_rows sec)"
    and "config_load_resolved home etc fs sys explicit config_defaults n = (rc, cfg, loaded)"
  shows "holds need (cfg f) \<or> rc = CONFIG_ERR_PARSE \<and> need = NEED_POS_MHZ \<and> cfg f = Num 0"
  using config_ok_row [OF config_load_resolved_ok [OF config_ok_start assms(2)] assms(1)]
  by (auto simp: field_ok_def)

lemma config_load_in_bounds_witness:
  "holds (NEED_RANGE_INT 1 32000)
     (fst (snd (config_load_resolved None False (\<lambda>p. Opened (''[nmea]'' @ [CHR 0x0A] @ ''rate_hz = 70000'' @ [CHR 0x0A]))
       ''/etc/imud/imud.conf'' None config_defaults 256)) ''nmea_rate_hz'')"
proof -
  have row: "(''rate_hz'', ''nmea_rate_hz'', NEED_RANGE_INT 1 32000) \<in> set (kv_rows SEC_NMEA)"
    by (simp add: kv_nmea_def)
  show ?thesis
    using config_load_in_bounds [OF row surjective_pairing [THEN trans, OF arg_cong [of _ _ "Pair _", OF surjective_pairing]]]
    by simp
qed

section \<open>Bus descriptions\<close>

lemma default_buses: "config_defaults ''imu_bus_kind'' = Bus BUS_I2C" "config_defaults ''mag_bus_kind'' = Bus BUS_I2C"
  "config_defaults ''imu_spi_speed_hz'' = Num 0" "config_defaults ''mag_spi_speed_hz'' = Num 0"
  "config_defaults ''imu_addr'' = Num 0x6B"
  by (rule trans [OF config_defaults_lookup], rule trans [OF first_of_filter],
      simp add: words_of_tables first_word_def, simp add: defaults_tables)+

definition buses_ok :: "config \<Rightarrow> bool" where
  "buses_ok cfg \<longleftrightarrow> validate_bus cfg = 0"

lemma buses_ok_resolve [simp]: "buses_ok (resolve_wmm_file etc cfg) = buses_ok cfg"
  by (simp add: buses_ok_def validate_bus_def resolve_wmm_file_def)

lemma buses_ok_iff: "buses_ok cfg \<longleftrightarrow>
    (cfg ''imu_bus_kind'' = Bus BUS_SPI \<longrightarrow> cstr (cfg ''imu_spi_dev'') \<noteq> []) \<and>
    (cfg ''mag_bus_kind'' = Bus BUS_SPI \<longrightarrow> cstr (cfg ''mag_spi_dev'') \<noteq> []) \<and>
    0 \<le> cint (cfg ''imu_spi_speed_hz'') \<and> 0 \<le> cint (cfg ''mag_spi_speed_hz'')"
  by (auto simp: buses_ok_def validate_bus_def config_rcs Let_def)

lemma config_load_buses: "buses_ok cfg0 \<Longrightarrow> config_load home etc fo cfg0 = (rc, cfg) \<Longrightarrow> rc \<noteq> CONFIG_ERR_PARSE \<Longrightarrow> buses_ok cfg"
  by (auto simp: config_load_def Let_def split: fopened.splits prod.splits if_splits) (simp add: buses_ok_def [symmetric])

lemma config_load_open_buses: "buses_ok cfg0 \<Longrightarrow> config_load home etc fo cfg0 = (CONFIG_ERR_OPEN, cfg) \<Longrightarrow> buses_ok cfg"
  by (drule config_load_open) simp

lemma config_load_resolved_buses:
  assumes "buses_ok cfg0" "config_load_resolved home etc fs sys explicit cfg0 n = (rc, cfg, loaded)" "rc \<noteq> CONFIG_ERR_PARSE"
  shows "buses_ok cfg"
  using assms
  by (auto simp: config_load_resolved_def Let_def split: option.splits prod.splits if_splits
      dest: config_load_open_buses config_load_buses)

lemma i2c_addr_exact: "holds NEED_I2C_ADDR v \<Longrightarrow> uint (word_of_int (cint v) :: 8 word) = cint v \<and> cint v \<le> 0x7F"
  by (cases v) (simp_all add: uint_word_of_int)

lemma spi_hz_exact: "holds NEED_INT v \<Longrightarrow> 0 \<le> cint v \<Longrightarrow> uint (word_of_int (cint v) :: 32 word) = cint v"
  by (cases v) (simp_all add: uint_word_of_int)

lemma bus_rows: "(''i2c_addr'', ''imu_addr'', NEED_I2C_ADDR) \<in> set (kv_rows SEC_IMU)"
  "(''spi_speed_hz'', ''imu_spi_speed_hz'', NEED_INT) \<in> set (kv_rows SEC_IMU)"
  "(''bus'', ''imu_bus_kind'', NEED_BUS_KIND) \<in> set (kv_rows SEC_IMU)"
  "(''i2c_addr'', ''mag_addr'', NEED_I2C_ADDR) \<in> set (kv_rows SEC_MAG)"
  "(''spi_speed_hz'', ''mag_spi_speed_hz'', NEED_INT) \<in> set (kv_rows SEC_MAG)"
  "(''bus'', ''mag_bus_kind'', NEED_BUS_KIND) \<in> set (kv_rows SEC_MAG)"
  by (simp_all add: kv_imu_def kv_mag_def)

lemma cbus_spi: "cbus v = BUS_SPI \<longleftrightarrow> v = Bus BUS_SPI"
  by (cases v) auto

text \<open>A bus description that says what the fields say.\<close>

definition bus_exact :: "bus_spec \<Rightarrow> cval \<Rightarrow> cval \<Rightarrow> bool" where
  "bus_exact b addr hz \<longleftrightarrow>
     uint (i2c_addr b) = cint addr \<and> cint addr \<le> 0x7F \<and> uint (spi_hz b) = cint hz \<and>
     (kind b = BUS_SPI \<longrightarrow> node b \<noteq> [])"

text \<open>When a configuration loads without an error, starting from the defaults, the description of each sensor's bus
  is the one of the file: neither the address nor the clock is cut to a different value by its width, the
  address is a 7-bit one, and a sensor on SPI has a device node.\<close>

theorem bus_specs_exact:
  assumes "config_load_resolved home etc fs sys explicit config_defaults n = (rc, cfg, loaded)"
    and "rc \<noteq> CONFIG_ERR_PARSE"
  shows "bus_exact (config_imu_bus_spec cfg) (cfg ''imu_addr'') (cfg ''imu_spi_speed_hz'') \<and>
    bus_exact (config_mag_bus_spec cfg) (cfg ''mag_addr'') (cfg ''mag_spi_speed_hz'')"
proof -
  have buses: "buses_ok cfg"
    by (rule config_load_resolved_buses [OF _ assms]) (simp add: buses_ok_iff default_buses)
  have ok: "config_ok False cfg"
    using config_load_resolved_ok [OF config_ok_start assms(1)] assms(2) by simp
  have h: "(key, f, need) \<in> set (kv_rows sec) \<Longrightarrow> holds need (cfg f)" for key f need sec
    using config_ok_row [OF ok] by (fastforce simp: field_ok_def)
  note rows = bus_rows [THEN h]
  show ?thesis
    using i2c_addr_exact [OF rows(1)] i2c_addr_exact [OF rows(4)] spi_hz_exact [OF rows(2)] spi_hz_exact [OF rows(5)] buses
    by (simp add: bus_exact_def config_imu_bus_spec_def config_mag_bus_spec_def buses_ok_iff cbus_spi)
qed

lemma no_file: "config_load_resolved None etc (\<lambda>p. NoEntry) sys (Some p) cfg n =
    (CONFIG_ERR_OPEN, resolve_wmm_file etc cfg, take (n - 1) p)"
  by (simp add: config_load_resolved_def config_load_def)

lemma bus_specs_exact_witness:
  "bus_exact (config_imu_bus_spec (resolve_wmm_file True config_defaults)) (Num 0x6B) (Num 0)"
proof -
  have f: "resolve_wmm_file True config_defaults ''imu_addr'' = Num 0x6B"
    "resolve_wmm_file True config_defaults ''imu_spi_speed_hz'' = Num 0"
    by (simp_all add: resolve_wmm_file_def default_buses)
  from bus_specs_exact [OF no_file [of True "[]" "[]" config_defaults 2]] show ?thesis
    by (simp add: f config_rcs)
qed

section \<open>Mount rotations\<close>

lemma rotation_err_zero:
  assumes "a * a + (d * d + g * g) = 1" "b * b + (e * e + h * h) = 1" "c * c + (f * f + i * i) = 1"
    and "a * b + (d * e + g * h) = 0" "a * c + (d * f + g * i) = 0" "b * c + (e * f + h * i) = 0"
  shows "rotation_err [[a, b, c], [d, e, f], [g, h, i]] = 0"
  using assms
  by (simp add: rotation_err_def upt_rec mult.commute [of b a] mult.commute [of e d] mult.commute [of h g]
      mult.commute [of c a] mult.commute [of f d] mult.commute [of i g] mult.commute [of c b] mult.commute [of f e]
      mult.commute [of i h])

text \<open>The angles of a mount rotation, typed in or of a preset, give a matrix that passes the test for a rotation: it is
  orthonormal without error, and its determinant is 1.\<close>

theorem euler_rotation_valid:
  "rotation_err (euler_deg_to_rot e) = 0 \<and> det3 (euler_deg_to_rot e) = 1 \<and> validate_rotation (euler_deg_to_rot e)"
proof -
  define a where "a = of_rat (e ! 0) * (pi / 180)"
  define b where "b = of_rat (e ! 1) * (pi / 180)"
  define c where "c = of_rat (e ! 2) * (pi / 180)"
  obtain cr sr cp sp cy sy where t: "cos a = cr" "sin a = sr" "cos b = cp" "sin b = sp" "cos c = cy" "sin c = sy" by blast
  have n: "cr\<^sup>2 + sr\<^sup>2 = 1" "cp\<^sup>2 + sp\<^sup>2 = 1" "cy\<^sup>2 + sy\<^sup>2 = 1"
    using sin_cos_squared_add [of a] sin_cos_squared_add [of b] sin_cos_squared_add [of c] t by simp_all
  define R where "R = euler_deg_to_rot e"
  have R: "R = [[cy * cp, cy * sp * sr - sy * cr, cy * sp * cr + sy * sr],
      [sy * cp, sy * sp * sr + cy * cr, sy * sp * cr - cy * sr], [- sp, cp * sr, cp * cr]]"
    unfolding R_def euler_deg_to_rot_def a_def [symmetric] b_def [symmetric] c_def [symmetric] Let_def t
    by (simp add: mat_mul3_def upt_rec)
  have err: "rotation_err R = 0"
    unfolding R by (rule rotation_err_zero) (use n in algebra)+
  have det: "det3 R = 1" unfolding det3_def R using n by simp algebra
  show ?thesis using err det by (simp add: R_def [symmetric] validate_rotation_def)
qed

section \<open>Written values\<close>

definition word_char :: "char \<Rightarrow> bool" where
  "word_char c \<longleftrightarrow> (let n = of_char c :: nat in 48 \<le> n \<and> n \<le> 57 \<or> n = 95 \<or> 97 \<le> n)"

lemma word_char_not: "word_char c \<Longrightarrow> \<not> isspace c \<and> c \<noteq> CHR 0x22 \<and> c \<noteq> CHR ''#'' \<and> c \<noteq> CHR ''='' \<and> c \<noteq> CHR ''[''"
  by (auto simp: word_char_def isspace_def)

lemma keys_plain: "list_all (\<lambda>(key, _, _). key \<noteq> [] \<and> list_all word_char key) (kv_rows sec)"
  by (induct sec; unfold kv_rows.simps kv_tables list.pred_inject prod.case; intro conjI list.pred_inject(1);
      simp add: word_char_def)

lemma row_key:
  assumes "map_of (kv_rows sec) key = Some r"
  shows "key \<noteq> []" "\<And>c. c \<in> set key \<Longrightarrow> word_char c"
  using map_of_SomeD [OF assms] keys_plain [of sec] by (cases r; fastforce simp: list_all_iff)+

lemma lstrip_spaces: "list_all isspace w \<Longrightarrow> lstrip (w @ s) = lstrip s"
  by (simp add: lstrip_def dropWhile_append2 list_all_iff)

lemma rstrip_all: "list_all isspace w \<Longrightarrow> rstrip w = []"
  by (simp add: rstrip_def list_all_iff)

lemma split_at_char:
  "c \<notin> set x \<Longrightarrow> takeWhile (\<lambda>d. d \<noteq> c) (x @ c # y) = x" "c \<notin> set x \<Longrightarrow> dropWhile (\<lambda>d. d \<noteq> c) (x @ c # y) = c # y"
  by (induction x) auto

lemma rstrip_keep: "\<not> isspace c \<Longrightarrow> rstrip (x @ c # y) = x @ c # rstrip y"
proof -
  assume c: "\<not> isspace c"
  show ?thesis
  proof (cases "list_all isspace y")
    case True
    have "dropWhile isspace (rev y @ c # rev x) = dropWhile isspace (c # rev x)"
      by (rule dropWhile_append2) (use True in \<open>simp add: list_all_iff\<close>)
    with c rstrip_all [OF True] show ?thesis by (simp add: rstrip_def)
  next
    case False
    then obtain z where "z \<in> set (rev y)" "\<not> isspace z" by (auto simp: list_all_iff)
    then show ?thesis by (simp add: rstrip_def dropWhile_append1)
  qed
qed

lemma rstrip_spaces: "list_all isspace w \<Longrightarrow> rstrip (s @ w) = rstrip s"
  by (rule rstrip_append_space)

lemma spaces_plain: "list_all isspace w \<Longrightarrow> CHR 0x22 \<notin> set w \<and> CHR ''#'' \<notin> set w \<and> CHR ''='' \<notin> set w"
proof -
  have "\<not> isspace (CHR 0x22)" "\<not> isspace (CHR ''#'')" "\<not> isspace (CHR ''='')" by (simp_all add: isspace_def)
  then show "list_all isspace w \<Longrightarrow> ?thesis" unfolding list_all_iff by blast
qed

lemma copy_str_quoted:
  "length s < n \<Longrightarrow> take 2 s \<noteq> ''~/'' \<Longrightarrow> copy_str home (CHR 0x22 # s @ [CHR 0x22]) n = COPY_OK s"
  by (simp add: copy_str_def expand_tilde_def)

definition quoted_line :: "string \<Rightarrow> string \<Rightarrow> string \<Rightarrow> string \<Rightarrow> string \<Rightarrow> string \<Rightarrow> string \<Rightarrow> string" where
  "quoted_line w1 key w2 w3 s w4 tail =
     w1 @ key @ w2 @ CHR ''='' # w3 @ CHR 0x22 # s @ CHR 0x22 # w4 @ tail"

lemma quoted_line_text:
  assumes key: "key \<noteq> []" "\<And>c. c \<in> set key \<Longrightarrow> word_char c"
    and w: "list_all isspace w1" "list_all isspace w2" "list_all isspace w3" "list_all isspace w4"
    and s: "CHR 0x22 \<notin> set s" and tail: "tail = [] \<or> hd tail = CHR ''#''"
  defines "p \<equiv> rstrip (lstrip (quoted_line w1 key w2 w3 s w4 tail))"
  shows "p \<noteq> []" "word_char (hd p)"
    "rstrip (strip_comment p) = key @ w2 @ CHR ''='' # w3 @ CHR 0x22 # s @ [CHR 0x22]"
proof -
  obtain k ks where k: "key = k # ks" using key(1) by (cases key) auto
  then have kc: "word_char k" using key(2) by simp
  let ?body = "key @ w2 @ CHR ''='' # w3 @ CHR 0x22 # s"
  have l: "lstrip (quoted_line w1 key w2 w3 s w4 tail) = ?body @ CHR 0x22 # w4 @ tail"
    using word_char_not [OF kc] unfolding quoted_line_def lstrip_spaces [OF w(1)] k by (simp add: lstrip_def)
  have q: "\<not> isspace (CHR 0x22)" by (simp add: isspace_def)
  have p: "p = ?body @ CHR 0x22 # rstrip (w4 @ tail)"
    unfolding p_def l by (rule rstrip_keep [OF q])
  show "p \<noteq> []" "word_char (hd p)" using kc by (simp_all add: p k)
  have plain: "CHR 0x22 \<notin> set (key @ w2 @ CHR ''='' # w3)" "CHR ''#'' \<notin> set (key @ w2 @ CHR ''='' # w3)"
    using spaces_plain [OF w(2)] spaces_plain [OF w(3)] key(2) word_char_not by fastforce+
  have rest: "strip_comment_from False (rstrip (w4 @ tail)) \<in> {[], w4}"
  proof (cases tail)
    case Nil
    then show ?thesis using rstrip_all [OF w(4)] by simp
  next
    case (Cons h t)
    then have "rstrip (w4 @ tail) = w4 @ CHR ''#'' # rstrip t" using tail rstrip_keep [of "CHR ''#''"] by (simp add: isspace_def)
    then show ?thesis using strip_comment_from_plain spaces_plain [OF w(4)] by simp
  qed
  have "strip_comment p = ?body @ CHR 0x22 # strip_comment_from False (rstrip (w4 @ tail))"
    using strip_comment_from_plain [OF plain, of False] strip_comment_from_quoted [OF s]
    by (simp add: strip_comment_def p)
  with rest have "strip_comment p = ?body @ CHR 0x22 # [] \<or> strip_comment p = ?body @ CHR 0x22 # w4" by auto
  then have "rstrip (strip_comment p) = ?body @ CHR 0x22 # []"
    using rstrip_keep [OF q, of ?body] rstrip_all [OF w(4)] rstrip_all [of "[]"] by auto
  then show "rstrip (strip_comment p) = key @ w2 @ CHR ''='' # w3 @ CHR 0x22 # s @ [CHR 0x22]" by simp
qed

text \<open>A string that fits its field is read back as it was written between quotes, whatever it contains (a \<open>#\<close>
  too), with any white space around key and value and with any comment behind; the line changes that field and
  nothing else.\<close>

theorem config_quoted_value:
  assumes row: "map_of (kv_rows sec) key = Some (f, NEED_STR n)"
    and w: "list_all isspace w1" "list_all isspace w2" "list_all isspace w3" "list_all isspace w4"
    and s: "CHR 0x22 \<notin> set s" "length s < n" "take 2 s \<noteq> ''~/''" and tail: "tail = [] \<or> hd tail = CHR ''#''"
  shows "config_line home (quoted_line w1 key w2 w3 s w4 tail) (sec, cfg, bad) = (sec, cfg(f := Str s), bad)"
proof -
  note key = row_key [OF row]
  note t = quoted_line_text [OF key w s(1) tail]
  have nk: "CHR ''='' \<notin> set (key @ w2)" using key(2) word_char_not spaces_plain [OF w(2)] by fastforce
  let ?v = "CHR 0x22 # s @ [CHR 0x22]"
  have k: "lstrip (rstrip (key @ w2)) = key"
  proof -
    have "\<not> isspace (hd key)" "\<not> isspace (last key)" using key word_char_not by simp_all
    then show ?thesis using key(1) by (simp add: rstrip_spaces [OF w(2)] rstrip_no_space lstrip_no_space)
  qed
  have v: "rstrip (lstrip (w3 @ ?v)) = ?v"
    by (simp add: lstrip_spaces [OF w(3)] lstrip_no_space rstrip_no_space isspace_def)
  have tw: "takeWhile (\<lambda>c. c \<noteq> CHR ''='') (key @ w2 @ CHR ''='' # w3 @ ?v) = key @ w2"
    "dropWhile (\<lambda>c. c \<noteq> CHR ''='') (key @ w2 @ CHR ''='' # w3 @ ?v) = CHR ''='' # w3 @ ?v"
    using split_at_char [OF nk, of "w3 @ ?v"] by simp_all
  have a: "apply_kv home cfg sec key ?v = (True, cfg(f := Str s))"
    using row copy_str_quoted [OF s(2,3), of home] by (auto simp: apply_kv_def kv_effect_def need_str_def)
  show ?thesis
    using t(1) word_char_not [OF t(2)] key(1)
    by (simp add: config_line_def t(3) tw k v a del: append.simps) 
qed

lemma config_quoted_value_witness:
  "config_line None ''  i2c_bus =\"/dev/i2c#1\"  # the \"second\" bus'' (SEC_DEVICE, config_defaults, False) =
     (SEC_DEVICE, config_defaults(''i2c_bus'' := Str ''/dev/i2c#1''), False)"
proof -
  have row: "map_of (kv_rows SEC_DEVICE) ''i2c_bus'' = Some (''i2c_bus'', NEED_STR 64)" by (simp add: kv_device_def)
  have w: "list_all isspace ''  ''" "list_all isspace '' ''" "list_all isspace []" by (simp_all add: isspace_def)
  show ?thesis
    using config_quoted_value [OF row w(1,2,3,1), of "''/dev/i2c#1''" "''# the \"second\" bus''" None config_defaults False]
    by (simp add: quoted_line_def)
qed

section \<open>Bad lines\<close>

text \<open>A line with its newline that \<open>fgets\<close> reads in one piece.\<close>

definition whole_line :: "string \<Rightarrow> bool" where
  "whole_line l \<longleftrightarrow> l \<noteq> [] \<and> last l = CHR 0x0A \<and> CHR 0x0A \<notin> set (butlast l) \<and> CHR 0x00 \<notin> set l \<and> length l \<le> 511"

lemma fgets_whole_line: "whole_line l \<Longrightarrow> fgets_lines (l @ s) = l # fgets_lines s"
proof -
  assume w: "whole_line l"
  then obtain k where l: "l = k @ [CHR 0x0A]" and k: "CHR 0x0A \<notin> set k" by (cases l rule: rev_cases) (auto simp: whole_line_def)
  have span: "line_span (l @ s) = length l"
    using w split_at_char(1) [OF k, of s] by (simp add: line_span_def l whole_line_def)
  have "takeWhile (\<lambda>c. c \<noteq> CHR 0x00) l = l" using w by (auto simp: whole_line_def takeWhile_eq_all_conv)
  with span l show ?thesis by (subst fgets_lines.simps) simp
qed

lemma fgets_whole_lines: "list_all whole_line ls \<Longrightarrow> fgets_lines (concat ls) = ls"
  by (induction ls) (simp_all add: fgets_whole_line fgets_lines.simps [of "[]"])

definition rate_fields :: "string set" where
  "rate_fields = {''imu_odr_mhz'', ''mag_odr_mhz''}"

lemma rate_rows: "list_all (\<lambda>(_, f, n). n = NEED_POS_MHZ \<longrightarrow> f \<in> rate_fields) (kv_rows sec)"
  by (induct sec; unfold kv_rows.simps kv_tables list.pred_inject prod.case; intro conjI list.pred_inject(1);
      simp add: rate_fields_def)

text \<open>Two states of the loop in the same section that differ in the sample rates at most.\<close>

definition alike :: "section_t \<times> config \<times> bool \<Rightarrow> section_t \<times> config \<times> bool \<Rightarrow> bool" where
  "alike st st' \<longleftrightarrow> fst st = fst st' \<and> (\<forall>f. f \<notin> rate_fields \<longrightarrow> fst (snd st) f = fst (snd st') f)"

text \<open>What a line does, whatever the configuration is: nothing, a new section, or a key.\<close>

lemma config_line_shape:
  obtains "\<And>sec cfg bad. config_line home l (sec, cfg, bad) = (sec, cfg, bad)"
  | s where "\<And>sec cfg bad. config_line home l (sec, cfg, bad) = (s, cfg, bad)"
  | key val where "\<And>sec cfg bad. config_line home l (sec, cfg, bad) =
      (sec, snd (apply_kv home cfg sec key val), bad \<or> \<not> fst (apply_kv home cfg sec key val))"
proof -
  define p where "p = rstrip (lstrip l)"
  define q where "q = rstrip (strip_comment p)"
  define key where "key = lstrip (rstrip (takeWhile (\<lambda>c. c \<noteq> CHR ''='') q))"
  define val where "val = rstrip (lstrip (drop 1 (dropWhile (\<lambda>c. c \<noteq> CHR ''='') q)))"
  note d = config_line_def Let_def p_def [symmetric] q_def [symmetric] key_def [symmetric] val_def [symmetric] prod.case
  consider "p = [] \<or> hd p = CHR ''#''" | "\<not> (p = [] \<or> hd p = CHR ''#'')" "hd p = CHR ''[''"
    | "\<not> (p = [] \<or> hd p = CHR ''#'')" "hd p \<noteq> CHR ''[''" "CHR ''='' \<notin> set q \<or> key = []"
    | "\<not> (p = [] \<or> hd p = CHR ''#'')" "hd p \<noteq> CHR ''[''" "CHR ''='' \<in> set q" "key \<noteq> []" by blast
  then show thesis
  proof cases
    case 1 then show thesis by (intro that(1)) (simp only: d if_True)
  next
    case 2 then show thesis by (intro that(2) [of "parse_section q"]) (simp add: d)
  next
    case 3 then show thesis by (intro that(1)) (auto simp only: d if_True if_False split: if_splits)
  next
    case 4
    show thesis by (rule that(3) [of key val], unfold d) (use 4 in \<open>simp split: prod.split\<close>)
  qed
qed

lemma alike_set_fields:
  "\<forall>f. f \<notin> rate_fields \<longrightarrow> c f = d f \<Longrightarrow> f \<notin> rate_fields \<Longrightarrow> set_fields us c f = set_fields us d f"
  by (induction us c arbitrary: d rule: set_fields.induct) auto

lemma alike_apply:
  "\<forall>f. f \<notin> rate_fields \<longrightarrow> c f = d f \<Longrightarrow> f \<notin> rate_fields \<Longrightarrow>
     snd (apply_kv home c sec key val) f = snd (apply_kv home d sec key val) f"
  by (auto simp: apply_kv_def alike_set_fields split: prod.split)

lemma alike_line: "alike st st' \<Longrightarrow> alike (config_line home l st) (config_line home l st')"
proof -
  assume a: "alike st st'"
  obtain sec c b where st: "st = (sec, c, b)" by (rule prod_cases3)
  obtain sec' d b' where st': "st' = (sec', d, b')" by (rule prod_cases3)
  from a have cd: "sec' = sec" "\<forall>f. f \<notin> rate_fields \<longrightarrow> c f = d f" by (auto simp: alike_def st st')
  from config_line_shape [of home l] show ?thesis
  proof cases
    case (3 key val)
    then show ?thesis unfolding st st' cd(1) 3 alike_def using alike_apply [OF cd(2)] by simp
  qed (simp_all add: alike_def st st' cd)
qed

lemma alike_lines: "alike st st' \<Longrightarrow> alike (fold (config_line home) ls st) (fold (config_line home) ls st')"
  by (induction ls arbitrary: st st') (simp_all add: alike_line)

lemma bad_line_stays: "snd (snd st) \<Longrightarrow> snd (snd (config_line home l st))"
  by (cases st rule: prod_cases3; rule config_line_shape [of home l]) simp_all

lemma bad_stays: "snd (snd st) \<Longrightarrow> snd (snd (fold (config_line home) ls st))"
  by (induction ls arbitrary: st) (simp_all add: bad_line_stays)

lemma refused_key:
  assumes "kv_effect home sec key val = (False, us)"
  shows "us = [] \<or> (\<exists>f v. us = [(f, v)] \<and> f \<in> rate_fields)"
proof (cases "sec = SEC_MOUNT")
  case True
  with assms show ?thesis
    by (auto simp: kv_effect_def apply_mount_def Let_def split: if_splits option.splits copy_rc.splits)
next
  case False
  with assms obtain f n where r: "map_of (kv_rows sec) key = Some (f, n)" and a: "need_apply home f n val = (False, us)"
    by (auto simp: kv_effect_def split: option.splits)
  have mhz: "n = NEED_POS_MHZ \<Longrightarrow> f \<in> rate_fields"
    using map_of_SomeD [OF r] rate_rows [of sec] by (auto simp: list_all_iff)
  from a show ?thesis
    by (cases n) (auto simp: mhz need_str_def need_int_def need_dbl_def Let_def
        split: option.splits if_splits copy_rc.splits parse_int_rc.splits)
qed

lemma refused_line:
  assumes "snd (snd (config_line home l (sec, cfg, False)))"
  shows "alike (config_line home l (sec, cfg, b)) (sec, cfg, b) \<and> snd (snd (config_line home l (sec, cfg, b)))"
  using config_line_shape [of home l]
proof cases
  case (3 key val)
  obtain ok us where e: "kv_effect home sec key val = (ok, us)" by fastforce
  with assms have "\<not> ok" by (simp add: 3 apply_kv_def)
  with refused_key e have "us = [] \<or> (\<exists>f v. us = [(f, v)] \<and> f \<in> rate_fields)" by simp
  with \<open>\<not> ok\<close> show ?thesis by (auto simp: 3 alike_def apply_kv_def e)
qed (use assms in auto)

lemma resolve_alike: "\<forall>f. f \<notin> rate_fields \<longrightarrow> c f = d f \<Longrightarrow> f \<notin> rate_fields \<Longrightarrow> resolve_wmm_file etc c f = resolve_wmm_file etc d f"
  by (auto simp: resolve_wmm_file_def rate_fields_def)

text \<open>A line whose value is refused makes the load a parse error and does nothing else, except that it may have touched a
  sample rate: every other field is what it is when the line is left out, so the lines before and behind it count.\<close>

theorem config_bad_line_alone:
  assumes "list_all whole_line (ls @ bad # ls')"
    and "fold (config_line home) ls (SEC_NONE, cfg, False) = (sec, cfg1, bad1)"
    and "snd (snd (config_line home bad (sec, cfg1, False)))"
    and "config_load home etc (Opened (concat (ls @ bad # ls'))) cfg = (rc, with_bad)"
    and "config_load home etc (Opened (concat (ls @ ls'))) cfg = (rc', without)"
  shows "rc = CONFIG_ERR_PARSE \<and> (\<forall>f. f \<notin> rate_fields \<longrightarrow> with_bad f = without f)"
proof -
  let ?a = "fold (config_line home) ls' (config_line home bad (sec, cfg1, bad1))"
  let ?b = "fold (config_line home) ls' (sec, cfg1, bad1)"
  have alike: "alike ?a ?b" by (rule alike_lines) (use refused_line [OF assms(3)] in blast)
  have bad: "snd (snd ?a)" by (rule bad_stays) (use refused_line [OF assms(3)] in blast)
  have f: "fgets_lines (concat (ls @ bad # ls')) = ls @ bad # ls'" "fgets_lines (concat (ls @ ls')) = ls @ ls'"
    by (rule fgets_whole_lines, use assms(1) in simp)+
  obtain s c b where a: "?a = (s, c, b)" by (rule prod_cases3)
  obtain s' d b' where b: "?b = (s', d, b')" by (rule prod_cases3)
  have "with_bad = resolve_wmm_file etc c" "rc = CONFIG_ERR_PARSE"
    using assms(4) a bad unfolding config_load_def fopened.case f by (auto simp: assms(2) Let_def split: if_splits)
  moreover have "without = resolve_wmm_file etc d"
    using assms(5) b unfolding config_load_def fopened.case f by (auto simp: assms(2) Let_def split: if_splits)
  ultimately show ?thesis using alike resolve_alike [of c d] by (auto simp: a b alike_def)
qed

definition nmea_lines :: "string list" where
  "nmea_lines = [''[nmea]'' @ [CHR 0x0A], ''rate_hz = fast'' @ [CHR 0x0A], ''enabled = true'' @ [CHR 0x0A]]"

lemma config_bad_line_alone_witness:
  "fst (config_load None True (Opened (concat nmea_lines)) config_defaults) = CONFIG_ERR_PARSE \<and>
     snd (config_load None True (Opened (concat nmea_lines)) config_defaults) ''nmea_enabled'' =
     snd (config_load None True (Opened (concat [nmea_lines ! 0, nmea_lines ! 2])) config_defaults) ''nmea_enabled''"
proof -
  have l: "list_all whole_line ([nmea_lines ! 0] @ nmea_lines ! 1 # [nmea_lines ! 2])"
    by (simp add: nmea_lines_def whole_line_def)
  have f: "fold (config_line None) [nmea_lines ! 0] (SEC_NONE, config_defaults, False) = (SEC_NMEA, config_defaults, False)"
    by (simp add: nmea_lines_def config_line_def lstrip_def rstrip_def isspace_def strip_comment_def Let_def
        parse_section_def section_names_def)
  have b: "snd (snd (config_line None (nmea_lines ! 1) (SEC_NMEA, config_defaults, False)))"
    by (simp add: nmea_lines_def config_line_def lstrip_def rstrip_def isspace_def strip_comment_def Let_def
        apply_kv_def kv_effect_def kv_nmea_def need_int_def parse_int_def strtol0_def split_sign_def hex_prefix_def
        is_digit_def digit_val_def tolower_def)
  have n: "''nmea_enabled'' \<notin> rate_fields" by (simp add: rate_fields_def)
  have t: "[nmea_lines ! 0] @ nmea_lines ! 1 # [nmea_lines ! 2] = nmea_lines" "[nmea_lines ! 0] @ [nmea_lines ! 2] = [nmea_lines ! 0, nmea_lines ! 2]"
    by (simp_all add: nmea_lines_def)
  show ?thesis
    using config_bad_line_alone [OF l f b surjective_pairing surjective_pairing] n unfolding t by blast
qed

section \<open>Reloading\<close>

lemma fold_assign: "fold (\<lambda>f d. d(f := src f)) fs dst f = (if f \<in> set fs then src f else dst f)"
  by (induction fs arbitrary: dst) auto

text \<open>A reload takes the fields of the new configuration that may change while running, and no other: the bounds
  stay, and so do the descriptions of the buses.\<close>

lemma config_apply_hot_field: "config_apply_hot dst src f = (if f \<in> set hot_fields then src f else dst f)"
  by (simp add: config_apply_hot_def fold_assign)

lemma config_apply_hot_ok: "config_ok bad dst \<Longrightarrow> config_ok bad src \<Longrightarrow> config_ok bad (config_apply_hot dst src)"
  by (rule config_okI) (simp add: config_apply_hot_field config_ok_row)

lemma config_apply_hot_buses:
  "config_imu_bus_spec (config_apply_hot dst src) = config_imu_bus_spec dst"
  "config_mag_bus_spec (config_apply_hot dst src) = config_mag_bus_spec dst"
  by (simp_all add: config_imu_bus_spec_def config_mag_bus_spec_def config_apply_hot_field hot_fields_def)

text \<open>The file in the system directory decides whenever it exists.\<close>

lemma config_load_system_file:
  "fs sys \<noteq> NoEntry \<Longrightarrow> config_load_resolved home etc fs sys None cfg n =
     (case config_load home etc (fs sys) cfg of (rc, cfg) \<Rightarrow> (rc, cfg, take (n - 1) sys))"
  by (auto simp: config_load_resolved_def config_load_def config_rcs Let_def split: prod.split fopened.split)

end
