(* ===== verification/Ieee.thy ===== *)
theory Ieee
  imports ConfigText
begin

text \<open>
  Single precision as the drivers compute with it: a \<open>float\<close> is its 32-bit pattern, and an operation decodes its
  operands, computes exactly and rounds to nearest even. The sign of a zero is kept; every NaN is one pattern.
\<close>

section \<open>Values and patterns\<close>

datatype fl = Fin bool rat | Inf bool | NaN

definition f32_dec :: "f32 \<Rightarrow> fl" where
  "f32_dec w =
     (let s = unat w \<ge> 2 ^ 31; n = unat w mod 2 ^ 31; e = n div 2 ^ 23; m = n mod 2 ^ 23
      in if e = 255 then (if m = 0 then Inf s else NaN)
         else if e = 0 then Fin s (of_nat m * 2 powi (- 149))
         else Fin s (of_nat (m + 2 ^ 23) * 2 powi (int e - 150)))"

text \<open>The exponent of the last bit of a positive number's significand.\<close>

definition f32_exp :: "rat \<Rightarrow> int" where
  "f32_exp q =
     (let (a, b) = quotient_of q; k = int (nat_bits (nat a)) - int (nat_bits (nat b));
          l = (if 2 powi k \<le> q then k else k - 1)
      in max (- 149) (l - 23))"

definition f32_sign :: "bool \<Rightarrow> nat \<Rightarrow> f32" where
  "f32_sign s n = word_of_nat (n + (if s then 2 ^ 31 else 0))"

fun f32_enc :: "fl \<Rightarrow> f32" where
  "f32_enc NaN = 0x7FC00000"
| "f32_enc (Inf s) = f32_sign s 0x7F800000"
| "f32_enc (Fin s q) =
     (if q = 0 then f32_sign s 0
      else let e = f32_exp q; n = nat ((e + 149) * 2 ^ 23 + round_even (q / 2 powi e))
           in f32_sign s (if n \<ge> 0x7F800000 then 0x7F800000 else n))"

section \<open>Arithmetic\<close>

fun fl_neg :: "fl \<Rightarrow> fl" where
  "fl_neg (Fin s q) = Fin (\<not> s) q"
| "fl_neg (Inf s) = Inf (\<not> s)"
| "fl_neg NaN = NaN"

fun fl_mul :: "fl \<Rightarrow> fl \<Rightarrow> fl" where
  "fl_mul (Fin s a) (Fin t b) = Fin (s \<noteq> t) (a * b)"
| "fl_mul (Fin s a) (Inf t) = (if a = 0 then NaN else Inf (s \<noteq> t))"
| "fl_mul (Inf s) (Fin t b) = (if b = 0 then NaN else Inf (s \<noteq> t))"
| "fl_mul (Inf s) (Inf t) = Inf (s \<noteq> t)"
| "fl_mul NaN y = NaN"
| "fl_mul x NaN = NaN"

definition fl_val :: "bool \<Rightarrow> rat \<Rightarrow> rat" where
  "fl_val s q = (if s then - q else q)"

fun fl_add :: "fl \<Rightarrow> fl \<Rightarrow> fl" where
  "fl_add (Fin s a) (Fin t b) =
     (let v = fl_val s a + fl_val t b in if v = 0 then Fin (s \<and> t) 0 else Fin (v < 0) \<bar>v\<bar>)"
| "fl_add (Inf s) (Inf t) = (if s = t then Inf s else NaN)"
| "fl_add (Inf s) (Fin t b) = Inf s"
| "fl_add (Fin s a) (Inf t) = Inf t"
| "fl_add NaN y = NaN"
| "fl_add x NaN = NaN"

fun fl_div :: "fl \<Rightarrow> fl \<Rightarrow> fl" where
  "fl_div (Fin s a) (Fin t b) = (if b = 0 then if a = 0 then NaN else Inf (s \<noteq> t) else Fin (s \<noteq> t) (a / b))"
| "fl_div (Fin s a) (Inf t) = Fin (s \<noteq> t) 0"
| "fl_div (Inf s) (Fin t b) = Inf (s \<noteq> t)"
| "fl_div (Inf s) (Inf t) = NaN"
| "fl_div NaN y = NaN"
| "fl_div x NaN = NaN"

definition f32_neg :: "f32 \<Rightarrow> f32" where "f32_neg x = x XOR 0x80000000"
definition f32_mul :: "f32 \<Rightarrow> f32 \<Rightarrow> f32" where "f32_mul x y = f32_enc (fl_mul (f32_dec x) (f32_dec y))"
definition f32_add :: "f32 \<Rightarrow> f32 \<Rightarrow> f32" where "f32_add x y = f32_enc (fl_add (f32_dec x) (f32_dec y))"
definition f32_div :: "f32 \<Rightarrow> f32 \<Rightarrow> f32" where "f32_div x y = f32_enc (fl_div (f32_dec x) (f32_dec y))"
definition f32_of_rat :: "rat \<Rightarrow> f32" where "f32_of_rat q = f32_enc (Fin (q < 0) \<bar>q\<bar>)"
definition f32_of_int :: "int \<Rightarrow> f32" where "f32_of_int i = f32_of_rat (of_int i)"

section \<open>Encoding a value and decoding it rounds it\<close>

lemma f32_dec_sign:
  assumes "n < 2 ^ 31"
  shows "f32_dec (f32_sign s n) =
     (if n div 2 ^ 23 = 255 then (if n mod 2 ^ 23 = 0 then Inf s else NaN)
      else if n div 2 ^ 23 = 0 then Fin s (of_nat (n mod 2 ^ 23) * 2 powi (- 149))
      else Fin s (of_nat (n mod 2 ^ 23 + 2 ^ 23) * 2 powi (int (n div 2 ^ 23) - 150)))"
proof -
  have u: "unat (f32_sign s n) = n + (if s then 2 ^ 31 else 0)"
    using assms by (cases s) (simp_all add: f32_sign_def unat_of_nat take_bit_eq_mod del: of_nat_add of_nat_numeral)
  have "(unat (f32_sign s n) \<ge> 2 ^ 31) = s" "unat (f32_sign s n) mod 2 ^ 31 = n"
    using assms unfolding u by simp_all
  then show ?thesis unfolding f32_dec_def Let_def by simp
qed

lemma f32_exp_ge: "- 149 \<le> f32_exp q"
  by (simp add: f32_exp_def Let_def split: prod.split)

lemma to_float_parts:
  assumes "0 < q"
  defines "e \<equiv> f32_exp q" and "m \<equiv> round_even (q / 2 powi f32_exp q)"
  shows "to_float q = (if of_int m * 2 powi e \<ge> (2 :: rat) powi 128 then None else Some (of_int m * 2 powi e))"
    and "0 \<le> m" "m \<le> 2 ^ 24" "e > - 149 \<Longrightarrow> 2 ^ 23 \<le> m"
proof -
  obtain a b where q: "quotient_of q = (a, b)" by fastforce
  define k where "k = int (nat_bits (nat a)) - int (nat_bits (nat b))"
  define l where "l = (if 2 powi k \<le> q then k else k - 1)"
  have e: "e = max (- 149) (l - 23)" unfolding e_def f32_exp_def q Let_def k_def l_def by simp
  have l: "2 powi l \<le> q" "q < 2 powi (l + 1)" using binade_of [OF assms(1) q k_def l_def] by simp_all
  have "\<bar>q\<bar> = q" "(q = 0) = False" "\<And>y. sgn q * y = y" using assms(1) by simp_all
  then show "to_float q = (if of_int m * 2 powi e \<ge> (2 :: rat) powi 128 then None else Some (of_int m * 2 powi e))"
    unfolding to_float_def fp_round_def Let_def m_def e_def [symmetric] e
    by (simp only: q prod.case if_False k_def [symmetric] l_def [symmetric]) simp
  have pos: "(0 :: rat) < 2 powi e" by simp
  have "q < 2 powi (e + 24)"
  proof -
    have "(2 :: rat) powi (l + 1) \<le> 2 powi (e + 24)" unfolding e by (intro power_int_increasing) simp_all
    with l(2) show ?thesis by linarith
  qed
  then have "q / 2 powi e \<le> of_int (2 ^ 24)" using pos by (simp add: power_int_add field_simps)
  moreover have "of_int 0 \<le> q / 2 powi e" using assms(1) pos by simp
  ultimately show "0 \<le> m" "m \<le> 2 ^ 24" using round_even_between unfolding m_def e_def by blast+
  assume "e > - 149"
  then have el: "l = e + 23" unfolding e by (simp add: max_def split: if_splits)
  have "of_int (2 ^ 23) \<le> q / 2 powi e" using l(1) pos unfolding el by (simp add: power_int_add field_simps)
  moreover have "q / 2 powi e \<le> of_int \<lceil>q / 2 powi e\<rceil>" by simp
  ultimately show "2 ^ 23 \<le> m" using round_even_between unfolding m_def e_def by blast
qed

theorem f32_dec_enc:
  assumes "0 \<le> q"
  shows "f32_dec (f32_enc (Fin s q)) = (case to_float q of Some v \<Rightarrow> Fin s v | None \<Rightarrow> Inf s)"
proof (cases "q = 0")
  case True
  then show ?thesis using f32_dec_sign [of 0 s] by (simp add: to_float_def fp_round_def)
next
  case False
  then have q: "0 < q" using assms by simp
  define e where "e = f32_exp q"
  define m where "m = round_even (q / 2 powi e)"
  note p = to_float_parts [OF q, folded e_def m_def [unfolded e_def], folded e_def]
  have m: "0 \<le> m" "m \<le> 2 ^ 24" "e > - 149 \<Longrightarrow> 2 ^ 23 \<le> m" "- 149 \<le> e"
    using to_float_parts(2-4) [OF q] f32_exp_ge [of q] unfolding m_def e_def by simp_all
  have tf: "to_float q = (if of_int m * 2 powi e \<ge> (2 :: rat) powi 128 then None else Some (of_int m * 2 powi e))"
    using to_float_parts(1) [OF q] unfolding m_def e_def by simp
  define N where "N = (e + 149) * 2 ^ 23 + m"
  have enc: "f32_enc (Fin s q) = f32_sign s (if nat N \<ge> 0x7F800000 then 0x7F800000 else nat N)"
    using False by (simp add: Let_def e_def m_def N_def)
  obtain E M where EM: "0 \<le> M" "M < 2 ^ 23" "0 \<le> E" "N = E * 2 ^ 23 + M"
    "of_int m * 2 powi e = (if E = 0 then of_int M * 2 powi (- 149) else of_int (M + 2 ^ 23) * (2 :: rat) powi (E - 150))"
  proof -
    consider "m < 2 ^ 23" | "2 ^ 23 \<le> m" "m < 2 ^ 24" | "m = 2 ^ 24" using m(2) by linarith
    then show ?thesis
    proof cases
      case 1
      then have "e = - 149" using m(3,4) by linarith
      then show ?thesis using that [of m 0] 1 m(1) by (simp add: N_def)
    next
      case 2
      then show ?thesis using that [of "m - 2 ^ 23" "e + 150"] m(4) by (simp add: N_def)
    next
      case 3
      have "(2 :: rat) powi (e + 151 - 150) = 2 * 2 powi e" by (simp add: power_int_add)
      then show ?thesis using that [of 0 "e + 151"] m(4) 3 by (simp add: N_def)
    qed
  qed
  have big: "of_int m * 2 powi e \<ge> (2 :: rat) powi 128 \<longleftrightarrow> E \<ge> 255"
  proof
    assume "E \<ge> 255"
    then have "(2 :: rat) powi 105 \<le> 2 powi (E - 150)" by (intro power_int_increasing) simp_all
    moreover have "(2 :: rat) ^ 23 \<le> of_int (M + 2 ^ 23)" using EM(1) by simp
    ultimately have "(2 :: rat) ^ 23 * 2 powi 105 \<le> of_int (M + 2 ^ 23) * 2 powi (E - 150)" by (intro mult_mono) simp_all
    then show "of_int m * 2 powi e \<ge> (2 :: rat) powi 128" using \<open>E \<ge> 255\<close> EM(5) by (simp add: power_int_def)
  next
    assume a: "of_int m * 2 powi e \<ge> (2 :: rat) powi 128"
    show "E \<ge> 255"
    proof (rule ccontr)
      assume "\<not> E \<ge> 255"
      then have "(2 :: rat) powi (E - 150) \<le> 2 powi 104" by (intro power_int_increasing) simp_all
      moreover have M: "(of_int (M + 2 ^ 23) :: rat) < of_int (2 ^ 24)" "(of_int M :: rat) < of_int (2 ^ 24)"
        using EM(2) unfolding of_int_less_iff by simp_all
      ultimately have "of_int (M + 2 ^ 23) * (2 :: rat) powi (E - 150) < of_int (2 ^ 24) * 2 powi 104"
        using EM(1) by (intro mult_less_le_imp_less) simp_all
      moreover have "(of_int M :: rat) * 2 powi (- 149) < of_int (2 ^ 24) * 2 powi 104"
      proof -
        have "(2 :: rat) powi (- 149) \<le> 2 powi 104" by (intro power_int_increasing) simp_all
        with M(2) EM(1) show ?thesis by (intro mult_less_le_imp_less) simp_all
      qed
      ultimately show False using a EM(5) by (simp add: power_int_def split: if_splits)
    qed
  qed
  show ?thesis
  proof (cases "E \<ge> 255")
    case True
    then have "nat N \<ge> 0x7F800000" unfolding EM(4) using EM(1) by simp
    then show ?thesis using True big f32_dec_sign [of "0x7F800000" s] unfolding enc tf by simp
  next
    case small: False
    have "nat N = nat E * 2 ^ 23 + nat M" unfolding EM(4) using EM(1,3) by (simp add: nat_add_distrib nat_mult_distrib)
    moreover from this have "nat N div 2 ^ 23 = nat E" "nat N mod 2 ^ 23 = nat M" using EM(1,2) by simp_all
    moreover have "nat N < 0x7F800000" unfolding EM(4) using EM(1,2) small by simp
    ultimately show ?thesis
      using small big EM f32_dec_sign [of "nat N" s] unfolding enc tf by (auto simp: nat_less_iff)
  qed
qed

section \<open>The operations\<close>

lemma f32_dec_nonneg: "f32_dec x = Fin s a \<Longrightarrow> 0 \<le> a"
  by (auto simp: f32_dec_def Let_def split: if_splits)

corollary f32_mul_val:
  assumes "f32_dec x = Fin s a" "f32_dec y = Fin t b"
  shows "f32_dec (f32_mul x y) = (case to_float (a * b) of Some v \<Rightarrow> Fin (s \<noteq> t) v | None \<Rightarrow> Inf (s \<noteq> t))"
  unfolding f32_mul_def assms fl_mul.simps
  by (rule f32_dec_enc) (use assms f32_dec_nonneg in \<open>simp add: f32_dec_nonneg\<close>)

corollary f32_div_val:
  assumes "f32_dec x = Fin s a" "f32_dec y = Fin t b" "b \<noteq> 0"
  shows "f32_dec (f32_div x y) = (case to_float (a / b) of Some v \<Rightarrow> Fin (s \<noteq> t) v | None \<Rightarrow> Inf (s \<noteq> t))"
  unfolding f32_div_def assms fl_div.simps if_not_P [OF assms(3)]
  by (rule f32_dec_enc) (use assms f32_dec_nonneg in \<open>simp add: f32_dec_nonneg\<close>)

lemma f32_dec_neg: "f32_dec (f32_neg x) = fl_neg (f32_dec x)"
proof -
  have sign: "bit w 31 \<longleftrightarrow> unat w \<ge> 2 ^ 31" for w :: u32
  proof -
    have "bit w 31 \<longleftrightarrow> bit (unat w) 31" by (simp add: bit_unsigned_iff)
    then have "bit w 31 \<longleftrightarrow> odd (unat w div 2 ^ 31)" unfolding bit_iff_odd [of "unat w"] .
    moreover have "unat w < 2 ^ 32" using unsigned_less [of w] by simp
    then have "2 ^ 31 \<le> unat w \<Longrightarrow> unat w div 2 ^ 31 = 1" by (intro div_nat_eqI) simp_all
    ultimately show ?thesis by (cases "unat w \<ge> 2 ^ 31") simp_all
  qed
  have low: "unat (f32_neg x) mod 2 ^ 31 = unat x mod 2 ^ 31"
  proof -
    have "take_bit 31 (f32_neg x) = take_bit 31 x"
      by (rule bit_word_eqI) (auto simp: f32_neg_def bit_simps bit_numeral_simps)
    then have "take_bit 31 (unat (f32_neg x)) = take_bit 31 (unat x)" by (metis unsigned_take_bit_eq)
    then show ?thesis by (simp add: take_bit_eq_mod)
  qed
  have "bit (f32_neg x) 31 \<longleftrightarrow> \<not> bit x 31" by (simp add: f32_neg_def bit_simps)
  then have "(unat (f32_neg x) \<ge> 2 ^ 31) = (\<not> unat x \<ge> 2 ^ 31)" unfolding sign .
  then show ?thesis unfolding f32_dec_def Let_def low by simp
qed

lemma round_even_of_int: "round_even (of_int i) = i"
  using round_even_between [of i "of_int i" i] by simp

lemma to_float_int:
  assumes "0 < i" "i < 2 ^ 24"
  shows "to_float (of_int i) = Some (of_int i)"
proof -
  let ?q = "of_int i :: rat" and ?e = "f32_exp (of_int i)"
  have q: "0 < ?q" using assms by simp
  have "?e \<le> 0"
  proof -
    obtain a b where qo: "quotient_of ?q = (a, b)" by fastforce
    define k where "k = int (nat_bits (nat a)) - int (nat_bits (nat b))"
    define l where "l = (if 2 powi k \<le> ?q then k else k - 1)"
    have "2 powi l \<le> ?q" using binade_of [OF q qo k_def l_def] by simp
    moreover have "?q < of_int (2 ^ 24)" using assms(2) unfolding of_int_less_iff .
    ultimately have "(2 :: rat) powi l < 2 powi 24" by simp
    then have "\<not> 24 \<le> l" using power_int_increasing [of 24 l "2 :: rat"] by linarith
    then show ?thesis unfolding f32_exp_def qo Let_def prod.case k_def [symmetric] l_def [symmetric] by simp
  qed
  then have p: "(2 :: rat) powi ?e * 2 ^ nat (- ?e) = 1" by (simp add: power_int_def power_one_over)
  then have "?q / 2 powi ?e = of_int (i * 2 ^ nat (- ?e))" by (simp add: field_simps)
  then have "round_even (?q / 2 powi ?e) = i * 2 ^ nat (- ?e)" using round_even_of_int by metis
  then have v: "of_int (round_even (?q / 2 powi ?e)) * 2 powi ?e = ?q" using p by (simp add: field_simps)
  have "(of_int i :: rat) < of_int (2 ^ 24)" using assms(2) unfolding of_int_less_iff .
  then have "\<not> ?q \<ge> 2 powi 128" by simp
  then show ?thesis using to_float_parts(1) [OF q] unfolding v by simp
qed

lemma f32_of_int_exact:
  assumes "\<bar>i\<bar> < 2 ^ 24"
  shows "f32_dec (f32_of_int i) = Fin (i < 0) (of_int \<bar>i\<bar>)"
proof -
  have "to_float (of_int \<bar>i\<bar>) = Some (of_int \<bar>i\<bar>)"
    using assms to_float_int [of "\<bar>i\<bar>"] by (cases "i = 0") (simp_all add: to_float_def fp_round_def)
  then show ?thesis unfolding f32_of_int_def f32_of_rat_def by (simp add: f32_dec_enc del: f32_enc.simps)
qed

end
