(* ===== verification/Bus.thy ===== *)
theory Bus
  imports Config Wire "HOL-Library.Multiset"
begin

text \<open>
  A sensor's bus: src/bus.c, which opens one, and src/drivers/bus_io.h, which frames register transfers on I2C and
  SPI. The host's transport (a \<open>bus_backend\<close>) is a record of functions on a state of any type, so what holds here
  holds of every backend and of every part behind it. The buffer of a transfer that fails is never looked at.
\<close>

section \<open>Handles and backends\<close>

text \<open>A leg of an SPI message: what is clocked out word by word, the bytes of the transfer, the bits of a word,
  and whether what comes back is kept.\<close>

record spi_leg =
  leg_tx :: "u16 list"
  leg_rx :: bool
  leg_len :: nat
  leg_bits :: nat

text \<open>What a transfer brings back, by position; for SPI by leg and word.\<close>

record 'd bus_backend =
  be_scheme :: "string option"
  be_open :: "string \<Rightarrow> 'd \<Rightarrow> int \<times> 'd"
  be_close :: "int \<Rightarrow> 'd \<Rightarrow> 'd"
  be_spi_setup :: "int \<Rightarrow> u8 \<Rightarrow> nat \<Rightarrow> u32 \<Rightarrow> 'd \<Rightarrow> int \<times> 'd"
  be_i2c_xfer :: "int \<Rightarrow> u8 \<Rightarrow> bytes \<Rightarrow> nat \<Rightarrow> 'd \<Rightarrow> (nat \<Rightarrow> u8) option \<times> 'd"
  be_spi_msg :: "int \<Rightarrow> u32 \<Rightarrow> spi_leg list \<Rightarrow> 'd \<Rightarrow> (nat \<Rightarrow> nat \<Rightarrow> u16) option \<times> 'd"

record 'd imud_bus =
  bus_kind :: bus_kind
  bus_be :: "'d bus_backend option"
  bus_fd :: int
  bus_i2c_addr :: u8
  bus_spi_mode :: u8
  bus_spi_inc_mask :: u8
  bus_spi_hz :: u32

record bus_caps =
  cap_spi_capable :: bool
  cap_spi_mode :: u8
  cap_spi_max_hz :: u32
  cap_spi_inc_mask :: u8

definition bus_init :: "'d imud_bus" where
  "bus_init = \<lparr>bus_kind = BUS_I2C, bus_be = None, bus_fd = -1, bus_i2c_addr = 0, bus_spi_mode = 0,
     bus_spi_inc_mask = 0, bus_spi_hz = 0\<rparr>"

section \<open>Opening and closing\<close>

fun pick_loop :: "string \<Rightarrow> 'd bus_backend list \<Rightarrow> 'd bus_backend option \<Rightarrow> 'd bus_backend option" where
  "pick_loop nm [] fallback =
     (if CHR '':'' \<in> set nm \<and> take 1 nm \<noteq> ''/'' then None else fallback)"
| "pick_loop nm (be # bes) fallback =
     (case be_scheme be of
        None \<Rightarrow> pick_loop nm bes (case fallback of None \<Rightarrow> Some be | Some x \<Rightarrow> fallback)
      | Some s \<Rightarrow> if take (length s) nm = s then Some be else pick_loop nm bes fallback)"

definition pick_backend :: "'d bus_backend list \<Rightarrow> string \<Rightarrow> 'd bus_backend option" where
  "pick_backend g_backends nm = pick_loop nm g_backends None"

definition open_spi :: "'d bus_backend \<Rightarrow> 'd imud_bus \<Rightarrow> bus_spec \<Rightarrow> bus_caps option \<Rightarrow> 'd \<Rightarrow> int \<times> 'd imud_bus \<times> 'd" where
  "open_spi be b spec caps d =
     (case caps of None \<Rightarrow> (-1, b, d)
      | Some caps \<Rightarrow>
          if \<not> cap_spi_capable caps then (-1, b, d)
          else
            let hz = (if spi_hz spec \<noteq> 0 then spi_hz spec else cap_spi_max_hz caps);
                hz = (if cap_spi_max_hz caps \<noteq> 0 \<and> hz > cap_spi_max_hz caps then cap_spi_max_hz caps else hz)
            in if hz = 0 then (-1, b, d)
               else case be_open be (node spec) d of
                 (fd, d) \<Rightarrow>
                   if fd < 0 then (-1, b, d)
                   else case be_spi_setup be fd (cap_spi_mode caps) 8 hz d of
                     (rc, d) \<Rightarrow>
                       if rc < 0 then (-1, b, be_close be fd d)
                       else (0, b\<lparr>bus_kind := BUS_SPI, bus_fd := fd, bus_spi_mode := cap_spi_mode caps,
                              bus_spi_hz := hz, bus_spi_inc_mask := cap_spi_inc_mask caps\<rparr>, d))"

definition open_i2c :: "'d bus_backend \<Rightarrow> 'd imud_bus \<Rightarrow> bus_spec \<Rightarrow> 'd \<Rightarrow> int \<times> 'd imud_bus \<times> 'd" where
  "open_i2c be b spec d =
     (case be_open be (node spec) d of
        (fd, d) \<Rightarrow> if fd < 0 then (-1, b, d)
                   else (0, b\<lparr>bus_kind := BUS_I2C, bus_fd := fd, bus_i2c_addr := i2c_addr spec\<rparr>, d))"

definition bus_open ::
  "'d bus_backend list \<Rightarrow> bus_spec \<Rightarrow> bus_caps option \<Rightarrow> 'd \<Rightarrow> int \<times> 'd imud_bus \<times> 'd" where
  "bus_open g_backends spec caps d =
     (if node spec = [] then (-1, bus_init, d)
      else case pick_backend g_backends (node spec) of
        None \<Rightarrow> (-1, bus_init, d)
      | Some be \<Rightarrow>
          let b = bus_init\<lparr>bus_be := Some be\<rparr>
          in case kind spec of BUS_I2C \<Rightarrow> open_i2c be b spec d | BUS_SPI \<Rightarrow> open_spi be b spec caps d)"

definition bus_close :: "'d imud_bus \<Rightarrow> 'd \<Rightarrow> 'd imud_bus \<times> 'd" where
  "bus_close b d = (bus_init, case bus_be b of Some be \<Rightarrow> be_close be (bus_fd b) d | None \<Rightarrow> d)"

section \<open>Register transfers\<close>

definition BUS_SPI_READ :: u8 where "BUS_SPI_READ = 0x80"

definition i2c_burst_read :: "'d imud_bus \<Rightarrow> u8 \<Rightarrow> nat \<Rightarrow> 'd \<Rightarrow> bytes option \<times> 'd" where
  "i2c_burst_read b reg len d =
     (case be_i2c_xfer (the (bus_be b)) (bus_fd b) (bus_i2c_addr b) [reg] len d of
        (rx, d) \<Rightarrow> (map_option (\<lambda>f. map f [0..<len]) rx, d))"

definition i2c_reg_write :: "'d imud_bus \<Rightarrow> u8 \<Rightarrow> u8 \<Rightarrow> 'd \<Rightarrow> bool \<times> 'd" where
  "i2c_reg_write b reg val d =
     (case be_i2c_xfer (the (bus_be b)) (bus_fd b) (bus_i2c_addr b) [reg, val] 0 d of (rx, d) \<Rightarrow> (rx \<noteq> None, d))"

definition spi_burst_read :: "'d imud_bus \<Rightarrow> u8 \<Rightarrow> nat \<Rightarrow> 'd \<Rightarrow> bytes option \<times> 'd" where
  "spi_burst_read b reg len d =
     (let cmd = reg OR BUS_SPI_READ OR (if len > 1 then bus_spi_inc_mask b else 0)
      in if len = 1
         then (case be_spi_msg (the (bus_be b)) (bus_fd b) (bus_spi_hz b)
                 [\<lparr>leg_tx = [push_bit 8 (ucast cmd)], leg_rx = True, leg_len = 2, leg_bits = 16\<rparr>] d of
                 (rx, d) \<Rightarrow> (map_option (\<lambda>f. [ucast (f 0 0 AND 0xFF)]) rx, d))
         else (case be_spi_msg (the (bus_be b)) (bus_fd b) (bus_spi_hz b)
                 [\<lparr>leg_tx = [ucast cmd], leg_rx = False, leg_len = 1, leg_bits = 8\<rparr>,
                  \<lparr>leg_tx = [], leg_rx = True, leg_len = len, leg_bits = 8\<rparr>] d of
                 (rx, d) \<Rightarrow> (map_option (\<lambda>f. map (\<lambda>i. ucast (f 1 i)) [0..<len]) rx, d)))"

definition spi_reg_write :: "'d imud_bus \<Rightarrow> u8 \<Rightarrow> u8 \<Rightarrow> 'd \<Rightarrow> bool \<times> 'd" where
  "spi_reg_write b reg val d =
     (let word = push_bit 8 (ucast (reg AND NOT BUS_SPI_READ)) OR ucast val
      in case be_spi_msg (the (bus_be b)) (bus_fd b) (bus_spi_hz b)
           [\<lparr>leg_tx = [word], leg_rx = False, leg_len = 2, leg_bits = 16\<rparr>] d of (rx, d) \<Rightarrow> (rx \<noteq> None, d))"

definition bus_burst_read :: "'d imud_bus \<Rightarrow> u8 \<Rightarrow> nat \<Rightarrow> 'd \<Rightarrow> bytes option \<times> 'd" where
  "bus_burst_read b reg len d =
     (if bus_kind b = BUS_SPI then spi_burst_read b reg len d else i2c_burst_read b reg len d)"

definition bus_reg_write :: "'d imud_bus \<Rightarrow> u8 \<Rightarrow> u8 \<Rightarrow> 'd \<Rightarrow> bool \<times> 'd" where
  "bus_reg_write b reg val d =
     (if bus_kind b = BUS_SPI then spi_reg_write b reg val d else i2c_reg_write b reg val d)"

definition bus_reg_read :: "'d imud_bus \<Rightarrow> u8 \<Rightarrow> 'd \<Rightarrow> u8 option \<times> 'd" where
  "bus_reg_read b reg d = (case bus_burst_read b reg 1 d of (r, d) \<Rightarrow> (map_option hd r, d))"

text \<open>A run of writes that gives up at the first one that fails.\<close>

fun reg_writes :: "'d imud_bus \<Rightarrow> (u8 \<times> u8) list \<Rightarrow> 'd \<Rightarrow> bool \<times> 'd" where
  "reg_writes b [] d = (True, d)"
| "reg_writes b ((reg, val) # ws) d =
     (case bus_reg_write b reg val d of (ok, d) \<Rightarrow> if ok then reg_writes b ws d else (False, d))"

section \<open>Numbers in register bytes\<close>

definition reg_s16le :: "bytes \<Rightarrow> 16 word" where
  "reg_s16le p = push_bit 8 (ucast (p ! 1)) OR ucast (p ! 0)"

definition reg_s16be :: "bytes \<Rightarrow> 16 word" where
  "reg_s16be p = push_bit 8 (ucast (p ! 0)) OR ucast (p ! 1)"

definition reg_s24be :: "bytes \<Rightarrow> 32 word" where
  "reg_s24be p =
     (let u = push_bit 16 (ucast (p ! 0)) OR push_bit 8 (ucast (p ! 1)) OR ucast (p ! 2)
      in (u XOR 0x800000) - 0x800000)"

lemma burst_length: "bus_burst_read b reg len d = (Some bs, d') \<Longrightarrow> length bs = len"
  by (auto simp: bus_burst_read_def spi_burst_read_def i2c_burst_read_def Let_def split: prod.splits if_splits)

lemma reg_writes_append:
  "reg_writes b (ws @ ws') d = (case reg_writes b ws d of (ok, d) \<Rightarrow> if ok then reg_writes b ws' d else (False, d))"
  by (induction b ws d rule: reg_writes.induct) (auto split: prod.splits)

section \<open>Numbers read back\<close>

lemma reg_s16le_bytes: "reg_s16le [ucast v, ucast (drop_bit 8 v)] = (v :: 16 word)"
  by (rule bit_word_eqI) (auto simp: reg_s16le_def bit_simps)

lemma reg_s16be_bytes: "reg_s16be [ucast (drop_bit 8 v), ucast v] = (v :: 16 word)"
  by (rule bit_word_eqI) (auto simp: reg_s16be_def bit_simps)

text \<open>The three bytes of a 24-bit two's complement number give its value.\<close>

lemma reg_s24be_value:
  "sint (reg_s24be [ucast (drop_bit 16 v), ucast (drop_bit 8 v), ucast v]) = sint (v :: 24 word)"
proof -
  have u: "push_bit 16 (ucast (ucast (drop_bit 16 v) :: u8)) OR push_bit 8 (ucast (ucast (drop_bit 8 v) :: u8)) OR
      ucast (ucast v :: u8) = (ucast v :: 32 word)"
  proof (rule bit_word_eqI)
    fix n :: nat
    assume "n < LENGTH(32)"
    consider "n < 8" | "8 \<le> n" "n < 16" | "16 \<le> n" "n < 24" | "24 \<le> n" by linarith
    then show "bit (push_bit 16 (ucast (ucast (drop_bit 16 v) :: u8)) OR push_bit 8 (ucast (ucast (drop_bit 8 v) :: u8)) OR
      ucast (ucast v :: u8) :: 32 word) n = bit (ucast v :: 32 word) n"
      using \<open>n < LENGTH(32)\<close> by cases (auto simp: bit_simps dest: bit_imp_le_length)
  qed
  have p: "bit (0x800000 :: int) n \<longleftrightarrow> n = 23" "bit (0x800000 :: nat) n \<longleftrightarrow> n = 23" for n
    using bit_exp_iff [of 23 n, where 'a = int] bit_exp_iff [of 23 n, where 'a = nat] by simp_all
  have x: "(ucast v :: 32 word) XOR 0x800000 = ucast (v XOR 0x800000)"
    by (rule bit_word_eqI) (auto simp: bit_simps p)
  define m where "m = take_bit 23 v"
  have m: "bit m n \<longleftrightarrow> n < 23 \<and> bit v n" for n by (simp add: m_def bit_simps)
  have top: "n < 24 \<Longrightarrow> \<not> n < 23 \<Longrightarrow> n = 23" for n :: nat by linarith
  have add: "m + 0x800000 = m OR 0x800000" by (rule disjunctive_add) (auto simp: m p)
  have mu: "uint m = uint v mod 2 ^ 23" unfolding m_def by (simp only: unsigned_take_bit_eq) (simp add: take_bit_eq_mod)
  have uv: "uint v < 2 ^ 24" using unsigned_less [of v] by simp
  have big: "uint (m + 0x800000) = uint m + 2 ^ 23" using mu by (simp add: uint_word_ariths)
  have fit: "- (2 ^ 23) \<le> k \<Longrightarrow> k < 2 ^ 23 \<Longrightarrow> sint (word_of_int k :: 24 word) = k" for k
    by (simp add: signed_of_int signed_take_bit_int_eq_self)
  have fit32: "- (2 ^ 31) \<le> k \<Longrightarrow> k < 2 ^ 31 \<Longrightarrow> sint (word_of_int k :: 32 word) = k" for k
    by (simp add: signed_of_int signed_take_bit_int_eq_self)
  have "uint (v XOR 0x800000) - 0x800000 = sint v"
  proof (cases "bit v 23")
    case True
    have v: "v = m + 0x800000" "v XOR 0x800000 = m" unfolding add
      using top True by (auto intro!: bit_word_eqI simp: bit_xor_iff bit_or_iff m p)
    have u: "uint v = uint m + 2 ^ 23" "uint m < 2 ^ 23" using mu big arg_cong [OF v(1), of uint] by simp_all
    have "(word_of_int (uint v - 2 ^ 24) :: 24 word) = v" by (simp only: of_int_diff word_of_int_uint) simp
    moreover have "- (2 ^ 23) \<le> uint v - 2 ^ 24" "uint v - 2 ^ 24 < 2 ^ 23" using u uint_ge_0 [of m] by simp_all
    ultimately have "sint v = uint v - 2 ^ 24" using fit by metis
    then show ?thesis unfolding v(2) using u(1) by simp
  next
    case False
    have lt: "n < 24 \<Longrightarrow> bit v n \<Longrightarrow> n < 23" for n using top False by metis
    have "v = m" "v XOR 0x800000 = m + 0x800000" unfolding add
      using False by (auto intro!: bit_word_eqI simp: bit_xor_iff bit_or_iff m p intro: lt)
    moreover from this have "uint v < 2 ^ 23" using mu by simp
    then have "sint v = uint v" using fit [of "uint v"] uint_ge_0 [of v] by simp
    ultimately show ?thesis using big by simp
  qed
  moreover have "sint (ucast (v XOR 0x800000) - (0x800000 :: 32 word)) = uint (v XOR 0x800000) - 0x800000"
  proof -
    have "uint (v XOR 0x800000) < 2 ^ 24" using unsigned_less [of "v XOR 0x800000"] by simp
    then have "sint (word_of_int (uint (v XOR 0x800000) - 0x800000) :: 32 word) = uint (v XOR 0x800000) - 0x800000"
      using fit32 [of "uint (v XOR 0x800000) - 0x800000"] uint_ge_0 [of "v XOR 0x800000"] by simp
    moreover have "(word_of_int (uint (v XOR 0x800000) - 0x800000) :: 32 word) = ucast (v XOR 0x800000) - 0x800000"
      by (simp only: of_int_diff) simp
    ultimately show ?thesis by metis
  qed
  ultimately show ?thesis unfolding reg_s24be_def Let_def by (simp add: u x)
qed

section \<open>A part behind the bus\<close>

text \<open>A file of registers that answers on either transport. For most parts the address steps on its own (\<open>inc = 0\<close>). The
  LIS3MDL is the other kind: on SPI it steps when the bits \<open>inc\<close> of the command ask for it, and on I2C when the top bit
  of the register address does, as src/drivers/lis3mdl.c says.\<close>

definition part_i2c :: "u8 \<Rightarrow> bytes \<Rightarrow> (u8 \<Rightarrow> u8) \<Rightarrow> (nat \<Rightarrow> u8) option \<times> (u8 \<Rightarrow> u8)" where
  "part_i2c inc tx r =
     (let a = (if inc = 0 then hd tx else hd tx AND NOT 0x80)
      in case tx of [reg] \<Rightarrow> (Some (\<lambda>i. r (if inc = 0 \<or> bit reg 7 then a + of_nat i else a)), r)
         | [reg, v] \<Rightarrow> (Some (\<lambda>_. 0), r(a := v))
         | _ \<Rightarrow> (None, r))"

definition part_spi :: "u8 \<Rightarrow> spi_leg list \<Rightarrow> (u8 \<Rightarrow> u8) \<Rightarrow> (nat \<Rightarrow> nat \<Rightarrow> u16) option \<times> (u8 \<Rightarrow> u8)" where
  "part_spi inc legs r =
     (case legs of
        [l] \<Rightarrow> let w = hd (leg_tx l); cmd = ucast (drop_bit 8 w) :: u8
                in if bit cmd 7 then (Some (\<lambda>_ _. ucast (r (cmd AND NOT 0x80))), r)
                   else (Some (\<lambda>_ _. 0), r(cmd := ucast w))
      | [l, l'] \<Rightarrow> let cmd = ucast (hd (leg_tx l)) :: u8; a = cmd AND NOT (0x80 OR inc)
                     in if bit cmd 7
                        then (Some (\<lambda>_ i. ucast (r (if inc = 0 \<or> cmd AND inc \<noteq> 0 then a + of_nat i else a))), r)
                        else (None, r)
      | _ \<Rightarrow> (None, r))"

definition part_backend :: "u8 \<Rightarrow> (u8 \<Rightarrow> u8) bus_backend" where
  "part_backend inc = \<lparr>be_scheme = None, be_open = (\<lambda>_ r. (3, r)), be_close = (\<lambda>_ r. r),
     be_spi_setup = (\<lambda>_ _ _ _ r. (0, r)), be_i2c_xfer = (\<lambda>_ _ tx _ r. part_i2c inc tx r),
     be_spi_msg = (\<lambda>_ _ legs r. part_spi inc legs r)\<rparr>"

lemma cmd_bits:
  assumes "reg AND (0x80 OR inc) = (0 :: u8)"
  shows "bit (reg OR 0x80 OR x) 7" "\<not> bit reg 7" "reg AND NOT 0x80 = reg" "(reg OR 0x80) AND NOT 0x80 = reg"
    "(reg OR 0x80 OR inc) AND NOT (0x80 OR inc) = reg" "(reg OR 0x80 OR inc) AND inc = inc" "bit (reg OR 0x80) 7"
proof -
  have z: "\<not> (bit reg n \<and> (bit (0x80 :: u8) n \<or> bit inc n))" for n
    using arg_cong [OF assms, of "\<lambda>w. bit w n"] by (simp add: bit_simps)
  show "bit (reg OR 0x80 OR x) 7" by (simp add: bit_simps)
  show "bit (reg OR 0x80) 7" by (simp add: bit_simps)
  show "\<not> bit reg 7" using z [of 7] by simp
  show "reg AND NOT 0x80 = reg" "(reg OR 0x80) AND NOT 0x80 = reg"
    "(reg OR 0x80 OR inc) AND NOT (0x80 OR inc) = reg" "(reg OR 0x80 OR inc) AND inc = inc"
    using z by (auto intro!: bit_word_eqI simp: bit_simps)
qed

text \<open>What a driver puts on the bus for a burst: an I2C part that needs it is told to step by the address.\<close>

definition burst_addr :: "'d imud_bus \<Rightarrow> u8 \<Rightarrow> u8 \<Rightarrow> u8" where
  "burst_addr b inc reg = (if inc \<noteq> 0 \<and> bus_kind b = BUS_I2C then reg OR 0x80 else reg)"

lemma burst_addr_plain [simp]: "burst_addr b 0 reg = reg" "bus_kind b = BUS_SPI \<Longrightarrow> burst_addr b inc reg = reg"
  by (simp_all add: burst_addr_def)

text \<open>What a register write and a burst read do to such a part, on either transport.\<close>

lemma part_transfer:
  assumes "bus_be b = Some (part_backend inc)" "bus_spi_inc_mask b = inc"
    and "reg AND (0x80 OR inc) = 0" "0 < len"
  shows "bus_burst_read b (burst_addr b inc reg) len r = (Some (map (\<lambda>i. r (reg + of_nat i)) [0..<len]), r) \<and>
    bus_burst_read b reg len r =
      (Some (map (\<lambda>i. r (if inc \<noteq> 0 \<and> bus_kind b = BUS_I2C then reg else reg + of_nat i)) [0..<len]), r) \<and>
    bus_reg_read b reg r = (Some (r reg), r) \<and>
    bus_reg_write b reg v r = (True, r(reg := v))"
proof -
  note c = cmd_bits [OF assms(3)]
  have hi: "ucast (drop_bit 8 (push_bit 8 (ucast (w :: u8) :: u16))) = w"
    "ucast (drop_bit 8 (push_bit 8 (ucast (w :: u8) :: u16) OR ucast (v :: u8))) = w"
    "ucast (drop_bit 8 (push_bit 8 (ucast (w :: u8) :: u16)) OR drop_bit 8 (ucast (v :: u8))) = w"
    "(ucast (push_bit 8 (ucast w :: u16) OR ucast (v :: u8)) :: u8) = v" for w
    by (rule bit_word_eqI; auto simp: bit_simps dest: bit_imp_le_length)+
  have lo: "(ucast (ucast (x :: u8) AND (0xFF :: u16)) :: u8) = x" for x
  proof -
    have "(0xFF :: u16) = mask 8" by (simp add: mask_eq_exp_minus_1)
    show ?thesis unfolding \<open>(0xFF :: u16) = mask 8\<close> by (rule bit_word_eqI) (simp only: bit_simps, auto)
  qed
  have uu: "ucast (ucast (x :: u8) :: u16) = x" for x
    by (rule bit_word_eqI) (auto simp: bit_simps)
  have wr: "bus_reg_write b reg v r = (True, r(reg := v))"
    using c(2,3) by (simp add: bus_reg_write_def spi_reg_write_def i2c_reg_write_def Let_def assms(1) part_backend_def
        part_i2c_def part_spi_def hi BUS_SPI_READ_def)
  have "spi_burst_read b reg len r = (Some (map (\<lambda>i. r (reg + of_nat i)) [0..<len]), r)"
  proof (cases "len = 1")
    case True
    then show ?thesis using c(1) [of 0] c(4)
      by (simp add: spi_burst_read_def assms(1,2) part_backend_def part_spi_def hi lo BUS_SPI_READ_def Let_def or.assoc)
  next
    case False
    with assms(4) have "1 < len" by simp
    then show ?thesis using c(1) [of inc] c(5,6)
      by (auto simp: spi_burst_read_def assms(1,2) part_backend_def part_spi_def BUS_SPI_READ_def Let_def or.assoc uu)
  qed
  note spi = this
  have i2c: "i2c_burst_read b (reg OR 0x80) len r = (Some (map (\<lambda>i. r (reg + of_nat i)) [0..<len]), r)" if "inc \<noteq> 0"
    using that c(4,7) by (simp add: i2c_burst_read_def assms(1) part_backend_def part_i2c_def Let_def)
  have i2c_plain: "i2c_burst_read b reg n r =
      (Some (map (\<lambda>i. r (if inc \<noteq> 0 then reg else reg + of_nat i)) [0..<n]), r)" for n
    using c(2,3) by (simp add: i2c_burst_read_def assms(1) part_backend_def part_i2c_def Let_def)
  have one: "bus_reg_read b reg r = (Some (r reg), r)"
    using c(1) [of 0] c(4) i2c_plain [of 1]
    by (simp add: bus_reg_read_def bus_burst_read_def spi_burst_read_def assms(1,2) part_backend_def part_spi_def hi lo
        BUS_SPI_READ_def Let_def or.assoc)
  show ?thesis using wr one spi i2c i2c_plain [of len]
    by (cases "bus_kind b") (auto simp: bus_burst_read_def burst_addr_def)
qed

text \<open>C30: the framing. On a part that answers as the datasheets say, a write puts the byte into the register, a read of one
  register brings it, and a burst brings consecutive registers, over I2C and over SPI alike. The bits that make the address
  step are set by the bus on SPI, when more than one byte is read, and by the driver on I2C, just for the part that needs
  them; without them a burst on I2C brings the first register of that part over and over.\<close>

theorem bus_transports_agree:
  assumes "bus_be b = Some (part_backend inc)" "bus_spi_inc_mask b = inc"
    and "reg AND (0x80 OR inc) = 0" "0 < len"
  shows "bus_burst_read b (burst_addr b inc reg) len r = (Some (map (\<lambda>i. r (reg + of_nat i)) [0..<len]), r) \<and>
    bus_burst_read b reg len r =
      (Some (map (\<lambda>i. r (if inc \<noteq> 0 \<and> bus_kind b = BUS_I2C then reg else reg + of_nat i)) [0..<len]), r) \<and>
    bus_reg_read b reg r = (Some (r reg), r) \<and>
    bus_reg_write b reg v r = (True, r(reg := v))"
  by (rule part_transfer [OF assms])

theorem bus_transports_agree_witness:
  "let b = (\<lambda>k. bus_init\<lparr>bus_kind := k, bus_be := Some (part_backend 0x40), bus_spi_inc_mask := 0x40\<rparr>)
   in bus_burst_read (b BUS_SPI) 0x28 6 (\<lambda>a. a + 1) = (Some (map (\<lambda>i. 0x28 + of_nat i + 1) [0..<6]), \<lambda>a. a + 1) \<and>
      bus_burst_read (b BUS_I2C) 0xA8 6 (\<lambda>a. a + 1) = (Some (map (\<lambda>i. 0x28 + of_nat i + 1) [0..<6]), \<lambda>a. a + 1) \<and>
      bus_burst_read (b BUS_I2C) 0x28 6 (\<lambda>a. a + 1) = (Some (replicate 6 0x29), \<lambda>a. a + 1)"
  using bus_transports_agree [of "bus_init\<lparr>bus_kind := BUS_SPI, bus_be := Some (part_backend 0x40), bus_spi_inc_mask := 0x40\<rparr>"
      "0x40" "0x28" 6 "\<lambda>a. a + 1"]
    bus_transports_agree [of "bus_init\<lparr>bus_kind := BUS_I2C, bus_be := Some (part_backend 0x40), bus_spi_inc_mask := 0x40\<rparr>"
      "0x40" "0x28" 6 "\<lambda>a. a + 1"]
  by (simp add: Let_def burst_addr_def map_replicate_const)

section \<open>Opening\<close>

text \<open>What a host keeps open, and what its calls do to it.\<close>

definition host_counts :: "('d \<Rightarrow> int multiset) \<Rightarrow> 'd bus_backend \<Rightarrow> bool" where
  "host_counts held be \<longleftrightarrow>
     (\<forall>nm d. held (snd (be_open be nm d)) =
        (if fst (be_open be nm d) < 0 then held d else add_mset (fst (be_open be nm d)) (held d))) \<and>
     (\<forall>fd d. held (be_close be fd d) = held d - {#fd#}) \<and>
     (\<forall>fd mode bits hz d. held (snd (be_spi_setup be fd mode bits hz d)) = held d)"

lemma pick_loop_in: "pick_loop nm bes fb = Some be \<Longrightarrow> be \<in> set bes \<or> fb = Some be"
  by (induction nm bes fb rule: pick_loop.induct) (auto split: option.splits if_splits)

definition opened_ok :: "('d \<Rightarrow> int multiset) \<Rightarrow> bus_spec \<Rightarrow> bus_caps option \<Rightarrow> 'd \<Rightarrow> int \<times> 'd imud_bus \<times> 'd \<Rightarrow> bool" where
  "opened_ok held spec caps d r =
     (case r of (rc, b, d') \<Rightarrow>
        if rc = 0
        then 0 \<le> bus_fd b \<and> held d' = add_mset (bus_fd b) (held d) \<and> bus_be b \<noteq> None \<and> bus_kind b = kind spec \<and>
          (bus_kind b = BUS_SPI \<longrightarrow> bus_spi_hz b \<noteq> 0 \<and>
             (\<exists>c. caps = Some c \<and> cap_spi_capable c \<and> bus_spi_mode b = cap_spi_mode c \<and>
                bus_spi_hz b = (let hz = if spi_hz spec = 0 then cap_spi_max_hz c else spi_hz spec
                                in if cap_spi_max_hz c = 0 then hz else min hz (cap_spi_max_hz c))))
        else rc = -1 \<and> bus_fd b = -1 \<and> held d' = held d)"

lemma open_i2c_ok:
  "host_counts held be \<Longrightarrow> kind spec = BUS_I2C \<Longrightarrow> opened_ok held spec caps d (open_i2c be (bus_init\<lparr>bus_be := Some be\<rparr>) spec d)"
  by (cases "be_open be (node spec) d")
    (auto simp: opened_ok_def open_i2c_def host_counts_def bus_init_def dest!: spec [of _ "node spec"] dest: spec [of _ d])

lemma open_spi_ok:
  assumes "host_counts held be" "kind spec = BUS_SPI"
  shows "opened_ok held spec caps d (open_spi be (bus_init\<lparr>bus_be := Some be\<rparr>) spec caps d)"
proof (cases caps)
  case None
  then show ?thesis by (simp add: opened_ok_def open_spi_def bus_init_def)
next
  case (Some c)
  define hz where "hz = (let hz = if spi_hz spec = 0 then cap_spi_max_hz c else spi_hz spec
    in if cap_spi_max_hz c = 0 then hz else min hz (cap_spi_max_hz c))"
  have hz_code: "(let hz = (if spi_hz spec \<noteq> 0 then spi_hz spec else cap_spi_max_hz c)
      in if cap_spi_max_hz c \<noteq> 0 \<and> hz > cap_spi_max_hz c then cap_spi_max_hz c else hz) = hz"
    by (auto simp: hz_def Let_def min_def)
  obtain fd d1 where o: "be_open be (node spec) d = (fd, d1)" by fastforce
  obtain rc d2 where su: "be_spi_setup be fd (cap_spi_mode c) 8 hz d1 = (rc, d2)" by fastforce
  have h: "held d1 = (if fd < 0 then held d else add_mset fd (held d))" "held d2 = held d1"
    "held (be_close be fd d2) = held d2 - {#fd#}"
    using assms(1) o su unfolding host_counts_def by (metis fst_conv snd_conv)+
  have "open_spi be (bus_init\<lparr>bus_be := Some be\<rparr>) spec caps d =
      (if \<not> cap_spi_capable c \<or> hz = 0 then (-1, bus_init\<lparr>bus_be := Some be\<rparr>, d)
       else if fd < 0 then (-1, bus_init\<lparr>bus_be := Some be\<rparr>, d1)
       else if rc < 0 then (-1, bus_init\<lparr>bus_be := Some be\<rparr>, be_close be fd d2)
       else (0, bus_init\<lparr>bus_be := Some be, bus_kind := BUS_SPI, bus_fd := fd, bus_spi_mode := cap_spi_mode c,
              bus_spi_hz := hz, bus_spi_inc_mask := cap_spi_inc_mask c\<rparr>, d2))"
    unfolding open_spi_def Some option.case hz_code [unfolded Let_def, symmetric] using o su hz_code
    by (simp add: Let_def)
  then show ?thesis using h assms(2) Some hz_def by (simp add: opened_ok_def bus_init_def)
qed

text \<open>opening a sensor's bus, whatever the host does. It ends with exactly one more descriptor open, that of the
  handle, in the transport asked for and with an SPI clock that is neither zero nor above the part's maximum; or it
  reports the failure with the handle closed and nothing left open. Closing gives back what opening took.\<close>

theorem bus_open_ledger:
  assumes "\<forall>be \<in> set bes. host_counts held be"
  shows "opened_ok held spec caps d (bus_open bes spec caps d) \<and>
    (case bus_open bes spec caps d of (rc, b, d') \<Rightarrow> rc = 0 \<longrightarrow> held (snd (bus_close b d')) = held d)"
proof -
  have "opened_ok held spec caps d (bus_open bes spec caps d) \<and>
      (\<forall>b d'. bus_open bes spec caps d = (0, b, d') \<longrightarrow> (\<exists>be \<in> set bes. bus_be b = Some be))"
  proof (cases "node spec = [] \<or> pick_backend bes (node spec) = None")
    case True
    then show ?thesis by (auto simp: opened_ok_def bus_open_def bus_init_def)
  next
    case False
    then obtain be where be: "pick_backend bes (node spec) = Some be" "node spec \<noteq> []" by auto
    then have "be \<in> set bes" using pick_loop_in [of "node spec" bes None be] by (simp add: pick_backend_def)
    then have c: "host_counts held be" using assms by simp
    have k: "bus_be b = Some be" if "bus_open bes spec caps d = (0, b, d')" for b d'
      using that be by (auto simp: bus_open_def open_i2c_def open_spi_def Let_def split: bus_kind.splits prod.splits
          option.splits if_splits)
    show ?thesis
      using be c k \<open>be \<in> set bes\<close> open_i2c_ok [OF c] open_spi_ok [OF c]
      by (cases "kind spec") (auto simp: bus_open_def Let_def)
  qed
  moreover obtain rc b d' where r: "bus_open bes spec caps d = (rc, b, d')" by (rule prod_cases3)
  ultimately have ok: "opened_ok held spec caps d (rc, b, d')" "rc = 0 \<Longrightarrow> \<exists>be \<in> set bes. bus_be b = Some be" by auto
  moreover have "held (snd (bus_close b d')) = held d" if "rc = 0"
    using ok(1) ok(2) [OF that] assms that by (auto simp: bus_close_def opened_ok_def host_counts_def)
  ultimately show ?thesis unfolding r by simp
qed

theorem bus_open_ledger_witness:
  "let be = \<lparr>be_scheme = None, be_open = \<lambda>_ m. (size m, add_mset (int (size m)) m), be_close = \<lambda>fd m. m - {#fd#},
              be_spi_setup = \<lambda>_ _ _ _ m. (0, m), be_i2c_xfer = \<lambda>_ _ _ _ m. (None, m),
              be_spi_msg = \<lambda>_ _ _ m. (None, m)\<rparr>;
       spec = \<lparr>kind = BUS_SPI, node = ''/dev/spidev0.0'', i2c_addr = 0, spi_hz = 20000000\<rparr>;
       caps = \<lparr>cap_spi_capable = True, cap_spi_mode = 0, cap_spi_max_hz = 10000000, cap_spi_inc_mask = 0\<rparr>
   in case bus_open [be] spec (Some caps) {#} of
        (rc, b, m) \<Rightarrow> rc = 0 \<and> bus_spi_hz b = 10000000 \<and> m = {#0#} \<and> snd (bus_close b m) = {#}"
  unfolding Let_def
  by (insert bus_open_ledger [of "[\<lparr>be_scheme = None, be_open = \<lambda>_ m. (size m, add_mset (int (size m)) m), be_close = \<lambda>fd m. m - {#fd#},
              be_spi_setup = \<lambda>_ _ _ _ m. (0, m), be_i2c_xfer = \<lambda>_ _ _ _ m. (None, m),
              be_spi_msg = \<lambda>_ _ _ m. (None, m)\<rparr>]" "\<lambda>m. m" "\<lparr>kind = BUS_SPI, node = ''/dev/spidev0.0'', i2c_addr = 0, spi_hz = 20000000\<rparr>"
       "Some \<lparr>cap_spi_capable = True, cap_spi_mode = 0, cap_spi_max_hz = 10000000, cap_spi_inc_mask = 0\<rparr>" "{#}"])
    (simp add: host_counts_def opened_ok_def bus_open_def pick_backend_def open_spi_def bus_init_def)

end
