(* ===== verification/ChipTs.thy ===== *)
theory ChipTs
  imports Bus Types
begin

text \<open>
  How a driver dates the samples of a burst: src/drivers/chip_ts.h, the guard that keeps the stamps increasing;
  src/drivers/st_fifo_ts.h, the stamps an ST part writes into its FIFO; src/drivers/st_freq_fine.h, the part's own
  tick period. Counters are 32-bit words, differences are taken modulo \<open>2 ^ 32\<close> and read as signed numbers.
\<close>

section \<open>The guard\<close>

record chip_ts_guard =
  cg_last :: u32
  cg_have :: bool
  cg_refusals :: u32

definition CHIP_TS_MAX_REFUSALS :: u32 where "CHIP_TS_MAX_REFUSALS = 3"

definition chip_ts_guard_reset :: "chip_ts_guard \<Rightarrow> chip_ts_guard" where
  "chip_ts_guard_reset g = g\<lparr>cg_last := 0, cg_have := False, cg_refusals := 0\<rparr>"

definition chip_ts_guard_refused :: "chip_ts_guard \<Rightarrow> bool \<times> chip_ts_guard" where
  "chip_ts_guard_refused g = (let g = g\<lparr>cg_refusals := cg_refusals g + 1\<rparr> in (cg_refusals g > CHIP_TS_MAX_REFUSALS, g))"

definition chip_ts_guard_accepted :: "chip_ts_guard \<Rightarrow> chip_ts_guard" where
  "chip_ts_guard_accepted g = g\<lparr>cg_refusals := 0\<rparr>"

definition chip_ts_guard_shift :: "chip_ts_guard \<Rightarrow> u32 \<Rightarrow> u32 \<Rightarrow> u32 \<Rightarrow> u32" where
  "chip_ts_guard_shift g first step max_jitter =
     (if \<not> cg_have g then 0
      else let delta = first - cg_last g
           in if sint delta > 0 then 0 else if - delta > max_jitter then 0 else - delta + step)"

definition chip_ts_guard_forward_ok :: "chip_ts_guard \<Rightarrow> u32 \<Rightarrow> u32 \<Rightarrow> bool" where
  "chip_ts_guard_forward_ok g first max_forward =
     (if \<not> cg_have g then True
      else let delta = first - cg_last g in if sint delta \<le> 0 then True else delta \<le> max_forward)"

definition chip_ts_guard_backward_ok :: "chip_ts_guard \<Rightarrow> u32 \<Rightarrow> u32 \<Rightarrow> bool" where
  "chip_ts_guard_backward_ok g first max_backward =
     (if \<not> cg_have g then True
      else let delta = first - cg_last g in if sint delta \<ge> 0 then True else - delta \<le> max_backward)"

definition chip_ts_guard_next :: "chip_ts_guard \<Rightarrow> u32 \<Rightarrow> u32" where
  "chip_ts_guard_next g step = cg_last g + step"

definition chip_ts_guard_note :: "chip_ts_guard \<Rightarrow> u32 \<Rightarrow> chip_ts_guard" where
  "chip_ts_guard_note g newest = g\<lparr>cg_last := newest, cg_have := True\<rparr>"

section \<open>Stamping a burst from a counter read after the drain\<close>

text \<open>The part of a driver's state that dates samples, and the log lines about it.\<close>

datatype ts_log = Batched_refused u64 | Far_ahead u64 | Far_behind u64

record ts_state =
  tk_ticks :: u32
  tk_rejects :: u64
  tk_reject_next :: u64
  tk_fwd_rejects :: u64
  tk_fwd_next :: u64
  tk_bwd_rejects :: u64
  tk_bwd_next :: u64
  tk_guard :: chip_ts_guard
  tk_log :: "ts_log list"

definition TS_FWD_SLACK_SETS :: u32 where "TS_FWD_SLACK_SETS = 8"

text \<open>The three counters of refusals: each is logged at 1, 10, 100 and so on.\<close>

definition count_bwd :: "'a ts_state_scheme \<Rightarrow> 'a ts_state_scheme" where
  "count_bwd s =
     (let s = s\<lparr>tk_bwd_rejects := tk_bwd_rejects s + 1\<rparr>
      in if tk_bwd_rejects s \<ge> tk_bwd_next s
         then s\<lparr>tk_log := tk_log s @ [Far_behind (tk_bwd_rejects s)], tk_bwd_next := tk_bwd_next s * 10\<rparr> else s)"

definition count_fwd :: "'a ts_state_scheme \<Rightarrow> 'a ts_state_scheme" where
  "count_fwd s =
     (let s = s\<lparr>tk_fwd_rejects := tk_fwd_rejects s + 1\<rparr>
      in if tk_fwd_rejects s \<ge> tk_fwd_next s
         then s\<lparr>tk_log := tk_log s @ [Far_ahead (tk_fwd_rejects s)], tk_fwd_next := tk_fwd_next s * 10\<rparr> else s)"

definition count_batched :: "'a ts_state_scheme \<Rightarrow> 'a ts_state_scheme" where
  "count_batched s =
     (let s = s\<lparr>tk_rejects := tk_rejects s + 1\<rparr>
      in if tk_rejects s \<ge> tk_reject_next s
         then s\<lparr>tk_log := tk_log s @ [Batched_refused (tk_rejects s)], tk_reject_next := tk_reject_next s * 10\<rparr> else s)"

text \<open>The stamp of the newest sample of a burst of \<open>n\<close>, from a counter that read \<open>now_ts\<close>.\<close>

definition burst_stamp :: "u32 \<Rightarrow> u32 \<Rightarrow> nat \<Rightarrow> 'a ts_state_scheme \<Rightarrow> u32 \<times> 'a ts_state_scheme" where
  "burst_stamp max_jitter now_ts n s =
     (let burst_ts = now_ts;
          span = of_nat (n - 1) * tk_ticks s;
          first = burst_ts - span;
          fwd_bad = (\<not> chip_ts_guard_forward_ok (tk_guard s) first (tk_ticks s * TS_FWD_SLACK_SETS));
          bwd_bad = (\<not> chip_ts_guard_backward_ok (tk_guard s) first max_jitter)
      in if fwd_bad \<or> bwd_bad
         then (case chip_ts_guard_refused (tk_guard s) of
            (True, g) \<Rightarrow> (burst_ts, s\<lparr>tk_guard := chip_ts_guard_accepted g\<rparr>)
          | (False, g) \<Rightarrow>
              let s = s\<lparr>tk_guard := g\<rparr>;
                  first = chip_ts_guard_next (tk_guard s) (tk_ticks s);
                  burst_ts = first + span
              in (burst_ts, if bwd_bad then count_bwd s else count_fwd s))
         else let s = s\<lparr>tk_guard := chip_ts_guard_accepted (tk_guard s)\<rparr>
              in (burst_ts + chip_ts_guard_shift (tk_guard s) first (tk_ticks s) max_jitter, s))"

text \<open>The loop that dates the samples of the burst backwards from its newest.\<close>

definition stamp_back :: "u32 \<Rightarrow> u32 \<Rightarrow> nat \<Rightarrow> imu_sample list \<Rightarrow> imu_sample list" where
  "stamp_back ticks burst_ts n buf =
     map (\<lambda>i. if i < n then (buf ! i)\<lparr>is_chip_ts := burst_ts - of_nat (n - 1 - i) * ticks\<rparr> else buf ! i) [0..<length buf]"

text \<open>The seam check of a burst that carries the part's own stamps.\<close>

definition seam_shift :: "u32 \<Rightarrow> nat \<Rightarrow> imu_sample list \<Rightarrow> 'a ts_state_scheme \<Rightarrow> imu_sample list" where
  "seam_shift max_jitter n buf s =
     (let shift = chip_ts_guard_shift (tk_guard s) (is_chip_ts (buf ! 0)) (tk_ticks s) max_jitter
      in if shift = 0 then buf
         else map (\<lambda>i. if i < n then (buf ! i)\<lparr>is_chip_ts := is_chip_ts (buf ! i) + shift\<rparr> else buf ! i) [0..<length buf])"

section \<open>Stamps out of the FIFO\<close>

definition ST_TAG_TIMESTAMP :: u8 where "ST_TAG_TIMESTAMP = 0x04"
definition ST_TAG_SENSOR :: "u8 \<Rightarrow> u8" where "ST_TAG_SENSOR b = drop_bit 3 b AND 0x1F"
definition ST_TAG_CNT :: "u8 \<Rightarrow> u8" where "ST_TAG_CNT b = drop_bit 1 b AND 0x03"
definition ST_TS_MAX_LAG_TICKS :: u32 where "ST_TS_MAX_LAG_TICKS = 40000"

record st_fifo_ts =
  ft_have_word :: bool
  ft_idx :: int
  ft_ts :: u32
  ft_have_set :: bool
  ft_set_cnt :: u8

definition st_fifo_ts_begin :: st_fifo_ts where
  "st_fifo_ts_begin = \<lparr>ft_have_word = False, ft_idx = 0, ft_ts = 0, ft_have_set = False, ft_set_cnt = 0\<rparr>"

definition st_fifo_ts_dec_batch :: "int \<Rightarrow> u8" where
  "st_fifo_ts_dec_batch fifo_wm = (if fifo_wm \<ge> 32 then 0x3 else if fifo_wm \<ge> 8 then 0x2 else 0x0)"

definition st_fifo_ts_note_set :: "st_fifo_ts \<Rightarrow> u8 \<Rightarrow> st_fifo_ts" where
  "st_fifo_ts_note_set s tag_byte = s\<lparr>ft_set_cnt := ST_TAG_CNT tag_byte, ft_have_set := True\<rparr>"

definition le32 :: "bytes \<Rightarrow> u32" where
  "le32 p = ucast (p ! 0) OR push_bit 8 (ucast (p ! 1)) OR push_bit 16 (ucast (p ! 2)) OR push_bit 24 (ucast (p ! 3))"

definition st_fifo_ts_note_word :: "st_fifo_ts \<Rightarrow> bytes \<Rightarrow> nat \<Rightarrow> st_fifo_ts" where
  "st_fifo_ts_note_word s word produced =
     (let idx = (if ft_have_set s \<and> ST_TAG_CNT (word ! 0) = ft_set_cnt s then int produced - 1 else int produced)
      in if idx < 0 then s else s\<lparr>ft_ts := le32 (drop 1 word), ft_idx := idx, ft_have_word := True\<rparr>)"

definition st_fifo_ts_apply :: "st_fifo_ts \<Rightarrow> imu_sample list \<Rightarrow> nat \<Rightarrow> u32 \<Rightarrow> u32 \<Rightarrow> bool \<times> imu_sample list" where
  "st_fifo_ts_apply s buf produced ticks_per_sample now_ts =
     (if \<not> ft_have_word s \<or> produced = 0 then (False, buf)
      else if ft_idx s \<ge> int produced then (False, buf)
      else let newest = ft_ts s + of_int (int produced - 1 - ft_idx s) * ticks_per_sample;
               lag = now_ts - newest
           in if sint lag < 0 \<or> lag > ST_TS_MAX_LAG_TICKS then (False, buf)
              else (True, map (\<lambda>i. if i < produced
                                  then (buf ! i)\<lparr>is_chip_ts := ft_ts s + of_int (int i - ft_idx s) * ticks_per_sample\<rparr>
                                  else buf ! i) [0..<length buf]))"

section \<open>The part's own tick period\<close>

definition ST_REG_INTERNAL_FREQ_FINE :: u8 where "ST_REG_INTERNAL_FREQ_FINE = 0x63"

definition st_freq_fine_tick_ns :: "'d imud_bus \<Rightarrow> u32 \<Rightarrow> 'd \<Rightarrow> u32 \<times> 'd" where
  "st_freq_fine_tick_ns bus nominal_tick_ns d =
     (if nominal_tick_ns = 0 then (0, d)
      else case bus_reg_read bus ST_REG_INTERNAL_FREQ_FINE d of
        (None, d) \<Rightarrow> (0, d)
      | (Some raw, d) \<Rightarrow>
          if sint raw = 0 then (nominal_tick_ns, d)
          else let ratio = dconst (1 + dconst (dconst (15 / 10000) * of_int (sint raw)))
               in (word_of_int \<lfloor>dconst (dconst (of_int (uint nominal_tick_ns) / ratio) + 1 / 2)\<rfloor>, d))"

section \<open>What the guard keeps\<close>

text \<open>The distance from the newest stamp handed out to the first of the next burst.\<close>

definition gap :: "'a ts_state_scheme \<Rightarrow> u32 \<Rightarrow> int" where
  "gap s first = sint (first - cg_last (tk_guard s))"

definition ticks_ok :: "'a ts_state_scheme \<Rightarrow> bool" where
  "ticks_ok s \<longleftrightarrow> 0 < uint (tk_ticks s) \<and> uint (tk_ticks s) < 2 ^ 28"

text \<open>A reading the guard does not believe.\<close>

definition reading_refused :: "u32 \<Rightarrow> u32 \<Rightarrow> nat \<Rightarrow> 'a ts_state_scheme \<Rightarrow> bool" where
  "reading_refused max_jitter now_ts n s \<longleftrightarrow>
     \<not> (chip_ts_guard_forward_ok (tk_guard s) (now_ts - of_nat (n - 1) * tk_ticks s) (tk_ticks s * TS_FWD_SLACK_SETS) \<and>
        chip_ts_guard_backward_ok (tk_guard s) (now_ts - of_nat (n - 1) * tk_ticks s) max_jitter)"

lemmas guard_defs = chip_ts_guard_reset_def chip_ts_guard_refused_def chip_ts_guard_accepted_def chip_ts_guard_shift_def
  chip_ts_guard_forward_ok_def chip_ts_guard_backward_ok_def chip_ts_guard_next_def chip_ts_guard_note_def

lemma count_state [simp]:
  "tk_guard (count_bwd s) = tk_guard s" "tk_ticks (count_bwd s) = tk_ticks s"
  "tk_guard (count_fwd s) = tk_guard s" "tk_ticks (count_fwd s) = tk_ticks s"
  "tk_guard (count_batched s) = tk_guard s" "tk_ticks (count_batched s) = tk_ticks s"
  by (simp_all add: count_bwd_def count_fwd_def count_batched_def Let_def)

lemma count_more [simp]:
  "ts_state.more (count_bwd s) = ts_state.more s" "ts_state.more (count_fwd s) = ts_state.more s"
  "ts_state.more (count_batched s) = ts_state.more s"
  by (simp_all add: count_bwd_def count_fwd_def count_batched_def Let_def)

lemma burst_stamp_more [simp]: "ts_state.more (snd (burst_stamp j now n s)) = ts_state.more s"
  by (auto simp: burst_stamp_def Let_def split: prod.splits bool.splits)

lemma burst_stamp_ticks [simp]: "tk_ticks (snd (burst_stamp j now n s)) = tk_ticks s"
  by (auto simp: burst_stamp_def Let_def split: prod.splits bool.splits)

lemma burst_stamp_last [simp]:
  "cg_last (tk_guard (snd (burst_stamp j now n s))) = cg_last (tk_guard s)"
  "cg_have (tk_guard (snd (burst_stamp j now n s))) = cg_have (tk_guard s)"
  by (auto simp: burst_stamp_def Let_def guard_defs split: prod.splits bool.splits)

lemma burst_stamp_refusals:
  "cg_refusals (tk_guard (snd (burst_stamp j now n s))) =
     (if reading_refused j now n s \<and> \<not> cg_refusals (tk_guard s) + 1 > CHIP_TS_MAX_REFUSALS
      then cg_refusals (tk_guard s) + 1 else 0)"
  by (auto simp: burst_stamp_def reading_refused_def Let_def chip_ts_guard_refused_def chip_ts_guard_accepted_def
      split: prod.splits bool.splits)

lemma sint_pos_uint:
  fixes x :: u32
  assumes "uint x < 2 ^ 31"
  shows "sint x = uint x"
proof -
  have "- (2 ^ 31) \<le> k \<Longrightarrow> k < 2 ^ 31 \<Longrightarrow> sint (word_of_int k :: 32 word) = k" for k
    by (simp add: signed_of_int signed_take_bit_int_eq_self)
  from this [of "uint x"] show ?thesis using assms uint_ge_0 [of x] by simp
qed

lemma slack_uint: "uint t < 2 ^ 28 \<Longrightarrow> uint (t * TS_FWD_SLACK_SETS) = 8 * uint (t :: u32)"
  by (simp add: TS_FWD_SLACK_SETS_def uint_word_ariths)

text \<open>The first sample of a burst follows the newest of the burst before by one to eight sample periods, whatever the
  counter read, unless this is the fourth reading in a row that the guard refused.\<close>

lemma burst_stamp_seam:
  assumes "ticks_ok s" "cg_have (tk_guard s)"
    and "\<not> (reading_refused j now n s \<and> cg_refusals (tk_guard s) + 1 > CHIP_TS_MAX_REFUSALS)"
  defines "first \<equiv> fst (burst_stamp j now n s) - of_nat (n - 1) * tk_ticks s"
  shows "1 \<le> gap s first \<and> gap s first \<le> 8 * uint (tk_ticks s)"
proof -
  let ?T = "tk_ticks s" and ?last = "cg_last (tk_guard s)" and ?f = "now - of_nat (n - 1) * tk_ticks s"
  have T: "0 < uint ?T" "uint ?T < 2 ^ 28" using assms(1) by (simp_all add: ticks_ok_def)
  have one: "1 \<le> gap s (?last + ?T) \<and> gap s (?last + ?T) \<le> 8 * uint ?T"
    using T sint_pos_uint [of ?T] by (simp add: gap_def)
  show ?thesis
  proof (cases "reading_refused j now n s")
    case True
    then have "first = ?last + ?T"
      using assms(3) unfolding first_def burst_stamp_def Let_def reading_refused_def chip_ts_guard_refused_def
      by (auto simp: chip_ts_guard_next_def split: prod.splits)
    then show ?thesis using one by simp
  next
    case False
    then have ok: "chip_ts_guard_forward_ok (tk_guard s) ?f (?T * TS_FWD_SLACK_SETS)"
      "chip_ts_guard_backward_ok (tk_guard s) ?f j" by (simp_all add: reading_refused_def)
    then have first: "first = ?f + chip_ts_guard_shift (tk_guard s) ?f ?T j"
      unfolding first_def burst_stamp_def Let_def by (simp add: chip_ts_guard_accepted_def chip_ts_guard_shift_def Let_def)
    show ?thesis
    proof (cases "sint (?f - ?last) > 0")
      case True
      then have d: "?f - ?last \<le> ?T * TS_FWD_SLACK_SETS"
        using ok(1) assms(2) by (simp add: chip_ts_guard_forward_ok_def Let_def)
      then have "uint (?f - ?last) \<le> 8 * uint ?T" using slack_uint [OF T(2)] by (simp add: word_le_def)
      moreover have "first = ?f" using True assms(2) first by (simp add: chip_ts_guard_shift_def)
      moreover from calculation have "gap s first = uint (?f - ?last)"
        using T(2) sint_pos_uint [of "?f - ?last"] by (simp add: gap_def)
      ultimately show ?thesis using True by (simp add: gap_def)
    next
      case False
      have z: "?f - ?last = 0" if "sint (?f - ?last) = 0" using that unfolding signed_eq_0_iff .
      have "- (?f - ?last) \<le> j"
      proof (cases "sint (?f - ?last) = 0")
        case True
        then show ?thesis unfolding z [OF True] by simp
      next
        case nz: False
        with False have "\<not> sint (?f - ?last) \<ge> 0" by simp
        then show ?thesis using ok(2) assms(2) unfolding chip_ts_guard_backward_ok_def Let_def by (simp only: if_False if_True simp_thms)
      qed
      then have "\<not> - (?f - ?last) > j" by (simp only: not_less)
      then have "chip_ts_guard_shift (tk_guard s) ?f ?T j = - (?f - ?last) + ?T"
        using False assms(2) unfolding chip_ts_guard_shift_def Let_def by (simp only: if_False if_True simp_thms)
      then have "first = ?last + ?T" using first by simp
      then show ?thesis using one by simp
    qed
  qed
qed

end
