(* ===== verification/Ism330.thy ===== *)
theory Ism330
  imports ChipTs Ieee "HOL-Library.Signed_Division"
begin

text \<open>
  The driver of the ISM330DHCX, src/drivers/ism330dhcx.c: the register image a configuration writes, the drain of the
  part's FIFO with its tagged words, the stamps of a burst, and the built-in self test. The part is any state behind
  a bus; waiting is not modelled, a part may change with every transfer.
\<close>

section \<open>Constants\<close>

definition REG_FIFO_CTRL1 :: u8 where "REG_FIFO_CTRL1 = 0x07"
definition REG_FIFO_CTRL2 :: u8 where "REG_FIFO_CTRL2 = 0x08"
definition REG_FIFO_CTRL3 :: u8 where "REG_FIFO_CTRL3 = 0x09"
definition REG_FIFO_CTRL4 :: u8 where "REG_FIFO_CTRL4 = 0x0A"
definition REG_INT1_CTRL :: u8 where "REG_INT1_CTRL = 0x0D"
definition REG_WHO_AM_I :: u8 where "REG_WHO_AM_I = 0x0F"
definition REG_CTRL1_XL :: u8 where "REG_CTRL1_XL = 0x10"
definition REG_CTRL2_G :: u8 where "REG_CTRL2_G = 0x11"
definition REG_CTRL3_C :: u8 where "REG_CTRL3_C = 0x12"
definition REG_FUNC_CFG_ACCESS :: u8 where "REG_FUNC_CFG_ACCESS = 0x01"
definition REG_CTRL4_C :: u8 where "REG_CTRL4_C = 0x13"
definition CTRL4_I2C_DISABLE :: u8 where "CTRL4_I2C_DISABLE = 0x04"
definition REG_CTRL5_C :: u8 where "REG_CTRL5_C = 0x14"
definition REG_STATUS_REG :: u8 where "REG_STATUS_REG = 0x1E"
definition REG_CTRL9_XL :: u8 where "REG_CTRL9_XL = 0x18"
definition REG_CTRL10_C :: u8 where "REG_CTRL10_C = 0x19"
definition REG_OUT_TEMP_L :: u8 where "REG_OUT_TEMP_L = 0x20"
definition REG_OUTX_L_G :: u8 where "REG_OUTX_L_G = 0x22"
definition REG_OUTX_L_A :: u8 where "REG_OUTX_L_A = 0x28"
definition REG_FIFO_STATUS1 :: u8 where "REG_FIFO_STATUS1 = 0x3A"
definition REG_TIMESTAMP0 :: u8 where "REG_TIMESTAMP0 = 0x40"
definition REG_FIFO_DATA_OUT_TAG :: u8 where "REG_FIFO_DATA_OUT_TAG = 0x78"

definition TAG_GYRO_NC :: u8 where "TAG_GYRO_NC = 0x01"
definition TAG_ACCEL_NC :: u8 where "TAG_ACCEL_NC = 0x02"
definition TAG_TEMP :: u8 where "TAG_TEMP = 0x03"
definition WHO_AM_I_VALUE :: u8 where "WHO_AM_I_VALUE = 0x6B"
definition ST_FIFO_BURST_WORDS :: nat where "ST_FIFO_BURST_WORDS = 32"
definition ST_FIFO_BURST_US :: nat where "ST_FIFO_BURST_US = 400"
definition TS_MAX_JITTER_TICKS :: u32 where "TS_MAX_JITTER_TICKS = 40000"

lemmas ism_regs = REG_FIFO_CTRL1_def REG_FIFO_CTRL2_def REG_FIFO_CTRL3_def REG_FIFO_CTRL4_def REG_INT1_CTRL_def
  REG_WHO_AM_I_def REG_CTRL1_XL_def REG_CTRL2_G_def REG_CTRL3_C_def REG_FUNC_CFG_ACCESS_def REG_CTRL4_C_def
  CTRL4_I2C_DISABLE_def REG_CTRL5_C_def REG_STATUS_REG_def REG_CTRL9_XL_def REG_CTRL10_C_def REG_OUT_TEMP_L_def
  REG_OUTX_L_G_def REG_OUTX_L_A_def REG_FIFO_STATUS1_def REG_TIMESTAMP0_def REG_FIFO_DATA_OUT_TAG_def

definition st_fifo_burst_words :: "u32 \<Rightarrow> nat" where
  "st_fifo_burst_words hz =
     (if hz = 0 then ST_FIFO_BURST_WORDS
      else let bytes = unat hz * ST_FIFO_BURST_US div 8000000;
               words = bytes div 7;
               words = (if words < 1 then 1 else words)
           in if words > ST_FIFO_BURST_WORDS then ST_FIFO_BURST_WORDS else words)"

section \<open>State and configuration\<close>

text \<open>The static state of the driver.\<close>

record ism_drv = ts_state +
  is_accel_scale :: f32
  is_gyro_scale :: f32
  is_last_temp :: f32
  is_next_seq :: u32

record imu_cfg =
  ig_odr_mhz :: int
  ig_accel_g :: int
  ig_gyro_dps :: int
  ig_fifo_wm :: int

definition ism_odr_encode :: "int \<Rightarrow> u8" where
  "ism_odr_encode mhz =
     (if mhz \<le> 13016 then 0x1 else if mhz \<le> 26031 then 0x2 else if mhz \<le> 52063 then 0x3
      else if mhz \<le> 104125 then 0x4 else if mhz \<le> 208250 then 0x5 else if mhz \<le> 416500 then 0x6
      else if mhz \<le> 833000 then 0x7 else if mhz \<le> 1666000 then 0x8 else if mhz \<le> 3332000 then 0x9 else 0xA)"

fun first_step :: "int list \<Rightarrow> int \<Rightarrow> int" where
  "first_step [] mhz = 0"
| "first_step [s] mhz = s"
| "first_step (s # ss) mhz = (if mhz \<le> s then s else first_step ss mhz)"

definition ism_odr_actual :: "int \<Rightarrow> int" where
  "ism_odr_actual mhz =
     first_step [13016, 26031, 52063, 104125, 208250, 416500, 833000, 1666000, 3332000, 6664000] mhz"

text \<open>Constants of the source in single precision.\<close>

definition GRAVITY :: f32 where "GRAVITY = f32_of_rat (980665 / 100000)"

definition xl_fs_encode :: "int \<Rightarrow> f32 \<times> u8" where
  "xl_fs_encode g =
     (if g = 2 then (f32_mul (f32_of_rat (61 / 1000000)) GRAVITY, 0x00)
      else if g = 4 then (f32_mul (f32_of_rat (122 / 1000000)) GRAVITY, 0x08)
      else if g = 16 then (f32_mul (f32_of_rat (488 / 1000000)) GRAVITY, 0x04)
      else (f32_mul (f32_of_rat (244 / 1000000)) GRAVITY, 0x0C))"

text \<open>\<open>M_PI\<close> is the double nearest to pi.\<close>

definition MDPS_TO_RAD :: f32 where
  "MDPS_TO_RAD = f32_of_rat (dconst (dconst (dconst (314159265358979323846 / 10 ^ 20) / 180) / 1000))"

definition gy_fs_encode :: "int \<Rightarrow> f32 \<times> u8" where
  "gy_fs_encode dps =
     (if dps = 125 then (f32_mul (f32_of_rat (4375 / 1000)) MDPS_TO_RAD, 0x02)
      else if dps = 250 then (f32_mul (f32_of_rat (875 / 100)) MDPS_TO_RAD, 0x00)
      else if dps = 500 then (f32_mul (f32_of_rat (175 / 10)) MDPS_TO_RAD, 0x04)
      else if dps = 1000 then (f32_mul (f32_of_rat 35) MDPS_TO_RAD, 0x08)
      else if dps = 4000 then (f32_mul (f32_of_rat 140) MDPS_TO_RAD, 0x01)
      else (f32_mul (f32_of_rat 70) MDPS_TO_RAD, 0x0C))"

section \<open>Probe, reset and init\<close>

definition ism_probe :: "'d imud_bus \<Rightarrow> 'd \<Rightarrow> int \<times> 'd" where
  "ism_probe bus d =
     (case bus_reg_read bus REG_WHO_AM_I d of
        (None, d) \<Rightarrow> (-1, d)
      | (Some who, d) \<Rightarrow> (if who \<noteq> WHO_AM_I_VALUE then -1 else 0, d))"

fun ism_reset_poll :: "nat \<Rightarrow> 'd imud_bus \<Rightarrow> 'd \<Rightarrow> int \<times> 'd" where
  "ism_reset_poll 0 bus d = (-1, d)"
| "ism_reset_poll (Suc n) bus d =
     (case bus_reg_read bus REG_CTRL3_C d of
        (None, d) \<Rightarrow> (-1, d)
      | (Some val, d) \<Rightarrow> if val AND 0x01 = 0 then (0, d) else ism_reset_poll n bus d)"

definition ism_reset :: "'d imud_bus \<Rightarrow> 'd \<Rightarrow> int \<times> 'd" where
  "ism_reset bus d =
     (case reg_writes bus [(REG_FIFO_CTRL4, 0x00), (REG_CTRL3_C, 0x01)] d of
        (False, d) \<Rightarrow> (-1, d)
      | (True, d) \<Rightarrow> ism_reset_poll 50 bus d)"

text \<open>The writes of \<open>ism_init\<close> in their order.\<close>

definition ism_wm :: "int \<Rightarrow> int" where
  "ism_wm fifo_wm = (let wm = fifo_wm * 2 in if wm > 511 then 511 else wm)"

definition ism_init_writes :: "bus_kind \<Rightarrow> imu_cfg \<Rightarrow> (u8 \<times> u8) list" where
  "ism_init_writes knd cfg =
     (let odr = ism_odr_encode (ig_odr_mhz cfg);
          xlfs = snd (xl_fs_encode (ig_accel_g cfg));
          gyfs = snd (gy_fs_encode (ig_gyro_dps cfg));
          wm = ism_wm (ig_fifo_wm cfg)
      in [(REG_FUNC_CFG_ACCESS, 0x00)] @
         (if knd = BUS_SPI then [(REG_CTRL4_C, CTRL4_I2C_DISABLE)] else []) @
         [(REG_CTRL1_XL, push_bit 4 odr OR xlfs OR 0x02),
          (REG_CTRL2_G, push_bit 4 odr OR gyfs),
          (REG_CTRL3_C, 0x44),
          (REG_CTRL9_XL, 0x02),
          (REG_CTRL10_C, 0x20),
          (REG_FIFO_CTRL4, 0x00),
          (REG_FIFO_CTRL1, word_of_int wm AND 0xFF),
          (REG_FIFO_CTRL2, word_of_int (drop_bit 8 wm) AND 0x01),
          (REG_FIFO_CTRL3, push_bit 4 odr OR odr),
          (REG_FIFO_CTRL4, push_bit 6 (st_fifo_ts_dec_batch (ig_fifo_wm cfg)) OR 0x26),
          (REG_INT1_CTRL, 0x08)])"

definition temp_of_raw :: "16 word \<Rightarrow> f32" where
  "temp_of_raw rt = f32_add (f32_div (f32_of_int (sint rt)) (f32_of_rat 256)) (f32_of_rat 25)"

definition ism_init :: "'d imud_bus \<Rightarrow> imu_cfg \<Rightarrow> ism_drv \<Rightarrow> 'd \<Rightarrow> int \<times> ism_drv \<times> 'd" where
  "ism_init bus cfg s d =
     (case reg_writes bus (ism_init_writes (bus_kind bus) cfg) d of
        (False, d) \<Rightarrow> (-1, s, d)
      | (True, d) \<Rightarrow>
          (case bus_burst_read bus REG_OUT_TEMP_L 2 d of
             (tb, d) \<Rightarrow>
               (0, s\<lparr>is_accel_scale := fst (xl_fs_encode (ig_accel_g cfg)),
                    is_gyro_scale := fst (gy_fs_encode (ig_gyro_dps cfg)),
                    is_last_temp := (case tb of Some tb \<Rightarrow> temp_of_raw (reg_s16le tb) | None \<Rightarrow> f32_of_rat 25),
                    is_next_seq := 0, tk_rejects := 0, tk_reject_next := 1, tk_fwd_rejects := 0, tk_fwd_next := 1,
                    tk_bwd_rejects := 0, tk_bwd_next := 1, tk_guard := chip_ts_guard_reset (tk_guard s),
                    tk_ticks := 40000000 div word_of_int (ism_odr_actual (ig_odr_mhz cfg))\<rparr>, d)))"

definition ism_ts_tick_ns_actual :: "'d imud_bus \<Rightarrow> 'd \<Rightarrow> u32 \<times> 'd" where
  "ism_ts_tick_ns_actual bus d = st_freq_fine_tick_ns bus 25000 d"

section \<open>The drain\<close>

text \<open>What the loop over the FIFO words carries.\<close>

record ism_drain =
  dr_s :: ism_drv
  dr_buf :: "imu_sample list"
  dr_produced :: nat
  dr_accel :: "f32 list"
  dr_gyro :: "f32 list"
  dr_have_accel :: bool
  dr_have_gyro :: bool
  dr_set_tag :: u8
  dr_fts :: st_fifo_ts

definition scaled :: "f32 \<Rightarrow> bytes \<Rightarrow> f32 list" where
  "scaled k word = map (\<lambda>i. f32_mul (f32_of_int (sint (reg_s16le (drop i word)))) k) [1, 3, 5]"

definition axes_ned :: "f32 list \<Rightarrow> f32 list" where
  "axes_ned v = [v ! 0, f32_neg (v ! 1), f32_neg (v ! 2)]"

definition ism_tag :: "bytes \<Rightarrow> ism_drain \<Rightarrow> ism_drain" where
  "ism_tag word r =
     (let tag = drop_bit 3 (word ! 0) AND 0x1F
      in if tag = TAG_ACCEL_NC
         then r\<lparr>dr_accel := scaled (is_accel_scale (dr_s r)) word, dr_have_accel := True, dr_set_tag := word ! 0\<rparr>
         else if tag = TAG_GYRO_NC
         then r\<lparr>dr_gyro := scaled (is_gyro_scale (dr_s r)) word, dr_have_gyro := True, dr_set_tag := word ! 0\<rparr>
         else if tag = ST_TAG_TIMESTAMP
         then r\<lparr>dr_fts := st_fifo_ts_note_word (dr_fts r) word (dr_produced r)\<rparr>
         else if tag = TAG_TEMP
         then r\<lparr>dr_s := (dr_s r)\<lparr>is_last_temp := temp_of_raw (reg_s16le (drop 1 word))\<rparr>\<rparr>
         else r)"

definition ism_pair :: "ism_drain \<Rightarrow> ism_drain" where
  "ism_pair r =
     (if dr_have_accel r \<and> dr_have_gyro r
      then let p = dr_produced r
           in r\<lparr>dr_buf := (dr_buf r)[p := (dr_buf r ! p)\<lparr>is_accel := axes_ned (dr_accel r), is_gyro := axes_ned (dr_gyro r),
                     is_temp_c := is_last_temp (dr_s r), is_seq := is_next_seq (dr_s r), is_chip_ts := 0\<rparr>],
                dr_s := (dr_s r)\<lparr>is_next_seq := is_next_seq (dr_s r) + 1\<rparr>,
                dr_produced := p + 1, dr_have_accel := False, dr_have_gyro := False,
                dr_fts := st_fifo_ts_note_set (dr_fts r) (dr_set_tag r)\<rparr>
      else r)"

definition ism_word :: "bytes \<Rightarrow> ism_drain \<Rightarrow> ism_drain" where
  "ism_word word r = ism_pair (ism_tag word r)"

text \<open>The inner loop over the words of a block, with the count of words looked at.\<close>

fun ism_block :: "nat \<Rightarrow> bytes list \<Rightarrow> nat \<Rightarrow> ism_drain \<Rightarrow> nat \<times> ism_drain" where
  "ism_block room [] i r = (i, r)"
| "ism_block room (w # ws) i r = (if dr_produced r < room then ism_block room ws (i + 1) (ism_word w r) else (i, r))"

definition words_of :: "nat \<Rightarrow> bytes \<Rightarrow> bytes list" where
  "words_of n block = map (\<lambda>w. take 7 (drop (w * 7) block)) [0..<n]"

lemma ism_block_index: "i \<le> fst (ism_block room ws i r)"
  by (induction room ws i r rule: ism_block.induct) auto

lemma ism_block_advances: "0 < n \<Longrightarrow> dr_produced r < room \<Longrightarrow> i < fst (ism_block room (words_of n block) i r)"
proof -
  assume "0 < n" "dr_produced r < room"
  then obtain w ws where "words_of n block = w # ws" by (cases "words_of n block") (auto simp: words_of_def)
  then show ?thesis using ism_block_index [of "i + 1" room ws "ism_word w r"] \<open>dr_produced r < room\<close> by simp
qed

function ism_words :: "'d imud_bus \<Rightarrow> nat \<Rightarrow> nat \<Rightarrow> nat \<Rightarrow> nat \<Rightarrow> ism_drain \<Rightarrow> 'd \<Rightarrow> bool \<times> ism_drain \<times> 'd" where
  "ism_words bus n_words burst_words room i r d =
     (if i < n_words \<and> dr_produced r < room \<and> burst_words \<noteq> 0
      then let want = min (n_words - i) burst_words
           in case bus_burst_read bus REG_FIFO_DATA_OUT_TAG (want * 7) d of
                (None, d) \<Rightarrow> (False, r, d)
              | (Some block, d) \<Rightarrow>
                  let p = ism_block room (words_of want block) i r
                  in ism_words bus n_words burst_words room (fst p) (snd p) d
      else (True, r, d))"
  by pat_completeness auto
termination
  by (relation "measure (\<lambda>(bus, n_words, burst_words, room, i, r, d). n_words - i)")
    (auto intro!: diff_less_mono2 ism_block_advances)

declare ism_words.simps [simp del]

text \<open>The stamps of a burst of \<open>n\<close> when the counter read \<open>now_ts\<close>.\<close>

definition ism_stamp :: "bool \<Rightarrow> u32 \<Rightarrow> nat \<Rightarrow> st_fifo_ts \<Rightarrow> imu_sample list \<Rightarrow> 'a ts_state_scheme \<Rightarrow>
    imu_sample list \<times> 'a ts_state_scheme" where
  "ism_stamp overflow now_ts produced fts buf s =
     (case st_fifo_ts_apply fts buf produced (tk_ticks s) now_ts of
        (anchored, buf) \<Rightarrow>
          (let (buf, s) =
             (if \<not> anchored
              then let s = (if overflow then s\<lparr>tk_guard := chip_ts_guard_reset (tk_guard s)\<rparr> else s);
                       (burst_ts, s) = burst_stamp TS_MAX_JITTER_TICKS now_ts produced s;
                       buf = stamp_back (tk_ticks s) burst_ts produced buf;
                       s = (if ft_have_word fts then count_batched s else s)
                   in (buf, s)
              else (seam_shift TS_MAX_JITTER_TICKS produced buf s, s))
           in (buf, s\<lparr>tk_guard := chip_ts_guard_note (tk_guard s) (is_chip_ts (buf ! (produced - 1)))\<rparr>)))"

text \<open>\<open>None\<close> for the count is a return that does not set it.\<close>

definition ism_read ::
  "'d imud_bus \<Rightarrow> imu_sample list \<Rightarrow> nat \<Rightarrow> ism_drv \<Rightarrow> 'd \<Rightarrow> (int \<times> nat option \<times> imu_sample list) \<times> ism_drv \<times> 'd" where
  "ism_read bus buf room s d =
     (case bus_burst_read bus REG_FIFO_STATUS1 2 d of
        (None, d) \<Rightarrow> ((-1, None, buf), s, d)
      | (Some st, d) \<Rightarrow>
          (let n_words = unat (push_bit 8 (ucast (st ! 1 AND 0x03)) OR ucast (st ! 0) :: u16);
               overflow = (st ! 1 AND 0x40 \<noteq> 0)
           in if n_words = 0 then ((if overflow then 1 else 0, Some 0, buf), s, d)
              else case ism_words bus n_words (st_fifo_burst_words (bus_spi_hz bus)) room 0
                  \<lparr>dr_s = s, dr_buf = buf, dr_produced = 0, dr_accel = [0, 0, 0], dr_gyro = [0, 0, 0],
                   dr_have_accel = False, dr_have_gyro = False, dr_set_tag = 0, dr_fts = st_fifo_ts_begin\<rparr> d of
                (False, r, d) \<Rightarrow> ((-1, None, dr_buf r), dr_s r, d)
              | (True, r, d) \<Rightarrow>
                  (let (buf, s, d) =
                     (if dr_produced r > 0
                      then case bus_burst_read bus REG_TIMESTAMP0 4 d of
                             (None, d) \<Rightarrow> (dr_buf r, dr_s r, d)
                           | (Some ts, d) \<Rightarrow>
                               let (buf, s) = ism_stamp overflow (le32 ts) (dr_produced r) (dr_fts r) (dr_buf r) (dr_s r)
                               in (buf, s, d)
                      else (dr_buf r, dr_s r, d))
                   in ((if overflow then 1 else 0, Some (dr_produced r), buf), s, d))))"

section \<open>Self test\<close>

text \<open>Steps of which the first that fails ends the run.\<close>

definition and_then :: "('d \<Rightarrow> 'a option \<times> 'd) \<Rightarrow> ('a \<Rightarrow> 'd \<Rightarrow> 'b option \<times> 'd) \<Rightarrow> 'd \<Rightarrow> 'b option \<times> 'd" where
  "and_then m k d = (case m d of (None, d) \<Rightarrow> (None, d) | (Some a, d) \<Rightarrow> k a d)"

definition wr :: "'d imud_bus \<Rightarrow> u8 \<Rightarrow> u8 \<Rightarrow> 'd \<Rightarrow> unit option \<times> 'd" where
  "wr bus reg val d = (case bus_reg_write bus reg val d of (ok, d) \<Rightarrow> (if ok then Some () else None, d))"

record imu_selftest =
  sf_accel_mg :: "rat list"
  sf_gyro_dps :: "rat list"
  sf_accel_lo_mg :: rat
  sf_accel_hi_mg :: rat
  sf_gyro_lo_dps :: rat
  sf_gyro_hi_dps :: rat

definition ST_AVG_N :: nat where "ST_AVG_N = 5"
definition ST_STATUS_XLDA :: u8 where "ST_STATUS_XLDA = 0x01"
definition ST_STATUS_GDA :: u8 where "ST_STATUS_GDA = 0x02"
definition ST_MG_PER_LSB :: rat where "ST_MG_PER_LSB = dconst (122 / 1000)"
definition ST_MDPS_PER_LSB :: rat where "ST_MDPS_PER_LSB = 70"

fun st_wait :: "nat \<Rightarrow> 'd imud_bus \<Rightarrow> u8 \<Rightarrow> 'd \<Rightarrow> unit option \<times> 'd" where
  "st_wait 0 bus ready d = (None, d)"
| "st_wait (Suc n) bus ready d =
     (case bus_reg_read bus REG_STATUS_REG d of
        (None, d) \<Rightarrow> (None, d)
      | (Some st, d) \<Rightarrow> if st AND ready \<noteq> 0 then (Some (), d) else st_wait n bus ready d)"

text \<open>The loop over \<open>ST_AVG_N + 1\<close> samples, \<open>n\<close> of them left, that drops the first.\<close>

fun st_average_loop :: "nat \<Rightarrow> 'd imud_bus \<Rightarrow> u8 \<Rightarrow> u8 \<Rightarrow> int list \<Rightarrow> 'd \<Rightarrow> int list option \<times> 'd" where
  "st_average_loop 0 bus base ready acc d = (Some acc, d)"
| "st_average_loop (Suc n) bus base ready acc d =
     (case st_wait 200 bus ready d of
        (None, d) \<Rightarrow> (None, d)
      | (Some _, d) \<Rightarrow>
          (case bus_burst_read bus base 6 d of
             (None, d) \<Rightarrow> (None, d)
           | (Some b, d) \<Rightarrow>
               st_average_loop n bus base ready
                 (if n = ST_AVG_N then acc else map (\<lambda>a. acc ! a + sint (reg_s16le (drop (2 * a) b))) [0, 1, 2]) d))"

definition st_average :: "'d imud_bus \<Rightarrow> u8 \<Rightarrow> u8 \<Rightarrow> 'd \<Rightarrow> rat list option \<times> 'd" where
  "st_average bus base ready d =
     (case st_average_loop (ST_AVG_N + 1) bus base ready [0, 0, 0] d of
        (acc, d) \<Rightarrow> (map_option (map (\<lambda>a. dconst (of_int a / of_nat ST_AVG_N))) acc, d))"

definition response :: "rat list \<Rightarrow> rat list \<Rightarrow> (rat \<Rightarrow> rat) \<Rightarrow> rat list" where
  "response on off scale = map (\<lambda>a. scale \<bar>dconst (on ! a - off ! a)\<bar>) [0, 1, 2]"

text \<open>The measurements between the set-up and the label \<open>done\<close>.\<close>

definition st_measure :: "'d imud_bus \<Rightarrow> imu_selftest \<Rightarrow> 'd \<Rightarrow> imu_selftest option \<times> 'd" where
  "st_measure bus out =
     and_then (st_average bus REG_OUTX_L_A ST_STATUS_XLDA) (\<lambda>off.
     and_then (wr bus REG_CTRL5_C 0x01) (\<lambda>_.
     and_then (st_average bus REG_OUTX_L_A ST_STATUS_XLDA) (\<lambda>on.
     and_then (wr bus REG_CTRL5_C 0x00) (\<lambda>_.
     let out = out\<lparr>sf_accel_mg := response on off (\<lambda>v. dconst (v * ST_MG_PER_LSB))\<rparr> in
     and_then (st_average bus REG_OUTX_L_G ST_STATUS_GDA) (\<lambda>off.
     and_then (wr bus REG_CTRL5_C 0x04) (\<lambda>_.
     and_then (st_average bus REG_OUTX_L_G ST_STATUS_GDA) (\<lambda>on d.
       (Some (out\<lparr>sf_gyro_dps := response on off (\<lambda>v. dconst (dconst (v * ST_MDPS_PER_LSB) / 1000))\<rparr>), d))))))))"

text \<open>The result is meaningful only with return code 0.\<close>

definition ism_self_test :: "'d imud_bus \<Rightarrow> 'd \<Rightarrow> int \<times> imu_selftest option \<times> 'd" where
  "ism_self_test bus d =
     (let out = \<lparr>sf_accel_mg = [0, 0, 0], sf_gyro_dps = [0, 0, 0], sf_accel_lo_mg = 40, sf_accel_hi_mg = 1700,
            sf_gyro_lo_dps = 150, sf_gyro_hi_dps = 700\<rparr>
      in case ism_reset bus d of (rc, d) \<Rightarrow>
        if rc < 0 then (-1, None, d)
        else case reg_writes bus
            ([(REG_FUNC_CFG_ACCESS, 0x00)] @
             (if bus_kind bus = BUS_SPI then [(REG_CTRL4_C, CTRL4_I2C_DISABLE)] else []) @
             [(REG_CTRL3_C, 0x44), (REG_CTRL9_XL, 0x02), (REG_CTRL1_XL, push_bit 4 0x3 OR 0x08),
              (REG_CTRL2_G, push_bit 4 0x3 OR 0x0C)]) d of
          (False, d) \<Rightarrow> (-1, None, d)
        | (True, d) \<Rightarrow>
            (case st_measure bus out d of (res, d) \<Rightarrow>
               (case wr bus REG_CTRL5_C 0x00 d of
                  (None, d) \<Rightarrow> (-1, None, d)
                | (Some _, d) \<Rightarrow> (case res of None \<Rightarrow> (-1, None, d) | Some r \<Rightarrow> (0, Some r, d)))))"

section \<open>The drain takes every word\<close>

definition word_tag :: "bytes \<Rightarrow> u8" where "word_tag w = drop_bit 3 (w ! 0) AND 0x1F"

lemma ism_tag_keeps [simp]:
  "dr_produced (ism_tag w r) = dr_produced r" "dr_buf (ism_tag w r) = dr_buf r"
  "is_next_seq (dr_s (ism_tag w r)) = is_next_seq (dr_s r)"
  "is_accel_scale (dr_s (ism_tag w r)) = is_accel_scale (dr_s r)" "is_gyro_scale (dr_s (ism_tag w r)) = is_gyro_scale (dr_s r)"
  "tk_ticks (dr_s (ism_tag w r)) = tk_ticks (dr_s r)" "tk_guard (dr_s (ism_tag w r)) = tk_guard (dr_s r)"
  by (simp_all add: ism_tag_def Let_def)

lemma ism_word_keeps [simp]:
  "length (dr_buf (ism_word w r)) = length (dr_buf r)"
  "is_accel_scale (dr_s (ism_word w r)) = is_accel_scale (dr_s r)" "is_gyro_scale (dr_s (ism_word w r)) = is_gyro_scale (dr_s r)"
  "tk_ticks (dr_s (ism_word w r)) = tk_ticks (dr_s r)" "tk_guard (dr_s (ism_word w r)) = tk_guard (dr_s r)"
  by (simp_all add: ism_word_def ism_pair_def Let_def)

lemma ism_word_produced: "dr_produced r \<le> dr_produced (ism_word w r)"
  by (simp add: ism_word_def ism_pair_def Let_def)

lemma fold_word_produced: "dr_produced r \<le> dr_produced (fold ism_word ws r)"
  by (induction ws arbitrary: r) (auto intro: order_trans [OF ism_word_produced])

text \<open>How many words a loop over \<open>ws\<close> takes until the caller's buffer is full.\<close>

fun words_used :: "nat \<Rightarrow> bytes list \<Rightarrow> ism_drain \<Rightarrow> nat" where
  "words_used room [] r = 0"
| "words_used room (w # ws) r = (if dr_produced r < room then Suc (words_used room ws (ism_word w r)) else 0)"

lemma ism_word_one_more: "dr_produced (ism_word w r) \<le> Suc (dr_produced r)"
  by (simp add: ism_word_def ism_pair_def Let_def)

lemma words_used_facts:
  assumes "dr_produced r \<le> room"
  shows "dr_produced (fold ism_word (take (words_used room ws r) ws) r) \<le> room \<and> words_used room ws r \<le> length ws \<and>
    (words_used room ws r = length ws \<or> dr_produced (fold ism_word (take (words_used room ws r) ws) r) = room)"
  using assms
proof (induction ws arbitrary: r)
  case (Cons w ws)
  show ?case
  proof (cases "dr_produced r < room")
    case True
    then have "dr_produced (ism_word w r) \<le> room" using ism_word_one_more [of w r] by simp
    from Cons.IH [OF this] show ?thesis using True by simp
  qed (use Cons.prems in simp)
qed simp

lemma words_used_append:
  "words_used room (us @ vs) r =
     (if words_used room us r = length us then length us + words_used room vs (fold ism_word us r) else words_used room us r)"
  by (induction us arbitrary: r) auto

lemma words_used_all: "dr_produced (fold ism_word ws r) < room \<Longrightarrow> words_used room ws r = length ws"
proof (induction ws arbitrary: r)
  case (Cons w ws)
  have "dr_produced r < room"
    using Cons.prems ism_word_produced [of r w] fold_word_produced [of "ism_word w r" ws] by simp
  then show ?case using Cons by simp
qed simp

lemma ism_block_used:
  "ism_block room ws i r = (i + words_used room ws r, fold ism_word (take (words_used room ws r) ws) r)"
  by (induction room ws i r rule: ism_block.induct) auto

text \<open>A part whose FIFO gives its words out in order, a status register that counts them, and a counter.\<close>

record fifo_part =
  fp_words :: "bytes list"
  fp_ovr :: bool
  fp_now :: u32

lemma same_words: "fp_words d = ws \<Longrightarrow> d\<lparr>fp_words := ws\<rparr> = d"
  by (cases d) simp

definition fifo_read :: "u8 \<Rightarrow> nat \<Rightarrow> fifo_part \<Rightarrow> bytes option \<times> fifo_part" where
  "fifo_read reg n d =
     (if reg = REG_FIFO_STATUS1
      then (Some [of_nat (length (fp_words d) mod 256), of_nat (length (fp_words d) div 256) OR (if fp_ovr d then 0x40 else 0)], d)
      else if reg = REG_FIFO_DATA_OUT_TAG
      then (Some (concat (take (n div 7) (fp_words d))), d\<lparr>fp_words := drop (n div 7) (fp_words d)\<rparr>)
      else if reg = REG_TIMESTAMP0
      then (Some [ucast (fp_now d), ucast (drop_bit 8 (fp_now d)), ucast (drop_bit 16 (fp_now d)), ucast (drop_bit 24 (fp_now d))], d)
      else (None, d))"

definition fifo_bus :: "fifo_part imud_bus \<Rightarrow> bool" where
  "fifo_bus bus \<longleftrightarrow>
     (\<forall>d. bus_burst_read bus REG_FIFO_STATUS1 2 d = fifo_read REG_FIFO_STATUS1 2 d \<and>
        bus_burst_read bus REG_TIMESTAMP0 4 d = fifo_read REG_TIMESTAMP0 4 d \<and>
        (\<forall>k. 0 < k \<and> k \<le> length (fp_words d) \<and> (\<forall>w \<in> set (fp_words d). length w = 7) \<longrightarrow>
           bus_burst_read bus REG_FIFO_DATA_OUT_TAG (k * 7) d = fifo_read REG_FIFO_DATA_OUT_TAG (k * 7) d))"

definition fifo_ok :: "fifo_part \<Rightarrow> bool" where
  "fifo_ok d \<longleftrightarrow> (\<forall>w \<in> set (fp_words d). length w = 7) \<and> length (fp_words d) < 1024"

lemma words_of_concat:
  "\<forall>w \<in> set ws. length w = 7 \<Longrightarrow> words_of (length ws) (concat ws) = ws"
proof (induction ws)
  case (Cons w ws)
  have "map (\<lambda>k. take 7 (drop (k * 7) (w @ concat ws))) [0..<Suc (length ws)] =
      take 7 (w @ concat ws) # map (\<lambda>k. take 7 (drop (Suc k * 7) (w @ concat ws))) [0..<length ws]"
    by (simp only: map_upt_Suc) simp
  then show ?case using Cons by (simp add: words_of_def)
qed (simp add: words_of_def)

text \<open>The loop takes words until the buffer is full; what the part has given out by then is at most the rest of one block
  more.\<close>

lemma ism_words_any:
  assumes "fifo_bus bus" "\<forall>w \<in> set (fp_words d). length w = 7" "i + length (fp_words d) = n_words" "0 < bw"
    and "dr_produced r \<le> room"
  defines "u \<equiv> words_used room (fp_words d) r"
  shows "\<exists>c. u \<le> c \<and> c \<le> length (fp_words d) \<and> c < u + bw \<and>
    ism_words bus n_words bw room i r d = (True, fold ism_word (take u (fp_words d)) r, d\<lparr>fp_words := drop c (fp_words d)\<rparr>)"
  using assms(2,3,5) unfolding u_def
proof (induction "length (fp_words d)" arbitrary: i r d rule: less_induct)
  case less
  let ?W = "fp_words d"
  have d0: "d\<lparr>fp_words := fp_words d\<rparr> = d" by (rule same_words) simp
  show ?case
  proof (cases "?W = [] \<or> \<not> dr_produced r < room")
    case True
    then have "words_used room ?W r = 0" by (cases ?W) auto
    moreover have "ism_words bus n_words bw room i r d = (True, r, d)"
      using True less.prems(2) by (subst ism_words.simps) auto
    ultimately show ?thesis using assms(4) d0 by (intro exI [of _ 0]) simp
  next
    case False
    define want where "want = min (n_words - i) bw"
    have want: "0 < want" "want \<le> length ?W" "want \<le> bw" "i < n_words" using False less.prems(2) assms(4) by (auto simp: want_def)
    have "bus_burst_read bus REG_FIFO_DATA_OUT_TAG (want * 7) d = fifo_read REG_FIFO_DATA_OUT_TAG (want * 7) d"
      using assms(1) want less.prems(1) unfolding fifo_bus_def by blast
    then have rd: "bus_burst_read bus REG_FIFO_DATA_OUT_TAG (want * 7) d =
        (Some (concat (take want ?W)), d\<lparr>fp_words := drop want ?W\<rparr>)"
      by (simp add: fifo_read_def ism_regs)
    have wo: "words_of want (concat (take want ?W)) = take want ?W"
    proof -
      have "length (take want ?W) = want" "\<forall>w \<in> set (take want ?W). length w = 7"
        using want(2) less.prems(1) by (auto dest: in_set_takeD)
      then show ?thesis using words_of_concat [of "take want ?W"] by metis
    qed
    let ?k = "words_used room (take want ?W) r"
    let ?r = "fold ism_word (take ?k (take want ?W)) r"
    note k = words_used_facts [OF less.prems(3), of "take want ?W"]
    have step: "ism_words bus n_words bw room i r d = ism_words bus n_words bw room (i + ?k) ?r (d\<lparr>fp_words := drop want ?W\<rparr>)"
      using False want(4) assms(4)
      by (subst ism_words.simps) (simp add: want_def [symmetric] rd wo ism_block_used Let_def del: take_take)
    have split: "words_used room ?W r = (if ?k = want then want + words_used room (drop want ?W) ?r else ?k)"
      using words_used_append [of room "take want ?W" "drop want ?W" r] want(2) by auto
    show ?thesis
    proof (cases "?k = want")
      case True
      then have r: "?r = fold ism_word (take want ?W) r" by simp
      define d' where "d' = d\<lparr>fp_words := drop want ?W\<rparr>"
      define r' where "r' = ?r"
      have W': "fp_words d' = drop want ?W" by (simp add: d'_def)
      have "\<exists>c. words_used room (fp_words d') r' \<le> c \<and> c \<le> length (fp_words d') \<and> c < words_used room (fp_words d') r' + bw \<and>
        ism_words bus n_words bw room (i + want) r' d' =
          (True, fold ism_word (take (words_used room (fp_words d') r') (fp_words d')) r', d'\<lparr>fp_words := drop c (fp_words d')\<rparr>)"
      proof (rule less.hyps)
        show "length (fp_words d') < length ?W" "i + want + length (fp_words d') = n_words"
          using want(1,2) less.prems(2) by (simp_all add: W')
        show "\<forall>w \<in> set (fp_words d'). length w = 7" using less.prems(1) by (auto simp: W' dest: in_set_dropD)
        show "dr_produced r' \<le> room" unfolding r'_def using k by blast
      qed
      then obtain c where c: "words_used room (drop want ?W) ?r \<le> c" "c \<le> length (drop want ?W)"
        "c < words_used room (drop want ?W) ?r + bw"
        "ism_words bus n_words bw room (i + want) ?r (d\<lparr>fp_words := drop want ?W\<rparr>) =
          (True, fold ism_word (take (words_used room (drop want ?W) ?r) (drop want ?W)) ?r,
           d'\<lparr>fp_words := drop c (drop want ?W)\<rparr>)"
        unfolding W' r'_def [symmetric] d'_def [symmetric] by blast
      have "fold ism_word (take (want + words_used room (drop want ?W) ?r) ?W) r =
          fold ism_word (take (words_used room (drop want ?W) ?r) (drop want ?W)) ?r"
        unfolding take_add fold_append comp_apply r ..
      then show ?thesis
        using c want(2) True unfolding split step by (intro exI [of _ "want + c"]) (simp add: add.commute d'_def del: take_take)
    next
      case k': False
      then have full: "dr_produced ?r = room" and le: "?k < want" using k want(2) by auto
      have "0 < ?k" using False want(1) by (cases ?W; cases want) auto
      moreover have "ism_words bus n_words bw room (i + ?k) ?r (d\<lparr>fp_words := drop want ?W\<rparr>) = (True, ?r, d\<lparr>fp_words := drop want ?W\<rparr>)"
        using full by (subst ism_words.simps) simp
      moreover have "take ?k (take want ?W) = take ?k ?W" using le by (simp add: min_absorb1)
      ultimately show ?thesis
        using le want k' unfolding step split by (intro exI [of _ want]) (simp del: take_take)
    qed
  qed
qed

section \<open>What a drain delivers\<close>

text \<open>The words of one sample: an accelerometer and a gyroscope word in either order, with words of other tags before
  and between them.\<close>

definition other_word :: "bytes \<Rightarrow> bool" where
  "other_word w \<longleftrightarrow> word_tag w \<noteq> TAG_ACCEL_NC \<and> word_tag w \<noteq> TAG_GYRO_NC"

definition set_words :: "bytes \<times> bytes \<times> bytes list \<Rightarrow> bool" where
  "set_words x \<longleftrightarrow>
     (case x of (a, g, ws) \<Rightarrow> word_tag a = TAG_ACCEL_NC \<and> word_tag g = TAG_GYRO_NC \<and>
        (\<exists>us vs. (\<forall>w \<in> set (us @ vs). other_word w) \<and> (ws = us @ [a] @ vs @ [g] \<or> ws = us @ [g] @ vs @ [a])))"

definition all_words :: "(bytes \<times> bytes \<times> bytes list) list \<Rightarrow> bytes list" where
  "all_words xs = concat (map (\<lambda>(a, g, ws). ws) xs)"

lemma all_words_split: "all_words xs = all_words (take k xs) @ all_words (drop k xs)"
  unfolding all_words_def concat_append [symmetric] map_append [symmetric] append_take_drop_id ..

definition sample_of :: "ism_drv \<Rightarrow> u32 \<Rightarrow> bytes \<Rightarrow> bytes \<Rightarrow> imu_sample \<Rightarrow> bool" where
  "sample_of s q a g x \<longleftrightarrow> is_accel x = axes_ned (scaled (is_accel_scale s) a) \<and>
     is_gyro x = axes_ned (scaled (is_gyro_scale s) g) \<and> is_seq x = q"

definition same_pairing :: "ism_drain \<Rightarrow> ism_drain \<Rightarrow> bool" where
  "same_pairing r r' \<longleftrightarrow> dr_buf r' = dr_buf r \<and> dr_produced r' = dr_produced r \<and> dr_accel r' = dr_accel r \<and>
     dr_gyro r' = dr_gyro r \<and> dr_have_accel r' = dr_have_accel r \<and> dr_have_gyro r' = dr_have_gyro r \<and>
     is_next_seq (dr_s r') = is_next_seq (dr_s r)"

lemma tags_differ [simp]: "TAG_ACCEL_NC \<noteq> TAG_GYRO_NC" "TAG_GYRO_NC \<noteq> TAG_ACCEL_NC"
  by (simp_all add: TAG_ACCEL_NC_def TAG_GYRO_NC_def)

lemma ism_word_other:
  "other_word w \<Longrightarrow> \<not> (dr_have_accel r \<and> dr_have_gyro r) \<Longrightarrow> same_pairing r (ism_word w r)"
  by (auto simp: ism_word_def ism_tag_def ism_pair_def other_word_def word_tag_def same_pairing_def Let_def)

lemma fold_word_other:
  "\<forall>w \<in> set ws. other_word w \<Longrightarrow> \<not> (dr_have_accel r \<and> dr_have_gyro r) \<Longrightarrow> same_pairing r (fold ism_word ws r)"
proof (induction ws arbitrary: r)
  case (Cons w ws)
  then have w: "same_pairing r (ism_word w r)" using ism_word_other by simp
  with Cons.prems have "\<not> (dr_have_accel (ism_word w r) \<and> dr_have_gyro (ism_word w r))" by (simp add: same_pairing_def)
  with Cons have "same_pairing (ism_word w r) (fold ism_word ws (ism_word w r))" by simp
  with w show ?case by (simp add: same_pairing_def)
qed (simp add: same_pairing_def)

lemma fold_word_scales [simp]:
  "is_accel_scale (dr_s (fold ism_word ws r)) = is_accel_scale (dr_s r)"
  "is_gyro_scale (dr_s (fold ism_word ws r)) = is_gyro_scale (dr_s r)"
  "tk_ticks (dr_s (fold ism_word ws r)) = tk_ticks (dr_s r)" "tk_guard (dr_s (fold ism_word ws r)) = tk_guard (dr_s r)"
  "length (dr_buf (fold ism_word ws r)) = length (dr_buf r)"
  by (induction ws arbitrary: r) simp_all

definition unpaired :: "ism_drain \<Rightarrow> bool" where
  "unpaired r \<longleftrightarrow> \<not> dr_have_accel r \<and> \<not> dr_have_gyro r"

definition grows_by :: "ism_drain \<Rightarrow> bytes \<Rightarrow> bytes \<Rightarrow> ism_drain \<Rightarrow> bool" where
  "grows_by r a g r' \<longleftrightarrow> unpaired r' \<and> dr_produced r' = dr_produced r + 1 \<and>
     is_next_seq (dr_s r') = is_next_seq (dr_s r) + 1 \<and>
     (\<exists>x. sample_of (dr_s r) (is_next_seq (dr_s r)) a g x \<and> dr_buf r' = (dr_buf r)[dr_produced r := x])"

lemma ism_word_completes:
  assumes "word_tag a = TAG_ACCEL_NC" "word_tag g = TAG_GYRO_NC"
  shows "dr_have_accel r \<Longrightarrow> \<not> dr_have_gyro r \<Longrightarrow> dr_accel r = scaled (is_accel_scale (dr_s r)) a \<Longrightarrow> grows_by r a g (ism_word g r)"
    and "dr_have_gyro r \<Longrightarrow> \<not> dr_have_accel r \<Longrightarrow> dr_gyro r = scaled (is_gyro_scale (dr_s r)) g \<Longrightarrow> grows_by r a g (ism_word a r)"
  using assms unfolding word_tag_def
  by (auto simp: grows_by_def ism_word_def ism_tag_def ism_pair_def unpaired_def sample_of_def Let_def
      intro!: exI [of _ "(dr_buf r ! dr_produced r)\<lparr>is_accel := axes_ned (scaled (is_accel_scale (dr_s r)) a),
        is_gyro := axes_ned (scaled (is_gyro_scale (dr_s r)) g), is_temp_c := is_last_temp (dr_s r),
        is_seq := is_next_seq (dr_s r), is_chip_ts := 0\<rparr>"])

lemma ism_word_starts:
  assumes "unpaired r"
  shows "word_tag a = TAG_ACCEL_NC \<Longrightarrow>
      ism_word a r = r\<lparr>dr_accel := scaled (is_accel_scale (dr_s r)) a, dr_have_accel := True, dr_set_tag := a ! 0\<rparr>"
    and "word_tag g = TAG_GYRO_NC \<Longrightarrow>
      ism_word g r = r\<lparr>dr_gyro := scaled (is_gyro_scale (dr_s r)) g, dr_have_gyro := True, dr_set_tag := g ! 0\<rparr>"
  using assms unfolding word_tag_def by (auto simp: ism_word_def ism_tag_def ism_pair_def unpaired_def Let_def)

lemma fold_set_words:
  assumes "set_words (a, g, ws)" "unpaired r"
  shows "grows_by r a g (fold ism_word ws r)"
proof -
  from assms(1) obtain us vs where t: "word_tag a = TAG_ACCEL_NC" "word_tag g = TAG_GYRO_NC"
    and o: "\<forall>w \<in> set us. other_word w" "\<forall>w \<in> set vs. other_word w"
    and ws: "ws = us @ [a] @ vs @ [g] \<or> ws = us @ [g] @ vs @ [a]"
    unfolding set_words_def by auto
  let ?r = "fold ism_word us r"
  have u: "same_pairing r ?r" using fold_word_other [OF o(1)] assms(2) by (simp add: unpaired_def)
  then have u': "unpaired ?r" using assms(2) by (simp add: same_pairing_def unpaired_def)
  from ws show ?thesis
  proof
    assume ws: "ws = us @ [a] @ vs @ [g]"
    let ?q = "ism_word a ?r"
    have q: "?q = ?r\<lparr>dr_accel := scaled (is_accel_scale (dr_s ?r)) a, dr_have_accel := True, dr_set_tag := a ! 0\<rparr>"
      using ism_word_starts(1) [OF u' t(1)] .
    then have v: "same_pairing ?q (fold ism_word vs ?q)" using fold_word_other [OF o(2)] u' by (simp add: unpaired_def)
    have "grows_by (fold ism_word vs ?q) a g (ism_word g (fold ism_word vs ?q))"
      by (rule ism_word_completes(1) [OF t]) (use v q u' in \<open>simp_all add: same_pairing_def unpaired_def\<close>)
    then show ?thesis using u v q unfolding ws by (simp add: grows_by_def same_pairing_def sample_of_def)
  next
    assume ws: "ws = us @ [g] @ vs @ [a]"
    let ?q = "ism_word g ?r"
    have q: "?q = ?r\<lparr>dr_gyro := scaled (is_gyro_scale (dr_s ?r)) g, dr_have_gyro := True, dr_set_tag := g ! 0\<rparr>"
      using ism_word_starts(2) [OF u' t(2)] .
    then have v: "same_pairing ?q (fold ism_word vs ?q)" using fold_word_other [OF o(2)] u' by (simp add: unpaired_def)
    have "grows_by (fold ism_word vs ?q) a g (ism_word a (fold ism_word vs ?q))"
      by (rule ism_word_completes(2) [OF t]) (use v q u' in \<open>simp_all add: same_pairing_def unpaired_def\<close>)
    then show ?thesis using u v q unfolding ws by (simp add: grows_by_def same_pairing_def sample_of_def)
  qed
qed

lemma fold_all_words:
  assumes "\<forall>x \<in> set xs. set_words x" "unpaired r" "dr_produced r + length xs \<le> length (dr_buf r)"
  defines "r' \<equiv> fold ism_word (all_words xs) r"
  shows "unpaired r' \<and> dr_produced r' = dr_produced r + length xs \<and>
    is_next_seq (dr_s r') = is_next_seq (dr_s r) + of_nat (length xs) \<and>
    (\<forall>k < length xs. sample_of (dr_s r) (is_next_seq (dr_s r) + of_nat k) (fst (xs ! k)) (fst (snd (xs ! k)))
       (dr_buf r' ! (dr_produced r + k))) \<and>
    (\<forall>j. j < dr_produced r \<or> dr_produced r + length xs \<le> j \<longrightarrow> dr_buf r' ! j = dr_buf r ! j)"
  using assms(1-3) unfolding r'_def
proof (induction xs arbitrary: r)
  case (Cons x xs)
  obtain a g ws where x: "x = (a, g, ws)" by (rule prod_cases3)
  let ?q = "fold ism_word ws r"
  have g: "grows_by r a g ?q" using fold_set_words Cons.prems(1,2) x by simp
  then obtain y where y: "sample_of (dr_s r) (is_next_seq (dr_s r)) a g y" "dr_buf ?q = (dr_buf r)[dr_produced r := y]"
    and q: "unpaired ?q" "dr_produced ?q = dr_produced r + 1" "is_next_seq (dr_s ?q) = is_next_seq (dr_s r) + 1"
    unfolding grows_by_def by blast
  have "fold ism_word (all_words (x # xs)) r = fold ism_word (all_words xs) ?q" by (simp add: all_words_def x)
  moreover have IH: "unpaired (fold ism_word (all_words xs) ?q) \<and>
     dr_produced (fold ism_word (all_words xs) ?q) = dr_produced ?q + length xs \<and>
     is_next_seq (dr_s (fold ism_word (all_words xs) ?q)) = is_next_seq (dr_s ?q) + of_nat (length xs) \<and>
     (\<forall>k < length xs. sample_of (dr_s ?q) (is_next_seq (dr_s ?q) + of_nat k) (fst (xs ! k)) (fst (snd (xs ! k)))
       (dr_buf (fold ism_word (all_words xs) ?q) ! (dr_produced ?q + k))) \<and>
     (\<forall>j. j < dr_produced ?q \<or> dr_produced ?q + length xs \<le> j \<longrightarrow> dr_buf (fold ism_word (all_words xs) ?q) ! j = dr_buf ?q ! j)"
    by (rule Cons.IH) (use Cons.prems q in auto)
  moreover have "sample_of (dr_s ?q) = sample_of (dr_s r)" by (intro ext) (simp add: sample_of_def)
  moreover have "sample_of (dr_s r) (is_next_seq (dr_s r) + of_nat k) (fst ((x # xs) ! k)) (fst (snd ((x # xs) ! k)))
      (dr_buf (fold ism_word (all_words xs) ?q) ! (dr_produced r + k))" if "k < length (x # xs)" for k
  proof (cases k)
    case 0
    have "dr_buf (fold ism_word (all_words xs) ?q) ! dr_produced r = dr_buf ?q ! dr_produced r" using IH q(2) by simp
    then show ?thesis using y 0 x Cons.prems(3) by simp
  next
    case (Suc m)
    then show ?thesis
      using IH q(2,3) that \<open>sample_of (dr_s ?q) = sample_of (dr_s r)\<close> by (auto simp: add.assoc dest: spec [of _ m])
  qed
  ultimately show ?case using q y(2) by (simp add: add.assoc)
qed (simp add: all_words_def)

section \<open>A whole read\<close>

definition restamped :: "nat \<Rightarrow> imu_sample list \<Rightarrow> imu_sample list \<Rightarrow> bool" where
  "restamped n buf buf' \<longleftrightarrow> length buf' = length buf \<and>
     (\<forall>j < length buf. if j < n then \<exists>t. buf' ! j = (buf ! j)\<lparr>is_chip_ts := t\<rparr> else buf' ! j = buf ! j)"

lemma restamped_self: "restamped n buf buf"
  unfolding restamped_def
proof (intro conjI allI impI, simp, simp add: if_distrib)
  fix j assume "j < length buf"
  show "j < n \<longrightarrow> (\<exists>t. buf ! j = (buf ! j)\<lparr>is_chip_ts := t\<rparr>)"
    by (intro impI exI [of _ "is_chip_ts (buf ! j)"]) simp
qed

lemma restampedD:
  assumes "restamped n a b" "j < length a"
  shows "j < n \<Longrightarrow> \<exists>t. b ! j = (a ! j)\<lparr>is_chip_ts := t\<rparr>" "n \<le> j \<Longrightarrow> b ! j = a ! j" "length b = length a"
  using assms unfolding restamped_def by (auto dest: spec [of _ j])

lemma restamped_stamps:
  "restamped n buf (stamp_back ticks t n buf)" "restamped n buf (seam_shift j n buf s)"
  "restamped n buf (snd (st_fifo_ts_apply fts buf n ticks now))"
  by (auto simp: restamped_self stamp_back_def seam_shift_def st_fifo_ts_apply_def Let_def
      intro: restamped_self) (auto simp: restamped_def)

lemma restamped_trans: "restamped n a b \<Longrightarrow> restamped n b c \<Longrightarrow> restamped n a c"
  unfolding restamped_def by (auto split: if_splits) (metis imu_sample.surjective imu_sample.update_convs(5))

lemma ism_stamp_restamps: "restamped n buf (fst (ism_stamp ovr now n fts buf s))"
proof -
  obtain a buf1 where f: "st_fifo_ts_apply fts buf n (tk_ticks s) now = (a, buf1)" by fastforce
  then have r1: "restamped n buf buf1" using restamped_stamps(3) [of n buf fts "tk_ticks s" now] by simp
  have "restamped n buf1 (stamp_back k t n buf1)" "restamped n buf1 (seam_shift TS_MAX_JITTER_TICKS n buf1 s)" for k t
    by (rule restamped_stamps)+
  then show ?thesis using restamped_trans [OF r1]
    by (auto simp: ism_stamp_def f Let_def split: prod.split)
qed

lemma drv_more:
  "ts_state.more (s' :: ism_drv) = ts_state.more s \<Longrightarrow> is_next_seq s' = is_next_seq s \<and> is_accel_scale s' = is_accel_scale s \<and>
     is_gyro_scale s' = is_gyro_scale s \<and> is_last_temp s' = is_last_temp s"
  by (cases s, cases s') simp

lemma ism_stamp_keeps:
  "ts_state.more (snd (ism_stamp ovr now n fts buf s)) = ts_state.more s \<and>
   tk_ticks (snd (ism_stamp ovr now n fts buf s)) = tk_ticks s"
proof -
  obtain a buf1 where f: "st_fifo_ts_apply fts buf n (tk_ticks s) now = (a, buf1)" by fastforce
  let ?s = "if ovr then s\<lparr>tk_guard := chip_ts_guard_reset (tk_guard s)\<rparr> else s"
  obtain t s' where b: "burst_stamp TS_MAX_JITTER_TICKS now n ?s = (t, s')" by fastforce
  then have "ts_state.more s' = ts_state.more s" "tk_ticks s' = tk_ticks s"
    using burst_stamp_more [of TS_MAX_JITTER_TICKS now n ?s] burst_stamp_ticks [of TS_MAX_JITTER_TICKS now n ?s] by simp_all
  then show ?thesis by (simp add: ism_stamp_def f b)
qed

lemma burst_words_pos: "0 < st_fifo_burst_words hz" "st_fifo_burst_words hz \<le> 32"
  by (auto simp: st_fifo_burst_words_def Let_def ST_FIFO_BURST_WORDS_def)

lemma status_count:
  assumes "n < 1024"
  shows "unat (push_bit 8 (ucast ((of_nat (n div 256) OR (if ovr then 0x40 else 0)) AND 0x03 :: u8)) OR
      ucast (of_nat (n mod 256) :: u8) :: u16) = n"
    and "((of_nat (n div 256) OR (if ovr then 0x40 else 0)) AND (0x40 :: u8) \<noteq> 0) = ovr"
proof -
  have m: "n mod 256 < 256" by simp
  have low: "ucast (of_nat (n mod 256) :: u8) = (of_nat (n mod 256) :: u16)"
    unfolding word_eq_iff_unsigned [where 'a = nat] by (simp add: unsigned_ucast_eq unat_of_nat take_bit_eq_mod)
  have join: "unat (v OR of_nat (n mod 256) :: u16) = unat v + n mod 256" if "take_bit 8 v = 0" "unat v < 1024" for v
  proof -
    have "\<not> bit v k" if "k < 8" for k
      using arg_cong [OF \<open>take_bit 8 v = 0\<close>, of "\<lambda>w. bit w k"] that by (simp add: bit_simps)
    then have lo: "k < 8 \<Longrightarrow> \<not> bit v k" for k by blast
    have hi: "\<not> bit (n mod 256) k" if "8 \<le> k" for k
    proof -
      have "n mod 256 = take_bit 8 n" by (simp add: take_bit_eq_mod)
      then show ?thesis using that by (simp only: bit_take_bit_iff) simp
    qed
    have "v + of_nat (n mod 256) = v OR of_nat (n mod 256)"
    proof (rule disjunctive_add)
      fix k
      show "\<not> bit v k \<or> \<not> bit (of_nat (n mod 256) :: u16) k"
        using lo [of k] hi [of k] by (cases "k < 8") (simp_all add: bit_simps)
    qed
    moreover have "unat (v + of_nat (n mod 256)) = unat v + n mod 256"
      using that m by (simp add: unat_word_ariths unat_of_nat)
    ultimately show ?thesis by simp
  qed
  have "n div 256 < 4" using assms by auto
  then have k: "n div 256 = 0 \<or> n div 256 = 1 \<or> n div 256 = 2 \<or> n div 256 = 3" by linarith
  then have "unat (push_bit 8 (ucast ((of_nat (n div 256) OR (if ovr then 0x40 else 0)) AND 0x03 :: u8)) OR
      ucast (of_nat (n mod 256) :: u8) :: u16) = 256 * (n div 256) + n mod 256"
    unfolding low by (elim disjE; cases ovr; subst join; simp)
  then show "unat (push_bit 8 (ucast ((of_nat (n div 256) OR (if ovr then 0x40 else 0)) AND 0x03 :: u8)) OR
      ucast (of_nat (n mod 256) :: u8) :: u16) = n" by simp
  show "((of_nat (n div 256) OR (if ovr then 0x40 else 0)) AND (0x40 :: u8) \<noteq> 0) = ovr"
    using k by (cases ovr) auto
qed

definition drain_start :: "ism_drv \<Rightarrow> imu_sample list \<Rightarrow> ism_drain" where
  "drain_start s buf = \<lparr>dr_s = s, dr_buf = buf, dr_produced = 0, dr_accel = [0, 0, 0], dr_gyro = [0, 0, 0],
     dr_have_accel = False, dr_have_gyro = False, dr_set_tag = 0, dr_fts = st_fifo_ts_begin\<rparr>"

lemma le32_bytes:
  "le32 [ucast v, ucast (drop_bit 8 v), ucast (drop_bit 16 v), ucast (drop_bit 24 v)] = (v :: u32)"
proof (rule bit_word_eqI)
  fix n :: nat
  assume n: "n < LENGTH(32)"
  consider "n < 8" | "8 \<le> n" "n < 16" | "16 \<le> n" "n < 24" | "24 \<le> n" "n < 32" using n by fastforce
  then show "bit (le32 [ucast v, ucast (drop_bit 8 v), ucast (drop_bit 16 v), ucast (drop_bit 24 v)]) n = bit v n"
    by cases (auto simp: le32_def bit_simps)
qed

text \<open>What a read returns when the loop left \<open>r\<close> and the part with the words \<open>ws\<close>.\<close>

definition read_result :: "fifo_part \<Rightarrow> bytes list \<Rightarrow> ism_drain \<Rightarrow> (int \<times> nat option \<times> imu_sample list) \<times> ism_drv \<times> fifo_part" where
  "read_result d ws r =
     (let p = ism_stamp (fp_ovr d) (fp_now d) (dr_produced r) (dr_fts r) (dr_buf r) (dr_s r)
      in ((if fp_ovr d then 1 else 0, Some (dr_produced r), if dr_produced r = 0 then dr_buf r else fst p),
          if dr_produced r = 0 then dr_s r else snd p, d\<lparr>fp_words := ws\<rparr>))"

lemma ism_read_any:
  fixes s :: ism_drv and buf :: "imu_sample list" and room :: nat
  assumes "fifo_bus bus" "fifo_ok d"
  defines "u \<equiv> words_used room (fp_words d) (drain_start s buf)"
  shows "\<exists>c. u \<le> c \<and> c \<le> length (fp_words d) \<and> c < u + st_fifo_burst_words (bus_spi_hz bus) \<and>
    ism_read bus buf room s d = read_result d (drop c (fp_words d)) (fold ism_word (take u (fp_words d)) (drain_start s buf))"
proof -
  let ?n = "length (fp_words d)" and ?r = "fold ism_word (take u (fp_words d)) (drain_start s buf)"
  have n: "?n < 1024" "\<forall>w \<in> set (fp_words d). length w = 7" using assms(2) by (simp_all add: fifo_ok_def)
  have rd: "bus_burst_read bus REG_FIFO_STATUS1 2 d' = fifo_read REG_FIFO_STATUS1 2 d'"
    "bus_burst_read bus REG_TIMESTAMP0 4 d' = fifo_read REG_TIMESTAMP0 4 d'" for d'
    using assms(1) by (simp_all add: fifo_bus_def)
  have st: "bus_burst_read bus REG_FIFO_STATUS1 2 d =
      (Some [of_nat (?n mod 256), of_nat (?n div 256) OR (if fp_ovr d then 0x40 else 0)], d)"
    by (subst rd) (simp_all add: fifo_read_def ism_regs)
  have ts: "bus_burst_read bus REG_TIMESTAMP0 4 d' =
      (Some [ucast (fp_now d'), ucast (drop_bit 8 (fp_now d')), ucast (drop_bit 16 (fp_now d')), ucast (drop_bit 24 (fp_now d'))], d')" for d'
    by (subst rd) (simp_all add: fifo_read_def ism_regs)
  note count = status_count [OF n(1), of "fp_ovr d"]
  show ?thesis
  proof (cases "?n = 0")
    case True
    then have e: "fp_words d = []" by simp
    have "ism_read bus buf room s d = ((if fp_ovr d then 1 else 0, Some 0, buf), s, d)"
      unfolding ism_read_def st prod.case option.case Let_def nth_Cons_0 nth_Cons_Suc One_nat_def count using True by simp
    then show ?thesis
      using burst_words_pos(1) [of "bus_spi_hz bus"] same_words [OF e]
      by (intro exI [of _ 0]) (simp add: e u_def read_result_def drain_start_def Let_def)
  next
    case False
    obtain c where c: "u \<le> c" "c \<le> ?n" "c < u + st_fifo_burst_words (bus_spi_hz bus)"
      "ism_words bus ?n (st_fifo_burst_words (bus_spi_hz bus)) room 0 (drain_start s buf) d = (True, ?r, d\<lparr>fp_words := drop c (fp_words d)\<rparr>)"
      using ism_words_any [OF assms(1) n(2) _ burst_words_pos(1), of 0 ?n "drain_start s buf" room] unfolding u_def
      by (auto simp: drain_start_def)
    have "ism_read bus buf room s d = read_result d (drop c (fp_words d)) ?r"
      unfolding ism_read_def st prod.case option.case Let_def nth_Cons_0 nth_Cons_Suc One_nat_def count
      using False c(4) unfolding drain_start_def [symmetric]
      by (simp add: ts le32_bytes read_result_def Let_def split: prod.split)
    with c(1-3) show ?thesis by blast
  qed
qed

text \<open>With room to spare the read takes the whole FIFO.\<close>

lemma ism_read_fifo:
  fixes s :: ism_drv and buf :: "imu_sample list"
  assumes "fifo_bus bus" "fifo_ok d" "dr_produced (fold ism_word (fp_words d) (drain_start s buf)) < room"
  shows "ism_read bus buf room s d = read_result d [] (fold ism_word (fp_words d) (drain_start s buf))"
  using ism_read_any [OF assms(1,2), of room s buf] words_used_all [OF assms(3)] by auto

section \<open>The sample clock\<close>

text \<open>The stamps of \<open>n\<close> samples, one period apart.\<close>

definition spaced :: "u32 \<Rightarrow> nat \<Rightarrow> imu_sample list \<Rightarrow> bool" where
  "spaced T n buf \<longleftrightarrow> (\<forall>k < n. is_chip_ts (buf ! k) = is_chip_ts (buf ! 0) + of_nat k * T)"

lemma fold_word_no_stamp:
  "\<forall>w \<in> set ws. word_tag w \<noteq> ST_TAG_TIMESTAMP \<Longrightarrow> ft_have_word (dr_fts (fold ism_word ws r)) = ft_have_word (dr_fts r)"
proof (induction ws arbitrary: r)
  case (Cons w ws)
  have "ft_have_word (dr_fts (ism_word w r)) = ft_have_word (dr_fts r)"
    using Cons.prems by (simp add: ism_word_def ism_pair_def ism_tag_def word_tag_def st_fifo_ts_note_set_def Let_def)
  then show ?case using Cons by simp
qed simp

lemma stamp_back_nth:
  "k < n \<Longrightarrow> n \<le> length buf \<Longrightarrow> is_chip_ts (stamp_back T t n buf ! k) = t - of_nat (n - 1) * T + of_nat k * T"
  by (simp add: stamp_back_def of_nat_diff algebra_simps)

lemma word_sint_neg: "sint (x :: u32) \<le> 0 \<Longrightarrow> uint (- x) = - sint x"
proof -
  assume a: "sint x \<le> 0"
  have u: "0 \<le> k \<Longrightarrow> k < 2 ^ 32 \<Longrightarrow> uint (word_of_int k :: 32 word) = k" for k
    by (simp add: unsigned_of_int take_bit_int_eq_self)
  have "- (2 ^ 31) \<le> sint x" using sint_ge [of x] by simp
  have "uint (word_of_int (- sint x) :: 32 word) = - sint x"
  proof -
    have "0 \<le> - sint x" "- sint x < 2 ^ 32" using a \<open>- (2 ^ 31) \<le> sint x\<close> by simp_all
    then show ?thesis by (rule u)
  qed
  moreover have "(word_of_int (- sint x) :: 32 word) = - x" by simp
  ultimately show ?thesis by metis
qed

text \<open>The seam check moves a burst that overlaps the one before to one period behind it.\<close>

lemma seam_shift_gap:
  assumes "ticks_ok s" "cg_have (tk_guard s)" "0 < n" "n \<le> length buf"
  defines "g \<equiv> gap s (is_chip_ts (seam_shift TS_MAX_JITTER_TICKS n buf s ! 0))"
  shows "0 < g \<or> g < - 40000"
proof -
  let ?d = "is_chip_ts (buf ! 0) - cg_last (tk_guard s)" and ?sh = "chip_ts_guard_shift (tk_guard s) (is_chip_ts (buf ! 0)) (tk_ticks s) TS_MAX_JITTER_TICKS"
  have f: "is_chip_ts (seam_shift TS_MAX_JITTER_TICKS n buf s ! 0) = is_chip_ts (buf ! 0) + ?sh"
    using assms(3) less_le_trans [OF assms(3,4)] by (simp add: seam_shift_def Let_def)
  have T: "0 < uint (tk_ticks s)" "uint (tk_ticks s) < 2 ^ 28" using assms(1) by (simp_all add: ticks_ok_def)
  consider "sint ?d > 0" | "sint ?d \<le> 0" "- ?d > TS_MAX_JITTER_TICKS" | "sint ?d \<le> 0" "\<not> - ?d > TS_MAX_JITTER_TICKS" by linarith
  then show ?thesis
  proof cases
    case 1
    then have "?sh = 0" using assms(2) by (simp add: chip_ts_guard_shift_def)
    then show ?thesis using 1 f by (simp add: g_def gap_def)
  next
    case 2
    then have "?sh = 0" using assms(2) unfolding chip_ts_guard_shift_def Let_def by (simp only: if_True simp_thms if_cancel if_False split: if_split)
    moreover have "40000 < uint (- ?d)" using 2(2) by (simp only: word_less_def TS_MAX_JITTER_TICKS_def) simp
    ultimately show ?thesis using word_sint_neg [OF 2(1)] f by (simp add: g_def gap_def)
  next
    case 3
    then have "?sh = - ?d + tk_ticks s"
      using assms(2) unfolding chip_ts_guard_shift_def Let_def by (simp only: if_False simp_thms not_less [symmetric])
    then have "is_chip_ts (seam_shift TS_MAX_JITTER_TICKS n buf s ! 0) = cg_last (tk_guard s) + tk_ticks s" using f by simp
    then show ?thesis using T sint_pos_uint [of "tk_ticks s"] by (simp add: g_def gap_def)
  qed
qed

lemma seam_shift_spaced: "spaced T n buf \<Longrightarrow> n \<le> length buf \<Longrightarrow> spaced T n (seam_shift j n buf s)"
proof -
  assume a: "spaced T n buf" "n \<le> length buf"
  define h where "h = chip_ts_guard_shift (tk_guard s) (is_chip_ts (buf ! 0)) (tk_ticks s) j"
  have st: "is_chip_ts (seam_shift j n buf s ! k) = is_chip_ts (buf ! k) + h" if "k < n" for k
    using that less_le_trans [OF that a(2)] by (simp add: seam_shift_def Let_def h_def [symmetric])
  show ?thesis
    unfolding spaced_def
  proof (intro allI impI)
    fix k assume k: "k < n"
    have "is_chip_ts (buf ! k) = is_chip_ts (buf ! 0) + of_nat k * T" using a(1) k unfolding spaced_def by blast
    then show "is_chip_ts (seam_shift j n buf s ! k) = is_chip_ts (seam_shift j n buf s ! 0) + of_nat k * T"
      using st [OF k] st [of 0] k by simp
  qed
qed

lemma apply_spaced:
  assumes "st_fifo_ts_apply fts buf n T now = (True, buf')" "n \<le> length buf"
  shows "ft_have_word fts \<and> spaced T n buf' \<and> length buf' = length buf \<and> 0 < n"
proof -
  have c: "ft_have_word fts" "0 < n"
    "buf' = map (\<lambda>i. if i < n then (buf ! i)\<lparr>is_chip_ts := ft_ts fts + of_int (int i - ft_idx fts) * T\<rparr> else buf ! i) [0..<length buf]"
    using assms(1) by (auto simp: st_fifo_ts_apply_def Let_def split: if_splits)
  have st: "is_chip_ts (buf' ! k) = ft_ts fts + of_int (int k - ft_idx fts) * T" if "k < n" for k
    using that less_le_trans [OF that assms(2)] by (simp add: c(3))
  have "is_chip_ts (buf' ! k) = is_chip_ts (buf' ! 0) + of_nat k * T" if "k < n" for k
    unfolding st [OF that] st [OF c(2)] by (simp add: algebra_simps)
  moreover have "length buf' = length buf" unfolding c(3) by simp
  ultimately show ?thesis using c(1,2) unfolding spaced_def by blast
qed

lemma ism_stamp_clock:
  fixes s :: "'a ts_state_scheme"
  assumes "ticks_ok s" "cg_have (tk_guard s)" "cg_refusals (tk_guard s) < CHIP_TS_MAX_REFUSALS" "0 < n" "n \<le> length buf"
    and "ism_stamp False now n fts buf s = (buf', s')"
  defines "g \<equiv> gap s (is_chip_ts (buf' ! 0))"
  shows "spaced (tk_ticks s) n buf' \<and> cg_have (tk_guard s') \<and> cg_last (tk_guard s') = is_chip_ts (buf' ! (n - 1)) \<and>
    cg_refusals (tk_guard s') \<le> cg_refusals (tk_guard s) + 1 \<and>
    (if ft_have_word fts then 0 < g \<or> g < - 40000 else 1 \<le> g \<and> g \<le> 8 * uint (tk_ticks s))"
proof -
  obtain a buf1 where f: "st_fifo_ts_apply fts buf n (tk_ticks s) now = (a, buf1)" by fastforce
  have ref: "cg_refusals (tk_guard s) \<le> cg_refusals (tk_guard s) + 1"
    using assms(3) by (simp add: CHIP_TS_MAX_REFUSALS_def word_le_nat_alt word_less_nat_alt unat_word_ariths)
  show ?thesis
  proof (cases a)
    case True
    have ap: "ft_have_word fts" "spaced (tk_ticks s) n buf1" "n \<le> length buf1"
      using apply_spaced [of fts buf n "tk_ticks s" now buf1] f True assms(5) by simp_all
    have r: "buf' = seam_shift TS_MAX_JITTER_TICKS n buf1 s"
      "s' = s\<lparr>tk_guard := chip_ts_guard_note (tk_guard s) (is_chip_ts (buf' ! (n - 1)))\<rparr>"
      using assms(6) True by (auto simp: ism_stamp_def f)
    show ?thesis
      using seam_shift_gap [OF assms(1,2,4) ap(3)] seam_shift_spaced [OF ap(2,3), of TS_MAX_JITTER_TICKS s] ap(1) ref
      unfolding r(1) [symmetric]
      by (simp add: r(2) g_def chip_ts_guard_note_def)
  next
    case False
    then have "buf1 = buf" using f by (auto simp: st_fifo_ts_apply_def Let_def split: if_splits)
    obtain t s1 where b: "burst_stamp TS_MAX_JITTER_TICKS now n s = (t, s1)" by fastforce
    have r: "buf' = stamp_back (tk_ticks s) t n buf"
      "tk_guard s' = chip_ts_guard_note (tk_guard s1) (is_chip_ts (buf' ! (n - 1)))"
      using assms(6) False b burst_stamp_ticks [of TS_MAX_JITTER_TICKS now n s]
      by (auto simp: ism_stamp_def f \<open>buf1 = buf\<close>)
    have nth: "k < n \<Longrightarrow> is_chip_ts (buf' ! k) = t - of_nat (n - 1) * tk_ticks s + of_nat k * tk_ticks s" for k
      unfolding r(1) using stamp_back_nth assms(5) by blast
    have few: "\<not> cg_refusals (tk_guard s) + 1 > CHIP_TS_MAX_REFUSALS"
      using assms(3) by (simp add: CHIP_TS_MAX_REFUSALS_def word_less_nat_alt unat_word_ariths)
    have g: "1 \<le> g \<and> g \<le> 8 * uint (tk_ticks s)"
      using burst_stamp_seam [OF assms(1,2), of TS_MAX_JITTER_TICKS now n] few b nth [OF assms(4)] by (simp add: g_def)
    have "cg_refusals (tk_guard s1) \<le> cg_refusals (tk_guard s) + 1"
      using burst_stamp_refusals [of TS_MAX_JITTER_TICKS now n s] few b ref by simp
    then show ?thesis using g nth assms(4) by (auto simp: r(2) spaced_def chip_ts_guard_note_def)
  qed
qed

text \<open>Whatever the counter reads: a burst starts one period behind the burst before, or its newest sample is dated no
  more than a second of ticks before the reading.\<close>

lemma shift_cases:
  "chip_ts_guard_shift g first step j = 0 \<or> cg_have g \<and> first + chip_ts_guard_shift g first step j = cg_last g + step"
  by (simp add: chip_ts_guard_shift_def Let_def)

lemma burst_stamp_dated:
  "fst (burst_stamp j now n s) = now \<or>
    cg_have (tk_guard s) \<and> fst (burst_stamp j now n s) - of_nat (n - 1) * tk_ticks s = cg_last (tk_guard s) + tk_ticks s"
proof -
  let ?f = "now - of_nat (n - 1) * tk_ticks s"
  have "chip_ts_guard_shift (tk_guard s) ?f (tk_ticks s) j = 0 \<or> cg_have (tk_guard s) \<and>
      now + chip_ts_guard_shift (tk_guard s) ?f (tk_ticks s) j - of_nat (n - 1) * tk_ticks s = cg_last (tk_guard s) + tk_ticks s"
    using shift_cases [of "tk_guard s" ?f "tk_ticks s" j] by (auto simp: algebra_simps)
  then have ok: "now + chip_ts_guard_shift (tk_guard s) ?f (tk_ticks s) j = now \<or> cg_have (tk_guard s) \<and>
      now + chip_ts_guard_shift (tk_guard s) ?f (tk_ticks s) j - of_nat (n - 1) * tk_ticks s = cg_last (tk_guard s) + tk_ticks s"
    by auto
  have acc: "chip_ts_guard_shift (chip_ts_guard_accepted g) a b c = chip_ts_guard_shift g a b c" for g a b c
    by (simp add: chip_ts_guard_accepted_def chip_ts_guard_shift_def)
  show ?thesis
  proof (cases "reading_refused j now n s")
    case True
    then have "cg_have (tk_guard s)"
      by (auto simp: reading_refused_def chip_ts_guard_forward_ok_def chip_ts_guard_backward_ok_def split: if_splits)
    then show ?thesis using True unfolding burst_stamp_def Let_def reading_refused_def chip_ts_guard_refused_def
      by (auto simp: chip_ts_guard_next_def split: prod.splits bool.splits)
  next
    case False
    then have "fst (burst_stamp j now n s) = now + chip_ts_guard_shift (tk_guard s) ?f (tk_ticks s) j"
      unfolding reading_refused_def burst_stamp_def Let_def by (simp add: acc chip_ts_guard_accepted_def chip_ts_guard_shift_def Let_def)
    then show ?thesis using ok by simp
  qed
qed

lemma apply_dated:
  assumes "st_fifo_ts_apply fts buf n T now = (True, buf')" "n \<le> length buf"
  shows "uint (now - is_chip_ts (buf' ! (n - 1))) \<le> 40000"
proof -
  have c: "0 < n" "now - (ft_ts fts + of_int (int n - 1 - ft_idx fts) * T) \<le> ST_TS_MAX_LAG_TICKS"
    "buf' = map (\<lambda>i. if i < n then (buf ! i)\<lparr>is_chip_ts := ft_ts fts + of_int (int i - ft_idx fts) * T\<rparr> else buf ! i) [0..<length buf]"
    using assms(1) by (auto simp: st_fifo_ts_apply_def Let_def not_less split: if_splits)
  have "is_chip_ts (buf' ! (n - 1)) = ft_ts fts + of_int (int n - 1 - ft_idx fts) * T"
    using c(1) assms(2) by (simp add: c(3) of_nat_diff)
  then show ?thesis using c(2) by (simp add: word_le_def ST_TS_MAX_LAG_TICKS_def)
qed

lemma ism_stamp_dated:
  fixes s :: "'a ts_state_scheme"
  assumes "0 < n" "n \<le> length buf" "ism_stamp ovr now n fts buf s = (buf', s')"
  shows "spaced (tk_ticks s) n buf' \<and> cg_have (tk_guard s') \<and> cg_last (tk_guard s') = is_chip_ts (buf' ! (n - 1)) \<and>
    (cg_have (tk_guard s) \<and> is_chip_ts (buf' ! 0) = cg_last (tk_guard s) + tk_ticks s \<or>
     uint (now - is_chip_ts (buf' ! (n - 1))) \<le> 40000)"
proof -
  obtain a buf1 where f: "st_fifo_ts_apply fts buf n (tk_ticks s) now = (a, buf1)" by fastforce
  show ?thesis
  proof (cases a)
    case True
    have d: "uint (now - is_chip_ts (buf1 ! (n - 1))) \<le> 40000"
      using apply_dated [of fts buf n "tk_ticks s" now buf1] f True assms(2) by simp
    have ap: "spaced (tk_ticks s) n buf1" "n \<le> length buf1"
      using apply_spaced [of fts buf n "tk_ticks s" now buf1] f True assms(2) by simp_all
    have r: "buf' = seam_shift TS_MAX_JITTER_TICKS n buf1 s"
      "s' = s\<lparr>tk_guard := chip_ts_guard_note (tk_guard s) (is_chip_ts (buf' ! (n - 1)))\<rparr>"
      using assms(3) True by (auto simp: ism_stamp_def f)
    let ?sh = "chip_ts_guard_shift (tk_guard s) (is_chip_ts (buf1 ! 0)) (tk_ticks s) TS_MAX_JITTER_TICKS"
    have nth: "is_chip_ts (buf' ! k) = is_chip_ts (buf1 ! k) + ?sh" if "k < n" for k
      using that less_le_trans [OF that ap(2)] unfolding r(1) by (simp add: seam_shift_def Let_def)
    have "cg_have (tk_guard s) \<and> is_chip_ts (buf' ! 0) = cg_last (tk_guard s) + tk_ticks s \<or>
        uint (now - is_chip_ts (buf' ! (n - 1))) \<le> 40000"
      using shift_cases [of "tk_guard s" "is_chip_ts (buf1 ! 0)" "tk_ticks s" TS_MAX_JITTER_TICKS] nth [of 0] nth [of "n - 1"] assms(1) d
      by auto
    then show ?thesis
      using seam_shift_spaced [OF ap, of TS_MAX_JITTER_TICKS s, folded r(1)] r(2) by (simp add: chip_ts_guard_note_def)
  next
    case False
    then have "buf1 = buf" using f by (auto simp: st_fifo_ts_apply_def Let_def split: if_splits)
    let ?s = "if ovr then s\<lparr>tk_guard := chip_ts_guard_reset (tk_guard s)\<rparr> else s"
    obtain t s1 where b: "burst_stamp TS_MAX_JITTER_TICKS now n ?s = (t, s1)" by fastforce
    have T: "tk_ticks ?s = tk_ticks s" "tk_ticks s1 = tk_ticks s"
      using burst_stamp_ticks [of TS_MAX_JITTER_TICKS now n ?s] b by simp_all
    have r: "buf' = stamp_back (tk_ticks s) t n buf"
      "tk_guard s' = chip_ts_guard_note (tk_guard s1) (is_chip_ts (buf' ! (n - 1)))"
      using assms(3) False b T unfolding ism_stamp_def f prod.case \<open>buf1 = buf\<close> by (auto simp: Let_def)
    have nth: "k < n \<Longrightarrow> is_chip_ts (buf' ! k) = t - of_nat (n - 1) * tk_ticks s + of_nat k * tk_ticks s" for k
      unfolding r(1) using stamp_back_nth assms(2) by blast
    have "t = now \<or> cg_have (tk_guard s) \<and> t - of_nat (n - 1) * tk_ticks s = cg_last (tk_guard s) + tk_ticks s"
      using burst_stamp_dated [of TS_MAX_JITTER_TICKS now n ?s] b T(1) by (cases ovr) (auto simp: chip_ts_guard_reset_def)
    then show ?thesis using nth [of 0] nth [of "n - 1"] nth assms(1) r(2) by (auto simp: spaced_def chip_ts_guard_note_def)
  qed
qed

section \<open>Reading a part\<close>

definition fifo_holds :: "fifo_part \<Rightarrow> (bytes \<times> bytes \<times> bytes list) list \<Rightarrow> bytes list \<Rightarrow> bool" where
  "fifo_holds d xs rest \<longleftrightarrow> fifo_ok d \<and> fp_words d = all_words xs @ rest \<and> (\<forall>x \<in> set xs. set_words x) \<and>
     (\<forall>w \<in> set rest. other_word w)"

lemma set_words_last:
  assumes "set_words (a, g, ws)" "unpaired r"
  shows "ws \<noteq> []" "dr_produced (fold ism_word (butlast ws) r) = dr_produced r"
proof -
  from assms(1) obtain us vs where t: "word_tag a = TAG_ACCEL_NC" "word_tag g = TAG_GYRO_NC"
    and o: "\<forall>w \<in> set us. other_word w" "\<forall>w \<in> set vs. other_word w"
    and "ws = us @ [a] @ vs @ [g] \<or> ws = us @ [g] @ vs @ [a]"
    unfolding set_words_def by auto
  then obtain x y where ws: "ws = us @ [x] @ vs @ [y]" and x: "word_tag x = TAG_ACCEL_NC \<or> word_tag x = TAG_GYRO_NC"
    by blast
  show "ws \<noteq> []" using ws by simp
  let ?r = "fold ism_word us r" and ?q = "ism_word x (fold ism_word us r)"
  have u: "same_pairing r ?r" using fold_word_other [OF o(1)] assms(2) by (simp add: unpaired_def)
  then have u': "unpaired ?r" using assms(2) by (simp add: same_pairing_def unpaired_def)
  have q: "dr_produced ?q = dr_produced ?r" "\<not> (dr_have_accel ?q \<and> dr_have_gyro ?q)"
    using x ism_word_starts [OF u'] u' by (auto simp: unpaired_def)
  then have "same_pairing ?q (fold ism_word vs ?q)" using fold_word_other [OF o(2)] by blast
  then show "dr_produced (fold ism_word (butlast ws) r) = dr_produced r"
    using q(1) u by (simp add: ws butlast_append same_pairing_def)
qed

text \<open>How far the loop gets in a FIFO that holds the words of samples: to its end when there is room to spare, and to the
  last word of the last sample that there is room for when not.\<close>

lemma words_used_samples:
  assumes "\<forall>x \<in> set xs. set_words x" "\<forall>w \<in> set rest. other_word w" "unpaired r" "dr_produced r = 0" "room \<le> length (dr_buf r)"
  shows "words_used room (all_words xs @ rest) r =
    (if length xs < room then length (all_words xs @ rest) else length (all_words (take room xs)))"
proof (cases "length xs < room")
  case True
  let ?q = "fold ism_word (all_words xs) r"
  have q: "unpaired ?q" "dr_produced ?q = length xs"
    using fold_all_words [OF assms(1,3)] assms(4,5) True by simp_all
  have "same_pairing ?q (fold ism_word rest ?q)" by (rule fold_word_other [OF assms(2)]) (use q in \<open>simp add: unpaired_def\<close>)
  then have "dr_produced (fold ism_word (all_words xs @ rest) r) < room" using q True by (simp add: same_pairing_def)
  from words_used_all [OF this] True show ?thesis by simp
next
  case False
  show ?thesis
  proof (cases room)
    case 0
    then have "words_used room (all_words xs @ rest) r = 0" using assms(4) by (cases "all_words xs @ rest") auto
    then show ?thesis using 0 by (simp add: all_words_def)
  next
    case (Suc m)
    obtain a g ws where z: "xs ! m = (a, g, ws)" by (rule prod_cases3)
    have xs: "take room xs = take m xs @ [(a, g, ws)]" "xs = take m xs @ (a, g, ws) # drop room xs"
      using False Suc z id_take_nth_drop [of m xs] by (simp_all add: take_Suc_conv_app_nth)
    let ?p = "fold ism_word (all_words (take m xs)) r"
    have p: "unpaired ?p" "dr_produced ?p = m"
      using fold_all_words [of "take m xs" r] assms(1,3,4,5) False Suc by (auto dest: in_set_takeD)
    have sw: "set_words (a, g, ws)" using assms(1) z False Suc by (metis nth_mem not_less Suc_le_eq)
    have W: "all_words (take room xs) = all_words (take m xs) @ butlast ws @ [last ws]"
      using set_words_last(1) [OF sw p(1)] by (simp add: all_words_def xs(1))
    have all: "all_words xs = all_words (take room xs) @ all_words (drop room xs)"
      by (rule all_words_split)
    let ?us = "all_words (take m xs) @ butlast ws"
    have before: "dr_produced (fold ism_word ?us r) < room"
      using set_words_last(2) [OF sw p(1)] p(2) Suc by simp
    have g: "dr_produced (ism_word (last ws) (fold ism_word ?us r)) = room"
    proof -
      have "ws = butlast ws @ [last ws]" using set_words_last(1) [OF sw p(1)] by simp
      then have "fold ism_word ws ?p = fold ism_word (butlast ws @ [last ws]) ?p" by (rule arg_cong)
      then have "fold ism_word ws ?p = ism_word (last ws) (fold ism_word ?us r)" by simp
      then show ?thesis using fold_set_words [OF sw p(1)] p(2) Suc by (simp add: grows_by_def)
    qed
    have stop: "words_used room vs q = 0" if "dr_produced q = room" for vs q using that by (cases vs) auto
    have "words_used room (?us @ last ws # all_words (drop room xs) @ rest) r = length ?us + 1"
      unfolding words_used_append [of room ?us] words_used_all [OF before] using before g by (simp add: stop)
    moreover have "all_words xs @ rest = ?us @ last ws # all_words (drop room xs) @ rest" unfolding all W by simp
    moreover have "length (all_words (take room xs)) = length ?us + 1" unfolding W by simp
    ultimately show ?thesis using False by presburger
  qed
qed

text \<open>What the loop leaves, for a FIFO that holds the words of samples.\<close>

definition loop_left :: "ism_drv \<Rightarrow> (bytes \<times> bytes \<times> bytes list) list \<Rightarrow> fifo_part \<Rightarrow> imu_sample list \<Rightarrow> ism_drain \<Rightarrow> bool" where
  "loop_left s xs d buf r \<longleftrightarrow>
     dr_produced r = length xs \<and> is_next_seq (dr_s r) = is_next_seq s + of_nat (length xs) \<and>
     length (dr_buf r) = length buf \<and> tk_ticks (dr_s r) = tk_ticks s \<and> tk_guard (dr_s r) = tk_guard s \<and>
     (ft_have_word (dr_fts r) \<longrightarrow> (\<exists>w \<in> set (fp_words d). word_tag w = ST_TAG_TIMESTAMP)) \<and>
     (\<forall>k < length xs. sample_of s (is_next_seq s + of_nat k) (fst (xs ! k)) (fst (snd (xs ! k))) (dr_buf r ! k)) \<and>
     (\<forall>j \<ge> length xs. dr_buf r ! j = buf ! j)"

lemma ism_read_samples:
  assumes "fifo_bus bus" "fifo_holds d xs rest" "room \<le> length buf"
  defines "taken \<equiv> length (all_words (take room xs))"
  shows "\<exists>r c. loop_left s (take room xs) d buf r \<and> taken \<le> c \<and>
    (if length xs < room then c = length (fp_words d) else c < taken + st_fifo_burst_words (bus_spi_hz bus)) \<and>
    ism_read bus buf room s d = read_result d (drop c (fp_words d)) r"
proof -
  have h: "fifo_ok d" "\<forall>x \<in> set xs. set_words x" "\<forall>w \<in> set rest. other_word w" "fp_words d = all_words xs @ rest"
    using assms(2) by (simp_all add: fifo_holds_def)
  let ?st = "drain_start s buf" and ?ys = "take room xs"
  have start: "unpaired ?st" "dr_produced ?st = 0" "dr_buf ?st = buf" "dr_s ?st = s" "\<not> ft_have_word (dr_fts ?st)"
    by (simp_all add: drain_start_def unpaired_def st_fifo_ts_begin_def)
  define u where "u = words_used room (fp_words d) ?st"
  have u: "u = (if length xs < room then length (fp_words d) else taken)"
    unfolding u_def taken_def h(4) by (rule words_used_samples [OF h(2,3) start(1,2)]) (simp add: start(3) assms(3))
  let ?r = "fold ism_word (take u (fp_words d)) ?st" and ?q = "fold ism_word (all_words ?ys) ?st"
  have "\<forall>x \<in> set ?ys. set_words x" using h(2) by (auto dest: in_set_takeD)
  note q = fold_all_words [OF this start(1), unfolded start(2-4), simplified]
  have "?r = fold ism_word (if length xs < room then rest else []) ?q"
  proof (cases "length xs < room")
    case True
    then show ?thesis using u h(4) by simp
  next
    case False
    have "fp_words d = all_words ?ys @ all_words (drop room xs) @ rest"
      unfolding h(4) append.assoc [symmetric] all_words_split [symmetric] ..
    then have "take u (fp_words d) = all_words ?ys" using u False by (simp add: taken_def)
    then show ?thesis using False by simp
  qed
  moreover have "same_pairing ?q (fold ism_word (if length xs < room then rest else []) ?q)"
    by (rule fold_word_other) (use h(3) q assms(3) in \<open>auto simp: unpaired_def\<close>)
  ultimately have o: "same_pairing ?q ?r" by metis
  have t: "\<exists>w \<in> set (fp_words d). word_tag w = ST_TAG_TIMESTAMP" if "ft_have_word (dr_fts ?r)"
    using that fold_word_no_stamp [of "take u (fp_words d)" ?st] start(5) by (auto dest: in_set_takeD)
  have left: "loop_left s ?ys d buf ?r"
    unfolding loop_left_def by (intro conjI impI t) (use o q start assms(3) in \<open>simp_all add: same_pairing_def\<close>)
  obtain c where c: "u \<le> c" "c \<le> length (fp_words d)" "c < u + st_fifo_burst_words (bus_spi_hz bus)"
    "ism_read bus buf room s d = read_result d (drop c (fp_words d)) ?r"
    using ism_read_any [OF assms(1) h(1), of room s buf] unfolding u_def by blast
  have "taken \<le> length (fp_words d)"
    unfolding taken_def h(4) using arg_cong [OF all_words_split [of xs room], of length] by simp
  then have "taken \<le> c" using c(1) u by (simp split: if_splits)
  then show ?thesis using left c u by (intro exI [of _ ?r] exI [of _ c]) (simp split: if_splits)
qed

text \<open>C26: a drain of the FIFO delivers its samples. Let the FIFO hold the words of any number of samples, each an
  accelerometer and a gyroscope word in either order with timestamp and temperature words anywhere between. However the
  transfers are cut, the read delivers as many of these samples as the caller has room for, from the first one on and in
  order, each with the values of its own two words in the board's axes and the next sequence number, reports an overflow
  when the part does and touches nothing else of the caller's buffer. With room to spare it leaves the FIFO empty. When
  the buffer is full it has taken the words of these samples and at most the rest of the block it was in; the words of
  that rest are lost.\<close>

theorem ism_read_delivers:
  assumes "fifo_bus bus" "fifo_holds d xs rest" "room \<le> length buf"
  shows "case ism_read bus buf room s d of ((rc, n, buf'), s', d') \<Rightarrow>
    let m = min room (length xs); taken = length (all_words (take m xs)) in
    rc = (if fp_ovr d then 1 else 0) \<and> n = Some m \<and>
    is_next_seq s' = is_next_seq s + of_nat m \<and> length buf' = length buf \<and>
    (\<forall>k < m. sample_of s (is_next_seq s + of_nat k) (fst (xs ! k)) (fst (snd (xs ! k))) (buf' ! k)) \<and>
    (\<forall>j. m \<le> j \<and> j < length buf \<longrightarrow> buf' ! j = buf ! j) \<and>
    (\<exists>c \<ge> taken. fp_words d' = drop c (fp_words d) \<and>
       (if length xs < room then c = length (fp_words d) else c < taken + st_fifo_burst_words (bus_spi_hz bus)))"
proof -
  let ?m = "min room (length xs)"
  obtain r c where left: "loop_left s (take room xs) d buf r" and c: "length (all_words (take room xs)) \<le> c"
      "if length xs < room then c = length (fp_words d)
       else c < length (all_words (take room xs)) + st_fifo_burst_words (bus_spi_hz bus)"
    and rd: "ism_read bus buf room s d = read_result d (drop c (fp_words d)) r"
    using ism_read_samples [OF assms] by blast
  have ys: "take ?m xs = take room xs" "length (take room xs) = ?m" by (simp_all add: min_def)
  have r: "dr_produced r = ?m" "is_next_seq (dr_s r) = is_next_seq s + of_nat ?m" "length (dr_buf r) = length buf"
    "\<And>k. k < ?m \<Longrightarrow> sample_of s (is_next_seq s + of_nat k) (fst (xs ! k)) (fst (snd (xs ! k))) (dr_buf r ! k)"
    "\<And>j. ?m \<le> j \<Longrightarrow> dr_buf r ! j = buf ! j"
    using left unfolding loop_left_def ys(2) by auto
  define p where "p = ism_stamp (fp_ovr d) (fp_now d) ?m (dr_fts r) (dr_buf r) (dr_s r)"
  define b where "b = (if ?m = 0 then dr_buf r else fst p)"
  define t where "t = (if ?m = 0 then dr_s r else snd p)"
  have b: "restamped ?m (dr_buf r) b" unfolding b_def p_def by (simp add: ism_stamp_restamps restamped_self)
  have "is_next_seq t = is_next_seq s + of_nat ?m"
    using r(2) drv_more [OF conjunct1 [OF ism_stamp_keeps], of "fp_ovr d" "fp_now d" ?m "dr_fts r" "dr_buf r" "dr_s r"]
    by (simp add: t_def p_def)
  moreover have "sample_of s (is_next_seq s + of_nat k) (fst (xs ! k)) (fst (snd (xs ! k))) (b ! k)" if kl: "k < ?m" for k
  proof -
    have "k < length (dr_buf r)" using kl assms(3) r(3) by simp
    then obtain t where "b ! k = (dr_buf r ! k)\<lparr>is_chip_ts := t\<rparr>" using restampedD(1) [OF b _ kl] by blast
    then show ?thesis using r(4) [OF kl] by (simp add: sample_of_def)
  qed
  moreover have "b ! j = buf ! j" if "?m \<le> j" "j < length buf" for j
    using restampedD(2) [OF b _ that(1)] r(3,5) that by simp
  moreover have "length b = length buf" using b r(3) unfolding restamped_def by simp
  moreover have "ism_read bus buf room s d = ((if fp_ovr d then 1 else 0, Some ?m, b), t, d\<lparr>fp_words := drop c (fp_words d)\<rparr>)"
    unfolding rd read_result_def Let_def r(1) p_def [symmetric] b_def t_def ..
  moreover have "\<exists>c' \<ge> length (all_words (take room xs)). drop c (fp_words d) = drop c' (fp_words d) \<and>
      (if length xs < room then c' = length (fp_words d)
       else c' < length (all_words (take room xs)) + st_fifo_burst_words (bus_spi_hz bus))"
    by (rule exI [of _ c]) (use c in blast)
  ultimately show ?thesis unfolding Let_def ys(1) by simp
qed

text \<open>C27: the sample clock. Whatever the counter reads after a drain, the samples are one period apart and the guard holds the
  newest stamp, and the burst either starts exactly one period behind the drain before or ends within a second of ticks
  before the reading. In a run -- no loss reported, and at most two readings refused since the last good one -- a drain
  that found no timestamp word in the FIFO starts one to eight periods behind the drain before; one that found one
  starts behind it too, or goes back by more than a second, when the part's own stamps do.\<close>

theorem ism_read_clock:
  assumes "fifo_bus bus" "fifo_holds d xs rest" "room \<le> length buf" "0 < room" "xs \<noteq> []" "ticks_ok s"
  shows "case ism_read bus buf room s d of ((rc, n, buf'), s', d') \<Rightarrow>
    let m = min room (length xs); first = is_chip_ts (buf' ! 0); newest = is_chip_ts (buf' ! (m - 1)); g = gap s first in
    spaced (tk_ticks s) m buf' \<and> cg_have (tk_guard s') \<and> cg_last (tk_guard s') = newest \<and> tk_ticks s' = tk_ticks s \<and>
    (cg_have (tk_guard s) \<and> first = cg_last (tk_guard s) + tk_ticks s \<or> uint (fp_now d - newest) \<le> 40000) \<and>
    (\<not> fp_ovr d \<and> cg_have (tk_guard s) \<and> cg_refusals (tk_guard s) < CHIP_TS_MAX_REFUSALS \<longrightarrow>
       cg_refusals (tk_guard s') \<le> cg_refusals (tk_guard s) + 1 \<and>
       (if \<exists>w \<in> set (fp_words d). word_tag w = ST_TAG_TIMESTAMP then 0 < g \<or> g < - 40000
        else 1 \<le> g \<and> g \<le> 8 * uint (tk_ticks s)))"
proof -
  let ?m = "min room (length xs)"
  obtain r c where left: "loop_left s (take room xs) d buf r" and rd: "ism_read bus buf room s d = read_result d (drop c (fp_words d)) r"
    using ism_read_samples [OF assms(1-3)] by blast
  have m: "0 < ?m" "?m \<le> length (dr_buf r)" using assms(3-5) left by (auto simp: loop_left_def)
  have r: "dr_produced r = ?m" "tk_ticks (dr_s r) = tk_ticks s" "tk_guard (dr_s r) = tk_guard s"
    "ft_have_word (dr_fts r) \<Longrightarrow> \<exists>w \<in> set (fp_words d). word_tag w = ST_TAG_TIMESTAMP"
    using left unfolding loop_left_def by (auto simp: min.commute)
  obtain b t where bt: "ism_stamp (fp_ovr d) (fp_now d) ?m (dr_fts r) (dr_buf r) (dr_s r) = (b, t)" by fastforce
  have read: "ism_read bus buf room s d = ((if fp_ovr d then 1 else 0, Some ?m, b), t, d\<lparr>fp_words := drop c (fp_words d)\<rparr>)"
    unfolding rd read_result_def Let_def r(1) bt using m(1) [THEN gr_implies_not_zero]
    by (simp only: if_False fst_conv snd_conv)
  have g: "gap (dr_s r) = gap s" using r(3) by (intro ext) (simp add: gap_def)
  note dated = ism_stamp_dated [OF m bt, unfolded r(2,3)]
  have T: "tk_ticks t = tk_ticks s"
    using ism_stamp_keeps [of "fp_ovr d" "fp_now d" ?m "dr_fts r" "dr_buf r" "dr_s r"] bt r(2) by simp
  have run: "cg_refusals (tk_guard t) \<le> cg_refusals (tk_guard s) + 1 \<and>
      (if \<exists>w \<in> set (fp_words d). word_tag w = ST_TAG_TIMESTAMP then 0 < gap s (is_chip_ts (b ! 0)) \<or> gap s (is_chip_ts (b ! 0)) < - 40000
       else 1 \<le> gap s (is_chip_ts (b ! 0)) \<and> gap s (is_chip_ts (b ! 0)) \<le> 8 * uint (tk_ticks s))"
    if "\<not> fp_ovr d" "cg_have (tk_guard s)" "cg_refusals (tk_guard s) < CHIP_TS_MAX_REFUSALS"
  proof -
    have "ticks_ok (dr_s r)" using assms(6) r(2) by (simp add: ticks_ok_def)
    from ism_stamp_clock [OF this, unfolded r(3), OF that(2,3) m, unfolded g] bt that(1)
    have "cg_refusals (tk_guard t) \<le> cg_refusals (tk_guard s) + 1 \<and>
      (if ft_have_word (dr_fts r) then 0 < gap s (is_chip_ts (b ! 0)) \<or> gap s (is_chip_ts (b ! 0)) < - 40000
       else 1 \<le> gap s (is_chip_ts (b ! 0)) \<and> gap s (is_chip_ts (b ! 0)) \<le> 8 * uint (tk_ticks s))"
      unfolding r(2) by simp
    then show ?thesis using r(4) by (auto split: if_splits)
  qed
  show ?thesis unfolding read prod.case Let_def using dated T run by blast
qed

section \<open>The register image\<close>

definition put_all :: "(u8 \<times> u8) list \<Rightarrow> (u8 \<Rightarrow> u8) \<Rightarrow> u8 \<Rightarrow> u8" where
  "put_all ws r = fold (\<lambda>(a, v) r. r(a := v)) ws r"

lemma part_writes:
  assumes "bus_be b = Some (part_backend inc)" "bus_spi_inc_mask b = inc" "\<forall>(a, v) \<in> set ws. a AND (0x80 OR inc) = 0"
  shows "reg_writes b ws r = (True, put_all ws r)"
  using assms(3)
proof (induction ws arbitrary: r)
  case (Cons w ws)
  obtain a v where w: "w = (a, v)" by fastforce
  have "bus_reg_write b a v r = (True, r(a := v))"
    using part_transfer [OF assms(1,2), of a 1 r v] Cons.prems w by simp
  then show ?case using Cons w by (simp add: put_all_def)
qed (simp add: put_all_def)

definition ST_LADDER :: "int list" where
  "ST_LADDER = [13016, 26031, 52063, 104125, 208250, 416500, 833000, 1666000, 3332000, 6664000]"

text \<open>The rate code and the rate name the same rung.\<close>

lemma odr_code_rate:
  "1 \<le> unat (ism_odr_encode mhz) \<and> unat (ism_odr_encode mhz) \<le> 10 \<and>
   ism_odr_actual mhz = ST_LADDER ! (unat (ism_odr_encode mhz) - 1)"
  unfolding ism_odr_encode_def ism_odr_actual_def ST_LADDER_def by simp

lemma odr_actual_snaps: "ism_odr_actual (ism_odr_actual mhz) = ism_odr_actual mhz" "min mhz 6664000 \<le> ism_odr_actual mhz"
  unfolding ism_odr_actual_def by auto

lemma odr_codes: "ism_odr_encode mhz \<in> set [1, 2, 3, 4, 5, 6, 7, 8, 9, 10]"
  by (simp add: ism_odr_encode_def)

lemma fs_codes: "snd (xl_fs_encode g) \<in> set [0, 8, 4, 12]" "snd (gy_fs_encode dps) \<in> set [2, 0, 4, 8, 1, 12]"
  by (simp_all add: xl_fs_encode_def gy_fs_encode_def)

lemma code_nibbles:
  "c \<in> set [1, 2, 3, 4, 5, 6, 7, 8, 9, 10 :: u8] \<Longrightarrow> x \<in> set [0, 8, 4, 12] \<Longrightarrow> drop_bit 4 (push_bit 4 c OR x OR 2) = c"
  "c \<in> set [1, 2, 3, 4, 5, 6, 7, 8, 9, 10 :: u8] \<Longrightarrow> y \<in> set [2, 0, 4, 8, 1, 12] \<Longrightarrow> drop_bit 4 (push_bit 4 c OR y) = c"
  by auto

lemma watermark_field:
  assumes "0 \<le> wm"
  shows "uint (word_of_int (ism_wm wm) AND 0xFF :: u8) + 256 * uint (word_of_int (drop_bit 8 (ism_wm wm)) AND 0x01 :: u8) =
    min (2 * wm) 511"
proof -
  let ?w = "ism_wm wm"
  have w: "?w = min (2 * wm) 511" "0 \<le> ?w" "?w < 512" using assms by (auto simp: ism_wm_def Let_def)
  have m: "(0xFF :: u8) = - 1" by simp
  have "uint (word_of_int ?w AND 0xFF :: u8) = ?w mod 256" unfolding m by (simp add: unsigned_of_int take_bit_eq_mod)
  moreover have "uint (word_of_int (drop_bit 8 ?w) AND 0x01 :: u8) = ?w div 256"
  proof -
    have "?w div 256 = 0 \<or> ?w div 256 = 1" using w(2,3) by linarith
    then show ?thesis by (auto simp: drop_bit_eq_div)
  qed
  ultimately show ?thesis using w(1) by simp
qed

text \<open>The configured part. On a part whose registers hold anything, init writes the rate code, both range codes and the
  watermark where they belong: accelerometer, gyroscope and FIFO batching run at one rate, which is the rung the stamps
  are spaced for; the watermark is twice the configured sample sets and never above its nine bits; the FIFO ends in
  continuous mode, the I2C block is off exactly on SPI, and the guard has forgotten the burst before.\<close>

theorem ism_init_image:
  assumes "bus_be bus = Some (part_backend 0)" "bus_spi_inc_mask bus = 0" "0 \<le> ig_fifo_wm cfg"
  shows "case ism_init bus cfg s r of (rc, s', r') \<Rightarrow>
    (let code = drop_bit 4 (r' REG_CTRL1_XL); rate = ST_LADDER ! (unat code - 1)
     in rc = 0 \<and> 1 \<le> unat code \<and> unat code \<le> 10 \<and> rate = ism_odr_actual (ig_odr_mhz cfg) \<and>
        drop_bit 4 (r' REG_CTRL2_G) = code \<and> r' REG_FIFO_CTRL3 = push_bit 4 code OR code \<and>
        uint (tk_ticks s') = 40000000 div rate \<and> ticks_ok s' \<and>
        uint (r' REG_FIFO_CTRL1) + 256 * uint (r' REG_FIFO_CTRL2) = min (2 * ig_fifo_wm cfg) 511 \<and>
        r' REG_FIFO_CTRL4 AND 0x07 = 0x06 \<and> r' REG_FUNC_CFG_ACCESS = 0 \<and>
        r' REG_CTRL4_C = (if bus_kind bus = BUS_SPI then CTRL4_I2C_DISABLE else r REG_CTRL4_C) \<and>
        is_next_seq s' = 0 \<and> \<not> cg_have (tk_guard s') \<and> cg_refusals (tk_guard s') = 0)"
proof -
  let ?ws = "ism_init_writes (bus_kind bus) cfg" and ?c = "ism_odr_encode (ig_odr_mhz cfg)"
  have "\<forall>(a, v) \<in> set ?ws. a AND (0x80 OR 0) = 0"
    by (simp add: ism_init_writes_def Let_def ism_regs)
  then have w: "reg_writes bus ?ws r = (True, put_all ?ws r)" by (rule part_writes [OF assms(1,2)])
  define r' where "r' = put_all ?ws r"
  have burst: "bus_burst_read bus REG_OUT_TEMP_L 2 r' = (Some (map (\<lambda>i. r' (REG_OUT_TEMP_L + of_nat i)) [0..<2]), r')"
    using part_transfer [OF assms(1,2), of REG_OUT_TEMP_L 2 r' 0] by (simp add: ism_regs)
  have regs: "r' REG_CTRL1_XL = push_bit 4 ?c OR snd (xl_fs_encode (ig_accel_g cfg)) OR 0x02"
    "r' REG_CTRL2_G = push_bit 4 ?c OR snd (gy_fs_encode (ig_gyro_dps cfg))"
    "r' REG_FIFO_CTRL3 = push_bit 4 ?c OR ?c"
    "r' REG_FIFO_CTRL1 = word_of_int (ism_wm (ig_fifo_wm cfg)) AND 0xFF"
    "r' REG_FIFO_CTRL2 = word_of_int (drop_bit 8 (ism_wm (ig_fifo_wm cfg))) AND 0x01"
    "r' REG_FIFO_CTRL4 = push_bit 6 (st_fifo_ts_dec_batch (ig_fifo_wm cfg)) OR 0x26"
    "r' REG_FUNC_CFG_ACCESS = 0"
    "r' REG_CTRL4_C = (if bus_kind bus = BUS_SPI then CTRL4_I2C_DISABLE else r REG_CTRL4_C)"
    by (simp_all add: r'_def ism_init_writes_def put_all_def Let_def ism_regs)
  have code: "drop_bit 4 (r' REG_CTRL1_XL) = ?c" "drop_bit 4 (r' REG_CTRL2_G) = ?c"
    unfolding regs(1,2) by (intro code_nibbles odr_codes fs_codes)+
  have mode: "r' REG_FIFO_CTRL4 AND 0x07 = 0x06" unfolding regs(6) st_fifo_ts_dec_batch_def by simp
  have rate: "ism_odr_actual (ig_odr_mhz cfg) \<in> set ST_LADDER"
    by (simp add: ism_odr_actual_def ST_LADDER_def)
  then have ticks: "uint (40000000 div word_of_int (ism_odr_actual (ig_odr_mhz cfg)) :: u32) = 40000000 div ism_odr_actual (ig_odr_mhz cfg)"
    "0 < 40000000 div ism_odr_actual (ig_odr_mhz cfg)" "40000000 div ism_odr_actual (ig_odr_mhz cfg) < 2 ^ 28"
    unfolding ST_LADDER_def by (auto simp: uint_div)
  show ?thesis
    using odr_code_rate [of "ig_odr_mhz cfg"] watermark_field [OF assms(3)] mode ticks
    unfolding ism_init_def w r'_def [symmetric] Let_def prod.case burst
    by (simp add: code regs(3-5,7,8) ticks_ok_def chip_ts_guard_reset_def)
qed

section \<open>A buffer that fills\<close>

lemma ism_block_append:
  assumes "dr_produced (fold ism_word us r) < room"
  shows "ism_block room (us @ vs) i r = ism_block room vs (i + length us) (fold ism_word us r)"
  using assms
proof (induction us arbitrary: i r)
  case (Cons w us)
  have "dr_produced r < room"
    using Cons.prems ism_word_produced [of r w] fold_word_produced [of "ism_word w r" us] by simp
  then show ?case using Cons by simp
qed simp

text \<open>what a read takes out of the FIFO it does not always hand on. A transfer brings a whole block of words; when the
  caller's buffer fills inside it, the words behind are dropped, and with them every sample they hold: the FIFO is
  empty, the read reports success, and the sequence numbers show no gap. So a reader with room for fewer samples than
  the FIFO holds, such as the calibration program, loses samples without a trace.\<close>

theorem ism_full_buffer_discards:
  assumes "fifo_bus bus" "fifo_holds d (xs @ ys) rest" "length xs = room" "0 < room" "room \<le> length buf"
    and "length (fp_words d) \<le> st_fifo_burst_words (bus_spi_hz bus)" "\<not> fp_ovr d"
  shows "case ism_read bus buf room s d of ((rc, n, buf'), s', d') \<Rightarrow>
    rc = 0 \<and> n = Some (length xs) \<and> fp_words d' = [] \<and> is_next_seq s' = is_next_seq s + of_nat (length xs)"
proof -
  have h: "fifo_ok d" "\<forall>x \<in> set xs. set_words x" "fp_words d = all_words xs @ all_words ys @ rest"
    using assms(2) by (auto simp: fifo_holds_def all_words_def)
  let ?st = "drain_start s buf" and ?W = "fp_words d" and ?n = "length (fp_words d)"
  have start: "unpaired ?st" "dr_produced ?st = 0" "dr_buf ?st = buf" "dr_s ?st = s" by (simp_all add: drain_start_def unpaired_def)
  define q where "q = fold ism_word (all_words xs) ?st"
  have q: "dr_produced q = length xs" "is_next_seq (dr_s q) = is_next_seq s + of_nat (length xs)"
    using fold_all_words [OF h(2) start(1)] start(2-4) assms(3,5) by (simp_all add: q_def)
  obtain zs z where xs: "xs = zs @ [z]" using assms(3,4) by (cases xs rule: rev_cases) auto
  obtain a g ws where z: "z = (a, g, ws)" by (rule prod_cases3)
  let ?p = "fold ism_word (all_words zs) ?st"
  have p: "unpaired ?p" "dr_produced ?p = length zs"
    using fold_all_words [of zs ?st] h(2) start assms(3,5) by (auto simp: xs)
  have sw: "set_words (a, g, ws)" using h(2) xs z by simp
  have W: "all_words xs = all_words zs @ butlast ws @ [last ws]"
    using set_words_last(1) [OF sw p(1)] by (simp add: all_words_def xs z)
  have before: "dr_produced (fold ism_word (all_words zs @ butlast ws) ?st) < room"
    using set_words_last(2) [OF sw p(1)] p(2) assms(3) xs by simp
  note blk = ism_block_append [OF before, of "last ws # all_words ys @ rest" 0]
  have "ism_block room ?W 0 ?st = (length (all_words xs), q)"
  proof -
    have "?W = (all_words zs @ butlast ws) @ last ws # all_words ys @ rest" by (simp add: h(3) W)
    moreover have "ism_word (last ws) (fold ism_word (all_words zs @ butlast ws) ?st) = q" by (simp add: q_def W)
    moreover have "ism_block room (all_words ys @ rest) k q = (k, q)" for k
      using q(1) assms(3) by (cases "all_words ys @ rest") auto
    ultimately have "ism_block room ?W 0 ?st = (Suc (length (all_words zs @ butlast ws)), q)" using blk before by simp
    moreover have "length (all_words xs) = Suc (length (all_words zs @ butlast ws))" unfolding W by simp
    ultimately show ?thesis by simp
  qed
  moreover have n: "0 < ?n" "?n < 1024" "\<forall>w \<in> set ?W. length w = 7"
    using W h(1,3) by (auto simp: fifo_ok_def)
  moreover have rd: "bus_burst_read bus REG_FIFO_STATUS1 2 d' = fifo_read REG_FIFO_STATUS1 2 d'"
    "bus_burst_read bus REG_TIMESTAMP0 4 d' = fifo_read REG_TIMESTAMP0 4 d'" for d'
    using assms(1) by (simp_all add: fifo_bus_def)
  have w7: "bus_burst_read bus REG_FIFO_DATA_OUT_TAG (?n * 7) d = (Some (concat ?W), d\<lparr>fp_words := []\<rparr>)"
  proof -
    have "bus_burst_read bus REG_FIFO_DATA_OUT_TAG (?n * 7) d = fifo_read REG_FIFO_DATA_OUT_TAG (?n * 7) d"
      using assms(1) n(1,3) unfolding fifo_bus_def by blast
    then show ?thesis by (simp add: fifo_read_def ism_regs)
  qed
  have words: "ism_words bus ?n (st_fifo_burst_words (bus_spi_hz bus)) room 0 ?st d = (True, q, d\<lparr>fp_words := []\<rparr>)"
  proof -
    have m: "min ?n (st_fifo_burst_words (bus_spi_hz bus)) = ?n" using assms(6) by simp
    have stop: "ism_words bus ?n k room i q d' = (True, q, d')" for k i d'
      using q(1) assms(3) by (subst ism_words.simps) simp
    show ?thesis
      using n(1) assms(4) start(2) burst_words_pos(1) [of "bus_spi_hz bus"] calculation(1) words_of_concat [OF n(3)]
      by (subst ism_words.simps) (simp add: m w7 stop)
  qed
  have st: "bus_burst_read bus REG_FIFO_STATUS1 2 d = (Some [of_nat (?n mod 256), of_nat (?n div 256) OR (if fp_ovr d then 0x40 else 0)], d)"
    by (subst rd) (simp_all add: fifo_read_def ism_regs)
  have ts: "bus_burst_read bus REG_TIMESTAMP0 4 d' =
      (Some [ucast (fp_now d'), ucast (drop_bit 8 (fp_now d')), ucast (drop_bit 16 (fp_now d')), ucast (drop_bit 24 (fp_now d'))], d')" for d'
    by (subst rd) (simp_all add: fifo_read_def ism_regs)
  note count = status_count [OF n(2), of "fp_ovr d"]
  obtain b t where bt: "ism_stamp False (fp_now d) (length xs) (dr_fts q) (dr_buf q) (dr_s q) = (b, t)" by fastforce
  then have "is_next_seq t = is_next_seq (dr_s q)"
    using drv_more [OF conjunct1 [OF ism_stamp_keeps], of False "fp_now d" "length xs" "dr_fts q" "dr_buf q" "dr_s q"] by simp
  moreover have "ism_read bus buf room s d = ((0, Some (length xs), b), t, d\<lparr>fp_words := []\<rparr>)"
    unfolding ism_read_def st prod.case option.case Let_def nth_Cons_0 nth_Cons_Suc One_nat_def count
    using n(1) words bt q(1) assms(3,4,7) unfolding drain_start_def [symmetric] by (simp add: ts le32_bytes)
  ultimately show ?thesis using q(2) by simp
qed

section \<open>Concrete runs\<close>

text \<open>A part of this kind on I2C.\<close>

definition fifo_i2c :: "fifo_part imud_bus" where
  "fifo_i2c = bus_init\<lparr>bus_be := Some \<lparr>be_scheme = None, be_open = \<lambda>_ d. (3, d), be_close = \<lambda>_ d. d,
     be_spi_setup = \<lambda>_ _ _ _ d. (0, d),
     be_i2c_xfer = \<lambda>_ _ tx n d. (case fifo_read (hd tx) n d of (r, d) \<Rightarrow> (map_option (!) r, d)),
     be_spi_msg = \<lambda>_ _ _ d. (None, d)\<rparr>\<rparr>"

lemma fifo_i2c_ok: "fifo_bus fifo_i2c"
proof -
  have r: "bus_burst_read fifo_i2c reg n d = (case fifo_read reg n d of (r, d') \<Rightarrow> (map_option (\<lambda>bs. map ((!) bs) [0..<n]) r, d'))"
    for reg n d
    by (simp add: bus_burst_read_def i2c_burst_read_def fifo_i2c_def bus_init_def option.map_comp comp_def split: prod.split)
  have full: "map ((!) bs) [0..<n] = bs" if "length bs = n" for bs :: bytes and n
    using that by (metis map_nth)
  have len: "length (concat (take k ws)) = k * 7" if "k \<le> length ws" "\<forall>w \<in> set ws. length w = 7" for k and ws :: "bytes list"
    using that
  proof (induction k arbitrary: ws)
    case (Suc k)
    then show ?case by (cases ws) auto
  qed simp
  have same: "bus_burst_read fifo_i2c reg n d = fifo_read reg n d" if "\<And>bs. fst (fifo_read reg n d) = Some bs \<Longrightarrow> length bs = n"
    for reg n d
    unfolding r using that full by (cases "fifo_read reg n d"; cases "fst (fifo_read reg n d)") auto
  show ?thesis
    unfolding fifo_bus_def
    by (intro allI conjI impI same) (auto simp: fifo_read_def ism_regs len)
qed

definition two_sets :: "(bytes \<times> bytes \<times> bytes list) list" where
  "two_sets =
     (let a = [0x10, 1, 0, 2, 0, 3, 0]; g = [0x08, 4, 0, 5, 0, 6, 0]; t = [0x20, 9, 0, 0, 0, 0, 0];
          b = [0x12, 7, 0, 8, 0, 9, 0]; h = [0x0A, 10, 0, 11, 0, 12, 0]
      in [(a, g, [a, g]), (b, h, [t, h, b])])"

lemma two_sets_held:
  "fifo_holds \<lparr>fp_words = all_words two_sets, fp_ovr = False, fp_now = now\<rparr> two_sets []"
  "fifo_holds \<lparr>fp_words = all_words [hd two_sets], fp_ovr = False, fp_now = now\<rparr> [hd two_sets] []"
proof -
  have "set_words x" if "x \<in> set two_sets" for x
    using that unfolding two_sets_def Let_def
    by (auto simp: set_words_def word_tag_def other_word_def TAG_ACCEL_NC_def TAG_GYRO_NC_def
        intro: exI [of _ "[]"] exI [of _ "[[0x20, 9, 0, 0, 0, 0, 0]]"])
  then show "fifo_holds \<lparr>fp_words = all_words two_sets, fp_ovr = False, fp_now = now\<rparr> two_sets []"
    "fifo_holds \<lparr>fp_words = all_words [hd two_sets], fp_ovr = False, fp_now = now\<rparr> [hd two_sets] []"
    by (auto simp: fifo_holds_def fifo_ok_def all_words_def two_sets_def Let_def)
qed

text \<open>A buffer entry and a driver state in the middle of a run.\<close>

definition blank :: imu_sample where
  "blank = \<lparr>is_accel = [0, 0, 0], is_accel_raw = [0, 0, 0], is_gyro = [0, 0, 0], is_temp_c = 0, is_chip_ts = 0, is_seq = 0,
     is_read_done_ns = 0, is_host_done_ns = 0\<rparr>"

definition running :: ism_drv where
  "running = \<lparr>tk_ticks = 48, tk_rejects = 0, tk_reject_next = 1, tk_fwd_rejects = 0, tk_fwd_next = 1, tk_bwd_rejects = 0,
     tk_bwd_next = 1, tk_guard = \<lparr>cg_last = 1000, cg_have = True, cg_refusals = 2\<rparr>, tk_log = [], is_accel_scale = 0,
     is_gyro_scale = 0, is_last_temp = 0, is_next_seq = 5\<rparr>"

theorem ism_read_delivers_witness:
  "(case ism_read fifo_i2c (replicate 4 blank) 4 running \<lparr>fp_words = all_words two_sets, fp_ovr = False, fp_now = 7\<rparr> of
     ((rc, n, buf'), s', d') \<Rightarrow> rc = 0 \<and> n = Some 2 \<and> fp_words d' = [] \<and> is_seq (buf' ! 1) = 6) \<and>
   (case ism_read fifo_i2c [blank] 1 running \<lparr>fp_words = all_words two_sets, fp_ovr = False, fp_now = 7\<rparr> of
     ((rc, n, buf'), s', d') \<Rightarrow> rc = 0 \<and> n = Some 1 \<and> length (fp_words d') \<le> 3 \<and> is_seq (buf' ! 0) = 5)"
proof
  have l: "length two_sets = 2" "length (all_words two_sets) = 5" "length (all_words (take (Suc 0) two_sets)) = 2"
    by (simp_all add: two_sets_def all_words_def Let_def)
  have h: "fifo_holds \<lparr>fp_words = all_words two_sets, fp_ovr = False, fp_now = 7\<rparr> two_sets []" by (rule two_sets_held)
  show "case ism_read fifo_i2c (replicate 4 blank) 4 running \<lparr>fp_words = all_words two_sets, fp_ovr = False, fp_now = 7\<rparr> of
     ((rc, n, buf'), s', d') \<Rightarrow> rc = 0 \<and> n = Some 2 \<and> fp_words d' = [] \<and> is_seq (buf' ! 1) = 6"
    using ism_read_delivers [OF fifo_i2c_ok h, of 4 "replicate 4 blank" running] l
    by (auto simp: running_def sample_of_def Let_def dest: spec [of _ 1])
  show "case ism_read fifo_i2c [blank] 1 running \<lparr>fp_words = all_words two_sets, fp_ovr = False, fp_now = 7\<rparr> of
     ((rc, n, buf'), s', d') \<Rightarrow> rc = 0 \<and> n = Some 1 \<and> length (fp_words d') \<le> 3 \<and> is_seq (buf' ! 0) = 5"
    using ism_read_delivers [OF fifo_i2c_ok h, of 1 "[blank]" running] l
    by (auto simp: running_def sample_of_def Let_def dest: spec [of _ 0])
qed

theorem ism_read_clock_witness:
  "case ism_read fifo_i2c (replicate 4 blank) 4 running \<lparr>fp_words = all_words [hd two_sets], fp_ovr = False, fp_now = 0xFF000000\<rparr> of
        ((rc, n, buf'), s', d') \<Rightarrow> 1 \<le> gap running (is_chip_ts (buf' ! 0)) \<and> gap running (is_chip_ts (buf' ! 0)) \<le> 384"
proof -
  have t: "\<not> (\<exists>w \<in> set (all_words [hd two_sets]). word_tag w = ST_TAG_TIMESTAMP)"
    by (simp add: all_words_def two_sets_def Let_def word_tag_def ST_TAG_TIMESTAMP_def)
  have "fifo_holds \<lparr>fp_words = all_words [hd two_sets], fp_ovr = False, fp_now = 0xFF000000\<rparr> [hd two_sets] []" by (rule two_sets_held)
  from ism_read_clock [OF fifo_i2c_ok this, of 4 "replicate 4 blank" running]
  show ?thesis using t by (auto simp: running_def Let_def ticks_ok_def CHIP_TS_MAX_REFUSALS_def)
qed

theorem ism_init_image_witness:
  "case ism_init (bus_init\<lparr>bus_kind := BUS_SPI, bus_be := Some (part_backend 0)\<rparr>)
      \<lparr>ig_odr_mhz = 104000, ig_accel_g = 8, ig_gyro_dps = 2000, ig_fifo_wm = 300\<rparr> running (\<lambda>_. 0xFF) of
     (rc, s', r') \<Rightarrow> rc = 0 \<and> uint (r' REG_FIFO_CTRL1) + 256 * uint (r' REG_FIFO_CTRL2) = 511"
  using ism_init_image [of "bus_init\<lparr>bus_kind := BUS_SPI, bus_be := Some (part_backend 0)\<rparr>"
      "\<lparr>ig_odr_mhz = 104000, ig_accel_g = 8, ig_gyro_dps = 2000, ig_fifo_wm = 300\<rparr>" "\<lambda>_. 0xFF" running]
  by (auto simp: bus_init_def Let_def)

theorem ism_full_buffer_discards_witness:
  "case ism_read fifo_i2c [blank] 1 running \<lparr>fp_words = all_words two_sets, fp_ovr = False, fp_now = 7\<rparr> of
     ((rc, n, buf'), s', d') \<Rightarrow> rc = 0 \<and> n = Some 1 \<and> fp_words d' = [] \<and> is_next_seq s' = 6"
proof -
  have two: "two_sets = [hd two_sets] @ [last two_sets]" by (simp add: two_sets_def Let_def)
  have "fifo_holds \<lparr>fp_words = all_words two_sets, fp_ovr = False, fp_now = 7\<rparr> ([hd two_sets] @ [last two_sets]) []"
    using two_sets_held(1) [of 7] two by metis
  from ism_full_buffer_discards [OF fifo_i2c_ok this, of 1 "[blank]" running] show ?thesis
    by (auto simp: running_def fifo_i2c_def bus_init_def st_fifo_burst_words_def ST_FIFO_BURST_WORDS_def all_words_def two_sets_def Let_def)
qed

end
