(* ===== verification/Icm42688.thy ===== *)
theory Icm42688
  imports Ism330
begin

text \<open>
  The driver of the ICM-42688-P, src/drivers/icm42688p.c: its register image, the drain of its FIFO packets, the
  widening of the 16-bit stamps they carry, and the fallback to the counter read after the drain.
\<close>

section \<open>Constants\<close>

definition ICM_DEVICE_CONFIG :: u8 where "ICM_DEVICE_CONFIG = 0x11"
definition ICM_INT_CONFIG :: u8 where "ICM_INT_CONFIG = 0x14"
definition ICM_FIFO_CONFIG :: u8 where "ICM_FIFO_CONFIG = 0x16"
definition ICM_INT_STATUS :: u8 where "ICM_INT_STATUS = 0x2D"
definition ICM_FIFO_DATA :: u8 where "ICM_FIFO_DATA = 0x30"
definition ICM_SIGNAL_PATH_RESET :: u8 where "ICM_SIGNAL_PATH_RESET = 0x4B"
definition ICM_PWR_MGMT0 :: u8 where "ICM_PWR_MGMT0 = 0x4E"
definition ICM_GYRO_CONFIG0 :: u8 where "ICM_GYRO_CONFIG0 = 0x4F"
definition ICM_ACCEL_CONFIG0 :: u8 where "ICM_ACCEL_CONFIG0 = 0x50"
definition ICM_TMST_CONFIG :: u8 where "ICM_TMST_CONFIG = 0x54"
definition ICM_FIFO_CONFIG1 :: u8 where "ICM_FIFO_CONFIG1 = 0x5F"
definition ICM_FIFO_CONFIG2 :: u8 where "ICM_FIFO_CONFIG2 = 0x60"
definition ICM_FIFO_CONFIG3 :: u8 where "ICM_FIFO_CONFIG3 = 0x61"
definition ICM_INT_CONFIG1 :: u8 where "ICM_INT_CONFIG1 = 0x64"
definition ICM_INT_SOURCE0 :: u8 where "ICM_INT_SOURCE0 = 0x65"
definition ICM_WHO_AM_I :: u8 where "ICM_WHO_AM_I = 0x75"
definition ICM_BANK_SEL :: u8 where "ICM_BANK_SEL = 0x76"
definition ICM_TMSTVAL0 :: u8 where "ICM_TMSTVAL0 = 0x62"
definition ICM_WHO_AM_I_VALUE :: u8 where "ICM_WHO_AM_I_VALUE = 0x47"
definition ICM_FIFO_BURST_PKTS :: nat where "ICM_FIFO_BURST_PKTS = 16"
definition ICM_FIFO_BURST_US :: nat where "ICM_FIFO_BURST_US = 400"
definition FIFO_HDR_MSG :: u8 where "FIFO_HDR_MSG = 0x80"
definition FIFO_HDR_ACCEL :: u8 where "FIFO_HDR_ACCEL = 0x40"
definition FIFO_HDR_GYRO :: u8 where "FIFO_HDR_GYRO = 0x20"
definition FIFO_HDR_TS_MASK :: u8 where "FIFO_HDR_TS_MASK = 0x0C"
definition FIFO_HDR_TS_ODR :: u8 where "FIFO_HDR_TS_ODR = 0x08"
definition ICM_MAX_JITTER_TICKS :: u32 where "ICM_MAX_JITTER_TICKS = 937500"
definition TS_FIFO_WRAP_TICKS :: u32 where "TS_FIFO_WRAP_TICKS = 65536"
definition TS_FIFO_MAX_LAG :: u32 where "TS_FIFO_MAX_LAG = 49152"

lemmas icm_regs = ICM_DEVICE_CONFIG_def ICM_INT_CONFIG_def ICM_FIFO_CONFIG_def ICM_INT_STATUS_def ICM_FIFO_DATA_def
  ICM_SIGNAL_PATH_RESET_def ICM_PWR_MGMT0_def ICM_GYRO_CONFIG0_def ICM_ACCEL_CONFIG0_def ICM_TMST_CONFIG_def
  ICM_FIFO_CONFIG1_def ICM_FIFO_CONFIG2_def ICM_FIFO_CONFIG3_def ICM_INT_CONFIG1_def ICM_INT_SOURCE0_def
  ICM_WHO_AM_I_def ICM_BANK_SEL_def ICM_TMSTVAL0_def

definition icm_fifo_burst_pkts :: "u32 \<Rightarrow> nat" where
  "icm_fifo_burst_pkts hz =
     (if hz = 0 then ICM_FIFO_BURST_PKTS
      else let bytes = unat hz * ICM_FIFO_BURST_US div 8000000;
               pkts = bytes div 16;
               pkts = (if pkts < 1 then 1 else pkts)
           in if pkts > ICM_FIFO_BURST_PKTS then ICM_FIFO_BURST_PKTS else pkts)"

section \<open>State and configuration\<close>

record icm_drv = ts_state +
  ic_accel_scale :: f32
  ic_gyro_scale :: f32
  ic_next_seq :: u32
  ic_ts_last_raw :: u32
  ic_ts_hi :: u32
  ic_ts_fifo_usable :: bool

definition icm_odr_encode :: "int \<Rightarrow> u8" where
  "icm_odr_encode mhz =
     (if mhz \<le> 12500 then 0x0B else if mhz \<le> 25000 then 0x0A else if mhz \<le> 50000 then 0x09
      else if mhz \<le> 100000 then 0x08 else if mhz \<le> 200000 then 0x07 else if mhz \<le> 500000 then 0x0F
      else if mhz \<le> 1000000 then 0x06 else if mhz \<le> 2000000 then 0x05 else if mhz \<le> 4000000 then 0x04
      else if mhz \<le> 8000000 then 0x03 else if mhz \<le> 16000000 then 0x02 else 0x01)"

definition icm_odr_actual :: "int \<Rightarrow> int" where
  "icm_odr_actual mhz =
     first_step [12500, 25000, 50000, 100000, 200000, 500000, 1000000, 2000000, 4000000, 8000000, 16000000, 32000000] mhz"

definition DEG_TO_RAD :: f32 where
  "DEG_TO_RAD = f32_of_rat (dconst (dconst (314159265358979323846 / 10 ^ 20) / 180))"

definition icm_gyro_fs_encode :: "int \<Rightarrow> f32 \<times> u8" where
  "icm_gyro_fs_encode dps =
     (let scale = (\<lambda>v. f32_div (f32_mul (f32_of_rat v) DEG_TO_RAD) (f32_of_rat 32768))
      in if dps = 125 then (scale 125, push_bit 5 0x4)
         else if dps = 250 then (scale 250, push_bit 5 0x3)
         else if dps = 500 then (scale 500, push_bit 5 0x2)
         else if dps = 1000 then (scale 1000, push_bit 5 0x1)
         else (scale 2000, push_bit 5 0x0))"

definition icm_accel_fs_encode :: "int \<Rightarrow> f32 \<times> u8" where
  "icm_accel_fs_encode g =
     (let scale = (\<lambda>v. f32_div (f32_mul (f32_of_rat v) GRAVITY) (f32_of_rat 32768))
      in if g = 2 then (scale 2, push_bit 5 0x3)
         else if g = 4 then (scale 4, push_bit 5 0x2)
         else if g = 16 then (scale 16, push_bit 5 0x0)
         else (scale 8, push_bit 5 0x1))"

section \<open>Probe, reset and init\<close>

definition icm_probe :: "'d imud_bus \<Rightarrow> 'd \<Rightarrow> int \<times> 'd" where
  "icm_probe bus d =
     (case bus_reg_read bus ICM_WHO_AM_I d of
        (None, d) \<Rightarrow> (-1, d)
      | (Some who, d) \<Rightarrow> (if who \<noteq> ICM_WHO_AM_I_VALUE then -1 else 0, d))"

fun icm_reset_poll :: "nat \<Rightarrow> 'd imud_bus \<Rightarrow> 'd \<Rightarrow> int \<times> 'd" where
  "icm_reset_poll 0 bus d = (-1, d)"
| "icm_reset_poll (Suc n) bus d =
     (case bus_reg_read bus ICM_DEVICE_CONFIG d of
        (None, d) \<Rightarrow> (-1, d)
      | (Some val, d) \<Rightarrow> if val AND 0x01 = 0 then (0, d) else icm_reset_poll n bus d)"

definition icm_reset :: "'d imud_bus \<Rightarrow> 'd \<Rightarrow> int \<times> 'd" where
  "icm_reset bus d =
     (case reg_writes bus [(ICM_BANK_SEL, 0), (ICM_DEVICE_CONFIG, 0x01)] d of
        (False, d) \<Rightarrow> (-1, d)
      | (True, d) \<Rightarrow> icm_reset_poll 100 bus d)"

definition icm_init_writes :: "imu_cfg \<Rightarrow> (u8 \<times> u8) list" where
  "icm_init_writes cfg =
     (let odr = icm_odr_encode (ig_odr_mhz cfg);
          gfs = snd (icm_gyro_fs_encode (ig_gyro_dps cfg));
          afs = snd (icm_accel_fs_encode (ig_accel_g cfg));
          int_cfg1 = (if icm_odr_actual (ig_odr_mhz cfg) \<ge> 4000000 then 0x60 else 0x00);
          wm = (if ig_fifo_wm cfg > 511 then 511 else ig_fifo_wm cfg)
      in [(ICM_INT_CONFIG, 0x03),
          (ICM_INT_CONFIG1, int_cfg1),
          (ICM_TMST_CONFIG, 0x11),
          (ICM_PWR_MGMT0, 0x0F),
          (ICM_GYRO_CONFIG0, gfs OR odr),
          (ICM_ACCEL_CONFIG0, afs OR odr),
          (ICM_FIFO_CONFIG2, word_of_int wm AND 0xFF),
          (ICM_FIFO_CONFIG3, word_of_int (drop_bit 8 wm) AND 0x0F),
          (ICM_INT_SOURCE0, 0x04),
          (ICM_FIFO_CONFIG1, 0x0B),
          (ICM_SIGNAL_PATH_RESET, 0x02),
          (ICM_FIFO_CONFIG, 0x40)])"

definition icm_init :: "'d imud_bus \<Rightarrow> imu_cfg \<Rightarrow> icm_drv \<Rightarrow> 'd \<Rightarrow> int \<times> icm_drv \<times> 'd" where
  "icm_init bus cfg s d =
     (case reg_writes bus (icm_init_writes cfg) d of
        (False, d) \<Rightarrow> (-1, s, d)
      | (True, d) \<Rightarrow>
          (let ticks = 937500000 div word_of_int (icm_odr_actual (ig_odr_mhz cfg))
           in (0, s\<lparr>ic_accel_scale := fst (icm_accel_fs_encode (ig_accel_g cfg)),
                   ic_gyro_scale := fst (icm_gyro_fs_encode (ig_gyro_dps cfg)),
                   ic_next_seq := 0, tk_ticks := ticks, ic_ts_last_raw := 0, ic_ts_hi := 0,
                   ic_ts_fifo_usable := ticks \<le> TS_FIFO_MAX_LAG,
                   tk_rejects := 0, tk_reject_next := 1, tk_fwd_rejects := 0, tk_fwd_next := 1,
                   tk_bwd_rejects := 0, tk_bwd_next := 1, tk_guard := chip_ts_guard_reset (tk_guard s)\<rparr>, d)))"

section \<open>The drain\<close>

record icm_drain =
  ir_s :: icm_drv
  ir_buf :: "imu_sample list"
  ir_produced :: nat
  ir_all_stamped :: bool

definition icm_axis :: "f32 \<Rightarrow> bytes \<Rightarrow> nat \<Rightarrow> bool \<Rightarrow> f32" where
  "icm_axis k pkt i flip =
     (let v = sint (reg_s16be (drop i pkt)) in f32_mul (f32_of_int (if flip then - v else v)) k)"

definition icm_skips :: "bytes \<Rightarrow> bool" where
  "icm_skips pkt \<longleftrightarrow> pkt ! 0 AND FIFO_HDR_MSG \<noteq> 0 \<or> pkt ! 0 AND FIFO_HDR_ACCEL = 0 \<or> pkt ! 0 AND FIFO_HDR_GYRO = 0"

definition icm_sample :: "icm_drv \<Rightarrow> bytes \<Rightarrow> imu_sample \<Rightarrow> imu_sample" where
  "icm_sample s pkt x =
     x\<lparr>is_accel := [icm_axis (ic_accel_scale s) pkt 1 False, icm_axis (ic_accel_scale s) pkt 3 True,
                    icm_axis (ic_accel_scale s) pkt 5 True],
       is_gyro := [icm_axis (ic_gyro_scale s) pkt 7 False, icm_axis (ic_gyro_scale s) pkt 9 True,
                   icm_axis (ic_gyro_scale s) pkt 11 True],
       is_temp_c := f32_add (f32_of_int (sint (pkt ! 13))) (f32_of_rat 25),
       is_seq := ic_next_seq s,
       is_chip_ts := (if pkt ! 0 AND FIFO_HDR_TS_MASK = FIFO_HDR_TS_ODR
                      then push_bit 8 (ucast (pkt ! 14)) OR ucast (pkt ! 15) else 0)\<rparr>"

definition icm_pkt :: "bytes \<Rightarrow> icm_drain \<Rightarrow> icm_drain" where
  "icm_pkt pkt r =
     (if icm_skips pkt then r
      else let p = ir_produced r
           in r\<lparr>ir_buf := (ir_buf r)[p := icm_sample (ir_s r) pkt (ir_buf r ! p)],
                ir_s := (ir_s r)\<lparr>ic_next_seq := ic_next_seq (ir_s r) + 1\<rparr>,
                ir_all_stamped := ir_all_stamped r \<and> pkt ! 0 AND FIFO_HDR_TS_MASK = FIFO_HDR_TS_ODR,
                ir_produced := p + 1\<rparr>)"

definition pkts_of :: "nat \<Rightarrow> bytes \<Rightarrow> bytes list" where
  "pkts_of n block = map (\<lambda>p. take 16 (drop (p * 16) block)) [0..<n]"

function icm_pkts :: "'d imud_bus \<Rightarrow> nat \<Rightarrow> nat \<Rightarrow> nat \<Rightarrow> nat \<Rightarrow> icm_drain \<Rightarrow> 'd \<Rightarrow> bool \<times> icm_drain \<times> 'd" where
  "icm_pkts bus n_pkts burst_pkts room i r d =
     (if i < n_pkts \<and> ir_produced r < room \<and> burst_pkts \<noteq> 0
      then let want = min (min (n_pkts - i) burst_pkts) (room - ir_produced r)
           in case bus_burst_read bus ICM_FIFO_DATA (want * 16) d of
                (None, d) \<Rightarrow> (False, r, d)
              | (Some block, d) \<Rightarrow>
                  icm_pkts bus n_pkts burst_pkts room (i + want) (fold icm_pkt (pkts_of want block) r) d
      else (True, r, d))"
  by pat_completeness auto
termination
  by (relation "measure (\<lambda>(bus, n_pkts, burst_pkts, room, i, r, d). n_pkts - i)") auto

declare icm_pkts.simps [simp del]

section \<open>Time stamps\<close>

text \<open>The walk over the 16-bit stamps from the newest to the oldest; \<open>newest\<close> says that none was widened yet.\<close>

fun icm_unwrap :: "bool \<Rightarrow> u32 \<Rightarrow> u32 list \<Rightarrow> u32 list option" where
  "icm_unwrap newest prev [] = Some []"
| "icm_unwrap newest prev (raw # raws) =
     (let cand = (prev AND NOT (TS_FIFO_WRAP_TICKS - 1)) OR (raw AND (TS_FIFO_WRAP_TICKS - 1));
          cand = (if sint (cand - prev) > 0 then cand - TS_FIFO_WRAP_TICKS else cand)
      in if \<not> newest \<and> cand = prev then None else map_option ((#) cand) (icm_unwrap False cand raws))"

definition set_stamps :: "u32 list \<Rightarrow> imu_sample list \<Rightarrow> imu_sample list" where
  "set_stamps ts buf = map (\<lambda>i. if i < length ts then (buf ! i)\<lparr>is_chip_ts := ts ! i\<rparr> else buf ! i) [0..<length buf]"

definition icm_batched :: "u32 \<Rightarrow> nat \<Rightarrow> imu_sample list \<Rightarrow> imu_sample list option" where
  "icm_batched now_ts produced buf =
     (case icm_unwrap True now_ts (map is_chip_ts (rev (take produced buf))) of
        None \<Rightarrow> None
      | Some ts \<Rightarrow> if now_ts - hd ts > TS_FIFO_MAX_LAG then None else Some (set_stamps (rev ts) buf))"

definition icm_stamp :: "bool \<Rightarrow> u32 \<Rightarrow> nat \<Rightarrow> imu_sample list \<Rightarrow> icm_drv \<Rightarrow> imu_sample list \<times> icm_drv" where
  "icm_stamp all_stamped now_ts produced buf s =
     (let (batched, s) =
        (if all_stamped \<and> ic_ts_fifo_usable s
         then (case icm_batched now_ts produced buf of Some b \<Rightarrow> (Some b, s) | None \<Rightarrow> (None, count_batched s))
         else (None, s));
          (buf, s) =
        (case batched of
           None \<Rightarrow> let (burst_ts, s) = burst_stamp ICM_MAX_JITTER_TICKS now_ts produced s
                   in (stamp_back (tk_ticks s) burst_ts produced buf, s)
         | Some b \<Rightarrow> (seam_shift ICM_MAX_JITTER_TICKS produced b s, s))
      in (buf, s\<lparr>tk_guard := chip_ts_guard_note (tk_guard s) (is_chip_ts (buf ! (produced - 1)))\<rparr>))"

text \<open>The 20-bit counter, carried on to 32 bits.\<close>

definition icm_counter :: "u32 \<Rightarrow> icm_drv \<Rightarrow> u32 \<times> icm_drv" where
  "icm_counter raw s =
     (let s = (if raw < ic_ts_last_raw s then s\<lparr>ic_ts_hi := ic_ts_hi s + push_bit 20 1\<rparr> else s);
          s = s\<lparr>ic_ts_last_raw := raw\<rparr>
      in (ic_ts_hi s + raw, s))"

definition tmst_raw :: "bytes \<Rightarrow> u32" where
  "tmst_raw ts = push_bit 16 (ucast (ts ! 2 AND 0x0F)) OR push_bit 8 (ucast (ts ! 1)) OR ucast (ts ! 0)"

definition icm_read ::
  "'d imud_bus \<Rightarrow> imu_sample list \<Rightarrow> nat \<Rightarrow> icm_drv \<Rightarrow> 'd \<Rightarrow> (int \<times> nat option \<times> imu_sample list) \<times> icm_drv \<times> 'd" where
  "icm_read bus buf room s d =
     (case bus_burst_read bus ICM_INT_STATUS 3 d of
        (None, d) \<Rightarrow> ((-1, None, buf), s, d)
      | (Some st, d) \<Rightarrow>
          (let overflow = (st ! 0 AND 0x02 \<noteq> 0);
               n_bytes = unat (push_bit 8 (ucast (st ! 1 AND 0x3F)) OR ucast (st ! 2) :: u16);
               n_pkts = n_bytes div 16
           in if n_pkts = 0 then ((if overflow then 1 else 0, Some 0, buf), s, d)
              else case icm_pkts bus n_pkts (icm_fifo_burst_pkts (bus_spi_hz bus)) room 0
                  \<lparr>ir_s = s, ir_buf = buf, ir_produced = 0, ir_all_stamped = True\<rparr> d of
                (False, r, d) \<Rightarrow> ((-1, None, ir_buf r), ir_s r, d)
              | (True, r, d) \<Rightarrow>
                  (let s = ir_s r;
                       s = (if overflow then s\<lparr>tk_guard := chip_ts_guard_reset (tk_guard s)\<rparr> else s);
                       (buf, s, d) =
                         (if ir_produced r > 0
                          then case bus_reg_write bus ICM_BANK_SEL 1 d of
                                 (False, d) \<Rightarrow> (ir_buf r, s, d)
                               | (True, d) \<Rightarrow>
                                   (case bus_burst_read bus ICM_TMSTVAL0 3 d of
                                      (ts, d) \<Rightarrow>
                                        let (buf, s) =
                                          (case ts of
                                             None \<Rightarrow> (ir_buf r, s)
                                           | Some ts \<Rightarrow>
                                               let (now_ts, s) = icm_counter (tmst_raw ts) s
                                               in icm_stamp (ir_all_stamped r) now_ts (ir_produced r) (ir_buf r) s)
                                        in (buf, s, snd (bus_reg_write bus ICM_BANK_SEL 0 d)))
                          else (ir_buf r, s, d))
                   in ((if overflow then 1 else 0, Some (ir_produced r), buf), s, d))))"

section \<open>Widening the stamps\<close>

lemma icm_mod_once:
  fixes x :: int
  assumes "- 65536 \<le> x" "x < 65536"
  shows "x mod 65536 = (if 0 \<le> x then x else x + 65536)"
proof (cases "0 \<le> x")
  case False
  have "x mod 65536 = (x + 65536) mod 65536" by simp
  also have "\<dots> = x + 65536" by (rule mod_pos_pos_trivial) (use assms False in auto)
  finally show ?thesis using False by simp
qed (use assms in \<open>simp add: mod_pos_pos_trivial\<close>)

text \<open>The candidate for a stamp is the time itself when that lies less than one repeat before the time behind it.\<close>

lemma icm_candidate:
  fixes prev t :: u32
  assumes "uint (prev - t) < 65536"
  defines "cand \<equiv> (prev AND NOT (TS_FIFO_WRAP_TICKS - 1)) OR (t AND (TS_FIFO_WRAP_TICKS - 1))"
  shows "(if sint (cand - prev) > 0 then cand - TS_FIFO_WRAP_TICKS else cand) = t"
proof -
  have m: "TS_FIFO_WRAP_TICKS - 1 = mask 16" by (simp add: TS_FIFO_WRAP_TICKS_def mask_eq_exp_minus_1)
  let ?lp = "take_bit 16 prev" and ?lt = "take_bit 16 t" and ?d = "uint (prev - t)"
  have lo: "x AND mask 16 = take_bit 16 x" for x :: u32 by (simp only: take_bit_eq_mask)
  have "prev AND NOT (mask 16) = prev - ?lp"
  proof -
    have "(prev AND NOT (mask 16)) + ?lp = (prev AND NOT (mask 16)) OR ?lp"
      by (rule disjunctive_add) (auto simp: bit_simps)
    also have "\<dots> = prev" by (rule bit_word_eqI) (auto simp: bit_simps)
    finally show ?thesis by (metis add_diff_cancel_right')
  qed
  moreover have "(prev AND NOT (mask 16)) + ?lt = (prev AND NOT (mask 16)) OR ?lt"
    by (rule disjunctive_add) (auto simp: bit_simps)
  ultimately have cand: "cand = prev - ?lp + ?lt" unfolding cand_def m lo by simp
  have up: "uint ?lp = uint prev mod 65536" "uint ?lt = uint t mod 65536"
    by (simp_all only: unsigned_take_bit_eq) (simp_all add: take_bit_eq_mod)
  have b: "0 \<le> uint ?lp" "uint ?lp < 65536" "0 \<le> ?d" unfolding up by simp_all
  have bt: "0 \<le> uint ?lt" "uint ?lt < 65536" unfolding up by simp_all
  have "uint t = (uint prev - ?d) mod 2 ^ 32"
  proof -
    have "t = prev - (prev - t)" by simp
    then have "uint t = uint (prev - (prev - t))" by metis
    then show ?thesis by (simp only: uint_word_ariths) simp
  qed
  then have "uint ?lt = (uint prev - ?d) mod 2 ^ 32 mod 65536" unfolding up by simp
  also have "\<dots> = (uint prev - ?d) mod 65536" by (rule mod_mod_cancel) simp
  also have "\<dots> = (uint ?lp - ?d) mod 65536" unfolding up by (simp add: mod_diff_left_eq)
  finally have lt: "uint ?lt = (if ?d \<le> uint ?lp then uint ?lp - ?d else uint ?lp - ?d + 65536)"
    using icm_mod_once [of "uint ?lp - ?d"] b assms(1) by (simp split: if_splits)
  have w: "?lt = ?lp + word_of_int (uint ?lt - uint ?lp)" by (simp add: of_int_diff)
  have fit: "- 2147483648 \<le> k \<Longrightarrow> k < 2147483648 \<Longrightarrow> sint (word_of_int k :: 32 word) = k" for k
    by (simp add: signed_of_int signed_take_bit_int_eq_self)
  have cd: "cand - prev = word_of_int (uint ?lt - uint ?lp)" unfolding cand by (simp add: of_int_diff)
  have sd: "sint (cand - prev) = uint ?lt - uint ?lp" unfolding cd by (rule fit) (use b bt in linarith)+
  have wd: "word_of_int ?d = prev - t" by simp
  show ?thesis
  proof (cases "?d \<le> uint ?lp")
    case True
    then have "uint ?lt - uint ?lp = - ?d" using lt by simp
    then have "cand - prev = - (prev - t)" unfolding cd by simp
    then show ?thesis using sd \<open>uint ?lt - uint ?lp = - ?d\<close> b(3) by simp
  next
    case False
    then have e: "uint ?lt - uint ?lp = 65536 - ?d" using lt by simp
    then have "cand - prev = 65536 - (prev - t)" unfolding cd e by (simp only: of_int_diff) simp
    then have "cand - TS_FIFO_WRAP_TICKS = t" by (simp add: TS_FIFO_WRAP_TICKS_def algebra_simps)
    moreover have "sint (cand - prev) > 0" using sd e assms(1) by simp
    ultimately show ?thesis by simp
  qed
qed

text \<open>Times from the newest back, less than a repeat apart.\<close>

fun recent :: "bool \<Rightarrow> u32 \<Rightarrow> u32 list \<Rightarrow> bool" where
  "recent newest prev [] = True"
| "recent newest prev (t # ts) = (uint (prev - t) < 65536 \<and> (newest \<or> t \<noteq> prev) \<and> recent False t ts)"

lemma icm_unwrap_exact:
  "recent newest now ts \<Longrightarrow> icm_unwrap newest now (map (\<lambda>t. take_bit 16 t) ts) = Some ts"
proof (induction newest now ts rule: recent.induct)
  case (2 newest prev t ts)
  have m: "TS_FIFO_WRAP_TICKS - 1 = mask 16" by (simp add: TS_FIFO_WRAP_TICKS_def mask_eq_exp_minus_1)
  have tt: "take_bit 16 t AND (TS_FIFO_WRAP_TICKS - 1) = t AND (TS_FIFO_WRAP_TICKS - 1)"
    unfolding m take_bit_eq_mask by (simp add: and.assoc)
  define c where "c = (prev AND NOT (TS_FIFO_WRAP_TICKS - 1)) OR (t AND (TS_FIFO_WRAP_TICKS - 1))"
  have "(if sint (c - prev) > 0 then c - TS_FIFO_WRAP_TICKS else c) = t"
    unfolding c_def by (rule icm_candidate) (use 2 in simp)
  moreover have "icm_unwrap newest prev (map (\<lambda>t. take_bit 16 t) (t # ts)) =
      (let cand = (if sint (c - prev) > 0 then c - TS_FIFO_WRAP_TICKS else c)
       in if \<not> newest \<and> cand = prev then None else map_option ((#) cand) (icm_unwrap False cand (map (\<lambda>t. take_bit 16 t) ts)))"
    unfolding list.map icm_unwrap.simps tt c_def [symmetric] Let_def ..
  ultimately show ?case using 2 by (auto simp: Let_def)
qed simp

section \<open>The drain hands on what it takes\<close>

text \<open>The fold over the packets of a block: every valid one becomes the next sample of the caller's buffer.\<close>

definition valid_pkts :: "bytes list \<Rightarrow> bytes list" where
  "valid_pkts ps = filter (\<lambda>p. \<not> icm_skips p) ps"

definition has_stamp :: "bytes \<Rightarrow> bool" where
  "has_stamp pkt \<longleftrightarrow> pkt ! 0 AND FIFO_HDR_TS_MASK = FIFO_HDR_TS_ODR"

definition seq_at :: "icm_drv \<Rightarrow> nat \<Rightarrow> icm_drv" where
  "seq_at s k = s\<lparr>ic_next_seq := ic_next_seq s + of_nat k\<rparr>"

lemma seq_at_simps [simp]:
  "seq_at s 0 = s" "seq_at (seq_at s j) k = seq_at s (j + k)" "ic_next_seq (seq_at s k) = ic_next_seq s + of_nat k"
  by (simp_all add: seq_at_def add.assoc)

lemma fold_icm_pkt:
  assumes "ir_produced r + length (valid_pkts ps) \<le> length (ir_buf r)"
  shows "ir_produced (fold icm_pkt ps r) = ir_produced r + length (valid_pkts ps) \<and>
    ir_s (fold icm_pkt ps r) = seq_at (ir_s r) (length (valid_pkts ps)) \<and>
    ir_all_stamped (fold icm_pkt ps r) = (ir_all_stamped r \<and> list_all has_stamp (valid_pkts ps)) \<and>
    length (ir_buf (fold icm_pkt ps r)) = length (ir_buf r) \<and>
    (\<forall>j < length (ir_buf r). ir_buf (fold icm_pkt ps r) ! j =
       (if ir_produced r \<le> j \<and> j < ir_produced r + length (valid_pkts ps)
        then icm_sample (seq_at (ir_s r) (j - ir_produced r)) (valid_pkts ps ! (j - ir_produced r)) (ir_buf r ! j)
        else ir_buf r ! j))"
  using assms
proof (induction ps arbitrary: r)
  case (Cons p ps)
  show ?case
  proof (cases "icm_skips p")
    case True
    then show ?thesis using Cons by (simp add: valid_pkts_def icm_pkt_def)
  next
    case False
    let ?q = "icm_pkt p r"
    have v: "valid_pkts (p # ps) = p # valid_pkts ps" using False by (simp add: valid_pkts_def)
    have q: "ir_produced ?q = ir_produced r + 1" "ir_s ?q = seq_at (ir_s r) 1"
      "ir_all_stamped ?q = (ir_all_stamped r \<and> has_stamp p)"
      "ir_buf ?q = (ir_buf r)[ir_produced r := icm_sample (ir_s r) p (ir_buf r ! ir_produced r)]"
      using False by (simp_all add: icm_pkt_def Let_def seq_at_def has_stamp_def)
    have IH: "ir_produced (fold icm_pkt ps ?q) = ir_produced ?q + length (valid_pkts ps) \<and>
      ir_s (fold icm_pkt ps ?q) = seq_at (ir_s ?q) (length (valid_pkts ps)) \<and>
      ir_all_stamped (fold icm_pkt ps ?q) = (ir_all_stamped ?q \<and> list_all has_stamp (valid_pkts ps)) \<and>
      length (ir_buf (fold icm_pkt ps ?q)) = length (ir_buf ?q) \<and>
      (\<forall>j < length (ir_buf ?q). ir_buf (fold icm_pkt ps ?q) ! j =
       (if ir_produced ?q \<le> j \<and> j < ir_produced ?q + length (valid_pkts ps)
        then icm_sample (seq_at (ir_s ?q) (j - ir_produced ?q)) (valid_pkts ps ! (j - ir_produced ?q)) (ir_buf ?q ! j)
        else ir_buf ?q ! j))"
      by (rule Cons.IH) (use Cons.prems v q in simp)
    have el: "ir_buf (fold icm_pkt ps ?q) ! j =
       (if ir_produced r \<le> j \<and> j < ir_produced r + length (valid_pkts (p # ps))
        then icm_sample (seq_at (ir_s r) (j - ir_produced r)) (valid_pkts (p # ps) ! (j - ir_produced r)) (ir_buf r ! j)
        else ir_buf r ! j)" if j: "j < length (ir_buf r)" for j
    proof -
      consider "j < ir_produced r" | "j = ir_produced r" | "ir_produced r < j" by linarith
      then show ?thesis
      proof cases
        case 3
        then obtain k where k: "j - ir_produced r = Suc k" "j - (ir_produced r + 1) = k" by (cases "j - ir_produced r") auto
        then show ?thesis using IH j 3 by (simp add: q v)
      qed (use IH j in \<open>simp_all add: q v\<close>)
    qed
    show ?thesis using IH el by (simp add: v q)
  qed
qed (auto simp: valid_pkts_def)

text \<open>A part whose FIFO gives its packets out in order, the status that counts them, and a counter of 20 bits.\<close>

record icm_part =
  ip_pkts :: "bytes list"
  ip_full :: bool
  ip_now :: u32

definition icm_answers :: "u8 \<Rightarrow> nat \<Rightarrow> icm_part \<Rightarrow> bytes option \<times> icm_part" where
  "icm_answers reg n d =
     (let len = 16 * length (ip_pkts d)
      in if reg = ICM_INT_STATUS
         then (Some [if ip_full d then 0x02 else 0, of_nat (len div 256), of_nat (len mod 256)], d)
         else if reg = ICM_FIFO_DATA then (Some (concat (take (n div 16) (ip_pkts d))), d\<lparr>ip_pkts := drop (n div 16) (ip_pkts d)\<rparr>)
         else if reg = ICM_TMSTVAL0
         then (Some [ucast (ip_now d), ucast (drop_bit 8 (ip_now d)), ucast (drop_bit 16 (ip_now d))], d)
         else (None, d))"

definition icm_ok :: "icm_part \<Rightarrow> bool" where
  "icm_ok d \<longleftrightarrow> (\<forall>p \<in> set (ip_pkts d). length p = 16) \<and> length (ip_pkts d) < 1024 \<and> ip_now d < 0x100000"

definition icm_bus :: "icm_part imud_bus \<Rightarrow> bool" where
  "icm_bus bus \<longleftrightarrow>
     (\<forall>d. bus_burst_read bus ICM_INT_STATUS 3 d = icm_answers ICM_INT_STATUS 3 d \<and>
        bus_burst_read bus ICM_TMSTVAL0 3 d = icm_answers ICM_TMSTVAL0 3 d \<and>
        (\<forall>v. bus_reg_write bus ICM_BANK_SEL v d = (True, d)) \<and>
        (\<forall>k. 0 < k \<and> k \<le> length (ip_pkts d) \<and> (\<forall>p \<in> set (ip_pkts d). length p = 16) \<longrightarrow>
           bus_burst_read bus ICM_FIFO_DATA (k * 16) d = icm_answers ICM_FIFO_DATA (k * 16) d))"

lemma pkts_of_concat:
  "\<forall>p \<in> set ps. length p = 16 \<Longrightarrow> pkts_of (length ps) (concat ps) = ps"
proof (induction ps)
  case (Cons p ps)
  have "map (\<lambda>k. take 16 (drop (k * 16) (p @ concat ps))) [0..<Suc (length ps)] =
      take 16 (p @ concat ps) # map (\<lambda>k. take 16 (drop (Suc k * 16) (p @ concat ps))) [0..<length ps]"
    by (simp only: map_upt_Suc) simp
  then show ?case using Cons by (simp add: pkts_of_def)
qed (simp add: pkts_of_def)

lemma valid_pkts_append [simp]: "valid_pkts (as @ bs) = valid_pkts as @ valid_pkts bs"
  by (simp add: valid_pkts_def)

lemma valid_pkts_length: "length (valid_pkts ps) \<le> length ps"
  by (simp add: valid_pkts_def)

lemma icm_pkts_fifo:
  assumes "icm_bus bus" "\<forall>p \<in> set (ip_pkts d). length p = 16" "i + length (ip_pkts d) = n_pkts" "0 < bp"
    and "ir_produced r \<le> room" "room \<le> length (ir_buf r)"
  shows "\<exists>m \<le> length (ip_pkts d).
    icm_pkts bus n_pkts bp room i r d = (True, fold icm_pkt (take m (ip_pkts d)) r, d\<lparr>ip_pkts := drop m (ip_pkts d)\<rparr>) \<and>
    ir_produced r + length (valid_pkts (take m (ip_pkts d))) \<le> room \<and>
    (m = length (ip_pkts d) \<or> ir_produced r + length (valid_pkts (take m (ip_pkts d))) = room)"
  using assms(2-6)
proof (induction "length (ip_pkts d)" arbitrary: i r d rule: less_induct)
  case less
  let ?W = "ip_pkts d"
  show ?case
  proof (cases "?W = [] \<or> ir_produced r = room")
    case True
    then have "icm_pkts bus n_pkts bp room i r d = (True, r, d)" using less.prems(2) by (subst icm_pkts.simps) auto
    then show ?thesis using True less.prems by (intro exI [of _ 0]) (auto simp: valid_pkts_def)
  next
    case False
    define want where "want = min (min (n_pkts - i) bp) (room - ir_produced r)"
    have want: "0 < want" "want \<le> length ?W" "i < n_pkts" "ir_produced r < room" "want \<le> room - ir_produced r"
      using False less.prems(2,3,4) by (auto simp: want_def)
    let ?r = "fold icm_pkt (take want ?W) r" and ?d = "d\<lparr>ip_pkts := drop want ?W\<rparr>"
    have "bus_burst_read bus ICM_FIFO_DATA (want * 16) d = icm_answers ICM_FIFO_DATA (want * 16) d"
      using assms(1) want less.prems(1) unfolding icm_bus_def by blast
    then have rd: "bus_burst_read bus ICM_FIFO_DATA (want * 16) d = (Some (concat (take want ?W)), ?d)"
      by (simp add: icm_answers_def icm_regs Let_def)
    have pk: "pkts_of want (concat (take want ?W)) = take want ?W"
    proof -
      have "length (take want ?W) = want" "\<forall>p \<in> set (take want ?W). length p = 16"
        using want(2) less.prems(1) by (auto dest: in_set_takeD)
      then show ?thesis using pkts_of_concat [of "take want ?W"] by metis
    qed
    have step: "icm_pkts bus n_pkts bp room i r d = icm_pkts bus n_pkts bp room (i + want) ?r ?d"
      using want less.prems(3) by (subst icm_pkts.simps) (simp add: want_def [symmetric] rd pk Let_def)
    have le: "length (valid_pkts (take want ?W)) \<le> want"
      using valid_pkts_length [of "take want ?W"] want(2) by simp
    have f: "ir_produced ?r = ir_produced r + length (valid_pkts (take want ?W)) \<and> length (ir_buf ?r) = length (ir_buf r)"
      using fold_icm_pkt [of r "take want ?W"] le want(4,5) less.prems(5) by simp
    have "\<forall>p \<in> set (drop want ?W). length p = 16" using less.prems(1) by (auto dest: in_set_dropD)
    note sm = this
    have "length (ip_pkts ?d) < length ?W" "i + want + length (ip_pkts ?d) = n_pkts" "ir_produced ?r \<le> room"
      "room \<le> length (ir_buf ?r)"
      using want(1,2,5) less.prems(2,5) le f by simp_all
    from less.hyps [OF this(1) _ this(2) less.prems(3) this(3,4)] sm
    have "\<exists>m \<le> length (ip_pkts ?d).
      icm_pkts bus n_pkts bp room (i + want) ?r ?d = (True, fold icm_pkt (take m (ip_pkts ?d)) ?r, ?d\<lparr>ip_pkts := drop m (ip_pkts ?d)\<rparr>) \<and>
      ir_produced ?r + length (valid_pkts (take m (ip_pkts ?d))) \<le> room \<and>
      (m = length (ip_pkts ?d) \<or> ir_produced ?r + length (valid_pkts (take m (ip_pkts ?d))) = room)" by simp
    then obtain m where m: "m \<le> length (drop want ?W)"
      "icm_pkts bus n_pkts bp room (i + want) ?r ?d = (True, fold icm_pkt (take m (drop want ?W)) ?r, ?d\<lparr>ip_pkts := drop m (drop want ?W)\<rparr>)"
      "ir_produced ?r + length (valid_pkts (take m (drop want ?W))) \<le> room"
      "m = length (drop want ?W) \<or> ir_produced ?r + length (valid_pkts (take m (drop want ?W))) = room"
      by auto
    have t: "take (want + m) ?W = take want ?W @ take m (drop want ?W)" by (rule take_add)
    show ?thesis
    proof (intro exI [of _ "want + m"] conjI)
      show "want + m \<le> length ?W" using m(1) want(2) by simp
      show "icm_pkts bus n_pkts bp room i r d = (True, fold icm_pkt (take (want + m) ?W) r, d\<lparr>ip_pkts := drop (want + m) ?W\<rparr>)"
        unfolding step m(2) t by (simp add: add.commute)
      show "ir_produced r + length (valid_pkts (take (want + m) ?W)) \<le> room" using m(3) f by (simp add: t)
      show "want + m = length ?W \<or> ir_produced r + length (valid_pkts (take (want + m) ?W)) = room"
        using m(4) f want(2) by (auto simp: t)
    qed
  qed
qed

section \<open>A whole read\<close>

lemma join_bytes: "unat (push_bit 8 (ucast (h :: u8)) OR ucast (l :: u8) :: u16) = 256 * unat h + unat l"
proof -
  have "push_bit 8 (ucast h) + ucast l = (push_bit 8 (ucast h) OR ucast l :: u16)"
    by (rule disjunctive_add) (auto simp: bit_simps dest: bit_imp_le_length)
  moreover have "unat (push_bit 8 (ucast h) + ucast l :: u16) = 256 * unat h + unat l"
    using unsigned_less [of h, where 'a = nat] unsigned_less [of l, where 'a = nat]
    by (simp add: unat_word_ariths push_bit_eq_mult unsigned_ucast_eq take_bit_eq_mod)
  ultimately show ?thesis by simp
qed

lemma icm_count:
  assumes "k < 1024"
  shows "unat (push_bit 8 (ucast (of_nat (16 * k div 256) AND 0x3F :: u8)) OR ucast (of_nat (16 * k mod 256) :: u8) :: u16) = 16 * k"
proof -
  have h: "16 * k div 256 < 64" using assms by auto
  have "(0x3F :: u8) = mask 6" by (simp add: mask_eq_exp_minus_1)
  then have "of_nat (16 * k div 256) AND (0x3F :: u8) = take_bit 6 (of_nat (16 * k div 256))" by (simp only: take_bit_eq_mask)
  also have "\<dots> = of_nat (16 * k div 256)"
    unfolding word_eq_iff_unsigned [where 'a = nat] using h
    by (simp only: unsigned_take_bit_eq unat_of_nat) (simp add: take_bit_eq_mod)
  finally have a: "of_nat (16 * k div 256) AND (0x3F :: u8) = of_nat (16 * k div 256)" .
  have "unat (of_nat (16 * k div 256) :: u8) = 16 * k div 256" "unat (of_nat (16 * k mod 256) :: u8) = 16 * k mod 256"
    using h by (simp_all only: unat_of_nat) (simp_all add: take_bit_eq_mod)
  then show ?thesis unfolding a join_bytes by (simp only: mult_div_mod_eq)
qed

lemma tmst_bytes:
  assumes "now < (0x100000 :: u32)"
  shows "tmst_raw [ucast now, ucast (drop_bit 8 now), ucast (drop_bit 16 now)] = now"
proof -
  have "take_bit 20 now = now"
    unfolding word_eq_iff_unsigned [where 'a = nat] using assms
    by (simp add: unsigned_take_bit_eq word_less_nat_alt take_bit_nat_eq_self)
  then have hi: "\<not> bit now n" if "20 \<le> n" for n using that by (metis bit_take_bit_iff not_less)
  have f: "(0x0F :: u8) = mask 4" by (simp add: mask_eq_exp_minus_1)
  show ?thesis
  proof (rule bit_word_eqI)
    fix n :: nat
    assume "n < LENGTH(32)"
    consider "n < 8" | "8 \<le> n" "n < 16" | "16 \<le> n" "n < 20" | "20 \<le> n" by linarith
    then show "bit (tmst_raw [ucast now, ucast (drop_bit 8 now), ucast (drop_bit 16 now)]) n = bit now n"
      using \<open>n < LENGTH(32)\<close> hi [of n] unfolding tmst_raw_def f
      by cases (auto simp: bit_simps dest: bit_imp_le_length)
  qed
qed

definition icm_start :: "icm_drv \<Rightarrow> imu_sample list \<Rightarrow> icm_drain" where
  "icm_start s buf = \<lparr>ir_s = s, ir_buf = buf, ir_produced = 0, ir_all_stamped = True\<rparr>"

definition icm_dated :: "bool \<Rightarrow> u32 \<Rightarrow> icm_drain \<Rightarrow> imu_sample list \<times> icm_drv" where
  "icm_dated full now r =
     (let s = (if full then (ir_s r)\<lparr>tk_guard := chip_ts_guard_reset (tk_guard (ir_s r))\<rparr> else ir_s r)
      in if ir_produced r = 0 then (ir_buf r, s)
         else let (now_ts, s) = icm_counter now s in icm_stamp (ir_all_stamped r) now_ts (ir_produced r) (ir_buf r) s)"

lemma burst_pkts_pos: "0 < icm_fifo_burst_pkts hz"
  by (auto simp: icm_fifo_burst_pkts_def Let_def ICM_FIFO_BURST_PKTS_def)

lemma icm_read_fifo:
  assumes "icm_bus bus" "icm_ok d" "room \<le> length buf"
  shows "\<exists>m \<le> length (ip_pkts d). let r = fold icm_pkt (take m (ip_pkts d)) (icm_start s buf) in
    ir_produced r = length (valid_pkts (take m (ip_pkts d))) \<and> ir_produced r \<le> room \<and>
    (m = length (ip_pkts d) \<or> ir_produced r = room) \<and>
    (ip_pkts d \<noteq> [] \<longrightarrow> (case icm_dated (ip_full d) (ip_now d) r of (buf', s') \<Rightarrow>
      icm_read bus buf room s d = ((if ip_full d then 1 else 0, Some (ir_produced r), buf'), s', d\<lparr>ip_pkts := drop m (ip_pkts d)\<rparr>))) \<and>
    (ip_pkts d = [] \<longrightarrow> icm_read bus buf room s d = ((if ip_full d then 1 else 0, Some 0, buf), s, d))"
proof -
  let ?W = "ip_pkts d" and ?r0 = "icm_start s buf"
  have W: "\<forall>p \<in> set ?W. length p = 16" "length ?W < 1024" "ip_now d < 0x100000" using assms(2) by (simp_all add: icm_ok_def)
  have r0: "ir_produced ?r0 = 0" "ir_buf ?r0 = buf" by (simp_all add: icm_start_def)
  obtain m where m: "m \<le> length ?W"
    "icm_pkts bus (length ?W) (icm_fifo_burst_pkts (bus_spi_hz bus)) room 0 ?r0 d =
       (True, fold icm_pkt (take m ?W) ?r0, d\<lparr>ip_pkts := drop m ?W\<rparr>)"
    "length (valid_pkts (take m ?W)) \<le> room" "m = length ?W \<or> length (valid_pkts (take m ?W)) = room"
    using icm_pkts_fifo [OF assms(1) W(1) _ burst_pkts_pos, of 0 _ ?r0 room "bus_spi_hz bus"] assms(3) r0 by auto
  define r where "r = fold icm_pkt (take m ?W) ?r0"
  have p: "ir_produced r = length (valid_pkts (take m ?W))"
    using fold_icm_pkt [of ?r0 "take m ?W"] r0 m(3) assms(3) unfolding r_def by simp
  have b: "bus_burst_read bus ICM_INT_STATUS 3 d' = icm_answers ICM_INT_STATUS 3 d'"
    "bus_burst_read bus ICM_TMSTVAL0 3 d' = icm_answers ICM_TMSTVAL0 3 d'" "bus_reg_write bus ICM_BANK_SEL v d' = (True, d')" for d' v
    using assms(1) by (simp_all add: icm_bus_def)
  have st: "bus_burst_read bus ICM_INT_STATUS 3 d =
      (Some [if ip_full d then 0x02 else 0, of_nat (16 * length ?W div 256), of_nat (16 * length ?W mod 256)], d)"
    by (subst b) (simp add: icm_answers_def icm_regs Let_def)
  have ts: "bus_burst_read bus ICM_TMSTVAL0 3 d' =
      (Some [ucast (ip_now d'), ucast (drop_bit 8 (ip_now d')), ucast (drop_bit 16 (ip_now d'))], d')" for d'
    by (subst b) (simp add: icm_answers_def icm_regs Let_def)
  have full: "((if ip_full d then 0x02 else 0) AND (0x02 :: u8) \<noteq> 0) = ip_full d" by simp
  note count = icm_count [OF W(2)]
  have none: "icm_read bus buf room s d = ((if ip_full d then 1 else 0, Some 0, buf), s, d)" if "?W = []"
    unfolding icm_read_def st prod.case option.case Let_def nth_Cons_0 nth_Cons_Suc One_nat_def numeral_2_eq_2 count
    using that full by simp
  have some: "icm_read bus buf room s d =
      ((if ip_full d then 1 else 0, Some (ir_produced r), fst (icm_dated (ip_full d) (ip_now d) r)),
       snd (icm_dated (ip_full d) (ip_now d) r), d\<lparr>ip_pkts := drop m ?W\<rparr>)" if "?W \<noteq> []"
    unfolding icm_read_def st prod.case option.case Let_def nth_Cons_0 nth_Cons_Suc One_nat_def numeral_2_eq_2 count full
    using that m(2) unfolding icm_start_def [symmetric] r_def [symmetric] icm_dated_def Let_def
    by (simp add: ts b tmst_bytes [OF W(3)] split: prod.split)
  show ?thesis
    by (intro exI [of _ m] conjI m(1)) (use m(3,4) none some p in \<open>simp add: Let_def r_def [symmetric] split: prod.split\<close>)
qed

lemma icm_unwrap_length: "icm_unwrap newest prev raws = Some ts \<Longrightarrow> length ts = length raws"
  by (induction newest prev raws arbitrary: ts rule: icm_unwrap.induct) (auto simp: Let_def split: if_splits)

lemma icm_batched_restamps:
  "icm_batched now n buf = Some b \<Longrightarrow> n \<le> length buf \<Longrightarrow> restamped n buf b"
  by (auto simp: icm_batched_def set_stamps_def restamped_def dest!: icm_unwrap_length split: option.splits if_splits)

lemma icm_stamp_restamps:
  assumes "n \<le> length buf"
  shows "restamped n buf (fst (icm_stamp st now n buf s))"
proof -
  have "restamped n b (stamp_back k t n b)" "restamped n b (seam_shift ICM_MAX_JITTER_TICKS n b s')" for k t b and s' :: icm_drv
    by (rule restamped_stamps)+
  then show ?thesis
    using icm_batched_restamps [OF _ assms, of now] restamped_trans
    by (auto simp: icm_stamp_def Let_def split: prod.split option.split)
qed

lemma icm_drv_more:
  "ts_state.more (s' :: icm_drv) = ts_state.more s \<Longrightarrow> ic_next_seq s' = ic_next_seq s"
  by (cases s, cases s') simp

lemma icm_dated_keeps:
  "ic_next_seq (snd (icm_dated full now r)) = ic_next_seq (ir_s r)"
proof -
  have b: "burst_stamp j t n s = (x, s') \<Longrightarrow> ic_next_seq s' = ic_next_seq s" for j t n x and s s' :: icm_drv
    using icm_drv_more [of "snd (burst_stamp j t n s)" s] burst_stamp_more [of j t n s] by simp
  have c: "ic_next_seq (count_batched s) = ic_next_seq s" for s :: icm_drv by (rule icm_drv_more) simp
  have "ic_next_seq (snd (icm_stamp st t n buf s)) = ic_next_seq s"
    for st t n buf and s :: icm_drv
    by (auto simp: icm_stamp_def Let_def c dest: b split: prod.split option.split)
  then show ?thesis by (simp add: icm_dated_def icm_counter_def Let_def)
qed

text \<open>C28: a read hands on all it takes. Whatever packets the FIFO holds and however little room the caller gives, the
  read takes packets from the front and stores exactly the valid ones among them, in order, each with the values of its
  own bytes and the next sequence number; it stops short of the end of the FIFO only with the caller's buffer full,
  and then what it did not take is still there.\<close>

theorem icm_read_lossless:
  assumes "icm_bus bus" "icm_ok d" "room \<le> length buf"
  shows "case icm_read bus buf room s d of ((rc, n, buf'), s', d') \<Rightarrow>
    \<exists>taken. ip_pkts d = taken @ ip_pkts d' \<and> rc = (if ip_full d then 1 else 0) \<and> n = Some (length (valid_pkts taken)) \<and>
      length (valid_pkts taken) \<le> room \<and> (ip_pkts d' = [] \<or> length (valid_pkts taken) = room) \<and>
      ic_next_seq s' = ic_next_seq s + of_nat (length (valid_pkts taken)) \<and> length buf' = length buf \<and>
      (\<forall>k < length (valid_pkts taken). \<exists>t. buf' ! k = (icm_sample (seq_at s k) (valid_pkts taken ! k) (buf ! k))\<lparr>is_chip_ts := t\<rparr>) \<and>
      (\<forall>j. length (valid_pkts taken) \<le> j \<and> j < length buf \<longrightarrow> buf' ! j = buf ! j)"
proof (cases "ip_pkts d = []")
  case True
  then have "icm_read bus buf room s d = ((if ip_full d then 1 else 0, Some 0, buf), s, d)"
    using icm_read_fifo [OF assms, of s] by (auto simp: Let_def)
  then show ?thesis using True by (simp add: valid_pkts_def)
next
  case False
  obtain m where m: "m \<le> length (ip_pkts d)"
    "let r = fold icm_pkt (take m (ip_pkts d)) (icm_start s buf) in
    ir_produced r = length (valid_pkts (take m (ip_pkts d))) \<and> ir_produced r \<le> room \<and>
    (m = length (ip_pkts d) \<or> ir_produced r = room) \<and>
    (ip_pkts d \<noteq> [] \<longrightarrow> (case icm_dated (ip_full d) (ip_now d) r of (buf', s') \<Rightarrow>
      icm_read bus buf room s d = ((if ip_full d then 1 else 0, Some (ir_produced r), buf'), s', d\<lparr>ip_pkts := drop m (ip_pkts d)\<rparr>))) \<and>
    (ip_pkts d = [] \<longrightarrow> icm_read bus buf room s d = ((if ip_full d then 1 else 0, Some 0, buf), s, d))"
    using icm_read_fifo [OF assms, of s] by blast
  define taken where "taken = take m (ip_pkts d)"
  define r where "r = fold icm_pkt taken (icm_start s buf)"
  obtain b t where bt: "icm_dated (ip_full d) (ip_now d) r = (b, t)" by fastforce
  have p: "ir_produced r = length (valid_pkts taken)" "ir_produced r \<le> room" "m = length (ip_pkts d) \<or> ir_produced r = room"
    "icm_read bus buf room s d = ((if ip_full d then 1 else 0, Some (ir_produced r), b), t, d\<lparr>ip_pkts := drop m (ip_pkts d)\<rparr>)"
    using m(2) bt False unfolding taken_def r_def by (auto simp: Let_def)
  have f: "ir_s r = seq_at s (length (valid_pkts taken))" "length (ir_buf r) = length buf"
    "\<And>j. j < length buf \<Longrightarrow> ir_buf r ! j = (if j < length (valid_pkts taken)
      then icm_sample (seq_at s j) (valid_pkts taken ! j) (buf ! j) else buf ! j)"
    using fold_icm_pkt [of "icm_start s buf" taken] p assms(3) unfolding r_def by (simp_all add: icm_start_def)
  have "restamped (ir_produced r) (ir_buf r) b"
    using bt icm_stamp_restamps [of "ir_produced r" "ir_buf r"] f(2) p(2) assms(3) restamped_self
    by (auto simp: icm_dated_def Let_def split: if_splits prod.splits) (metis fst_conv le_trans)+
  note b = restampedD [OF this]
  have "ic_next_seq t = ic_next_seq s + of_nat (length (valid_pkts taken))"
    using icm_dated_keeps [of "ip_full d" "ip_now d" r] bt f(1) by simp
  moreover have "\<exists>t. b ! k = (icm_sample (seq_at s k) (valid_pkts taken ! k) (buf ! k))\<lparr>is_chip_ts := t\<rparr>"
    if "k < length (valid_pkts taken)" for k
    using b(1) [of k] f(2) f(3) [of k] p(1,2) that assms(3) by auto
  moreover have "b ! j = buf ! j" if "length (valid_pkts taken) \<le> j" "j < length buf" for j
    using b(2) [of j] f(2) f(3) [of j] p(1) that by simp
  moreover have "length b = length buf" using \<open>restamped (ir_produced r) (ir_buf r) b\<close> f(2) by (simp add: restamped_def)
  moreover have "ip_pkts d = taken @ drop m (ip_pkts d)" by (simp add: taken_def)
  ultimately show ?thesis using p by (auto intro!: exI [of _ taken])
qed

section \<open>The true times\<close>

definition carries :: "bytes \<Rightarrow> u32 \<Rightarrow> bool" where
  "carries pkt t \<longleftrightarrow> has_stamp pkt \<and> push_bit 8 (ucast (pkt ! 14)) OR ucast (pkt ! 15) = take_bit 16 t"

lemma icm_batched_exact:
  assumes "recent True now (rev ts)" "now - last ts \<le> TS_FIFO_MAX_LAG" "ts \<noteq> []" "length ts \<le> length buf"
    and "map is_chip_ts (take (length ts) buf) = map (\<lambda>t. take_bit 16 t) ts"
  shows "icm_batched now (length ts) buf = Some (set_stamps ts buf)"
proof -
  have "map is_chip_ts (rev (take (length ts) buf)) = map (\<lambda>t. take_bit 16 t) (rev ts)"
    using assms(5) by (simp add: rev_map [symmetric])
  then have "icm_unwrap True now (map is_chip_ts (rev (take (length ts) buf))) = Some (rev ts)"
    using icm_unwrap_exact [OF assms(1)] by simp
  moreover have "hd (rev ts) = last ts" using assms(3) by (simp add: hd_rev)
  ultimately show ?thesis using assms(2) by (simp add: icm_batched_def not_less)
qed

text \<open>C29: the part's own times are recovered. Every packet carries only the low sixteen bits of the moment of its sample.
  When the part stamps every packet, adjacent samples lie less than a repeat of those bits apart, the newest at most
  49152 ticks before the counter that was read after the drain, and the first comes after the newest sample of the
  drain before, the read delivers each sample with its full 32-bit time, and the guard then holds the newest.\<close>

theorem icm_read_true_times:
  assumes "icm_bus bus" "icm_ok d" "room \<le> length buf" "length ts < room" "ts \<noteq> []"
    and "list_all2 carries (valid_pkts (ip_pkts d)) ts" "ic_ts_fifo_usable s" "\<not> ip_full d"
    and "recent True (fst (icm_counter (ip_now d) s)) (rev ts)" "fst (icm_counter (ip_now d) s) - last ts \<le> TS_FIFO_MAX_LAG"
    and "cg_have (tk_guard s) \<longrightarrow> gap s (hd ts) > 0"
  shows "case icm_read bus buf room s d of ((rc, n, buf'), s', d') \<Rightarrow>
    rc = 0 \<and> n = Some (length ts) \<and> ip_pkts d' = [] \<and> map is_chip_ts (take (length ts) buf') = ts \<and>
    cg_have (tk_guard s') \<and> cg_last (tk_guard s') = last ts"
proof -
  let ?xs = "valid_pkts (ip_pkts d)"
  have xs: "length ?xs = length ts" using assms(6) by (rule list_all2_lengthD)
  have ne: "ip_pkts d \<noteq> []" using xs assms(5) by (auto simp: valid_pkts_def)
  obtain m where m: "m \<le> length (ip_pkts d)"
    "let r = fold icm_pkt (take m (ip_pkts d)) (icm_start s buf) in
    ir_produced r = length (valid_pkts (take m (ip_pkts d))) \<and> ir_produced r \<le> room \<and>
    (m = length (ip_pkts d) \<or> ir_produced r = room) \<and>
    (ip_pkts d \<noteq> [] \<longrightarrow> (case icm_dated (ip_full d) (ip_now d) r of (buf', s') \<Rightarrow>
      icm_read bus buf room s d = ((if ip_full d then 1 else 0, Some (ir_produced r), buf'), s', d\<lparr>ip_pkts := drop m (ip_pkts d)\<rparr>))) \<and>
    (ip_pkts d = [] \<longrightarrow> icm_read bus buf room s d = ((if ip_full d then 1 else 0, Some 0, buf), s, d))"
    using icm_read_fifo [OF assms(1-3), of s] by blast
  have "length (valid_pkts (take m (ip_pkts d))) \<le> length ?xs"
    by (metis append_take_drop_id length_append le_add1 valid_pkts_append)
  then have all: "take m (ip_pkts d) = ip_pkts d" using m assms(4) xs by (auto simp: Let_def)
  define r where "r = fold icm_pkt (ip_pkts d) (icm_start s buf)"
  have f: "ir_produced r = length ts" "ir_s r = seq_at s (length ts)" "ir_all_stamped r" "length (ir_buf r) = length buf"
    "\<And>j. j < length ts \<Longrightarrow> ir_buf r ! j = icm_sample (seq_at s j) (?xs ! j) (buf ! j)"
    using fold_icm_pkt [of "icm_start s buf" "ip_pkts d"] assms(3,4,6) xs unfolding r_def
    by (simp_all add: icm_start_def list_all_length list_all2_conv_all_nth carries_def)
  define now where "now = fst (icm_counter (ip_now d) s)"
  define s1 where "s1 = snd (icm_counter (ip_now d) (seq_at s (length ts)))"
  have ctr: "icm_counter (ip_now d) (seq_at s (length ts)) = (now, s1)"
    by (simp add: s1_def now_def icm_counter_def seq_at_def Let_def)
  have s1: "ic_ts_fifo_usable s1" "tk_guard s1 = tk_guard s" "tk_ticks s1 = tk_ticks s"
    using assms(7) by (simp_all add: s1_def icm_counter_def seq_at_def Let_def)
  have len: "length ts \<le> length (ir_buf r)" using f(4) assms(3,4) by simp
  have "map is_chip_ts (take (length ts) (ir_buf r)) = map (\<lambda>t. take_bit 16 t) ts"
  proof (rule nth_equalityI)
    fix j assume "j < length (map is_chip_ts (take (length ts) (ir_buf r)))"
    then have j: "j < length ts" using len by simp
    then have "carries (?xs ! j) (ts ! j)" using assms(6) by (simp add: list_all2_conv_all_nth)
    then show "map is_chip_ts (take (length ts) (ir_buf r)) ! j = map (\<lambda>t. take_bit 16 t) ts ! j"
      using f(5) [OF j] j len by (simp add: icm_sample_def carries_def has_stamp_def)
  qed (use len in simp)
  from icm_batched_exact [OF assms(9,10) [folded now_def] assms(5) len this]
  have bat: "icm_batched now (length ts) (ir_buf r) = Some (set_stamps ts (ir_buf r))" .
  have nth: "j < length ts \<Longrightarrow> is_chip_ts (set_stamps ts (ir_buf r) ! j) = ts ! j" for j using len by (simp add: set_stamps_def)
  have "chip_ts_guard_shift (tk_guard s1) (is_chip_ts (set_stamps ts (ir_buf r) ! 0)) (tk_ticks s1) ICM_MAX_JITTER_TICKS = 0"
    using nth [of 0] assms(5,11) unfolding s1(2) chip_ts_guard_shift_def Let_def by (auto simp: gap_def hd_conv_nth)
  then have seam: "seam_shift ICM_MAX_JITTER_TICKS (length ts) (set_stamps ts (ir_buf r)) s1 = set_stamps ts (ir_buf r)"
    by (simp add: seam_shift_def)
  have "icm_dated (ip_full d) (ip_now d) r =
      (set_stamps ts (ir_buf r), s1\<lparr>tk_guard := chip_ts_guard_note (tk_guard s1) (is_chip_ts (set_stamps ts (ir_buf r) ! (length ts - 1)))\<rparr>)"
    using assms(5,8) f(1-3) s1(1) bat seam unfolding icm_dated_def
    by (simp add: ctr icm_stamp_def Let_def)
  moreover have "is_chip_ts (set_stamps ts (ir_buf r) ! (length ts - 1)) = last ts"
    using nth [of "length ts - 1"] assms(5) by (simp add: last_conv_nth)
  moreover have "map is_chip_ts (take (length ts) (set_stamps ts (ir_buf r))) = ts"
    by (rule nth_equalityI) (use len nth in \<open>simp_all add: set_stamps_def\<close>)
  moreover have "drop m (ip_pkts d) = []" using all by (metis append_take_drop_id append_self_conv)
  ultimately show ?thesis
    using m(2) ne f(1) assms(8) unfolding all r_def [symmetric] by (simp add: Let_def chip_ts_guard_note_def)
qed

section \<open>The properties at work\<close>

definition icm_i2c :: "icm_part imud_bus" where
  "icm_i2c = bus_init\<lparr>bus_be := Some \<lparr>be_scheme = None, be_open = \<lambda>_ d. (3, d), be_close = \<lambda>_ d. d,
     be_spi_setup = \<lambda>_ _ _ _ d. (0, d),
     be_i2c_xfer = \<lambda>_ _ tx n d. (case tx of [reg] \<Rightarrow> (case icm_answers reg n d of (r, d) \<Rightarrow> (map_option (!) r, d))
                                 | _ \<Rightarrow> (Some (\<lambda>_. 0), d)),
     be_spi_msg = \<lambda>_ _ _ d. (None, d)\<rparr>\<rparr>"

lemma icm_i2c_ok: "icm_bus icm_i2c"
proof -
  have r: "bus_burst_read icm_i2c reg n d = (case icm_answers reg n d of (r, d') \<Rightarrow> (map_option (\<lambda>bs. map ((!) bs) [0..<n]) r, d'))"
    for reg n d
    by (simp add: bus_burst_read_def i2c_burst_read_def icm_i2c_def bus_init_def option.map_comp comp_def split: prod.split)
  have full: "map ((!) bs) [0..<n] = bs" if "length bs = n" for bs :: bytes and n
    using that by (metis map_nth)
  have len: "length (concat (take k ps)) = k * 16" if "k \<le> length ps" "\<forall>p \<in> set ps. length p = 16" for k and ps :: "bytes list"
    using that
  proof (induction k arbitrary: ps)
    case (Suc k)
    then show ?case by (cases ps) auto
  qed simp
  have same: "bus_burst_read icm_i2c reg n d = icm_answers reg n d" if "\<And>bs. fst (icm_answers reg n d) = Some bs \<Longrightarrow> length bs = n"
    for reg n d
    unfolding r using that full by (cases "icm_answers reg n d"; cases "fst (icm_answers reg n d)") auto
  have w: "bus_reg_write icm_i2c ICM_BANK_SEL v d = (True, d)" for v d
    by (simp add: bus_reg_write_def i2c_reg_write_def icm_i2c_def bus_init_def)
  show ?thesis
    unfolding icm_bus_def
    by (intro allI conjI impI same w) (auto simp: icm_answers_def icm_regs Let_def len)
qed

definition two_pkts :: "bytes list" where
  "two_pkts = [[0x68, 0, 1, 0, 2, 0, 3, 0, 4, 0, 5, 0, 6, 7, 0xFF, 0xF0], [0x68, 0, 8, 0, 9, 0, 10, 0, 11, 0, 12, 0, 13, 14, 0x01, 0x00]]"

definition icm_running :: icm_drv where
  "icm_running = \<lparr>tk_ticks = 937, tk_rejects = 0, tk_reject_next = 1, tk_fwd_rejects = 0, tk_fwd_next = 1, tk_bwd_rejects = 0,
     tk_bwd_next = 1, tk_guard = \<lparr>cg_last = 0x0005F000, cg_have = True, cg_refusals = 0\<rparr>, tk_log = [], ic_accel_scale = 0,
     ic_gyro_scale = 0, ic_next_seq = 5, ic_ts_last_raw = 0x5F010, ic_ts_hi = 0, ic_ts_fifo_usable = True\<rparr>"

lemma two_pkts_valid: "valid_pkts two_pkts = two_pkts" "\<forall>p \<in> set two_pkts. length p = 16" "length two_pkts = 2"
  by (simp_all add: valid_pkts_def two_pkts_def icm_skips_def FIFO_HDR_MSG_def FIFO_HDR_ACCEL_def FIFO_HDR_GYRO_def)

theorem icm_read_lossless_witness:
  "case icm_read icm_i2c [blank] 1 icm_running \<lparr>ip_pkts = two_pkts, ip_full = False, ip_now = 0x60110\<rparr> of
     ((rc, n, buf'), s', d') \<Rightarrow> rc = 0 \<and> n = Some 1 \<and> ip_pkts d' = [last two_pkts] \<and> is_seq (buf' ! 0) = 5"
proof -
  have ok: "icm_ok \<lparr>ip_pkts = two_pkts, ip_full = False, ip_now = 0x60110\<rparr>"
    using two_pkts_valid by (simp add: icm_ok_def)
  have one: "taken = [hd two_pkts] \<and> rest = [last two_pkts]"
    if t: "two_pkts = taken @ rest" and k: "length (valid_pkts taken) \<le> 1" "rest = [] \<or> length (valid_pkts taken) = 1" for taken rest
  proof -
    have "\<forall>p \<in> set two_pkts. \<not> icm_skips p" using two_pkts_valid(1) by (simp add: valid_pkts_def filter_id_conv)
    then have v: "valid_pkts taken = taken" unfolding t by (simp add: valid_pkts_def)
    have "length taken = 1" using k two_pkts_valid(3) unfolding v t by auto
    then show ?thesis using t by (cases taken) (auto simp: two_pkts_def)
  qed
  let ?d = "\<lparr>ip_pkts = two_pkts, ip_full = False, ip_now = 0x60110\<rparr>"
  obtain rc n buf' s' d' where r: "icm_read icm_i2c [blank] 1 icm_running ?d = ((rc, n, buf'), s', d')" by (metis surj_pair)
  from icm_read_lossless [OF icm_i2c_ok ok, of 1 "[blank]" icm_running] obtain taken where
    t: "two_pkts = taken @ ip_pkts d'" "rc = 0" "n = Some (length (valid_pkts taken))" "length (valid_pkts taken) \<le> 1"
      "ip_pkts d' = [] \<or> length (valid_pkts taken) = 1"
      "\<forall>k < length (valid_pkts taken). \<exists>t. buf' ! k = (icm_sample (seq_at icm_running k) (valid_pkts taken ! k) ([blank] ! k))\<lparr>is_chip_ts := t\<rparr>"
    unfolding r prod.case by auto
  have o: "taken = [hd two_pkts]" "ip_pkts d' = [last two_pkts]" using one [OF t(1,4,5)] by simp_all
  have v: "valid_pkts taken = taken"
    using two_pkts_valid(1) unfolding o by (simp add: valid_pkts_def two_pkts_def split: if_splits)
  have "is_seq (buf' ! 0) = 5" using t(6) unfolding v unfolding o by (auto simp: icm_sample_def seq_at_def icm_running_def)
  then show ?thesis unfolding r using t(2,3) o v by simp
qed

theorem icm_read_true_times_witness:
  "case icm_read icm_i2c (replicate 4 blank) 4 icm_running \<lparr>ip_pkts = two_pkts, ip_full = False, ip_now = 0x60110\<rparr> of
     ((rc, n, buf'), s', d') \<Rightarrow> rc = 0 \<and> map is_chip_ts (take 2 buf') = [0x5FFF0, 0x60100]"
proof -
  let ?d = "\<lparr>ip_pkts = two_pkts, ip_full = False, ip_now = 0x60110\<rparr>"
  have ok: "icm_ok ?d" using two_pkts_valid by (simp add: icm_ok_def)
  have "list_all2 carries (valid_pkts (ip_pkts ?d)) [0x5FFF0, 0x60100]"
    unfolding two_pkts_valid icm_part.select_convs
    by (simp add: two_pkts_def carries_def has_stamp_def FIFO_HDR_TS_MASK_def FIFO_HDR_TS_ODR_def take_bit_eq_mask mask_eq_exp_minus_1)
  note carried = this
  have "fst (icm_counter (ip_now ?d) icm_running) = 0x60110" by (simp add: icm_running_def icm_counter_def)
  then have "recent True (fst (icm_counter (ip_now ?d) icm_running)) (rev [0x5FFF0, 0x60100])"
    "fst (icm_counter (ip_now ?d) icm_running) - last [0x5FFF0, 0x60100] \<le> TS_FIFO_MAX_LAG"
    by (simp_all add: TS_FIFO_MAX_LAG_def)
  moreover have "cg_have (tk_guard icm_running) \<longrightarrow> gap icm_running (hd [0x5FFF0, 0x60100]) > 0" "ic_ts_fifo_usable icm_running"
    by (simp_all add: icm_running_def gap_def)
  ultimately have "case icm_read icm_i2c (replicate 4 blank) 4 icm_running ?d of ((rc, n, buf'), s', d') \<Rightarrow>
    rc = 0 \<and> n = Some (length [0x5FFF0, 0x60100 :: u32]) \<and> ip_pkts d' = [] \<and>
    map is_chip_ts (take (length [0x5FFF0, 0x60100 :: u32]) buf') = [0x5FFF0, 0x60100] \<and>
    cg_have (tk_guard s') \<and> cg_last (tk_guard s') = last [0x5FFF0, 0x60100]"
    by (intro icm_read_true_times [OF icm_i2c_ok ok _ _ _ carried]) simp_all
  then show ?thesis by (auto simp: numeral_2_eq_2 split: prod.splits)
qed

end
