(* ===== verification/Number.thy ===== *)
theory Number
  imports Ieee Complex_Main
begin

text \<open>
  The numbers of the filter. src/fusion.c computes in single precision with the functions of libm; its heave and
  sea-state estimators accumulate in double. The definitions of the filter are written once, over any type with the
  operations of C, and used at two: \<open>flt\<close>, on which every operation rounds once as the hardware does, and the real
  numbers, on which the formulas are what they mean. A \<open>libm\<close> holds the literals, the library functions and the test
  for finite numbers.
\<close>

section \<open>Arrays and sums\<close>

type_synonym 'a vec = "nat \<Rightarrow> 'a"
type_synonym 'a mat = "nat \<Rightarrow> nat \<Rightarrow> 'a"

text \<open>\<open>for (k = 0; k < n; k++) s += f(k)\<close>.\<close>

definition accum :: "nat \<Rightarrow> (nat \<Rightarrow> 'a) \<Rightarrow> 'a \<Rightarrow> 'a :: plus" where
  "accum n f s = fold (\<lambda>k s. s + f k) [0..<n] s"

definition vec3 :: "'a \<Rightarrow> 'a \<Rightarrow> 'a \<Rightarrow> 'a vec" where
  "vec3 a b c = (\<lambda>i. if i = 0 then a else if i = 1 then b else c)"

definition vec4 :: "'a \<Rightarrow> 'a \<Rightarrow> 'a \<Rightarrow> 'a \<Rightarrow> 'a vec" where
  "vec4 a b c d = (\<lambda>i. if i = 0 then a else if i = 1 then b else if i = 2 then c else d)"

lemma accum_0 [simp]: "accum 0 f s = s"
  by (simp add: accum_def)

lemma accum_Suc: "accum (Suc n) f s = accum n f s + f n"
  by (simp add: accum_def)

lemma accum_cong: "(\<And>k. k < n \<Longrightarrow> f k = g k) \<Longrightarrow> accum n f s = accum n g s"
  by (induction n) (simp_all add: accum_Suc)

lemma accum_sum [simp]: "accum n f s = s + (\<Sum>k<n. f k)" for s :: "'a :: comm_monoid_add"
  by (induction n) (simp_all add: accum_Suc add.assoc)

lemma vec3_simps [simp]:
  "vec3 a b c 0 = a" "vec3 a b c 1 = b" "vec3 a b c (Suc 0) = b" "vec3 a b c 2 = c" "vec3 a b c (Suc (Suc 0)) = c"
  by (simp_all add: vec3_def)

lemma vec4_simps [simp]:
  "vec4 a b c d 0 = a" "vec4 a b c d 1 = b" "vec4 a b c d (Suc 0) = b" "vec4 a b c d 2 = c"
  "vec4 a b c d (Suc (Suc 0)) = c" "vec4 a b c d 3 = d" "vec4 a b c d (Suc (Suc (Suc 0))) = d"
  by (simp_all add: vec4_def)

section \<open>The library functions\<close>

record 'a libm =
  lit :: "rat \<Rightarrow> 'a"
  fsqrt :: "'a \<Rightarrow> 'a"
  fsin :: "'a \<Rightarrow> 'a"
  fcos :: "'a \<Rightarrow> 'a"
  fasin :: "'a \<Rightarrow> 'a"
  fatan2 :: "'a \<Rightarrow> 'a \<Rightarrow> 'a"
  fexp :: "'a \<Rightarrow> 'a"
  fexpm1 :: "'a \<Rightarrow> 'a"
  ffinite :: "'a \<Rightarrow> bool"

definition M_PI :: rat where "M_PI = dconst (314159265358979323846 / 10 ^ 20)"

text \<open>The angle of the point with the coordinates \<open>(x, y)\<close>.\<close>

definition atan2 :: "real \<Rightarrow> real \<Rightarrow> real" where
  "atan2 y x = Arg (Complex x y)"

definition real_libm :: "real libm" where
  "real_libm = \<lparr>lit = of_rat, fsqrt = sqrt, fsin = sin, fcos = cos, fasin = arcsin, fatan2 = atan2, fexp = exp,
     fexpm1 = (\<lambda>x. exp x - 1), ffinite = (\<lambda>_. True)\<rparr>"

lemma real_libm_simps [simp]:
  "lit real_libm = of_rat" "fsqrt real_libm = sqrt" "fsin real_libm = sin" "fcos real_libm = cos"
  "fasin real_libm = arcsin" "fatan2 real_libm = atan2" "fexp real_libm = exp" "fexpm1 real_libm x = exp x - 1"
  "ffinite real_libm x"
  by (simp_all add: real_libm_def)

lemma atan2_polar:
  assumes "x\<^sup>2 + y\<^sup>2 \<noteq> 0"
  shows "cos (atan2 y x) = x / sqrt (x\<^sup>2 + y\<^sup>2)" "sin (atan2 y x) = y / sqrt (x\<^sup>2 + y\<^sup>2)"
proof -
  have "Complex x y \<noteq> 0" using assms by (auto simp: complex_eq_iff)
  then show "cos (atan2 y x) = x / sqrt (x\<^sup>2 + y\<^sup>2)" "sin (atan2 y x) = y / sqrt (x\<^sup>2 + y\<^sup>2)"
    by (simp_all add: atan2_def cos_Arg sin_Arg cmod_def)
qed

lemma atan2_bounds: "- pi < atan2 y x" "atan2 y x \<le> pi"
  using Arg_bounded [of "Complex x y"] by (simp_all add: atan2_def)

section \<open>Single precision\<close>

text \<open>A number is the value of a pattern; every operation computes exactly and rounds once.\<close>

datatype flt = Flt (flv: fl)

definition rnd32 :: "fl \<Rightarrow> flt" where "rnd32 x = Flt (f32_dec (f32_enc x))"

fun fl_less :: "fl \<Rightarrow> fl \<Rightarrow> bool" where
  "fl_less (Fin s a) (Fin t b) = (fl_val s a < fl_val t b)"
| "fl_less (Fin s a) (Inf t) = (\<not> t)"
| "fl_less (Inf s) (Fin t b) = s"
| "fl_less (Inf s) (Inf t) = (s \<and> \<not> t)"
| "fl_less NaN y = False"
| "fl_less x NaN = False"

fun fl_eq :: "fl \<Rightarrow> fl \<Rightarrow> bool" where
  "fl_eq (Fin s a) (Fin t b) = (fl_val s a = fl_val t b)"
| "fl_eq (Inf s) (Inf t) = (s = t)"
| "fl_eq x y = False"

fun fl_abs :: "fl \<Rightarrow> fl" where
  "fl_abs (Fin s a) = Fin False a"
| "fl_abs (Inf s) = Inf False"
| "fl_abs NaN = NaN"

instantiation flt :: "{zero, one, plus, minus, uminus, times, inverse, ord, abs}"
begin

definition zero_flt :: flt where "zero_flt = Flt (Fin False 0)"
definition one_flt :: flt where "one_flt = Flt (Fin False 1)"
definition plus_flt :: "flt \<Rightarrow> flt \<Rightarrow> flt" where "plus_flt x y = rnd32 (fl_add (flv x) (flv y))"
definition minus_flt :: "flt \<Rightarrow> flt \<Rightarrow> flt" where "minus_flt x y = rnd32 (fl_add (flv x) (fl_neg (flv y)))"
definition uminus_flt :: "flt \<Rightarrow> flt" where "uminus_flt x = Flt (fl_neg (flv x))"
definition times_flt :: "flt \<Rightarrow> flt \<Rightarrow> flt" where "times_flt x y = rnd32 (fl_mul (flv x) (flv y))"
definition divide_flt :: "flt \<Rightarrow> flt \<Rightarrow> flt" where "divide_flt x y = rnd32 (fl_div (flv x) (flv y))"
definition inverse_flt :: "flt \<Rightarrow> flt" where "inverse_flt x = rnd32 (fl_div (Fin False 1) (flv x))"
definition less_flt :: "flt \<Rightarrow> flt \<Rightarrow> bool" where "less_flt x y = fl_less (flv x) (flv y)"
definition less_eq_flt :: "flt \<Rightarrow> flt \<Rightarrow> bool" where
  "less_eq_flt x y \<longleftrightarrow> fl_less (flv x) (flv y) \<or> fl_eq (flv x) (flv y)"
definition abs_flt :: "flt \<Rightarrow> flt" where "abs_flt x = Flt (fl_abs (flv x))"

instance ..

end

definition flt_finite :: "flt \<Rightarrow> bool" where
  "flt_finite x \<longleftrightarrow> (case flv x of Fin s q \<Rightarrow> True | _ \<Rightarrow> False)"

definition flt_lit :: "rat \<Rightarrow> flt" where
  "flt_lit q = rnd32 (Fin (q < 0) \<bar>q\<bar>)"

text \<open>A \<open>libm\<close> for single precision has these literals and this test; the functions are the platform's.\<close>

definition single :: "flt libm \<Rightarrow> bool" where
  "single F \<longleftrightarrow> lit F = flt_lit \<and> ffinite F = flt_finite"

end
