(* ===== verification/Mekf.thy ===== *)
theory Mekf
  imports Number Types "HOL-Library.While_Combinator"
begin

text \<open>
  The attitude filter of src/fusion.c: a multiplicative extended Kalman filter over attitude, gyroscope bias and
  wave acceleration, with the corrections by gravity and by the magnetometer. The definitions are the code's, over any
  type of numbers with the operations of C; \<open>F\<close> holds literals and library functions.
\<close>

section \<open>Vectors, matrices, quaternions\<close>

definition MEKF_N :: nat where "MEKF_N = 9"

definition G_MS2 :: "'a libm \<Rightarrow> 'a" where "G_MS2 F = lit F (980665 / 100000)"

definition v3_dot :: "('a :: {plus, times}) vec \<Rightarrow> 'a vec \<Rightarrow> 'a" where
  "v3_dot a b = a 0 * b 0 + a 1 * b 1 + a 2 * b 2"

definition v3_norm :: "('a :: {plus, times}) libm \<Rightarrow> 'a vec \<Rightarrow> 'a" where
  "v3_norm F v = fsqrt F (v 0 * v 0 + v 1 * v 1 + v 2 * v 2)"

definition m33_Atx :: "('a :: {zero, plus, times}) mat \<Rightarrow> 'a vec \<Rightarrow> 'a vec" where
  "m33_Atx A x = (\<lambda>i. accum 3 (\<lambda>k. A k i * x k) 0)"

definition m33_scale :: "('a :: {zero, ord, abs}) mat \<Rightarrow> 'a" where
  "m33_scale A = fold (\<lambda>(i, j) s. let a = \<bar>A i j\<bar> in if a > s then a else s)
     [(0, 0), (0, 1), (0, 2), (1, 0), (1, 1), (1, 2), (2, 0), (2, 1), (2, 2)] 0"

definition m33_inv :: "('a :: {zero, one, plus, minus, times, inverse, ord, abs}) libm \<Rightarrow> 'a mat \<Rightarrow> 'a mat option" where
  "m33_inv F A =
     (let d = A 0 0 * (A 1 1 * A 2 2 - A 1 2 * A 2 1)
            - A 0 1 * (A 1 0 * A 2 2 - A 1 2 * A 2 0)
            + A 0 2 * (A 1 0 * A 2 1 - A 1 1 * A 2 0);
          scale = m33_scale A
      in if \<not> \<bar>d\<bar> > lit F (1 / 1000000) * scale * scale * scale then None
         else let id = 1 / d in Some (\<lambda>i.
           if i = 0 then vec3 ((A 1 1 * A 2 2 - A 1 2 * A 2 1) * id) ((A 0 2 * A 2 1 - A 0 1 * A 2 2) * id)
                              ((A 0 1 * A 1 2 - A 0 2 * A 1 1) * id)
           else if i = 1 then vec3 ((A 1 2 * A 2 0 - A 1 0 * A 2 2) * id) ((A 0 0 * A 2 2 - A 0 2 * A 2 0) * id)
                                   ((A 0 2 * A 1 0 - A 0 0 * A 1 2) * id)
           else vec3 ((A 1 0 * A 2 1 - A 1 1 * A 2 0) * id) ((A 0 1 * A 2 0 - A 0 0 * A 2 1) * id)
                     ((A 0 0 * A 1 1 - A 0 1 * A 1 0) * id)))"

definition m33_reset_jac :: "('a :: {one, uminus, times}) libm \<Rightarrow> 'a vec \<Rightarrow> 'a mat" where
  "m33_reset_jac F dth =
     (let h = lit F (1 / 2); nh = - lit F (1 / 2)
      in (\<lambda>i. if i = 0 then vec3 1 (h * dth 2) (nh * dth 1)
              else if i = 1 then vec3 (nh * dth 2) 1 (h * dth 0)
              else vec3 (h * dth 1) (nh * dth 0) 1))"

definition g_premul_rows3 :: "('a :: {plus, times}) mat \<Rightarrow> 'a mat \<Rightarrow> 'a mat" where
  "g_premul_rows3 G M = (\<lambda>i j. if i < 3 then G i 0 * M 0 j + G i 1 * M 1 j + G i 2 * M 2 j else M i j)"

definition mNN_mul :: "('a :: {zero, plus, times}) mat \<Rightarrow> 'a mat \<Rightarrow> 'a mat" where
  "mNN_mul A B = (\<lambda>i j. accum MEKF_N (\<lambda>k. A i k * B k j) 0)"

definition mNN_mulT :: "('a :: {zero, plus, times}) mat \<Rightarrow> 'a mat \<Rightarrow> 'a mat" where
  "mNN_mulT A B = (\<lambda>i j. accum MEKF_N (\<lambda>k. A i k * B j k) 0)"

text \<open>The pass over the lower triangle averages each entry with its mirror image and stores it in both.\<close>

definition mNN_symmetrize :: "('a :: {plus, times}) libm \<Rightarrow> 'a mat \<Rightarrow> 'a mat" where
  "mNN_symmetrize F P =
     (\<lambda>i j. if i = j then P i j else let (a, b) = (if j < i then (i, j) else (j, i)) in lit F (1 / 2) * (P a b + P b a))"

definition q_mul :: "('a :: {plus, minus, times}) vec \<Rightarrow> 'a vec \<Rightarrow> 'a vec" where
  "q_mul a b = vec4 (a 0 * b 0 - a 1 * b 1 - a 2 * b 2 - a 3 * b 3)
                    (a 0 * b 1 + a 1 * b 0 + a 2 * b 3 - a 3 * b 2)
                    (a 0 * b 2 - a 1 * b 3 + a 2 * b 0 + a 3 * b 1)
                    (a 0 * b 3 + a 1 * b 2 - a 2 * b 1 + a 3 * b 0)"

definition q_normalize :: "('a :: {zero, one, plus, times, inverse, ord}) libm \<Rightarrow> 'a vec \<Rightarrow> 'a vec" where
  "q_normalize F q =
     (let n = fsqrt F (q 0 * q 0 + q 1 * q 1 + q 2 * q 2 + q 3 * q 3)
      in if ffinite F n \<and> n > lit F (1 / 10 ^ 10) then vec4 (q 0 / n) (q 1 / n) (q 2 / n) (q 3 / n)
         else if \<not> ffinite F n then vec4 1 0 0 0 else q)"

definition q_to_R :: "('a :: {one, plus, minus, times}) libm \<Rightarrow> 'a vec \<Rightarrow> 'a mat" where
  "q_to_R F q =
     (let w = q 0; x = q 1; y = q 2; z = q 3; two = lit F 2
      in (\<lambda>i. if i = 0 then vec3 (1 - two * (y * y + z * z)) (two * (x * y - w * z)) (two * (x * z + w * y))
              else if i = 1 then vec3 (two * (x * y + w * z)) (1 - two * (x * x + z * z)) (two * (y * z - w * x))
              else vec3 (two * (x * z - w * y)) (two * (y * z + w * x)) (1 - two * (x * x + y * y))))"

definition q_from_rotvec :: "('a :: {zero, one, plus, times, inverse, ord}) libm \<Rightarrow> 'a vec \<Rightarrow> 'a vec" where
  "q_from_rotvec F v =
     (let th = fsqrt F (v 0 * v 0 + v 1 * v 1 + v 2 * v 2); h = lit F (1 / 2)
      in q_normalize F
           (if th < lit F (1 / 10 ^ 7) then vec4 1 (v 0 * h) (v 1 * h) (v 2 * h)
            else let s = fsin F (th * h) / th in vec4 (fcos F (th * h)) (v 0 * s) (v 1 * s) (v 2 * s)))"

section \<open>The state\<close>

record 'a mekf =
  mf_q :: "'a vec"
  mf_bias :: "'a vec"
  mf_bias_init :: "'a vec"
  mf_wave_acc :: "'a vec"
  mf_P :: "'a mat"
  mf_m_ref :: "'a vec"
  mf_m_ref_valid :: bool
  mf_mref_sum :: "'a vec"
  mf_mref_n :: u32
  mf_initialized :: bool
  mf_converged :: bool
  mf_state_reset :: bool
  mf_reset_count :: u32
  mf_dt :: 'a
  mf_mag_odr_hz :: 'a
  mf_Qg :: 'a
  mf_Qb :: 'a
  mf_Ra :: 'a
  mf_Rm :: 'a
  mf_accel_skip_lo :: 'a
  mf_accel_skip_hi :: 'a
  mf_Ra_scale :: 'a
  mf_mag_reject_sq :: 'a
  mf_conv_thresh :: 'a
  mf_mag_yaw_only :: bool
  mf_mag_fuse_uncal :: bool
  mf_mag_uncal_reject :: 'a
  mf_mag_uncal_withdrawn :: bool
  mf_mag_uncal_limit :: 'a
  mf_mag_uncal_seen :: bool
  mf_mref_alpha :: 'a
  mf_g_body :: "'a vec"
  mf_g_body_valid :: bool
  mf_acc_quiet_ema :: 'a
  mf_speed_mps :: 'a
  mf_wave_tau :: 'a
  mf_wave_sig2 :: 'a
  mf_wave_enabled :: bool
  mf_dip_sig2 :: 'a
  mf_mag_anom_ema :: 'a
  mf_mag_resid_ema :: 'a
  mf_mag_accepted :: u32
  mf_innov_weight_ema :: 'a
  mf_innov_reject_ema :: 'a
  mf_gate_alpha :: 'a
  mf_health_dt_accum :: 'a
  mf_nis_accel_ema :: 'a
  mf_nis_mag_ema :: 'a
  mf_nis_mag_alpha :: 'a

text \<open>The keys of the configuration the filter reads, narrowed to float as it does; \<open>mc_wave_on\<close> is the test of the two
  doubles of the wave state against zero.\<close>

record 'a mekf_cfg =
  mc_gyro_noise :: 'a
  mc_gyro_bias :: 'a
  mc_accel_noise :: 'a
  mc_mag_noise :: 'a
  mc_wave_accel :: 'a
  mc_wave_accel_tau_s :: 'a
  mc_wave_on :: bool
  mc_mag_dip_sigma_deg :: 'a
  mc_accel_skip_thresh :: 'a
  mc_mag_reject_gauss :: 'a
  mc_mag_yaw_only :: bool
  mc_mag_fuse_uncal :: bool
  mc_mag_uncal_reject_frac :: 'a

section \<open>Health of the updates\<close>

definition gate_health :: "'a \<Rightarrow> 'a \<Rightarrow> 'a \<Rightarrow> 'a mekf \<Rightarrow> ('a :: {plus, minus, times}) mekf" where
  "gate_health alpha w rej f =
     f\<lparr>mf_innov_weight_ema := mf_innov_weight_ema f + alpha * (w - mf_innov_weight_ema f),
       mf_innov_reject_ema := mf_innov_reject_ema f + alpha * (rej - mf_innov_reject_ema f)\<rparr>"

definition nis_record :: "'a libm \<Rightarrow> 'a \<Rightarrow> 'a \<Rightarrow> 'a \<Rightarrow> 'a \<Rightarrow> 'a :: {zero, plus, minus, times, inverse, ord}" where
  "nis_record F alpha d2 dof ema =
     (let v = d2 / dof
      in if \<not> v \<ge> 0 then ema else let v = (if v > lit F 100 then lit F 100 else v) in ema + alpha * (v - ema))"

text \<open>The accumulator an update feeds.\<close>

datatype nis_channel = Nis_accel | Nis_mag

definition nis_feed :: "'a libm \<Rightarrow> nis_channel \<Rightarrow> 'a \<Rightarrow> 'a \<Rightarrow> 'a \<Rightarrow> 'a mekf \<Rightarrow> ('a :: {zero, plus, minus, times, inverse, ord}) mekf" where
  "nis_feed F ch alpha d2 dof f =
     (case ch of Nis_accel \<Rightarrow> f\<lparr>mf_nis_accel_ema := nis_record F alpha d2 dof (mf_nis_accel_ema f)\<rparr>
      | Nis_mag \<Rightarrow> f\<lparr>mf_nis_mag_ema := nis_record F alpha d2 dof (mf_nis_mag_ema f)\<rparr>)"

definition GROSS_REJECT_MULT :: "'a libm \<Rightarrow> 'a" where "GROSS_REJECT_MULT F = lit F 25"
definition YAW_CHI2_GATE :: "'a libm \<Rightarrow> 'a" where "YAW_CHI2_GATE F = lit F (663 / 100)"
definition ACCEL_CHI2_GATE :: "'a libm \<Rightarrow> 'a" where "ACCEL_CHI2_GATE F = lit F (1134 / 100)"
definition GATE_TAU_S :: "'a libm \<Rightarrow> 'a" where "GATE_TAU_S F = lit F 30"
definition MREF_TAU_S :: "'a libm \<Rightarrow> 'a" where "MREF_TAU_S F = lit F 300"
definition MREF_ACQUIRE_S :: "'a libm \<Rightarrow> 'a" where "MREF_ACQUIRE_S F = lit F 1"

section \<open>The measurement update\<close>

definition dir_jacobian :: "('a :: {zero, uminus}) vec \<Rightarrow> 'a mat" where
  "dir_jacobian h =
     (\<lambda>i j. if i = 0 \<and> j = 1 then - h 2 else if i = 0 \<and> j = 2 then h 1
            else if i = 1 \<and> j = 0 then h 2 else if i = 1 \<and> j = 2 then - h 0
            else if i = 2 \<and> j = 0 then - h 1 else if i = 2 \<and> j = 1 then h 0 else 0)"

definition cross_mat :: "('a :: {zero, uminus}) vec \<Rightarrow> 'a mat" where
  "cross_mat h = (\<lambda>i. if i = 0 then vec3 0 (- h 2) (h 1) else if i = 1 then vec3 (h 2) 0 (- h 0) else vec3 (- h 1) (h 0) 0)"

definition wave_jacobian ::
  "('a :: {zero, one, plus, minus, uminus, times, inverse, ord}) libm \<Rightarrow> 'a vec \<Rightarrow> 'a vec \<Rightarrow> ('a vec \<times> 'a mat) option" where
  "wave_jacobian F h aw =
     (let v = vec3 (h 0 - aw 0) (h 1 - aw 1) (h 2 - aw 2); vn = v3_norm F v
      in if vn < lit F (1 / 2) then None
         else let inv = 1 / vn;
                  zhat = (\<lambda>i. v i * inv);
                  Pz = (\<lambda>i j. (if i = j then 1 else 0) - zhat i * zhat j);
                  hx = cross_mat h
              in Some (zhat, \<lambda>i j.
                   if j < 3 then accum 3 (\<lambda>k. Pz i k * hx k j) 0 * inv
                   else if 6 \<le> j then - Pz i (j - 6) * inv else 0))"

definition dir_PHt :: "('a :: {zero, plus, times}) mat \<Rightarrow> 'a mat \<Rightarrow> 'a mat" where
  "dir_PHt P H = (\<lambda>i j. accum MEKF_N (\<lambda>k. P i k * H j k) 0)"

definition dir_S :: "('a :: {zero, plus, times}) mat \<Rightarrow> 'a mat \<Rightarrow> 'a \<Rightarrow> 'a mat option \<Rightarrow> 'a mat" where
  "dir_S H PHt R_noise R33 =
     (\<lambda>i j. accum MEKF_N (\<lambda>k. H i k * PHt k j)
        (case R33 of Some R \<Rightarrow> R i j | None \<Rightarrow> if i = j then R_noise else 0))"

text \<open>The predicted direction and the Jacobian, with the wave state where it is in play and can be.\<close>

definition eskf_jacobian ::
  "('a :: {zero, one, plus, minus, uminus, times, inverse, ord}) libm \<Rightarrow> 'a vec \<Rightarrow> 'a vec option \<Rightarrow> 'a vec \<times> 'a mat" where
  "eskf_jacobian F h aw =
     (case aw of
        None \<Rightarrow> (h, dir_jacobian h)
      | Some aw \<Rightarrow> (case wave_jacobian F h aw of None \<Rightarrow> (h, dir_jacobian h) | Some zH \<Rightarrow> zH))"

definition eskf_gain :: "('a :: {zero, plus, times}) mat \<Rightarrow> 'a mat \<Rightarrow> 'a mat" where
  "eskf_gain PHt Sinv = (\<lambda>i j. accum 3 (\<lambda>k. PHt i k * Sinv k j) 0)"

definition innov_d2 :: "('a :: {plus, times}) mat \<Rightarrow> 'a vec \<Rightarrow> 'a" where
  "innov_d2 Sinv innov =
     (let Si = (\<lambda>i. Sinv i 0 * innov 0 + Sinv i 1 * innov 1 + Sinv i 2 * innov 2)
      in innov 0 * Si 0 + innov 1 * Si 1 + innov 2 * Si 2)"

text \<open>The gate: the evidence is recorded, a gross outlier ends the update, an implausible innovation is shortened.\<close>

definition eskf_gate ::
  "('a :: {zero, one, plus, minus, times, inverse, ord}) libm \<Rightarrow> 'a mat \<Rightarrow> 'a \<Rightarrow> nis_channel option \<Rightarrow> 'a \<Rightarrow> 'a vec \<Rightarrow> 'a mekf \<Rightarrow>
   'a vec option \<times> 'a mekf" where
  "eskf_gate F Sinv chi2_gate ch nis_alpha innov f =
     (if chi2_gate > 0 \<or> ch \<noteq> None
      then let d2 = innov_d2 Sinv innov;
               f = (case ch of Some c \<Rightarrow> nis_feed F c nis_alpha d2 (lit F 2) f | None \<Rightarrow> f)
           in if chi2_gate > 0
              then if d2 > GROSS_REJECT_MULT F * chi2_gate then (None, gate_health nis_alpha 0 1 f)
                   else let w = (if d2 > chi2_gate then fsqrt F (chi2_gate / d2) else 1);
                            innov = (if d2 > chi2_gate then (\<lambda>i. innov i * w) else innov)
                        in (Some innov, gate_health nis_alpha w 0 f)
              else (Some innov, f)
      else (Some innov, f))"

definition eskf_protect :: "('a :: {plus, minus, times}) vec option \<Rightarrow> 'a mat \<Rightarrow> 'a mat" where
  "eskf_protect protect K =
     (case protect of
        None \<Rightarrow> K
      | Some n \<Rightarrow> (\<lambda>i j. if i < 3 then K i j - n i * (n 0 * K 0 j + n 1 * K 1 j + n 2 * K 2 j) else K i j))"

text \<open>The correction goes into the attitude by multiplication, into bias and wave acceleration by addition.\<close>

definition eskf_inject :: "('a :: {zero, one, plus, minus, times, inverse, ord}) libm \<Rightarrow> 'a vec \<Rightarrow> 'a mekf \<Rightarrow> 'a mekf" where
  "eskf_inject F dx f =
     f\<lparr>mf_q := q_normalize F (q_mul (mf_q f) (q_from_rotvec F dx)),
       mf_bias := vec3 (mf_bias f 0 + dx 3) (mf_bias f 1 + dx 4) (mf_bias f 2 + dx 5),
       mf_wave_acc := vec3 (mf_wave_acc f 0 + dx 6) (mf_wave_acc f 1 + dx 7) (mf_wave_acc f 2 + dx 8)\<rparr>"

text \<open>The covariance in Joseph's form, with the reset of the error state folded in.\<close>

definition eskf_joseph ::
  "('a :: {zero, one, plus, minus, uminus, times}) libm \<Rightarrow> 'a vec \<Rightarrow> 'a mat \<Rightarrow> 'a mat \<Rightarrow> 'a \<Rightarrow> 'a mat option \<Rightarrow> 'a mat \<Rightarrow> 'a mat" where
  "eskf_joseph F dx K H R_noise R33 P =
     (let KH = (\<lambda>i j. accum 3 (\<lambda>k. K i k * H k j) 0);
          IKH = (\<lambda>i j. (if i = j then 1 else 0) - KH i j);
          G = m33_reset_jac F dx;
          K = g_premul_rows3 G K;
          IKH = g_premul_rows3 G IKH;
          Pnew = mNN_mulT (mNN_mul IKH P) IKH;
          Pnew = (case R33 of
                    Some R \<Rightarrow> (\<lambda>i j. Pnew i j + fold (\<lambda>k s. accum 3 (\<lambda>l. K i k * R k l * K j l) s) [0..<3] 0)
                  | None \<Rightarrow> (\<lambda>i j. Pnew i j + R_noise * accum 3 (\<lambda>k. K i k * K j k) 0))
      in mNN_symmetrize F Pnew)"

definition eskf_update ::
  "('a :: {zero, one, plus, minus, uminus, times, inverse, ord, abs}) libm \<Rightarrow> 'a vec \<Rightarrow> 'a vec \<Rightarrow> 'a \<Rightarrow> 'a \<Rightarrow>
   nis_channel option \<Rightarrow> 'a \<Rightarrow> 'a vec option \<Rightarrow> 'a mat option \<Rightarrow> 'a vec option \<Rightarrow> 'a mekf \<Rightarrow> int \<times> 'a mekf" where
  "eskf_update F h z R_noise chi2_gate ch nis_alpha aw R33 protect f =
     (let (zhat, H) = eskf_jacobian F h aw;
          PHt = dir_PHt (mf_P f) H;
          S = dir_S H PHt R_noise R33
      in case m33_inv F S of
           None \<Rightarrow> (-1, f)
         | Some Sinv \<Rightarrow>
             (let K = eskf_gain PHt Sinv;
                  innov = vec3 (z 0 - zhat 0) (z 1 - zhat 1) (z 2 - zhat 2)
              in case eskf_gate F Sinv chi2_gate ch nis_alpha innov f of
                   (None, f) \<Rightarrow> (1, f)
                 | (Some innov, f) \<Rightarrow>
                     (let K = eskf_protect protect K;
                          dx = (\<lambda>i. accum 3 (\<lambda>j. K i j * innov j) 0)
                      in (0, (eskf_inject F dx f)\<lparr>mf_P := eskf_joseph F dx K H R_noise R33 (mf_P f)\<rparr>))))"

section \<open>The heading update\<close>

definition yaw_H :: "('a :: {zero, uminus}) mat \<Rightarrow> 'a vec" where
  "yaw_H R = (\<lambda>i. if i = 0 then - R 2 0 else if i = 1 then - R 2 1 else if i = 2 then - R 2 2 else 0)"

definition yaw_joseph ::
  "('a :: {zero, one, plus, minus, uminus, times}) libm \<Rightarrow> 'a vec \<Rightarrow> 'a vec \<Rightarrow> 'a vec \<Rightarrow> 'a \<Rightarrow> 'a mat \<Rightarrow> 'a mat" where
  "yaw_joseph F dx K H R_noise P =
     (let IKH = (\<lambda>i j. (if i = j then 1 else 0) - K i * H j);
          G = m33_reset_jac F dx;
          K = (\<lambda>i. g_premul_rows3 G (\<lambda>i j. K i) i (0 :: nat));
          IKH = g_premul_rows3 G IKH;
          Pnew = mNN_mulT (mNN_mul IKH P) IKH
      in mNN_symmetrize F (\<lambda>i j. Pnew i j + R_noise * K i * K j))"

definition yaw_PHt :: "('a :: {zero, plus, times}) mat \<Rightarrow> 'a vec \<Rightarrow> 'a vec" where
  "yaw_PHt P H = (\<lambda>i. accum MEKF_N (\<lambda>k. P i k * H k) 0)"

definition yaw_S :: "('a :: {plus, times}) vec \<Rightarrow> 'a vec \<Rightarrow> 'a \<Rightarrow> 'a" where
  "yaw_S H PHt R_noise = accum MEKF_N (\<lambda>i. H i * PHt i) R_noise"

definition yaw_gain :: "('a :: inverse) vec \<Rightarrow> 'a \<Rightarrow> 'a vec" where
  "yaw_gain PHt S = (\<lambda>i. PHt i / S)"

definition scale_vec :: "('a :: times) vec \<Rightarrow> 'a \<Rightarrow> 'a vec" where
  "scale_vec K y = (\<lambda>i. K i * y)"

definition eskf_update_yaw ::
  "('a :: {zero, one, plus, minus, uminus, times, inverse, ord}) libm \<Rightarrow> 'a \<Rightarrow> 'a \<Rightarrow> 'a mekf \<Rightarrow> int \<times> 'a mekf" where
  "eskf_update_yaw F y R_noise f =
     (let H = yaw_H (q_to_R F (mf_q f));
          PHt = yaw_PHt (mf_P f) H;
          S = yaw_S H PHt R_noise
      in if S < lit F (1 / 10 ^ 12) then (-1, f)
         else let d2 = y * y / S;
                  f = nis_feed F Nis_mag (mf_nis_mag_alpha f) d2 1 f
              in if d2 > GROSS_REJECT_MULT F * YAW_CHI2_GATE F then (1, gate_health (mf_nis_mag_alpha f) 0 1 f)
                 else let w = (if d2 > YAW_CHI2_GATE F then fsqrt F (YAW_CHI2_GATE F / d2) else 1);
                          y = (if d2 > YAW_CHI2_GATE F then y * w else y);
                          f = gate_health (mf_nis_mag_alpha f) w 0 f;
                          K = yaw_gain PHt S;
                          dx = scale_vec K y
                      in (0, (eskf_inject F dx f)\<lparr>mf_P := yaw_joseph F dx K H R_noise (mf_P f)\<rparr>))"

section \<open>Tuning and initial state\<close>

text \<open>\<open>deg F\<close> and \<open>rad_deg F\<close> are the constants by which the code turns degrees to radians and back.\<close>

definition DEG :: "'a libm \<Rightarrow> 'a" where "DEG F = lit F (dconst (M_PI / 180))"
definition RAD :: "'a libm \<Rightarrow> 'a" where "RAD F = lit F (dconst (180 / M_PI))"

definition fsq :: "'a :: times \<Rightarrow> 'a" where "fsq x = x * x"

definition conv_threshold :: "'a libm \<Rightarrow> bool \<Rightarrow> 'a \<Rightarrow> 'a :: {times, ord}" where
  "conv_threshold F wave_enabled wave_sig2 =
     (let conv_deg = lit F (1 / 2);
          conv_deg =
            (if wave_enabled
             then let sg = fsqrt F wave_sig2;
                      sg = (if sg > lit F (1 / 2) then lit F (1 / 2) else sg);
                      floor_deg = lit F (30 / 100) * fasin F sg * RAD F
                  in if floor_deg > conv_deg then floor_deg else conv_deg
             else conv_deg)
      in lit F 3 * fsq (conv_deg * DEG F))"

definition mekf_derive_tuning ::
  "('a :: {zero, one, plus, minus, times, inverse, ord}) libm \<Rightarrow> 'a mekf_cfg \<Rightarrow> 'a mekf \<Rightarrow> 'a mekf" where
  "mekf_derive_tuning F cfg f =
     (let dt = mf_dt f;
          odr_hz = 1 / dt;
          mag_odr_hz = mf_mag_odr_hz f;
          Ng = mc_gyro_noise cfg; Nb = mc_gyro_bias cfg; Na = mc_accel_noise cfg; Nm = mc_mag_noise cfg;
          wsig = mc_wave_accel cfg / G_MS2 F;
          dsig = mc_mag_dip_sigma_deg cfg * DEG F;
          sk = mc_accel_skip_thresh cfg;
          mr = mc_mag_reject_gauss cfg;
          gate_alpha = 1 / (GATE_TAU_S F * odr_hz)
      in f\<lparr>mf_Qg := Ng * Ng * dt, mf_Qb := Nb * Nb * dt,
           mf_Ra := Na / G_MS2 F * (Na / G_MS2 F) * odr_hz, mf_Rm := Nm * Nm * mag_odr_hz,
           mf_wave_tau := mc_wave_accel_tau_s cfg, mf_wave_sig2 := wsig * wsig, mf_wave_enabled := mc_wave_on cfg,
           mf_dip_sig2 := (if dsig > 0 then dsig * dsig else 0),
           mf_accel_skip_lo := 1 - sk, mf_accel_skip_hi := 1 + sk, mf_mag_reject_sq := mr * mr,
           mf_mag_yaw_only := mc_mag_yaw_only cfg, mf_mag_fuse_uncal := mc_mag_fuse_uncal cfg,
           mf_mag_uncal_reject := mc_mag_uncal_reject_frac cfg,
           mf_mref_alpha := (if mag_odr_hz > 0 \<and> MREF_TAU_S F < lit F (10 ^ 9) then 1 / (MREF_TAU_S F * mag_odr_hz) else 0),
           mf_gate_alpha := gate_alpha,
           mf_nis_mag_alpha := (if mag_odr_hz > 0 then 1 / (GATE_TAU_S F * mag_odr_hz) else gate_alpha),
           mf_conv_thresh := conv_threshold F (mc_wave_on cfg) (wsig * wsig)\<rparr>)"

definition initial_P :: "('a :: {zero, times}) libm \<Rightarrow> bool \<Rightarrow> 'a \<Rightarrow> 'a mat" where
  "initial_P F wave_enabled wave_sig2 =
     (\<lambda>i j. if i \<noteq> j then 0
            else if i < 3 then fsq (lit F (175 / 1000))
            else if i < 6 then fsq (lit F (1 / 1000))
            else if wave_enabled then wave_sig2 else 0)"

definition mekf_reset_state :: "('a :: {zero, one, times}) libm \<Rightarrow> 'a mekf \<Rightarrow> 'a mekf" where
  "mekf_reset_state F f =
     f\<lparr>mf_q := vec4 1 0 0 0, mf_bias := mf_bias_init f, mf_wave_acc := vec3 0 0 0,
       mf_P := initial_P F (mf_wave_enabled f) (mf_wave_sig2 f)\<rparr>"

text \<open>The state after \<open>memset\<close>.\<close>

definition mekf_zero :: "('a :: zero) mekf" where
  "mekf_zero = \<lparr>mf_q = (\<lambda>_. 0), mf_bias = (\<lambda>_. 0), mf_bias_init = (\<lambda>_. 0), mf_wave_acc = (\<lambda>_. 0), mf_P = (\<lambda>_ _. 0),
     mf_m_ref = (\<lambda>_. 0), mf_m_ref_valid = False, mf_mref_sum = (\<lambda>_. 0), mf_mref_n = 0, mf_initialized = False,
     mf_converged = False, mf_state_reset = False, mf_reset_count = 0, mf_dt = 0, mf_mag_odr_hz = 0, mf_Qg = 0, mf_Qb = 0,
     mf_Ra = 0, mf_Rm = 0, mf_accel_skip_lo = 0, mf_accel_skip_hi = 0, mf_Ra_scale = 0, mf_mag_reject_sq = 0,
     mf_conv_thresh = 0, mf_mag_yaw_only = False, mf_mag_fuse_uncal = False, mf_mag_uncal_reject = 0,
     mf_mag_uncal_withdrawn = False, mf_mag_uncal_limit = 0, mf_mag_uncal_seen = False, mf_mref_alpha = 0,
     mf_g_body = (\<lambda>_. 0), mf_g_body_valid = False, mf_acc_quiet_ema = 0, mf_speed_mps = 0, mf_wave_tau = 0,
     mf_wave_sig2 = 0, mf_wave_enabled = False, mf_dip_sig2 = 0, mf_mag_anom_ema = 0, mf_mag_resid_ema = 0,
     mf_mag_accepted = 0, mf_innov_weight_ema = 0, mf_innov_reject_ema = 0, mf_gate_alpha = 0, mf_health_dt_accum = 0,
     mf_nis_accel_ema = 0, mf_nis_mag_ema = 0, mf_nis_mag_alpha = 0\<rparr>"

definition mekf_init ::
  "('a :: {zero, one, plus, minus, times, inverse, ord}) libm \<Rightarrow> 'a mekf_cfg \<Rightarrow> 'a \<Rightarrow> 'a \<Rightarrow> 'a vec option \<Rightarrow> 'a mekf" where
  "mekf_init F cfg odr_hz mag_odr_hz gyro_bias_init =
     (let f = mekf_zero\<lparr>mf_dt := 1 / odr_hz, mf_mag_odr_hz := mag_odr_hz\<rparr>;
          f = mekf_derive_tuning F cfg f;
          f = (case gyro_bias_init of Some b \<Rightarrow> f\<lparr>mf_bias_init := b\<rparr> | None \<Rightarrow> f);
          f = mekf_reset_state F f
      in f\<lparr>mf_Ra_scale := 1, mf_acc_quiet_ema := 1, mf_innov_weight_ema := 1, mf_innov_reject_ema := 0,
           mf_nis_accel_ema := 1, mf_nis_mag_ema := 1\<rparr>)"

definition mekf_set_mref_invariants ::
  "('a :: {zero, plus, times, inverse, ord}) libm \<Rightarrow> 'a \<Rightarrow> 'a \<Rightarrow> 'a mekf \<Rightarrow> 'a mekf" where
  "mekf_set_mref_invariants F h_gauss z_gauss f =
     (if \<not> mf_m_ref_valid f \<or> h_gauss \<le> 0 then f
      else let mh = fsqrt F (mf_m_ref f 0 * mf_m_ref f 0 + mf_m_ref f 1 * mf_m_ref f 1)
           in if mh < lit F (1 / 1000000) then f
              else let s = h_gauss / mh in f\<lparr>mf_m_ref := vec3 (mf_m_ref f 0 * s) (mf_m_ref f 1 * s) z_gauss\<rparr>)"

section \<open>Alignment\<close>

definition matvec :: "('a :: {plus, times}) mat \<Rightarrow> 'a vec \<Rightarrow> 'a vec" where
  "matvec R v = (\<lambda>i. R i 0 * v 0 + R i 1 * v 1 + R i 2 * v 2)"

text \<open>The tilt quaternion of an accelerometer reading with the magnitude \<open>an\<close>.\<close>

definition align_tilt ::
  "('a :: {zero, one, plus, uminus, times, inverse, ord}) libm \<Rightarrow> 'a \<Rightarrow> 'a vec \<Rightarrow> 'a vec" where
  "align_tilt F an accel =
     (let gx = - accel 0 / an; gy = - accel 1 / an; gz = - accel 2 / an;
          roll = fatan2 F gy gz;
          pitch = fatan2 F (- gx) (fsqrt F (gy * gy + gz * gz));
          h = lit F (1 / 2);
          cr = fcos F (roll * h); sr = fsin F (roll * h); cp = fcos F (pitch * h); sp = fsin F (pitch * h)
      in q_normalize F (vec4 (cp * cr) (cp * sr) (sp * cr) (- sp * sr)))"

definition align_yaw :: "('a :: {zero, one, plus, minus, uminus, times}) libm \<Rightarrow> 'a vec \<Rightarrow> 'a vec option \<Rightarrow> 'a" where
  "align_yaw F qtilt mag =
     (case mag of
        None \<Rightarrow> 0
      | Some mag \<Rightarrow> let m = matvec (q_to_R F qtilt) mag in fatan2 F (- m 1) (m 0))"

definition mekf_align ::
  "('a :: {zero, one, plus, minus, uminus, times, inverse, ord}) libm \<Rightarrow> 'a vec \<Rightarrow> 'a vec option \<Rightarrow> 'a mekf \<Rightarrow> 'a mekf" where
  "mekf_align F accel mag f =
     (let an = v3_norm F accel
      in if an < lit F (1 / 2) * G_MS2 F then f
         else let qtilt = align_tilt F an accel;
                  yaw = align_yaw F qtilt mag;
                  h = lit F (1 / 2);
                  q_yaw = vec4 (fcos F (yaw * h)) 0 0 (fsin F (yaw * h));
                  f = f\<lparr>mf_q := q_normalize F (q_mul q_yaw qtilt)\<rparr>;
                  f = (case mag of
                         Some mag \<Rightarrow>
                           if \<not> mf_m_ref_valid f
                           then f\<lparr>mf_m_ref := (\<lambda>i. matvec (q_to_R F (mf_q f)) mag i * lit F (1 / 100)), mf_m_ref_valid := True\<rparr>
                           else f
                       | None \<Rightarrow> f)
              in f\<lparr>mf_initialized := True\<rparr>)"

section \<open>The prediction\<close>

text \<open>The transition over \<open>dt\<close> at the angular rate \<open>w\<close>, with the factor \<open>phi_w\<close> of the wave state.\<close>

definition transition :: "('a :: {zero, one, uminus, times}) vec \<Rightarrow> 'a \<Rightarrow> 'a \<Rightarrow> 'a mat" where
  "transition w dt phi_w =
     (\<lambda>i j. if i = 0 \<and> j = 1 then w 2 * dt else if i = 0 \<and> j = 2 then - w 1 * dt
            else if i = 1 \<and> j = 0 then - w 2 * dt else if i = 1 \<and> j = 2 then w 0 * dt
            else if i = 2 \<and> j = 0 then w 1 * dt else if i = 2 \<and> j = 1 then - w 0 * dt
            else if i < 3 \<and> j = i + 3 then - dt
            else if i \<noteq> j then 0
            else if i < 6 then 1 else phi_w)"

definition wave_step :: "('a :: {zero, one, uminus, times, inverse}) libm \<Rightarrow> 'a \<Rightarrow> 'a mekf \<Rightarrow> 'a \<times> 'a" where
  "wave_step F dt f =
     (if mf_wave_enabled f
      then (fexp F (- dt / mf_wave_tau f), - mf_wave_sig2 f * fexpm1 F (- lit F 2 * dt / mf_wave_tau f))
      else (1, 0))"

definition predict_P ::
  "('a :: {zero, one, plus, uminus, times, inverse}) libm \<Rightarrow> 'a vec \<Rightarrow> 'a \<Rightarrow> 'a \<Rightarrow> 'a \<Rightarrow> 'a mekf \<Rightarrow> 'a mat" where
  "predict_P F w dt phi_w qw f =
     (let Phi = transition w dt phi_w;
          Pnew = mNN_mulT (mNN_mul Phi (mf_P f)) Phi;
          qscale = dt / mf_dt f
      in mNN_symmetrize F (\<lambda>i j.
           if i \<noteq> j then Pnew i j
           else if i < 3 then Pnew i j + mf_Qg f * qscale
           else if i < 6 then Pnew i j + mf_Qb f * qscale
           else if mf_wave_enabled f then Pnew i j + qw else Pnew i j))"

definition mekf_predict ::
  "('a :: {zero, one, plus, minus, uminus, times, inverse, ord}) libm \<Rightarrow> 'a vec \<Rightarrow> 'a \<Rightarrow> 'a mekf \<Rightarrow> 'a mekf" where
  "mekf_predict F gyro dt_s f =
     (if \<not> mf_initialized f then f
      else let dt = (if dt_s > 0 then dt_s else mf_dt f);
               w = vec3 (gyro 0 - mf_bias f 0) (gyro 1 - mf_bias f 1) (gyro 2 - mf_bias f 2);
               dq = q_from_rotvec F (vec3 (w 0 * dt) (w 1 * dt) (w 2 * dt));
               (phi_w, qw) = wave_step F dt f;
               P = predict_P F w dt phi_w qw f;
               trace = P 0 0 + P 1 1 + P 2 2
           in f\<lparr>mf_q := q_normalize F (q_mul (mf_q f) dq),
                mf_wave_acc := (if mf_wave_enabled f then (\<lambda>i. mf_wave_acc f i * phi_w) else mf_wave_acc f),
                mf_P := P, mf_converged := trace < mf_conv_thresh f\<rparr>)"

section \<open>The accelerometer\<close>

text \<open>The specific force without the centripetal part, its magnitude in \<open>g\<close>, and, when it is usable, the measured and
  the predicted direction of gravity.\<close>

definition accel_geometry ::
  "('a :: {zero, one, plus, minus, uminus, times, inverse, ord}) libm \<Rightarrow> 'a vec \<Rightarrow> 'a vec \<Rightarrow> 'a mekf \<Rightarrow> 'a \<times> ('a vec \<times> 'a vec) option" where
  "accel_geometry F accel gyro f =
     (let acc = (if mf_speed_mps f > lit F (1 / 10)
                 then let wy = gyro 1 - mf_bias f 1; wz = gyro 2 - mf_bias f 2
                      in vec3 (accel 0) (accel 1 - wz * mf_speed_mps f) (accel 2 + wy * mf_speed_mps f)
                 else accel);
          an = v3_norm F acc;
          ag = an / G_MS2 F
      in (ag, if an < lit F (1 / 1000000) then None
              else if ag < mf_accel_skip_lo f \<or> ag > mf_accel_skip_hi f then None
              else let R = q_to_R F (mf_q f)
                   in Some (vec3 (- acc 0 / an) (- acc 1 / an) (- acc 2 / an), vec3 (R 2 0) (R 2 1) (R 2 2))))"

definition mekf_ema_alpha :: "('a :: {zero, one, uminus, inverse, ord}) libm \<Rightarrow> 'a \<Rightarrow> 'a \<Rightarrow> 'a" where
  "mekf_ema_alpha F dt_s tau_s =
     (if \<not> dt_s > 0 \<or> \<not> tau_s > 0 then 0
      else let a = - fexpm1 F (- dt_s / tau_s) in if a > 1 then 1 else a)"

definition mekf_update_accel ::
  "('a :: {zero, one, plus, minus, uminus, times, inverse, ord, abs}) libm \<Rightarrow> 'a vec \<Rightarrow> 'a vec \<Rightarrow> 'a mekf \<Rightarrow> 'a mekf" where
  "mekf_update_accel F accel gyro f =
     (if \<not> mf_initialized f then f
      else let (ag, zh) = accel_geometry F accel gyro f;
               dev = ag - 1;
               f = f\<lparr>mf_acc_quiet_ema := mf_acc_quiet_ema f + (dev * dev - mf_acc_quiet_ema f) * (mf_dt f / lit F 2),
                     mf_health_dt_accum := mf_health_dt_accum f + mf_dt f\<rparr>
           in case zh of
                None \<Rightarrow> f
              | Some (z, h) \<Rightarrow>
                  let alpha_a = mekf_ema_alpha F (mf_health_dt_accum f) (GATE_TAU_S F);
                      R_eff = mf_Ra f * mf_Ra_scale f;
                      f = f\<lparr>mf_health_dt_accum := 0, mf_g_body := z, mf_g_body_valid := True\<rparr>
                  in snd (eskf_update F h z R_eff (ACCEL_CHI2_GATE F) (Some Nis_accel) alpha_a
                       (if mf_wave_enabled f then Some (mf_wave_acc f) else None) None (Some h) f))"

text \<open>The probe for the offline tool adds up the distance in double: \<open>wide\<close> and \<open>narrow\<close> convert.\<close>

definition mekf_accel_probe ::
  "('a :: {zero, one, plus, minus, uminus, times, inverse, ord, abs}) libm \<Rightarrow> ('a \<Rightarrow> 'd :: {zero, plus, times}) \<Rightarrow> ('d \<Rightarrow> 'a) \<Rightarrow> 'a vec \<Rightarrow>
   'a vec \<Rightarrow> 'a mekf \<Rightarrow> ('a vec \<times> 'a) option" where
  "mekf_accel_probe F wide narrow accel gyro f =
     (if \<not> mf_initialized f then None
      else case snd (accel_geometry F accel gyro f) of
        None \<Rightarrow> None
      | Some (z, h) \<Rightarrow>
          let (zhat, H) = eskf_jacobian F h (if mf_wave_enabled f then Some (mf_wave_acc f) else None);
              innov = (\<lambda>i. z i - zhat i);
              S = dir_S H (dir_PHt (mf_P f) H) (mf_Ra f * mf_Ra_scale f) None
          in case m33_inv F S of
               None \<Rightarrow> None
             | Some Sinv \<Rightarrow>
                 Some (innov, narrow (fold (\<lambda>i s. accum 3 (\<lambda>j. wide (innov i) * wide (Sinv i j) * wide (innov j)) s) [0..<3] 0)))"

section \<open>The magnetometer\<close>

record 'a field =
  fi_field :: "'a vec"
  fi_valid :: bool
  fi_calibrated :: bool

text \<open>A heading reference for a filter that was aligned without one.\<close>

definition mref_acquire ::
  "('a :: {zero, one, plus, minus, uminus, times, inverse, ord}) libm \<Rightarrow> 'a field \<Rightarrow> 'a mekf \<Rightarrow> 'a mekf" where
  "mref_acquire F m f =
     (let R = q_to_R F (mf_q f);
          f = f\<lparr>mf_mref_sum := (\<lambda>i. mf_mref_sum f i + matvec R (fi_field m) i * lit F (1 / 100)), mf_mref_n := mf_mref_n f + 1\<rparr>;
          cnt = lit F (of_nat (unat (mf_mref_n f)))
      in if cnt < mf_mag_odr_hz f * MREF_ACQUIRE_S F then f
         else let mn = mf_mref_sum f 0 / cnt; me = mf_mref_sum f 1 / cnt; md = mf_mref_sum f 2 / cnt;
                  f = f\<lparr>mf_mref_sum := vec3 0 0 0, mf_mref_n := 0\<rparr>;
                  mh = fsqrt F (mn * mn + me * me)
              in if \<not> ffinite F mh \<or> \<not> ffinite F md \<or> mh < lit F (1 / 1000000) then f
                 else let half = - lit F (1 / 2) * fatan2 F me mn;
                          qz = vec4 (fcos F half) 0 0 (fsin F half)
                      in f\<lparr>mf_q := q_normalize F (q_mul qz (mf_q f)), mf_m_ref := vec3 mh 0 md, mf_m_ref_valid := True\<rparr>)"

text \<open>The two loops that bring an angle between \<open>-M_PI\<close> and \<open>M_PI\<close>.\<close>

definition wrap_pi :: "('a :: {plus, minus, uminus, times, ord}) libm \<Rightarrow> 'a \<Rightarrow> 'a" where
  "wrap_pi F y =
     (let p = lit F M_PI; p2 = lit F 2 * lit F M_PI;
          y = while (\<lambda>y. y > p) (\<lambda>y. y - p2) y
      in while (\<lambda>y. y < - p) (\<lambda>y. y + p2) y)"

definition horizontal :: "('a :: {plus, times}) libm \<Rightarrow> 'a vec \<Rightarrow> 'a" where
  "horizontal F v = fsqrt F (v 0 * v 0 + v 1 * v 1)"

definition bearing_diff :: "('a :: {plus, minus, uminus, times, ord}) libm \<Rightarrow> 'a vec \<Rightarrow> 'a vec \<Rightarrow> 'a" where
  "bearing_diff F m_ned m_ref = wrap_pi F (fatan2 F (m_ned 1) (m_ned 0) - fatan2 F (m_ref 1) (m_ref 0))"

text \<open>The health of the compass, recorded of every sample that has a direction.\<close>

definition mag_diagnose ::
  "('a :: {one, plus, minus, uminus, times, inverse, ord, abs}) libm \<Rightarrow> 'a \<Rightarrow> 'a \<Rightarrow> 'a vec \<Rightarrow> 'a mekf \<Rightarrow> 'a mekf" where
  "mag_diagnose F z_mag h_mag m_ned f =
     (let alpha = 1 / lit F 3000;
          anom = \<bar>z_mag - h_mag\<bar> / h_mag;
          f = f\<lparr>mf_mag_anom_ema := mf_mag_anom_ema f + alpha * (anom - mf_mag_anom_ema f)\<rparr>
      in if horizontal F (mf_m_ref f) > lit F (1 / 5) * h_mag \<and> horizontal F m_ned > lit F (1 / 5) * h_mag
         then f\<lparr>mf_mag_resid_ema := mf_mag_resid_ema f + alpha * (\<bar>bearing_diff F m_ned (mf_m_ref f)\<bar> - mf_mag_resid_ema f)\<rparr>
         else f)"

text \<open>The slow re-estimation of the reference: its magnitude and dip, never its horizontal direction.\<close>

definition mref_learn ::
  "('a :: {one, plus, minus, uminus, times, inverse, ord}) libm \<Rightarrow> 'a vec \<Rightarrow> 'a \<Rightarrow> 'a mekf \<Rightarrow> 'a mekf" where
  "mref_learn F m z_mag f =
     (let sin_dip = (m 0 * mf_g_body f 0 + m 1 * mf_g_body f 1 + m 2 * mf_g_body f 2) / z_mag;
          sin_dip = (if sin_dip > 1 then 1 else sin_dip);
          sin_dip = (if sin_dip < - 1 then - 1 else sin_dip);
          cos_dip = fsqrt F (1 - sin_dip * sin_dip);
          tgt_v = z_mag * sin_dip; tgt_h = z_mag * cos_dip;
          r = mf_m_ref f;
          mh_ref = horizontal F r;
          scale = 1 + mf_mref_alpha f * (tgt_h / mh_ref - 1);
          r' = (if mh_ref > lit F (1 / 1000000) then vec3 (r 0 * scale) (r 1 * scale) (r 2) else r)
      in f\<lparr>mf_m_ref := vec3 (r' 0) (r' 1) (r' 2 + mf_mref_alpha f * (tgt_v - r' 2))\<rparr>)"

text \<open>The backstop for an uncalibrated field: is it withdrawn now?\<close>

definition uncal_withdraw ::
  "('a :: {times, inverse, ord, zero}) libm \<Rightarrow> bool \<Rightarrow> 'a \<Rightarrow> 'a \<Rightarrow> 'a mekf \<Rightarrow> bool \<times> 'a mekf" where
  "uncal_withdraw F uncal mh_ref h_mag f =
     (if uncal \<and> mf_mag_uncal_reject f > 0
      then let limit = mf_mag_uncal_reject f * (mh_ref / h_mag);
               f = f\<lparr>mf_mag_uncal_limit := limit\<rparr>;
               w = mf_mag_uncal_withdrawn f;
               w' = (if \<not> w \<and> mf_mag_anom_ema f > limit then True
                     else if w \<and> mf_mag_anom_ema f < lit F (4 / 5) * limit then False else w)
           in (w', f\<lparr>mf_mag_uncal_withdrawn := w'\<rparr>)
      else (False, f))"

text \<open>The noise of a vector measurement whose reference has an uncertain dip.\<close>

definition dip_noise ::
  "('a :: {zero, plus, minus, uminus, times, inverse, ord}) libm \<Rightarrow> 'a mat \<Rightarrow> 'a vec \<Rightarrow> 'a \<Rightarrow> 'a \<Rightarrow> 'a \<Rightarrow> 'a mekf \<Rightarrow> 'a mat option" where
  "dip_noise F R h mh_ref h_mag Rm_n f =
     (if mf_dip_sig2 f > 0 \<and> mh_ref > lit F (1 / 5) * h_mag
      then let a = m33_Atx R (vec3 (mf_m_ref f 1 / mh_ref) (- mf_m_ref f 0 / mh_ref) 0);
               u = vec3 (a 1 * h 2 - a 2 * h 1) (a 2 * h 0 - a 0 * h 2) (a 0 * h 1 - a 1 * h 0);
               un = v3_norm F u
           in if un > lit F (1 / 1000000)
              then let u = (\<lambda>i. u i / un)
                   in Some (\<lambda>i j. (if i = j then Rm_n else 0) + mf_dip_sig2 f * u i * u j)
              else None
      else None)"

definition count_accepted :: "int \<times> 'a mekf \<Rightarrow> 'a mekf" where
  "count_accepted r = (case r of (rc, f) \<Rightarrow> if rc = 0 then f\<lparr>mf_mag_accepted := mf_mag_accepted f + 1\<rparr> else f)"

text \<open>What happens once the sample has passed the gates on magnitude and direction.\<close>

definition mag_fuse ::
  "('a :: {zero, one, plus, minus, uminus, times, inverse, ord, abs}) libm \<Rightarrow> bool \<Rightarrow> 'a mat \<Rightarrow> 'a vec \<Rightarrow> 'a vec \<Rightarrow> 'a vec \<Rightarrow>
   'a \<Rightarrow> 'a \<Rightarrow> 'a mekf \<Rightarrow> 'a mekf" where
  "mag_fuse F uncal R m_ned h z h_mag res_sq f =
     (let Rm_n = mf_Rm f / (h_mag * h_mag);
          mh_ref = horizontal F (mf_m_ref f);
          mh_mea = horizontal F m_ned;
          hdg_ok = (mh_ref \<ge> lit F (1 / 5) * h_mag \<and> mh_mea \<ge> lit F (1 / 5) * h_mag);
          y = (if hdg_ok then bearing_diff F m_ned (mf_m_ref f) else 0)
      in if \<not> uncal \<and> mf_converged f \<and>
            (if mf_mag_yaw_only f then lit F 2 * mh_ref * mh_ref * (1 - fcos F y) > mf_mag_reject_sq f
             else res_sq > mf_mag_reject_sq f / (h_mag * h_mag))
         then f
         else if mf_mag_yaw_only f \<or> uncal
         then if \<not> hdg_ok then f
              else case uncal_withdraw F uncal mh_ref h_mag f of
                (True, f) \<Rightarrow> f
              | (False, f) \<Rightarrow> count_accepted (eskf_update_yaw F y (mf_Rm f / (mh_ref * mh_ref)) f)
         else count_accepted (eskf_update F h z Rm_n (ACCEL_CHI2_GATE F) (Some Nis_mag) (mf_nis_mag_alpha f) None
                (dip_noise F R h mh_ref h_mag Rm_n f) None f))"

definition mekf_update_mag ::
  "('a :: {zero, one, plus, minus, uminus, times, inverse, ord, abs}) libm \<Rightarrow> 'a field \<Rightarrow> 'a mekf \<Rightarrow> 'a mekf" where
  "mekf_update_mag F m f =
     (if \<not> mf_initialized f \<or> \<not> fi_valid m then f
      else if \<not> mf_m_ref_valid f then mref_acquire F m f
      else let uncal = (\<not> fi_calibrated m)
           in if uncal \<and> \<not> mf_mag_fuse_uncal f then f
              else let f = (if uncal then f\<lparr>mf_mag_uncal_seen := True\<rparr> else f);
                       b = vec3 (fi_field m 0 * lit F (1 / 100)) (fi_field m 1 * lit F (1 / 100)) (fi_field m 2 * lit F (1 / 100));
                       R = q_to_R F (mf_q f);
                       h_raw = m33_Atx R (mf_m_ref f);
                       h_mag = v3_norm F h_raw
                   in if h_mag < lit F (1 / 1000000) then f
                      else let h = vec3 (h_raw 0 / h_mag) (h_raw 1 / h_mag) (h_raw 2 / h_mag);
                               z_mag = v3_norm F b
                           in if z_mag < lit F (1 / 1000000) then f
                              else let z = vec3 (b 0 / z_mag) (b 1 / z_mag) (b 2 / z_mag);
                                       innov = vec3 (z 0 - h 0) (z 1 - h 1) (z 2 - h 2);
                                       res_sq = v3_dot innov innov;
                                       m_ned = matvec R b;
                                       f = mag_diagnose F z_mag h_mag m_ned f;
                                       mag_ratio = z_mag / h_mag
                                   in if mag_ratio < lit F (1 / 2) \<or> mag_ratio > lit F 2 then f
                                      else if res_sq > lit F 4 then f
                                      else let f = (if \<not> uncal \<and> mf_mref_alpha f > 0 \<and> mf_g_body_valid f \<and> res_sq < lit F (1 / 10) \<and>
                                                        mf_acc_quiet_ema f < lit F (2 / 10000)
                                                    then mref_learn F b z_mag f else f)
                                           in mag_fuse F uncal R m_ned h z h_mag res_sq f)"

section \<open>Reconfiguration, the check for finite numbers, publication\<close>

definition mekf_reconfigure ::
  "('a :: {zero, one, plus, minus, times, inverse, ord}) libm \<Rightarrow> 'a mekf_cfg \<Rightarrow> 'a mekf \<Rightarrow> 'a mekf" where
  "mekf_reconfigure F cfg f =
     (let was_enabled = mf_wave_enabled f;
          f = mekf_derive_tuning F cfg f
      in if mf_wave_enabled f \<and> \<not> was_enabled
         then f\<lparr>mf_P := (\<lambda>i j. if i = j \<and> 6 \<le> i then mf_wave_sig2 f else mf_P f i j)\<rparr>
         else if \<not> mf_wave_enabled f \<and> was_enabled
         then f\<lparr>mf_P := (\<lambda>i j. if 6 \<le> i \<or> 6 \<le> j then 0 else mf_P f i j), mf_wave_acc := vec3 0 0 0\<rparr>
         else f)"

definition mekf_ok :: "'a libm \<Rightarrow> 'a mekf \<Rightarrow> bool" where
  "mekf_ok F f \<longleftrightarrow> list_all (\<lambda>i. ffinite F (mf_q f i)) [0..<4] \<and> list_all (\<lambda>i. ffinite F (mf_bias f i)) [0..<3] \<and>
     list_all (\<lambda>i. ffinite F (mf_wave_acc f i)) [0..<3] \<and> list_all (\<lambda>i. ffinite F (mf_P f i i)) [0..<MEKF_N]"

definition mekf_sanitize :: "('a :: {zero, one, times}) libm \<Rightarrow> 'a mekf \<Rightarrow> bool \<times> 'a mekf" where
  "mekf_sanitize F f =
     (if mekf_ok F f then (False, f)
      else let f = f\<lparr>mf_reset_count := (if mf_reset_count f < 0xFFFFFFFF then mf_reset_count f + 1 else mf_reset_count f)\<rparr>;
               f = mekf_reset_state F f
           in (True, f\<lparr>mf_initialized := False, mf_converged := False, mf_m_ref_valid := False, mf_mref_n := 0,
                       mf_mref_sum := vec3 0 0 0, mf_state_reset := True\<rparr>))"

record 'a fused =
  fd_q :: "'a vec"
  fd_bias_gyro :: "'a vec"
  fd_cov :: "'a vec"
  fd_bias_gyro_var :: "'a vec"
  fd_quiescence :: 'a
  fd_mag_anomaly :: 'a
  fd_mag_residual :: 'a
  fd_innov_weight :: 'a
  fd_innov_reject :: 'a
  fd_nis_accel :: 'a
  fd_nis_mag :: 'a
  fd_pitch :: 'a
  fd_roll :: 'a
  fd_yaw :: 'a
  fd_heading_deg :: 'a
  fd_flags :: u16

definition mekf_get_state ::
  "('a :: {zero, one, plus, minus, uminus, times, ord}) libm \<Rightarrow> 'a mekf \<Rightarrow> u16 \<Rightarrow> 'a fused" where
  "mekf_get_state F f flags_in =
     (let R = q_to_R F (mf_q f);
          yaw = fatan2 F (R 1 0) (R 0 0);
          h_deg = yaw * RAD F;
          h_deg = (if h_deg < 0 then h_deg + lit F 360 else h_deg);
          flags = flags_in;
          flags = (if mf_converged f then flags OR FLAG_FUSION_CONVERGED else flags);
          flags = (if \<not> mf_initialized f then flags OR FLAG_STARTUP else flags);
          flags = (if mf_state_reset f \<and> \<not> mf_converged f then flags OR FLAG_STATE_RESET else flags)
      in \<lparr>fd_q = mf_q f, fd_bias_gyro = mf_bias f, fd_cov = (\<lambda>k. mf_P f (k div 3) (k mod 3)),
          fd_bias_gyro_var = vec3 (mf_P f 3 3) (mf_P f 4 4) (mf_P f 5 5), fd_quiescence = mf_acc_quiet_ema f,
          fd_mag_anomaly = mf_mag_anom_ema f, fd_mag_residual = mf_mag_resid_ema f, fd_innov_weight = mf_innov_weight_ema f,
          fd_innov_reject = mf_innov_reject_ema f, fd_nis_accel = mf_nis_accel_ema f, fd_nis_mag = mf_nis_mag_ema f,
          fd_pitch = fasin F (- R 2 0), fd_roll = fatan2 F (R 2 1) (R 2 2), fd_yaw = yaw, fd_heading_deg = h_deg,
          fd_flags = flags\<rparr>)"

section \<open>What the fusion thread does to the filter\<close>

text \<open>The widened gate while the engine runs; \<open>sk\<close> is the threshold that applies.\<close>

definition fusion_engine :: "('a :: {one, plus, minus}) libm \<Rightarrow> bool \<Rightarrow> 'a \<Rightarrow> 'a mekf \<Rightarrow> 'a mekf" where
  "fusion_engine F engine_on sk f =
     f\<lparr>mf_accel_skip_lo := 1 - sk, mf_accel_skip_hi := 1 + sk, mf_Ra_scale := (if engine_on then lit F 4 else 1)\<rparr>"

definition fusion_speed :: "'a option \<Rightarrow> 'a mekf \<Rightarrow> ('a :: zero) mekf" where
  "fusion_speed v f = f\<lparr>mf_speed_mps := (case v of Some v \<Rightarrow> v | None \<Rightarrow> 0)\<rparr>"

datatype 'a filter_op =
    Op_align "'a vec" "'a vec option"
  | Op_predict "'a vec" 'a
  | Op_accel "'a vec" "'a vec"
  | Op_mag "'a field"
  | Op_mref 'a 'a
  | Op_reconfigure "'a mekf_cfg"
  | Op_sanitize
  | Op_engine bool 'a
  | Op_speed "'a option"

fun filter_step ::
  "('a :: {zero, one, plus, minus, uminus, times, inverse, ord, abs}) libm \<Rightarrow> 'a filter_op \<Rightarrow> 'a mekf \<Rightarrow> 'a mekf" where
  "filter_step F (Op_align accel mag) f = mekf_align F accel mag f"
| "filter_step F (Op_predict gyro dt) f = mekf_predict F gyro dt f"
| "filter_step F (Op_accel accel gyro) f = mekf_update_accel F accel gyro f"
| "filter_step F (Op_mag m) f = mekf_update_mag F m f"
| "filter_step F (Op_mref h z) f = mekf_set_mref_invariants F h z f"
| "filter_step F (Op_reconfigure cfg) f = mekf_reconfigure F cfg f"
| "filter_step F Op_sanitize f = snd (mekf_sanitize F f)"
| "filter_step F (Op_engine engine_on sk) f = fusion_engine F engine_on sk f"
| "filter_step F (Op_speed v) f = fusion_speed v f"

definition filter_run ::
  "('a :: {zero, one, plus, minus, uminus, times, inverse, ord, abs}) libm \<Rightarrow> 'a filter_op list \<Rightarrow> 'a mekf \<Rightarrow> 'a mekf" where
  "filter_run F ops f = fold (filter_step F) ops f"

end
