(* ===== verification/MekfBase.thy ===== *)
theory MekfBase
  imports Mekf
begin

text \<open>
  What the filter's formulas keep. The covariance stays symmetric in any arithmetic, and over the real numbers it stays
  positive semidefinite and the attitude a unit quaternion, whatever is measured; a gravity correction leaves the heading
  alone; the wave state is inert when it is switched off.
\<close>

section \<open>Quadratic forms\<close>

definition quad :: "real mat \<Rightarrow> real vec \<Rightarrow> real" where
  "quad P x = (\<Sum>i<MEKF_N. x i * (\<Sum>j<MEKF_N. P i j * x j))"

definition psd :: "real mat \<Rightarrow> bool" where
  "psd P \<longleftrightarrow> (\<forall>x. 0 \<le> quad P x)"

definition pullback :: "real mat \<Rightarrow> real vec \<Rightarrow> real vec" where
  "pullback A x = (\<lambda>k. \<Sum>i<MEKF_N. x i * A i k)"

lemma quad_mul: "quad (mNN_mulT (mNN_mul A P) A) x = quad P (pullback A x)"
proof -
  let ?y = "pullback A x"
  have 1: "(\<Sum>j<MEKF_N. mNN_mulT M A i j * x j) = (\<Sum>l<MEKF_N. M i l * ?y l)" for M i
  proof -
    have "(\<Sum>j<MEKF_N. mNN_mulT M A i j * x j) = (\<Sum>j<MEKF_N. \<Sum>l<MEKF_N. M i l * (x j * A j l))"
      by (simp add: mNN_mulT_def sum_distrib_right sum_distrib_left mult_ac)
    also have "\<dots> = (\<Sum>l<MEKF_N. \<Sum>j<MEKF_N. M i l * (x j * A j l))" by (rule sum.swap)
    finally show ?thesis by (simp add: pullback_def sum_distrib_left)
  qed
  have 2: "(\<Sum>l<MEKF_N. mNN_mul A P i l * ?y l) = (\<Sum>k<MEKF_N. A i k * (\<Sum>l<MEKF_N. P k l * ?y l))" for i
  proof -
    have "(\<Sum>l<MEKF_N. mNN_mul A P i l * ?y l) = (\<Sum>l<MEKF_N. \<Sum>k<MEKF_N. A i k * (P k l * ?y l))"
      by (simp add: mNN_mul_def sum_distrib_right sum_distrib_left mult_ac)
    also have "\<dots> = (\<Sum>k<MEKF_N. \<Sum>l<MEKF_N. A i k * (P k l * ?y l))" by (rule sum.swap)
    finally show ?thesis by (simp add: sum_distrib_left)
  qed
  have "quad (mNN_mulT (mNN_mul A P) A) x = (\<Sum>i<MEKF_N. \<Sum>k<MEKF_N. x i * A i k * (\<Sum>l<MEKF_N. P k l * ?y l))"
    by (simp add: quad_def 1 2 sum_distrib_left mult.assoc)
  also have "\<dots> = (\<Sum>k<MEKF_N. \<Sum>i<MEKF_N. x i * A i k * (\<Sum>l<MEKF_N. P k l * ?y l))" by (rule sum.swap)
  finally show ?thesis by (simp add: quad_def pullback_def sum_distrib_right)
qed

lemma quad_add: "quad (\<lambda>i j. A i j + B i j) x = quad A x + quad B x"
  by (simp add: quad_def distrib_right sum.distrib distrib_left)

lemma quad_scale: "quad (\<lambda>i j. c * A i j) x = c * quad A x"
  by (simp add: quad_def sum_distrib_left mult_ac)

lemma quad_transpose: "quad (\<lambda>i j. P j i) x = quad P x"
proof -
  have "quad (\<lambda>i j. P j i) x = (\<Sum>i<MEKF_N. \<Sum>j<MEKF_N. x i * (P j i * x j))" by (simp add: quad_def sum_distrib_left)
  also have "\<dots> = (\<Sum>j<MEKF_N. \<Sum>i<MEKF_N. x i * (P j i * x j))" by (rule sum.swap)
  also have "\<dots> = quad P x" by (simp add: quad_def sum_distrib_left mult_ac)
  finally show ?thesis .
qed

lemma half_real: "(of_rat (1 / 2) :: real) = 1 / 2"
  by (simp add: of_rat_divide)

lemma symmetrize_real: "mNN_symmetrize real_libm P = (\<lambda>i j. 1 / 2 * (P i j + P j i))"
  by (intro ext) (auto simp: mNN_symmetrize_def half_real Let_def add.commute)

lemma quad_symmetrize [simp]: "quad (mNN_symmetrize real_libm P) x = quad P x"
proof -
  have "quad (mNN_symmetrize real_libm P) x = 1 / 2 * (quad P x + quad (\<lambda>i j. P j i) x)"
    unfolding symmetrize_real using quad_scale [of "1 / 2" "\<lambda>i j. P i j + P j i" x] quad_add [of P "\<lambda>i j. P j i" x] by simp
  then show ?thesis using quad_transpose [of P x] by simp
qed

lemma quad_diagonal: "quad (\<lambda>i j. if i = j then d i else 0) x = (\<Sum>i<MEKF_N. d i * (x i)\<^sup>2)"
proof -
  have "(\<Sum>j<MEKF_N. (if i = j then d i else 0) * x j) = d i * x i" if "i < MEKF_N" for i
  proof -
    have "(\<Sum>j<MEKF_N. (if i = j then d i else 0) * x j) = (\<Sum>j<MEKF_N. if i = j then d i * x j else 0)"
      by (rule sum.cong) auto
    also have "\<dots> = d i * x i" by (subst sum.delta') (use that in simp_all)
    finally show ?thesis .
  qed
  then have "x i * (\<Sum>j<MEKF_N. (if i = j then d i else 0) * x j) = d i * (x i)\<^sup>2" if "i < MEKF_N" for i
    using that by (simp add: power2_eq_square)
  then show ?thesis unfolding quad_def by (intro sum.cong refl) (simp only: lessThan_iff)
qed

lemma quad_rank:
  fixes u :: "real mat"
  shows "quad (\<lambda>i j. \<Sum>k<n. u i k * u j k) x = (\<Sum>k<n. (\<Sum>i<MEKF_N. x i * u i k)\<^sup>2)"
proof -
  have "(\<Sum>j<MEKF_N. (\<Sum>k<n. u i k * u j k) * x j) = (\<Sum>k<n. u i k * (\<Sum>j<MEKF_N. x j * u j k))" for i
  proof -
    have "(\<Sum>j<MEKF_N. (\<Sum>k<n. u i k * u j k) * x j) = (\<Sum>j<MEKF_N. \<Sum>k<n. u i k * (x j * u j k))"
      by (simp add: sum_distrib_right sum_distrib_left mult_ac)
    also have "\<dots> = (\<Sum>k<n. \<Sum>j<MEKF_N. u i k * (x j * u j k))" by (rule sum.swap)
    finally show ?thesis by (simp add: sum_distrib_left)
  qed
  then have "quad (\<lambda>i j. \<Sum>k<n. u i k * u j k) x = (\<Sum>i<MEKF_N. \<Sum>k<n. x i * u i k * (\<Sum>j<MEKF_N. x j * u j k))"
    by (simp add: quad_def sum_distrib_left mult.assoc)
  also have "\<dots> = (\<Sum>k<n. \<Sum>i<MEKF_N. x i * u i k * (\<Sum>j<MEKF_N. x j * u j k))" by (rule sum.swap)
  finally show ?thesis by (simp add: sum_distrib_right power2_eq_square)
qed

definition psd3 :: "real mat \<Rightarrow> bool" where
  "psd3 R \<longleftrightarrow> (\<forall>y. 0 \<le> (\<Sum>k<3. \<Sum>l<3. y k * R k l * y l))"

lemma quad_full:
  fixes K R :: "real mat"
  shows "quad (\<lambda>i j. \<Sum>k<3. \<Sum>l<3. K i k * R k l * K j l) x =
    (\<Sum>k<3. \<Sum>l<3. (\<Sum>i<MEKF_N. x i * K i k) * R k l * (\<Sum>j<MEKF_N. x j * K j l))"
proof -
  have "(\<Sum>j<MEKF_N. (\<Sum>k<3. \<Sum>l<3. K i k * R k l * K j l) * x j) = (\<Sum>k<3. \<Sum>l<3. K i k * R k l * (\<Sum>j<MEKF_N. x j * K j l))" for i
  proof -
    have "(\<Sum>j<MEKF_N. (\<Sum>k<3. \<Sum>l<3. K i k * R k l * K j l) * x j) = (\<Sum>j<MEKF_N. \<Sum>k<3. \<Sum>l<3. K i k * R k l * (x j * K j l))"
      by (simp add: sum_distrib_right sum_distrib_left mult_ac)
    also have "\<dots> = (\<Sum>k<3. \<Sum>j<MEKF_N. \<Sum>l<3. K i k * R k l * (x j * K j l))" by (rule sum.swap)
    also have "\<dots> = (\<Sum>k<3. \<Sum>l<3. \<Sum>j<MEKF_N. K i k * R k l * (x j * K j l))" by (intro sum.cong refl sum.swap)
    finally show ?thesis by (simp add: sum_distrib_left)
  qed
  then have "quad (\<lambda>i j. \<Sum>k<3. \<Sum>l<3. K i k * R k l * K j l) x =
      (\<Sum>i<MEKF_N. \<Sum>k<3. \<Sum>l<3. x i * K i k * R k l * (\<Sum>j<MEKF_N. x j * K j l))"
    by (simp add: quad_def sum_distrib_left mult.assoc)
  also have "\<dots> = (\<Sum>k<3. \<Sum>i<MEKF_N. \<Sum>l<3. x i * K i k * R k l * (\<Sum>j<MEKF_N. x j * K j l))" by (rule sum.swap)
  also have "\<dots> = (\<Sum>k<3. \<Sum>l<3. \<Sum>i<MEKF_N. x i * K i k * R k l * (\<Sum>j<MEKF_N. x j * K j l))"
    by (intro sum.cong refl sum.swap)
  finally show ?thesis by (simp add: sum_distrib_right)
qed

section \<open>The covariance after an update\<close>

definition identity_minus :: "real mat \<Rightarrow> real mat \<Rightarrow> real mat" where
  "identity_minus K H = (\<lambda>i j. (if i = j then 1 else 0) - (\<Sum>k<3. K i k * H k j))"

lemma eskf_joseph_real:
  defines "A \<equiv> \<lambda>dx K H. g_premul_rows3 (m33_reset_jac real_libm dx) (identity_minus K H)"
    and "GK \<equiv> \<lambda>dx K. g_premul_rows3 (m33_reset_jac real_libm dx) K"
  shows "eskf_joseph real_libm dx K H R_noise None P = mNN_symmetrize real_libm
      (\<lambda>i j. mNN_mulT (mNN_mul (A dx K H) P) (A dx K H) i j + R_noise * (\<Sum>k<3. GK dx K i k * GK dx K j k))"
    and "eskf_joseph real_libm dx K H R_noise (Some R) P = mNN_symmetrize real_libm
      (\<lambda>i j. mNN_mulT (mNN_mul (A dx K H) P) (A dx K H) i j + (\<Sum>k<3. \<Sum>l<3. GK dx K i k * R k l * GK dx K j l))"
proof -
  have u: "[0..<3] = [0, 1, 2 :: nat]" by (simp add: upt_rec)
  have s3: "(\<Sum>k<3. f k) = f 0 + f 1 + f 2" for f :: "nat \<Rightarrow> real" by (simp add: eval_nat_numeral)
  have f: "fold (\<lambda>k s. accum 3 (\<lambda>l. g k l) s) [0..<3] 0 = (\<Sum>k<3. \<Sum>l<3. g k l)" for g :: "nat \<Rightarrow> nat \<Rightarrow> real"
    unfolding u s3 by (simp add: s3)
  show "eskf_joseph real_libm dx K H R_noise None P = mNN_symmetrize real_libm
      (\<lambda>i j. mNN_mulT (mNN_mul (A dx K H) P) (A dx K H) i j + R_noise * (\<Sum>k<3. GK dx K i k * GK dx K j k))"
    by (simp add: eskf_joseph_def Let_def identity_minus_def A_def GK_def)
  show "eskf_joseph real_libm dx K H R_noise (Some R) P = mNN_symmetrize real_libm
      (\<lambda>i j. mNN_mulT (mNN_mul (A dx K H) P) (A dx K H) i j + (\<Sum>k<3. \<Sum>l<3. GK dx K i k * R k l * GK dx K j l))"
    by (simp add: eskf_joseph_def Let_def f identity_minus_def A_def GK_def)
qed

lemma quad_joseph:
  "quad (eskf_joseph real_libm dx K H R_noise R33 P) x =
     quad P (pullback (g_premul_rows3 (m33_reset_jac real_libm dx) (identity_minus K H)) x) +
     (let y = (\<lambda>k. \<Sum>i<MEKF_N. x i * g_premul_rows3 (m33_reset_jac real_libm dx) K i k)
      in case R33 of Some R \<Rightarrow> (\<Sum>k<3. \<Sum>l<3. y k * R k l * y l) | None \<Rightarrow> R_noise * (\<Sum>k<3. (y k)\<^sup>2))"
  by (cases R33) (simp_all add: eskf_joseph_real quad_add quad_scale quad_mul quad_rank quad_full)

lemma psd_joseph:
  assumes "psd P" "case R33 of Some R \<Rightarrow> psd3 R | None \<Rightarrow> 0 \<le> R_noise"
  shows "psd (eskf_joseph real_libm dx K H R_noise R33 P)"
  using assms unfolding psd_def quad_joseph Let_def psd3_def
  by (auto split: option.splits intro!: add_nonneg_nonneg mult_nonneg_nonneg sum_nonneg)

lemma psd_yaw_joseph:
  assumes "psd P" "0 \<le> R_noise"
  shows "psd (yaw_joseph real_libm dx K H R_noise P)"
proof -
  let ?G = "m33_reset_jac real_libm dx"
  let ?K = "\<lambda>i. g_premul_rows3 ?G (\<lambda>i j. K i) i (0 :: nat)"
  have "quad (\<lambda>i j. R_noise * ?K i * ?K j) x = R_noise * (\<Sum>i<MEKF_N. x i * ?K i)\<^sup>2" for x
    using quad_scale [of R_noise "\<lambda>i j. ?K i * ?K j" x] quad_rank [where n = 1 and u = "\<lambda>i k. ?K i" and x = x]
    by (simp add: mult.assoc)
  then show ?thesis using assms unfolding psd_def yaw_joseph_def Let_def quad_symmetrize quad_add quad_mul
    by (auto intro!: add_nonneg_nonneg)
qed

lemma psd_predict:
  assumes "psd (mf_P f)" "0 \<le> mf_Qg f * (dt / mf_dt f)" "0 \<le> mf_Qb f * (dt / mf_dt f)" "0 \<le> qw"
  shows "psd (predict_P real_libm w dt phi_w qw f)"
proof -
  let ?M = "mNN_mulT (mNN_mul (transition w dt phi_w) (mf_P f)) (transition w dt phi_w)"
  let ?d = "\<lambda>i :: nat. if i < 3 then mf_Qg f * (dt / mf_dt f) else if i < 6 then mf_Qb f * (dt / mf_dt f)
    else if mf_wave_enabled f then qw else 0"
  have "(\<lambda>i j. if i \<noteq> j then ?M i j else if i < 3 then ?M i j + mf_Qg f * (dt / mf_dt f)
      else if i < 6 then ?M i j + mf_Qb f * (dt / mf_dt f) else if mf_wave_enabled f then ?M i j + qw else ?M i j) =
      (\<lambda>i j. ?M i j + (if i = j then ?d i else 0))"
    by (intro ext) simp
  then have "quad (predict_P real_libm w dt phi_w qw f) x =
      quad (mf_P f) (pullback (transition w dt phi_w) x) + (\<Sum>i<MEKF_N. ?d i * (x i)\<^sup>2)" for x
    unfolding predict_P_def Let_def quad_symmetrize by (simp only: quad_add quad_diagonal quad_mul)
  then show ?thesis using assms unfolding psd_def by (auto intro!: add_nonneg_nonneg sum_nonneg)
qed

section \<open>Unit quaternions\<close>

definition q_norm2 :: "real vec \<Rightarrow> real" where
  "q_norm2 q = (q 0)\<^sup>2 + (q 1)\<^sup>2 + (q 2)\<^sup>2 + (q 3)\<^sup>2"

abbreviation unit_q :: "real vec \<Rightarrow> bool" where
  "unit_q q \<equiv> q_norm2 q = 1"

lemma q_norm2_mul: "q_norm2 (q_mul a b) = q_norm2 a * q_norm2 b"
  by (simp add: q_norm2_def q_mul_def power2_eq_square algebra_simps)

lemma q_normalize_real:
  "q_normalize real_libm q = (if sqrt (q_norm2 q) > 1 / 10 ^ 10 then vec4 (q 0 / sqrt (q_norm2 q)) (q 1 / sqrt (q_norm2 q))
     (q 2 / sqrt (q_norm2 q)) (q 3 / sqrt (q_norm2 q)) else q)"
  by (simp add: q_normalize_def q_norm2_def power2_eq_square Let_def of_rat_divide of_rat_power)

lemma q_norm2_div: "q_norm2 (vec4 (q 0 / n) (q 1 / n) (q 2 / n) (q 3 / n)) = q_norm2 q / n\<^sup>2"
  by (simp add: q_norm2_def power_divide add_divide_distrib)

lemma q_normalize_unit:
  assumes "q_norm2 q > 1 / 10 ^ 20"
  shows "unit_q (q_normalize real_libm q)"
proof -
  have r: "sqrt (1 / 10 ^ 20 :: real) = 1 / 10 ^ 10"
    by (rule real_sqrt_unique) (simp_all add: power_divide)
  have n: "sqrt (q_norm2 q) > 1 / 10 ^ 10" unfolding r [symmetric] by (rule real_sqrt_less_mono [OF assms])
  have "q_norm2 q > 0" by (rule order_less_trans [OF _ assms]) simp
  then show ?thesis unfolding q_normalize_real if_P [OF n] q_norm2_div by simp
qed

lemma q_normalize_id:
  assumes "unit_q q"
  shows "q_normalize real_libm q = vec4 (q 0) (q 1) (q 2) (q 3)"
  using assms by (simp add: q_normalize_real)

lemma sq_scale: "(a * s)\<^sup>2 + (b * s)\<^sup>2 + (c * s)\<^sup>2 = (a\<^sup>2 + b\<^sup>2 + c\<^sup>2) * s\<^sup>2" for a b c s :: real
  by (simp add: power_mult_distrib distrib_right)

lemma unit_from_rotvec: "unit_q (q_from_rotvec real_libm v)"
proof -
  let ?t = "(v 0)\<^sup>2 + (v 1)\<^sup>2 + (v 2)\<^sup>2"
  have q: "q_from_rotvec real_libm v = q_normalize real_libm
     (if sqrt ?t < 1 / 10 ^ 7 then vec4 1 (v 0 * (1 / 2)) (v 1 * (1 / 2)) (v 2 * (1 / 2))
      else vec4 (cos (sqrt ?t * (1 / 2))) (v 0 * (sin (sqrt ?t * (1 / 2)) / sqrt ?t)) (v 1 * (sin (sqrt ?t * (1 / 2)) / sqrt ?t))
        (v 2 * (sin (sqrt ?t * (1 / 2)) / sqrt ?t)))"
    by (simp add: q_from_rotvec_def Let_def power2_eq_square of_rat_divide of_rat_power)
  show ?thesis
  proof (cases "sqrt ?t < 1 / 10 ^ 7")
    case True
    have "(1 :: real) \<le> q_norm2 (vec4 1 (v 0 * (1 / 2)) (v 1 * (1 / 2)) (v 2 * (1 / 2)))" by (simp add: q_norm2_def)
    then show ?thesis unfolding q using True by (intro q_normalize_unit) (simp add: order_less_le_trans)
  next
    case False
    then have t: "sqrt ?t \<noteq> 0" by auto
    then have "?t \<noteq> 0" by auto
    have "0 \<le> ?t" by simp
    let ?s = "sin (sqrt ?t * (1 / 2)) / sqrt ?t"
    have "(v 0 * ?s)\<^sup>2 + (v 1 * ?s)\<^sup>2 + (v 2 * ?s)\<^sup>2 = ?t * ?s\<^sup>2" by (rule sq_scale)
    also have "\<dots> = (sin (sqrt ?t * (1 / 2)))\<^sup>2" using \<open>?t \<noteq> 0\<close> \<open>0 \<le> ?t\<close> by (simp add: power_divide)
    finally have "q_norm2 (vec4 (cos (sqrt ?t * (1 / 2))) (v 0 * ?s) (v 1 * ?s) (v 2 * ?s)) = 1"
      by (simp add: q_norm2_def add.assoc)
    then show ?thesis unfolding q using False by (intro q_normalize_unit) simp
  qed
qed

lemma unit_times:
  assumes "unit_q a" "unit_q b"
  shows "unit_q (q_normalize real_libm (q_mul a b))"
  by (rule q_normalize_unit) (simp add: q_norm2_mul assms)

lemma half_angles: "unit_q (vec4 (cos a * cos b) (cos a * sin b) (sin a * cos b) (- sin a * sin b))"
  by (simp add: q_norm2_def power_mult_distrib cos_squared_eq algebra_simps)

lemma unit_align_tilt: "unit_q (align_tilt real_libm an a)"
  unfolding align_tilt_def Let_def real_libm_simps
  by (rule q_normalize_unit) (simp only: half_angles, simp)

lemma unit_yaw: "unit_q (vec4 (cos a) 0 0 (sin a))"
  by (simp add: q_norm2_def)

section \<open>Symmetry in any arithmetic\<close>

definition symmetric :: "'a mat \<Rightarrow> bool" where
  "symmetric P \<longleftrightarrow> (\<forall>i j. P i j = P j i)"

lemma symmetric_symmetrize [simp]: "symmetric (mNN_symmetrize F P)"
  by (auto simp: symmetric_def mNN_symmetrize_def Let_def)

lemma symmetric_initial: "symmetric (initial_P F e s)"
  by (auto simp: symmetric_def initial_P_def)

lemma symmetric_cov [simp]:
  "symmetric (eskf_joseph F dx K H R_noise R33 P)" "symmetric (yaw_joseph F dx k h R_noise P)" "symmetric (predict_P F w dt phi qw f)"
  by (simp_all add: eskf_joseph_def yaw_joseph_def predict_P_def Let_def)

section \<open>What the parts of an update leave alone\<close>

lemma gate_health_keeps [simp]:
  "mf_P (gate_health a w r f) = mf_P f" "mf_q (gate_health a w r f) = mf_q f" "mf_bias (gate_health a w r f) = mf_bias f"
  "mf_wave_acc (gate_health a w r f) = mf_wave_acc f" "mf_wave_enabled (gate_health a w r f) = mf_wave_enabled f"
  "mf_dt (gate_health a w r f) = mf_dt f" "mf_mag_odr_hz (gate_health a w r f) = mf_mag_odr_hz f"
  "mf_Qg (gate_health a w r f) = mf_Qg f" "mf_Qb (gate_health a w r f) = mf_Qb f" "mf_Ra (gate_health a w r f) = mf_Ra f"
  "mf_Rm (gate_health a w r f) = mf_Rm f" "mf_Ra_scale (gate_health a w r f) = mf_Ra_scale f"
  "mf_wave_tau (gate_health a w r f) = mf_wave_tau f" "mf_wave_sig2 (gate_health a w r f) = mf_wave_sig2 f"
  "mf_dip_sig2 (gate_health a w r f) = mf_dip_sig2 f"
  by (simp_all add: gate_health_def)

lemma nis_feed_keeps [simp]:
  "mf_P (nis_feed F c a d n f) = mf_P f" "mf_q (nis_feed F c a d n f) = mf_q f" "mf_bias (nis_feed F c a d n f) = mf_bias f"
  "mf_wave_acc (nis_feed F c a d n f) = mf_wave_acc f" "mf_wave_enabled (nis_feed F c a d n f) = mf_wave_enabled f"
  "mf_dt (nis_feed F c a d n f) = mf_dt f" "mf_mag_odr_hz (nis_feed F c a d n f) = mf_mag_odr_hz f"
  "mf_Qg (nis_feed F c a d n f) = mf_Qg f" "mf_Qb (nis_feed F c a d n f) = mf_Qb f" "mf_Ra (nis_feed F c a d n f) = mf_Ra f"
  "mf_Rm (nis_feed F c a d n f) = mf_Rm f" "mf_Ra_scale (nis_feed F c a d n f) = mf_Ra_scale f"
  "mf_wave_tau (nis_feed F c a d n f) = mf_wave_tau f" "mf_wave_sig2 (nis_feed F c a d n f) = mf_wave_sig2 f"
  "mf_dip_sig2 (nis_feed F c a d n f) = mf_dip_sig2 f"
  by (simp_all add: nis_feed_def split: nis_channel.split)

text \<open>The tuning that the covariance rests on.\<close>

definition same_tuning :: "'a mekf \<Rightarrow> 'a mekf \<Rightarrow> bool" where
  "same_tuning f g \<longleftrightarrow> mf_dt g = mf_dt f \<and> mf_mag_odr_hz g = mf_mag_odr_hz f \<and> mf_Qg g = mf_Qg f \<and> mf_Qb g = mf_Qb f \<and>
     mf_Ra g = mf_Ra f \<and> mf_Rm g = mf_Rm f \<and> mf_Ra_scale g = mf_Ra_scale f \<and> mf_wave_tau g = mf_wave_tau f \<and>
     mf_wave_sig2 g = mf_wave_sig2 f \<and> mf_dip_sig2 g = mf_dip_sig2 f \<and> mf_wave_enabled g = mf_wave_enabled f"

lemma same_tuning_refl [simp]: "same_tuning f f"
  by (simp add: same_tuning_def)

lemma same_tuning_trans: "same_tuning f g \<Longrightarrow> same_tuning g h \<Longrightarrow> same_tuning f h"
  by (simp add: same_tuning_def)

lemma eskf_gate_keeps:
  assumes "eskf_gate F Si g ch a innov f = (r, f')"
  shows "mf_P f' = mf_P f \<and> mf_q f' = mf_q f \<and> mf_bias f' = mf_bias f \<and> mf_wave_acc f' = mf_wave_acc f \<and> same_tuning f f'"
  using assms by (auto simp: eskf_gate_def Let_def same_tuning_def split: if_splits option.splits)

text \<open>A measurement update changes nothing but statistics, or it injects a correction.\<close>

definition injected :: "('a :: {zero, one, plus, minus, times, inverse, ord}) libm \<Rightarrow> 'a vec \<Rightarrow> 'a mekf \<Rightarrow> 'a mekf \<Rightarrow> bool" where
  "injected F dx f f' \<longleftrightarrow> mf_q f' = q_normalize F (q_mul (mf_q f) (q_from_rotvec F dx)) \<and>
     mf_bias f' = vec3 (mf_bias f 0 + dx 3) (mf_bias f 1 + dx 4) (mf_bias f 2 + dx 5) \<and>
     mf_wave_acc f' = vec3 (mf_wave_acc f 0 + dx 6) (mf_wave_acc f 1 + dx 7) (mf_wave_acc f 2 + dx 8) \<and> same_tuning f f'"

definition untouched :: "'a mekf \<Rightarrow> 'a mekf \<Rightarrow> bool" where
  "untouched f f' \<longleftrightarrow> mf_P f' = mf_P f \<and> mf_q f' = mf_q f \<and> mf_bias f' = mf_bias f \<and> mf_wave_acc f' = mf_wave_acc f \<and> same_tuning f f'"

lemma inject_injected: "untouched f g \<Longrightarrow> injected F dx f ((eskf_inject F dx g)\<lparr>mf_P := P\<rparr>)"
  by (simp add: injected_def untouched_def eskf_inject_def same_tuning_def)

lemma eskf_update_cases:
  assumes "eskf_update F h z R_noise gate ch a aw R33 protect f = (rc, f')"
  obtains (skipped) "rc \<noteq> 0" "untouched f f'"
  | (applied) Sinv innov dx K where "rc = 0"
      "m33_inv F (dir_S (snd (eskf_jacobian F h aw)) (dir_PHt (mf_P f) (snd (eskf_jacobian F h aw))) R_noise R33) = Some Sinv"
      "K = eskf_protect protect (eskf_gain (dir_PHt (mf_P f) (snd (eskf_jacobian F h aw))) Sinv)"
      "dx = (\<lambda>i. accum 3 (\<lambda>j. K i j * innov j) 0)"
      "injected F dx f f'" "mf_P f' = eskf_joseph F dx K (snd (eskf_jacobian F h aw)) R_noise R33 (mf_P f)"
proof (cases "m33_inv F (dir_S (snd (eskf_jacobian F h aw)) (dir_PHt (mf_P f) (snd (eskf_jacobian F h aw))) R_noise R33)")
  case None
  then show ?thesis using assms skipped by (auto simp: eskf_update_def untouched_def split: prod.splits)
next
  case (Some Sinv)
  obtain zhat H where j: "eskf_jacobian F h aw = (zhat, H)" by fastforce
  obtain r g where g: "eskf_gate F Sinv gate ch a (vec3 (z 0 - zhat 0) (z 1 - zhat 1) (z 2 - zhat 2)) f = (r, g)" by fastforce
  have u: "untouched f g" using eskf_gate_keeps [OF g] by (simp add: untouched_def)
  show ?thesis
  proof (cases r)
    case None
    then show ?thesis using assms Some j g u skipped by (simp add: eskf_update_def Let_def)
  next
    case (Some innov)
    define K where "K = eskf_protect protect (eskf_gain (dir_PHt (mf_P f) H) Sinv)"
    define dx where "dx = (\<lambda>i. accum 3 (\<lambda>j. K i j * innov j) 0)"
    have P: "mf_P g = mf_P f" using u by (simp add: untouched_def)
    have f': "rc = 0" "f' = (eskf_inject F dx g)\<lparr>mf_P := eskf_joseph F dx K H R_noise R33 (mf_P f)\<rparr>"
      using assms \<open>m33_inv F _ = Some Sinv\<close> j g Some P by (simp_all add: eskf_update_def Let_def K_def dx_def)
    show ?thesis
      by (rule applied [of Sinv K dx innov])
        (use f' \<open>m33_inv F _ = Some Sinv\<close> j K_def dx_def inject_injected [OF u] in simp_all)
  qed
qed

lemma eskf_update_yaw_cases:
  assumes "eskf_update_yaw F y R_noise f = (rc, f')"
  obtains (skipped) "rc \<noteq> 0" "untouched f f'"
  | (applied) c dx K where "rc = 0" "dx = scale_vec K c"
      "K = yaw_gain (yaw_PHt (mf_P f) (yaw_H (q_to_R F (mf_q f))))
         (yaw_S (yaw_H (q_to_R F (mf_q f))) (yaw_PHt (mf_P f) (yaw_H (q_to_R F (mf_q f)))) R_noise)"
      "injected F dx f f'" "mf_P f' = yaw_joseph F dx K (yaw_H (q_to_R F (mf_q f))) R_noise (mf_P f)"
proof -
  define H where "H = yaw_H (q_to_R F (mf_q f))"
  define PHt where "PHt = yaw_PHt (mf_P f) H"
  define S where "S = yaw_S H PHt R_noise"
  define d2 where "d2 = y * y / S"
  define g where "g = nis_feed F Nis_mag (mf_nis_mag_alpha f) d2 1 f"
  define w where "w = (if d2 > YAW_CHI2_GATE F then fsqrt F (YAW_CHI2_GATE F / d2) else 1)"
  define c where "c = (if d2 > YAW_CHI2_GATE F then y * w else y)"
  define K where "K = yaw_gain PHt S"
  define dx where "dx = scale_vec K c"
  have u: "untouched f (gate_health b w r g)" for b w r by (simp add: untouched_def same_tuning_def g_def)
  have e: "(rc, f') = (if S < lit F (1 / 10 ^ 12) then (-1, f)
      else if d2 > GROSS_REJECT_MULT F * YAW_CHI2_GATE F then (1, gate_health (mf_nis_mag_alpha g) 0 1 g)
      else (0, (eskf_inject F dx (gate_health (mf_nis_mag_alpha g) w 0 g))
        \<lparr>mf_P := yaw_joseph F dx K H R_noise (mf_P (gate_health (mf_nis_mag_alpha g) w 0 g))\<rparr>))"
    unfolding assms [symmetric] eskf_update_yaw_def Let_def H_def [symmetric] PHt_def [symmetric] S_def [symmetric]
      d2_def [symmetric] g_def [symmetric] w_def [symmetric] c_def [symmetric] K_def [symmetric] dx_def [symmetric] ..
  consider "rc = -1" "f' = f" | "rc = 1" "f' = gate_health (mf_nis_mag_alpha g) 0 1 g"
    | "rc = 0" "f' = (eskf_inject F dx (gate_health (mf_nis_mag_alpha g) w 0 g))\<lparr>mf_P := yaw_joseph F dx K H R_noise (mf_P f)\<rparr>"
    using e by (auto simp: g_def split: if_splits)
  then show ?thesis
  proof cases
    case 3
    show ?thesis
      by (rule applied [of dx K c])
        (use 3 inject_injected [OF u] in \<open>simp_all add: dx_def K_def PHt_def S_def H_def\<close>)
  qed (use u skipped in \<open>simp_all add: untouched_def\<close>)
qed

section \<open>The wave state switched off\<close>

definition inert_P :: "real mat \<Rightarrow> bool" where
  "inert_P P \<longleftrightarrow> (\<forall>i < MEKF_N. \<forall>j < MEKF_N. 6 \<le> i \<or> 6 \<le> j \<longrightarrow> P i j = 0)"

definition fixes_wave :: "real mat \<Rightarrow> bool" where
  "fixes_wave A \<longleftrightarrow> (\<forall>i < MEKF_N. \<forall>j < MEKF_N. 6 \<le> i \<or> 6 \<le> j \<longrightarrow> A i j = (if i = j then 1 else 0))"

lemma sum_pick: "i < n \<Longrightarrow> (\<Sum>k<n. (if i = k then 1 else 0) * g k) = (g i :: real)" for n i :: nat
proof -
  assume i: "i < n"
  have "(\<Sum>k<n. (if i = k then 1 else 0) * g k) = (\<Sum>k<n. if i = k then g k else 0)" by (rule sum.cong) auto
  also have "\<dots> = g i" by (subst sum.delta') (use i in simp_all)
  finally show ?thesis .
qed

lemma inert_mul:
  assumes "inert_P P" "fixes_wave A" "i < MEKF_N" "j < MEKF_N" "6 \<le> i \<or> 6 \<le> j"
  shows "mNN_mulT (mNN_mul A P) A i j = 0"
proof (cases "6 \<le> i")
  case True
  have "mNN_mul A P i l = 0" if "l < MEKF_N" for l
  proof -
    have "mNN_mul A P i l = (\<Sum>k<MEKF_N. (if i = k then 1 else 0) * P k l)"
      using assms(2,3) True by (simp add: mNN_mul_def fixes_wave_def)
    also have "\<dots> = P i l" by (rule sum_pick [OF assms(3)])
    finally show ?thesis using assms(1,3) True that by (simp add: inert_P_def)
  qed
  then show ?thesis by (simp add: mNN_mulT_def)
next
  case False
  then have j: "6 \<le> j" using assms(5) by simp
  have "mNN_mulT M A i j = (\<Sum>l<MEKF_N. (if j = l then 1 else 0) * M i l)" for M
    using assms(2,4) j by (simp add: mNN_mulT_def fixes_wave_def mult.commute)
  then have "mNN_mulT (mNN_mul A P) A i j = mNN_mul A P i j" using sum_pick [OF assms(4)] by simp
  also have "\<dots> = 0" using assms(1,4) j by (simp add: mNN_mul_def inert_P_def)
  finally show ?thesis .
qed

lemma inert_symmetrize: "inert_P P \<Longrightarrow> inert_P (mNN_symmetrize real_libm P)"
  unfolding symmetrize_real inert_P_def by auto

text \<open>A gain that does not reach the wave state, and a measurement that does not see it.\<close>

definition blind :: "real mat \<Rightarrow> bool" where
  "blind H \<longleftrightarrow> (\<forall>k < 3. \<forall>j < MEKF_N. 3 \<le> j \<longrightarrow> H k j = 0)"

lemma fixes_wave_update:
  assumes "blind H" "\<forall>i < MEKF_N. 6 \<le> i \<longrightarrow> (\<forall>k < 3. K i k = 0)"
  shows "fixes_wave (g_premul_rows3 G (identity_minus K H))"
proof -
  have z: "identity_minus K H i j = (if i = j then 1 else 0)" if "i < MEKF_N" "j < MEKF_N" "6 \<le> i \<or> 6 \<le> j" for i j
  proof -
    have "(\<Sum>k<3. K i k * H k j) = 0" using that assms by (intro sum.neutral) (auto simp: blind_def)
    then show ?thesis by (simp add: identity_minus_def)
  qed
  have n: "k < MEKF_N" if "k < 3" for k using that by (simp add: MEKF_N_def)
  show ?thesis
    unfolding fixes_wave_def g_premul_rows3_def
    using z n by auto
qed

lemma inert_joseph:
  assumes "inert_P P" "blind H" "\<forall>i < MEKF_N. 6 \<le> i \<longrightarrow> (\<forall>k < 3. K i k = 0)"
  shows "inert_P (eskf_joseph real_libm dx K H R_noise R33 P)"
proof -
  let ?A = "g_premul_rows3 (m33_reset_jac real_libm dx) (identity_minus K H)"
  let ?K = "g_premul_rows3 (m33_reset_jac real_libm dx) K"
  have M: "mNN_mulT (mNN_mul ?A P) ?A i j = 0" if "i < MEKF_N" "j < MEKF_N" "6 \<le> i \<or> 6 \<le> j" for i j
    using inert_mul [OF assms(1) fixes_wave_update [OF assms(2,3)] that] .
  have K: "?K i k = 0" if "i < MEKF_N" "6 \<le> i" "k < 3" for i k
    using assms(3) that by (simp add: g_premul_rows3_def)
  have z: "i < MEKF_N \<Longrightarrow> j < MEKF_N \<Longrightarrow> 6 \<le> i \<or> 6 \<le> j \<Longrightarrow> (\<Sum>k<3. ?K i k * ?K j k) = 0"
    "i < MEKF_N \<Longrightarrow> j < MEKF_N \<Longrightarrow> 6 \<le> i \<or> 6 \<le> j \<Longrightarrow> (\<Sum>k<3. \<Sum>l<3. ?K i k * R k l * ?K j l) = 0" for i j R
    by (auto intro!: sum.neutral simp: K)
  show ?thesis
  proof (cases R33)
    case None
    show ?thesis unfolding None eskf_joseph_real by (rule inert_symmetrize) (auto simp: inert_P_def M z)
  next
    case (Some R)
    show ?thesis unfolding Some eskf_joseph_real by (rule inert_symmetrize) (auto simp: inert_P_def M z)
  qed
qed

lemma inert_yaw_joseph:
  assumes "inert_P P" "\<forall>j < MEKF_N. 3 \<le> j \<longrightarrow> H j = 0" "\<forall>i < MEKF_N. 6 \<le> i \<longrightarrow> K i = 0"
  shows "inert_P (yaw_joseph real_libm dx K H R_noise P)"
proof -
  let ?G = "m33_reset_jac real_libm dx"
  let ?A = "g_premul_rows3 ?G (\<lambda>i j. (if i = j then 1 else 0) - K i * H j)"
  let ?K = "\<lambda>i. g_premul_rows3 ?G (\<lambda>i j. K i) i (0 :: nat)"
  have n: "k < MEKF_N" if "k < 3" for k using that by (simp add: MEKF_N_def)
  have "fixes_wave ?A" unfolding fixes_wave_def g_premul_rows3_def using assms(2,3) n by auto
  note M = inert_mul [OF assms(1) this]
  have K: "?K i = 0" if "i < MEKF_N" "6 \<le> i" for i using assms(3) that by (simp add: g_premul_rows3_def)
  have "inert_P (\<lambda>i j. mNN_mulT (mNN_mul ?A P) ?A i j + R_noise * ?K i * ?K j)"
    unfolding inert_P_def by (auto simp: M K)
  then show ?thesis unfolding yaw_joseph_def Let_def by (rule inert_symmetrize)
qed

lemma inert_predict:
  assumes "inert_P (mf_P f)" "\<not> mf_wave_enabled f"
  shows "inert_P (predict_P real_libm w dt 1 qw f)"
proof -
  have "fixes_wave (transition w dt 1)" by (auto simp: fixes_wave_def transition_def)
  note M = inert_mul [OF assms(1) this]
  show ?thesis unfolding predict_P_def Let_def
    by (rule inert_symmetrize) (use assms(2) in \<open>auto simp: inert_P_def M\<close>)
qed

end
