(* ===== verification/MekfInv.thy ===== *)
theory MekfInv
  imports MekfBase
begin

text \<open>
  What holds in every state of the filter that a sequence of its operations reaches: one lemma per operation, and the
  invariants of a run.
\<close>

section \<open>What every operation keeps, over the real numbers\<close>

definition tuned :: "real mekf \<Rightarrow> bool" where
  "tuned f \<longleftrightarrow> 0 < mf_dt f \<and> 0 \<le> mf_mag_odr_hz f \<and> 0 \<le> mf_Qg f \<and> 0 \<le> mf_Qb f \<and> 0 \<le> mf_Ra f \<and> 0 \<le> mf_Rm f \<and>
     0 \<le> mf_Ra_scale f \<and> 0 \<le> mf_wave_sig2 f \<and> 0 \<le> mf_dip_sig2 f \<and> (mf_wave_enabled f \<longrightarrow> 0 < mf_wave_tau f)"

text \<open>With the wave state off, its covariance and its mean are zero.\<close>

definition wave_inert :: "real mekf \<Rightarrow> bool" where
  "wave_inert f \<longleftrightarrow> \<not> mf_wave_enabled f \<longrightarrow> inert_P (mf_P f) \<and> (\<forall>i < 3. mf_wave_acc f i = 0)"

definition filter_ok :: "real mekf \<Rightarrow> bool" where
  "filter_ok f \<longleftrightarrow> tuned f \<and> symmetric (mf_P f) \<and> psd (mf_P f) \<and> unit_q (mf_q f) \<and> wave_inert f"

lemma tuned_same: "same_tuning f g \<Longrightarrow> tuned f \<Longrightarrow> tuned g"
  by (simp add: tuned_def same_tuning_def)

lemma filter_ok_untouched: "untouched f g \<Longrightarrow> filter_ok f \<Longrightarrow> filter_ok g"
  by (simp add: filter_ok_def untouched_def wave_inert_def tuned_def same_tuning_def)

lemma n3: "k < 3 \<Longrightarrow> k < MEKF_N"
  by (simp add: MEKF_N_def)

lemma blind_dir: "blind (dir_jacobian h)"
  by (auto simp: blind_def dir_jacobian_def)

text \<open>The gain of a filter whose wave state is off does not reach the wave state.\<close>

lemma gain_inert:
  assumes "inert_P P" "i < MEKF_N" "6 \<le> i"
  shows "eskf_protect p (eskf_gain (dir_PHt P H) Sinv) i k = 0"
  using assms by (simp add: eskf_protect_def eskf_gain_def dir_PHt_def inert_P_def split: option.split)

lemma injected_ok:
  assumes f: "filter_ok f" and i: "injected real_libm dx f f'"
    and P: "symmetric (mf_P f')" "psd (mf_P f')"
    and w: "\<not> mf_wave_enabled f \<Longrightarrow> inert_P (mf_P f') \<and> dx 6 = 0 \<and> dx 7 = 0 \<and> dx 8 = 0"
  shows "filter_ok f'"
proof -
  have s: "same_tuning f f'" using i by (simp add: injected_def)
  have q: "unit_q (mf_q f')"
    using i f unit_times [OF _ unit_from_rotvec] by (simp add: injected_def filter_ok_def)
  have "wave_inert f'"
  proof (unfold wave_inert_def, intro impI)
    assume "\<not> mf_wave_enabled f'"
    then have n: "\<not> mf_wave_enabled f" using s by (simp add: same_tuning_def)
    have z: "\<forall>i < 3. mf_wave_acc f i = 0" using f n by (simp add: filter_ok_def wave_inert_def)
    have "mf_wave_acc f' = vec3 (mf_wave_acc f 0 + dx 6) (mf_wave_acc f 1 + dx 7) (mf_wave_acc f 2 + dx 8)"
      using i by (simp add: injected_def)
    then have "\<forall>i. mf_wave_acc f' i = 0" using w [OF n] z by (simp add: vec3_def)
    then show "inert_P (mf_P f') \<and> (\<forall>i < 3. mf_wave_acc f' i = 0)" using w [OF n] by simp
  qed
  then show ?thesis using P q tuned_same [OF s] f by (simp add: filter_ok_def)
qed

lemma eskf_update_ok:
  assumes u: "eskf_update real_libm h z R_noise gate ch a aw R33 protect f = (rc, f')" and f: "filter_ok f"
    and R: "case R33 of Some R \<Rightarrow> psd3 R | None \<Rightarrow> 0 \<le> R_noise" and aw: "\<not> mf_wave_enabled f \<Longrightarrow> aw = None"
  shows "filter_ok f'"
  using u
proof (cases rule: eskf_update_cases)
  case skipped
  then show ?thesis using filter_ok_untouched f by blast
next
  case (applied Sinv innov dx K)
  have psd: "psd (mf_P f')" unfolding applied(6) by (rule psd_joseph [OF _ R]) (use f in \<open>simp add: filter_ok_def\<close>)
  have sym: "symmetric (mf_P f')" unfolding applied(6) by simp
  have inert: "inert_P (mf_P f') \<and> dx 6 = 0 \<and> dx 7 = 0 \<and> dx 8 = 0" if n: "\<not> mf_wave_enabled f"
  proof -
    have P: "inert_P (mf_P f)" using f n by (simp add: filter_ok_def wave_inert_def)
    have H: "blind (snd (eskf_jacobian real_libm h aw))" using aw [OF n] by (simp add: eskf_jacobian_def blind_dir)
    have K: "K i k = 0" if "i < MEKF_N" "6 \<le> i" for i k
      unfolding applied(3) by (rule gain_inert [OF P that])
    then have d: "dx i = 0" if "i < MEKF_N" "6 \<le> i" for i using that by (simp add: applied(4))
    have "inert_P (mf_P f')" unfolding applied(6) by (rule inert_joseph [OF P H]) (simp add: K)
    then show ?thesis using d [of 6] d [of 7] d [of 8] by (simp add: MEKF_N_def)
  qed
  show ?thesis by (rule injected_ok [OF f applied(5) sym psd inert])
qed

lemma eskf_update_yaw_ok:
  assumes u: "eskf_update_yaw real_libm y R_noise f = (rc, f')" and f: "filter_ok f" and R: "0 \<le> R_noise"
  shows "filter_ok f'"
  using u
proof (cases rule: eskf_update_yaw_cases)
  case skipped
  then show ?thesis using filter_ok_untouched f by blast
next
  case (applied c dx K)
  have psd: "psd (mf_P f')" unfolding applied(5) by (rule psd_yaw_joseph [OF _ R]) (use f in \<open>simp add: filter_ok_def\<close>)
  have sym: "symmetric (mf_P f')" unfolding applied(5) by simp
  have inert: "inert_P (mf_P f') \<and> dx 6 = 0 \<and> dx 7 = 0 \<and> dx 8 = 0" if n: "\<not> mf_wave_enabled f"
  proof -
    have P: "inert_P (mf_P f)" using f n by (simp add: filter_ok_def wave_inert_def)
    have K: "K i = 0" if "i < MEKF_N" "6 \<le> i" for i
      using P that by (simp add: applied(3) yaw_gain_def yaw_PHt_def inert_P_def)
    have "inert_P (mf_P f')" unfolding applied(5)
      by (rule inert_yaw_joseph [OF P]) (auto simp: K yaw_H_def)
    then show ?thesis using K [of 6] K [of 7] K [of 8] by (simp add: applied(2) scale_vec_def MEKF_N_def)
  qed
  show ?thesis by (rule injected_ok [OF f applied(4) sym psd inert])
qed

section \<open>The tuning\<close>

definition cfg_ok :: "real mekf_cfg \<Rightarrow> bool" where
  "cfg_ok cfg \<longleftrightarrow> (mc_wave_on cfg \<longrightarrow> 0 < mc_wave_accel_tau_s cfg)"

lemma tuned_derive:
  assumes "0 < mf_dt f" "0 \<le> mf_mag_odr_hz f" "0 \<le> mf_Ra_scale f" "cfg_ok cfg"
  shows "tuned (mekf_derive_tuning real_libm cfg f)"
  using assms by (simp add: tuned_def mekf_derive_tuning_def Let_def cfg_ok_def)

lemma derive_keeps [simp]:
  "mf_P (mekf_derive_tuning F cfg f) = mf_P f" "mf_q (mekf_derive_tuning F cfg f) = mf_q f"
  "mf_wave_acc (mekf_derive_tuning F cfg f) = mf_wave_acc f" "mf_wave_enabled (mekf_derive_tuning F cfg f) = mc_wave_on cfg"
  "mf_dt (mekf_derive_tuning F cfg f) = mf_dt f" "mf_mag_odr_hz (mekf_derive_tuning F cfg f) = mf_mag_odr_hz f"
  "mf_Ra_scale (mekf_derive_tuning F cfg f) = mf_Ra_scale f"
  by (simp_all add: mekf_derive_tuning_def Let_def)

lemma psd_initial: "0 \<le> s \<Longrightarrow> psd (initial_P real_libm e s)"
proof -
  assume s: "0 \<le> s"
  let ?d = "\<lambda>i :: nat. if i < 3 then fsq (of_rat (175 / 1000)) else if i < 6 then fsq (of_rat (1 / 1000)) else if e then s else (0 :: real)"
  have "initial_P real_libm e s = (\<lambda>i j. if i = j then ?d i else 0)"
    by (intro ext) (simp add: initial_P_def)
  then have "quad (initial_P real_libm e s) x = (\<Sum>i<MEKF_N. ?d i * (x i)\<^sup>2)" for x
    by (simp only: quad_diagonal)
  then show ?thesis using s unfolding psd_def by (auto intro!: sum_nonneg mult_nonneg_nonneg simp: fsq_def)
qed

lemma reset_ok:
  assumes "tuned f"
  shows "filter_ok (mekf_reset_state real_libm f)"
proof -
  have p: "psd (initial_P real_libm (mf_wave_enabled f) (mf_wave_sig2 f))"
    by (rule psd_initial) (use assms in \<open>simp add: tuned_def\<close>)
  have i: "inert_P (initial_P real_libm False s)" for s by (simp add: inert_P_def initial_P_def)
  show ?thesis
    using assms p i by (simp add: filter_ok_def tuned_def wave_inert_def mekf_reset_state_def q_norm2_def symmetric_initial vec3_def)
qed

text \<open>The operations on the state that the invariant does not speak of.\<close>

lemma filter_ok_cong:
  assumes "mf_P g = mf_P f" "mf_q g = mf_q f" "mf_wave_acc g = mf_wave_acc f" "same_tuning f g"
  shows "filter_ok g = filter_ok f"
  using assms by (simp add: filter_ok_def wave_inert_def tuned_def same_tuning_def)

lemma mekf_init_ok:
  assumes "0 < odr" "0 \<le> mag_odr" "cfg_ok cfg"
  shows "filter_ok (mekf_init real_libm cfg odr mag_odr b)"
proof -
  let ?f = "mekf_derive_tuning real_libm cfg (mekf_zero\<lparr>mf_dt := 1 / odr, mf_mag_odr_hz := mag_odr\<rparr>)"
  have "tuned ?f" by (rule tuned_derive) (use assms in \<open>simp_all add: mekf_zero_def\<close>)
  then have t: "tuned (?f\<lparr>mf_bias_init := c\<rparr>)" for c by (simp add: tuned_def)
  let ?g = "case b of Some b \<Rightarrow> ?f\<lparr>mf_bias_init := b\<rparr> | None \<Rightarrow> ?f"
  have "tuned ?g" using \<open>tuned ?f\<close> t by (simp split: option.split)
  then have "filter_ok (mekf_reset_state real_libm ?g)" by (rule reset_ok)
  then show ?thesis unfolding mekf_init_def Let_def
    by (simp add: filter_ok_def tuned_def wave_inert_def)
qed

lemma psd_wave_off: "psd P \<Longrightarrow> psd (\<lambda>i j. if 6 \<le> i \<or> 6 \<le> j then 0 else P i j)"
proof -
  assume P: "psd P"
  have "quad (\<lambda>i j. if 6 \<le> i \<or> 6 \<le> j then 0 else P i j) x = quad P (\<lambda>i. if 6 \<le> i then 0 else x i)" for x
    unfolding quad_def by (intro sum.cong refl) (auto intro!: sum.cong)
  then show ?thesis using P by (simp add: psd_def)
qed

lemma psd_wave_on:
  assumes "psd P" "inert_P P" "0 \<le> s"
  shows "psd (\<lambda>i j. if i = j \<and> 6 \<le> i then s else P i j)"
proof -
  let ?d = "\<lambda>i :: nat. if 6 \<le> i then s else 0"
  have "quad (\<lambda>i j. if i = j \<and> 6 \<le> i then s else P i j) x = quad (\<lambda>i j. P i j + (if i = j then ?d i else 0)) x" for x
    unfolding quad_def by (intro sum.cong refl arg_cong2 [of _ _ _ _ "(*)"]) (use assms(2) in \<open>auto simp: inert_P_def\<close>)
  then have "quad (\<lambda>i j. if i = j \<and> 6 \<le> i then s else P i j) x = quad P x + (\<Sum>i<MEKF_N. ?d i * (x i)\<^sup>2)" for x
    by (simp only: quad_add quad_diagonal)
  then show ?thesis using assms(1,3) unfolding psd_def by (auto intro!: add_nonneg_nonneg sum_nonneg)
qed

lemma mekf_reconfigure_ok:
  assumes f: "filter_ok f" and c: "cfg_ok cfg"
  shows "filter_ok (mekf_reconfigure real_libm cfg f)"
proof -
  let ?g = "mekf_derive_tuning real_libm cfg f"
  have t: "tuned ?g" by (rule tuned_derive) (use f c in \<open>simp_all add: filter_ok_def tuned_def\<close>)
  have P: "psd (mf_P f)" "symmetric (mf_P f)" "unit_q (mf_q f)" using f by (simp_all add: filter_ok_def)
  consider "mc_wave_on cfg" "\<not> mf_wave_enabled f" | "\<not> mc_wave_on cfg" "mf_wave_enabled f"
    | "mc_wave_on cfg = mf_wave_enabled f" by blast
  then show ?thesis
  proof cases
    case 1
    then have "inert_P (mf_P f)" using f by (simp add: filter_ok_def wave_inert_def)
    moreover have "0 \<le> mf_wave_sig2 ?g" using t by (simp add: tuned_def)
    ultimately have "psd (\<lambda>i j. if i = j \<and> 6 \<le> i then mf_wave_sig2 ?g else mf_P f i j)" by (rule psd_wave_on [OF P(1)])
    then show ?thesis using 1 t P unfolding mekf_reconfigure_def Let_def derive_keeps
      by (auto simp: filter_ok_def tuned_def wave_inert_def symmetric_def)
  next
    case 2
    then show ?thesis using t P psd_wave_off [OF P(1)] unfolding mekf_reconfigure_def Let_def derive_keeps
      by (auto simp: filter_ok_def tuned_def wave_inert_def symmetric_def inert_P_def vec3_def)
  next
    case 3
    then show ?thesis using t P f
      by (auto simp: mekf_reconfigure_def Let_def filter_ok_def wave_inert_def)
  qed
qed

section \<open>One lemma per operation\<close>

lemma mekf_predict_ok:
  assumes f: "filter_ok f"
  shows "filter_ok (mekf_predict real_libm gyro dt_s f)"
proof (cases "mf_initialized f")
  case False
  then show ?thesis using f by (simp add: mekf_predict_def)
next
  case True
  define dt where "dt = (if dt_s > 0 then dt_s else mf_dt f)"
  define w where "w = vec3 (gyro 0 - mf_bias f 0) (gyro 1 - mf_bias f 1) (gyro 2 - mf_bias f 2)"
  obtain phi qw where pq: "wave_step real_libm dt f = (phi, qw)" by fastforce
  define P where "P = predict_P real_libm w dt phi qw f"
  let ?g = "mekf_predict real_libm gyro dt_s f"
  have g: "?g = f\<lparr>mf_q := q_normalize real_libm (q_mul (mf_q f) (q_from_rotvec real_libm (vec3 (w 0 * dt) (w 1 * dt) (w 2 * dt)))),
      mf_wave_acc := (if mf_wave_enabled f then (\<lambda>i. mf_wave_acc f i * phi) else mf_wave_acc f),
      mf_P := P, mf_converged := P 0 0 + P 1 1 + P 2 2 < mf_conv_thresh f\<rparr>"
    using True pq unfolding mekf_predict_def Let_def dt_def [symmetric] w_def [symmetric] by (simp add: P_def)
  have t: "tuned f" using f by (simp add: filter_ok_def)
  then have dt: "0 < dt" "0 < mf_dt f" by (simp_all add: dt_def tuned_def)
  then have s: "0 \<le> dt / mf_dt f" by simp
  have qw: "0 \<le> qw" "\<not> mf_wave_enabled f \<Longrightarrow> phi = 1"
  proof -
    have "0 \<le> - mf_wave_sig2 f * (exp (- 2 * dt / mf_wave_tau f) - 1)" if "mf_wave_enabled f"
    proof -
      have "exp (- 2 * dt / mf_wave_tau f) \<le> 1" using t dt that by (simp add: tuned_def)
      then show ?thesis using t by (simp add: tuned_def mult_nonneg_nonpos)
    qed
    then show "0 \<le> qw" "\<not> mf_wave_enabled f \<Longrightarrow> phi = 1" using pq by (auto simp: wave_step_def split: if_splits)
  qed
  have psd: "psd P" unfolding P_def
    by (rule psd_predict) (use t f s qw in \<open>simp_all add: tuned_def filter_ok_def del: times_divide_eq_right\<close>)
  have sym: "symmetric P" by (simp add: P_def)
  have inert: "inert_P P" if "\<not> mf_wave_enabled f"
    using inert_predict [of f w dt qw] f that qw(2) [OF that] by (simp add: P_def filter_ok_def wave_inert_def)
  have q: "unit_q (mf_q ?g)" unfolding g using unit_times [OF _ unit_from_rotvec] f by (simp add: filter_ok_def)
  show ?thesis using q psd sym inert f unfolding g by (simp add: filter_ok_def tuned_def wave_inert_def)
qed

lemma mekf_align_ok:
  assumes f: "filter_ok f"
  shows "filter_ok (mekf_align real_libm accel mag f)"
proof (cases "v3_norm real_libm accel < lit real_libm (1 / 2) * G_MS2 real_libm")
  case True
  then show ?thesis using f by (simp add: mekf_align_def)
next
  case False
  have u: "unit_q (q_normalize real_libm (q_mul (vec4 (cos a) 0 0 (sin a)) (align_tilt real_libm n v)))" for a n v
    by (rule unit_times [OF unit_yaw unit_align_tilt])
  show ?thesis using f u False unfolding mekf_align_def Let_def
    by (simp add: filter_ok_def tuned_def wave_inert_def split: option.split)
qed

lemma mekf_update_accel_ok:
  assumes f: "filter_ok f"
  shows "filter_ok (mekf_update_accel real_libm accel gyro f)"
proof (cases "mf_initialized f")
  case False
  then show ?thesis using f by (simp add: mekf_update_accel_def)
next
  case True
  obtain ag zh where geo: "accel_geometry real_libm accel gyro f = (ag, zh)" by fastforce
  define g where "g = f\<lparr>mf_acc_quiet_ema := mf_acc_quiet_ema f + ((ag - 1) * (ag - 1) - mf_acc_quiet_ema f) * (mf_dt f / lit real_libm 2),
      mf_health_dt_accum := mf_health_dt_accum f + mf_dt f\<rparr>"
  have g: "filter_ok g" using f unfolding g_def by (simp add: filter_ok_def tuned_def wave_inert_def)
  show ?thesis
  proof (cases zh)
    case None
    then show ?thesis using True geo g unfolding mekf_update_accel_def Let_def by (simp add: g_def)
  next
    case (Some zz)
    obtain z h where zz: "zz = (z, h)" by fastforce
    define k where "k = g\<lparr>mf_health_dt_accum := 0, mf_g_body := z, mf_g_body_valid := True\<rparr>"
    have k: "filter_ok k" using g unfolding k_def by (simp add: filter_ok_def tuned_def wave_inert_def)
    define R where "R = mf_Ra g * mf_Ra_scale g"
    have R: "0 \<le> R" using g by (simp add: R_def filter_ok_def tuned_def)
    define al where "al = mekf_ema_alpha real_libm (mf_health_dt_accum g) (GATE_TAU_S real_libm)"
    obtain rc f' where u: "eskf_update real_libm h z R (ACCEL_CHI2_GATE real_libm) (Some Nis_accel) al
        (if mf_wave_enabled k then Some (mf_wave_acc k) else None) None (Some h) k = (rc, f')" by fastforce
    have e: "mekf_update_accel real_libm accel gyro f = f'"
      using True geo Some zz u unfolding mekf_update_accel_def Let_def
      by (cases "mf_wave_enabled f") (simp_all add: g_def k_def R_def al_def)
    show ?thesis unfolding e by (rule eskf_update_ok [OF u k]) (use R in simp_all)
  qed
qed

text \<open>The magnetometer.\<close>

lemma filter_ok_if: "filter_ok f \<Longrightarrow> filter_ok g \<Longrightarrow> filter_ok (if c then f else g)"
  by simp

lemma mref_acquire_ok:
  assumes f: "filter_ok f"
  shows "filter_ok (mref_acquire real_libm m f)"
proof -
  have sums: "filter_ok (g\<lparr>mf_mref_sum := a, mf_mref_n := n\<rparr>)" if "filter_ok g" for g a n
    using that by (simp add: filter_ok_def tuned_def wave_inert_def)
  have turn: "filter_ok (g\<lparr>mf_q := q_normalize real_libm (q_mul (vec4 (fcos real_libm a) 0 0 (fsin real_libm a)) (mf_q g)),
      mf_m_ref := r, mf_m_ref_valid := v\<rparr>)" if "filter_ok g" for g a r v
    using that unit_times [OF unit_yaw] by (simp add: filter_ok_def tuned_def wave_inert_def)
  show ?thesis unfolding mref_acquire_def Let_def by (intro filter_ok_if turn sums f)
qed

lemma mag_diagnose_ok: "filter_ok f \<Longrightarrow> filter_ok (mag_diagnose real_libm z h m f)"
  unfolding mag_diagnose_def Let_def by (simp add: filter_ok_def tuned_def wave_inert_def)

lemma mref_learn_ok: "filter_ok f \<Longrightarrow> filter_ok (mref_learn real_libm m z f)"
  unfolding mref_learn_def Let_def by (simp add: filter_ok_def tuned_def wave_inert_def)

lemma uncal_withdraw_keeps:
  assumes "uncal_withdraw F uncal a b f = (w, g)"
  shows "untouched f g"
  using assms by (auto simp: uncal_withdraw_def Let_def untouched_def same_tuning_def split: if_splits)

lemma count_accepted_ok: "filter_ok (snd r) \<Longrightarrow> filter_ok (count_accepted r)"
  by (cases r) (simp add: count_accepted_def filter_ok_def tuned_def wave_inert_def)

lemma dip_noise_psd:
  assumes "dip_noise real_libm R h a b Rm f = Some D" "0 \<le> Rm" "0 \<le> mf_dip_sig2 f"
  shows "psd3 D"
proof -
  have "\<exists>u. D = (\<lambda>i j. (if i = j then Rm else 0) + mf_dip_sig2 f * u i * u j)"
    using assms(1) unfolding dip_noise_def Let_def
    by (simp only: option.inject option.distinct(1) split: if_split_asm) (rule exI, erule sym)
  then obtain u :: "nat \<Rightarrow> real" where D: "D = (\<lambda>i j. (if i = j then Rm else 0) + mf_dip_sig2 f * u i * u j)" by blast
  have s3: "(\<Sum>k<3. g k) = g 0 + g 1 + g 2" for g :: "nat \<Rightarrow> real" by (simp add: eval_nat_numeral)
  have "(\<Sum>k<3. \<Sum>l<3. y k * D k l * y l) = Rm * ((y 0)\<^sup>2 + (y 1)\<^sup>2 + (y 2)\<^sup>2) + mf_dip_sig2 f * (y 0 * u 0 + y 1 * u 1 + y 2 * u 2)\<^sup>2" for y
    unfolding D s3 by (simp add: power2_eq_square algebra_simps)
  then show ?thesis using assms(2,3) by (simp add: psd3_def)
qed

lemma mag_fuse_ok:
  assumes f: "filter_ok f"
  shows "filter_ok (mag_fuse real_libm uncal R m_ned h z h_mag res_sq f)"
proof -
  have t: "0 \<le> mf_Rm f" "0 \<le> mf_dip_sig2 f" using f by (simp_all add: filter_ok_def tuned_def)
  have yaw: "filter_ok (count_accepted (eskf_update_yaw real_libm y (mf_Rm g / (a * a)) g))"
    if "filter_ok g" "mf_Rm g = mf_Rm f" for g y a
  proof (rule count_accepted_ok)
    obtain rc f' where u: "eskf_update_yaw real_libm y (mf_Rm g / (a * a)) g = (rc, f')" by fastforce
    show "filter_ok (snd (eskf_update_yaw real_libm y (mf_Rm g / (a * a)) g))"
      using eskf_update_yaw_ok [OF u that(1)] t that(2) u by simp
  qed
  have vec: "filter_ok (count_accepted (eskf_update real_libm h z (mf_Rm f / (a * a)) c ch al None
      (dip_noise real_libm R h b a (mf_Rm f / (a * a)) f) None f))" for a b c ch al
  proof (rule count_accepted_ok)
    let ?D = "dip_noise real_libm R h b a (mf_Rm f / (a * a)) f"
    obtain rc f' where u: "eskf_update real_libm h z (mf_Rm f / (a * a)) c ch al None ?D None f = (rc, f')" by fastforce
    have D: "case ?D of Some R \<Rightarrow> psd3 R | None \<Rightarrow> 0 \<le> mf_Rm f / (a * a)"
      using dip_noise_psd [of R h b a "mf_Rm f / (a * a)" f] t by (simp split: option.split)
    show "filter_ok (snd (eskf_update real_libm h z (mf_Rm f / (a * a)) c ch al None ?D None f))"
      using eskf_update_ok [OF u f D] u by simp
  qed
  have w: "filter_ok (case uncal_withdraw real_libm uncal b a f of (True, f) \<Rightarrow> f
      | (False, f) \<Rightarrow> count_accepted (eskf_update_yaw real_libm y (mf_Rm f / (b * b)) f))" for a b y
  proof -
    obtain w g where u: "uncal_withdraw real_libm uncal b a f = (w, g)" by fastforce
    have "untouched f g" by (rule uncal_withdraw_keeps [OF u])
    then have "filter_ok g" "mf_Rm g = mf_Rm f" using filter_ok_untouched f by (auto simp: untouched_def same_tuning_def)
    then show ?thesis using u yaw by (simp split: bool.split)
  qed
  show ?thesis unfolding mag_fuse_def Let_def by (intro filter_ok_if f vec w)
qed

lemma mekf_update_mag_ok:
  assumes f: "filter_ok f"
  shows "filter_ok (mekf_update_mag real_libm m f)"
proof -
  have s: "filter_ok (f\<lparr>mf_mag_uncal_seen := True\<rparr>)" using f by (simp add: filter_ok_def tuned_def wave_inert_def)
  show ?thesis unfolding mekf_update_mag_def Let_def
    by (intro filter_ok_if f s mref_acquire_ok mag_diagnose_ok mref_learn_ok mag_fuse_ok)
qed

lemma mekf_set_mref_ok: "filter_ok f \<Longrightarrow> filter_ok (mekf_set_mref_invariants real_libm h z f)"
  unfolding mekf_set_mref_invariants_def Let_def by (simp add: filter_ok_def tuned_def wave_inert_def)

lemma mekf_sanitize_ok:
  assumes f: "filter_ok f"
  shows "filter_ok (snd (mekf_sanitize real_libm f))"
proof -
  have "tuned (f\<lparr>mf_reset_count := n\<rparr>)" for n using f by (simp add: filter_ok_def tuned_def)
  then have "filter_ok (mekf_reset_state real_libm (f\<lparr>mf_reset_count := n\<rparr>))" for n by (rule reset_ok)
  then show ?thesis using f unfolding mekf_sanitize_def Let_def by (simp add: filter_ok_def tuned_def wave_inert_def)
qed

lemma fusion_engine_ok: "filter_ok f \<Longrightarrow> filter_ok (fusion_engine real_libm on sk f)"
  by (simp add: fusion_engine_def filter_ok_def tuned_def wave_inert_def)

lemma fusion_speed_ok: "filter_ok f \<Longrightarrow> filter_ok (fusion_speed v f)"
  by (simp add: fusion_speed_def filter_ok_def tuned_def wave_inert_def)

fun op_ok :: "real filter_op \<Rightarrow> bool" where
  "op_ok (Op_reconfigure cfg) = cfg_ok cfg"
| "op_ok _ = True"

lemma filter_step_ok: "filter_ok f \<Longrightarrow> op_ok op \<Longrightarrow> filter_ok (filter_step real_libm op f)"
  by (cases op)
    (simp_all add: mekf_align_ok mekf_predict_ok mekf_update_accel_ok mekf_update_mag_ok mekf_set_mref_ok mekf_reconfigure_ok
      mekf_sanitize_ok fusion_engine_ok fusion_speed_ok)

lemma filter_run_ok: "filter_ok f \<Longrightarrow> list_all op_ok ops \<Longrightarrow> filter_ok (filter_run real_libm ops f)"
  by (induction ops arbitrary: f) (simp_all add: filter_run_def filter_step_ok)

text \<open>C16: Whatever is measured and however the filter is retuned, aligned, reset and predicted, in exact arithmetic the
  covariance it holds is symmetric and positive semidefinite, the attitude is a unit quaternion, and a wave state
  that is switched off has neither mean nor covariance, also when the configuration turned it off or on in between.\<close>

theorem filter_invariants:
  assumes "0 < odr" "0 \<le> mag_odr" "cfg_ok cfg" "list_all op_ok ops"
    and "f = filter_run real_libm ops (mekf_init real_libm cfg odr mag_odr bias)"
  shows "(\<forall>i j. mf_P f i j = mf_P f j i) \<and> (\<forall>x. 0 \<le> quad (mf_P f) x) \<and> unit_q (mf_q f) \<and> wave_inert f"
  using filter_run_ok [OF mekf_init_ok [OF assms(1,2,3)] assms(4)] unfolding assms(5)
  by (simp add: filter_ok_def symmetric_def psd_def)

definition some_cfg :: "bool \<Rightarrow> real mekf_cfg" where
  "some_cfg wave = \<lparr>mc_gyro_noise = 1, mc_gyro_bias = 1, mc_accel_noise = 1, mc_mag_noise = 1, mc_wave_accel = 1, mc_wave_accel_tau_s = 2,
     mc_wave_on = wave, mc_mag_dip_sigma_deg = 1, mc_accel_skip_thresh = 1, mc_mag_reject_gauss = 1, mc_mag_yaw_only = False,
     mc_mag_fuse_uncal = False, mc_mag_uncal_reject_frac = 0\<rparr>"

theorem filter_invariants_witness:
  "let f = filter_run real_libm [Op_align (vec3 0 0 (- 10)) (Some (vec3 20 0 40)), Op_predict (vec3 1 0 0) 0,
       Op_accel (vec3 1 0 (- 10)) (vec3 1 0 0), Op_mag \<lparr>fi_field = vec3 20 1 40, fi_valid = True, fi_calibrated = True\<rparr>,
       Op_reconfigure (some_cfg True), Op_predict (vec3 1 0 0) 0, Op_reconfigure (some_cfg False)]
       (mekf_init real_libm (some_cfg False) 100 10 None)
   in (\<forall>x. 0 \<le> quad (mf_P f) x) \<and> unit_q (mf_q f) \<and> wave_inert f"
  unfolding Let_def
  by (rule filter_invariants [where odr = 100 and mag_odr = 10 and cfg = "some_cfg False", OF _ _ _ _ refl, THEN conjunct2])
    (simp_all add: cfg_ok_def some_cfg_def)

end
