(* ===== verification/MekfProps.thy ===== *)
theory MekfProps
  imports MekfInv
begin

text \<open>
  Further properties of the filter: symmetry of the covariance in any arithmetic, what a gravity correction leaves
  alone, what an alignment establishes, and the recovery from numbers that are not finite.
\<close>

section \<open>Symmetry in any arithmetic\<close>

lemma symmetric_eskf:
  assumes "symmetric (mf_P f)"
  shows "symmetric (mf_P (snd (eskf_update F h z Rn gate ch a aw R33 protect f)))"
proof -
  obtain rc f' where u: "eskf_update F h z Rn gate ch a aw R33 protect f = (rc, f')" by fastforce
  then have "symmetric (mf_P f')"
    by (cases rule: eskf_update_cases) (use assms in \<open>simp_all add: untouched_def\<close>)
  then show ?thesis using u by simp
qed

lemma symmetric_yaw:
  assumes "symmetric (mf_P f)"
  shows "symmetric (mf_P (snd (eskf_update_yaw F y Rn f)))"
proof -
  obtain rc f' where u: "eskf_update_yaw F y Rn f = (rc, f')" by fastforce
  then have "symmetric (mf_P f')"
    by (cases rule: eskf_update_yaw_cases) (use assms in \<open>simp_all add: untouched_def\<close>)
  then show ?thesis using u by simp
qed

lemma count_accepted_P [simp]: "mf_P (count_accepted r) = mf_P (snd r)"
  by (cases r) (simp add: count_accepted_def)

lemma symmetric_if: "symmetric (mf_P f) \<Longrightarrow> symmetric (mf_P g) \<Longrightarrow> symmetric (mf_P (if c then f else g))"
  by simp

lemma symmetric_mag_fuse:
  assumes "symmetric (mf_P f)"
  shows "symmetric (mf_P (mag_fuse F uncal R m_ned h z h_mag res_sq f))"
proof -
  have w: "symmetric (mf_P (case uncal_withdraw F uncal b a f of (True, f) \<Rightarrow> f
      | (False, f) \<Rightarrow> count_accepted (eskf_update_yaw F y (mf_Rm f / (b * b)) f)))" for a b y
  proof -
    obtain w g where u: "uncal_withdraw F uncal b a f = (w, g)" by fastforce
    have "untouched f g" by (rule uncal_withdraw_keeps [OF u])
    then have "symmetric (mf_P g)" using assms by (simp add: untouched_def)
    then show ?thesis using u by (simp add: symmetric_yaw split: bool.split)
  qed
  have v: "symmetric (mf_P (count_accepted (eskf_update F h z Rn gate ch a aw R33 protect f)))" for Rn gate ch a aw R33 protect
    using symmetric_eskf [OF assms] by simp
  show ?thesis unfolding mag_fuse_def Let_def by (intro symmetric_if assms w v)
qed

lemma P_keeps [simp]:
  "mf_P (mref_acquire F m f) = mf_P f" "mf_P (mag_diagnose F a b c f) = mf_P f" "mf_P (mref_learn F d a f) = mf_P f"
  "mf_P (mekf_align F v w f) = mf_P f" "mf_P (mekf_set_mref_invariants F a b f) = mf_P f"
  "mf_P (fusion_engine F on a f) = mf_P f" "mf_P (fusion_speed s f) = mf_P f"
  by (simp_all add: mref_acquire_def mag_diagnose_def mref_learn_def mekf_align_def mekf_set_mref_invariants_def
      fusion_engine_def fusion_speed_def Let_def split: option.split)

lemma symmetric_step:
  assumes "symmetric (mf_P f)"
  shows "symmetric (mf_P (filter_step F op f))"
proof (cases op)
  case (Op_predict gyro dt)
  then show ?thesis using assms by (simp add: mekf_predict_def Let_def wave_step_def)
next
  case (Op_accel accel gyro)
  obtain ag zh where "accel_geometry F accel gyro f = (ag, zh)" by fastforce
  then show ?thesis unfolding Op_accel filter_step.simps mekf_update_accel_def Let_def
    by (auto split: option.split intro!: symmetric_if symmetric_eskf simp: assms)
next
  case (Op_mag m)
  have s: "symmetric (mf_P (f\<lparr>mf_mag_uncal_seen := True\<rparr>))" using assms by simp
  have a: "symmetric (mf_P (mag_diagnose F a b c g))" "symmetric (mf_P (mref_learn F d a g))" "symmetric (mf_P (mref_acquire F m g))"
    if "symmetric (mf_P g)" for a b c d m g using that by simp_all
  show ?thesis unfolding Op_mag filter_step.simps mekf_update_mag_def Let_def
    by (intro symmetric_if symmetric_mag_fuse a s assms)
next
  case (Op_reconfigure cfg)
  then show ?thesis using assms by (auto simp: mekf_reconfigure_def Let_def symmetric_def)
next
  case Op_sanitize
  then show ?thesis using assms by (simp add: mekf_sanitize_def Let_def mekf_reset_state_def symmetric_initial)
qed (use assms in simp_all)

lemma mekf_init_P: "mf_P (mekf_init F cfg odr mag_odr b) =
    initial_P F (mf_wave_enabled (mekf_init F cfg odr mag_odr b)) (mf_wave_sig2 (mekf_init F cfg odr mag_odr b))"
  by (simp add: mekf_init_def Let_def mekf_reset_state_def)

text \<open>The covariance is symmetric entry for entry after every sequence of operations, in whatever arithmetic they are
  computed: no rounding, no gate and no reset ever leaves the two triangles apart.\<close>

theorem covariance_symmetric:
  "mf_P (filter_run F ops (mekf_init F cfg odr mag_odr bias)) i j = mf_P (filter_run F ops (mekf_init F cfg odr mag_odr bias)) j i"
proof -
  have run: "symmetric (mf_P (filter_run F ops f))" if "symmetric (mf_P f)" for f
    using that by (induction ops arbitrary: f) (simp_all add: filter_run_def symmetric_step)
  have "symmetric (mf_P (filter_run F ops (mekf_init F cfg odr mag_odr bias)))"
    by (rule run) (simp only: mekf_init_P symmetric_initial)
  then show ?thesis unfolding symmetric_def by blast
qed

section \<open>The recovery\<close>

lemma finite_literals:
  assumes "single F"
  shows "ffinite F 0" "ffinite F 1"
  using assms by (simp_all add: single_def flt_finite_def zero_flt_def one_flt_def)

lemma to_float_bounded:
  assumes "0 \<le> q" "q < 2 ^ n" "n \<le> 100"
  obtains v where "to_float q = Some v" "0 \<le> v" "v \<le> 2 ^ n"
proof (cases "q = 0")
  case True
  then show ?thesis using that [of 0] by (simp add: to_float_def fp_round_def)
next
  case False
  then have q: "0 < q" using assms(1) by simp
  let ?e = "f32_exp q" and ?m = "round_even (q / 2 powi f32_exp q)"
  have "?e \<le> int n - 24"
  proof -
    obtain a b where qo: "quotient_of q = (a, b)" by fastforce
    define k where "k = int (nat_bits (nat a)) - int (nat_bits (nat b))"
    define l where "l = (if 2 powi k \<le> q then k else k - 1)"
    have "2 powi l \<le> q" using binade_of [OF q qo k_def l_def] by simp
    then have "(2 :: rat) powi l < 2 powi int n" using assms(2) by simp
    then have "\<not> int n \<le> l" using power_int_increasing [of "int n" l "2 :: rat"] by linarith
    then show ?thesis unfolding f32_exp_def qo Let_def prod.case k_def [symmetric] l_def [symmetric] by simp
  qed
  then have e: "(2 :: rat) powi ?e \<le> 2 powi (int n - 24)" by (intro power_int_increasing) simp_all
  have m: "(of_int ?m :: rat) \<le> of_int (2 ^ 24)" "0 \<le> (of_int ?m :: rat)"
    using to_float_parts(2,3) [OF q] unfolding of_int_le_iff by simp_all
  have "of_int ?m * 2 powi ?e \<le> of_int (2 ^ 24) * (2 :: rat) powi (int n - 24)" by (rule mult_mono [OF m(1) e]) simp_all
  also have "\<dots> = 2 powi 24 * 2 powi (int n - 24)" by simp
  also have "\<dots> = 2 powi int n" using power_int_add [of "2 :: rat" 24 "int n - 24"] by simp
  finally have v: "of_int ?m * 2 powi ?e \<le> (2 :: rat) ^ n" by simp
  have "(2 :: rat) ^ n \<le> 2 ^ 100" using assms(3) by (intro power_increasing) simp_all
  then have "\<not> of_int ?m * 2 powi ?e \<ge> (2 :: rat) powi 128" using v by simp
  then show ?thesis using that [of "of_int ?m * 2 powi ?e"] to_float_parts(1) [OF q] v m(2) by simp
qed

lemma rnd32_finite:
  assumes "0 \<le> q" "q < 2 ^ n" "n \<le> 100"
  obtains v where "rnd32 (Fin s q) = Flt (Fin s v)" "0 \<le> v" "v \<le> 2 ^ n"
  using to_float_bounded [OF assms] f32_dec_enc [OF assms(1), of s]
  by (metis (no_types, lifting) option.simps(5) rnd32_def)

text \<open>The variances of a fresh filter are finite numbers.\<close>

lemma finite_fsq_lit:
  assumes "0 \<le> q" "q \<le> 1"
  shows "flt_finite (fsq (flt_lit q))"
proof -
  obtain v where v: "rnd32 (Fin False q) = Flt (Fin False v)" "0 \<le> v" "v \<le> 2 ^ 24"
    by (rule rnd32_finite [of q 24 False]) (use assms in simp_all)
  have p: "0 \<le> v * v" "v * v < 2 ^ 60" using v mult_mono [OF v(3) v(3)] by simp_all
  obtain w where "rnd32 (Fin False (v * v)) = Flt (Fin False w)"
    by (rule rnd32_finite [OF p]) simp_all
  then show ?thesis using assms v by (simp add: fsq_def flt_lit_def times_flt_def flt_finite_def)
qed

lemma reset_finite:
  assumes "single F" "\<forall>i < 3. ffinite F (mf_bias_init f i)" "ffinite F (mf_wave_sig2 f)"
  shows "mekf_ok F (mekf_reset_state F f)"
proof -
  have l: "lit F = flt_lit" "ffinite F = flt_finite" using assms(1) by (simp_all add: single_def)
  have z: "flt_finite 0" "flt_finite 1" using finite_literals [OF assms(1)] by (simp_all add: l)
  have q: "flt_finite (fsq (flt_lit (175 / 1000)))" "flt_finite (fsq (flt_lit (1 / 1000)))"
    by (rule finite_fsq_lit; simp)+
  have P: "flt_finite (initial_P F e s i i)" if "flt_finite s" for e s i
    using q z that unfolding initial_P_def l by simp
  have b: "\<forall>i < 3. flt_finite (mf_bias_init f i)" "flt_finite (mf_wave_sig2 f)" using assms(2,3) by (simp_all add: l)
  show ?thesis
    using b z P unfolding mekf_ok_def mekf_reset_state_def l by (simp add: list_all_iff vec3_def vec4_def)
qed

lemma sanitize_finite:
  assumes "single F" "\<forall>i < 3. ffinite F (mf_bias_init f i)" "ffinite F (mf_wave_sig2 f)"
  shows "mekf_ok F (snd (mekf_sanitize F f))"
proof (cases "mekf_ok F f")
  case True
  then show ?thesis by (simp add: mekf_sanitize_def)
next
  case False
  let ?n = "if mf_reset_count f < 0xFFFFFFFF then mf_reset_count f + 1 else mf_reset_count f"
  have "mekf_ok F (mekf_reset_state F (f\<lparr>mf_reset_count := ?n\<rparr>))" by (rule reset_finite [OF assms(1)]) (use assms in simp_all)
  then show ?thesis using False by (simp add: mekf_sanitize_def Let_def mekf_ok_def)
qed

text \<open>C20: The check for finite numbers leaves a state of finite numbers. It fires exactly on a state that is not one; then
  the attitude is given up (not initialised, not converged, no heading reference), the reset is latched and counted
  without wrapping, the tuning kept. Else nothing changes.\<close>

theorem sanitize_recovers:
  assumes "single F" "\<forall>i < 3. ffinite F (mf_bias_init f i)" "ffinite F (mf_wave_sig2 f)"
    and "mekf_sanitize F f = (fired, f')"
  shows "mekf_ok F f' \<and> (fired \<longleftrightarrow> \<not> mekf_ok F f) \<and> (\<not> fired \<longrightarrow> f' = f) \<and>
    (fired \<longrightarrow> \<not> mf_initialized f' \<and> \<not> mf_converged f' \<and> \<not> mf_m_ref_valid f' \<and> mf_state_reset f' \<and> same_tuning f f' \<and>
       mf_bias f' = mf_bias_init f \<and> unat (mf_reset_count f') = min (unat (mf_reset_count f) + 1) (2 ^ 32 - 1))"
proof (cases "mekf_ok F f")
  case True
  then show ?thesis using assms(4) by (simp add: mekf_sanitize_def)
next
  case False
  let ?n = "if mf_reset_count f < 0xFFFFFFFF then mf_reset_count f + 1 else mf_reset_count f"
  let ?g = "mekf_reset_state F (f\<lparr>mf_reset_count := ?n\<rparr>)"
  have fired: fired and f': "f' = ?g\<lparr>mf_initialized := False, mf_converged := False, mf_m_ref_valid := False, mf_mref_n := 0,
      mf_mref_sum := vec3 0 0 0, mf_state_reset := True\<rparr>"
    using assms(4) False by (simp_all add: mekf_sanitize_def Let_def)
  have ok: "mekf_ok F f'" using sanitize_finite [OF assms(1-3)] assms(4) by simp
  have n: "unat ?n = min (unat (mf_reset_count f) + 1) (2 ^ 32 - 1)"
  proof (cases "mf_reset_count f < 0xFFFFFFFF")
    case True
    then have "unat (mf_reset_count f) < 2 ^ 32 - 1" by (simp add: word_less_iff_unsigned [where 'a = nat])
    then show ?thesis using True by (simp add: unat_word_ariths)
  next
    case False
    then show ?thesis using unsigned_less [of "mf_reset_count f", where 'a = nat]
      by (simp add: word_less_iff_unsigned [where 'a = nat])
  qed
  show ?thesis using ok fired False n unfolding f' by (simp add: mekf_reset_state_def same_tuning_def)
qed

text \<open>Library functions to apply the properties to: a not-a-number stays one, everything else is one.\<close>

definition some_libm :: "flt libm" where
  "some_libm = \<lparr>lit = flt_lit, fsqrt = (\<lambda>x. if flv x = NaN then x else 1), fsin = (\<lambda>_. 1), fcos = (\<lambda>_. 1), fasin = (\<lambda>_. 1),
     fatan2 = (\<lambda>_ _. 1), fexp = (\<lambda>_. 1), fexpm1 = (\<lambda>_. 1), ffinite = flt_finite\<rparr>"

lemma single_some: "single some_libm"
  by (simp add: single_def some_libm_def)

theorem sanitize_recovers_witness:
  "let f = (mekf_zero :: flt mekf)\<lparr>mf_q := (\<lambda>_. Flt NaN), mf_initialized := True\<rparr>; r = mekf_sanitize some_libm f
   in fst r \<and> mekf_ok some_libm (snd r) \<and> \<not> mf_initialized (snd r)"
proof -
  let ?f = "(mekf_zero :: flt mekf)\<lparr>mf_q := (\<lambda>_. Flt NaN), mf_initialized := True\<rparr>"
  obtain b g where r: "mekf_sanitize some_libm ?f = (b, g)" by fastforce
  have "\<not> mekf_ok some_libm ?f" by (simp add: mekf_ok_def some_libm_def flt_finite_def list_all_iff) (rule disjI1, rule exI [of _ 0], simp)
  moreover have "\<forall>i < 3. ffinite some_libm (mf_bias_init ?f i)" "ffinite some_libm (mf_wave_sig2 ?f)"
    by (simp_all add: mekf_zero_def finite_literals [OF single_some])
  note sanitize_recovers [OF single_some this r]
  ultimately show ?thesis unfolding Let_def r by simp
qed

section \<open>The quiescence measure\<close>

lemma NaN_ops [simp]:
  "Flt NaN + x = Flt NaN" "x + Flt NaN = Flt NaN" "Flt NaN - x = Flt NaN" "x - Flt NaN = Flt NaN"
  "Flt NaN * x = Flt NaN" "x * Flt NaN = Flt NaN" "Flt NaN / x = Flt NaN"
proof -
  have n: "rnd32 NaN = Flt NaN" by (simp add: rnd32_def f32_dec_def)
  have a: "fl_add y NaN = NaN" "fl_mul y NaN = NaN" for y by (cases y; simp)+
  show "Flt NaN + x = Flt NaN" "x + Flt NaN = Flt NaN" "Flt NaN - x = Flt NaN" "x - Flt NaN = Flt NaN"
    "Flt NaN * x = Flt NaN" "x * Flt NaN = Flt NaN" "Flt NaN / x = Flt NaN"
    by (simp_all add: plus_flt_def minus_flt_def times_flt_def divide_flt_def n a)
qed

lemma gate_quiet [simp]:
  "mf_acc_quiet_ema (gate_health a w r f) = mf_acc_quiet_ema f" "mf_acc_quiet_ema (nis_feed F c a d n f) = mf_acc_quiet_ema f"
  by (simp_all add: gate_health_def nis_feed_def split: nis_channel.split)

lemma eskf_gate_quiet:
  "eskf_gate F Si g ch a innov f = (r, f') \<Longrightarrow> mf_acc_quiet_ema f' = mf_acc_quiet_ema f"
  by (auto simp: eskf_gate_def Let_def split: if_splits option.splits)

lemma eskf_update_quiet [simp]:
  "mf_acc_quiet_ema (snd (eskf_update F h z Rn gate ch a aw R33 protect f)) = mf_acc_quiet_ema f"
  by (auto simp: eskf_update_def Let_def eskf_inject_def split: prod.split option.split dest: eskf_gate_quiet)

lemma eskf_update_yaw_quiet [simp]:
  "mf_acc_quiet_ema (snd (eskf_update_yaw F y Rn f)) = mf_acc_quiet_ema f"
  by (simp add: eskf_update_yaw_def Let_def eskf_inject_def)

lemma count_accepted_quiet [simp]: "mf_acc_quiet_ema (count_accepted r) = mf_acc_quiet_ema (snd r)"
  by (cases r) (simp add: count_accepted_def)

lemma uncal_withdraw_quiet:
  "uncal_withdraw F uncal a b f = (w, g) \<Longrightarrow> mf_acc_quiet_ema g = mf_acc_quiet_ema f"
  by (auto simp: uncal_withdraw_def Let_def split: if_splits)

lemma mag_fuse_quiet [simp]: "mf_acc_quiet_ema (mag_fuse F uncal R m_ned h z h_mag res_sq f) = mf_acc_quiet_ema f"
proof -
  have w: "mf_acc_quiet_ema (case uncal_withdraw F uncal b a f of (True, f) \<Rightarrow> f
      | (False, f) \<Rightarrow> count_accepted (eskf_update_yaw F y (mf_Rm f / (b * b)) f)) = mf_acc_quiet_ema f" for a b y
    by (auto split: prod.split bool.split dest: uncal_withdraw_quiet)
  show ?thesis unfolding mag_fuse_def Let_def if_distrib [of mf_acc_quiet_ema] w by simp
qed

lemma quiet_keeps [simp]:
  "mf_acc_quiet_ema (mref_acquire F m f) = mf_acc_quiet_ema f" "mf_acc_quiet_ema (mag_diagnose F a b c f) = mf_acc_quiet_ema f"
  "mf_acc_quiet_ema (mref_learn F d a f) = mf_acc_quiet_ema f" "mf_acc_quiet_ema (mekf_align F v w f) = mf_acc_quiet_ema f"
  "mf_acc_quiet_ema (mekf_set_mref_invariants F a b f) = mf_acc_quiet_ema f"
  "mf_acc_quiet_ema (fusion_engine F on a f) = mf_acc_quiet_ema f" "mf_acc_quiet_ema (fusion_speed s f) = mf_acc_quiet_ema f"
  "mf_acc_quiet_ema (mekf_reconfigure F cfg f) = mf_acc_quiet_ema f" "mf_acc_quiet_ema (snd (mekf_sanitize F f)) = mf_acc_quiet_ema f"
  by (simp_all add: mref_acquire_def mag_diagnose_def mref_learn_def mekf_align_def mekf_set_mref_invariants_def
      fusion_engine_def fusion_speed_def mekf_reconfigure_def mekf_derive_tuning_def mekf_sanitize_def mekf_reset_state_def Let_def
      split: option.split)

lemma accel_quiet:
  "mf_acc_quiet_ema (mekf_update_accel F accel gyro f) =
     (if mf_initialized f
      then let dev = fst (accel_geometry F accel gyro f) - 1
           in mf_acc_quiet_ema f + (dev * dev - mf_acc_quiet_ema f) * (mf_dt f / lit F 2)
      else mf_acc_quiet_ema f)"
  by (simp add: mekf_update_accel_def Let_def split: prod.split option.split)

lemma filter_step_NaN:
  fixes f :: "flt mekf"
  assumes "mf_acc_quiet_ema f = Flt NaN"
  shows "mf_acc_quiet_ema (filter_step F op f) = Flt NaN"
proof (cases op)
  case (Op_predict gyro dt)
  then show ?thesis using assms by (simp add: mekf_predict_def Let_def wave_step_def)
next
  case (Op_accel accel gyro)
  then show ?thesis using assms by (simp add: accel_quiet Let_def)
next
  case (Op_mag m)
  then show ?thesis unfolding Op_mag filter_step.simps mekf_update_mag_def Let_def if_distrib [of mf_acc_quiet_ema]
    using assms by simp
qed (use assms in simp_all)

text \<open>C21: The measure of quiescence does not recover. Let the filter be initialised and a speed above 0.1 m/s be
  compensated -- without one the accelerometer's update does not use the bias. When a sample then finds the bias about
  the second or the third axis not a number, the measure is not a number from then on: neither the check for finite numbers,
  which resets the bias, nor anything after it brings it back, and it is published with every state.\<close>

theorem quiescence_lost:
  assumes "single F" "fsqrt F (Flt NaN) = Flt NaN" "mf_initialized f" "lit F (1 / 10) < mf_speed_mps f"
    and "mf_bias f 1 = Flt NaN \<or> mf_bias f 2 = Flt NaN"
  shows "fd_quiescence (mekf_get_state F (filter_run F (Op_accel accel gyro # Op_sanitize # ops) f) flags) = Flt NaN"
proof -
  have "fst (accel_geometry F accel gyro f) = Flt NaN"
    using assms(5) by (rule disjE) (use assms(2,4) in \<open>simp_all add: accel_geometry_def Let_def v3_norm_def\<close>)
  then have a: "mf_acc_quiet_ema (filter_step F (Op_accel accel gyro) f) = Flt NaN"
    using assms(3) by (simp add: accel_quiet Let_def)
  have run: "mf_acc_quiet_ema (filter_run F os g) = Flt NaN" if "mf_acc_quiet_ema g = Flt NaN" for os and g :: "flt mekf"
    using that by (induction os arbitrary: g) (simp_all add: filter_run_def filter_step_NaN del: filter_step.simps)
  have "filter_run F (Op_accel accel gyro # Op_sanitize # ops) f = filter_run F (Op_sanitize # ops) (filter_step F (Op_accel accel gyro) f)"
    by (simp add: filter_run_def del: filter_step.simps)
  then have "mf_acc_quiet_ema (filter_run F (Op_accel accel gyro # Op_sanitize # ops) f) = Flt NaN" using run [OF a] by (simp only:)
  then show ?thesis by (simp add: mekf_get_state_def Let_def)
qed

theorem quiescence_lost_witness:
  "fd_quiescence (mekf_get_state some_libm (filter_run some_libm [Op_accel (\<lambda>_. 1) (\<lambda>_. 0), Op_sanitize]
     (mekf_zero\<lparr>mf_bias := (\<lambda>_. Flt NaN), mf_initialized := True, mf_speed_mps := Flt (Fin False 5)\<rparr>)) 0) = Flt NaN"
proof -
  let ?f = "(mekf_zero :: flt mekf)\<lparr>mf_bias := (\<lambda>_. Flt NaN), mf_initialized := True, mf_speed_mps := Flt (Fin False 5)\<rparr>"
  obtain v where v: "rnd32 (Fin False (1 / 10)) = Flt (Fin False v)" "v \<le> 1"
    by (rule rnd32_finite [of "1 / 10" 0 False]) simp_all
  then have "lit some_libm (1 / 10) < mf_speed_mps ?f"
    by (simp add: some_libm_def flt_lit_def less_flt_def fl_val_def)
  then show ?thesis
    by (intro quiescence_lost [OF single_some]) (simp_all add: some_libm_def)
qed

end
