(* ===== verification/MekfGain.thy ===== *)
theory MekfGain
  imports MekfInv
begin

text \<open>
  The covariance of every kind of measurement update over the real numbers: the form the code computes, which stays
  positive whatever the gain, equals the covariance less what the measurement explains. The gain of a gravity update is
  projected, and what that costs is one more term, which only directions with a part along the vertical have.
\<close>

section \<open>The inverse of the innovation covariance\<close>

lemma m33_scale_nonneg: "0 \<le> m33_scale (A :: real mat)"
proof -
  have keep: "0 \<le> fold (\<lambda>(i, j) s. let a = \<bar>A i j\<bar> in if a > s then a else s) xs s" if "0 \<le> s" for xs s
    using that
  proof (induction xs arbitrary: s)
    case (Cons p xs)
    have "0 \<le> (case p of (i, j) \<Rightarrow> \<lambda>s. let a = \<bar>A i j\<bar> in if a > s then a else s) s"
      using Cons.prems by (simp add: Let_def split: prod.split)
    from Cons.IH [OF this] show ?case by (simp only: fold_simps)
  qed simp
  show ?thesis unfolding m33_scale_def by (rule keep) simp
qed

lemma three_cases: "i < 3 \<Longrightarrow> i = 0 \<or> i = 1 \<or> i = (2 :: nat)"
  by linarith

lemma inverse_times:
  fixes A :: "real mat"
  assumes inv: "m33_inv real_libm A = Some B" and ij: "i < 3" "j < 3"
  shows "B i 0 * A 0 j + B i 1 * A 1 j + B i 2 * A 2 j = (if i = j then 1 else 0)"
proof -
  define d where "d = A 0 0 * (A 1 1 * A 2 2 - A 1 2 * A 2 1) - A 0 1 * (A 1 0 * A 2 2 - A 1 2 * A 2 0)
    + A 0 2 * (A 1 0 * A 2 1 - A 1 1 * A 2 0)"
  have gate: "\<bar>d\<bar> > of_rat (1 / 1000000) * m33_scale A * m33_scale A * m33_scale A"
    using inv unfolding m33_inv_def Let_def d_def by (simp split: if_splits)
  have "(0 :: real) \<le> of_rat (1 / 1000000)" by simp
  with gate have d: "d \<noteq> 0" using m33_scale_nonneg [of A] by (metis abs_zero mult_nonneg_nonneg not_less)
  have B: "B = (\<lambda>i.
       if i = 0 then vec3 ((A 1 1 * A 2 2 - A 1 2 * A 2 1) * (1 / d)) ((A 0 2 * A 2 1 - A 0 1 * A 2 2) * (1 / d))
                          ((A 0 1 * A 1 2 - A 0 2 * A 1 1) * (1 / d))
       else if i = 1 then vec3 ((A 1 2 * A 2 0 - A 1 0 * A 2 2) * (1 / d)) ((A 0 0 * A 2 2 - A 0 2 * A 2 0) * (1 / d))
                               ((A 0 2 * A 1 0 - A 0 0 * A 1 2) * (1 / d))
       else vec3 ((A 1 0 * A 2 1 - A 1 1 * A 2 0) * (1 / d)) ((A 0 1 * A 2 0 - A 0 0 * A 2 1) * (1 / d))
                 ((A 0 0 * A 1 1 - A 0 1 * A 1 0) * (1 / d)))"
    using inv gate unfolding m33_inv_def Let_def d_def [symmetric] by (simp only: real_libm_simps not_not if_False not_True_eq_False option.inject)
  have scale: "B i 0 * A 0 j + B i 1 * A 1 j + B i 2 * A 2 j = (if i = j then d else 0) / d"
    using three_cases [OF ij(1)] three_cases [OF ij(2)] unfolding B
    by (elim disjE) (simp_all add: add_divide_distrib [symmetric] diff_divide_distrib [symmetric] d_def algebra_simps)
  then show ?thesis using d by simp
qed

lemma inverse_symmetric:
  fixes A :: "real mat"
  assumes inv: "m33_inv real_libm A = Some B" and sym: "\<And>i j. A i j = A j i" and ij: "i < 3" "j < 3"
  shows "B i j = B j i"
proof -
  have A: "A 1 0 = A 0 1" "A 2 0 = A 0 2" "A 2 1 = A 1 2" by (rule sym)+
  show ?thesis
    using inv three_cases [OF ij(1)] three_cases [OF ij(2)] unfolding m33_inv_def Let_def A
    by (auto split: if_splits simp: mult.commute)
qed

lemma sum_three: "(\<Sum>k<3. f k) = f 0 + f 1 + f (2 :: nat)" for f :: "nat \<Rightarrow> real"
  by (simp add: eval_nat_numeral)

section \<open>The bilinear form of the covariance\<close>

definition bil :: "real mat \<Rightarrow> real vec \<Rightarrow> real vec \<Rightarrow> real" where
  "bil P u v = (\<Sum>i<MEKF_N. \<Sum>j<MEKF_N. u i * P i j * v j)"

lemma quad_bil: "quad P x = bil P x x"
  by (simp add: quad_def bil_def sum_distrib_left mult.assoc)

lemma bil_diff_left: "bil P (\<lambda>i. u i - v i) w = bil P u w - bil P v w"
  by (simp add: bil_def left_diff_distrib sum_subtractf)

lemma bil_diff_right: "bil P u (\<lambda>i. v i - w i) = bil P u v - bil P u w"
  by (simp add: bil_def right_diff_distrib sum_subtractf)

lemma bil_sum_right: "bil P u (\<lambda>k. \<Sum>m<n. c m * H m k) = (\<Sum>m<n. c m * bil P u (H m))" for n :: nat
proof -
  have "bil P u (\<lambda>k. \<Sum>m<n. c m * H m k) = (\<Sum>i<MEKF_N. \<Sum>j<MEKF_N. \<Sum>m<n. c m * (u i * P i j * H m j))"
    by (simp add: bil_def sum_distrib_left mult_ac)
  also have "\<dots> = (\<Sum>i<MEKF_N. \<Sum>m<n. \<Sum>j<MEKF_N. c m * (u i * P i j * H m j))" by (intro sum.cong refl sum.swap)
  also have "\<dots> = (\<Sum>m<n. \<Sum>i<MEKF_N. \<Sum>j<MEKF_N. c m * (u i * P i j * H m j))" by (rule sum.swap)
  finally show ?thesis by (simp add: bil_def sum_distrib_left)
qed

lemma bil_commute:
  assumes "symmetric P"
  shows "bil P u v = bil P v u"
proof -
  have "bil P u v = (\<Sum>j<MEKF_N. \<Sum>i<MEKF_N. u i * P i j * v j)" unfolding bil_def by (rule sum.swap)
  also have "\<dots> = bil P v u" unfolding bil_def
    by (intro sum.cong refl) (use assms in \<open>simp add: symmetric_def\<close>)
  finally show ?thesis .
qed

lemma bil_sum_left:
  fixes n :: nat
  assumes "symmetric P"
  shows "bil P (\<lambda>k. \<Sum>m<n. c m * H m k) v = (\<Sum>m<n. c m * bil P (H m) v)"
  using bil_sum_right [of P v c H n] bil_commute [OF assms] by simp

text \<open>The directions along which the reset of the error state carries a direction.\<close>

definition reset_dir :: "real vec \<Rightarrow> real vec \<Rightarrow> real vec" where
  "reset_dir dx x = (\<lambda>l. if l < 3 then x 0 * m33_reset_jac real_libm dx 0 l + x 1 * m33_reset_jac real_libm dx 1 l +
     x 2 * m33_reset_jac real_libm dx 2 l else x l)"

lemma sum9: "(\<Sum>i<MEKF_N. f i) = f 0 + f 1 + f 2 + (\<Sum>i = 3..<MEKF_N. f i)" for f :: "nat \<Rightarrow> real"
proof -
  have "(\<Sum>i<MEKF_N. f i) = (\<Sum>i = 0..<3. f i) + (\<Sum>i = 3..<MEKF_N. f i)"
    unfolding lessThan_atLeast0 by (rule sum.atLeastLessThan_concat [symmetric]) (simp_all add: MEKF_N_def)
  also have "(\<Sum>i = 0..<3. f i) = f 0 + f 1 + f 2" by (simp add: eval_nat_numeral)
  finally show ?thesis .
qed

lemma pull_reset:
  fixes M :: "real mat"
  shows "(\<Sum>i<MEKF_N. x i * g_premul_rows3 (m33_reset_jac real_libm dx) M i k) = (\<Sum>l<MEKF_N. reset_dir dx x l * M l k)"
proof -
  have "(\<Sum>i = 3..<MEKF_N. x i * g_premul_rows3 (m33_reset_jac real_libm dx) M i k) = (\<Sum>l = 3..<MEKF_N. reset_dir dx x l * M l k)"
    by (rule sum.cong) (simp_all add: g_premul_rows3_def reset_dir_def)
  then show ?thesis unfolding sum9 by (simp add: g_premul_rows3_def reset_dir_def algebra_simps)
qed

text \<open>An attitude direction as a direction of the error state, and the component of a direction along one.\<close>

definition dot3 :: "real vec \<Rightarrow> real vec \<Rightarrow> real" where
  "dot3 a b = a 0 * b 0 + a 1 * b 1 + a 2 * b 2"

definition attitude_dir :: "real vec \<Rightarrow> real vec" where
  "attitude_dir v = (\<lambda>i. if i < 3 then v i else 0)"

lemma sum_attitude: "(\<Sum>i<MEKF_N. attitude_dir v i * g i) = v 0 * g 0 + v 1 * g 1 + v 2 * g 2"
proof -
  have "(\<Sum>i<MEKF_N. attitude_dir v i * g i) = (\<Sum>i<3. attitude_dir v i * g i)"
    by (rule sum.mono_neutral_right) (auto simp: MEKF_N_def attitude_dir_def)
  then show ?thesis by (simp add: sum_three attitude_dir_def)
qed

text \<open>What the projection of the gain leaves of a direction.\<close>

definition unprotected :: "real vec option \<Rightarrow> real vec \<Rightarrow> real vec" where
  "unprotected protect z = (case protect of None \<Rightarrow> z | Some n \<Rightarrow> (\<lambda>i. z i - dot3 n z * attitude_dir n i))"

lemma pull_protect:
  fixes K :: "real mat"
  shows "(\<Sum>i<MEKF_N. z i * eskf_protect protect K i k) = (\<Sum>i<MEKF_N. unprotected protect z i * K i k)"
proof (cases protect)
  case (Some n)
  let ?t = "n 0 * K 0 k + n 1 * K 1 k + n 2 * K 2 k"
  have "(\<Sum>i<MEKF_N. z i * eskf_protect (Some n) K i k) = (\<Sum>i<MEKF_N. z i * K i k - ?t * (attitude_dir n i * z i))"
    by (rule sum.cong) (simp_all add: eskf_protect_def attitude_dir_def algebra_simps)
  also have "\<dots> = (\<Sum>i<MEKF_N. z i * K i k) - ?t * dot3 n z"
    by (simp add: sum_subtractf sum_distrib_left [symmetric] sum_attitude dot3_def)
  also have "?t * dot3 n z = dot3 n z * (\<Sum>i<MEKF_N. attitude_dir n i * K i k)" by (simp add: sum_attitude)
  also have "(\<Sum>i<MEKF_N. z i * K i k) - dot3 n z * (\<Sum>i<MEKF_N. attitude_dir n i * K i k) =
      (\<Sum>i<MEKF_N. unprotected (Some n) z i * K i k)"
    by (simp add: unprotected_def left_diff_distrib sum_subtractf sum_distrib_left mult.assoc)
  finally show ?thesis unfolding Some .
qed (simp add: eskf_protect_def unprotected_def)

section \<open>Joseph's form\<close>

definition full_noise :: "real \<Rightarrow> real mat option \<Rightarrow> real mat" where
  "full_noise Rn R33 = (case R33 of Some R \<Rightarrow> R | None \<Rightarrow> (\<lambda>i j. if i = j then Rn else 0))"

definition noise_ok :: "real \<Rightarrow> real mat option \<Rightarrow> bool" where
  "noise_ok Rn R33 \<longleftrightarrow> (case R33 of Some R \<Rightarrow> psd3 R \<and> symmetric R | None \<Rightarrow> 0 \<le> Rn)"

lemma noise_okD:
  assumes "noise_ok Rn R33"
  shows "psd3 (full_noise Rn R33)" "full_noise Rn R33 i j = full_noise Rn R33 j i"
proof -
  have "psd3 (\<lambda>i j. if i = j then Rn else 0)" if "0 \<le> Rn"
    using that unfolding psd3_def by (simp add: sum_three mult.assoc [symmetric] mult.commute [of _ Rn])
      (simp add: mult.assoc)
  then show "psd3 (full_noise Rn R33)" "full_noise Rn R33 i j = full_noise Rn R33 j i"
    using assms by (auto simp: noise_ok_def full_noise_def symmetric_def split: option.splits)
qed

text \<open>What the measurement sees of a direction, and how much of its variance that explains.\<close>

definition seen :: "real mat \<Rightarrow> real mat \<Rightarrow> real vec \<Rightarrow> real vec" where
  "seen P H z = (\<lambda>m. bil P z (H m))"

definition explained :: "real mat \<Rightarrow> real vec \<Rightarrow> real" where
  "explained Sinv b = (\<Sum>j<3. \<Sum>k<3. b j * Sinv j k * b k)"

text \<open>What it costs not to use the measurement along a protected direction \<open>n\<close>: the square of the component along
  \<open>n\<close> times what the measurement would have explained of \<open>n\<close>.\<close>

definition protection_cost :: "real vec option \<Rightarrow> real mat \<Rightarrow> real mat \<Rightarrow> real mat \<Rightarrow> real vec \<Rightarrow> real" where
  "protection_cost protect Sinv P H z =
     (case protect of None \<Rightarrow> 0 | Some n \<Rightarrow> (dot3 n z)\<^sup>2 * explained Sinv (seen P H (attitude_dir n)))"

lemma seen_unprotected:
  assumes "symmetric P"
  shows "seen P H z m = seen P H (unprotected protect z) m +
    (case protect of None \<Rightarrow> 0 | Some n \<Rightarrow> dot3 n z * seen P H (attitude_dir n) m)"
proof (cases protect)
  case (Some n)
  have "bil P (\<lambda>i. dot3 n z * attitude_dir n i) (H m) = dot3 n z * bil P (attitude_dir n) (H m)"
    by (simp add: bil_def sum_distrib_left mult.assoc)
  then show ?thesis by (simp add: Some seen_def unprotected_def bil_diff_left)
qed (simp add: unprotected_def)

lemma quad_cong: "(\<And>k. k < MEKF_N \<Longrightarrow> u k = v k) \<Longrightarrow> quad P u = quad P v"
proof -
  assume e: "\<And>k. k < MEKF_N \<Longrightarrow> u k = v k"
  have "(\<Sum>j<MEKF_N. P i j * u j) = (\<Sum>j<MEKF_N. P i j * v j)" for i by (rule sum.cong) (simp_all add: e)
  then show ?thesis unfolding quad_def by (intro sum.cong refl) (simp add: e)
qed

text \<open>The innovation covariance.\<close>

lemma dir_S_bil: "dir_S H (dir_PHt P H) Rn R33 m n = bil P (H m) (H n) + full_noise Rn R33 m n"
  by (simp add: dir_S_def dir_PHt_def full_noise_def bil_def sum_distrib_left mult.assoc split: option.split)

text \<open>For any gain: what it makes of a direction decides its variance.\<close>

lemma joseph_any_gain:
  fixes dx x :: "real vec"
  assumes sym: "symmetric P"
  defines "z \<equiv> reset_dir dx x"
  assumes y: "\<And>m. (\<Sum>l<MEKF_N. z l * K l m) = y m"
  shows "quad (eskf_joseph real_libm dx K H Rn R33 P) x =
    quad P z - 2 * (\<Sum>m<3. y m * seen P H z m) + (\<Sum>m<3. \<Sum>n<3. y m * dir_S H (dir_PHt P H) Rn R33 m n * y n)"
proof -
  let ?w = "\<lambda>k. \<Sum>m<3. y m * H m k" and ?N = "full_noise Rn R33"
  have p: "pullback (g_premul_rows3 (m33_reset_jac real_libm dx) (identity_minus K H)) x k = z k - ?w k"
    if k: "k < MEKF_N" for k
  proof -
    have "(\<Sum>l<MEKF_N. z l * identity_minus K H l k) = (\<Sum>l<MEKF_N. (if k = l then 1 else 0) * z l) - (\<Sum>l<MEKF_N. \<Sum>m<3. z l * K l m * H m k)"
      by (simp add: identity_minus_def right_diff_distrib sum_subtractf sum_distrib_left mult_ac eq_commute)
    also have "(\<Sum>l<MEKF_N. \<Sum>m<3. z l * K l m * H m k) = (\<Sum>m<3. \<Sum>l<MEKF_N. z l * K l m * H m k)" by (rule sum.swap)
    also have "\<dots> = ?w k" by (simp add: sum_distrib_right [symmetric] y)
    finally show ?thesis unfolding pullback_def pull_reset z_def [symmetric] sum_pick [OF k] .
  qed
  have zw: "bil P z ?w = (\<Sum>m<3. y m * seen P H z m)" by (simp add: bil_sum_right seen_def)
  have ww: "bil P ?w ?w = (\<Sum>m<3. \<Sum>n<3. y m * bil P (H m) (H n) * y n)"
    unfolding bil_sum_right unfolding bil_sum_left [OF sym]
    by (simp add: sum_distrib_left mult_ac bil_commute [OF sym])
  have "quad P (pullback (g_premul_rows3 (m33_reset_jac real_libm dx) (identity_minus K H)) x) = quad P (\<lambda>k. z k - ?w k)"
    by (rule quad_cong) (rule p)
  also have "\<dots> = quad P z - 2 * (\<Sum>m<3. y m * seen P H z m) + bil P ?w ?w"
    unfolding quad_bil bil_diff_left bil_diff_right using bil_commute [OF sym, of ?w z] zw by simp
  finally have qz: "quad P (pullback (g_premul_rows3 (m33_reset_jac real_libm dx) (identity_minus K H)) x) =
    quad P z - 2 * (\<Sum>m<3. y m * seen P H z m) + bil P ?w ?w" .
  have noise: "(let y = (\<lambda>k. \<Sum>i<MEKF_N. x i * g_premul_rows3 (m33_reset_jac real_libm dx) K i k)
      in case R33 of Some R \<Rightarrow> (\<Sum>k<3. \<Sum>l<3. y k * R k l * y l) | None \<Rightarrow> Rn * (\<Sum>k<3. (y k)\<^sup>2)) = (\<Sum>m<3. \<Sum>n<3. y m * ?N m n * y n)"
    unfolding pull_reset z_def [symmetric] y Let_def
    by (cases R33) (simp_all add: full_noise_def sum_three power2_eq_square algebra_simps)
  have "(\<Sum>m<3. \<Sum>n<3. y m * dir_S H (dir_PHt P H) Rn R33 m n * y n) = bil P ?w ?w + (\<Sum>m<3. \<Sum>n<3. y m * ?N m n * y n)"
    unfolding dir_S_bil ww by (simp add: distrib_left distrib_right sum.distrib)
  then show ?thesis unfolding quad_joseph qz noise by simp
qed

text \<open>The inverse undoes the innovation covariance.\<close>

lemma inverse_cancels:
  assumes "m33_inv real_libm S = Some Sinv" "n < 3"
  shows "(\<Sum>m<3. (\<Sum>j<3. b j * Sinv j m) * S m n) = (b n :: real)"
proof -
  have "(\<Sum>m<3. (\<Sum>j<3. b j * Sinv j m) * S m n) = (\<Sum>j<3. b j * (Sinv j 0 * S 0 n + Sinv j 1 * S 1 n + Sinv j 2 * S 2 n))"
    by (simp add: sum_three algebra_simps)
  also have "\<dots> = (\<Sum>j<3. (if n = j then 1 else 0) * b j)"
  proof (rule sum.cong)
    fix j assume "j \<in> {..<3 :: nat}"
    then have j: "j < 3" by simp
    show "b j * (Sinv j 0 * S 0 n + Sinv j 1 * S 1 n + Sinv j 2 * S 2 n) = (if n = j then 1 else 0) * b j"
      unfolding inverse_times [OF assms(1) j assms(2)] by auto
  qed simp
  also have "\<dots> = b n" by (rule sum_pick [OF assms(2)])
  finally show ?thesis .
qed

lemma explained_split:
  assumes sym: "\<And>j k. j < 3 \<Longrightarrow> k < 3 \<Longrightarrow> Sinv j k = Sinv k j"
    and b: "\<And>m. b m = u m + t * e m"
  shows "(\<Sum>m<3. (\<Sum>j<3. u j * Sinv j m) * u m) - 2 * (\<Sum>m<3. (\<Sum>j<3. u j * Sinv j m) * b m) =
    t\<^sup>2 * explained Sinv e - explained Sinv b"
proof -
  have s: "Sinv 1 0 = Sinv 0 1" "Sinv 2 0 = Sinv 0 2" "Sinv 2 1 = Sinv 1 2" by (simp_all add: sym)
  show ?thesis unfolding explained_def sum_three b s by (simp add: algebra_simps power2_eq_square)
qed

lemma joseph_textbook:
  fixes dx x :: "real vec"
  assumes sym: "symmetric P" and inv: "m33_inv real_libm (dir_S H (dir_PHt P H) Rn R33) = Some Sinv"
    and noise: "noise_ok Rn R33"
  defines "z \<equiv> reset_dir dx x"
  shows "quad (eskf_joseph real_libm dx (eskf_protect protect (eskf_gain (dir_PHt P H) Sinv)) H Rn R33 P) x =
    quad P z - explained Sinv (seen P H z) + protection_cost protect Sinv P H z"
proof -
  let ?S = "dir_S H (dir_PHt P H) Rn R33" and ?v = "unprotected protect z"
  define u where "u = seen P H ?v"
  define y where "y = (\<lambda>m. \<Sum>j<3. u j * Sinv j m)"
  have vP: "(\<Sum>l<MEKF_N. ?v l * dir_PHt P H l j) = u j" for j
    by (simp add: u_def seen_def bil_def dir_PHt_def sum_distrib_left mult.assoc)
  have zK: "(\<Sum>l<MEKF_N. z l * eskf_protect protect (eskf_gain (dir_PHt P H) Sinv) l m) = y m" for m
  proof -
    have "(\<Sum>l<MEKF_N. ?v l * eskf_gain (dir_PHt P H) Sinv l m) = (\<Sum>l<MEKF_N. \<Sum>j<3. ?v l * dir_PHt P H l j * Sinv j m)"
      by (simp add: eskf_gain_def sum_distrib_left mult.assoc)
    also have "\<dots> = (\<Sum>j<3. \<Sum>l<MEKF_N. ?v l * dir_PHt P H l j * Sinv j m)" by (rule sum.swap)
    finally show ?thesis unfolding pull_protect by (simp add: y_def sum_distrib_right [symmetric] vP)
  qed
  have "(\<Sum>m<3. \<Sum>n<3. y m * ?S m n * y n) = (\<Sum>n<3. \<Sum>m<3. y m * ?S m n * y n)" by (rule sum.swap)
  also have "\<dots> = (\<Sum>n<3. u n * y n)"
    by (rule sum.cong) (simp_all add: sum_distrib_right [symmetric] y_def inverse_cancels [OF inv])
  finally have ySy: "(\<Sum>m<3. \<Sum>n<3. y m * ?S m n * y n) = (\<Sum>m<3. y m * u m)" by (simp add: mult.commute)
  have "?S i j = ?S j i" for i j
    unfolding dir_S_bil using bil_commute [OF sym, of "H i" "H j"] noise_okD(2) [OF noise, of i j] by simp
  then have si: "j < 3 \<Longrightarrow> k < 3 \<Longrightarrow> Sinv j k = Sinv k j" for j k using inverse_symmetric [OF inv] by blast
  define t e where "t = (case protect of None \<Rightarrow> 0 | Some n \<Rightarrow> dot3 n z)"
    and "e = (case protect of None \<Rightarrow> (\<lambda>_. 0) | Some n \<Rightarrow> seen P H (attitude_dir n))"
  have b: "seen P H z m = u m + t * e m" for m
    using seen_unprotected [OF sym, of H z m protect] by (simp add: u_def t_def e_def split: option.split)
  have "t\<^sup>2 * explained Sinv e = protection_cost protect Sinv P H z"
    by (simp add: t_def e_def protection_cost_def split: option.split)
  then show ?thesis
    using explained_split [of Sinv "seen P H z" u t e, OF si b]
    unfolding joseph_any_gain [OF sym zK [unfolded z_def]] z_def [symmetric] ySy by (simp add: y_def)
qed

lemma explained_nonneg:
  assumes sym: "symmetric P" and psd: "psd P" and noise: "noise_ok Rn R33"
    and inv: "m33_inv real_libm (dir_S H (dir_PHt P H) Rn R33) = Some Sinv"
  shows "0 \<le> explained Sinv b"
proof -
  let ?S = "dir_S H (dir_PHt P H) Rn R33" and ?N = "full_noise Rn R33"
  define y where "y = (\<lambda>m. \<Sum>j<3. b j * Sinv j m)"
  let ?w = "\<lambda>k. \<Sum>m<3. y m * H m k"
  have "(\<Sum>m<3. \<Sum>n<3. y m * ?S m n * y n) = (\<Sum>n<3. \<Sum>m<3. y m * ?S m n * y n)" by (rule sum.swap)
  also have "\<dots> = (\<Sum>n<3. b n * y n)"
    by (rule sum.cong) (simp_all add: sum_distrib_right [symmetric] y_def inverse_cancels [OF inv])
  also have "\<dots> = explained Sinv b" by (simp add: explained_def y_def sum_three algebra_simps)
  finally have e: "(\<Sum>m<3. \<Sum>n<3. y m * ?S m n * y n) = explained Sinv b" .
  have "bil P ?w ?w = (\<Sum>m<3. \<Sum>n<3. y m * bil P (H m) (H n) * y n)"
    unfolding bil_sum_right unfolding bil_sum_left [OF sym]
    by (simp add: sum_distrib_left mult_ac bil_commute [OF sym])
  then have "explained Sinv b = quad P ?w + (\<Sum>m<3. \<Sum>n<3. y m * ?N m n * y n)"
    unfolding e [symmetric] dir_S_bil quad_bil by (simp add: distrib_left distrib_right sum.distrib)
  then show ?thesis using psd noise_okD(1) [OF noise] by (simp add: psd_def psd3_def)
qed

text \<open>The update by a bearing alone: one row, with the innovation variance \<open>yaw_S\<close>.\<close>

lemma yaw_textbook:
  fixes dx x H :: "real vec"
  assumes sym: "symmetric P" and S: "S = yaw_S H (yaw_PHt P H) Rn" "S \<noteq> 0"
  defines "z \<equiv> reset_dir dx x"
  shows "quad (yaw_joseph real_libm dx (yaw_gain (yaw_PHt P H) S) H Rn P) x = quad P z - (bil P z H)\<^sup>2 / S"
proof -
  let ?G = "m33_reset_jac real_libm dx" and ?K = "yaw_gain (yaw_PHt P H) S"
  let ?k = "\<lambda>i. g_premul_rows3 ?G (\<lambda>i j. ?K i) i (0 :: nat)" and ?M = "\<lambda>i j. (if i = j then 1 else 0) - ?K i * H j"
  define y where "y = bil P z H / S"
  have zK: "(\<Sum>l<MEKF_N. z l * ?K l) = y"
    by (simp add: y_def yaw_gain_def yaw_PHt_def bil_def sum_divide_distrib sum_distrib_left mult.assoc)
  have k: "(\<Sum>i<MEKF_N. x i * ?k i) = y" unfolding pull_reset z_def [symmetric] zK ..
  have noise: "quad (\<lambda>i j. Rn * ?k i * ?k j) x = Rn * y\<^sup>2"
    using quad_scale [of Rn "\<lambda>i j. ?k i * ?k j" x] quad_rank [where n = 1 and u = "\<lambda>i k. ?k i" and x = x]
    by (simp add: mult.assoc k)
  have p: "pullback (g_premul_rows3 ?G ?M) x j = z j - y * H j" if j: "j < MEKF_N" for j
  proof -
    have "(\<Sum>l<MEKF_N. z l * ?M l j) = (\<Sum>l<MEKF_N. (if j = l then 1 else 0) * z l) - (\<Sum>l<MEKF_N. z l * ?K l * H j)"
      by (simp add: right_diff_distrib sum_subtractf mult_ac eq_commute)
    also have "\<dots> = z j - y * H j" unfolding sum_pick [OF j] by (simp add: sum_distrib_right [symmetric] zK)
    finally show ?thesis unfolding pullback_def pull_reset z_def [symmetric] .
  qed
  have lin: "bil P (\<lambda>i. c * u i) v = c * bil P u v" "bil P v (\<lambda>i. c * u i) = c * bil P v u" for c u v
    by (simp_all add: bil_def sum_distrib_left mult_ac)
  have S2: "S = bil P H H + Rn" unfolding S(1) by (simp add: yaw_S_def yaw_PHt_def bil_def sum_distrib_left mult.assoc)
  have "quad P (pullback (g_premul_rows3 ?G ?M) x) = quad P (\<lambda>j. z j - y * H j)" by (rule quad_cong) (rule p)
  also have "\<dots> = quad P z - 2 * y * bil P z H + y\<^sup>2 * bil P H H"
    unfolding quad_bil bil_diff_left bil_diff_right lin bil_commute [OF sym, of H z] by (simp add: power2_eq_square)
  finally have q: "quad P (pullback (g_premul_rows3 ?G ?M) x) = quad P z - 2 * y * bil P z H + y\<^sup>2 * bil P H H" .
  have "quad (yaw_joseph real_libm dx ?K H Rn P) x = quad P z - 2 * y * bil P z H + y\<^sup>2 * bil P H H + Rn * y\<^sup>2"
    unfolding yaw_joseph_def Let_def quad_symmetrize quad_add quad_mul noise q ..
  also have "\<dots> = quad P z - 2 * y * bil P z H + y\<^sup>2 * S" by (simp add: S2 distrib_left mult.commute)
  finally show ?thesis using S(2) S2 by (simp add: y_def power2_eq_square)
qed

lemma eskf_update_yaw_rc:
  "fst (eskf_update_yaw F y Rn f) =
     (let H = yaw_H (q_to_R F (mf_q f)); S = yaw_S H (yaw_PHt (mf_P f) H) Rn
      in if S < lit F (1 / 10 ^ 12) then -1 else if y * y / S > GROSS_REJECT_MULT F * YAW_CHI2_GATE F then 1 else 0)"
  unfolding eskf_update_yaw_def Let_def by (simp only: fst_conv if_distrib [of fst])

text \<open>C17: Every measurement update that is applied -- by gravity with the vertical protected, by the whole field vector, by the
  bearing of the field -- computes the covariance of the textbook: along every direction, carried through the reset of
  the error state, the variance is the old one less what the measurement explains of it by the inverse of the innovation
  covariance, which is never negative. An update with a protected direction \<open>n\<close> has one more term, the square of the
  direction's component along \<open>n\<close> times what the measurement would have told of \<open>n\<close>: it is what the projection
  of the gain costs, and directions without a component along \<open>n\<close> do not pay it.\<close>

theorem update_textbook:
  assumes "filter_ok f" "noise_ok Rn R33" "0 \<le> Ry"
  shows "(eskf_update real_libm h z Rn gate ch a aw R33 protect f = (0, f') \<longrightarrow>
      (let H = snd (eskf_jacobian real_libm h aw); P = mf_P f in
       \<exists>d Sinv. injected real_libm d f f' \<and> m33_inv real_libm (dir_S H (dir_PHt P H) Rn R33) = Some Sinv \<and>
         (\<forall>x. let v = reset_dir d x in
            quad (mf_P f') x = quad P v - explained Sinv (seen P H v) + protection_cost protect Sinv P H v \<and>
            0 \<le> explained Sinv (seen P H v)))) \<and>
    (eskf_update_yaw real_libm y Ry f = (0, f') \<longrightarrow>
      (let H = yaw_H (q_to_R real_libm (mf_q f)); P = mf_P f; S = yaw_S H (yaw_PHt P H) Ry in
       \<exists>d. injected real_libm d f f' \<and> 0 < S \<and>
         (\<forall>x. let v = reset_dir d x in quad (mf_P f') x = quad P v - (bil P v H)\<^sup>2 / S)))"
proof (intro conjI impI)
  have f: "symmetric (mf_P f)" "psd (mf_P f)" using assms(1) by (simp_all add: filter_ok_def)
  {
    assume "eskf_update real_libm h z Rn gate ch a aw R33 protect f = (0, f')"
    then show "let H = snd (eskf_jacobian real_libm h aw); P = mf_P f in
       \<exists>d Sinv. injected real_libm d f f' \<and> m33_inv real_libm (dir_S H (dir_PHt P H) Rn R33) = Some Sinv \<and>
         (\<forall>x. let v = reset_dir d x in
            quad (mf_P f') x = quad P v - explained Sinv (seen P H v) + protection_cost protect Sinv P H v \<and>
            0 \<le> explained Sinv (seen P H v))"
    proof (cases rule: eskf_update_cases)
      case (applied Sinv innov dx K)
      show ?thesis
        using joseph_textbook [OF f(1) applied(2) assms(2), of dx protect] explained_nonneg [OF f assms(2) applied(2)]
          applied(2,5)
        unfolding applied(6) applied(3) Let_def by (intro exI [of _ dx] exI [of _ Sinv]) simp
    qed simp
  next
    assume u: "eskf_update_yaw real_libm y Ry f = (0, f')"
    let ?H = "yaw_H (q_to_R real_libm (mf_q f))"
    let ?S = "yaw_S ?H (yaw_PHt (mf_P f) ?H) Ry"
    have "\<not> ?S < 1 / 10 ^ 12" using arg_cong [OF u, of fst] unfolding eskf_update_yaw_rc Let_def by (auto simp: of_rat_divide of_rat_power split: if_splits)
    then have S: "0 < ?S" using zero_less_power [of "10 :: real" 12] by (smt (verit) divide_pos_pos)
    show "let H = ?H; P = mf_P f; S = yaw_S H (yaw_PHt P H) Ry in
       \<exists>d. injected real_libm d f f' \<and> 0 < S \<and>
         (\<forall>x. let v = reset_dir d x in quad (mf_P f') x = quad P v - (bil P v H)\<^sup>2 / S)"
      using u
    proof (cases rule: eskf_update_yaw_cases)
      case (applied c dx K)
      show ?thesis
        using yaw_textbook [OF f(1) refl, of ?H Ry dx] S applied(4)
        unfolding applied(5) applied(3) Let_def by (intro exI [of _ dx]) simp
    qed simp
  }
qed

theorem update_textbook_witness:
  "let f = (mekf_zero :: real mekf)\<lparr>mf_q := vec4 1 0 0 0, mf_P := (\<lambda>i j. if i = j \<and> i < 6 then 1 else 0), mf_dt := 1\<rparr>;
       H = dir_jacobian (vec3 0 0 1);
       r = eskf_update real_libm (vec3 0 0 1) (vec3 0 (3 / 5) (4 / 5)) 1 0 None 0 None None (Some (vec3 0 0 1)) f;
       s = eskf_update_yaw real_libm (1 / 2) 1 f
   in fst r = 0 \<and> fst s = 0 \<and>
      (\<exists>d Sinv. \<forall>x. quad (mf_P (snd r)) x = quad (mf_P f) (reset_dir d x) - explained Sinv (seen (mf_P f) H (reset_dir d x)) +
         protection_cost (Some (vec3 0 0 1)) Sinv (mf_P f) H (reset_dir d x)) \<and>
      (\<exists>d. \<forall>x. quad (mf_P (snd s)) x = quad (mf_P f) (reset_dir d x) - (bil (mf_P f) (reset_dir d x) (yaw_H (q_to_R real_libm (mf_q f))))\<^sup>2 / 2)"
proof -
  let ?P = "\<lambda>i j :: nat. if i = j \<and> i < 6 then 1 else 0 :: real"
  let ?f = "(mekf_zero :: real mekf)\<lparr>mf_q := vec4 1 0 0 0, mf_P := ?P, mf_dt := 1\<rparr>"
  let ?H = "dir_jacobian (vec3 0 0 1) :: real mat" and ?Y = "yaw_H (q_to_R real_libm (vec4 1 0 0 0))"
  have q: "mf_q ?f = vec4 1 0 0 0" "mf_P ?f = ?P" by simp_all
  have j: "eskf_jacobian real_libm (vec3 0 0 1) None = (vec3 0 0 1, ?H)" by (simp add: eskf_jacobian_def)
  have row: "(\<Sum>k<MEKF_N. ?P i k * v k) = (if i < 6 then v i else 0)" if "i < MEKF_N" for i and v :: "real vec"
  proof -
    have "(\<Sum>k<MEKF_N. ?P i k * v k) = (\<Sum>k<MEKF_N. (if i = k then 1 else 0) * (if i < 6 then v k else 0))"
      by (rule sum.cong) simp_all
    then show ?thesis unfolding sum_pick [OF that] .
  qed
  have PHt: "dir_PHt ?P ?H i j = (if i < 6 then ?H j i else 0)" if "i < MEKF_N" for i j using row [OF that] by (simp add: dir_PHt_def)
  have S: "dir_S ?H (dir_PHt ?P ?H) 1 None i j = (\<Sum>k<MEKF_N. ?H i k * (if k < 6 then ?H j k else 0)) + (if i = j then 1 else 0)" for i j
    by (simp add: dir_S_def PHt)
  have S': "dir_S ?H (dir_PHt ?P ?H) 1 None i j = (if i = j then if i = 2 then 1 else 2 else 0)" if "i < 3" "j < 3" for i j
    using three_cases [OF that(1)] three_cases [OF that(2)] unfolding S sum9
    by (elim disjE) (simp_all add: dir_jacobian_def)
  obtain Sinv where inv: "m33_inv real_libm (dir_S ?H (dir_PHt ?P ?H) 1 None) = Some Sinv"
    unfolding m33_inv_def m33_scale_def Let_def by (simp add: S' of_rat_divide)
  have yH: "?Y = (\<lambda>i. if i = 2 then -1 else 0)"
    unfolding yaw_H_def q_to_R_def Let_def by (intro ext) (simp add: vec3_def vec4_def)
  have yS: "yaw_S ?Y (yaw_PHt ?P ?Y) 1 = 2"
  proof -
    have "yaw_PHt ?P ?Y i = (if i < 6 then ?Y i else 0)" if "i < MEKF_N" for i using row [OF that] by (simp add: yaw_PHt_def)
    then have "(\<Sum>i<MEKF_N. ?Y i * yaw_PHt ?P ?Y i) = (\<Sum>i<MEKF_N. if i = 2 then 1 else 0)"
      by (intro sum.cong) (simp_all add: yH)
    then show ?thesis by (simp add: yaw_S_def MEKF_N_def)
  qed
  have quad: "quad ?P x = (\<Sum>i<MEKF_N. if i < 6 then x i * x i else 0)" for x
    unfolding quad_def by (rule sum.cong) (simp_all add: row)
  have ok: "filter_ok ?f"
    by (simp add: filter_ok_def tuned_def symmetric_def psd_def wave_inert_def inert_P_def q_norm2_def quad mekf_zero_def sum_nonneg)
  have noise: "noise_ok 1 None" by (simp add: noise_ok_def)
  obtain f' where u: "eskf_update real_libm (vec3 0 0 1) (vec3 0 (3 / 5) (4 / 5)) 1 0 None 0 None None (Some (vec3 0 0 1)) ?f = (0, f')"
    using inv unfolding eskf_update_def j eskf_gate_def Let_def by simp
  have "\<not> (1 / 2 * (1 / 2) / 2 :: real) > GROSS_REJECT_MULT real_libm * YAW_CHI2_GATE real_libm"
    by (simp add: GROSS_REJECT_MULT_def YAW_CHI2_GATE_def of_rat_divide)
  moreover have "\<not> (2 :: real) < lit real_libm (1 / 10 ^ 12)" by (simp add: of_rat_divide of_rat_power)
  ultimately have z: "fst (eskf_update_yaw real_libm (1 / 2) 1 ?f) = 0"
    unfolding eskf_update_yaw_rc Let_def q yS by (simp only: if_False)
  obtain rc g where "eskf_update_yaw real_libm (1 / 2) 1 ?f = (rc, g)" by (rule prod.exhaust)
  with z have y: "eskf_update_yaw real_libm (1 / 2) 1 ?f = (0, g)" by (simp only: fst_conv)
  note t = update_textbook [OF ok noise, of 1]
  have "\<exists>d Sinv. \<forall>x. quad (mf_P f') x = quad ?P (reset_dir d x) - explained Sinv (seen ?P ?H (reset_dir d x)) +
         protection_cost (Some (vec3 0 0 1)) Sinv ?P ?H (reset_dir d x)"
    using t [THEN conjunct1, rule_format, OF _ u] unfolding Let_def j q snd_conv by auto
  moreover have "\<exists>d. \<forall>x. quad (mf_P g) x = quad ?P (reset_dir d x) - (bil ?P (reset_dir d x) ?Y)\<^sup>2 / 2"
    using t [THEN conjunct2, rule_format, OF _ y] unfolding Let_def q yS by auto
  ultimately show ?thesis unfolding Let_def u y by simp
qed

end
