(* ===== verification/MekfGeometry.thy ===== *)
theory MekfGeometry
  imports MekfGain
begin

text \<open>
  The geometry of the filter over the real numbers: a correction by gravity does not turn the vessel about the vertical
  and takes no variance from its heading; the reset of the error state then changes that variance by two exact terms. An
  alignment levels the attitude and turns the horizontal field north.
\<close>

section \<open>A gravity correction and the heading\<close>

definition cross3 :: "real vec \<Rightarrow> real vec \<Rightarrow> real vec" where
  "cross3 a b = vec3 (a 1 * b 2 - a 2 * b 1) (a 2 * b 0 - a 0 * b 2) (a 0 * b 1 - a 1 * b 0)"

text \<open>The reset of the error state carries the directions of the covariance along; without a correction it does nothing.\<close>

lemma reset_dir_zero: "reset_dir (\<lambda>_. 0) x = x"
proof
  fix l :: nat
  show "reset_dir (\<lambda>_. 0) x l = x l"
    using three_cases [of l] by (cases "l < 3") (auto simp: reset_dir_def m33_reset_jac_def Let_def vec3_def)
qed

lemma reset_dir_attitude:
  "reset_dir d (attitude_dir h) = (\<lambda>l. attitude_dir h l + 1 / 2 * attitude_dir (cross3 d h) l)"
proof
  fix l :: nat
  show "reset_dir d (attitude_dir h) l = attitude_dir h l + 1 / 2 * attitude_dir (cross3 d h) l"
    using three_cases [of l]
    by (cases "l < 3") (auto simp: reset_dir_def m33_reset_jac_def Let_def vec3_def attitude_dir_def cross3_def half_real field_simps)
qed

lemma joseph_reset:
  "quad (eskf_joseph real_libm d K H Rn R33 P) x = quad (eskf_joseph real_libm (\<lambda>_. 0) K H Rn R33 P) (reset_dir d x)"
  unfolding quad_joseph pullback_def pull_reset reset_dir_zero ..

lemma protect_dot:
  assumes "dot3 h h = 1"
  shows "h 0 * eskf_protect (Some h) K 0 k + h 1 * eskf_protect (Some h) K 1 k + h 2 * eskf_protect (Some h) K 2 k = 0"
proof -
  let ?t = "h 0 * K 0 k + h 1 * K 1 k + h 2 * K 2 k"
  have "h 0 * eskf_protect (Some h) K 0 k + h 1 * eskf_protect (Some h) K 1 k + h 2 * eskf_protect (Some h) K 2 k = ?t - dot3 h h * ?t"
    by (simp add: eskf_protect_def dot3_def algebra_simps)
  then show ?thesis by (simp add: assms)
qed

lemma heading_variance:
  assumes K: "\<And>k. h 0 * K 0 k + h 1 * K 1 k + h 2 * K 2 k = 0"
  shows "quad (eskf_joseph real_libm (\<lambda>_. 0) K H Rn R33 P) (attitude_dir h) = quad P (attitude_dir h)"
proof -
  have "h 0 * identity_minus K H 0 k + h 1 * identity_minus K H 1 k + h 2 * identity_minus K H 2 k = attitude_dir h k" for k
  proof -
    have "h 0 * identity_minus K H 0 k + h 1 * identity_minus K H 1 k + h 2 * identity_minus K H 2 k =
        attitude_dir h k - (\<Sum>l<3. (h 0 * K 0 l + h 1 * K 1 l + h 2 * K 2 l) * H l k)"
    proof -
      have "k = 0 \<or> k = 1 \<or> k = 2 \<or> 3 \<le> k" by linarith
      then show ?thesis by (elim disjE) (simp_all add: identity_minus_def sum_three attitude_dir_def algebra_simps)
    qed
    then show ?thesis unfolding K by simp
  qed
  then have p: "(\<Sum>i<MEKF_N. attitude_dir h i * identity_minus K H i k) = attitude_dir h k" for k unfolding sum_attitude .
  have y: "(\<Sum>i<MEKF_N. attitude_dir h i * K i k) = 0" for k unfolding sum_attitude K ..
  show ?thesis unfolding quad_joseph pullback_def pull_reset reset_dir_zero p y Let_def by (cases R33) simp_all
qed

text \<open>A correction without a component along \<open>h\<close>: \<open>M\<close> is the covariance before the error state is reset. It has the old
  variance along \<open>h\<close>; the reset turns every direction by half the correction, which changes the variance along \<open>h\<close> by
  the two terms that come of it.\<close>

definition keeps_axis :: "real vec \<Rightarrow> real vec \<Rightarrow> real mat \<Rightarrow> real mat \<Rightarrow> bool" where
  "keeps_axis h d P P' \<longleftrightarrow> dot3 h d = 0 \<and>
     (\<exists>M. symmetric M \<and> (\<forall>x. quad P' x = quad M (reset_dir d x)) \<and>
        quad M (attitude_dir h) = quad P (attitude_dir h) \<and>
        quad P' (attitude_dir h) = quad P (attitude_dir h) + bil M (attitude_dir (cross3 d h)) (attitude_dir h) +
          1 / 4 * quad M (attitude_dir (cross3 d h)))"

lemma eskf_update_heading:
  assumes u: "eskf_update real_libm h z Rn gate ch a aw R33 (Some h) f = (rc, f')" and h: "dot3 h h = 1"
  shows "untouched f f' \<or> (\<exists>d. injected real_libm d f f' \<and> keeps_axis h d (mf_P f) (mf_P f'))"
  using u
proof (cases rule: eskf_update_cases)
  case (applied Sinv innov dx K)
  let ?M = "eskf_joseph real_libm (\<lambda>_. 0) K (snd (eskf_jacobian real_libm h aw)) Rn R33 (mf_P f)"
  have K: "h 0 * K 0 k + h 1 * K 1 k + h 2 * K 2 k = 0" for k unfolding applied(3) by (rule protect_dot [OF h])
  have "dot3 h dx = (\<Sum>j<3. (h 0 * K 0 j + h 1 * K 1 j + h 2 * K 2 j) * innov j)"
    by (simp add: dot3_def applied(4) sum_three algebra_simps)
  then have d: "dot3 h dx = 0" unfolding K by simp
  have M: "symmetric ?M" by simp
  have r: "quad (mf_P f') x = quad ?M (reset_dir dx x)" for x unfolding applied(6) by (rule joseph_reset)
  have hv: "quad ?M (attitude_dir h) = quad (mf_P f) (attitude_dir h)" by (rule heading_variance [OF K])
  have lin: "bil P (\<lambda>l. u l + 1 / 2 * v l) (\<lambda>l. u l + 1 / 2 * v l) = bil P u u + bil P v u + 1 / 4 * bil P v v"
    if "symmetric P" for P and u v :: "real vec"
  proof -
    have "bil P (\<lambda>l. u l + 1 / 2 * v l) (\<lambda>l. u l + 1 / 2 * v l) = bil P u u + 1 / 2 * bil P u v + 1 / 2 * bil P v u + 1 / 4 * bil P v v"
      unfolding bil_def sum_distrib_left sum.distrib [symmetric] by (intro sum.cong refl) (simp add: field_simps)
    then show ?thesis using bil_commute [OF that, of u v] by simp
  qed
  have "quad (mf_P f') (attitude_dir h) = quad (mf_P f) (attitude_dir h) + bil ?M (attitude_dir (cross3 dx h)) (attitude_dir h) +
      1 / 4 * quad ?M (attitude_dir (cross3 dx h))"
    unfolding r unfolding reset_dir_attitude quad_bil lin [OF M] using hv by (simp add: quad_bil)
  with applied(5) d M r hv show ?thesis unfolding keeps_axis_def by blast
qed simp

lemma unit_vertical:
  assumes "unit_q q"
  shows "(q_to_R real_libm q 2 0)\<^sup>2 + (q_to_R real_libm q 2 1)\<^sup>2 + (q_to_R real_libm q 2 2)\<^sup>2 = 1"
proof -
  have n: "(q 0)\<^sup>2 = 1 - (q 1)\<^sup>2 - (q 2)\<^sup>2 - (q 3)\<^sup>2" using assms by (simp add: q_norm2_def)
  have "(q_to_R real_libm q 2 0)\<^sup>2 + (q_to_R real_libm q 2 1)\<^sup>2 + (q_to_R real_libm q 2 2)\<^sup>2 =
      4 * ((q 1)\<^sup>2 + (q 2)\<^sup>2) * (q 0)\<^sup>2 + 4 * ((q 1)\<^sup>2 + (q 2)\<^sup>2) * (q 3)\<^sup>2 + (1 - 2 * ((q 1)\<^sup>2 + (q 2)\<^sup>2))\<^sup>2"
    by (simp add: q_to_R_def Let_def power2_eq_square algebra_simps)
  also have "\<dots> = 1" unfolding n by (simp add: power2_eq_square algebra_simps)
  finally show ?thesis .
qed

lemma accel_update_form:
  assumes "mf_initialized f" "accel_geometry F accel gyro f = (ag, Some (z, h))"
  shows "\<exists>g Rn ch a aw. mekf_update_accel F accel gyro f = snd (eskf_update F h z Rn (ACCEL_CHI2_GATE F) ch a aw None (Some h) g) \<and>
    mf_P g = mf_P f \<and> mf_q g = mf_q f"
  using assms unfolding mekf_update_accel_def Let_def
  by (simp only: prod.case option.case not_True_eq_False if_False) (intro exI conjI, rule refl, simp_all)

text \<open>C18: A correction by the accelerometer does not turn the vessel: it leaves attitude and covariance as they are, or it
  turns the attitude by a vector without a component along the vertical, and the covariance it computes has the old
  variance about the vertical before the error state is reset. The reset, which turns the covariance by half the
  correction, changes that variance by exactly the two terms of docs/math.md 4.7.\<close>

theorem accel_keeps_heading:
  assumes "unit_q (mf_q f)"
  defines "h \<equiv> q_to_R real_libm (mf_q f) 2"
  shows "let f' = mekf_update_accel real_libm accel gyro f in
    mf_q f' = mf_q f \<and> mf_P f' = mf_P f \<or>
    (\<exists>d. mf_q f' = q_normalize real_libm (q_mul (mf_q f) (q_from_rotvec real_libm d)) \<and> keeps_axis h d (mf_P f) (mf_P f'))"
proof -
  obtain ag zh where geo: "accel_geometry real_libm accel gyro f = (ag, zh)" by fastforce
  show ?thesis
  proof (cases "mf_initialized f \<and> zh \<noteq> None")
    case False
    then show ?thesis using geo unfolding mekf_update_accel_def Let_def by (cases zh) simp_all
  next
    case True
    then obtain z h' where zh: "zh = Some (z, h')" by auto
    have h': "h' = vec3 (h 0) (h 1) (h 2)" using geo zh by (auto simp: accel_geometry_def Let_def h_def split: if_splits)
    have u: "dot3 h' h' = 1" using unit_vertical [OF assms(1)] unfolding h' by (simp add: dot3_def h_def power2_eq_square)
    have "dot3 h' d = dot3 h d" "cross3 d h' = cross3 d h" "attitude_dir h' = attitude_dir h" for d
      unfolding h' by (simp_all add: dot3_def cross3_def) (auto simp: attitude_dir_def vec3_def fun_eq_iff less_Suc_eq numeral_eq_Suc)
    then have e: "keeps_axis h' d = keeps_axis h d" for d by (intro ext) (simp add: keeps_axis_def)
    obtain g Rn ch a aw where g: "mf_P g = mf_P f" "mf_q g = mf_q f"
      and s: "mekf_update_accel real_libm accel gyro f =
        snd (eskf_update real_libm h' z Rn (ACCEL_CHI2_GATE real_libm) ch a aw None (Some h') g)"
      using accel_update_form [OF _ geo [unfolded zh]] True by metis
    obtain rc f' where f': "eskf_update real_libm h' z Rn (ACCEL_CHI2_GATE real_libm) ch a aw None (Some h') g = (rc, f')" by fastforce
    show ?thesis using eskf_update_heading [OF f' u] unfolding s f' snd_conv Let_def e
      by (auto simp: untouched_def injected_def g)
  qed
qed

theorem accel_keeps_heading_witness:
  "let f = (mekf_zero :: real mekf)\<lparr>mf_q := vec4 1 0 0 0, mf_initialized := True, mf_accel_skip_hi := 2\<rparr>; h = q_to_R real_libm (mf_q f) 2;
       f' = mekf_update_accel real_libm (vec3 6 0 (- 8)) (\<lambda>_. 0) f
   in fst (accel_geometry real_libm (vec3 6 0 (- 8)) (\<lambda>_. 0) f) = 10 / G_MS2 real_libm \<and>
     snd (accel_geometry real_libm (vec3 6 0 (- 8)) (\<lambda>_. 0) f) \<noteq> None \<and> (mf_q f' = mf_q f \<and> mf_P f' = mf_P f \<or>
     (\<exists>d. mf_q f' = q_normalize real_libm (q_mul (mf_q f) (q_from_rotvec real_libm d)) \<and> keeps_axis h d (mf_P f) (mf_P f')))"
proof -
  let ?f = "(mekf_zero :: real mekf)\<lparr>mf_q := vec4 1 0 0 0, mf_initialized := True, mf_accel_skip_hi := 2\<rparr>"
  have u: "unit_q (mf_q ?f)" by (simp add: q_norm2_def)
  have n: "v3_norm real_libm (vec3 6 0 (- 8)) = 10" by (simp add: v3_norm_def)
  have "fst (accel_geometry real_libm (vec3 6 0 (- 8)) (\<lambda>_. 0) ?f) = 10 / G_MS2 real_libm"
    "snd (accel_geometry real_libm (vec3 6 0 (- 8)) (\<lambda>_. 0) ?f) \<noteq> None"
    by (simp_all add: accel_geometry_def Let_def n mekf_zero_def G_MS2_def of_rat_divide)
  then show ?thesis unfolding Let_def by (intro conjI accel_keeps_heading [OF u, unfolded Let_def])
qed

section \<open>Alignment\<close>

text \<open>The rotation of a unit quaternion in its homogeneous form, which is multiplicative.\<close>

definition q_rot :: "real vec \<Rightarrow> real mat" where
  "q_rot q = (let w = q 0; x = q 1; y = q 2; z = q 3
     in (\<lambda>i. if i = 0 then vec3 (w * w + x * x - y * y - z * z) (2 * (x * y - w * z)) (2 * (x * z + w * y))
             else if i = 1 then vec3 (2 * (x * y + w * z)) (w * w - x * x + y * y - z * z) (2 * (y * z - w * x))
             else vec3 (2 * (x * z - w * y)) (2 * (y * z + w * x)) (w * w - x * x - y * y + z * z)))"

lemma q_to_R_unit:
  assumes "unit_q q"
  shows "q_to_R real_libm q = q_rot q"
proof -
  have n: "q 0 * q 0 = 1 - q 1 * q 1 - q 2 * q 2 - q 3 * q 3" using assms by (simp add: q_norm2_def power2_eq_square)
  show ?thesis unfolding q_to_R_def q_rot_def Let_def n by (intro ext) (simp add: vec3_def)
qed

lemma q_rot_mul:
  assumes "i < 3" "j < 3"
  shows "q_rot (q_mul a b) i j = q_rot a i 0 * q_rot b 0 j + q_rot a i 1 * q_rot b 1 j + q_rot a i 2 * q_rot b 2 j"
proof -
  have "i = 0 \<or> i = 1 \<or> i = 2" "j = 0 \<or> j = 1 \<or> j = 2" using assms by linarith+
  then show ?thesis
    by (elim disjE; simp add: q_rot_def q_mul_def Let_def algebra_simps)
qed

text \<open>Half the roll and half the pitch.\<close>

lemma tilt_rows:
  fixes a b :: real
  defines "R \<equiv> q_rot (vec4 (cos a * cos b) (cos a * sin b) (sin a * cos b) (- sin a * sin b))"
  shows "R 2 0 = - sin (2 * a)" "R 2 1 = cos (2 * a) * sin (2 * b)" "R 2 2 = cos (2 * a) * cos (2 * b)"
proof -
  have s: "sin a * sin a = 1 - cos a * cos a" "sin b * sin b = 1 - cos b * cos b"
    using sin_cos_squared_add [of a] sin_cos_squared_add [of b] by (simp_all add: power2_eq_square algebra_simps)
  have "R 2 0 = - 2 * (sin a * cos a) * (sin b * sin b) - 2 * (sin a * cos a) * (cos b * cos b)"
    by (simp add: R_def q_rot_def Let_def algebra_simps)
  then show "R 2 0 = - sin (2 * a)" unfolding s sin_double by (simp add: algebra_simps)
  have "R 2 1 = (cos a * cos a - sin a * sin a) * (2 * (sin b * cos b))"
    by (simp add: R_def q_rot_def Let_def algebra_simps)
  then show "R 2 1 = cos (2 * a) * sin (2 * b)" by (simp add: sin_double cos_double power2_eq_square)
  have "R 2 2 = (cos a * cos a) * (cos b * cos b) - (cos a * cos a) * (sin b * sin b) - (sin a * sin a) * (cos b * cos b)
      + (sin a * sin a) * (sin b * sin b)"
    by (simp add: R_def q_rot_def Let_def algebra_simps)
  also have "\<dots> = (cos a * cos a - sin a * sin a) * (cos b * cos b - sin b * sin b)" by (simp add: algebra_simps)
  finally show "R 2 2 = cos (2 * a) * cos (2 * b)" by (simp add: cos_double power2_eq_square)
qed

lemma align_tilt_down:
  assumes "(a 0)\<^sup>2 + (a 1)\<^sup>2 + (a 2)\<^sup>2 = n\<^sup>2" "0 < n"
  shows "q_rot (align_tilt real_libm n a) 2 0 = - a 0 / n" "q_rot (align_tilt real_libm n a) 2 1 = - a 1 / n"
    "q_rot (align_tilt real_libm n a) 2 2 = - a 2 / n"
proof -
  define g where "g = (\<lambda>i. - a i / n)"
  define r where "r = sqrt ((g 1)\<^sup>2 + (g 2)\<^sup>2)"
  define roll where "roll = atan2 (g 1) (g 2)"
  define pitch where "pitch = atan2 (- g 0) r"
  have "(g 0)\<^sup>2 + (g 1)\<^sup>2 + (g 2)\<^sup>2 = ((a 0)\<^sup>2 + (a 1)\<^sup>2 + (a 2)\<^sup>2) / n\<^sup>2"
    by (simp add: g_def power_divide add_divide_distrib)
  then have g: "(g 0)\<^sup>2 + (g 1)\<^sup>2 + (g 2)\<^sup>2 = 1" using assms by simp
  have r: "r\<^sup>2 + (- g 0)\<^sup>2 = 1" using g by (simp add: r_def)
  have p: "cos pitch = r" "sin pitch = - g 0"
    using atan2_polar [of r "- g 0"] unfolding pitch_def r by simp_all
  have q: "align_tilt real_libm n a = vec4 (cos (pitch / 2) * cos (roll / 2)) (cos (pitch / 2) * sin (roll / 2))
      (sin (pitch / 2) * cos (roll / 2)) (- sin (pitch / 2) * sin (roll / 2))"
  proof -
    have "align_tilt real_libm n a = q_normalize real_libm (vec4 (cos (pitch / 2) * cos (roll / 2)) (cos (pitch / 2) * sin (roll / 2))
      (sin (pitch / 2) * cos (roll / 2)) (- sin (pitch / 2) * sin (roll / 2)))"
      by (simp add: align_tilt_def Let_def half_real pitch_def roll_def r_def g_def power2_eq_square)
    then show ?thesis unfolding q_normalize_id [OF half_angles] by simp
  qed
  have rr: "r * sin roll = g 1" "r * cos roll = g 2"
  proof -
    have "r * sin roll = g 1 \<and> r * cos roll = g 2"
    proof (cases "r = 0")
      case True
      then have "(g 1)\<^sup>2 + (g 2)\<^sup>2 = 0" by (simp add: r_def)
      then show ?thesis using True by (simp add: sum_power2_eq_zero_iff)
    next
      case False
      have e: "(g 2)\<^sup>2 + (g 1)\<^sup>2 = (g 1)\<^sup>2 + (g 2)\<^sup>2" by simp
      have "(g 2)\<^sup>2 + (g 1)\<^sup>2 \<noteq> 0" using False unfolding r_def e by (metis real_sqrt_zero)
      from atan2_polar [OF this] show ?thesis using False unfolding e roll_def r_def [symmetric] by simp
    qed
    then show "r * sin roll = g 1" "r * cos roll = g 2" by simp_all
  qed
  show "q_rot (align_tilt real_libm n a) 2 0 = - a 0 / n" "q_rot (align_tilt real_libm n a) 2 1 = - a 1 / n"
    "q_rot (align_tilt real_libm n a) 2 2 = - a 2 / n"
    unfolding q tilt_rows using p rr by (simp_all add: g_def)
qed

text \<open>A rotation about the vertical by \<open>yaw\<close>.\<close>

lemma q_rot_yaw:
  "q_rot (vec4 (cos (yaw / 2)) 0 0 (sin (yaw / 2))) =
     (\<lambda>i. if i = 0 then vec3 (cos yaw) (- sin yaw) 0 else if i = 1 then vec3 (sin yaw) (cos yaw) 0 else vec3 0 0 1)"
proof -
  have d: "cos yaw = cos (yaw / 2) * cos (yaw / 2) - sin (yaw / 2) * sin (yaw / 2)" "sin yaw = 2 * (sin (yaw / 2) * cos (yaw / 2))"
    using cos_double [of "yaw / 2"] sin_double [of "yaw / 2"] by (simp_all add: power2_eq_square)
  have o: "cos (yaw / 2) * cos (yaw / 2) + sin (yaw / 2) * sin (yaw / 2) = 1"
    using sin_cos_squared_add [of "yaw / 2"] by (simp add: power2_eq_square)
  show ?thesis using o by (intro ext) (simp add: q_rot_def Let_def vec3_def d)
qed

lemma to_north:
  "sin (atan2 (- y) x) * x + cos (atan2 (- y) x) * y = 0" "0 \<le> cos (atan2 (- y) x) * x - sin (atan2 (- y) x) * y"
proof -
  have "sin (atan2 (- y) x) * x + cos (atan2 (- y) x) * y = 0 \<and> 0 \<le> cos (atan2 (- y) x) * x - sin (atan2 (- y) x) * y"
  proof (cases "x\<^sup>2 + (- y)\<^sup>2 = 0")
    case True
    then have "x = 0" "y = 0" by (simp_all add: sum_power2_eq_zero_iff)
    then show ?thesis by simp
  next
    case False
    have "0 \<le> x * x / sqrt (x\<^sup>2 + (- y)\<^sup>2) + y * y / sqrt (x\<^sup>2 + (- y)\<^sup>2)" by simp
    then show ?thesis unfolding atan2_polar [OF False] by simp
  qed
  then show "sin (atan2 (- y) x) * x + cos (atan2 (- y) x) * y = 0" "0 \<le> cos (atan2 (- y) x) * x - sin (atan2 (- y) x) * y"
    by simp_all
qed

text \<open>C19: An alignment with gravity and field establishes what it is for: the vertical of the attitude is the direction of
  the measured gravity in the body frame, the measured field has no component to the east and none to the south, and
  the field so turned becomes the heading reference, in gauss.\<close>

theorem align_level_north:
  fixes accel mag :: "real vec" and f :: "real mekf"
  assumes "lit real_libm (1 / 2) * G_MS2 real_libm \<le> v3_norm real_libm accel" "\<not> mf_m_ref_valid f"
  defines "f' \<equiv> mekf_align real_libm accel (Some mag) f"
  defines "R \<equiv> q_to_R real_libm (mf_q f')"
  shows "mf_initialized f' \<and> unit_q (mf_q f') \<and>
    R 2 0 = - accel 0 / v3_norm real_libm accel \<and> R 2 1 = - accel 1 / v3_norm real_libm accel \<and> R 2 2 = - accel 2 / v3_norm real_libm accel \<and>
    matvec R mag 1 = 0 \<and> 0 \<le> matvec R mag 0 \<and>
    mf_m_ref_valid f' \<and> mf_m_ref f' = (\<lambda>i. matvec R mag i / 100)"
proof -
  define n where "n = v3_norm real_libm accel"
  define qt where "qt = align_tilt real_libm n accel"
  define m where "m = matvec (q_rot qt) mag"
  define yaw where "yaw = atan2 (- m 1) (m 0)"
  define qy where "qy = vec4 (cos (yaw / 2)) 0 0 (sin (yaw / 2))"
  have n: "n\<^sup>2 = (accel 0)\<^sup>2 + (accel 1)\<^sup>2 + (accel 2)\<^sup>2" by (simp add: n_def v3_norm_def power2_eq_square)
  have pos: "0 < n"
  proof -
    have "(0 :: real) < lit real_libm (1 / 2) * G_MS2 real_libm" by (simp add: G_MS2_def)
    then show ?thesis using assms(1) unfolding n_def by linarith
  qed
  have ut: "unit_q qt" unfolding qt_def by (rule unit_align_tilt)
  have uy: "unit_q qy" unfolding qy_def by (rule unit_yaw)
  have y: "align_yaw real_libm qt (Some mag) = yaw"
    by (simp add: align_yaw_def Let_def q_to_R_unit [OF ut] yaw_def m_def)
  have q: "mf_q f' = q_normalize real_libm (q_mul qy qt)"
    using assms(1,2) y unfolding f'_def mekf_align_def Let_def n_def [symmetric] qt_def [symmetric]
    by (simp add: qy_def half_real)
  have u: "unit_q (mf_q f')" unfolding q by (rule unit_times [OF uy ut])
  have u1: "unit_q (q_mul qy qt)" by (simp add: q_norm2_mul ut uy)
  have e: "q_rot (mf_q f') = q_rot (q_mul qy qt)" unfolding q q_normalize_id [OF u1] by (simp add: q_rot_def Let_def)
  have R: "R i j = q_rot qy i 0 * q_rot qt 0 j + q_rot qy i 1 * q_rot qt 1 j + q_rot qy i 2 * q_rot qt 2 j" if "i < 3" "j < 3" for i j
    unfolding R_def q_to_R_unit [OF u] e by (rule q_rot_mul [OF that])
  have down: "R 2 0 = - accel 0 / n" "R 2 1 = - accel 1 / n" "R 2 2 = - accel 2 / n"
    using align_tilt_down [OF n [symmetric] pos, folded qt_def] by (simp_all add: R qy_def q_rot_yaw)
  have "matvec R mag 1 = sin yaw * m 0 + cos yaw * m 1" "matvec R mag 0 = cos yaw * m 0 - sin yaw * m 1"
    by (simp_all add: matvec_def R qy_def q_rot_yaw m_def algebra_simps)
  then have north: "matvec R mag 1 = 0" "0 \<le> matvec R mag 0" using to_north [of "m 1" "m 0"] by (simp_all add: yaw_def)
  have ref: "mf_initialized f'" "mf_m_ref_valid f'" "mf_m_ref f' = (\<lambda>i. matvec R mag i / 100)"
    using assms(1,2) unfolding R_def f'_def mekf_align_def Let_def by (simp_all add: of_rat_divide)
  show ?thesis using u down north ref unfolding n_def by blast
qed

theorem align_level_north_witness:
  "let f' = mekf_align real_libm (vec3 0 0 (- 10)) (Some (vec3 0 20 40)) mekf_zero in
   mf_initialized f' \<and> q_to_R real_libm (mf_q f') 2 2 = 1 \<and> matvec (q_to_R real_libm (mf_q f')) (vec3 0 20 40) 1 = 0"
proof -
  have n: "v3_norm real_libm (vec3 0 0 (- 10)) = 10" by (simp add: v3_norm_def)
  have "lit real_libm (1 / 2) * G_MS2 real_libm \<le> v3_norm real_libm (vec3 0 0 (- 10))"
    unfolding n by (simp add: G_MS2_def of_rat_divide)
  from align_level_north [OF this, of mekf_zero "vec3 0 20 40"] show ?thesis
    unfolding Let_def n by (simp add: mekf_zero_def)
qed

end
