(* ===== verification/Heave.thy ===== *)
theory Heave
  imports Mekf
begin

text \<open>
  Heave and sea state of src/fusion.c: a leaky double integration of the vertical acceleration with a high-pass behind
  it, and exponentially weighted means and variances. Both accumulate in double: the definitions are over a type of
  floats and a type of doubles with the conversions between them, and are used here with both the real numbers.
\<close>

section \<open>Doubles beside floats\<close>

record ('a, 'd) wider =
  wd_float :: "'a libm"
  wd_double :: "'d libm"
  wide :: "'a \<Rightarrow> 'd"
  narrow :: "'d \<Rightarrow> 'a"
  dceil :: "'d \<Rightarrow> 'd"
  to_u64 :: "'d \<Rightarrow> u64"

definition real_wider :: "(real, real) wider" where
  "real_wider = \<lparr>wd_float = real_libm, wd_double = real_libm, wide = (\<lambda>x. x), narrow = (\<lambda>x. x), dceil = (\<lambda>x. of_int \<lceil>x\<rceil>),
     to_u64 = (\<lambda>x. word_of_int \<lfloor>x\<rfloor>)\<rparr>"

lemma real_wider_simps [simp]:
  "wd_float real_wider = real_libm" "wd_double real_wider = real_libm" "wide real_wider x = x" "narrow real_wider x = x"
  "dceil real_wider x = of_int \<lceil>x\<rceil>" "to_u64 real_wider x = word_of_int \<lfloor>x\<rfloor>"
  by (simp_all add: real_wider_def)

section \<open>Heave\<close>

definition HEAVE_SETTLE_FACTOR :: "'a libm \<Rightarrow> 'a" where "HEAVE_SETTLE_FACTOR F = lit F 10"

definition settle_samples :: "('a, 'd :: {times, inverse, ord}) wider \<Rightarrow> 'a \<Rightarrow> 'a \<Rightarrow> 'a \<Rightarrow> u64" where
  "settle_samples W factor tau_s dt =
     (let D = wd_double W; n = dceil W (wide W factor * wide W tau_s / wide W dt)
      in if \<not> n \<ge> lit D 1 then 1 else if n > lit D (10 ^ 18) then to_u64 W (lit D (10 ^ 18)) else to_u64 W n)"

record ('a, 'd) heave =
  he_tau :: 'a
  he_dt :: 'a
  he_vel :: 'd
  he_disp :: 'd
  he_disp_prev :: 'd
  he_hp_y :: 'd
  he_n :: u64
  he_settle_n :: u64
  he_settled :: bool
  he_enabled :: bool

definition heave_init :: "('a :: {zero, ord}, 'd :: {zero, times, inverse, ord}) wider \<Rightarrow> 'a \<Rightarrow> 'a \<Rightarrow> ('a, 'd) heave" where
  "heave_init W tau_s dt =
     (let en = (tau_s > 0 \<and> dt > 0)
      in \<lparr>he_tau = tau_s, he_dt = dt, he_vel = 0, he_disp = 0, he_disp_prev = 0, he_hp_y = 0, he_n = 0,
          he_settle_n = (if en then settle_samples W (HEAVE_SETTLE_FACTOR (wd_float W)) tau_s dt else 0),
          he_settled = False, he_enabled = en\<rparr>)"

definition heave_update ::
  "('a :: {zero, one, plus, minus, times, ord}, 'd :: {plus, minus, uminus, times, inverse}) wider \<Rightarrow> 'a vec \<Rightarrow> 'a vec \<Rightarrow> 'a \<Rightarrow>
   ('a, 'd) heave \<Rightarrow> 'a \<times> ('a, 'd) heave" where
  "heave_update W q accel dt_s h =
     (if \<not> he_enabled h then (0, h)
      else let h = h\<lparr>he_n := he_n h + 1\<rparr>;
               h = (if \<not> he_settled h \<and> he_n h \<ge> he_settle_n h then h\<lparr>he_settled := True\<rparr> else h);
               R = q_to_R (wd_float W) q;
               a_down = wide W (R 2 0) * wide W (accel 0) + wide W (R 2 1) * wide W (accel 1) + wide W (R 2 2) * wide W (accel 2)
                        + wide W (G_MS2 (wd_float W));
               dt = (if dt_s > 0 then wide W dt_s else wide W (he_dt h));
               tau = wide W (he_tau h);
               leak = dt / tau;
               vel = he_vel h + a_down * dt;
               vel = vel - vel * leak;
               disp = he_disp h + vel * dt;
               disp = disp - disp * leak;
               alpha = tau / (tau + dt);
               hp_y = alpha * (he_hp_y h + disp - he_disp_prev h)
           in (narrow W (- hp_y), h\<lparr>he_vel := vel, he_disp := disp, he_hp_y := hp_y, he_disp_prev := disp\<rparr>))"

section \<open>Sea state\<close>

definition SEASTATE_SETTLE_FACTOR :: "'a libm \<Rightarrow> 'a" where "SEASTATE_SETTLE_FACTOR F = lit F 2"
definition SEASTATE_MIN_HEAVE_SIG :: "'a libm \<Rightarrow> 'a" where "SEASTATE_MIN_HEAVE_SIG F = lit F (2 / 100)"
definition SEASTATE_MIN_ANGLE_SIG :: "'a libm \<Rightarrow> 'a :: {times, inverse}" where
  "SEASTATE_MIN_ANGLE_SIG F = lit F (3 / 10) * lit F M_PI / lit F 180"

text \<open>A mean and a variance.\<close>

type_synonym 'd stat = "'d \<times> 'd"

record ('a, 'd) seastate =
  ss_tau :: 'a
  ss_dt :: 'a
  ss_h :: "'d stat"
  ss_hr :: "'d stat"
  ss_r :: "'d stat"
  ss_rr :: "'d stat"
  ss_p :: "'d stat"
  ss_pr :: "'d stat"
  ss_n :: u64
  ss_settle_n :: u64
  ss_settled :: bool
  ss_enabled :: bool

definition seastate_init :: "('a :: {zero, ord}, 'd :: {zero, times, inverse, ord}) wider \<Rightarrow> 'a \<Rightarrow> 'a \<Rightarrow> ('a, 'd) seastate" where
  "seastate_init W tau_s dt =
     (let en = (tau_s > 0 \<and> dt > 0)
      in \<lparr>ss_tau = tau_s, ss_dt = dt, ss_h = (0, 0), ss_hr = (0, 0), ss_r = (0, 0), ss_rr = (0, 0), ss_p = (0, 0), ss_pr = (0, 0),
          ss_n = 0, ss_settle_n = (if en then settle_samples W (SEASTATE_SETTLE_FACTOR (wd_float W)) tau_s dt else 0),
          ss_settled = False, ss_enabled = en\<rparr>)"

definition ew_stat :: "'d \<Rightarrow> 'd \<Rightarrow> 'd stat \<Rightarrow> ('d :: {one, plus, minus, times}) stat" where
  "ew_stat x alpha s =
     (case s of (mean, var) \<Rightarrow>
        let d = x - mean in (mean + alpha * d, var + alpha * ((1 - alpha) * d * d - var)))"

definition seastate_alpha :: "('a :: {zero, ord}, 'd :: inverse) wider \<Rightarrow> 'a \<Rightarrow> ('a, 'd) seastate \<Rightarrow> 'd" where
  "seastate_alpha W dt_s w = (if dt_s > 0 then wide W dt_s else wide W (ss_dt w)) / wide W (ss_tau w)"

definition seastate_update ::
  "('a :: {zero, ord}, 'd :: {one, plus, minus, times, inverse}) wider \<Rightarrow> 'a \<Rightarrow> 'a \<Rightarrow> 'a \<Rightarrow> 'a \<Rightarrow> 'a \<Rightarrow> 'a \<Rightarrow> 'a \<Rightarrow>
   ('a, 'd) seastate \<Rightarrow> ('a, 'd) seastate" where
  "seastate_update W heave_m heave_rate roll roll_rate pitch pitch_rate dt_s w =
     (if \<not> ss_enabled w then w
      else let alpha = seastate_alpha W dt_s w;
               w = w\<lparr>ss_h := ew_stat (wide W heave_m) alpha (ss_h w), ss_hr := ew_stat (wide W heave_rate) alpha (ss_hr w),
                     ss_r := ew_stat (wide W roll) alpha (ss_r w), ss_rr := ew_stat (wide W roll_rate) alpha (ss_rr w),
                     ss_p := ew_stat (wide W pitch) alpha (ss_p w), ss_pr := ew_stat (wide W pitch_rate) alpha (ss_pr w),
                     ss_n := ss_n w + 1\<rparr>
           in if \<not> ss_settled w \<and> ss_n w \<ge> ss_settle_n w then w\<lparr>ss_settled := True\<rparr> else w)"

text \<open>The getters: an amplitude, and a period where the oscillation is large enough to be timed.\<close>

definition seastate_height ::
  "('a :: {zero, times}, 'd) wider \<Rightarrow> 'a \<Rightarrow> 'd stat \<Rightarrow> ('a, 'd) seastate \<Rightarrow> 'a" where
  "seastate_height W factor s w =
     (if \<not> ss_enabled w \<or> \<not> ss_settled w then 0 else factor * narrow W (fsqrt (wd_double W) (snd s)))"

definition seastate_period ::
  "('a :: zero, 'd :: {zero, times, inverse, ord}) wider \<Rightarrow> 'a \<Rightarrow> 'd stat \<Rightarrow> 'd stat \<Rightarrow> ('a, 'd) seastate \<Rightarrow> 'a" where
  "seastate_period W min_sig s sr w =
     (if \<not> ss_enabled w \<or> \<not> ss_settled w then 0
      else if fsqrt (wd_double W) (snd s) < wide W min_sig \<or> snd sr \<le> 0 then 0
      else narrow W (lit (wd_double W) 2 * lit (wd_double W) M_PI * fsqrt (wd_double W) (snd s / snd sr)))"

definition seastate_wave_height :: "('a :: {zero, times}, 'd) wider \<Rightarrow> ('a, 'd) seastate \<Rightarrow> 'a" where
  "seastate_wave_height W w = seastate_height W (lit (wd_float W) 4) (ss_h w) w"

definition seastate_wave_period :: "('a :: zero, 'd :: {zero, times, inverse, ord}) wider \<Rightarrow> ('a, 'd) seastate \<Rightarrow> 'a" where
  "seastate_wave_period W w = seastate_period W (SEASTATE_MIN_HEAVE_SIG (wd_float W)) (ss_h w) (ss_hr w) w"

definition seastate_roll_period :: "('a :: {zero, times, inverse}, 'd :: {zero, times, inverse, ord}) wider \<Rightarrow> ('a, 'd) seastate \<Rightarrow> 'a" where
  "seastate_roll_period W w = seastate_period W (SEASTATE_MIN_ANGLE_SIG (wd_float W)) (ss_r w) (ss_rr w) w"

definition seastate_roll_amplitude :: "('a :: {zero, times}, 'd) wider \<Rightarrow> ('a, 'd) seastate \<Rightarrow> 'a" where
  "seastate_roll_amplitude W w = seastate_height W (lit (wd_float W) 2) (ss_r w) w"

definition seastate_pitch_period :: "('a :: {zero, times, inverse}, 'd :: {zero, times, inverse, ord}) wider \<Rightarrow> ('a, 'd) seastate \<Rightarrow> 'a" where
  "seastate_pitch_period W w = seastate_period W (SEASTATE_MIN_ANGLE_SIG (wd_float W)) (ss_p w) (ss_pr w) w"

definition seastate_pitch_amplitude :: "('a :: {zero, times}, 'd) wider \<Rightarrow> ('a, 'd) seastate \<Rightarrow> 'a" where
  "seastate_pitch_amplitude W w = seastate_height W (lit (wd_float W) 2) (ss_p w) w"

section \<open>Heave does not run away\<close>

definition down_accel :: "real vec \<Rightarrow> real vec \<Rightarrow> real" where
  "down_accel q accel = (let R = q_to_R real_libm q in R 2 0 * accel 0 + R 2 1 * accel 1 + R 2 2 * accel 2 + G_MS2 real_libm)"

text \<open>The displacement that the high-pass has not passed is an average of displacements.\<close>

definition heave_within :: "real \<Rightarrow> (real, real) heave \<Rightarrow> bool" where
  "heave_within A h \<longleftrightarrow> \<bar>he_vel h\<bar> \<le> A * he_tau h \<and> \<bar>he_disp h\<bar> \<le> A * (he_tau h)\<^sup>2 \<and>
     \<bar>he_disp h - he_hp_y h\<bar> \<le> A * (he_tau h)\<^sup>2 \<and> he_disp_prev h = he_disp h"

lemma leaky_bound:
  fixes x u c dt tau :: real
  assumes "\<bar>x\<bar> \<le> c * tau" "\<bar>u\<bar> \<le> c" "0 < dt" "dt \<le> tau"
  shows "\<bar>(x + u * dt) - (x + u * dt) * (dt / tau)\<bar> \<le> c * tau"
proof -
  let ?e = "dt / tau"
  have e: "0 < ?e" "?e \<le> 1" using assms(3,4) by simp_all
  have c: "0 \<le> c" using assms(2) by linarith
  have "\<bar>x + u * dt\<bar> \<le> \<bar>x\<bar> + \<bar>u\<bar> * dt" using abs_triangle_ineq [of x "u * dt"] assms(3) by (simp add: abs_mult)
  also have "\<dots> \<le> c * tau + c * dt" using assms(1,2,3) by (intro add_mono mult_right_mono) simp_all
  also have "\<dots> = c * tau * (1 + ?e)" using assms(3,4) by (simp add: field_simps)
  finally have b: "\<bar>x + u * dt\<bar> \<le> c * tau * (1 + ?e)" .
  have "\<bar>(x + u * dt) - (x + u * dt) * ?e\<bar> = \<bar>x + u * dt\<bar> * (1 - ?e)"
    using e by (simp add: right_diff_distrib [symmetric, of "x + u * dt" 1 ?e, simplified] abs_mult)
  also have "\<dots> \<le> c * tau * (1 + ?e) * (1 - ?e)" using b e by (intro mult_right_mono) simp_all
  also have "\<dots> = c * tau * (1 - ?e * ?e)" by (simp add: algebra_simps)
  also have "\<dots> \<le> c * tau * 1" using c assms(3,4) e by (intro mult_left_mono) simp_all
  finally show ?thesis by simp
qed

definition heave_dt :: "real \<Rightarrow> (real, real) heave \<Rightarrow> real" where
  "heave_dt dt_s h = (if dt_s > 0 then dt_s else he_dt h)"

lemma heave_update_real:
  assumes "he_enabled h" "heave_update real_wider q accel dt_s h = (y, h')"
  defines "dt \<equiv> heave_dt dt_s h" and "tau \<equiv> he_tau h"
  shows "he_vel h' = (he_vel h + down_accel q accel * dt) - (he_vel h + down_accel q accel * dt) * (dt / tau)"
    and "he_disp h' = (he_disp h + he_vel h' * dt) - (he_disp h + he_vel h' * dt) * (dt / tau)"
    and "he_hp_y h' = tau / (tau + dt) * (he_hp_y h + he_disp h' - he_disp_prev h)"
    and "he_disp_prev h' = he_disp h'" "y = - he_hp_y h'"
    and "he_tau h' = he_tau h" "he_dt h' = he_dt h" "he_enabled h'" "he_settle_n h' = he_settle_n h" "he_n h' = he_n h + 1"
    and "he_settled h' \<longleftrightarrow> he_settled h \<or> he_settle_n h \<le> he_n h + 1"
  using assms(1,2) unfolding heave_update_def Let_def dt_def tau_def heave_dt_def down_accel_def by (auto split: if_splits)

lemma heave_within_update:
  assumes h: "heave_within A h" "he_enabled h" and a: "\<bar>down_accel q accel\<bar> \<le> A"
    and dt: "0 < heave_dt dt_s h" "heave_dt dt_s h \<le> he_tau h"
    and u: "heave_update real_wider q accel dt_s h = (y, h')"
  shows "heave_within A h' \<and> \<bar>y\<bar> \<le> 2 * A * (he_tau h)\<^sup>2"
proof -
  note r = heave_update_real [OF h(2) u]
  define dt' where "dt' = heave_dt dt_s h"
  define tau where "tau = he_tau h"
  have t: "0 < dt'" "dt' \<le> tau" "0 < tau" using dt by (simp_all add: dt'_def tau_def)
  have b: "\<bar>he_vel h\<bar> \<le> A * tau" "\<bar>he_disp h\<bar> \<le> A * tau * tau" "\<bar>he_disp h - he_hp_y h\<bar> \<le> A * tau * tau" "he_disp_prev h = he_disp h"
    using h(1) by (simp_all add: heave_within_def tau_def power2_eq_square mult.assoc)
  have v: "\<bar>he_vel h'\<bar> \<le> A * tau"
    unfolding r(1) dt'_def [symmetric] tau_def [symmetric] by (rule leaky_bound [OF b(1) a t(1,2)])
  have d: "\<bar>he_disp h'\<bar> \<le> A * tau * tau"
    unfolding r(2) dt'_def [symmetric] tau_def [symmetric] by (rule leaky_bound [OF b(2) v t(1,2)])
  define al where "al = tau / (tau + dt')"
  have al: "0 \<le> al" "al \<le> 1" using t by (simp_all add: al_def)
  have e: "he_disp h' - he_hp_y h' = (1 - al) * he_disp h' + al * (he_disp h - he_hp_y h)"
    unfolding r(3) dt'_def [symmetric] tau_def [symmetric] al_def [symmetric] b(4) by (simp add: algebra_simps)
  have "\<bar>he_disp h' - he_hp_y h'\<bar> \<le> \<bar>(1 - al) * he_disp h'\<bar> + \<bar>al * (he_disp h - he_hp_y h)\<bar>"
    unfolding e by (rule abs_triangle_ineq)
  also have "\<dots> = (1 - al) * \<bar>he_disp h'\<bar> + al * \<bar>he_disp h - he_hp_y h\<bar>"
    using al by (simp add: abs_mult)
  also have "\<dots> \<le> (1 - al) * (A * tau * tau) + al * (A * tau * tau)"
    using al by (intro add_mono mult_left_mono d b(3)) simp_all
  also have "\<dots> = A * tau * tau" by (simp add: algebra_simps)
  finally have w: "\<bar>he_disp h' - he_hp_y h'\<bar> \<le> A * tau * tau" .
  have "\<bar>y\<bar> \<le> \<bar>he_disp h'\<bar> + \<bar>he_disp h' - he_hp_y h'\<bar>" unfolding r(5) by linarith
  then have "\<bar>y\<bar> \<le> 2 * (A * tau * tau)" using d w by linarith
  then show ?thesis using v d w r(4,6) unfolding heave_within_def tau_def by (simp add: power2_eq_square mult.assoc)
qed

text \<open>A run over samples: attitude, specific force, measured interval.\<close>

definition heave_run ::
  "('a :: {zero, one, plus, minus, times, ord}, 'd :: {plus, minus, uminus, times, inverse}) wider \<Rightarrow> ('a vec \<times> 'a vec \<times> 'a) list \<Rightarrow>
   ('a, 'd) heave \<Rightarrow> ('a, 'd) heave" where
  "heave_run W xs h = fold (\<lambda>(q, accel, dt_s) h. snd (heave_update W q accel dt_s h)) xs h"

lemma heave_run_simps [simp]:
  "heave_run W [] h = h" "heave_run W ((q, accel, dt_s) # xs) h = heave_run W xs (snd (heave_update W q accel dt_s h))"
  by (simp_all add: heave_run_def)

lemma heave_run_within:
  assumes "heave_within A h" "he_enabled h" "0 < he_dt h" "he_dt h \<le> he_tau h"
    and "list_all (\<lambda>(q, accel, dt_s). \<bar>down_accel q accel\<bar> \<le> A \<and> dt_s \<le> he_tau h) xs"
  defines "h' \<equiv> heave_run real_wider xs h"
  shows "heave_within A h' \<and> he_enabled h' \<and> he_dt h' = he_dt h \<and> he_tau h' = he_tau h"
  using assms(1-5) unfolding h'_def
proof (induction xs arbitrary: h)
  case (Cons x xs)
  obtain q accel dt_s where x: "x = (q, accel, dt_s)" by (cases x)
  obtain y g where g: "heave_update real_wider q accel dt_s h = (y, g)" by fastforce
  note r = heave_update_real [OF Cons.prems(2) g]
  have dt: "0 < heave_dt dt_s h" "heave_dt dt_s h \<le> he_tau h" using Cons.prems(3-5) by (simp_all add: heave_dt_def x)
  have "heave_within A g" using heave_within_update [OF Cons.prems(1,2) _ dt g] Cons.prems(5) by (simp add: x)
  then show ?case using Cons.IH [of g] Cons.prems r by (simp add: x g)
qed simp

text \<open>C25: However long the estimator runs, whatever the waves do and however the interval between samples varies, the heave
  it reports is at most \<open>2 A \<tau>\<^sup>2\<close> and its rate at most \<open>A \<tau>\<close>, where \<open>A\<close> bounds the vertical acceleration
  and no interval is longer than \<open>\<tau>\<close>: neither of the two integrations drifts away.\<close>

theorem heave_bounded:
  assumes "0 < dt" "dt \<le> tau" "0 \<le> A"
    and "list_all (\<lambda>(q, accel, dt_s). \<bar>down_accel q accel\<bar> \<le> A \<and> dt_s \<le> tau) (xs @ [(q, accel, dt_s)])"
  defines "h \<equiv> heave_run real_wider xs (heave_init real_wider tau dt)"
  shows "\<bar>fst (heave_update real_wider q accel dt_s h)\<bar> \<le> 2 * A * tau\<^sup>2 \<and>
    \<bar>he_vel (snd (heave_update real_wider q accel dt_s h))\<bar> \<le> A * tau"
proof -
  let ?i = "heave_init real_wider tau dt"
  have i: "heave_within A ?i" "he_enabled ?i" "he_dt ?i = dt" "he_tau ?i = tau"
    using assms(1-3) by (simp_all add: heave_init_def heave_within_def)
  have h: "heave_within A h \<and> he_enabled h \<and> he_dt h = dt \<and> he_tau h = tau"
    using heave_run_within [OF i(1,2), of xs] assms(1,2,4) unfolding h_def i(3,4) by simp
  obtain y g where g: "heave_update real_wider q accel dt_s h = (y, g)" by fastforce
  have dt: "0 < heave_dt dt_s h" "heave_dt dt_s h \<le> he_tau h" using assms(1,2,4) h by (simp_all add: heave_dt_def)
  have r: "he_tau g = tau" using heave_update_real(6) [OF _ g] h by simp
  from heave_within_update [OF _ _ _ dt g] h assms(4) have "heave_within A g \<and> \<bar>y\<bar> \<le> 2 * A * tau\<^sup>2" by simp
  then show ?thesis unfolding g by (simp add: heave_within_def r)
qed

theorem heave_bounded_witness:
  "\<bar>fst (heave_update real_wider (vec4 1 0 0 0) (vec3 0 0 (- 10)) 0 (heave_run real_wider [(vec4 1 0 0 0, vec3 0 0 (- 9), 1)] (heave_init real_wider 12 (1 / 100))))\<bar> \<le> 2 * 1 * 12\<^sup>2"
proof -
  have d: "down_accel (vec4 1 0 0 0) (vec3 0 0 a) = a + 980665 / 100000" for a
    by (simp add: down_accel_def q_to_R_def G_MS2_def of_rat_divide Let_def)
  show ?thesis
    by (rule heave_bounded [THEN conjunct1]) (simp_all add: d)
qed

section \<open>Settling is counted in samples\<close>

lemma settle_samples_real:
  assumes "0 < c" "0 < tau" "0 < dt" "c * tau / dt \<le> 10 ^ 18"
  shows "real (unat (settle_samples real_wider c tau dt)) = of_int \<lceil>c * tau / dt\<rceil>" "1 \<le> unat (settle_samples real_wider c tau dt)"
proof -
  let ?n = "\<lceil>c * tau / dt\<rceil>"
  have p: "0 < c * tau / dt" using assms(1-3) by simp
  then have n1: "1 \<le> ?n" by (simp add: one_le_ceiling)
  have n2: "?n \<le> 10 ^ 18" using assms(4) by (simp add: ceiling_le_iff)
  have "(of_int ?n :: real) \<le> of_int (10 ^ 18)" using n2 unfolding of_int_le_iff .
  then have r: "(1 :: real) \<le> of_int ?n" "\<not> (10 :: real) ^ 18 < of_int ?n" using n1 by simp_all
  have "settle_samples real_wider c tau dt = word_of_int ?n"
    using r by (simp add: settle_samples_def Let_def of_rat_power)
  moreover have "unat (word_of_int ?n :: u64) = nat ?n"
    using n1 n2 by (simp add: unsigned_of_int take_bit_int_eq_self)
  ultimately show "real (unat (settle_samples real_wider c tau dt)) = of_int ?n" "1 \<le> unat (settle_samples real_wider c tau dt)"
    using n1 by (simp_all add: le_nat_iff del: one_le_ceiling)
qed

lemma heave_run_count:
  assumes "he_enabled h" "unat (he_n h) + length xs < 2 ^ 64"
    and "he_settled h \<longleftrightarrow> he_settle_n h \<le> he_n h"
  defines "h' \<equiv> heave_run real_wider xs h"
  shows "he_enabled h' \<and> unat (he_n h') = unat (he_n h) + length xs \<and> he_settle_n h' = he_settle_n h \<and>
    (he_settled h' \<longleftrightarrow> he_settle_n h' \<le> he_n h')"
  using assms(1-3) unfolding h'_def
proof (induction xs arbitrary: h)
  case (Cons x xs)
  obtain q accel dt_s where x: "x = (q, accel, dt_s)" by (cases x)
  obtain y g where g: "heave_update real_wider q accel dt_s h = (y, g)" by fastforce
  note r = heave_update_real [OF Cons.prems(1) g]
  have n: "unat (he_n g) = unat (he_n h) + 1" using Cons.prems(2) unfolding r(10) by (simp add: unat_word_ariths)
  then have "he_n h \<le> he_n g" by (simp add: word_le_nat_alt)
  then have s: "he_settled g \<longleftrightarrow> he_settle_n g \<le> he_n g" using Cons.prems(3) r(9,10,11) order_trans by auto
  show ?case using Cons.IH [OF r(8) _ s] Cons.prems(2) n r(9) by (simp add: x g)
qed simp

text \<open>The estimator calls itself settled exactly from the sample on by which ten time constants have passed at the nominal
  rate, however many samples it takes: the count does not stall and does not wrap.\<close>

theorem heave_settles:
  assumes "0 < tau" "0 < dt" "10 * tau / dt \<le> 10 ^ 18" "length xs < 2 ^ 64"
  shows "he_settled (heave_run real_wider xs (heave_init real_wider tau dt)) \<longleftrightarrow> 10 * tau \<le> real (length xs) * dt"
proof -
  let ?i = "heave_init real_wider tau dt" and ?k = "settle_samples real_wider 10 tau dt"
  have k: "real (unat ?k) = of_int \<lceil>10 * tau / dt\<rceil>" "1 \<le> unat ?k"
    by (rule settle_samples_real [where c = 10]; use assms in simp)+
  have i: "he_enabled ?i" "he_n ?i = 0" "he_settle_n ?i = ?k" "\<not> he_settled ?i"
    using assms(1,2) by (simp_all add: heave_init_def Let_def HEAVE_SETTLE_FACTOR_def)
  have "\<not> ?k \<le> 0" using k(2) by (simp add: word_le_nat_alt)
  then have "he_settled (heave_run real_wider xs ?i) \<longleftrightarrow> unat ?k \<le> length xs"
    using heave_run_count [OF i(1), of xs] assms(4) i by (simp add: word_le_nat_alt)
  also have "\<dots> \<longleftrightarrow> real (unat ?k) \<le> real (length xs)" by (rule of_nat_le_iff [symmetric])
  also have "\<dots> \<longleftrightarrow> 10 * tau / dt \<le> real (length xs)" 
  proof -
    have "(of_int \<lceil>10 * tau / dt\<rceil> :: real) \<le> of_int (int (length xs)) \<longleftrightarrow> 10 * tau / dt \<le> of_int (int (length xs))"
      unfolding of_int_le_iff by (rule ceiling_le_iff)
    then show ?thesis unfolding k(1) by simp
  qed
  also have "\<dots> \<longleftrightarrow> 10 * tau \<le> real (length xs) * dt" using assms(2) by (simp add: field_simps)
  finally show ?thesis .
qed

theorem heave_settles_witness:
  "\<not> he_settled (heave_run real_wider (replicate 5 (vec4 1 0 0 0, vec3 0 0 (- 10), 0)) (heave_init real_wider 12 (1 / 100))) \<and>
   he_settled (heave_run real_wider (replicate 5 (vec4 1 0 0 0, vec3 0 0 (- 10), 0)) (heave_init real_wider 1 2))"
  using heave_settles [of 12 "1 / 100" "replicate 5 (vec4 1 0 0 0, vec3 0 0 (- 10), 0)"]
    heave_settles [of 1 2 "replicate 5 (vec4 1 0 0 0, vec3 0 0 (- 10), 0)"] by simp

section \<open>The statistics are the weighted ones\<close>

text \<open>The reference: every sample has a weight, and each new one takes its share \<open>\<alpha>\<close> from all before it. The zero the
  accumulators start from is the first sample, with the weight one.\<close>

definition new_sample :: "real \<times> real \<Rightarrow> (real \<times> real) list \<Rightarrow> (real \<times> real) list" where
  "new_sample xa ws = (case xa of (x, alpha) \<Rightarrow> map (\<lambda>(y, w). (y, (1 - alpha) * w)) ws @ [(x, alpha)])"

definition total :: "(real \<Rightarrow> real) \<Rightarrow> (real \<times> real) list \<Rightarrow> real" where
  "total g ws = sum_list (map (\<lambda>(y, w). w * g y) ws)"

definition mean_of :: "(real \<times> real) list \<Rightarrow> real" where "mean_of ws = total (\<lambda>y. y) ws"

definition var_of :: "(real \<times> real) list \<Rightarrow> real" where "var_of ws = total (\<lambda>y. (y - mean_of ws)\<^sup>2) ws"

lemma total_new: "total g (new_sample (x, alpha) ws) = (1 - alpha) * total g ws + alpha * g x"
proof -
  have "total g (map (\<lambda>(y, w). (y, (1 - alpha) * w)) ws) = (1 - alpha) * total g ws"
    by (induction ws) (auto simp: total_def algebra_simps)
  then show ?thesis by (simp add: new_sample_def total_def)
qed

lemma total_square: "total (\<lambda>y. (y - m)\<^sup>2) ws = total (\<lambda>y. y\<^sup>2) ws - 2 * m * total (\<lambda>y. y) ws + m\<^sup>2 * total (\<lambda>_. 1) ws"
  by (induction ws) (auto simp: total_def power2_eq_square algebra_simps)

lemma ew_stat_new:
  assumes "total (\<lambda>_. 1) ws = 1"
  shows "ew_stat x alpha (mean_of ws, var_of ws) = (mean_of (new_sample (x, alpha) ws), var_of (new_sample (x, alpha) ws))"
    and "total (\<lambda>_. 1) (new_sample (x, alpha) ws) = 1"
proof -
  show one: "total (\<lambda>_. 1) (new_sample (x, alpha) ws) = 1" by (simp add: total_new assms)
  have v: "var_of us = total (\<lambda>y. y\<^sup>2) us - (mean_of us)\<^sup>2" if "total (\<lambda>_. 1) us = 1" for us
    unfolding var_of_def total_square that by (simp add: mean_of_def power2_eq_square)
  show "ew_stat x alpha (mean_of ws, var_of ws) = (mean_of (new_sample (x, alpha) ws), var_of (new_sample (x, alpha) ws))"
    unfolding v [OF assms] v [OF one] by (simp add: ew_stat_def mean_of_def total_new power2_eq_square algebra_simps)
qed

lemma ew_fold:
  "fold (\<lambda>(x, alpha). ew_stat x alpha) xs (0, 0) =
     (mean_of (fold new_sample xs [(0, 1)]), var_of (fold new_sample xs [(0, 1)]))"
proof -
  have "fold (\<lambda>(x, alpha). ew_stat x alpha) xs (mean_of ws, var_of ws) = (mean_of (fold new_sample xs ws), var_of (fold new_sample xs ws))"
    if "total (\<lambda>_. 1) ws = 1" for ws
    using that by (induction xs arbitrary: ws) (auto simp: ew_stat_new)
  from this [of "[(0, 1)]"] show ?thesis by (simp add: mean_of_def var_of_def total_def)
qed

lemma var_of_nonneg:
  assumes "list_all (\<lambda>(y, w). 0 \<le> w) ws"
  shows "0 \<le> var_of ws"
  unfolding var_of_def total_def using assms by (intro sum_list_nonneg) (auto simp: list_all_iff)

lemma weights_nonneg:
  assumes "list_all (\<lambda>(x, alpha). 0 \<le> alpha \<and> alpha \<le> 1) xs" "list_all (\<lambda>(y, w). 0 \<le> w) ws"
  shows "list_all (\<lambda>(y, w). 0 \<le> w) (fold new_sample xs ws)"
  using assms
proof (induction xs arbitrary: ws)
  case (Cons x xs)
  have "list_all (\<lambda>(y, w). 0 \<le> w) (new_sample x ws)"
    using Cons.prems by (auto simp: new_sample_def list_all_iff split: prod.splits)
  then show ?case using Cons by simp
qed simp

text \<open>A run over samples of heave, heave rate, roll, roll rate, pitch, pitch rate and interval.\<close>

definition seastate_run ::
  "('a :: {zero, ord}, 'd :: {one, plus, minus, times, inverse}) wider \<Rightarrow> ('a \<times> 'a \<times> 'a \<times> 'a \<times> 'a \<times> 'a \<times> 'a) list \<Rightarrow>
   ('a, 'd) seastate \<Rightarrow> ('a, 'd) seastate" where
  "seastate_run W xs w = fold (\<lambda>(h, hr, r, rr, p, pr, dt_s) w. seastate_update W h hr r rr p pr dt_s w) xs w"

definition heave_weights :: "real \<Rightarrow> real \<Rightarrow> (real \<times> real \<times> real \<times> real \<times> real \<times> real \<times> real) list \<Rightarrow> (real \<times> real) list" where
  "heave_weights tau dt xs = fold new_sample (map (\<lambda>(h, hr, r, rr, p, pr, dt_s). (h, (if dt_s > 0 then dt_s else dt) / tau)) xs) [(0, 1)]"

lemma seastate_run_heave:
  fixes w :: "(real, real) seastate" and xs :: "(real \<times> real \<times> real \<times> real \<times> real \<times> real \<times> real) list"
  assumes "ss_enabled w"
  defines "w' \<equiv> seastate_run real_wider xs w"
  shows "ss_h w' = fold (\<lambda>(x, alpha). ew_stat x alpha)
      (map (\<lambda>(h, hr, r, rr, p, pr, dt_s). (h, (if dt_s > 0 then dt_s else ss_dt w) / ss_tau w)) xs) (ss_h w) \<and>
    ss_enabled w' \<and> ss_dt w' = ss_dt w \<and> ss_tau w' = ss_tau w"
  using assms(1) unfolding w'_def
proof (induction xs arbitrary: w)
  case (Cons x xs)
  obtain h hr r rr p pr dt_s where x: "x = (h, hr, r, rr, p, pr, dt_s)" by (cases x)
  let ?g = "seastate_update real_wider h hr r rr p pr dt_s w"
  have g: "ss_enabled ?g" "ss_dt ?g = ss_dt w" "ss_tau ?g = ss_tau w"
    "ss_h ?g = ew_stat h ((if dt_s > 0 then dt_s else ss_dt w) / ss_tau w) (ss_h w)"
    using Cons.prems by (simp_all add: seastate_update_def Let_def seastate_alpha_def)
  have "seastate_run real_wider (x # xs) w = seastate_run real_wider xs ?g" by (simp add: seastate_run_def x)
  then show ?case using Cons.IH [OF g(1)] unfolding g by (simp add: x)
qed (simp add: seastate_run_def)

text \<open>The significant wave height is four standard deviations of the heave about its own mean, under weights that are
  never negative when no interval is longer than the window: the update in place computes what a pass over the whole
  record would.\<close>

theorem wave_height_weighted:
  fixes dt tau :: real and xs :: "(real \<times> real \<times> real \<times> real \<times> real \<times> real \<times> real) list"
  assumes "0 < dt" "dt \<le> tau" "list_all (\<lambda>(h, hr, r, rr, p, pr, dt_s). dt_s \<le> tau) xs"
  defines "w \<equiv> seastate_run real_wider xs (seastate_init real_wider tau dt)" and "ws \<equiv> heave_weights tau dt xs"
  shows "ss_h w = (mean_of ws, var_of ws) \<and> list_all (\<lambda>(y, a). 0 \<le> a) ws \<and> 0 \<le> var_of ws \<and>
    (ss_settled w \<longrightarrow> seastate_wave_height real_wider w = 4 * sqrt (var_of ws))"
proof -
  let ?xs = "map (\<lambda>(h, hr, r, rr, p, pr, dt_s). (h :: real, (if dt_s > 0 then dt_s else dt) / tau)) xs"
  have i: "ss_enabled (seastate_init real_wider tau dt)" "ss_h (seastate_init real_wider tau dt) = (0, 0)"
    "ss_dt (seastate_init real_wider tau dt) = dt" "ss_tau (seastate_init real_wider tau dt) = tau"
    using assms(1,2) by (simp_all add: seastate_init_def)
  have w: "ss_h w = (mean_of ws, var_of ws)" "ss_enabled w"
    using seastate_run_heave [OF i(1), of xs] unfolding w_def ws_def heave_weights_def i ew_fold by simp_all
  have a: "list_all (\<lambda>(x, alpha). 0 \<le> alpha \<and> alpha \<le> 1) ?xs"
    using assms(1-3) by (auto simp: list_all_iff)
  have nn: "list_all (\<lambda>(y, a). 0 \<le> a) ws" unfolding ws_def heave_weights_def by (rule weights_nonneg [OF a]) simp
  show ?thesis using w nn var_of_nonneg [OF nn] by (simp add: seastate_wave_height_def seastate_height_def)
qed

theorem wave_height_weighted_witness:
  "let xs = [(1, 0, 0, 0, 0, 0, 0), (-1, 0, 0, 0, 0, 0, 2)]; w = seastate_run real_wider xs (seastate_init real_wider 120 1)
   in ss_h w = (mean_of (heave_weights 120 1 xs), var_of (heave_weights 120 1 xs)) \<and> 0 \<le> var_of (heave_weights 120 1 xs)"
  unfolding Let_def using wave_height_weighted [of 1 120 "[(1, 0, 0, 0, 0, 0, 0), (-1, 0, 0, 0, 0, 0, 2)]"] by simp

end
