(* ===== verification/Fusion.thy ===== *)
theory Fusion
  imports Heave Anchor Latency
begin

text \<open>
  fusion_thread of src/imu.c: the settling and the estimate of the gyroscope's bias at startup, the alignment from
  averages over a window, and the pass over one sample, which runs the filter and the estimators behind it and
  publishes their state. What a ring, a clock or a counter yields is an input; the results of
  \<open>mag_ring_try_pop\<close> are a list. Logging is left out.
\<close>

section \<open>Samples and configuration\<close>

record 'a isample =
  im_accel :: "'a vec"
  im_accel_raw :: "'a vec"
  im_gyro :: "'a vec"
  im_temp_c :: 'a
  im_chip_ts :: u32
  im_seq :: u32
  im_read_done_ns :: u64
  im_host_done_ns :: u64

text \<open>The keys the thread reads, as the snapshot of a pass holds them.\<close>

record ('a, 'd) fusion_cfg =
  fc_filter :: "'a mekf_cfg"
  fc_heave_tau_s :: 'a
  fc_wave_tau_s :: 'a
  fc_mref_valid :: bool
  fc_mref_h_gauss :: 'a
  fc_mref_z_gauss :: 'a
  fc_speed_valid :: bool
  fc_speed_mps :: 'a
  fc_engine_vibration_g2 :: 'd
  fc_engine_accel_skip_thresh :: 'd
  fc_accel_skip_thresh :: 'd
  fc_declination_valid :: bool
  fc_declination_deg :: 'a
  fc_align_window_sec :: 'd

text \<open>What is fixed for the run.\<close>

record 'a fusion_ctx =
  cx_has_hw_timestamp :: bool
  cx_mag :: bool
  cx_cal_has_mag :: bool
  cx_cal_flags :: u16
  cx_odr_hz :: 'a
  cx_mag_odr_hz :: 'a
  cx_actual_odr_mhz :: int
  cx_tick_ns :: u32

definition FLAG_EXT_MAG_ABSENT :: u32 where "FLAG_EXT_MAG_ABSENT = push_bit 0 1"

section \<open>The estimate of the bias\<close>

record 'd bias_acc =
  ba_sum :: "'d vec"
  ba_sumsq :: "'d vec"
  ba_count :: nat
  ba_target :: nat
  ba_extended :: bool

text \<open>The larger of the standard deviations of the three axes, at the end of the window.\<close>

definition bias_std_max :: "('a :: {zero, ord}, 'd :: {zero, minus, times, inverse, ord}) wider \<Rightarrow> 'd bias_acc \<Rightarrow> 'a" where
  "bias_std_max W b =
     (let D = wd_double W; n = lit D (of_nat (ba_count b))
      in fold (\<lambda>k std_max.
           let mean = ba_sum b k / n; v = ba_sumsq b k / n - mean * mean
           in if v > 0 \<and> narrow W (fsqrt D v) > std_max then narrow W (fsqrt D v) else std_max) [0..<3] 0)"

definition bias_add ::
  "('a :: {zero, ord}, 'd :: {zero, plus, minus, times, inverse, ord}) wider \<Rightarrow> 'a vec \<Rightarrow> 'd bias_acc \<Rightarrow> 'd bias_acc" where
  "bias_add W gyro b =
     (let b = b\<lparr>ba_sum := (\<lambda>k. ba_sum b k + wide W (gyro k)), ba_sumsq := (\<lambda>k. ba_sumsq b k + wide W (gyro k) * wide W (gyro k)),
                ba_count := ba_count b + 1\<rparr>
      in if ba_count b = ba_target b \<and> \<not> ba_extended b \<and> bias_std_max W b > lit (wd_float W) (873 / 100000)
         then b\<lparr>ba_extended := True, ba_target := ba_target b * 2\<rparr> else b)"

text \<open>Samples are taken until the target is met or the input ends, which is \<open>stop\<close>.\<close>

fun bias_loop ::
  "('a :: {zero, ord}, 'd :: {zero, plus, minus, times, inverse, ord}) wider \<Rightarrow> 'a vec list \<Rightarrow> 'd bias_acc \<Rightarrow> 'd bias_acc" where
  "bias_loop W [] b = b"
| "bias_loop W (g # gs) b = (if ba_count b < ba_target b then bias_loop W gs (bias_add W g b) else b)"

definition bias_start :: "nat \<Rightarrow> ('d :: zero) bias_acc" where
  "bias_start n = \<lparr>ba_sum = (\<lambda>_. 0), ba_sumsq = (\<lambda>_. 0), ba_count = 0, ba_target = n, ba_extended = False\<rparr>"

text \<open>The bias and whether it is one, from the samples and the product of window and rate, truncated.\<close>

definition bias_window :: "int \<Rightarrow> nat" where
  "bias_window n = (if n < 1 then 1 else nat n)"

definition gyro_bias ::
  "('a :: {zero, ord}, 'd :: {zero, plus, minus, times, inverse, ord}) wider \<Rightarrow> int \<Rightarrow> 'a vec list \<Rightarrow> 'a vec \<times> bool" where
  "gyro_bias W n_needed gs =
     (let b = bias_loop W gs (bias_start (bias_window n_needed)); n = lit (wd_double W) (of_nat (ba_count b))
      in if ba_count b > 0 then (vec3 (narrow W (ba_sum b 0 / n)) (narrow W (ba_sum b 1 / n)) (narrow W (ba_sum b 2 / n)), True)
         else (vec3 0 0 0, False))"

section \<open>Alignment\<close>

record 'd align_acc =
  aa_acc_sum :: "'d vec"
  aa_mag_sum :: "'d vec"
  aa_acc_n :: nat
  aa_mag_n :: nat

definition align_mag :: "('a, 'd :: plus) wider \<Rightarrow> 'a field \<Rightarrow> 'd align_acc \<Rightarrow> 'd align_acc" where
  "align_mag W m a =
     (if fi_valid m then a\<lparr>aa_mag_sum := (\<lambda>k. aa_mag_sum a k + wide W (fi_field m k)), aa_mag_n := aa_mag_n a + 1\<rparr> else a)"

text \<open>The drain of the magnetometer ring, which stops at the number wanted.\<close>

fun align_mags :: "('a, 'd :: plus) wider \<Rightarrow> nat \<Rightarrow> 'a field list \<Rightarrow> 'd align_acc \<Rightarrow> 'd align_acc" where
  "align_mags W n_mag [] a = a"
| "align_mags W n_mag (m # ms) a = (if aa_mag_n a < n_mag then align_mags W n_mag ms (align_mag W m a) else a)"

text \<open>An iteration of the collecting loop: the popped sample, or a timeout, and what the drain can pop.\<close>

fun align_collect ::
  "('a, 'd :: plus) wider \<Rightarrow> nat \<Rightarrow> nat \<Rightarrow> ('a isample option \<times> 'a field list) list \<Rightarrow> 'd align_acc \<Rightarrow> bool \<times> 'd align_acc" where
  "align_collect W n_avg n_mag [] a = (aa_acc_n a < n_avg, a)"
| "align_collect W n_avg n_mag ((s, ms) # es) a =
     (if aa_acc_n a < n_avg
      then let a = (case s of
                      Some s \<Rightarrow> a\<lparr>aa_acc_sum := (\<lambda>k. aa_acc_sum a k + wide W (im_accel s k)), aa_acc_n := aa_acc_n a + 1\<rparr>
                    | None \<Rightarrow> a)
           in align_collect W n_avg n_mag es (align_mags W n_mag ms a)
      else (False, a))"

text \<open>The wait for a first magnetometer sample: elapsed time and the result of the pop. The input ends with \<open>stop\<close>.\<close>

fun align_wait :: "('a, 'd :: {plus, ord}) wider \<Rightarrow> 'd \<Rightarrow> ('d \<times> 'a field option) list \<Rightarrow> 'd align_acc \<Rightarrow> bool \<times> 'd align_acc" where
  "align_wait W mag_wait_s [] a = (aa_mag_n a = 0, a)"
| "align_wait W mag_wait_s ((elapsed, m) # es) a =
     (if aa_mag_n a = 0
      then if elapsed > mag_wait_s then (False, a)
           else align_wait W mag_wait_s es (case m of Some m \<Rightarrow> align_mag W m a | None \<Rightarrow> a)
      else (False, a))"

record ('a, 'd) align_in =
  ai_collect :: "('a isample option \<times> 'a field list) list"
  ai_wait :: "('d \<times> 'a field option) list"

text \<open>\<open>window\<close> is \<open>imu_align_window_samples\<close> at the numbers in use.\<close>

definition fusion_align ::
  "('a :: {zero, one, plus, minus, uminus, times, inverse, ord}, 'd :: {zero, plus, inverse, ord}) wider \<Rightarrow> ('d \<Rightarrow> 'a \<Rightarrow> int \<Rightarrow> int) \<Rightarrow>
   'a fusion_ctx \<Rightarrow> ('a, 'd) fusion_cfg \<Rightarrow> ('a, 'd) align_in \<Rightarrow> 'a mekf \<Rightarrow> 'a mekf" where
  "fusion_align W window cx cfg inp f =
     (let D = wd_double W;
          aw_s = (if \<not> fc_align_window_sec cfg > 0 then lit D 1 else fc_align_window_sec cfg);
          n_avg = nat (window aw_s (cx_odr_hz cx) 8);
          mag_wait_s = (if aw_s > lit D 5 then aw_s else lit D 5);
          n_mag_avg = nat (window aw_s (cx_mag_odr_hz cx) 1);
          a = \<lparr>aa_acc_sum = (\<lambda>_. 0), aa_mag_sum = (\<lambda>_. 0), aa_acc_n = 0, aa_mag_n = 0\<rparr>;
          (stop, a) = align_collect W n_avg n_mag_avg (ai_collect inp) a;
          (stop, a) = (if stop then (True, a) else if cx_mag cx then align_wait W mag_wait_s (ai_wait inp) a else (False, a))
      in if \<not> stop \<and> aa_acc_n a > 0
         then let acc_avg = (\<lambda>k. narrow W (aa_acc_sum a k / lit D (of_nat (aa_acc_n a))));
                  mag_avg = (\<lambda>k. narrow W (aa_mag_sum a k / lit D (of_nat (aa_mag_n a))));
                  f = mekf_align (wd_float W) acc_avg (if aa_mag_n a > 0 then Some mag_avg else None) f
              in if \<not> mf_initialized f then f
                 else if fc_mref_valid cfg then mekf_set_mref_invariants (wd_float W) (fc_mref_h_gauss cfg) (fc_mref_z_gauss cfg) f
                 else f
         else f)"

section \<open>The thread\<close>

text \<open>What the thread publishes with a sample: the filter's state, what the estimators add to it, and the sample itself as it came
  and without the bias.\<close>

record 'a published =
  pb_fused :: "'a fused"
  pb_flags :: u16
  pb_flags_ext :: u32
  pb_heave_m :: 'a
  pb_heave_rate :: 'a
  pb_wave_height_m :: 'a
  pb_wave_period_s :: 'a
  pb_roll_period_s :: 'a
  pb_roll_amplitude :: 'a
  pb_pitch_period_s :: 'a
  pb_pitch_amplitude :: 'a
  pb_rate_of_turn :: 'a
  pb_declination_deg :: 'a
  pb_ts_wall_ns :: u64
  pb_ts_tai_ns :: u64
  pb_ts_chip_ticks :: u32
  pb_anchor_gen :: u32
  pb_imu_seq :: u32
  pb_latest_imu :: "'a isample"
  pb_raw_imu :: "'a isample"

record ('a, 'd) fusion =
  fu_f :: "'a mekf"
  fu_heave :: "('a, 'd) heave"
  fu_wave :: "('a, 'd) seastate"
  fu_prev_mag_accepted :: u32
  fu_mag_stale_s :: 'a
  fu_mag_accept_age_s :: 'a
  fu_prev_wall_ns :: u64
  fu_prev_gen :: u32
  fu_ovf_count :: u64
  fu_ovf_age_s :: 'a
  fu_lat_fifo :: lat_hist
  fu_lat_pipe :: lat_hist
  fu_lat_fifo_pub :: lat_pub
  fu_lat_pipe_pub :: lat_pub
  fu_settled :: bool
  fu_latest_mag :: "'a field option"
  fu_published :: "'a published option"

record ('a, 'd) pass_in =
  pi_sample :: "'a isample"
  pi_cfg :: "('a, 'd) fusion_cfg"
  pi_reconfigure :: bool
  pi_mref_update :: bool
  pi_anchor :: ts_anchor
  pi_sample_period_ns :: u32
  pi_mags :: "'a field list"
  pi_engine_on :: bool
  pi_fifo_overflow_count :: u64
  pi_mag_set_flag :: bool
  pi_now_ns :: u64

definition fusion_reconfigure ::
  "('a :: {zero, one, plus, minus, times, inverse, ord}, 'd :: {zero, times, inverse, ord}) wider \<Rightarrow> ('a, 'd) fusion_cfg \<Rightarrow>
   ('a, 'd) fusion \<Rightarrow> ('a, 'd) fusion" where
  "fusion_reconfigure W cfg s =
     (let f = mekf_reconfigure (wd_float W) (fc_filter cfg) (fu_f s);
          heave = (if (fc_heave_tau_s cfg > 0) \<noteq> he_enabled (fu_heave s) then heave_init W (fc_heave_tau_s cfg) (mf_dt f)
                   else (fu_heave s)\<lparr>he_tau := fc_heave_tau_s cfg\<rparr>);
          wtau = (if he_enabled heave then fc_wave_tau_s cfg else 0);
          wave = (if (wtau > 0) \<noteq> ss_enabled (fu_wave s) then seastate_init W wtau (mf_dt f)
                  else (fu_wave s)\<lparr>ss_tau := (if wtau > 0 then wtau else ss_tau (fu_wave s))\<rparr>)
      in s\<lparr>fu_f := f, fu_heave := heave, fu_wave := wave\<rparr>)"

text \<open>The time of a sample and the interval since the one before it.\<close>

record 'a timing =
  tm_have :: bool
  tm_wall :: u64
  tm_tai :: u64
  tm_gen :: u32
  tm_dt :: 'a

definition fusion_times ::
  "('a :: {times, ord}, 'd :: times) wider \<Rightarrow> 'a fusion_ctx \<Rightarrow> ('a, 'd) pass_in \<Rightarrow> ('a, 'd) fusion \<Rightarrow> 'a timing \<times> ('a, 'd) fusion" where
  "fusion_times W cx inp s =
     (let F = wd_float W; D = wd_double W; nominal = mf_dt (fu_f s); chip_ts = im_chip_ts (pi_sample inp);
          have_ts = (chip_ts \<noteq> 0 \<or> \<not> cx_has_hw_timestamp cx);
          (wall, tai, gen) = (if have_ts then chip_to_wall (pi_anchor inp) chip_ts (cx_tick_ns cx) else (0, 0, 0));
          d = narrow W (lit D (of_nat (unat (wall - fu_prev_wall_ns s))) * lit D (1 / 10 ^ 9));
          dt = (if have_ts \<and> cx_has_hw_timestamp cx \<and> chip_ts \<noteq> 0 \<and> fu_prev_wall_ns s \<noteq> 0 \<and> gen = fu_prev_gen s \<and>
                   wall > fu_prev_wall_ns s \<and> d > lit F (1 / 2) * nominal \<and> d < lit F 2 * nominal
                then d else nominal);
          s = (if have_ts then s\<lparr>fu_prev_wall_ns := wall, fu_prev_gen := gen\<rparr> else s);
          p = pi_sample_period_ns inp;
          dt = (if \<not> cx_has_hw_timestamp cx \<and> p \<noteq> 0 then lit F (of_nat (unat p)) * lit F (1 / 10 ^ 9) else dt)
      in (\<lparr>tm_have = have_ts, tm_wall = wall, tm_tai = tai, tm_gen = gen, tm_dt = dt\<rparr>, s))"

definition fusion_mag ::
  "('a :: {zero, one, plus, minus, uminus, times, inverse, ord, abs}, 'd) wider \<Rightarrow> ('a, 'd) fusion_cfg \<Rightarrow> 'a field \<Rightarrow>
   ('a, 'd) fusion \<Rightarrow> ('a, 'd) fusion" where
  "fusion_mag W cfg m s =
     (let s = s\<lparr>fu_latest_mag := Some m\<rparr>
      in if \<not> fi_valid m then s
      else let F = wd_float W; had_mref = mf_m_ref_valid (fu_f s);
               f = mekf_update_mag F m (fu_f s);
               f = (if mf_m_ref_valid f \<and> \<not> had_mref \<and> fc_mref_valid cfg
                    then mekf_set_mref_invariants F (fc_mref_h_gauss cfg) (fc_mref_z_gauss cfg) f else f);
               s = s\<lparr>fu_f := f\<rparr>
           in if mf_mag_accepted f \<noteq> fu_prev_mag_accepted s
              then s\<lparr>fu_prev_mag_accepted := mf_mag_accepted f, fu_mag_accept_age_s := 0\<rparr> else s)"

definition fusion_engine_step ::
  "('a :: {one, plus, minus}, 'd :: {zero, ord}) wider \<Rightarrow> ('a, 'd) pass_in \<Rightarrow> 'a mekf \<Rightarrow> 'a mekf" where
  "fusion_engine_step W inp f =
     (let cfg = pi_cfg inp
      in if fc_engine_vibration_g2 cfg > 0
         then fusion_engine (wd_float W) (pi_engine_on inp)
                (narrow W (if pi_engine_on inp then fc_engine_accel_skip_thresh cfg else fc_accel_skip_thresh cfg)) f
         else f)"

text \<open>The Euler rates.\<close>

definition roll_rate :: "('a :: {plus, minus, times, inverse, ord, abs}) libm \<Rightarrow> 'a \<Rightarrow> 'a \<Rightarrow> 'a vec \<Rightarrow> 'a" where
  "roll_rate F roll pitch w =
     (let ct = fcos F pitch
      in if \<bar>ct\<bar> > lit F (1 / 5) then w 0 + fsin F pitch / ct * (w 1 * fsin F roll + w 2 * fcos F roll) else w 0)"

definition pitch_rate :: "('a :: {minus, times}) libm \<Rightarrow> 'a \<Rightarrow> 'a vec \<Rightarrow> 'a" where
  "pitch_rate F roll w = w 1 * fcos F roll - w 2 * fsin F roll"

definition rate_of_turn :: "('a :: {plus, times, inverse, ord, abs}) libm \<Rightarrow> 'a \<Rightarrow> 'a \<Rightarrow> 'a vec \<Rightarrow> 'a" where
  "rate_of_turn F roll pitch w =
     (let ct = fcos F pitch
      in (if \<bar>ct\<bar> > lit F (1 / 5) then (w 1 * fsin F roll + w 2 * fcos F roll) / ct else w 2) * RAD F * lit F 60)"

text \<open>The latch behind the flag for lost samples, with its age in the type of the intervals.\<close>

definition ovf_step :: "('a :: {zero, plus, ord}) libm \<Rightarrow> u64 \<Rightarrow> 'a \<Rightarrow> u64 \<times> 'a \<Rightarrow> bool \<times> u64 \<times> 'a" where
  "ovf_step F count dt l =
     (case l of (prev, age) \<Rightarrow>
        let (prev, age) = (if count \<noteq> prev then (count, 0) else if age < lit F 2 then (prev, age + dt) else (prev, age))
        in (age < lit F 2, prev, age))"

definition orif :: "bool \<Rightarrow> u16 \<Rightarrow> u16 \<Rightarrow> u16" where
  "orif b x flags = (if b then flags OR x else flags)"

text \<open>Everything a pass does up to the check for finite numbers: the filter's part.\<close>

definition fusion_filter ::
  "('a :: {zero, one, plus, minus, uminus, times, inverse, ord, abs}, 'd :: {zero, times, inverse, ord}) wider \<Rightarrow> 'a fusion_ctx \<Rightarrow>
   ('a, 'd) pass_in \<Rightarrow> ('a, 'd) fusion \<Rightarrow> 'a timing \<times> ('a, 'd) fusion" where
  "fusion_filter W cx inp s =
     (let F = wd_float W; cfg = pi_cfg inp; smp = pi_sample inp;
          s = (if pi_reconfigure inp then fusion_reconfigure W cfg s else s);
          s = (if pi_mref_update inp then s\<lparr>fu_f := mekf_set_mref_invariants F (fc_mref_h_gauss cfg) (fc_mref_z_gauss cfg) (fu_f s)\<rparr> else s);
          s = s\<lparr>fu_f := fusion_speed (if fc_speed_valid cfg then Some (fc_speed_mps cfg) else None) (fu_f s)\<rparr>;
          (tm, s) = fusion_times W cx inp s;
          s = s\<lparr>fu_f := mekf_predict F (im_gyro smp) (tm_dt tm) (fu_f s)\<rparr>;
          s = fold (fusion_mag W cfg) (pi_mags inp) s;
          s = s\<lparr>fu_f := fusion_engine_step W inp (fu_f s)\<rparr>;
          s = s\<lparr>fu_f := mekf_update_accel F (im_accel smp) (im_gyro smp) (fu_f s)\<rparr>;
          (fired, f) = mekf_sanitize F (fu_f s)
      in (tm, s\<lparr>fu_f := f, fu_settled := (if fired then False else fu_settled s)\<rparr>))"

text \<open>The latency of the sample, where it can be measured.\<close>

definition fusion_latency :: "'a fusion_ctx \<Rightarrow> ('a, 'd) pass_in \<Rightarrow> 'a timing \<Rightarrow> ('a, 'd) fusion \<Rightarrow> ('a, 'd) fusion" where
  "fusion_latency cx inp tm s =
     (let smp = pi_sample inp
      in if tm_have tm \<and> cx_has_hw_timestamp cx \<and> im_read_done_ns smp \<noteq> 0
         then let (fifo, pipe, pf, pp) =
                    lat_step (fu_lat_fifo s) (fu_lat_pipe s) (word_of_int ((cx_actual_odr_mhz cx + 500) div 1000)) (tm_wall tm)
                      (im_read_done_ns smp) (im_host_done_ns smp) (pi_now_ns inp) (fu_lat_fifo_pub s) (fu_lat_pipe_pub s)
              in s\<lparr>fu_lat_fifo := fifo, fu_lat_pipe := pipe, fu_lat_fifo_pub := pf, fu_lat_pipe_pub := pp\<rparr>
         else s)"

text \<open>The estimators behind the filter, the flags, and the publication.\<close>

definition fusion_publish ::
  "('a :: {zero, one, plus, minus, uminus, times, inverse, ord, abs}, 'd :: {zero, one, plus, minus, uminus, times, inverse, ord}) wider \<Rightarrow>
   'a fusion_ctx \<Rightarrow> ('a, 'd) pass_in \<Rightarrow> 'a timing \<Rightarrow> ('a, 'd) fusion \<Rightarrow> ('a, 'd) fusion" where
  "fusion_publish W cx inp tm s =
     (let F = wd_float W; cfg = pi_cfg inp; smp = pi_sample inp; f = fu_f s; dt = tm_dt tm;
          st = mekf_get_state F f (cx_cal_flags cx);
          flags_ext = (if \<not> cx_mag cx then 0 OR FLAG_EXT_MAG_ABSENT else 0);
          (heave_m, heave) = heave_update W (mf_q f) (im_accel smp) dt (fu_heave s);
          heave_rate = narrow W (- he_vel heave);
          flags = orif (he_enabled heave \<and> he_settled heave) FLAG_HEAVE_VALID (fd_flags st);
          w = (\<lambda>i. im_gyro smp i - mf_bias f i);
          wave = (if ss_enabled (fu_wave s) \<and> he_settled heave
                  then seastate_update W heave_m heave_rate (fd_roll st) (roll_rate F (fd_roll st) (fd_pitch st) w) (fd_pitch st)
                         (pitch_rate F (fd_roll st) w) dt (fu_wave s)
                  else fu_wave s);
          flags = orif (ss_enabled wave \<and> ss_settled wave) FLAG_WAVE_VALID flags;
          (lost, ovf_count, ovf_age) = ovf_step F (pi_fifo_overflow_count inp) dt (fu_ovf_count s, fu_ovf_age_s s);
          flags = orif lost FLAG_FIFO_OVERFLOW flags;
          flags = orif (pi_engine_on inp) FLAG_ENGINE_ON flags;
          fresh = fu_mag_accept_age_s s < fu_mag_stale_s s;
          flags = orif fresh (if cx_cal_has_mag cx then FLAG_MAG_VALID else FLAG_MAG_UNCAL) flags;
          age = (if fresh then fu_mag_accept_age_s s + dt else fu_mag_accept_age_s s);
          flags = orif (pi_mag_set_flag inp) FLAG_MAG_SET_RESET flags;
          s = fusion_latency cx inp tm s;
          flags = orif (fc_declination_valid cfg) FLAG_DECLINATION_VALID flags;
          pb = \<lparr>pb_fused = st, pb_flags = flags, pb_flags_ext = flags_ext, pb_heave_m = heave_m, pb_heave_rate = heave_rate,
                pb_wave_height_m = seastate_wave_height W wave, pb_wave_period_s = seastate_wave_period W wave,
                pb_roll_period_s = seastate_roll_period W wave, pb_roll_amplitude = seastate_roll_amplitude W wave,
                pb_pitch_period_s = seastate_pitch_period W wave, pb_pitch_amplitude = seastate_pitch_amplitude W wave,
                pb_rate_of_turn = rate_of_turn F (fd_roll st) (fd_pitch st) w,
                pb_declination_deg = (if fc_declination_valid cfg then fc_declination_deg cfg else 0),
                pb_ts_wall_ns = (if tm_have tm then tm_wall tm else 0), pb_ts_tai_ns = (if tm_have tm then tm_tai tm else 0),
                pb_ts_chip_ticks = (if tm_have tm then im_chip_ts smp else 0), pb_anchor_gen = (if tm_have tm then tm_gen tm else 0),
                pb_imu_seq = im_seq smp, pb_latest_imu = smp\<lparr>im_gyro := w\<rparr>, pb_raw_imu = smp\<rparr>
      in s\<lparr>fu_heave := heave, fu_wave := wave, fu_ovf_count := ovf_count, fu_ovf_age_s := ovf_age, fu_mag_accept_age_s := age,
           fu_published := Some pb\<rparr>)"

definition fusion_pass ::
  "('a :: {zero, one, plus, minus, uminus, times, inverse, ord, abs}, 'd :: {zero, one, plus, minus, uminus, times, inverse, ord}) wider \<Rightarrow>
   'a fusion_ctx \<Rightarrow> ('a, 'd) pass_in \<Rightarrow> ('a, 'd) fusion \<Rightarrow> ('a, 'd) fusion" where
  "fusion_pass W cx inp s = (case fusion_filter W cx inp s of (tm, s) \<Rightarrow> fusion_publish W cx inp tm s)"

text \<open>An iteration of the loop: the alignment where there is no attitude, then a pass where a sample was popped.\<close>

record ('a, 'd) iteration =
  it_cfg :: "('a, 'd) fusion_cfg"
  it_align :: "('a, 'd) align_in"
  it_pass :: "('a, 'd) pass_in option"

definition fusion_iteration ::
  "('a :: {zero, one, plus, minus, uminus, times, inverse, ord, abs}, 'd :: {zero, one, plus, minus, uminus, times, inverse, ord}) wider \<Rightarrow>
   ('d \<Rightarrow> 'a \<Rightarrow> int \<Rightarrow> int) \<Rightarrow> 'a fusion_ctx \<Rightarrow> ('a, 'd) iteration \<Rightarrow> ('a, 'd) fusion \<Rightarrow> ('a, 'd) fusion" where
  "fusion_iteration W window cx it s =
     (let s = (if mf_initialized (fu_f s) then s
               else let cfg = it_cfg it; s = s\<lparr>fu_settled := False, fu_f := fusion_align W window cx cfg (it_align it) (fu_f s)\<rparr>;
                        heave = heave_init W (fc_heave_tau_s cfg) (mf_dt (fu_f s))
                    in if \<not> mf_initialized (fu_f s) then s
                       else s\<lparr>fu_heave := heave, fu_settled := True,
                              fu_wave := seastate_init W (if he_enabled heave then fc_wave_tau_s cfg else 0) (mf_dt (fu_f s))\<rparr>)
      in if \<not> mf_initialized (fu_f s) then s
         else case it_pass it of None \<Rightarrow> s | Some inp \<Rightarrow> fusion_pass W cx inp s)"

text \<open>The state in which the loop starts.\<close>

definition mag_stale :: "('a :: {zero, inverse, ord}) libm \<Rightarrow> 'a mekf \<Rightarrow> 'a" where
  "mag_stale F f =
     (let st = lit F (1 / 2)
      in if mf_mag_odr_hz f > 0 then let w = lit F 10 / mf_mag_odr_hz f in if w > st then w else st else st)"

definition fusion_start ::
  "('a :: {zero, one, plus, minus, times, inverse, ord}, 'd :: {zero, times, inverse, ord}) wider \<Rightarrow> 'a fusion_ctx \<Rightarrow> ('a, 'd) fusion_cfg \<Rightarrow>
   'a vec \<Rightarrow> lat_hist \<Rightarrow> lat_hist \<Rightarrow> lat_pub \<Rightarrow> lat_pub \<Rightarrow> ('a, 'd) fusion" where
  "fusion_start W cx cfg init_bias fifo pipe pf pp =
     (let F = wd_float W; f = mekf_init F (fc_filter cfg) (cx_odr_hz cx) (cx_mag_odr_hz cx) (Some init_bias);
          heave = heave_init W (fc_heave_tau_s cfg) (mf_dt f)
      in \<lparr>fu_f = f, fu_heave = heave, fu_wave = seastate_init W (if he_enabled heave then fc_wave_tau_s cfg else 0) (mf_dt f),
          fu_prev_mag_accepted = 0, fu_mag_stale_s = mag_stale F f, fu_mag_accept_age_s = mag_stale F f, fu_prev_wall_ns = 0,
          fu_prev_gen = 0, fu_ovf_count = 0, fu_ovf_age_s = lit F 2, fu_lat_fifo = fifo, fu_lat_pipe = pipe, fu_lat_fifo_pub = pf,
          fu_lat_pipe_pub = pp, fu_settled = False, fu_latest_mag = None, fu_published = None\<rparr>)"

definition fusion_run ::
  "('a :: {zero, one, plus, minus, uminus, times, inverse, ord, abs}, 'd :: {zero, one, plus, minus, uminus, times, inverse, ord}) wider \<Rightarrow>
   ('d \<Rightarrow> 'a \<Rightarrow> int \<Rightarrow> int) \<Rightarrow> 'a fusion_ctx \<Rightarrow> ('a, 'd) iteration list \<Rightarrow> ('a, 'd) fusion \<Rightarrow> ('a, 'd) fusion" where
  "fusion_run W window cx its s = fold (fusion_iteration W window cx) its s"

end
