(* ===== verification/FusionProps.thy ===== *)
theory FusionProps
  imports Fusion MekfProps
begin

text \<open>
  The fusion thread over whole runs: the filter's invariants hold in it, the outputs are held exactly while there is no
  attitude, what it publishes is finite, and the bias it starts from is a mean.
\<close>

section \<open>The filter in the thread\<close>

lemma fusion_times_keeps:
  assumes "fusion_times W cx inp s = (tm, s')"
  shows "fu_f s' = fu_f s" "fu_settled s' = fu_settled s"
proof -
  have "fu_f (snd (fusion_times W cx inp s)) = fu_f s" "fu_settled (snd (fusion_times W cx inp s)) = fu_settled s"
    unfolding fusion_times_def Let_def case_prod_beta snd_conv by simp_all
  then show "fu_f s' = fu_f s" "fu_settled s' = fu_settled s" using assms by simp_all
qed

lemma fusion_latency_keeps [simp]:
  "fu_f (fusion_latency cx inp tm s) = fu_f s" "fu_settled (fusion_latency cx inp tm s) = fu_settled s"
  by (simp_all add: fusion_latency_def Let_def case_prod_beta)

lemma fusion_publish_keeps [simp]:
  "fu_f (fusion_publish W cx inp tm s) = fu_f s" "fu_settled (fusion_publish W cx inp tm s) = fu_settled s"
  unfolding fusion_publish_def Let_def case_prod_beta by simp_all

lemma fusion_reconfigure_keeps [simp]:
  "fu_f (fusion_reconfigure W cfg s) = mekf_reconfigure (wd_float W) (fc_filter cfg) (fu_f s)"
  "fu_settled (fusion_reconfigure W cfg s) = fu_settled s"
  by (simp_all add: fusion_reconfigure_def Let_def)

lemma fusion_mag_settled [simp]: "fu_settled (fusion_mag W cfg m s) = fu_settled s"
  by (simp add: fusion_mag_def Let_def)

lemma fusion_mags_settled [simp]: "fu_settled (fold (fusion_mag W cfg) ms s) = fu_settled s"
  by (induction ms arbitrary: s) simp_all

text \<open>What a pass does to the filter: everything of it keeps a predicate, so the pass does.\<close>

lemma fusion_filter_keeps:
  assumes "Q (fu_f s)"
    and "\<And>f. Q f \<Longrightarrow> pi_reconfigure inp \<Longrightarrow> Q (mekf_reconfigure (wd_float W) (fc_filter (pi_cfg inp)) f)"
    and "\<And>f h z. Q f \<Longrightarrow> Q (mekf_set_mref_invariants (wd_float W) h z f)" and "\<And>f v. Q f \<Longrightarrow> Q (fusion_speed v f)"
    and "\<And>f g dt. Q f \<Longrightarrow> Q (mekf_predict (wd_float W) g dt f)" and "\<And>f m. Q f \<Longrightarrow> Q (mekf_update_mag (wd_float W) m f)"
    and "\<And>f on sk. Q f \<Longrightarrow> Q (fusion_engine (wd_float W) on sk f)" and "\<And>f a g. Q f \<Longrightarrow> Q (mekf_update_accel (wd_float W) a g f)"
  obtains tm f where "fusion_filter W cx inp s = (tm, (snd (fusion_filter W cx inp s))\<lparr>fu_f := snd (mekf_sanitize (wd_float W) f)\<rparr>)"
    and "Q f" and "fu_settled (snd (fusion_filter W cx inp s)) = (if fst (mekf_sanitize (wd_float W) f) then False else fu_settled s)"
proof -
  define s1 where "s1 = (if pi_reconfigure inp then fusion_reconfigure W (pi_cfg inp) s else s)"
  define s2 where "s2 = (if pi_mref_update inp
    then s1\<lparr>fu_f := mekf_set_mref_invariants (wd_float W) (fc_mref_h_gauss (pi_cfg inp)) (fc_mref_z_gauss (pi_cfg inp)) (fu_f s1)\<rparr> else s1)"
  define s3 where "s3 = s2\<lparr>fu_f := fusion_speed (if fc_speed_valid (pi_cfg inp) then Some (fc_speed_mps (pi_cfg inp)) else None) (fu_f s2)\<rparr>"
  obtain tm s4 where s4: "fusion_times W cx inp s3 = (tm, s4)" by fastforce
  define s5 where "s5 = s4\<lparr>fu_f := mekf_predict (wd_float W) (im_gyro (pi_sample inp)) (tm_dt tm) (fu_f s4)\<rparr>"
  define s6 where "s6 = fold (fusion_mag W (pi_cfg inp)) (pi_mags inp) s5"
  define s7 where "s7 = s6\<lparr>fu_f := fusion_engine_step W inp (fu_f s6)\<rparr>"
  define s8 where "s8 = s7\<lparr>fu_f := mekf_update_accel (wd_float W) (im_accel (pi_sample inp)) (im_gyro (pi_sample inp)) (fu_f s7)\<rparr>"
  obtain fired g where g: "mekf_sanitize (wd_float W) (fu_f s8) = (fired, g)" by fastforce
  have e: "fusion_filter W cx inp s = (tm, s8\<lparr>fu_f := g, fu_settled := (if fired then False else fu_settled s8)\<rparr>)"
    unfolding fusion_filter_def Let_def s1_def [symmetric] s2_def [symmetric] s3_def [symmetric] s4 prod.case
      s5_def [symmetric] s6_def [symmetric] s7_def [symmetric] s8_def [symmetric] g ..
  have mags: "Q (fu_f (fold (fusion_mag W (pi_cfg inp)) ms t))" if "Q (fu_f t)" for ms t
    using that
  proof (induction ms arbitrary: t)
    case (Cons m ms)
    have "Q (fu_f (fusion_mag W (pi_cfg inp) m t))" using Cons.prems assms(3,6) by (simp add: fusion_mag_def Let_def)
    then show ?case using Cons.IH by simp
  qed simp
  have "Q (fu_f s1)" using assms(1,2) by (simp add: s1_def)
  then have "Q (fu_f s2)" using assms(3) by (simp add: s2_def)
  then have "Q (fu_f s3)" using assms(4) by (simp add: s3_def)
  then have "Q (fu_f s5)" using assms(5) fusion_times_keeps [OF s4] by (simp add: s5_def)
  then have "Q (fu_f s6)" unfolding s6_def by (rule mags)
  then have "Q (fu_f s7)" using assms(7) by (simp add: s7_def fusion_engine_step_def Let_def)
  then have q: "Q (fu_f s8)" using assms(8) by (simp add: s8_def)
  have st: "fu_settled s8 = fu_settled s"
    using fusion_times_keeps [OF s4] by (simp add: s8_def s7_def s6_def s5_def s3_def s2_def s1_def)
  have "fusion_filter W cx inp s = (tm, (snd (fusion_filter W cx inp s))\<lparr>fu_f := snd (mekf_sanitize (wd_float W) (fu_f s8))\<rparr>)"
    unfolding e g snd_conv by simp
  moreover have "fu_settled (snd (fusion_filter W cx inp s)) = (if fst (mekf_sanitize (wd_float W) (fu_f s8)) then False else fu_settled s)"
    unfolding e g snd_conv fst_conv using st by simp
  ultimately show ?thesis using that q by blast
qed

section \<open>The invariants of the filter hold in the thread\<close>

lemma fusion_align_ok:
  assumes "filter_ok f"
  shows "filter_ok (fusion_align real_wider window cx cfg inp f)"
  unfolding fusion_align_def Let_def case_prod_beta real_wider_simps(1)
  by (intro filter_ok_if mekf_set_mref_ok mekf_align_ok assms)

lemma fusion_pass_ok:
  assumes "filter_ok (fu_f s)" "cfg_ok (fc_filter (pi_cfg inp))"
  shows "filter_ok (fu_f (fusion_pass real_wider cx inp s))"
proof -
  obtain tm f where "fusion_filter real_wider cx inp s = (tm, (snd (fusion_filter real_wider cx inp s))\<lparr>fu_f := snd (mekf_sanitize real_libm f)\<rparr>)"
    and f: "filter_ok f"
    by (rule fusion_filter_keeps [where Q = filter_ok and W = real_wider and s = s and inp = inp and cx = cx])
      (use assms in \<open>simp_all add: mekf_reconfigure_ok mekf_set_mref_ok fusion_speed_ok mekf_predict_ok mekf_update_mag_ok
        fusion_engine_ok mekf_update_accel_ok\<close>)
  then show ?thesis using mekf_sanitize_ok [OF f] unfolding fusion_pass_def
    by (metis (no_types, lifting) fusion.select_convs(1) fusion.surjective fusion.update_convs(1) fusion_publish_keeps(1) prod.case)
qed

definition configs_ok :: "(real, real) iteration \<Rightarrow> bool" where
  "configs_ok it \<longleftrightarrow> (case it_pass it of Some inp \<Rightarrow> cfg_ok (fc_filter (pi_cfg inp)) | None \<Rightarrow> True)"

lemma fusion_iteration_ok:
  assumes "filter_ok (fu_f s)" "configs_ok it"
  shows "filter_ok (fu_f (fusion_iteration real_wider window cx it s))"
proof -
  have a: "filter_ok (fusion_align real_wider window cx (it_cfg it) (it_align it) (fu_f s))"
    by (rule fusion_align_ok [OF assms(1)])
  have p: "filter_ok (fu_f (case it_pass it of None \<Rightarrow> t | Some inp \<Rightarrow> fusion_pass real_wider cx inp t))" if "filter_ok (fu_f t)" for t
    using fusion_pass_ok [OF that] that assms(2) by (simp add: configs_ok_def split: option.splits)
  show ?thesis unfolding fusion_iteration_def Let_def using a assms(1) by (simp add: p)
qed

text \<open>C22: In the fusion thread the filter's invariants hold after every iteration, whatever samples, timeouts, reconfigurations,
  alignments and resets it has been through: in exact arithmetic the covariance is symmetric and positive semidefinite, the
  attitude is a unit quaternion, and a wave state that is off is zero.\<close>

theorem fusion_invariants:
  assumes "0 < cx_odr_hz cx" "0 \<le> cx_mag_odr_hz cx" "cfg_ok (fc_filter cfg)" "list_all configs_ok its"
    and "f = fu_f (fusion_run real_wider window cx its (fusion_start real_wider cx cfg bias h1 h2 p1 p2))"
  shows "(\<forall>i j. mf_P f i j = mf_P f j i) \<and> (\<forall>x. 0 \<le> quad (mf_P f) x) \<and> unit_q (mf_q f) \<and> wave_inert f"
proof -
  have "filter_ok (fu_f (fusion_run real_wider window cx its s))" if "filter_ok (fu_f s)" for s
    using that assms(4) by (induction its arbitrary: s) (simp_all add: fusion_run_def fusion_iteration_ok)
  moreover have "filter_ok (fu_f (fusion_start real_wider cx cfg bias h1 h2 p1 p2))"
    unfolding fusion_start_def Let_def using mekf_init_ok [OF assms(1-3)] by simp
  ultimately have "filter_ok f" unfolding assms(5) .
  then show ?thesis by (simp add: filter_ok_def symmetric_def psd_def)
qed

text \<open>A context, a configuration and a sample to apply the properties to.\<close>

definition some_ctx :: "'a \<Rightarrow> 'a \<Rightarrow> 'a fusion_ctx" where
  "some_ctx odr mag_odr = \<lparr>cx_has_hw_timestamp = True, cx_mag = True, cx_cal_has_mag = True, cx_cal_flags = 0, cx_odr_hz = odr,
     cx_mag_odr_hz = mag_odr, cx_actual_odr_mhz = 833000, cx_tick_ns = 25000\<rparr>"

definition some_fusion_cfg :: "('a :: zero) mekf_cfg \<Rightarrow> ('a, 'd :: zero) fusion_cfg" where
  "some_fusion_cfg c = \<lparr>fc_filter = c, fc_heave_tau_s = 0, fc_wave_tau_s = 0, fc_mref_valid = False, fc_mref_h_gauss = 0,
     fc_mref_z_gauss = 0, fc_speed_valid = False, fc_speed_mps = 0, fc_engine_vibration_g2 = 0, fc_engine_accel_skip_thresh = 0,
     fc_accel_skip_thresh = 0, fc_declination_valid = False, fc_declination_deg = 0, fc_align_window_sec = 0\<rparr>"

definition some_pass :: "'a isample \<Rightarrow> ('a, 'd) fusion_cfg \<Rightarrow> bool \<Rightarrow> ('a, 'd) pass_in" where
  "some_pass smp c r = \<lparr>pi_sample = smp, pi_cfg = c, pi_reconfigure = r, pi_mref_update = False,
     pi_anchor = \<lparr>an_wall_ns = 1, an_tai_ns = 1, an_mono_ns = 1, an_chip_ticks = 1, an_gen = 1, an_tick_q16 = 0, an_have_mono = False\<rparr>,
     pi_sample_period_ns = 0, pi_mags = [], pi_engine_on = False, pi_fifo_overflow_count = 0, pi_mag_set_flag = False, pi_now_ns = 0\<rparr>"

definition some_sample :: "('a :: zero) vec \<Rightarrow> 'a vec \<Rightarrow> 'a isample" where
  "some_sample a g = \<lparr>im_accel = a, im_accel_raw = a, im_gyro = g, im_temp_c = 0, im_chip_ts = 7, im_seq = 1, im_read_done_ns = 0, im_host_done_ns = 0\<rparr>"

definition no_lat :: lat_pub where "no_lat = \<lparr>lp_p50 = 0, lp_p99 = 0, lp_max_ever = 0, lp_valid = False\<rparr>"

theorem fusion_invariants_witness:
  "let c = some_fusion_cfg (some_cfg True); smp = some_sample (vec3 0 0 (- 10)) (vec3 1 0 0);
       it = \<lparr>it_cfg = c, it_align = \<lparr>ai_collect = replicate 8 (Some smp, []), ai_wait = [(9, None)]\<rparr>, it_pass = Some (some_pass smp c True)\<rparr>
   in unit_q (mf_q (fu_f (fusion_run real_wider (\<lambda>_ _ n. n) (some_ctx 100 10) [it, it]
        (fusion_start real_wider (some_ctx 100 10) c (\<lambda>_. 0) lat_empty lat_empty no_lat no_lat))))"
proof -
  have "cfg_ok (some_cfg True)" by (simp add: cfg_ok_def some_cfg_def)
  then show ?thesis unfolding Let_def
    by (intro fusion_invariants [OF _ _ _ _ refl, THEN conjunct2, THEN conjunct2, THEN conjunct1])
      (simp_all add: configs_ok_def some_pass_def some_fusion_cfg_def some_ctx_def)
qed

section \<open>The outputs are held while there is no attitude\<close>

lemma initialized_keeps [simp]:
  "mf_initialized (mekf_reconfigure F c f) = mf_initialized f" "mf_initialized (mekf_set_mref_invariants F h z f) = mf_initialized f"
  "mf_initialized (fusion_speed v f) = mf_initialized f" "mf_initialized (fusion_engine F on sk f) = mf_initialized f"
  "mf_initialized (mekf_predict F g dt f) = mf_initialized f" "mf_initialized (mref_acquire F m f) = mf_initialized f"
  "mf_initialized (mag_diagnose F a b w f) = mf_initialized f" "mf_initialized (mref_learn F w a f) = mf_initialized f"
  by (simp_all add: mekf_reconfigure_def mekf_derive_tuning_def mekf_set_mref_invariants_def fusion_speed_def fusion_engine_def
      mekf_predict_def mref_acquire_def mag_diagnose_def mref_learn_def Let_def case_prod_beta)

lemma gate_initialized:
  "eskf_gate F Si g ch a innov f = (r, f') \<Longrightarrow> mf_initialized f' = mf_initialized f"
  by (auto simp: eskf_gate_def Let_def gate_health_def nis_feed_def split: if_splits option.splits nis_channel.splits)

lemma eskf_update_initialized [simp]:
  "mf_initialized (snd (eskf_update F h z Rn gate ch a aw R33 protect f)) = mf_initialized f"
  by (auto simp: eskf_update_def Let_def eskf_inject_def split: prod.split option.split dest: gate_initialized)

lemma eskf_update_yaw_initialized [simp]:
  "mf_initialized (snd (eskf_update_yaw F y Rn f)) = mf_initialized f"
  by (simp add: eskf_update_yaw_def Let_def eskf_inject_def gate_health_def nis_feed_def)

lemma count_accepted_initialized [simp]: "mf_initialized (count_accepted r) = mf_initialized (snd r)"
  by (cases r) (simp add: count_accepted_def)

lemma uncal_withdraw_initialized:
  "uncal_withdraw F uncal a b f = (w, g) \<Longrightarrow> mf_initialized g = mf_initialized f"
  by (auto simp: uncal_withdraw_def Let_def split: if_splits)

lemma mag_fuse_initialized [simp]: "mf_initialized (mag_fuse F uncal R m_ned h z h_mag res_sq f) = mf_initialized f"
proof -
  have w: "mf_initialized (case uncal_withdraw F uncal b a f of (True, f) \<Rightarrow> f
      | (False, f) \<Rightarrow> count_accepted (eskf_update_yaw F y (mf_Rm f / (b * b)) f)) = mf_initialized f" for a b y
    by (auto split: prod.split bool.split dest: uncal_withdraw_initialized)
  show ?thesis unfolding mag_fuse_def Let_def if_distrib [of mf_initialized] w by simp
qed

lemma update_initialized [simp]:
  "mf_initialized (mekf_update_mag F m f) = mf_initialized f" "mf_initialized (mekf_update_accel F a g f) = mf_initialized f"
proof -
  show "mf_initialized (mekf_update_mag F m f) = mf_initialized f"
    unfolding mekf_update_mag_def Let_def if_distrib [of mf_initialized] by simp
  show "mf_initialized (mekf_update_accel F a g f) = mf_initialized f"
    by (simp add: mekf_update_accel_def Let_def split: prod.split option.split)
qed

lemma sanitize_initialized: "mf_initialized (snd (mekf_sanitize F f)) = (mf_initialized f \<and> \<not> fst (mekf_sanitize F f))"
  by (simp add: mekf_sanitize_def Let_def)

lemma fusion_pass_held:
  assumes "mf_initialized (fu_f s)" "fu_settled s"
  shows "fu_settled (fusion_pass W cx inp s) = mf_initialized (fu_f (fusion_pass W cx inp s))"
proof -
  obtain tm f where e: "fusion_filter W cx inp s = (tm, (snd (fusion_filter W cx inp s))\<lparr>fu_f := snd (mekf_sanitize (wd_float W) f)\<rparr>)"
    and i: "mf_initialized f"
    and st: "fu_settled (snd (fusion_filter W cx inp s)) = (if fst (mekf_sanitize (wd_float W) f) then False else fu_settled s)"
    by (rule fusion_filter_keeps [where Q = mf_initialized and W = W and s = s and inp = inp and cx = cx])
      (use assms in simp_all)
  have "fu_f (snd (fusion_filter W cx inp s)) = snd (mekf_sanitize (wd_float W) f)"
    using e by (metis fusion.select_convs(1) fusion.surjective fusion.update_convs(1) snd_conv)
  then show ?thesis using st i assms(2) unfolding fusion_pass_def case_prod_beta by (simp add: sanitize_initialized)
qed

text \<open>C23: The outputs are released exactly while the filter has an attitude: after every iteration of the thread, in any
  arithmetic, \<open>settled\<close> says whether the filter is initialised, so that nothing is sent from the reset that a number that
  is not finite causes to the alignment that follows it.\<close>

theorem outputs_held:
  "let s = fusion_run W window cx its (fusion_start W cx cfg bias h1 h2 p1 p2) in fu_settled s \<longleftrightarrow> mf_initialized (fu_f s)"
proof -
  have step: "fu_settled (fusion_iteration W window cx it s) = mf_initialized (fu_f (fusion_iteration W window cx it s))"
    if "fu_settled s = mf_initialized (fu_f s)" for it s
    using that unfolding fusion_iteration_def Let_def by (simp add: fusion_pass_held split: option.split)
  have "fu_settled (fusion_run W window cx its s) = mf_initialized (fu_f (fusion_run W window cx its s))"
    if "fu_settled s = mf_initialized (fu_f s)" for s
    using that by (induction its arbitrary: s) (simp_all add: fusion_run_def step)
  moreover have "fu_settled (fusion_start W cx cfg bias h1 h2 p1 p2) = mf_initialized (fu_f (fusion_start W cx cfg bias h1 h2 p1 p2))"
    unfolding fusion_start_def Let_def
    by (simp add: mekf_init_def mekf_reset_state_def mekf_derive_tuning_def mekf_zero_def Let_def)
  ultimately show ?thesis by (simp add: Let_def)
qed

section \<open>What is published is finite\<close>

text \<open>What a reset puts into the state.\<close>

definition base :: "'a mekf \<Rightarrow> 'a vec \<times> 'a" where
  "base f = (mf_bias_init f, mf_wave_sig2 f)"

lemma base_keeps [simp]:
  "base (mekf_set_mref_invariants F h z f) = base f" "base (fusion_speed v f) = base f" "base (fusion_engine F on sk f) = base f"
  "base (mekf_predict F g dt f) = base f" "base (mref_acquire F m f) = base f" "base (mag_diagnose F a b w f) = base f"
  "base (mref_learn F w a f) = base f"
  by (simp_all add: base_def fusion_speed_def fusion_engine_def mekf_set_mref_invariants_def mekf_predict_def mref_acquire_def
      mag_diagnose_def mref_learn_def Let_def case_prod_beta)

lemma gate_health_base [simp]: "base (gate_health a w r f) = base f"
  by (simp add: base_def gate_health_def)

lemma nis_feed_base [simp]: "base (nis_feed F c a d n f) = base f"
  by (simp add: base_def nis_feed_def split: nis_channel.split)

lemma inject_base [simp]: "base (eskf_inject F dx f) = base f"
  by (simp add: base_def eskf_inject_def)

lemma update_field_base [simp]:
  "base (f\<lparr>mf_P := P\<rparr>) = base f" "base (f\<lparr>mf_mag_accepted := k\<rparr>) = base f" "base (f\<lparr>mf_mag_uncal_seen := u\<rparr>) = base f"
  by (simp_all add: base_def)

lemma gate_base: "eskf_gate F Si g ch a innov f = (r, f') \<Longrightarrow> base f' = base f"
  by (auto simp: eskf_gate_def Let_def split: if_splits option.splits)

lemma eskf_update_base [simp]: "base (snd (eskf_update F h z Rn gate ch a aw R33 protect f)) = base f"
  by (auto simp: eskf_update_def Let_def split: prod.split option.split dest: gate_base)

lemma eskf_update_yaw_base [simp]: "base (snd (eskf_update_yaw F y Rn f)) = base f"
  by (simp add: eskf_update_yaw_def Let_def)

lemma count_accepted_base [simp]: "base (count_accepted r) = base (snd r)"
  by (cases r) (simp add: count_accepted_def)

lemma uncal_withdraw_base: "uncal_withdraw F uncal a b f = (w, g) \<Longrightarrow> base g = base f"
  by (auto simp: uncal_withdraw_def Let_def base_def split: if_splits)

lemma mag_fuse_base [simp]: "base (mag_fuse F uncal R m_ned h z h_mag res_sq f) = base f"
proof -
  have w: "base (case uncal_withdraw F uncal b a f of (True, f) \<Rightarrow> f
      | (False, f) \<Rightarrow> count_accepted (eskf_update_yaw F y (mf_Rm f / (b * b)) f)) = base f" for a b y
    by (auto split: prod.split bool.split dest: uncal_withdraw_base)
  show ?thesis unfolding mag_fuse_def Let_def if_distrib [of base] w by simp
qed

lemma update_base [simp]: "base (mekf_update_mag F m f) = base f" "base (mekf_update_accel F a g f) = base f"
proof -
  show "base (mekf_update_mag F m f) = base f" unfolding mekf_update_mag_def Let_def if_distrib [of base] by simp
  show "base (mekf_update_accel F a g f) = base f"
    by (simp add: mekf_update_accel_def Let_def split: prod.split option.split) (simp add: base_def)
qed

definition finite_base :: "flt libm \<Rightarrow> flt mekf \<Rightarrow> bool" where
  "finite_base F f \<longleftrightarrow> (\<forall>i < 3. ffinite F (mf_bias_init f i)) \<and> ffinite F (mf_wave_sig2 f)"

lemma finite_base_cong: "base g = base f \<Longrightarrow> finite_base F g = finite_base F f"
  by (simp add: finite_base_def base_def)

lemma finite_base_keeps:
  "finite_base F f \<Longrightarrow> finite_base F (mekf_set_mref_invariants F h z f)" "finite_base F f \<Longrightarrow> finite_base F (fusion_speed v f)"
  "finite_base F f \<Longrightarrow> finite_base F (mekf_predict F g dt f)" "finite_base F f \<Longrightarrow> finite_base F (mekf_update_mag F m f)"
  "finite_base F f \<Longrightarrow> finite_base F (fusion_engine F on sk f)" "finite_base F f \<Longrightarrow> finite_base F (mekf_update_accel F a w f)"
  by (simp_all only: finite_base_cong [OF base_keeps(1)] finite_base_cong [OF base_keeps(2)] finite_base_cong [OF base_keeps(3)]
      finite_base_cong [OF base_keeps(4)] finite_base_cong [OF update_base(1)] finite_base_cong [OF update_base(2)])

lemma bit_orif: "bit (orif b x fl) n \<longleftrightarrow> bit fl n \<or> b \<and> bit x n"
  by (simp add: orif_def bit_simps)

lemma fusion_published:
  obtains pb where "fu_published (fusion_publish W cx inp tm s) = Some pb"
    "pb_fused pb = mekf_get_state (wd_float W) (fu_f s) (cx_cal_flags cx)"
    "\<And>n. bit (fd_flags (pb_fused pb)) n \<Longrightarrow> bit (pb_flags pb) n"
proof -
  have "\<exists>pb. fu_published (fusion_publish W cx inp tm s) = Some pb \<and>
      pb_fused pb = mekf_get_state (wd_float W) (fu_f s) (cx_cal_flags cx) \<and> (\<forall>n. bit (fd_flags (pb_fused pb)) n \<longrightarrow> bit (pb_flags pb) n)"
    unfolding fusion_publish_def Let_def case_prod_beta by (simp add: bit_orif)
  then show ?thesis using that by blast
qed

lemma get_state_finite:
  fixes fl :: u16
  assumes "mekf_ok F f"
  defines "st \<equiv> mekf_get_state F f fl"
  shows "(\<forall>i < 4. ffinite F (fd_q st i)) \<and> (\<forall>i < 3. ffinite F (fd_bias_gyro st i)) \<and> (\<forall>i < 3. ffinite F (fd_bias_gyro_var st i)) \<and>
    ffinite F (fd_cov st 0) \<and> ffinite F (fd_cov st 4) \<and> ffinite F (fd_cov st 8)"
proof -
  have "ffinite F (mf_P f i i)" if "i < MEKF_N" for i using assms(1) that by (simp add: mekf_ok_def list_all_iff)
  from this [of 0] this [of 1] this [of 2] this [of 3] this [of 4] this [of 5] show ?thesis
    using assms(1) unfolding st_def mekf_get_state_def Let_def
    by (simp add: mekf_ok_def list_all_iff MEKF_N_def vec3_def)
qed

text \<open>C24: Whatever a pass meets, the attitude, the bias and the variances it publishes are finite numbers; and a state that is
  published without an attitude carries the startup flag. A reset needs its own ingredients to be finite: the bias the
  run started from and the variance of the wave state.\<close>

theorem fusion_publishes_finite:
  assumes "single (wd_float W)" "finite_base (wd_float W) (fu_f s)"
    and "pi_reconfigure inp \<Longrightarrow> ffinite (wd_float W) (mf_wave_sig2 (mekf_reconfigure (wd_float W) (fc_filter (pi_cfg inp)) (fu_f s)))"
  shows "\<exists>pb. fu_published (fusion_pass W cx inp s) = Some pb \<and>
    (\<forall>i < 4. ffinite (wd_float W) (fd_q (pb_fused pb) i)) \<and> (\<forall>i < 3. ffinite (wd_float W) (fd_bias_gyro (pb_fused pb) i)) \<and>
    (\<forall>i < 3. ffinite (wd_float W) (fd_bias_gyro_var (pb_fused pb) i)) \<and> ffinite (wd_float W) (fd_cov (pb_fused pb) 0) \<and>
    ffinite (wd_float W) (fd_cov (pb_fused pb) 4) \<and> ffinite (wd_float W) (fd_cov (pb_fused pb) 8) \<and>
    (\<not> mf_initialized (fu_f (fusion_pass W cx inp s)) \<longrightarrow> bit (pb_flags pb) 8)"
proof -
  let ?F = "wd_float W"
  have sig: "mf_wave_sig2 (mekf_reconfigure F c f) = mf_wave_sig2 (mekf_reconfigure F c g)" for F and c :: "flt mekf_cfg" and f g :: "flt mekf"
    by (simp add: mekf_reconfigure_def mekf_derive_tuning_def Let_def)
  have init: "mf_bias_init (mekf_reconfigure F c f) = mf_bias_init f" for F and c :: "flt mekf_cfg" and f :: "flt mekf"
    by (simp add: mekf_reconfigure_def mekf_derive_tuning_def Let_def)
  have rc: "finite_base ?F (mekf_reconfigure ?F (fc_filter (pi_cfg inp)) f)" if "finite_base ?F f" "pi_reconfigure inp" for f
    using that assms(3) sig [of ?F _ f "fu_f s"] by (simp add: finite_base_def init)
  obtain tm f where e: "fusion_filter W cx inp s = (tm, (snd (fusion_filter W cx inp s))\<lparr>fu_f := snd (mekf_sanitize ?F f)\<rparr>)"
    and q: "finite_base ?F f"
    by (rule fusion_filter_keeps [where Q = "finite_base ?F" and W = W and s = s and inp = inp and cx = cx,
          OF assms(2) rc finite_base_keeps(1) finite_base_keeps(2) finite_base_keeps(3) finite_base_keeps(4) finite_base_keeps(5)
            finite_base_keeps(6)])
  define g where "g = snd (mekf_sanitize ?F f)"
  have g: "mekf_ok ?F g" unfolding g_def using sanitize_finite [OF assms(1)] q by (simp add: finite_base_def)
  define t where "t = snd (fusion_filter W cx inp s)"
  have tf: "fu_f t = g"
    using e unfolding t_def g_def by (metis fusion.select_convs(1) fusion.surjective fusion.update_convs(1) snd_conv)
  have p: "fusion_pass W cx inp s = fusion_publish W cx inp (fst (fusion_filter W cx inp s)) t"
    unfolding fusion_pass_def t_def case_prod_beta ..
  obtain pb where pb: "fu_published (fusion_pass W cx inp s) = Some pb"
    "pb_fused pb = mekf_get_state ?F g (cx_cal_flags cx)" "\<And>n. bit (fd_flags (pb_fused pb)) n \<Longrightarrow> bit (pb_flags pb) n"
    unfolding p tf [symmetric] by (rule fusion_published [of W cx inp "fst (fusion_filter W cx inp s)" t]) blast
  have "bit (pb_flags pb) 8" if "\<not> mf_initialized g"
  proof (rule pb(3))
    have "bit FLAG_STARTUP 8" by (simp add: FLAG_STARTUP_def bit_simps)
    then show "bit (fd_flags (pb_fused pb)) 8" unfolding pb(2) mekf_get_state_def Let_def using that
      by (simp add: bit_simps)
  qed
  then show ?thesis using pb(1) get_state_finite [OF g, of "cx_cal_flags cx"] unfolding pb(2) [symmetric]
    by (auto simp: p tf)
qed

text \<open>Applied to a pass that meets a bias that is not a number.\<close>

definition some_wider :: "(flt, flt) wider" where
  "some_wider = \<lparr>wd_float = some_libm, wd_double = some_libm, wide = (\<lambda>x. x), narrow = (\<lambda>x. x), dceil = (\<lambda>x. x), to_u64 = (\<lambda>_. 0)\<rparr>"

definition some_flt_cfg :: "flt mekf_cfg" where
  "some_flt_cfg = \<lparr>mc_gyro_noise = 0, mc_gyro_bias = 0, mc_accel_noise = 0, mc_mag_noise = 0, mc_wave_accel = 0, mc_wave_accel_tau_s = 0,
     mc_wave_on = False, mc_mag_dip_sigma_deg = 0, mc_accel_skip_thresh = 0, mc_mag_reject_gauss = 0, mc_mag_yaw_only = True,
     mc_mag_fuse_uncal = False, mc_mag_uncal_reject_frac = 0\<rparr>"

theorem fusion_publishes_finite_witness:
  "let c = some_fusion_cfg some_flt_cfg; s = fusion_start some_wider (some_ctx 1 0) c (\<lambda>_. 0) lat_empty lat_empty no_lat no_lat;
       s = s\<lparr>fu_f := (mekf_zero :: flt mekf)\<lparr>mf_bias := (\<lambda>_. Flt NaN), mf_initialized := True\<rparr>\<rparr>
   in \<exists>pb. fu_published (fusion_pass some_wider (some_ctx 1 0) (some_pass (some_sample (\<lambda>_. 1) (\<lambda>_. 0)) c False) s) = Some pb \<and>
     (\<forall>i < 3. ffinite some_libm (fd_bias_gyro (pb_fused pb) i))"
proof -
  let ?c = "some_fusion_cfg some_flt_cfg :: (flt, flt) fusion_cfg" and ?inp = "\<lambda>c. some_pass (some_sample (\<lambda>_. 1) (\<lambda>_. 0)) c False"
  define s where "s = (fusion_start some_wider (some_ctx 1 0) ?c (\<lambda>_. 0) lat_empty lat_empty no_lat no_lat)
    \<lparr>fu_f := (mekf_zero :: flt mekf)\<lparr>mf_bias := (\<lambda>_. Flt NaN), mf_initialized := True\<rparr>\<rparr>"
  have w: "wd_float some_wider = some_libm" by (simp add: some_wider_def)
  have a: "single (wd_float some_wider)" unfolding w by (rule single_some)
  have b: "finite_base (wd_float some_wider) (fu_f s)" unfolding w s_def
    by (simp add: finite_base_def mekf_zero_def finite_literals [OF single_some])
  have c: "pi_reconfigure (?inp ?c) \<Longrightarrow> P" for P by (simp add: some_pass_def)
  show ?thesis unfolding Let_def s_def [symmetric] using fusion_publishes_finite [OF a b c, where cx = "some_ctx 1 0"] unfolding w by blast
qed

end
