(* ===== verification/FusionStart.thy ===== *)
theory FusionStart
  imports Fusion
begin

text \<open>
  The bias the filter starts from: a mean over a window, or over twice that window when the vessel moves in it.
\<close>

definition sample_mean :: "nat \<Rightarrow> real vec list \<Rightarrow> nat \<Rightarrow> real" where
  "sample_mean n gs k = (\<Sum>i<n. (gs ! i) k) / real n"

definition sample_std :: "nat \<Rightarrow> real vec list \<Rightarrow> nat \<Rightarrow> real" where
  "sample_std n gs k = sqrt ((\<Sum>i<n. ((gs ! i) k - sample_mean n gs k)\<^sup>2) / real n)"

text \<open>The accumulators after \<open>j\<close> samples.\<close>

definition acc_after :: "real vec list \<Rightarrow> nat \<Rightarrow> nat \<Rightarrow> bool \<Rightarrow> real bias_acc" where
  "acc_after gs j t e = \<lparr>ba_sum = (\<lambda>k. \<Sum>i<j. (gs ! i) k), ba_sumsq = (\<lambda>k. \<Sum>i<j. (gs ! i) k * (gs ! i) k), ba_count = j,
     ba_target = t, ba_extended = e\<rparr>"

lemma variance_form:
  assumes "0 < n"
  shows "(\<Sum>i<n. (gs ! i) k * (gs ! i) k) / real n - sample_mean n gs k * sample_mean n gs k =
    (\<Sum>i<n. ((gs ! i) k - sample_mean n gs k)\<^sup>2) / real n"
proof -
  let ?m = "sample_mean n gs k"
  have m: "(\<Sum>i<n. (gs ! i) k) = real n * ?m" using assms by (simp add: sample_mean_def)
  have "(\<Sum>i<n. ((gs ! i) k - ?m)\<^sup>2) = (\<Sum>i<n. (gs ! i) k * (gs ! i) k - 2 * ?m * (gs ! i) k + ?m * ?m)"
    by (rule sum.cong) (simp_all add: power2_eq_square algebra_simps)
  also have "\<dots> = (\<Sum>i<n. (gs ! i) k * (gs ! i) k) - 2 * ?m * (\<Sum>i<n. (gs ! i) k) + real n * (?m * ?m)"
    by (simp add: sum.distrib sum_subtractf sum_distrib_left)
  also have "\<dots> = (\<Sum>i<n. (gs ! i) k * (gs ! i) k) - real n * (?m * ?m)" unfolding m by (simp add: algebra_simps)
  finally show ?thesis using assms by (simp add: diff_divide_distrib)
qed

lemma running_max:
  fixes c x :: real
  shows "fold (\<lambda>k m. if P k \<and> g k > m then g k else m) ks x > c \<longleftrightarrow> x > c \<or> (\<exists>k \<in> set ks. P k \<and> g k > c)"
proof (induction ks arbitrary: x)
  case (Cons k ks)
  have "(if P k \<and> g k > x then g k else x) > c \<longleftrightarrow> x > c \<or> P k \<and> g k > c" by auto
  then show ?case using Cons.IH by simp
qed simp

lemma std_max_above:
  assumes "0 < n" "0 < c"
  shows "bias_std_max real_wider (acc_after gs n t e) > c \<longleftrightarrow> (\<exists>k < 3. sample_std n gs k > c)"
proof -
  define v where "v = (\<lambda>k. (\<Sum>i<n. ((gs ! i) k - sample_mean n gs k)\<^sup>2) / real n)"
  have v: "(\<Sum>i<n. (gs ! i) k * (gs ! i) k) / real n - (\<Sum>i<n. (gs ! i) k) / real n * ((\<Sum>i<n. (gs ! i) k) / real n) = v k" for k
    using variance_form [OF assms(1), of gs k] unfolding sample_mean_def v_def .
  have "0 \<le> v k" for k unfolding v_def by (intro divide_nonneg_nonneg sum_nonneg) simp_all
  have f: "ba_sum (acc_after gs n t e) = (\<lambda>k. \<Sum>i<n. (gs ! i) k)" "ba_sumsq (acc_after gs n t e) = (\<lambda>k. \<Sum>i<n. (gs ! i) k * (gs ! i) k)"
    "ba_count (acc_after gs n t e) = n"
    by (simp_all add: acc_after_def)
  have r: "lit (wd_double real_wider) (of_nat n) = real n" "narrow real_wider = (\<lambda>x. x)" "fsqrt (wd_double real_wider) = sqrt"
    by (simp_all add: fun_eq_iff)
  have e: "bias_std_max real_wider (acc_after gs n t e) =
      fold (\<lambda>k m. if v k > 0 \<and> sqrt (v k) > m then sqrt (v k) else m) [0..<3] 0"
    unfolding bias_std_max_def Let_def f r v ..
  have z: "\<not> v k > 0 \<Longrightarrow> \<not> sqrt (v k) > c" for k
    using assms(2) real_sqrt_le_0_iff [of "v k"] by linarith
  have st: "sample_std n gs k = sqrt (v k)" for k by (simp add: sample_std_def v_def)
  have "(\<exists>k < 3. sample_std n gs k > c) \<longleftrightarrow> (\<exists>k \<in> set [0..<3]. v k > 0 \<and> sqrt (v k) > c)"
    unfolding st set_upt using z by (meson atLeastLessThan_iff zero_le)
  then show ?thesis unfolding e running_max using assms(2) by simp
qed

lemma bias_add_after:
  assumes "j < length gs"
  shows "bias_add real_wider (gs ! j) (acc_after gs j t e) =
    (if Suc j = t \<and> \<not> e \<and> bias_std_max real_wider (acc_after gs (Suc j) t e) > of_rat (873 / 100000)
     then acc_after gs (Suc j) (t * 2) True else acc_after gs (Suc j) t e)"
proof -
  let ?b = "acc_after gs j t e"
  have b: "?b\<lparr>ba_sum := (\<lambda>k. ba_sum ?b k + wide real_wider ((gs ! j) k)),
      ba_sumsq := (\<lambda>k. ba_sumsq ?b k + wide real_wider ((gs ! j) k) * wide real_wider ((gs ! j) k)), ba_count := ba_count ?b + 1\<rparr> =
      acc_after gs (Suc j) t e"
    by (simp add: acc_after_def)
  have f: "ba_count (acc_after gs (Suc j) t e) = Suc j" "ba_target (acc_after gs (Suc j) t e) = t" "ba_extended (acc_after gs (Suc j) t e) = e"
    "(acc_after gs (Suc j) t e)\<lparr>ba_extended := True, ba_target := t * 2\<rparr> = acc_after gs (Suc j) (t * 2) True"
    by (simp_all add: acc_after_def)
  show ?thesis unfolding bias_add_def b Let_def f by simp
qed

lemma bias_loop_extended:
  assumes "j \<le> t" "t \<le> length gs"
  shows "bias_loop real_wider (drop j gs) (acc_after gs j t True) = acc_after gs t t True"
  using assms
proof (induction "t - j" arbitrary: j)
  case 0
  then have "j = t" by simp
  then show ?case by (cases "drop t gs") (simp_all add: acc_after_def)
next
  case (Suc d)
  then have j: "j < length gs" "j < t" by simp_all
  have "bias_loop real_wider (drop j gs) (acc_after gs j t True) = bias_loop real_wider (drop (Suc j) gs) (acc_after gs (Suc j) t True)"
    unfolding Cons_nth_drop_Suc [OF j(1), symmetric] bias_loop.simps bias_add_after [OF j(1)]
    using j(2) by (simp add: acc_after_def)
  also have "\<dots> = acc_after gs t t True" by (rule Suc.hyps(1)) (use Suc in simp_all)
  finally show ?case .
qed

lemma bias_loop_window:
  assumes "j < t" "2 * t \<le> length gs"
  shows "bias_loop real_wider (drop j gs) (acc_after gs j t False) =
    (if bias_std_max real_wider (acc_after gs t t False) > of_rat (873 / 100000) then acc_after gs (t * 2) (t * 2) True
     else acc_after gs t t False)"
  using assms
proof (induction "t - j" arbitrary: j)
  case (Suc d)
  then have j: "j < length gs" "j < t" by simp_all
  have step: "bias_loop real_wider (drop j gs) (acc_after gs j t False) =
      bias_loop real_wider (drop (Suc j) gs) (bias_add real_wider (gs ! j) (acc_after gs j t False))"
    unfolding Cons_nth_drop_Suc [OF j(1), symmetric] bias_loop.simps using j(2) by (simp add: acc_after_def)
  show ?case
  proof (cases "Suc j = t")
    case False
    then have "Suc j < t" using j(2) by simp
    then show ?thesis unfolding step bias_add_after [OF j(1)] using False Suc.hyps(1) [of "Suc j"] Suc.hyps(2) Suc.prems by simp
  next
    case True
    have stay: "bias_loop real_wider (drop t gs) (acc_after gs t t False) = acc_after gs t t False"
      by (cases "drop t gs") (simp_all add: acc_after_def)
    show ?thesis unfolding step bias_add_after [OF j(1)] using True stay bias_loop_extended [of t "t * 2" gs] Suc.prems(2) by simp
  qed
qed simp

text \<open>With samples enough, the bias the run starts from is the mean of exactly the first \<open>n\<close> samples, or of the first
  \<open>2 n\<close> when one axis strays by more than half a degree per second over the first \<open>n\<close>: the window is doubled at
  most once, and the sums in place compute the deviation about the mean.\<close>

theorem gyro_bias_mean:
  assumes "2 * bias_window k \<le> length gs"
  defines "n \<equiv> bias_window k"
  defines "m \<equiv> if \<exists>a < 3. sample_std n gs a > 873 / 100000 then 2 * n else n"
  shows "gyro_bias real_wider k gs = (vec3 (sample_mean m gs 0) (sample_mean m gs 1) (sample_mean m gs 2), True)"
proof -
  have n: "0 < n" by (simp add: n_def bias_window_def)
  have c: "(of_rat (873 / 100000) :: real) = 873 / 100000" by (simp add: of_rat_divide)
  have start: "bias_start n = acc_after gs 0 n False" by (simp add: acc_after_def bias_start_def)
  have "2 * n \<le> length gs" using assms(1) by (simp only: n_def)
  note window = bias_loop_window [OF n this, unfolded c]
  have "0 < (873 / 100000 :: real)" by simp
  note dev = std_max_above [OF n this, of gs n False]
  have "bias_loop real_wider gs (bias_start n) = acc_after gs m m (\<exists>a < 3. sample_std n gs a > 873 / 100000)"
  proof (cases "\<exists>a < 3. sample_std n gs a > 873 / 100000")
    case True
    show ?thesis using window unfolding start drop_0 m_def if_P [OF dev [THEN iffD2, OF True]] if_P [OF True] mult.commute [of n 2]
      by (simp only: True)
  next
    case False
    then have "\<not> bias_std_max real_wider (acc_after gs n n False) > 873 / 100000" unfolding dev .
    then show ?thesis using window unfolding start drop_0 m_def if_not_P [OF False] by (simp only: False if_False)
  qed
  then obtain t where l: "bias_loop real_wider gs (bias_start n) = acc_after gs m m t" by blast
  have "0 < m" using n by (simp add: m_def)
  then show ?thesis unfolding gyro_bias_def Let_def n_def [symmetric] l by (simp add: acc_after_def sample_mean_def)
qed

theorem gyro_bias_mean_witness:
  "gyro_bias real_wider 2 (replicate 6 (vec3 (1 / 2) 0 1)) = (vec3 (1 / 2) 0 1, True)"
proof -
  define v where "v = (vec3 (1 / 2) 0 1 :: real vec)"
  let ?gs = "replicate 6 v"
  have nth: "?gs ! i = v" if "i < 6" for i using that by (rule nth_replicate)
  have mean: "sample_mean n ?gs k = v k" if "0 < n" "n \<le> 6" for n k
  proof -
    have "(\<Sum>i<n. (?gs ! i) k) = (\<Sum>i<n. v k)" by (rule sum.cong) (use that in \<open>simp_all only: nth lessThan_iff less_le_trans\<close>)
    then show ?thesis using that(1) by (simp add: sample_mean_def)
  qed
  have num6: "(2 :: nat) \<le> 6" by simp
  have two: "bias_window 2 = 2" by (simp add: bias_window_def)
  have "(\<Sum>i<(2 :: nat). ((?gs ! i) k - sample_mean 2 ?gs k)\<^sup>2) = 0" for k
  proof (rule sum.neutral, rule ballI)
    fix i :: nat assume "i \<in> {..<2}"
    then show "((?gs ! i) k - sample_mean 2 ?gs k)\<^sup>2 = 0" using mean [of 2 k] nth [of i] by simp
  qed
  then have std: "\<not> (\<exists>a < 3. sample_std 2 ?gs a > 873 / 100000)" unfolding sample_std_def by (simp only: div_0 real_sqrt_zero) simp
  have "2 * bias_window 2 \<le> length ?gs" unfolding two by simp
  from gyro_bias_mean [OF this] have "gyro_bias real_wider 2 ?gs = (vec3 (sample_mean 2 ?gs 0) (sample_mean 2 ?gs 1) (sample_mean 2 ?gs 2), True)"
    unfolding two if_not_P [OF std] .
  moreover have "sample_mean 2 ?gs = v" using mean [of 2] num6 by (intro ext) simp
  moreover have "vec3 (v 0) (v 1) (v 2) = v" unfolding v_def by (simp add: vec3_def fun_eq_iff)
  ultimately show ?thesis unfolding v_def [symmetric] by simp
qed

end
