(* ===== verification/CalMath.thy ===== *)
theory CalMath
  imports Heave "HOL-Library.Signed_Division"
begin

text \<open>
  src/cal_math.c, the fits of imud-cal: Gaussian elimination, the sphere and the circle through a magnetometer's swing,
  the soft iron, the samples kept of a long swing, the six positions of the accelerometer, coverage, Allan deviation
  and the line through gyroscope bias and temperature. All of it computes in double, from samples in single precision.
\<close>

section \<open>Gaussian elimination\<close>

text \<open>A system is the matrix of its coefficients with the right-hand side in column 4.\<close>

definition augment :: "'a mat \<Rightarrow> 'a vec \<Rightarrow> 'a mat" where
  "augment A b = (\<lambda>i j. if j < 4 then A i j else b i)"

definition pivot_of :: "nat \<Rightarrow> ('a :: {abs, ord}) mat \<Rightarrow> nat" where
  "pivot_of col M = fold (\<lambda>row pivot. if \<bar>M row col\<bar> > \<bar>M pivot col\<bar> then row else pivot) [Suc col..<4] col"

definition swap_rows :: "nat \<Rightarrow> nat \<Rightarrow> 'a mat \<Rightarrow> 'a mat" where
  "swap_rows p q M = (\<lambda>i. if i = p then M q else if i = q then M p else M i)"

definition sub_row :: "nat \<Rightarrow> nat \<Rightarrow> 'a mat \<Rightarrow> ('a :: {minus, times, inverse}) mat" where
  "sub_row col row M =
     (let f = M row col / M col col in (\<lambda>i j. if i = row \<and> col \<le> j \<and> j < 5 then M row j - f * M col j else M i j))"

definition gauss_col :: "'a libm \<Rightarrow> nat \<Rightarrow> ('a :: {minus, times, inverse, abs, ord}) mat \<Rightarrow> 'a mat option" where
  "gauss_col D col M =
     (let pivot = pivot_of col M; M = (if pivot \<noteq> col then swap_rows col pivot M else M)
      in if \<bar>M col col\<bar> < lit D (1 / 10 ^ 12) then None else Some (fold (sub_row col) [Suc col..<4] M))"

fun gauss_cols :: "'a libm \<Rightarrow> nat list \<Rightarrow> ('a :: {minus, times, inverse, abs, ord}) mat \<Rightarrow> 'a mat option" where
  "gauss_cols D [] M = Some M"
| "gauss_cols D (col # cols) M = (case gauss_col D col M of None \<Rightarrow> None | Some M \<Rightarrow> gauss_cols D cols M)"

definition back_step :: "'a mat \<Rightarrow> nat \<Rightarrow> 'a vec \<Rightarrow> ('a :: {minus, times, inverse}) vec" where
  "back_step M i x = x(i := fold (\<lambda>j v. v - M i j * x j) [Suc i..<4] (M i 4) / M i i)"

definition back_subst :: "'a mat \<Rightarrow> ('a :: {zero, minus, times, inverse}) vec" where
  "back_subst M = fold (back_step M) [3, 2, 1, 0] (\<lambda>_. 0)"

definition gauss4 :: "'a libm \<Rightarrow> 'a mat \<Rightarrow> 'a vec \<Rightarrow> ('a :: {zero, minus, times, inverse, abs, ord}) vec option" where
  "gauss4 D A b = map_option back_subst (gauss_cols D [0, 1, 2, 3] (augment A b))"

section \<open>Sphere and extent\<close>

record 'd sphere_accum =
  sa_s :: "'d vec"
  sa_ss :: "'d mat"
  sa_sr :: "'d vec"
  sa_n :: nat

text \<open>Of the symmetric sums the code keeps one triangle.\<close>

definition upper :: "nat \<Rightarrow> nat \<Rightarrow> 'd mat \<Rightarrow> 'd" where "upper i j M = (if i \<le> j then M i j else M j i)"

definition sphere_zero :: "('d :: zero) sphere_accum" where
  "sphere_zero = \<lparr>sa_s = (\<lambda>_. 0), sa_ss = (\<lambda>_ _. 0), sa_sr = (\<lambda>_. 0), sa_n = 0\<rparr>"

definition sphere_add :: "('a, 'd :: {plus, times}) wider \<Rightarrow> 'a vec \<Rightarrow> 'd sphere_accum \<Rightarrow> 'd sphere_accum" where
  "sphere_add W f a =
     (let x = (\<lambda>i. wide W (f i)); r2 = x 0 * x 0 + x 1 * x 1 + x 2 * x 2
      in a\<lparr>sa_s := (\<lambda>i. sa_s a i + x i), sa_ss := (\<lambda>i j. sa_ss a i j + x i * x j), sa_sr := (\<lambda>i. sa_sr a i + x i * r2),
           sa_n := sa_n a + 1\<rparr>)"

definition sphere_AtA :: "'d libm \<Rightarrow> ('d :: times) sphere_accum \<Rightarrow> 'd mat" where
  "sphere_AtA D a =
     (\<lambda>i j. if i < 3 \<and> j < 3 then lit D 4 * upper i j (sa_ss a)
            else if i < 3 then lit D 2 * sa_s a i else if j < 3 then lit D 2 * sa_s a j else lit D (of_nat (sa_n a)))"

definition sphere_Atb :: "'d libm \<Rightarrow> ('d :: {plus, times}) sphere_accum \<Rightarrow> 'd vec" where
  "sphere_Atb D a = (\<lambda>i. if i < 3 then lit D 2 * sa_sr a i else sa_ss a 0 0 + sa_ss a 1 1 + sa_ss a 2 2)"

definition sphere_fit :: "'d libm \<Rightarrow> ('d :: {zero, plus, minus, times, inverse, abs, ord}) sphere_accum \<Rightarrow> ('d vec \<times> 'd) option" where
  "sphere_fit D a =
     (if sa_n a < 5 then None
      else case gauss4 D (sphere_AtA D a) (sphere_Atb D a) of None \<Rightarrow> None
           | Some sol \<Rightarrow> let r2 = sol 3 + sol 0 * sol 0 + sol 1 * sol 1 + sol 2 * sol 2
                         in if r2 \<le> 0 then None else Some (vec3 (sol 0) (sol 1) (sol 2), fsqrt D r2))"

record 'd extent_accum =
  ea_mn :: "'d vec"
  ea_mx :: "'d vec"
  ea_n :: nat

definition extent_zero :: "('d :: zero) extent_accum" where
  "extent_zero = \<lparr>ea_mn = (\<lambda>_. 0), ea_mx = (\<lambda>_. 0), ea_n = 0\<rparr>"

definition extent_add :: "('d :: ord) vec \<Rightarrow> 'd extent_accum \<Rightarrow> 'd extent_accum" where
  "extent_add p a =
     (if ea_n a = 0 then a\<lparr>ea_mn := p, ea_mx := p, ea_n := ea_n a + 1\<rparr>
      else a\<lparr>ea_mn := (\<lambda>k. if p k < ea_mn a k then p k else ea_mn a k), ea_mx := (\<lambda>k. if p k > ea_mx a k then p k else ea_mx a k),
             ea_n := ea_n a + 1\<rparr>)"

definition extent_half :: "'d libm \<Rightarrow> ('d :: {minus, inverse}) extent_accum \<Rightarrow> 'd vec option" where
  "extent_half D a = (if ea_n a < 1 then None else Some (\<lambda>k. (ea_mx a k - ea_mn a k) / lit D 2))"

definition CAL_SI_MIN_SPAN :: "'d libm \<Rightarrow> 'd" where "CAL_SI_MIN_SPAN D = lit D (8 / 10)"

definition cal_softiron_diag :: "'d libm \<Rightarrow> 'd vec \<Rightarrow> 'd \<Rightarrow> ('d :: {times, inverse, ord}) vec" where
  "cal_softiron_diag D half radius = (\<lambda>k. if half k > CAL_SI_MIN_SPAN D * radius then radius / half k else lit D 1)"

section \<open>The swing of a magnetometer\<close>

definition rot3 :: "('d :: {plus, times}) mat \<Rightarrow> 'd vec \<Rightarrow> 'd vec" where
  "rot3 R v = (\<lambda>i. R i 0 * v 0 + R i 1 * v 1 + R i 2 * v 2)"

text \<open>Sums over the samples, in the order of the code, from zero.\<close>

definition sum_over :: "('d :: {zero, plus}) vec list \<Rightarrow> ('d vec \<Rightarrow> 'd) \<Rightarrow> 'd" where
  "sum_over b f = fold (\<lambda>v s. s + f v) b 0"

text \<open>The system of the circle, of the coordinates about their means.\<close>

definition circle_A :: "'d libm \<Rightarrow> 'd vec list \<Rightarrow> ('d :: {zero, one, plus, times}) mat" where
  "circle_A D xy =
     (let S = (\<lambda>f. sum_over xy (\<lambda>v. f (v 0) (v 1)));
          sxx = S (\<lambda>x y. x * x); sxy = S (\<lambda>x y. x * y); syy = S (\<lambda>x y. y * y); sx = S (\<lambda>x y. x); sy = S (\<lambda>x y. y)
      in (\<lambda>i. if i = 0 then vec4 (lit D 4 * sxx) (lit D 4 * sxy) (lit D 2 * sx) 0
              else if i = 1 then vec4 (lit D 4 * sxy) (lit D 4 * syy) (lit D 2 * sy) 0
              else if i = 2 then vec4 (lit D 2 * sx) (lit D 2 * sy) (lit D (of_nat (length xy))) 0 else vec4 0 0 0 1))"

definition circle_rhs :: "'d libm \<Rightarrow> 'd vec list \<Rightarrow> ('d :: {zero, plus, times}) vec" where
  "circle_rhs D xy =
     (let S = (\<lambda>f. sum_over xy (\<lambda>v. f (v 0) (v 1)))
      in vec4 (lit D 2 * S (\<lambda>x y. x * (x * x + y * y))) (lit D 2 * S (\<lambda>x y. y * (x * x + y * y))) (S (\<lambda>x y. x * x + y * y)) 0)"

definition about_means :: "'d libm \<Rightarrow> 'd vec list \<Rightarrow> 'd \<times> 'd \<times> ('d :: {zero, plus, minus, times, inverse}) vec list" where
  "about_means D b =
     (let n = lit D (of_nat (length b)); mx = sum_over b (\<lambda>v. v 0) / n; my = sum_over b (\<lambda>v. v 1) / n
      in (mx, my, map (\<lambda>v i. if i = 0 then v 0 - mx else v 1 - my) b))"

definition circle_fit :: "'d libm \<Rightarrow> ('d :: {zero, one, plus, minus, times, inverse, abs, ord}) vec list \<Rightarrow> ('d vec \<times> 'd) option" where
  "circle_fit D b =
     (if length b < 5 then None
      else let (mx, my, xy) = about_means D b
           in case gauss4 D (circle_A D xy) (circle_rhs D xy) of None \<Rightarrow> None
              | Some p \<Rightarrow> let r2 = p 2 + p 0 * p 0 + p 1 * p 1
                          in if r2 \<le> 0 then None else Some (\<lambda>i. if i = 0 then p 0 + mx else p 1 + my, fsqrt D r2))"

definition softiron_on_sphere ::
  "'d libm \<Rightarrow> ('d :: {zero, one, plus, minus, times, inverse, abs, ord}) vec list \<Rightarrow> 'd vec \<Rightarrow> 'd \<Rightarrow> 'd \<Rightarrow> 'd mat option" where
  "softiron_on_sphere D b c R sz =
     (let r = (\<lambda>v. let x = v 0 - c 0; y = v 1 - c 1 in vec3 (x * x) (lit D 2 * x * y) (y * y));
          t = (\<lambda>v. let z = sz * (v 2 - c 2) in R * R - z * z);
          A = (\<lambda>i j. if i < 3 \<and> j < 3 then sum_over b (\<lambda>v. r v i * r v j) else if i = 3 \<and> j = 3 then 1 else 0);
          rhs = (\<lambda>i. if i < 3 then sum_over b (\<lambda>v. r v i * t v) else 0)
      in case gauss4 D A rhs of None \<Rightarrow> None
         | Some p \<Rightarrow>
             let det = p 0 * p 2 - p 1 * p 1
             in if p 0 \<le> 0 \<or> det \<le> 0 then None
                else let sd = fsqrt D det; t = fsqrt D (p 0 + p 2 + lit D 2 * sd)
                     in Some (\<lambda>i j. if i = 0 \<and> j = 0 then (p 0 + sd) / t else if i = 1 \<and> j = 1 then (p 2 + sd) / t else p 1 / t))"

definition plane_fit ::
  "'d libm \<Rightarrow> ('d :: {zero, plus, minus, times, inverse, ord}) vec list \<Rightarrow> 'd vec \<times> 'd \<times> 'd" where
  "plane_fit D b =
     (let n = lit D (of_nat (length b)); m = (\<lambda>k. sum_over b (\<lambda>v. v k) / n);
          S = (\<lambda>i j. sum_over b (\<lambda>v. (v i - m i) * (v j - m j)));
          det = S 0 0 * S 1 1 - S 0 1 * S 0 1
      in if det > lit D (1 / 10 ^ 12) * (S 0 0 + S 1 1) * (S 0 0 + S 1 1)
         then (m, (S 0 2 * S 1 1 - S 1 2 * S 0 1) / det, (S 1 2 * S 0 0 - S 0 2 * S 0 1) / det) else (m, 0, 0))"

definition z_onto :: "('d :: {one, plus, minus, uminus, times, inverse}) vec \<Rightarrow> 'd mat" where
  "z_onto n =
     (let nx = n 0; ny = n 1; nz = n 2; f = 1 / (1 + nz)
      in (\<lambda>i. if i = 0 then vec3 (1 - nx * nx * f) (- nx * ny * f) nx
              else if i = 1 then vec3 (- nx * ny * f) (1 - ny * ny * f) ny else vec3 (- nx) (- ny) nz))"

definition CAL_G_MS2 :: "'a libm \<Rightarrow> 'a" where "CAL_G_MS2 F = lit F (980665 / 100000)"

text \<open>The literal for gravity has single precision; here it meets doubles.\<close>

definition accel_down ::
  "('a, 'd :: {plus, uminus, times, inverse, ord}) wider \<Rightarrow> 'd mat \<Rightarrow> 'd vec option \<Rightarrow> 'd vec option" where
  "accel_down W M accel =
     (case accel of None \<Rightarrow> None
      | Some a \<Rightarrow>
          let D = wd_double W; G = wide W (CAL_G_MS2 (wd_float W)); g = rot3 M a;
              norm = fsqrt D (g 0 * g 0 + g 1 * g 1 + g 2 * g 2)
          in if \<not> (norm > lit D (1 / 2) * G \<and> norm < lit D (3 / 2) * G) then None
             else let down = (\<lambda>k. - g k / norm) in if down 2 > lit D (1 / 2) then Some down else None)"


text \<open>\<open>out\<close> of cal_mag_fit.\<close>

record 'd cal_mag_fit =
  mg_hard_iron :: "'d vec"
  mg_soft_iron :: "'d mat"
  mg_centre :: "'d vec"
  mg_radius :: 'd
  mg_rms :: 'd
  mg_half :: "'d vec"
  mg_S2 :: "'d mat"
  mg_si :: "'d vec"
  mg_ellipse_ok :: bool
  mg_level :: bool
  mg_vertical :: 'd
  mg_tilt_deg :: 'd
  mg_accel_vertical :: bool

definition CAL_LEVEL_MAX_SD :: "'d libm \<Rightarrow> 'd" where "CAL_LEVEL_MAX_SD D = lit D (5 / 100)"
definition CAL_SPHERE_MIN_SNR :: "'d libm \<Rightarrow> 'd" where "CAL_SPHERE_MIN_SNR D = lit D 3"
definition CAL_SPHERE_MIN_GAIN :: "'d libm \<Rightarrow> 'd" where "CAL_SPHERE_MIN_GAIN D = lit D (105 / 100)"
definition CAL_SPHERE_FREE_SD :: "'d libm \<Rightarrow> 'd" where "CAL_SPHERE_FREE_SD D = lit D (2 / 10)"

definition I3 :: "('d :: {zero, one}) mat" where "I3 = (\<lambda>i j. if i = j then 1 else 0)"

text \<open>The vertical of the swing and its rotation: gravity's, or the normal of the plane of the samples.\<close>

definition swing_down :: "('a, 'd :: {zero, one, plus, minus, uminus, times, inverse, ord}) wider \<Rightarrow> 'd mat \<Rightarrow> 'd vec option \<Rightarrow>
    'd vec list \<Rightarrow> bool \<times> 'd vec" where
  "swing_down W M accel b =
     (case accel_down W M accel of Some down \<Rightarrow> (True, down)
      | None \<Rightarrow> let D = wd_double W; (m0, p, q) = plane_fit D b; d2 = 1 / fsqrt D (1 + p * p + q * q)
                in (False, vec3 (- p * d2) (- q * d2) d2))"

definition swing_axes :: "('d :: {plus, times}) mat \<Rightarrow> 'd mat \<Rightarrow> 'd mat" where
  "swing_axes Q M = (\<lambda>i j. Q 0 i * M 0 j + Q 1 i * M 1 j + Q 2 i * M 2 j)"

text \<open>The scatter about the plane: the sum of squares and that of the squares of the steps.\<close>

definition residuals :: "'d vec \<Rightarrow> 'd \<Rightarrow> 'd \<Rightarrow> 'd vec list \<Rightarrow> ('d :: {minus, times}) list" where
  "residuals m0 p q b = map (\<lambda>v. v 2 - m0 2 - p * (v 0 - m0 0) - q * (v 1 - m0 1)) b"

fun step_squares :: "('d :: {zero, plus, minus, times}) list \<Rightarrow> 'd \<Rightarrow> 'd" where
  "step_squares (r # s # rs) dd = step_squares (s # rs) (dd + (s - r) * (s - r))"
| "step_squares _ dd = dd"

text \<open>The fit of the centre: whether the swing is taken for level, the centre and the radius.\<close>

definition mag_centre :: "('a, 'd :: {zero, one, plus, minus, times, inverse, abs, ord}) wider \<Rightarrow> 'd vec list \<Rightarrow> 'd \<Rightarrow> 'd \<Rightarrow> (bool \<times> 'd vec \<times> 'd) option" where
  "mag_centre W b sd noise =
     (let D = wd_double W; roll2 = sd * sd - noise * noise; cf = circle_fit D b;
          level = (case cf of Some (cc, rc) \<Rightarrow> Some (True, vec3 (cc 0) (cc 1) 0, rc) | None \<Rightarrow> None)
      in case cf of
           Some (cc, rc) \<Rightarrow>
             if sd < CAL_LEVEL_MAX_SD D * rc then level
             else (case sphere_fit D (fold (\<lambda>v. sphere_add W (\<lambda>i. narrow W (v i))) b sphere_zero) of
                     None \<Rightarrow> level
                   | Some (cs, rs) \<Rightarrow>
                       if sd \<ge> CAL_SPHERE_FREE_SD D * rc \<or>
                          roll2 \<ge> CAL_SPHERE_MIN_SNR D * CAL_SPHERE_MIN_SNR D * noise * noise \<and> rs \<ge> CAL_SPHERE_MIN_GAIN D * rc
                       then Some (False, cs, rs) else level)
         | None \<Rightarrow> (case sphere_fit D (fold (\<lambda>v. sphere_add W (\<lambda>i. narrow W (v i))) b sphere_zero) of
                     None \<Rightarrow> None | Some (cs, rs) \<Rightarrow> Some (False, cs, rs)))"

text \<open>The residual, the soft iron, and all of it back in the axes of the board.\<close>

definition mag_residual :: "'d libm \<Rightarrow> bool \<Rightarrow> 'd vec list \<Rightarrow> ('d :: {zero, plus, minus, times}) \<Rightarrow> 'd" where
  "mag_residual D level ds radius =
     sum_over ds (\<lambda>d. let res = (if level then fsqrt D (d 0 * d 0 + d 1 * d 1)
                                  else fsqrt D (d 0 * d 0 + d 1 * d 1 + d 2 * d 2)) - radius
                      in res * res)"

definition soft_block :: "'d mat option \<Rightarrow> 'd vec \<Rightarrow> ('d :: zero) mat" where
  "soft_block S2 si =
     (\<lambda>i j. case S2 of Some S2 \<Rightarrow> if i < 2 \<and> j < 2 then S2 i j else if i = j then si i else 0
            | None \<Rightarrow> if i = j then si i else 0)"

definition to_board :: "'d mat \<Rightarrow> 'd mat \<Rightarrow> ('d :: {zero, plus, times}) mat" where
  "to_board R S = (\<lambda>i j. fold (\<lambda>k v. fold (\<lambda>l v. v + R k i * S k l * R l j) [0..<3] v) [0..<3] 0)"

definition mag_result ::
  "'d libm \<Rightarrow> ('d \<Rightarrow> 'd \<Rightarrow> 'd) \<Rightarrow> 'd mat \<Rightarrow> bool \<Rightarrow> 'd \<Rightarrow> 'd vec \<times> 'd \<times> 'd \<Rightarrow> 'd vec list \<Rightarrow> bool \<times> 'd vec \<times> 'd \<Rightarrow>
   ('d :: {zero, one, plus, minus, times, inverse, abs, ord}) cal_mag_fit option" where
  "mag_result D hypot R av tilt plane b centre =
     (let (m0, p, q) = plane; (level, c, radius) = centre;
          b = (if level then map (\<lambda>v. v(2 := v 2 - (p * (v 0 - m0 0) + q * (v 1 - m0 1)))) b else b);
          ds = map (\<lambda>v. vec3 (v 0 - c 0) (v 1 - c 1) (v 2 - (if level then m0 2 else c 2))) b
      in case extent_half D (fold extent_add ds extent_zero) of None \<Rightarrow> None
         | Some half \<Rightarrow>
             let si = cal_softiron_diag D half radius;
                 S2 = softiron_on_sphere D b c (if level then hypot radius (m0 2) else radius) (si 2)
             in Some \<lparr>mg_hard_iron = (\<lambda>i. R 0 i * c 0 + R 1 i * c 1 + R 2 i * c 2), mg_soft_iron = to_board R (soft_block S2 si),
                  mg_centre = (\<lambda>i. R 0 i * c 0 + R 1 i * c 1 + R 2 i * m0 2), mg_radius = radius,
                  mg_rms = fsqrt D (mag_residual D level ds radius / lit D (of_nat (length b))), mg_half = half,
                  mg_S2 = (case S2 of Some S2 \<Rightarrow> S2 | None \<Rightarrow> I3), mg_si = si, mg_ellipse_ok = (S2 \<noteq> None),
                  mg_level = level, mg_vertical = m0 2, mg_tilt_deg = tilt, mg_accel_vertical = av\<rparr>)"

text \<open>The library's arc cosine and hypotenuse are further parameters. The allocation is taken to succeed.\<close>

definition cal_mag_fit ::
  "('a, 'd :: {zero, one, plus, minus, uminus, times, inverse, abs, ord}) wider \<Rightarrow> ('d \<Rightarrow> 'd) \<Rightarrow> ('d \<Rightarrow> 'd \<Rightarrow> 'd) \<Rightarrow>
   'a vec list \<Rightarrow> 'd mat option \<Rightarrow> 'd vec option \<Rightarrow> 'd cal_mag_fit option" where
  "cal_mag_fit W acos hypot samps mount accel =
     (let D = wd_double W; M = (case mount of Some M \<Rightarrow> M | None \<Rightarrow> I3)
      in if length samps < 5 then None
         else let raw = map (\<lambda>s i. wide W (s i)) samps;
                  (av, down) = swing_down W M accel (map (rot3 M) raw);
                  tilt = acos (if down 2 < lit D 1 then down 2 else lit D 1) * lit D 180 / lit D M_PI;
                  R = swing_axes (z_onto down) M;
                  b = map (rot3 R) raw;
                  (m0, p, q) = plane_fit D b;
                  rs = residuals m0 p q b;
                  sd = fsqrt D (fold (\<lambda>r vv. vv + r * r) rs 0 / lit D (of_nat (length samps)));
                  noise = fsqrt D (step_squares rs 0 / (lit D 2 * lit D (of_nat (length samps - 1))))
              in case mag_centre W b sd noise of None \<Rightarrow> None
                 | Some centre \<Rightarrow> mag_result D hypot R av tilt (m0, p, q) b centre)"

section \<open>The samples kept of a swing\<close>

text \<open>A buffer of \<open>cap\<close> places; the counts of the code are 64 bits wide and are not exhausted.\<close>

record 'v mag_keep =
  mk_s :: "'v list"
  mk_cap :: nat
  mk_n :: nat
  mk_seen :: nat
  mk_stride :: nat

definition cal_mag_keep_init :: "'v list \<Rightarrow> 'v mag_keep" where
  "cal_mag_keep_init buf = \<lparr>mk_s = buf, mk_cap = length buf, mk_n = 0, mk_seen = 0, mk_stride = 1\<rparr>"

definition keep_thin :: "nat \<Rightarrow> 'v list \<Rightarrow> 'v list" where
  "keep_thin cap s = fold (\<lambda>j s. s[j := s ! (2 * j)]) [0..<cap div 2] s"

definition keep_put :: "'v \<Rightarrow> 'v mag_keep \<Rightarrow> bool \<times> 'v mag_keep" where
  "keep_put v k = (True, k\<lparr>mk_s := (mk_s k)[mk_n k := v], mk_n := mk_n k + 1\<rparr>)"

definition cal_mag_keep :: "'v \<Rightarrow> 'v mag_keep \<Rightarrow> bool \<times> 'v mag_keep" where
  "cal_mag_keep v k =
     (let i = mk_seen k; k = k\<lparr>mk_seen := mk_seen k + 1\<rparr>
      in if i mod mk_stride k \<noteq> 0 then (False, k)
         else if mk_n k = mk_cap k
         then let k = k\<lparr>mk_s := keep_thin (mk_cap k) (mk_s k), mk_n := mk_cap k div 2, mk_stride := mk_stride k * 2\<rparr>
              in if i mod mk_stride k \<noteq> 0 then (False, k) else keep_put v k
         else keep_put v k)"

section \<open>Six positions of an accelerometer\<close>

record accel_pos =
  ap_label :: string
  ap_detail :: string
  ap_axis :: nat
  ap_sign :: int

definition cal_accel_positions :: "accel_pos list" where
  "cal_accel_positions =
     [\<lparr>ap_label = ''Flat, component side up'', ap_detail = ''board +Z points down, so Z reads -g'', ap_axis = 2, ap_sign = -1\<rparr>,
      \<lparr>ap_label = ''Flat, upside down'', ap_detail = ''board +Z points up, so Z reads +g'', ap_axis = 2, ap_sign = 1\<rparr>,
      \<lparr>ap_label = ''Nose down (bow edge on the bench)'', ap_detail = ''board +X points down, so X reads -g'', ap_axis = 0, ap_sign = -1\<rparr>,
      \<lparr>ap_label = ''Nose up (stern edge on the bench)'', ap_detail = ''board +X points up, so X reads +g'', ap_axis = 0, ap_sign = 1\<rparr>,
      \<lparr>ap_label = ''Starboard side down (right edge on the bench)'', ap_detail = ''board +Y points down, so Y reads -g'', ap_axis = 1, ap_sign = -1\<rparr>,
      \<lparr>ap_label = ''Port side down (left edge on the bench)'', ap_detail = ''board +Y points up, so Y reads +g'', ap_axis = 1, ap_sign = 1\<rparr>]"

definition ACCEL_MIN_HALF_RANGE :: "('a :: times) libm \<Rightarrow> 'a" where "ACCEL_MIN_HALF_RANGE F = lit F (7 / 10) * CAL_G_MS2 F"

definition dominant_axis :: "('a :: {abs, ord}) vec \<Rightarrow> nat" where
  "dominant_axis v = fold (\<lambda>i k. if \<bar>v i\<bar> > \<bar>v k\<bar> then i else k) [1, 2] 0"

text \<open>The number of the prompt, from one; zero when there is none.\<close>

fun position_loop :: "nat \<Rightarrow> int \<Rightarrow> accel_pos list \<Rightarrow> nat \<Rightarrow> nat" where
  "position_loop axis sign [] i = 0"
| "position_loop axis sign (p # ps) i = (if ap_axis p = axis \<and> ap_sign p = sign then i + 1 else position_loop axis sign ps (i + 1))"

definition position_number :: "nat \<Rightarrow> int \<Rightarrow> nat" where
  "position_number axis sign = position_loop axis sign cal_accel_positions 0"

text \<open>What a refusal says: the axis, and the axis gravity landed on with the position at fault, or both positions.\<close>

datatype accel_error =
    Wrong_face nat nat nat
  | Inverted nat nat nat
  | Out_of_square nat nat nat

text \<open>\<open>meas k 0\<close> was taken with axis \<open>k\<close> up, \<open>meas k 1\<close> with it down.\<close>

definition accel_axis ::
  "'a libm \<Rightarrow> (nat \<Rightarrow> nat \<Rightarrow> 'a vec) \<Rightarrow> nat \<Rightarrow> accel_error + 'a \<times> ('a :: {zero, plus, minus, times, inverse, abs, ord})" where
  "accel_axis F meas k =
     (let up = meas k 0; down = meas k 1; n_up = position_number k 1; n_down = position_number k (-1);
          dom_up = dominant_axis up; dom_down = dominant_axis down
      in if dom_up \<noteq> k \<or> dom_down \<noteq> k
         then Inl (Wrong_face k (if dom_up \<noteq> k then dom_up else dom_down) (if dom_up \<noteq> k then n_up else n_down))
         else let off = (up k + down k) / lit F 2; half_range = (up k - down k) / lit F 2
              in if half_range < 0
                 then Inl (Inverted k (if n_up < n_down then n_up else n_down) (if n_up < n_down then n_down else n_up))
                 else if half_range < ACCEL_MIN_HALF_RANGE F
                 then Inl (Out_of_square k (if n_up < n_down then n_up else n_down) (if n_up < n_down then n_down else n_up))
                 else Inr (off, CAL_G_MS2 F / half_range))"

fun accel_axes ::
  "'a libm \<Rightarrow> (nat \<Rightarrow> nat \<Rightarrow> 'a vec) \<Rightarrow> nat list \<Rightarrow> 'a vec \<times> 'a vec \<Rightarrow> accel_error + 'a vec \<times> ('a :: {zero, plus, minus, times, inverse, abs, ord}) vec" where
  "accel_axes F meas [] r = Inr r"
| "accel_axes F meas (k # ks) (off, sc) =
     (case accel_axis F meas k of Inl e \<Rightarrow> Inl e | Inr (o_k, s_k) \<Rightarrow> accel_axes F meas ks (off(k := o_k), sc(k := s_k)))"

definition cal_accel_fit ::
  "'a libm \<Rightarrow> (nat \<Rightarrow> nat \<Rightarrow> 'a vec) \<Rightarrow> accel_error + 'a vec \<times> ('a :: {zero, plus, minus, times, inverse, abs, ord}) vec" where
  "cal_accel_fit F meas = accel_axes F meas [0, 1, 2] (\<lambda>_. 0, \<lambda>_. 0)"

section \<open>Coverage of the circle\<close>

text \<open>\<open>trunc\<close> is the conversion of a double to an int.\<close>

definition cal_cov_sector :: "'d libm \<Rightarrow> ('d \<Rightarrow> int) \<Rightarrow> int \<Rightarrow> 'd \<Rightarrow> 'd \<Rightarrow> 'd \<Rightarrow> ('d :: {zero, plus, minus, times, inverse, ord}) \<Rightarrow> int" where
  "cal_cov_sector D trunc nsec x y cx cy =
     (let angle = fatan2 D (y - cy) (x - cx); angle = (if angle < 0 then angle + lit D 2 * lit D M_PI else angle)
      in trunc (angle / (lit D 2 * lit D M_PI / lit D (of_int nsec))) smod nsec)"

definition cal_cov_mark ::
  "'d libm \<Rightarrow> ('d \<Rightarrow> int) \<Rightarrow> int list \<Rightarrow> 'd \<Rightarrow> 'd \<Rightarrow> 'd \<Rightarrow> ('d :: {zero, plus, minus, times, inverse, ord}) \<Rightarrow> int \<times> int list" where
  "cal_cov_mark D trunc sectors x y cx cy =
     (let s = cal_cov_sector D trunc (int (length sectors)) x y cx cy in (s, sectors[nat s := 1]))"

definition cal_cov_count :: "int list \<Rightarrow> int" where
  "cal_cov_count sectors = fold (\<lambda>m n. n + m) sectors 0"

section \<open>Allan deviation\<close>

fun thetas :: "'d \<Rightarrow> 'd \<Rightarrow> ('d :: {plus, times}) list \<Rightarrow> 'd list" where
  "thetas dt t [] = [t]"
| "thetas dt t (x # xs) = t # thetas dt (t + x * dt) xs"

definition allan_sum :: "'d libm \<Rightarrow> nat \<Rightarrow> nat \<Rightarrow> ('d :: {zero, plus, minus, times}) list \<Rightarrow> 'd" where
  "allan_sum D n m theta =
     fold (\<lambda>k sum. let d = theta ! (k + 2 * m) - lit D 2 * theta ! (k + m) + theta ! k in sum + d * d) [0..<n - 2 * m + 1] 0"

text \<open>The points for \<open>m\<close>, \<open>2 m\<close> and so on, as many as there is room for.\<close>

fun allan_points :: "'d libm \<Rightarrow> nat \<Rightarrow> 'd \<Rightarrow> ('d :: {zero, plus, minus, times, inverse}) list \<Rightarrow> nat \<Rightarrow> nat \<Rightarrow> ('d \<times> 'd) list" where
  "allan_points D n dt theta m 0 = []"
| "allan_points D n dt theta m (Suc room) =
     (if 2 * m < n
      then let tau = lit D (of_nat m) * dt; terms = n - 2 * m + 1
           in (tau, fsqrt D (allan_sum D n m theta / (lit D 2 * tau * tau * lit D (of_nat terms)))) #
              allan_points D n dt theta (m * 2) room
      else [])"

definition allan_deviation :: "'d libm \<Rightarrow> 'd list \<Rightarrow> 'd \<Rightarrow> int \<Rightarrow> ('d \<times> ('d :: {zero, plus, minus, times, inverse, ord})) list" where
  "allan_deviation D x fs max_pts =
     (if length x < 8 \<or> fs \<le> 0 \<or> max_pts \<le> 0 then []
      else let dt = lit D 1 / fs in allan_points D (length x) dt (thetas dt 0 x) 1 (nat max_pts))"

text \<open>The index of the least point, with the density and the floor.\<close>

definition allan_characterize :: "'d libm \<Rightarrow> ('d \<times> 'd) list \<Rightarrow> (nat \<times> 'd \<times> ('d :: {times, ord})) option" where
  "allan_characterize D pts =
     (if length pts < 3 then None
      else let imin = fold (\<lambda>i imin. if snd (pts ! i) < snd (pts ! imin) then i else imin) [1..<length pts] 0
           in Some (imin, snd (pts ! 0) * fsqrt D (fst (pts ! 0)), lit D (664 / 1000) * snd (pts ! imin)))"

section \<open>Gyroscope bias over temperature\<close>

definition gyro_temp_fit ::
  "'d libm \<Rightarrow> ('d \<times> 'd) list \<Rightarrow> 'd \<Rightarrow> ('d \<times> ('d :: {zero, one, plus, minus, times, inverse, ord})) option" where
  "gyro_temp_fit D tg ref_c =
     (if length tg < 2 then None
      else let S = (\<lambda>f. fold (\<lambda>(c, g) s. s + f (c - ref_c) g) tg 0);
               sx = S (\<lambda>t g. t); sy = S (\<lambda>t g. g); sxx = S (\<lambda>t g. t * t); sxy = S (\<lambda>t g. t * g);
               tmin = fold (\<lambda>(c, g) m. if c < m then c else m) tg (fst (hd tg));
               tmax = fold (\<lambda>(c, g) m. if c > m then c else m) tg (fst (hd tg));
               n = lit D (of_nat (length tg)); det = n * sxx - sx * sx
           in if tmax - tmin < lit D 1 then None
              else if det \<le> 0 then None
              else let b = (n * sxy - sx * sy) / det in Some (b, (sy - b * sx) / n))"

end
