(* ===== verification/CalSolve.thy ===== *)
theory CalSolve
  imports CalMath
begin

text \<open>
  Gaussian elimination in exact arithmetic: what it returns is the solution and the only one, and a system without
  exactly one solution is refused.
\<close>

definition solves :: "real mat \<Rightarrow> real vec \<Rightarrow> bool" where
  "solves M x \<longleftrightarrow> (\<forall>i < 4. (\<Sum>j<4. M i j * x j) = M i 4)"

lemma pivot_range:
  assumes "col < 4"
  shows "col \<le> pivot_of col M" "pivot_of col M < 4"
proof -
  have "col \<le> fold (\<lambda>row p. if g row p then row else p) rows p \<and> fold (\<lambda>row p. if g row p then row else p) rows p < 4"
    if "col \<le> p" "p < 4" "\<forall>r \<in> set rows. col \<le> r \<and> r < 4" for rows p and g :: "nat \<Rightarrow> nat \<Rightarrow> bool"
    using that by (induction rows arbitrary: p) simp_all
  from this [of col "[Suc col..<4]"] assms show "col \<le> pivot_of col M" "pivot_of col M < 4"
    by (simp_all add: pivot_of_def)
qed

lemma solves_swap:
  assumes "p < 4" "q < 4"
  shows "solves (swap_rows p q M) x \<longleftrightarrow> solves M x"
  using assms unfolding solves_def swap_rows_def by (auto split: if_splits)

lemma solves_sub_row:
  assumes "col < row" "row < 4" "\<forall>j < col. M col j = 0"
  shows "solves (sub_row col row M) x \<longleftrightarrow> solves M x"
proof -
  let ?f = "M row col / M col col" and ?M = "sub_row col row M"
  have other: "?M i = M i" if "i \<noteq> row" for i using that by (auto simp: sub_row_def Let_def)
  have entry: "?M row j = M row j - ?f * M col j" if "j \<le> 4" for j
    using assms(3) that by (cases "col \<le> j") (simp_all add: sub_row_def Let_def)
  have "(\<Sum>j<4. ?M row j * x j) = (\<Sum>j<4. M row j * x j) - ?f * (\<Sum>j<4. M col j * x j)"
    by (simp add: entry sum_subtractf sum_distrib_left algebra_simps)
  then have r: "(\<Sum>j<4. ?M row j * x j) = ?M row 4 \<longleftrightarrow> (\<Sum>j<4. M row j * x j) = M row 4"
    if "(\<Sum>j<4. M col j * x j) = M col 4" using that by (simp add: entry)
  have c: "col < 4" "col \<noteq> row" using assms by simp_all
  show ?thesis unfolding solves_def
  proof (intro iffI allI impI)
    fix i :: nat assume h: "\<forall>i < 4. (\<Sum>j<4. ?M i j * x j) = ?M i 4" and i: "i < 4"
    then show "(\<Sum>j<4. M i j * x j) = M i 4"
      using r other [OF c(2)] other [of i] c(1) assms(2) by (cases "i = row") (metis, metis)
  next
    fix i :: nat assume h: "\<forall>i < 4. (\<Sum>j<4. M i j * x j) = M i 4" and i: "i < 4"
    then show "(\<Sum>j<4. ?M i j * x j) = ?M i 4"
      using r other [of i] c(1) by (cases "i = row") simp_all
  qed
qed

text \<open>Eliminated up to a column: zero below the diagonal, and the diagonal is not.\<close>

definition eliminated :: "nat \<Rightarrow> real mat \<Rightarrow> bool" where
  "eliminated c M \<longleftrightarrow> (\<forall>j < c. \<forall>i. j < i \<and> i < 4 \<longrightarrow> M i j = 0) \<and> (\<forall>j < c. M j j \<noteq> 0)"

lemma sub_rows:
  assumes "eliminated col M" "M col col \<noteq> 0" "set rows \<subseteq> {Suc col..<4}" "distinct rows" "col < 4"
  shows "(solves (fold (sub_row col) rows M) x \<longleftrightarrow> solves M x) \<and> eliminated col (fold (sub_row col) rows M) \<and>
    (\<forall>i. i \<notin> set rows \<longrightarrow> fold (sub_row col) rows M i = M i) \<and> (\<forall>i \<in> set rows. fold (sub_row col) rows M i col = 0)"
  using assms
proof (induction rows arbitrary: M)
  case (Cons r rows)
  let ?M = "sub_row col r M"
  have r: "col < r" "r < 4" using Cons.prems(3) by auto
  have z: "\<forall>j < col. M col j = 0" "\<forall>j < col. M r j = 0"
    using Cons.prems(1,5) r by (auto simp: eliminated_def)
  have keep: "?M i = M i" if "i \<noteq> r" for i using that by (auto simp: sub_row_def Let_def)
  have rz: "?M r col = 0" using Cons.prems(2) r by (simp add: sub_row_def Let_def)
  have low: "?M r j = 0" if "j < col" for j using that z(2) by (simp add: sub_row_def Let_def)
  have e: "eliminated col ?M"
    unfolding eliminated_def
  proof (intro conjI allI impI)
    fix j i assume "j < col" "j < i \<and> i < 4"
    then show "?M i j = 0" using Cons.prems(1) keep [of i] low [of j] by (cases "i = r") (simp_all add: eliminated_def)
  next
    fix j assume "j < col"
    then show "?M j j \<noteq> 0" using Cons.prems(1) keep [of j] r by (simp add: eliminated_def)
  qed
  have ih: "(solves (fold (sub_row col) rows ?M) x \<longleftrightarrow> solves ?M x) \<and> eliminated col (fold (sub_row col) rows ?M) \<and>
    (\<forall>i. i \<notin> set rows \<longrightarrow> fold (sub_row col) rows ?M i = ?M i) \<and> (\<forall>i \<in> set rows. fold (sub_row col) rows ?M i col = 0)"
    by (rule Cons.IH) (use e Cons.prems keep [of col] r in auto)
  then show ?case using solves_sub_row [of col r M x] r z(1) keep rz Cons.prems(4) by auto
qed simp

lemma gauss_col_step:
  assumes "eliminated col M" "col < 4" "gauss_col real_libm col M = Some M'"
  shows "solves M' x \<longleftrightarrow> solves M x" "eliminated (Suc col) M'"
proof -
  define P where "P = (if pivot_of col M \<noteq> col then swap_rows col (pivot_of col M) M else M)"
  have p: "col \<le> pivot_of col M" "pivot_of col M < 4" using pivot_range [OF assms(2)] by auto
  have m: "M' = fold (sub_row col) [Suc col..<4] P" and nz: "P col col \<noteq> 0"
    using assms(3) unfolding gauss_col_def Let_def P_def [symmetric] by (auto simp: of_rat_divide of_rat_power split: if_splits)
  have s: "solves P x \<longleftrightarrow> solves M x" using solves_swap [OF assms(2) p(2)] by (simp add: P_def)
  have e: "eliminated col P" using assms(1,2) p unfolding P_def eliminated_def swap_rows_def by auto
  note r = sub_rows [OF e nz, of "[Suc col..<4]", folded m]
  show "solves M' x \<longleftrightarrow> solves M x" using r s assms(2) by simp
  have "M' i col = 0" if "col < i" "i < 4" for i using r that assms(2) by simp
  moreover have "M' col col \<noteq> 0" using r nz assms(2) by simp
  moreover have "eliminated col M'" using r assms(2) by simp
  ultimately show "eliminated (Suc col) M'" by (auto simp: eliminated_def less_Suc_eq)
qed

lemma gauss_cols_steps:
  assumes "gauss_cols real_libm [0, 1, 2, 3] M = Some M'"
  shows "solves M' x \<longleftrightarrow> solves M x" "eliminated 4 M'"
proof -
  have "eliminated 0 M" by (simp add: eliminated_def)
  moreover obtain A B C where "gauss_col real_libm 0 M = Some A" "gauss_col real_libm 1 A = Some B"
    "gauss_col real_libm 2 B = Some C" "gauss_col real_libm 3 C = Some M'"
    using assms by (auto split: option.splits)
  ultimately have a: "eliminated 1 A" "solves A x \<longleftrightarrow> solves M x" and bA: "gauss_col real_libm 1 A = Some B"
    and cB: "gauss_col real_libm 2 B = Some C" and dC: "gauss_col real_libm 3 C = Some M'"
    using gauss_col_step(1) [of 0 M A x] gauss_col_step(2) [of 0 M A] by simp_all
  have b: "eliminated 2 B" "solves B x \<longleftrightarrow> solves A x" using gauss_col_step(1) [OF a(1) _ bA, of x] gauss_col_step(2) [OF a(1) _ bA] by (simp_all add: numeral_2_eq_2)
  have c: "eliminated 3 C" "solves C x \<longleftrightarrow> solves B x" using gauss_col_step(1) [OF b(1) _ cB, of x] gauss_col_step(2) [OF b(1) _ cB] by (simp_all add: numeral_3_eq_3)
  show "solves M' x \<longleftrightarrow> solves M x" "eliminated 4 M'"
    using gauss_col_step(1) [OF c(1) _ dC, of x] gauss_col_step(2) [OF c(1) _ dC] a(2) b(2) c(2) by (simp_all add: eval_nat_numeral)
qed

lemma sum4: "(\<Sum>j<4. f j) = f 0 + f 1 + f 2 + f (3 :: nat)" for f :: "nat \<Rightarrow> real"
  by (simp add: eval_nat_numeral)

lemma back_subst_unique:
  assumes "eliminated 4 M"
  shows "solves M x \<longleftrightarrow> (\<forall>i < 4. x i = back_subst M i)"
proof -
  have u: "[Suc 3..<4] = []" "[Suc 2..<4] = [3]" "[Suc 1..<4] = [2, 3]" "[Suc 0..<4] = [1, 2, 3]"
    by (simp_all add: upt_rec numeral_2_eq_2 numeral_3_eq_3)
  have z: "M 1 0 = 0" "M 2 0 = 0" "M 3 0 = 0" "M 2 1 = 0" "M 3 1 = 0" "M 3 2 = 0"
    and d: "M 0 0 \<noteq> 0" "M 1 1 \<noteq> 0" "M 2 2 \<noteq> 0" "M 3 3 \<noteq> 0"
    using assms by (simp_all add: eliminated_def)
  let ?x = "back_subst M"
  have b: "?x 3 = M 3 4 / M 3 3" "?x 2 = (M 2 4 - M 2 3 * ?x 3) / M 2 2" "?x 1 = (M 1 4 - M 1 2 * ?x 2 - M 1 3 * ?x 3) / M 1 1"
    "?x 0 = (M 0 4 - M 0 1 * ?x 1 - M 0 2 * ?x 2 - M 0 3 * ?x 3) / M 0 0"
    unfolding back_subst_def fold_simps comp_def back_step_def u by simp_all
  have all4: "(\<forall>i < 4. P i) \<longleftrightarrow> P 3 \<and> P 2 \<and> P 1 \<and> P (0 :: nat)" for P
    by (auto simp: less_Suc_eq numeral_eq_Suc)
  have r: "m * y = c \<longleftrightarrow> y = c / m" if "m \<noteq> 0" for m y c :: real using that by (auto simp: field_simps)
  have e: "(\<Sum>j<4. M 3 j * x j) = M 3 4 \<longleftrightarrow> x 3 = M 3 4 / M 3 3"
    "(\<Sum>j<4. M 2 j * x j) = M 2 4 \<longleftrightarrow> x 2 = (M 2 4 - M 2 3 * x 3) / M 2 2"
    "(\<Sum>j<4. M 1 j * x j) = M 1 4 \<longleftrightarrow> x 1 = (M 1 4 - M 1 2 * x 2 - M 1 3 * x 3) / M 1 1"
    "(\<Sum>j<4. M 0 j * x j) = M 0 4 \<longleftrightarrow> x 0 = (M 0 4 - M 0 1 * x 1 - M 0 2 * x 2 - M 0 3 * x 3) / M 0 0"
    unfolding r [OF d(1), symmetric] r [OF d(2), symmetric] r [OF d(3), symmetric] r [OF d(4), symmetric] sum4 z
    by (simp_all only: mult_zero_left add_0 add_0_right) (auto simp: algebra_simps)
  show ?thesis unfolding solves_def all4 e using b by metis
qed

lemma gauss4_solution:
  assumes "gauss4 real_libm A b = Some x"
  shows "(\<forall>i < 4. (\<Sum>j<4. A i j * y j) = b i) \<longleftrightarrow> (\<forall>i < 4. y i = x i)"
proof -
  obtain M where m: "gauss_cols real_libm [0, 1, 2, 3] (augment A b) = Some M" and x: "x = back_subst M"
    using assms by (auto simp: gauss4_def)
  have "solves (augment A b) y \<longleftrightarrow> (\<forall>i < 4. y i = x i)"
    using gauss_cols_steps(1) [OF m, of y] back_subst_unique [OF gauss_cols_steps(2) [OF m], of y] unfolding x by blast
  then show ?thesis by (simp add: solves_def augment_def)
qed

lemma pivot_largest:
  fixes M :: "real mat"
  assumes "col \<le> i" "i < 4"
  shows "\<bar>M i col\<bar> \<le> \<bar>M (pivot_of col M) col\<bar>"
proof -
  let ?f = "\<lambda>row p. if \<bar>M row col\<bar> > \<bar>M p col\<bar> then row else p"
  have "\<bar>M j col\<bar> \<le> \<bar>M (fold ?f rows p) col\<bar>" if "j = p \<or> j \<in> set rows" for j p rows
    using that
  proof (induction rows arbitrary: p j)
    case (Cons row rows)
    have ih: "\<bar>M (?f row p) col\<bar> \<le> \<bar>M (fold ?f rows (?f row p)) col\<bar>" by (rule Cons.IH) simp
    show ?case
    proof (cases "j \<in> set rows")
      case True
      then have "\<bar>M j col\<bar> \<le> \<bar>M (fold ?f rows (?f row p)) col\<bar>" by (intro Cons.IH) simp
      then show ?thesis by simp
    next
      case False
      then have "\<bar>M j col\<bar> \<le> \<bar>M (?f row p) col\<bar>" using Cons.prems by auto
      then show ?thesis using ih by simp
    qed
  qed simp
  from this [of i col "[Suc col..<4]"] show ?thesis using assms by (cases "i = col") (simp_all add: pivot_of_def)
qed

lemma gauss_col_none:
  assumes "gauss_col real_libm col M = None" "col \<le> i" "i < 4"
  shows "\<bar>M i col\<bar> < 1 / 10 ^ 12"
proof -
  have "\<bar>M (pivot_of col M) col\<bar> < 1 / 10 ^ 12"
    using assms(1) unfolding gauss_col_def Let_def by (auto simp: of_rat_divide of_rat_power swap_rows_def split: if_splits)
  then show ?thesis using pivot_largest [OF assms(2,3), of M] by linarith
qed

lemma gauss_cols_none:
  assumes "gauss_cols real_libm [col..<4] M = None" "eliminated col M" "col \<le> 4"
  shows "\<exists>c M'. col \<le> c \<and> c < 4 \<and> (\<forall>y. solves M' y \<longleftrightarrow> solves M y) \<and> eliminated c M' \<and> (\<forall>i. c \<le> i \<and> i < 4 \<longrightarrow> \<bar>M' i c\<bar> < 1 / 10 ^ 12)"
  using assms
proof (induction "4 - col" arbitrary: col M)
  case (Suc d)
  then have c: "col < 4" by simp
  show ?case
  proof (cases "gauss_col real_libm col M")
    case None
    then show ?thesis using gauss_col_none [OF None] Suc.prems(2) c by blast
  next
    case (Some N)
    note n = gauss_col_step [OF Suc.prems(2) c Some]
    have "gauss_cols real_libm [Suc col..<4] N = None" using Suc.prems(1) Some c by (simp add: upt_conv_Cons)
    from Suc.hyps(1) [OF _ this n(2)] Suc.hyps(2) c show ?thesis using n(1) by (metis Suc_leD Suc_leI diff_Suc_Suc diff_Suc_1 Suc_diff_Suc)
  qed
qed simp

text \<open>C33: Gaussian elimination with partial pivoting is complete where it does not refuse: what it returns solves the system,
  and nothing else does. Where it refuses, the columns before some column could be eliminated, and of that column no
  coefficient as large as the threshold is left. So a system with no solution, or with more than one, is refused.\<close>

theorem gauss4_solves:
  "(\<forall>x. gauss4 real_libm A b = Some x \<longrightarrow> (\<forall>y. (\<forall>i < 4. (\<Sum>j<4. A i j * y j) = b i) \<longleftrightarrow> (\<forall>i < 4. y i = x i))) \<and>
   (gauss4 real_libm A b = None \<longrightarrow>
     (\<exists>c M. c < 4 \<and> (\<forall>y. solves M y \<longleftrightarrow> (\<forall>i < 4. (\<Sum>j<4. A i j * y j) = b i)) \<and> eliminated c M \<and>
       (\<forall>i. c \<le> i \<and> i < 4 \<longrightarrow> \<bar>M i c\<bar> < 1 / 10 ^ 12)))"
proof (intro conjI allI impI)
  fix x y assume "gauss4 real_libm A b = Some x"
  then show "(\<forall>i < 4. (\<Sum>j<4. A i j * y j) = b i) \<longleftrightarrow> (\<forall>i < 4. y i = x i)" by (rule gauss4_solution)
next
  have s: "solves (augment A b) y \<longleftrightarrow> (\<forall>i < 4. (\<Sum>j<4. A i j * y j) = b i)" for y by (simp add: solves_def augment_def)
  have u: "[0..<4] = [0, 1, 2, 3 :: nat]" by (simp add: upt_rec numeral_2_eq_2 numeral_3_eq_3)
  assume "gauss4 real_libm A b = None"
  then have "gauss_cols real_libm [0..<4] (augment A b) = None" unfolding u by (simp add: gauss4_def)
  from gauss_cols_none [OF this] show "\<exists>c M. c < 4 \<and> (\<forall>y. solves M y \<longleftrightarrow> (\<forall>i < 4. (\<Sum>j<4. A i j * y j) = b i)) \<and> eliminated c M \<and>
      (\<forall>i. c \<le> i \<and> i < 4 \<longrightarrow> \<bar>M i c\<bar> < 1 / 10 ^ 12)"
    unfolding s by (auto simp: eliminated_def)
qed

lemma gauss4_diag:
  assumes "\<forall>i < 4. 1 / 10 ^ 12 \<le> \<bar>d i\<bar>" "\<forall>i < 4. \<forall>j < 4. A i j = (if i = j then d i else 0)"
  shows "gauss4 real_libm A b = Some (back_subst (augment A b))"
proof -
  let ?M = "augment A b"
  have e: "?M i j = (if i = j then d i else 0)" if "i < 4" "j < 4" for i j using assms(2) that by (simp add: augment_def)
  have p: "pivot_of c ?M = c" if "c < 4" for c
  proof -
    have "fold (\<lambda>row p. if \<bar>?M row c\<bar> > \<bar>?M p c\<bar> then row else p) rows c = c" if "\<forall>r \<in> set rows. r < 4" for rows
      using that by (induction rows) (use \<open>c < 4\<close> e in auto)
    then show ?thesis by (simp add: pivot_of_def)
  qed
  have r: "sub_row c r ?M = ?M" if "c < r" "r < 4" for c r
    using that e [of r c] by (intro ext) (simp add: sub_row_def Let_def)
  have "fold (sub_row c) rows ?M = ?M" if "\<forall>r \<in> set rows. c < r \<and> r < 4" for c rows
    using that by (induction rows) (simp_all add: r)
  then have "gauss_col real_libm c ?M = Some ?M" if "c < 4" for c
    using that p [OF that] assms(1) e [OF that that] unfolding gauss_col_def Let_def by (auto simp: of_rat_divide of_rat_power not_less)
  then have "gauss_cols real_libm cols ?M = Some ?M" if "\<forall>c \<in> set cols. c < 4" for cols
    using that by (induction cols) simp_all
  from this [of "[0, 1, 2, 3]"] have "gauss_cols real_libm [0, 1, 2, 3] ?M = Some ?M" by simp
  then show ?thesis unfolding gauss4_def by (simp only: option.map)
qed

theorem gauss4_solves_witness:
  "gauss4 real_libm (\<lambda>_ _. 0) (\<lambda>_. 0) = None \<and>
   (\<exists>x. gauss4 real_libm (\<lambda>i j. if i = j then 1 else 0) (\<lambda>i. real i + 5) = Some x \<and> x 3 = 8)"
proof
  show "gauss4 real_libm (\<lambda>_ _. 0) (\<lambda>_. 0) = None"
  proof (cases "gauss4 real_libm (\<lambda>_ _. 0) (\<lambda>_. 0)")
    case (Some x)
    note g = gauss4_solves [of "\<lambda>_ _. 0" "\<lambda>_. 0", THEN conjunct1, THEN spec, THEN mp, OF Some, THEN spec]
    from g [of "\<lambda>i. x i + 1"] show ?thesis by (auto dest: spec [of _ 0])
  qed
  let ?A = "\<lambda>i j. if i = j then 1 else 0 :: real" and ?b = "\<lambda>i. real i + 5"
  have g: "gauss4 real_libm ?A ?b = Some (back_subst (augment ?A ?b))" by (rule gauss4_diag [of "\<lambda>_. 1"]) simp_all
  have "(\<forall>i < 4. (\<Sum>j<4. ?A i j * ?b j) = ?b i) \<longleftrightarrow> (\<forall>i < 4. ?b i = back_subst (augment ?A ?b) i)"
    by (rule gauss4_solves [of ?A ?b, THEN conjunct1, THEN spec, THEN mp, OF g, THEN spec])
  moreover have "\<forall>i < 4. (\<Sum>j<4. ?A i j * ?b j) = ?b i"
  proof (intro allI impI)
    fix i :: nat assume "i < 4"
    then have "i = 0 \<or> i = 1 \<or> i = 2 \<or> i = 3" by linarith
    then show "(\<Sum>j<4. ?A i j * ?b j) = ?b i" unfolding sum4 by auto
  qed
  ultimately have "\<forall>i < 4. ?b i = back_subst (augment ?A ?b) i" by blast
  then have "back_subst (augment ?A ?b) 3 = 8" by (auto dest: spec [of _ 3])
  then show "\<exists>x. gauss4 real_libm ?A ?b = Some x \<and> x 3 = 8" using g by blast
qed

end
