(* ===== verification/Calib.thy ===== *)
theory Calib
  imports CalMath Fusion
begin

text \<open>
  What the readers do to a sample between the driver and the ring: the calibration and the rotation of the mount, of
  src/imu_math.c. The readers' model takes this as a parameter; here it is, over the samples the fusion thread reads.
\<close>

text \<open>The calibration of include/cal.h.\<close>

record 'a imud_cal =
  ca_accel_offset :: "'a vec"
  ca_accel_scale :: "'a vec"
  ca_gyro_bias :: "'a vec"
  ca_mag_hard_iron :: "'a vec"
  ca_mag_soft_iron :: "'a mat"
  ca_gyro_noise_density :: "'a vec"
  ca_gyro_bias_instability :: "'a vec"
  ca_accel_noise_density :: "'a vec"
  ca_gyro_temp_coeff :: "'a vec"
  ca_gyro_temp_ref_c :: 'a
  ca_has_accel :: bool
  ca_has_gyro :: bool
  ca_has_mag :: bool
  ca_has_noise :: bool
  ca_has_gyro_temp :: bool

text \<open>A magnetometer's sample: the field the filter reads, and the field before the calibration.\<close>

record 'a mag_field = "'a field" +
  fi_field_raw :: "'a vec"

definition apply_imu_cal :: "'a imud_cal \<Rightarrow> 'a isample \<Rightarrow> ('a :: {minus, times}) isample" where
  "apply_imu_cal cal s =
     (let s = (if ca_has_gyro_temp cal
               then let dT = im_temp_c s - ca_gyro_temp_ref_c cal in s\<lparr>im_gyro := (\<lambda>i. im_gyro s i - ca_gyro_temp_coeff cal i * dT)\<rparr>
               else s)
      in if \<not> ca_has_accel cal then s
         else s\<lparr>im_accel := (\<lambda>i. (im_accel s i - ca_accel_offset cal i) * ca_accel_scale cal i)\<rparr>)"

definition apply_mag_cal :: "'a imud_cal \<Rightarrow> 'a mag_field \<Rightarrow> ('a :: {plus, minus, times}) mag_field" where
  "apply_mag_cal cal s =
     (if \<not> ca_has_mag cal then s
      else let tmp = (\<lambda>i. fi_field s i - ca_mag_hard_iron cal i)
           in s\<lparr>fi_field := (\<lambda>i. ca_mag_soft_iron cal i 0 * tmp 0 + ca_mag_soft_iron cal i 1 * tmp 1 + ca_mag_soft_iron cal i 2 * tmp 2)\<rparr>)"

text \<open>The rotation of the mount is in double, where one is configured.\<close>

definition apply_mount_rot_if_set :: "('a, 'd :: {plus, times}) wider \<Rightarrow> 'd mat option \<Rightarrow> 'a vec \<Rightarrow> 'a vec" where
  "apply_mount_rot_if_set W mount v =
     (case mount of None \<Rightarrow> v
      | Some R \<Rightarrow> let out = (\<lambda>i. R i 0 * wide W (v 0) + R i 1 * wide W (v 1) + R i 2 * wide W (v 2))
                  in vec3 (narrow W (out 0)) (narrow W (out 1)) (narrow W (out 2)))"

definition imu_finalise_sample :: "('a, 'd :: {plus, times}) wider \<Rightarrow> 'd mat option \<Rightarrow> 'a imud_cal \<Rightarrow> 'a isample \<Rightarrow> ('a :: {minus, times}) isample" where
  "imu_finalise_sample W mount cal s =
     (let s = s\<lparr>im_accel_raw := vec3 (im_accel s 0) (im_accel s 1) (im_accel s 2)\<rparr>;
          s = apply_imu_cal cal s;
          s = s\<lparr>im_accel := apply_mount_rot_if_set W mount (im_accel s)\<rparr>;
          s = s\<lparr>im_gyro := apply_mount_rot_if_set W mount (im_gyro s)\<rparr>
      in s\<lparr>im_accel_raw := apply_mount_rot_if_set W mount (im_accel_raw s)\<rparr>)"

definition mag_finalise_sample :: "('a, 'd :: {plus, times}) wider \<Rightarrow> 'd mat option \<Rightarrow> 'a imud_cal \<Rightarrow> 'a mag_field \<Rightarrow> ('a :: {plus, minus, times}) mag_field" where
  "mag_finalise_sample W mount cal s =
     (let s = s\<lparr>fi_field_raw := vec3 (fi_field s 0) (fi_field s 1) (fi_field s 2)\<rparr>;
          s = apply_mag_cal cal s;
          s = s\<lparr>fi_field := apply_mount_rot_if_set W mount (fi_field s)\<rparr>
      in s\<lparr>fi_field_raw := apply_mount_rot_if_set W mount (fi_field_raw s)\<rparr>)"

end
