(* ===== verification/CalProps.thy ===== *)
theory CalProps
  imports CalSolve Calib
begin

text \<open>
  The fits of imud-cal in exact arithmetic: on samples that obey the model, each returns the model.
\<close>

section \<open>The sphere\<close>

definition on_sphere :: "real vec \<Rightarrow> real \<Rightarrow> real vec \<Rightarrow> bool" where
  "on_sphere c r v \<longleftrightarrow> (v 0 - c 0)\<^sup>2 + (v 1 - c 1)\<^sup>2 + (v 2 - c 2)\<^sup>2 = r\<^sup>2"

definition sphere_of :: "real vec list \<Rightarrow> real sphere_accum" where
  "sphere_of vs = fold (sphere_add real_wider) vs sphere_zero"

lemma sphere_of_Nil [simp]: "sphere_of [] = sphere_zero"
  by (simp add: sphere_of_def)

lemma sphere_of_snoc [simp]: "sphere_of (vs @ [v]) = sphere_add real_wider v (sphere_of vs)"
  by (simp add: sphere_of_def)

lemma sphere_count [simp]: "sa_n (sphere_of vs) = length vs"
  by (induction vs rule: rev_induct) (simp_all add: sphere_zero_def sphere_add_def Let_def)

lemma sphere_sums:
  "sa_s (sphere_of vs) i = (\<Sum>v\<leftarrow>vs. v i)" "sa_ss (sphere_of vs) i j = (\<Sum>v\<leftarrow>vs. v i * v j)"
  by (induction vs rule: rev_induct) (simp_all add: sphere_zero_def sphere_add_def Let_def)

lemma sphere_normal:
  assumes "\<forall>v \<in> set vs. on_sphere c r v"
  defines "y \<equiv> vec4 (c 0) (c 1) (c 2) (r\<^sup>2 - (c 0)\<^sup>2 - (c 1)\<^sup>2 - (c 2)\<^sup>2)"
  shows "\<forall>i < 4. (\<Sum>j<4. sphere_AtA real_libm (sphere_of vs) i j * y j) = sphere_Atb real_libm (sphere_of vs) i"
proof -
  have all4: "(\<forall>i < 4. P i) \<longleftrightarrow> P 0 \<and> P 1 \<and> P 2 \<and> P (3 :: nat)" for P by (auto simp: less_Suc_eq numeral_eq_Suc)
  let ?a = "\<lambda>vs. sphere_of vs"
  have rows: "4 * (sa_ss (?a vs) i 0 * c 0 + sa_ss (?a vs) i 1 * c 1 + sa_ss (?a vs) i 2 * c 2) + 2 * sa_s (?a vs) i * y 3 =
      2 * sa_sr (?a vs) i \<and> sa_ss (?a vs) i j = sa_ss (?a vs) j i" for i j
    using assms(1)
  proof (induction vs rule: rev_induct)
    case (snoc v vs)
    have "v 0 * v 0 + v 1 * v 1 + v 2 * v 2 = 2 * (v 0 * c 0 + v 1 * c 1 + v 2 * c 2) + y 3"
      using snoc.prems by (simp add: on_sphere_def y_def power2_eq_square algebra_simps)
    then have "v i * (v 0 * v 0 + v 1 * v 1 + v 2 * v 2) = v i * (2 * (v 0 * c 0 + v 1 * c 1 + v 2 * c 2) + y 3)" by simp
    then show ?case using snoc by (simp add: sphere_add_def Let_def algebra_simps)
  qed (simp add: sphere_zero_def)
  have last: "2 * (sa_s (?a vs) 0 * c 0 + sa_s (?a vs) 1 * c 1 + sa_s (?a vs) 2 * c 2) + real (length vs) * y 3 =
      sa_ss (?a vs) 0 0 + sa_ss (?a vs) 1 1 + sa_ss (?a vs) 2 2"
    using assms(1)
  proof (induction vs rule: rev_induct)
    case (snoc v vs)
    have "v 0 * v 0 + v 1 * v 1 + v 2 * v 2 = 2 * (v 0 * c 0 + v 1 * c 1 + v 2 * c 2) + y 3"
      using snoc.prems by (simp add: on_sphere_def y_def power2_eq_square algebra_simps)
    then show ?case using snoc by (simp add: sphere_add_def Let_def algebra_simps)
  qed (simp add: sphere_zero_def)
  have y: "y 0 = c 0" "y 1 = c 1" "y 2 = c 2" by (simp_all add: y_def)
  have s: "sa_ss (?a vs) 1 0 = sa_ss (?a vs) 0 1" "sa_ss (?a vs) 2 0 = sa_ss (?a vs) 0 2" "sa_ss (?a vs) 2 1 = sa_ss (?a vs) 1 2"
    using rows by blast+
  define S where "S = sa_ss (?a vs)"
  define U where "U = sa_s (?a vs)"
  define T where "T = sa_sr (?a vs)"
  have A: "sphere_AtA real_libm (?a vs) 0 j = vec4 (4 * S 0 0) (4 * S 0 1) (4 * S 0 2) (2 * U 0) j"
    "sphere_AtA real_libm (?a vs) 1 j = vec4 (4 * S 0 1) (4 * S 1 1) (4 * S 1 2) (2 * U 1) j"
    "sphere_AtA real_libm (?a vs) 2 j = vec4 (4 * S 0 2) (4 * S 1 2) (4 * S 2 2) (2 * U 2) j"
    "sphere_AtA real_libm (?a vs) 3 j = vec4 (2 * U 0) (2 * U 1) (2 * U 2) (real (length vs)) j" if "j < 4" for j
    using that by (auto simp: sphere_AtA_def upper_def vec4_def S_def U_def less_Suc_eq numeral_eq_Suc)
  have b: "sphere_Atb real_libm (?a vs) 0 = 2 * T 0" "sphere_Atb real_libm (?a vs) 1 = 2 * T 1"
    "sphere_Atb real_libm (?a vs) 2 = 2 * T 2" "sphere_Atb real_libm (?a vs) 3 = S 0 0 + S 1 1 + S 2 2"
    by (simp_all add: sphere_Atb_def S_def T_def)
  have four: "0 < (4 :: nat)" "1 < (4 :: nat)" "2 < (4 :: nat)" "3 < (4 :: nat)" by simp_all
  note r = rows [of 0, THEN conjunct1, folded S_def U_def T_def] rows [of 1, THEN conjunct1, folded S_def U_def T_def]
    rows [of 2, THEN conjunct1, folded S_def U_def T_def] last [folded S_def U_def] s [folded S_def]
  show ?thesis unfolding all4 sum4 y A [OF four(1)] A [OF four(2)] A [OF four(3)] A [OF four(4)] b vec4_simps
    using r by (simp only: s [folded S_def] distrib_left mult.assoc)
qed

text \<open>C32: The sphere fit is exact: from samples on a sphere it returns the centre and the radius of that sphere, unless there are
  fewer than five or elimination refuses the system, as it does when they lie on more than one sphere.\<close>

theorem sphere_fit_exact:
  assumes "\<forall>v \<in> set vs. on_sphere c r v" "0 < r"
  shows "sphere_fit real_libm (sphere_of vs) =
    (if length vs < 5 \<or> gauss4 real_libm (sphere_AtA real_libm (sphere_of vs)) (sphere_Atb real_libm (sphere_of vs)) = None then None
     else Some (vec3 (c 0) (c 1) (c 2), r))"
proof (cases "gauss4 real_libm (sphere_AtA real_libm (sphere_of vs)) (sphere_Atb real_libm (sphere_of vs))")
  case (Some sol)
  let ?y = "vec4 (c 0) (c 1) (c 2) (r\<^sup>2 - (c 0)\<^sup>2 - (c 1)\<^sup>2 - (c 2)\<^sup>2)"
  have "\<forall>i < 4. ?y i = sol i" using gauss4_solution [OF Some] sphere_normal [OF assms(1)] by blast
  from this [THEN spec, of 0] this [THEN spec, of 1] this [THEN spec, of 2] this [THEN spec, of 3]
  have s: "sol 0 = c 0" "sol 1 = c 1" "sol 2 = c 2" "sol 3 = r\<^sup>2 - (c 0)\<^sup>2 - (c 1)\<^sup>2 - (c 2)\<^sup>2"
    unfolding vec4_simps by simp_all
  have r2: "sol 3 + sol 0 * sol 0 + sol 1 * sol 1 + sol 2 * sol 2 = r\<^sup>2" unfolding s by (simp add: power2_eq_square)
  show ?thesis unfolding sphere_fit_def Some option.case Let_def r2 unfolding s sphere_count using assms(2) by simp
qed (simp add: sphere_fit_def)


text \<open>Applied to six points of the unit sphere, whose system is not refused.\<close>

theorem sphere_fit_exact_witness:
  "sphere_fit real_libm (sphere_of [vec3 1 0 0, vec3 (-1) 0 0, vec3 0 1 0, vec3 0 (-1) 0, vec3 0 0 1, vec3 0 0 (-1)]) = Some (vec3 0 0 0, 1)"
proof -
  let ?vs = "[vec3 1 0 0, vec3 (-1) 0 0, vec3 0 1 0, vec3 0 (-1) 0, vec3 0 0 1, vec3 0 0 (-1)] :: real vec list"
  have on: "\<forall>v \<in> set ?vs. on_sphere (\<lambda>_. 0) 1 v" by (simp add: on_sphere_def)
  have six: "\<not> length ?vs < 5" by simp
  have a: "sphere_AtA real_libm (sphere_of ?vs) i j = (if i = j then vec4 8 8 8 6 i else 0)" if "i < 4" "j < 4" for i j
  proof -
    have "i = 0 \<or> i = 1 \<or> i = 2 \<or> i = 3" "j = 0 \<or> j = 1 \<or> j = 2 \<or> j = 3" using that by linarith+
    then show ?thesis by (elim disjE) (simp_all add: sphere_AtA_def upper_def sphere_sums)
  qed
  have "gauss4 real_libm (sphere_AtA real_libm (sphere_of ?vs)) b \<noteq> None" for b
    by (subst gauss4_diag [of "vec4 8 8 8 6"]) (use a in \<open>simp_all add: vec4_def\<close>)
  then show ?thesis using sphere_fit_exact [OF on] six by simp
qed

section \<open>The samples kept of a swing\<close>

definition keep_all :: "'v list \<Rightarrow> 'v mag_keep \<Rightarrow> 'v mag_keep" where
  "keep_all vs k = fold (\<lambda>v k. snd (cal_mag_keep v k)) vs k"

text \<open>How many multiples of \<open>d\<close> lie below \<open>n\<close>.\<close>

definition multiples :: "nat \<Rightarrow> nat \<Rightarrow> nat" where
  "multiples d n = (n + (d - 1)) div d"

lemma multiples_dvd:
  assumes "0 < d" "n mod d = 0"
  shows "multiples d n = n div d"
proof -
  obtain k where k: "n = d * k" using assms(2) by auto
  have "(d * k + (d - 1)) div d = k + (d - 1) div d" by (rule div_mult_self4) (use assms(1) in simp)
  then show ?thesis using assms(1) by (simp only: multiples_def k) simp
qed

lemma multiples_Suc:
  assumes "0 < d"
  shows "multiples d (Suc n) = multiples d n + (if n mod d = 0 then 1 else 0)"
proof -
  have "multiples d (Suc n) = Suc (n div d)" using assms by (simp add: multiples_def)
  moreover have "multiples d n = Suc (n div d)" if "n mod d \<noteq> 0"
  proof -
    define r where "r = n mod d"
    have r: "n = d * (n div d) + r" "0 < r" "r < d" using that assms by (simp_all add: r_def)
    have "n + (d - 1) = d * Suc (n div d) + (r - 1)" using r by simp
    then show ?thesis using r by (simp only: multiples_def div_mult_self4) simp
  qed
  ultimately show ?thesis using multiples_dvd [OF assms] by simp
qed

lemma keep_thin_nth:
  assumes "2 * m \<le> length s"
  shows "length (fold (\<lambda>j s. s[j := s ! (2 * j)]) [0..<m] s) = length s"
    "j < length s \<Longrightarrow> fold (\<lambda>j s. s[j := s ! (2 * j)]) [0..<m] s ! j = (if j < m then s ! (2 * j) else s ! j)"
proof -
  have "length (fold (\<lambda>j s. s[j := s ! (2 * j)]) [0..<m] s) = length s \<and>
      (\<forall>j < length s. fold (\<lambda>j s. s[j := s ! (2 * j)]) [0..<m] s ! j = (if j < m then s ! (2 * j) else s ! j))"
    using assms by (induction m) (auto simp: nth_list_update)
  then show "length (fold (\<lambda>j s. s[j := s ! (2 * j)]) [0..<m] s) = length s"
    "j < length s \<Longrightarrow> fold (\<lambda>j s. s[j := s ! (2 * j)]) [0..<m] s ! j = (if j < m then s ! (2 * j) else s ! j)" by simp_all
qed

text \<open>What holds after the samples \<open>vs\<close>.\<close>

definition kept :: "nat \<Rightarrow> 'v list \<Rightarrow> 'v mag_keep \<Rightarrow> bool" where
  "kept cap vs k \<longleftrightarrow> mk_cap k = cap \<and> length (mk_s k) = cap \<and> mk_seen k = length vs \<and> (\<exists>e. mk_stride k = 2 ^ e) \<and>
     mk_n k = multiples (mk_stride k) (length vs) \<and> mk_n k \<le> cap \<and> (mk_stride k = 1 \<or> cap < 2 * mk_n k) \<and>
     (\<forall>j < mk_n k. mk_s k ! j = vs ! (j * mk_stride k))"

lemma multiples_bound: "0 < d \<Longrightarrow> j < multiples d n \<Longrightarrow> j * d < n"
proof (induction n arbitrary: j)
  case 0
  then show ?case by (simp add: multiples_def)
next
  case (Suc n)
  show ?case
  proof (cases "j < multiples d n")
    case False
    then have "n mod d = 0" "j = multiples d n" using Suc.prems by (auto simp: multiples_Suc split: if_splits)
    then have "j * d = n" using multiples_dvd [OF Suc.prems(1)] by auto
    then show ?thesis by simp
  qed (use Suc.IH Suc.prems in force)
qed

lemma kept_step:
  assumes "kept cap vs k" "even cap" "2 \<le> cap"
  shows "kept cap (vs @ [v]) (snd (cal_mag_keep v k))"
proof -
  define d n i where "d = mk_stride k" and "n = mk_n k" and "i = length vs"
  have k: "mk_cap k = cap" "length (mk_s k) = cap" "mk_seen k = i" "n = multiples d i" "n \<le> cap" "d = 1 \<or> cap < 2 * n"
    and e: "\<exists>e. d = 2 ^ e" and s: "\<And>j. j < n \<Longrightarrow> mk_s k ! j = vs ! (j * d)"
    using assms(1) by (auto simp: kept_def d_def n_def i_def)
  have d: "0 < d" using e by auto
  have kn: "mk_n k = n" "mk_stride k = d" by (simp_all add: n_def d_def)
  have old: "(vs @ [v]) ! (j * d) = vs ! (j * d)" if "j < n" for j
    using multiples_bound [OF d, of j i] that k(4) by (simp add: nth_append i_def)
  consider (skip) "i mod d \<noteq> 0" | (put) "i mod d = 0" "n < cap" | (thin) "i mod d = 0" "n = cap" using k(5) by linarith
  then show ?thesis
  proof cases
    case skip
    then have "cal_mag_keep v k = (False, k\<lparr>mk_seen := i + 1\<rparr>)" by (simp add: cal_mag_keep_def k d_def)
    then show ?thesis using k e s old skip multiples_Suc [OF d, of i] by (auto simp: kept_def d_def n_def i_def)
  next
    case put
    then have n: "n * d = i" using k(4) multiples_dvd [OF d] by auto
    have "cal_mag_keep v k = (True, k\<lparr>mk_seen := i + 1, mk_s := (mk_s k)[n := v], mk_n := n + 1\<rparr>)"
      using put by (simp add: cal_mag_keep_def keep_put_def k(1,3) kn Let_def)
    then show ?thesis using k e s old put(1) put(2) n multiples_Suc [OF d, of i]
      by (auto simp: kept_def d_def n_def i_def nth_list_update less_Suc_eq)
  next
    case thin
    define h where "h = cap div 2"
    have h: "cap = 2 * h" "0 < h" using assms(2,3) by (auto simp: h_def)
    have "i div d = 2 * h" using thin k(4) multiples_dvd [OF d] h(1) by simp
    moreover have "i div d * d = i" using thin(1) by auto
    ultimately have i: "i = h * (d * 2)" by (metis mult.assoc mult.commute)
    then have m: "i mod (d * 2) = 0" "multiples (d * 2) (Suc i) = Suc h"
      using d multiples_Suc [of "d * 2" i] multiples_dvd [of "d * 2" i] by simp_all
    let ?s = "keep_thin cap (mk_s k)"
    have t: "length ?s = cap" "\<And>j. j < h \<Longrightarrow> ?s ! j = mk_s k ! (2 * j)"
      using keep_thin_nth [of h "mk_s k"] k(2) h by (simp_all add: keep_thin_def h_def [symmetric])
    have "cal_mag_keep v k = (True, k\<lparr>mk_seen := i + 1, mk_s := ?s[h := v], mk_n := h + 1, mk_stride := d * 2\<rparr>)"
      using thin m(1) by (simp add: cal_mag_keep_def keep_put_def k(1,3) kn h_def Let_def)
    moreover have "?s[h := v] ! j = (vs @ [v]) ! (j * (d * 2))" if "j < Suc h" for j
    proof (cases "j = h")
      case True
      have "(vs @ [v]) ! (h * (d * 2)) = v" using i by (metis i_def nth_append_length)
      then show ?thesis using True t(1) h by simp
    next
      case False
      then have j: "j < h" "2 * j < n" using that thin(2) h(1) by simp_all
      have e: "j * (d * 2) = 2 * j * d" by simp
      show ?thesis unfolding e using t(2) [OF j(1)] s [OF j(2)] old [OF j(2)] False by simp
    qed
    moreover have "\<exists>e. d * 2 = 2 ^ e" using e by (metis power_Suc2)
    ultimately show ?thesis using k t(1) m(2) h assms(3) by (simp add: kept_def i_def)
  qed
qed

text \<open>C35: However long a swing is, the samples kept of it are spread evenly over all of it: they are every \<open>2^e\<close>-th of those
  offered from the first on, none skipped and none beside, and from the first thinning on more than half of the buffer
  is in use.\<close>

theorem keep_spread:
  assumes "even (length buf)" "2 \<le> length buf"
  shows "let k = keep_all vs (cal_mag_keep_init buf)
    in \<exists>e. mk_stride k = 2 ^ e \<and> take (mk_n k) (mk_s k) = map (\<lambda>j. vs ! (j * 2 ^ e)) [0..<multiples (2 ^ e) (length vs)] \<and>
      mk_n k \<le> length buf \<and> (length vs \<le> length buf \<or> length buf < 2 * mk_n k)"
proof -
  have z: "kept (length buf) [] (cal_mag_keep_init buf)"
    by (auto simp: kept_def cal_mag_keep_init_def multiples_def intro: exI [of _ 0])
  have k: "kept (length buf) vs (keep_all vs (cal_mag_keep_init buf))"
    by (induction vs rule: rev_induct) (use z kept_step [OF _ assms] in \<open>auto simp: keep_all_def\<close>)
  define k where "k = keep_all vs (cal_mag_keep_init buf)"
  obtain e where e: "mk_stride k = 2 ^ e" "mk_n k = multiples (2 ^ e) (length vs)" "mk_n k \<le> length buf" "length (mk_s k) = length buf"
    "2 ^ e = (1 :: nat) \<or> length buf < 2 * mk_n k" "\<forall>j < mk_n k. mk_s k ! j = vs ! (j * 2 ^ e)"
    using k unfolding kept_def k_def by (metis mult.commute)
  have "take (mk_n k) (mk_s k) = map (\<lambda>j. vs ! (j * 2 ^ e)) [0..<mk_n k]" using e(3,4,6) by (auto simp: list_eq_iff_nth_eq)
  moreover have "length vs \<le> length buf \<or> length buf < 2 * mk_n k" using e(2,3,5) by (auto simp: multiples_def)
  ultimately show ?thesis using e unfolding k_def [symmetric] Let_def by auto
qed

theorem keep_spread_witness:
  "let vs = [0, 1, 2, 3, 4, 5, 6]; k = keep_all vs (cal_mag_keep_init [9, 9, 9, 9 :: nat])
   in \<exists>e. take (mk_n k) (mk_s k) = map (\<lambda>j. vs ! (j * 2 ^ e)) [0..<multiples (2 ^ e) (length vs)] \<and> 4 < 2 * mk_n k"
proof -
  have b: "even (length [9, 9, 9, 9 :: nat])" "2 \<le> length [9, 9, 9, 9 :: nat]" by simp_all
  have "\<not> length [0, 1, 2, 3, 4, 5, 6 :: nat] \<le> length [9, 9, 9, 9 :: nat]" "length [9, 9, 9, 9 :: nat] = 4" by simp_all
  then show ?thesis using keep_spread [OF b, of "[0, 1, 2, 3, 4, 5, 6]"] unfolding Let_def by metis
qed


section \<open>The six positions\<close>

definition gravity :: real where "gravity = 980665 / 100000"

lemma gravity_lit: "CAL_G_MS2 real_libm = gravity"
  by (simp add: CAL_G_MS2_def gravity_def of_rat_divide)

lemma dominant_axis_strict:
  fixes v :: "real vec"
  assumes "k < 3" "\<forall>i < 3. i \<noteq> k \<longrightarrow> \<bar>v i\<bar> < \<bar>v k\<bar>"
  shows "dominant_axis v = k"
proof -
  have "k = 0 \<or> k = 1 \<or> k = 2" using assms(1) by linarith
  then show ?thesis
  proof (elim disjE)
    assume "k = 0"
    then show ?thesis using assms(2) [THEN spec, of 1] assms(2) [THEN spec, of 2] by (simp add: dominant_axis_def)
  next
    assume "k = 1"
    then show ?thesis using assms(2) [THEN spec, of 0] assms(2) [THEN spec, of 2] by (simp add: dominant_axis_def)
  next
    assume "k = 2"
    then show ?thesis using assms(2) [THEN spec, of 0] assms(2) [THEN spec, of 1] by (simp add: dominant_axis_def)
  qed
qed

lemma accel_axis_model:
  assumes k: "k < 3" and s: "0 < s" "s \<le> 10 / 7" and o: "\<forall>i < 3. \<bar>b i\<bar> < 7 / 20 * gravity"
    and m: "\<forall>i < 3. meas k 0 i = (if i = k then gravity / s else 0) + b i \<and> meas k 1 i = b i - (if i = k then gravity / s else 0)"
  shows "accel_axis real_libm meas k = Inr (b k, s)"
proof -
  have g: "0 < gravity" by (simp add: gravity_def)
  have "7 / 10 * gravity \<le> gravity / s" using s g by (simp add: field_simps)
  moreover have up: "meas k 0 k = gravity / s + b k" "meas k 1 k = b k - gravity / s" using m [rule_format, OF k] by simp_all
  ultimately have big: "7 / 20 * gravity < \<bar>meas k 0 k\<bar>" "7 / 20 * gravity < \<bar>meas k 1 k\<bar>"
    using up o [rule_format, OF k] by linarith+
  have "dominant_axis (meas k 0) = k" "dominant_axis (meas k 1) = k"
    by (rule dominant_axis_strict [OF k], use big m o in fastforce)+
  moreover have e: "(meas k 0 k + meas k 1 k) / 2 = b k" "(meas k 0 k - meas k 1 k) / 2 = gravity / s"
    using m [rule_format, OF k] by simp_all
  moreover have "\<not> gravity / s < 7 / 10 * gravity" "\<not> gravity / s < 0"
    using \<open>7 / 10 * gravity \<le> gravity / s\<close> g by linarith+
  moreover have "gravity / (gravity / s) = s" using g s(1) by simp
  ultimately show ?thesis
    unfolding accel_axis_def Let_def ACCEL_MIN_HALF_RANGE_def gravity_lit by (simp add: of_rat_divide)
qed

text \<open>C34: The calibration of an accelerometer comes back from its six positions: when the readings are those of a sensor with
  offsets below a third of gravity and scales up to ten sevenths, the fit accepts them and returns its offsets and
  scales, and a reading corrected with them is gravity on the axis that points up, and nothing on the others.\<close>

theorem accel_fit_recovers:
  assumes "\<forall>k < 3. 0 < s k \<and> s k \<le> 10 / 7 \<and> \<bar>b k\<bar> < 7 / 20 * gravity"
    and "\<forall>k < 3. \<forall>i < 3. meas k 0 i = (if i = k then gravity / s k else 0) + b i \<and> meas k 1 i = b i - (if i = k then gravity / s k else 0)"
  shows "\<exists>off sc. cal_accel_fit real_libm meas = Inr (off, sc) \<and> (\<forall>k < 3. off k = b k \<and> sc k = s k) \<and>
    (\<forall>cal smp k. k < 3 \<and> ca_has_accel cal \<and> ca_accel_offset cal = off \<and> ca_accel_scale cal = sc \<and> im_accel smp = meas k 0 \<longrightarrow>
      (\<forall>i < 3. im_accel (apply_imu_cal cal smp) i = (if i = k then gravity else 0)))"
proof -
  have a: "accel_axis real_libm meas k = Inr (b k, s k)" if "k < 3" for k
    by (rule accel_axis_model [OF that]) (use assms that in auto)
  define off sc :: "real vec" where "off = (\<lambda>_. 0)(0 := b 0, 1 := b 1, 2 := b 2)" and "sc = (\<lambda>_. 0)(0 := s 0, 1 := s 1, 2 := s 2)"
  have fit: "cal_accel_fit real_libm meas = Inr (off, sc)"
    using a [of 0] a [of 1] a [of 2] by (simp add: cal_accel_fit_def off_def sc_def)
  have v: "off k = b k" "sc k = s k" if "k < 3" for k
  proof -
    have "k = 0 \<or> k = 1 \<or> k = 2" using that by linarith
    then show "off k = b k" "sc k = s k" by (auto simp: off_def sc_def)
  qed
  have r: "im_accel (apply_imu_cal cal smp) i = (if i = k then gravity else 0)"
    if "k < 3" "i < 3" "ca_has_accel cal" "ca_accel_offset cal = off" "ca_accel_scale cal = sc" "im_accel smp = meas k 0" for cal smp k i
  proof -
    have "s i \<noteq> 0" using assms(1) that(2) by force
    moreover have "im_accel (apply_imu_cal cal smp) i = (meas k 0 i - b i) * s i"
      using that v [OF that(2)] by (simp add: apply_imu_cal_def Let_def)
    ultimately show ?thesis using assms(2) that(1,2) by auto
  qed
  show ?thesis using fit v r by blast
qed

definition six_faces :: "nat \<Rightarrow> nat \<Rightarrow> real vec" where
  "six_faces k j = (\<lambda>i. if i \<noteq> k then 1 else if j = 0 then gravity / (5 / 4) + 1 else 1 - gravity / (5 / 4))"

theorem accel_fit_recovers_witness:
  "\<exists>off sc. cal_accel_fit real_libm six_faces = Inr (off, sc) \<and> off 2 = 1 \<and> sc 2 = 5 / 4"
proof -
  have "\<forall>k < (3 :: nat). 0 < (5 / 4 :: real) \<and> (5 / 4 :: real) \<le> 10 / 7 \<and> \<bar>1\<bar> < 7 / 20 * gravity"
    by (simp add: gravity_def)
  moreover have "\<forall>k < 3. \<forall>i < 3. six_faces k 0 i = (if i = k then gravity / (5 / 4) else 0) + 1 \<and> six_faces k 1 i = 1 - (if i = k then gravity / (5 / 4) else 0)"
    by (simp add: six_faces_def)
  ultimately show ?thesis using accel_fit_recovers [of "\<lambda>_. 5 / 4" "\<lambda>_. 1" six_faces] by force
qed

section \<open>The line through bias and temperature\<close>

definition sq_error :: "(real \<times> real) list \<Rightarrow> real \<Rightarrow> real \<Rightarrow> real \<Rightarrow> real" where
  "sq_error tg ref b a = (\<Sum>i<length tg. (snd (tg ! i) - (a + b * (fst (tg ! i) - ref)))\<^sup>2)"

lemma fold_pairs:
  "fold (\<lambda>(c, g) s. s + f c g) tg s0 = s0 + (\<Sum>i<length tg. f (fst (tg ! i)) (snd (tg ! i)))" for s0 :: real
  by (induction tg rule: rev_induct) (auto simp: nth_append)

lemma spread_sums:
  fixes T :: "nat \<Rightarrow> real"
  assumes "0 < n"
  shows "real n * (\<Sum>i<n. T i * T i) - (\<Sum>i<n. T i) * (\<Sum>i<n. T i) = real n * (\<Sum>i<n. (T i - (\<Sum>i<n. T i) / real n)\<^sup>2)"
proof -
  define m where "m = (\<Sum>i<n. T i) / real n"
  have s: "(\<Sum>i<n. T i) = real n * m" using assms by (simp add: m_def)
  have "(\<Sum>i<n. (T i - m)\<^sup>2) = (\<Sum>i<n. T i * T i) - 2 * m * (\<Sum>i<n. T i) + real n * (m * m)"
    by (simp add: power2_eq_square algebra_simps sum.distrib sum_subtractf sum_distrib_left)
  then have q: "(\<Sum>i<n. T i * T i) = (\<Sum>i<n. (T i - m)\<^sup>2) + real n * (m * m)" unfolding s by (simp add: algebra_simps)
  show ?thesis unfolding m_def [symmetric] s q by (simp add: algebra_simps)
qed

lemma range_fold:
  fixes tg :: "(real \<times> real) list"
  assumes "\<forall>x \<in> set tg. fst x = t"
  shows "fold (\<lambda>(c, g) m. if c > m then c else m) tg t = t" "fold (\<lambda>(c, g) m. if c < m then c else m) tg t = t"
  using assms by (induction tg) (auto split: prod.splits)

text \<open>The fit of the gyroscope's bias over temperature is the least-squares line: no other line has a smaller sum of squared
  errors, and in exact arithmetic it is refused only for fewer than two samples or a span of less than one degree: the
  determinant of a fit that gets so far is positive.\<close>

theorem gyro_temp_least_squares:
  "case gyro_temp_fit real_libm tg ref of
     Some (b, a) \<Rightarrow> sq_error tg ref b a \<le> sq_error tg ref b' a'
   | None \<Rightarrow> length tg < 2 \<or> fold (\<lambda>(c, g) m. if c > m then c else m) tg (fst (hd tg)) -
       fold (\<lambda>(c, g) m. if c < m then c else m) tg (fst (hd tg)) < 1"
proof -
  define n T G where "n = length tg" and "T = (\<lambda>i. fst (tg ! i) - ref)" and "G = (\<lambda>i. snd (tg ! i))"
  define sx sy sxx sxy where "sx = (\<Sum>i<n. T i)" and "sy = (\<Sum>i<n. G i)" and "sxx = (\<Sum>i<n. T i * T i)" and "sxy = (\<Sum>i<n. T i * G i)"
  define det b a where "det = real n * sxx - sx * sx" and "b = (real n * sxy - sx * sy) / det" and "a = (sy - b * sx) / real n"
  let ?span = "fold (\<lambda>(c, g) m. if c > m then c else m) tg (fst (hd tg)) - fold (\<lambda>(c, g) m. if c < m then c else m) tg (fst (hd tg))"
  have TG: "fst (tg ! i) - ref = T i" "snd (tg ! i) = G i" for i by (simp_all add: T_def G_def)
  have fit: "gyro_temp_fit real_libm tg ref = (if n < 2 then None else if ?span < 1 then None else if det \<le> 0 then None else Some (b, a))"
    unfolding gyro_temp_fit_def Let_def fold_pairs real_libm_simps n_def [symmetric] of_rat_of_nat_eq of_rat_1 add_0
    unfolding TG sx_def [symmetric] sy_def [symmetric] sxx_def [symmetric] sxy_def [symmetric]
      det_def [symmetric] b_def [symmetric] a_def [symmetric] ..
  have pos: "0 < det" if "2 \<le> n" "\<not> ?span < 1"
  proof (rule ccontr)
    assume "\<not> 0 < det"
    have n: "0 < n" using that(1) by simp
    define m where "m = sx / real n"
    have "det = real n * (\<Sum>i<n. (T i - m)\<^sup>2)" unfolding det_def sxx_def m_def sx_def by (rule spread_sums [OF n])
    then have "(\<Sum>i<n. (T i - m)\<^sup>2) \<le> 0" using \<open>\<not> 0 < det\<close> n by (simp add: not_less mult_le_0_iff)
    then have z: "\<forall>i < n. T i = m" using sum_nonneg_eq_0_iff [of "{..<n}" "\<lambda>i. (T i - m)\<^sup>2"] sum_nonneg [of "{..<n}" "\<lambda>i. (T i - m)\<^sup>2"]
      by (auto simp: order_antisym)
    have t: "\<forall>x \<in> set tg. fst x = m + ref" using z by (fastforce simp: in_set_conv_nth T_def n_def algebra_simps)
    moreover have "fst (hd tg) = m + ref" using t n by (cases tg) (auto simp: n_def)
    ultimately show False using that(2) range_fold [of tg "m + ref"] by simp
  qed
  show ?thesis
  proof (cases "n < 2 \<or> ?span < 1")
    case True
    then show ?thesis unfolding fit by (auto simp: n_def)
  next
    case False
    then have d: "0 < det" and n: "0 < n" using pos by auto
    have na: "real n * a = sy - b * sx" using n by (simp add: a_def)
    have "det * b = real n * sxy - sx * sy" using d by (simp add: b_def)
    have "real n * (sxy - a * sx - b * sxx) = real n * sxy - real n * a * sx - b * (real n * sxx)" by (simp add: algebra_simps)
    also have "\<dots> = real n * sxy - sx * sy - det * b" unfolding na det_def by (simp add: algebra_simps)
    also have "\<dots> = 0" using \<open>det * b = real n * sxy - sx * sy\<close> by simp
    finally have "real n * (sxy - a * sx - b * sxx) = 0" .
    then have e1: "sxy - a * sx - b * sxx = 0" using n by simp
    have e0: "sy - real n * a - b * sx = 0" using na by simp
    define r where "r = (\<lambda>i. G i - (a + b * T i))"
    have r0: "(\<Sum>i<n. r i) = 0" using e0 by (simp add: r_def sy_def sx_def sum_subtractf sum.distrib sum_distrib_left)
    have r1: "(\<Sum>i<n. r i * T i) = 0"
      using e1 by (simp add: r_def sxy_def sx_def sxx_def algebra_simps sum_subtractf sum.distrib sum_distrib_left)
    have "(\<Sum>i<n. (G i - (a' + b' * T i))\<^sup>2) = (\<Sum>i<n. (r i)\<^sup>2 + 2 * (a - a') * r i + 2 * (b - b') * (r i * T i) + ((a - a') + (b - b') * T i)\<^sup>2)"
      by (rule sum.cong) (simp_all add: r_def power2_eq_square algebra_simps)
    also have "\<dots> = (\<Sum>i<n. (r i)\<^sup>2) + 2 * (a - a') * (\<Sum>i<n. r i) + 2 * (b - b') * (\<Sum>i<n. r i * T i) + (\<Sum>i<n. ((a - a') + (b - b') * T i)\<^sup>2)"
      by (simp add: sum.distrib sum_distrib_left)
    finally have "(\<Sum>i<n. (r i)\<^sup>2) \<le> (\<Sum>i<n. (G i - (a' + b' * T i))\<^sup>2)" unfolding r0 r1 by (simp add: sum_nonneg)
    then show ?thesis using False d unfolding fit sq_error_def n_def [symmetric] TG r_def by simp
  qed
qed

end
