(* ===== verification/CalSwing.thy ===== *)
theory CalSwing
  imports CalProps
begin

text \<open>
  The fit of a magnetometer's swing in exact arithmetic: the rotation it works in, what its result does to a reading, and
  that it finds the hard iron of a level swing.
\<close>

section \<open>Rotations\<close>

definition orthonormal :: "real mat \<Rightarrow> bool" where
  "orthonormal R \<longleftrightarrow> (\<forall>i < 3. \<forall>j < 3. R 0 i * R 0 j + R 1 i * R 1 j + R 2 i * R 2 j = (if i = j then 1 else 0)) \<and>
     (\<forall>i < 3. \<forall>j < 3. R i 0 * R j 0 + R i 1 * R j 1 + R i 2 * R j 2 = (if i = j then 1 else 0))"

definition unit3 :: "real vec \<Rightarrow> bool" where
  "unit3 n \<longleftrightarrow> (n 0)\<^sup>2 + (n 1)\<^sup>2 + (n 2)\<^sup>2 = 1"

lemma less3: "i < 3 \<longleftrightarrow> i = 0 \<or> i = 1 \<or> i = (2 :: nat)"
  by linarith

lemma all3: "(\<forall>i < 3. P i) \<longleftrightarrow> P 0 \<and> P 1 \<and> P (2 :: nat)"
  by (auto simp: less3)

lemma units:
  "(if (0 :: nat) = 0 then 1 else 0) = (1 :: real)" "(if (1 :: nat) = 1 then 1 else 0) = (1 :: real)" "(if (2 :: nat) = 2 then 1 else 0) = (1 :: real)"
  "(if (0 :: nat) = 1 then 1 else 0) = (0 :: real)" "(if (0 :: nat) = 2 then 1 else 0) = (0 :: real)" "(if (1 :: nat) = 0 then 1 else 0) = (0 :: real)"
  "(if (1 :: nat) = 2 then 1 else 0) = (0 :: real)" "(if (2 :: nat) = 0 then 1 else 0) = (0 :: real)" "(if (2 :: nat) = 1 then 1 else 0) = (0 :: real)"
  by simp_all

lemma z_onto_orthonormal:
  assumes "unit3 n" "0 < n 2"
  shows "orthonormal (z_onto n)"
proof -
  define x y z f where "x = n 0" and "y = n 1" and "z = n 2" and "f = 1 / (1 + z)"
  have z: "0 < z" and u: "x * x + y * y + z * z = 1" using assms by (simp_all add: unit3_def x_def y_def z_def power2_eq_square)
  have f: "f * (1 + z) = 1" using z by (simp add: f_def)
  have q: "z_onto n 0 = vec3 (1 - x * x * f) (- (x * y * f)) x" "z_onto n 1 = vec3 (- (x * y * f)) (1 - y * y * f) y"
    "z_onto n 2 = vec3 (- x) (- y) z"
    by (simp_all add: z_onto_def x_def y_def z_def f_def Let_def)
  show ?thesis unfolding orthonormal_def all3 q vec3_simps units
    using f u by (intro conjI) algebra+
qed

lemma orthonormal_swing:
  assumes "orthonormal Q" "orthonormal M"
  shows "orthonormal (swing_axes Q M)"
proof -
  have q: "Q i 0 * Q j 0 + Q i 1 * Q j 1 + Q i 2 * Q j 2 = (if i = j then 1 else 0)"
    "Q 0 i * Q 0 j + Q 1 i * Q 1 j + Q 2 i * Q 2 j = (if i = j then 1 else 0)" if "i < 3" "j < 3" for i j
    using assms(1) that by (auto simp: orthonormal_def)
  have m: "M i 0 * M j 0 + M i 1 * M j 1 + M i 2 * M j 2 = (if i = j then 1 else 0)"
    "M 0 i * M 0 j + M 1 i * M 1 j + M 2 i * M 2 j = (if i = j then 1 else 0)" if "i < 3" "j < 3" for i j
    using assms(2) that by (auto simp: orthonormal_def)
  have three: "0 < (3 :: nat)" "1 < (3 :: nat)" "2 < (3 :: nat)" by simp_all
  let ?R = "swing_axes Q M"
  have cols: "?R 0 i * ?R 0 j + ?R 1 i * ?R 1 j + ?R 2 i * ?R 2 j = (if i = j then 1 else 0)" if "i < 3" "j < 3" for i j
  proof -
    have "?R 0 i * ?R 0 j + ?R 1 i * ?R 1 j + ?R 2 i * ?R 2 j =
        (Q 0 0 * Q 0 0 + Q 0 1 * Q 0 1 + Q 0 2 * Q 0 2) * (M 0 i * M 0 j) + (Q 1 0 * Q 1 0 + Q 1 1 * Q 1 1 + Q 1 2 * Q 1 2) * (M 1 i * M 1 j) +
        (Q 2 0 * Q 2 0 + Q 2 1 * Q 2 1 + Q 2 2 * Q 2 2) * (M 2 i * M 2 j) +
        (Q 0 0 * Q 1 0 + Q 0 1 * Q 1 1 + Q 0 2 * Q 1 2) * (M 0 i * M 1 j + M 1 i * M 0 j) +
        (Q 0 0 * Q 2 0 + Q 0 1 * Q 2 1 + Q 0 2 * Q 2 2) * (M 0 i * M 2 j + M 2 i * M 0 j) +
        (Q 1 0 * Q 2 0 + Q 1 1 * Q 2 1 + Q 1 2 * Q 2 2) * (M 1 i * M 2 j + M 2 i * M 1 j)"
      unfolding swing_axes_def by (simp only: ring_distribs) (simp only: ac_simps)
    then show ?thesis using m(2) [OF that] by (simp only: q(1) three) simp
  qed
  have rows: "?R i 0 * ?R j 0 + ?R i 1 * ?R j 1 + ?R i 2 * ?R j 2 = (if i = j then 1 else 0)" if "i < 3" "j < 3" for i j
  proof -
    have "?R i 0 * ?R j 0 + ?R i 1 * ?R j 1 + ?R i 2 * ?R j 2 =
        (M 0 0 * M 0 0 + M 0 1 * M 0 1 + M 0 2 * M 0 2) * (Q 0 i * Q 0 j) + (M 1 0 * M 1 0 + M 1 1 * M 1 1 + M 1 2 * M 1 2) * (Q 1 i * Q 1 j) +
        (M 2 0 * M 2 0 + M 2 1 * M 2 1 + M 2 2 * M 2 2) * (Q 2 i * Q 2 j) +
        (M 0 0 * M 1 0 + M 0 1 * M 1 1 + M 0 2 * M 1 2) * (Q 0 i * Q 1 j + Q 1 i * Q 0 j) +
        (M 0 0 * M 2 0 + M 0 1 * M 2 1 + M 0 2 * M 2 2) * (Q 0 i * Q 2 j + Q 2 i * Q 0 j) +
        (M 1 0 * M 2 0 + M 1 1 * M 2 1 + M 1 2 * M 2 2) * (Q 1 i * Q 2 j + Q 2 i * Q 1 j)"
      unfolding swing_axes_def by (simp only: ring_distribs) (simp only: ac_simps)
    then show ?thesis using q(2) [OF that] by (simp only: m(1) three) simp
  qed
  show ?thesis unfolding orthonormal_def using cols rows by blast
qed

lemma swing_down_unit:
  assumes "swing_down real_wider M accel b = (av, down)"
  shows "unit3 down" "0 < down 2"
proof -
  have "unit3 down \<and> 0 < down 2"
  proof (cases "accel_down real_wider M accel")
    case None
    obtain m0 p q where pl: "plane_fit real_libm b = (m0, p, q)" by (metis prod_cases3)
    define d where "d = 1 / sqrt (1 + p * p + q * q)"
    have s: "0 < 1 + p * p + q * q" by (simp add: add_pos_nonneg)
    have down: "down = vec3 (- p * d) (- q * d) d" using assms None pl by (simp add: swing_down_def Let_def d_def)
    have "d * d * (1 + p * p + q * q) = 1" using s by (simp add: d_def)
    moreover have "(- p * d)\<^sup>2 + (- q * d)\<^sup>2 + d\<^sup>2 = d * d * (1 + p * p + q * q)" by (simp add: power2_eq_square algebra_simps)
    moreover have "0 < d" using s by (simp add: d_def)
    ultimately show ?thesis by (simp add: unit3_def down)
  next
    case (Some d)
    then obtain a where a: "accel = Some a" by (auto simp: accel_down_def split: option.splits)
    define g norm where "g = rot3 M a" and "norm = sqrt (g 0 * g 0 + g 1 * g 1 + g 2 * g 2)"
    have d: "d = (\<lambda>k. - g k / norm)" "1 / 2 < d 2" and n: "norm > 0"
      using Some unfolding a accel_down_def Let_def option.case real_wider_simps real_libm_simps g_def [symmetric] norm_def [symmetric] gravity_lit
      by (auto simp: gravity_def of_rat_divide split: if_splits)
    have "norm * norm = g 0 * g 0 + g 1 * g 1 + g 2 * g 2" unfolding norm_def by simp
    then have nn: "g 0 * g 0 + g 1 * g 1 + g 2 * g 2 = norm * norm" by simp
    have "(d 0)\<^sup>2 + (d 1)\<^sup>2 + (d 2)\<^sup>2 = (g 0 * g 0 + g 1 * g 1 + g 2 * g 2) / (norm * norm)"
      unfolding d(1) by (simp add: power2_eq_square add_divide_distrib)
    also have "\<dots> = norm * norm / (norm * norm)" unfolding nn ..
    finally have "(d 0)\<^sup>2 + (d 1)\<^sup>2 + (d 2)\<^sup>2 = norm * norm / (norm * norm)" .
    then have "unit3 d" using n by (simp add: unit3_def)
    moreover have "down = d" using assms Some by (simp add: swing_down_def)
    ultimately show ?thesis using d(2) by auto
  qed
  then show "unit3 down" "0 < down 2" by simp_all
qed

section \<open>What the result does to a reading\<close>

lemma rot3_back:
  assumes "orthonormal R" "i < 3"
  shows "rot3 R (\<lambda>i. R 0 i * w 0 + R 1 i * w 1 + R 2 i * w 2) i = w i"
proof -
  have r: "R i 0 * R j 0 + R i 1 * R j 1 + R i 2 * R j 2 = (if i = j then 1 else 0)" if "j < 3" for j
    using assms that by (simp add: orthonormal_def)
  have three: "0 < (3 :: nat)" "1 < (3 :: nat)" "2 < (3 :: nat)" by simp_all
  have "rot3 R (\<lambda>i. R 0 i * w 0 + R 1 i * w 1 + R 2 i * w 2) i =
      (R i 0 * R 0 0 + R i 1 * R 0 1 + R i 2 * R 0 2) * w 0 + (R i 0 * R 1 0 + R i 1 * R 1 1 + R i 2 * R 1 2) * w 1 +
      (R i 0 * R 2 0 + R i 1 * R 2 1 + R i 2 * R 2 2) * w 2"
    by (simp add: rot3_def algebra_simps)
  also have "\<dots> = (if i = 0 then 1 else 0) * w 0 + (if i = 1 then 1 else 0) * w 1 + (if i = 2 then 1 else 0) * w 2"
    by (simp only: r [of 0, OF three(1)] r [of 1, OF three(2)] r [of 2, OF three(3)])
  also have "\<dots> = w i" using assms(2) unfolding less3 by auto
  finally show ?thesis .
qed

lemma to_board_rot:
  "rot3 (to_board R S) u = (\<lambda>i. R 0 i * rot3 S (rot3 R u) 0 + R 1 i * rot3 S (rot3 R u) 1 + R 2 i * rot3 S (rot3 R u) 2)"
  for R S :: "real mat"
proof
  fix i
  have u: "[0..<3] = [0, 1, 2 :: nat]" by (simp add: upt_rec numeral_2_eq_2)
  show "rot3 (to_board R S) u i = R 0 i * rot3 S (rot3 R u) 0 + R 1 i * rot3 S (rot3 R u) 1 + R 2 i * rot3 S (rot3 R u) 2"
    unfolding rot3_def to_board_def u fold_simps comp_def id_def by (simp only: ring_distribs add_0 ac_simps)
qed

lemma mag_result_cases:
  assumes "mag_result D hy R av tilt plane b (level, c, radius) = Some fit"
  obtains S2 si where "mg_hard_iron fit = (\<lambda>i. R 0 i * c 0 + R 1 i * c 1 + R 2 i * c 2)"
    "mg_soft_iron fit = to_board R (soft_block S2 si)"
proof -
  have "\<exists>S2 si. mg_hard_iron fit = (\<lambda>i. R 0 i * c 0 + R 1 i * c 1 + R 2 i * c 2) \<and> mg_soft_iron fit = to_board R (soft_block S2 si)"
    using assms unfolding mag_result_def Let_def by (auto split: prod.splits option.splits) blast+
  then show ?thesis using that by blast
qed

section \<open>A level swing\<close>

lemma sum_over_list: "sum_over b f = (\<Sum>v\<leftarrow>b. f v)" for f :: "real vec \<Rightarrow> real"
  by (induction b rule: rev_induct) (simp_all add: sum_over_def)

lemma circle_normal:
  assumes "\<forall>v \<in> set xy. (v 0 - a)\<^sup>2 + (v 1 - b)\<^sup>2 = h\<^sup>2"
  defines "y \<equiv> vec4 a b (h\<^sup>2 - a\<^sup>2 - b\<^sup>2) 0"
  shows "\<forall>i < 4. (\<Sum>j<4. circle_A real_libm xy i j * y j) = circle_rhs real_libm xy i"
proof -
  define S where "S = (\<lambda>f. \<Sum>v\<leftarrow>xy. f (v 0) (v 1) :: real)"
  define k where "k = h\<^sup>2 - a\<^sup>2 - b\<^sup>2"
  have on: "v 0 * v 0 + v 1 * v 1 = 2 * a * v 0 + 2 * b * v 1 + k" if "v \<in> set xy" for v
    using assms(1) that by (simp add: k_def power2_eq_square algebra_simps)
  have mult: "S (\<lambda>x y. g x y * (x * x + y * y)) = 2 * a * S (\<lambda>x y. x * g x y) + 2 * b * S (\<lambda>x y. y * g x y) + k * S g" for g
  proof -
    have "S (\<lambda>x y. g x y * (x * x + y * y)) = (\<Sum>v\<leftarrow>xy. 2 * a * (v 0 * g (v 0) (v 1)) + 2 * b * (v 1 * g (v 0) (v 1)) + k * g (v 0) (v 1))"
      unfolding S_def by (rule arg_cong [where f = sum_list], rule map_cong [OF refl], simp only: on) (simp add: algebra_simps)
    then show ?thesis by (simp add: S_def sum_list_addf sum_list_const_mult)
  qed
  have n: "S (\<lambda>x y. 1) = real (length xy)" by (simp add: S_def sum_list_triv)
  have all4: "(\<forall>i < 4. P i) \<longleftrightarrow> P 0 \<and> P 1 \<and> P 2 \<and> P (3 :: nat)" for P by (auto simp: less_Suc_eq numeral_eq_Suc)
  have A: "circle_A real_libm xy 0 = vec4 (4 * S (\<lambda>x y. x * x)) (4 * S (\<lambda>x y. x * y)) (2 * S (\<lambda>x y. x)) 0"
    "circle_A real_libm xy 1 = vec4 (4 * S (\<lambda>x y. x * y)) (4 * S (\<lambda>x y. y * y)) (2 * S (\<lambda>x y. y)) 0"
    "circle_A real_libm xy 2 = vec4 (2 * S (\<lambda>x y. x)) (2 * S (\<lambda>x y. y)) (real (length xy)) 0"
    "circle_A real_libm xy 3 = vec4 0 0 0 1"
    by (simp_all add: circle_A_def S_def sum_over_list Let_def)
  have r: "circle_rhs real_libm xy = vec4 (2 * S (\<lambda>x y. x * (x * x + y * y))) (2 * S (\<lambda>x y. y * (x * x + y * y))) (S (\<lambda>x y. x * x + y * y)) 0"
    by (simp add: circle_rhs_def S_def sum_over_list Let_def)
  have c: "S (\<lambda>x y. y * x) = S (\<lambda>x y. x * y)" by (simp add: S_def mult.commute)
  show ?thesis unfolding all4 sum4 A r vec4_simps y_def k_def [symmetric]
    using mult [of "\<lambda>x y. x"] mult [of "\<lambda>x y. y"] mult [of "\<lambda>x y. 1"] n c by (simp add: algebra_simps)
qed

lemma circle_fit_exact:
  assumes "\<forall>v \<in> set b. (v 0 - x)\<^sup>2 + (v 1 - y)\<^sup>2 = h\<^sup>2" "0 < h" "5 \<le> length b" "about_means real_libm b = (mx, my, xy)"
    and "gauss4 real_libm (circle_A real_libm xy) (circle_rhs real_libm xy) \<noteq> None"
  shows "circle_fit real_libm b = Some (\<lambda>i. if i = 0 then x else y, h)"
proof -
  obtain p where p: "gauss4 real_libm (circle_A real_libm xy) (circle_rhs real_libm xy) = Some p" using assms(5) by auto
  have xy: "xy = map (\<lambda>v i. if i = 0 then v 0 - mx else v 1 - my) b" using assms(4) by (auto simp: about_means_def Let_def)
  have "\<forall>v \<in> set xy. (v 0 - (x - mx))\<^sup>2 + (v 1 - (y - my))\<^sup>2 = h\<^sup>2" using assms(1) by (auto simp: xy)
  from circle_normal [OF this] have "\<forall>i < 4. vec4 (x - mx) (y - my) (h\<^sup>2 - (x - mx)\<^sup>2 - (y - my)\<^sup>2) 0 i = p i"
    using gauss4_solution [OF p] by blast
  from this [THEN spec, of 0] this [THEN spec, of 1] this [THEN spec, of 2]
  have v: "p 0 = x - mx" "p 1 = y - my" "p 2 = h\<^sup>2 - (x - mx)\<^sup>2 - (y - my)\<^sup>2" unfolding vec4_simps by simp_all
  have r2: "p 2 + p 0 * p 0 + p 1 * p 1 = h\<^sup>2" unfolding v by (simp add: power2_eq_square)
  show ?thesis unfolding circle_fit_def assms(4) prod.case p option.case Let_def r2 unfolding v diff_add_cancel using assms(2,3) by simp
qed

lemma plane_fit_level:
  assumes "\<forall>v \<in> set b. v 2 = V" "0 < length b"
  obtains m0 where "plane_fit real_libm b = (m0, 0, 0)" "m0 2 = V"
proof -
  define m where "m = (\<lambda>k. sum_over b (\<lambda>v. v k) / real (length b))"
  have "(\<Sum>v\<leftarrow>b. v 2) = real (length b) * V" using assms(1) by (induction b) (simp_all add: algebra_simps)
  then have m2: "m 2 = V" using assms(2) by (simp add: m_def sum_over_list)
  have "sum_over b (\<lambda>v. (v i - m i) * (v 2 - m 2)) = 0" for i
    unfolding sum_over_list using assms(1) by (induction b) (simp_all add: m2)
  moreover have mk: "sum_over b (\<lambda>v. v k) / real (length b) = m k" for k by (simp add: m_def)
  ultimately have "plane_fit real_libm b = (m, 0, 0)"
    unfolding plane_fit_def Let_def real_libm_simps of_rat_of_nat_eq mk by simp
  then show ?thesis using that m2 by blast
qed

lemma residuals_level:
  assumes "\<forall>v \<in> set b. v 2 = V" "m0 2 = V"
  shows "fold (\<lambda>r vv. vv + r * r) (residuals m0 0 0 b) 0 = (0 :: real)"
proof -
  have "residuals m0 0 0 b = replicate (length b) 0" using assms by (induction b) (simp_all add: residuals_def)
  moreover have "fold (\<lambda>r vv. vv + r * r) (replicate n 0) 0 = (0 :: real)" for n by (induction n) simp_all
  ultimately show ?thesis by simp
qed

lemma mag_residual_level:
  assumes "\<forall>d \<in> set ds. (d 0)\<^sup>2 + (d 1)\<^sup>2 = h\<^sup>2" "0 < h"
  shows "mag_residual real_libm True ds h = 0"
proof -
  have "sqrt (d 0 * d 0 + d 1 * d 1) = h" if "d \<in> set ds" for d
    using assms that by (simp add: power2_eq_square [symmetric])
  then have "map (\<lambda>d. (sqrt (d 0 * d 0 + d 1 * d 1) - h) * (sqrt (d 0 * d 0 + d 1 * d 1) - h)) ds = map (\<lambda>_. 0) ds" by simp
  then show ?thesis unfolding mag_residual_def Let_def sum_over_list real_libm_simps if_True by (simp only:) simp
qed

lemma extent_count: "ea_n (fold extent_add ds a) = ea_n a + length ds"
  by (induction ds arbitrary: a) (simp_all add: extent_add_def)

lemma level_swing:
  assumes "orthonormal M" "5 \<le> length samps" "0 < h"
    and "swing_down real_wider M accel (map (rot3 M) samps) = (av, down)"
    and "\<forall>s \<in> set samps. rot3 (swing_axes (z_onto down) M) s 2 = V \<and>
      (rot3 (swing_axes (z_onto down) M) s 0 - x)\<^sup>2 + (rot3 (swing_axes (z_onto down) M) s 1 - y)\<^sup>2 = h\<^sup>2"
    and "about_means real_libm (map (rot3 (swing_axes (z_onto down) M)) samps) = (mx, my, xy)"
    and "gauss4 real_libm (circle_A real_libm xy) (circle_rhs real_libm xy) \<noteq> None"
  shows "\<exists>fit. cal_mag_fit real_wider acos hypot samps (Some M) accel = Some fit \<and> mg_level fit \<and> mg_radius fit = h \<and>
    mg_vertical fit = V \<and> mg_rms fit = 0 \<and>
    (\<forall>i < 3. rot3 (swing_axes (z_onto down) M) (mg_hard_iron fit) i = vec3 x y 0 i)"
proof -
  define R where "R = swing_axes (z_onto down) M"
  define b where "b = map (rot3 R) samps"
  have R: "orthonormal R" unfolding R_def by (rule orthonormal_swing [OF z_onto_orthonormal [OF swing_down_unit [OF assms(4)]] assms(1)])
  have bs: "\<forall>v \<in> set b. v 2 = V" "\<forall>v \<in> set b. (v 0 - x)\<^sup>2 + (v 1 - y)\<^sup>2 = h\<^sup>2" "length b = length samps"
    using assms(5) by (auto simp: b_def R_def)
  obtain m0 where pl: "plane_fit real_libm b = (m0, 0, 0)" "m0 2 = V" by (rule plane_fit_level [OF bs(1)]) (use assms(2) bs(3) in auto)
  have sd: "sqrt (fold (\<lambda>r vv. vv + r * r) (residuals m0 0 0 b) 0 / n) = 0" for n
    using residuals_level [of b V m0] bs(1) pl(2) by simp
  have cf: "circle_fit real_libm b = Some (\<lambda>i. if i = 0 then x else y, h)"
    by (rule circle_fit_exact [OF bs(2) assms(3) _ _ assms(7)]) (use assms(2,6) bs(3) in \<open>simp_all add: b_def R_def\<close>)
  have mc: "mag_centre real_wider b 0 noise = Some (True, vec3 x y 0, h)" for noise
    unfolding mag_centre_def Let_def real_wider_simps cf using assms(3) by (simp add: CAL_LEVEL_MAX_SD_def of_rat_divide)
  define ds where "ds = map (\<lambda>v. vec3 (v 0 - x) (v 1 - y) (v 2 - V)) (map (\<lambda>v. v(2 := v 2 - (0 * (v 0 - m0 0) + 0 * (v 1 - m0 1)))) b)"
  have "\<forall>d \<in> set ds. (d 0)\<^sup>2 + (d 1)\<^sup>2 = h\<^sup>2" using bs(2) by (auto simp: ds_def)
  then have rms: "mag_residual real_libm True ds h = 0" by (rule mag_residual_level [OF _ assms(3)])
  have "1 \<le> ea_n (fold extent_add ds extent_zero)" using assms(2) bs(3) by (simp add: extent_count ds_def)
  then obtain half where half: "extent_half real_libm (fold extent_add ds extent_zero) = Some half" by (simp add: extent_half_def)
  have "\<exists>fit. mag_result real_libm hypot R av tilt (m0, 0, 0) b (True, vec3 x y 0, h) = Some fit \<and> mg_level fit \<and> mg_radius fit = h \<and>
      mg_vertical fit = V \<and> mg_rms fit = 0 \<and> mg_hard_iron fit = (\<lambda>i. R 0 i * vec3 x y 0 0 + R 1 i * vec3 x y 0 1 + R 2 i * vec3 x y 0 2)" for tilt
    unfolding mag_result_def Let_def prod.case if_True pl(2) vec3_simps ds_def [symmetric] half option.case rms by simp
  then obtain fit where fit: "mag_result real_libm hypot R av (acos (if down 2 < 1 then down 2 else 1) * 180 / of_rat M_PI) (m0, 0, 0) b (True, vec3 x y 0, h) = Some fit"
    "mg_level fit" "mg_radius fit = h" "mg_vertical fit = V" "mg_rms fit = 0"
    "mg_hard_iron fit = (\<lambda>i. R 0 i * vec3 x y 0 0 + R 1 i * vec3 x y 0 1 + R 2 i * vec3 x y 0 2)" by blast
  have raw: "map (\<lambda>s i. wide real_wider (s i)) samps = samps" by (simp add: map_idI)
  have "cal_mag_fit real_wider acos hypot samps (Some M) accel = Some fit"
    unfolding cal_mag_fit_def Let_def option.case raw
    unfolding assms(4) prod.case R_def [symmetric] b_def [symmetric] real_wider_simps pl(1)
    unfolding prod.case sd real_libm_simps mc option.case
    using fit(1) assms(2) by (cases "down 2 < 1") simp_all
  then show ?thesis using fit(2-5) rot3_back [OF R, of _ "vec3 x y 0"] unfolding fit(6) [symmetric] R_def [symmetric] by blast
qed

text \<open>C31: A level swing gives its own circle: with a steady heel and no soft iron, the field turned onto the vertical runs round a
  circle at one height, and the fit, unless elimination refuses the system of the circle, takes the swing for level,
  returns the radius, puts the hard iron at the centre of the circle and none of it along the vertical, and leaves no
  residual.\<close>

theorem mag_fit_level_swing:
  assumes "orthonormal M" "5 \<le> length samps" "0 < h"
    and "swing_down real_wider M accel (map (rot3 M) samps) = (av, down)"
    and "\<forall>s \<in> set samps. rot3 (swing_axes (z_onto down) M) s 2 = V \<and>
      (rot3 (swing_axes (z_onto down) M) s 0 - x)\<^sup>2 + (rot3 (swing_axes (z_onto down) M) s 1 - y)\<^sup>2 = h\<^sup>2"
    and "about_means real_libm (map (rot3 (swing_axes (z_onto down) M)) samps) = (mx, my, xy)"
    and "gauss4 real_libm (circle_A real_libm xy) (circle_rhs real_libm xy) \<noteq> None"
  shows "\<exists>fit. cal_mag_fit real_wider acos hypot samps (Some M) accel = Some fit \<and> mg_level fit \<and> mg_radius fit = h \<and>
    mg_vertical fit = V \<and> mg_rms fit = 0 \<and>
    (\<forall>i < 3. rot3 (swing_axes (z_onto down) M) (mg_hard_iron fit) i = vec3 x y 0 i)"
  using assms by (rule level_swing)

text \<open>Applied to eight readings of a field of length one round a level board.\<close>

definition eight_points :: "real vec list" where
  "eight_points = concat (replicate 2 [vec3 1 0 (1 / 2), vec3 (-1) 0 (1 / 2), vec3 0 1 (1 / 2), vec3 0 (-1) (1 / 2)])"

lemma eight_list: "eight_points = [vec3 1 0 (1 / 2), vec3 (-1) 0 (1 / 2), vec3 0 1 (1 / 2), vec3 0 (-1) (1 / 2),
    vec3 1 0 (1 / 2), vec3 (-1) 0 (1 / 2), vec3 0 1 (1 / 2), vec3 0 (-1) (1 / 2)]"
  by (simp add: eight_points_def numeral_2_eq_2)

lemma eight_swing:
  obtains down mx my xy where "orthonormal I3" "5 \<le> length eight_points"
    "swing_down real_wider I3 (Some (vec3 0 0 (- gravity))) (map (rot3 I3) eight_points) = (True, down)"
    "\<forall>s \<in> set eight_points. rot3 (swing_axes (z_onto down) I3) s 2 = 1 / 2 \<and>
      (rot3 (swing_axes (z_onto down) I3) s 0 - 0)\<^sup>2 + (rot3 (swing_axes (z_onto down) I3) s 1 - 0)\<^sup>2 = 1\<^sup>2"
    "about_means real_libm (map (rot3 (swing_axes (z_onto down) I3)) eight_points) = (mx, my, xy)"
    "gauss4 real_libm (circle_A real_libm xy) (circle_rhs real_libm xy) \<noteq> None"
    "\<forall>v. \<forall>i < 3. rot3 (swing_axes (z_onto down) I3) v i = v i"
proof -
  define down where "down = (\<lambda>k. - rot3 I3 (vec3 0 0 (- gravity)) k / gravity)"
  have g: "0 < gravity" by (simp add: gravity_def)
  have d: "down 0 = 0" "down 1 = 0" "down 2 = 1" using g by (simp_all add: down_def rot3_def I3_def)
  have r: "rot3 I3 (vec3 0 0 (- gravity)) 0 = 0" "rot3 I3 (vec3 0 0 (- gravity)) 1 = 0" "rot3 I3 (vec3 0 0 (- gravity)) 2 = - gravity"
    by (simp_all add: rot3_def I3_def)
  have "accel_down real_wider I3 (Some (vec3 0 0 (- gravity))) = Some down"
    unfolding accel_down_def option.case Let_def real_wider_simps gravity_lit real_libm_simps r
    using g d(3) by (simp add: of_rat_divide down_def)
  then have sd: "swing_down real_wider I3 (Some (vec3 0 0 (- gravity))) (map (rot3 I3) eight_points) = (True, down)"
    by (simp add: swing_down_def)
  have R: "rot3 (swing_axes (z_onto down) I3) v i = v i" if "i < 3" for v i
    using that unfolding less3 by (elim disjE) (simp_all add: rot3_def swing_axes_def z_onto_def Let_def d d(2) [unfolded One_nat_def] I3_def)
  define b where "b = map (rot3 (swing_axes (z_onto down) I3)) eight_points"
  have b: "sum_over b f = 2 * f' 1 0 + 2 * f' (-1) 0 + 2 * f' 0 1 + 2 * f' 0 (-1)" if "\<And>v. f v = f' (v 0) (v 1)" for f f'
    unfolding sum_over_list b_def eight_list that by (simp add: R)
  define xy :: "real vec list" where "xy = map (\<lambda>v i. if i = 0 then v 0 - 0 else v 1 - (0 :: real)) b"
  have am: "about_means real_libm b = (0, 0, xy)"
  proof -
    have "sum_over b (\<lambda>v. v 0) = 0" "sum_over b (\<lambda>v. v 1) = 0"
      using b [of "\<lambda>v. v 0" "\<lambda>x y. x"] b [of "\<lambda>v. v 1" "\<lambda>x y. y"] by simp_all
    then show ?thesis unfolding about_means_def Let_def xy_def by (simp only: div_0)
  qed
  have S: "sum_over xy (\<lambda>v. f (v 0) (v 1)) = sum_over b (\<lambda>v. f (v 0) (v 1))" for f
    by (simp add: xy_def sum_over_list comp_def)
  have l: "length xy = 8" by (simp add: xy_def b_def eight_list)
  have A: "circle_A real_libm xy 0 = vec4 16 0 0 0" "circle_A real_libm xy 1 = vec4 0 16 0 0" "circle_A real_libm xy 2 = vec4 0 0 8 0"
    "circle_A real_libm xy 3 = vec4 0 0 0 1"
    unfolding circle_A_def Let_def S l
    by (simp_all add: b [where f' = "\<lambda>x y. x * x"] b [where f' = "\<lambda>x y. x * y"] b [where f' = "\<lambda>x y. y * y"]
        b [where f' = "\<lambda>x y. x"] b [where f' = "\<lambda>x y. y"])
  have "circle_A real_libm xy i j = (if i = j then vec4 16 16 8 1 i else 0)" if "i < 4" "j < 4" for i j
  proof -
    have "i = 0 \<or> i = 1 \<or> i = 2 \<or> i = 3" "j = 0 \<or> j = 1 \<or> j = 2 \<or> j = 3" using that by linarith+
    then show ?thesis by (elim disjE) (simp_all only: A vec4_simps simp_thms if_True if_False, simp_all)
  qed
  then have ga: "gauss4 real_libm (circle_A real_libm xy) (circle_rhs real_libm xy) \<noteq> None"
    by (subst gauss4_diag [of "vec4 16 16 8 1"]) (simp_all add: vec4_def)
  have o: "orthonormal I3" unfolding orthonormal_def all3 by (simp add: I3_def)
  have five: "5 \<le> length eight_points" by (simp add: eight_list)
  have on: "\<forall>s \<in> set eight_points. rot3 (swing_axes (z_onto down) I3) s 2 = 1 / 2 \<and>
      (rot3 (swing_axes (z_onto down) I3) s 0 - 0)\<^sup>2 + (rot3 (swing_axes (z_onto down) I3) s 1 - 0)\<^sup>2 = 1\<^sup>2"
    by (simp add: R eight_list)
  show ?thesis by (rule that [OF o five sd on am [unfolded b_def] ga]) (use R in blast)
qed

theorem mag_fit_level_swing_witness:
  "\<exists>fit. cal_mag_fit real_wider arccos (\<lambda>x y. sqrt (x * x + y * y)) eight_points (Some I3) (Some (vec3 0 0 (- gravity))) = Some fit \<and>
     mg_level fit \<and> mg_radius fit = 1 \<and> mg_vertical fit = 1 / 2 \<and> mg_rms fit = 0 \<and> (\<forall>i < 3. mg_hard_iron fit i = 0)"
proof -
  obtain down mx my xy where e: "orthonormal I3" "5 \<le> length eight_points"
    "swing_down real_wider I3 (Some (vec3 0 0 (- gravity))) (map (rot3 I3) eight_points) = (True, down)"
    "\<forall>s \<in> set eight_points. rot3 (swing_axes (z_onto down) I3) s 2 = 1 / 2 \<and>
      (rot3 (swing_axes (z_onto down) I3) s 0 - 0)\<^sup>2 + (rot3 (swing_axes (z_onto down) I3) s 1 - 0)\<^sup>2 = 1\<^sup>2"
    "about_means real_libm (map (rot3 (swing_axes (z_onto down) I3)) eight_points) = (mx, my, xy)"
    "gauss4 real_libm (circle_A real_libm xy) (circle_rhs real_libm xy) \<noteq> None"
    and R: "\<forall>v. \<forall>i < 3. rot3 (swing_axes (z_onto down) I3) v i = v i" by (rule eight_swing)
  have z: "vec3 0 0 0 i = (0 :: real)" for i by (simp add: vec3_def)
  have "(0 :: real) < 1" by simp
  from mag_fit_level_swing [OF e(1,2) this e(3-6)] show ?thesis by (auto simp: R z)
qed

text \<open>Where the fit of a swing succeeds, the daemon's correction with its result, which happens in the axes of the board, is
  the correction the fit made in the axes of the swing: a rotation onto the vertical, the centre taken off, and a
  matrix that couples the vertical with nothing.\<close>

theorem mag_fit_axes:
  assumes "orthonormal M" "cal_mag_fit real_wider acos hypot samps (Some M) accel = Some fit"
  shows "\<exists>R c S. orthonormal R \<and> (\<forall>i < 2. S i 2 = 0 \<and> S 2 i = 0) \<and>
    (\<forall>m. \<forall>i < 3. rot3 R (rot3 (mg_soft_iron fit) (\<lambda>i. m i - mg_hard_iron fit i)) i = rot3 S (\<lambda>i. rot3 R m i - c i) i)"
proof -
  obtain av down where d: "swing_down real_wider M accel (map (rot3 M) samps) = (av, down)" by fastforce
  define R where "R = swing_axes (z_onto down) M"
  have R: "orthonormal R" unfolding R_def by (rule orthonormal_swing [OF z_onto_orthonormal [OF swing_down_unit [OF d]] assms(1)])
  obtain tilt plane centre where "mag_result real_libm hypot R av tilt plane (map (rot3 R) samps) centre = Some fit"
    using assms(2) d unfolding cal_mag_fit_def Let_def R_def by (auto simp: case_prod_beta split: if_splits option.splits)
  then obtain level c radius where "mag_result real_libm hypot R av tilt plane (map (rot3 R) samps) (level, c, radius) = Some fit"
    by (cases centre) auto
  then obtain S2 si where f: "mg_hard_iron fit = (\<lambda>i. R 0 i * c 0 + R 1 i * c 1 + R 2 i * c 2)"
    "mg_soft_iron fit = to_board R (soft_block S2 si)" by (rule mag_result_cases)
  let ?S = "soft_block S2 si"
  have "rot3 R (rot3 (mg_soft_iron fit) (\<lambda>i. m i - mg_hard_iron fit i)) i = rot3 ?S (\<lambda>i. rot3 R m i - c i) i" if "i < 3" for m i
  proof -
    let ?u = "\<lambda>i. m i - mg_hard_iron fit i"
    have "rot3 R ?u j = rot3 R m j - rot3 R (mg_hard_iron fit) j" for j by (simp add: rot3_def algebra_simps)
    then have "rot3 R ?u j = rot3 R m j - c j" if "j < 3" for j using rot3_back [OF R that, of c] unfolding f(1) by simp
    then have "rot3 ?S (rot3 R ?u) i = rot3 ?S (\<lambda>i. rot3 R m i - c i) i" by (simp add: rot3_def)
    then show ?thesis unfolding f(2) to_board_rot using rot3_back [OF R that, of "rot3 ?S (rot3 R ?u)"] by simp
  qed
  moreover have "\<forall>i < 2. ?S i 2 = 0 \<and> ?S 2 i = 0" by (auto simp: soft_block_def split: option.splits)
  ultimately show ?thesis using R by blast
qed


theorem mag_fit_axes_witness:
  "\<exists>fit R c S. cal_mag_fit real_wider arccos (\<lambda>x y. sqrt (x * x + y * y)) eight_points (Some I3) (Some (vec3 0 0 (- gravity))) = Some fit \<and>
     orthonormal R \<and> (\<forall>m. rot3 R (rot3 (mg_soft_iron fit) (\<lambda>i. m i - mg_hard_iron fit i)) 2 = rot3 S (\<lambda>i. rot3 R m i - c i) 2)"
proof -
  obtain down mx my xy where e: "orthonormal I3" "5 \<le> length eight_points"
    "swing_down real_wider I3 (Some (vec3 0 0 (- gravity))) (map (rot3 I3) eight_points) = (True, down)"
    "\<forall>s \<in> set eight_points. rot3 (swing_axes (z_onto down) I3) s 2 = 1 / 2 \<and>
      (rot3 (swing_axes (z_onto down) I3) s 0 - 0)\<^sup>2 + (rot3 (swing_axes (z_onto down) I3) s 1 - 0)\<^sup>2 = 1\<^sup>2"
    "about_means real_libm (map (rot3 (swing_axes (z_onto down) I3)) eight_points) = (mx, my, xy)"
    "gauss4 real_libm (circle_A real_libm xy) (circle_rhs real_libm xy) \<noteq> None" by (rule eight_swing)
  have "(0 :: real) < 1" by simp
  from level_swing [OF e(1,2) this e(3-6)] obtain fit where
    f: "cal_mag_fit real_wider arccos (\<lambda>x y. sqrt (x * x + y * y)) eight_points (Some I3) (Some (vec3 0 0 (- gravity))) = Some fit" by blast
  have two: "(2 :: nat) < 3" by simp
  from mag_fit_axes [OF e(1) f] f two show ?thesis by blast
qed

end
