(* ===== verification/MagDrivers.thy ===== *)
theory MagDrivers
  imports Ism330
begin

text \<open>
  The drivers of the magnetometers, src/drivers: MMC5983MA, RM3100, LIS3MDL, LIS2MDL, AK8963 and AK09916. A function of a
  driver is one of the bus, of what the driver keeps, and of the part behind the bus; the clock's reading is an input.
  A read fills in the fields of the sample it is given.
\<close>

record mag_cfg =
  mgc_odr_mhz :: int
  mgc_int_driven :: bool

definition mag_out :: "f32 list \<Rightarrow> u64 \<Rightarrow> mag_sample \<Rightarrow> mag_sample" where
  "mag_out field now out = out\<lparr>ms_field := field, ms_wall_ns := now, ms_valid := True\<rparr>"

text \<open>A number times a constant, with a sign in front of the number.\<close>

definition scaled_by :: "f32 \<Rightarrow> bool \<Rightarrow> int \<Rightarrow> f32" where
  "scaled_by k flip v = f32_mul (if flip then f32_neg (f32_of_int v) else f32_of_int v) k"

text \<open>The identity check every probe begins with.\<close>

definition id_probe :: "u8 \<Rightarrow> u8 \<Rightarrow> 'd imud_bus \<Rightarrow> 'd \<Rightarrow> int \<times> 'd" where
  "id_probe reg value bus d =
     (case bus_reg_read bus reg d of (None, d) \<Rightarrow> (-1, d) | (Some ident, d) \<Rightarrow> (if ident \<noteq> value then -1 else 0, d))"

definition done_if :: "bool \<times> 'd \<Rightarrow> int \<times> 'd" where
  "done_if r = (if fst r then 0 else -1, snd r)"

section \<open>MMC5983MA\<close>

definition MMC_XOUT0 :: u8 where "MMC_XOUT0 = 0x0"
definition MMC_STATUS :: u8 where "MMC_STATUS = 0x8"
definition MMC_CTRL0 :: u8 where "MMC_CTRL0 = 0x9"
definition MMC_CTRL1 :: u8 where "MMC_CTRL1 = 0xA"
definition MMC_CTRL2 :: u8 where "MMC_CTRL2 = 0xB"
definition MMC_PRODUCT_ID :: u8 where "MMC_PRODUCT_ID = 0x2F"

lemmas mmc_regs = MMC_XOUT0_def MMC_STATUS_def MMC_CTRL0_def MMC_CTRL1_def MMC_CTRL2_def MMC_PRODUCT_ID_def

definition CTRL0_INT_EN :: u8 where "CTRL0_INT_EN = 0x04"
definition CTRL0_SET :: u8 where "CTRL0_SET = 0x08"
definition CTRL0_RESET :: u8 where "CTRL0_RESET = 0x10"
definition PRODUCT_ID_VALUE :: u8 where "PRODUCT_ID_VALUE = 0x30"
definition NULL_FIELD :: int where "NULL_FIELD = 131072"
definition STATUS_M_DONE :: u8 where "STATUS_M_DONE = 0x01"

record mmc_drv =
  g_int_driven :: bool
  g_prev_raw :: u64

text \<open>Bandwidth and rate.\<close>

definition mmc_odr_encode :: "int \<Rightarrow> u8 \<times> u8" where
  "mmc_odr_encode mhz =
     (if mhz \<le> 1000 then (0, 1) else if mhz \<le> 11000 then (0, 2) else if mhz \<le> 21000 then (0, 3)
      else if mhz \<le> 53000 then (0, 4) else if mhz \<le> 106000 then (1, 5) else if mhz \<le> 211000 then (1, 6) else (3, 7))"

definition MMC_DELIVERED :: "int list" where "MMC_DELIVERED = [1000, 11000, 21000, 53000, 106000, 211000, 1205000]"

fun first_at_least :: "int list \<Rightarrow> int \<Rightarrow> int" where
  "first_at_least [] req = 1205000"
| "first_at_least (d # ds) req = (if req \<le> d then d else first_at_least ds req)"

definition mmc_actual_odr_mhz :: "int \<Rightarrow> int" where
  "mmc_actual_odr_mhz req = first_at_least MMC_DELIVERED req"

definition mmc_probe :: "'d imud_bus \<Rightarrow> 'd \<Rightarrow> int \<times> 'd" where
  "mmc_probe = id_probe MMC_PRODUCT_ID PRODUCT_ID_VALUE"

definition mmc_reset :: "'d imud_bus \<Rightarrow> 'd \<Rightarrow> int \<times> 'd" where
  "mmc_reset bus d = done_if (bus_reg_write bus MMC_CTRL1 0x80 d)"

definition mmc_init :: "'d imud_bus \<Rightarrow> mag_cfg \<Rightarrow> mmc_drv \<Rightarrow> 'd \<Rightarrow> int \<times> mmc_drv \<times> 'd" where
  "mmc_init bus cfg g d =
     (let (bw, cmfreq) = mmc_odr_encode (mgc_odr_mhz cfg);
          g = g\<lparr>g_int_driven := mgc_int_driven cfg, g_prev_raw := 0\<rparr>;
          (rc, d) = done_if (reg_writes bus [(MMC_CTRL0, 0), (MMC_CTRL0, CTRL0_INT_EN), (MMC_CTRL1, bw), (MMC_CTRL2, 0x08 OR cmfreq)] d)
      in (rc, g, d))"

definition mmc_packed :: "bytes \<Rightarrow> u64" where
  "mmc_packed raw = fold (\<lambda>i p. p OR push_bit (8 * i) (ucast (raw ! i))) [0..<7] 0 OR push_bit 56 1"

definition mmc_axis :: "u8 \<Rightarrow> u8 \<Rightarrow> u8 \<Rightarrow> nat \<Rightarrow> u32" where
  "mmc_axis hi mid low sh = push_bit 10 (ucast hi) OR push_bit 2 (ucast mid) OR (ucast (drop_bit sh low) AND 0x03)"

definition mmc_scale :: f32 where "mmc_scale = f32_div (f32_of_rat 100) (f32_of_rat 16384)"

definition mmc_field :: "bytes \<Rightarrow> f32 list" where
  "mmc_field raw =
     (let v = (\<lambda>i sh. sint (mmc_axis (raw ! i) (raw ! (i + 1)) (raw ! 6) sh) - NULL_FIELD)
      in [scaled_by mmc_scale False (v 0 6), scaled_by mmc_scale True (v 2 4), scaled_by mmc_scale False (v 4 2)])"

definition mmc_read :: "'d imud_bus \<Rightarrow> u64 \<Rightarrow> mag_sample \<Rightarrow> mmc_drv \<Rightarrow> 'd \<Rightarrow> (int \<times> mag_sample) \<times> mmc_drv \<times> 'd" where
  "mmc_read bus now out g d =
     (let (st, d) = (if g_int_driven g then (Some STATUS_M_DONE, d) else bus_reg_read bus MMC_STATUS d)
      in case st of
           None \<Rightarrow> ((-1, out), g, d)
         | Some status \<Rightarrow>
             if status AND STATUS_M_DONE = 0 then ((1, out), g, d)
             else case bus_burst_read bus MMC_XOUT0 7 d of
                    (None, d) \<Rightarrow> ((-1, out), g, d)
                  | (Some raw, d) \<Rightarrow>
                      (case bus_reg_write bus MMC_STATUS STATUS_M_DONE d of
                         (False, d) \<Rightarrow> ((-1, out), g, d)
                       | (True, d) \<Rightarrow>
                           let packed = mmc_packed raw; stale = (g_int_driven g \<and> g_prev_raw g = packed);
                               g = (if g_int_driven g then g\<lparr>g_prev_raw := packed\<rparr> else g)
                           in if stale then ((1, out), g, d) else ((0, mag_out (mmc_field raw) now out), g, d)))"

datatype mag_degauss = MAG_DEGAUSS_SET | MAG_DEGAUSS_RESET

definition mmc_degauss :: "'d imud_bus \<Rightarrow> mag_degauss \<Rightarrow> 'd \<Rightarrow> int \<times> 'd" where
  "mmc_degauss bus dir d =
     done_if (bus_reg_write bus MMC_CTRL0 (CTRL0_INT_EN OR (if dir = MAG_DEGAUSS_RESET then CTRL0_RESET else CTRL0_SET)) d)"

definition mmc_set_reset :: "'d imud_bus \<Rightarrow> 'd \<Rightarrow> int \<times> 'd" where
  "mmc_set_reset bus d = mmc_degauss bus MAG_DEGAUSS_SET d"

section \<open>RM3100\<close>

definition RM_CMM :: u8 where "RM_CMM = 0x1"
definition RM_CCX :: u8 where "RM_CCX = 0x4"
definition RM_TMRC :: u8 where "RM_TMRC = 0xB"
definition RM_MX :: u8 where "RM_MX = 0x24"
definition RM_STATUS :: u8 where "RM_STATUS = 0x34"
definition RM_REVID :: u8 where "RM_REVID = 0x36"

lemmas rm_regs = RM_CMM_def RM_CCX_def RM_TMRC_def RM_MX_def RM_STATUS_def RM_REVID_def

definition STATUS_DRDY :: u8 where "STATUS_DRDY = 0x80"
definition RESULTS_BYTES :: nat where "RESULTS_BYTES = 9"
definition CMM_START_ALL :: u8 where "CMM_START_ALL = 0x79"
definition CC_DEFAULT :: u16 where "CC_DEFAULT = 200"
definition TMRC_DEFAULT :: u8 where "TMRC_DEFAULT = 0x96"

text \<open>Cycle count, gain and update rate.\<close>

definition rm_odr_encode :: "int \<Rightarrow> u16 \<times> f32 \<times> u8" where
  "rm_odr_encode mhz =
     (let (cc, gain) = (if mhz \<le> 150000 then (200, f32_of_rat 75) else if mhz \<le> 300000 then (100, f32_of_rat 38) else (50, f32_of_rat 20))
      in (cc, gain,
          if mhz \<le> 1200 then 0x9B else if mhz \<le> 2300 then 0x9A else if mhz \<le> 4500 then 0x99 else if mhz \<le> 9000 then 0x98
          else if mhz \<le> 18000 then 0x97 else if mhz \<le> 37000 then 0x96 else if mhz \<le> 75000 then 0x95
          else if mhz \<le> 150000 then 0x94 else if mhz \<le> 300000 then 0x93 else 0x92))"

text \<open>The driver keeps the gain.\<close>

definition rm_gain_seed :: f32 where "rm_gain_seed = f32_of_rat 75"

definition cc_writes :: "u8 \<Rightarrow> u16 \<Rightarrow> (u8 \<times> u8) list" where
  "cc_writes reg cc = [(reg, ucast (drop_bit 8 cc)), (reg + 1, ucast (cc AND 0xFF))]"

definition write_cc :: "'d imud_bus \<Rightarrow> u8 \<Rightarrow> u16 \<Rightarrow> 'd \<Rightarrow> bool \<times> 'd" where
  "write_cc bus reg cc d = reg_writes bus (cc_writes reg cc) d"

definition cc_all :: "u16 \<Rightarrow> (u8 \<times> u8) list" where
  "cc_all cc = concat (map (\<lambda>axis. cc_writes (RM_CCX + axis * 2) cc) [0, 1, 2])"

definition write_cc_all :: "'d imud_bus \<Rightarrow> u16 \<Rightarrow> 'd \<Rightarrow> bool \<times> 'd" where
  "write_cc_all bus cc d = reg_writes bus (cc_all cc) d"

definition be16 :: "bytes \<Rightarrow> u16" where "be16 p = push_bit 8 (ucast (p ! 0)) OR ucast (p ! 1)"

definition rm_probe :: "'d imud_bus \<Rightarrow> 'd \<Rightarrow> int \<times> 'd" where
  "rm_probe bus d =
     (case bus_reg_read bus RM_REVID d of
        (None, d) \<Rightarrow> (-1, d)
      | (Some revid, d) \<Rightarrow>
          if revid = 0x00 \<or> revid = 0xFF then (-1, d)
          else case bus_burst_read bus RM_CCX 2 d of
                 (None, d) \<Rightarrow> (-1, d)
               | (Some was, d) \<Rightarrow>
                   (case write_cc bus RM_CCX CC_DEFAULT d of
                      (False, d) \<Rightarrow> (-1, d)
                    | (True, d) \<Rightarrow>
                        (case bus_burst_read bus RM_CCX 2 d of
                           (None, d) \<Rightarrow> (-1, d)
                         | (Some back, d) \<Rightarrow>
                             if be16 back \<noteq> CC_DEFAULT then (-1, d)
                             else if be16 was \<noteq> CC_DEFAULT then done_if (write_cc bus RM_CCX (be16 was) d) else (0, d))))"

definition rm_reset :: "'d imud_bus \<Rightarrow> f32 \<Rightarrow> 'd \<Rightarrow> int \<times> f32 \<times> 'd" where
  "rm_reset bus gain d =
     (case reg_writes bus ([(RM_CMM, 0)] @ cc_all CC_DEFAULT @ [(RM_TMRC, TMRC_DEFAULT)]) d of
        (False, d) \<Rightarrow> (-1, gain, d)
      | (True, d) \<Rightarrow> (case bus_burst_read bus RM_MX RESULTS_BYTES d of
                        (None, d) \<Rightarrow> (-1, gain, d) | (Some _, d) \<Rightarrow> (0, f32_of_rat 75, d)))"

definition rm_init :: "'d imud_bus \<Rightarrow> mag_cfg \<Rightarrow> f32 \<Rightarrow> 'd \<Rightarrow> int \<times> f32 \<times> 'd" where
  "rm_init bus cfg gain d =
     (let (cc, g, tmrc) = rm_odr_encode (mgc_odr_mhz cfg)
      in case reg_writes bus (cc_all cc @ [(RM_TMRC, tmrc), (RM_CMM, CMM_START_ALL)]) d of
           (False, d) \<Rightarrow> (-1, gain, d) | (True, d) \<Rightarrow> (0, g, d))"

definition rm_field :: "f32 \<Rightarrow> bytes \<Rightarrow> f32 list" where
  "rm_field gain raw = map (\<lambda>i. f32_div (f32_of_int (sint (reg_s24be (drop (3 * i) raw)))) gain) [0, 1, 2]"

definition rm_read :: "'d imud_bus \<Rightarrow> u64 \<Rightarrow> mag_sample \<Rightarrow> f32 \<Rightarrow> 'd \<Rightarrow> (int \<times> mag_sample) \<times> 'd" where
  "rm_read bus now out gain d =
     (case bus_reg_read bus RM_STATUS d of
        (None, d) \<Rightarrow> ((-1, out), d)
      | (Some status, d) \<Rightarrow>
          if status AND STATUS_DRDY = 0 then ((1, out), d)
          else case bus_burst_read bus RM_MX RESULTS_BYTES d of
                 (None, d) \<Rightarrow> ((-1, out), d)
               | (Some raw, d) \<Rightarrow> ((0, mag_out (rm_field gain raw) now out), d))"

section \<open>LIS3MDL\<close>

definition LIS3_WHO_AM_I :: u8 where "LIS3_WHO_AM_I = 0xF"
definition LIS3_CTRL_REG1 :: u8 where "LIS3_CTRL_REG1 = 0x20"
definition LIS3_CTRL_REG2 :: u8 where "LIS3_CTRL_REG2 = 0x21"
definition LIS3_CTRL_REG3 :: u8 where "LIS3_CTRL_REG3 = 0x22"
definition LIS3_CTRL_REG4 :: u8 where "LIS3_CTRL_REG4 = 0x23"
definition LIS3_CTRL_REG5 :: u8 where "LIS3_CTRL_REG5 = 0x24"
definition LIS3_STATUS_REG :: u8 where "LIS3_STATUS_REG = 0x27"
definition LIS3_OUT_X_L :: u8 where "LIS3_OUT_X_L = 0x28"

lemmas lis3_regs = LIS3_WHO_AM_I_def LIS3_CTRL_REG1_def LIS3_CTRL_REG2_def LIS3_CTRL_REG3_def LIS3_CTRL_REG4_def LIS3_CTRL_REG5_def LIS3_STATUS_REG_def LIS3_OUT_X_L_def

definition LIS3_WHO_AM_I_VALUE :: u8 where "LIS3_WHO_AM_I_VALUE = 0x3D"
definition LIS3MDL_SCALE :: f32 where "LIS3MDL_SCALE = f32_div (f32_of_rat 100) (f32_of_rat 6842)"

definition odr_to_ctrl1 :: "int \<Rightarrow> u8" where
  "odr_to_ctrl1 mhz =
     (if mhz > 80000 then push_bit 5 0x3 OR 0x02
      else let do_bits = (if mhz \<le> 1250 then 1 else if mhz \<le> 2500 then 2 else if mhz \<le> 5000 then 3 else if mhz \<le> 10000 then 4
                          else if mhz \<le> 20000 then 5 else if mhz \<le> 40000 then 6 else 7)
           in push_bit 5 0x3 OR push_bit 2 do_bits)"

definition lis_probe :: "'d imud_bus \<Rightarrow> 'd \<Rightarrow> int \<times> 'd" where
  "lis_probe = id_probe LIS3_WHO_AM_I LIS3_WHO_AM_I_VALUE"

definition lis_reset :: "'d imud_bus \<Rightarrow> 'd \<Rightarrow> int \<times> 'd" where
  "lis_reset bus d = done_if (bus_reg_write bus LIS3_CTRL_REG2 0x04 d)"

definition lis_init :: "'d imud_bus \<Rightarrow> mag_cfg \<Rightarrow> 'd \<Rightarrow> int \<times> 'd" where
  "lis_init bus cfg d =
     done_if (reg_writes bus [(LIS3_CTRL_REG5, 0x40), (LIS3_CTRL_REG4, 0x0C), (LIS3_CTRL_REG1, odr_to_ctrl1 (mgc_odr_mhz cfg)),
       (LIS3_CTRL_REG2, 0), (LIS3_CTRL_REG3, 0)] d)"

text \<open>The axes of both ST parts: forward is the second, starboard and down are the first and the third turned round.\<close>

definition lis_field :: "f32 \<Rightarrow> bytes \<Rightarrow> f32 list" where
  "lis_field scale raw =
     (let v = (\<lambda>i. sint (reg_s16le (drop i raw))) in [scaled_by scale False (v 2), scaled_by scale True (v 0), scaled_by scale True (v 4)])"

definition lis_read :: "'d imud_bus \<Rightarrow> u64 \<Rightarrow> mag_sample \<Rightarrow> 'd \<Rightarrow> (int \<times> mag_sample) \<times> 'd" where
  "lis_read bus now out d =
     (case bus_reg_read bus LIS3_STATUS_REG d of
        (None, d) \<Rightarrow> ((-1, out), d)
      | (Some status, d) \<Rightarrow>
          if status AND 0x08 = 0 then ((1, out), d)
          else case bus_burst_read bus (if bus_kind bus = BUS_I2C then LIS3_OUT_X_L OR 0x80 else LIS3_OUT_X_L) 6 d of
                 (None, d) \<Rightarrow> ((-1, out), d)
               | (Some raw, d) \<Rightarrow> ((0, mag_out (lis_field LIS3MDL_SCALE raw) now out), d))"

section \<open>LIS2MDL\<close>

definition LIS2_WHO_AM_I :: u8 where "LIS2_WHO_AM_I = 0x4F"
definition LIS2_CFG_REG_A :: u8 where "LIS2_CFG_REG_A = 0x60"
definition LIS2_CFG_REG_B :: u8 where "LIS2_CFG_REG_B = 0x61"
definition LIS2_CFG_REG_C :: u8 where "LIS2_CFG_REG_C = 0x62"
definition LIS2_STATUS_REG :: u8 where "LIS2_STATUS_REG = 0x67"
definition LIS2_OUTX_L :: u8 where "LIS2_OUTX_L = 0x68"

lemmas lis2_regs = LIS2_WHO_AM_I_def LIS2_CFG_REG_A_def LIS2_CFG_REG_B_def LIS2_CFG_REG_C_def LIS2_STATUS_REG_def LIS2_OUTX_L_def

definition LIS2_WHO_AM_I_VALUE :: u8 where "LIS2_WHO_AM_I_VALUE = 0x40"
definition LIS2MDL_SCALE :: f32 where "LIS2MDL_SCALE = f32_of_rat (15 / 100)"

definition li2_odr_encode :: "int \<Rightarrow> u8" where
  "li2_odr_encode mhz =
     (if mhz \<le> 10000 then push_bit 2 0 else if mhz \<le> 20000 then push_bit 2 1 else if mhz \<le> 50000 then push_bit 2 2 else push_bit 2 3)"

definition li2_probe :: "'d imud_bus \<Rightarrow> 'd \<Rightarrow> int \<times> 'd" where
  "li2_probe = id_probe LIS2_WHO_AM_I LIS2_WHO_AM_I_VALUE"

definition li2_reset :: "'d imud_bus \<Rightarrow> 'd \<Rightarrow> int \<times> 'd" where
  "li2_reset bus d = done_if (bus_reg_write bus LIS2_CFG_REG_A 0x20 d)"

definition li2_init :: "'d imud_bus \<Rightarrow> mag_cfg \<Rightarrow> 'd \<Rightarrow> int \<times> 'd" where
  "li2_init bus cfg d =
     done_if (reg_writes bus [(LIS2_CFG_REG_C, 0x11), (LIS2_CFG_REG_B, 0x02), (LIS2_CFG_REG_A, li2_odr_encode (mgc_odr_mhz cfg))] d)"

definition li2_read :: "'d imud_bus \<Rightarrow> u64 \<Rightarrow> mag_sample \<Rightarrow> 'd \<Rightarrow> (int \<times> mag_sample) \<times> 'd" where
  "li2_read bus now out d =
     (case bus_reg_read bus LIS2_STATUS_REG d of
        (None, d) \<Rightarrow> ((-1, out), d)
      | (Some status, d) \<Rightarrow>
          if status AND 0x08 = 0 then ((1, out), d)
          else case bus_burst_read bus LIS2_OUTX_L 6 d of
                 (None, d) \<Rightarrow> ((-1, out), d)
               | (Some raw, d) \<Rightarrow> ((0, mag_out (lis_field LIS2MDL_SCALE raw) now out), d))"

section \<open>The AKM parts\<close>

text \<open>A wait for a bit of a register: set, clear, or a failed read, after a number of tries.\<close>

fun ak_poll :: "u8 \<Rightarrow> bool \<Rightarrow> nat \<Rightarrow> 'd imud_bus \<Rightarrow> 'd \<Rightarrow> bool option \<times> 'd" where
  "ak_poll reg want 0 bus d = (Some False, d)"
| "ak_poll reg want (Suc n) bus d =
     (case bus_reg_read bus reg d of
        (None, d) \<Rightarrow> (None, d)
      | (Some val, d) \<Rightarrow> if (val AND 0x01 \<noteq> 0) = want then (Some True, d) else ak_poll reg want n bus d)"

definition ak_soft_reset :: "u8 \<Rightarrow> u8 \<Rightarrow> 'd imud_bus \<Rightarrow> 'd \<Rightarrow> int \<times> 'd" where
  "ak_soft_reset mode_reg reset_reg bus d =
     (case reg_writes bus [(mode_reg, 0), (reset_reg, 0x01)] d of
        (False, d) \<Rightarrow> (-1, d)
      | (True, d) \<Rightarrow> (case ak_poll reset_reg False 20 bus d of (r, d) \<Rightarrow> (if r = Some True then 0 else -1, d)))"

definition AK8_WIA :: u8 where "AK8_WIA = 0x0"
definition AK8_ST1 :: u8 where "AK8_ST1 = 0x2"
definition AK8_HXL :: u8 where "AK8_HXL = 0x3"
definition AK8_CNTL1 :: u8 where "AK8_CNTL1 = 0xA"
definition AK8_CNTL2 :: u8 where "AK8_CNTL2 = 0xB"
definition AK8_ASAX :: u8 where "AK8_ASAX = 0x10"

lemmas ak8_regs = AK8_WIA_def AK8_ST1_def AK8_HXL_def AK8_CNTL1_def AK8_CNTL2_def AK8_ASAX_def

definition WIA_VALUE :: u8 where "WIA_VALUE = 0x48"
definition MODE_POWER_DOWN :: u8 where "MODE_POWER_DOWN = 0"
definition AK8_MODE_CONT_1 :: u8 where "AK8_MODE_CONT_1 = 0x02"
definition AK8_MODE_CONT_2 :: u8 where "AK8_MODE_CONT_2 = 0x06"
definition MODE_FUSE_ROM :: u8 where "MODE_FUSE_ROM = 0x0F"
definition CNTL1_16BIT :: u8 where "CNTL1_16BIT = 0x10"
definition ST2_HOFL :: u8 where "ST2_HOFL = 0x08"
definition AK8963_SCALE :: f32 where "AK8963_SCALE = f32_of_rat (15 / 100)"

definition ak8_odr_to_mode :: "int \<Rightarrow> u8" where
  "ak8_odr_to_mode odr_mhz = (if odr_mhz \<le> 8000 then AK8_MODE_CONT_1 else AK8_MODE_CONT_2)"

definition set_mode :: "'d imud_bus \<Rightarrow> u8 \<Rightarrow> 'd \<Rightarrow> bool \<times> 'd" where
  "set_mode bus mode d = reg_writes bus [(AK8_CNTL1, MODE_POWER_DOWN), (AK8_CNTL1, mode)] d"

definition ak8_probe :: "'d imud_bus \<Rightarrow> 'd \<Rightarrow> int \<times> 'd" where
  "ak8_probe = id_probe AK8_WIA WIA_VALUE"

definition ak8_reset :: "'d imud_bus \<Rightarrow> 'd \<Rightarrow> int \<times> 'd" where
  "ak8_reset = ak_soft_reset AK8_CNTL1 AK8_CNTL2"

text \<open>The adjustment of the sensitivity out of the fuses; fuses that no genuine part has are taken for none.\<close>

definition ak8_adj :: "bytes \<Rightarrow> f32 list" where
  "ak8_adj asa =
     (if asa = [0, 0, 0] \<or> asa = [0xFF, 0xFF, 0xFF] then [f32_of_rat 1, f32_of_rat 1, f32_of_rat 1]
      else map (\<lambda>a. f32_add (f32_div (f32_mul (f32_add (f32_of_int (uint a)) (f32_neg (f32_of_rat 128))) (f32_of_rat (1 / 2))) (f32_of_rat 128))
                      (f32_of_rat 1)) asa)"

definition ak8_init :: "'d imud_bus \<Rightarrow> mag_cfg \<Rightarrow> f32 list \<Rightarrow> 'd \<Rightarrow> int \<times> f32 list \<times> 'd" where
  "ak8_init bus cfg adj d =
     (case set_mode bus MODE_FUSE_ROM d of
        (False, d) \<Rightarrow> (-1, adj, d)
      | (True, d) \<Rightarrow>
          (case bus_burst_read bus AK8_ASAX 3 d of
             (None, d) \<Rightarrow> (-1, adj, d)
           | (Some asa, d) \<Rightarrow>
               (case set_mode bus (CNTL1_16BIT OR ak8_odr_to_mode (mgc_odr_mhz cfg)) d of (ok, d) \<Rightarrow> (if ok then 0 else -1, ak8_adj asa, d))))"

definition ak8_field :: "f32 list \<Rightarrow> bytes \<Rightarrow> f32 list" where
  "ak8_field adj raw =
     (let m = (\<lambda>i. f32_mul (f32_mul (f32_of_int (sint (reg_s16le (drop (2 * i) raw)))) (adj ! i)) AK8963_SCALE)
      in [m 1, f32_neg (m 0), m 2])"

definition ak8_read :: "'d imud_bus \<Rightarrow> u64 \<Rightarrow> mag_sample \<Rightarrow> f32 list \<Rightarrow> 'd \<Rightarrow> (int \<times> mag_sample) \<times> 'd" where
  "ak8_read bus now out adj d =
     (case ak_poll AK8_ST1 True 15 bus d of
        (None, d) \<Rightarrow> ((-1, out), d)
      | (Some False, d) \<Rightarrow> ((1, out), d)
      | (Some True, d) \<Rightarrow>
          (case bus_burst_read bus AK8_HXL 7 d of
             (None, d) \<Rightarrow> ((-1, out), d)
           | (Some raw, d) \<Rightarrow>
               if raw ! 6 AND ST2_HOFL \<noteq> 0 then ((1, out), d) else ((0, mag_out (ak8_field adj raw) now out), d)))"

definition AK9_WIA2 :: u8 where "AK9_WIA2 = 0x1"
definition AK9_ST1 :: u8 where "AK9_ST1 = 0x10"
definition AK9_HXL :: u8 where "AK9_HXL = 0x11"
definition AK9_ST2 :: u8 where "AK9_ST2 = 0x18"
definition AK9_CNTL2 :: u8 where "AK9_CNTL2 = 0x31"
definition AK9_CNTL3 :: u8 where "AK9_CNTL3 = 0x32"

lemmas ak9_regs = AK9_WIA2_def AK9_ST1_def AK9_HXL_def AK9_ST2_def AK9_CNTL2_def AK9_CNTL3_def

definition WIA2_VALUE :: u8 where "WIA2_VALUE = 0x09"
definition AK9_MODE_CONT_1 :: u8 where "AK9_MODE_CONT_1 = 0x02"
definition AK9_MODE_CONT_2 :: u8 where "AK9_MODE_CONT_2 = 0x04"
definition AK9_MODE_CONT_3 :: u8 where "AK9_MODE_CONT_3 = 0x06"
definition AK9_MODE_CONT_4 :: u8 where "AK9_MODE_CONT_4 = 0x08"
definition AK09916_SCALE :: f32 where "AK09916_SCALE = f32_of_rat (15 / 100)"

definition ak9_odr_to_mode :: "int \<Rightarrow> u8" where
  "ak9_odr_to_mode odr_mhz =
     (if odr_mhz \<le> 10000 then AK9_MODE_CONT_1 else if odr_mhz \<le> 20000 then AK9_MODE_CONT_2
      else if odr_mhz \<le> 50000 then AK9_MODE_CONT_3 else AK9_MODE_CONT_4)"

definition ak9_probe :: "'d imud_bus \<Rightarrow> 'd \<Rightarrow> int \<times> 'd" where
  "ak9_probe = id_probe AK9_WIA2 WIA2_VALUE"

definition ak9_reset :: "'d imud_bus \<Rightarrow> 'd \<Rightarrow> int \<times> 'd" where
  "ak9_reset = ak_soft_reset AK9_CNTL2 AK9_CNTL3"

definition ak9_init :: "'d imud_bus \<Rightarrow> mag_cfg \<Rightarrow> 'd \<Rightarrow> int \<times> 'd" where
  "ak9_init bus cfg d = done_if (reg_writes bus [(AK9_CNTL2, MODE_POWER_DOWN), (AK9_CNTL2, ak9_odr_to_mode (mgc_odr_mhz cfg))] d)"

definition ak9_field :: "bytes \<Rightarrow> f32 list" where
  "ak9_field raw =
     (let v = (\<lambda>i. sint (reg_s16le (drop i raw)))
      in [scaled_by AK09916_SCALE False (v 0), scaled_by AK09916_SCALE True (v 2), scaled_by AK09916_SCALE False (v 4)])"

definition ak9_read :: "'d imud_bus \<Rightarrow> u64 \<Rightarrow> mag_sample \<Rightarrow> 'd \<Rightarrow> (int \<times> mag_sample) \<times> 'd" where
  "ak9_read bus now out d =
     (case ak_poll AK9_ST1 True 15 bus d of
        (None, d) \<Rightarrow> ((-1, out), d)
      | (Some False, d) \<Rightarrow> ((1, out), d)
      | (Some True, d) \<Rightarrow>
          (case bus_burst_read bus AK9_HXL 6 d of
             (None, d) \<Rightarrow> ((-1, out), d)
           | (Some raw, d) \<Rightarrow>
               (case bus_reg_read bus AK9_ST2 d of
                  (None, d) \<Rightarrow> ((-1, out), d)
                | (Some st2, d) \<Rightarrow> if st2 AND 0x08 \<noteq> 0 then ((1, out), d) else ((0, mag_out (ak9_field raw) now out), d))))"

end
