(* ===== verification/MagProps.thy ===== *)
theory MagProps
  imports MagDrivers
begin

text \<open>
  What the magnetometer drivers promise: a sample is handed on once, with the field the registers hold, and a probe leaves
  the part as it was.
\<close>

section \<open>MMC5983MA\<close>

definition out_regs :: "(u8 \<Rightarrow> u8) \<Rightarrow> bytes" where
  "out_regs r = map (\<lambda>i. r (of_nat i)) [0..<7]"

lemma bit_packed:
  assumes "length raw = 7" "n < 56"
  shows "bit (mmc_packed raw) n \<longleftrightarrow> bit (raw ! (n div 8)) (n mod 8)"
proof -
  have p: "bit (fold (\<lambda>i p. p OR push_bit (8 * i) (ucast (raw ! i))) is w :: u64) n \<longleftrightarrow>
      bit w n \<or> (\<exists>i \<in> set is. bit (push_bit (8 * i) (ucast (raw ! i)) :: u64) n)" for "is" w
    by (induction "is" arbitrary: w) (auto simp: bit_simps)
  have b: "bit (push_bit (8 * i) (ucast (raw ! i)) :: u64) n \<longleftrightarrow> n div 8 = i \<and> bit (raw ! i) (n mod 8)" for i
  proof -
    have "bit (push_bit (8 * i) (ucast (raw ! i)) :: u64) n \<longleftrightarrow> 8 * i \<le> n \<and> bit (raw ! i) (n - 8 * i)"
      using assms(2) by (auto simp: bit_simps)
    also have "\<dots> \<longleftrightarrow> n div 8 = i \<and> bit (raw ! i) (n mod 8)"
    proof (cases "n div 8 = i")
      case True
      then have "n = 8 * i + n mod 8" by (metis mult_div_mod_eq)
      then show ?thesis using True by (metis add_diff_cancel_left' le_add1)
    next
      case False
      have "n - 8 * i \<ge> 8" if "8 * i \<le> n" using False that by (metis Suc_leI div_le_mono div_nat_eqI leI le_add_diff_inverse less_diff_conv2 linorder_not_less mult.commute mult_Suc_right nonzero_mult_div_cancel_left not_less_eq_eq zero_neq_numeral add.commute)
      then show ?thesis using False by (auto dest: bit_imp_le_length)
    qed
    finally show ?thesis .
  qed
  have top: "bit (push_bit 56 1 :: u64) n = False" unfolding bit_push_bit_iff using assms(2) by simp
  have "n div 8 < 7" using assms(2) by linarith
  then show ?thesis unfolding mmc_packed_def bit_or_iff p b top by auto
qed

lemma packed_inject:
  assumes "length a = 7" "length b = 7" "mmc_packed a = mmc_packed b"
  shows "a = b"
proof (rule nth_equalityI)
  fix i assume "i < length a"
  then have i: "i < 7" using assms(1) by simp
  show "a ! i = b ! i"
  proof (rule bit_word_eqI)
    fix k assume "k < LENGTH(8)"
    then have k: "8 * i + k < 56" "(8 * i + k) div 8 = i" "(8 * i + k) mod 8 = k" using i by simp_all
    show "bit (a ! i) k = bit (b ! i) k"
      using bit_packed [OF assms(1) k(1)] bit_packed [OF assms(2) k(1)] assms(3) unfolding k(2,3) by simp
  qed
qed (use assms in simp)

lemma mmc_read_part:
  assumes "bus_be bus = Some (part_backend 0)" "bus_spi_inc_mask bus = 0" "g_int_driven g"
  shows "mmc_read bus now out g r =
    (if g_prev_raw g = mmc_packed (out_regs r) then ((1, out), g, r(MMC_STATUS := STATUS_M_DONE))
     else ((0, mag_out (mmc_field (out_regs r)) now out), g\<lparr>g_prev_raw := mmc_packed (out_regs r)\<rparr>, r(MMC_STATUS := STATUS_M_DONE)))"
proof -
  have b: "bus_burst_read bus MMC_XOUT0 7 r = (Some (out_regs r), r)"
    using part_transfer [OF assms(1,2), of MMC_XOUT0 7 r] by (simp add: MMC_XOUT0_def out_regs_def)
  have w: "bus_reg_write bus MMC_STATUS STATUS_M_DONE r = (True, r(MMC_STATUS := STATUS_M_DONE))"
    using part_transfer [OF assms(1,2), of MMC_STATUS 1 r] by (simp add: MMC_STATUS_def)
  have s: "STATUS_M_DONE \<noteq> 0" by (simp add: STATUS_M_DONE_def)
  show ?thesis unfolding mmc_read_def Let_def by (simp add: assms(3) s b w)
qed

text \<open>A run of reads, each with the registers as the part has them by then: what each returns, the sample of the caller, and
  what it leaves in the part.\<close>

fun mmc_reads :: "(u8 \<Rightarrow> u8) imud_bus \<Rightarrow> mag_sample \<Rightarrow> mmc_drv \<Rightarrow> (u64 \<times> (u8 \<Rightarrow> u8)) list \<Rightarrow> (int \<times> mag_sample \<times> (u8 \<Rightarrow> u8)) list" where
  "mmc_reads bus out g [] = []"
| "mmc_reads bus out g ((now, r) # rs) =
     (case mmc_read bus now out g r of ((rc, out), g, r') \<Rightarrow> (rc, out, r') # mmc_reads bus out g rs)"

text \<open>What they should return, with the output registers that were handed on last.\<close>

fun fresh_reads :: "bytes option \<Rightarrow> mag_sample \<Rightarrow> (u64 \<times> (u8 \<Rightarrow> u8)) list \<Rightarrow> (int \<times> mag_sample \<times> (u8 \<Rightarrow> u8)) list" where
  "fresh_reads prev out [] = []"
| "fresh_reads prev out ((now, r) # rs) =
     (let out' = (if prev = Some (out_regs r) then out else mag_out (mmc_field (out_regs r)) now out)
      in (if prev = Some (out_regs r) then 1 else 0, out', r(MMC_STATUS := STATUS_M_DONE)) # fresh_reads (Some (out_regs r)) out' rs)"

definition remembers :: "mmc_drv \<Rightarrow> bytes option \<Rightarrow> bool" where
  "remembers g prev \<longleftrightarrow> g_int_driven g \<and>
     (case prev of None \<Rightarrow> g_prev_raw g = 0 | Some raw \<Rightarrow> length raw = 7 \<and> g_prev_raw g = mmc_packed raw)"

lemma packed_nonzero: "mmc_packed raw \<noteq> 0"
proof
  assume "mmc_packed raw = 0"
  then have "bit (mmc_packed raw) 56 = bit (0 :: u64) 56" by simp
  then show False by (simp add: mmc_packed_def bit_simps)
qed

lemma length_out_regs [simp]: "length (out_regs r) = 7"
  by (simp add: out_regs_def)

lemma remembers_stale: "remembers g prev \<Longrightarrow> g_prev_raw g = mmc_packed (out_regs r) \<longleftrightarrow> prev = Some (out_regs r)"
  using packed_nonzero [of "out_regs r"] packed_inject [OF _ length_out_regs, of _ r] unfolding remembers_def
  by (auto split: option.splits)

lemma mmc_reads_remembered:
  assumes "bus_be bus = Some (part_backend 0)" "bus_spi_inc_mask bus = 0"
  shows "remembers g prev \<Longrightarrow> mmc_reads bus out g rs = fresh_reads prev out rs"
proof (induction prev out rs arbitrary: g rule: fresh_reads.induct)
  case (2 prev out now r rs)
  have d: "g_int_driven g" using "2.prems" by (simp add: remembers_def)
  let ?g = "g\<lparr>g_prev_raw := mmc_packed (out_regs r)\<rparr>"
  have g: "remembers ?g (Some (out_regs r))" using d by (simp add: remembers_def)
  show ?case
  proof (cases "prev = Some (out_regs r)")
    case True
    then have p: "g_prev_raw g = mmc_packed (out_regs r)" using remembers_stale [OF "2.prems"] by blast
    have "remembers g (Some (out_regs r))" using "2.prems" True by simp
    then show ?thesis using "2.IH" [OF refl, of g] True p by (simp add: mmc_read_part [OF assms d] Let_def)
  next
    case False
    then have "g_prev_raw g \<noteq> mmc_packed (out_regs r)" using remembers_stale [OF "2.prems"] by blast
    then show ?thesis using "2.IH" [OF refl g] False by (simp add: mmc_read_part [OF assms d] Let_def)
  qed
qed simp

text \<open>C36: Driven by its interrupt line, the MMC5983MA driver hands on each measurement once, over any run of reads after its
  initialisation: a read delivers what the output registers hold, unless they are as the read before found them; then
  it reports that there is nothing new and leaves the caller's sample alone, however often the reader wakes up. Every
  read acknowledges the interrupt.\<close>

theorem mmc_reads_fresh:
  assumes "bus_be bus = Some (part_backend 0)" "bus_spi_inc_mask bus = 0" "mgc_int_driven cfg"
    and "mmc_init bus cfg g0 d = (rc, g, d')"
  shows "mmc_reads bus out g rs = fresh_reads None out rs"
proof -
  have "remembers g None" using assms(3,4) by (auto simp: mmc_init_def remembers_def Let_def split: prod.splits)
  then show ?thesis by (rule mmc_reads_remembered [OF assms(1,2)])
qed

theorem mmc_reads_fresh_witness:
  "let bus = bus_init\<lparr>bus_be := Some (part_backend 0)\<rparr>;
       g = fst (snd (mmc_init bus \<lparr>mgc_odr_mhz = 100000, mgc_int_driven = True\<rparr> \<lparr>g_int_driven = False, g_prev_raw = 1\<rparr> (\<lambda>_. 0)));
       out = \<lparr>ms_field = [], ms_field_raw = [], ms_wall_ns = 0, ms_valid = False, ms_calibrated = False\<rparr>
   in map fst (mmc_reads bus out g [(5, \<lambda>_. 7), (6, \<lambda>_. 7), (7, \<lambda>_. 7), (8, \<lambda>_. 9), (9, \<lambda>_. 7), (10, \<lambda>_. 7)]) = [0, 1, 1, 0, 0, 1]"
proof -
  let ?bus = "bus_init\<lparr>bus_be := Some (part_backend 0)\<rparr>"
  let ?cfg = "\<lparr>mgc_odr_mhz = 100000, mgc_int_driven = True\<rparr>"
  obtain rc g d where i: "mmc_init ?bus ?cfg \<lparr>g_int_driven = False, g_prev_raw = 1\<rparr> (\<lambda>_. 0) = (rc, g, d)" by (rule prod_cases3)
  have e: "out_regs (\<lambda>_. 7) \<noteq> out_regs (\<lambda>_. 9)" by (simp add: out_regs_def upt_rec)
  have m: "mmc_reads ?bus out g rs = fresh_reads None out rs" for out rs
    by (rule mmc_reads_fresh [OF _ _ _ i]) (simp_all add: bus_init_def)
  then show ?thesis unfolding Let_def i fst_conv snd_conv m using e e [symmetric] by (simp add: Let_def)
qed

section \<open>LIS3MDL\<close>

text \<open>The part whose bursts need the increment bits is read alike on both transports.\<close>

lemma lis_read_part:
  assumes "bus_be bus = Some (part_backend 0x40)" "bus_spi_inc_mask bus = 0x40"
  shows "lis_read bus now out r =
    (if r LIS3_STATUS_REG AND 0x08 = 0 then (1, out)
     else (0, mag_out (lis_field LIS3MDL_SCALE (map (\<lambda>i. r (LIS3_OUT_X_L + of_nat i)) [0..<6])) now out), r)"
proof -
  have a: "burst_addr bus 0x40 LIS3_OUT_X_L = (if bus_kind bus = BUS_I2C then LIS3_OUT_X_L OR 0x80 else LIS3_OUT_X_L)"
    by (simp add: burst_addr_def)
  have "bus_reg_read bus LIS3_STATUS_REG r = (Some (r LIS3_STATUS_REG), r)"
    using part_transfer [OF assms, of LIS3_STATUS_REG 1 r] by (simp add: lis3_regs)
  moreover have "bus_burst_read bus (burst_addr bus 0x40 LIS3_OUT_X_L) 6 r = (Some (map (\<lambda>i. r (LIS3_OUT_X_L + of_nat i)) [0..<6]), r)"
    using part_transfer [OF assms, of LIS3_OUT_X_L 6 r] by (simp add: lis3_regs)
  ultimately show ?thesis unfolding lis_read_def a by simp
qed

section \<open>RM3100\<close>

text \<open>A probe of the RM3100 leaves the part as it found it, cycle count included, and finds it exactly when the revision
  register shows neither of the two values of a line without a device.\<close>

theorem rm_probe_restores:
  assumes "bus_be bus = Some (part_backend 0)" "bus_spi_inc_mask bus = 0"
  shows "rm_probe bus r = (if r RM_REVID \<in> {0x00, 0xFF} then -1 else 0, r)"
proof -
  have rd: "bus_burst_read bus RM_CCX 2 q = (Some [q RM_CCX, q (RM_CCX + 1)], q)" for q
    using part_transfer [OF assms, of RM_CCX 2 q] by (simp add: RM_CCX_def numeral_2_eq_2)
  have id: "bus_reg_read bus RM_REVID q = (Some (q RM_REVID), q)" for q
    using part_transfer [OF assms, of RM_REVID 1 q] by (simp add: RM_REVID_def bus_reg_read_def)
  have wr: "write_cc bus RM_CCX cc q = (True, q(RM_CCX := ucast (drop_bit 8 cc), RM_CCX + 1 := ucast (cc AND 0xFF)))" for cc q
    using part_transfer [OF assms, of RM_CCX 1] part_transfer [OF assms, of "RM_CCX + 1" 1]
    by (simp add: RM_CCX_def write_cc_def cc_writes_def)
  have m: "(0xFF :: u16) = mask 8" by (simp add: mask_eq_exp_minus_1)
  have split: "ucast (drop_bit 8 (be16 [h, l])) = h" "ucast (be16 [h, l] AND 0xFF) = l" for h l
    unfolding be16_def m by (rule bit_word_eqI; auto simp: bit_simps dest: bit_imp_le_length)+
  have def1: "be16 [ucast (drop_bit 8 CC_DEFAULT), ucast (CC_DEFAULT AND 0xFF)] = CC_DEFAULT"
    by (simp add: be16_def CC_DEFAULT_def)
  have as_was: "r(RM_CCX := ucast (drop_bit 8 CC_DEFAULT), RM_CCX + 1 := ucast (CC_DEFAULT AND 0xFF)) = r"
    if "be16 [r RM_CCX, r (RM_CCX + 1)] = CC_DEFAULT"
    unfolding that [symmetric] split by simp
  have two: "RM_CCX \<noteq> RM_CCX + 1" by simp
  show ?thesis
  proof (cases "r RM_REVID \<in> {0x00, 0xFF}")
    case True
    then show ?thesis unfolding rm_probe_def id by auto
  next
    case False
    then show ?thesis unfolding rm_probe_def id prod.case option.case rd wr
      by (simp add: def1 as_was done_if_def split)
  qed
qed

theorem rm_probe_restores_witness:
  "fst (rm_probe (bus_init\<lparr>bus_be := Some (part_backend 0)\<rparr>) (\<lambda>_. 7 :: u8)) = 0"
  by (subst rm_probe_restores) (simp_all add: bus_init_def)

end
