(* ===== verification/Lsm6dso.thy ===== *)
theory Lsm6dso
  imports Ism330
begin

text \<open>
  The driver of the LSM6DSO and the LSM6DSOX, src/drivers/lsm6dso.c: parts with the registers, the FIFO words and the
  counter of the ISM330DHCX, whose state and whose treatment of a word and of a burst's stamps it shares. It takes the
  FIFO word by word, and has nothing to write for a device configuration.
\<close>

section \<open>Rates and ranges\<close>

definition WHO_AM_I_LSM6DSO :: u8 where "WHO_AM_I_LSM6DSO = 0x6C"

definition lsm_odr_encode :: "int \<Rightarrow> u8" where
  "lsm_odr_encode mhz =
     (if mhz \<le> 13016 then 0x1 else if mhz \<le> 26031 then 0x2 else if mhz \<le> 52063 then 0x3
      else if mhz \<le> 104125 then 0x4 else if mhz \<le> 208250 then 0x5 else if mhz \<le> 416500 then 0x6
      else if mhz \<le> 833000 then 0x7 else if mhz \<le> 1666000 then 0x8 else if mhz \<le> 3332000 then 0x9 else 0xA)"

definition lsm_odr_actual :: "int \<Rightarrow> int" where
  "lsm_odr_actual mhz =
     first_step [13016, 26031, 52063, 104125, 208250, 416500, 833000, 1666000, 3332000, 6664000] mhz"

definition lsm_xl_fs_encode :: "int \<Rightarrow> f32 \<times> u8" where
  "lsm_xl_fs_encode g =
     (if g = 2 then (f32_mul (f32_of_rat (61 / 1000000)) GRAVITY, 0x00)
      else if g = 4 then (f32_mul (f32_of_rat (122 / 1000000)) GRAVITY, 0x08)
      else if g = 16 then (f32_mul (f32_of_rat (488 / 1000000)) GRAVITY, 0x04)
      else (f32_mul (f32_of_rat (244 / 1000000)) GRAVITY, 0x0C))"

definition lsm_gy_fs_encode :: "int \<Rightarrow> f32 \<times> u8" where
  "lsm_gy_fs_encode dps =
     (if dps = 125 then (f32_mul (f32_of_rat (4375 / 1000)) MDPS_TO_RAD, 0x02)
      else if dps = 250 then (f32_mul (f32_of_rat (875 / 100)) MDPS_TO_RAD, 0x00)
      else if dps = 500 then (f32_mul (f32_of_rat (175 / 10)) MDPS_TO_RAD, 0x04)
      else if dps = 1000 then (f32_mul (f32_of_rat 35) MDPS_TO_RAD, 0x08)
      else if dps = 4000 then (f32_mul (f32_of_rat 140) MDPS_TO_RAD, 0x01)
      else (f32_mul (f32_of_rat 70) MDPS_TO_RAD, 0x0C))"

section \<open>Probe, reset and init\<close>

definition lsm_probe :: "'d imud_bus \<Rightarrow> 'd \<Rightarrow> int \<times> 'd" where
  "lsm_probe bus d =
     (case bus_reg_read bus REG_WHO_AM_I d of
        (None, d) \<Rightarrow> (-1, d)
      | (Some who, d) \<Rightarrow> (if who \<noteq> WHO_AM_I_LSM6DSO then -1 else 0, d))"

fun lsm_reset_poll :: "nat \<Rightarrow> 'd imud_bus \<Rightarrow> 'd \<Rightarrow> int \<times> 'd" where
  "lsm_reset_poll 0 bus d = (-1, d)"
| "lsm_reset_poll (Suc n) bus d =
     (case bus_reg_read bus REG_CTRL3_C d of
        (None, d) \<Rightarrow> (-1, d)
      | (Some val, d) \<Rightarrow> if val AND 0x01 = 0 then (0, d) else lsm_reset_poll n bus d)"

definition lsm_reset :: "'d imud_bus \<Rightarrow> 'd \<Rightarrow> int \<times> 'd" where
  "lsm_reset bus d =
     (case reg_writes bus [(REG_FIFO_CTRL4, 0x00), (REG_CTRL3_C, 0x01)] d of
        (False, d) \<Rightarrow> (-1, d)
      | (True, d) \<Rightarrow> lsm_reset_poll 50 bus d)"

definition lsm_init_writes :: "bus_kind \<Rightarrow> imu_cfg \<Rightarrow> (u8 \<times> u8) list" where
  "lsm_init_writes knd cfg =
     (let odr = lsm_odr_encode (ig_odr_mhz cfg);
          xlfs = snd (lsm_xl_fs_encode (ig_accel_g cfg));
          gyfs = snd (lsm_gy_fs_encode (ig_gyro_dps cfg));
          wm = ig_fifo_wm cfg * 2; wm = (if wm > 511 then 511 else wm)
      in [(REG_FUNC_CFG_ACCESS, 0x00)] @
         (if knd = BUS_SPI then [(REG_CTRL4_C, CTRL4_I2C_DISABLE)] else []) @
         [(REG_CTRL1_XL, push_bit 4 odr OR xlfs OR 0x02),
          (REG_CTRL2_G, push_bit 4 odr OR gyfs),
          (REG_CTRL3_C, 0x44),
          (REG_CTRL10_C, 0x20),
          (REG_FIFO_CTRL4, 0x00),
          (REG_FIFO_CTRL1, word_of_int wm AND 0xFF),
          (REG_FIFO_CTRL2, word_of_int (drop_bit 8 wm) AND 0x01),
          (REG_FIFO_CTRL3, push_bit 4 odr OR odr),
          (REG_FIFO_CTRL4, push_bit 6 (st_fifo_ts_dec_batch (ig_fifo_wm cfg)) OR 0x26),
          (REG_INT1_CTRL, 0x08)])"

definition lsm_init :: "'d imud_bus \<Rightarrow> imu_cfg \<Rightarrow> ism_drv \<Rightarrow> 'd \<Rightarrow> int \<times> ism_drv \<times> 'd" where
  "lsm_init bus cfg s d =
     (case reg_writes bus (lsm_init_writes (bus_kind bus) cfg) d of
        (False, d) \<Rightarrow> (-1, s, d)
      | (True, d) \<Rightarrow>
          (case bus_burst_read bus REG_OUT_TEMP_L 2 d of
             (tb, d) \<Rightarrow>
               (0, s\<lparr>is_accel_scale := fst (lsm_xl_fs_encode (ig_accel_g cfg)),
                    is_gyro_scale := fst (lsm_gy_fs_encode (ig_gyro_dps cfg)),
                    is_last_temp := (case tb of Some tb \<Rightarrow> temp_of_raw (reg_s16le tb) | None \<Rightarrow> f32_of_rat 25),
                    is_next_seq := 0, tk_rejects := 0, tk_reject_next := 1, tk_fwd_rejects := 0, tk_fwd_next := 1,
                    tk_bwd_rejects := 0, tk_bwd_next := 1, tk_guard := chip_ts_guard_reset (tk_guard s),
                    tk_ticks := 40000000 div word_of_int (lsm_odr_actual (ig_odr_mhz cfg))\<rparr>, d)))"

definition lsm_ts_tick_ns_actual :: "'d imud_bus \<Rightarrow> 'd \<Rightarrow> u32 \<times> 'd" where
  "lsm_ts_tick_ns_actual bus d = st_freq_fine_tick_ns bus 25000 d"

section \<open>The drain\<close>

text \<open>The loop with \<open>n\<close> words left: one transfer a word.\<close>

fun lsm_words :: "'d imud_bus \<Rightarrow> nat \<Rightarrow> nat \<Rightarrow> ism_drain \<Rightarrow> 'd \<Rightarrow> bool \<times> ism_drain \<times> 'd" where
  "lsm_words bus 0 room r d = (True, r, d)"
| "lsm_words bus (Suc n) room r d =
     (if dr_produced r < room
      then case bus_burst_read bus REG_FIFO_DATA_OUT_TAG 7 d of
             (None, d) \<Rightarrow> (False, r, d)
           | (Some word, d) \<Rightarrow> lsm_words bus n room (ism_word word r) d
      else (True, r, d))"

definition lsm_read ::
  "'d imud_bus \<Rightarrow> imu_sample list \<Rightarrow> nat \<Rightarrow> ism_drv \<Rightarrow> 'd \<Rightarrow> (int \<times> nat option \<times> imu_sample list) \<times> ism_drv \<times> 'd" where
  "lsm_read bus buf room s d =
     (case bus_burst_read bus REG_FIFO_STATUS1 2 d of
        (None, d) \<Rightarrow> ((-1, None, buf), s, d)
      | (Some st, d) \<Rightarrow>
          (let n_words = unat (push_bit 8 (ucast (st ! 1 AND 0x03)) OR ucast (st ! 0) :: u16);
               overflow = (st ! 1 AND 0x40 \<noteq> 0)
           in if n_words = 0 then ((if overflow then 1 else 0, Some 0, buf), s, d)
              else case lsm_words bus n_words room
                  \<lparr>dr_s = s, dr_buf = buf, dr_produced = 0, dr_accel = [0, 0, 0], dr_gyro = [0, 0, 0],
                   dr_have_accel = False, dr_have_gyro = False, dr_set_tag = 0, dr_fts = st_fifo_ts_begin\<rparr> d of
                (False, r, d) \<Rightarrow> ((-1, None, dr_buf r), dr_s r, d)
              | (True, r, d) \<Rightarrow>
                  (let (buf, s, d) =
                     (if dr_produced r > 0
                      then case bus_burst_read bus REG_TIMESTAMP0 4 d of
                             (None, d) \<Rightarrow> (dr_buf r, dr_s r, d)
                           | (Some ts, d) \<Rightarrow>
                               let (buf, s) = ism_stamp overflow (le32 ts) (dr_produced r) (dr_fts r) (dr_buf r) (dr_s r)
                               in (buf, s, d)
                      else (dr_buf r, dr_s r, d))
                   in ((if overflow then 1 else 0, Some (dr_produced r), buf), s, d))))"

section \<open>The drain loses nothing\<close>

lemma lsm_words_fifo:
  assumes "fifo_bus bus" "\<forall>w \<in> set (fp_words d). length w = 7"
  shows "lsm_words bus (length (fp_words d)) room r d =
    (True, fold ism_word (take (words_used room (fp_words d) r) (fp_words d)) r,
     d\<lparr>fp_words := drop (words_used room (fp_words d) r) (fp_words d)\<rparr>)"
  using assms(2)
proof (induction "fp_words d" arbitrary: r d)
  case Nil
  show ?case using same_words [OF Nil(1) [symmetric]] by (simp add: Nil(1) [symmetric])
next
  case (Cons w ws)
  show ?case
  proof (cases "dr_produced r < room")
    case True
    have c: "fp_words d = w # ws" by (rule Cons.hyps(2) [symmetric])
    have "bus_burst_read bus REG_FIFO_DATA_OUT_TAG (1 * 7) d = fifo_read REG_FIFO_DATA_OUT_TAG (1 * 7) d"
      using assms(1) [unfolded fifo_bus_def, THEN spec, of d, THEN conjunct2, THEN conjunct2, THEN spec, of 1] Cons.prems c by simp
    then have rd: "bus_burst_read bus REG_FIFO_DATA_OUT_TAG 7 d = (Some w, d\<lparr>fp_words := ws\<rparr>)"
      by (simp add: fifo_read_def ism_regs Cons.hyps(2) [symmetric])
    show ?thesis
      using Cons.hyps(1) [of "d\<lparr>fp_words := ws\<rparr>" "ism_word w r"] Cons.prems True
      by (simp add: Cons.hyps(2) [symmetric] rd)
  next
    case False
    then show ?thesis using same_words [OF Cons.hyps(2) [symmetric]] by (simp add: Cons.hyps(2) [symmetric])
  qed
qed

text \<open>C39: The LSM6DSO's drain loses nothing. Whatever room the caller has, there is a beginning of the FIFO that the drain
  takes, which is all of it unless the caller's buffer is full: of these words it makes what the ISM330DHCX's drain makes
  of them when it has room to spare, samples, stamps, state and return code alike, and all others are still in the part.\<close>

theorem lsm_read_lossless:
  assumes "fifo_bus bus" "fifo_ok d"
  shows "\<exists>k \<le> length (fp_words d). \<exists>rc n out s' d'.
    ism_read bus buf (Suc room) s (d\<lparr>fp_words := take k (fp_words d)\<rparr>) = ((rc, Some n, out), s', d') \<and>
    lsm_read bus buf room s d = ((rc, Some n, out), s', d\<lparr>fp_words := drop k (fp_words d)\<rparr>) \<and>
    n \<le> room \<and> (k = length (fp_words d) \<or> n = room)"
proof -
  let ?W = "fp_words d"
  define k where "k = words_used room ?W (drain_start s buf)"
  define r where "r = fold ism_word (take k ?W) (drain_start s buf)"
  have st0: "dr_produced (drain_start s buf) = 0" by (simp add: drain_start_def)
  have k: "k \<le> length ?W" "dr_produced r \<le> room" "k = length ?W \<or> dr_produced r = room"
    using words_used_facts [of "drain_start s buf" room ?W] st0 unfolding k_def r_def by simp_all
  have n: "length ?W < 1024" "\<forall>w \<in> set ?W. length w = 7" using assms(2) by (simp_all add: fifo_ok_def)
  have ok: "fifo_ok (d\<lparr>fp_words := take k ?W\<rparr>)" using n by (auto simp: fifo_ok_def dest: in_set_takeD)
  have I: "ism_read bus buf (Suc room) s (d\<lparr>fp_words := take k ?W\<rparr>) =
    ((if fp_ovr d then 1 else 0, Some (dr_produced r),
      if dr_produced r = 0 then dr_buf r else fst (ism_stamp (fp_ovr d) (fp_now d) (dr_produced r) (dr_fts r) (dr_buf r) (dr_s r))),
     if dr_produced r = 0 then dr_s r else snd (ism_stamp (fp_ovr d) (fp_now d) (dr_produced r) (dr_fts r) (dr_buf r) (dr_s r)),
     d\<lparr>fp_words := []\<rparr>)"
    using ism_read_fifo [OF assms(1) ok, of s buf "Suc room"] k(2) by (simp add: r_def read_result_def Let_def)
  have rd: "bus_burst_read bus REG_FIFO_STATUS1 2 d' = fifo_read REG_FIFO_STATUS1 2 d'"
    "bus_burst_read bus REG_TIMESTAMP0 4 d' = fifo_read REG_TIMESTAMP0 4 d'" for d'
    using assms(1) by (simp_all add: fifo_bus_def)
  have st: "bus_burst_read bus REG_FIFO_STATUS1 2 d =
      (Some [of_nat (length ?W mod 256), of_nat (length ?W div 256) OR (if fp_ovr d then 0x40 else 0)], d)"
    by (subst rd) (simp_all add: fifo_read_def ism_regs)
  have ts: "bus_burst_read bus REG_TIMESTAMP0 4 d' =
      (Some [ucast (fp_now d'), ucast (drop_bit 8 (fp_now d')), ucast (drop_bit 16 (fp_now d')), ucast (drop_bit 24 (fp_now d'))], d')" for d'
    by (subst rd) (simp_all add: fifo_read_def ism_regs)
  note count = status_count [OF n(1), of "fp_ovr d"]
  have w: "lsm_words bus (length ?W) room (drain_start s buf) d = (True, r, d\<lparr>fp_words := drop k ?W\<rparr>)"
    unfolding lsm_words_fifo [OF assms(1) n(2)] r_def k_def ..
  have L: "lsm_read bus buf room s d =
    ((if fp_ovr d then 1 else 0, Some (dr_produced r),
      if dr_produced r = 0 then dr_buf r else fst (ism_stamp (fp_ovr d) (fp_now d) (dr_produced r) (dr_fts r) (dr_buf r) (dr_s r))),
     if dr_produced r = 0 then dr_s r else snd (ism_stamp (fp_ovr d) (fp_now d) (dr_produced r) (dr_fts r) (dr_buf r) (dr_s r)),
     d\<lparr>fp_words := drop k ?W\<rparr>)"
  proof (cases "?W = []")
    case True
    then have "r = drain_start s buf" "d\<lparr>fp_words := drop k ?W\<rparr> = d" using same_words [OF True] by (simp_all add: r_def)
    then show ?thesis using count True
      unfolding lsm_read_def st prod.case option.case Let_def nth_Cons_0 nth_Cons_Suc One_nat_def count
      by (simp add: drain_start_def)
  next
    case False
    then show ?thesis
      unfolding lsm_read_def st prod.case option.case Let_def nth_Cons_0 nth_Cons_Suc One_nat_def count
      using w unfolding drain_start_def [symmetric]
      by (simp add: ts le32_bytes split: prod.split)
  qed
  show ?thesis by (rule exI [of _ k]) (use I L k in auto)
qed

theorem lsm_read_lossless_witness:
  "\<exists>k \<le> 5. \<exists>rc n out s'. lsm_read fifo_i2c [blank] 1 running \<lparr>fp_words = all_words two_sets, fp_ovr = False, fp_now = 7\<rparr> =
     ((rc, Some n, out), s', \<lparr>fp_words = drop k (all_words two_sets), fp_ovr = False, fp_now = 7\<rparr>) \<and> (k = 5 \<or> n = 1)"
proof -
  let ?d = "\<lparr>fp_words = all_words two_sets, fp_ovr = False, fp_now = 7\<rparr>"
  have "fifo_ok ?d" "length (all_words two_sets) = 5"
    using two_sets_held(1) [of 7] by (simp_all add: fifo_holds_def all_words_def two_sets_def Let_def)
  with lsm_read_lossless [OF fifo_i2c_ok this(1), of "[blank]" 1 running] show ?thesis by fastforce
qed

end
