(* ===== verification/Mpu925x.thy ===== *)
theory Mpu925x
  imports Ism330
begin

text \<open>
  The driver of the MPU-6500, MPU-9250 and MPU-9255, src/drivers/mpu925x.c: parts whose FIFO is a buffer of bytes in
  sample sets of twelve, with nothing in it that would tell where a set begins.
\<close>

section \<open>Constants\<close>

definition MPU_SMPLRT_DIV :: u8 where "MPU_SMPLRT_DIV = 0x19"
definition MPU_CONFIG :: u8 where "MPU_CONFIG = 0x1A"
definition MPU_GYRO_CONFIG :: u8 where "MPU_GYRO_CONFIG = 0x1B"
definition MPU_ACCEL_CONFIG :: u8 where "MPU_ACCEL_CONFIG = 0x1C"
definition MPU_ACCEL_CONFIG2 :: u8 where "MPU_ACCEL_CONFIG2 = 0x1D"
definition MPU_FIFO_EN :: u8 where "MPU_FIFO_EN = 0x23"
definition MPU_INT_PIN_CFG :: u8 where "MPU_INT_PIN_CFG = 0x37"
definition MPU_INT_ENABLE :: u8 where "MPU_INT_ENABLE = 0x38"
definition MPU_INT_STATUS :: u8 where "MPU_INT_STATUS = 0x3A"
definition MPU_TEMP_OUT_H :: u8 where "MPU_TEMP_OUT_H = 0x41"
definition MPU_SIGPATH_RESET :: u8 where "MPU_SIGPATH_RESET = 0x68"
definition MPU_USER_CTRL :: u8 where "MPU_USER_CTRL = 0x6A"
definition MPU_PWR_MGMT_1 :: u8 where "MPU_PWR_MGMT_1 = 0x6B"
definition MPU_PWR_MGMT_2 :: u8 where "MPU_PWR_MGMT_2 = 0x6C"
definition MPU_FIFO_COUNTH :: u8 where "MPU_FIFO_COUNTH = 0x72"
definition MPU_FIFO_R_W :: u8 where "MPU_FIFO_R_W = 0x74"
definition MPU_WHO_AM_I :: u8 where "MPU_WHO_AM_I = 0x75"

lemmas mpu_regs = MPU_SMPLRT_DIV_def MPU_CONFIG_def MPU_GYRO_CONFIG_def MPU_ACCEL_CONFIG_def MPU_ACCEL_CONFIG2_def
  MPU_FIFO_EN_def MPU_INT_PIN_CFG_def MPU_INT_ENABLE_def MPU_INT_STATUS_def MPU_TEMP_OUT_H_def MPU_SIGPATH_RESET_def
  MPU_USER_CTRL_def MPU_PWR_MGMT_1_def MPU_PWR_MGMT_2_def MPU_FIFO_COUNTH_def MPU_FIFO_R_W_def MPU_WHO_AM_I_def

definition WHO_AM_I_MPU9250 :: u8 where "WHO_AM_I_MPU9250 = 0x71"
definition WHO_AM_I_MPU9255 :: u8 where "WHO_AM_I_MPU9255 = 0x73"
definition WHO_AM_I_MPU6500 :: u8 where "WHO_AM_I_MPU6500 = 0x70"
definition CONFIG_FIFO_STREAM :: u8 where "CONFIG_FIFO_STREAM = 0x00"
definition FIFO_EN_ACCEL_GYRO :: u8 where "FIFO_EN_ACCEL_GYRO = 0x78"
definition USER_CTRL_FIFO_EN :: u8 where "USER_CTRL_FIFO_EN = 0x40"
definition USER_CTRL_I2C_MST_EN :: u8 where "USER_CTRL_I2C_MST_EN = 0x20"
definition USER_CTRL_FIFO_RST :: u8 where "USER_CTRL_FIFO_RST = 0x04"
definition INT_PIN_BYPASS_EN :: u8 where "INT_PIN_BYPASS_EN = 0x02"
definition INT_ENABLE_RAW_RDY :: u8 where "INT_ENABLE_RAW_RDY = 0x01"
definition SIGPATH_RST_ALL :: u8 where "SIGPATH_RST_ALL = 0x07"
definition GYRO_ST_ALL :: u8 where "GYRO_ST_ALL = 0xE0"
definition ACCEL_ST_ALL :: u8 where "ACCEL_ST_ALL = 0xE0"
definition PWR1_H_RESET :: u8 where "PWR1_H_RESET = 0x80"
definition PWR1_CLKSEL_AUTO :: u8 where "PWR1_CLKSEL_AUTO = 0x01"
definition AK8963_I2C_ADDR :: u8 where "AK8963_I2C_ADDR = 0x0C"
definition AK8963_REG_WIA :: u8 where "AK8963_REG_WIA = 0x00"
definition AK8963_WIA_VALUE :: u8 where "AK8963_WIA_VALUE = 0x48"
definition FIFO_BYTES :: nat where "FIFO_BYTES = 512"
definition FIFO_SAMPLE_BYTES :: nat where "FIFO_SAMPLE_BYTES = 12"
definition TEMP_SENSITIVITY :: f32 where "TEMP_SENSITIVITY = f32_of_rat (33387 / 100)"
definition TEMP_OFFSET_C :: f32 where "TEMP_OFFSET_C = f32_of_rat 21"
definition ST_SMPLRT_DIV :: u8 where "ST_SMPLRT_DIV = 0x00"
definition ST_DLPF_CFG :: u8 where "ST_DLPF_CFG = 0x02"
definition ST_ACCEL_DLPF_CFG :: u8 where "ST_ACCEL_DLPF_CFG = 0x02"
definition ST_SAMPLES :: nat where "ST_SAMPLES = 192"
definition ST_BURST :: nat where "ST_BURST = 64"
definition ST_TRIES :: nat where "ST_TRIES = 2000"

section \<open>State, rates and ranges\<close>

record mpu_drv =
  mp_accel_scale :: f32
  mp_gyro_scale :: f32
  mp_seq :: u32

definition smplrt_div_encode :: "int \<Rightarrow> u8" where
  "smplrt_div_encode odr_mhz =
     (if odr_mhz \<le> 0 then 0
      else let div' = (1000000 + odr_mhz div 2) div odr_mhz - 1;
               div' = (if div' < 0 then 0 else div'); div' = (if div' > 255 then 255 else div')
           in word_of_int div')"

definition mpu_odr_actual :: "u8 \<Rightarrow> int" where
  "mpu_odr_actual div' = 1000000 div (1 + uint div')"

definition mpu_actual_odr_mhz :: "int \<Rightarrow> int" where
  "mpu_actual_odr_mhz req_mhz = mpu_odr_actual (smplrt_div_encode req_mhz)"

definition DPS_TO_RAD :: f32 where
  "DPS_TO_RAD = f32_of_rat (dconst (dconst (314159265358979323846 / 10 ^ 20) / 180))"

definition mpu_gyro_scale :: "rat \<Rightarrow> f32" where
  "mpu_gyro_scale lsb = f32_mul (f32_div (f32_of_rat 1) (f32_of_rat lsb)) DPS_TO_RAD"

definition mpu_gyro_fs_encode :: "int \<Rightarrow> f32 \<times> u8" where
  "mpu_gyro_fs_encode dps =
     (if dps = 250 then (mpu_gyro_scale 131, 0x00) else if dps = 500 then (mpu_gyro_scale (655 / 10), 0x08)
      else if dps = 1000 then (mpu_gyro_scale (328 / 10), 0x10) else (mpu_gyro_scale (164 / 10), 0x18))"

definition mpu_accel_fs_encode :: "int \<Rightarrow> f32 \<times> u8" where
  "mpu_accel_fs_encode g =
     (if g = 2 then (f32_div GRAVITY (f32_of_rat 16384), 0x00) else if g = 4 then (f32_div GRAVITY (f32_of_rat 8192), 0x08)
      else if g = 8 then (f32_div GRAVITY (f32_of_rat 4096), 0x10) else (f32_div GRAVITY (f32_of_rat 2048), 0x18))"

section \<open>Probe, reset and init\<close>

text \<open>The magnetometer answers on the same bus at an address of its own, once the bypass is open.\<close>

definition probe_common :: "'d imud_bus \<Rightarrow> u8 \<Rightarrow> bool \<Rightarrow> 'd \<Rightarrow> int \<times> 'd" where
  "probe_common bus expect want_mag d =
     (case bus_reg_read bus MPU_WHO_AM_I d of
        (None, d) \<Rightarrow> (-1, d)
      | (Some who, d) \<Rightarrow>
          if who \<noteq> expect then (-1, d)
          else if \<not> want_mag then (0, d)
          else case bus_reg_read bus MPU_USER_CTRL d of
                 (None, d) \<Rightarrow> (-1, d)
               | (Some uc, d) \<Rightarrow>
                   (case bus_reg_read bus MPU_INT_PIN_CFG d of
                      (None, d) \<Rightarrow> (-1, d)
                    | (Some pin, d) \<Rightarrow>
                        (case reg_writes bus [(MPU_USER_CTRL, uc AND NOT USER_CTRL_I2C_MST_EN), (MPU_INT_PIN_CFG, pin OR INT_PIN_BYPASS_EN)] d of
                           (False, d) \<Rightarrow> (-1, d)
                         | (True, d) \<Rightarrow>
                             (case bus_reg_read (bus\<lparr>bus_i2c_addr := AK8963_I2C_ADDR\<rparr>) AK8963_REG_WIA d of
                                (wia, d) \<Rightarrow> (if wia = Some AK8963_WIA_VALUE then 0 else -1, d)))))"

definition mpu9250_probe :: "'d imud_bus \<Rightarrow> 'd \<Rightarrow> int \<times> 'd" where
  "mpu9250_probe bus = probe_common bus WHO_AM_I_MPU9250 True"

definition mpu6500_probe :: "'d imud_bus \<Rightarrow> 'd \<Rightarrow> int \<times> 'd" where
  "mpu6500_probe bus = probe_common bus WHO_AM_I_MPU6500 False"

definition mpu9255_probe :: "'d imud_bus \<Rightarrow> 'd \<Rightarrow> int \<times> 'd" where
  "mpu9255_probe bus = probe_common bus WHO_AM_I_MPU9255 True"

definition fifo_restart_writes :: "(u8 \<times> u8) list" where
  "fifo_restart_writes =
     [(MPU_FIFO_EN, 0x00), (MPU_USER_CTRL, USER_CTRL_FIFO_RST), (MPU_FIFO_EN, FIFO_EN_ACCEL_GYRO), (MPU_USER_CTRL, USER_CTRL_FIFO_EN)]"

definition fifo_restart :: "'d imud_bus \<Rightarrow> 'd \<Rightarrow> bool \<times> 'd" where
  "fifo_restart bus d = reg_writes bus fifo_restart_writes d"

fun mpu_reset_poll :: "nat \<Rightarrow> 'd imud_bus \<Rightarrow> 'd \<Rightarrow> int \<times> 'd" where
  "mpu_reset_poll 0 bus d = (-1, d)"
| "mpu_reset_poll (Suc n) bus d =
     (case bus_reg_read bus MPU_PWR_MGMT_1 d of
        (None, d) \<Rightarrow> (-1, d)
      | (Some val, d) \<Rightarrow>
          if val AND PWR1_H_RESET = 0
          then (case bus_reg_write bus MPU_SIGPATH_RESET SIGPATH_RST_ALL d of (ok, d) \<Rightarrow> (if ok then 0 else -1, d))
          else mpu_reset_poll n bus d)"

definition mpu_reset :: "'d imud_bus \<Rightarrow> 'd \<Rightarrow> int \<times> 'd" where
  "mpu_reset bus d =
     (case bus_reg_write bus MPU_PWR_MGMT_1 PWR1_H_RESET d of
        (False, d) \<Rightarrow> (-1, d) | (True, d) \<Rightarrow> mpu_reset_poll 100 bus d)"

definition mpu_init :: "'d imud_bus \<Rightarrow> imu_cfg \<Rightarrow> mpu_drv \<Rightarrow> 'd \<Rightarrow> int \<times> mpu_drv \<times> 'd" where
  "mpu_init bus cfg s d =
     (let (gyro_scale, gfs) = mpu_gyro_fs_encode (ig_gyro_dps cfg); (accel_scale, afs) = mpu_accel_fs_encode (ig_accel_g cfg)
      in case reg_writes bus
          ([(MPU_PWR_MGMT_1, PWR1_CLKSEL_AUTO), (MPU_PWR_MGMT_2, 0x00), (MPU_CONFIG, CONFIG_FIFO_STREAM OR 0x03),
            (MPU_SMPLRT_DIV, smplrt_div_encode (ig_odr_mhz cfg)), (MPU_GYRO_CONFIG, gfs), (MPU_ACCEL_CONFIG, afs),
            (MPU_ACCEL_CONFIG2, 0x03)] @ fifo_restart_writes @
           [(MPU_INT_ENABLE, INT_ENABLE_RAW_RDY), (MPU_INT_PIN_CFG, INT_PIN_BYPASS_EN)]) d of
           (False, d) \<Rightarrow> (-1, s, d)
         | (True, d) \<Rightarrow> (0, s\<lparr>mp_accel_scale := accel_scale, mp_gyro_scale := gyro_scale, mp_seq := 0\<rparr>, d))"

section \<open>The drain\<close>

text \<open>Three numbers of a sample set, in the axes of the board. The sign is turned before the conversion.\<close>

definition be_axes :: "f32 \<Rightarrow> bytes \<Rightarrow> f32 list" where
  "be_axes scale p =
     [f32_mul (f32_of_int (sint (reg_s16be p))) scale, f32_mul (f32_of_int (- sint (reg_s16be (drop 2 p)))) scale,
      f32_mul (f32_of_int (- sint (reg_s16be (drop 4 p)))) scale]"

definition be_set :: "f32 \<Rightarrow> f32 \<Rightarrow> u32 \<Rightarrow> bytes \<Rightarrow> imu_sample \<Rightarrow> imu_sample" where
  "be_set accel_scale gyro_scale seq p smp =
     smp\<lparr>is_accel := be_axes accel_scale p, is_gyro := be_axes gyro_scale (drop 6 p), is_temp_c := 0, is_chip_ts := 0, is_seq := seq\<rparr>"

definition be_sets :: "f32 \<Rightarrow> f32 \<Rightarrow> nat \<Rightarrow> bytes \<Rightarrow> imu_sample list \<times> u32 \<Rightarrow> imu_sample list \<times> u32" where
  "be_sets accel_scale gyro_scale n raw =
     fold (\<lambda>i (buf, seq). (buf[i := be_set accel_scale gyro_scale seq (drop (i * FIFO_SAMPLE_BYTES) raw) (buf ! i)], seq + 1)) [0..<n]"

definition be_temp :: "nat \<Rightarrow> bytes \<Rightarrow> imu_sample list \<Rightarrow> imu_sample list" where
  "be_temp n tmp buf =
     (let temp_c = f32_add (f32_div (f32_of_int (sint (reg_s16be tmp))) TEMP_SENSITIVITY) TEMP_OFFSET_C
      in fold (\<lambda>i buf. buf[i := (buf ! i)\<lparr>is_temp_c := temp_c\<rparr>]) [0..<n] buf)"

definition MPU_MAX_SETS :: nat where "MPU_MAX_SETS = 128"

definition mpu_read ::
  "'d imud_bus \<Rightarrow> imu_sample list \<Rightarrow> nat \<Rightarrow> mpu_drv \<Rightarrow> 'd \<Rightarrow> (int \<times> nat \<times> imu_sample list) \<times> mpu_drv \<times> 'd" where
  "mpu_read bus buf room s d =
     (case bus_burst_read bus MPU_FIFO_COUNTH 2 d of
        (None, d) \<Rightarrow> ((-1, 0, buf), s, d)
      | (Some cnt, d) \<Rightarrow>
          let n_bytes = unat (push_bit 8 (ucast (cnt ! 0 AND 0x1F)) OR ucast (cnt ! 1) :: u16); n = n_bytes div FIFO_SAMPLE_BYTES
          in case bus_reg_read bus MPU_INT_STATUS d of
               (None, d) \<Rightarrow> ((-1, 0, buf), s, d)
             | (Some istat, d) \<Rightarrow>
                 if istat AND 0x10 \<noteq> 0
                 then (case fifo_restart bus d of (ok, d) \<Rightarrow> ((if ok then 1 else -1, 0, buf), s, d))
                 else if n = 0 then ((0, 0, buf), s, d)
                 else let n = (if n > room then room else n); n = (if n > MPU_MAX_SETS then MPU_MAX_SETS else n);
                          to_read = n * FIFO_SAMPLE_BYTES
                      in if to_read < FIFO_SAMPLE_BYTES then ((-1, 0, buf), s, d)
                         else case bus_burst_read bus MPU_FIFO_R_W to_read d of
                                (None, d) \<Rightarrow> ((-1, 0, buf), s, d)
                              | (Some raw, d) \<Rightarrow>
                                  let (buf, seq) = be_sets (mp_accel_scale s) (mp_gyro_scale s) n raw (buf, mp_seq s);
                                      s = s\<lparr>mp_seq := seq\<rparr>
                                  in case bus_burst_read bus MPU_TEMP_OUT_H 2 d of
                                       (tmp, d) \<Rightarrow> ((0, n, case tmp of Some tmp \<Rightarrow> be_temp n tmp buf | None \<Rightarrow> buf), s, d))"

section \<open>Self test\<close>

text \<open>A finite float as a double, and sums of doubles, each rounded.\<close>

definition f32_rat :: "f32 \<Rightarrow> rat" where
  "f32_rat w = (case f32_dec w of Fin neg q \<Rightarrow> fl_val neg q | _ \<Rightarrow> 0)"

definition add_axes :: "f32 list \<Rightarrow> rat list \<Rightarrow> rat list" where
  "add_axes v acc = map (\<lambda>k. dconst (acc ! k + f32_rat (v ! k))) [0, 1, 2]"

text \<open>The samples of one read, as many as are still wanted.\<close>

fun st_take :: "imu_sample list \<Rightarrow> nat \<Rightarrow> rat list \<Rightarrow> rat list \<Rightarrow> nat \<times> rat list \<times> rat list" where
  "st_take [] got sa sg = (got, sa, sg)"
| "st_take (smp # smps) got sa sg =
     (if got < ST_SAMPLES then st_take smps (got + 1) (add_axes (is_accel smp) sa) (add_axes (is_gyro smp) sg) else (got, sa, sg))"

text \<open>The loop with \<open>t\<close> tries left.\<close>

fun mpu_st_loop ::
  "nat \<Rightarrow> 'd imud_bus \<Rightarrow> imu_sample list \<Rightarrow> nat \<Rightarrow> rat list \<Rightarrow> rat list \<Rightarrow> mpu_drv \<Rightarrow> 'd \<Rightarrow> (nat \<times> rat list \<times> rat list) option \<times> mpu_drv \<times> 'd" where
  "mpu_st_loop 0 bus buf got sa sg s d = (Some (got, sa, sg), s, d)"
| "mpu_st_loop (Suc t) bus buf got sa sg s d =
     (if got < ST_SAMPLES
      then case mpu_read bus buf ST_BURST s d of
             ((rc, n, buf), s, d) \<Rightarrow>
               if rc < 0 then (None, s, d)
               else if rc = 1 then mpu_st_loop t bus buf 0 [0, 0, 0] [0, 0, 0] s d
               else if n = 0 then mpu_st_loop t bus buf got sa sg s d
               else (case st_take (take n buf) got sa sg of (got, sa, sg) \<Rightarrow> mpu_st_loop t bus buf got sa sg s d)
      else (Some (got, sa, sg), s, d))"

definition mpu_st_average :: "'d imud_bus \<Rightarrow> imu_sample list \<Rightarrow> mpu_drv \<Rightarrow> 'd \<Rightarrow> (rat list \<times> rat list) option \<times> mpu_drv \<times> 'd" where
  "mpu_st_average bus buf s d =
     (case mpu_st_loop ST_TRIES bus buf 0 [0, 0, 0] [0, 0, 0] s d of
        (None, s, d) \<Rightarrow> (None, s, d)
      | (Some (got, sa, sg), s, d) \<Rightarrow>
          if got < ST_SAMPLES then (None, s, d)
          else (Some (map (\<lambda>v. dconst (v / of_nat got)) sa, map (\<lambda>v. dconst (v / of_nat got)) sg), s, d))"

text \<open>Between the first average and the label \<open>done\<close>. \<open>buf\<close> is what the local array happens to hold.\<close>

definition mpu_measure :: "'d imud_bus \<Rightarrow> imu_sample list \<Rightarrow> mpu_drv \<Rightarrow> 'd \<Rightarrow> (rat list \<times> rat list) option \<times> mpu_drv \<times> 'd" where
  "mpu_measure bus buf s d =
     (case mpu_st_average bus buf s d of
        (None, s, d) \<Rightarrow> (None, s, d)
      | (Some (a_off, g_off), s, d) \<Rightarrow>
          (case reg_writes bus ([(MPU_GYRO_CONFIG, GYRO_ST_ALL), (MPU_ACCEL_CONFIG, ACCEL_ST_ALL)] @ fifo_restart_writes) d of
             (False, d) \<Rightarrow> (None, s, d)
           | (True, d) \<Rightarrow>
               (case mpu_st_average bus buf s d of
                  (None, s, d) \<Rightarrow> (None, s, d)
                | (Some (a_on, g_on), s, d) \<Rightarrow>
                    (Some (map (\<lambda>k. dconst (dconst (\<bar>dconst (a_on ! k - a_off ! k)\<bar> / dconst (980665 / 100000)) * 1000)) [0, 1, 2],
                       map (\<lambda>k. dconst (dconst (\<bar>dconst (g_on ! k - g_off ! k)\<bar> * 180) / dconst (314159265358979323846 / 10 ^ 20))) [0, 1, 2]), s, d))))"

definition mpu_self_test :: "'d imud_bus \<Rightarrow> imu_sample list \<Rightarrow> mpu_drv \<Rightarrow> 'd \<Rightarrow> int \<times> imu_selftest \<times> mpu_drv \<times> 'd" where
  "mpu_self_test bus buf s d =
     (let out = \<lparr>sf_accel_mg = [0, 0, 0], sf_gyro_dps = [0, 0, 0], sf_accel_lo_mg = 0, sf_accel_hi_mg = 0,
            sf_gyro_lo_dps = 0, sf_gyro_hi_dps = 0\<rparr>
      in case mpu_reset bus d of (rc, d) \<Rightarrow>
        if rc < 0 then (-1, out, s, d)
        else case reg_writes bus [(MPU_PWR_MGMT_1, PWR1_CLKSEL_AUTO), (MPU_PWR_MGMT_2, 0x00), (MPU_CONFIG, CONFIG_FIFO_STREAM OR ST_DLPF_CFG),
              (MPU_SMPLRT_DIV, ST_SMPLRT_DIV), (MPU_GYRO_CONFIG, 0x00), (MPU_ACCEL_CONFIG, 0x00), (MPU_ACCEL_CONFIG2, ST_ACCEL_DLPF_CFG)] d of
          (False, d) \<Rightarrow> (-1, out, s, d)
        | (True, d) \<Rightarrow>
            let s = s\<lparr>mp_gyro_scale := fst (mpu_gyro_fs_encode 250), mp_accel_scale := fst (mpu_accel_fs_encode 2)\<rparr>
            in case fifo_restart bus d of
                 (False, d) \<Rightarrow> (-1, out, s, d)
               | (True, d) \<Rightarrow>
                   (case mpu_measure bus buf s d of
                      (res, s, d) \<Rightarrow>
                        let out = (case res of None \<Rightarrow> out | Some (a, g) \<Rightarrow> out\<lparr>sf_accel_mg := a, sf_gyro_dps := g\<rparr>)
                        in case bus_reg_write bus MPU_GYRO_CONFIG 0x00 d of (off1, d) \<Rightarrow>
                             (case bus_reg_write bus MPU_ACCEL_CONFIG 0x00 d of (off2, d) \<Rightarrow>
                                (if res \<noteq> None \<and> off1 \<and> off2 then 0 else -1, out, s, d))))"

end
