(* ===== verification/Icm20948.thy ===== *)
theory Icm20948
  imports Mpu925x
begin

text \<open>
  The driver of the ICM-20948, src/drivers/icm20948.c: registers in banks, and a FIFO like the one of the MPU-925x,
  whose sample sets it reads the same way.
\<close>

section \<open>Constants\<close>

definition B0_WHO_AM_I :: u8 where "B0_WHO_AM_I = 0x00"
definition B0_USER_CTRL :: u8 where "B0_USER_CTRL = 0x03"
definition B0_PWR_MGMT_1 :: u8 where "B0_PWR_MGMT_1 = 0x06"
definition B0_PWR_MGMT_2 :: u8 where "B0_PWR_MGMT_2 = 0x07"
definition B0_INT_PIN_CFG :: u8 where "B0_INT_PIN_CFG = 0x0F"
definition B0_INT_ENABLE_1 :: u8 where "B0_INT_ENABLE_1 = 0x11"
definition B0_TEMP_OUT_H :: u8 where "B0_TEMP_OUT_H = 0x39"
definition B0_FIFO_EN_2 :: u8 where "B0_FIFO_EN_2 = 0x67"
definition B0_FIFO_RST :: u8 where "B0_FIFO_RST = 0x68"
definition B0_FIFO_MODE :: u8 where "B0_FIFO_MODE = 0x69"
definition B0_FIFO_COUNTH :: u8 where "B0_FIFO_COUNTH = 0x70"
definition B0_FIFO_R_W :: u8 where "B0_FIFO_R_W = 0x72"
definition REG_BANK_SEL :: u8 where "REG_BANK_SEL = 0x7F"
definition B2_GYRO_SMPLRT_DIV :: u8 where "B2_GYRO_SMPLRT_DIV = 0x00"
definition B2_GYRO_CONFIG_1 :: u8 where "B2_GYRO_CONFIG_1 = 0x01"
definition B2_ACCEL_SMPLRT_1 :: u8 where "B2_ACCEL_SMPLRT_1 = 0x10"
definition B2_ACCEL_SMPLRT_2 :: u8 where "B2_ACCEL_SMPLRT_2 = 0x11"
definition B2_ACCEL_CONFIG :: u8 where "B2_ACCEL_CONFIG = 0x14"
definition IC2_WHO_AM_I_VALUE :: u8 where "IC2_WHO_AM_I_VALUE = 0xEA"
definition IC2_USER_CTRL_FIFO_EN :: u8 where "IC2_USER_CTRL_FIFO_EN = 0x40"
definition FIFO_EN2_ACCEL_GYRO :: u8 where "FIFO_EN2_ACCEL_GYRO = 0x1E"
definition IC2_INT_PIN_BYPASS_EN :: u8 where "IC2_INT_PIN_BYPASS_EN = 0x02"
definition CLKSEL_AUTO :: u8 where "CLKSEL_AUTO = 0x01"

lemmas ic2_regs = B0_WHO_AM_I_def B0_USER_CTRL_def B0_PWR_MGMT_1_def B0_PWR_MGMT_2_def B0_INT_PIN_CFG_def B0_INT_ENABLE_1_def
  B0_TEMP_OUT_H_def B0_FIFO_EN_2_def B0_FIFO_RST_def B0_FIFO_MODE_def B0_FIFO_COUNTH_def B0_FIFO_R_W_def REG_BANK_SEL_def
  B2_GYRO_SMPLRT_DIV_def B2_GYRO_CONFIG_1_def B2_ACCEL_SMPLRT_1_def B2_ACCEL_SMPLRT_2_def B2_ACCEL_CONFIG_def

section \<open>Rates and ranges\<close>

definition ic2_gyro_fs_encode :: "int \<Rightarrow> f32 \<times> u8" where
  "ic2_gyro_fs_encode dps =
     (if dps = 250 then (mpu_gyro_scale 131, 0x00) else if dps = 500 then (mpu_gyro_scale (655 / 10), 0x02)
      else if dps = 1000 then (mpu_gyro_scale (328 / 10), 0x04) else (mpu_gyro_scale (164 / 10), 0x06))"

definition ic2_accel_fs_encode :: "int \<Rightarrow> f32 \<times> u8" where
  "ic2_accel_fs_encode g =
     (if g = 2 then (f32_div GRAVITY (f32_of_rat 16384), 0x00) else if g = 4 then (f32_div GRAVITY (f32_of_rat 8192), 0x02)
      else if g = 8 then (f32_div GRAVITY (f32_of_rat 4096), 0x04) else (f32_div GRAVITY (f32_of_rat 2048), 0x06))"

definition gyro_smplrt_div :: "int \<Rightarrow> u8" where
  "gyro_smplrt_div odr_mhz =
     (if odr_mhz \<le> 0 then 0
      else let div' = (1125000 + odr_mhz div 2) div odr_mhz - 1;
               div' = (if div' < 0 then 0 else div'); div' = (if div' > 255 then 255 else div')
           in word_of_int div')"

definition accel_smplrt_div :: "int \<Rightarrow> u16" where
  "accel_smplrt_div odr_mhz =
     (if odr_mhz \<le> 0 then 0
      else let div' = (1125000 + odr_mhz div 2) div odr_mhz - 1;
               div' = (if div' < 0 then 0 else div'); div' = (if div' > 4095 then 4095 else div')
           in word_of_int div')"

definition ic2_actual_odr_mhz :: "int \<Rightarrow> int" where
  "ic2_actual_odr_mhz req_mhz = 1125000 div (1 + uint (gyro_smplrt_div req_mhz))"

section \<open>Operations\<close>

definition bank_write :: "u8 \<Rightarrow> u8 \<times> u8" where "bank_write bank = (REG_BANK_SEL, push_bit 4 bank)"

definition bank_sel :: "'d imud_bus \<Rightarrow> u8 \<Rightarrow> 'd \<Rightarrow> bool \<times> 'd" where
  "bank_sel bus bank d = bus_reg_write bus REG_BANK_SEL (push_bit 4 bank) d"

definition ic2_probe :: "'d imud_bus \<Rightarrow> 'd \<Rightarrow> int \<times> 'd" where
  "ic2_probe bus d =
     (case bank_sel bus 0 d of
        (False, d) \<Rightarrow> (-1, d)
      | (True, d) \<Rightarrow>
          (case bus_reg_read bus B0_WHO_AM_I d of
             (None, d) \<Rightarrow> (-1, d) | (Some who, d) \<Rightarrow> (if who \<noteq> IC2_WHO_AM_I_VALUE then -1 else 0, d)))"

fun ic2_reset_poll :: "nat \<Rightarrow> 'd imud_bus \<Rightarrow> 'd \<Rightarrow> int \<times> 'd" where
  "ic2_reset_poll 0 bus d = (-1, d)"
| "ic2_reset_poll (Suc n) bus d =
     (case bus_reg_read bus B0_PWR_MGMT_1 d of
        (None, d) \<Rightarrow> (-1, d)
      | (Some val, d) \<Rightarrow> if val AND 0x80 = 0 then (0, d) else ic2_reset_poll n bus d)"

definition ic2_reset :: "'d imud_bus \<Rightarrow> 'd \<Rightarrow> int \<times> 'd" where
  "ic2_reset bus d =
     (case reg_writes bus [bank_write 0, (B0_PWR_MGMT_1, 0x80)] d of
        (False, d) \<Rightarrow> (-1, d) | (True, d) \<Rightarrow> ic2_reset_poll 100 bus d)"

definition ic2_init_writes :: "imu_cfg \<Rightarrow> (u8 \<times> u8) list" where
  "ic2_init_writes cfg =
     (let gfs = snd (ic2_gyro_fs_encode (ig_gyro_dps cfg)); afs = snd (ic2_accel_fs_encode (ig_accel_g cfg));
          gdiv = gyro_smplrt_div (ig_odr_mhz cfg); adiv = accel_smplrt_div (ig_odr_mhz cfg)
      in [bank_write 0, (B0_PWR_MGMT_1, CLKSEL_AUTO), (B0_PWR_MGMT_2, 0x00),
          bank_write 2, (B2_GYRO_SMPLRT_DIV, gdiv), (B2_GYRO_CONFIG_1, 0x01 OR push_bit 3 3 OR gfs),
          (B2_ACCEL_SMPLRT_1, ucast (drop_bit 8 adiv)), (B2_ACCEL_SMPLRT_2, ucast (adiv AND 0xFF)),
          (B2_ACCEL_CONFIG, 0x01 OR push_bit 3 3 OR afs),
          bank_write 0, (B0_USER_CTRL, IC2_USER_CTRL_FIFO_EN), (B0_FIFO_RST, 0x1F), (B0_FIFO_RST, 0x00), (B0_FIFO_MODE, 0x00),
          (B0_FIFO_EN_2, FIFO_EN2_ACCEL_GYRO), (B0_INT_ENABLE_1, 0x01), (B0_INT_PIN_CFG, IC2_INT_PIN_BYPASS_EN)])"

definition ic2_init :: "'d imud_bus \<Rightarrow> imu_cfg \<Rightarrow> mpu_drv \<Rightarrow> 'd \<Rightarrow> int \<times> mpu_drv \<times> 'd" where
  "ic2_init bus cfg s d =
     (case reg_writes bus (ic2_init_writes cfg) d of
        (False, d) \<Rightarrow> (-1, s, d)
      | (True, d) \<Rightarrow> (0, s\<lparr>mp_accel_scale := fst (ic2_accel_fs_encode (ig_accel_g cfg)),
                          mp_gyro_scale := fst (ic2_gyro_fs_encode (ig_gyro_dps cfg)), mp_seq := 0\<rparr>, d))"

definition ICM_MAX_SETS :: nat where "ICM_MAX_SETS = 128"

definition ic2_read ::
  "'d imud_bus \<Rightarrow> imu_sample list \<Rightarrow> nat \<Rightarrow> mpu_drv \<Rightarrow> 'd \<Rightarrow> (int \<times> nat \<times> imu_sample list) \<times> mpu_drv \<times> 'd" where
  "ic2_read bus buf room s d =
     (case bus_burst_read bus B0_FIFO_COUNTH 2 d of
        (None, d) \<Rightarrow> ((-1, 0, buf), s, d)
      | (Some cnt, d) \<Rightarrow>
          let n_bytes = unat (push_bit 8 (ucast (cnt ! 0 AND 0x1F)) OR ucast (cnt ! 1) :: u16); n = n_bytes div 12
          in if n = 0 then ((0, 0, buf), s, d)
             else let overflow = (n_bytes \<ge> 504); n = (if n > room then room else n); n = (if n > ICM_MAX_SETS then ICM_MAX_SETS else n);
                      to_read = n * 12
                  in if to_read < 12 then ((-1, 0, buf), s, d)
                     else case bus_burst_read bus B0_FIFO_R_W to_read d of
                            (None, d) \<Rightarrow> ((-1, 0, buf), s, d)
                          | (Some raw, d) \<Rightarrow>
                              let (buf, seq) = be_sets (mp_accel_scale s) (mp_gyro_scale s) n raw (buf, mp_seq s);
                                  s = s\<lparr>mp_seq := seq\<rparr>
                              in case bus_burst_read bus B0_TEMP_OUT_H 2 d of
                                   (tmp, d) \<Rightarrow> ((if overflow then 1 else 0, n, case tmp of Some tmp \<Rightarrow> be_temp n tmp buf | None \<Rightarrow> buf), s, d))"

end
