(* ===== verification/TdkProps.thy ===== *)
theory TdkProps
  imports Icm20948 "HOL-Library.Sublist"
begin

text \<open>
  The framing of a FIFO without tags: what the drains of the MPU-925x and of the ICM-20948 hand on when the FIFO
  overflows between them, and the rates both divide down to.
\<close>

section \<open>Reading sample sets\<close>

definition of_set :: "mpu_drv \<Rightarrow> bytes \<Rightarrow> imu_sample \<Rightarrow> bool" where
  "of_set s p smp \<longleftrightarrow> is_accel smp = be_axes (mp_accel_scale s) p \<and> is_gyro smp = be_axes (mp_gyro_scale s) (drop 6 p)"

lemma be_axes_cong: "take 6 p = take 6 q \<Longrightarrow> 6 \<le> length p \<Longrightarrow> be_axes k p = be_axes k q"
proof -
  assume a: "take 6 p = take 6 q" "6 \<le> length p"
  then have "6 \<le> length q" by (metis length_take min.absorb_iff2 min.absorb2)
  then have "p ! i = q ! i" if "i < 6" for i using a that by (metis nth_take)
  then have "p ! 0 = q ! 0" "p ! 1 = q ! 1" "p ! 2 = q ! 2" "p ! 3 = q ! 3" "p ! 4 = q ! 4" "p ! 5 = q ! 5" by simp_all
  then show ?thesis using a(2) \<open>6 \<le> length q\<close> by (simp add: be_axes_def reg_s16be_def)
qed

lemma of_set_cong: "take 12 p = take 12 q \<Longrightarrow> 12 \<le> length p \<Longrightarrow> of_set s p smp \<longleftrightarrow> of_set s q smp"
proof -
  assume a: "take 12 p = take 12 q" "12 \<le> length p"
  have "take 6 (take 12 p) = take 6 (take 12 q)" "take 6 (drop 6 (take 12 p)) = take 6 (drop 6 (take 12 q))" using a(1) by simp_all
  then have "take 6 p = take 6 q" "take 6 (drop 6 p) = take 6 (drop 6 q)" by (simp_all add: take_drop)
  then have "be_axes k p = be_axes k q" "be_axes k (drop 6 p) = be_axes k (drop 6 q)" for k using a(2) by (auto intro!: be_axes_cong)
  then show ?thesis by (simp add: of_set_def)
qed

lemma be_sets_facts:
  assumes "n \<le> length buf"
  shows "length (fst (be_sets a g n raw (buf, seq))) = length buf \<and>
    snd (be_sets a g n raw (buf, seq)) = seq + of_nat n \<and>
    (\<forall>k < n. is_accel (fst (be_sets a g n raw (buf, seq)) ! k) = be_axes a (drop (k * 12) raw) \<and>
       is_gyro (fst (be_sets a g n raw (buf, seq)) ! k) = be_axes g (drop 6 (drop (k * 12) raw)) \<and>
       is_seq (fst (be_sets a g n raw (buf, seq)) ! k) = seq + of_nat k) \<and>
    (\<forall>j \<ge> n. fst (be_sets a g n raw (buf, seq)) ! j = buf ! j)"
  using assms
proof (induction n)
  case (Suc n)
  obtain b q where bq: "be_sets a g n raw (buf, seq) = (b, q)" by fastforce
  have e: "be_sets a g (Suc n) raw (buf, seq) = (b[n := be_set a g q (drop (n * 12) raw) (b ! n)], q + 1)"
    using bq by (simp add: be_sets_def FIFO_SAMPLE_BYTES_def)
  have IH: "length b = length buf" "q = seq + of_nat n" "\<forall>j \<ge> n. b ! j = buf ! j"
    "\<forall>k < n. is_accel (b ! k) = be_axes a (drop (k * 12) raw) \<and> is_gyro (b ! k) = be_axes g (drop 6 (drop (k * 12) raw)) \<and>
       is_seq (b ! k) = seq + of_nat k"
    using Suc bq by simp_all
  show ?case unfolding e using IH Suc.prems by (auto simp: be_set_def nth_list_update less_Suc_eq)
qed (simp add: be_sets_def)

lemma be_temp_facts:
  "length (be_temp n tmp buf) = length buf \<and> (\<forall>k < length buf. is_accel (be_temp n tmp buf ! k) = is_accel (buf ! k) \<and>
     is_gyro (be_temp n tmp buf ! k) = is_gyro (buf ! k))"
proof -
  have "length (fold (\<lambda>i buf. buf[i := (buf ! i)\<lparr>is_temp_c := t\<rparr>]) is buf) = length buf \<and>
    (\<forall>k < length buf. is_accel (fold (\<lambda>i buf. buf[i := (buf ! i)\<lparr>is_temp_c := t\<rparr>]) is buf ! k) = is_accel (buf ! k) \<and>
       is_gyro (fold (\<lambda>i buf. buf[i := (buf ! i)\<lparr>is_temp_c := t\<rparr>]) is buf ! k) = is_gyro (buf ! k))" for "is" t
  proof (induction "is" arbitrary: buf)
    case (Cons i "is")
    from Cons [of "buf[i := (buf ! i)\<lparr>is_temp_c := t\<rparr>]"] show ?case
      by (cases "i < length buf") (auto simp: nth_list_update)
  qed simp
  then show ?thesis unfolding be_temp_def Let_def by blast
qed

text \<open>What both drains do with the bytes of a read.\<close>

definition decoded :: "mpu_drv \<Rightarrow> nat \<Rightarrow> bytes \<Rightarrow> imu_sample list \<Rightarrow> imu_sample list \<Rightarrow> bool" where
  "decoded s n f buf buf' \<longleftrightarrow> length buf' = length buf \<and> (\<forall>k < n. of_set s (take 12 (drop (k * 12) f)) (buf' ! k))"

lemma decoded_sets:
  assumes "n \<le> length buf" "n * 12 \<le> length f"
    and "be_sets (mp_accel_scale s) (mp_gyro_scale s) n (take (n * 12) f) (buf, q) = (b, q')"
    and "b' = (case tmp of Some t \<Rightarrow> be_temp n t b | None \<Rightarrow> b)"
  shows "decoded s n f buf b'"
proof -
  note S = be_sets_facts [OF assms(1), of "mp_accel_scale s" "mp_gyro_scale s" "take (n * 12) f" q, unfolded assms(3), simplified]
  have same: "length b' = length b" "\<And>k. k < length b \<Longrightarrow> is_accel (b' ! k) = is_accel (b ! k) \<and> is_gyro (b' ! k) = is_gyro (b ! k)"
    using be_temp_facts unfolding assms(4) by (cases tmp; simp)+
  have "of_set s (take 12 (drop (k * 12) f)) (b' ! k)" if k: "k < n" for k
  proof -
    have "(k + 1) * 12 \<le> n * 12" using k by (intro mult_right_mono) simp_all
    then have t: "take 12 (drop (k * 12) (take (n * 12) f)) = take 12 (drop (k * 12) f)" "12 \<le> length (drop (k * 12) (take (n * 12) f))"
      using assms(2) by (auto simp: drop_take min_def)
    have "of_set s (drop (k * 12) (take (n * 12) f)) (b' ! k)"
      using S same(2) [of k] k assms(1) by (simp add: of_set_def)
    then show ?thesis using of_set_cong [of "drop (k * 12) (take (n * 12) f)" "take 12 (drop (k * 12) f)" s "b' ! k"] t by simp
  qed
  then show ?thesis unfolding decoded_def using same(1) S by simp
qed

section \<open>A part that loses bytes\<close>

text \<open>A part with a FIFO of 512 bytes that drops its oldest bytes for a new set, and then latches a flag.\<close>

record sets_part =
  sp_fifo :: bytes
  sp_ovr :: bool

definition sp_push :: "bytes \<Rightarrow> sets_part \<Rightarrow> sets_part" where
  "sp_push p d =
     (let f = sp_fifo d @ p
      in if length f > FIFO_BYTES then d\<lparr>sp_fifo := drop (length f - FIFO_BYTES) f, sp_ovr := True\<rparr> else d\<lparr>sp_fifo := f\<rparr>)"

definition count_bytes :: "nat \<Rightarrow> bytes" where "count_bytes n = [of_nat (n div 256), of_nat (n mod 256)]"

definition mpu_bus :: "sets_part imud_bus \<Rightarrow> bool" where
  "mpu_bus bus \<longleftrightarrow>
     (\<forall>d. bus_burst_read bus MPU_FIFO_COUNTH 2 d = (Some (count_bytes (length (sp_fifo d))), d) \<and>
        bus_reg_read bus MPU_INT_STATUS d = (Some (if sp_ovr d then 0x10 else 0), d\<lparr>sp_ovr := False\<rparr>) \<and>
        snd (bus_burst_read bus MPU_TEMP_OUT_H 2 d) = d \<and>
        fifo_restart bus d = (True, d\<lparr>sp_fifo := []\<rparr>) \<and>
        (\<forall>k \<le> length (sp_fifo d). bus_burst_read bus MPU_FIFO_R_W k d = (Some (take k (sp_fifo d)), d\<lparr>sp_fifo := drop k (sp_fifo d)\<rparr>)))"

definition ic2_bus :: "sets_part imud_bus \<Rightarrow> bool" where
  "ic2_bus bus \<longleftrightarrow>
     (\<forall>d. bus_burst_read bus B0_FIFO_COUNTH 2 d = (Some (count_bytes (length (sp_fifo d))), d) \<and>
        snd (bus_burst_read bus B0_TEMP_OUT_H 2 d) = d \<and>
        (\<forall>k \<le> length (sp_fifo d). bus_burst_read bus B0_FIFO_R_W k d = (Some (take k (sp_fifo d)), d\<lparr>sp_fifo := drop k (sp_fifo d)\<rparr>)))"

lemma count_read:
  assumes "n \<le> 512"
  shows "unat (push_bit 8 (ucast (count_bytes n ! 0 AND 0x1F)) OR ucast (count_bytes n ! 1) :: u16) = n"
proof -
  have "n div 256 = 0 \<or> n div 256 = 1 \<or> n div 256 = 2" using assms by linarith
  then have "of_nat (n div 256) AND (0x1F :: u8) = (of_nat (n div 256) OR (if False then 0x40 else 0)) AND 0x03" by auto
  then show ?thesis using status_count(1) [of n False] assms by (simp add: count_bytes_def)
qed

text \<open>A drain of the MPU-925x from an intact FIFO, and one that finds the flag set.\<close>

lemma mpu_read_intact:
  assumes "mpu_bus bus" "\<not> sp_ovr d" "length (sp_fifo d) \<le> 512" "room \<le> length buf"
  shows "case mpu_read bus buf room s d of ((rc, n, buf'), s', d') \<Rightarrow>
    n * 12 \<le> length (sp_fifo d) \<and> n \<le> room \<and> decoded s n (sp_fifo d) buf buf' \<and> d' = d\<lparr>sp_fifo := drop (n * 12) (sp_fifo d)\<rparr> \<and>
    mp_accel_scale s' = mp_accel_scale s \<and> mp_gyro_scale s' = mp_gyro_scale s \<and>
    (0 < room \<longrightarrow> rc = 0 \<and> n = min (length (sp_fifo d) div 12) (min room 128))"
proof -
  let ?f = "sp_fifo d"
  have b: "bus_burst_read bus MPU_FIFO_COUNTH 2 d = (Some (count_bytes (length ?f)), d)"
    "bus_reg_read bus MPU_INT_STATUS d = (Some 0, d\<lparr>sp_ovr := False\<rparr>)"
    "snd (bus_burst_read bus MPU_TEMP_OUT_H 2 d') = d'"
    "k \<le> length ?f \<Longrightarrow> bus_burst_read bus MPU_FIFO_R_W k d = (Some (take k ?f), d\<lparr>sp_fifo := drop k ?f\<rparr>)" for d' k
    using assms(1,2) unfolding mpu_bus_def by simp_all
  have same: "d\<lparr>sp_ovr := False\<rparr> = d" "d\<lparr>sp_fifo := ?f\<rparr> = d" using assms(2) by (cases d; simp)+
  define n where "n = min (length ?f div 12) (min room 128)"
  have n12: "n * 12 \<le> length ?f" unfolding n_def by (meson div_times_less_eq_dividend min.cobounded1 mult_le_mono1 order_trans)
  show ?thesis
  proof (cases "length ?f div 12 = 0 \<or> room = 0")
    case True
    have "mpu_read bus buf room s d = (((if length ?f div 12 = 0 then 0 else -1), 0, buf), s, d)"
      unfolding mpu_read_def b prod.case option.case Let_def count_read [OF assms(3)] same
      using True by (auto simp: FIFO_SAMPLE_BYTES_def)
    then show ?thesis using True by (auto simp: decoded_def same)
  next
    case False
    obtain bs q where sets: "be_sets (mp_accel_scale s) (mp_gyro_scale s) n (take (n * 12) ?f) (buf, mp_seq s) = (bs, q)" by fastforce
    obtain tmp where tmp: "bus_burst_read bus MPU_TEMP_OUT_H 2 (d\<lparr>sp_fifo := drop (n * 12) ?f\<rparr>) = (tmp, d\<lparr>sp_fifo := drop (n * 12) ?f\<rparr>)"
      using b(3) [of "d\<lparr>sp_fifo := drop (n * 12) ?f\<rparr>"] by (cases "bus_burst_read bus MPU_TEMP_OUT_H 2 (d\<lparr>sp_fifo := drop (n * 12) ?f\<rparr>)") simp
    let ?b = "case tmp of Some t \<Rightarrow> be_temp n t bs | None \<Rightarrow> bs"
    have clamp: "(if (if length ?f div 12 > room then room else length ?f div 12) > MPU_MAX_SETS then MPU_MAX_SETS
        else (if length ?f div 12 > room then room else length ?f div 12)) = n"
      unfolding n_def MPU_MAX_SETS_def by (auto simp: min_def)
    have pos: "\<not> n * 12 < 12" using False by (auto simp: n_def)
    have "mpu_read bus buf room s d = ((0, n, ?b), s\<lparr>mp_seq := q\<rparr>, d\<lparr>sp_fifo := drop (n * 12) ?f\<rparr>)"
      unfolding mpu_read_def b(1,2) prod.case option.case Let_def count_read [OF assms(3)] same FIFO_SAMPLE_BYTES_def clamp b(4) [OF n12] sets
      unfolding tmp using False pos by simp
    moreover have "decoded s n ?f buf (?b)"
      by (rule decoded_sets [OF _ n12 sets, of ?b tmp]) (use assms(4) in \<open>simp_all add: n_def\<close>)
    ultimately show ?thesis using n12 by (simp add: n_def)
  qed
qed

lemma mpu_read_overrun:
  assumes "mpu_bus bus" "sp_ovr d" "length (sp_fifo d) \<le> 512"
  shows "mpu_read bus buf room s d = ((1, 0, buf), s, d\<lparr>sp_ovr := False, sp_fifo := []\<rparr>)"
  using assms(1,2) unfolding mpu_bus_def mpu_read_def by (simp add: Let_def)

section \<open>Runs of the part and of the driver\<close>

datatype fifo_event = Sample bytes | Drain nat

definition samples_of :: "fifo_event list \<Rightarrow> bytes list" where
  "samples_of es = concat (map (\<lambda>e. case e of Sample p \<Rightarrow> [p] | Drain _ \<Rightarrow> []) es)"

definition fifo_events :: "nat \<Rightarrow> fifo_event list \<Rightarrow> bool" where
  "fifo_events cap es \<longleftrightarrow> (\<forall>e \<in> set es. case e of Sample p \<Rightarrow> length p = 12 | Drain room \<Rightarrow> room \<le> cap)"

definition mpu_event :: "sets_part imud_bus \<Rightarrow> imu_sample list \<Rightarrow> fifo_event \<Rightarrow> mpu_drv \<times> sets_part \<times> imu_sample list \<Rightarrow>
    mpu_drv \<times> sets_part \<times> imu_sample list" where
  "mpu_event bus buf e x =
     (case x of (s, d, out) \<Rightarrow>
        (case e of Sample p \<Rightarrow> (s, sp_push p d, out)
         | Drain room \<Rightarrow> (case mpu_read bus buf room s d of ((rc, n, buf'), s, d) \<Rightarrow> (s, d, out @ take n buf'))))"

definition mpu_run :: "sets_part imud_bus \<Rightarrow> imu_sample list \<Rightarrow> fifo_event list \<Rightarrow> mpu_drv \<times> sets_part \<times> imu_sample list \<Rightarrow>
    mpu_drv \<times> sets_part \<times> imu_sample list" where
  "mpu_run bus buf es x = fold (mpu_event bus buf) es x"

text \<open>Samples \<open>us\<close> were delivered; unless the flag is set, the FIFO holds whole sets \<open>qs\<close> that came after them.\<close>

definition framed :: "mpu_drv \<Rightarrow> bytes list \<Rightarrow> mpu_drv \<times> sets_part \<times> imu_sample list \<Rightarrow> bool" where
  "framed s0 ps x \<longleftrightarrow>
     (case x of (s, d, out) \<Rightarrow>
        mp_accel_scale s = mp_accel_scale s0 \<and> mp_gyro_scale s = mp_gyro_scale s0 \<and> length (sp_fifo d) \<le> 512 \<and>
        (\<exists>us qs. subseq (us @ qs) ps \<and> list_all2 (of_set s0) us out \<and> (\<forall>q \<in> set qs. length q = 12) \<and> (sp_ovr d \<or> sp_fifo d = concat qs)))"

lemma set_at: "\<forall>q \<in> set qs. length q = 12 \<Longrightarrow> k < length qs \<Longrightarrow> take 12 (drop (k * 12) (concat qs)) = qs ! k"
proof (induction qs arbitrary: k)
  case (Cons q qs)
  then show ?case by (cases k) simp_all
qed simp

lemma sets_from: "\<forall>q \<in> set qs. length q = 12 \<Longrightarrow> drop (k * 12) (concat qs) = concat (drop k qs)"
proof (induction qs arbitrary: k)
  case (Cons q qs)
  then show ?case by (cases k) simp_all
qed simp

lemma sets_length: "\<forall>q \<in> set qs. length q = 12 \<Longrightarrow> length (concat qs) = 12 * length qs"
  by (induction qs) simp_all

lemma framedI:
  assumes "subseq (us @ qs) ps" "list_all2 (of_set s0) us out" "\<forall>q \<in> set qs. length q = 12" "sp_ovr d \<or> sp_fifo d = concat qs"
    and "mp_accel_scale s = mp_accel_scale s0" "mp_gyro_scale s = mp_gyro_scale s0" "length (sp_fifo d) \<le> 512"
  shows "framed s0 ps (s, d, out)"
  using assms by (auto simp: framed_def)

lemma framed_push:
  assumes "framed s0 ps (s, d, out)" "length p = 12"
  shows "framed s0 (ps @ [p]) (s, sp_push p d, out)"
proof -
  obtain us qs where i: "subseq (us @ qs) ps" "list_all2 (of_set s0) us out" "\<forall>q \<in> set qs. length q = 12" "sp_ovr d \<or> sp_fifo d = concat qs"
    "mp_accel_scale s = mp_accel_scale s0" "mp_gyro_scale s = mp_gyro_scale s0" "length (sp_fifo d) \<le> 512"
    using assms(1) by (auto simp: framed_def)
  have len: "length (sp_fifo (sp_push p d)) \<le> 512" using i(7) by (auto simp: sp_push_def Let_def FIFO_BYTES_def)
  show ?thesis
  proof (cases "sp_ovr (sp_push p d)")
    case True
    have "subseq us (ps @ [p])" using i(1) by (meson list_emb_append2 prefixI prefix_imp_subseq subseq_order.trans list_emb_prefix)
    then show ?thesis by (intro framedI [of us "[]"]) (use i(2,5,6) len True in simp_all)
  next
    case False
    then have f: "sp_fifo (sp_push p d) = concat (qs @ [p])" using i(4) by (auto simp: sp_push_def Let_def split: if_splits)
    have "subseq ((us @ qs) @ [p]) (ps @ [p])" using i(1) by (intro list_emb_append_mono) simp_all
    then show ?thesis by (intro framedI [of us "qs @ [p]"]) (use i(2,3,5,6) len f assms(2) in auto)
  qed
qed

lemma framed_drain:
  assumes "framed s0 ps (s, d, out)" "mpu_bus bus" "room \<le> length buf"
  shows "framed s0 ps (mpu_event bus buf (Drain room) (s, d, out))"
proof -
  obtain us qs where i: "subseq (us @ qs) ps" "list_all2 (of_set s0) us out" "\<forall>q \<in> set qs. length q = 12" "sp_ovr d \<or> sp_fifo d = concat qs"
    "mp_accel_scale s = mp_accel_scale s0" "mp_gyro_scale s = mp_gyro_scale s0" "length (sp_fifo d) \<le> 512"
    using assms(1) by (auto simp: framed_def)
  show ?thesis
  proof (cases "sp_ovr d")
    case True
    have "subseq us ps" using i(1) by (meson prefixI prefix_imp_subseq subseq_order.trans)
    then have "framed s0 ps (s, d\<lparr>sp_ovr := False, sp_fifo := []\<rparr>, out)" by (intro framedI [of us "[]"]) (use i(2,5,6) in simp_all)
    then show ?thesis using mpu_read_overrun [OF assms(2) True i(7), of buf room s] by (simp add: mpu_event_def)
  next
    case False
    then have f: "sp_fifo d = concat qs" using i(4) by simp
    obtain rc n buf' s' d' where r: "mpu_read bus buf room s d = ((rc, n, buf'), s', d')" by (metis prod_cases3 surj_pair)
    have R: "n * 12 \<le> length (sp_fifo d)" "n \<le> room" "decoded s n (sp_fifo d) buf buf'" "d' = d\<lparr>sp_fifo := drop (n * 12) (sp_fifo d)\<rparr>"
      "mp_accel_scale s' = mp_accel_scale s" "mp_gyro_scale s' = mp_gyro_scale s"
      using mpu_read_intact [OF assms(2) False i(7) assms(3), of s] unfolding r by simp_all
    have n: "n \<le> length qs" using R(1) unfolding f sets_length [OF i(3)] by simp
    have of: "of_set s = of_set s0" using i(5,6) by (simp add: of_set_def fun_eq_iff)
    have "list_all2 (of_set s0) (take n qs) (take n buf')"
      unfolding list_all2_conv_all_nth
      using R(2,3) n assms(3) set_at [OF i(3)] by (auto simp: decoded_def f of)
    then have "list_all2 (of_set s0) (us @ take n qs) (out @ take n buf')" using i(2) by (rule list_all2_appendI [rotated])
    moreover have "length (sp_fifo d') \<le> 512" using R(4) i(7) by simp
    moreover have "sp_fifo d' = concat (drop n qs)" using R(4) sets_from [OF i(3)] f by simp
    moreover have "subseq ((us @ take n qs) @ drop n qs) ps" using i(1) by simp
    moreover have "\<forall>q \<in> set (drop n qs). length q = 12" using i(3) by (auto dest: in_set_dropD)
    ultimately show ?thesis unfolding mpu_event_def framed_def prod.case fifo_event.case r using R(5,6) i(5,6) by metis
  qed
qed

text \<open>C37: The drain of the MPU-925x never hands on a torn sample. However sample sets and drains alternate, and however often
  the part's 512 bytes run over and the oldest bytes, which are no whole number of sets, are lost: what the drains
  deliver are samples the part took, whole, in their order, and none twice.\<close>

theorem mpu_never_torn:
  assumes "mpu_bus bus" "fifo_events (length buf) es" "sp_fifo d = []" "\<not> sp_ovr d"
  shows "case mpu_run bus buf es (s, d, []) of (s', d', out) \<Rightarrow> \<exists>us. subseq us (samples_of es) \<and> list_all2 (of_set s) us out"
proof -
  have "framed s (samples_of es) (mpu_run bus buf es (s, d, []))"
    using assms(2)
  proof (induction es rule: rev_induct)
    case Nil
    then show ?case using assms(3) by (auto simp: mpu_run_def framed_def samples_of_def)
  next
    case (snoc e es)
    obtain s' d' out where x: "mpu_run bus buf es (s, d, []) = (s', d', out)" by (rule prod_cases3)
    have I: "framed s (samples_of es) (s', d', out)" using snoc x by (simp add: fifo_events_def)
    have e: "mpu_run bus buf (es @ [e]) (s, d, []) = mpu_event bus buf e (s', d', out)" using x by (simp add: mpu_run_def)
    show ?case
    proof (cases e)
      case (Sample p)
      then have "length p = 12" using snoc.prems by (simp add: fifo_events_def)
      then show ?thesis using framed_push [OF I] unfolding e unfolding Sample by (simp add: mpu_event_def samples_of_def)
    next
      case (Drain room)
      then have "room \<le> length buf" using snoc.prems by (simp add: fifo_events_def)
      then show ?thesis using framed_drain [OF I assms(1)] unfolding e unfolding Drain by (simp add: samples_of_def)
    qed
  qed
  then obtain us qs where u: "subseq (us @ qs) (samples_of es)" "list_all2 (of_set s) us (snd (snd (mpu_run bus buf es (s, d, []))))"
    by (auto simp: framed_def split: prod.splits)
  have "subseq us (samples_of es)" using u(1) by (meson prefixI prefix_imp_subseq subseq_order.trans)
  then show ?thesis using u(2) by (auto split: prod.splits)
qed

text \<open>A part of this kind on I2C.\<close>

definition mpu_answer :: "u8 \<Rightarrow> nat \<Rightarrow> sets_part \<Rightarrow> bytes option \<times> sets_part" where
  "mpu_answer reg n d =
     (if reg = MPU_FIFO_COUNTH then (Some (count_bytes (length (sp_fifo d))), d)
      else if reg = MPU_INT_STATUS then (Some [if sp_ovr d then 0x10 else 0], d\<lparr>sp_ovr := False\<rparr>)
      else if reg = MPU_FIFO_R_W then (Some (take n (sp_fifo d)), d\<lparr>sp_fifo := drop n (sp_fifo d)\<rparr>) else (None, d))"

definition mpu_i2c :: "sets_part imud_bus" where
  "mpu_i2c = bus_init\<lparr>bus_be := Some \<lparr>be_scheme = None, be_open = \<lambda>_ d. (3, d), be_close = \<lambda>_ d. d,
     be_spi_setup = \<lambda>_ _ _ _ d. (0, d),
     be_i2c_xfer = \<lambda>_ _ tx n d.
       (if length tx = 1 then (case mpu_answer (hd tx) n d of (r, d) \<Rightarrow> (map_option (!) r, d))
        else (Some (\<lambda>_. 0), if tx = [MPU_USER_CTRL, USER_CTRL_FIFO_RST] then d\<lparr>sp_fifo := []\<rparr> else d)),
     be_spi_msg = \<lambda>_ _ _ d. (None, d)\<rparr>\<rparr>"

lemma mpu_i2c_ok: "mpu_bus mpu_i2c"
proof -
  have r: "bus_burst_read mpu_i2c reg n d = (case mpu_answer reg n d of (r, d') \<Rightarrow> (map_option (\<lambda>bs. map ((!) bs) [0..<n]) r, d'))"
    for reg n d
    by (simp add: bus_burst_read_def i2c_burst_read_def mpu_i2c_def bus_init_def option.map_comp comp_def split: prod.split)
  have w: "bus_reg_write mpu_i2c reg v d = (True, if reg = MPU_USER_CTRL \<and> v = USER_CTRL_FIFO_RST then d\<lparr>sp_fifo := []\<rparr> else d)" for reg v d
    by (simp add: bus_reg_write_def i2c_reg_write_def mpu_i2c_def bus_init_def)
  have full: "map ((!) bs) [0..<n] = bs" if "length bs = n" for bs :: bytes and n
    using that by (metis map_nth)
  have two: "length (count_bytes n) = 2" for n by (simp add: count_bytes_def)
  have rst: "fifo_restart mpu_i2c d = (True, d\<lparr>sp_fifo := []\<rparr>)" for d
    by (simp add: fifo_restart_def fifo_restart_writes_def w mpu_regs USER_CTRL_FIFO_RST_def USER_CTRL_FIFO_EN_def)
  show ?thesis unfolding mpu_bus_def
    by (intro allI conjI impI) (simp_all add: r rst bus_reg_read_def mpu_answer_def mpu_regs full two split: prod.split)
qed

theorem mpu_never_torn_witness:
  "case mpu_run mpu_i2c (replicate 4 blank) [Sample (replicate 12 1), Sample (replicate 12 2), Drain 4]
      (\<lparr>mp_accel_scale = 0, mp_gyro_scale = 0, mp_seq = 7\<rparr>, \<lparr>sp_fifo = [], sp_ovr = False\<rparr>, []) of (s', d', out) \<Rightarrow>
    \<exists>us. subseq us [replicate 12 1, replicate 12 2 :: bytes] \<and> length us = length out"
  using mpu_never_torn [OF mpu_i2c_ok, of "replicate 4 blank" "[Sample (replicate 12 1), Sample (replicate 12 2), Drain 4]"
      "\<lparr>sp_fifo = [], sp_ovr = False\<rparr>" "\<lparr>mp_accel_scale = 0, mp_gyro_scale = 0, mp_seq = 7\<rparr>"]
  by (auto simp: fifo_events_def samples_of_def split: prod.splits dest: list_all2_lengthD)

section \<open>The ICM-20948\<close>

lemma ic2_read_bytes:
  assumes "ic2_bus bus" "length (sp_fifo d) \<le> 512" "0 < room" "room \<le> length buf" "12 \<le> length (sp_fifo d)"
  defines "n \<equiv> min (length (sp_fifo d) div 12) (min room 128)"
  shows "\<exists>buf' q. ic2_read bus buf room s d =
      ((if 504 \<le> length (sp_fifo d) then 1 else 0, n, buf'), s\<lparr>mp_seq := q\<rparr>, d\<lparr>sp_fifo := drop (n * 12) (sp_fifo d)\<rparr>) \<and>
    decoded s n (sp_fifo d) buf buf'"
proof -
  let ?f = "sp_fifo d"
  have b: "bus_burst_read bus B0_FIFO_COUNTH 2 d = (Some (count_bytes (length ?f)), d)"
    "snd (bus_burst_read bus B0_TEMP_OUT_H 2 d') = d'"
    "k \<le> length ?f \<Longrightarrow> bus_burst_read bus B0_FIFO_R_W k d = (Some (take k ?f), d\<lparr>sp_fifo := drop k ?f\<rparr>)" for d' k
    using assms(1) unfolding ic2_bus_def by simp_all
  have n12: "n * 12 \<le> length ?f" unfolding n_def by (meson div_times_less_eq_dividend min.cobounded1 mult_le_mono1 order_trans)
  obtain bs q where sets: "be_sets (mp_accel_scale s) (mp_gyro_scale s) n (take (n * 12) ?f) (buf, mp_seq s) = (bs, q)" by fastforce
  obtain tmp where tmp: "bus_burst_read bus B0_TEMP_OUT_H 2 (d\<lparr>sp_fifo := drop (n * 12) ?f\<rparr>) = (tmp, d\<lparr>sp_fifo := drop (n * 12) ?f\<rparr>)"
    using b(2) [of "d\<lparr>sp_fifo := drop (n * 12) ?f\<rparr>"] by (cases "bus_burst_read bus B0_TEMP_OUT_H 2 (d\<lparr>sp_fifo := drop (n * 12) ?f\<rparr>)") simp
  let ?b = "case tmp of Some t \<Rightarrow> be_temp n t bs | None \<Rightarrow> bs"
  have clamp: "(if (if length ?f div 12 > room then room else length ?f div 12) > ICM_MAX_SETS then ICM_MAX_SETS
      else (if length ?f div 12 > room then room else length ?f div 12)) = n"
    unfolding n_def ICM_MAX_SETS_def by (auto simp: min_def)
  have pos: "\<not> n * 12 < 12" "length ?f div 12 \<noteq> 0" using assms(3,5) by (auto simp: n_def)
  have "ic2_read bus buf room s d = ((if 504 \<le> length ?f then 1 else 0, n, ?b), s\<lparr>mp_seq := q\<rparr>, d\<lparr>sp_fifo := drop (n * 12) ?f\<rparr>)"
    unfolding ic2_read_def b(1) prod.case option.case Let_def count_read [OF assms(2)] clamp b(3) [OF n12] sets
    unfolding tmp using pos by simp
  moreover have "decoded s n ?f buf ?b"
    by (rule decoded_sets [OF _ n12 sets, of ?b tmp]) (use assms(4) in \<open>simp_all add: n_def\<close>)
  ultimately show ?thesis by blast
qed

lemma push_all: "\<forall>q \<in> set qs. length q = 12 \<Longrightarrow> length (sp_fifo d) + 12 * length qs \<le> 512 \<Longrightarrow>
    fold sp_push qs d = d\<lparr>sp_fifo := sp_fifo d @ concat qs\<rparr>"
proof (induction qs arbitrary: d)
  case (Cons q qs)
  have "sp_push q d = d\<lparr>sp_fifo := sp_fifo d @ q\<rparr>" using Cons.prems by (simp add: sp_push_def Let_def FIFO_BYTES_def)
  then show ?case using Cons.IH [of "d\<lparr>sp_fifo := sp_fifo d @ q\<rparr>"] Cons.prems by simp
qed (simp add: sp_push_def)

text \<open>The bytes of sets whose first four are lost: every twelve of them belong to two sets.\<close>

lemma shifted_at:
  assumes "\<forall>q \<in> set qs. length q = 12" "Suc k < length qs"
  shows "take 12 (drop (k * 12) (drop 4 (concat qs))) = drop 4 (qs ! k) @ take 4 (qs ! Suc k)"
proof -
  have "drop (k * 12) (drop 4 (concat qs)) = drop 4 (drop (k * 12) (concat qs))" by (simp add: add.commute)
  also have "\<dots> = drop 4 (concat (drop k qs))" by (simp only: sets_from [OF assms(1)])
  also have "drop k qs = qs ! k # qs ! Suc k # drop (k + 2) qs" using assms(2) by (metis Cons_nth_drop_Suc Suc_lessD add_2_eq_Suc')
  finally show ?thesis using assms by simp
qed

text \<open>C38: The ICM-20948's drain does hand on torn samples, and does not recover. When 43 sample sets arrive between two drains
  the part drops the oldest four bytes for the last set; the next drain reports the overflow, but delivers 42 samples
  each put together of the end of one set and the beginning of the next, and leaves eight bytes behind. A sample set that
  arrives after that is delivered torn as well, and now without a report.\<close>

theorem ic2_read_torn:
  assumes "ic2_bus bus" "\<forall>q \<in> set qs. length q = 12" "length qs = 43" "sp_fifo d = []" "42 \<le> room" "room \<le> length buf"
  shows "case ic2_read bus buf room s (fold sp_push qs d) of ((rc, n, buf'), s', d') \<Rightarrow>
    rc = 1 \<and> n = 42 \<and> (\<forall>k < 42. of_set s (drop 4 (qs ! k) @ take 4 (qs ! Suc k)) (buf' ! k)) \<and>
    (\<forall>p. length p = 12 \<longrightarrow>
       (case ic2_read bus buf' room s' (sp_push p d') of ((rc2, n2, buf2), _) \<Rightarrow>
          rc2 = 0 \<and> n2 = 1 \<and> of_set s (drop 4 (qs ! 42) @ take 4 p) (buf2 ! 0)))"
proof -
  obtain ps z where qs: "qs = ps @ [z]" using assms(3) by (cases qs rule: rev_cases) auto
  have ps: "\<forall>q \<in> set ps. length q = 12" "length ps = 42" "length z = 12" using assms(2,3) by (simp_all add: qs)
  have c: "length (concat ps) = 504" "length (concat qs) = 516" using sets_length [OF ps(1)] sets_length [OF assms(2)] ps(2) assms(3) by simp_all
  define e where "e = fold sp_push qs d"
  have "fold sp_push ps d = d\<lparr>sp_fifo := concat ps\<rparr>" using push_all [OF ps(1), of d] assms(4) ps(2) by simp
  then have e: "sp_fifo e = drop 4 (concat qs)" using c(1) ps(3) by (simp add: e_def qs sp_push_def Let_def FIFO_BYTES_def)
  have le: "length (sp_fifo e) = 512" using e c(2) by simp
  have m1: "min (length (sp_fifo e) div 12) (min room 128) = 42" unfolding le using assms(5) by simp
  obtain b1 q1 where r1: "ic2_read bus buf room s e = ((1, 42, b1), s\<lparr>mp_seq := q1\<rparr>, e\<lparr>sp_fifo := drop 504 (sp_fifo e)\<rparr>)"
    "decoded s 42 (sp_fifo e) buf b1"
    using ic2_read_bytes [OF assms(1), of e room buf s, unfolded m1] assms(5,6) le by auto
  have t: "of_set s (drop 4 (qs ! k) @ take 4 (qs ! Suc k)) (b1 ! k)" if "k < 42" for k
  proof -
    have "of_set s (take 12 (drop (k * 12) (drop 4 (concat qs)))) (b1 ! k)" using r1(2) that unfolding decoded_def e by blast
    then show ?thesis using shifted_at [OF assms(2), of k] that assms(3) by (simp only:)
  qed
  let ?d = "e\<lparr>sp_fifo := drop 504 (sp_fifo e)\<rparr>"
  have rest: "drop 504 (sp_fifo e) = drop 4 z" "z = qs ! 42"
    using c(1) e ps(2) by (simp_all add: qs nth_append)
  have "case ic2_read bus b1 room (s\<lparr>mp_seq := q1\<rparr>) (sp_push p ?d) of ((rc2, n2, buf2), _) \<Rightarrow>
      rc2 = 0 \<and> n2 = 1 \<and> of_set s (drop 4 (qs ! 42) @ take 4 p) (buf2 ! 0)" if p: "length p = 12" for p
  proof -
    have f: "sp_fifo (sp_push p ?d) = drop 4 z @ p" using p ps(3) by (simp add: sp_push_def Let_def FIFO_BYTES_def rest(1))
    have l: "length (sp_fifo (sp_push p ?d)) = 20" unfolding f using p ps(3) by simp
    have m2: "min (length (sp_fifo (sp_push p ?d)) div 12) (min room 128) = 1" unfolding l using assms(5) by simp
    obtain b2 q2 where r2: "ic2_read bus b1 room (s\<lparr>mp_seq := q1\<rparr>) (sp_push p ?d) =
        ((0, 1, b2), s\<lparr>mp_seq := q2\<rparr>, (sp_push p ?d)\<lparr>sp_fifo := drop 12 (sp_fifo (sp_push p ?d))\<rparr>)"
      "decoded (s\<lparr>mp_seq := q1\<rparr>) 1 (sp_fifo (sp_push p ?d)) b1 b2"
      using ic2_read_bytes [OF assms(1), of "sp_push p ?d" room b1 "s\<lparr>mp_seq := q1\<rparr>", unfolded m2] l assms(5,6) r1(2) by (auto simp: decoded_def)
    have "of_set s (drop 4 z @ take 4 p) (b2 ! 0)" using r2(2) ps(3) unfolding f by (simp add: decoded_def of_set_def)
    then show ?thesis unfolding r2(1) rest(2) by simp
  qed
  then show ?thesis unfolding e_def [symmetric] r1(1) using t by simp
qed

definition ic2_answer :: "u8 \<Rightarrow> nat \<Rightarrow> sets_part \<Rightarrow> bytes option \<times> sets_part" where
  "ic2_answer reg n d =
     (if reg = B0_FIFO_COUNTH then (Some (count_bytes (length (sp_fifo d))), d)
      else if reg = B0_FIFO_R_W then (Some (take n (sp_fifo d)), d\<lparr>sp_fifo := drop n (sp_fifo d)\<rparr>) else (None, d))"

definition ic2_i2c :: "sets_part imud_bus" where
  "ic2_i2c = bus_init\<lparr>bus_be := Some \<lparr>be_scheme = None, be_open = \<lambda>_ d. (3, d), be_close = \<lambda>_ d. d,
     be_spi_setup = \<lambda>_ _ _ _ d. (0, d),
     be_i2c_xfer = \<lambda>_ _ tx n d. (case ic2_answer (hd tx) n d of (r, d) \<Rightarrow> (map_option (!) r, d)),
     be_spi_msg = \<lambda>_ _ _ d. (None, d)\<rparr>\<rparr>"

lemma ic2_i2c_ok: "ic2_bus ic2_i2c"
proof -
  have r: "bus_burst_read ic2_i2c reg n d = (case ic2_answer reg n d of (r, d') \<Rightarrow> (map_option (\<lambda>bs. map ((!) bs) [0..<n]) r, d'))"
    for reg n d
    by (simp add: bus_burst_read_def i2c_burst_read_def ic2_i2c_def bus_init_def option.map_comp comp_def split: prod.split)
  have full: "map ((!) bs) [0..<n] = bs" if "length bs = n" for bs :: bytes and n
    using that by (metis map_nth)
  have two: "length (count_bytes n) = 2" for n by (simp add: count_bytes_def)
  show ?thesis unfolding ic2_bus_def
    by (intro allI conjI impI) (simp_all add: r ic2_answer_def ic2_regs full two)
qed

theorem ic2_read_torn_witness:
  "fst (fst (ic2_read ic2_i2c (replicate 42 blank) 42 \<lparr>mp_accel_scale = 0, mp_gyro_scale = 0, mp_seq = 7\<rparr>
     (fold sp_push (replicate 43 (replicate 12 1)) \<lparr>sp_fifo = [], sp_ovr = False\<rparr>))) = 1"
  using ic2_read_torn [OF ic2_i2c_ok, of "replicate 43 (replicate 12 1)" "\<lparr>sp_fifo = [], sp_ovr = False\<rparr>" 42 "replicate 42 blank"
      "\<lparr>mp_accel_scale = 0, mp_gyro_scale = 0, mp_seq = 7\<rparr>"]
  by (auto split: prod.splits)

end
