(* ===== verification/Rates.thy ===== *)
theory Rates
  imports Lsm6dso Icm20948 Icm42688 MagDrivers
begin

text \<open>
  The rates of the drivers. include/drivers.h passes a driver the rate it said it would program, so that its own rounding
  does nothing more: a rate the driver answers with is one it keeps, and programs like the rate that was asked for.
\<close>

text \<open>A divider of a base clock: the rate it reaches has the divider for its nearest.\<close>

lemma divider_kept:
  fixes base d :: int
  assumes "1 \<le> d" "d \<le> 256" "1000000 \<le> base"
  shows "(base + (base div d) div 2) div (base div d) = d"
proof -
  define a r where "a = base div d" and "r = base mod d"
  have b: "base = a * d + r" "0 \<le> r" "r < d" using assms(1) by (simp_all add: a_def r_def)
  have "1000000 div 256 \<le> a"
  proof -
    have "1000000 div 256 \<le> base div 256" using assms(3) by (rule zdiv_mono1) simp
    also have "\<dots> \<le> base div d" using assms by (intro zdiv_mono2) simp_all
    finally show ?thesis by (simp add: a_def)
  qed
  then have a: "3906 \<le> a" by simp
  have "r + a div 2 < a" "0 \<le> r + a div 2" using a b(2,3) assms(2) by linarith+
  then have "(r + a div 2) div a = 0" by simp
  moreover have "base + a div 2 = (r + a div 2) + d * a" using b(1) by (simp add: algebra_simps)
  ultimately have "(base + a div 2) div a = d" using a div_mult_self1 [of a "r + a div 2" d] by (simp only:)
  then show ?thesis by (simp add: a_def)
qed

lemma divider_value:
  assumes "0 \<le> k" "k \<le> 255"
  shows "uint (word_of_int k :: u8) = k"
  using assms by (simp add: unsigned_of_int take_bit_int_eq_self)

definition nearest_div :: "int \<Rightarrow> int \<Rightarrow> int" where
  "nearest_div base odr =
     (if odr \<le> 0 then 0
      else let k = (base + odr div 2) div odr - 1; k = (if k < 0 then 0 else k) in if k > 255 then 255 else k)"

lemma nearest_range: "0 \<le> nearest_div base odr" "nearest_div base odr \<le> 255"
  by (simp_all add: nearest_div_def Let_def)

lemma nearest_kept:
  assumes "1000000 \<le> base"
  shows "nearest_div base (base div (1 + nearest_div base odr)) = nearest_div base odr"
proof -
  let ?d = "1 + nearest_div base odr"
  have d: "1 \<le> ?d" "?d \<le> 256" using nearest_range [of base odr] by simp_all
  have "base div 256 \<le> base div ?d" using d assms by (intro zdiv_mono2) simp_all
  moreover have "1000000 div 256 \<le> base div 256" using assms by (rule zdiv_mono1) simp
  ultimately have "0 < base div ?d" by simp
  then show ?thesis using divider_kept [OF d assms] nearest_range [of base odr]
    unfolding nearest_div_def [of base "base div ?d"] Let_def by simp
qed

lemma mpu_div: "uint (smplrt_div_encode odr) = nearest_div 1000000 odr" "smplrt_div_encode odr = word_of_int (nearest_div 1000000 odr)"
proof -
  show e: "smplrt_div_encode odr = word_of_int (nearest_div 1000000 odr)"
    unfolding smplrt_div_encode_def nearest_div_def Let_def by simp
  show "uint (smplrt_div_encode odr) = nearest_div 1000000 odr" unfolding e by (rule divider_value [OF nearest_range])
qed

lemma ic2_div: "uint (gyro_smplrt_div odr) = nearest_div 1125000 odr" "gyro_smplrt_div odr = word_of_int (nearest_div 1125000 odr)"
proof -
  show e: "gyro_smplrt_div odr = word_of_int (nearest_div 1125000 odr)"
    unfolding gyro_smplrt_div_def nearest_div_def Let_def by simp
  show "uint (gyro_smplrt_div odr) = nearest_div 1125000 odr" unfolding e by (rule divider_value [OF nearest_range])
qed

lemma ic2_accel_div: "uint (accel_smplrt_div (1125000 div (1 + nearest_div 1125000 odr))) = nearest_div 1125000 odr"
proof -
  let ?d = "1 + nearest_div 1125000 odr" and ?a = "1125000 div (1 + nearest_div 1125000 odr)"
  have d: "1 \<le> ?d" "?d \<le> 256" using nearest_range [of 1125000 odr] by simp_all
  have "1125000 div 256 \<le> ?a" using d by (intro zdiv_mono2) simp_all
  then have p: "0 < ?a" by simp
  have "(1125000 + ?a div 2) div ?a = ?d" by (rule divider_kept [OF d]) simp
  then have "accel_smplrt_div ?a = word_of_int (nearest_div 1125000 odr)"
    unfolding accel_smplrt_div_def Let_def using p nearest_range [of 1125000 odr] by simp
  then show ?thesis using nearest_range [of 1125000 odr] by (simp add: unsigned_of_int take_bit_int_eq_self)
qed

text \<open>A ladder of rates, each with its code.\<close>

lemma ladder_kept:
  "ism_odr_actual (ism_odr_actual x) = ism_odr_actual x \<and> ism_odr_encode (ism_odr_actual x) = ism_odr_encode x"
  "lsm_odr_actual (lsm_odr_actual x) = lsm_odr_actual x \<and> lsm_odr_encode (lsm_odr_actual x) = lsm_odr_encode x"
  "icm_odr_actual (icm_odr_actual x) = icm_odr_actual x \<and> icm_odr_encode (icm_odr_actual x) = icm_odr_encode x"
  "mmc_actual_odr_mhz (mmc_actual_odr_mhz x) = mmc_actual_odr_mhz x \<and> mmc_odr_encode (mmc_actual_odr_mhz x) = mmc_odr_encode x"
  unfolding ism_odr_actual_def ism_odr_encode_def lsm_odr_actual_def lsm_odr_encode_def icm_odr_actual_def icm_odr_encode_def
    mmc_actual_odr_mhz_def mmc_odr_encode_def MMC_DELIVERED_def
  by simp_all

lemma divided_rates:
  "mpu_actual_odr_mhz (mpu_actual_odr_mhz x) = mpu_actual_odr_mhz x \<and> smplrt_div_encode (mpu_actual_odr_mhz x) = smplrt_div_encode x \<and>
   ic2_actual_odr_mhz (ic2_actual_odr_mhz x) = ic2_actual_odr_mhz x \<and> gyro_smplrt_div (ic2_actual_odr_mhz x) = gyro_smplrt_div x \<and>
   uint (accel_smplrt_div (ic2_actual_odr_mhz x)) = uint (gyro_smplrt_div x)"
proof -
  have m: "smplrt_div_encode (mpu_actual_odr_mhz x) = smplrt_div_encode x"
    unfolding mpu_actual_odr_mhz_def mpu_odr_actual_def mpu_div(1) unfolding mpu_div(2) nearest_kept [OF order_refl] ..
  moreover have "mpu_actual_odr_mhz (mpu_actual_odr_mhz x) = mpu_actual_odr_mhz x"
    by (subst (1) mpu_actual_odr_mhz_def) (simp add: m, simp add: mpu_actual_odr_mhz_def)
  moreover have i: "gyro_smplrt_div (ic2_actual_odr_mhz x) = gyro_smplrt_div x"
    using nearest_kept [of 1125000 x] unfolding ic2_actual_odr_mhz_def ic2_div(1) unfolding ic2_div(2) by simp
  moreover have "ic2_actual_odr_mhz (ic2_actual_odr_mhz x) = ic2_actual_odr_mhz x"
    by (subst (1) ic2_actual_odr_mhz_def) (simp add: i, simp add: ic2_actual_odr_mhz_def)
  moreover have "uint (accel_smplrt_div (ic2_actual_odr_mhz x)) = uint (gyro_smplrt_div x)"
    using ic2_accel_div [of x] unfolding ic2_actual_odr_mhz_def ic2_div(1) .
  ultimately show ?thesis by blast
qed

end
