(* ===== verification/Drivers.thy ===== *)
theory Drivers
  imports Rates Latency
begin

text \<open>
  src/drivers.c: the registered drivers, how one is found by its name, and the check of the configured ranges; with them
  what the drivers say of themselves. A rate the daemon resolves (Latency.odr_actual) meets the drivers here.
\<close>

section \<open>The registry\<close>

text \<open>Of the tables of a driver those a decision depends on; the operations are those of its theory.\<close>

record driver_ops =
  op_name :: string
  op_odr_mhz :: "int list"
  op_accel_g :: "int list"
  op_gyro_dps :: "int list"
  op_actual :: "(int \<Rightarrow> int) option"

definition ism330dhcx_ops :: driver_ops where
  "ism330dhcx_ops = \<lparr>op_name = ''ism330dhcx'', op_odr_mhz = [13016, 26031, 52063, 104125, 208250, 416500, 833000, 1666000, 3332000, 6664000],
     op_accel_g = [2, 4, 8, 16], op_gyro_dps = [125, 250, 500, 1000, 2000, 4000], op_actual = None\<rparr>"

definition icm20948_ops :: driver_ops where
  "icm20948_ops = \<lparr>op_name = ''icm20948'', op_odr_mhz = [225000, 281250, 375000, 562500, 1125000],
     op_accel_g = [2, 4, 8, 16], op_gyro_dps = [250, 500, 1000, 2000], op_actual = Some ic2_actual_odr_mhz\<rparr>"

definition icm42688p_ops :: driver_ops where
  "icm42688p_ops = \<lparr>op_name = ''icm42688p'',
     op_odr_mhz = [12500, 25000, 50000, 100000, 200000, 500000, 1000000, 2000000, 4000000, 8000000, 16000000, 32000000],
     op_accel_g = [2, 4, 8, 16], op_gyro_dps = [125, 250, 500, 1000, 2000], op_actual = None\<rparr>"

definition lsm6dso_ops :: driver_ops where
  "lsm6dso_ops = \<lparr>op_name = ''lsm6dso'', op_odr_mhz = [13016, 26031, 52063, 104125, 208250, 416500, 833000, 1666000, 3332000, 6664000],
     op_accel_g = [2, 4, 8, 16], op_gyro_dps = [125, 250, 500, 1000, 2000, 4000], op_actual = None\<rparr>"

definition lsm6dsox_ops :: driver_ops where
  "lsm6dsox_ops = \<lparr>op_name = ''lsm6dsox'', op_odr_mhz = [13016, 26031, 52063, 104125, 208250, 416500, 833000, 1666000, 3332000, 6664000],
     op_accel_g = [2, 4, 8, 16], op_gyro_dps = [125, 250, 500, 1000, 2000, 4000], op_actual = None\<rparr>"

definition mpu6500_ops :: driver_ops where
  "mpu6500_ops = \<lparr>op_name = ''mpu6500'', op_odr_mhz = [100000, 125000, 200000, 250000, 333333, 500000, 1000000],
     op_accel_g = [2, 4, 8, 16], op_gyro_dps = [250, 500, 1000, 2000], op_actual = Some mpu_actual_odr_mhz\<rparr>"

definition mpu9250_ops :: driver_ops where
  "mpu9250_ops = \<lparr>op_name = ''mpu9250'', op_odr_mhz = [100000, 125000, 200000, 250000, 333333, 500000, 1000000],
     op_accel_g = [2, 4, 8, 16], op_gyro_dps = [250, 500, 1000, 2000], op_actual = Some mpu_actual_odr_mhz\<rparr>"

definition mpu9255_ops :: driver_ops where
  "mpu9255_ops = \<lparr>op_name = ''mpu9255'', op_odr_mhz = [100000, 125000, 200000, 250000, 333333, 500000, 1000000],
     op_accel_g = [2, 4, 8, 16], op_gyro_dps = [250, 500, 1000, 2000], op_actual = Some mpu_actual_odr_mhz\<rparr>"

text \<open>The simulated parts run at whatever rate is asked for.\<close>

definition sim_actual_odr_mhz :: "int \<Rightarrow> int" where
  "sim_actual_odr_mhz req_mhz = req_mhz"

definition sim_imu_ops :: driver_ops where
  "sim_imu_ops = \<lparr>op_name = ''sim'', op_odr_mhz = [12000, 26000, 52000, 104000, 208000, 416000, 833000, 1660000],
     op_accel_g = [2, 4, 8, 16], op_gyro_dps = [125, 250, 500, 1000, 2000, 4000], op_actual = Some sim_actual_odr_mhz\<rparr>"

text \<open>A magnetometer has no ranges to choose from.\<close>

definition mag_ops :: "string \<Rightarrow> int list \<Rightarrow> (int \<Rightarrow> int) option \<Rightarrow> driver_ops" where
  "mag_ops nm odr actual = \<lparr>op_name = nm, op_odr_mhz = odr, op_accel_g = [], op_gyro_dps = [], op_actual = actual\<rparr>"

definition mmc5983ma_ops :: driver_ops where
  "mmc5983ma_ops = mag_ops ''mmc5983ma'' [1000, 10000, 20000, 50000, 100000, 200000, 1000000] (Some mmc_actual_odr_mhz)"

definition ak09916_ops :: driver_ops where "ak09916_ops = mag_ops ''ak09916'' [10000, 20000, 50000, 100000] None"
definition ak8963_ops :: driver_ops where "ak8963_ops = mag_ops ''ak8963'' [8000, 100000] None"
definition lis3mdl_ops :: driver_ops where "lis3mdl_ops = mag_ops ''lis3mdl'' [1250, 2500, 5000, 10000, 20000, 40000, 80000, 155000] None"
definition lis2mdl_ops :: driver_ops where "lis2mdl_ops = mag_ops ''lis2mdl'' [10000, 20000, 50000, 100000] None"

definition rm3100_ops :: driver_ops where
  "rm3100_ops = mag_ops ''rm3100'' [1200, 2300, 4500, 9000, 18000, 37000, 75000, 150000, 300000, 600000] None"

definition sim_mag_ops :: driver_ops where
  "sim_mag_ops = mag_ops ''sim'' [1000, 10000, 20000, 50000, 100000, 200000, 1000000] (Some sim_actual_odr_mhz)"

definition imu_registry :: "driver_ops list" where
  "imu_registry = [ism330dhcx_ops, icm20948_ops, icm42688p_ops, lsm6dso_ops, lsm6dsox_ops, mpu6500_ops, mpu9250_ops, mpu9255_ops, sim_imu_ops]"

definition mag_registry :: "driver_ops list" where
  "mag_registry = [mmc5983ma_ops, ak09916_ops, ak8963_ops, lis3mdl_ops, lis2mdl_ops, rm3100_ops, sim_mag_ops]"

fun driver_find :: "driver_ops list \<Rightarrow> string \<Rightarrow> driver_ops option" where
  "driver_find [] nm = None"
| "driver_find (p # ps) nm = (if op_name p = nm then Some p else driver_find ps nm)"

definition imu_driver_find :: "string \<Rightarrow> driver_ops option" where "imu_driver_find nm = driver_find imu_registry nm"
definition mag_driver_find :: "string \<Rightarrow> driver_ops option" where "mag_driver_find nm = driver_find mag_registry nm"

section \<open>The check of the ranges\<close>

text \<open>The text the check makes of a table is left out; the tables are short enough for it.\<close>

fun fs_in_table :: "int list \<Rightarrow> int \<Rightarrow> bool" where
  "fs_in_table [] v = False"
| "fs_in_table (t # ts) v = (if t = v then True else fs_in_table ts v)"

definition imu_fs_check :: "driver_ops \<Rightarrow> int \<Rightarrow> int \<Rightarrow> int" where
  "imu_fs_check ops accel_g gyro_dps =
     (if \<not> fs_in_table (op_accel_g ops) accel_g then -1 else if \<not> fs_in_table (op_gyro_dps ops) gyro_dps then -1 else 0)"

section \<open>What the daemon resolves\<close>

definition resolved :: "driver_ops \<Rightarrow> int \<Rightarrow> int" where
  "resolved ops req = odr_actual (op_actual ops) (op_odr_mhz ops) req"

lemmas ops_defs = ism330dhcx_ops_def icm20948_ops_def icm42688p_ops_def lsm6dso_ops_def lsm6dsox_ops_def mpu6500_ops_def mpu9250_ops_def
  mpu9255_ops_def sim_imu_ops_def mag_ops_def mmc5983ma_ops_def ak09916_ops_def ak8963_ops_def lis3mdl_ops_def lis2mdl_ops_def
  rm3100_ops_def sim_mag_ops_def

lemma table_drivers:
  "resolved ism330dhcx_ops x = ism_odr_actual x" "resolved lsm6dso_ops x = lsm_odr_actual x" "resolved lsm6dsox_ops x = lsm_odr_actual x"
  "resolved icm42688p_ops x = icm_odr_actual x"
  unfolding resolved_def ops_defs odr_actual_def snap_odr_up_def ism_odr_actual_def lsm_odr_actual_def icm_odr_actual_def
  by simp_all

lemma hook_drivers:
  "resolved mpu6500_ops = mpu_actual_odr_mhz" "resolved mpu9250_ops = mpu_actual_odr_mhz" "resolved mpu9255_ops = mpu_actual_odr_mhz"
  "resolved icm20948_ops = ic2_actual_odr_mhz" "resolved mmc5983ma_ops = mmc_actual_odr_mhz"
  by (simp_all add: fun_eq_iff resolved_def ops_defs odr_actual_def)

lemma mag_tables:
  "rm_odr_encode (resolved rm3100_ops x) = rm_odr_encode x" "odr_to_ctrl1 (resolved lis3mdl_ops x) = odr_to_ctrl1 x"
  "li2_odr_encode (resolved lis2mdl_ops x) = li2_odr_encode x" "ak8_odr_to_mode (resolved ak8963_ops x) = ak8_odr_to_mode x"
  "ak9_odr_to_mode (resolved ak09916_ops x) = ak9_odr_to_mode x"
  unfolding resolved_def ops_defs odr_actual_def snap_odr_up_def rm_odr_encode_def odr_to_ctrl1_def li2_odr_encode_def
    ak8_odr_to_mode_def ak9_odr_to_mode_def
  by simp_all

lemma snap_kept: "sorted ss \<Longrightarrow> snap_odr_up ss (snap_odr_up ss x) = snap_odr_up ss x"
proof -
  have "snap_loop x l ss = l \<and> ss = [] \<or> snap_loop x l ss \<in> set ss" for l by (induction ss arbitrary: l) auto
  moreover have "snap_loop v l ss = v" if "sorted ss" "v \<in> set ss" for v l
    using that by (induction ss arbitrary: l) (auto intro: antisym)
  ultimately show "sorted ss \<Longrightarrow> snap_odr_up ss (snap_odr_up ss x) = snap_odr_up ss x"
    unfolding snap_odr_up_def by (cases ss) force+
qed

lemma hooks_kept:
  "mpu_actual_odr_mhz (mpu_actual_odr_mhz x) = mpu_actual_odr_mhz x" "ic2_actual_odr_mhz (ic2_actual_odr_mhz x) = ic2_actual_odr_mhz x"
  "mmc_actual_odr_mhz (mmc_actual_odr_mhz x) = mmc_actual_odr_mhz x" "sim_actual_odr_mhz (sim_actual_odr_mhz x) = sim_actual_odr_mhz x"
  using divided_rates [of x] ladder_kept(4) [of x] by (simp_all add: sim_actual_odr_mhz_def)

lemma registry_kept:
  assumes "ops \<in> set (imu_registry @ mag_registry)"
  shows "resolved ops (resolved ops x) = resolved ops x"
proof (cases "op_actual ops")
  case None
  then have "sorted (op_odr_mhz ops)" using assms by (auto simp: imu_registry_def mag_registry_def ops_defs)
  then show ?thesis using None snap_kept by (simp add: resolved_def odr_actual_def)
next
  case (Some f)
  then have "f \<in> {mpu_actual_odr_mhz, ic2_actual_odr_mhz, mmc_actual_odr_mhz, sim_actual_odr_mhz}"
    using assms by (auto simp: imu_registry_def mag_registry_def ops_defs)
  then show ?thesis using Some hooks_kept by (auto simp: resolved_def odr_actual_def)
qed

lemma found_registered: "driver_find ps nm = Some ops \<Longrightarrow> ops \<in> set ps \<and> op_name ops = nm"
  by (induction ps) (auto split: if_splits)

text \<open>C40: The rate the daemon resolves is the rate every driver runs at. Whichever driver is configured, resolving a resolved rate
  changes nothing; and each driver programs its part for the resolved rate exactly as for the request itself, with the
  code of a rate, the cycle count, the mode or the divider it has. The accelerometer of the ICM-20948, which has a divider
  of its own, gets the gyroscope's, and the parts that stamp samples space them for the resolved rate.\<close>

theorem rates_resolved:
  "(case imu_driver_find nm of Some ops \<Rightarrow> resolved ops (resolved ops x) = resolved ops x | None \<Rightarrow> True) \<and>
   (case mag_driver_find nm of Some ops \<Rightarrow> resolved ops (resolved ops x) = resolved ops x | None \<Rightarrow> True) \<and>
   ism_odr_encode (resolved ism330dhcx_ops x) = ism_odr_encode x \<and> ism_odr_actual x = resolved ism330dhcx_ops x \<and>
   lsm_odr_encode (resolved lsm6dso_ops x) = lsm_odr_encode x \<and> lsm_odr_actual x = resolved lsm6dso_ops x \<and>
   lsm_odr_encode (resolved lsm6dsox_ops x) = lsm_odr_encode x \<and>
   icm_odr_encode (resolved icm42688p_ops x) = icm_odr_encode x \<and> icm_odr_actual x = resolved icm42688p_ops x \<and>
   smplrt_div_encode (resolved mpu6500_ops x) = smplrt_div_encode x \<and> smplrt_div_encode (resolved mpu9250_ops x) = smplrt_div_encode x \<and>
   smplrt_div_encode (resolved mpu9255_ops x) = smplrt_div_encode x \<and>
   gyro_smplrt_div (resolved icm20948_ops x) = gyro_smplrt_div x \<and> uint (accel_smplrt_div (resolved icm20948_ops x)) = uint (gyro_smplrt_div x) \<and>
   mmc_odr_encode (resolved mmc5983ma_ops x) = mmc_odr_encode x \<and> rm_odr_encode (resolved rm3100_ops x) = rm_odr_encode x \<and>
   odr_to_ctrl1 (resolved lis3mdl_ops x) = odr_to_ctrl1 x \<and> li2_odr_encode (resolved lis2mdl_ops x) = li2_odr_encode x \<and>
   ak8_odr_to_mode (resolved ak8963_ops x) = ak8_odr_to_mode x \<and> ak9_odr_to_mode (resolved ak09916_ops x) = ak9_odr_to_mode x"
proof -
  have f: "case driver_find ps nm of Some ops \<Rightarrow> resolved ops (resolved ops x) = resolved ops x | None \<Rightarrow> True"
    if "set ps \<subseteq> set (imu_registry @ mag_registry)" for ps
  proof (cases "driver_find ps nm")
    case (Some ops)
    then have "ops \<in> set (imu_registry @ mag_registry)" using found_registered [OF Some] that by blast
    then show ?thesis using registry_kept [of ops x] Some by simp
  qed simp
  have "case imu_driver_find nm of Some ops \<Rightarrow> resolved ops (resolved ops x) = resolved ops x | None \<Rightarrow> True"
    unfolding imu_driver_find_def by (rule f) simp
  moreover have "case mag_driver_find nm of Some ops \<Rightarrow> resolved ops (resolved ops x) = resolved ops x | None \<Rightarrow> True"
    unfolding mag_driver_find_def by (rule f) simp
  ultimately show ?thesis unfolding table_drivers hook_drivers using ladder_kept mag_tables divided_rates by blast
qed

text \<open>A range that passes the check has a code of its own: no driver replaces it by its default.\<close>

lemma ranges_distinct:
  assumes "imu_fs_check ops a g = 0" "imu_fs_check ops b h = 0"
  shows "ops \<in> {ism330dhcx_ops, lsm6dso_ops, lsm6dsox_ops} \<Longrightarrow> (snd (xl_fs_encode a) = snd (xl_fs_encode b) \<longleftrightarrow> a = b) \<and>
      (snd (gy_fs_encode g) = snd (gy_fs_encode h) \<longleftrightarrow> g = h)"
    and "ops \<in> {mpu6500_ops, mpu9250_ops, mpu9255_ops} \<Longrightarrow> (snd (mpu_accel_fs_encode a) = snd (mpu_accel_fs_encode b) \<longleftrightarrow> a = b) \<and>
      (snd (mpu_gyro_fs_encode g) = snd (mpu_gyro_fs_encode h) \<longleftrightarrow> g = h)"
proof -
  have t: "a \<in> set (op_accel_g ops)" "b \<in> set (op_accel_g ops)" "g \<in> set (op_gyro_dps ops)" "h \<in> set (op_gyro_dps ops)"
  proof -
    have e: "fs_in_table ts v \<longleftrightarrow> v \<in> set ts" for ts v by (induction ts) auto
    show "a \<in> set (op_accel_g ops)" "b \<in> set (op_accel_g ops)" "g \<in> set (op_gyro_dps ops)" "h \<in> set (op_gyro_dps ops)"
      using assms unfolding imu_fs_check_def e by (auto split: if_splits)
  qed
  show "ops \<in> {ism330dhcx_ops, lsm6dso_ops, lsm6dsox_ops} \<Longrightarrow> (snd (xl_fs_encode a) = snd (xl_fs_encode b) \<longleftrightarrow> a = b) \<and>
      (snd (gy_fs_encode g) = snd (gy_fs_encode h) \<longleftrightarrow> g = h)"
    using t by (auto simp: ops_defs xl_fs_encode_def gy_fs_encode_def)
  show "ops \<in> {mpu6500_ops, mpu9250_ops, mpu9255_ops} \<Longrightarrow> (snd (mpu_accel_fs_encode a) = snd (mpu_accel_fs_encode b) \<longleftrightarrow> a = b) \<and>
      (snd (mpu_gyro_fs_encode g) = snd (mpu_gyro_fs_encode h) \<longleftrightarrow> g = h)"
    using t by (auto simp: ops_defs mpu_accel_fs_encode_def mpu_gyro_fs_encode_def)
qed

end
