(* ===== verification/Spec2Isabelle.thy ===== *)
theory Spec2Isabelle
  imports Prelude Wire Crc32 Types Packet Client Ring Capture CaptureProps Tap Rotator CaptureThread Anchor Latency Reader
    Netserv Timing Output OutputCtx ConfigText Config ConfigTables ConfigProps Ieee Bus ChipTs Ism330 Icm42688
    Number Mekf MekfBase MekfInv MekfProps MekfGeometry MekfGain Heave Fusion FusionProps FusionStart
    CalMath CalSolve Calib CalProps CalSwing MagDrivers MagProps Lsm6dso Mpu925x Icm20948
    TdkProps Rates Drivers
begin

text \<open>
  A verification library for imud, the IMU daemon.

  The program. imud owns an inertial sensor and a magnetometer. Two reader threads (src/imu.c) drain the
  parts, timestamp the samples and put them into rings (src/ring.c); a fusion thread estimates attitude from
  them; output threads (src/output.c) encode the estimate as 288-byte packets (src/packet.c) and send them by
  UDP, over a local stream socket and over TCP (src/netserv.c). A capture thread writes the raw samples from
  a tap of the readers into rotating files (src/capture.c) that can be replayed. Clients read the stream with
  a small library (lib/libimud.c, lib/imud_client.h), which the bridges (src/bridge.c) use as well.

  What is modelled, theory by theory.

  Prelude: the C integer types as words, lists, flag bits. Wire: the little-endian fields of include/wire.h,
  with the laws that put and get undo each other. Crc32: include/crc32.h; a changed stretch of at most 32
  bits always changes the checksum. Types: the packet constants, flags and sample records of include/types.h.
  Packet: packet_build, packet_encode, packet_decode of src/packet.c; the codec is a bijection on frames with
  a correct checksum. Client: libimud's read loop over its transports, with the reassembly of a byte stream
  into frames; it delivers exactly the valid frames of the stream, whatever pieces it arrives in.
  Ring: both sample rings, as instances of one overwriting queue whose contract is a locale; Tap: the ring
  before the capture writer, an instance of a refusing queue. Capture and CaptureProps: the capture file's
  writer and reader; what is read back from whole, cut, damaged and newer files. Rotator: the names, the
  rotation and the pruning of capture files. CaptureThread: the thread
  of src/imu.c that moves records from the tap into those files, with the directory it leaves; what the files hold over
  all rotations, and which of them are still there. Anchor: the pairing of chip time and wall time, the measured
  tick and sample periods, all in the widths of the code. Latency: latency histograms, choice of rates,
  waiting times. Reader: a pass of ism_reader_thread and of mag_reader_thread, composed of the rings, the tap,
  the anchor and the rate measurement, and the threads as folds of passes. Netserv: the broadcast server and
  its slow-client policy on arrays with swap-remove. Timing: deadlines of output threads and bridges. Output:
  stream_out_thread as a step relation over connections, ticks and send results; OutputCtx: opening,
  releasing and reloading the outputs, the UDP output. ConfigText and Config: src/config.c, from the text of a
  file to the fields of the configuration, with strtol, strtod and fgets as the C library has them; ConfigTables
  and ConfigProps: its bounds, errors and round trip. Bus: src/bus.c and the register transfers of
  drivers/bus_io.h, which do the same on I2C and on SPI, where on I2C the driver sets the bits that make an address step.
  ChipTs: the time stamps of the FIFO drivers and the
  guard against implausible counter readings (drivers/chip_ts.h, st_fifo_ts.h, st_freq_fine.h). Ism330 and
  Icm42688: the drivers of the two parts, from the reset to the drain of the FIFO; what a drain delivers, how its
  samples are dated, and what the configured part holds. Ieee: the single precision arithmetic the drivers use.
  Number: vectors, matrices and quaternions over an arithmetic that is a parameter, with the functions of the
  mathematical library as a record. Mekf: src/fusion.c up to the heave, the error-state filter with its gates, its
  magnetic reference, alignment, reset and reconfiguration. MekfBase: the algebra of its covariance; MekfInv:
  its invariants over every sequence of operations; MekfProps: symmetry in any arithmetic, the recovery from numbers
  that are not finite, and what escapes it; MekfGain: every measurement update against the textbook one, with the cost
  of a protected direction; MekfGeometry: what a gravity correction and an alignment do to the heading. Heave: the rest of src/fusion.c, heave and sea
  state. Fusion: fusion_thread of src/imu.c around all of these; FusionProps: the filter's invariants, the
  holding of the outputs and the finiteness of what is published over runs of the thread; FusionStart: the
  bias a run starts from. CalMath: src/cal_math.c, the fits of imud-cal; CalSolve: elimination solves its system;
  CalProps: the sphere, the samples kept of a swing, the six positions of the accelerometer, bias over temperature;
  CalSwing: the fit of a swing in its own axes and back in those of the board. Calib: the calibration and the mount
  rotation of src/imu_math.c, which use what the fits found. MagDrivers and MagProps: the six magnetometer drivers.
  Lsm6dso, Mpu925x and Icm20948: the other drivers of inertial parts; TdkProps: what a FIFO without tags delivers
  when it runs over. Rates and Drivers: the registry of src/drivers.c, and that every driver runs at the rate the
  daemon resolved.

  How state and operations correspond. A struct is a record with the field names of the code behind a short
  prefix, a function has the name it has in the code, a loop is a recursive function of its own. What a
  system call, a clock, a driver or a socket returns is an input of the function that calls it, so a run of a
  thread is a function of a list of such inputs; nothing is assumed of them but where a hypothesis says so.
  A float that is only stored and sent is its 32-bit pattern; the drivers' sums, products and quotients of
  floats are computed on these patterns with one rounding each (Ieee). The filter and the estimators are written once
  for any type of numbers with the operations of the code: at \<open>flt\<close>, the patterns with their rounding, they are the
  code, whatever the mathematical library returns; at the reals they are what the code approximates. Each property says
  at which numbers it holds: outputs_held at all of them, sanitize_recovers,
  quiescence_lost and fusion_publishes_finite at the rounded ones, the invariants, the geometry, the bounds of
  the heave and the fits of a calibration in exact arithmetic. The doubles of waiting times and
  percentiles are rationals, rounded where the code's own rounding matters (dconst). A mutex makes the operation it guards atomic, which is how the functions here take turns.

  Bounds. Integers have the width of the code where it can matter (counters, ticks, lengths, the 64-bit
  nanosecond clocks of the time base, the narrowing of a wait to int); array indices and counts that the code
  keeps small are natural numbers, and seconds and nanoseconds of a timespec are integers. No definition has
  fuel: each loop has a termination proof, but for bridge_advance, which need not end for a period that is
  not positive and is therefore partial, with a theorem that it returns otherwise. The one bounded search,
  for a free capture name, has the code's own bound of 600.

  How the parts meet. Packets built from the filter's state, encoded, broadcast by the stream thread to
  clients that come and go, and read by the client library arrive as a subsequence of what was encoded
  (Output.subscriber_receives, on top of Packet, Crc32, Netserv and Client). Samples of a drain reach the
  fusion ring and the capture tap (Reader.reader_delivers, on top of Ring and Tap), and what the tap holds
  survives a capture file that was cut (CaptureProps.capture_torn_tail); what the capture thread wrote before
  its stop or its first failed write loads back in order from the files the rotation has kept, the one being written
  among them (CaptureThread.capture_thread_keeps, on top of Rotator). The thread that
  empties the ring runs the filter (Fusion on top of Mekf, Heave, Anchor and Latency), and the filter's invariants are
  the thread's (FusionProps.fusion_invariants, on top of MekfInv).

  Not modelled. The bounds of rounding: no property compares the rounded filter with the exact one. The
  magnetic model, spherical harmonics on doubles, and the position that feeds it; where a
  modelled function calls such code, it is a parameter (the true heading in Client). The readers of Reader take the
  calibration of a sample as a parameter too, since they see the bit patterns of a sample and Calib its numbers. The
  files of a calibration and the dialogue of imud-cal, whose fits are modelled; the replay of fit_ra.c. The bus
  backends, which are system
  calls: a backend is a record of functions on an unknown state of the part. The simulated
  sensor; the text protocols of the bridges, NMEA and MAVLink encoding, status formatting, which
  print floats; the test, calibration and monitor programs; main's start-up and signals; command lines.
\<close>

end
